(* ===== verification/Prelude.thy ===== *)
theory Prelude
  imports Main "HOL-Library.Product_Lexorder" "HOL-Library.List_Lexorder" "HOL-Library.Char_ord" "HOL-Library.Multiset"
begin

text \<open>
  Shared vocabulary of the development.

  \<^item> SQL tables: SynapBus keeps all its state in SQLite tables. A table is modelled as
    the list of its rows in rowid order together with the AUTOINCREMENT counter, and the
    statements the stores issue are the functions \<open>update_where\<close>, \<open>delete_where\<close>,
    \<open>rows_affected\<close>, \<open>find_row\<close> and \<open>limit_offset\<close>. Their laws are collected in
    \<open>sql_simps\<close>.
  \<^item> Go's \<open>strings\<close> package: strings are byte lists (UTF-8); \<open>trim_space\<close>,
    \<open>to_lower\<close>, \<open>str_fields\<close>.
  \<^item> JSON values (\<open>json\<close>) and JSON texts up to their parse (\<open>raw_json\<close>).
  \<^item> Locales shared by the components: \<open>invariant_system\<close>, a component seen as
    operations over a state with an invariant, its extension \<open>history_system\<close> with a
    relation every operation moves along, \<open>transition_system\<close>, the same for a
    step relation, and \<open>status_machine\<close>, a status column whose legal changes go up a rank.
\<close>

named_theorems sql_simps "laws of the SQL statements on row lists"
named_theorems op_defs "defining equations of the operations of the components"

type_synonym id64 = int
type_synonym timestamp = int
type_synonym agent_name = string

section \<open>SQL statements on tables\<close>

definition update_where :: "('r \<Rightarrow> bool) \<Rightarrow> ('r \<Rightarrow> 'r) \<Rightarrow> 'r list \<Rightarrow> 'r list" where
  "update_where P f rs = map (\<lambda>r. if P r then f r else r) rs"

definition delete_where :: "('r \<Rightarrow> bool) \<Rightarrow> 'r list \<Rightarrow> 'r list" where
  "delete_where P rs = filter (\<lambda>r. \<not> P r) rs"

definition rows_affected :: "('r \<Rightarrow> bool) \<Rightarrow> 'r list \<Rightarrow> nat" where
  "rows_affected P rs = length (filter P rs)"

definition find_row :: "('r \<Rightarrow> bool) \<Rightarrow> 'r list \<Rightarrow> 'r option" where
  "find_row P rs = find P rs"

text \<open>\<open>LIMIT l OFFSET o\<close>; a negative limit is no limit in SQLite.\<close>

definition limit_offset :: "int \<Rightarrow> int \<Rightarrow> 'r list \<Rightarrow> 'r list" where
  "limit_offset l off rs =
     (let tail = drop (nat off) rs in if l < 0 then tail else take (nat l) tail)"

text \<open>Row ids of a table whose AUTOINCREMENT counter stands at \<open>sq\<close>.\<close>

definition ids_ok :: "('r \<Rightarrow> id64) \<Rightarrow> id64 \<Rightarrow> 'r list \<Rightarrow> bool" where
  "ids_ok rid sq rs \<longleftrightarrow> 0 \<le> sq \<and> distinct (map rid rs) \<and> (\<forall>r \<in> set rs. 0 < rid r \<and> rid r \<le> sq)"

lemma update_where_Nil [simp, sql_simps]: "update_where P f [] = []"
  by (simp add: update_where_def)

lemma update_where_Cons [simp, sql_simps]:
  "update_where P f (r # rs) = (if P r then f r else r) # update_where P f rs"
  by (simp add: update_where_def)

lemma length_update_where [simp, sql_simps]: "length (update_where P f rs) = length rs"
  by (simp add: update_where_def)

lemma in_update_where:
  "x \<in> set (update_where P f rs) \<longleftrightarrow> (\<exists>r \<in> set rs. x = (if P r then f r else r))"
  by (auto simp: update_where_def)

lemma updated_row: "r \<in> set rs \<Longrightarrow> (if P r then f r else r) \<in> set (update_where P f rs)"
  by (auto simp: in_update_where)

lemma updated_row_hit: "r \<in> set rs \<Longrightarrow> P r \<Longrightarrow> f r \<in> set (update_where P f rs)"
  using updated_row [of r rs P f] by simp

lemma update_where_append [simp, sql_simps]:
  "update_where P f (xs @ ys) = update_where P f xs @ update_where P f ys"
  by (simp add: update_where_def)

lemma update_where_none [sql_simps]: "(\<And>r. r \<in> set rs \<Longrightarrow> \<not> P r) \<Longrightarrow> update_where P f rs = rs"
  by (induction rs) auto

lemma update_where_cong:
  "(\<And>r. r \<in> set rs \<Longrightarrow> P r = Q r) \<Longrightarrow> update_where P f rs = update_where Q f rs"
  by (induction rs) auto

lemma map_update_where [sql_simps]:
  "(\<And>r. g (f r) = g r) \<Longrightarrow> map g (update_where P f rs) = map g rs"
  by (induction rs) auto

lemma in_delete_where [simp, sql_simps]: "x \<in> set (delete_where P rs) \<longleftrightarrow> x \<in> set rs \<and> \<not> P x"
  by (simp add: delete_where_def)

lemma rows_affected_0 [simp, sql_simps]: "rows_affected P rs = 0 \<longleftrightarrow> (\<forall>r \<in> set rs. \<not> P r)"
  by (auto simp: rows_affected_def filter_empty_conv)

lemma rows_affected_pos: "0 < rows_affected P rs \<longleftrightarrow> (\<exists>r \<in> set rs. P r)"
  by (auto simp: rows_affected_def filter_empty_conv)

lemma find_row_Some: "find_row P rs = Some r \<Longrightarrow> r \<in> set rs \<and> P r"
  by (auto simp: find_row_def find_Some_iff)

lemma find_row_None [simp, sql_simps]: "find_row P rs = None \<longleftrightarrow> (\<forall>r \<in> set rs. \<not> P r)"
  by (auto simp: find_row_def find_None_iff)

lemma find_row_Nil [simp, sql_simps]: "find_row P [] = None"
  by (simp add: find_row_def)

lemma find_row_Cons [simp, sql_simps]:
  "find_row P (r # rs) = (if P r then Some r else find_row P rs)"
  by (simp add: find_row_def)

lemma find_row_key: "distinct (map key rs) \<Longrightarrow> r \<in> set rs \<Longrightarrow> find_row (\<lambda>x. key x = key r) rs = Some r"
  by (induction rs) auto

lemma find_row_append:
  "find_row P (xs @ ys) = (case find_row P xs of Some r \<Rightarrow> Some r | None \<Rightarrow> find_row P ys)"
  by (induction xs) auto

lemma set_limit_offset: "set (limit_offset l off rs) \<subseteq> set rs"
  by (auto simp: limit_offset_def Let_def dest: in_set_takeD in_set_dropD)

lemma length_limit_offset: "0 \<le> l \<Longrightarrow> length (limit_offset l off rs) \<le> nat l"
  by (simp add: limit_offset_def Let_def)

text \<open>Consecutive pages put together are the rows from the first on.\<close>

lemma limit_offset_pages:
  assumes "0 < l"
  shows "concat (map (\<lambda>k. limit_offset l (int k * l) rs) [0..<n]) = take (n * nat l) rs"
proof (induction n)
  case (Suc n)
  have "nat (int n * l) = n * nat l" using assms by (simp add: nat_mult_distrib)
  then have "limit_offset l (int n * l) rs = take (nat l) (drop (n * nat l) rs)"
    using assms by (simp add: limit_offset_def)
  with Suc take_add [of "n * nat l" "nat l" rs] show ?case by (simp add: add.commute)
qed simp

text \<open>
  A page of a sorted selection, selected again by its ids: the second \<open>ORDER BY\<close> restores the
  order of the first.
\<close>

lemma refetch_page:
  assumes "distinct (map rid (filter P rs))"
    and "ids = map rid (take l (sort_key k (filter P rs)))"
  shows "sort_key k (filter (\<lambda>r. P r \<and> rid r \<in> set ids) rs) = take l (sort_key k (filter P rs))"
proof -
  let ?S = "sort_key k (filter P rs)"
  have "distinct (map rid ?S)"
  proof -
    have "mset (map rid ?S) = mset (map rid (filter P rs))" by simp
    then show ?thesis using assms(1) mset_eq_imp_distinct_iff by metis
  qed
  then have d: "distinct (map rid (take l ?S @ drop l ?S))" by simp
  have "sort_key k (filter (\<lambda>r. P r \<and> rid r \<in> set ids) rs) =
      sort_key k (filter (\<lambda>r. rid r \<in> set ids) (filter P rs))"
    by (simp add: conj_commute)
  also have "\<dots> = filter (\<lambda>r. rid r \<in> set ids) ?S" by (simp add: filter_sort)
  also have "\<dots> = filter (\<lambda>r. rid r \<in> set ids) (take l ?S @ drop l ?S)" by simp
  also have "\<dots> = take l ?S"
  proof -
    have "rid r \<notin> set ids" if "r \<in> set (drop l ?S)" for r
      using that d assms(2) unfolding map_append distinct_append by auto
    then have "filter (\<lambda>r. rid r \<in> set ids) (drop l ?S) = []" by (simp add: filter_empty_conv)
    moreover have "filter (\<lambda>r. rid r \<in> set ids) (take l ?S) = take l ?S"
      using assms(2) by (intro filter_True) auto
    ultimately show ?thesis unfolding filter_append by simp
  qed
  finally show ?thesis .
qed

subsection \<open>Row ids\<close>

lemma ids_ok_Nil [simp]: "ids_ok rid sq [] \<longleftrightarrow> 0 \<le> sq"
  by (simp add: ids_ok_def)

lemma ids_ok_append:
  "ids_ok rid sq rs \<Longrightarrow> rid r = sq + 1 \<Longrightarrow> ids_ok rid (sq + 1) (rs @ [r])"
  by (auto simp: ids_ok_def)

lemma ids_ok_map:
  "ids_ok rid sq rs \<longleftrightarrow>
     0 \<le> sq \<and> distinct (map rid rs) \<and> (\<forall>i \<in> set (map rid rs). 0 < i \<and> i \<le> sq)"
  by (simp add: ids_ok_def)

lemma ids_ok_update_where:
  "(\<And>r. rid (f r) = rid r) \<Longrightarrow> ids_ok rid sq (update_where P f rs) \<longleftrightarrow> ids_ok rid sq rs"
  by (simp only: ids_ok_map map_update_where)

lemma ids_ok_delete_where: "ids_ok rid sq rs \<Longrightarrow> ids_ok rid sq (delete_where P rs)"
  by (auto simp: ids_ok_def delete_where_def distinct_map_filter)

lemma ids_ok_unique:
  "ids_ok rid sq rs \<Longrightarrow> r \<in> set rs \<Longrightarrow> r' \<in> set rs \<Longrightarrow> rid r = rid r' \<Longrightarrow> r = r'"
  by (auto simp: ids_ok_def distinct_map inj_on_def)

lemma ids_ok_fresh: "ids_ok rid sq rs \<Longrightarrow> r \<in> set rs \<Longrightarrow> rid r \<noteq> sq + 1"
  by (auto simp: ids_ok_def)

lemma find_row_id:
  "ids_ok rid sq rs \<Longrightarrow> r \<in> set rs \<Longrightarrow> find_row (\<lambda>x. rid x = rid r) rs = Some r"
proof (cases "find_row (\<lambda>x. rid x = rid r) rs")
  case None
  assume "r \<in> set rs"
  with None show ?thesis by auto
next
  case (Some x)
  assume "ids_ok rid sq rs" "r \<in> set rs"
  with find_row_Some [OF Some] Some show ?thesis by (auto dest: ids_ok_unique)
qed

lemma find_row_update_where_id:
  assumes "\<And>r. rid (f r) = rid r"
  shows "find_row (\<lambda>r. rid r = i) (update_where P f rs) =
    map_option (\<lambda>r. if P r then f r else r) (find_row (\<lambda>r. rid r = i) rs)"
  using assms by (induction rs) auto

subsection \<open>Removing by position\<close>

fun remove_nth :: "nat \<Rightarrow> 'a list \<Rightarrow> 'a list" where
  "remove_nth n [] = []"
| "remove_nth 0 (x # xs) = xs"
| "remove_nth (Suc n) (x # xs) = x # remove_nth n xs"

lemma set_remove_nth: "set (remove_nth k xs) \<subseteq> set xs"
  by (induction k xs rule: remove_nth.induct) auto

lemma length_remove_nth [simp]: "k < length xs \<Longrightarrow> length (remove_nth k xs) = length xs - 1"
  by (induction k xs rule: remove_nth.induct) (auto simp: less_Suc_eq_0_disj)

lemma remove_nth_distinct:
  "distinct (map f xs) \<Longrightarrow> k < length xs \<Longrightarrow>
   distinct (map f (remove_nth k xs)) \<and> f (xs ! k) \<notin> f ` set (remove_nth k xs) \<and>
   set xs = insert (xs ! k) (set (remove_nth k xs))"
proof (induction k xs rule: remove_nth.induct)
  case (3 n x xs)
  then show ?case using set_remove_nth [of n xs] by (auto simp: image_iff)
qed auto

section \<open>Go strings\<close>

text \<open>The UTF-8 encodings of the white space code points of \<open>unicode.IsSpace\<close>.\<close>

definition space_encodings :: "string list" where
  "space_encodings =
     [[CHR 0x09], [CHR 0x0A], [CHR 0x0B], [CHR 0x0C], [CHR 0x0D], [CHR 0x20],
      [CHR 0xC2, CHR 0x85], [CHR 0xC2, CHR 0xA0], [CHR 0xE1, CHR 0x9A, CHR 0x80]] @
     map (\<lambda>b. [CHR 0xE2, CHR 0x80, b])
       [CHR 0x80, CHR 0x81, CHR 0x82, CHR 0x83, CHR 0x84, CHR 0x85, CHR 0x86, CHR 0x87,
        CHR 0x88, CHR 0x89, CHR 0x8A, CHR 0xA8, CHR 0xA9, CHR 0xAF] @
     [[CHR 0xE2, CHR 0x81, CHR 0x9F], [CHR 0xE3, CHR 0x80, CHR 0x80]]"

fun strip_prefix :: "string \<Rightarrow> string \<Rightarrow> string option" where
  "strip_prefix [] s = Some s"
| "strip_prefix (p # ps) [] = None"
| "strip_prefix (p # ps) (c # s) = (if p = c then strip_prefix ps s else None)"

fun strip_any :: "string list \<Rightarrow> string \<Rightarrow> string option" where
  "strip_any [] s = None"
| "strip_any (p # ps) s = (case strip_prefix p s of Some t \<Rightarrow> Some t | None \<Rightarrow> strip_any ps s)"

lemma strip_prefix_eq: "strip_prefix p s = Some t \<longleftrightarrow> s = p @ t"
  by (induction p s rule: strip_prefix.induct) auto

lemma strip_any_Some: "strip_any ps s = Some t \<Longrightarrow> \<exists>p \<in> set ps. s = p @ t"
  by (induction ps) (auto simp: strip_prefix_eq split: option.splits)

function trim_left_of :: "string list \<Rightarrow> string \<Rightarrow> string" where
  "trim_left_of ps s =
     (case strip_any ps s of
        None \<Rightarrow> s
      | Some t \<Rightarrow> if length t < length s then trim_left_of ps t else s)"
  by pat_completeness auto
termination
  by (relation "measure (\<lambda>(ps, s). length s)") auto

declare trim_left_of.simps [simp del]

definition trim_space :: "string \<Rightarrow> string" where
  "trim_space s = rev (trim_left_of (map rev space_encodings) (rev (trim_left_of space_encodings s)))"

text \<open>\<open>strings.Fields\<close>: the maximal runs of bytes that start no white space.\<close>

function str_fields_acc :: "string \<Rightarrow> string \<Rightarrow> string list" where
  "str_fields_acc acc [] = (if acc = [] then [] else [rev acc])"
| "str_fields_acc acc (c # s) =
     (case strip_any space_encodings (c # s) of
        Some t \<Rightarrow>
          if length t \<le> length s then (if acc = [] then [] else [rev acc]) @ str_fields_acc [] t
          else str_fields_acc (c # acc) s
      | None \<Rightarrow> str_fields_acc (c # acc) s)"
  by pat_completeness auto
termination
  by (relation "measure (\<lambda>(acc, s). length s)") auto

definition str_fields :: "string \<Rightarrow> string list" where
  "str_fields s = str_fields_acc [] s"

text \<open>The usual loop that keeps the first occurrence of each element of a slice.\<close>

fun dedup_acc :: "'a list \<Rightarrow> 'a list \<Rightarrow> 'a list" where
  "dedup_acc seen [] = []"
| "dedup_acc seen (x # xs) =
     (if x \<in> set seen then dedup_acc seen xs else x # dedup_acc (x # seen) xs)"

definition dedup :: "'a list \<Rightarrow> 'a list" where
  "dedup xs = dedup_acc [] xs"

lemma set_dedup_acc: "set (dedup_acc seen xs) = set xs - set seen"
  by (induction seen xs rule: dedup_acc.induct) auto

lemma set_dedup [simp]: "set (dedup xs) = set xs"
  by (simp add: dedup_def set_dedup_acc)

lemma distinct_dedup [simp]: "distinct (dedup xs)"
proof -
  have "distinct (dedup_acc seen xs)" for seen
    by (induction seen xs rule: dedup_acc.induct) (auto simp: set_dedup_acc)
  then show ?thesis by (simp add: dedup_def)
qed

definition to_lower_char :: "char \<Rightarrow> char" where
  "to_lower_char c = (let n = of_char c in if 65 \<le> n \<and> n \<le> (90::nat) then char_of (n + 32) else c)"

definition to_lower :: "string \<Rightarrow> string" where
  "to_lower s = map to_lower_char s"

definition is_alnum :: "char \<Rightarrow> bool" where
  "is_alnum c = (let n = of_char c :: nat in
     (48 \<le> n \<and> n \<le> 57) \<or> (65 \<le> n \<and> n \<le> 90) \<or> (97 \<le> n \<and> n \<le> 122))"

lemma length_to_lower [simp]: "length (to_lower s) = length s"
  by (simp add: to_lower_def)

text \<open>Decimal printing, as \<open>strconv\<close> and \<open>fmt\<close> do.\<close>

fun show_nat :: "nat \<Rightarrow> string" where
  "show_nat n = (if n < 10 then [char_of (48 + n)] else show_nat (n div 10) @ [char_of (48 + n mod 10)])"

declare show_nat.simps [simp del]

definition show_int :: "int \<Rightarrow> string" where
  "show_int i = (if i < 0 then CHR ''-'' # show_nat (nat (- i)) else show_nat (nat i))"

section \<open>JSON\<close>

datatype json =
    JNull
  | JBool bool
  | JNum int
  | JStr string
  | JArr "json list"
  | JObj "(string \<times> json) list"

text \<open>
  A JSON text up to its parse: the empty text, a text \<open>json.Valid\<close> rejects, or the text
  of a value.
\<close>

datatype raw_json = REmpty | RMalformed string | RValid json

text \<open>
  The text \<open>json.Marshal\<close> writes for a string: quotation marks, backslashes, control
  characters and the HTML characters are escaped, other bytes are copied.
\<close>

definition hex_digit :: "nat \<Rightarrow> char" where
  "hex_digit n = char_of (if n < 10 then 48 + n else 87 + n)"

definition json_escape_char :: "char \<Rightarrow> string" where
  "json_escape_char c =
     (let n = of_char c :: nat in
      if n = 0x22 \<or> n = 0x5C then [CHR 0x5C, c]
      else if n = 8 then [CHR 0x5C, CHR ''b'']
      else if n = 12 then [CHR 0x5C, CHR ''f'']
      else if n = 10 then [CHR 0x5C, CHR ''n'']
      else if n = 13 then [CHR 0x5C, CHR ''r'']
      else if n = 9 then [CHR 0x5C, CHR ''t'']
      else if n < 0x20 \<or> n = 0x3C \<or> n = 0x3E \<or> n = 0x26 then
        CHR 0x5C # ''u00'' @ [hex_digit (n div 16), hex_digit (n mod 16)]
      else [c])"

definition json_string :: "string \<Rightarrow> string" where
  "json_string s = CHR 0x22 # concat (map json_escape_char s) @ [CHR 0x22]"

section \<open>Components as operations over a state\<close>

locale invariant_system =
  fixes exec :: "'op \<Rightarrow> 's \<Rightarrow> 's" and inv :: "'s \<Rightarrow> bool"
  assumes exec_inv: "inv s \<Longrightarrow> inv (exec op s)"
begin

lemma run_inv: "inv s \<Longrightarrow> inv (fold exec ops s)"
  by (induction ops arbitrary: s) (auto intro: exec_inv)

end

text \<open>A relation between an earlier and a later state that every operation respects.\<close>

locale history_system = invariant_system exec inv
  for exec :: "'op \<Rightarrow> 's \<Rightarrow> 's" and inv :: "'s \<Rightarrow> bool" +
  fixes later :: "'s \<Rightarrow> 's \<Rightarrow> bool"
  assumes later_refl: "later s s"
    and later_trans: "later s t \<Longrightarrow> later t u \<Longrightarrow> later s u"
    and exec_later: "inv s \<Longrightarrow> later s (exec op s)"
begin

lemma run_later: "inv s \<Longrightarrow> later s (fold exec ops s)"
proof (induction ops arbitrary: s)
  case Nil
  show ?case by (simp add: later_refl)
next
  case (Cons op ops)
  from Cons.prems have "later s (exec op s)" by (rule exec_later)
  moreover from Cons.prems have "later (exec op s) (fold exec ops (exec op s))"
    by (intro Cons.IH exec_inv)
  ultimately show ?case by (auto intro: later_trans)
qed

end

text \<open>A component seen as a step relation with an invariant.\<close>

locale transition_system =
  fixes step :: "'s \<Rightarrow> 's \<Rightarrow> bool" and inv :: "'s \<Rightarrow> bool"
  assumes step_inv: "step s t \<Longrightarrow> inv s \<Longrightarrow> inv t"
begin

lemma reachable_inv: "step\<^sup>*\<^sup>* s t \<Longrightarrow> inv s \<Longrightarrow> inv t"
  by (induction rule: rtranclp_induct) (auto intro: step_inv)

lemma reachable_law:
  assumes "step\<^sup>*\<^sup>* s t" "inv s" and "\<And>a. later a a" and "\<And>a b c. later a b \<Longrightarrow> later b c \<Longrightarrow> later a c"
    and "\<And>a b. step a b \<Longrightarrow> inv a \<Longrightarrow> later a b"
  shows "later s t"
  using assms(1,2)
proof (induction rule: rtranclp_induct)
  case (step t u)
  with assms(4,5) reachable_inv show ?case by blast
qed (rule assms(3))

end

text \<open>A status column whose legal changes go up a rank.\<close>

locale status_machine =
  fixes legal :: "'st \<Rightarrow> 'st \<Rightarrow> bool" and rank :: "'st \<Rightarrow> nat"
  assumes legal_rank: "legal a b \<Longrightarrow> rank a < rank b"
begin

lemma path_rank: "legal\<^sup>+\<^sup>+ a b \<Longrightarrow> rank a < rank b"
  by (induction rule: tranclp_induct) (auto dest: legal_rank)

lemma no_return: "\<not> legal\<^sup>+\<^sup>+ a a"
  using path_rank by blast

lemma path_length: "(legal ^^ n) a b \<Longrightarrow> rank a + n \<le> rank b"
proof (induction n arbitrary: b)
  case 0
  then show ?case by simp
next
  case (Suc n)
  then obtain c where "(legal ^^ n) a c" "legal c b" by auto
  with Suc.IH [of c] legal_rank [of c b] show ?case by simp
qed

end

end
