(* ===== verification/Goal_Tasks.thy ===== *)
theory Goal_Tasks
  imports Prelude
begin

text \<open>
  The goal task tree of \<open>internal/goaltasks\<close>: data of \<open>types.go\<close>, the SQL statements of
  \<open>store.go\<close> and the service operations of \<open>service.go\<close>. The table \<open>goal_tasks\<close> is the
  row list of \<open>gt_db\<close>, with the ids of the rows its foreign keys refer to. A nullable
  string column holds the empty string where SQL has NULL (\<open>nullableString\<close> and
  \<open>scanTask\<close> convert between the two), and a JSON column holds the value its text decodes
  to. Every statement may fail for reasons of its own (disk, lock); the arguments
  \<open>flt\<close> and \<open>commit_fails\<close> say which do.
\<close>

section \<open>Data\<close>

datatype task_status =
    GProposed | GApproved | GClaimed | GInProgress | GAwaitingVerification
  | GDone | GFailed | GCancelled

record AncestryNode =
  an_ID :: id64
  an_Title :: string
  an_AcceptanceCriteria :: string

record VerifierConfig =
  vc_Kind :: string
  vc_AgentID :: id64
  vc_Cmd :: string
  vc_Cwd :: string
  vc_TimeoutSec :: int

record HeartbeatConfig =
  hb_Source :: string
  hb_IntervalSec :: int

record Task =
  gt_ID :: id64
  gt_GoalID :: id64
  gt_ParentTaskID :: "id64 option"
  gt_Ancestry :: "AncestryNode list"
  gt_Depth :: int
  gt_Title :: string
  gt_Description :: string
  gt_AcceptanceCriteria :: string
  gt_CreatedByAgentID :: "id64 option"
  gt_CreatedByUserID :: "id64 option"
  gt_AssigneeAgentID :: "id64 option"
  gt_Status :: task_status
  gt_BillingCode :: string
  gt_BudgetTokens :: "int option"
  gt_BudgetDollarsCents :: "int option"
  gt_SpentTokens :: int
  gt_SpentDollarsCents :: int
  gt_HeartbeatConfig :: "HeartbeatConfig option"
  gt_VerifierConfig :: "VerifierConfig option"
  gt_OriginMessageID :: "id64 option"
  gt_ClaimMessageID :: "id64 option"
  gt_CompletionMessageID :: "id64 option"
  gt_FailureReason :: string
  gt_CreatedAt :: timestamp
  gt_ApprovedAt :: "timestamp option"
  gt_ClaimedAt :: "timestamp option"
  gt_StartedAt :: "timestamp option"
  gt_CompletedAt :: "timestamp option"

datatype TreeNode = TreeNode
  (tn_Title: string)
  (tn_Description: string)
  (tn_AcceptanceCriteria: string)
  (tn_BillingCode: string)
  (tn_BudgetTokens: "int option")
  (tn_BudgetDollarsCents: "int option")
  (tn_VerifierConfig: "VerifierConfig option")
  (tn_HeartbeatConfig: "HeartbeatConfig option")
  (tn_Children: "TreeNode list")

record CreateTreeInput =
  ct_GoalID :: id64
  ct_CreatedByAgent :: "id64 option"
  ct_CreatedByUser :: "id64 option"
  ct_Root :: TreeNode
  ct_InitialStatus :: "task_status option"
  ct_DefaultBilling :: string

record Extras =
  ex_FailureReason :: string
  ex_CompletionMessageID :: "id64 option"

record Spend =
  sp_Tokens :: int
  sp_DollarsCents :: int

datatype gt_error =
    ErrTaskNotFound
  | ErrAlreadyClaimed
  | ErrIllegalTransition task_status task_status
  | ErrAncestryOverflow
  | ErrStatement

record gt_db =
  gt_rows :: "Task list"
  gt_seq :: id64
  gt_goals :: "id64 list"
  gt_agents :: "id64 list"
  gt_users :: "id64 list"
  gt_messages :: "id64 list"

section \<open>The ancestry blob\<close>

definition MaxAncestryBytes :: nat where
  "MaxAncestryBytes = 16 * 1024"

definition json_key :: "string \<Rightarrow> string" where
  "json_key k = json_string k @ '':''"

definition ancestry_node_json :: "AncestryNode \<Rightarrow> string" where
  "ancestry_node_json nd =
     ''{'' @ json_key ''id'' @ show_int (an_ID nd) @ '','' @
     json_key ''title'' @ json_string (an_Title nd) @
     (if an_AcceptanceCriteria nd = '''' then ''''
      else '','' @ json_key ''acceptance_criteria'' @ json_string (an_AcceptanceCriteria nd)) @ ''}''"

fun join_comma :: "string list \<Rightarrow> string" where
  "join_comma [] = ''''"
| "join_comma [x] = x"
| "join_comma (x # y # xs) = x @ '','' @ join_comma (y # xs)"

text \<open>The chain of a root task is a nil slice, which \<open>json.Marshal\<close> writes as \<open>null\<close>.\<close>

definition ancestry_json :: "AncestryNode list \<Rightarrow> string" where
  "ancestry_json nodes =
     (if nodes = [] then ''null'' else ''['' @ join_comma (map ancestry_node_json nodes) @ '']'')"

definition marshalAncestry :: "AncestryNode list \<Rightarrow> gt_error + string" where
  "marshalAncestry nodes =
     (let b = ancestry_json nodes in
      if MaxAncestryBytes < length b then Inl ErrAncestryOverflow else Inr b)"

section \<open>Store\<close>

definition fk_ok :: "id64 list \<Rightarrow> id64 option \<Rightarrow> bool" where
  "fk_ok ids r = (case r of None \<Rightarrow> True | Some i \<Rightarrow> i \<in> set ids)"

text \<open>The foreign keys and the CHECK of migration 021 on an inserted row.\<close>

definition insert_check :: "gt_db \<Rightarrow> Task \<Rightarrow> bool" where
  "insert_check db t \<longleftrightarrow>
     gt_GoalID t \<in> set (gt_goals db) \<and>
     fk_ok (map gt_ID (gt_rows db)) (gt_ParentTaskID t) \<and>
     fk_ok (gt_agents db) (gt_CreatedByAgentID t) \<and>
     fk_ok (gt_users db) (gt_CreatedByUserID t) \<and>
     fk_ok (gt_agents db) (gt_AssigneeAgentID t) \<and>
     (gt_CreatedByAgentID t \<noteq> None \<or> gt_CreatedByUserID t \<noteq> None)"

text \<open>The stored row: the columns the INSERT does not name take their defaults.\<close>

definition new_row :: "timestamp \<Rightarrow> id64 \<Rightarrow> Task \<Rightarrow> Task" where
  "new_row now i t =
     t\<lparr>gt_ID := i, gt_SpentTokens := 0, gt_SpentDollarsCents := 0,
       gt_OriginMessageID := None, gt_ClaimMessageID := None,
       gt_CompletionMessageID := None, gt_FailureReason := '''',
       gt_CreatedAt := now, gt_ApprovedAt := None, gt_ClaimedAt := None,
       gt_StartedAt := None, gt_CompletedAt := None\<rparr>"

definition gt_Insert :: "(Task \<Rightarrow> bool) \<Rightarrow> timestamp \<Rightarrow> Task \<Rightarrow> gt_db \<Rightarrow> gt_error + gt_db \<times> id64" where
  "gt_Insert flt now t db =
     (case marshalAncestry (gt_Ancestry t) of
        Inl e \<Rightarrow> Inl e
      | Inr _ \<Rightarrow>
          if flt t \<or> \<not> insert_check db t then Inl ErrStatement
          else let i = gt_seq db + 1
            in Inr (db\<lparr>gt_rows := gt_rows db @ [new_row now i t], gt_seq := i\<rparr>, i))"

definition gt_Get :: "gt_db \<Rightarrow> id64 \<Rightarrow> gt_error + Task" where
  "gt_Get db i =
     (case find_row (\<lambda>t. gt_ID t = i) (gt_rows db) of None \<Rightarrow> Inl ErrTaskNotFound | Some t \<Rightarrow> Inr t)"

definition gt_ListByGoal :: "gt_db \<Rightarrow> id64 \<Rightarrow> Task list" where
  "gt_ListByGoal db goal = sort_key gt_ID (filter (\<lambda>t. gt_GoalID t = goal) (gt_rows db))"

definition claimable :: "id64 \<Rightarrow> Task \<Rightarrow> bool" where
  "claimable i t \<longleftrightarrow> gt_ID t = i \<and> gt_AssigneeAgentID t = None \<and> gt_Status t = GApproved"

definition ClaimAtomic ::
  "timestamp \<Rightarrow> id64 \<Rightarrow> id64 \<Rightarrow> id64 option \<Rightarrow> gt_db \<Rightarrow> (gt_error + unit) \<times> gt_db" where
  "ClaimAtomic now taskID agentID claimMessageID db =
     (if rows_affected (claimable taskID) (gt_rows db) = 0 then (Inl ErrAlreadyClaimed, db)
      else if \<not> (fk_ok (gt_agents db) (Some agentID) \<and> fk_ok (gt_messages db) claimMessageID)
      then (Inl ErrStatement, db)
      else (Inr (), db\<lparr>gt_rows := update_where (claimable taskID)
             (\<lambda>t. t\<lparr>gt_AssigneeAgentID := Some agentID, gt_Status := GClaimed,
                    gt_ClaimedAt := Some now, gt_ClaimMessageID := claimMessageID\<rparr>) (gt_rows db)\<rparr>))"

definition closing :: "task_status \<Rightarrow> bool" where
  "closing st \<longleftrightarrow> st = GDone \<or> st = GFailed \<or> st = GCancelled"

definition transition_row :: "timestamp \<Rightarrow> task_status \<Rightarrow> Extras \<Rightarrow> Task \<Rightarrow> Task" where
  "transition_row now newStatus extras t =
     t\<lparr>gt_Status := newStatus,
       gt_StartedAt := (case gt_StartedAt t of Some x \<Rightarrow> Some x
         | None \<Rightarrow> if newStatus = GInProgress then Some now else None),
       gt_CompletedAt := (if closing newStatus then Some now else gt_CompletedAt t),
       gt_FailureReason := (if ex_FailureReason extras = '''' then gt_FailureReason t
         else ex_FailureReason extras),
       gt_CompletionMessageID := (case ex_CompletionMessageID extras of Some m \<Rightarrow> Some m
         | None \<Rightarrow> gt_CompletionMessageID t)\<rparr>"

definition TransitionStatus ::
  "timestamp \<Rightarrow> id64 \<Rightarrow> task_status \<Rightarrow> Extras \<Rightarrow> gt_db \<Rightarrow> (gt_error + unit) \<times> gt_db" where
  "TransitionStatus now taskID newStatus extras db =
     (if 0 < rows_affected (\<lambda>t. gt_ID t = taskID) (gt_rows db) \<and>
         \<not> fk_ok (gt_messages db) (ex_CompletionMessageID extras)
      then (Inl ErrStatement, db)
      else (Inr (), db\<lparr>gt_rows := update_where (\<lambda>t. gt_ID t = taskID)
             (transition_row now newStatus extras) (gt_rows db)\<rparr>))"

definition gt_AddSpend :: "id64 \<Rightarrow> int \<Rightarrow> int \<Rightarrow> gt_db \<Rightarrow> gt_db" where
  "gt_AddSpend taskID tokens dollarsCents db =
     db\<lparr>gt_rows := update_where (\<lambda>t. gt_ID t = taskID)
       (\<lambda>t. t\<lparr>gt_SpentTokens := gt_SpentTokens t + tokens,
              gt_SpentDollarsCents := gt_SpentDollarsCents t + dollarsCents\<rparr>) (gt_rows db)\<rparr>"

text \<open>
  The recursive common table expression \<open>subtree\<close> of the rollups. One round replaces the
  frontier by the rows whose parent is in it (\<open>UNION ALL\<close> keeps duplicates); the table
  is what all rounds produce, and \<open>None\<close> stands for a recursion that has not ended within
  the given number of rounds.
\<close>

definition children_of :: "Task list \<Rightarrow> id64 list \<Rightarrow> id64 list" where
  "children_of rows fr =
     concat (map (\<lambda>s. map gt_ID (filter (\<lambda>t. gt_ParentTaskID t = Some s) rows)) fr)"

fun subtree_cte :: "nat \<Rightarrow> Task list \<Rightarrow> id64 list \<Rightarrow> id64 list option" where
  "subtree_cte fuel rows [] = Some []"
| "subtree_cte 0 rows (x # xs) = None"
| "subtree_cte (Suc fuel) rows (x # xs) =
     map_option (\<lambda>ys. (x # xs) @ ys) (subtree_cte fuel rows (children_of rows (x # xs)))"

definition subtree :: "gt_db \<Rightarrow> id64 \<Rightarrow> id64 list option" where
  "subtree db root = subtree_cte (Suc (nat (gt_seq db))) (gt_rows db)
     (map gt_ID (filter (\<lambda>t. gt_ID t = root) (gt_rows db)))"

definition RollupCosts :: "gt_db \<Rightarrow> id64 \<Rightarrow> (int \<times> int \<times> nat) option" where
  "RollupCosts db root =
     map_option (\<lambda>ids. let ts = filter (\<lambda>t. gt_ID t \<in> set ids) (gt_rows db) in
       (sum_list (map gt_SpentTokens ts), sum_list (map gt_SpentDollarsCents ts), length ts))
     (subtree db root)"

definition RollupByBillingCode :: "gt_db \<Rightarrow> id64 \<Rightarrow> (string \<times> Spend) list option" where
  "RollupByBillingCode db root =
     map_option (\<lambda>ids. let ts = filter (\<lambda>t. gt_ID t \<in> set ids) (gt_rows db) in
       map (\<lambda>code. let g = filter (\<lambda>t. gt_BillingCode t = code) ts in
              (code, \<lparr>sp_Tokens = sum_list (map gt_SpentTokens g),
                      sp_DollarsCents = sum_list (map gt_SpentDollarsCents g)\<rparr>))
         (remdups (map gt_BillingCode ts)))
     (subtree db root)"

section \<open>Service\<close>

fun legalTransition :: "task_status \<Rightarrow> task_status \<Rightarrow> bool" where
  "legalTransition from to =
     (if to = GCancelled then from \<noteq> GDone \<and> from \<noteq> GFailed \<and> from \<noteq> GCancelled
      else (case from of
          GProposed \<Rightarrow> to = GApproved
        | GApproved \<Rightarrow> to = GClaimed
        | GClaimed \<Rightarrow> to = GInProgress \<or> to = GAwaitingVerification
        | GInProgress \<Rightarrow> to = GAwaitingVerification
        | GAwaitingVerification \<Rightarrow> to = GDone \<or> to = GFailed
        | _ \<Rightarrow> False))"

definition node_task ::
  "CreateTreeInput \<Rightarrow> TreeNode \<Rightarrow> id64 option \<Rightarrow> int \<Rightarrow> AncestryNode list \<Rightarrow> Task" where
  "node_task inp node parentID depth ancestry =
     \<lparr>gt_ID = 0, gt_GoalID = ct_GoalID inp, gt_ParentTaskID = parentID,
      gt_Ancestry = ancestry, gt_Depth = depth,
      gt_Title = tn_Title node, gt_Description = tn_Description node,
      gt_AcceptanceCriteria = tn_AcceptanceCriteria node,
      gt_CreatedByAgentID = ct_CreatedByAgent inp, gt_CreatedByUserID = ct_CreatedByUser inp,
      gt_AssigneeAgentID = None,
      gt_Status = (case ct_InitialStatus inp of None \<Rightarrow> GApproved | Some st \<Rightarrow> st),
      gt_BillingCode = (if tn_BillingCode node = '''' then ct_DefaultBilling inp
        else tn_BillingCode node),
      gt_BudgetTokens = tn_BudgetTokens node,
      gt_BudgetDollarsCents = tn_BudgetDollarsCents node,
      gt_SpentTokens = 0, gt_SpentDollarsCents = 0,
      gt_HeartbeatConfig = tn_HeartbeatConfig node,
      gt_VerifierConfig = tn_VerifierConfig node,
      gt_OriginMessageID = None, gt_ClaimMessageID = None, gt_CompletionMessageID = None,
      gt_FailureReason = '''', gt_CreatedAt = 0, gt_ApprovedAt = None, gt_ClaimedAt = None,
      gt_StartedAt = None, gt_CompletedAt = None\<rparr>"

declare legalTransition.simps [simp del]

text \<open>
  The recursive closure \<open>walk\<close> of \<open>CreateTree\<close> and its loop over the children; the state
  is the database inside the transaction and \<open>allIDs\<close>.
\<close>

fun walk ::
  "(Task \<Rightarrow> bool) \<Rightarrow> timestamp \<Rightarrow> CreateTreeInput \<Rightarrow> TreeNode \<Rightarrow> id64 option \<Rightarrow> int \<Rightarrow>
   AncestryNode list \<Rightarrow> gt_db \<Rightarrow> id64 list \<Rightarrow> gt_error + id64 \<times> gt_db \<times> id64 list"
and walk_children ::
  "(Task \<Rightarrow> bool) \<Rightarrow> timestamp \<Rightarrow> CreateTreeInput \<Rightarrow> TreeNode list \<Rightarrow> id64 \<Rightarrow> int \<Rightarrow>
   AncestryNode list \<Rightarrow> gt_db \<Rightarrow> id64 list \<Rightarrow> gt_error + gt_db \<times> id64 list" where
  "walk flt now inp (TreeNode ti de ac bi bt bd vc hc children) parentID depth ancestry db allIDs =
     (case gt_Insert flt now
             (node_task inp (TreeNode ti de ac bi bt bd vc hc children) parentID depth ancestry) db of
        Inl e \<Rightarrow> Inl e
      | Inr (db1, i) \<Rightarrow>
          (case walk_children flt now inp children i (depth + 1)
                  (ancestry @ [\<lparr>an_ID = i, an_Title = ti, an_AcceptanceCriteria = ac\<rparr>])
                  db1 (allIDs @ [i]) of
             Inl e \<Rightarrow> Inl e
           | Inr (db2, ids2) \<Rightarrow> Inr (i, db2, ids2)))"
| "walk_children flt now inp [] parentID depth ancestry db allIDs = Inr (db, allIDs)"
| "walk_children flt now inp (child # rest) parentID depth ancestry db allIDs =
     (case walk flt now inp child (Some parentID) depth ancestry db allIDs of
        Inl e \<Rightarrow> Inl e
      | Inr (i, db1, ids1) \<Rightarrow> walk_children flt now inp rest parentID depth ancestry db1 ids1)"

definition CreateTree ::
  "(Task \<Rightarrow> bool) \<Rightarrow> bool \<Rightarrow> timestamp \<Rightarrow> CreateTreeInput \<Rightarrow> gt_db \<Rightarrow>
   (gt_error + id64 \<times> id64 list) \<times> gt_db" where
  "CreateTree flt commit_fails now inp db =
     (case walk flt now inp (ct_Root inp) None 0 [] db [] of
        Inl e \<Rightarrow> (Inl e, db)
      | Inr (root, db', ids) \<Rightarrow>
          if commit_fails then (Inl ErrStatement, db) else (Inr (root, ids), db'))"

definition gt_Claim ::
  "timestamp \<Rightarrow> id64 \<Rightarrow> id64 \<Rightarrow> id64 option \<Rightarrow> gt_db \<Rightarrow> (gt_error + unit) \<times> gt_db" where
  "gt_Claim now taskID agentID claimMessageID db = ClaimAtomic now taskID agentID claimMessageID db"

definition gt_Transition ::
  "timestamp \<Rightarrow> id64 \<Rightarrow> task_status \<Rightarrow> Extras \<Rightarrow> gt_db \<Rightarrow> (gt_error + unit) \<times> gt_db" where
  "gt_Transition now taskID newStatus extras db =
     (case gt_Get db taskID of
        Inl e \<Rightarrow> (Inl e, db)
      | Inr t \<Rightarrow>
          if \<not> legalTransition (gt_Status t) newStatus
          then (Inl (ErrIllegalTransition (gt_Status t) newStatus), db)
          else TransitionStatus now taskID newStatus extras db)"


section \<open>The tree invariant\<close>

text \<open>
  The denormalised columns agree with the parent pointers: a root has no ancestry and depth
  0, any other task has the depth of its parent plus one and its parent's chain extended by
  the parent. An unclaimed task has no assignee.
\<close>

definition node_of :: "Task \<Rightarrow> AncestryNode" where
  "node_of t = \<lparr>an_ID = gt_ID t, an_Title = gt_Title t,
     an_AcceptanceCriteria = gt_AcceptanceCriteria t\<rparr>"

definition child_of :: "Task \<Rightarrow> Task \<Rightarrow> bool" where
  "child_of t q \<longleftrightarrow> gt_ID q < gt_ID t \<and> gt_GoalID q = gt_GoalID t \<and>
     gt_Depth t = gt_Depth q + 1 \<and> gt_Ancestry t = gt_Ancestry q @ [node_of q]"

definition tree_ok :: "Task list \<Rightarrow> Task \<Rightarrow> bool" where
  "tree_ok rows t \<longleftrightarrow>
     (case gt_ParentTaskID t of
        None \<Rightarrow> gt_Ancestry t = [] \<and> gt_Depth t = 0
      | Some p \<Rightarrow> \<exists>q \<in> set rows. gt_ID q = p \<and> child_of t q)"

definition unclaimed :: "Task \<Rightarrow> bool" where
  "unclaimed t \<longleftrightarrow> gt_Status t = GProposed \<or> gt_Status t = GApproved"

definition gt_inv :: "gt_db \<Rightarrow> bool" where
  "gt_inv db \<longleftrightarrow> ids_ok gt_ID (gt_seq db) (gt_rows db) \<and>
     (\<forall>t \<in> set (gt_rows db). tree_ok (gt_rows db) t) \<and>
     (\<forall>t \<in> set (gt_rows db). unclaimed t \<longrightarrow> gt_AssigneeAgentID t = None)"

text \<open>The columns of the tree structure, which only \<open>CreateTree\<close> writes.\<close>

definition shape where
  "shape t = (gt_ID t, gt_GoalID t, gt_ParentTaskID t, gt_Ancestry t, gt_Depth t,
     gt_Title t, gt_AcceptanceCriteria t)"

lemma child_of_shape: "shape t = shape t' \<Longrightarrow> shape q = shape q' \<Longrightarrow> child_of t q = child_of t' q'"
  by (simp add: shape_def child_of_def node_of_def)

lemma tree_ok_mono: "tree_ok rows t \<Longrightarrow> set rows \<subseteq> set rows' \<Longrightarrow> tree_ok rows' t"
  by (auto simp: tree_ok_def split: option.splits)

lemma tree_ok_update:
  assumes "\<And>r. shape (f r) = shape r" and "tree_ok rows t"
  shows "tree_ok (update_where P f rows) t"
proof (cases "gt_ParentTaskID t")
  case None
  with assms(2) show ?thesis by (simp add: tree_ok_def)
next
  case (Some p)
  with assms(2) obtain q where q: "q \<in> set rows" "gt_ID q = p" "child_of t q"
    by (auto simp: tree_ok_def)
  let ?q = "if P q then f q else q"
  have sh: "shape ?q = shape q" using assms(1) by simp
  have "?q \<in> set (update_where P f rows)" using q(1) by (auto simp: in_update_where)
  moreover have "gt_ID ?q = p" using sh q(2) by (simp add: shape_def)
  moreover have "child_of t ?q" using child_of_shape [of t t ?q q] sh q(3) by simp
  ultimately show ?thesis using Some by (auto simp: tree_ok_def)
qed

lemma tree_ok_shape:
  assumes "shape t = shape t'" shows "tree_ok rows t = tree_ok rows t'"
proof -
  have "child_of t q = child_of t' q" for q
    using child_of_shape [OF assms, of q q] by simp
  with assms show ?thesis by (auto simp: tree_ok_def shape_def split: option.splits)
qed

lemma gt_inv_update:
  assumes inv: "gt_inv db"
    and sh: "\<And>r. shape (f r) = shape r"
    and un: "\<And>r. r \<in> set (gt_rows db) \<Longrightarrow> P r \<Longrightarrow> unclaimed (f r) \<Longrightarrow> gt_AssigneeAgentID (f r) = None"
  shows "gt_inv (db\<lparr>gt_rows := update_where P f (gt_rows db)\<rparr>)"
  unfolding gt_inv_def
proof (intro conjI ballI impI)
  have "\<And>r. gt_ID (f r) = gt_ID r" using sh by (simp add: shape_def)
  with inv show "ids_ok gt_ID (gt_seq (db\<lparr>gt_rows := update_where P f (gt_rows db)\<rparr>))
      (gt_rows (db\<lparr>gt_rows := update_where P f (gt_rows db)\<rparr>))"
    by (simp add: ids_ok_update_where gt_inv_def)
next
  fix t assume "t \<in> set (gt_rows (db\<lparr>gt_rows := update_where P f (gt_rows db)\<rparr>))"
  then obtain r where r: "r \<in> set (gt_rows db)" "t = (if P r then f r else r)"
    by (auto simp: in_update_where)
  then have "shape t = shape r" using sh by auto
  moreover have "tree_ok (gt_rows db) r" using inv r by (simp add: gt_inv_def)
  ultimately have "tree_ok (gt_rows db) t" using tree_ok_shape [of t r] by simp
  with tree_ok_update [OF sh] show "tree_ok (gt_rows (db\<lparr>gt_rows := update_where P f (gt_rows db)\<rparr>)) t"
    by simp
next
  fix t assume "t \<in> set (gt_rows (db\<lparr>gt_rows := update_where P f (gt_rows db)\<rparr>))" "unclaimed t"
  then show "gt_AssigneeAgentID t = None"
    using inv un by (auto simp: in_update_where gt_inv_def split: if_splits)
qed

lemma ClaimAtomic_inv: "gt_inv db \<Longrightarrow> gt_inv (snd (ClaimAtomic now i a m db))"
  unfolding ClaimAtomic_def
  by (auto intro!: gt_inv_update simp: shape_def unclaimed_def)

lemma legalTransition_unclaimed:
  "legalTransition st st' \<Longrightarrow> st' = GProposed \<or> st' = GApproved \<Longrightarrow> st = GProposed"
  by (cases st) (auto simp: legalTransition.simps split: if_splits)

lemma transition_row_shape [simp]: "shape (transition_row now st ex t) = shape t"
  by (simp add: transition_row_def shape_def)

lemma transition_row_fields [simp]:
  "gt_Status (transition_row now st ex t) = st"
  "gt_AssigneeAgentID (transition_row now st ex t) = gt_AssigneeAgentID t"
  "gt_ID (transition_row now st ex t) = gt_ID t"
  by (simp_all add: transition_row_def)

lemma gt_Get_Inr: "gt_Get db i = Inr t \<Longrightarrow> t \<in> set (gt_rows db) \<and> gt_ID t = i"
  by (auto simp: gt_Get_def dest: find_row_Some split: option.splits)

lemma gt_Transition_inv:
  assumes inv: "gt_inv db" shows "gt_inv (snd (gt_Transition now i st ex db))"
proof (cases "gt_Get db i")
  case (Inl e)
  with inv show ?thesis by (simp add: gt_Transition_def)
next
  case (Inr t)
  note t = gt_Get_Inr [OF Inr]
  have "gt_AssigneeAgentID r = None"
    if "r \<in> set (gt_rows db)" "gt_ID r = i" "legalTransition (gt_Status t) st"
      "st = GProposed \<or> st = GApproved" for r
  proof -
    from that t inv have "r = t" by (auto simp: gt_inv_def dest: ids_ok_unique)
    moreover have "unclaimed t"
      using legalTransition_unclaimed [OF that(3,4)] by (simp add: unclaimed_def)
    ultimately show ?thesis using inv t by (simp add: gt_inv_def)
  qed
  then have "gt_inv (snd (TransitionStatus now i st ex db))" if "legalTransition (gt_Status t) st"
    using that inv gt_inv_update [OF inv, of "transition_row now st ex" "\<lambda>t. gt_ID t = i"]
    by (simp add: TransitionStatus_def unclaimed_def)
  with Inr inv show ?thesis
    by (simp add: gt_Transition_def)
qed

lemma gt_AddSpend_inv: "gt_inv db \<Longrightarrow> gt_inv (gt_AddSpend i a b db)"
  unfolding gt_AddSpend_def
  by (rule gt_inv_update) (auto simp: shape_def gt_inv_def unclaimed_def)

section \<open>Creating a tree\<close>

fun preorder :: "TreeNode \<Rightarrow> TreeNode list" where
  "preorder (TreeNode ti de ac bi bt bd vc hc children) =
     TreeNode ti de ac bi bt bd vc hc children # concat (map preorder children)"

text \<open>The rows of \<open>db'\<close> are those of \<open>db\<close> and one new row per node, in order.\<close>

definition extends :: "gt_db \<Rightarrow> id64 list \<Rightarrow> TreeNode list \<Rightarrow> gt_db \<Rightarrow> id64 list \<Rightarrow> bool" where
  "extends db ids nodes db' ids' \<longleftrightarrow>
     (\<exists>new. gt_rows db' = gt_rows db @ new \<and> ids' = ids @ map gt_ID new \<and>
        map gt_Title new = map tn_Title nodes)"

definition parent_ok :: "gt_db \<Rightarrow> CreateTreeInput \<Rightarrow> id64 option \<Rightarrow> int \<Rightarrow> AncestryNode list \<Rightarrow> bool" where
  "parent_ok db inp parentID depth ancestry \<longleftrightarrow>
     (case parentID of
        None \<Rightarrow> ancestry = [] \<and> depth = 0
      | Some p \<Rightarrow> \<exists>q \<in> set (gt_rows db). gt_ID q = p \<and> gt_GoalID q = ct_GoalID inp \<and>
          depth = gt_Depth q + 1 \<and> ancestry = gt_Ancestry q @ [node_of q])"

lemma extends_refl [simp]: "extends db ids [] db ids"
  by (simp add: extends_def)

lemma extends_trans:
  "extends db ids ns db1 ids1 \<Longrightarrow> extends db1 ids1 ms db2 ids2 \<Longrightarrow> extends db ids (ns @ ms) db2 ids2"
  unfolding extends_def by (elim exE conjE, rename_tac a b, rule_tac x = "a @ b" in exI) simp

lemma parent_ok_extends:
  "parent_ok db inp p d a \<Longrightarrow> extends db ids ns db' ids' \<Longrightarrow> parent_ok db' inp p d a"
  by (auto simp: parent_ok_def extends_def split: option.splits)

lemma gt_Insert_Inr:
  "gt_Insert flt now t db = Inr (db', i) \<Longrightarrow>
     i = gt_seq db + 1 \<and> db' = db\<lparr>gt_rows := gt_rows db @ [new_row now i t], gt_seq := i\<rparr>"
  by (auto simp: gt_Insert_def Let_def split: sum.splits if_splits)

lemma insert_inv:
  assumes "gt_inv db" and "parent_ok db inp p d a"
    and "row = new_row now (gt_seq db + 1) (node_task inp node p d a)"
  shows "gt_inv (db\<lparr>gt_rows := gt_rows db @ [row], gt_seq := gt_seq db + 1\<rparr>)"
proof -
  have ids: "ids_ok gt_ID (gt_seq db + 1) (gt_rows db @ [row])"
    using assms(1,3) by (intro ids_ok_append) (auto simp: gt_inv_def new_row_def)
  have "gt_ID q < gt_ID row" if "q \<in> set (gt_rows db)" for q
    using assms(1,3) that by (auto simp: gt_inv_def ids_ok_def new_row_def)
  with assms(2,3) have "tree_ok (gt_rows db @ [row]) row"
    by (auto simp: tree_ok_def parent_ok_def child_of_def new_row_def node_task_def
        split: option.splits)
  moreover have "tree_ok (gt_rows db @ [row]) t" if "t \<in> set (gt_rows db)" for t
    using assms(1) that by (auto simp: gt_inv_def intro: tree_ok_mono)
  moreover have "gt_AssigneeAgentID row = None"
    using assms(3) by (simp add: new_row_def node_task_def)
  ultimately show ?thesis using ids assms(1) by (auto simp: gt_inv_def)
qed

lemma insert_step:
  assumes "gt_Insert flt now (node_task inp node p d a) db = Inr (db1, i)"
    and "gt_inv db" and "parent_ok db inp p d a"
  shows "gt_inv db1" and "extends db ids [node] db1 (ids @ [i])"
    and "parent_ok db1 inp (Some i) (d + 1)
      (a @ [\<lparr>an_ID = i, an_Title = tn_Title node, an_AcceptanceCriteria = tn_AcceptanceCriteria node\<rparr>])"
proof -
  let ?row = "new_row now i (node_task inp node p d a)"
  note r = gt_Insert_Inr [OF assms(1)]
  show "gt_inv db1" using insert_inv [OF assms(2,3)] r by simp
  show "extends db ids [node] db1 (ids @ [i])"
    using r by (auto simp: extends_def new_row_def node_task_def intro!: exI [of _ "[?row]"])
  show "parent_ok db1 inp (Some i) (d + 1)
      (a @ [\<lparr>an_ID = i, an_Title = tn_Title node, an_AcceptanceCriteria = tn_AcceptanceCriteria node\<rparr>])"
    using r by (auto simp: parent_ok_def new_row_def node_task_def node_of_def
        intro!: bexI [of _ ?row])
qed

lemma walk_spec:
  "walk flt now inp node p d a db ids = Inr (i, db', ids') \<Longrightarrow> gt_inv db \<Longrightarrow>
     parent_ok db inp p d a \<Longrightarrow> gt_inv db' \<and> extends db ids (preorder node) db' ids'"
  "walk_children flt now inp nodes q d a db ids = Inr (db', ids') \<Longrightarrow> gt_inv db \<Longrightarrow>
     parent_ok db inp (Some q) d a \<Longrightarrow>
     gt_inv db' \<and> extends db ids (concat (map preorder nodes)) db' ids'"
proof (induction flt now inp node p d a db ids and flt now inp nodes q d a db ids
    arbitrary: i db' ids' and db' ids' rule: walk_walk_children.induct)
  case (1 flt now inp ti de ac bi bt bd vc hc children p d a db ids)
  let ?n = "TreeNode ti de ac bi bt bd vc hc children"
  from "1.prems"(1) obtain db1 where
    ins: "gt_Insert flt now (node_task inp ?n p d a) db = Inr (db1, i)" and
    ch: "walk_children flt now inp children i (d + 1)
      (a @ [\<lparr>an_ID = i, an_Title = ti, an_AcceptanceCriteria = ac\<rparr>]) db1 (ids @ [i]) = Inr (db', ids')"
    by (auto split: sum.splits prod.splits)
  note st = insert_step [OF ins "1.prems"(2,3)]
  from "1.IH" [OF ins refl ch st(1)] st(3)
  have "gt_inv db' \<and> extends db1 (ids @ [i]) (concat (map preorder children)) db' ids'" by simp
  with extends_trans [OF st(2)] show ?case by simp
next
  case (3 flt now inp child rest q d a db ids)
  from "3.prems"(1) obtain i db1 ids1 where
    w: "walk flt now inp child (Some q) d a db ids = Inr (i, db1, ids1)" and
    r: "walk_children flt now inp rest q d a db1 ids1 = Inr (db', ids')"
    by (auto split: sum.splits prod.splits)
  from "3.IH"(1) [OF w "3.prems"(2,3)]
  have s: "gt_inv db1" "extends db ids (preorder child) db1 ids1" by auto
  from "3.IH"(2) [OF w refl refl r s(1) parent_ok_extends [OF "3.prems"(3) s(2)]]
  show ?case using extends_trans [OF s(2)] by simp
qed auto

text \<open>
  The rows a tree is stored as, written out as a function of the tree: ids count up from
  \<open>i\<close> in preorder, each child points to its parent and extends its parent's ancestry.
\<close>

fun tree_rows ::
  "timestamp \<Rightarrow> CreateTreeInput \<Rightarrow> id64 \<Rightarrow> id64 option \<Rightarrow> int \<Rightarrow> AncestryNode list \<Rightarrow> TreeNode \<Rightarrow> Task list"
and forest_rows ::
  "timestamp \<Rightarrow> CreateTreeInput \<Rightarrow> id64 \<Rightarrow> id64 option \<Rightarrow> int \<Rightarrow> AncestryNode list \<Rightarrow> TreeNode list \<Rightarrow> Task list"
where
  "tree_rows now inp i p d a (TreeNode ti de ac bi bt bd vc hc children) =
     new_row now i (node_task inp (TreeNode ti de ac bi bt bd vc hc children) p d a) #
     forest_rows now inp (i + 1) (Some i) (d + 1)
       (a @ [\<lparr>an_ID = i, an_Title = ti, an_AcceptanceCriteria = ac\<rparr>]) children"
| "forest_rows now inp i p d a [] = []"
| "forest_rows now inp i p d a (c # cs) =
     (let rs = tree_rows now inp i p d a c in rs @ forest_rows now inp (i + int (length rs)) p d a cs)"

lemma walk_rows:
  "walk flt now inp node p d a db ids = Inr (i, db', ids') \<Longrightarrow>
     let rs = tree_rows now inp (gt_seq db + 1) p d a node in
     i = gt_seq db + 1 \<and> gt_rows db' = gt_rows db @ rs \<and> gt_seq db' = gt_seq db + int (length rs) \<and>
     ids' = ids @ map gt_ID rs"
  "walk_children flt now inp nodes q d a db ids = Inr (db', ids') \<Longrightarrow>
     let rs = forest_rows now inp (gt_seq db + 1) (Some q) d a nodes in
     gt_rows db' = gt_rows db @ rs \<and> gt_seq db' = gt_seq db + int (length rs) \<and>
     ids' = ids @ map gt_ID rs"
proof (induction flt now inp node p d a db ids and flt now inp nodes q d a db ids
    arbitrary: i db' ids' and db' ids' rule: walk_walk_children.induct)
  case (1 flt now inp ti de ac bi bt bd vc hc children p d a db ids)
  let ?n = "TreeNode ti de ac bi bt bd vc hc children"
  from "1.prems"(1) obtain db1 where
    ins: "gt_Insert flt now (node_task inp ?n p d a) db = Inr (db1, i)" and
    ch: "walk_children flt now inp children i (d + 1)
      (a @ [\<lparr>an_ID = i, an_Title = ti, an_AcceptanceCriteria = ac\<rparr>]) db1 (ids @ [i]) = Inr (db', ids')"
    by (auto split: sum.splits prod.splits)
  from "1.IH" [OF ins refl ch] gt_Insert_Inr [OF ins] show ?case
    by (simp add: Let_def new_row_def)
next
  case (3 flt now inp child rest q d a db ids)
  from "3.prems"(1) obtain i db1 ids1 where
    w: "walk flt now inp child (Some q) d a db ids = Inr (i, db1, ids1)" and
    r: "walk_children flt now inp rest q d a db1 ids1 = Inr (db', ids')"
    by (auto split: sum.splits prod.splits)
  from "3.IH"(1) [OF w] "3.IH"(2) [OF w refl refl r] show ?case
    by (simp add: Let_def algebra_simps)
qed auto

lemma CreateTree_rows:
  assumes "CreateTree flt cf now inp db = (Inr (root, ids), db')"
  shows "root = gt_seq db + 1"
    and "gt_rows db' = gt_rows db @ tree_rows now inp (gt_seq db + 1) None 0 [] (ct_Root inp)"
    and "ids = map gt_ID (tree_rows now inp (gt_seq db + 1) None 0 [] (ct_Root inp))"
proof -
  from assms have "walk flt now inp (ct_Root inp) None 0 [] db [] = Inr (root, db', ids)"
    by (auto simp: CreateTree_def split: sum.splits if_splits)
  from walk_rows(1) [OF this] show "root = gt_seq db + 1"
    and "gt_rows db' = gt_rows db @ tree_rows now inp (gt_seq db + 1) None 0 [] (ct_Root inp)"
    and "ids = map gt_ID (tree_rows now inp (gt_seq db + 1) None 0 [] (ct_Root inp))"
    by (auto simp: Let_def)
qed

lemma CreateTree_Inr:
  assumes "CreateTree flt cf now inp db = (Inr (root, ids), db')" and "gt_inv db"
  shows "gt_inv db'" and "extends db [] (preorder (ct_Root inp)) db' ids"
proof -
  from assms(1) have "walk flt now inp (ct_Root inp) None 0 [] db [] = Inr (root, db', ids)"
    by (auto simp: CreateTree_def split: sum.splits if_splits)
  from walk_spec(1) [OF this assms(2)] show "gt_inv db'"
    and "extends db [] (preorder (ct_Root inp)) db' ids"
    by (auto simp: parent_ok_def)
qed

lemma CreateTree_Inl: "CreateTree flt cf now inp db = (Inl e, db') \<Longrightarrow> db' = db"
  by (auto simp: CreateTree_def split: sum.splits if_splits)

lemma CreateTree_inv: "gt_inv db \<Longrightarrow> gt_inv (snd (CreateTree flt cf now inp db))"
proof (cases "CreateTree flt cf now inp db")
  case (Pair r db')
  assume "gt_inv db"
  with Pair show ?thesis
    by (cases r) (auto dest: CreateTree_Inl intro: CreateTree_Inr(1))
qed

section \<open>Runs\<close>

datatype gt_op =
    OpCreateTree "Task \<Rightarrow> bool" bool timestamp CreateTreeInput
  | OpClaim timestamp id64 id64 "id64 option"
  | OpTransition timestamp id64 task_status Extras
  | OpAddSpend id64 int int

fun gt_exec :: "gt_op \<Rightarrow> gt_db \<Rightarrow> gt_db" where
  "gt_exec (OpCreateTree flt cf now inp) db = snd (CreateTree flt cf now inp db)"
| "gt_exec (OpClaim now i a m) db = snd (gt_Claim now i a m db)"
| "gt_exec (OpTransition now i st ex) db = snd (gt_Transition now i st ex db)"
| "gt_exec (OpAddSpend i a b) db = gt_AddSpend i a b db"

definition gt_empty :: "id64 list \<Rightarrow> id64 list \<Rightarrow> id64 list \<Rightarrow> id64 list \<Rightarrow> gt_db" where
  "gt_empty goals agents users messages =
     \<lparr>gt_rows = [], gt_seq = 0, gt_goals = goals, gt_agents = agents, gt_users = users,
      gt_messages = messages\<rparr>"

lemma gt_empty_inv: "gt_inv (gt_empty g a u m)"
  by (simp add: gt_inv_def gt_empty_def)

text \<open>
  What a later state keeps of a task: its place in the tree, its assignee once it has one,
  and a status the task can legally have moved to.
\<close>

definition task_later :: "Task \<Rightarrow> Task \<Rightarrow> bool" where
  "task_later t t' \<longleftrightarrow> shape t' = shape t \<and>
     (gt_AssigneeAgentID t \<noteq> None \<longrightarrow> gt_AssigneeAgentID t' = gt_AssigneeAgentID t) \<and>
     legalTransition\<^sup>*\<^sup>* (gt_Status t) (gt_Status t')"

definition gt_later :: "gt_db \<Rightarrow> gt_db \<Rightarrow> bool" where
  "gt_later db db' \<longleftrightarrow> (\<forall>t \<in> set (gt_rows db). \<exists>t' \<in> set (gt_rows db'). task_later t t')"

lemma task_later_refl [simp]: "task_later t t"
  by (simp add: task_later_def)

lemma task_later_trans: "task_later t u \<Longrightarrow> task_later u v \<Longrightarrow> task_later t v"
  by (auto simp: task_later_def)

lemma gt_later_refl: "gt_later db db"
  by (auto simp: gt_later_def intro: task_later_refl)

lemma gt_later_trans: "gt_later a b \<Longrightarrow> gt_later b c \<Longrightarrow> gt_later a c"
  by (meson gt_later_def task_later_trans)

lemma gt_later_update:
  "(\<And>r. r \<in> set (gt_rows db) \<Longrightarrow> P r \<Longrightarrow> task_later r (f r)) \<Longrightarrow>
     gt_later db (db\<lparr>gt_rows := update_where P f (gt_rows db)\<rparr>)"
  unfolding gt_later_def
proof
  fix t assume a: "\<And>r. r \<in> set (gt_rows db) \<Longrightarrow> P r \<Longrightarrow> task_later r (f r)" and t: "t \<in> set (gt_rows db)"
  show "\<exists>t' \<in> set (gt_rows (db\<lparr>gt_rows := update_where P f (gt_rows db)\<rparr>)). task_later t t'"
    using a [OF t] updated_row [OF t, of P f] by (intro bexI [of _ "if P t then f t else t"]) auto
qed

lemma ClaimAtomic_later: "gt_later db (snd (ClaimAtomic now i a m db))"
  unfolding ClaimAtomic_def
  by (auto intro!: gt_later_update gt_later_refl r_into_rtranclp
      simp: task_later_def claimable_def shape_def legalTransition.simps)

lemma gt_Transition_later:
  assumes "gt_inv db" shows "gt_later db (snd (gt_Transition now i st ex db))"
proof (cases "gt_Get db i")
  case (Inl e)
  then show ?thesis by (simp add: gt_Transition_def gt_later_refl)
next
  case (Inr t)
  have "r = t" if "r \<in> set (gt_rows db)" "gt_ID r = i" for r
    using assms that gt_Get_Inr [OF Inr] by (auto simp: gt_inv_def dest: ids_ok_unique)
  then have "gt_later db (snd (TransitionStatus now i st ex db))"
    if "legalTransition (gt_Status t) st"
    using that by (auto simp: TransitionStatus_def task_later_def gt_later_refl
        intro!: gt_later_update r_into_rtranclp)
  with Inr show ?thesis by (simp add: gt_Transition_def gt_later_refl)
qed

lemma gt_AddSpend_later: "gt_later db (gt_AddSpend i a b db)"
  unfolding gt_AddSpend_def by (rule gt_later_update) (simp add: task_later_def shape_def)

lemma CreateTree_later: "gt_inv db \<Longrightarrow> gt_later db (snd (CreateTree flt cf now inp db))"
proof (cases "CreateTree flt cf now inp db")
  case (Pair r db')
  assume inv: "gt_inv db"
  show ?thesis
  proof (cases r)
    case (Inl e)
    with Pair CreateTree_Inl have "db' = db" by blast
    with Pair show ?thesis by (simp add: gt_later_refl)
  next
    case (Inr x)
    with Pair CreateTree_Inr(2) [of flt cf now inp db "fst x" "snd x" db'] inv
    show ?thesis by (auto simp: gt_later_def extends_def intro: task_later_refl)
  qed
qed

interpretation gt: history_system gt_exec gt_inv gt_later
proof
  fix op db assume "gt_inv db"
  then show "gt_inv (gt_exec op db)"
    by (cases op) (auto simp: gt_Claim_def
        intro: CreateTree_inv ClaimAtomic_inv gt_Transition_inv gt_AddSpend_inv)
next
  fix op db assume "gt_inv db"
  then show "gt_later db (gt_exec op db)"
    by (cases op) (auto simp: gt_Claim_def
        intro: CreateTree_later ClaimAtomic_later gt_Transition_later gt_AddSpend_later)
qed (auto intro: gt_later_refl gt_later_trans)

fun status_rank :: "task_status \<Rightarrow> nat" where
  "status_rank GProposed = 0"
| "status_rank GApproved = 1"
| "status_rank GClaimed = 2"
| "status_rank GInProgress = 3"
| "status_rank GAwaitingVerification = 4"
| "status_rank GDone = 5"
| "status_rank GFailed = 5"
| "status_rank GCancelled = 5"

interpretation gt_status: status_machine legalTransition status_rank
proof
  fix a b assume "legalTransition a b"
  then show "status_rank a < status_rank b"
    by (cases a; cases b) (simp_all add: legalTransition.simps)
qed

lemma closing_final: "closing st \<Longrightarrow> legalTransition\<^sup>*\<^sup>* st st' \<Longrightarrow> st' = st"
  by (erule converse_rtranclpE) (auto simp: closing_def legalTransition.simps split: if_splits)

lemma claimed_row_blocks:
  assumes "gt_inv db" "t \<in> set (gt_rows db)" "gt_ID t = i" "gt_AssigneeAgentID t \<noteq> None"
  shows "ClaimAtomic now i b m db = (Inl ErrAlreadyClaimed, db)"
proof -
  have "\<not> claimable i r" if "r \<in> set (gt_rows db)" for r
    using assms that by (auto simp: claimable_def gt_inv_def dest: ids_ok_unique)
  then show ?thesis by (simp add: ClaimAtomic_def)
qed

lemma ClaimAtomic_Inr:
  "ClaimAtomic now i a m db = (Inr (), db') \<Longrightarrow>
     \<exists>t \<in> set (gt_rows db'). gt_ID t = i \<and> gt_AssigneeAgentID t = Some a \<and> gt_Status t = GClaimed"
proof -
  assume claim: "ClaimAtomic now i a m db = (Inr (), db')"
  let ?f = "\<lambda>t. t\<lparr>gt_AssigneeAgentID := Some a, gt_Status := GClaimed,
                    gt_ClaimedAt := Some now, gt_ClaimMessageID := m\<rparr>"
  from claim obtain r where "r \<in> set (gt_rows db)" "claimable i r"
    by (auto simp: ClaimAtomic_def split: if_splits)
  moreover from claim have "gt_rows db' = update_where (claimable i) ?f (gt_rows db)"
    by (auto simp: ClaimAtomic_def split: if_splits)
  ultimately have "?f r \<in> set (gt_rows db')" "gt_ID (?f r) = i"
    by (auto intro: updated_row_hit simp: claimable_def)
  then show ?thesis by (intro bexI [of _ "?f r"]) simp_all
qed

section \<open>Rollups\<close>

definition below :: "id64 \<Rightarrow> Task \<Rightarrow> bool" where
  "below root t \<longleftrightarrow> gt_ID t = root \<or> root \<in> set (map an_ID (gt_Ancestry t))"

inductive_set descendants :: "Task list \<Rightarrow> id64 set \<Rightarrow> id64 set" for rows fr where
  base: "i \<in> fr \<Longrightarrow> i \<in> descendants rows fr"
| step: "p \<in> descendants rows fr \<Longrightarrow> t \<in> set rows \<Longrightarrow> gt_ParentTaskID t = Some p \<Longrightarrow>
    gt_ID t \<in> descendants rows fr"

lemma set_children_of:
  "set (children_of rows fr) = {gt_ID t | t. t \<in> set rows \<and> (\<exists>p \<in> set fr. gt_ParentTaskID t = Some p)}"
  by (auto simp: children_of_def)

lemma descendants_unfold:
  "descendants rows (set fr) = set fr \<union> descendants rows (set (children_of rows fr))"
proof (intro equalityI subsetI)
  fix x assume "x \<in> descendants rows (set fr)"
  then show "x \<in> set fr \<union> descendants rows (set (children_of rows fr))"
    by induction (auto simp: set_children_of intro: descendants.intros)
next
  fix x assume "x \<in> set fr \<union> descendants rows (set (children_of rows fr))"
  then show "x \<in> descendants rows (set fr)"
  proof
    assume "x \<in> descendants rows (set (children_of rows fr))"
    then show ?thesis
      by induction (auto simp: set_children_of intro: descendants.intros)
  qed (rule descendants.base)
qed

lemma descendants_empty [simp]: "descendants rows {} = {}"
proof -
  have "x \<in> descendants rows {} \<Longrightarrow> False" for x by (induction rule: descendants.induct) auto
  then show ?thesis by blast
qed

lemma subtree_cte_set: "subtree_cte fuel rows fr = Some ids \<Longrightarrow> set ids = descendants rows (set fr)"
proof (induction fuel rows fr arbitrary: ids rule: subtree_cte.induct)
  case (3 fuel rows x xs)
  then obtain ys where "subtree_cte fuel rows (children_of rows (x # xs)) = Some ys"
    and "ids = (x # xs) @ ys" by auto
  with "3.IH" descendants_unfold [of rows "x # xs"] show ?case by simp
qed auto

text \<open>Enough rounds: the ids of a frontier grow by one each round and stay below the counter.\<close>

lemma subtree_cte_ends:
  assumes inv: "gt_inv db"
  shows "(\<And>x. x \<in> set fr \<Longrightarrow> n \<le> x \<and> x \<le> gt_seq db) \<Longrightarrow> gt_seq db - n < int fuel \<Longrightarrow>
    \<exists>ids. subtree_cte fuel (gt_rows db) fr = Some ids"
proof (induction fuel arbitrary: fr n)
  case 0
  then have "fr = []" by (cases fr) fastforce+
  then show ?case by simp
next
  case (Suc fuel)
  have "n + 1 \<le> x \<and> x \<le> gt_seq db" if x: "x \<in> set (children_of (gt_rows db) fr)" for x
  proof -
    from x obtain t p where t: "t \<in> set (gt_rows db)" "x = gt_ID t" "gt_ParentTaskID t = Some p"
      "p \<in> set fr" by (auto simp: set_children_of)
    with inv have "p < x" by (auto simp: gt_inv_def tree_ok_def child_of_def)
    moreover from inv t have "x \<le> gt_seq db" by (auto simp: gt_inv_def ids_ok_def)
    ultimately show ?thesis using Suc.prems(1) [OF t(4)] by simp
  qed
  with Suc.IH [of "children_of (gt_rows db) fr" "n + 1"] Suc.prems(2)
  obtain ys where "subtree_cte fuel (gt_rows db) (children_of (gt_rows db) fr) = Some ys" by auto
  then show ?case by (cases fr) auto
qed

lemma subtree_Some: assumes "gt_inv db" shows "\<exists>ids. subtree db root = Some ids"
  unfolding subtree_def
proof (rule subtree_cte_ends [OF assms, of _ 1])
  fix x assume "x \<in> set (map gt_ID (filter (\<lambda>t. gt_ID t = root) (gt_rows db)))"
  with assms show "1 \<le> x \<and> x \<le> gt_seq db" by (fastforce simp: gt_inv_def ids_ok_def)
qed (use assms in \<open>simp add: gt_inv_def ids_ok_def\<close>)

lemma below_child:
  assumes "gt_inv db" "t \<in> set (gt_rows db)" "gt_ParentTaskID t = Some p" "q \<in> set (gt_rows db)"
    "gt_ID q = p"
  shows "below root t \<longleftrightarrow> gt_ID t = root \<or> below root q"
proof -
  have "tree_ok (gt_rows db) t" using assms by (simp add: gt_inv_def)
  then obtain q' where "q' \<in> set (gt_rows db)" "gt_ID q' = p" "child_of t q'"
    using assms(3) by (auto simp: tree_ok_def)
  with assms have "child_of t q" by (auto simp: gt_inv_def dest: ids_ok_unique)
  then show ?thesis by (auto simp: below_def child_of_def node_of_def)
qed

lemma descendants_below:
  assumes "gt_inv db"
  shows "x \<in> descendants (gt_rows db) {i. i = root \<and> i \<in> gt_ID ` set (gt_rows db)} \<longleftrightarrow>
    (\<exists>t \<in> set (gt_rows db). gt_ID t = x \<and> below root t)" (is "?L x = ?R x")
proof
  assume "?L x"
  then show "?R x"
  proof induction
    case (base i)
    then show ?case by (auto simp: below_def)
  next
    case (step p t)
    then obtain q where "q \<in> set (gt_rows db)" "gt_ID q = p" "below root q" by blast
    with below_child [OF assms step.hyps(2,3)] step.hyps show ?case by blast
  qed
next
  assume "?R x"
  then obtain t where "t \<in> set (gt_rows db)" "gt_ID t = x" "below root t" by blast
  then show "?L x"
  proof (induction "nat (gt_ID t)" arbitrary: t x rule: less_induct)
    case less
    show ?case
    proof (cases "gt_ID t = root")
      case True
      with less.prems show ?thesis by (auto intro!: descendants.base)
    next
      case False
      with less.prems have "gt_Ancestry t \<noteq> []" by (auto simp: below_def)
      moreover have "tree_ok (gt_rows db) t" using less.prems assms by (simp add: gt_inv_def)
      ultimately obtain p q where pq: "gt_ParentTaskID t = Some p"
        "q \<in> set (gt_rows db)" "gt_ID q = p" "child_of t q"
        by (auto simp: tree_ok_def split: option.splits)
      from below_child [OF assms less.prems(1) pq(1-3)] False less.prems
      have "below root q" by simp
      moreover have "nat (gt_ID q) < nat (gt_ID t)"
        using pq assms by (auto simp: child_of_def gt_inv_def ids_ok_def)
      ultimately have "?L p" using less.hyps pq by blast
      with less.prems pq(1) show ?thesis by (auto intro: descendants.step)
    qed
  qed
qed

lemma subtree_filter:
  assumes inv: "gt_inv db" and sub: "subtree db root = Some ids"
  shows "filter (\<lambda>t. gt_ID t \<in> set ids) (gt_rows db) = filter (below root) (gt_rows db)"
proof (rule filter_cong [OF refl])
  fix t assume t: "t \<in> set (gt_rows db)"
  have "set ids = descendants (gt_rows db) {i. i = root \<and> i \<in> gt_ID ` set (gt_rows db)}"
    using subtree_cte_set [OF sub [unfolded subtree_def]]
    by (simp add: image_def) (metis (mono_tags, lifting) mem_Collect_eq)
  with descendants_below [OF inv, of "gt_ID t" root] t inv
  show "gt_ID t \<in> set ids \<longleftrightarrow> below root t"
    by (auto simp: gt_inv_def dest: ids_ok_unique)
qed

section \<open>Properties\<close>

text \<open>A tree of three tasks, created in an empty table: the concrete input of the witnesses.\<close>

definition example_node :: "string \<Rightarrow> string \<Rightarrow> TreeNode list \<Rightarrow> TreeNode" where
  "example_node title billing = TreeNode title '''' '''' billing None None None None"

definition example_tree :: CreateTreeInput where
  "example_tree = \<lparr>ct_GoalID = 7, ct_CreatedByAgent = Some 1, ct_CreatedByUser = None,
     ct_Root = example_node ''root'' '''' [example_node ''a'' ''x'' [], example_node ''b'' '''' []],
     ct_InitialStatus = None, ct_DefaultBilling = ''d''\<rparr>"

definition example_db :: gt_db where
  "example_db = snd (CreateTree (\<lambda>_. False) False 100 example_tree (gt_empty [7] [1, 2] [] []))"

lemma example_db_inv: "gt_inv example_db"
  unfolding example_db_def by (rule CreateTree_inv [OF gt_empty_inv])

text \<open>
  Every state that any sequence of tree creations, claims, transitions and spend
  updates reaches satisfies the tree invariant: ids are unique, each task's depth and
  ancestry blob agree with its parent pointer, and no unclaimed task has an assignee.
\<close>

theorem gt_run_invariant: "gt_inv (fold gt_exec ops (gt_empty goals agents users messages))"
  by (rule gt.run_inv [OF gt_empty_inv])

text \<open>
  C17. Tree creation is all or nothing. On an error the table is as before; otherwise exactly
  the rows of the tree are appended, in preorder with consecutive ids from the counter, each
  with its node's columns, its parent's id, its depth and its ancestry; the returned ids are
  the ids of those rows, the root's first, and the tree invariant holds.
\<close>

theorem create_tree_all_or_nothing:
  assumes "gt_inv db" and "CreateTree flt cf now inp db = (r, db')"
  shows "case r of
      Inl e \<Rightarrow> db' = db
    | Inr (root, ids) \<Rightarrow>
        (let new = tree_rows now inp (gt_seq db + 1) None 0 [] (ct_Root inp) in
         gt_inv db' \<and> root = gt_seq db + 1 \<and> ids = map gt_ID new \<and> gt_rows db' = gt_rows db @ new)"
proof (cases r)
  case (Inl e)
  with assms CreateTree_Inl show ?thesis by simp
next
  case (Inr x)
  then obtain root ids where r: "r = Inr (root, ids)" by (cases x) simp
  with assms(2) have ok: "CreateTree flt cf now inp db = (Inr (root, ids), db')" by simp
  from CreateTree_rows [OF ok] CreateTree_Inr(1) [OF ok assms(1)] r show ?thesis
    by (simp add: Let_def)
qed

theorem create_tree_all_or_nothing_witness:
  "gt_inv (gt_empty [7] [1, 2] [] []) \<and>
   CreateTree (\<lambda>_. False) False 100 example_tree (gt_empty [7] [1, 2] [] []) =
     (Inr (1, [1, 2, 3]), example_db) \<and>
   gt_rows example_db = tree_rows 100 example_tree 1 None 0 [] (ct_Root example_tree)"
proof -
  have run: "CreateTree (\<lambda>_. False) False 100 example_tree (gt_empty [7] [1, 2] [] []) =
     (Inr (1, [1, 2, 3]), example_db)" by code_simp
  from create_tree_all_or_nothing [OF gt_empty_inv run] run show ?thesis
    by (simp add: gt_empty_inv Let_def) (simp add: gt_empty_def)
qed

text \<open>
  C18. A claim is exclusive: after a successful claim, whatever other operations run, the task
  still belongs to the agent that claimed it, and every further claim by anyone is refused
  with \<open>ErrAlreadyClaimed\<close> and changes nothing.
\<close>

theorem claim_exclusive:
  assumes "gt_inv db" and "gt_Claim now i a m db = (Inr (), db')"
  shows "(\<exists>t \<in> set (gt_rows (fold gt_exec ops db')). gt_ID t = i \<and> gt_AssigneeAgentID t = Some a) \<and>
    gt_Claim now' i b m' (fold gt_exec ops db') = (Inl ErrAlreadyClaimed, fold gt_exec ops db')"
proof -
  have inv: "gt_inv db'"
    using assms ClaimAtomic_inv [of db now i a m] by (simp add: gt_Claim_def)
  obtain t where t: "t \<in> set (gt_rows db')" "gt_ID t = i" "gt_AssigneeAgentID t = Some a"
    using assms ClaimAtomic_Inr [of now i a m db db'] by (auto simp: gt_Claim_def)
  with gt.run_later [OF inv, of ops] obtain t' where
    t': "t' \<in> set (gt_rows (fold gt_exec ops db'))" "task_later t t'"
    by (auto simp: gt_later_def)
  then have f: "gt_ID t' = i" "gt_AssigneeAgentID t' = Some a"
    using t by (auto simp: task_later_def shape_def)
  with t' claimed_row_blocks [OF gt.run_inv [OF inv] t'(1) f(1)] show ?thesis
    by (auto simp: gt_Claim_def)
qed

theorem claim_exclusive_witness:
  "gt_inv example_db \<and> fst (gt_Claim 200 2 1 None example_db) = Inr () \<and>
   gt_Claim 300 2 2 None (snd (gt_Claim 200 2 1 None example_db)) =
     (Inl ErrAlreadyClaimed, snd (gt_Claim 200 2 1 None example_db))"
proof -
  have ok: "fst (gt_Claim 200 2 1 None example_db) = Inr ()" by code_simp
  then have "gt_Claim 200 2 1 None example_db = (Inr (), snd (gt_Claim 200 2 1 None example_db))"
    by (metis prod.collapse)
  from claim_exclusive [OF example_db_inv this, of "[]" 300 2 None] ok show ?thesis
    by (simp add: example_db_inv)
qed

text \<open>
  Statuses only move forward: in any later state a task still exists at the same place of
  the tree, its status is reachable by legal transitions (so its rank has not gone down), and
  a task that was done, failed or cancelled has kept that status.
\<close>

theorem status_history:
  assumes "gt_inv db" and "t \<in> set (gt_rows db)"
  shows "\<exists>t' \<in> set (gt_rows (fold gt_exec ops db)). shape t' = shape t \<and>
    legalTransition\<^sup>*\<^sup>* (gt_Status t) (gt_Status t') \<and>
    status_rank (gt_Status t) \<le> status_rank (gt_Status t') \<and>
    (closing (gt_Status t) \<longrightarrow> gt_Status t' = gt_Status t)"
proof -
  obtain t' where t': "t' \<in> set (gt_rows (fold gt_exec ops db))" "task_later t t'"
    using assms gt.run_later [of db ops] by (auto simp: gt_later_def)
  moreover have "status_rank (gt_Status t) \<le> status_rank (gt_Status t')"
    using t'(2) gt_status.path_rank [of "gt_Status t" "gt_Status t'"]
    by (auto simp: task_later_def dest: rtranclpD)
  ultimately show ?thesis by (auto simp: task_later_def dest: closing_final)
qed

theorem status_history_witness:
  "gt_inv example_db \<and> hd (gt_rows example_db) \<in> set (gt_rows example_db) \<and>
   (\<exists>t' \<in> set (gt_rows (gt_exec (OpTransition 9 1 GCancelled \<lparr>ex_FailureReason = '''',
       ex_CompletionMessageID = None\<rparr>) example_db)).
     legalTransition\<^sup>*\<^sup>* GApproved (gt_Status t'))"
proof -
  have st: "gt_Status (hd (gt_rows example_db)) = GApproved" by code_simp
  have mem: "hd (gt_rows example_db) \<in> set (gt_rows example_db)"
    by (rule hd_in_set) code_simp
  from status_history [OF example_db_inv mem, of "[OpTransition 9 1 GCancelled
      \<lparr>ex_FailureReason = '''', ex_CompletionMessageID = None\<rparr>]"] st mem
  show ?thesis by (auto simp del: gt_exec.simps simp: example_db_inv)
qed



lemma sum_list_by_key:
  fixes f :: "'a \<Rightarrow> int"
  assumes "distinct ks" and "set (map k xs) \<subseteq> set ks"
  shows "(\<Sum>c\<leftarrow>ks. sum_list (map f (filter (\<lambda>x. k x = c) xs))) = sum_list (map f xs)"
  using assms(2)
proof (induction xs)
  case (Cons x xs)
  have "(\<Sum>c\<leftarrow>ks. sum_list (map f (filter (\<lambda>y. k y = c) (x # xs)))) =
      (\<Sum>c\<leftarrow>ks. (if c = k x then f x else 0) + sum_list (map f (filter (\<lambda>y. k y = c) xs)))"
    by (rule arg_cong [where f = sum_list], rule map_cong) auto
  also have "\<dots> = (\<Sum>c\<leftarrow>ks. if c = k x then f x else 0) +
      (\<Sum>c\<leftarrow>ks. sum_list (map f (filter (\<lambda>y. k y = c) xs)))"
    by (rule sum_list_addf)
  also have "(\<Sum>c\<leftarrow>ks. if c = k x then f x else 0) = f x"
    using assms(1) Cons.prems by (simp add: sum_list_distinct_conv_sum_set)
  finally show ?case using Cons by simp
qed simp

text \<open>
  The rollup by billing code partitions the rollup of the subtree: it has one entry for
  each billing code that occurs below the root, each entry is the spend of the tasks with
  that code, and the entries add up to the totals of \<open>RollupCosts\<close>.
\<close>

theorem rollup_by_billing_code_partition:
  assumes "gt_inv db"
  shows "\<exists>m n. RollupByBillingCode db root = Some m \<and> distinct (map fst m) \<and>
    set (map fst m) = gt_BillingCode ` {t \<in> set (gt_rows db). below root t} \<and>
    (\<forall>(c, s) \<in> set m. let g = filter (\<lambda>t. gt_BillingCode t = c) (filter (below root) (gt_rows db)) in
       sp_Tokens s = sum_list (map gt_SpentTokens g) \<and>
       sp_DollarsCents s = sum_list (map gt_SpentDollarsCents g)) \<and>
    RollupCosts db root = Some (\<Sum>(c, s)\<leftarrow>m. sp_Tokens s, \<Sum>(c, s)\<leftarrow>m. sp_DollarsCents s, n)"
proof -
  let ?ts = "filter (below root) (gt_rows db)"
  obtain ids where sub: "subtree db root = Some ids" using subtree_Some [OF assms] by blast
  note f = subtree_filter [OF assms sub]
  have "\<And>g. (\<Sum>c\<leftarrow>remdups (map gt_BillingCode ?ts).
      sum_list (map g (filter (\<lambda>t. gt_BillingCode t = c) ?ts))) = (sum_list (map g ?ts) :: int)"
    by (rule sum_list_by_key) auto
  then show ?thesis
    using sub by (auto simp: RollupByBillingCode_def RollupCosts_def f Let_def comp_def image_image simp del: filter_filter)
qed

theorem rollup_by_billing_code_partition_witness:
  "gt_inv (gt_AddSpend 3 5 2 (gt_AddSpend 2 10 1 example_db)) \<and>
   (\<exists>m. RollupByBillingCode (gt_AddSpend 3 5 2 (gt_AddSpend 2 10 1 example_db)) 1 = Some m \<and>
      (\<Sum>(c, s)\<leftarrow>m. sp_Tokens s) = 15)"
proof -
  have inv: "gt_inv (gt_AddSpend 3 5 2 (gt_AddSpend 2 10 1 example_db))"
    by (intro gt_AddSpend_inv example_db_inv)
  have "RollupCosts (gt_AddSpend 3 5 2 (gt_AddSpend 2 10 1 example_db)) 1 = Some (15, 3, 3)"
    by code_simp
  with rollup_by_billing_code_partition [OF inv, of 1] inv show ?thesis by auto
qed

end
