(* ===== verification/Mentions.thy ===== *)
theory Mentions
  imports Prelude
begin

text \<open>
  The two mention scanners and the event fan-out: \<open>ParseMentions\<close> of
  \<open>internal/messaging/mentions.go\<close>, \<open>ExtractMentions\<close>, \<open>MessageEvent\<close> and
  \<open>MultiDispatcher\<close> of \<open>internal/dispatcher/dispatcher.go\<close>.

  The regular expressions are written out as scanners. Go reads them leftmost-first and
  without overlap: a match consumes its text, so the character before the next \<open>@\<close> must
  lie after the previous match. Strings are bytes; a multi-byte rune before an \<open>@\<close> is
  outside every class, as each of its bytes is.
\<close>

section \<open>Scanners\<close>

definition name_char :: "char \<Rightarrow> bool" where
  "name_char c \<longleftrightarrow> is_alnum c \<or> c = CHR ''_'' \<or> c = CHR ''-''"

definition starts_name :: "string \<Rightarrow> bool" where
  "starts_name s = (case s of [] \<Rightarrow> False | c # _ \<Rightarrow> is_alnum c)"

text \<open>The class \<open>[a-zA-Z0-9.@]\<close> that may not stand before a mention.\<close>

definition no_mention_after :: "char \<Rightarrow> bool" where
  "no_mention_after c \<longleftrightarrow> is_alnum c \<or> c = CHR ''.'' \<or> c = CHR ''@''"

definition mention_name :: "string \<Rightarrow> string" where
  "mention_name s = takeWhile name_char (take 64 s)"

text \<open>
  \<open>ok\<close> says that a mention may start here: the text starts here, or the character before is
  not consumed by a match and not in the class.
\<close>

function scan_mentions :: "bool \<Rightarrow> string \<Rightarrow> string list" where
  "scan_mentions ok [] = []"
| "scan_mentions ok (c # s) =
     (if ok \<and> c = CHR ''@'' \<and> starts_name s
      then mention_name s # scan_mentions False (drop (length (mention_name s)) s)
      else scan_mentions (\<not> no_mention_after c) s)"
  by pat_completeness auto
termination
  by (relation "measure (\<lambda>(ok, s). length s)") auto

definition ParseMentions :: "string \<Rightarrow> string list" where
  "ParseMentions body = dedup (map to_lower (scan_mentions True body))"

function scan_at_names :: "string \<Rightarrow> string list" where
  "scan_at_names [] = []"
| "scan_at_names (c # s) =
     (if c = CHR ''@'' \<and> starts_name s
      then takeWhile name_char s # scan_at_names (dropWhile name_char s)
      else scan_at_names s)"
  by pat_completeness auto
termination
  by (relation "measure length") (auto simp: less_Suc_eq_le length_dropWhile_le)

definition ExtractMentions :: "string \<Rightarrow> string list" where
  "ExtractMentions body = dedup (scan_at_names body)"

section \<open>Events\<close>

record MessageEvent =
  ev_EventType :: string
  ev_MessageID :: id64
  ev_FromAgent :: string
  ev_ToAgent :: string
  ev_Channel :: string
  ev_Body :: string
  ev_Priority :: int
  ev_Metadata :: json
  ev_Depth :: int
  ev_MentionedAgents :: "string list"

text \<open>A dispatcher delivers an event and may report an error, which is only logged.\<close>

definition MultiDispatcher_Dispatch ::
  "(MessageEvent \<Rightarrow> 's \<Rightarrow> string option \<times> 's) list \<Rightarrow> MessageEvent \<Rightarrow> 's \<Rightarrow> string option \<times> 's" where
  "MultiDispatcher_Dispatch ds event s = (None, fold (\<lambda>d s. snd (d event s)) ds s)"

section \<open>What the scanners find\<close>

lemma at_not_name [simp]: "\<not> name_char (CHR ''@'')"
  by (simp add: name_char_def is_alnum_def)

lemma mention_name_not_Nil: "starts_name s \<Longrightarrow> mention_name s \<noteq> []"
  by (cases s) (auto simp: starts_name_def mention_name_def name_char_def)

lemma mention_name_chars: "c \<in> set (mention_name s) \<Longrightarrow> name_char c"
  by (auto simp: mention_name_def dest: set_takeWhileD)

lemma mention_name_append: "mention_name s @ drop (length (mention_name s)) s = s"
proof -
  have "takeWhile P (take n s) @ drop (length (takeWhile P (take n s))) s = s" for P n and s :: string
    by (induction s arbitrary: n) (auto simp: take_Cons split: nat.split)
  then show ?thesis by (simp add: mention_name_def)
qed

text \<open>A mention stands behind an \<open>@\<close> at the start or after a character outside the class.\<close>

definition may_precede :: "bool \<Rightarrow> string \<Rightarrow> bool" where
  "may_precede ok pre \<longleftrightarrow> (if pre = [] then ok else \<not> no_mention_after (last pre))"

lemma scan_mentions_sound:
  "n \<in> set (scan_mentions ok s) \<Longrightarrow>
     \<exists>pre post. s = pre @ CHR ''@'' # n @ post \<and> may_precede ok pre \<and>
       starts_name (n @ post) \<and> n = mention_name (n @ post)"
proof (induction ok s rule: scan_mentions.induct)
  case (2 ok c s)
  show ?case
  proof (cases "ok \<and> c = CHR ''@'' \<and> starts_name s")
    case True
    let ?r = "drop (length (mention_name s)) s"
    note app = mention_name_append [of s]
    from True "2.prems" consider "n = mention_name s" | "n \<in> set (scan_mentions False ?r)" by auto
    then show ?thesis
    proof cases
      case 1
      with True app show ?thesis
        by (intro exI [of _ "[]"] exI [of _ ?r]) (simp add: may_precede_def)
    next
      case 2
      with "2.IH"(1) [OF True] obtain pre post where r: "?r = pre @ CHR ''@'' # n @ post"
        "may_precede False pre" "starts_name (n @ post)" "n = mention_name (n @ post)" by blast
      then have "pre \<noteq> []" by (auto simp: may_precede_def)
      with r app have "c # s = (c # mention_name s @ pre) @ CHR ''@'' # n @ post" by simp
      moreover have "may_precede ok (c # mention_name s @ pre)"
        using r(2) \<open>pre \<noteq> []\<close> by (simp add: may_precede_def)
      ultimately show ?thesis using r(3,4) by blast
    qed
  next
    case False
    with "2.prems" have "n \<in> set (scan_mentions (\<not> no_mention_after c) s)" by auto
    with "2.IH"(2) [OF False] obtain pre post where r: "s = pre @ CHR ''@'' # n @ post"
      "may_precede (\<not> no_mention_after c) pre" "starts_name (n @ post)" "n = mention_name (n @ post)"
      by blast
    then have "may_precede ok (c # pre)" by (auto simp: may_precede_def split: if_splits)
    with r show ?thesis by (intro exI [of _ "c # pre"] exI [of _ post]) auto
  qed
qed simp

lemma mention_name_before_at:
  assumes "pre \<noteq> []" "\<not> name_char (last pre)"
  shows "\<exists>pre'. drop (length (mention_name (pre @ CHR ''@'' # r))) (pre @ CHR ''@'' # r) =
      pre' @ CHR ''@'' # r \<and> pre' \<noteq> [] \<and> last pre' = last pre"
proof -
  let ?n = "mention_name (pre @ CHR ''@'' # r)"
  let ?w = "takeWhile name_char pre"
  have "length ?n \<le> length ?w"
  proof -
    have tw: "takeWhile name_char (pre @ x) = ?w" for x
      using assms by (simp add: takeWhile_append) (metis last_in_set)
    have "length (takeWhile name_char (take k xs)) \<le> length (takeWhile name_char xs)" for k xs
      by (induction xs arbitrary: k) (auto simp: take_Cons split: nat.split)
    then show ?thesis unfolding mention_name_def by (metis tw)
  qed
  also have "length ?w < length pre"
    using assms by (metis last_in_set length_takeWhile_le less_le set_takeWhileD takeWhile_eq_take
        take_all_iff linorder_not_less)
  finally have l: "length ?n < length pre" .
  then show ?thesis
    by (intro exI [of _ "drop (length ?n) pre"]) (simp add: last_drop)
qed

lemma scan_mentions_complete:
  "s = pre @ CHR ''@'' # r \<Longrightarrow> starts_name r \<Longrightarrow> may_precede ok pre \<Longrightarrow>
     pre \<noteq> [] \<longrightarrow> \<not> name_char (last pre) \<Longrightarrow> mention_name r \<in> set (scan_mentions ok s)"
proof (induction ok s arbitrary: pre rule: scan_mentions.induct)
  case (2 ok c s)
  show ?case
  proof (cases pre)
    case Nil
    with "2.prems" show ?thesis by (auto simp: may_precede_def)
  next
    case (Cons p ps)
    with "2.prems"(1) have s: "c = p" "s = ps @ CHR ''@'' # r" by auto
    show ?thesis
    proof (cases "ok \<and> c = CHR ''@'' \<and> starts_name s")
      case True
      with Cons "2.prems"(3,4) s have ne: "ps \<noteq> []" "\<not> name_char (last ps)"
        by (auto simp: may_precede_def no_mention_after_def split: if_splits)
      from mention_name_before_at [OF ne, of r] s obtain pre' where
        "drop (length (mention_name s)) s = pre' @ CHR ''@'' # r" "pre' \<noteq> []" "last pre' = last ps"
        by auto
      with "2.IH"(1) [OF True, of pre'] "2.prems" Cons ne True
      show ?thesis by (auto simp: may_precede_def)
    next
      case False
      have "may_precede (\<not> no_mention_after c) ps" "ps \<noteq> [] \<longrightarrow> \<not> name_char (last ps)"
        using "2.prems"(3,4) Cons s by (auto simp: may_precede_def split: if_splits)
      with "2.IH"(2) [OF False s(2) "2.prems"(2)] False show ?thesis by auto
    qed
  qed
qed simp

lemma scan_at_names_set:
  "n \<in> set (scan_at_names s) \<longleftrightarrow>
     (\<exists>pre r. s = pre @ CHR ''@'' # r \<and> starts_name r \<and> n = takeWhile name_char r)"
proof (induction s rule: scan_at_names.induct)
  case (2 c s)
  have split: "(\<exists>pre r. c # s = pre @ CHR ''@'' # r \<and> starts_name r \<and> n = takeWhile name_char r) \<longleftrightarrow>
      (c = CHR ''@'' \<and> starts_name s \<and> n = takeWhile name_char s) \<or>
      (\<exists>pre r. s = pre @ CHR ''@'' # r \<and> starts_name r \<and> n = takeWhile name_char r)"
    (is "?A \<longleftrightarrow> ?B")
    by (auto simp: Cons_eq_append_conv)
  have skip: "(\<exists>pre r. dropWhile name_char s = pre @ CHR ''@'' # r \<and> Q r) \<longleftrightarrow>
      (\<exists>pre r. s = pre @ CHR ''@'' # r \<and> Q r)" for Q
  proof (induction s)
    case (Cons d s)
    then show ?case by (auto simp: Cons_eq_append_conv)
  qed simp
  show ?case
  proof (cases "c = CHR ''@'' \<and> starts_name s")
    case True
    then show ?thesis using "2.IH"(1) skip [of "\<lambda>r. starts_name r \<and> n = takeWhile name_char r"]
      unfolding split by auto
  next
    case False
    then show ?thesis using "2.IH"(2) unfolding split by auto
  qed
qed simp

section \<open>Properties\<close>

text \<open>
  \<open>ParseMentions\<close> finds the mentions of a body and nothing else, each once. A name it
  returns is, up to case, the longest name of at most 64 characters behind an \<open>@\<close> that
  stands at the start or after a character other than a letter, a digit, a dot or an \<open>@\<close>
  (so no part of an address such as \<open>user@example.com\<close>). Conversely an \<open>@\<close> followed by a
  letter or digit, at the start or after a character that can be part of no name and is
  neither a dot nor an \<open>@\<close>, yields its name.
\<close>

theorem parse_mentions_exact:
  "distinct (ParseMentions body) \<and>
   (\<forall>m \<in> set (ParseMentions body). \<exists>pre r. body = pre @ CHR ''@'' # r \<and> may_precede True pre \<and>
      starts_name r \<and> m = to_lower (mention_name r)) \<and>
   (\<forall>pre r. body = pre @ CHR ''@'' # r \<and> starts_name r \<and> may_precede True pre \<and>
      (pre = [] \<or> \<not> name_char (last pre)) \<longrightarrow> to_lower (mention_name r) \<in> set (ParseMentions body))"
proof (intro conjI ballI allI impI)
  fix m assume "m \<in> set (ParseMentions body)"
  then obtain n where n: "n \<in> set (scan_mentions True body)" "m = to_lower n"
    by (auto simp: ParseMentions_def)
  from scan_mentions_sound [OF n(1)] obtain pre post where
    "body = pre @ CHR ''@'' # n @ post" "may_precede True pre" "starts_name (n @ post)"
    "n = mention_name (n @ post)" by blast
  with n(2) show "\<exists>pre r. body = pre @ CHR ''@'' # r \<and> may_precede True pre \<and>
      starts_name r \<and> m = to_lower (mention_name r)" by metis
next
  fix pre r assume "body = pre @ CHR ''@'' # r \<and> starts_name r \<and> may_precede True pre \<and>
      (pre = [] \<or> \<not> name_char (last pre))"
  then show "to_lower (mention_name r) \<in> set (ParseMentions body)"
    using scan_mentions_complete [of body pre r True] by (auto simp: ParseMentions_def)
qed (simp add: ParseMentions_def)

theorem parse_mentions_exact_witness:
  "ParseMentions ''hi @Bob, mail a@b.c'' = [''bob''] \<and>
   to_lower (mention_name ''Bob, mail a@b.c'') \<in> set (ParseMentions ''hi @Bob, mail a@b.c'')"
proof
  show "ParseMentions ''hi @Bob, mail a@b.c'' = [''bob'']" by code_simp
  have "starts_name ''Bob, mail a@b.c''" "may_precede True ''hi ''" "\<not> name_char (last ''hi '')"
    by code_simp+
  then show "to_lower (mention_name ''Bob, mail a@b.c'') \<in> set (ParseMentions ''hi @Bob, mail a@b.c'')"
    using parse_mentions_exact [of "''hi @Bob, mail a@b.c''"] by (metis append.simps)
qed

text \<open>
  \<open>ExtractMentions\<close> returns, each once, exactly the maximal names that stand behind any
  \<open>@\<close> of the body followed by a letter or a digit: unlike \<open>ParseMentions\<close> it also takes the
  host of a mail address for a mention, keeps the case and has no limit of 64.
\<close>

theorem extract_mentions_exact:
  "distinct (ExtractMentions body) \<and>
   set (ExtractMentions body) =
     {takeWhile name_char r | pre r. body = pre @ CHR ''@'' # r \<and> starts_name r}"
proof
  show "distinct (ExtractMentions body)" by (simp add: ExtractMentions_def)
  show "set (ExtractMentions body) =
     {takeWhile name_char r | pre r. body = pre @ CHR ''@'' # r \<and> starts_name r}"
    unfolding ExtractMentions_def set_dedup set_eq_iff mem_Collect_eq scan_at_names_set by blast
qed

end
