(* ===== verification/Messaging.thy ===== *)
theory Messaging
  imports Mentions
begin

text \<open>
  The message store and service of \<open>internal/messaging\<close>: \<open>types.go\<close>, \<open>options.go\<close>,
  \<open>store.go\<close> and \<open>service.go\<close>.

  \<^item> \<open>msg_db\<close> holds the tables \<open>conversations\<close>, \<open>messages\<close> and \<open>inbox_state\<close>. A message row
    has \<open>to_agent\<close> and \<open>claimed_by\<close> as SQL has them, NULL being \<open>None\<close>.
  \<^item> \<open>msg_env\<close> is what the package reads of tables other packages own (active agents, channels
    and their members) and which statements fail at this call.
  \<^item> JSON columns hold the value their text decodes to. Times are whole seconds, the
    resolution of \<open>CURRENT_TIMESTAMP\<close>; \<open>ORDER BY\<close> sorts stably on rowid order.
  \<^item> The optional collaborators of the service (attachment linker, embeddings, listeners,
    tracer, dispatcher) receive their calls as a list of effects.
\<close>

section \<open>Data\<close>

datatype message_status = MPending | MProcessing | MDone | MFailed

fun status_text :: "message_status \<Rightarrow> string" where
  "status_text MPending = ''pending''"
| "status_text MProcessing = ''processing''"
| "status_text MDone = ''done''"
| "status_text MFailed = ''failed''"

record Message =
  msg_ID :: id64
  msg_ConversationID :: id64
  msg_FromAgent :: string
  msg_ToAgent :: "string option"
  msg_ChannelID :: "id64 option"
  msg_ReplyTo :: "id64 option"
  msg_Body :: string
  msg_Priority :: int
  msg_Status :: message_status
  msg_Metadata :: json
  msg_ClaimedBy :: "string option"
  msg_ClaimedAt :: "timestamp option"
  msg_CreatedAt :: timestamp
  msg_UpdatedAt :: timestamp

record Conversation =
  cv_ID :: id64
  cv_Subject :: string
  cv_CreatedBy :: string
  cv_ChannelID :: "id64 option"
  cv_CreatedAt :: timestamp
  cv_UpdatedAt :: timestamp

record InboxState =
  is_LastReadMessageID :: id64
  is_UpdatedAt :: timestamp

record SendOptions =
  so_Subject :: string
  so_Priority :: int
  so_Metadata :: raw_json
  so_ChannelID :: "id64 option"
  so_ConversationID :: "id64 option"
  so_ReplyTo :: "id64 option"
  so_Attachments :: "string list"

text \<open>
  \<open>After\<close> and \<open>Before\<close> are the instants the strings parse to; \<open>None\<close> stands for the empty
  string and for a string \<open>time.Parse\<close> rejects, both of which add no condition.
\<close>

record ReadOptions =
  ro_Status :: string
  ro_FromAgent :: string
  ro_ConversationID :: "id64 option"
  ro_MinPriority :: int
  ro_Limit :: int
  ro_Offset :: int
  ro_After :: "timestamp option"
  ro_Before :: "timestamp option"
  ro_IncludeRead :: bool
  ro_MarkRead :: bool

record SearchOptions =
  se_FromAgent :: string
  se_ToAgent :: string
  se_ChannelID :: "id64 option"
  se_MinPriority :: int
  se_Status :: string
  se_Limit :: int
  se_Offset :: int
  se_After :: "timestamp option"
  se_Before :: "timestamp option"
  se_Channel :: string
  se_Channels :: "string list"
  se_ExcludeChannels :: "string list"
  se_Agents :: "string list"
  se_ExcludeAgents :: "string list"

record PaginatedMessages =
  pm_Messages :: "Message list"
  pm_Total :: nat
  pm_Offset :: int
  pm_Limit :: int

datatype msg_error =
    EmptyBody
  | NoDestination
  | BothDestinations
  | BadPriority
  | BadMetadata
  | AgentNotFound string
  | NoSuchConversation
  | MessageNotFound id64
  | NotProcessing id64 message_status
  | NotClaimedBy id64 string
  | NotFoundOrNotClaimed
  | MsgStatementFailed
  | MsgPanic

datatype msg_stmt =
    SAgentExists | SGetConversation | SFindConversation | SInsertConversation | SInsertMessage
  | SUpdateInboxState id64 | SQuery | SUpdateStatus

record msg_env =
  en_agents :: "string list"
  en_channels :: "(id64 \<times> string) list"
  en_members :: "(id64 \<times> string) list"
  en_flt :: "msg_stmt \<Rightarrow> bool"

record msg_db =
  md_convs :: "Conversation list"
  md_conv_seq :: id64
  md_msgs :: "Message list"
  md_msg_seq :: id64
  md_inbox :: "(string \<times> id64) \<Rightarrow> InboxState option"

text \<open>Which collaborators are set, and what the service asks of them.\<close>

record msg_service =
  sv_attLinker :: bool
  sv_embeddings :: bool
  sv_listeners :: nat
  sv_tracer :: bool
  sv_dispatcher :: bool

datatype msg_effect =
    AttachToMessage string id64
  | OnMessageCreated id64 string
  | OnMessageSent Message
  | TraceRecord string string
  | DispatchEvent MessageEvent

section \<open>Store\<close>

definition InsertConversation ::
  "msg_env \<Rightarrow> timestamp \<Rightarrow> Conversation \<Rightarrow> msg_db \<Rightarrow> (msg_error + Conversation) \<times> msg_db" where
  "InsertConversation env now conv db =
     (if en_flt env SInsertConversation \<or>
         (case cv_ChannelID conv of None \<Rightarrow> False | Some c \<Rightarrow> c \<notin> set (map fst (en_channels env)))
      then (Inl MsgStatementFailed, db)
      else let i = md_conv_seq db + 1;
               row = conv\<lparr>cv_ID := i, cv_CreatedAt := now, cv_UpdatedAt := now\<rparr>
        in (Inr (conv\<lparr>cv_ID := i\<rparr>), db\<lparr>md_convs := md_convs db @ [row], md_conv_seq := i\<rparr>))"

definition between :: "string \<Rightarrow> string \<Rightarrow> Message \<Rightarrow> bool" where
  "between a b m \<longleftrightarrow> (msg_FromAgent m = a \<and> msg_ToAgent m = Some b) \<or>
     (msg_FromAgent m = b \<and> msg_ToAgent m = Some a)"

definition FindConversation :: "msg_db \<Rightarrow> string \<Rightarrow> string \<Rightarrow> string \<Rightarrow> Conversation option" where
  "FindConversation db subject fromAgent toAgent =
     find_row (\<lambda>_. True) (sort_key (\<lambda>c. - cv_ID c)
       (filter (\<lambda>c. cv_Subject c = subject \<and> cv_ChannelID c = None \<and>
          (\<exists>m \<in> set (md_msgs db). msg_ConversationID m = cv_ID c \<and> between fromAgent toAgent m))
        (md_convs db)))"

definition get_conversation :: "msg_db \<Rightarrow> id64 \<Rightarrow> Conversation option" where
  "get_conversation db i = find_row (\<lambda>c. cv_ID c = i) (md_convs db)"

definition message_fks_ok :: "msg_env \<Rightarrow> msg_db \<Rightarrow> Message \<Rightarrow> bool" where
  "message_fks_ok env db m \<longleftrightarrow>
     msg_ConversationID m \<in> set (map cv_ID (md_convs db)) \<and>
     (case msg_ChannelID m of None \<Rightarrow> True | Some c \<Rightarrow> c \<in> set (map fst (en_channels env))) \<and>
     (case msg_ReplyTo m of None \<Rightarrow> True | Some r \<Rightarrow> r \<in> set (map msg_ID (md_msgs db)))"

definition InsertMessage ::
  "msg_env \<Rightarrow> timestamp \<Rightarrow> Message \<Rightarrow> msg_db \<Rightarrow> (msg_error + Message) \<times> msg_db" where
  "InsertMessage env now m db =
     (if en_flt env SInsertMessage \<or> \<not> message_fks_ok env db m \<or>
         msg_Priority m < 1 \<or> 10 < msg_Priority m
      then (Inl MsgStatementFailed, db)
      else let i = md_msg_seq db + 1;
               row = m\<lparr>msg_ID := i, msg_ClaimedBy := None, msg_ClaimedAt := None,
                       msg_CreatedAt := now, msg_UpdatedAt := now\<rparr>
        in (Inr (m\<lparr>msg_ID := i\<rparr>), db\<lparr>md_msgs := md_msgs db @ [row], md_msg_seq := i\<rparr>))"

definition last_read :: "msg_db \<Rightarrow> string \<Rightarrow> id64 \<Rightarrow> id64" where
  "last_read db agent conv =
     (case md_inbox db (agent, conv) of None \<Rightarrow> 0 | Some st \<Rightarrow> is_LastReadMessageID st)"

definition time_window :: "timestamp option \<Rightarrow> timestamp option \<Rightarrow> timestamp \<Rightarrow> bool" where
  "time_window after before t \<longleftrightarrow>
     (case after of None \<Rightarrow> True | Some a \<Rightarrow> a \<le> t) \<and> (case before of None \<Rightarrow> True | Some b \<Rightarrow> t \<le> b)"

definition buildInboxConditions :: "msg_db \<Rightarrow> string \<Rightarrow> ReadOptions \<Rightarrow> Message \<Rightarrow> bool" where
  "buildInboxConditions db agentName opts m \<longleftrightarrow>
     msg_ToAgent m = Some agentName \<and>
     (ro_IncludeRead opts \<or> last_read db agentName (msg_ConversationID m) < msg_ID m) \<and>
     (ro_Status opts = '''' \<or> status_text (msg_Status m) = ro_Status opts) \<and>
     (ro_FromAgent opts = '''' \<or> msg_FromAgent m = ro_FromAgent opts) \<and>
     (case ro_ConversationID opts of None \<Rightarrow> True | Some c \<Rightarrow> msg_ConversationID m = c) \<and>
     (0 < ro_MinPriority opts \<longrightarrow> ro_MinPriority opts \<le> msg_Priority m) \<and>
     time_window (ro_After opts) (ro_Before opts) (msg_CreatedAt m)"

definition default_limit :: "int \<Rightarrow> int \<Rightarrow> int" where
  "default_limit d l = (if l \<le> 0 then d else l)"

definition by_priority :: "Message \<Rightarrow> int \<times> timestamp" where
  "by_priority m = (- msg_Priority m, msg_CreatedAt m)"

definition GetInboxMessages :: "msg_db \<Rightarrow> string \<Rightarrow> ReadOptions \<Rightarrow> Message list" where
  "GetInboxMessages db agentName opts =
     limit_offset (default_limit 50 (ro_Limit opts)) (max 0 (ro_Offset opts))
       (sort_key by_priority (filter (buildInboxConditions db agentName opts) (md_msgs db)))"

definition CountInboxMessages :: "msg_db \<Rightarrow> string \<Rightarrow> ReadOptions \<Rightarrow> nat" where
  "CountInboxMessages db agentName opts =
     length (filter (buildInboxConditions db agentName opts) (md_msgs db))"

text \<open>The upsert of a read position, which never moves it back.\<close>

definition UpdateInboxState ::
  "msg_env \<Rightarrow> timestamp \<Rightarrow> string \<Rightarrow> id64 \<Rightarrow> id64 \<Rightarrow> msg_db \<Rightarrow> (msg_error + unit) \<times> msg_db" where
  "UpdateInboxState env now agentName conv lastReadMsgID db =
     (if en_flt env (SUpdateInboxState conv) \<or> conv \<notin> set (map cv_ID (md_convs db))
      then (Inl MsgStatementFailed, db)
      else let v = (case md_inbox db (agentName, conv) of
                      None \<Rightarrow> lastReadMsgID
                    | Some st \<Rightarrow> max (is_LastReadMessageID st) lastReadMsgID)
        in (Inr (), db\<lparr>md_inbox := (md_inbox db)((agentName, conv) \<mapsto>
             \<lparr>is_LastReadMessageID = v, is_UpdatedAt = now\<rparr>)\<rparr>))"

text \<open>The three statements of \<open>ClaimMessages\<close>.\<close>

definition claim_select :: "string \<Rightarrow> int \<Rightarrow> msg_db \<Rightarrow> id64 list" where
  "claim_select agentName limit db =
     map msg_ID (limit_offset limit 0
       (sort_key by_priority (filter (\<lambda>m. msg_ToAgent m = Some agentName \<and> msg_Status m = MPending)
         (md_msgs db))))"

definition claim_update :: "timestamp \<Rightarrow> string \<Rightarrow> id64 list \<Rightarrow> msg_db \<Rightarrow> msg_db" where
  "claim_update now agentName ids db =
     db\<lparr>md_msgs := update_where (\<lambda>m. msg_ID m \<in> set ids \<and> msg_Status m = MPending)
       (\<lambda>m. m\<lparr>msg_Status := MProcessing, msg_ClaimedBy := Some agentName,
              msg_ClaimedAt := Some now, msg_UpdatedAt := now\<rparr>) (md_msgs db)\<rparr>"

definition claim_fetch :: "id64 list \<Rightarrow> msg_db \<Rightarrow> Message list" where
  "claim_fetch ids db = sort_key by_priority (filter (\<lambda>m. msg_ID m \<in> set ids) (md_msgs db))"

definition store_ClaimMessages ::
  "timestamp \<Rightarrow> string \<Rightarrow> int \<Rightarrow> msg_db \<Rightarrow> Message list \<times> msg_db" where
  "store_ClaimMessages now agentName limit db =
     (let ids = claim_select agentName (default_limit 10 limit) db in
      if ids = [] then ([], db)
      else let db' = claim_update now agentName ids db in (claim_fetch ids db', db'))"

definition UpdateMessageStatus ::
  "msg_env \<Rightarrow> timestamp \<Rightarrow> id64 \<Rightarrow> message_status \<Rightarrow> string \<Rightarrow> json option \<Rightarrow> msg_db \<Rightarrow>
   (msg_error + unit) \<times> msg_db" where
  "UpdateMessageStatus env now i status claimedBy metadata db =
     (let P = (\<lambda>m. msg_ID m = i \<and> msg_ClaimedBy m = Some claimedBy);
          f = (\<lambda>m. m\<lparr>msg_Status := status, msg_UpdatedAt := now,
                msg_Metadata := (case metadata of None \<Rightarrow> msg_Metadata m | Some j \<Rightarrow> j)\<rparr>)
      in if en_flt env SUpdateStatus then (Inl MsgStatementFailed, db)
         else if rows_affected P (md_msgs db) = 0 then (Inl NotFoundOrNotClaimed, db)
         else (Inr (), db\<lparr>md_msgs := update_where P f (md_msgs db)\<rparr>))"

definition get_message :: "msg_db \<Rightarrow> id64 \<Rightarrow> Message option" where
  "get_message db i = find_row (\<lambda>m. msg_ID m = i) (md_msgs db)"

subsection \<open>Search\<close>

definition already_quoted :: "string \<Rightarrow> bool" where
  "already_quoted tok \<longleftrightarrow> 2 \<le> length tok \<and> hd tok = CHR 0x22 \<and> last tok = CHR 0x22"

definition quote_token :: "string \<Rightarrow> string" where
  "quote_token tok =
     (if already_quoted tok then tok
      else CHR 0x22 # concat (map (\<lambda>c. if c = CHR 0x22 then [c, c] else [c]) tok) @ [CHR 0x22])"

fun join_with :: "string \<Rightarrow> string list \<Rightarrow> string" where
  "join_with sep [] = ''''"
| "join_with sep [x] = x"
| "join_with sep (x # y # xs) = x @ sep @ join_with sep (y # xs)"

definition sanitizeFTS5Query :: "string \<Rightarrow> string" where
  "sanitizeFTS5Query query =
     (let q = trim_space query in
      if q = '''' then '''' else join_with '' '' (map quote_token (str_fields q)))"

text \<open>
  The ids of the channels whose lower-cased name satisfies a condition; SQLite's \<open>LOWER\<close>
  changes ASCII letters only.
\<close>

definition channels_named :: "msg_env \<Rightarrow> (string \<Rightarrow> bool) \<Rightarrow> id64 list" where
  "channels_named env P = map fst (filter (\<lambda>c. P (to_lower (snd c))) (en_channels env))"

definition in_channels :: "id64 list \<Rightarrow> Message \<Rightarrow> bool" where
  "in_channels ids m = (case msg_ChannelID m of None \<Rightarrow> False | Some c \<Rightarrow> c \<in> set ids)"

text \<open>
  The conditions of a search, without the \<open>MATCH\<close>. A comparison with a NULL \<open>to_agent\<close> is
  not true, so neither \<open>m.to_agent = ''\<close> nor \<open>m.to_agent NOT IN (...)\<close> accepts such a row.
\<close>

definition accessible :: "msg_env \<Rightarrow> string \<Rightarrow> Message \<Rightarrow> bool" where
  "accessible env agentName m \<longleftrightarrow>
     msg_ToAgent m = Some agentName \<or> msg_FromAgent m = agentName \<or>
     (msg_ToAgent m = Some '''' \<and>
      (case msg_ChannelID m of None \<Rightarrow> False | Some c \<Rightarrow> (c, agentName) \<in> set (en_members env)))"

definition buildSearchConditions :: "msg_env \<Rightarrow> string \<Rightarrow> SearchOptions \<Rightarrow> Message \<Rightarrow> bool" where
  "buildSearchConditions env agentName opts m \<longleftrightarrow>
     accessible env agentName m \<and>
     (se_FromAgent opts = '''' \<or> msg_FromAgent m = se_FromAgent opts) \<and>
     (se_ToAgent opts = '''' \<or> msg_ToAgent m = Some (se_ToAgent opts)) \<and>
     (0 < se_MinPriority opts \<longrightarrow> se_MinPriority opts \<le> msg_Priority m) \<and>
     (se_Status opts = '''' \<or> status_text (msg_Status m) = se_Status opts) \<and>
     (case se_ChannelID opts of None \<Rightarrow> True | Some c \<Rightarrow> msg_ChannelID m = Some c) \<and>
     (se_Channel opts = '''' \<or>
        in_channels (channels_named env (\<lambda>n. n = to_lower (se_Channel opts))) m) \<and>
     (se_Channels opts = [] \<or>
        in_channels (channels_named env (\<lambda>n. n \<in> set (se_Channels opts))) m) \<and>
     (se_ExcludeChannels opts = [] \<or>
        \<not> in_channels (channels_named env (\<lambda>n. n \<in> set (se_ExcludeChannels opts))) m) \<and>
     (se_Agents opts = [] \<or> msg_FromAgent m \<in> set (se_Agents opts) \<or>
        (case msg_ToAgent m of None \<Rightarrow> False | Some t \<Rightarrow> t \<in> set (se_Agents opts))) \<and>
     (se_ExcludeAgents opts = [] \<or> msg_FromAgent m \<notin> set (se_ExcludeAgents opts) \<and>
        (case msg_ToAgent m of None \<Rightarrow> False
         | Some t \<Rightarrow> t = '''' \<or> t \<notin> set (se_ExcludeAgents opts))) \<and>
     time_window (se_After opts) (se_Before opts) (msg_CreatedAt m)"

text \<open>
  The full-text index is SQLite's: \<open>fts q\<close> is the list of the row ids that match \<open>q\<close>, best
  rank first, or \<open>None\<close> when the query is rejected.
\<close>

definition search_rows ::
  "(string \<Rightarrow> id64 list option) \<Rightarrow> msg_env \<Rightarrow> msg_db \<Rightarrow> string \<Rightarrow> string \<Rightarrow> SearchOptions \<Rightarrow>
   Message list option" where
  "search_rows fts env db agentName query opts =
     (let rows = filter (buildSearchConditions env agentName opts) (md_msgs db) in
      if query = '''' then Some (sort_key (\<lambda>m. - msg_CreatedAt m) rows)
      else map_option (\<lambda>ids. concat (map (\<lambda>i. filter (\<lambda>m. msg_ID m = i) rows) ids))
             (fts (sanitizeFTS5Query query)))"

definition store_SearchMessages ::
  "(string \<Rightarrow> id64 list option) \<Rightarrow> msg_env \<Rightarrow> msg_db \<Rightarrow> string \<Rightarrow> string \<Rightarrow> SearchOptions \<Rightarrow>
   Message list option" where
  "store_SearchMessages fts env db agentName query opts =
     map_option (limit_offset (default_limit 20 (se_Limit opts)) (max 0 (se_Offset opts)))
       (search_rows fts env db agentName query opts)"

definition CountSearchMessages ::
  "(string \<Rightarrow> id64 list option) \<Rightarrow> msg_env \<Rightarrow> msg_db \<Rightarrow> string \<Rightarrow> string \<Rightarrow> SearchOptions \<Rightarrow>
   nat option" where
  "CountSearchMessages fts env db agentName query opts =
     map_option length (search_rows fts env db agentName query opts)"

subsection \<open>Other queries\<close>

definition GetConversationMessages :: "msg_db \<Rightarrow> id64 \<Rightarrow> Message list" where
  "GetConversationMessages db conv =
     sort_key msg_CreatedAt (filter (\<lambda>m. msg_ConversationID m = conv) (md_msgs db))"

definition GetReplies :: "msg_db \<Rightarrow> id64 \<Rightarrow> Message list" where
  "GetReplies db i = sort_key msg_CreatedAt (filter (\<lambda>m. msg_ReplyTo m = Some i) (md_msgs db))"

definition store_GetChannelMessages :: "msg_db \<Rightarrow> id64 \<Rightarrow> int \<Rightarrow> int \<Rightarrow> Message list" where
  "store_GetChannelMessages db ch limit off =
     limit_offset (default_limit 50 limit) (max 0 off)
       (sort_key msg_CreatedAt (filter (\<lambda>m. msg_ChannelID m = Some ch) (md_msgs db)))"

definition CountChannelMessages :: "msg_db \<Rightarrow> id64 \<Rightarrow> nat" where
  "CountChannelMessages db ch = length (filter (\<lambda>m. msg_ChannelID m = Some ch) (md_msgs db))"

definition to_in :: "string list \<Rightarrow> Message \<Rightarrow> bool" where
  "to_in agents m = (case msg_ToAgent m of None \<Rightarrow> False | Some t \<Rightarrow> t \<in> set agents)"

definition dm_with :: "string list \<Rightarrow> string \<Rightarrow> Message \<Rightarrow> bool" where
  "dm_with agents peer m \<longleftrightarrow> msg_ChannelID m = None \<and>
     ((msg_FromAgent m \<in> set agents \<and> msg_ToAgent m = Some peer) \<or>
      (msg_FromAgent m = peer \<and> to_in agents m))"

definition GetDMMessages :: "msg_db \<Rightarrow> string list \<Rightarrow> string \<Rightarrow> int \<Rightarrow> Message list" where
  "GetDMMessages db agents peer limit =
     (if agents = [] then []
      else limit_offset (default_limit 50 limit) 0
             (sort_key (\<lambda>m. - msg_CreatedAt m) (filter (dm_with agents peer) (md_msgs db))))"

record DMPartner =
  dp_Name :: string
  dp_LastMessage :: string
  dp_LastTime :: timestamp
  dp_Unread :: nat

text \<open>The peer of a direct message seen from the owned agents, NULL being \<open>None\<close>.\<close>

definition peer_of :: "string list \<Rightarrow> Message \<Rightarrow> string option" where
  "peer_of agents m = (if msg_FromAgent m \<in> set agents then msg_ToAgent m else Some (msg_FromAgent m))"

definition partner_of :: "string list \<Rightarrow> msg_db \<Rightarrow> Message \<Rightarrow> string \<Rightarrow> DMPartner" where
  "partner_of agents db m name =
     \<lparr>dp_Name = name,
      dp_LastMessage = (if 80 < length (msg_Body m) then take 80 (msg_Body m) @ ''...'' else msg_Body m),
      dp_LastTime = msg_CreatedAt m,
      dp_Unread = (if name \<in> set agents then 0
        else length (filter (\<lambda>m. msg_ChannelID m = None \<and> msg_FromAgent m = name \<and> to_in agents m \<and>
               (msg_Status m = MPending \<or> msg_Status m = MProcessing)) (md_msgs db)))\<rparr>"

definition GetDMPartners :: "msg_db \<Rightarrow> string list \<Rightarrow> DMPartner list" where
  "GetDMPartners db agents =
     (if agents = [] then []
      else let rows = filter (\<lambda>m. msg_ChannelID m = None \<and>
                 (msg_FromAgent m \<in> set agents \<or> to_in agents m)) (md_msgs db);
               latest = (\<lambda>p. hd (sort_key (\<lambda>m. - msg_CreatedAt m) (filter (\<lambda>m. peer_of agents m = Some p) rows)));
               names = filter (\<lambda>p. p \<noteq> '''') (List.map_filter (peer_of agents) rows)
        in limit_offset 50 0 (sort_key (\<lambda>p. - dp_LastTime p)
             (map (\<lambda>p. partner_of agents db (latest p) p) (dedup names))))"

definition CountPendingDMs :: "msg_db \<Rightarrow> string \<Rightarrow> nat" where
  "CountPendingDMs db agentName = length (filter (\<lambda>m. msg_ToAgent m = Some agentName \<and>
     msg_Status m = MPending \<and> msg_ChannelID m = None) (md_msgs db))"

definition GetPendingDMs :: "msg_db \<Rightarrow> string \<Rightarrow> int \<Rightarrow> Message list" where
  "GetPendingDMs db agentName limit =
     limit_offset (default_limit 10 limit) 0 (sort_key (\<lambda>m. - msg_CreatedAt m)
       (filter (\<lambda>m. msg_ToAgent m = Some agentName \<and>
          (msg_Status m = MPending \<or> msg_Status m = MProcessing) \<and> msg_ChannelID m = None \<and>
          msg_FromAgent m \<noteq> ''system'') (md_msgs db)))"

definition GetSystemNotifications :: "msg_db \<Rightarrow> string \<Rightarrow> int \<Rightarrow> Message list" where
  "GetSystemNotifications db agentName limit =
     limit_offset (default_limit 5 limit) 0 (sort_key (\<lambda>m. - msg_CreatedAt m)
       (filter (\<lambda>m. msg_ToAgent m = Some agentName \<and> msg_FromAgent m = ''system'' \<and>
          msg_Status m = MPending) (md_msgs db)))"

record DMUnreadCount =
  du_Agent :: string
  du_UnreadCount :: nat
  du_LastMessageID :: id64

definition GetDMUnreadCounts :: "msg_db \<Rightarrow> string \<Rightarrow> DMUnreadCount list" where
  "GetDMUnreadCounts db agentName =
     (let rows = filter (\<lambda>m. msg_ToAgent m = Some agentName \<and> msg_ChannelID m = None \<and>
             msg_FromAgent m \<noteq> ''system'') (md_msgs db)
      in map (\<lambda>a. let g = filter (\<lambda>m. msg_FromAgent m = a) rows in
               \<lparr>du_Agent = a,
                du_UnreadCount = length (filter (\<lambda>m. last_read db agentName (msg_ConversationID m) < msg_ID m) g),
                du_LastMessageID = Max (set (map msg_ID g))\<rparr>)
           (sort (dedup (map msg_FromAgent rows))))"

definition GetLastReadForChannel :: "msg_db \<Rightarrow> string \<Rightarrow> id64 \<Rightarrow> id64" where
  "GetLastReadForChannel db agentName ch =
     (let convs = dedup (map msg_ConversationID (filter (\<lambda>m. msg_ChannelID m = Some ch) (md_msgs db)))
      in if convs = [] then 0 else Min (set (map (last_read db agentName) convs)))"

definition GetConversationIDsForChannel :: "msg_db \<Rightarrow> id64 \<Rightarrow> id64 \<Rightarrow> id64 list" where
  "GetConversationIDsForChannel db ch lastMessageID =
     dedup (map msg_ConversationID (filter (\<lambda>m. msg_ChannelID m = Some ch \<and> msg_ID m \<le> lastMessageID)
       (md_msgs db)))"

definition GetConversationIDsForDM :: "msg_db \<Rightarrow> string list \<Rightarrow> string \<Rightarrow> id64 \<Rightarrow> id64 list" where
  "GetConversationIDsForDM db agents peer lastMessageID =
     (if agents = [] then []
      else dedup (map msg_ConversationID
             (filter (\<lambda>m. dm_with agents peer m \<and> msg_ID m \<le> lastMessageID) (md_msgs db))))"

definition GetLastReadForDM :: "msg_db \<Rightarrow> string list \<Rightarrow> string \<Rightarrow> id64" where
  "GetLastReadForDM db agents peer =
     (let convs = dedup (map msg_ConversationID (filter (dm_with agents peer) (md_msgs db)));
          reads = List.map_filter (\<lambda>k. map_option is_LastReadMessageID (md_inbox db k))
                    (List.product agents convs)
      in if reads = [] then 0 else Max (set reads))"

definition GetReplyCounts :: "msg_db \<Rightarrow> id64 list \<Rightarrow> id64 \<Rightarrow> nat option" where
  "GetReplyCounts db ids i =
     (let n = length (filter (\<lambda>m. msg_ReplyTo m = Some i) (md_msgs db)) in
      if i \<in> set ids \<and> 0 < n then Some n else None)"

section \<open>Service\<close>

text \<open>Find or create the conversation of a message that is being sent.\<close>

definition resolve_conversation ::
  "msg_env \<Rightarrow> timestamp \<Rightarrow> string \<Rightarrow> string \<Rightarrow> SendOptions \<Rightarrow> msg_db \<Rightarrow> (msg_error + id64) \<times> msg_db" where
  "resolve_conversation env now from to opts db =
     (let create =
        (case InsertConversation env now
                \<lparr>cv_ID = 0, cv_Subject = so_Subject opts, cv_CreatedBy = from,
                 cv_ChannelID = so_ChannelID opts, cv_CreatedAt = 0, cv_UpdatedAt = 0\<rparr> db of
           (Inl e, db') \<Rightarrow> (Inl e, db')
         | (Inr c, db') \<Rightarrow> (Inr (cv_ID c), db'))
      in case so_ConversationID opts of
           Some i \<Rightarrow>
             if en_flt env SGetConversation then (Inl MsgStatementFailed, db)
             else (case get_conversation db i of
                     None \<Rightarrow> (Inl NoSuchConversation, db)
                   | Some c \<Rightarrow> (Inr (cv_ID c), db))
         | None \<Rightarrow>
             if so_Subject opts \<noteq> '''' \<and> to \<noteq> '''' then
               (if en_flt env SFindConversation then (Inl MsgStatementFailed, db)
                else case FindConversation db (so_Subject opts) from to of
                       Some c \<Rightarrow> (Inr (cv_ID c), db)
                     | None \<Rightarrow> create)
             else create)"

definition effective_priority :: "int \<Rightarrow> int" where
  "effective_priority p = (if p = 0 then 5 else p)"

definition effective_metadata :: "raw_json \<Rightarrow> json option" where
  "effective_metadata r =
     (case r of REmpty \<Rightarrow> Some (JObj []) | RMalformed _ \<Rightarrow> None | RValid j \<Rightarrow> Some j)"

definition send_event :: "Message \<Rightarrow> string \<Rightarrow> SendOptions \<Rightarrow> MessageEvent" where
  "send_event m to opts =
     \<lparr>ev_EventType = (if so_ChannelID opts = None then ''message.received'' else ''channel.message''),
      ev_MessageID = msg_ID m, ev_FromAgent = msg_FromAgent m, ev_ToAgent = to,
      ev_Channel = (case so_ChannelID opts of None \<Rightarrow> '''' | Some c \<Rightarrow> show_int c),
      ev_Body = msg_Body m, ev_Priority = msg_Priority m, ev_Metadata = msg_Metadata m,
      ev_Depth = 0, ev_MentionedAgents = ExtractMentions (msg_Body m)\<rparr>"

definition send_effects :: "msg_service \<Rightarrow> Message \<Rightarrow> string \<Rightarrow> SendOptions \<Rightarrow> msg_effect list" where
  "send_effects svc m to opts =
     (if sv_attLinker svc then map (\<lambda>h. AttachToMessage h (msg_ID m)) (so_Attachments opts) else []) @
     (if sv_embeddings svc then [OnMessageCreated (msg_ID m) (msg_Body m)] else []) @
     replicate (sv_listeners svc) (OnMessageSent m) @
     (if sv_tracer svc then [TraceRecord (msg_FromAgent m) ''send_message''] else []) @
     (if sv_dispatcher svc then [DispatchEvent (send_event m to opts)] else [])"

definition validate_send :: "msg_env \<Rightarrow> string \<Rightarrow> string \<Rightarrow> SendOptions \<Rightarrow> msg_error option" where
  "validate_send env to body opts =
     (if trim_space body = '''' then Some EmptyBody
      else if to = '''' \<and> so_ChannelID opts = None then Some NoDestination
      else if to \<noteq> '''' \<and> so_ChannelID opts \<noteq> None then Some BothDestinations
      else if effective_priority (so_Priority opts) < 1 \<or> 10 < effective_priority (so_Priority opts)
      then Some BadPriority
      else if effective_metadata (so_Metadata opts) = None then Some BadMetadata
      else if to \<noteq> '''' \<and> en_flt env SAgentExists then Some MsgStatementFailed
      else if to \<noteq> '''' \<and> to \<notin> set (en_agents env) then Some (AgentNotFound to)
      else None)"

definition new_message :: "string \<Rightarrow> string \<Rightarrow> string \<Rightarrow> SendOptions \<Rightarrow> json \<Rightarrow> id64 \<Rightarrow> Message" where
  "new_message from to body opts metadata conv =
     \<lparr>msg_ID = 0, msg_ConversationID = conv, msg_FromAgent = from,
      msg_ToAgent = (if to = '''' then None else Some to), msg_ChannelID = so_ChannelID opts,
      msg_ReplyTo = so_ReplyTo opts, msg_Body = body,
      msg_Priority = effective_priority (so_Priority opts), msg_Status = MPending,
      msg_Metadata = metadata, msg_ClaimedBy = None, msg_ClaimedAt = None,
      msg_CreatedAt = 0, msg_UpdatedAt = 0\<rparr>"

definition SendMessage ::
  "msg_service \<Rightarrow> msg_env \<Rightarrow> timestamp \<Rightarrow> string \<Rightarrow> string \<Rightarrow> string \<Rightarrow> SendOptions \<Rightarrow> msg_db \<Rightarrow>
   (msg_error + Message) \<times> msg_effect list \<times> msg_db" where
  "SendMessage svc env now from to body opts db =
     (case validate_send env to body opts of
        Some e \<Rightarrow> (Inl e, [], db)
      | None \<Rightarrow>
          (case resolve_conversation env now from to opts db of
             (Inl e, db1) \<Rightarrow> (Inl e, [], db1)
           | (Inr conv, db1) \<Rightarrow>
               (case InsertMessage env now
                       (new_message from to body opts (the (effective_metadata (so_Metadata opts))) conv) db1 of
                  (Inl e, db2) \<Rightarrow> (Inl e, [], db2)
                | (Inr m, db2) \<Rightarrow> (Inr m, send_effects svc m to opts, db2))))"

text \<open>
  The read positions of \<open>ReadInbox\<close>: the loop that collects the largest id per conversation,
  and the loop over that map, whose order Go leaves open (\<open>order\<close>).
\<close>

definition conversationMaxID :: "Message list \<Rightarrow> id64 \<Rightarrow> id64 option" where
  "conversationMaxID msgs =
     fold (\<lambda>m f. if (case f (msg_ConversationID m) of None \<Rightarrow> 0 | Some x \<Rightarrow> x) < msg_ID m
                 then f(msg_ConversationID m \<mapsto> msg_ID m) else f) msgs Map.empty"

definition mark_read ::
  "msg_env \<Rightarrow> timestamp \<Rightarrow> string \<Rightarrow> (id64 list \<Rightarrow> id64 list) \<Rightarrow> Message list \<Rightarrow> msg_db \<Rightarrow> msg_db" where
  "mark_read env now agentName order msgs db =
     fold (\<lambda>conv db. case conversationMaxID msgs conv of
              None \<Rightarrow> db
            | Some i \<Rightarrow> snd (UpdateInboxState env now agentName conv i db))
       (order (dedup (map msg_ConversationID msgs))) db"

definition ReadInbox ::
  "msg_env \<Rightarrow> timestamp \<Rightarrow> (id64 list \<Rightarrow> id64 list) \<Rightarrow> string \<Rightarrow> ReadOptions \<Rightarrow> msg_db \<Rightarrow>
   (msg_error + PaginatedMessages) \<times> msg_db" where
  "ReadInbox env now order agentName opts db =
     (if en_flt env SQuery then (Inl MsgStatementFailed, db)
      else let msgs = GetInboxMessages db agentName opts in
        (Inr \<lparr>pm_Messages = msgs, pm_Total = CountInboxMessages db agentName opts,
              pm_Offset = ro_Offset opts, pm_Limit = default_limit 50 (ro_Limit opts)\<rparr>,
         if ro_MarkRead opts then mark_read env now agentName order msgs db else db))"

definition ClaimMessages ::
  "msg_env \<Rightarrow> timestamp \<Rightarrow> string \<Rightarrow> int \<Rightarrow> msg_db \<Rightarrow> (msg_error + Message list) \<times> msg_db" where
  "ClaimMessages env now agentName limit db =
     (if en_flt env SQuery then (Inl MsgStatementFailed, db)
      else case store_ClaimMessages now agentName (default_limit 10 limit) db of
        (msgs, db') \<Rightarrow> (Inr msgs, db'))"

text \<open>The guards that \<open>MarkDone\<close> and \<open>MarkFailed\<close> share.\<close>

definition check_claim :: "msg_env \<Rightarrow> msg_db \<Rightarrow> id64 \<Rightarrow> string \<Rightarrow> msg_error + Message" where
  "check_claim env db i agentName =
     (if en_flt env SQuery then Inl MsgStatementFailed
      else case get_message db i of
        None \<Rightarrow> Inl (MessageNotFound i)
      | Some m \<Rightarrow>
          if msg_Status m \<noteq> MProcessing then Inl (NotProcessing i (msg_Status m))
          else if (case msg_ClaimedBy m of None \<Rightarrow> '''' | Some a \<Rightarrow> a) \<noteq> agentName
          then Inl (NotClaimedBy i agentName)
          else Inr m)"

definition MarkDone ::
  "msg_env \<Rightarrow> timestamp \<Rightarrow> id64 \<Rightarrow> string \<Rightarrow> msg_db \<Rightarrow> (msg_error + unit) \<times> msg_db" where
  "MarkDone env now i agentName db =
     (case check_claim env db i agentName of
        Inl e \<Rightarrow> (Inl e, db)
      | Inr _ \<Rightarrow> UpdateMessageStatus env now i MDone agentName None db)"

text \<open>
  The metadata with the failure reason merged in. Decoding into a \<open>map[string]any\<close> keeps the
  last of duplicate keys; a value that is no object is an error and gives an empty map,
  except \<open>null\<close>, which is no error and leaves the map nil, so that the assignment to
  \<open>existingMeta["error"]\<close> panics. Encoding sorts the keys.
\<close>

definition set_key :: "string \<Rightarrow> json \<Rightarrow> (string \<times> json) list \<Rightarrow> (string \<times> json) list" where
  "set_key k v kvs =
     (let m = (map_of (rev kvs))(k \<mapsto> v)
      in map (\<lambda>x. (x, the (m x))) (sort (dedup (k # map fst kvs))))"

definition merge_reason :: "json \<Rightarrow> string \<Rightarrow> json option" where
  "merge_reason meta reason =
     (case meta of
        JObj kvs \<Rightarrow> Some (JObj (set_key ''error'' (JStr reason) kvs))
      | JNull \<Rightarrow> None
      | _ \<Rightarrow> Some (JObj [(''error'', JStr reason)]))"

definition MarkFailed ::
  "msg_env \<Rightarrow> timestamp \<Rightarrow> id64 \<Rightarrow> string \<Rightarrow> string \<Rightarrow> msg_db \<Rightarrow> (msg_error + unit) \<times> msg_db" where
  "MarkFailed env now i agentName reason db =
     (case check_claim env db i agentName of
        Inl e \<Rightarrow> (Inl e, db)
      | Inr m \<Rightarrow>
          (case merge_reason (msg_Metadata m) reason of
             None \<Rightarrow> (Inl MsgPanic, db)
           | Some meta \<Rightarrow> UpdateMessageStatus env now i MFailed agentName (Some meta) db))"

definition SearchMessages ::
  "(string \<Rightarrow> id64 list option) \<Rightarrow> msg_env \<Rightarrow> msg_db \<Rightarrow> string \<Rightarrow> string \<Rightarrow> SearchOptions \<Rightarrow>
   msg_error + PaginatedMessages" where
  "SearchMessages fts env db agentName query opts =
     (if en_flt env SQuery then Inl MsgStatementFailed
      else case (store_SearchMessages fts env db agentName query opts,
                 CountSearchMessages fts env db agentName query opts) of
        (Some msgs, Some n) \<Rightarrow>
          Inr \<lparr>pm_Messages = msgs, pm_Total = n, pm_Offset = se_Offset opts,
               pm_Limit = default_limit 20 (se_Limit opts)\<rparr>
      | _ \<Rightarrow> Inl MsgStatementFailed)"

definition GetMessageByID :: "msg_db \<Rightarrow> id64 \<Rightarrow> msg_error + Message" where
  "GetMessageByID db i = (case get_message db i of None \<Rightarrow> Inl (MessageNotFound i) | Some m \<Rightarrow> Inr m)"

definition GetChannelMessages :: "msg_db \<Rightarrow> id64 \<Rightarrow> int \<Rightarrow> int \<Rightarrow> PaginatedMessages" where
  "GetChannelMessages db ch limit off =
     \<lparr>pm_Messages = store_GetChannelMessages db ch limit off, pm_Total = CountChannelMessages db ch,
      pm_Offset = off, pm_Limit = default_limit 50 limit\<rparr>"

definition GetConversation :: "msg_db \<Rightarrow> id64 \<Rightarrow> msg_error + Conversation \<times> Message list" where
  "GetConversation db i =
     (case get_conversation db i of
        None \<Rightarrow> Inl NoSuchConversation
      | Some c \<Rightarrow> Inr (c, GetConversationMessages db i))"

section \<open>Invariant\<close>

text \<open>
  A message has one destination, a conversation that exists, a priority from 1 to 10, a body
  that is not blank, and replies to an earlier message; it is claimed exactly when it is not
  pending, and then by its recipient.
\<close>

definition one_destination :: "Message \<Rightarrow> bool" where
  "one_destination m \<longleftrightarrow>
     (case msg_ToAgent m of
        None \<Rightarrow> msg_ChannelID m \<noteq> None
      | Some a \<Rightarrow> a \<noteq> '''' \<and> msg_ChannelID m = None)"

definition claim_ok :: "Message \<Rightarrow> bool" where
  "claim_ok m \<longleftrightarrow>
     (msg_Status m = MPending \<longleftrightarrow> msg_ClaimedBy m = None) \<and>
     (msg_ClaimedAt m = None \<longleftrightarrow> msg_ClaimedBy m = None) \<and>
     (msg_ClaimedBy m \<noteq> None \<longrightarrow> msg_ClaimedBy m = msg_ToAgent m)"

definition content_ok :: "Message \<Rightarrow> bool" where
  "content_ok m \<longleftrightarrow> one_destination m \<and> 1 \<le> msg_Priority m \<and> msg_Priority m \<le> 10 \<and>
     trim_space (msg_Body m) \<noteq> '''' \<and>
     (case msg_ReplyTo m of None \<Rightarrow> True | Some r \<Rightarrow> r < msg_ID m)"

definition msg_inv :: "msg_db \<Rightarrow> bool" where
  "msg_inv db \<longleftrightarrow>
     ids_ok msg_ID (md_msg_seq db) (md_msgs db) \<and> ids_ok cv_ID (md_conv_seq db) (md_convs db) \<and>
     (\<forall>m \<in> set (md_msgs db). content_ok m \<and> claim_ok m \<and>
        msg_ConversationID m \<in> set (map cv_ID (md_convs db))) \<and>
     (\<forall>a c. md_inbox db (a, c) \<noteq> None \<longrightarrow> c \<in> set (map cv_ID (md_convs db)))"

definition msg_empty :: msg_db where
  "msg_empty = \<lparr>md_convs = [], md_conv_seq = 0, md_msgs = [], md_msg_seq = 0, md_inbox = Map.empty\<rparr>"

lemma msg_empty_inv: "msg_inv msg_empty"
  by (simp add: msg_inv_def msg_empty_def)

lemma msg_inv_inbox:
  "msg_inv db \<Longrightarrow> c \<in> set (map cv_ID (md_convs db)) \<Longrightarrow>
     msg_inv (db\<lparr>md_inbox := (md_inbox db)((a, c) \<mapsto> st)\<rparr>)"
  by (auto simp: msg_inv_def)

text \<open>The columns no statement changes after the insert.\<close>

definition content where
  "content m = (msg_ID m, msg_ConversationID m, msg_FromAgent m, msg_ToAgent m, msg_ChannelID m,
     msg_ReplyTo m, msg_Body m, msg_Priority m, msg_CreatedAt m)"

lemma content_ok_content: "content m = content m' \<Longrightarrow> content_ok m = content_ok m'"
  by (simp add: content_def content_ok_def one_destination_def split: option.splits)

lemma msg_inv_update:
  assumes inv: "msg_inv db" and con: "\<And>m. content (f m) = content m"
    and cl: "\<And>m. m \<in> set (md_msgs db) \<Longrightarrow> P m \<Longrightarrow> claim_ok (f m)"
  shows "msg_inv (db\<lparr>md_msgs := update_where P f (md_msgs db)\<rparr>)"
proof -
  have f: "msg_ID (f m) = msg_ID m" "msg_ConversationID (f m) = msg_ConversationID m"
    "content_ok (f m) = content_ok m" for m
    using con [of m] content_ok_content [OF con, of m] by (simp_all add: content_def)
  have "ids_ok msg_ID (md_msg_seq db) (update_where P f (md_msgs db))"
    using inv ids_ok_update_where [of msg_ID f, OF f(1)] by (simp add: msg_inv_def)
  moreover have "content_ok m \<and> claim_ok m \<and> msg_ConversationID m \<in> set (map cv_ID (md_convs db))"
    if "m \<in> set (update_where P f (md_msgs db))" for m
    using that inv cl f by (auto simp: in_update_where msg_inv_def split: if_splits)
  ultimately show ?thesis using inv by (simp add: msg_inv_def)
qed

lemma InsertConversation_inv:
  assumes "msg_inv db"
  shows "msg_inv (snd (InsertConversation env now conv db))"
proof -
  let ?row = "conv\<lparr>cv_ID := md_conv_seq db + 1, cv_CreatedAt := now, cv_UpdatedAt := now\<rparr>"
  have "ids_ok cv_ID (md_conv_seq db + 1) (md_convs db @ [?row])"
    using assms by (intro ids_ok_append) (auto simp: msg_inv_def)
  with assms show ?thesis by (auto simp: InsertConversation_def msg_inv_def Let_def)
qed

lemma resolve_conversation_inv:
  "msg_inv db \<Longrightarrow> msg_inv (snd (resolve_conversation env now from to opts db))"
  using InsertConversation_inv [of db env now]
  by (auto simp: resolve_conversation_def Let_def split: option.splits prod.splits sum.splits if_splits)
    (metis snd_conv)+

lemma trim_ok_send: "validate_send env to body opts = None \<Longrightarrow> trim_space body \<noteq> ''''"
  by (auto simp: validate_send_def split: if_splits)

lemma InsertMessage_inv:
  assumes "msg_inv db" and "validate_send env to body opts = None"
  shows "msg_inv (snd (InsertMessage env now (new_message from to body opts meta conv) db))"
proof (cases "InsertMessage env now (new_message from to body opts meta conv) db")
  case (Pair r db')
  let ?m = "new_message from to body opts meta conv"
  let ?i = "md_msg_seq db + 1"
  let ?row = "?m\<lparr>msg_ID := ?i, msg_ClaimedBy := None, msg_ClaimedAt := None,
                 msg_CreatedAt := now, msg_UpdatedAt := now\<rparr>"
  show ?thesis
  proof (cases r)
    case (Inl e)
    with Pair assms show ?thesis
      by (auto simp: InsertMessage_def Let_def split: if_splits)
  next
    case (Inr x)
    with Pair have db': "db' = db\<lparr>md_msgs := md_msgs db @ [?row], md_msg_seq := ?i\<rparr>"
      and fk: "message_fks_ok env db ?m" and pr: "1 \<le> msg_Priority ?m" "msg_Priority ?m \<le> 10"
      by (auto simp: InsertMessage_def Let_def split: if_splits)
    have ids: "ids_ok msg_ID ?i (md_msgs db @ [?row])"
      using assms(1) by (intro ids_ok_append) (auto simp: msg_inv_def)
    have "r < ?i" if "msg_ReplyTo ?m = Some r" for r
      using that fk assms(1) by (auto simp: message_fks_ok_def msg_inv_def ids_ok_def)
    with pr have "content_ok ?row"
      using assms(2) trim_ok_send [OF assms(2)]
      by (auto simp: content_ok_def one_destination_def new_message_def validate_send_def
          split: option.splits if_splits)
    moreover have "claim_ok ?row" by (simp add: claim_ok_def new_message_def)
    ultimately show ?thesis
      using assms(1) ids fk db' Pair by (auto simp: msg_inv_def message_fks_ok_def)
  qed
qed

lemma SendMessage_inv:
  assumes "msg_inv db" shows "msg_inv (snd (snd (SendMessage svc env now from to body opts db)))"
proof (cases "resolve_conversation env now from to opts db")
  case (Pair r db1)
  with resolve_conversation_inv [OF assms, of env now "from" to opts] have "msg_inv db1" by simp
  with assms Pair InsertMessage_inv [of db1 env to body opts now "from"] show ?thesis
    by (auto simp: SendMessage_def split: option.splits sum.splits prod.splits) (metis snd_conv)+
qed

lemma UpdateInboxState_inv: "msg_inv db \<Longrightarrow> msg_inv (snd (UpdateInboxState env now a c i db))"
  by (auto simp: UpdateInboxState_def Let_def intro: msg_inv_inbox)

lemma mark_read_inv: "msg_inv db \<Longrightarrow> msg_inv (mark_read env now a order msgs db)"
proof -
  have "msg_inv db \<Longrightarrow> msg_inv (fold (\<lambda>conv db. case conversationMaxID msgs conv of
              None \<Rightarrow> db
            | Some i \<Rightarrow> snd (UpdateInboxState env now a conv i db)) cs db)" for cs db
    by (induction cs arbitrary: db) (auto intro: UpdateInboxState_inv split: option.splits)
  then show "msg_inv db \<Longrightarrow> ?thesis" by (simp add: mark_read_def)
qed

lemma ReadInbox_inv: "msg_inv db \<Longrightarrow> msg_inv (snd (ReadInbox env now order a opts db))"
  by (simp add: ReadInbox_def Let_def mark_read_inv)

lemma claim_select_recipient:
  "msg_inv db \<Longrightarrow> m \<in> set (md_msgs db) \<Longrightarrow> msg_ID m \<in> set (claim_select a l db) \<Longrightarrow>
     msg_ToAgent m = Some a \<and> msg_Status m = MPending"
  by (auto simp: claim_select_def msg_inv_def dest!: subsetD [OF set_limit_offset] dest: ids_ok_unique)

lemma claim_update_inv:
  assumes "msg_inv db"
    and "\<And>m. m \<in> set (md_msgs db) \<Longrightarrow> msg_ID m \<in> set ids \<Longrightarrow> msg_ToAgent m = Some a"
  shows "msg_inv (claim_update now a ids db)"
  unfolding claim_update_def
  by (rule msg_inv_update [OF assms(1)]) (auto simp: content_def claim_ok_def assms(2))

lemma ClaimMessages_inv: "msg_inv db \<Longrightarrow> msg_inv (snd (ClaimMessages env now a l db))"
  using claim_update_inv claim_select_recipient
  by (auto simp: ClaimMessages_def store_ClaimMessages_def Let_def split: prod.splits if_splits)

lemma UpdateMessageStatus_inv:
  assumes "msg_inv db" and "st \<noteq> MPending"
  shows "msg_inv (snd (UpdateMessageStatus env now i st a meta db))"
proof -
  have "claim_ok (m\<lparr>msg_Status := st, msg_UpdatedAt := now, msg_Metadata := j\<rparr>)"
    if "m \<in> set (md_msgs db)" "msg_ClaimedBy m = Some a" for m j
    using assms that by (auto simp: msg_inv_def claim_ok_def)
  then show ?thesis
    using assms by (auto simp: UpdateMessageStatus_def Let_def content_def intro!: msg_inv_update)
qed

lemma MarkDone_inv: "msg_inv db \<Longrightarrow> msg_inv (snd (MarkDone env now i a db))"
  by (auto simp: MarkDone_def UpdateMessageStatus_inv split: sum.splits)

lemma MarkFailed_inv: "msg_inv db \<Longrightarrow> msg_inv (snd (MarkFailed env now i a r db))"
  by (auto simp: MarkFailed_def UpdateMessageStatus_inv split: sum.splits option.splits)

section \<open>Sending\<close>

text \<open>What resolving the conversation leaves alone and adds.\<close>

definition conv_step :: "msg_db \<Rightarrow> msg_db \<Rightarrow> bool" where
  "conv_step db db' \<longleftrightarrow> md_msgs db' = md_msgs db \<and> md_msg_seq db' = md_msg_seq db \<and>
     md_inbox db' = md_inbox db \<and> (\<exists>new. md_convs db' = md_convs db @ new \<and> length new \<le> 1)"

lemma conv_step_refl [simp]: "conv_step db db"
  by (simp add: conv_step_def)

lemma InsertConversation_step: "InsertConversation env now c db = (r, db') \<Longrightarrow> conv_step db db'"
  by (auto simp: InsertConversation_def Let_def conv_step_def split: if_splits)

lemma resolve_conversation_step:
  "resolve_conversation env now from to opts db = (r, db') \<Longrightarrow> conv_step db db'"
  by (auto simp: resolve_conversation_def Let_def split: option.splits prod.splits sum.splits if_splits
      dest: InsertConversation_step)

lemma SendMessage_Inr:
  assumes "SendMessage svc env now from to body opts db = (Inr m, eff, db')"
  obtains db1 conv meta where "validate_send env to body opts = None"
    "resolve_conversation env now from to opts db = (Inr conv, db1)"
    "effective_metadata (so_Metadata opts) = Some meta"
    "InsertMessage env now (new_message from to body opts meta conv) db1 = (Inr m, db')"
    "eff = send_effects svc m to opts"
proof -
  from assms have v: "validate_send env to body opts = None"
    by (auto simp: SendMessage_def split: option.splits)
  moreover from v obtain meta where "effective_metadata (so_Metadata opts) = Some meta"
    by (auto simp: validate_send_def split: if_splits)
  ultimately show ?thesis
    using assms that by (auto simp: SendMessage_def split: option.splits sum.splits prod.splits)
qed

lemma InsertMessage_Inr:
  "InsertMessage env now m db = (Inr m', db') \<Longrightarrow>
     m' = m\<lparr>msg_ID := md_msg_seq db + 1\<rparr> \<and>
     db' = db\<lparr>md_msg_seq := md_msg_seq db + 1, md_msgs := md_msgs db @ [m\<lparr>msg_ID := md_msg_seq db + 1,
        msg_ClaimedBy := None, msg_ClaimedAt := None, msg_CreatedAt := now, msg_UpdatedAt := now\<rparr>]\<rparr>"
  by (auto simp: InsertMessage_def Let_def split: if_splits)

lemma SendMessage_Inl:
  assumes "SendMessage svc env now from to body opts db = (Inl e, eff, db')"
  shows "eff = [] \<and> conv_step db db' \<and> (validate_send env to body opts \<noteq> None \<longrightarrow> db' = db)"
proof (cases "validate_send env to body opts")
  case (Some x)
  with assms show ?thesis by (auto simp: SendMessage_def)
next
  case None
  obtain r db1 where r: "resolve_conversation env now from to opts db = (r, db1)"
    by (cases "resolve_conversation env now from to opts db")
  have "InsertMessage env now m db1 = (Inl e', db2) \<Longrightarrow> db2 = db1" for m e' db2
    by (auto simp: InsertMessage_def Let_def split: if_splits)
  then have "eff = [] \<and> db' = db1"
    using assms None r by (auto simp: SendMessage_def split: option.splits sum.splits prod.splits)
  with None resolve_conversation_step [OF r] show ?thesis by simp
qed

text \<open>The conversation a subject leads to.\<close>

definition conv_matches :: "msg_db \<Rightarrow> string \<Rightarrow> string \<Rightarrow> string \<Rightarrow> Conversation \<Rightarrow> bool" where
  "conv_matches db subject a b c \<longleftrightarrow> cv_Subject c = subject \<and> cv_ChannelID c = None \<and>
     (\<exists>m \<in> set (md_msgs db). msg_ConversationID m = cv_ID c \<and> between a b m)"

lemma find_row_True: "find_row (\<lambda>_. True) xs = (case xs of [] \<Rightarrow> None | x # _ \<Rightarrow> Some x)"
  by (cases xs) auto

lemma FindConversation_Some:
  "FindConversation db s a b = Some c \<Longrightarrow>
     c \<in> set (md_convs db) \<and> conv_matches db s a b c \<and>
     (\<forall>c' \<in> set (md_convs db). conv_matches db s a b c' \<longrightarrow> cv_ID c' \<le> cv_ID c)"
proof -
  let ?S = "sort_key (\<lambda>c. - cv_ID c) (filter (conv_matches db s a b) (md_convs db))"
  assume "FindConversation db s a b = Some c"
  then obtain cs where S: "?S = c # cs"
    by (auto simp: FindConversation_def find_row_True conv_matches_def [abs_def] split: list.splits)
  have "set ?S = {c \<in> set (md_convs db). conv_matches db s a b c}" by auto
  moreover have "sorted (map (\<lambda>c. - cv_ID c) ?S)" by simp
  ultimately show ?thesis unfolding S by auto
qed

lemma FindConversation_unique:
  assumes "msg_inv db" "c \<in> set (md_convs db)" "conv_matches db s a b c"
    "\<And>c'. c' \<in> set (md_convs db) \<Longrightarrow> conv_matches db s a b c' \<Longrightarrow> cv_ID c' \<le> cv_ID c"
  shows "FindConversation db s a b = Some c"
proof (cases "FindConversation db s a b")
  case None
  with assms(2,3) show ?thesis by (auto simp: FindConversation_def conv_matches_def)
next
  case (Some d)
  from FindConversation_Some [OF Some] assms have "cv_ID d = cv_ID c" by force
  with FindConversation_Some [OF Some] assms(1,2) have "d = c"
    by (auto simp: msg_inv_def dest: ids_ok_unique)
  with Some show ?thesis by simp
qed

lemma resolve_by_subject:
  assumes inv: "msg_inv db" and opts: "so_ConversationID opts = None" "so_Subject opts \<noteq> ''''"
      "so_ChannelID opts = None" "to \<noteq> ''''"
    and res: "resolve_conversation env now from to opts db = (Inr i, db1)"
  shows "\<exists>c \<in> set (md_convs db1). cv_ID c = i \<and> cv_Subject c = so_Subject opts \<and> cv_ChannelID c = None \<and>
    (\<forall>c' \<in> set (md_convs db1). conv_matches db1 (so_Subject opts) from to c' \<longrightarrow> cv_ID c' \<le> i)"
proof (cases "FindConversation db (so_Subject opts) from to")
  case (Some c)
  with opts res have "db1 = db" "cv_ID c = i"
    by (auto simp: resolve_conversation_def Let_def split: if_splits)
  with FindConversation_Some [OF Some] show ?thesis by (auto simp: conv_matches_def)
next
  case None
  let ?row = "\<lparr>cv_ID = md_conv_seq db + 1, cv_Subject = so_Subject opts, cv_CreatedBy = from,
                 cv_ChannelID = None, cv_CreatedAt = now, cv_UpdatedAt = now\<rparr>"
  from None opts res have "i = md_conv_seq db + 1" "md_convs db1 = md_convs db @ [?row]"
    by (auto simp: resolve_conversation_def InsertConversation_def Let_def split: if_splits)
  moreover have "cv_ID c' \<le> md_conv_seq db" if "c' \<in> set (md_convs db)" for c'
    using that inv by (auto simp: msg_inv_def ids_ok_def)
  ultimately show ?thesis by fastforce
qed

lemma send_by_subject:
  assumes inv: "msg_inv db" and opts: "so_ConversationID opts = None" "so_Subject opts \<noteq> ''''"
    and to: "to \<noteq> ''''"
    and send: "SendMessage svc env now from to body opts db = (Inr m, eff, db')"
  shows "\<exists>c. FindConversation db' (so_Subject opts) to from = Some c \<and> cv_ID c = msg_ConversationID m"
proof -
  from send obtain db1 i meta where v: "validate_send env to body opts = None" and
    res: "resolve_conversation env now from to opts db = (Inr i, db1)" and
    ins: "InsertMessage env now (new_message from to body opts meta i) db1 = (Inr m, db')"
    by (auto elim: SendMessage_Inr)
  from v to have ch: "so_ChannelID opts = None" by (auto simp: validate_send_def split: if_splits)
  from resolve_by_subject [OF inv opts ch to res] obtain c where
    c: "c \<in> set (md_convs db1)" "cv_ID c = i" "cv_Subject c = so_Subject opts" "cv_ChannelID c = None"
    and top: "\<forall>c' \<in> set (md_convs db1). conv_matches db1 (so_Subject opts) from to c' \<longrightarrow> cv_ID c' \<le> i"
    by blast
  note r = InsertMessage_Inr [OF ins]
  have inv': "msg_inv db'"
    using SendMessage_inv [OF inv, of svc env now "from" to body opts] send by simp
  have m: "msg_ConversationID m = i" using r by (simp add: new_message_def)
  have row: "\<exists>x \<in> set (md_msgs db'). msg_ConversationID x = i \<and> between to from x"
    using r to by (simp add: new_message_def between_def)
  then have cm: "conv_matches db' (so_Subject opts) to from c" using c by (auto simp: conv_matches_def)
  have le: "cv_ID c' \<le> cv_ID c"
    if c': "c' \<in> set (md_convs db')" "conv_matches db' (so_Subject opts) to from c'" for c'
  proof (cases "cv_ID c' = i")
    case False
    with c'(2) r have "conv_matches db1 (so_Subject opts) to from c'"
      by (auto simp: conv_matches_def new_message_def)
    then have "conv_matches db1 (so_Subject opts) from to c'"
      unfolding conv_matches_def between_def by blast
    with top c' r c show ?thesis by auto
  qed (simp add: c)
  have "c \<in> set (md_convs db')" using c(1) r by simp
  from FindConversation_unique [OF inv' this cm le]
  have "FindConversation db' (so_Subject opts) to from = Some c" .
  then show ?thesis using c(2) m by simp
qed

section \<open>Reading the inbox\<close>

lemma conversationMaxID_eq:
  assumes "\<And>m. m \<in> set msgs \<Longrightarrow> 0 < msg_ID m"
  shows "conversationMaxID msgs c =
    (let ids = msg_ID ` {m \<in> set msgs. msg_ConversationID m = c} in
     if ids = {} then None else Some (Max ids))"
  using assms
proof (induction msgs rule: rev_induct)
  case (snoc x xs)
  let ?ids = "\<lambda>ms. msg_ID ` {m \<in> set ms. msg_ConversationID m = c}"
  have IH: "conversationMaxID xs c = (if ?ids xs = {} then None else Some (Max (?ids xs)))"
    using snoc by (simp add: Let_def)
  have step: "conversationMaxID (xs @ [x]) =
      (let f = conversationMaxID xs in
       if (case f (msg_ConversationID x) of None \<Rightarrow> 0 | Some y \<Rightarrow> y) < msg_ID x
       then f(msg_ConversationID x \<mapsto> msg_ID x) else f)"
    by (simp add: conversationMaxID_def)
  show ?case
  proof (cases "msg_ConversationID x = c")
    case False
    then have "?ids (xs @ [x]) = ?ids xs" by auto
    with False IH step show ?thesis by (simp add: Let_def)
  next
    case True
    define I where "I = ?ids xs"
    have ins: "?ids (xs @ [x]) = insert (msg_ID x) I" using True by (auto simp: I_def)
    have fin: "finite I" by (simp add: I_def)
    have "0 < msg_ID x" using snoc.prems by simp
    moreover have "conversationMaxID (xs @ [x]) c = Some (Max (insert (msg_ID x) I))"
    proof (cases "I = {}")
      case True
      with IH have "conversationMaxID xs c = None" by (simp add: I_def)
      with step True \<open>msg_ConversationID x = c\<close> \<open>0 < msg_ID x\<close> show ?thesis by (simp add: Let_def)
    next
      case False
      with IH have "conversationMaxID xs c = Some (Max I)" by (simp add: I_def)
      with step \<open>msg_ConversationID x = c\<close> False fin show ?thesis
        by (simp add: Let_def max_def del: Max_less_iff)
    qed
    ultimately show ?thesis unfolding ins by (simp add: Let_def)
  qed
qed (simp add: conversationMaxID_def)

text \<open>The read position after a page has been marked, whatever the order of the loop.\<close>

definition position_after :: "msg_db \<Rightarrow> string \<Rightarrow> Message list \<Rightarrow> id64 \<Rightarrow> id64" where
  "position_after db a page c =
     Max (insert (last_read db a c) (msg_ID ` {m \<in> set page. msg_ConversationID m = c}))"

definition no_faults :: "msg_env \<Rightarrow> bool" where
  "no_faults env \<longleftrightarrow> (\<forall>st. \<not> en_flt env st)"

lemma UpdateInboxState_read:
  assumes "no_faults env" "c \<in> set (map cv_ID (md_convs db))" "0 < i"
  shows "last_read (snd (UpdateInboxState env now a c i db)) a' c' =
    (if a' = a \<and> c' = c then max (last_read db a c) i else last_read db a' c')"
  using assms by (auto simp: UpdateInboxState_def last_read_def no_faults_def Let_def split: option.splits)

lemma UpdateInboxState_other:
  "md_msgs (snd (UpdateInboxState env now a c i db)) = md_msgs db"
  "md_convs (snd (UpdateInboxState env now a c i db)) = md_convs db"
  by (simp_all add: UpdateInboxState_def Let_def)

lemma mark_read_other:
  "md_msgs (mark_read env now a order page db) = md_msgs db \<and>
   md_convs (mark_read env now a order page db) = md_convs db"
proof -
  have "md_msgs (fold (\<lambda>conv db. case conversationMaxID page conv of
              None \<Rightarrow> db
            | Some i \<Rightarrow> snd (UpdateInboxState env now a conv i db)) cs db) = md_msgs db \<and>
      md_convs (fold (\<lambda>conv db. case conversationMaxID page conv of
              None \<Rightarrow> db
            | Some i \<Rightarrow> snd (UpdateInboxState env now a conv i db)) cs db) = md_convs db" for cs db
    by (induction cs arbitrary: db) (auto simp: UpdateInboxState_other split: option.splits)
  then show ?thesis by (simp add: mark_read_def)
qed

lemma mark_read_position:
  assumes page: "\<And>m. m \<in> set page \<Longrightarrow> 0 < msg_ID m \<and> msg_ConversationID m \<in> set (map cv_ID (md_convs db))"
    and nf: "no_faults env" and ord: "\<And>xs. set (order xs) = set xs"
  shows "last_read (mark_read env now a order page db) a' c =
    (if a' = a then position_after db a page c else last_read db a' c)"
proof -
  let ?step = "\<lambda>conv db. case conversationMaxID page conv of
              None \<Rightarrow> db | Some i \<Rightarrow> snd (UpdateInboxState env now a conv i db)"
  have ids: "conversationMaxID page conv = (let ids = msg_ID ` {m \<in> set page. msg_ConversationID m = conv} in
     if ids = {} then None else Some (Max ids))" for conv
    using page by (intro conversationMaxID_eq) blast
  have pos: "0 < i \<and> conv \<in> set (map cv_ID (md_convs db))" if "conversationMaxID page conv = Some i" for conv i
  proof -
    let ?I = "msg_ID ` {m \<in> set page. msg_ConversationID m = conv}"
    from that have I: "?I \<noteq> {}" "i = Max ?I" unfolding ids Let_def by (auto split: if_splits)
    have "finite ?I" by simp
    from Max_in [OF this I(1)] I(2) page show ?thesis by auto
  qed
  have "md_convs d = md_convs db \<Longrightarrow> last_read (fold ?step cs d) a' c =
      (if a' = a \<and> c \<in> set cs then
         (case conversationMaxID page c of None \<Rightarrow> last_read d a c | Some i \<Rightarrow> max (last_read d a c) i)
       else last_read d a' c)" for cs d
  proof (induction cs arbitrary: d)
    case (Cons x cs)
    have "md_convs (?step x d) = md_convs db"
      using Cons.prems by (auto simp: UpdateInboxState_other split: option.splits)
    from Cons.IH [OF this] Cons.prems pos [of x] pos [of c] UpdateInboxState_read [OF nf, of x d]
    show ?case by (auto split: option.splits)
  qed simp
  from this [of db] have "last_read (mark_read env now a order page db) a' c =
      (if a' = a \<and> c \<in> set (map msg_ConversationID page) then
         (case conversationMaxID page c of None \<Rightarrow> last_read db a c | Some i \<Rightarrow> max (last_read db a c) i)
       else last_read db a' c)"
    by (simp add: mark_read_def ord)
  moreover define J where "J = msg_ID ` {m \<in> set page. msg_ConversationID m = c}"
  moreover have "J = {} \<longleftrightarrow> c \<notin> set (map msg_ConversationID page)" "finite J" by (auto simp: J_def)
  moreover have "conversationMaxID page c = (if J = {} then None else Some (Max J))"
    unfolding ids J_def by (simp add: Let_def)
  ultimately show ?thesis unfolding position_after_def J_def [symmetric] by auto
qed

section \<open>Claiming\<close>

definition claim_row :: "timestamp \<Rightarrow> string \<Rightarrow> Message \<Rightarrow> Message" where
  "claim_row now a m = m\<lparr>msg_Status := MProcessing, msg_ClaimedBy := Some a,
     msg_ClaimedAt := Some now, msg_UpdatedAt := now\<rparr>"

definition pending_for :: "string \<Rightarrow> Message \<Rightarrow> bool" where
  "pending_for a m \<longleftrightarrow> msg_ToAgent m = Some a \<and> msg_Status m = MPending"

lemma by_priority_claim_row [simp]: "by_priority (claim_row now a m) = by_priority m"
  by (simp add: by_priority_def claim_row_def)

lemma sort_key_map: "(\<And>x. k (f x) = k x) \<Longrightarrow> sort_key k (map f xs) = map f (sort_key k xs)"
proof -
  assume k: "\<And>x. k (f x) = k x"
  have "insort_key k (f x) (map f ys) = map f (insort_key k x ys)" for x ys
    by (induction ys) (auto simp: k)
  then show ?thesis by (induction xs) simp_all
qed

lemma claim_pages:
  assumes inv: "msg_inv db" and ids: "ids = claim_select a l db" and l: "0 \<le> l"
  shows "claim_fetch ids (claim_update now a ids db) =
    map (claim_row now a) (take (nat l) (sort_key by_priority (filter (pending_for a) (md_msgs db))))"
proof -
  let ?rows = "md_msgs db"
  let ?S = "sort_key by_priority (filter (pending_for a) ?rows)"
  have sel: "ids = map msg_ID (take (nat l) ?S)"
    using l by (simp add: ids claim_select_def limit_offset_def pending_for_def [abs_def])
  have pend: "pending_for a m" if "m \<in> set ?rows" "msg_ID m \<in> set ids" for m
    using claim_select_recipient [OF inv that(1), of a l] that(2) ids by (simp add: pending_for_def)
  have "distinct (map msg_ID (filter (pending_for a) ?rows))"
    using inv by (simp add: msg_inv_def ids_ok_def distinct_map_filter)
  note page = refetch_page [OF this sel]
  have "filter (\<lambda>m. msg_ID m \<in> set ids) (md_msgs (claim_update now a ids db)) =
      map (claim_row now a) (filter (\<lambda>m. pending_for a m \<and> msg_ID m \<in> set ids) ?rows)"
  proof -
    have "filter (\<lambda>m. msg_ID m \<in> set ids) (update_where (\<lambda>m. msg_ID m \<in> set ids \<and> msg_Status m = MPending)
        (claim_row now a) rows) =
      map (claim_row now a) (filter (\<lambda>m. pending_for a m \<and> msg_ID m \<in> set ids) rows)"
      if "\<And>m. m \<in> set rows \<Longrightarrow> msg_ID m \<in> set ids \<Longrightarrow> pending_for a m" for rows
      using that by (induction rows) (auto simp: pending_for_def claim_row_def)
    from this [of ?rows] pend show ?thesis by (simp add: claim_update_def claim_row_def [abs_def])
  qed
  with page show ?thesis by (simp add: claim_fetch_def sort_key_map)
qed

lemma ClaimMessages_eq:
  assumes "msg_inv db" and "\<not> en_flt env SQuery"
  shows "ClaimMessages env now a limit db =
    (Inr (map (claim_row now a) (take (nat (default_limit 10 limit))
        (sort_key by_priority (filter (pending_for a) (md_msgs db))))),
     claim_update now a (claim_select a (default_limit 10 limit) db) db)"
proof -
  let ?l = "default_limit 10 limit"
  have l: "0 < ?l" "default_limit 10 ?l = ?l" by (simp_all add: default_limit_def)
  have "claim_update now a [] db = db" by (simp add: claim_update_def update_where_none)
  moreover have "claim_fetch [] db = []" by (simp add: claim_fetch_def)
  ultimately show ?thesis
    using claim_pages [OF assms(1) refl, where a = a and l = ?l and now = now] l assms(2)
    by (auto simp: ClaimMessages_def store_ClaimMessages_def Let_def)
qed

lemma ClaimMessages_stored:
  "ClaimMessages env now a l db = (Inr ms, db') \<Longrightarrow> set ms \<subseteq> set (md_msgs db')"
  by (auto simp: ClaimMessages_def store_ClaimMessages_def claim_fetch_def Let_def
      split: if_splits prod.splits)

section \<open>Search\<close>

lemma search_rows_accessible:
  "search_rows fts env db a q opts = Some ms \<Longrightarrow> m \<in> set ms \<Longrightarrow>
     m \<in> set (md_msgs db) \<and> buildSearchConditions env a opts m"
  by (auto simp: search_rows_def Let_def split: if_splits)

text \<open>
  FTS5 string literals: a phrase is written between quotation marks, an inner quotation
  mark doubled. \<open>read_phrases\<close> reads a list of such literals separated by blanks.
\<close>

fun read_phrase :: "string \<Rightarrow> string \<Rightarrow> (string \<times> string) option" where
  "read_phrase acc [] = None"
| "read_phrase acc [c] = (if c = CHR 0x22 then Some (rev acc, []) else None)"
| "read_phrase acc (c # d # s) =
     (if c \<noteq> CHR 0x22 then read_phrase (c # acc) (d # s)
      else if d = CHR 0x22 then read_phrase (c # acc) s
      else Some (rev acc, d # s))"

fun read_phrases :: "nat \<Rightarrow> string \<Rightarrow> string list option" where
  "read_phrases 0 s = None"
| "read_phrases (Suc n) s =
     (if s = [] then Some []
      else if hd s = CHR 0x20 then read_phrases n (tl s)
      else if hd s = CHR 0x22 then
        (case read_phrase [] (tl s) of
           None \<Rightarrow> None
         | Some (p, rest) \<Rightarrow> map_option ((#) p) (read_phrases n rest))
      else None)"

lemma read_phrase_quoted:
  "rest = [] \<or> hd rest \<noteq> CHR 0x22 \<Longrightarrow>
     read_phrase acc (concat (map (\<lambda>c. if c = CHR 0x22 then [c, c] else [c]) tok) @ CHR 0x22 # rest) =
     Some (rev acc @ tok, rest)"
proof (induction tok arbitrary: acc)
  case Nil
  then show ?case by (cases rest) auto
next
  case (Cons c tok)
  let ?e = "concat (map (\<lambda>c. if c = CHR 0x22 then [c, c] else [c]) tok) @ CHR 0x22 # rest"
  obtain d s where e: "?e = d # s" by (cases ?e) auto
  show ?case
  proof (cases "c = CHR 0x22")
    case True
    with Cons.IH [of "c # acc"] Cons.prems show ?thesis by simp
  next
    case False
    then have "read_phrase acc (c # ?e) = read_phrase (c # acc) ?e" unfolding e by simp
    with Cons.IH [of "c # acc"] Cons.prems False show ?thesis by simp
  qed
qed

lemma read_join_quoted:
  assumes "\<And>t. t \<in> set toks \<Longrightarrow> \<not> already_quoted t"
  shows "2 * length toks < n \<Longrightarrow> read_phrases n (join_with '' '' (map quote_token toks)) = Some toks"
  using assms
proof (induction toks arbitrary: n rule: induct_list012)
  case 1
  then show ?case by (cases n) auto
next
  case (2 x)
  then obtain m where n: "n = Suc (Suc m)" by (cases n; cases "n - 1") auto
  from 2 show ?case using read_phrase_quoted [of "[]" "[]" x] by (simp add: n quote_token_def)
next
  case (3 x y zs)
  then obtain m where n: "n = Suc (Suc m)" by (cases n; cases "n - 1") auto
  have "read_phrases m (join_with '' '' (map quote_token (y # zs))) = Some (y # zs)"
    using 3 n by (intro "3.IH"(2)) auto
  moreover define rest where "rest = join_with '' '' (map quote_token (y # zs))"
  moreover have "quote_token x =
      CHR 0x22 # concat (map (\<lambda>c. if c = CHR 0x22 then [c, c] else [c]) x) @ [CHR 0x22]"
    using 3 by (simp add: quote_token_def)
  moreover have "join_with '' '' (map quote_token (x # y # zs)) = quote_token x @ CHR 0x20 # rest"
    by (simp add: rest_def)
  ultimately show ?case
    using read_phrase_quoted [of "CHR 0x20 # rest" "[]" x] by (simp only: n) simp
qed

section \<open>Properties\<close>

text \<open>Two agents, one channel, no faults; and an exchange of two direct messages.\<close>

definition example_env :: msg_env where
  "example_env = \<lparr>en_agents = [''alice'', ''bob''], en_channels = [(1, ''general'')],
     en_members = [(1, ''alice''), (1, ''bob'')], en_flt = (\<lambda>_. False)\<rparr>"

definition plain_service :: msg_service where
  "plain_service = \<lparr>sv_attLinker = False, sv_embeddings = False, sv_listeners = 1,
     sv_tracer = False, sv_dispatcher = True\<rparr>"

definition plain_opts :: "string \<Rightarrow> int \<Rightarrow> id64 option \<Rightarrow> SendOptions" where
  "plain_opts subject pri ch = \<lparr>so_Subject = subject, so_Priority = pri, so_Metadata = REmpty,
     so_ChannelID = ch, so_ConversationID = None, so_ReplyTo = None, so_Attachments = []\<rparr>"

definition unread_opts :: "int \<Rightarrow> int \<Rightarrow> bool \<Rightarrow> ReadOptions" where
  "unread_opts limit off mark = \<lparr>ro_Status = '''', ro_FromAgent = '''', ro_ConversationID = None,
     ro_MinPriority = 0, ro_Limit = limit, ro_Offset = off, ro_After = None, ro_Before = None,
     ro_IncludeRead = False, ro_MarkRead = mark\<rparr>"

definition send_plain :: "string \<Rightarrow> string \<Rightarrow> string \<Rightarrow> int \<Rightarrow> msg_db \<Rightarrow> msg_db" where
  "send_plain from to body pri db =
     snd (snd (SendMessage plain_service example_env 10 from to body (plain_opts ''job'' pri None) db))"

definition example_inbox :: msg_db where
  "example_inbox = send_plain ''alice'' ''bob'' ''urgent'' 9
     (send_plain ''alice'' ''bob'' ''routine'' 3 msg_empty)"

lemma send_plain_inv: "msg_inv db \<Longrightarrow> msg_inv (send_plain from to body pri db)"
  by (simp add: send_plain_def SendMessage_inv)

lemma example_inbox_inv: "msg_inv example_inbox"
  by (simp add: example_inbox_def send_plain_inv msg_empty_inv)

lemma example_env_faults: "no_faults example_env" "\<not> en_flt example_env st"
  by (simp_all add: no_faults_def example_env_def)



text \<open>
  Direct messages with the same subject stay in one thread: after a message with a
  subject has been sent, the reply of the recipient with that subject is stored in the same
  conversation.
\<close>

theorem conversation_threading:
  assumes "msg_inv db" and "so_ConversationID opts = None" and "so_Subject opts \<noteq> ''''"
    and "from \<noteq> ''''" and "to \<noteq> ''''"
    and "SendMessage svc env now from to body opts db = (Inr m, eff, db')"
    and "so_ConversationID opts' = None" and "so_Subject opts' = so_Subject opts"
    and "SendMessage svc env' now' to from body' opts' db' = (Inr m', eff', db'')"
  shows "msg_ConversationID m' = msg_ConversationID m \<and> md_convs db'' = md_convs db'"
proof -
  from send_by_subject [OF assms(1,2,3,5,6)] obtain c where
    c: "FindConversation db' (so_Subject opts) to from = Some c" "cv_ID c = msg_ConversationID m" by blast
  from assms(9) obtain db1 i meta where
    res: "resolve_conversation env' now' to from opts' db' = (Inr i, db1)" and
    ins: "InsertMessage env' now' (new_message to from body' opts' meta i) db1 = (Inr m', db'')"
    by (auto elim: SendMessage_Inr)
  from res c assms(3,4,7,8) have "i = msg_ConversationID m" "db1 = db'"
    by (auto simp: resolve_conversation_def Let_def split: if_splits)
  with InsertMessage_Inr [OF ins] show ?thesis by (simp add: new_message_def)
qed

theorem conversation_threading_witness:
  "\<exists>m eff db' m' eff' db''.
     SendMessage plain_service example_env 10 ''alice'' ''bob'' ''hi'' (plain_opts ''job'' 0 None) msg_empty =
       (Inr m, eff, db') \<and>
     SendMessage plain_service example_env 11 ''bob'' ''alice'' ''yes'' (plain_opts ''job'' 0 None) db' =
       (Inr m', eff', db'') \<and> msg_ConversationID m' = msg_ConversationID m"
proof -
  let ?o = "plain_opts ''job'' 0 None"
  let ?r = "SendMessage plain_service example_env 10 ''alice'' ''bob'' ''hi'' ?o msg_empty"
  let ?q = "SendMessage plain_service example_env 11 ''bob'' ''alice'' ''yes'' ?o (snd (snd ?r))"
  have "\<not> isl (fst ?r)" "\<not> isl (fst ?q)" by code_simp+
  then obtain m eff db' m' eff' db'' where r: "?r = (Inr m, eff, db')" and q: "?q = (Inr m', eff', db'')"
    by (cases ?r; cases ?q) (metis fst_conv isl_def sum.exhaust prod.exhaust)
  have o: "so_ConversationID ?o = None" "so_Subject ?o \<noteq> ''''" by (simp_all add: plain_opts_def)
  from q r have q': "SendMessage plain_service example_env 11 ''bob'' ''alice'' ''yes'' ?o db' = (Inr m', eff', db'')"
    by simp
  from conversation_threading [OF msg_empty_inv o _ _ r o(1) refl q'] r q' show ?thesis by simp
qed

text \<open>
  C4. Claiming. \<open>ClaimMessages\<close> hands out exactly the first \<open>limit\<close> pending messages addressed
  to the agent, highest priority first and oldest first within a priority, now processing
  and claimed by the agent; those rows change accordingly and every other row is as before.
\<close>

theorem claim_messages_exact:
  assumes "msg_inv db" and "\<not> en_flt env SQuery"
  shows "let page = take (nat (default_limit 10 limit))
               (sort_key by_priority (filter (pending_for a) (md_msgs db)));
             (r, db') = ClaimMessages env now a limit db
         in r = Inr (map (claim_row now a) page) \<and>
            md_msgs db' = update_where (\<lambda>m. m \<in> set page) (claim_row now a) (md_msgs db) \<and>
            md_convs db' = md_convs db \<and> md_inbox db' = md_inbox db"
proof -
  let ?l = "default_limit 10 limit"
  let ?S = "sort_key by_priority (filter (pending_for a) (md_msgs db))"
  have ids: "claim_select a ?l db = map msg_ID (take (nat ?l) ?S)"
    by (simp add: claim_select_def limit_offset_def pending_for_def [abs_def] default_limit_def)
  have "(msg_ID m \<in> set (map msg_ID (take (nat ?l) ?S)) \<and> msg_Status m = MPending) \<longleftrightarrow> m \<in> set (take (nat ?l) ?S)"
    if m: "m \<in> set (md_msgs db)" for m
  proof
    assume "m \<in> set (take (nat ?l) ?S)"
    moreover from this have "pending_for a m" by (auto dest: in_set_takeD)
    ultimately show "msg_ID m \<in> set (map msg_ID (take (nat ?l) ?S)) \<and> msg_Status m = MPending"
      by (auto simp: pending_for_def)
  next
    assume "msg_ID m \<in> set (map msg_ID (take (nat ?l) ?S)) \<and> msg_Status m = MPending"
    then obtain x where x: "x \<in> set (take (nat ?l) ?S)" "msg_ID x = msg_ID m" by auto
    moreover from x have "x \<in> set (md_msgs db)" by (auto dest: in_set_takeD)
    ultimately show "m \<in> set (take (nat ?l) ?S)"
      using m assms(1) by (auto simp: msg_inv_def dest: ids_ok_unique)
  qed
  then have "update_where (\<lambda>m. msg_ID m \<in> set (claim_select a ?l db) \<and> msg_Status m = MPending)
      (claim_row now a) (md_msgs db) = update_where (\<lambda>m. m \<in> set (take (nat ?l) ?S)) (claim_row now a) (md_msgs db)"
    unfolding ids by (auto simp: update_where_def)
  then show ?thesis
    by (simp add: ClaimMessages_eq [OF assms] claim_update_def claim_row_def [abs_def] Let_def)
qed

theorem claim_messages_exact_witness:
  "msg_inv example_inbox \<and>
   map msg_Body (case fst (ClaimMessages example_env 20 ''bob'' 1 example_inbox) of Inr ms \<Rightarrow> ms | Inl _ \<Rightarrow> []) =
     [''urgent'']"
proof -
  have "map msg_Body (take (nat (default_limit 10 1))
     (sort_key by_priority (filter (pending_for ''bob'') (md_msgs example_inbox)))) = [''urgent'']"
    by code_simp
  moreover have "map msg_Body (map (claim_row 20 ''bob'') ms) = map msg_Body ms" for ms
    by (simp add: claim_row_def)
  ultimately show ?thesis
    using claim_messages_exact [OF example_inbox_inv example_env_faults(2), of 1 "''bob''" 20]
    by (auto simp: example_inbox_inv Let_def split: prod.splits simp del: map_map)
qed

text \<open>
  Reading the inbox. Without \<open>MarkRead\<close> it changes nothing. With it, and whatever the order
  of the loop over the conversations, the position of the reader in each conversation becomes
  the largest id of the page there, never less than before; positions of others, messages
  and conversations are untouched, and no message of the page is returned as unread again.
\<close>

theorem inbox_mark_read:
  assumes "msg_inv db" and "no_faults env" and "\<And>xs. set (order xs) = set xs"
    and "ReadInbox env now order a opts db = (r, db')"
  shows "\<exists>page. r = Inr page \<and> md_msgs db' = md_msgs db \<and> md_convs db' = md_convs db \<and>
    (\<not> ro_MarkRead opts \<longrightarrow> db' = db) \<and>
    (ro_MarkRead opts \<longrightarrow>
       (\<forall>a' c. last_read db' a' c =
          (if a' = a then position_after db a (pm_Messages page) c else last_read db a' c)) \<and>
       (\<forall>m \<in> set (pm_Messages page). \<forall>opts'. \<not> ro_IncludeRead opts' \<longrightarrow>
          \<not> buildInboxConditions db' a opts' m))"
proof -
  let ?page = "GetInboxMessages db a opts"
  have in_page: "m \<in> set (md_msgs db)" if "m \<in> set ?page" for m
    using that set_limit_offset by (fastforce simp: GetInboxMessages_def)
  have ok: "0 < msg_ID m \<and> msg_ConversationID m \<in> set (map cv_ID (md_convs db))" if "m \<in> set ?page" for m
    using in_page [OF that] assms(1) by (auto simp: msg_inv_def ids_ok_def)
  have db': "db' = (if ro_MarkRead opts then mark_read env now a order ?page db else db)"
    and r: "\<exists>p. r = Inr p \<and> pm_Messages p = ?page"
    using assms(2,4) by (auto simp: ReadInbox_def Let_def no_faults_def)
  have pos: "last_read db' a' c = (if a' = a then position_after db a ?page c else last_read db a' c)"
    if "ro_MarkRead opts" for a' c
    using that mark_read_position [OF ok assms(2,3)] db' by simp
  have "msg_ID m \<le> last_read db' a (msg_ConversationID m)" if "ro_MarkRead opts" "m \<in> set ?page" for m
  proof -
    let ?I = "insert (last_read db a (msg_ConversationID m))
        (msg_ID ` {x \<in> set ?page. msg_ConversationID x = msg_ConversationID m})"
    have "msg_ID m \<in> ?I" "finite ?I" using that by auto
    then have "msg_ID m \<le> Max ?I" by (rule Max_ge [rotated])
    then show ?thesis using pos [OF that(1)] by (simp add: position_after_def)
  qed
  then have "\<not> buildInboxConditions db' a opts' m"
    if "ro_MarkRead opts" "m \<in> set ?page" "\<not> ro_IncludeRead opts'" for m opts'
    using that by (fastforce simp: buildInboxConditions_def)
  then show ?thesis
    using r pos db' mark_read_other [of env now a order ?page db] by auto
qed

theorem inbox_mark_read_witness:
  "msg_inv example_inbox \<and> no_faults example_env \<and>
   last_read (snd (ReadInbox example_env 30 rev ''bob'' (unread_opts 0 0 True) example_inbox)) ''bob'' 1 = 2"
proof -
  obtain r db' where run: "ReadInbox example_env 30 rev ''bob'' (unread_opts 0 0 True) example_inbox = (r, db')"
    by (cases "ReadInbox example_env 30 rev ''bob'' (unread_opts 0 0 True) example_inbox")
  have "ro_MarkRead (unread_opts 0 0 True)" by (simp add: unread_opts_def)
  with inbox_mark_read [OF example_inbox_inv example_env_faults(1) _ run] obtain page where
    "r = Inr page" "last_read db' ''bob'' 1 = position_after example_inbox ''bob'' (pm_Messages page) 1"
    by auto
  moreover from this run have "pm_Messages page = GetInboxMessages example_inbox ''bob'' (unread_opts 0 0 True)"
    by (auto simp: ReadInbox_def Let_def split: if_splits)
  moreover have "position_after example_inbox ''bob'' (GetInboxMessages example_inbox ''bob'' (unread_opts 0 0 True)) 1 = 2"
    by code_simp
  ultimately show ?thesis using run by (simp add: example_inbox_inv example_env_faults)
qed

text \<open>
  Marking a page as read can hide messages nobody has seen. The page is ordered by
  priority, the read position is an id: of two unread messages of one conversation, reading
  the first page of one returns the urgent newer one and moves the position past the older
  one, which no later read of unread messages returns.
\<close>

theorem mark_read_hides_unreturned:
  "case ReadInbox example_env 30 (\<lambda>xs. xs) ''bob'' (unread_opts 1 0 True) example_inbox of
     (Inr page, db') \<Rightarrow>
       map msg_Body (pm_Messages page) = [''urgent''] \<and> pm_Total page = 2 \<and>
       GetInboxMessages db' ''bob'' (unread_opts 0 0 False) = []
   | _ \<Rightarrow> False"
  by code_simp

text \<open>
  The pages of an inbox put together. The reported total is the number of messages that
  satisfy the conditions, and the first pages of size \<open>l\<close> are, one after the other, the
  first messages in order of priority and age; enough pages give every message once.
\<close>

theorem inbox_pages:
  assumes "0 < l"
  shows "(let page = (\<lambda>k. GetInboxMessages db a (opts\<lparr>ro_Limit := l, ro_Offset := int k * l\<rparr>));
             all = sort_key by_priority (filter (buildInboxConditions db a opts) (md_msgs db))
         in concat (map page [0..<n]) = take (n * nat l) all \<and>
            (CountInboxMessages db a opts \<le> n * nat l \<longrightarrow>
               mset (concat (map page [0..<n])) = mset (filter (buildInboxConditions db a opts) (md_msgs db))))"
proof -
  have c: "buildInboxConditions db a (opts\<lparr>ro_Limit := l, ro_Offset := o'\<rparr>) = buildInboxConditions db a opts" for o'
    by (rule ext) (simp add: buildInboxConditions_def)
  have "(\<lambda>k. GetInboxMessages db a (opts\<lparr>ro_Limit := l, ro_Offset := int k * l\<rparr>)) =
      (\<lambda>k. limit_offset l (int k * l) (sort_key by_priority (filter (buildInboxConditions db a opts) (md_msgs db))))"
    using assms by (auto simp: GetInboxMessages_def c default_limit_def)
  then show ?thesis
    by (simp add: Let_def CountInboxMessages_def limit_offset_pages [OF assms])
qed

theorem inbox_pages_witness:
  "concat (map (\<lambda>k. GetInboxMessages example_inbox ''bob'' ((unread_opts 0 0 False)\<lparr>ro_Limit := 1, ro_Offset := int k * 1\<rparr>))
     [0..<2]) = sort_key by_priority (md_msgs example_inbox)"
proof -
  have "take (2 * nat 1) (sort_key by_priority (filter (buildInboxConditions example_inbox ''bob'' (unread_opts 0 0 False))
      (md_msgs example_inbox))) = sort_key by_priority (md_msgs example_inbox)"
    by code_simp
  with inbox_pages [of 1 example_inbox "''bob''" "unread_opts 0 0 False" 2] show ?thesis
    by (simp add: Let_def)
qed

text \<open>
  A search shows an agent only messages it sent or that were sent to it. The third case of
  the access condition, channel messages of channels the agent is a member of, asks for an
  empty recipient where the store has NULL and so never applies.
\<close>

theorem search_scope:
  assumes "msg_inv db" and "SearchMessages fts env db a query opts = Inr page"
    and "m \<in> set (pm_Messages page)"
  shows "m \<in> set (md_msgs db) \<and> (msg_ToAgent m = Some a \<or> msg_FromAgent m = a)"
proof -
  obtain ms where ms: "search_rows fts env db a query opts = Some ms"
    "pm_Messages page = limit_offset (default_limit 20 (se_Limit opts)) (max 0 (se_Offset opts)) ms"
    using assms(2) by (auto simp: SearchMessages_def store_SearchMessages_def CountSearchMessages_def
        split: if_splits option.splits)
  with assms(3) set_limit_offset have "m \<in> set ms" by fastforce
  from search_rows_accessible [OF ms(1) this] have "m \<in> set (md_msgs db)" "accessible env a m"
    by (auto simp: buildSearchConditions_def)
  with assms(1) show ?thesis
    by (auto simp: accessible_def msg_inv_def content_ok_def one_destination_def)
qed

definition any_search :: SearchOptions where
  "any_search = \<lparr>se_FromAgent = '''', se_ToAgent = '''', se_ChannelID = None, se_MinPriority = 0,
     se_Status = '''', se_Limit = 0, se_Offset = 0, se_After = None, se_Before = None,
     se_Channel = '''', se_Channels = [], se_ExcludeChannels = [], se_Agents = [], se_ExcludeAgents = []\<rparr>"

theorem search_scope_witness:
  "\<exists>page. SearchMessages (\<lambda>_. None) example_env example_inbox ''alice'' '''' any_search = Inr page \<and>
     (\<forall>m \<in> set (pm_Messages page). msg_ToAgent m = Some ''alice'' \<or> msg_FromAgent m = ''alice'')"
proof -
  have "\<not> isl (SearchMessages (\<lambda>_. None) example_env example_inbox ''alice'' '''' any_search)" by code_simp
  then obtain page where p: "SearchMessages (\<lambda>_. None) example_env example_inbox ''alice'' '''' any_search = Inr page"
    by (metis isl_def sum.exhaust)
  from search_scope [OF example_inbox_inv p] p show ?thesis by blast
qed

text \<open>
  A sanitized query is a list of FTS5 string literals that denote exactly the words of the
  query, so no word is read as an operator, provided no word starts and ends with a quotation
  mark already.
\<close>

theorem sanitize_roundtrip:
  assumes "\<And>t. t \<in> set (str_fields (trim_space query)) \<Longrightarrow> \<not> already_quoted t"
    and "trim_space query \<noteq> ''''"
  shows "read_phrases (2 * length (str_fields (trim_space query)) + 1) (sanitizeFTS5Query query) =
    Some (str_fields (trim_space query))"
proof -
  have "sanitizeFTS5Query query = join_with '' '' (map quote_token (str_fields (trim_space query)))"
    using assms(2) by (simp add: sanitizeFTS5Query_def)
  moreover have "2 * length (str_fields (trim_space query)) < 2 * length (str_fields (trim_space query)) + 1"
    by simp
  ultimately show ?thesis using read_join_quoted [OF assms(1)] by presburger
qed

theorem sanitize_roundtrip_witness:
  "read_phrases 7 (sanitizeFTS5Query '' to NOT a'') = Some [''to'', ''NOT'', ''a'']"
proof -
  have f: "str_fields (trim_space '' to NOT a'') = [''to'', ''NOT'', ''a'']" by code_simp
  have t: "trim_space '' to NOT a'' \<noteq> ''''" by code_simp
  have "\<not> already_quoted t" if "t \<in> set [''to'', ''NOT'', ''a'']" for t
    using that by (auto simp: already_quoted_def)
  with sanitize_roundtrip [of "'' to NOT a''", OF _ t] show ?thesis unfolding f by simp
qed

end
