(* ===== verification/Stalemate.thy ===== *)
theory Stalemate
  imports Messaging "HOL-Library.Word"
begin

text \<open>
  The stalemate worker of \<open>internal/messaging/stalemate.go\<close> and the audit ring it cleans,
  \<open>memory_injections.go\<close>. Durations are Go's \<open>time.Duration\<close>, 64-bit nanosecond counts, so
  the arithmetic on them is that of \<open>64 word\<close> read as signed; instants are unbounded
  nanosecond counts, and a stored time of \<open>t\<close> seconds is the instant \<open>t * second\<close>.
\<close>

section \<open>Configuration\<close>

type_synonym duration = "64 word"

definition second :: int where
  "second = 1000000000"

definition hour_ns :: int where
  "hour_ns = 3600 * second"

definition Hour :: duration where
  "Hour = 3600000000000"

definition Minute :: duration where
  "Minute = 60000000000"

record StalemateConfig =
  sc_ProcessingTimeout :: duration
  sc_Interval :: duration

definition DefaultStalemateConfig :: StalemateConfig where
  "DefaultStalemateConfig = \<lparr>sc_ProcessingTimeout = 24 * Hour, sc_Interval = 15 * Minute\<rparr>"

text \<open>\<open>strconv.Atoi\<close>: an optional sign, decimal digits, within the range of a 64-bit \<open>int\<close>.\<close>

definition digit_val :: "char \<Rightarrow> nat option" where
  "digit_val c = (let n = of_char c in if 48 \<le> n \<and> n \<le> (57::nat) then Some (n - 48) else None)"

fun parse_digits :: "nat \<Rightarrow> string \<Rightarrow> nat option" where
  "parse_digits acc [] = Some acc"
| "parse_digits acc (c # s) =
     (case digit_val c of None \<Rightarrow> None | Some d \<Rightarrow> parse_digits (10 * acc + d) s)"

definition parse_nat :: "string \<Rightarrow> nat option" where
  "parse_nat s = (if s = [] then None else parse_digits 0 s)"

definition in_int64 :: "int \<Rightarrow> bool" where
  "in_int64 i \<longleftrightarrow> - (2 ^ 63) \<le> i \<and> i < 2 ^ 63"

definition Atoi :: "string \<Rightarrow> int option" where
  "Atoi s =
     (let (neg, ds) = (case s of
          [] \<Rightarrow> (False, s)
        | c # t \<Rightarrow> if c = CHR ''-'' then (True, t) else if c = CHR ''+'' then (False, t) else (False, s))
      in case parse_nat ds of
           None \<Rightarrow> None
         | Some n \<Rightarrow> let i = (if neg then - int n else int n) in if in_int64 i then Some i else None)"

text \<open>\<open>ParseDuration\<close> is Go's \<open>time.ParseDuration\<close>, which handles every text but \<open>Nd\<close>.\<close>

definition parseDurationWithDays ::
  "(string \<Rightarrow> duration option) \<Rightarrow> string \<Rightarrow> duration option" where
  "parseDurationWithDays ParseDuration str =
     (let s = trim_space str in
      if s = '''' then None
      else let days = (if last s = CHR ''d'' then Atoi (butlast s) else None)
        in (case days of
              Some n \<Rightarrow> if 0 < n then Some (of_int n * 24 * Hour) else ParseDuration s
            | None \<Rightarrow> ParseDuration s))"

definition override :: "(string \<Rightarrow> duration option) \<Rightarrow> string \<Rightarrow> duration \<Rightarrow> duration" where
  "override ParseDuration v dflt =
     (if v = '''' then dflt
      else case parseDurationWithDays ParseDuration v of
        None \<Rightarrow> dflt
      | Some d \<Rightarrow> if 0 <s d then d else dflt)"

definition ParseStalemateConfig ::
  "(string \<Rightarrow> duration option) \<Rightarrow> (string \<Rightarrow> string) \<Rightarrow> StalemateConfig" where
  "ParseStalemateConfig ParseDuration getenv =
     \<lparr>sc_ProcessingTimeout = override ParseDuration (getenv ''SYNAPBUS_STALEMATE_PROCESSING_TIMEOUT'')
        (sc_ProcessingTimeout DefaultStalemateConfig),
      sc_Interval = override ParseDuration (getenv ''SYNAPBUS_STALEMATE_INTERVAL'')
        (sc_Interval DefaultStalemateConfig)\<rparr>"

section \<open>Failing timed-out claims\<close>

text \<open>
  The worker first selects, then updates each selected row with the conditions checked again.
  \<open>cutoff\<close> is \<open>time.Now().Add(-ProcessingTimeout)\<close>.
\<close>

definition timed_out :: "int \<Rightarrow> Message \<Rightarrow> bool" where
  "timed_out cutoff m \<longleftrightarrow> msg_Status m = MProcessing \<and>
     (case msg_ClaimedAt m of None \<Rightarrow> False | Some t \<Rightarrow> t * second < cutoff)"

definition stale_select :: "int \<Rightarrow> msg_db \<Rightarrow> id64 list" where
  "stale_select cutoff db = map msg_ID (filter (\<lambda>m. timed_out cutoff m \<and>
     (case msg_ToAgent m of None \<Rightarrow> False | Some t \<Rightarrow> t \<noteq> '''' \<and> t \<noteq> ''system'')) (md_msgs db))"

definition timeout_metadata :: json where
  "timeout_metadata = JObj [(''error'', JStr ''claim timeout exceeded'')]"

definition fail_row :: "timestamp \<Rightarrow> Message \<Rightarrow> Message" where
  "fail_row now m = m\<lparr>msg_Status := MFailed, msg_Metadata := timeout_metadata, msg_UpdatedAt := now\<rparr>"

definition stale_update :: "timestamp \<Rightarrow> int \<Rightarrow> id64 \<Rightarrow> msg_db \<Rightarrow> nat \<times> msg_db" where
  "stale_update now cutoff i db =
     (let P = (\<lambda>m. msg_ID m = i \<and> timed_out cutoff m)
      in (rows_affected P (md_msgs db), db\<lparr>md_msgs := update_where P (fail_row now) (md_msgs db)\<rparr>))"

fun stale_updates :: "(id64 \<Rightarrow> bool) \<Rightarrow> timestamp \<Rightarrow> int \<Rightarrow> id64 list \<Rightarrow> nat \<Rightarrow> msg_db \<Rightarrow> nat \<times> msg_db" where
  "stale_updates flt now cutoff [] cnt db = (cnt, db)"
| "stale_updates flt now cutoff (i # is) cnt db =
     (if flt i then stale_updates flt now cutoff is cnt db
      else case stale_update now cutoff i db of
        (n, db') \<Rightarrow> stale_updates flt now cutoff is (if n = 0 then cnt else cnt + 1) db')"

definition failTimedOutProcessing ::
  "(id64 \<Rightarrow> bool) \<Rightarrow> bool \<Rightarrow> StalemateConfig \<Rightarrow> int \<Rightarrow> msg_db \<Rightarrow> nat \<times> msg_db" where
  "failTimedOutProcessing flt query_fails cfg now_ns db =
     (let cutoff = now_ns - sint (sc_ProcessingTimeout cfg) in
      if query_fails then (0, db)
      else stale_updates flt (now_ns div second) cutoff (stale_select cutoff db) 0 db)"

section \<open>The injection audit ring\<close>

record InjectionRecord =
  ij_ID :: id64
  ij_OwnerID :: string
  ij_AgentName :: string
  ij_ToolName :: string
  ij_PacketSizeChars :: int
  ij_PacketItemsCount :: int
  ij_MessageIDs :: "id64 list"
  ij_CoreBlobIncluded :: bool
  ij_CreatedAt :: "timestamp option"

record ij_db =
  ij_rows :: "InjectionRecord list"
  ij_seq :: id64

text \<open>A zero \<open>CreatedAt\<close> is \<open>None\<close>; the row then takes the current time.\<close>

definition Record :: "timestamp \<Rightarrow> InjectionRecord \<Rightarrow> ij_db \<Rightarrow> ij_db" where
  "Record now row db =
     (let i = ij_seq db + 1
      in db\<lparr>ij_rows := ij_rows db @ [row\<lparr>ij_ID := i, ij_CreatedAt :=
              (case ij_CreatedAt row of None \<Rightarrow> Some now | Some t \<Rightarrow> Some t)\<rparr>], ij_seq := i\<rparr>)"

definition older_than :: "int \<Rightarrow> InjectionRecord \<Rightarrow> bool" where
  "older_than cutoff r = (case ij_CreatedAt r of None \<Rightarrow> False | Some t \<Rightarrow> t * second < cutoff)"

definition Cleanup :: "int \<Rightarrow> duration \<Rightarrow> ij_db \<Rightarrow> nat \<times> ij_db" where
  "Cleanup now_ns olderThan db =
     (if olderThan \<le>s 0 then (0, db)
      else let P = older_than (now_ns - sint olderThan)
        in (rows_affected P (ij_rows db), db\<lparr>ij_rows := delete_where P (ij_rows db)\<rparr>))"

definition ListRecent :: "string \<Rightarrow> int \<Rightarrow> ij_db \<Rightarrow> InjectionRecord list" where
  "ListRecent ownerID limit db =
     limit_offset (if limit \<le> 0 then 50 else limit) 0
       (sort_key (\<lambda>r. (case ij_CreatedAt r of None \<Rightarrow> 0 | Some t \<Rightarrow> - t, - ij_ID r))
         (filter (\<lambda>r. ij_OwnerID r = ownerID) (ij_rows db)))"

text \<open>
  The hourly clean-up on the worker's tick; integer division of durations truncates towards
  zero and the interval of a configuration is positive.
\<close>

definition ticks_per_hour :: "StalemateConfig \<Rightarrow> int" where
  "ticks_per_hour cfg = (let n = sint Hour div sint (sc_Interval cfg) in if n \<le> 0 then 1 else n)"

definition maybeCleanupInjections ::
  "StalemateConfig \<Rightarrow> int \<Rightarrow> int \<times> ij_db \<Rightarrow> int \<times> ij_db" where
  "maybeCleanupInjections cfg now_ns st =
     (case st of (tickCount, db) \<Rightarrow>
       let t = tickCount + 1 in
       if t mod ticks_per_hour cfg \<noteq> 0 then (t, db)
       else (t, snd (Cleanup now_ns (24 * Hour) db)))"

section \<open>Durations\<close>

lemma digit_char: "d < 10 \<Longrightarrow> digit_val (char_of (48 + d)) = Some d"
  by (simp add: digit_val_def)

lemma parse_digits_append:
  "parse_digits acc (s @ t) = (case parse_digits acc s of None \<Rightarrow> None | Some a \<Rightarrow> parse_digits a t)"
  by (induction acc s rule: parse_digits.induct) (auto split: option.splits)

lemma show_nat_not_Nil [simp]: "show_nat n \<noteq> []"
  by (subst show_nat.simps) simp

lemma parse_show_nat: "parse_digits 0 (show_nat n) = Some n"
proof (induction n rule: show_nat.induct)
  case (1 n)
  show ?case
  proof (cases "n < 10")
    case True
    then show ?thesis by (subst show_nat.simps) (simp add: digit_char)
  next
    case False
    with 1 have "parse_digits 0 (show_nat (n div 10)) = Some (n div 10)" by simp
    with False show ?thesis
      by (subst show_nat.simps) (simp add: parse_digits_append digit_char)
  qed
qed

lemma show_nat_digits: "c \<in> set (show_nat n) \<Longrightarrow> is_alnum c"
proof (induction n rule: show_nat.induct)
  case (1 n)
  have "is_alnum (char_of (48 + d))" if "d < 10" for d :: nat
    using that by (simp add: is_alnum_def)
  then show ?case
    using 1 by (subst (asm) (2) show_nat.simps) (auto split: if_splits)
qed

lemma parse_nat_show [simp]: "parse_nat (show_nat n) = Some n"
  by (simp add: parse_nat_def parse_show_nat)

lemma Atoi_show_nat: "int n < 2 ^ 63 \<Longrightarrow> Atoi (show_nat n) = Some (int n)"
proof -
  assume n: "int n < 2 ^ 63"
  obtain c s where cs: "show_nat n = c # s" by (cases "show_nat n") auto
  with show_nat_digits [of c n] have "c \<noteq> CHR ''-''" "c \<noteq> CHR ''+''"
    by (auto simp: is_alnum_def)
  with n cs parse_nat_show [of n] show ?thesis by (auto simp: Atoi_def in_int64_def)
qed

text \<open>No white space starts or ends with a letter or a digit.\<close>

lemma trim_left_of_id:
  assumes "\<And>p. p \<in> set ps \<Longrightarrow> p \<noteq> [] \<and> \<not> is_alnum (hd p)" and "s = [] \<or> is_alnum (hd s)"
  shows "trim_left_of ps s = s"
proof -
  have "strip_any ps s = None"
  proof (rule ccontr)
    assume "strip_any ps s \<noteq> None"
    then obtain p t where "p \<in> set ps" "s = p @ t" by (auto dest: strip_any_Some)
    with assms show False by (cases p) force+
  qed
  then show ?thesis by (subst trim_left_of.simps) simp
qed

lemma space_heads: "\<forall>p \<in> set space_encodings. p \<noteq> [] \<and> \<not> is_alnum (hd p)"
  by code_simp

lemma space_tails: "\<forall>p \<in> set (map rev space_encodings). p \<noteq> [] \<and> \<not> is_alnum (hd p)"
  by code_simp

lemma trim_space_id:
  assumes "is_alnum (hd s)" "is_alnum (last s)" "s \<noteq> []"
  shows "trim_space s = s"
proof -
  have "trim_left_of space_encodings s = s"
    using space_heads assms by (intro trim_left_of_id) auto
  moreover have "trim_left_of (map rev space_encodings) (rev s) = rev s"
    using space_tails assms by (intro trim_left_of_id) (auto simp: hd_rev)
  ultimately show ?thesis by (simp add: trim_space_def)
qed

lemma parse_days:
  assumes "0 < n" and "int n < 2 ^ 63"
  shows "parseDurationWithDays pd (show_nat n @ ''d'') = Some (of_int (int n) * 24 * Hour)"
proof -
  have "is_alnum (hd (show_nat n @ ''d''))" using show_nat_digits [of "hd (show_nat n)" n] by simp
  then have "trim_space (show_nat n @ ''d'') = show_nat n @ ''d''"
    by (intro trim_space_id) (simp_all add: is_alnum_def)
  with assms Atoi_show_nat [of n] show ?thesis by (simp add: parseDurationWithDays_def)
qed

lemma sint_of_int: "in_int64 k \<Longrightarrow> sint (of_int k :: duration) = k"
  by (simp add: in_int64_def signed_of_int signed_take_bit_int_eq_self)

section \<open>The worker\<close>

lemma fail_row_not_timed_out [simp]: "\<not> timed_out cutoff (fail_row now m)"
  by (simp add: timed_out_def fail_row_def)

lemma fail_row_fields [simp]: "msg_ID (fail_row now m) = msg_ID m" "msg_ToAgent (fail_row now m) = msg_ToAgent m"
  by (simp_all add: fail_row_def)

lemma stale_updates_eq:
  assumes "distinct (map msg_ID (md_msgs db))" and "distinct is"
    and "\<And>i. i \<in> set is \<Longrightarrow> \<exists>m \<in> set (md_msgs db). msg_ID m = i \<and> timed_out cutoff m"
  shows "stale_updates flt now cutoff is c db =
    (c + length (filter (\<lambda>i. \<not> flt i) is),
     db\<lparr>md_msgs := update_where (\<lambda>m. msg_ID m \<in> set is \<and> \<not> flt (msg_ID m) \<and> timed_out cutoff m)
        (fail_row now) (md_msgs db)\<rparr>)"
  using assms
proof (induction "is" arbitrary: c db)
  case (Cons i "is")
  show ?case
  proof (cases "flt i")
    case True
    have "update_where (\<lambda>m. msg_ID m \<in> set is \<and> \<not> flt (msg_ID m) \<and> timed_out cutoff m) (fail_row now) (md_msgs db) =
        update_where (\<lambda>m. msg_ID m \<in> set (i # is) \<and> \<not> flt (msg_ID m) \<and> timed_out cutoff m) (fail_row now) (md_msgs db)"
      using True by (intro update_where_cong) auto
    with True Cons.IH [of db c] Cons.prems show ?thesis by simp
  next
    case False
    let ?db = "snd (stale_update now cutoff i db)"
    have rows: "md_msgs ?db = update_where (\<lambda>m. msg_ID m = i \<and> timed_out cutoff m) (fail_row now) (md_msgs db)"
      by (simp add: stale_update_def Let_def)
    have hit: "fst (stale_update now cutoff i db) \<noteq> 0"
      using Cons.prems(3) [of i] by (auto simp: stale_update_def Let_def)
    have "distinct (map msg_ID (md_msgs ?db))"
      using Cons.prems(1) unfolding rows by (simp add: map_update_where)
    moreover have "\<exists>m \<in> set (md_msgs ?db). msg_ID m = j \<and> timed_out cutoff m" if "j \<in> set is" for j
    proof -
      from Cons.prems(3) [of j] that obtain m where "m \<in> set (md_msgs db)" "msg_ID m = j" "timed_out cutoff m" by auto
      moreover have "j \<noteq> i" using that Cons.prems(2) by auto
      ultimately show ?thesis using updated_row [of m "md_msgs db" "\<lambda>m. msg_ID m = i \<and> timed_out cutoff m" "fail_row now"]
        unfolding rows by auto
    qed
    moreover have "update_where (\<lambda>m. msg_ID m \<in> set is \<and> \<not> flt (msg_ID m) \<and> timed_out cutoff m) (fail_row now) (md_msgs ?db) =
        update_where (\<lambda>m. msg_ID m \<in> set (i # is) \<and> \<not> flt (msg_ID m) \<and> timed_out cutoff m) (fail_row now) (md_msgs db)"
      unfolding rows using False by (auto simp: update_where_def)
    moreover have "?db\<lparr>md_msgs := x\<rparr> = db\<lparr>md_msgs := x\<rparr>" for x by (simp add: stale_update_def Let_def)
    ultimately show ?thesis
      using Cons.IH [of ?db "Suc c"] Cons.prems(2) False hit
      by (cases "stale_update now cutoff i db") simp
  qed
qed (simp add: update_where_none)

definition stale_dm :: "int \<Rightarrow> Message \<Rightarrow> bool" where
  "stale_dm cutoff m \<longleftrightarrow> timed_out cutoff m \<and>
     (case msg_ToAgent m of None \<Rightarrow> False | Some t \<Rightarrow> t \<noteq> '''' \<and> t \<noteq> ''system'')"

lemma failTimedOutProcessing_eq:
  assumes "msg_inv db" and "cutoff = now_ns - sint (sc_ProcessingTimeout cfg)"
  shows "failTimedOutProcessing flt False cfg now_ns db =
    (length (filter (\<lambda>m. stale_dm cutoff m \<and> \<not> flt (msg_ID m)) (md_msgs db)),
     db\<lparr>md_msgs := update_where (\<lambda>m. stale_dm cutoff m \<and> \<not> flt (msg_ID m)) (fail_row (now_ns div second)) (md_msgs db)\<rparr>)"
proof -
  let ?is = "stale_select cutoff db"
  have sel: "?is = map msg_ID (filter (stale_dm cutoff) (md_msgs db))"
    by (simp add: stale_select_def stale_dm_def [abs_def])
  have d: "distinct (map msg_ID (md_msgs db))" using assms by (simp add: msg_inv_def ids_ok_def)
  have "distinct ?is" unfolding sel using d by (rule distinct_map_filter)
  moreover have "\<exists>m \<in> set (md_msgs db). msg_ID m = i \<and> timed_out cutoff m" if "i \<in> set ?is" for i
    using that by (auto simp: sel stale_dm_def)
  ultimately have run: "stale_updates flt (now_ns div second) cutoff ?is 0 db =
    (length (filter (\<lambda>i. \<not> flt i) ?is),
     db\<lparr>md_msgs := update_where (\<lambda>m. msg_ID m \<in> set ?is \<and> \<not> flt (msg_ID m) \<and> timed_out cutoff m)
        (fail_row (now_ns div second)) (md_msgs db)\<rparr>)"
    using stale_updates_eq [OF d, of ?is cutoff flt "now_ns div second" 0] by simp
  have "(msg_ID m \<in> set ?is \<and> \<not> flt (msg_ID m) \<and> timed_out cutoff m) \<longleftrightarrow> (stale_dm cutoff m \<and> \<not> flt (msg_ID m))"
    if "m \<in> set (md_msgs db)" for m
  proof -
    have "stale_dm cutoff m" if "msg_ID m \<in> set ?is"
      using that \<open>m \<in> set (md_msgs db)\<close> assms(1)
      unfolding sel by (auto simp: msg_inv_def dest: ids_ok_unique)
    moreover have "msg_ID m \<in> set ?is" if "stale_dm cutoff m"
      using that \<open>m \<in> set (md_msgs db)\<close> unfolding sel by auto
    moreover have "timed_out cutoff m" if "stale_dm cutoff m" using that by (simp add: stale_dm_def)
    ultimately show ?thesis by blast
  qed
  then have "update_where (\<lambda>m. msg_ID m \<in> set ?is \<and> \<not> flt (msg_ID m) \<and> timed_out cutoff m) f (md_msgs db) =
      update_where (\<lambda>m. stale_dm cutoff m \<and> \<not> flt (msg_ID m)) f (md_msgs db)" for f
    by (rule update_where_cong)
  moreover have "length (filter (\<lambda>i. \<not> flt i) ?is) = length (filter (\<lambda>m. stale_dm cutoff m \<and> \<not> flt (msg_ID m)) (md_msgs db))"
    by (simp add: sel filter_map comp_def conj_commute)
  ultimately show ?thesis
    by (simp add: failTimedOutProcessing_def assms(2) [symmetric] run)
qed

lemma failTimedOutProcessing_inv:
  "msg_inv db \<Longrightarrow> msg_inv (snd (failTimedOutProcessing flt qf cfg now_ns db))"
proof (cases qf)
  case False
  assume inv: "msg_inv db"
  have "claim_ok (fail_row n m)" if "m \<in> set (md_msgs db)" "stale_dm c m" for n m c
    using that inv by (auto simp: msg_inv_def claim_ok_def fail_row_def stale_dm_def timed_out_def)
  moreover have "content (fail_row n m) = content m" for n m by (simp add: content_def fail_row_def)
  ultimately show ?thesis
    using failTimedOutProcessing_eq [OF inv refl] False inv by (auto intro: msg_inv_update)
qed (simp add: failTimedOutProcessing_def)

section \<open>Properties\<close>

text \<open>
  The worker fails exactly the claims that have timed out: direct messages in processing,
  not addressed to the system agent, claimed before now minus the timeout. It counts them,
  replaces their metadata by the reason and leaves every other row as it was.
\<close>

theorem stalemate_exact:
  assumes "msg_inv db"
  shows "let cutoff = now_ns - sint (sc_ProcessingTimeout cfg)
    in failTimedOutProcessing (\<lambda>_. False) False cfg now_ns db =
      (length (filter (stale_dm cutoff) (md_msgs db)),
       db\<lparr>md_msgs := update_where (stale_dm cutoff) (fail_row (now_ns div second)) (md_msgs db)\<rparr>)"
  using failTimedOutProcessing_eq [OF assms refl, of "\<lambda>_. False"] by (simp add: Let_def)

definition claimed_inbox :: msg_db where
  "claimed_inbox = snd (ClaimMessages example_env 20 ''bob'' 1 example_inbox)"

lemma claimed_inbox_inv: "msg_inv claimed_inbox"
  unfolding claimed_inbox_def by (rule ClaimMessages_inv [OF example_inbox_inv])

theorem stalemate_exact_witness:
  "msg_inv claimed_inbox \<and>
   fst (failTimedOutProcessing (\<lambda>_. False) False DefaultStalemateConfig (90000 * second) claimed_inbox) = 1"
proof -
  have "length (filter (stale_dm (90000 * second - sint (sc_ProcessingTimeout DefaultStalemateConfig)))
      (md_msgs claimed_inbox)) = 1" by code_simp
  with stalemate_exact [OF claimed_inbox_inv, of "90000 * second" DefaultStalemateConfig] show ?thesis
    by (simp add: claimed_inbox_inv Let_def)
qed

text \<open>
  A timeout of \<open>N\<close> days is read as exactly that many nanoseconds for every \<open>N\<close> up to
  106751, the largest number of days a signed 64-bit duration holds.
\<close>

theorem day_timeouts_exact:
  assumes "0 < n" and "n \<le> 106751"
  shows "\<exists>d. parseDurationWithDays pd (show_nat n @ ''d'') = Some d \<and>
    sint d = int n * 24 * hour_ns"
proof -
  have "of_int (int n) * 24 * Hour = (of_int (int n * 24 * 3600000000000) :: duration)"
    by (simp add: Hour_def)
  moreover have "sint (of_int (int n * 24 * 3600000000000) :: duration) = int n * 24 * 3600000000000"
    using assms by (intro sint_of_int) (simp add: in_int64_def)
  ultimately show ?thesis
    using assms parse_days [of n pd] by (simp add: hour_ns_def second_def)
qed

theorem day_timeouts_exact_witness:
  "\<exists>d. parseDurationWithDays (\<lambda>_. None) (show_nat 7 @ ''d'') = Some d \<and> sint d = 604800000000000"
  using day_timeouts_exact [of 7 "\<lambda>_. None"] by (simp add: hour_ns_def second_def)

text \<open>
  Beyond that bound the multiplication wraps around: a timeout of 213504 days, more than
  584 years, is taken as a valid positive duration of less than 26 minutes, so live claims
  are failed after that time.
\<close>

theorem day_timeout_overflow:
  "sint (sc_ProcessingTimeout (ParseStalemateConfig (\<lambda>_. None)
     (\<lambda>v. if v = ''SYNAPBUS_STALEMATE_PROCESSING_TIMEOUT'' then ''213504d'' else ''''))) = 1526290448384"
proof -
  have "show_nat 213504 = ''213504''" by (simp add: show_nat.simps) code_simp
  with parse_days [of 213504 "\<lambda>_. None"]
  have "parseDurationWithDays (\<lambda>_. None) ''213504d'' = Some (1526290448384 :: duration)"
    by (simp add: Hour_def)
  then show ?thesis
    by (simp add: ParseStalemateConfig_def override_def word_sless_alt)
qed

end
