(* ===== verification/Message_Lifecycle.thy ===== *)
theory Message_Lifecycle
  imports Stalemate
begin

text \<open>
  The life of a message: pending, processing, done or failed. The first part runs the
  operations of the messaging service and of the stalemate worker one after the other, in
  any sequence. The second part interleaves them statement by statement, as concurrent
  sessions of the server do: every SQL statement is atomic (one writer connection), the
  operations made of several statements are not.
\<close>

section \<open>Sequences of operations\<close>

datatype msg_op =
    OpSend msg_service msg_env timestamp string string string SendOptions
  | OpRead msg_env timestamp "id64 list \<Rightarrow> id64 list" string ReadOptions
  | OpSetRead msg_env timestamp string id64 id64
  | OpClaimMessages msg_env timestamp string int
  | OpMarkDone msg_env timestamp id64 string
  | OpMarkFailed msg_env timestamp id64 string string
  | OpStalemate "id64 \<Rightarrow> bool" bool StalemateConfig int

fun msg_exec :: "msg_op \<Rightarrow> msg_db \<Rightarrow> msg_db" where
  "msg_exec (OpSend svc env now from to body opts) db = snd (snd (SendMessage svc env now from to body opts db))"
| "msg_exec (OpRead env now order a opts) db = snd (ReadInbox env now order a opts db)"
| "msg_exec (OpSetRead env now a c i) db = snd (UpdateInboxState env now a c i db)"
| "msg_exec (OpClaimMessages env now a l) db = snd (ClaimMessages env now a l db)"
| "msg_exec (OpMarkDone env now i a) db = snd (MarkDone env now i a db)"
| "msg_exec (OpMarkFailed env now i a reason) db = snd (MarkFailed env now i a reason db)"
| "msg_exec (OpStalemate flt qf cfg now) db = snd (failTimedOutProcessing flt qf cfg now db)"

fun msg_next :: "message_status \<Rightarrow> message_status \<Rightarrow> bool" where
  "msg_next MPending st = (st = MProcessing)"
| "msg_next MProcessing st = (st = MDone \<or> st = MFailed)"
| "msg_next MDone st = False"
| "msg_next MFailed st = False"

fun msg_rank :: "message_status \<Rightarrow> nat" where
  "msg_rank MPending = 0"
| "msg_rank MProcessing = 1"
| "msg_rank MDone = 2"
| "msg_rank MFailed = 2"

interpretation msg_status: status_machine msg_next msg_rank
proof
  fix a b assume "msg_next a b"
  then show "msg_rank a < msg_rank b" by (cases a; cases b) simp_all
qed

text \<open>What a later state keeps of a message and of the read positions.\<close>

definition claim_kept :: "Message \<Rightarrow> Message \<Rightarrow> bool" where
  "claim_kept m m' \<longleftrightarrow> content m' = content m \<and>
     (msg_ClaimedBy m \<noteq> None \<longrightarrow> msg_ClaimedBy m' = msg_ClaimedBy m \<and> msg_ClaimedAt m' = msg_ClaimedAt m)"

definition message_later :: "Message \<Rightarrow> Message \<Rightarrow> bool" where
  "message_later m m' \<longleftrightarrow> claim_kept m m' \<and> msg_next\<^sup>*\<^sup>* (msg_Status m) (msg_Status m')"

definition is_read :: "msg_db \<Rightarrow> string \<Rightarrow> Message \<Rightarrow> bool" where
  "is_read db a m \<longleftrightarrow> msg_ID m \<le> last_read db a (msg_ConversationID m)"

definition reads_kept :: "msg_db \<Rightarrow> msg_db \<Rightarrow> bool" where
  "reads_kept db db' \<longleftrightarrow> (\<forall>a c i. 0 < i \<and> i \<le> last_read db a c \<longrightarrow> i \<le> last_read db' a c)"

definition msgs_later :: "(Message \<Rightarrow> Message \<Rightarrow> bool) \<Rightarrow> msg_db \<Rightarrow> msg_db \<Rightarrow> bool" where
  "msgs_later R db db' \<longleftrightarrow> (\<forall>m \<in> set (md_msgs db). \<exists>m' \<in> set (md_msgs db'). R m m')"

definition msg_later :: "msg_db \<Rightarrow> msg_db \<Rightarrow> bool" where
  "msg_later db db' \<longleftrightarrow> msgs_later message_later db db' \<and> reads_kept db db'"

lemma message_later_refl [simp]: "message_later m m"
  by (simp add: message_later_def claim_kept_def)

lemma message_later_trans: "message_later l m \<Longrightarrow> message_later m n \<Longrightarrow> message_later l n"
  by (auto simp: message_later_def claim_kept_def)

lemma msgs_later_refl: "(\<And>m. R m m) \<Longrightarrow> msgs_later R db db"
  by (auto simp: msgs_later_def)

lemma msgs_later_trans:
  assumes "\<And>l m n. R l m \<Longrightarrow> R m n \<Longrightarrow> R l n" and "msgs_later R a b" and "msgs_later R b c"
  shows "msgs_later R a c"
  unfolding msgs_later_def
proof
  fix l assume "l \<in> set (md_msgs a)"
  with assms(2) obtain m where m: "m \<in> set (md_msgs b)" "R l m" by (auto simp: msgs_later_def)
  with assms(3) obtain n where "n \<in> set (md_msgs c)" "R m n" by (auto simp: msgs_later_def)
  with m assms(1) show "\<exists>n \<in> set (md_msgs c). R l n" by blast
qed

lemma msgs_later_update:
  assumes "\<And>m. R m m" and "\<And>m. m \<in> set (md_msgs db) \<Longrightarrow> P m \<Longrightarrow> R m (f m)"
  shows "msgs_later R db (db\<lparr>md_msgs := update_where P f (md_msgs db)\<rparr>)"
  unfolding msgs_later_def
proof
  fix m assume m: "m \<in> set (md_msgs db)"
  show "\<exists>m' \<in> set (md_msgs (db\<lparr>md_msgs := update_where P f (md_msgs db)\<rparr>)). R m m'"
    using assms(1) assms(2) [OF m] updated_row [OF m, of P f]
    by (intro bexI [of _ "if P m then f m else m"]) auto
qed

lemma msgs_later_append:
  "(\<And>m. R m m) \<Longrightarrow> set (md_msgs db) \<subseteq> set (md_msgs db') \<Longrightarrow> msgs_later R db db'"
  by (auto simp: msgs_later_def)

lemma reads_kept_refl [simp]: "reads_kept db db"
  by (simp add: reads_kept_def)

lemma reads_kept_same: "md_inbox db' = md_inbox db \<Longrightarrow> reads_kept db db'"
  by (simp add: reads_kept_def last_read_def)

lemma reads_kept_trans: "reads_kept a b \<Longrightarrow> reads_kept b c \<Longrightarrow> reads_kept a c"
  by (auto simp: reads_kept_def)

lemma msg_later_refl [simp]: "msg_later db db"
  by (simp add: msg_later_def msgs_later_refl)

lemma msg_later_trans: "msg_later a b \<Longrightarrow> msg_later b c \<Longrightarrow> msg_later a c"
  unfolding msg_later_def
  using msgs_later_trans [of message_later a b c] message_later_trans reads_kept_trans by blast

lemma msg_later_update:
  "(\<And>m. m \<in> set (md_msgs db) \<Longrightarrow> P m \<Longrightarrow> message_later m (f m)) \<Longrightarrow>
     msg_later db (db\<lparr>md_msgs := update_where P f (md_msgs db)\<rparr>)"
  unfolding msg_later_def by (auto intro: msgs_later_update reads_kept_same)

subsection \<open>Every operation\<close>

lemma SendMessage_grows:
  assumes "SendMessage svc env now from to body opts db = (r, eff, db')"
  shows "set (md_msgs db) \<subseteq> set (md_msgs db') \<and> md_inbox db' = md_inbox db"
proof (cases r)
  case (Inl e)
  with assms SendMessage_Inl [of svc env now "from" to body opts db e eff db'] show ?thesis
    by (auto simp: conv_step_def)
next
  case (Inr m)
  with assms obtain db1 i meta where
    res: "resolve_conversation env now from to opts db = (Inr i, db1)" and
    ins: "InsertMessage env now (new_message from to body opts meta i) db1 = (Inr m, db')"
    by (auto elim: SendMessage_Inr)
  from InsertMessage_Inr [OF ins] resolve_conversation_step [OF res] show ?thesis
    by (auto simp: conv_step_def)
qed

lemma SendMessage_later: "msg_later db (snd (snd (SendMessage svc env now from to body opts db)))"
proof (cases "SendMessage svc env now from to body opts db")
  case (fields r eff db')
  from SendMessage_grows [OF fields] fields show ?thesis
    by (auto simp: msg_later_def intro: msgs_later_append reads_kept_same)
qed

lemma UpdateInboxState_later: "msg_later db (snd (UpdateInboxState env now a c i db))"
  by (auto simp: msg_later_def UpdateInboxState_def Let_def reads_kept_def last_read_def
      intro: msgs_later_append split: option.splits)

lemma mark_read_later: "msg_later db (mark_read env now a order page db)"
proof -
  have "msg_later db (fold (\<lambda>conv db. case conversationMaxID page conv of
              None \<Rightarrow> db
            | Some i \<Rightarrow> snd (UpdateInboxState env now a conv i db)) cs db)" for cs db
  proof (induction cs arbitrary: db)
    case (Cons c cs)
    show ?case
      by (auto split: option.splits intro: Cons.IH msg_later_trans [OF UpdateInboxState_later Cons.IH])
  qed simp
  then show ?thesis by (simp add: mark_read_def)
qed

lemma claim_update_later:
  assumes "msg_inv db" shows "msg_later db (claim_update now a ids db)"
  unfolding claim_update_def
proof (rule msg_later_update)
  fix m assume m: "m \<in> set (md_msgs db)" "msg_ID m \<in> set ids \<and> msg_Status m = MPending"
  with assms have "msg_ClaimedBy m = None" by (auto simp: msg_inv_def claim_ok_def)
  moreover have "msg_next MPending MProcessing" by simp
  ultimately show "message_later m (m\<lparr>msg_Status := MProcessing, msg_ClaimedBy := Some a,
              msg_ClaimedAt := Some now, msg_UpdatedAt := now\<rparr>)"
    using m by (auto simp: message_later_def claim_kept_def content_def)
qed

lemma ClaimMessages_later:
  assumes "msg_inv db" shows "msg_later db (snd (ClaimMessages env now a l db))"
  using claim_update_later [OF assms]
  by (auto simp: ClaimMessages_def store_ClaimMessages_def Let_def split: prod.splits if_splits)

lemma check_claim_Inr:
  "check_claim env db i a = Inr m \<Longrightarrow> m \<in> set (md_msgs db) \<and> msg_ID m = i \<and> msg_Status m = MProcessing"
  by (auto simp: check_claim_def get_message_def dest: find_row_Some split: if_splits option.splits)

lemma UpdateMessageStatus_later:
  assumes "msg_inv db" and m: "check_claim env db i a = Inr m" and "st = MDone \<or> st = MFailed"
  shows "msg_later db (snd (UpdateMessageStatus env now i st a meta db))"
proof -
  have "x = m" if "x \<in> set (md_msgs db)" "msg_ID x = i" for x
    using that assms(1) check_claim_Inr [OF m] by (auto simp: msg_inv_def dest: ids_ok_unique)
  then have "msg_next (msg_Status x) st" if "x \<in> set (md_msgs db)" "msg_ID x = i" for x
    using that assms(3) check_claim_Inr [OF m] by auto
  then show ?thesis
    by (auto simp: UpdateMessageStatus_def Let_def message_later_def claim_kept_def content_def
        intro!: msg_later_update r_into_rtranclp)
qed

lemma MarkDone_later: "msg_inv db \<Longrightarrow> msg_later db (snd (MarkDone env now i a db))"
  by (auto simp: MarkDone_def split: sum.splits intro: UpdateMessageStatus_later)

lemma MarkFailed_later: "msg_inv db \<Longrightarrow> msg_later db (snd (MarkFailed env now i a reason db))"
  by (auto simp: MarkFailed_def split: sum.splits option.splits intro: UpdateMessageStatus_later)

lemma fail_row_later: "timed_out cutoff m \<Longrightarrow> message_later m (fail_row now m)"
  by (auto simp: message_later_def claim_kept_def content_def fail_row_def timed_out_def
      intro!: r_into_rtranclp)

lemma failTimedOutProcessing_later:
  assumes "msg_inv db" shows "msg_later db (snd (failTimedOutProcessing flt qf cfg now db))"
proof (cases qf)
  case False
  then show ?thesis
    using failTimedOutProcessing_eq [OF assms refl]
    by (auto intro!: msg_later_update fail_row_later simp: stale_dm_def)
qed (simp add: failTimedOutProcessing_def)

interpretation ml: history_system msg_exec msg_inv msg_later
proof
  fix op db assume "msg_inv db"
  then show "msg_inv (msg_exec op db)"
    by (cases op) (auto intro: SendMessage_inv ReadInbox_inv UpdateInboxState_inv ClaimMessages_inv
        MarkDone_inv MarkFailed_inv failTimedOutProcessing_inv)
next
  fix op db assume "msg_inv db"
  then show "msg_later db (msg_exec op db)"
    by (cases op) (auto simp: ReadInbox_def Let_def intro: SendMessage_later mark_read_later
        UpdateInboxState_later ClaimMessages_later MarkDone_later MarkFailed_later
        failTimedOutProcessing_later)
qed (auto intro: msg_later_trans)

section \<open>Interleaved sessions\<close>

text \<open>Where a session stands between two of its statements.\<close>

datatype session =
    Idle
  | ClaimSelected string "id64 list"
  | ClaimUpdated string "id64 list"
  | Received string "Message list"
  | MarkChecked id64 string message_status "json option"
  | StaleSelected int "id64 list"

type_synonym world = "msg_db \<times> (nat \<Rightarrow> session)"

inductive mstep :: "world \<Rightarrow> world \<Rightarrow> bool" where
  send: "mstep (db, ss) (snd (snd (SendMessage svc env now from to body opts db)), ss)"
| claim_select: "ss k = Idle \<Longrightarrow> claim_select a (default_limit 10 l) db = ids \<Longrightarrow> ids \<noteq> [] \<Longrightarrow>
    mstep (db, ss) (db, ss(k := ClaimSelected a ids))"
| claim_update: "ss k = ClaimSelected a ids \<Longrightarrow>
    mstep (db, ss) (claim_update now a ids db, ss(k := ClaimUpdated a ids))"
| claim_fetch: "ss k = ClaimUpdated a ids \<Longrightarrow>
    mstep (db, ss) (db, ss(k := Received a (claim_fetch ids db)))"
| mark_check_done: "ss k = Idle \<Longrightarrow> check_claim env db i a = Inr m \<Longrightarrow>
    mstep (db, ss) (db, ss(k := MarkChecked i a MDone None))"
| mark_check_failed: "ss k = Idle \<Longrightarrow> check_claim env db i a = Inr m \<Longrightarrow>
    merge_reason (msg_Metadata m) reason = Some meta \<Longrightarrow>
    mstep (db, ss) (db, ss(k := MarkChecked i a MFailed (Some meta)))"
| mark_update: "ss k = MarkChecked i a st meta \<Longrightarrow>
    mstep (db, ss) (snd (UpdateMessageStatus env now i st a meta db), ss(k := Idle))"
| stale_select: "ss k = Idle \<Longrightarrow>
    mstep (db, ss) (db, ss(k := StaleSelected cutoff (stale_select cutoff db)))"
| stale_update: "ss k = StaleSelected cutoff (i # is) \<Longrightarrow>
    mstep (db, ss) (snd (stale_update now cutoff i db), ss(k := StaleSelected cutoff is))"
| finish: "ss k = Received a ms \<or> ss k = StaleSelected cutoff [] \<Longrightarrow> mstep (db, ss) (db, ss(k := Idle))"

inductive_cases mstep_cases: "mstep (db, ss) (db', ss')"

text \<open>What a session may rely on: rows it has selected are addressed to its agent.\<close>

definition addressed :: "msg_db \<Rightarrow> string \<Rightarrow> id64 list \<Rightarrow> bool" where
  "addressed db a ids \<longleftrightarrow> (\<forall>i \<in> set ids. \<exists>m \<in> set (md_msgs db). msg_ID m = i \<and> msg_ToAgent m = Some a)"

definition session_ok :: "msg_db \<Rightarrow> session \<Rightarrow> bool" where
  "session_ok db s \<longleftrightarrow>
     (case s of
        ClaimSelected a ids \<Rightarrow> addressed db a ids
      | ClaimUpdated a ids \<Rightarrow> addressed db a ids
      | Received a ms \<Rightarrow> \<forall>m \<in> set ms. msg_ToAgent m = Some a
      | MarkChecked i a st meta \<Rightarrow> st \<noteq> MPending
      | _ \<Rightarrow> True)"

definition world_inv :: "world \<Rightarrow> bool" where
  "world_inv w \<longleftrightarrow> msg_inv (fst w) \<and> (\<forall>k. session_ok (fst w) (snd w k))"

lemma addressed_later: "addressed db a ids \<Longrightarrow> msgs_later claim_kept db db' \<Longrightarrow> addressed db' a ids"
  unfolding addressed_def
proof
  fix i assume "\<forall>i\<in>set ids. \<exists>m\<in>set (md_msgs db). msg_ID m = i \<and> msg_ToAgent m = Some a"
    and later: "msgs_later claim_kept db db'" and "i \<in> set ids"
  then obtain m where m: "m \<in> set (md_msgs db)" "msg_ID m = i" "msg_ToAgent m = Some a" by blast
  with later obtain m' where "m' \<in> set (md_msgs db')" "claim_kept m m'" by (auto simp: msgs_later_def)
  with m show "\<exists>m\<in>set (md_msgs db'). msg_ID m = i \<and> msg_ToAgent m = Some a"
    by (intro bexI [of _ m']) (auto simp: claim_kept_def content_def)
qed

lemma session_ok_later: "session_ok db s \<Longrightarrow> msgs_later claim_kept db db' \<Longrightarrow> session_ok db' s"
  by (auto simp: session_ok_def addressed_later split: session.splits)

lemma addressed_rows:
  "msg_inv db \<Longrightarrow> addressed db a ids \<Longrightarrow> m \<in> set (md_msgs db) \<Longrightarrow> msg_ID m \<in> set ids \<Longrightarrow> msg_ToAgent m = Some a"
  by (fastforce simp: addressed_def msg_inv_def dest: ids_ok_unique)

lemma claim_kept_refl [simp]: "claim_kept m m"
  by (simp add: claim_kept_def)

lemma later_kept: "msg_later db db' \<Longrightarrow> msgs_later claim_kept db db'"
  unfolding msg_later_def msgs_later_def message_later_def by blast

lemma UpdateMessageStatus_kept:
  "msgs_later claim_kept db (snd (UpdateMessageStatus env now i st a meta db))"
  by (simp add: UpdateMessageStatus_def Let_def msgs_later_refl)
    (auto intro!: msgs_later_update simp: claim_kept_def content_def)

lemma stale_update_kept: "msgs_later claim_kept db (snd (stale_update now cutoff i db))"
  by (auto simp: stale_update_def Let_def claim_kept_def content_def fail_row_def intro!: msgs_later_update)

lemma stale_update_inv:
  assumes "msg_inv db" shows "msg_inv (snd (stale_update now cutoff i db))"
proof -
  have "msg_inv (db\<lparr>md_msgs := update_where (\<lambda>m. msg_ID m = i \<and> timed_out cutoff m) (fail_row now) (md_msgs db)\<rparr>)"
  proof (rule msg_inv_update [OF assms])
    fix m assume "m \<in> set (md_msgs db)" "msg_ID m = i \<and> timed_out cutoff m"
    with assms show "claim_ok (fail_row now m)"
      by (auto simp: msg_inv_def claim_ok_def fail_row_def timed_out_def)
  qed (simp add: content_def fail_row_def)
  then show ?thesis by (simp add: stale_update_def Let_def)
qed

text \<open>One step of a session: the database changes to \<open>db'\<close>, the session moves to \<open>s\<close>.\<close>

lemma world_step:
  assumes "world_inv (db, ss)" and "msg_inv db'" and kept: "msgs_later claim_kept db db'"
    and "session_ok db' s"
  shows "world_inv (db', ss(k := s))" and "world_inv (db', ss)"
  using assms session_ok_later [OF _ kept] by (auto simp: world_inv_def)

lemma world_session: "world_inv (db, ss) \<Longrightarrow> ss k = s \<Longrightarrow> session_ok db s"
  by (auto simp: world_inv_def)

lemma claim_select_addressed: "addressed db a (claim_select a l db)"
  by (auto simp: addressed_def claim_select_def dest!: subsetD [OF set_limit_offset])

lemma same_kept [simp]: "msgs_later claim_kept db db"
  by (simp add: msgs_later_refl)

text \<open>Every step keeps the invariant, and the owner of every claim.\<close>

lemma mstep_kept:
  assumes "mstep w w'" and "world_inv w"
  shows "world_inv w' \<and> msgs_later claim_kept (fst w) (fst w')"
  using assms(1)
proof (cases rule: mstep.cases)
  case (send db ss svc env now "from" to body opts)
  with assms(2) world_step(2) [of db ss _ Idle] show ?thesis
    by (simp add: later_kept [OF SendMessage_later] SendMessage_inv world_inv_def session_ok_def)
next
  case (claim_select ss k a l db ids)
  then have "session_ok db (ClaimSelected a ids)"
    using claim_select_addressed by (auto simp: session_ok_def)
  with claim_select assms(2) world_step(1) [of db ss db] show ?thesis by (simp add: world_inv_def)
next
  case (claim_update ss k a ids db now)
  with assms(2) have inv: "msg_inv db" by (simp add: world_inv_def)
  from claim_update assms(2) have ok: "addressed db a ids"
    using world_session [of db ss k] by (simp add: session_ok_def)
  note kept = later_kept [OF claim_update_later [OF inv, of now a ids]]
  have "msg_inv (Messaging.claim_update now a ids db)"
    using inv ok by (intro claim_update_inv) (auto intro: addressed_rows)
  moreover have "session_ok (Messaging.claim_update now a ids db) (ClaimUpdated a ids)"
    using addressed_later [OF ok kept] by (simp add: session_ok_def)
  ultimately show ?thesis using claim_update assms(2) world_step(1) [OF _ _ kept] kept by simp
next
  case (claim_fetch ss k a ids db)
  with assms(2) have inv: "msg_inv db" by (simp add: world_inv_def)
  from claim_fetch assms(2) have ok: "addressed db a ids"
    using world_session [of db ss k] by (simp add: session_ok_def)
  have "session_ok db (Received a (Messaging.claim_fetch ids db))"
    using addressed_rows [OF inv ok] by (auto simp: session_ok_def claim_fetch_def)
  with claim_fetch assms(2) inv world_step(1) [of db ss db] show ?thesis by simp
next
  case (mark_update ss k i a st meta db env now)
  with assms(2) have "st \<noteq> MPending" "msg_inv db"
    using world_session [of db ss k] by (simp_all add: session_ok_def world_inv_def)
  with mark_update assms(2) world_step(1) [OF _ UpdateMessageStatus_inv UpdateMessageStatus_kept]
  show ?thesis by (simp add: UpdateMessageStatus_kept session_ok_def)
next
  case (stale_update ss k cutoff i "is" db now)
  with assms(2) have w: "world_inv (db, ss)" and inv: "msg_inv db" by (simp_all add: world_inv_def)
  from world_step(1) [OF w stale_update_inv [OF inv] stale_update_kept] stale_update show ?thesis
    by (simp add: stale_update_kept session_ok_def)
qed (use assms(2) world_step(1) [of _ _ _ Idle] world_step(1) [of _ _ _ "MarkChecked _ _ _ _"] in
    \<open>auto simp: world_inv_def session_ok_def\<close>)

lemma msteps_kept:
  "mstep\<^sup>*\<^sup>* w w' \<Longrightarrow> world_inv w \<Longrightarrow> world_inv w' \<and> msgs_later claim_kept (fst w) (fst w')"
proof (induction rule: rtranclp_induct)
  case (step y z)
  have "claim_kept l n" if "claim_kept l m" "claim_kept m n" for l m n
    using that by (auto simp: claim_kept_def)
  with step mstep_kept [OF step.hyps(2)] show ?case using msgs_later_trans [of claim_kept] by blast
qed simp

section \<open>Properties\<close>

text \<open>
  Whatever sequence of operations runs on an empty database, every message has one
  destination, an existing conversation, a priority from 1 to 10, a body that is not blank
  and, if it is a reply, an earlier message it replies to; and it is claimed exactly when it
  is no longer pending, by its recipient.
\<close>

theorem message_invariant: "msg_inv (fold msg_exec ops msg_empty)"
  by (rule ml.run_inv [OF msg_empty_inv])



text \<open>
  C1. No message is handed out twice by claims that run one after the other: if a claim
  returns messages and, any operations later, another claim by any agent returns messages,
  the two have no message in common.
\<close>

theorem claims_disjoint:
  assumes "msg_inv db" and "ClaimMessages env now a l db = (Inr ms, db')"
    and "ClaimMessages env' now' a' l' (fold msg_exec ops db') = (Inr ms', db'')"
  shows "msg_ID ` set ms \<inter> msg_ID ` set ms' = {}"
proof (rule ccontr)
  assume "msg_ID ` set ms \<inter> msg_ID ` set ms' \<noteq> {}"
  then obtain m m' where m: "m \<in> set ms" "m' \<in> set ms'" "msg_ID m = msg_ID m'" by auto
  let ?mid = "fold msg_exec ops db'"
  have nf: "\<not> en_flt env SQuery" "\<not> en_flt env' SQuery"
    using assms(2,3) by (auto simp: ClaimMessages_def split: if_splits)
  have inv': "msg_inv db'" using ClaimMessages_inv [OF assms(1), of env now a l] assms(2) by simp
  then have invm: "msg_inv ?mid" by (rule ml.run_inv)
  have "m \<in> set (md_msgs db') \<and> msg_Status m = MProcessing"
    using m(1) ClaimMessages_stored [OF assms(2)] assms(2) ClaimMessages_eq [OF assms(1) nf(1), of now a l]
    by (auto simp: claim_row_def)
  moreover obtain x where x: "x \<in> set (md_msgs ?mid)" "msg_Status x = MPending" "msg_ID x = msg_ID m'"
    using m(2) assms(3) ClaimMessages_eq [OF invm nf(2), of now' a' l']
    by (auto simp: claim_row_def pending_for_def dest!: in_set_takeD)
  ultimately obtain y where y: "y \<in> set (md_msgs ?mid)" "message_later m y" "msg_Status m = MProcessing"
    using ml.run_later [OF inv', of ops] by (auto simp: msg_later_def msgs_later_def)
  then have "y = x"
    using x m(3) invm by (auto simp: message_later_def claim_kept_def content_def msg_inv_def dest: ids_ok_unique)
  moreover have "msg_rank (msg_Status m) \<le> msg_rank (msg_Status y)"
    using y(2) msg_status.path_rank [of "msg_Status m" "msg_Status y"]
    by (auto simp: message_later_def dest: rtranclpD)
  ultimately show False using x(2) y(3) by simp
qed

theorem claims_disjoint_witness:
  "\<exists>ms ms'. fst (ClaimMessages example_env 20 ''bob'' 1 example_inbox) = Inr ms \<and>
     fst (ClaimMessages example_env 21 ''bob'' 1 claimed_inbox) = Inr ms' \<and> ms \<noteq> [] \<and> ms' \<noteq> [] \<and>
     msg_ID ` set ms \<inter> msg_ID ` set ms' = {}"
proof -
  let ?r = "ClaimMessages example_env 20 ''bob'' 1 example_inbox"
  let ?q = "ClaimMessages example_env 21 ''bob'' 1 claimed_inbox"
  have "case fst ?r of Inr ms \<Rightarrow> ms \<noteq> [] | _ \<Rightarrow> False" "case fst ?q of Inr ms \<Rightarrow> ms \<noteq> [] | _ \<Rightarrow> False"
    by code_simp+
  then obtain ms ms' where f: "fst ?r = Inr ms" "ms \<noteq> []" "fst ?q = Inr ms'" "ms' \<noteq> []"
    by (auto split: sum.splits)
  then have r: "?r = (Inr ms, claimed_inbox)" and q: "?q = (Inr ms', snd ?q)"
    by (simp_all add: claimed_inbox_def prod_eq_iff)
  from claims_disjoint [OF example_inbox_inv r, of example_env 21 "''bob''" 1 "[]" ms' "snd ?q"] q f
  show ?thesis by auto
qed


text \<open>Two sessions of one agent claim at the same time.\<close>

definition two_claims :: "msg_db \<times> Message list \<times> Message list" where
  "two_claims =
     (let ids = claim_select ''bob'' 1 example_inbox;
          db1 = claim_update 20 ''bob'' ids example_inbox;
          db2 = claim_update 21 ''bob'' ids db1
      in (db2, claim_fetch ids db1, claim_fetch ids db2))"

text \<open>The sessions of a world in which only the first two do anything.\<close>

definition two :: "session \<Rightarrow> session \<Rightarrow> nat \<Rightarrow> session" where
  "two s t k = (if k = 1 then s else if k = 2 then t else Idle)"

lemma two_simps [simp]:
  "two s t 1 = s" "two s t (Suc 0) = s" "two s t 2 = t"
  "(two s t)(1 := u) = two u t" "(two s t)(Suc 0 := u) = two u t" "(two s t)(2 := u) = two s u"
  by (auto simp: two_def)

lemma two_idle: "(\<lambda>_. Idle) = two Idle Idle"
  by (auto simp: two_def)

lemmas mstep_then = converse_rtranclp_into_rtranclp [where r = mstep]
lemmas mstep_last = r_into_rtranclp [where r = mstep]

lemma two_claims_run:
  assumes "two_claims = (db2, ms1, ms2)"
  shows "mstep\<^sup>*\<^sup>* (example_inbox, \<lambda>_. Idle) (db2, two (Received ''bob'' ms1) (Received ''bob'' ms2))"
proof -
  define ids where "ids = claim_select ''bob'' (default_limit 10 1) example_inbox"
  define db1 where "db1 = claim_update 20 ''bob'' ids example_inbox"
  have ids: "ids \<noteq> []" unfolding ids_def by code_simp
  have db2: "db2 = claim_update 21 ''bob'' ids db1" and ms: "ms1 = claim_fetch ids db1" "ms2 = claim_fetch ids db2"
    using assms by (auto simp: two_claims_def ids_def db1_def default_limit_def Let_def)
  let ?sel = "ClaimSelected ''bob'' ids" and ?upd = "ClaimUpdated ''bob'' ids"
  note sel = ids_def [symmetric]
  have s1: "mstep (example_inbox, two Idle Idle) (example_inbox, two ?sel Idle)"
    using mstep.claim_select [OF _ sel ids, of "two Idle Idle" 1] by simp
  have s2: "mstep (example_inbox, two ?sel Idle) (example_inbox, two ?sel ?sel)"
    using mstep.claim_select [OF _ sel ids, of "two ?sel Idle" 2] by simp
  have s3: "mstep (example_inbox, two ?sel ?sel) (db1, two ?upd ?sel)"
    using mstep.claim_update [of "two ?sel ?sel" 1 "''bob''" ids example_inbox 20] by (simp add: db1_def)
  have s4: "mstep (db1, two ?upd ?sel) (db1, two (Received ''bob'' ms1) ?sel)"
    using mstep.claim_fetch [of "two ?upd ?sel" 1 "''bob''" ids db1] by (simp add: ms)
  have s5: "mstep (db1, two (Received ''bob'' ms1) ?sel) (db2, two (Received ''bob'' ms1) ?upd)"
    using mstep.claim_update [of "two (Received ''bob'' ms1) ?sel" 2 "''bob''" ids db1 21] by (simp add: db2)
  have s6: "mstep (db2, two (Received ''bob'' ms1) ?upd) (db2, two (Received ''bob'' ms1) (Received ''bob'' ms2))"
    using mstep.claim_fetch [of "two (Received ''bob'' ms1) ?upd" 2 "''bob''" ids db2] by (simp add: ms)
  show ?thesis unfolding two_idle
    by (rule mstep_then [OF s1 mstep_then [OF s2 mstep_then [OF s3 mstep_then [OF s4
        mstep_then [OF s5 mstep_last [OF s6]]]]]])
qed


text \<open>
  Two concurrent claims of one agent can both receive the same message: the row is updated
  by the first only, but the second fetches the ids it had selected whether or not its update
  changed them.
\<close>

theorem concurrent_claims_share:
  "\<exists>db ss m. mstep\<^sup>*\<^sup>* (example_inbox, \<lambda>_. Idle) (db, ss) \<and>
     ss 1 = Received ''bob'' [m] \<and> ss 2 = Received ''bob'' [m] \<and> msg_Body m = ''urgent''"
proof -
  have "case two_claims of (db, [m], [n]) \<Rightarrow> m = n \<and> msg_Body m = ''urgent'' | _ \<Rightarrow> False" by code_simp
  then obtain db m where "two_claims = (db, [m], [m])" "msg_Body m = ''urgent''"
    by (auto split: prod.splits list.splits)
  with two_claims_run [OF this(1)] two_simps(1,3) show ?thesis by metis
qed

text \<open>
  An acknowledgement can bring a failed message back: the status and the owner are checked
  by one statement and the status is written by another, which asks for the owner only. When
  the stalemate worker fails the message between the two, the message ends as done, which
  the status machine does not allow.
\<close>

theorem late_acknowledgement_revives:
  "\<exists>db db' ss ss' m m'. mstep\<^sup>*\<^sup>* (claimed_inbox, \<lambda>_. Idle) (db, ss) \<and> mstep (db, ss) (db', ss') \<and>
     m \<in> set (md_msgs db) \<and> m' \<in> set (md_msgs db') \<and> content m' = content m \<and>
     msg_Status m = MFailed \<and> msg_Status m' = MDone"
proof -
  define c where "c = 100000 * second"
  define db where "db = snd (stale_update 200000 c 2 claimed_inbox)"
  let ?chk = "MarkChecked 2 ''bob'' MDone None"
  have "\<not> isl (check_claim example_env claimed_inbox 2 ''bob'')" by code_simp
  then obtain m where chk: "check_claim example_env claimed_inbox 2 ''bob'' = Inr m"
    by (metis isl_def sum.exhaust)
  have sel: "stale_select c claimed_inbox = [2]" unfolding c_def by code_simp
  have s1: "mstep (claimed_inbox, two Idle Idle) (claimed_inbox, two ?chk Idle)"
    using mstep.mark_check_done [OF _ chk, of "two Idle Idle" 1] by simp
  have s2: "mstep (claimed_inbox, two ?chk Idle) (claimed_inbox, two ?chk (StaleSelected c [2]))"
    using mstep.stale_select [of "two ?chk Idle" 2 claimed_inbox c] sel by simp
  have s3: "mstep (claimed_inbox, two ?chk (StaleSelected c [2])) (db, two ?chk (StaleSelected c []))"
    using mstep.stale_update [of "two ?chk (StaleSelected c [2])" 2 c 2 "[]" claimed_inbox 200000]
    by (simp add: db_def)
  have run: "mstep\<^sup>*\<^sup>* (claimed_inbox, \<lambda>_. Idle) (db, two ?chk (StaleSelected c []))"
    unfolding two_idle by (rule mstep_then [OF s1 mstep_then [OF s2 mstep_last [OF s3]]])
  let ?db' = "snd (UpdateMessageStatus example_env 200001 2 MDone ''bob'' None db)"
  have "mstep (db, two ?chk (StaleSelected c [])) (?db', (two ?chk (StaleSelected c []))(1 := Idle))"
    by (rule mstep.mark_update) simp
  moreover have "msg_Status (last (md_msgs db)) = MFailed \<and> msg_Status (last (md_msgs ?db')) = MDone \<and>
      content (last (md_msgs ?db')) = content (last (md_msgs db)) \<and> md_msgs db \<noteq> [] \<and> md_msgs ?db' \<noteq> []"
    unfolding db_def c_def by code_simp
  ultimately show ?thesis using run last_in_set by blast
qed

end
