(* ===== verification/Trust.thy ===== *)
theory Trust
  imports Prelude Complex_Main
begin

text \<open>
  \<open>internal/trust\<close>: the scores per agent and action (\<open>model.go\<close>, \<open>store.go\<close>, \<open>service.go\<close>),
  the reputation ledger (\<open>ledger.go\<close>), delegation (\<open>delegation.go\<close>) and the configuration
  hash (\<open>config_hash.go\<close>). Scores are exact rationals: the rounding of \<open>float64\<close> is not
  modelled. SQLite's \<open>exp\<close> and SHA-256 are arguments.
\<close>

section \<open>Scores\<close>

definition ApprovalIncrement :: rat where
  "ApprovalIncrement = 5 / 100"

definition RejectionDecrement :: rat where
  "RejectionDecrement = 10 / 100"

record TrustScore =
  ts_ID :: id64
  ts_AgentName :: string
  ts_ActionType :: string
  ts_Score :: rat
  ts_AdjustmentsCount :: nat
  ts_LastAdjustedAt :: "timestamp option"
  ts_CreatedAt :: timestamp

record trust_db =
  tr_rows :: "TrustScore list"
  tr_seq :: id64

definition ClampScore :: "rat \<Rightarrow> rat" where
  "ClampScore score = (if score < 0 then 0 else if 1 < score then 1 else score)"

definition trust_key :: "string \<Rightarrow> string \<Rightarrow> TrustScore \<Rightarrow> bool" where
  "trust_key agentName actionType r \<longleftrightarrow> ts_AgentName r = agentName \<and> ts_ActionType r = actionType"

definition store_GetScore :: "trust_db \<Rightarrow> string \<Rightarrow> string \<Rightarrow> TrustScore" where
  "store_GetScore db agentName actionType =
     (case find_row (trust_key agentName actionType) (tr_rows db) of
        Some r \<Rightarrow> r
      | None \<Rightarrow> \<lparr>ts_ID = 0, ts_AgentName = agentName, ts_ActionType = actionType, ts_Score = 0,
                 ts_AdjustmentsCount = 0, ts_LastAdjustedAt = None, ts_CreatedAt = 0\<rparr>)"

definition GetAllScores :: "trust_db \<Rightarrow> string \<Rightarrow> TrustScore list" where
  "GetAllScores db agentName =
     sort_key ts_ActionType (filter (\<lambda>r. ts_AgentName r = agentName) (tr_rows db))"

text \<open>The upsert with SQL's \<open>MAX(0.0, MIN(1.0, ...))\<close>.\<close>

definition UpsertScore ::
  "bool \<Rightarrow> timestamp \<Rightarrow> string \<Rightarrow> string \<Rightarrow> rat \<Rightarrow> trust_db \<Rightarrow> (string + TrustScore) \<times> trust_db" where
  "UpsertScore fails now agentName actionType delta db =
     (if fails then (Inl ''upsert trust score'', db)
      else let db' =
          (if rows_affected (trust_key agentName actionType) (tr_rows db) = 0
           then db\<lparr>tr_rows := tr_rows db @
                  [\<lparr>ts_ID = tr_seq db + 1, ts_AgentName = agentName, ts_ActionType = actionType,
                    ts_Score = max 0 (min 1 delta), ts_AdjustmentsCount = 1,
                    ts_LastAdjustedAt = Some now, ts_CreatedAt = now\<rparr>], tr_seq := tr_seq db + 1\<rparr>
           else db\<lparr>tr_rows := update_where (trust_key agentName actionType)
                  (\<lambda>r. r\<lparr>ts_Score := max 0 (min 1 (ts_Score r + delta)),
                         ts_AdjustmentsCount := ts_AdjustmentsCount r + 1,
                         ts_LastAdjustedAt := Some now\<rparr>) (tr_rows db)\<rparr>)
        in (Inr (store_GetScore db' agentName actionType), db'))"

definition RecordApproval ::
  "bool \<Rightarrow> timestamp \<Rightarrow> string \<Rightarrow> string \<Rightarrow> trust_db \<Rightarrow> (string + TrustScore) \<times> trust_db" where
  "RecordApproval fails now agentName actionType db =
     UpsertScore fails now agentName actionType ApprovalIncrement db"

definition RecordRejection ::
  "bool \<Rightarrow> timestamp \<Rightarrow> string \<Rightarrow> string \<Rightarrow> trust_db \<Rightarrow> (string + TrustScore) \<times> trust_db" where
  "RecordRejection fails now agentName actionType db =
     UpsertScore fails now agentName actionType (- RejectionDecrement) db"

definition GetScores :: "trust_db \<Rightarrow> string \<Rightarrow> (string \<times> rat) list" where
  "GetScores db agentName = map (\<lambda>r. (ts_ActionType r, ts_Score r)) (GetAllScores db agentName)"

definition GetScore :: "trust_db \<Rightarrow> string \<Rightarrow> string \<Rightarrow> rat" where
  "GetScore db agentName actionType = ts_Score (store_GetScore db agentName actionType)"

definition CheckAutonomy :: "trust_db \<Rightarrow> string \<Rightarrow> string \<Rightarrow> rat \<Rightarrow> bool \<times> rat" where
  "CheckAutonomy db agentName actionType threshold =
     (let score = GetScore db agentName actionType in (threshold \<le> score, score))"

section \<open>The reputation ledger\<close>

record Evidence =
  re_ID :: id64
  re_ConfigHash :: string
  re_OwnerUserID :: id64
  re_TaskDomain :: string
  re_ScoreDelta :: rat
  re_Weight :: rat
  re_EvidenceRef :: string
  re_CreatedAt :: "timestamp option"

record ledger_db =
  re_rows :: "Evidence list"
  re_seq :: id64
  re_users :: "id64 list"

definition default_domain :: "string \<Rightarrow> string" where
  "default_domain d = (if d = '''' then ''default'' else d)"

definition ledger_Append :: "timestamp \<Rightarrow> Evidence \<Rightarrow> ledger_db \<Rightarrow> (string + id64) \<times> ledger_db" where
  "ledger_Append now ev db =
     (if re_OwnerUserID ev \<notin> set (re_users db) then (Inl ''append evidence'', db)
      else let i = re_seq db + 1;
               row = ev\<lparr>re_ID := i, re_TaskDomain := default_domain (re_TaskDomain ev),
                        re_Weight := (if re_Weight ev = 0 then 1 else re_Weight ev),
                        re_CreatedAt := (case re_CreatedAt ev of None \<Rightarrow> Some now | Some t \<Rightarrow> Some t)\<rparr>
        in (Inr i, db\<lparr>re_rows := re_rows db @ [row], re_seq := i\<rparr>))"

definition clamp01 :: "rat \<Rightarrow> rat" where
  "clamp01 score = (let s = (if score < 0 then 0 else score) in if 1 < s then 1 else s)"

text \<open>
  \<open>decay x\<close> stands for \<open>exp(-ln 2 * x)\<close>, where \<open>x\<close> is the age of the evidence in half-lives.
\<close>

definition evidence_of :: "string \<Rightarrow> string \<Rightarrow> ledger_db \<Rightarrow> Evidence list" where
  "evidence_of configHash taskDomain db =
     filter (\<lambda>e. re_ConfigHash e = configHash \<and> re_TaskDomain e = taskDomain) (re_rows db)"

definition decayed :: "(rat \<Rightarrow> rat) \<Rightarrow> timestamp \<Rightarrow> rat \<Rightarrow> Evidence \<Rightarrow> rat" where
  "decayed decay now halfLifeDays e =
     re_ScoreDelta e * re_Weight e *
       decay ((case re_CreatedAt e of None \<Rightarrow> 0 | Some t \<Rightarrow> of_int (now - t) / 86400) / halfLifeDays)"

definition RollingScore ::
  "(rat \<Rightarrow> rat) \<Rightarrow> timestamp \<Rightarrow> ledger_db \<Rightarrow> string \<Rightarrow> string \<Rightarrow> rat \<Rightarrow> rat \<times> nat" where
  "RollingScore decay now db configHash taskDomain halfLifeDays =
     (let hl = (if halfLifeDays \<le> 0 then 30 else halfLifeDays);
          rows = evidence_of configHash (default_domain taskDomain) db
      in if rows = [] then (1 / 2, 0)
         else (clamp01 (sum_list (map (decayed decay now hl) rows)), length rows))"

definition SeedFromParent ::
  "(rat \<Rightarrow> rat) \<Rightarrow> timestamp \<Rightarrow> string \<Rightarrow> string \<Rightarrow> id64 \<Rightarrow> string \<Rightarrow> rat \<Rightarrow> ledger_db \<Rightarrow>
   (string + unit) \<times> ledger_db" where
  "SeedFromParent decay now parentHash childHash ownerID taskDomain halfLifeDays db =
     (let parentScore = fst (RollingScore decay now db parentHash taskDomain halfLifeDays)
      in case ledger_Append now
               \<lparr>re_ID = 0, re_ConfigHash = childHash, re_OwnerUserID = ownerID,
                re_TaskDomain = taskDomain, re_ScoreDelta = 7 / 10 * parentScore, re_Weight = 1,
                re_EvidenceRef = ''seed_from_parent:'' @ parentHash, re_CreatedAt = None\<rparr> db of
           (Inl e, db') \<Rightarrow> (Inl e, db')
         | (Inr _, db') \<Rightarrow> (Inr (), db'))"

section \<open>Delegation\<close>

definition TierSupervised :: string where "TierSupervised = ''supervised''"
definition TierAssisted :: string where "TierAssisted = ''assisted''"
definition TierAutonomous :: string where "TierAutonomous = ''autonomous''"

definition tierRank :: "string \<Rightarrow> int option" where
  "tierRank t =
     (if t = TierSupervised then Some 1 else if t = TierAssisted then Some 2
      else if t = TierAutonomous then Some 3 else None)"

record Grant =
  gr_AutonomyTier :: string
  gr_ToolScope :: "string list"
  gr_BudgetTokens :: int
  gr_BudgetDollarsCents :: int
  gr_SpawnDepth :: int

datatype violation =
    UnknownTier string
  | TierExceeds string string
  | ToolNotInScope string
  | BudgetExceeds string int int
  | BudgetNegative string int
  | DepthExceeds int int

definition rank_or_supervised :: "string \<Rightarrow> int" where
  "rank_or_supervised t = (case tierRank t of None \<Rightarrow> 1 | Some r \<Rightarrow> r)"

definition capBudget :: "string \<Rightarrow> int \<Rightarrow> int \<Rightarrow> violation list \<times> int" where
  "capBudget label parent proposed =
     (if parent = 0 then
        (if proposed < 0 then ([BudgetNegative label proposed], 0) else ([], proposed))
      else if proposed = 0 then ([], parent)
      else if parent < proposed then ([BudgetExceeds label proposed parent], parent)
      else if proposed < 0 then ([BudgetNegative label proposed], 0)
      else ([], proposed))"

definition capTier :: "string \<Rightarrow> string \<Rightarrow> violation list \<times> string" where
  "capTier parent proposed =
     (let v1 = (if tierRank proposed = None then [UnknownTier proposed] else [])
      in if rank_or_supervised parent < rank_or_supervised proposed
         then (v1 @ [TierExceeds proposed parent], parent) else (v1, proposed))"

definition capTools :: "string list \<Rightarrow> string list \<Rightarrow> violation list \<times> string list" where
  "capTools parent proposed =
     (map ToolNotInScope (sort (filter (\<lambda>t. t \<notin> set parent) proposed)),
      sort (filter (\<lambda>t. t \<in> set parent) proposed))"

definition DelegationCap :: "Grant \<Rightarrow> Grant \<Rightarrow> int \<Rightarrow> Grant \<times> violation list" where
  "DelegationCap parent proposed maxDepth =
     (let (v1, tier) = capTier (gr_AutonomyTier parent) (gr_AutonomyTier proposed);
          (v2, tools) = capTools (gr_ToolScope parent) (gr_ToolScope proposed);
          (v3, tokens) = capBudget ''budget_tokens'' (gr_BudgetTokens parent) (gr_BudgetTokens proposed);
          (v4, cents) = capBudget ''budget_dollars_cents'' (gr_BudgetDollarsCents parent)
                          (gr_BudgetDollarsCents proposed);
          depth = gr_SpawnDepth parent + 1;
          v5 = (if maxDepth < depth then [DepthExceeds depth maxDepth] else [])
      in (\<lparr>gr_AutonomyTier = tier, gr_ToolScope = tools, gr_BudgetTokens = tokens,
           gr_BudgetDollarsCents = cents, gr_SpawnDepth = depth\<rparr>, v1 @ v2 @ v3 @ v4 @ v5))"

section \<open>Configuration hash\<close>

record MCPServerRef =
  mc_Name :: string
  mc_URL :: string
  mc_Transport :: string

record AgentConfig =
  ac_Model :: string
  ac_SystemPrompt :: string
  ac_ToolScope :: "string list"
  ac_Skills :: "string list"
  ac_Subagents :: "string list"
  ac_MCPServers :: "MCPServerRef list"

text \<open>
  The canonical value that is encoded: keys in alphabetical order; an empty copy of a string
  slice is nil and encodes as \<open>null\<close>. \<open>encode\<close> and \<open>sha256\<close> are \<open>json.Marshal\<close> and the hash.
\<close>

definition json_strings :: "string list \<Rightarrow> json" where
  "json_strings ss = (if ss = [] then JNull else JArr (map JStr (sort ss)))"

definition server_json :: "MCPServerRef \<Rightarrow> json" where
  "server_json s = JObj [(''name'', JStr (mc_Name s)), (''transport'', JStr (mc_Transport s)),
     (''url'', JStr (mc_URL s))]"

definition canonical_config :: "AgentConfig \<Rightarrow> json" where
  "canonical_config cfg = JObj
     [(''mcp_servers'', JArr (map server_json (sort_key mc_Name (ac_MCPServers cfg)))),
      (''model'', JStr (ac_Model cfg)), (''skills'', json_strings (ac_Skills cfg)),
      (''subagents'', json_strings (ac_Subagents cfg)),
      (''system_prompt'', JStr (ac_SystemPrompt cfg)), (''tool_scope'', json_strings (ac_ToolScope cfg))]"

definition ConfigHash :: "(json \<Rightarrow> string) \<Rightarrow> (string \<Rightarrow> string) \<Rightarrow> AgentConfig \<Rightarrow> string" where
  "ConfigHash encode sha256 cfg = sha256 (encode (canonical_config cfg))"

section \<open>Scores stay within bounds\<close>

definition trust_inv :: "trust_db \<Rightarrow> bool" where
  "trust_inv db \<longleftrightarrow> ids_ok ts_ID (tr_seq db) (tr_rows db) \<and>
     distinct (map (\<lambda>r. (ts_AgentName r, ts_ActionType r)) (tr_rows db)) \<and>
     (\<forall>r \<in> set (tr_rows db). 0 \<le> ts_Score r \<and> ts_Score r \<le> 1)"

definition trust_empty :: trust_db where
  "trust_empty = \<lparr>tr_rows = [], tr_seq = 0\<rparr>"

lemma trust_empty_inv: "trust_inv trust_empty"
  by (simp add: trust_inv_def trust_empty_def)

lemma clamp_sql: "max 0 (min 1 x) = ClampScore x"
  by (auto simp: ClampScore_def max_def min_def)

lemma ClampScore_range: "0 \<le> ClampScore x \<and> ClampScore x \<le> 1"
  by (simp add: ClampScore_def)

lemma UpsertScore_inv:
  assumes "trust_inv db" shows "trust_inv (snd (UpsertScore fails now a t d db))"
proof (cases "rows_affected (trust_key a t) (tr_rows db) = 0")
  case True
  then have "(a, t) \<notin> (\<lambda>r. (ts_AgentName r, ts_ActionType r)) ` set (tr_rows db)"
    by (auto simp: trust_key_def)
  with True assms show ?thesis
    using ids_ok_append [of ts_ID "tr_seq db" "tr_rows db"] ClampScore_range
    by (auto simp: UpsertScore_def Let_def trust_inv_def clamp_sql)
next
  case False
  let ?f = "\<lambda>r. r\<lparr>ts_Score := max 0 (min 1 (ts_Score r + d)),
      ts_AdjustmentsCount := ts_AdjustmentsCount r + 1, ts_LastAdjustedAt := Some now\<rparr>"
  have "ids_ok ts_ID (tr_seq db) (update_where (trust_key a t) ?f (tr_rows db))"
    using assms by (simp add: trust_inv_def ids_ok_update_where)
  moreover have "map (\<lambda>r. (ts_AgentName r, ts_ActionType r)) (update_where (trust_key a t) ?f (tr_rows db)) =
      map (\<lambda>r. (ts_AgentName r, ts_ActionType r)) (tr_rows db)"
    by (rule map_update_where) simp
  moreover have "0 \<le> ts_Score r \<and> ts_Score r \<le> 1" if "r \<in> set (update_where (trust_key a t) ?f (tr_rows db))" for r
    using that assms ClampScore_range by (auto simp: in_update_where trust_inv_def clamp_sql split: if_splits)
  ultimately show ?thesis
    using False assms by (simp add: UpsertScore_def Let_def trust_inv_def del: rows_affected_0)
qed

text \<open>The abstract view: a score per agent and action, adjusted and clamped.\<close>

lemma GetScore_update:
  assumes "rows_affected (trust_key a t) rs \<noteq> 0"
    and "\<And>r. ts_AgentName (f r) = ts_AgentName r \<and> ts_ActionType (f r) = ts_ActionType r"
  shows "find_row (trust_key a' t') (update_where (trust_key a t) f rs) =
    map_option (\<lambda>r. if a' = a \<and> t' = t then f r else r) (find_row (trust_key a' t') rs)"
proof -
  have "trust_key a' t' (f r) = trust_key a' t' r" for r using assms(2) by (simp add: trust_key_def)
  then show ?thesis by (induction rs) (auto simp: trust_key_def assms(2))
qed

lemma UpsertScore_GetScore:
  "GetScore (snd (UpsertScore False now a t d db)) a' t' =
     (if a' = a \<and> t' = t then ClampScore (GetScore db a t + d) else GetScore db a' t')"
proof (cases "rows_affected (trust_key a t) (tr_rows db) = 0")
  case True
  then have none: "find_row (trust_key a t) (tr_rows db) = None" by simp
  obtain r where r: "ts_AgentName r = a" "ts_ActionType r = t" "ts_Score r = ClampScore d"
    "tr_rows (snd (UpsertScore False now a t d db)) = tr_rows db @ [r]"
    using True that [of "\<lparr>ts_ID = tr_seq db + 1, ts_AgentName = a, ts_ActionType = t,
      ts_Score = ClampScore d, ts_AdjustmentsCount = 1, ts_LastAdjustedAt = Some now, ts_CreatedAt = now\<rparr>"]
    by (simp add: UpsertScore_def clamp_sql Let_def)
  have "find_row (trust_key a' t') (tr_rows db @ [r]) =
      (if a' = a \<and> t' = t then Some r else find_row (trust_key a' t') (tr_rows db))"
    using none r(1,2) by (auto simp: find_row_append trust_key_def simp del: find_row_None split: option.splits)
  with none r show ?thesis
    by (simp add: GetScore_def store_GetScore_def del: find_row_None)
next
  case False
  then have "find_row (trust_key a t) (tr_rows db) \<noteq> None" by simp
  with False show ?thesis
    by (auto simp: GetScore_def store_GetScore_def UpsertScore_def Let_def clamp_sql GetScore_update
        simp del: rows_affected_0 find_row_None split: option.splits)
qed

datatype trust_op = OpApproval string string | OpRejection string string

fun trust_exec :: "trust_op \<Rightarrow> trust_db \<Rightarrow> trust_db" where
  "trust_exec (OpApproval a t) db = snd (RecordApproval False 0 a t db)"
| "trust_exec (OpRejection a t) db = snd (RecordRejection False 0 a t db)"

text \<open>The adjustments an operation makes to one score.\<close>

fun trust_delta :: "string \<Rightarrow> string \<Rightarrow> trust_op \<Rightarrow> rat list" where
  "trust_delta a t (OpApproval a' t') = (if a' = a \<and> t' = t then [1 / 20] else [])"
| "trust_delta a t (OpRejection a' t') = (if a' = a \<and> t' = t then [- 1 / 10] else [])"

interpretation trust_sys: invariant_system trust_exec trust_inv
proof
  fix op db assume "trust_inv db"
  then show "trust_inv (trust_exec op db)"
    by (cases op) (auto simp: RecordApproval_def RecordRejection_def UpsertScore_inv)
qed

lemma trust_exec_score:
  "GetScore (trust_exec op db) a t = fold (\<lambda>d s. ClampScore (s + d)) (trust_delta a t op) (GetScore db a t)"
  by (cases op) (auto simp: RecordApproval_def RecordRejection_def UpsertScore_GetScore
      ApprovalIncrement_def RejectionDecrement_def)

lemma trust_run_score:
  "GetScore (fold trust_exec ops db) a t =
     fold (\<lambda>d s. ClampScore (s + d)) (concat (map (trust_delta a t) ops)) (GetScore db a t)"
  by (induction ops arbitrary: db) (simp_all add: trust_exec_score)

section \<open>Delegation\<close>

lemma capBudget_ok: "fst (capBudget l parent proposed) = [] \<longleftrightarrow> 0 \<le> proposed \<and> (parent \<noteq> 0 \<longrightarrow> proposed \<le> parent \<or> proposed = 0)"
  by (auto simp: capBudget_def)

lemma capBudget_value:
  "fst (capBudget l parent proposed) = [] \<Longrightarrow>
     snd (capBudget l parent proposed) = (if parent \<noteq> 0 \<and> proposed = 0 then parent else proposed)"
  by (auto simp: capBudget_def split: if_splits)

lemma capTier_rank: "rank_or_supervised (snd (capTier p q)) \<le> rank_or_supervised p"
  by (simp add: capTier_def Let_def)

lemma capTier_ok:
  "fst (capTier p q) = [] \<longleftrightarrow> tierRank q \<noteq> None \<and> rank_or_supervised q \<le> rank_or_supervised p"
  by (auto simp: capTier_def Let_def)

lemma capTools_ok: "fst (capTools p q) = [] \<longleftrightarrow> set q \<subseteq> set p"
proof -
  have "sort xs = [] \<longleftrightarrow> xs = []" for xs :: "string list" by (metis length_0_conv length_sort)
  then show ?thesis by (auto simp: capTools_def filter_empty_conv)
qed

text \<open>What a grant may not exceed.\<close>

definition within_grant :: "Grant \<Rightarrow> Grant \<Rightarrow> bool" where
  "within_grant g p \<longleftrightarrow> set (gr_ToolScope g) \<subseteq> set (gr_ToolScope p) \<and>
     rank_or_supervised (gr_AutonomyTier g) \<le> rank_or_supervised (gr_AutonomyTier p) \<and>
     (0 < gr_BudgetTokens p \<longrightarrow> 0 < gr_BudgetTokens g \<and> gr_BudgetTokens g \<le> gr_BudgetTokens p) \<and>
     (0 < gr_BudgetDollarsCents p \<longrightarrow>
        0 < gr_BudgetDollarsCents g \<and> gr_BudgetDollarsCents g \<le> gr_BudgetDollarsCents p)"

lemma within_grant_refl: "within_grant g g"
  by (simp add: within_grant_def)

lemma within_grant_trans: "within_grant a b \<Longrightarrow> within_grant b c \<Longrightarrow> within_grant a c"
  by (auto simp: within_grant_def)

lemma DelegationCap_ok:
  assumes "DelegationCap parent proposed maxDepth = (g, [])"
  shows "within_grant g parent" and "gr_SpawnDepth g = gr_SpawnDepth parent + 1" and "gr_SpawnDepth g \<le> maxDepth"
proof -
  let ?t = "capTier (gr_AutonomyTier parent) (gr_AutonomyTier proposed)"
  let ?s = "capTools (gr_ToolScope parent) (gr_ToolScope proposed)"
  let ?b = "capBudget ''budget_tokens'' (gr_BudgetTokens parent) (gr_BudgetTokens proposed)"
  let ?c = "capBudget ''budget_dollars_cents'' (gr_BudgetDollarsCents parent) (gr_BudgetDollarsCents proposed)"
  from assms have g: "g = \<lparr>gr_AutonomyTier = snd ?t, gr_ToolScope = snd ?s, gr_BudgetTokens = snd ?b,
      gr_BudgetDollarsCents = snd ?c, gr_SpawnDepth = gr_SpawnDepth parent + 1\<rparr>"
    and ok: "fst ?b = []" "fst ?c = []" "gr_SpawnDepth parent + 1 \<le> maxDepth"
    by (auto simp: DelegationCap_def Let_def split: prod.splits if_splits)
  have "set (snd ?s) \<subseteq> set (gr_ToolScope parent)" by (auto simp: capTools_def)
  with g capTier_rank capBudget_value [OF ok(1)] capBudget_value [OF ok(2)]
    ok(1,2) [unfolded capBudget_ok] show "within_grant g parent"
    by (auto simp: within_grant_def)
  show "gr_SpawnDepth g = gr_SpawnDepth parent + 1" "gr_SpawnDepth g \<le> maxDepth" using g ok by simp_all
qed

text \<open>A chain of spawned agents, each delegation accepted without a violation.\<close>

inductive delegates :: "int \<Rightarrow> Grant \<Rightarrow> nat \<Rightarrow> Grant \<Rightarrow> bool" for maxDepth origin where
  self: "delegates maxDepth origin 0 origin"
| child: "delegates maxDepth origin n p \<Longrightarrow> DelegationCap p proposed maxDepth = (g, []) \<Longrightarrow>
    delegates maxDepth origin (Suc n) g"

inductive_cases delegates_Suc: "delegates maxDepth origin (Suc n) g"

section \<open>Properties\<close>

text \<open>
  C39. The trust table refines its abstract meaning: after any sequence of approvals and
  rejections the score of an agent for an action is 0 adjusted, in order, by +0.05 for each
  approval and -0.10 for each rejection of that agent and action, clamped to [0, 1] after
  each step; there is one row per agent and action.
\<close>

theorem trust_score_refinement:
  "GetScore (fold trust_exec ops trust_empty) a t =
     fold (\<lambda>d s. ClampScore (s + d)) (concat (map (trust_delta a t) ops)) 0 \<and>
   trust_inv (fold trust_exec ops trust_empty)"
proof
  have "GetScore trust_empty a t = 0" by (simp add: GetScore_def store_GetScore_def trust_empty_def)
  then show "GetScore (fold trust_exec ops trust_empty) a t =
     fold (\<lambda>d s. ClampScore (s + d)) (concat (map (trust_delta a t) ops)) 0"
    by (simp add: trust_run_score)
  show "trust_inv (fold trust_exec ops trust_empty)" by (rule trust_sys.run_inv [OF trust_empty_inv])
qed

text \<open>
  \<open>DelegationCap\<close> reports no violation exactly when the proposal asks for nothing beyond
  the parent: a known tier no higher than the parent's, tools the parent has, no negative
  budget, no budget above a limited parent's, and a depth within the maximum. The effective
  grant is then the proposal with its tools sorted and a budget of 0 replaced by the
  parent's.
\<close>

theorem delegation_exact:
  "case DelegationCap parent proposed maxDepth of (g, vs) \<Rightarrow>
     (vs = [] \<longleftrightarrow>
        tierRank (gr_AutonomyTier proposed) \<noteq> None \<and>
        rank_or_supervised (gr_AutonomyTier proposed) \<le> rank_or_supervised (gr_AutonomyTier parent) \<and>
        set (gr_ToolScope proposed) \<subseteq> set (gr_ToolScope parent) \<and>
        (\<forall>(b, p) \<in> {(gr_BudgetTokens proposed, gr_BudgetTokens parent),
                    (gr_BudgetDollarsCents proposed, gr_BudgetDollarsCents parent)}.
           0 \<le> b \<and> (p \<noteq> 0 \<longrightarrow> b \<le> p \<or> b = 0)) \<and>
        gr_SpawnDepth parent < maxDepth) \<and>
     (vs = [] \<longrightarrow> g = \<lparr>gr_AutonomyTier = gr_AutonomyTier proposed, gr_ToolScope = sort (gr_ToolScope proposed),
        gr_BudgetTokens = (if gr_BudgetTokens parent \<noteq> 0 \<and> gr_BudgetTokens proposed = 0
           then gr_BudgetTokens parent else gr_BudgetTokens proposed),
        gr_BudgetDollarsCents = (if gr_BudgetDollarsCents parent \<noteq> 0 \<and> gr_BudgetDollarsCents proposed = 0
           then gr_BudgetDollarsCents parent else gr_BudgetDollarsCents proposed),
        gr_SpawnDepth = gr_SpawnDepth parent + 1\<rparr>)"
proof -
  let ?t = "capTier (gr_AutonomyTier parent) (gr_AutonomyTier proposed)"
  let ?s = "capTools (gr_ToolScope parent) (gr_ToolScope proposed)"
  let ?b = "capBudget ''budget_tokens'' (gr_BudgetTokens parent) (gr_BudgetTokens proposed)"
  let ?c = "capBudget ''budget_dollars_cents'' (gr_BudgetDollarsCents parent) (gr_BudgetDollarsCents proposed)"
  have cap: "DelegationCap parent proposed maxDepth = (\<lparr>gr_AutonomyTier = snd ?t, gr_ToolScope = snd ?s,
      gr_BudgetTokens = snd ?b, gr_BudgetDollarsCents = snd ?c, gr_SpawnDepth = gr_SpawnDepth parent + 1\<rparr>,
      fst ?t @ fst ?s @ fst ?b @ fst ?c @
      (if maxDepth < gr_SpawnDepth parent + 1 then [DepthExceeds (gr_SpawnDepth parent + 1) maxDepth] else []))"
    by (simp add: DelegationCap_def Let_def split: prod.splits)
  have tools: "fst ?s = [] \<Longrightarrow> snd ?s = sort (gr_ToolScope proposed)"
    using capTools_ok [of "gr_ToolScope parent" "gr_ToolScope proposed"]
    by (auto simp: capTools_def intro!: arg_cong [where f = sort] filter_True)
  have tier: "fst ?t = [] \<Longrightarrow> snd ?t = gr_AutonomyTier proposed"
    by (auto simp: capTier_def Let_def split: if_splits)
  show ?thesis
    unfolding cap using tools tier capBudget_value
    by (auto simp: capTier_ok capTools_ok capBudget_ok)
qed

text \<open>
  C36. No chain of accepted delegations escalates authority: an agent spawned any number of
  steps below a root has only tools of the root, a tier no higher, budgets that stay positive
  and within the root's wherever the root's are limited, and the chain is no longer than the
  maximum depth allows.
\<close>

theorem delegation_chain:
  assumes "delegates maxDepth origin n g"
  shows "within_grant g origin \<and> gr_SpawnDepth g = gr_SpawnDepth origin + int n \<and>
    (0 < n \<longrightarrow> gr_SpawnDepth origin + int n \<le> maxDepth)"
  using assms
proof (induction rule: delegates.induct)
  case self
  show ?case by (simp add: within_grant_refl)
next
  case (child n p proposed g)
  note ok = DelegationCap_ok [OF child.hyps(2)]
  from child.IH ok within_grant_trans [OF ok(1)] show ?case by simp
qed

definition root_grant :: Grant where
  "root_grant = \<lparr>gr_AutonomyTier = TierAssisted, gr_ToolScope = [''search'', ''send''],
     gr_BudgetTokens = 1000, gr_BudgetDollarsCents = 0, gr_SpawnDepth = 0\<rparr>"

definition child_proposal :: Grant where
  "child_proposal = \<lparr>gr_AutonomyTier = TierSupervised, gr_ToolScope = [''send''],
     gr_BudgetTokens = 0, gr_BudgetDollarsCents = 50, gr_SpawnDepth = 0\<rparr>"

theorem delegation_chain_witness:
  "\<exists>g. delegates 3 root_grant 1 g \<and> within_grant g root_grant \<and> gr_SpawnDepth g = 1"
proof -
  have "snd (DelegationCap root_grant child_proposal 3) = []" by code_simp
  then have "DelegationCap root_grant child_proposal 3 = (fst (DelegationCap root_grant child_proposal 3), [])"
    by (metis prod.collapse)
  from delegates.child [OF delegates.self this] have
    d: "delegates 3 root_grant (Suc 0) (fst (DelegationCap root_grant child_proposal 3))" .
  from delegation_chain [OF d] d show ?thesis by (auto simp: root_grant_def)
qed

theorem delegation_exact_witness:
  "gr_BudgetTokens (fst (DelegationCap root_grant child_proposal 3)) = 1000"
proof -
  have "snd (DelegationCap root_grant child_proposal 3) = []" by code_simp
  with delegation_exact [where parent = root_grant and proposed = child_proposal and maxDepth = 3] show ?thesis
    by (simp add: case_prod_beta) (simp add: root_grant_def child_proposal_def)
qed

lemma sort_mset: "mset xs = mset ys \<Longrightarrow> sort xs = sort (ys :: string list)"
  using properties_for_sort [of "sort ys" xs] by simp

lemma json_strings_mset: "mset xs = mset ys \<Longrightarrow> json_strings xs = json_strings ys"
proof -
  assume m: "mset xs = mset ys"
  then have "(xs = []) = (ys = [])" by (cases xs; cases ys) auto
  with sort_mset [OF m] show ?thesis by (simp add: json_strings_def)
qed

lemma sort_key_mset:
  assumes "mset xs = mset ys" and "distinct (map k xs)"
  shows "sort_key k xs = sort_key k ys"
proof -
  have s: "set xs = set ys" using assms(1) by (rule mset_eq_setD)
  have "distinct (map k ys)"
    using assms by (metis mset_map mset_eq_imp_distinct_iff)
  moreover have "inj_on k (set ys)" using assms(2) s by (simp add: distinct_map)
  ultimately have "distinct (map k (sort_key k ys))"
    by (metis mset_eq_imp_distinct_iff mset_map mset_sort)
  show ?thesis
  proof (rule properties_for_sort_key)
    show "mset (sort_key k ys) = mset xs" using assms(1) by simp
    fix x assume "x \<in> set (sort_key k ys)"
    show "filter (\<lambda>y. k x = k y) (sort_key k ys) = filter (\<lambda>y. k x = k y) xs"
    proof -
      have one: "filter (\<lambda>y. k x = k y) zs = [x]" if "distinct (map k zs)" "x \<in> set zs" for zs
        using that by (induction zs) (auto simp: filter_empty_conv, metis imageI)
      show ?thesis
        using one [of "sort_key k ys"] one [of xs] \<open>distinct (map k (sort_key k ys))\<close> assms(2) s
          \<open>x \<in> set (sort_key k ys)\<close> by simp
    qed
  qed simp
qed

text \<open>
  Two configurations with the same model and prompt and the same tools, skills, subagents
  and servers in any order have the same hash, provided no two servers have the same name.
\<close>

theorem config_hash_order:
  assumes "ac_Model c = ac_Model d" and "ac_SystemPrompt c = ac_SystemPrompt d"
    and "mset (ac_ToolScope c) = mset (ac_ToolScope d)" and "mset (ac_Skills c) = mset (ac_Skills d)"
    and "mset (ac_Subagents c) = mset (ac_Subagents d)"
    and "mset (ac_MCPServers c) = mset (ac_MCPServers d)" and "distinct (map mc_Name (ac_MCPServers c))"
  shows "ConfigHash encode sha256 c = ConfigHash encode sha256 d"
  using assms json_strings_mset [of "ac_ToolScope c" "ac_ToolScope d"]
    json_strings_mset [of "ac_Skills c" "ac_Skills d"] json_strings_mset [of "ac_Subagents c" "ac_Subagents d"]
    sort_key_mset [of "ac_MCPServers c" "ac_MCPServers d" mc_Name]
  by (simp add: ConfigHash_def canonical_config_def)

definition example_config :: "string list \<Rightarrow> AgentConfig" where
  "example_config tools = \<lparr>ac_Model = ''m'', ac_SystemPrompt = ''p'', ac_ToolScope = tools, ac_Skills = [],
     ac_Subagents = [], ac_MCPServers = [\<lparr>mc_Name = ''a'', mc_URL = ''u'', mc_Transport = ''http''\<rparr>]\<rparr>"

theorem config_hash_order_witness:
  "ConfigHash (\<lambda>_. ''x'') id (example_config [''a'', ''b'']) = ConfigHash (\<lambda>_. ''x'') id (example_config [''b'', ''a''])"
  by (rule config_hash_order) (simp_all add: example_config_def add_mset_commute)

text \<open>
  The order matters for two servers of the same name: configurations with the same multiset
  of servers can be encoded differently.
\<close>

theorem config_hash_same_name:
  "\<exists>c d. mset (ac_MCPServers c) = mset (ac_MCPServers d) \<and> c = d\<lparr>ac_MCPServers := ac_MCPServers c\<rparr> \<and>
     canonical_config c \<noteq> canonical_config d"
proof -
  let ?s = "\<lambda>u. \<lparr>mc_Name = ''a'', mc_URL = u, mc_Transport = ''http''\<rparr>"
  let ?c = "(example_config [])\<lparr>ac_MCPServers := [?s ''u'', ?s ''v'']\<rparr>"
  let ?d = "(example_config [])\<lparr>ac_MCPServers := [?s ''v'', ?s ''u'']\<rparr>"
  have "mset (ac_MCPServers ?c) = mset (ac_MCPServers ?d)" by (simp add: add_mset_commute)
  moreover have "canonical_config ?c \<noteq> canonical_config ?d" by code_simp
  ultimately show ?thesis by (intro exI [of _ ?c] exI [of _ ?d]) simp
qed

text \<open>
  A rolling score lies in [0, 1], and a configuration seeded from a parent starts at seven
  tenths of the parent's score when it has no evidence of its own.
\<close>

theorem seed_from_parent:
  assumes "decay 0 = 1" and "ownerID \<in> set (re_users db)" and "evidence_of ch (default_domain domain) db = []"
  shows "let (r, db') = SeedFromParent decay now parent ch ownerID domain hl db;
             s = fst (RollingScore decay now db parent domain hl)
         in r = Inr () \<and> RollingScore decay now db' ch domain hl = (7 / 10 * s, 1) \<and> 0 \<le> s \<and> s \<le> 1"
proof -
  let ?s = "fst (RollingScore decay now db parent domain hl)"
  have s: "0 \<le> ?s" "?s \<le> 1" by (auto simp: RollingScore_def clamp01_def Let_def)
  have id: "default_domain (default_domain domain) = default_domain domain" by (simp add: default_domain_def)
  from s have "clamp01 (7 / 10 * ?s) = 7 / 10 * ?s" by (simp add: clamp01_def Let_def)
  with assms s show ?thesis
    by (auto simp: SeedFromParent_def ledger_Append_def Let_def RollingScore_def [of decay now _ ch]
        evidence_of_def decayed_def)
qed

theorem seed_from_parent_witness:
  "RollingScore (\<lambda>_. 1) 5 (snd (SeedFromParent (\<lambda>_. 1) 5 ''p'' ''c'' 1 '''' 0
     \<lparr>re_rows = [], re_seq = 0, re_users = [1]\<rparr>)) ''c'' '''' 0 = (7 / 20, 1)"
proof -
  let ?db = "\<lparr>re_rows = [], re_seq = 0, re_users = [1]\<rparr> :: ledger_db"
  have "fst (RollingScore (\<lambda>_. 1) 5 ?db ''p'' '''' 0) = 1 / 2"
    by (simp add: RollingScore_def evidence_of_def Let_def)
  then show ?thesis
    using seed_from_parent [of "\<lambda>_. 1" 1 ?db "''c''" "''''" 5 "''p''" 0]
    by (simp add: evidence_of_def case_prod_beta Let_def)
qed

end
