(* ===== verification/Reactions.thy ===== *)
theory Reactions
  imports Messaging Trust
begin

text \<open>
  \<open>internal/reactions\<close>: reactions on messages, the workflow state derived from them
  (\<open>model.go\<close>), the table \<open>message_reactions\<close> (\<open>store.go\<close>) and the service (\<open>service.go\<close>),
  together with \<open>EnrichMessages\<close> of the messaging service, which derives the state a second
  time. The service adjusts trust through an interface; its laws are the locale
  \<open>trust_adjuster\<close>, interpreted on the trust service.
\<close>

section \<open>Workflow states\<close>

definition reactionPriority :: "(string \<times> nat) list" where
  "reactionPriority = [(''approve'', 2), (''in_progress'', 3), (''reject'', 4), (''awarded'', 5),
     (''done'', 6), (''published'', 7)]"

definition reactionToState :: "(string \<times> string) list" where
  "reactionToState = [(''approve'', ''approved''), (''reject'', ''rejected''),
     (''in_progress'', ''in_progress''), (''awarded'', ''awarded''), (''done'', ''done''),
     (''published'', ''published'')]"

definition IsValidReaction :: "string \<Rightarrow> bool" where
  "IsValidReaction r \<longleftrightarrow>
     r \<in> set [''approve'', ''reject'', ''in_progress'', ''awarded'', ''done'', ''published'']"

record Reaction =
  rx_ID :: id64
  rx_MessageID :: id64
  rx_AgentName :: string
  rx_Reaction :: string
  rx_Metadata :: json
  rx_CreatedAt :: timestamp

text \<open>The loop over the reactions, for any table of priorities and states.\<close>

fun highest :: "(string \<times> nat) list \<Rightarrow> (string \<times> string) list \<Rightarrow> nat \<times> string \<Rightarrow> string list \<Rightarrow> nat \<times> string" where
  "highest prio states (hp, hs) [] = (hp, hs)"
| "highest prio states (hp, hs) (r # rs) =
     (case map_of prio r of
        Some p \<Rightarrow> if hp < p
                  then highest prio states (p, case map_of states r of Some s \<Rightarrow> s | None \<Rightarrow> '''') rs
                  else highest prio states (hp, hs) rs
      | None \<Rightarrow> highest prio states (hp, hs) rs)"

definition ComputeWorkflowState :: "Reaction list \<Rightarrow> string" where
  "ComputeWorkflowState rxs =
     (if rxs = [] then ''proposed''
      else snd (highest reactionPriority reactionToState (0, ''proposed'') (map rx_Reaction rxs)))"

definition IsTerminalState :: "string \<Rightarrow> bool" where
  "IsTerminalState st \<longleftrightarrow> st \<in> set [''rejected'', ''done'', ''published'']"

definition MaxReactionsPerMessage :: nat where
  "MaxReactionsPerMessage = 100"

section \<open>Store\<close>

record rx_db =
  rx_rows :: "Reaction list"
  rx_seq :: id64

datatype rx_error =
    ErrInvalidReaction
  | ErrReactionLimit
  | AlreadyClaimedBy string
  | ReactionNotFound
  | UnknownWorkflowState string
  | RxStatementFailed

definition rx_key :: "id64 \<Rightarrow> string \<Rightarrow> string \<Rightarrow> Reaction \<Rightarrow> bool" where
  "rx_key i a r x \<longleftrightarrow> rx_MessageID x = i \<and> rx_AgentName x = a \<and> rx_Reaction x = r"

text \<open>
  The insert fails on the foreign key (\<open>msgs\<close> are the ids of the messages), on the CHECK of
  the reaction and on the UNIQUE constraint.
\<close>

definition rx_Insert ::
  "bool \<Rightarrow> id64 list \<Rightarrow> timestamp \<Rightarrow> Reaction \<Rightarrow> rx_db \<Rightarrow> (rx_error + Reaction) \<times> rx_db" where
  "rx_Insert fails msgs now r db =
     (if fails \<or> rx_MessageID r \<notin> set msgs \<or> \<not> IsValidReaction (rx_Reaction r) \<or>
         rows_affected (rx_key (rx_MessageID r) (rx_AgentName r) (rx_Reaction r)) (rx_rows db) \<noteq> 0
      then (Inl RxStatementFailed, db)
      else let i = rx_seq db + 1
        in (Inr (r\<lparr>rx_ID := i\<rparr>),
            db\<lparr>rx_rows := rx_rows db @ [r\<lparr>rx_ID := i, rx_CreatedAt := now\<rparr>], rx_seq := i\<rparr>))"

definition rx_Delete :: "bool \<Rightarrow> id64 \<Rightarrow> string \<Rightarrow> string \<Rightarrow> rx_db \<Rightarrow> (rx_error + unit) \<times> rx_db" where
  "rx_Delete fails i a r db =
     (if fails then (Inl RxStatementFailed, db)
      else if rows_affected (rx_key i a r) (rx_rows db) = 0 then (Inl ReactionNotFound, db)
      else (Inr (), db\<lparr>rx_rows := delete_where (rx_key i a r) (rx_rows db)\<rparr>))"

definition GetByMessageID :: "rx_db \<Rightarrow> id64 \<Rightarrow> Reaction list" where
  "GetByMessageID db i = sort_key rx_CreatedAt (filter (\<lambda>x. rx_MessageID x = i) (rx_rows db))"

definition GetByMessageIDs :: "rx_db \<Rightarrow> id64 list \<Rightarrow> id64 \<Rightarrow> Reaction list" where
  "GetByMessageIDs db ids i =
     filter (\<lambda>x. rx_MessageID x = i)
       (sort_key rx_CreatedAt (filter (\<lambda>x. rx_MessageID x \<in> set ids) (rx_rows db)))"

definition rx_Exists :: "rx_db \<Rightarrow> id64 \<Rightarrow> string \<Rightarrow> string \<Rightarrow> bool" where
  "rx_Exists db i a r \<longleftrightarrow> 0 < rows_affected (rx_key i a r) (rx_rows db)"

definition CountByMessage :: "rx_db \<Rightarrow> id64 \<Rightarrow> nat" where
  "CountByMessage db i = length (filter (\<lambda>x. rx_MessageID x = i) (rx_rows db))"

definition GetMessageIDsByState :: "Message list \<Rightarrow> rx_db \<Rightarrow> id64 \<Rightarrow> string \<Rightarrow> rx_error + id64 list" where
  "GetMessageIDsByState msgs db ch state =
     (let in_ch = sort_key (\<lambda>m. - msg_CreatedAt m) (filter (\<lambda>m. msg_ChannelID m = Some ch) msgs) in
      if state = ''proposed''
      then Inr (map msg_ID (filter (\<lambda>m. \<forall>x \<in> set (rx_rows db). rx_MessageID x \<noteq> msg_ID m) in_ch))
      else case find (\<lambda>p. snd p = state) reactionToState of
        None \<Rightarrow> Inl (UnknownWorkflowState state)
      | Some (rt, _) \<Rightarrow>
          Inr (map msg_ID (filter (\<lambda>m. \<exists>x \<in> set (rx_rows db). rx_MessageID x = msg_ID m \<and> rx_Reaction x = rt) in_ch)))"

section \<open>Service\<close>

text \<open>
  The optional collaborators: the notifier, and the three the trust adjustment needs.
  \<open>agentType\<close> and \<open>author\<close> return \<open>None\<close> on an error.
\<close>

record 't rx_service =
  rs_notifier :: bool
  rs_adjuster :: "((string \<Rightarrow> string \<Rightarrow> 't \<Rightarrow> 't) \<times> (string \<Rightarrow> string \<Rightarrow> 't \<Rightarrow> 't)) option"
  rs_agentType :: "(string \<Rightarrow> string option) option"
  rs_author :: "(id64 \<Rightarrow> string option) option"

record StateChange =
  sc_MessageID :: id64
  sc_OldState :: string
  sc_NewState :: string
  sc_TriggeredBy :: string
  sc_Reaction :: string

datatype toggle_result = Added Reaction | Removed

datatype rx_stmt = RxExists | RxDelete | RxClaims | RxCount | RxInsert

definition notifyStateChangeIfNeeded ::
  "'t rx_service \<Rightarrow> rx_db \<Rightarrow> id64 \<Rightarrow> string \<Rightarrow> string \<Rightarrow> string \<Rightarrow> StateChange list" where
  "notifyStateChangeIfNeeded svc db i oldState a r =
     (if \<not> rs_notifier svc then []
      else let newState = ComputeWorkflowState (GetByMessageID db i) in
        if newState = oldState then []
        else [\<lparr>sc_MessageID = i, sc_OldState = oldState, sc_NewState = newState, sc_TriggeredBy = a, sc_Reaction = r\<rparr>])"

definition adjustTrustIfNeeded :: "'t rx_service \<Rightarrow> id64 \<Rightarrow> string \<Rightarrow> string \<Rightarrow> 't \<Rightarrow> 't" where
  "adjustTrustIfNeeded svc i reactor r st =
     (case (rs_adjuster svc, rs_agentType svc, rs_author svc) of
        (Some (approve, reject), Some agentType, Some author) \<Rightarrow>
          if r \<noteq> ''approve'' \<and> r \<noteq> ''reject'' then st
          else if agentType reactor \<noteq> Some ''human'' then st
          else (case author i of
                  None \<Rightarrow> st
                | Some authorName \<Rightarrow>
                    if authorName = '''' then st
                    else if agentType authorName \<noteq> Some ''ai'' then st
                    else if r = ''approve'' then approve authorName ''publish'' st
                    else reject authorName ''publish'' st)
      | _ \<Rightarrow> st)"

definition claimed_by_other :: "rx_db \<Rightarrow> id64 \<Rightarrow> string \<Rightarrow> string option" where
  "claimed_by_other db i a =
     map_option rx_AgentName
       (find_row (\<lambda>x. rx_Reaction x = ''in_progress'' \<and> rx_AgentName x \<noteq> a) (GetByMessageID db i))"

type_synonym 't toggle_outcome = "(rx_error + toggle_result) \<times> StateChange list \<times> rx_db \<times> 't"

text \<open>The two halves of \<open>Toggle\<close>: the reaction exists and is removed, or it is added.\<close>

definition toggle_off ::
  "'t rx_service \<Rightarrow> (rx_stmt \<Rightarrow> bool) \<Rightarrow> id64 \<Rightarrow> string \<Rightarrow> string \<Rightarrow> string \<Rightarrow> rx_db \<Rightarrow> 't \<Rightarrow> 't toggle_outcome" where
  "toggle_off svc flt i a r oldState db st =
     (case rx_Delete (flt RxDelete) i a r db of
        (Inl e, db') \<Rightarrow> (Inl e, [], db', st)
      | (Inr _, db') \<Rightarrow> (Inr Removed, notifyStateChangeIfNeeded svc db' i oldState a r, db', st))"

definition new_reaction :: "id64 \<Rightarrow> string \<Rightarrow> string \<Rightarrow> json option \<Rightarrow> Reaction" where
  "new_reaction i a r metadata =
     \<lparr>rx_ID = 0, rx_MessageID = i, rx_AgentName = a, rx_Reaction = r,
      rx_Metadata = (case metadata of None \<Rightarrow> JObj [] | Some j \<Rightarrow> j), rx_CreatedAt = 0\<rparr>"

definition add_error :: "(rx_stmt \<Rightarrow> bool) \<Rightarrow> id64 \<Rightarrow> string \<Rightarrow> string \<Rightarrow> rx_db \<Rightarrow> rx_error option" where
  "add_error flt i a r db =
     (if r = ''in_progress'' \<and> flt RxClaims then Some RxStatementFailed
      else if r = ''in_progress'' \<and> claimed_by_other db i a \<noteq> None
      then Some (AlreadyClaimedBy (the (claimed_by_other db i a)))
      else if flt RxCount then Some RxStatementFailed
      else if MaxReactionsPerMessage \<le> CountByMessage db i then Some ErrReactionLimit
      else None)"

definition toggle_on ::
  "'t rx_service \<Rightarrow> (rx_stmt \<Rightarrow> bool) \<Rightarrow> id64 list \<Rightarrow> timestamp \<Rightarrow> id64 \<Rightarrow> string \<Rightarrow> string \<Rightarrow> json option \<Rightarrow>
   string \<Rightarrow> rx_db \<Rightarrow> 't \<Rightarrow> 't toggle_outcome" where
  "toggle_on svc flt msgs now i a r metadata oldState db st =
     (case add_error flt i a r db of
        Some e \<Rightarrow> (Inl e, [], db, st)
      | None \<Rightarrow>
          (case rx_Insert (flt RxInsert) msgs now (new_reaction i a r metadata) db of
             (Inl e, db') \<Rightarrow> (Inl e, [], db', st)
           | (Inr x, db') \<Rightarrow>
               (Inr (Added x), notifyStateChangeIfNeeded svc db' i oldState a r, db',
                adjustTrustIfNeeded svc i a r st)))"

definition Toggle ::
  "'t rx_service \<Rightarrow> (rx_stmt \<Rightarrow> bool) \<Rightarrow> id64 list \<Rightarrow> timestamp \<Rightarrow> id64 \<Rightarrow> string \<Rightarrow> string \<Rightarrow> json option \<Rightarrow>
   rx_db \<Rightarrow> 't \<Rightarrow> 't toggle_outcome" where
  "Toggle svc flt msgs now i a r metadata db st =
     (if \<not> IsValidReaction r then (Inl ErrInvalidReaction, [], db, st)
      else let oldState = (if rs_notifier svc then ComputeWorkflowState (GetByMessageID db i) else '''')
        in if flt RxExists then (Inl RxStatementFailed, [], db, st)
           else if rx_Exists db i a r then toggle_off svc flt i a r oldState db st
           else toggle_on svc flt msgs now i a r metadata oldState db st)"

definition Remove :: "bool \<Rightarrow> id64 \<Rightarrow> string \<Rightarrow> string \<Rightarrow> rx_db \<Rightarrow> (rx_error + unit) \<times> rx_db" where
  "Remove fails i a r db =
     (if \<not> IsValidReaction r then (Inl ErrInvalidReaction, db) else rx_Delete fails i a r db)"

definition GetReactions :: "rx_db \<Rightarrow> id64 \<Rightarrow> Reaction list \<times> string" where
  "GetReactions db i = (let rxs = GetByMessageID db i in (rxs, ComputeWorkflowState rxs))"

definition ListByState :: "Message list \<Rightarrow> rx_db \<Rightarrow> id64 \<Rightarrow> string \<Rightarrow> rx_error + id64 list" where
  "ListByState msgs db ch state =
     (case GetMessageIDsByState msgs db ch state of
        Inl e \<Rightarrow> Inl e
      | Inr candidates \<Rightarrow>
          if state = ''proposed'' then Inr candidates
          else Inr (filter (\<lambda>i. ComputeWorkflowState (GetByMessageIDs db candidates i) = state) candidates))"

section \<open>Enriched messages\<close>

record EnrichedMessage =
  em_Message :: Message
  em_ReplyCount :: nat
  em_Attachments :: "string list"
  em_Reactions :: "string list"
  em_WorkflowState :: string

definition enrich_priorities :: "(string \<times> nat) list" where
  "enrich_priorities = [(''approve'', 2), (''in_progress'', 3), (''reject'', 4), (''done'', 5), (''published'', 6)]"

definition enrich_states :: "(string \<times> string) list" where
  "enrich_states = [(''approve'', ''approved''), (''in_progress'', ''in_progress''), (''reject'', ''rejected''),
     (''done'', ''done''), (''published'', ''published'')]"

definition enriched_state :: "Message \<Rightarrow> string list \<Rightarrow> string" where
  "enriched_state m rxs =
     (let st = (if rxs = [] then '''' else snd (highest enrich_priorities enrich_states (0, '''') rxs))
      in if st = '''' \<and> msg_ChannelID m \<noteq> None then ''proposed'' else st)"

text \<open>
  The attachment linker and the reaction enricher are optional; an error leaves the field
  empty (\<open>None\<close>).
\<close>

definition EnrichMessages ::
  "(id64 \<Rightarrow> string list option) option \<Rightarrow> (id64 list \<Rightarrow> (id64 \<Rightarrow> string list) option) option \<Rightarrow> msg_db \<Rightarrow>
   Message list \<Rightarrow> EnrichedMessage list" where
  "EnrichMessages linker enricher db msgs =
     (let ids = map msg_ID msgs;
          rx = (case enricher of None \<Rightarrow> None | Some e \<Rightarrow> e ids)
      in map (\<lambda>m. \<lparr>em_Message = m,
             em_ReplyCount = (case GetReplyCounts db ids (msg_ID m) of None \<Rightarrow> 0 | Some n \<Rightarrow> n),
             em_Attachments = (case linker of None \<Rightarrow> []
               | Some l \<Rightarrow> (case l (msg_ID m) of None \<Rightarrow> [] | Some as \<Rightarrow> as)),
             em_Reactions = (case rx of None \<Rightarrow> [] | Some f \<Rightarrow> f (msg_ID m)),
             em_WorkflowState = (case rx of None \<Rightarrow> '''' | Some f \<Rightarrow> enriched_state m (f (msg_ID m)))\<rparr>) msgs)"

section \<open>The derived state\<close>

definition state_of :: "string \<Rightarrow> string" where
  "state_of r = (case map_of reactionToState r of Some s \<Rightarrow> s | None \<Rightarrow> '''')"

definition prio_of :: "string \<Rightarrow> nat" where
  "prio_of r = (case map_of reactionPriority r of Some p \<Rightarrow> p | None \<Rightarrow> 0)"

lemma highest_spec:
  "case highest prio states (hp, hs) rs of (p, s) \<Rightarrow>
    hp \<le> p \<and> (\<forall>r \<in> set rs. \<forall>q. map_of prio r = Some q \<longrightarrow> q \<le> p) \<and>
    ((p = hp \<and> s = hs) \<or> (\<exists>r \<in> set rs. map_of prio r = Some p \<and> hp < p \<and>
       s = (case map_of states r of Some s \<Rightarrow> s | None \<Rightarrow> '''')))"
proof (induction rs arbitrary: hp hs)
  case (Cons r rs)
  show ?case
  proof (cases "map_of prio r")
    case None
    then show ?thesis using Cons.IH [of hp hs] by (auto split: prod.splits)
  next
    case (Some p)
    then show ?thesis
      using Cons.IH [of hp hs] Cons.IH [of p "case map_of states r of Some s \<Rightarrow> s | None \<Rightarrow> ''''"]
      by (auto split: prod.splits)
  qed
qed simp

definition valid_reactions :: "string list" where
  "valid_reactions = [''approve'', ''reject'', ''in_progress'', ''awarded'', ''done'', ''published'']"

lemma IsValidReaction_in: "IsValidReaction r \<longleftrightarrow> r \<in> set valid_reactions"
  by (simp add: IsValidReaction_def valid_reactions_def)

lemma reaction_tables:
  "\<forall>r \<in> set valid_reactions. map_of reactionPriority r \<noteq> None \<and> state_of r \<noteq> ''proposed''"
  "\<forall>r \<in> set valid_reactions. \<forall>r' \<in> set valid_reactions. prio_of r = prio_of r' \<longrightarrow> r = r'"
  "\<forall>r \<in> set valid_reactions. \<forall>r' \<in> set valid_reactions. state_of r = state_of r' \<longrightarrow> r = r'"
  "\<forall>(r, p) \<in> set reactionPriority. 0 < p"
  by code_simp+

lemma prio_valid: "IsValidReaction r \<Longrightarrow> map_of reactionPriority r \<noteq> None"
  using reaction_tables(1) by (simp add: IsValidReaction_in)

lemma prio_pos: "map_of reactionPriority r = Some p \<Longrightarrow> 0 < p"
  using reaction_tables(4) by (auto dest: map_of_SomeD)

lemma prio_inj: "IsValidReaction r \<Longrightarrow> IsValidReaction r' \<Longrightarrow> prio_of r = prio_of r' \<Longrightarrow> r = r'"
  using reaction_tables(2) by (simp add: IsValidReaction_in)

lemma state_inj: "IsValidReaction r \<Longrightarrow> IsValidReaction r' \<Longrightarrow> state_of r = state_of r' \<Longrightarrow> r = r'"
  using reaction_tables(3) by (simp add: IsValidReaction_in)

lemma state_not_proposed: "IsValidReaction r \<Longrightarrow> state_of r \<noteq> ''proposed''"
  using reaction_tables(1) by (simp add: IsValidReaction_in)

text \<open>The state is that of the reaction with the highest priority.\<close>

definition dominates :: "string \<Rightarrow> string set \<Rightarrow> bool" where
  "dominates r R \<longleftrightarrow> r \<in> R \<and> (\<forall>r' \<in> R. prio_of r' \<le> prio_of r)"

lemma workflow_dominant:
  assumes "rxs \<noteq> []" and valid: "\<And>x. x \<in> set rxs \<Longrightarrow> IsValidReaction (rx_Reaction x)"
  shows "\<exists>r. dominates r (rx_Reaction ` set rxs) \<and> ComputeWorkflowState rxs = state_of r"
proof -
  obtain p s where h: "highest reactionPriority reactionToState (0, ''proposed'') (map rx_Reaction rxs) = (p, s)"
    by (cases "highest reactionPriority reactionToState (0, ''proposed'') (map rx_Reaction rxs)")
  obtain x where x: "x \<in> set rxs" using assms(1) by (cases rxs) auto
  obtain q where q: "map_of reactionPriority (rx_Reaction x) = Some q" using prio_valid [OF valid [OF x]] by auto
  have sp: "\<forall>r \<in> set (map rx_Reaction rxs). \<forall>q. map_of reactionPriority r = Some q \<longrightarrow> q \<le> p"
    "(p = 0 \<and> s = ''proposed'') \<or> (\<exists>r \<in> set (map rx_Reaction rxs). map_of reactionPriority r = Some p \<and> s = state_of r)"
    using highest_spec [where prio = reactionPriority and states = reactionToState and hp = 0 and hs = "''proposed''"
        and rs = "map rx_Reaction rxs"] h by (auto simp: state_of_def)
  have "q \<le> p" using sp(1) q x by simp
  with prio_pos [OF q] sp(2) obtain r where r: "r \<in> set (map rx_Reaction rxs)"
    "map_of reactionPriority r = Some p" "s = state_of r" by auto
  have "prio_of r' \<le> prio_of r" if "r' \<in> rx_Reaction ` set rxs" for r'
    using that sp(1) r(2) by (auto simp: prio_of_def split: option.splits)
  with r have "dominates r (rx_Reaction ` set rxs)" by (simp add: dominates_def)
  moreover have "ComputeWorkflowState rxs = s" using assms(1) h by (simp add: ComputeWorkflowState_def)
  ultimately show ?thesis using r(3) by blast
qed

lemma dominates_unique:
  assumes "dominates r R" "dominates r' R" and "\<And>x. x \<in> R \<Longrightarrow> IsValidReaction x"
  shows "r = r'"
proof -
  have "prio_of r = prio_of r'" using assms(1,2) by (auto simp: dominates_def intro: order_antisym)
  moreover have "IsValidReaction r" "IsValidReaction r'" using assms by (auto simp: dominates_def)
  ultimately show ?thesis by (blast intro: prio_inj)
qed

lemma workflow_set:
  assumes eq: "rx_Reaction ` set xs = rx_Reaction ` set ys"
    and valid: "\<And>x. x \<in> set xs \<Longrightarrow> IsValidReaction (rx_Reaction x)"
  shows "ComputeWorkflowState xs = ComputeWorkflowState ys"
proof (cases "xs = []")
  case True
  with eq show ?thesis by simp
next
  case False
  with eq have "ys \<noteq> []" by auto
  have v: "IsValidReaction r" if "r \<in> rx_Reaction ` set xs" for r using that valid by auto
  have valid': "IsValidReaction (rx_Reaction y)" if "y \<in> set ys" for y
    using that v eq by (metis imageI)
  from workflow_dominant [OF False valid] obtain r where
    r: "dominates r (rx_Reaction ` set xs)" "ComputeWorkflowState xs = state_of r" by blast
  from workflow_dominant [OF \<open>ys \<noteq> []\<close> valid'] obtain r' where
    r': "dominates r' (rx_Reaction ` set ys)" "ComputeWorkflowState ys = state_of r'" by blast
  from r r' dominates_unique [OF r(1) _ v, of r'] eq show ?thesis by simp
qed

section \<open>Invariant\<close>

text \<open>
  One row per message, agent and reaction; only valid reactions; at most one agent has a
  message in progress; at most 100 reactions per message.
\<close>

definition one_claim :: "Reaction list \<Rightarrow> bool" where
  "one_claim rs \<longleftrightarrow> (\<forall>x \<in> set rs. \<forall>y \<in> set rs. rx_MessageID x = rx_MessageID y \<and>
     rx_Reaction x = ''in_progress'' \<and> rx_Reaction y = ''in_progress'' \<longrightarrow> rx_AgentName x = rx_AgentName y)"

definition rx_inv :: "rx_db \<Rightarrow> bool" where
  "rx_inv db \<longleftrightarrow> ids_ok rx_ID (rx_seq db) (rx_rows db) \<and>
     distinct (map (\<lambda>x. (rx_MessageID x, rx_AgentName x, rx_Reaction x)) (rx_rows db)) \<and>
     (\<forall>x \<in> set (rx_rows db). IsValidReaction (rx_Reaction x)) \<and>
     one_claim (rx_rows db) \<and> (\<forall>i. CountByMessage db i \<le> MaxReactionsPerMessage)"

definition rx_empty :: rx_db where
  "rx_empty = \<lparr>rx_rows = [], rx_seq = 0\<rparr>"

lemma rx_empty_inv: "rx_inv rx_empty"
  by (simp add: rx_inv_def rx_empty_def CountByMessage_def one_claim_def)

lemma CountByMessage_mono:
  "length (filter (\<lambda>x. rx_MessageID x = i) rs) \<le> CountByMessage db i \<Longrightarrow>
     CountByMessage (db\<lparr>rx_rows := rs\<rparr>) i \<le> CountByMessage db i"
  by (simp add: CountByMessage_def)

lemma length_filter_delete: "length (filter P (delete_where Q xs)) \<le> length (filter P xs)"
  by (induction xs) (auto simp: delete_where_def)

lemma rx_inv_delete:
  assumes inv: "rx_inv db" shows "rx_inv (db\<lparr>rx_rows := delete_where Q (rx_rows db)\<rparr>)"
proof -
  have "CountByMessage (db\<lparr>rx_rows := delete_where Q (rx_rows db)\<rparr>) j \<le> MaxReactionsPerMessage" for j
  proof -
    have "CountByMessage (db\<lparr>rx_rows := delete_where Q (rx_rows db)\<rparr>) j \<le> CountByMessage db j"
      by (simp add: CountByMessage_def length_filter_delete)
    also have "\<dots> \<le> MaxReactionsPerMessage" using inv by (simp add: rx_inv_def)
    finally show ?thesis .
  qed
  moreover have "distinct (map f (delete_where Q xs))" if "distinct (map f xs)" for f :: "Reaction \<Rightarrow> id64 \<times> string \<times> string" and xs
    using that by (simp add: delete_where_def distinct_map_filter)
  moreover have "one_claim (delete_where Q (rx_rows db))"
    using inv unfolding rx_inv_def one_claim_def by simp
  ultimately show ?thesis
    using inv ids_ok_delete_where [of rx_ID "rx_seq db" "rx_rows db" Q] unfolding rx_inv_def by simp
qed

lemma rx_Delete_inv: "rx_inv db \<Longrightarrow> rx_inv (snd (rx_Delete fails i a r db))"
  by (simp add: rx_Delete_def rx_inv_delete)

lemma rx_inv_insert:
  assumes inv: "rx_inv db" and "rx_ID x = rx_seq db + 1" and "IsValidReaction (rx_Reaction x)"
    and new: "\<And>y. y \<in> set (rx_rows db) \<Longrightarrow> \<not> rx_key (rx_MessageID x) (rx_AgentName x) (rx_Reaction x) y"
    and claim: "\<And>y. y \<in> set (rx_rows db) \<Longrightarrow> rx_MessageID y = rx_MessageID x \<Longrightarrow>
      rx_Reaction y = ''in_progress'' \<Longrightarrow> rx_Reaction x = ''in_progress'' \<Longrightarrow> rx_AgentName y = rx_AgentName x"
    and "CountByMessage db (rx_MessageID x) < MaxReactionsPerMessage"
  shows "rx_inv (db\<lparr>rx_rows := rx_rows db @ [x], rx_seq := rx_seq db + 1\<rparr>)"
proof -
  have "ids_ok rx_ID (rx_seq db + 1) (rx_rows db @ [x])"
    using inv assms(2) by (intro ids_ok_append) (auto simp: rx_inv_def)
  moreover have "(rx_MessageID x, rx_AgentName x, rx_Reaction x) \<notin>
      (\<lambda>x. (rx_MessageID x, rx_AgentName x, rx_Reaction x)) ` set (rx_rows db)"
    using new unfolding rx_key_def by fastforce
  moreover have "CountByMessage (db\<lparr>rx_rows := rx_rows db @ [x], rx_seq := rx_seq db + 1\<rparr>) i \<le> MaxReactionsPerMessage" for i
    using inv assms(6) by (auto simp: CountByMessage_def rx_inv_def)
  moreover have "one_claim (rx_rows db @ [x])"
  proof -
    have old: "rx_AgentName y = rx_AgentName z" if "y \<in> set (rx_rows db)" "z \<in> set (rx_rows db)"
      "rx_MessageID y = rx_MessageID z" "rx_Reaction y = ''in_progress''" "rx_Reaction z = ''in_progress''" for y z
      using that inv unfolding rx_inv_def one_claim_def by blast
    show ?thesis unfolding one_claim_def
    proof (intro ballI impI, elim conjE)
      fix y z assume "y \<in> set (rx_rows db @ [x])" "z \<in> set (rx_rows db @ [x])" "rx_MessageID y = rx_MessageID z"
        "rx_Reaction y = ''in_progress''" "rx_Reaction z = ''in_progress''"
      then show "rx_AgentName y = rx_AgentName z" using old [of y z] claim [of y] claim [of z] by auto
    qed
  qed
  ultimately show ?thesis
    using inv assms(3) by (simp add: rx_inv_def)
qed

lemma rx_Insert_inv:
  assumes inv: "rx_inv db" and ok: "add_error flt i a r db = None"
  shows "rx_inv (snd (rx_Insert fails msgs now (new_reaction i a r metadata) db))"
proof (cases "snd (rx_Insert fails msgs now (new_reaction i a r metadata) db) = db")
  case False
  let ?x = "(new_reaction i a r metadata)\<lparr>rx_ID := rx_seq db + 1, rx_CreatedAt := now\<rparr>"
  have x: "rx_MessageID ?x = i" "rx_AgentName ?x = a" "rx_Reaction ?x = r" "rx_ID ?x = rx_seq db + 1"
    by (simp_all add: new_reaction_def)
  from False have db': "snd (rx_Insert fails msgs now (new_reaction i a r metadata) db) =
      db\<lparr>rx_rows := rx_rows db @ [?x], rx_seq := rx_seq db + 1\<rparr>"
    and valid: "IsValidReaction r" and new: "rows_affected (rx_key i a r) (rx_rows db) = 0"
    by (auto simp: rx_Insert_def new_reaction_def Let_def simp del: rows_affected_0 split: if_splits)
  have claims: "r = ''in_progress'' \<longrightarrow> claimed_by_other db i a = None" and
    few: "CountByMessage db i < MaxReactionsPerMessage"
    using ok by (auto simp: add_error_def split: if_splits)
  show ?thesis
    unfolding db'
  proof (rule rx_inv_insert [OF inv x(4)])
    fix y assume "y \<in> set (rx_rows db)" "rx_MessageID y = rx_MessageID ?x" "rx_Reaction y = ''in_progress''"
      "rx_Reaction ?x = ''in_progress''"
    with claims show "rx_AgentName y = rx_AgentName ?x"
      unfolding x by (auto simp: claimed_by_other_def GetByMessageID_def)
  qed (use valid new few x in auto)
qed (use inv in simp)

lemma toggle_off_db: "fst (snd (snd (toggle_off svc flt i a r o' db st))) = snd (rx_Delete (flt RxDelete) i a r db)"
  by (simp add: toggle_off_def split: prod.split sum.split)

lemma toggle_on_db:
  "fst (snd (snd (toggle_on svc flt msgs now i a r metadata o' db st))) =
     (if add_error flt i a r db = None
      then snd (rx_Insert (flt RxInsert) msgs now (new_reaction i a r metadata) db) else db)"
  by (simp add: toggle_on_def split: prod.split sum.split option.split)

lemma Toggle_inv: "rx_inv db \<Longrightarrow> rx_inv (fst (snd (snd (Toggle svc flt msgs now i a r metadata db st))))"
  by (simp add: Toggle_def Let_def toggle_off_db toggle_on_db rx_Delete_inv rx_Insert_inv)

lemma Remove_inv: "rx_inv db \<Longrightarrow> rx_inv (snd (Remove fails i a r db))"
  by (simp add: Remove_def rx_Delete_inv)

section \<open>Runs and trust\<close>

datatype rx_op =
    OpToggle "rx_stmt \<Rightarrow> bool" "id64 list" timestamp id64 string string "json option"
  | OpRemove bool id64 string string

fun rx_exec :: "'t rx_service \<Rightarrow> rx_op \<Rightarrow> rx_db \<times> 't \<Rightarrow> rx_db \<times> 't" where
  "rx_exec svc (OpToggle flt msgs now i a r metadata) (db, st) =
     snd (snd (Toggle svc flt msgs now i a r metadata db st))"
| "rx_exec svc (OpRemove fails i a r) (db, st) = (snd (Remove fails i a r db), st)"

definition rx_state_inv :: "rx_db \<times> 't \<Rightarrow> bool" where
  "rx_state_inv s \<longleftrightarrow> rx_inv (fst s)"

interpretation rx: invariant_system "rx_exec svc" rx_state_inv for svc :: "'t rx_service"
proof
  fix op and s :: "rx_db \<times> 't" assume "rx_state_inv s"
  then show "rx_state_inv (rx_exec svc op s)"
    by (cases s; cases op) (simp_all add: rx_state_inv_def Toggle_inv Remove_inv)
qed

text \<open>What the reaction service relies on of the trust scores.\<close>

locale trust_adjuster =
  fixes approve :: "string \<Rightarrow> string \<Rightarrow> 't \<Rightarrow> 't" and reject :: "string \<Rightarrow> string \<Rightarrow> 't \<Rightarrow> 't"
    and score :: "'t \<Rightarrow> string \<Rightarrow> string \<Rightarrow> rat"
  assumes approve_score: "score (approve a t s) a' t' =
      (if a' = a \<and> t' = t then ClampScore (score s a t + 1 / 20) else score s a' t')"
    and reject_score: "score (reject a t s) a' t' =
      (if a' = a \<and> t' = t then ClampScore (score s a t - 1 / 10) else score s a' t')"
begin

text \<open>Trust moves only when a human's approval or rejection is added to a message of an AI agent.\<close>

lemma toggle_score:
  assumes "rs_adjuster svc = Some (approve, reject)"
    and "score (snd (snd (snd (Toggle svc flt msgs now i a r metadata db st)))) b t \<noteq> score st b t"
  shows "\<exists>agentType author. rs_agentType svc = Some agentType \<and> rs_author svc = Some author \<and>
    agentType a = Some ''human'' \<and> author i = Some b \<and> agentType b = Some ''ai'' \<and> t = ''publish'' \<and>
    (r = ''approve'' \<or> r = ''reject'') \<and> \<not> rx_Exists db i a r"
proof -
  have st': "snd (snd (snd (Toggle svc flt msgs now i a r metadata db st))) = st \<or>
      (\<not> rx_Exists db i a r \<and>
       snd (snd (snd (Toggle svc flt msgs now i a r metadata db st))) = adjustTrustIfNeeded svc i a r st)"
    by (simp add: Toggle_def Let_def toggle_off_def toggle_on_def split: prod.split sum.split option.split)
  with assms(2) have "score (adjustTrustIfNeeded svc i a r st) b t \<noteq> score st b t" and "\<not> rx_Exists db i a r"
    by auto
  then show ?thesis
    using assms(1) by (auto simp: adjustTrustIfNeeded_def approve_score reject_score split: option.splits if_splits)
qed

end

interpretation trust_store: trust_adjuster "\<lambda>a t db. snd (RecordApproval False now a t db)"
  "\<lambda>a t db. snd (RecordRejection False now a t db)" GetScore for now
  by unfold_locales (simp_all add: RecordApproval_def RecordRejection_def UpsertScore_GetScore
      ApprovalIncrement_def RejectionDecrement_def)

section \<open>Listing by state\<close>

lemma GetByMessageIDs_eq: "i \<in> set ids \<Longrightarrow> GetByMessageIDs db ids i = GetByMessageID db i"
proof -
  assume i: "i \<in> set ids"
  have "filter (\<lambda>x. rx_MessageID x = i) (filter (\<lambda>x. rx_MessageID x \<in> set ids) (rx_rows db)) =
      filter (\<lambda>x. rx_MessageID x = i) (rx_rows db)"
    using i by (auto intro!: filter_cong)
  then show ?thesis by (simp add: GetByMessageIDs_def GetByMessageID_def filter_sort)
qed

lemma set_GetByMessageID: "set (GetByMessageID db i) = {x \<in> set (rx_rows db). rx_MessageID x = i}"
  by (auto simp: GetByMessageID_def)

lemma workflow_reaction:
  assumes "rx_inv db" and "ComputeWorkflowState (GetByMessageID db i) = state_of rt" and "IsValidReaction rt"
  shows "\<exists>x \<in> set (rx_rows db). rx_MessageID x = i \<and> rx_Reaction x = rt"
proof -
  let ?rxs = "GetByMessageID db i"
  have valid: "IsValidReaction (rx_Reaction x)" if "x \<in> set ?rxs" for x
    using that assms(1) by (auto simp: set_GetByMessageID rx_inv_def)
  have "?rxs \<noteq> []" using assms(2) state_not_proposed [OF assms(3)] by (auto simp: ComputeWorkflowState_def)
  from workflow_dominant [OF this valid] obtain r where
    r: "dominates r (rx_Reaction ` set ?rxs)" "ComputeWorkflowState ?rxs = state_of r" by blast
  then obtain x where x: "x \<in> set ?rxs" "r = rx_Reaction x" by (auto simp: dominates_def)
  with state_inj [OF valid [OF x(1)] assms(3)] r assms(2) have "rx_Reaction x = rt" by simp
  with x show ?thesis by (auto simp: set_GetByMessageID)
qed

lemma workflow_proposed:
  assumes "rx_inv db"
  shows "ComputeWorkflowState (GetByMessageID db i) = ''proposed'' \<longleftrightarrow> (\<forall>x \<in> set (rx_rows db). rx_MessageID x \<noteq> i)"
proof (cases "GetByMessageID db i = []")
  case True
  then have "{x \<in> set (rx_rows db). rx_MessageID x = i} = {}" using set_GetByMessageID [of db i] by simp
  then show ?thesis using True by (auto simp: ComputeWorkflowState_def)
next
  case False
  have valid: "IsValidReaction (rx_Reaction x)" if "x \<in> set (GetByMessageID db i)" for x
    using that assms by (auto simp: set_GetByMessageID rx_inv_def)
  from workflow_dominant [OF False valid] obtain r where
    r: "dominates r (rx_Reaction ` set (GetByMessageID db i))" "ComputeWorkflowState (GetByMessageID db i) = state_of r" by blast
  then have "IsValidReaction r" using valid by (auto simp: dominates_def)
  with r state_not_proposed have "ComputeWorkflowState (GetByMessageID db i) \<noteq> ''proposed''" by simp
  moreover have "set (GetByMessageID db i) \<noteq> {}" using False by simp
  ultimately show ?thesis by (auto simp: set_GetByMessageID)
qed

lemma find_state:
  "find (\<lambda>p. snd p = st) reactionToState = Some (rt, s) \<Longrightarrow> s = st \<and> IsValidReaction rt \<and> state_of rt = st"
  by (auto simp: reactionToState_def state_of_def IsValidReaction_def split: if_splits)

section \<open>Properties\<close>

text \<open>
  Whatever toggles and removals run, at most one agent has a message in progress, no agent
  has the same reaction twice on a message, only the six valid reactions occur and no message
  has more than 100 of them.
\<close>

theorem reactions_invariant:
  "rx_inv (fst (fold (rx_exec svc) ops (rx_empty, st)))"
  using rx.run_inv [of "(rx_empty, st)" svc ops] rx_empty_inv by (simp add: rx_state_inv_def)

text \<open>
  Listing by state is exact: for the proposed state and for the state of any reaction,
  \<open>ListByState\<close> returns the messages of the channel whose derived workflow state is the
  given one, newest first.
\<close>

theorem list_by_state_exact:
  assumes "rx_inv db" and "state = ''proposed'' \<or> (\<exists>rt. IsValidReaction rt \<and> state = state_of rt)"
  shows "ListByState msgs db ch state =
    Inr (map msg_ID (filter (\<lambda>m. ComputeWorkflowState (GetByMessageID db (msg_ID m)) = state)
      (sort_key (\<lambda>m. - msg_CreatedAt m) (filter (\<lambda>m. msg_ChannelID m = Some ch) msgs))))"
proof (cases "state = ''proposed''")
  case True
  then show ?thesis
    using workflow_proposed [OF assms(1)] by (simp add: ListByState_def GetMessageIDsByState_def Let_def)
next
  case False
  with assms(2) obtain rt0 where rt0: "IsValidReaction rt0" "state = state_of rt0" by blast
  let ?S = "sort_key (\<lambda>m. - msg_CreatedAt m) (filter (\<lambda>m. msg_ChannelID m = Some ch) msgs)"
  have "(rt0, state) \<in> set reactionToState"
    using rt0 by (auto simp: IsValidReaction_def state_of_def reactionToState_def)
  then obtain rt s where f: "find (\<lambda>p. snd p = state) reactionToState = Some (rt, s)"
    by (cases "find (\<lambda>p. snd p = state) reactionToState") (auto simp: find_None_iff)
  note rt = find_state [OF f]
  let ?has = "\<lambda>m. \<exists>x \<in> set (rx_rows db). rx_MessageID x = msg_ID m \<and> rx_Reaction x = rt"
  let ?c = "map msg_ID (filter ?has ?S)"
  have cand: "GetMessageIDsByState msgs db ch state = Inr ?c"
    using False f by (simp add: GetMessageIDsByState_def Let_def)
  have "filter (\<lambda>i. ComputeWorkflowState (GetByMessageIDs db ?c i) = state) ?c =
      filter (\<lambda>i. ComputeWorkflowState (GetByMessageID db i) = state) ?c"
    by (rule filter_cong) (simp_all only: GetByMessageIDs_eq)
  also have "\<dots> = map msg_ID (filter (\<lambda>m. ?has m \<and> ComputeWorkflowState (GetByMessageID db (msg_ID m)) = state) ?S)"
    by (simp add: filter_map comp_def conj_commute)
  also have "\<dots> = map msg_ID (filter (\<lambda>m. ComputeWorkflowState (GetByMessageID db (msg_ID m)) = state) ?S)"
    using workflow_reaction [OF assms(1)] rt by (intro arg_cong [where f = "map msg_ID"] filter_cong) auto
  finally show ?thesis using False by (simp add: ListByState_def cand)
qed

text \<open>A human and an AI agent, messages 1 and 2 of channel 1 written by the AI agent.\<close>

definition review_service :: "trust_db rx_service" where
  "review_service = \<lparr>rs_notifier = True,
     rs_adjuster = Some (\<lambda>a t db. snd (RecordApproval False 0 a t db), \<lambda>a t db. snd (RecordRejection False 0 a t db)),
     rs_agentType = Some (\<lambda>a. if a = ''ann'' then Some ''human'' else if a = ''bot'' then Some ''ai'' else None),
     rs_author = Some (\<lambda>i. if i = 1 \<or> i = 2 then Some ''bot'' else None)\<rparr>"

definition review_message :: "id64 \<Rightarrow> Message" where
  "review_message i = \<lparr>msg_ID = i, msg_ConversationID = 1, msg_FromAgent = ''bot'', msg_ToAgent = None,
     msg_ChannelID = Some 1, msg_ReplyTo = None, msg_Body = ''x'', msg_Priority = 5, msg_Status = MPending,
     msg_Metadata = JObj [], msg_ClaimedBy = None, msg_ClaimedAt = None, msg_CreatedAt = i, msg_UpdatedAt = i\<rparr>"

definition ann_toggles :: "id64 \<Rightarrow> string \<Rightarrow> rx_op" where
  "ann_toggles i r = OpToggle (\<lambda>_. False) [1, 2] 5 i ''ann'' r None"

definition reviewed :: "rx_db \<times> trust_db" where
  "reviewed = fold (rx_exec review_service) [ann_toggles 1 ''approve'', ann_toggles 1 ''reject''] (rx_empty, trust_empty)"

lemma reviewed_inv: "rx_inv (fst reviewed)"
  using rx.run_inv [of "(rx_empty, trust_empty)" review_service "[ann_toggles 1 ''approve'', ann_toggles 1 ''reject'']"]
    rx_empty_inv by (simp add: rx_state_inv_def reviewed_def)

theorem list_by_state_exact_witness:
  "rx_inv (fst reviewed) \<and>
   ListByState [review_message 1, review_message 2] (fst reviewed) 1 ''rejected'' = Inr [1]"
proof -
  have st: "''rejected'' = state_of ''reject''" "IsValidReaction ''reject''" by code_simp+
  have "map msg_ID (filter (\<lambda>m. ComputeWorkflowState (GetByMessageID (fst reviewed) (msg_ID m)) = ''rejected'')
      (sort_key (\<lambda>m. - msg_CreatedAt m) (filter (\<lambda>m. msg_ChannelID m = Some 1) [review_message 1, review_message 2]))) = [1]"
    by code_simp
  with list_by_state_exact [OF reviewed_inv, of "''rejected''" "[review_message 1, review_message 2]" 1] st
  show ?thesis by (auto simp: reviewed_inv)
qed

text \<open>
  A reaction moves a trust score only if it is newly added, is an approval or a rejection,
  comes from a human and concerns a message of an AI agent, and then only that agent's score
  for publishing.
\<close>

theorem toggle_moves_trust:
  assumes "rs_adjuster svc = Some (\<lambda>a t db. snd (RecordApproval False now a t db),
      \<lambda>a t db. snd (RecordRejection False now a t db))"
    and "GetScore (snd (snd (snd (Toggle svc flt msgs now' i a r metadata db tdb)))) b t \<noteq> GetScore tdb b t"
  shows "\<exists>agentType author. rs_agentType svc = Some agentType \<and> rs_author svc = Some author \<and>
    agentType a = Some ''human'' \<and> author i = Some b \<and> agentType b = Some ''ai'' \<and> t = ''publish'' \<and>
    (r = ''approve'' \<or> r = ''reject'') \<and> \<not> rx_Exists db i a r"
  by (rule trust_store.toggle_score [OF assms])

theorem toggle_moves_trust_witness:
  "\<exists>agentType. rs_agentType review_service = Some agentType \<and> agentType ''ann'' = Some ''human''"
proof -
  have "GetScore (snd (snd (snd (Toggle review_service (\<lambda>_. False) [1, 2] 5 1 ''ann'' ''approve'' None rx_empty trust_empty))))
      ''bot'' ''publish'' \<noteq> GetScore trust_empty ''bot'' ''publish''"
    by code_simp
  moreover have "rs_adjuster review_service = Some (\<lambda>a t db. snd (RecordApproval False 0 a t db),
      \<lambda>a t db. snd (RecordRejection False 0 a t db))" by (simp add: review_service_def)
  ultimately show ?thesis using toggle_moves_trust by blast
qed

text \<open>
  Toggling an approval off does not take back the trust it gave, and toggling it on again
  gives it once more: after three rounds on one message, with a single approval left, the
  author's score stands at three increments.
\<close>

theorem toggling_inflates_trust:
  "case fold (rx_exec review_service) (replicate 5 (ann_toggles 1 ''approve'')) (rx_empty, trust_empty) of
     (db, tdb) \<Rightarrow> length (rx_rows db) = 1 \<and> GetScore tdb ''bot'' ''publish'' = 3 / 20"
  by code_simp

text \<open>The reactions both tables know, on which they agree up to the scale of the priorities.\<close>

definition classic_reactions :: "string list" where
  "classic_reactions = [''approve'', ''reject'', ''in_progress'', ''done'', ''published'']"

definition same_rank :: "nat \<Rightarrow> nat \<Rightarrow> bool" where
  "same_rank p p' \<longleftrightarrow> (\<exists>r \<in> set classic_reactions. map_of enrich_priorities r = Some p \<and> map_of reactionPriority r = Some p')"

lemma enrich_tables:
  "\<forall>r \<in> set classic_reactions. map_of enrich_states r = map_of reactionToState r \<and>
     map_of enrich_states r \<noteq> Some '''' \<and> map_of enrich_states r \<noteq> None \<and>
     map_of enrich_priorities r \<noteq> None \<and> map_of reactionPriority r \<noteq> None \<and>
     (\<forall>r' \<in> set classic_reactions. (the (map_of enrich_priorities r) < the (map_of enrich_priorities r')) =
        (the (map_of reactionPriority r) < the (map_of reactionPriority r'))) \<and>
     0 < the (map_of enrich_priorities r) \<and> 0 < the (map_of reactionPriority r)"
  by code_simp

lemma classic_row:
  assumes "r \<in> set classic_reactions"
  obtains p p' s where "map_of enrich_priorities r = Some p" "map_of reactionPriority r = Some p'" "0 < p" "0 < p'"
    "map_of enrich_states r = Some s" "map_of reactionToState r = Some s" "s \<noteq> ''''" "same_rank p p'"
proof -
  from bspec [OF enrich_tables assms] obtain p p' s where p: "map_of enrich_priorities r = Some p"
    "map_of reactionPriority r = Some p'" "0 < p" "0 < p'" "map_of enrich_states r = Some s"
    "map_of reactionToState r = Some s" "s \<noteq> ''''" by fastforce
  moreover from p assms have "same_rank p p'" by (auto simp: same_rank_def)
  ultimately show ?thesis by (rule that)
qed

lemma same_rank_less: "same_rank p p' \<Longrightarrow> same_rank q q' \<Longrightarrow> (p < q) = (p' < q')"
  using enrich_tables by (fastforce simp: same_rank_def)

lemma enrich_highest:
  "set rs \<subseteq> set classic_reactions \<Longrightarrow> same_rank hp hp' \<Longrightarrow>
     snd (highest enrich_priorities enrich_states (hp, hs) rs) =
     snd (highest reactionPriority reactionToState (hp', hs) rs)"
proof (induction rs arbitrary: hp hp' hs)
  case (Cons r rs)
  then have "r \<in> set classic_reactions" by simp
  then obtain p p' s where p: "map_of enrich_priorities r = Some p" "map_of reactionPriority r = Some p'"
    "map_of enrich_states r = Some s" "map_of reactionToState r = Some s" "same_rank p p'"
    by (rule classic_row)
  with same_rank_less [OF Cons.prems(2) p(5)] Cons.IH [OF _ p(5)] Cons.IH [OF _ Cons.prems(2)] Cons.prems(1)
  show ?case by simp
qed simp

lemma enrich_not_empty:
  assumes "set rs \<subseteq> set classic_reactions" and "s \<noteq> ''''"
  shows "snd (highest enrich_priorities enrich_states (p, s) rs) \<noteq> ''''"
  using assms
proof (induction rs arbitrary: p s)
  case (Cons r rs)
  then have "r \<in> set classic_reactions" by simp
  then obtain q t where "map_of enrich_priorities r = Some q" "map_of enrich_states r = Some t" "t \<noteq> ''''"
    by (rule classic_row)
  with Cons show ?case by simp
qed simp

text \<open>
  The two derivations of the workflow state. For a channel message the state that
  \<open>EnrichMessages\<close> shows is the one \<open>ComputeWorkflowState\<close> gives, unless a reaction
  \<open>awarded\<close> is present, which its table does not know.
\<close>

theorem enriched_state_agrees:
  assumes "msg_ChannelID m \<noteq> None" and "\<forall>x \<in> set rxs. IsValidReaction (rx_Reaction x) \<and> rx_Reaction x \<noteq> ''awarded''"
  shows "enriched_state m (map rx_Reaction rxs) = ComputeWorkflowState rxs"
proof (cases rxs)
  case Nil
  with assms(1) show ?thesis by (simp add: enriched_state_def ComputeWorkflowState_def)
next
  case (Cons x xs)
  have sub: "set (map rx_Reaction rxs) \<subseteq> set classic_reactions"
    using assms(2) by (auto simp: IsValidReaction_def classic_reactions_def)
  with Cons have "rx_Reaction x \<in> set classic_reactions" by simp
  then obtain p p' s where p: "map_of enrich_priorities (rx_Reaction x) = Some p" "0 < p"
    "map_of reactionPriority (rx_Reaction x) = Some p'" "0 < p'" "map_of enrich_states (rx_Reaction x) = Some s"
    "map_of reactionToState (rx_Reaction x) = Some s" "s \<noteq> ''''" "same_rank p p'"
    by (rule classic_row)
  have xs: "set (map rx_Reaction xs) \<subseteq> set classic_reactions" using sub Cons by simp
  from enrich_highest [OF xs p(8), of s] enrich_not_empty [OF xs p(7), of p]
  have "snd (highest reactionPriority reactionToState (p', s) (map rx_Reaction xs)) \<noteq> ''''" by simp
  with Cons p enrich_highest [OF xs p(8)] show ?thesis
    by (simp add: enriched_state_def ComputeWorkflowState_def Let_def)
qed

theorem enriched_state_agrees_witness:
  "enriched_state (review_message 1) (map rx_Reaction (rx_rows (fst reviewed))) =
   ComputeWorkflowState (rx_rows (fst reviewed))"
proof (rule enriched_state_agrees)
  show "msg_ChannelID (review_message 1) \<noteq> None" by (simp add: review_message_def)
  show "\<forall>x \<in> set (rx_rows (fst reviewed)). IsValidReaction (rx_Reaction x) \<and> rx_Reaction x \<noteq> ''awarded''"
    by code_simp
qed

text \<open>The case left out: an awarded message is shown as proposed.\<close>

lemma awarded_shown_as_proposed:
  "enriched_state (review_message 1) [''awarded''] = ''proposed''"
  by code_simp

end
