(* ===== verification/Channels.thy ===== *)
theory Channels
  imports Message_Lifecycle Complex_Main
begin

text \<open>
  Channels: \<open>internal/channels/types.go\<close>, \<open>errors.go\<close>, \<open>validate.go\<close>, \<open>store.go\<close> and
  \<open>service.go\<close>.

  The tables \<open>channels\<close>, \<open>channel_members\<close> and \<open>channel_invites\<close> are the record
  \<open>ch_db\<close>, which also keeps the calls made to the tracer. Every statement of the store may
  fail: the store operations take a Boolean, the service operations a function \<open>flt\<close> that
  says which of their statements fail (\<open>InJoin\<close>, \<open>InCreate\<close> and \<open>Reload\<close> mark the
  statements of a nested call or of a second read).

  \<open>BroadcastMessage\<close> works on the channel tables and on the message tables of
  \<open>Messaging\<close>: it goes through \<open>SendMessage\<close>, whose agent, channel and member tables are
  read off the channel state (\<open>env_of\<close>). Its loop over the mentioned members is verified
  once, in the locale \<open>message_sink\<close>, against the laws of a sending operation.

  Channel names are ASCII, as \<open>ValidateChannelName\<close> demands; the lower-casing of a name that
  is looked up is the ASCII one, as in SQLite's \<open>LOWER\<close>.
\<close>

section \<open>Data\<close>

datatype member_role = RoleOwner | RoleMember

datatype invite_status = InvitePending | InviteAccepted | InviteDeclined

record Channel =
  chn_ID :: id64
  chn_Name :: string
  chn_Description :: string
  chn_Topic :: string
  chn_Type :: string
  chn_IsPrivate :: bool
  chn_IsSystem :: bool
  chn_CreatedBy :: string
  chn_WorkflowEnabled :: bool
  chn_AutoApprove :: bool
  chn_StalemateRemindAfter :: string
  chn_StalemateEscalateAfter :: string
  chn_PublishThreshold :: rat
  chn_ApproveThreshold :: rat
  chn_CreatedAt :: timestamp
  chn_UpdatedAt :: timestamp

record Membership =
  mb_ID :: id64
  mb_ChannelID :: id64
  mb_AgentName :: string
  mb_Role :: member_role
  mb_JoinedAt :: timestamp

record ChannelInvite =
  ci_ID :: id64
  ci_ChannelID :: id64
  ci_AgentName :: string
  ci_InvitedBy :: string
  ci_CreatedAt :: timestamp
  ci_Status :: invite_status

record CreateChannelRequest =
  cr_Name :: string
  cr_Description :: string
  cr_Topic :: string
  cr_Type :: string
  cr_IsPrivate :: bool
  cr_IsSystem :: bool
  cr_CreatedBy :: string

record UpdateChannelRequest =
  ur_Description :: "string option"
  ur_Topic :: "string option"

record ChannelSettings =
  st_WorkflowEnabled :: bool
  st_AutoApprove :: bool
  st_StalemateRemindAfter :: string
  st_StalemateEscalateAfter :: string
  st_PublishThreshold :: rat
  st_ApproveThreshold :: rat

record ChannelWithCount =
  cwc_Channel :: Channel
  cwc_MemberCount :: nat

record PaginatedChannels =
  pc_Channels :: "ChannelWithCount list"
  pc_Total :: nat
  pc_Offset :: int
  pc_Limit :: int

record ChannelSummary =
  csm_ID :: id64
  csm_Name :: string
  csm_UnreadCount :: nat
  csm_LastMessageID :: id64
  csm_LastMessageAt :: "timestamp option"

datatype ch_error =
    ErrChannelNotFound
  | ErrChannelNameConflict
  | ErrNotChannelMember
  | ErrNotChannelOwner
  | ErrOwnerCannotLeave
  | ErrNotInvited
  | ErrInvalidChannelName
  | ErrSystemChannel
  | CannotKickYourself
  | ChMessageError msg_error
  | ChPanic
  | ChStatementFailed

datatype ch_stmt =
    QCreateChannel | QGetChannel | QGetChannelByName | QListChannels | QUpdateChannel | QDeleteChannel
  | QAddMember | QRemoveMember | QGetMember | QGetMembers | QIsMember | QCountMembers
  | QCreateInvite | QHasPendingInvite | QAcceptInvite | QUpdateSettings
  | InJoin ch_stmt | InCreate ch_stmt | Reload ch_stmt

record ch_db =
  cd_channels :: "Channel list"
  cd_ch_seq :: id64
  cd_members :: "Membership list"
  cd_mb_seq :: id64
  cd_invites :: "ChannelInvite list"
  cd_ci_seq :: id64
  cd_tracer :: bool
  cd_traces :: "(string \<times> string) list"

section \<open>Names\<close>

definition matches_name_regex :: "string \<Rightarrow> bool" where
  "matches_name_regex name = (case name of [] \<Rightarrow> False | c # cs \<Rightarrow> is_alnum c \<and> list_all name_char cs)"

definition ValidateChannelName :: "string \<Rightarrow> ch_error option" where
  "ValidateChannelName name =
     (if name = '''' then Some ErrInvalidChannelName
      else if 64 < length name then Some ErrInvalidChannelName
      else if \<not> matches_name_regex name then Some ErrInvalidChannelName
      else None)"

definition NormalizeChannelName :: "string \<Rightarrow> string" where
  "NormalizeChannelName name = to_lower name"

section \<open>Store\<close>

definition channel_types :: "string list" where
  "channel_types = [''standard'', ''blackboard'', ''auction'']"

definition store_CreateChannel :: "bool \<Rightarrow> timestamp \<Rightarrow> Channel \<Rightarrow> ch_db \<Rightarrow> (ch_error + Channel) \<times> ch_db" where
  "store_CreateChannel failed now ch db =
     (if failed \<or> chn_Type ch \<notin> set channel_types then (Inl ChStatementFailed, db)
      else if chn_Name ch \<in> set (map chn_Name (cd_channels db)) then (Inl ErrChannelNameConflict, db)
      else let i = cd_ch_seq db + 1;
               row = ch\<lparr>chn_ID := i, chn_WorkflowEnabled := False, chn_AutoApprove := False,
                 chn_StalemateRemindAfter := ''24h'', chn_StalemateEscalateAfter := ''72h'',
                 chn_PublishThreshold := 4 / 5, chn_ApproveThreshold := 3 / 5,
                 chn_CreatedAt := now, chn_UpdatedAt := now\<rparr>
        in (Inr (ch\<lparr>chn_ID := i\<rparr>), db\<lparr>cd_channels := cd_channels db @ [row], cd_ch_seq := i\<rparr>))"

definition GetChannel :: "bool \<Rightarrow> id64 \<Rightarrow> ch_db \<Rightarrow> ch_error + Channel" where
  "GetChannel failed i db =
     (if failed then Inl ChStatementFailed
      else case find_row (\<lambda>c. chn_ID c = i) (cd_channels db) of
             None \<Rightarrow> Inl ErrChannelNotFound | Some c \<Rightarrow> Inr c)"

definition store_GetChannelByName :: "bool \<Rightarrow> string \<Rightarrow> ch_db \<Rightarrow> ch_error + Channel" where
  "store_GetChannelByName failed name db =
     (if failed then Inl ChStatementFailed
      else case find_row (\<lambda>c. to_lower (chn_Name c) = to_lower name) (cd_channels db) of
             None \<Rightarrow> Inl ErrChannelNotFound | Some c \<Rightarrow> Inr c)"

definition member_row :: "id64 \<Rightarrow> string \<Rightarrow> Membership \<Rightarrow> bool" where
  "member_row c a m \<longleftrightarrow> mb_ChannelID m = c \<and> mb_AgentName m = a"

definition invite_row :: "id64 \<Rightarrow> string \<Rightarrow> ChannelInvite \<Rightarrow> bool" where
  "invite_row c a v \<longleftrightarrow> ci_ChannelID v = c \<and> ci_AgentName v = a"

definition pending_row :: "id64 \<Rightarrow> string \<Rightarrow> ChannelInvite \<Rightarrow> bool" where
  "pending_row c a v \<longleftrightarrow> invite_row c a v \<and> ci_Status v = InvitePending"

definition visible_to :: "ch_db \<Rightarrow> string \<Rightarrow> Channel \<Rightarrow> bool" where
  "visible_to db agent c \<longleftrightarrow> \<not> chn_IsPrivate c \<or>
     (\<exists>m \<in> set (cd_members db). member_row (chn_ID c) agent m) \<or>
     (\<exists>v \<in> set (cd_invites db). pending_row (chn_ID c) agent v)"

definition store_ListChannels :: "bool \<Rightarrow> string \<Rightarrow> ch_db \<Rightarrow> ch_error + Channel list" where
  "store_ListChannels failed agent db =
     (if failed then Inl ChStatementFailed
      else Inr (sort_key chn_Name (filter (visible_to db agent) (cd_channels db))))"

definition CountChannels :: "bool \<Rightarrow> string \<Rightarrow> ch_db \<Rightarrow> ch_error + nat" where
  "CountChannels failed agent db =
     (if failed then Inl ChStatementFailed
      else Inr (length (dedup (map chn_ID (filter (visible_to db agent) (cd_channels db))))))"

definition store_UpdateChannel :: "bool \<Rightarrow> timestamp \<Rightarrow> Channel \<Rightarrow> ch_db \<Rightarrow> (ch_error + unit) \<times> ch_db" where
  "store_UpdateChannel failed now ch db =
     (if failed then (Inl ChStatementFailed, db)
      else let db' = db\<lparr>cd_channels := update_where (\<lambda>c. chn_ID c = chn_ID ch)
             (\<lambda>c. c\<lparr>chn_Description := chn_Description ch, chn_Topic := chn_Topic ch, chn_UpdatedAt := now\<rparr>)
             (cd_channels db)\<rparr>
        in if rows_affected (\<lambda>c. chn_ID c = chn_ID ch) (cd_channels db) = 0
           then (Inl ErrChannelNotFound, db') else (Inr (), db'))"

text \<open>
  \<open>referenced\<close> says which channels a conversation, a message or an auction task refers to:
  those foreign keys do not cascade and make the deletion fail. Members and invites go with
  the channel.
\<close>

definition store_DeleteChannel :: "bool \<Rightarrow> (id64 \<Rightarrow> bool) \<Rightarrow> id64 \<Rightarrow> ch_db \<Rightarrow> (ch_error + unit) \<times> ch_db" where
  "store_DeleteChannel failed referenced i db =
     (let hit = (\<lambda>c. chn_ID c = i) in
      if failed \<or> (0 < rows_affected hit (cd_channels db) \<and> referenced i) then (Inl ChStatementFailed, db)
      else if rows_affected hit (cd_channels db) = 0 then (Inl ErrChannelNotFound, db)
      else (Inr (), db\<lparr>cd_channels := delete_where hit (cd_channels db),
               cd_members := delete_where (\<lambda>m. mb_ChannelID m = i) (cd_members db),
               cd_invites := delete_where (\<lambda>v. ci_ChannelID v = i) (cd_invites db)\<rparr>))"

definition AddMember :: "bool \<Rightarrow> timestamp \<Rightarrow> id64 \<Rightarrow> string \<Rightarrow> member_role \<Rightarrow> ch_db \<Rightarrow> (ch_error + unit) \<times> ch_db" where
  "AddMember failed now c a role db =
     (if failed then (Inl ChStatementFailed, db)
      else if \<exists>m \<in> set (cd_members db). member_row c a m then (Inr (), db)
      else if c \<notin> set (map chn_ID (cd_channels db)) then (Inl ChStatementFailed, db)
      else let i = cd_mb_seq db + 1 in
        (Inr (), db\<lparr>cd_members := cd_members db @
           [\<lparr>mb_ID = i, mb_ChannelID = c, mb_AgentName = a, mb_Role = role, mb_JoinedAt = now\<rparr>],
           cd_mb_seq := i\<rparr>))"

definition RemoveMember :: "bool \<Rightarrow> id64 \<Rightarrow> string \<Rightarrow> ch_db \<Rightarrow> (ch_error + unit) \<times> ch_db" where
  "RemoveMember failed c a db =
     (if failed then (Inl ChStatementFailed, db)
      else let db' = db\<lparr>cd_members := delete_where (member_row c a) (cd_members db)\<rparr>
        in if rows_affected (member_row c a) (cd_members db) = 0 then (Inl ErrNotChannelMember, db')
           else (Inr (), db'))"

definition GetMember :: "bool \<Rightarrow> id64 \<Rightarrow> string \<Rightarrow> ch_db \<Rightarrow> ch_error + Membership" where
  "GetMember failed c a db =
     (if failed then Inl ChStatementFailed
      else case find_row (member_row c a) (cd_members db) of
             None \<Rightarrow> Inl ErrNotChannelMember | Some m \<Rightarrow> Inr m)"

definition GetMembers :: "bool \<Rightarrow> id64 \<Rightarrow> ch_db \<Rightarrow> ch_error + Membership list" where
  "GetMembers failed c db =
     (if failed then Inl ChStatementFailed
      else Inr (sort_key mb_JoinedAt (filter (\<lambda>m. mb_ChannelID m = c) (cd_members db))))"

definition IsMember :: "bool \<Rightarrow> id64 \<Rightarrow> string \<Rightarrow> ch_db \<Rightarrow> ch_error + bool" where
  "IsMember failed c a db =
     (if failed then Inl ChStatementFailed
      else Inr (0 < length (filter (member_row c a) (cd_members db))))"

definition CountMembers :: "bool \<Rightarrow> id64 \<Rightarrow> ch_db \<Rightarrow> ch_error + nat" where
  "CountMembers failed c db =
     (if failed then Inl ChStatementFailed
      else Inr (length (filter (\<lambda>m. mb_ChannelID m = c) (cd_members db))))"

definition CreateInvite :: "bool \<Rightarrow> timestamp \<Rightarrow> id64 \<Rightarrow> string \<Rightarrow> string \<Rightarrow> ch_db \<Rightarrow> (ch_error + unit) \<times> ch_db" where
  "CreateInvite failed now c a by db =
     (if failed \<or> c \<notin> set (map chn_ID (cd_channels db)) then (Inl ChStatementFailed, db)
      else if \<exists>v \<in> set (cd_invites db). invite_row c a v
      then (Inr (), db\<lparr>cd_invites := update_where (invite_row c a)
              (\<lambda>v. v\<lparr>ci_Status := InvitePending, ci_InvitedBy := by\<rparr>) (cd_invites db)\<rparr>)
      else let i = cd_ci_seq db + 1 in
        (Inr (), db\<lparr>cd_invites := cd_invites db @
           [\<lparr>ci_ID = i, ci_ChannelID = c, ci_AgentName = a, ci_InvitedBy = by, ci_CreatedAt = now,
             ci_Status = InvitePending\<rparr>], cd_ci_seq := i\<rparr>))"

definition GetInvite :: "bool \<Rightarrow> id64 \<Rightarrow> string \<Rightarrow> ch_db \<Rightarrow> ch_error + ChannelInvite" where
  "GetInvite failed c a db =
     (if failed then Inl ChStatementFailed
      else case find_row (invite_row c a) (cd_invites db) of
             None \<Rightarrow> Inl ErrNotInvited | Some v \<Rightarrow> Inr v)"

definition HasPendingInvite :: "bool \<Rightarrow> id64 \<Rightarrow> string \<Rightarrow> ch_db \<Rightarrow> ch_error + bool" where
  "HasPendingInvite failed c a db =
     (if failed then Inl ChStatementFailed
      else Inr (0 < length (filter (pending_row c a) (cd_invites db))))"

definition AcceptInvite :: "bool \<Rightarrow> id64 \<Rightarrow> string \<Rightarrow> ch_db \<Rightarrow> (ch_error + unit) \<times> ch_db" where
  "AcceptInvite failed c a db =
     (if failed then (Inl ChStatementFailed, db)
      else let db' = db\<lparr>cd_invites := update_where (pending_row c a)
             (\<lambda>v. v\<lparr>ci_Status := InviteAccepted\<rparr>) (cd_invites db)\<rparr>
        in if rows_affected (pending_row c a) (cd_invites db) = 0 then (Inl ErrNotInvited, db')
           else (Inr (), db'))"

definition max_or :: "int \<Rightarrow> int list \<Rightarrow> int" where
  "max_or d xs = (if xs = [] then d else Max (set xs))"

definition summary_of :: "msg_db \<Rightarrow> string \<Rightarrow> Channel \<Rightarrow> ChannelSummary" where
  "summary_of mdb agent c =
     (let ms = filter (\<lambda>m. msg_ChannelID m = Some (chn_ID c)) (md_msgs mdb) in
      \<lparr>csm_ID = chn_ID c, csm_Name = chn_Name c,
       csm_UnreadCount = length (filter (\<lambda>m. last_read mdb agent (msg_ConversationID m) < msg_ID m \<and>
          msg_FromAgent m \<noteq> agent) ms),
       csm_LastMessageID = max_or 0 (map msg_ID ms),
       csm_LastMessageAt = (if ms = [] then None else Some (max_or 0 (map msg_CreatedAt ms)))\<rparr>)"

definition GetChannelSummaries :: "bool \<Rightarrow> string \<Rightarrow> ch_db \<Rightarrow> msg_db \<Rightarrow> ch_error + ChannelSummary list" where
  "GetChannelSummaries failed agent db mdb =
     (if failed then Inl ChStatementFailed
      else Inr (map (summary_of mdb agent) (sort_key chn_Name
        (filter (\<lambda>c. \<exists>m \<in> set (cd_members db). member_row (chn_ID c) agent m) (cd_channels db)))))"

definition store_UpdateChannelSettings ::
  "bool \<Rightarrow> timestamp \<Rightarrow> id64 \<Rightarrow> ChannelSettings \<Rightarrow> ch_db \<Rightarrow> (ch_error + unit) \<times> ch_db" where
  "store_UpdateChannelSettings failed now i st db =
     (if failed then (Inl ChStatementFailed, db)
      else let db' = db\<lparr>cd_channels := update_where (\<lambda>c. chn_ID c = i)
             (\<lambda>c. c\<lparr>chn_WorkflowEnabled := st_WorkflowEnabled st, chn_AutoApprove := st_AutoApprove st,
                chn_StalemateRemindAfter := st_StalemateRemindAfter st,
                chn_StalemateEscalateAfter := st_StalemateEscalateAfter st,
                chn_PublishThreshold := st_PublishThreshold st,
                chn_ApproveThreshold := st_ApproveThreshold st, chn_UpdatedAt := now\<rparr>)
             (cd_channels db)\<rparr>
        in if rows_affected (\<lambda>c. chn_ID c = i) (cd_channels db) = 0
           then (Inl ErrChannelNotFound, db') else (Inr (), db'))"

section \<open>Service\<close>

definition record_trace :: "string \<Rightarrow> string \<Rightarrow> ch_db \<Rightarrow> ch_db" where
  "record_trace agent action db =
     (if cd_tracer db then db\<lparr>cd_traces := cd_traces db @ [(agent, action)]\<rparr> else db)"

definition new_channel :: "CreateChannelRequest \<Rightarrow> Channel" where
  "new_channel req =
     \<lparr>chn_ID = 0, chn_Name = NormalizeChannelName (cr_Name req), chn_Description = cr_Description req,
      chn_Topic = cr_Topic req, chn_Type = (if cr_Type req = '''' then ''standard'' else cr_Type req),
      chn_IsPrivate = cr_IsPrivate req, chn_IsSystem = cr_IsSystem req, chn_CreatedBy = cr_CreatedBy req,
      chn_WorkflowEnabled = False, chn_AutoApprove = False, chn_StalemateRemindAfter = '''',
      chn_StalemateEscalateAfter = '''', chn_PublishThreshold = 0, chn_ApproveThreshold = 0,
      chn_CreatedAt = 0, chn_UpdatedAt = 0\<rparr>"

definition CreateChannel ::
  "(ch_stmt \<Rightarrow> bool) \<Rightarrow> timestamp \<Rightarrow> CreateChannelRequest \<Rightarrow> ch_db \<Rightarrow> (ch_error + Channel) \<times> ch_db" where
  "CreateChannel flt now req db =
     (case ValidateChannelName (cr_Name req) of
        Some e \<Rightarrow> (Inl e, db)
      | None \<Rightarrow>
          (case store_CreateChannel (flt QCreateChannel) now (new_channel req) db of
             (Inl e, db1) \<Rightarrow> (Inl e, db1)
           | (Inr ch, db1) \<Rightarrow>
               (case AddMember (flt QAddMember) now (chn_ID ch) (cr_CreatedBy req) RoleOwner db1 of
                  (Inl e, db2) \<Rightarrow> (Inl e, db2)
                | (Inr _, db2) \<Rightarrow> (Inr ch, record_trace (cr_CreatedBy req) ''channel.create'' db2))))"

definition join_as_member ::
  "(ch_stmt \<Rightarrow> bool) \<Rightarrow> timestamp \<Rightarrow> id64 \<Rightarrow> string \<Rightarrow> ch_db \<Rightarrow> (ch_error + unit) \<times> ch_db" where
  "join_as_member flt now c agent db =
     (case AddMember (flt QAddMember) now c agent RoleMember db of
        (Inl e, db') \<Rightarrow> (Inl e, db')
      | (Inr _, db') \<Rightarrow> (Inr (), record_trace agent ''channel.join'' db'))"

definition JoinChannel ::
  "(ch_stmt \<Rightarrow> bool) \<Rightarrow> timestamp \<Rightarrow> id64 \<Rightarrow> string \<Rightarrow> ch_db \<Rightarrow> (ch_error + unit) \<times> ch_db" where
  "JoinChannel flt now c agent db =
     (case GetChannel (flt QGetChannel) c db of
        Inl e \<Rightarrow> (Inl e, db)
      | Inr ch \<Rightarrow>
          (case IsMember (flt QIsMember) c agent db of
             Inl e \<Rightarrow> (Inl e, db)
           | Inr True \<Rightarrow> (Inr (), db)
           | Inr False \<Rightarrow>
               if chn_IsPrivate ch then
                 (case HasPendingInvite (flt QHasPendingInvite) c agent db of
                    Inl e \<Rightarrow> (Inl e, db)
                  | Inr False \<Rightarrow> (Inl ErrNotInvited, db)
                  | Inr True \<Rightarrow>
                      (case AcceptInvite (flt QAcceptInvite) c agent db of
                         (Inl e, db1) \<Rightarrow> (Inl e, db1)
                       | (Inr _, db1) \<Rightarrow> join_as_member flt now c agent db1))
               else join_as_member flt now c agent db))"

definition LeaveChannel :: "(ch_stmt \<Rightarrow> bool) \<Rightarrow> id64 \<Rightarrow> string \<Rightarrow> ch_db \<Rightarrow> (ch_error + unit) \<times> ch_db" where
  "LeaveChannel flt c agent db =
     (case GetChannel (flt QGetChannel) c db of
        Inl e \<Rightarrow> (Inl e, db)
      | Inr ch \<Rightarrow>
          if chn_IsSystem ch then (Inl ErrSystemChannel, db)
          else (case GetMember (flt QGetMember) c agent db of
                  Inl e \<Rightarrow> (Inl e, db)
                | Inr m \<Rightarrow>
                    if mb_Role m = RoleOwner then (Inl ErrOwnerCannotLeave, db)
                    else (case RemoveMember (flt QRemoveMember) c agent db of
                            (Inl e, db') \<Rightarrow> (Inl e, db')
                          | (Inr _, db') \<Rightarrow> (Inr (), record_trace agent ''channel.leave'' db'))))"

definition DeleteChannel ::
  "(ch_stmt \<Rightarrow> bool) \<Rightarrow> (id64 \<Rightarrow> bool) \<Rightarrow> id64 \<Rightarrow> ch_db \<Rightarrow> (ch_error + unit) \<times> ch_db" where
  "DeleteChannel flt referenced c db =
     (case GetChannel (flt QGetChannel) c db of
        Inl e \<Rightarrow> (Inl e, db)
      | Inr ch \<Rightarrow>
          if chn_IsSystem ch then (Inl ErrSystemChannel, db)
          else store_DeleteChannel (flt QDeleteChannel) referenced c db)"

text \<open>The check that the caller owns the channel, shared by inviting, kicking and updating.\<close>

definition require_owner :: "(ch_stmt \<Rightarrow> bool) \<Rightarrow> id64 \<Rightarrow> string \<Rightarrow> ch_db \<Rightarrow> ch_error + Channel" where
  "require_owner flt c agent db =
     (case GetChannel (flt QGetChannel) c db of
        Inl e \<Rightarrow> Inl e
      | Inr ch \<Rightarrow>
          (case GetMember (flt QGetMember) c agent db of
             Inl e \<Rightarrow> Inl e
           | Inr m \<Rightarrow> if mb_Role m \<noteq> RoleOwner then Inl ErrNotChannelOwner else Inr ch))"

definition InviteToChannel ::
  "(ch_stmt \<Rightarrow> bool) \<Rightarrow> timestamp \<Rightarrow> id64 \<Rightarrow> string \<Rightarrow> string \<Rightarrow> ch_db \<Rightarrow> (ch_error + unit) \<times> ch_db" where
  "InviteToChannel flt now c agent inviter db =
     (case require_owner flt c inviter db of
        Inl e \<Rightarrow> (Inl e, db)
      | Inr ch \<Rightarrow>
          (case IsMember (flt QIsMember) c agent db of
             Inl e \<Rightarrow> (Inl e, db)
           | Inr True \<Rightarrow> (Inr (), db)
           | Inr False \<Rightarrow>
               (case CreateInvite (flt QCreateInvite) now c agent inviter db of
                  (Inl e, db') \<Rightarrow> (Inl e, db')
                | (Inr _, db') \<Rightarrow> (Inr (), record_trace inviter ''channel.invite'' db'))))"

definition KickFromChannel ::
  "(ch_stmt \<Rightarrow> bool) \<Rightarrow> id64 \<Rightarrow> string \<Rightarrow> string \<Rightarrow> ch_db \<Rightarrow> (ch_error + unit) \<times> ch_db" where
  "KickFromChannel flt c agent kicker db =
     (case require_owner flt c kicker db of
        Inl e \<Rightarrow> (Inl e, db)
      | Inr ch \<Rightarrow>
          if agent = kicker then (Inl CannotKickYourself, db)
          else (case RemoveMember (flt QRemoveMember) c agent db of
                  (Inl e, db') \<Rightarrow> (Inl e, db')
                | (Inr _, db') \<Rightarrow> (Inr (), record_trace kicker ''channel.kick'' db')))"

text \<open>The listings count the members of each channel; one failing count fails the listing.\<close>

fun count_all :: "(ch_stmt \<Rightarrow> bool) \<Rightarrow> ch_db \<Rightarrow> Channel list \<Rightarrow> ch_error + ChannelWithCount list" where
  "count_all flt db [] = Inr []"
| "count_all flt db (c # cs) =
     (case CountMembers (flt QCountMembers) (chn_ID c) db of
        Inl e \<Rightarrow> Inl e
      | Inr n \<Rightarrow>
          (case count_all flt db cs of
             Inl e \<Rightarrow> Inl e
           | Inr r \<Rightarrow> Inr (\<lparr>cwc_Channel = c, cwc_MemberCount = n\<rparr> # r)))"

definition ListChannels ::
  "(ch_stmt \<Rightarrow> bool) \<Rightarrow> string \<Rightarrow> ch_db \<Rightarrow> (ch_error + ChannelWithCount list) \<times> ch_db" where
  "ListChannels flt agent db =
     (case store_ListChannels (flt QListChannels) agent db of
        Inl e \<Rightarrow> (Inl e, db)
      | Inr cs \<Rightarrow>
          (case count_all flt db cs of
             Inl e \<Rightarrow> (Inl e, db)
           | Inr r \<Rightarrow> (Inr r, record_trace agent ''channel.list'' db)))"

text \<open>
  The slice \<open>all[start:end]\<close> of the in-memory pagination. The sum \<open>start + limit\<close> wraps
  around at 64 bits; \<open>None\<close> is the panic of a slice whose end lies before its start.
\<close>

definition page_slice :: "int \<Rightarrow> int \<Rightarrow> 'a list \<Rightarrow> 'a list option" where
  "page_slice limit off xs =
     (let total = int (length xs);
          start = (if total < off then total else off);
          e = signed_take_bit 63 (start + limit);
          e' = (if total < e then total else e)
      in if e' < start then None else Some (take (nat (e' - start)) (drop (nat start) xs)))"

definition page_limit :: "int \<Rightarrow> int" where
  "page_limit l = (if l \<le> 0 then 50 else l)"

definition page_offset :: "int \<Rightarrow> int" where
  "page_offset off = (if off < 0 then 0 else off)"

definition ListChannelsPaginated ::
  "(ch_stmt \<Rightarrow> bool) \<Rightarrow> string \<Rightarrow> int \<Rightarrow> int \<Rightarrow> ch_db \<Rightarrow> (ch_error + PaginatedChannels) \<times> ch_db" where
  "ListChannelsPaginated flt agent limit off db =
     (case store_ListChannels (flt QListChannels) agent db of
        Inl e \<Rightarrow> (Inl e, db)
      | Inr cs \<Rightarrow>
          (case page_slice (page_limit limit) (page_offset off) cs of
             None \<Rightarrow> (Inl ChPanic, db)
           | Some page \<Rightarrow>
               (case count_all flt db page of
                  Inl e \<Rightarrow> (Inl e, db)
                | Inr r \<Rightarrow>
                    (Inr \<lparr>pc_Channels = r, pc_Total = length cs, pc_Offset = page_offset off,
                          pc_Limit = page_limit limit\<rparr>,
                     record_trace agent ''channel.list'' db))))"

definition GetChannelByName :: "(ch_stmt \<Rightarrow> bool) \<Rightarrow> string \<Rightarrow> ch_db \<Rightarrow> ch_error + Channel" where
  "GetChannelByName flt name db =
     store_GetChannelByName (flt QGetChannelByName) (NormalizeChannelName name) db"

definition UpdateChannel ::
  "(ch_stmt \<Rightarrow> bool) \<Rightarrow> timestamp \<Rightarrow> id64 \<Rightarrow> UpdateChannelRequest \<Rightarrow> string \<Rightarrow> ch_db \<Rightarrow>
   (ch_error + Channel) \<times> ch_db" where
  "UpdateChannel flt now c req agent db =
     (case require_owner flt c agent db of
        Inl e \<Rightarrow> (Inl e, db)
      | Inr ch0 \<Rightarrow>
          let ch1 = (case ur_Description req of None \<Rightarrow> ch0 | Some d \<Rightarrow> ch0\<lparr>chn_Description := d\<rparr>);
              ch2 = (case ur_Topic req of None \<Rightarrow> ch1 | Some t \<Rightarrow> ch1\<lparr>chn_Topic := t\<rparr>)
          in (case store_UpdateChannel (flt QUpdateChannel) now ch2 db of
                (Inl e, db') \<Rightarrow> (Inl e, db')
              | (Inr _, db') \<Rightarrow>
                  (case GetChannel (flt (Reload QGetChannel)) c db' of
                     Inl e \<Rightarrow> (Inl e, db')
                   | Inr ch \<Rightarrow> (Inr ch, record_trace agent ''channel.update'' db'))))"

definition UpdateChannelSettings ::
  "(ch_stmt \<Rightarrow> bool) \<Rightarrow> timestamp \<Rightarrow> id64 \<Rightarrow> ChannelSettings \<Rightarrow> ch_db \<Rightarrow> (ch_error + Channel) \<times> ch_db" where
  "UpdateChannelSettings flt now c st db =
     (case store_UpdateChannelSettings (flt QUpdateSettings) now c st db of
        (Inl e, db') \<Rightarrow> (Inl e, db')
      | (Inr _, db') \<Rightarrow> (GetChannel (flt QGetChannel) c db', db'))"

definition MyAgentsChannelName :: "string \<Rightarrow> string" where
  "MyAgentsChannelName username = NormalizeChannelName (''my-agents-'' @ username)"

definition my_agents_request :: "string \<Rightarrow> string \<Rightarrow> CreateChannelRequest" where
  "my_agents_request username human =
     \<lparr>cr_Name = MyAgentsChannelName username,
      cr_Description = ''Private command channel for all agents owned by '' @ username,
      cr_Topic = '''', cr_Type = ''standard'', cr_IsPrivate = True, cr_IsSystem = True,
      cr_CreatedBy = human\<rparr>"

definition EnsureMyAgentsChannel ::
  "(ch_stmt \<Rightarrow> bool) \<Rightarrow> timestamp \<Rightarrow> string \<Rightarrow> string \<Rightarrow> ch_db \<Rightarrow> (ch_error + unit) \<times> ch_db" where
  "EnsureMyAgentsChannel flt now username human db =
     (case store_GetChannelByName (flt QGetChannelByName) (MyAgentsChannelName username) db of
        Inr ch \<Rightarrow>
          (case IsMember (flt QIsMember) (chn_ID ch) human db of
             Inl e \<Rightarrow> (Inl e, db)
           | Inr True \<Rightarrow> (Inr (), db)
           | Inr False \<Rightarrow> AddMember (flt QAddMember) now (chn_ID ch) human RoleOwner db)
      | Inl e \<Rightarrow>
          if e \<noteq> ErrChannelNotFound then (Inl e, db)
          else (case CreateChannel (\<lambda>st. flt (InCreate st)) now (my_agents_request username human) db of
                  (Inl e', db') \<Rightarrow>
                    if e' = ErrChannelNameConflict then (Inr (), db') else (Inl e', db')
                | (Inr _, db') \<Rightarrow> (Inr (), db')))"

definition JoinMyAgentsChannel ::
  "(ch_stmt \<Rightarrow> bool) \<Rightarrow> timestamp \<Rightarrow> string \<Rightarrow> string \<Rightarrow> ch_db \<Rightarrow> (ch_error + unit) \<times> ch_db" where
  "JoinMyAgentsChannel flt now username agent db =
     (case store_GetChannelByName (flt QGetChannelByName) (MyAgentsChannelName username) db of
        Inl e \<Rightarrow> if e = ErrChannelNotFound then (Inr (), db) else (Inl e, db)
      | Inr ch \<Rightarrow>
          (case IsMember (flt QIsMember) (chn_ID ch) agent db of
             Inl e \<Rightarrow> (Inl e, db)
           | Inr True \<Rightarrow> (Inr (), db)
           | Inr False \<Rightarrow> AddMember (flt QAddMember) now (chn_ID ch) agent RoleMember db))"

section \<open>Broadcast\<close>

definition env_of :: "string list \<Rightarrow> ch_db \<Rightarrow> (msg_stmt \<Rightarrow> bool) \<Rightarrow> msg_env" where
  "env_of agents cdb mflt =
     \<lparr>en_agents = agents, en_channels = map (\<lambda>c. (chn_ID c, chn_Name c)) (cd_channels cdb),
      en_members = map (\<lambda>m. (mb_ChannelID m, mb_AgentName m)) (cd_members cdb), en_flt = mflt\<rparr>"

text \<open>
  \<open>json.Marshal\<close> writes the keys of a map in order. It checks a \<open>RawMessage\<close>; its error is
  ignored, which leaves the empty text as metadata.
\<close>

definition channel_meta :: "string \<Rightarrow> raw_json \<Rightarrow> string list \<Rightarrow> raw_json" where
  "channel_meta name metadata mentioned =
     (let mentions = (if mentioned = [] then [] else [(''mentioned_agents'', JArr (map JStr mentioned))]) in
      case metadata of
        REmpty \<Rightarrow> RValid (JObj ((''channel_name'', JStr name) # mentions))
      | RMalformed _ \<Rightarrow> REmpty
      | RValid j \<Rightarrow> RValid (JObj ((''channel_name'', JStr name) # mentions @ [(''user_metadata'', j)])))"

definition inbox_meta :: "id64 \<Rightarrow> string \<Rightarrow> id64 \<Rightarrow> raw_json" where
  "inbox_meta c name i =
     RValid (JObj [(''channel_id'', JNum c), (''channel_message_id'', JNum i),
                   (''channel_name'', JStr name), (''mention'', JBool True)])"

definition mentioned_members :: "string \<Rightarrow> string \<Rightarrow> Membership list \<Rightarrow> string list" where
  "mentioned_members from body members =
     dedup (filter (\<lambda>n. n \<noteq> from \<and> n \<in> set (map mb_AgentName members)) (ParseMentions body))"

text \<open>A loop that sends to each of some agents and goes on after an error.\<close>

fun notify_each :: "(string \<Rightarrow> 's \<Rightarrow> ('e + 'm) \<times> 'f list \<times> 's) \<Rightarrow> string list \<Rightarrow> 's \<Rightarrow> 'f list \<times> 's" where
  "notify_each send [] s = ([], s)"
| "notify_each send (a # as) s =
     (case send a s of
        (r, eff, s') \<Rightarrow> (case notify_each send as s' of (eff', s'') \<Rightarrow> (eff @ eff', s'')))"

definition send_mention ::
  "msg_service \<Rightarrow> string list \<Rightarrow> (string \<Rightarrow> msg_stmt \<Rightarrow> bool) \<Rightarrow> timestamp \<Rightarrow> ch_db \<Rightarrow> Channel \<Rightarrow>
   string \<Rightarrow> string \<Rightarrow> int \<Rightarrow> id64 \<Rightarrow> string \<Rightarrow> msg_db \<Rightarrow> (msg_error + Message) \<times> msg_effect list \<times> msg_db" where
  "send_mention svc agents mflt now cdb ch from body priority i to mdb =
     SendMessage svc (env_of agents cdb (mflt to)) now from to body
       \<lparr>so_Subject = ''channel:'' @ chn_Name ch, so_Priority = priority,
        so_Metadata = inbox_meta (chn_ID ch) (chn_Name ch) i, so_ChannelID = None,
        so_ConversationID = None, so_ReplyTo = None, so_Attachments = []\<rparr> mdb"

definition channel_post_opts ::
  "Channel \<Rightarrow> int \<Rightarrow> raw_json \<Rightarrow> id64 option \<Rightarrow> string list \<Rightarrow> string list \<Rightarrow> SendOptions" where
  "channel_post_opts ch priority metadata replyTo attachments mentioned =
     \<lparr>so_Subject = ''channel:'' @ chn_Name ch, so_Priority = priority,
      so_Metadata = channel_meta (chn_Name ch) metadata mentioned, so_ChannelID = Some (chn_ID ch),
      so_ConversationID = None, so_ReplyTo = replyTo, so_Attachments = attachments\<rparr>"

text \<open>The sender's membership: public channels are joined on the first post.\<close>

definition ensure_sender ::
  "(ch_stmt \<Rightarrow> bool) \<Rightarrow> timestamp \<Rightarrow> Channel \<Rightarrow> string \<Rightarrow> ch_db \<Rightarrow> (ch_error + unit) \<times> ch_db" where
  "ensure_sender flt now ch from db =
     (case IsMember (flt QIsMember) (chn_ID ch) from db of
        Inl e \<Rightarrow> (Inl e, db)
      | Inr True \<Rightarrow> (Inr (), db)
      | Inr False \<Rightarrow>
          if chn_IsPrivate ch then (Inl ErrNotChannelMember, db)
          else JoinChannel (\<lambda>st. flt (InJoin st)) now (chn_ID ch) from db)"

definition BroadcastMessage ::
  "(ch_stmt \<Rightarrow> bool) \<Rightarrow> (string \<Rightarrow> msg_stmt \<Rightarrow> bool) \<Rightarrow> msg_service \<Rightarrow> string list \<Rightarrow> timestamp \<Rightarrow>
   id64 \<Rightarrow> string \<Rightarrow> string \<Rightarrow> int \<Rightarrow> raw_json \<Rightarrow> id64 option \<Rightarrow> string list \<Rightarrow> ch_db \<Rightarrow> msg_db \<Rightarrow>
   (ch_error + Message list) \<times> msg_effect list \<times> ch_db \<times> msg_db" where
  "BroadcastMessage flt mflt svc agents now c from body priority metadata replyTo attachments cdb mdb =
     (case GetChannel (flt QGetChannel) c cdb of
        Inl e \<Rightarrow> (Inl e, [], cdb, mdb)
      | Inr ch \<Rightarrow>
          (case ensure_sender flt now ch from cdb of
             (Inl e, cdb1) \<Rightarrow> (Inl e, [], cdb1, mdb)
           | (Inr _, cdb1) \<Rightarrow>
               (case GetMembers (flt QGetMembers) c cdb1 of
                  Inl e \<Rightarrow> (Inl e, [], cdb1, mdb)
                | Inr members \<Rightarrow>
                    (let mentioned = mentioned_members from body members in
                     case SendMessage svc (env_of agents cdb1 (mflt '''')) now from '''' body
                            (channel_post_opts ch priority metadata replyTo attachments mentioned) mdb of
                       (Inl e, eff, mdb1) \<Rightarrow> (Inl (ChMessageError e), eff, cdb1, mdb1)
                     | (Inr m, eff, mdb1) \<Rightarrow>
                         (case notify_each (send_mention svc agents mflt now cdb1 ch from body priority (msg_ID m))
                                 (filter (\<lambda>a. a \<noteq> from \<and> a \<in> set mentioned) (map mb_AgentName members)) mdb1 of
                            (eff', mdb2) \<Rightarrow>
                              (Inr [m], eff @ eff', record_trace from ''channel.broadcast'' cdb1, mdb2))))))"

section \<open>Invariant\<close>

definition pair_of :: "Membership \<Rightarrow> id64 \<times> string" where
  "pair_of m = (mb_ChannelID m, mb_AgentName m)"

definition invite_pair :: "ChannelInvite \<Rightarrow> id64 \<times> string" where
  "invite_pair v = (ci_ChannelID v, ci_AgentName v)"

definition my_agents_name :: "string \<Rightarrow> bool" where
  "my_agents_name n \<longleftrightarrow> (\<exists>u. n = ''my-agents-'' @ u)"

text \<open>Who may be a member of a private channel.\<close>

definition admitted :: "ch_db \<Rightarrow> Channel \<Rightarrow> string \<Rightarrow> bool" where
  "admitted db c a \<longleftrightarrow> chn_IsPrivate c \<longrightarrow>
     a = chn_CreatedBy c \<or> (\<exists>v \<in> set (cd_invites db). invite_row (chn_ID c) a v) \<or> my_agents_name (chn_Name c)"

definition name_ok :: "string \<Rightarrow> bool" where
  "name_ok n \<longleftrightarrow> ValidateChannelName n = None \<and> to_lower n = n"

definition channels_inv :: "ch_db \<Rightarrow> bool" where
  "channels_inv db \<longleftrightarrow> ids_ok chn_ID (cd_ch_seq db) (cd_channels db) \<and>
     distinct (map chn_Name (cd_channels db)) \<and>
     (\<forall>c \<in> set (cd_channels db). name_ok (chn_Name c) \<and> chn_Type c \<in> set channel_types)"

definition members_inv :: "ch_db \<Rightarrow> bool" where
  "members_inv db \<longleftrightarrow> ids_ok mb_ID (cd_mb_seq db) (cd_members db) \<and> distinct (map pair_of (cd_members db)) \<and>
     (\<forall>m \<in> set (cd_members db). \<exists>c \<in> set (cd_channels db). chn_ID c = mb_ChannelID m \<and>
        admitted db c (mb_AgentName m))"

definition invites_inv :: "ch_db \<Rightarrow> bool" where
  "invites_inv db \<longleftrightarrow> ids_ok ci_ID (cd_ci_seq db) (cd_invites db) \<and> distinct (map invite_pair (cd_invites db)) \<and>
     (\<forall>v \<in> set (cd_invites db). ci_ChannelID v \<in> set (map chn_ID (cd_channels db)))"

definition ch_inv :: "ch_db \<Rightarrow> bool" where
  "ch_inv db \<longleftrightarrow> channels_inv db \<and> members_inv db \<and> invites_inv db"

lemmas ch_inv_defs = ch_inv_def channels_inv_def members_inv_def invites_inv_def

definition ch_empty :: "bool \<Rightarrow> ch_db" where
  "ch_empty tracer = \<lparr>cd_channels = [], cd_ch_seq = 0, cd_members = [], cd_mb_seq = 0,
     cd_invites = [], cd_ci_seq = 0, cd_tracer = tracer, cd_traces = []\<rparr>"

lemma ch_empty_inv: "ch_inv (ch_empty tracer)"
  by (simp add: ch_inv_defs ch_empty_def)

lemma record_trace_simps [simp]:
  "cd_channels (record_trace a t db) = cd_channels db" "cd_ch_seq (record_trace a t db) = cd_ch_seq db"
  "cd_members (record_trace a t db) = cd_members db" "cd_mb_seq (record_trace a t db) = cd_mb_seq db"
  "cd_invites (record_trace a t db) = cd_invites db" "cd_ci_seq (record_trace a t db) = cd_ci_seq db"
  by (simp_all add: record_trace_def)

lemma record_trace_inv [simp]: "ch_inv (record_trace a t db) = ch_inv db"
  by (simp add: ch_inv_defs admitted_def)

text \<open>Lower-casing keeps a valid name valid.\<close>

lemma is_alnum_lower_char: "is_alnum (to_lower_char c) = is_alnum c"
  by (auto simp: is_alnum_def to_lower_char_def Let_def)

lemma to_lower_char_idem: "to_lower_char (to_lower_char c) = to_lower_char c"
  by (auto simp: to_lower_char_def Let_def)

lemma name_ok_normalize: "ValidateChannelName n = None \<Longrightarrow> name_ok (NormalizeChannelName n)"
proof -
  assume v: "ValidateChannelName n = None"
  have nc: "name_char (to_lower_char c) = name_char c" for c
  proof -
    have "is_alnum (to_lower_char c)" if "to_lower_char c \<noteq> c"
      using that unfolding is_alnum_lower_char by (auto simp: to_lower_char_def is_alnum_def Let_def split: if_splits)
    then show ?thesis
      by (cases "to_lower_char c = c") (auto simp: name_char_def is_alnum_lower_char)
  qed
  have "to_lower (to_lower n) = to_lower n" by (simp add: to_lower_def to_lower_char_idem)
  moreover have "matches_name_regex (to_lower n) = matches_name_regex n"
    by (cases n) (simp_all add: matches_name_regex_def to_lower_def is_alnum_lower_char nc list_all_iff)
  moreover have "to_lower n = '''' \<longleftrightarrow> n = ''''" by (simp add: to_lower_def)
  ultimately show ?thesis
    using v by (auto simp: name_ok_def NormalizeChannelName_def ValidateChannelName_def split: if_splits)
qed

lemma GetChannel_Inr: "GetChannel f i db = Inr c \<Longrightarrow> c \<in> set (cd_channels db) \<and> chn_ID c = i"
  by (auto simp: GetChannel_def split: if_splits option.splits dest: find_row_Some)

lemma GetMember_Inr: "GetMember f c a db = Inr m \<Longrightarrow> m \<in> set (cd_members db) \<and> member_row c a m"
  by (auto simp: GetMember_def split: if_splits option.splits dest: find_row_Some)

lemma IsMember_Inr: "IsMember f c a db = Inr b \<Longrightarrow> b \<longleftrightarrow> (\<exists>m \<in> set (cd_members db). member_row c a m)"
  by (auto simp: IsMember_def filter_empty_conv split: if_splits)

lemma HasPendingInvite_Inr:
  "HasPendingInvite f c a db = Inr b \<Longrightarrow> b \<longleftrightarrow> (\<exists>v \<in> set (cd_invites db). pending_row c a v)"
  by (auto simp: HasPendingInvite_def filter_empty_conv split: if_splits)

lemma GetChannelByName_Inr:
  assumes "ch_inv db" and "store_GetChannelByName f n db = Inr c" and "to_lower n = n"
  shows "c \<in> set (cd_channels db) \<and> chn_Name c = n"
proof -
  from assms(2) have "c \<in> set (cd_channels db) \<and> to_lower (chn_Name c) = to_lower n"
    by (auto simp: store_GetChannelByName_def split: if_splits option.splits dest: find_row_Some)
  with assms(1,3) show ?thesis by (auto simp: ch_inv_defs name_ok_def)
qed

lemma channel_unique:
  "ch_inv db \<Longrightarrow> c \<in> set (cd_channels db) \<Longrightarrow> c' \<in> set (cd_channels db) \<Longrightarrow> chn_ID c = chn_ID c' \<Longrightarrow> c = c'"
  by (auto simp: ch_inv_defs dest: ids_ok_unique)

lemma member_unique:
  "ch_inv db \<Longrightarrow> m \<in> set (cd_members db) \<Longrightarrow> m' \<in> set (cd_members db) \<Longrightarrow>
   member_row c a m \<Longrightarrow> member_row c a m' \<Longrightarrow> m = m'"
  by (auto simp: ch_inv_defs distinct_map inj_on_def pair_of_def member_row_def)

subsection \<open>Every operation keeps the invariant\<close>

lemma store_CreateChannel_inv:
  assumes inv: "ch_inv db" and n: "name_ok (chn_Name ch)"
  shows "ch_inv (snd (store_CreateChannel f now ch db))"
proof (cases "fst (store_CreateChannel f now ch db)")
  case (Inl e)
  then have "snd (store_CreateChannel f now ch db) = db"
    by (auto simp: store_CreateChannel_def Let_def split: if_splits)
  with inv show ?thesis by simp
next
  case (Inr c)
  have "\<exists>x \<in> set (cd_channels db @ [row]). chn_ID x = mb_ChannelID m \<and> admitted db x (mb_AgentName m)"
    if "m \<in> set (cd_members db)" for m row
    using that inv by (auto simp: ch_inv_defs)
  with inv n Inr show ?thesis
    by (auto simp: store_CreateChannel_def Let_def ch_inv_defs admitted_def ids_ok_append split: if_splits)
qed

lemma admitted_cong: "cd_invites db = cd_invites db' \<Longrightarrow> admitted db = admitted db'"
  by (simp add: admitted_def fun_eq_iff)

lemma AddMember_inv:
  assumes inv: "ch_inv db" and ok: "\<And>ch. ch \<in> set (cd_channels db) \<Longrightarrow> chn_ID ch = c \<Longrightarrow> admitted db ch a"
  shows "ch_inv (snd (AddMember f now c a role db))"
proof (cases "snd (AddMember f now c a role db) = db")
  case True
  with inv show ?thesis by simp
next
  case False
  let ?row = "\<lparr>mb_ID = cd_mb_seq db + 1, mb_ChannelID = c, mb_AgentName = a, mb_Role = role, mb_JoinedAt = now\<rparr>"
  let ?db = "db\<lparr>cd_members := cd_members db @ [?row], cd_mb_seq := cd_mb_seq db + 1\<rparr>"
  from False have r: "snd (AddMember f now c a role db) = ?db"
    "\<not> (\<exists>m \<in> set (cd_members db). member_row c a m)" "c \<in> set (map chn_ID (cd_channels db))"
    by (simp_all add: AddMember_def Let_def split: if_splits)
  have adm: "admitted ?db = admitted db" by (rule admitted_cong) simp
  have "members_inv ?db"
    unfolding members_inv_def adm
  proof (intro conjI)
    show "ids_ok mb_ID (cd_mb_seq ?db) (cd_members ?db)"
      using inv by (simp add: ch_inv_defs ids_ok_append)
    have "(c, a) \<notin> pair_of ` set (cd_members db)" using r(2) by (auto simp: pair_of_def member_row_def)
    with inv show "distinct (map pair_of (cd_members ?db))" by (simp add: ch_inv_defs pair_of_def)
    from r(3) obtain ch where "ch \<in> set (cd_channels db)" "chn_ID ch = c" by auto
    with inv ok show "\<forall>m \<in> set (cd_members ?db). \<exists>c \<in> set (cd_channels ?db). chn_ID c = mb_ChannelID m \<and>
        admitted db c (mb_AgentName m)" by (auto simp: ch_inv_defs)
  qed
  with inv r(1) show ?thesis by (simp add: ch_inv_def channels_inv_def invites_inv_def)
qed

lemma distinct_map_delete: "distinct (map g rs) \<Longrightarrow> distinct (map g (delete_where P rs))"
  by (simp add: delete_where_def distinct_map_filter)

lemma RemoveMember_inv: "ch_inv db \<Longrightarrow> ch_inv (snd (RemoveMember f c a db))"
  by (auto simp: RemoveMember_def Let_def ch_inv_defs admitted_def ids_ok_delete_where distinct_map_delete)

text \<open>Replacing invites by others that cover at least the same agents.\<close>

lemma invites_update_inv:
  assumes inv: "ch_inv db" and v: "invites_inv (db\<lparr>cd_invites := vs, cd_ci_seq := n\<rparr>)"
    and sub: "set (map invite_pair (cd_invites db)) \<subseteq> set (map invite_pair vs)"
  shows "ch_inv (db\<lparr>cd_invites := vs, cd_ci_seq := n\<rparr>)"
proof -
  have "invite_row c a x \<longleftrightarrow> invite_pair x = (c, a)" for c a x by (auto simp: invite_row_def invite_pair_def)
  then have ex: "(\<exists>x \<in> set xs. invite_row c a x) \<longleftrightarrow> (c, a) \<in> set (map invite_pair xs)" for c a xs by force
  have "admitted (db\<lparr>cd_invites := vs, cd_ci_seq := n\<rparr>) c a" if "admitted db c a" for c a
    using that sub by (auto simp: admitted_def ex)
  then have "\<exists>c \<in> S. chn_ID c = mb_ChannelID m \<and> admitted (db\<lparr>cd_invites := vs, cd_ci_seq := n\<rparr>) c b"
    if "\<exists>c \<in> S. chn_ID c = mb_ChannelID m \<and> admitted db c b" for S m b using that by blast
  with inv v show ?thesis unfolding ch_inv_def members_inv_def channels_inv_def by simp blast
qed

lemma update_invites_inv:
  assumes inv: "ch_inv db" and f: "\<And>v. ci_ID (f v) = ci_ID v" "\<And>v. invite_pair (f v) = invite_pair v"
  shows "ch_inv (db\<lparr>cd_invites := update_where P f (cd_invites db)\<rparr>)"
proof -
  have "ci_ChannelID (f v) = ci_ChannelID v" for v using f(2) [of v] by (simp add: invite_pair_def)
  then have "invites_inv (db\<lparr>cd_invites := update_where P f (cd_invites db)\<rparr>)"
    using inv f by (auto simp: ch_inv_defs ids_ok_update_where map_update_where in_update_where)
  then show ?thesis
    using invites_update_inv [OF inv, where vs = "update_where P f (cd_invites db)" and n = "cd_ci_seq db"] f(2)
    by (simp add: map_update_where)
qed

lemma AcceptInvite_inv: "ch_inv db \<Longrightarrow> ch_inv (snd (AcceptInvite f c a db))"
  by (auto simp: AcceptInvite_def Let_def invite_pair_def intro: update_invites_inv)

lemma CreateInvite_inv:
  assumes inv: "ch_inv db"
  shows "ch_inv (snd (CreateInvite f now c a by db))"
proof (cases "f \<or> c \<notin> set (map chn_ID (cd_channels db)) \<or> (\<exists>v \<in> set (cd_invites db). invite_row c a v)")
  case True
  with inv show ?thesis by (auto simp: CreateInvite_def invite_pair_def intro: update_invites_inv)
next
  case False
  let ?vs = "cd_invites db @ [\<lparr>ci_ID = cd_ci_seq db + 1, ci_ChannelID = c, ci_AgentName = a, ci_InvitedBy = by,
    ci_CreatedAt = now, ci_Status = InvitePending\<rparr>]"
  have "(c, a) \<notin> invite_pair ` set (cd_invites db)" using False by (auto simp: invite_pair_def invite_row_def)
  then have "invites_inv (db\<lparr>cd_invites := ?vs, cd_ci_seq := cd_ci_seq db + 1\<rparr>)"
    using inv False by (auto simp: ch_inv_defs ids_ok_append invite_pair_def)
  then have "ch_inv (db\<lparr>cd_invites := ?vs, cd_ci_seq := cd_ci_seq db + 1\<rparr>)"
    by (rule invites_update_inv [OF inv]) auto
  with False show ?thesis by (auto simp: CreateInvite_def Let_def)
qed

lemma update_channels_inv:
  assumes inv: "ch_inv db"
    and f: "\<And>c. chn_ID (f c) = chn_ID c" "\<And>c. chn_Name (f c) = chn_Name c" "\<And>c. chn_Type (f c) = chn_Type c"
      "\<And>c. chn_IsPrivate (f c) = chn_IsPrivate c" "\<And>c. chn_CreatedBy (f c) = chn_CreatedBy c"
  shows "ch_inv (db\<lparr>cd_channels := update_where P f (cd_channels db)\<rparr>)"
proof -
  let ?db = "db\<lparr>cd_channels := update_where P f (cd_channels db)\<rparr>"
  have adm: "admitted ?db (if P c then f c else c) a = admitted db c a" for c a
    by (simp add: admitted_def f)
  have "channels_inv ?db"
    using inv f by (auto simp: ch_inv_defs ids_ok_update_where map_update_where in_update_where)
  moreover have "\<exists>c \<in> set (cd_channels ?db). chn_ID c = mb_ChannelID m \<and> admitted ?db c (mb_AgentName m)"
    if "m \<in> set (cd_members db)" for m
  proof -
    from that inv obtain c where "c \<in> set (cd_channels db)" "chn_ID c = mb_ChannelID m"
      "admitted db c (mb_AgentName m)" by (auto simp: ch_inv_defs)
    with updated_row [of c "cd_channels db" P f] show ?thesis
      by (intro bexI [of _ "if P c then f c else c"]) (auto simp: adm f)
  qed
  moreover have "map chn_ID (update_where P f (cd_channels db)) = map chn_ID (cd_channels db)"
    by (simp add: map_update_where f)
  ultimately show ?thesis
    using inv unfolding ch_inv_def members_inv_def invites_inv_def by simp
qed

lemma store_UpdateChannel_inv: "ch_inv db \<Longrightarrow> ch_inv (snd (store_UpdateChannel f now ch db))"
  by (auto simp: store_UpdateChannel_def Let_def intro: update_channels_inv)

lemma store_UpdateChannelSettings_inv: "ch_inv db \<Longrightarrow> ch_inv (snd (store_UpdateChannelSettings f now c st db))"
  by (auto simp: store_UpdateChannelSettings_def Let_def intro: update_channels_inv)

lemma store_DeleteChannel_inv:
  assumes inv: "ch_inv db"
  shows "ch_inv (snd (store_DeleteChannel f ref i db))"
proof (cases "fst (store_DeleteChannel f ref i db)")
  case (Inl e)
  then have "snd (store_DeleteChannel f ref i db) = db"
    by (auto simp: store_DeleteChannel_def Let_def split: if_splits)
  with inv show ?thesis by simp
next
  case (Inr u)
  let ?db = "db\<lparr>cd_channels := delete_where (\<lambda>c. chn_ID c = i) (cd_channels db),
    cd_members := delete_where (\<lambda>m. mb_ChannelID m = i) (cd_members db),
    cd_invites := delete_where (\<lambda>v. ci_ChannelID v = i) (cd_invites db)\<rparr>"
  have "admitted ?db c a" if "admitted db c a" "chn_ID c \<noteq> i" for c a
    using that by (auto simp: admitted_def invite_row_def)
  then have "members_inv ?db"
    using inv by (fastforce simp: ch_inv_defs ids_ok_delete_where distinct_map_delete)
  moreover have "channels_inv ?db"
    using inv by (auto simp: ch_inv_defs ids_ok_delete_where distinct_map_delete)
  moreover have "invites_inv ?db"
    using inv by (fastforce simp: ch_inv_defs ids_ok_delete_where distinct_map_delete)
  moreover have "snd (store_DeleteChannel f ref i db) = ?db"
    using Inr by (auto simp: store_DeleteChannel_def Let_def rows_affected_pos split: if_splits)
  ultimately show ?thesis by (simp add: ch_inv_def)
qed

lemma CreateChannel_inv:
  assumes inv: "ch_inv db"
  shows "ch_inv (snd (CreateChannel flt now req db))"
proof (cases "ValidateChannelName (cr_Name req)")
  case (Some e)
  with inv show ?thesis by (simp add: CreateChannel_def)
next
  case None
  obtain r db1 where r: "store_CreateChannel (flt QCreateChannel) now (new_channel req) db = (r, db1)"
    by (cases "store_CreateChannel (flt QCreateChannel) now (new_channel req) db")
  have inv1: "ch_inv db1"
    using store_CreateChannel_inv [OF inv, of "new_channel req" "flt QCreateChannel" now] name_ok_normalize [OF None] r
    by (simp add: new_channel_def)
  have adm: "admitted db1 c (cr_CreatedBy req)" if "r = Inr ch" "c \<in> set (cd_channels db1)" "chn_ID c = chn_ID ch" for ch c
  proof -
    from that(1) r inv have "chn_CreatedBy c' = cr_CreatedBy req" if "c' \<in> set (cd_channels db1)" "chn_ID c' = chn_ID ch" for c'
      using that by (auto simp: store_CreateChannel_def Let_def new_channel_def ch_inv_defs
          dest: ids_ok_fresh split: if_splits)
    with that show ?thesis by (simp add: admitted_def)
  qed
  show ?thesis
  proof (cases r)
    case (Inr ch)
    have "ch_inv (snd (AddMember (flt QAddMember) now (chn_ID ch) (cr_CreatedBy req) RoleOwner db1))"
      by (rule AddMember_inv [OF inv1]) (rule adm [OF Inr])
    with None r Inr show ?thesis by (auto simp: CreateChannel_def split: prod.splits sum.splits)
  qed (use None r inv1 in \<open>simp add: CreateChannel_def\<close>)
qed

lemma join_as_member_inv:
  assumes "ch_inv db" and "\<And>ch. ch \<in> set (cd_channels db) \<Longrightarrow> chn_ID ch = c \<Longrightarrow> admitted db ch a"
  shows "ch_inv (snd (join_as_member flt now c a db))"
  using AddMember_inv [OF assms(1), of c a "flt QAddMember" now RoleMember] assms(2) by (auto simp: join_as_member_def split: prod.splits sum.splits)

lemma accepted_admits:
  assumes "AcceptInvite f c a db = (Inr u, db')" and "chn_ID ch = c"
  shows "admitted db' ch a"
proof -
  from assms(1) obtain v where v: "v \<in> set (cd_invites db)" "pending_row c a v"
    by (auto simp: AcceptInvite_def Let_def split: if_splits)
  from updated_row_hit [where P = "pending_row c a", OF v, of "\<lambda>v. v\<lparr>ci_Status := InviteAccepted\<rparr>"] v assms
  have "\<exists>v \<in> set (cd_invites db'). invite_row c a v"
    by (intro bexI [of _ "v\<lparr>ci_Status := InviteAccepted\<rparr>"])
      (auto simp: AcceptInvite_def Let_def pending_row_def invite_row_def split: if_splits)
  with assms(2) show ?thesis by (auto simp: admitted_def)
qed

lemma JoinChannel_inv:
  assumes inv: "ch_inv db"
  shows "ch_inv (snd (JoinChannel flt now c a db))"
proof (cases "GetChannel (flt QGetChannel) c db")
  case (Inr ch)
  note ch = GetChannel_Inr [OF Inr]
  have pub: "ch_inv (snd (join_as_member flt now c a db))" if "\<not> chn_IsPrivate ch"
    using that ch channel_unique [OF inv]
    by (intro join_as_member_inv [OF inv]) (auto simp: admitted_def)
  have priv: "ch_inv (snd (join_as_member flt now c a db1))"
    if "AcceptInvite (flt QAcceptInvite) c a db = (Inr u, db1)" for u db1
    using that AcceptInvite_inv [OF inv, of "flt QAcceptInvite" c a] accepted_admits [OF that]
    by (intro join_as_member_inv) auto
  show ?thesis
    using inv Inr pub priv AcceptInvite_inv [OF inv, of "flt QAcceptInvite" c a]
    by (auto simp: JoinChannel_def split: sum.splits bool.splits prod.splits)
qed (use inv in \<open>simp add: JoinChannel_def\<close>)

lemma LeaveChannel_inv: "ch_inv db \<Longrightarrow> ch_inv (snd (LeaveChannel flt c a db))"
  using RemoveMember_inv [of db "flt QRemoveMember" c a]
  by (auto simp: LeaveChannel_def split: sum.splits prod.splits)

lemma DeleteChannel_inv: "ch_inv db \<Longrightarrow> ch_inv (snd (DeleteChannel flt ref c db))"
  by (auto simp: DeleteChannel_def store_DeleteChannel_inv split: sum.splits)

lemma InviteToChannel_inv: "ch_inv db \<Longrightarrow> ch_inv (snd (InviteToChannel flt now c a by db))"
  using CreateInvite_inv [of db "flt QCreateInvite" now c a "by"]
  by (auto simp: InviteToChannel_def split: sum.splits bool.splits prod.splits)

lemma KickFromChannel_inv: "ch_inv db \<Longrightarrow> ch_inv (snd (KickFromChannel flt c a k db))"
  using RemoveMember_inv [of db "flt QRemoveMember" c a]
  by (auto simp: KickFromChannel_def split: sum.splits prod.splits)

lemma UpdateChannel_inv: "ch_inv db \<Longrightarrow> ch_inv (snd (UpdateChannel flt now c req a db))"
proof -
  assume inv: "ch_inv db"
  have "store_UpdateChannel f now ch db = (r, db') \<Longrightarrow> ch_inv db'" for f ch r db'
    using store_UpdateChannel_inv [OF inv, of f now ch] by simp
  with inv show ?thesis by (auto simp: UpdateChannel_def Let_def split: sum.splits prod.splits)
qed

lemma UpdateChannelSettings_inv: "ch_inv db \<Longrightarrow> ch_inv (snd (UpdateChannelSettings flt now c st db))"
  using store_UpdateChannelSettings_inv [of db "flt QUpdateSettings" now c st]
  by (auto simp: UpdateChannelSettings_def split: sum.splits prod.splits)

lemma my_agents_lower: "to_lower (MyAgentsChannelName u) = MyAgentsChannelName u"
  by (simp add: MyAgentsChannelName_def NormalizeChannelName_def to_lower_def to_lower_char_idem)

lemma my_agents_name_ok: "my_agents_name (MyAgentsChannelName u)"
proof -
  have "to_lower ''my-agents-'' = ''my-agents-''" by code_simp
  then have "MyAgentsChannelName u = ''my-agents-'' @ to_lower u"
    unfolding MyAgentsChannelName_def NormalizeChannelName_def to_lower_def map_append by simp
  then show ?thesis unfolding my_agents_name_def by blast
qed

lemma my_agents_AddMember_inv:
  assumes inv: "ch_inv db" and ch: "store_GetChannelByName f (MyAgentsChannelName u) db = Inr ch"
  shows "ch_inv (snd (AddMember f' now (chn_ID ch) a role db))"
proof (rule AddMember_inv [OF inv])
  fix c assume c: "c \<in> set (cd_channels db)" "chn_ID c = chn_ID ch"
  from GetChannelByName_Inr [OF inv ch my_agents_lower] c channel_unique [OF inv, of c ch]
  have "chn_Name c = MyAgentsChannelName u" by auto
  then show "admitted db c a" by (simp add: admitted_def my_agents_name_ok)
qed

lemma EnsureMyAgentsChannel_inv: "ch_inv db \<Longrightarrow> ch_inv (snd (EnsureMyAgentsChannel flt now u h db))"
  using CreateChannel_inv [of db "\<lambda>st. flt (InCreate st)" now "my_agents_request u h"]
  by (auto simp: EnsureMyAgentsChannel_def split: sum.splits bool.splits prod.splits
      intro: my_agents_AddMember_inv)

lemma JoinMyAgentsChannel_inv: "ch_inv db \<Longrightarrow> ch_inv (snd (JoinMyAgentsChannel flt now u a db))"
  by (auto simp: JoinMyAgentsChannel_def split: sum.splits bool.splits intro: my_agents_AddMember_inv)

section \<open>The component as a system\<close>

datatype ch_op =
    OCreateChannel timestamp CreateChannelRequest
  | OJoinChannel timestamp id64 string
  | OLeaveChannel id64 string
  | ODeleteChannel "id64 list" id64
  | OInvite timestamp id64 string string
  | OKick id64 string string
  | OUpdateChannel timestamp id64 UpdateChannelRequest string
  | OUpdateSettings timestamp id64 ChannelSettings
  | OEnsureMyAgents timestamp string string
  | OJoinMyAgents timestamp string string
  | OListChannels string
  | OListPage string int int

fun ch_exec :: "(ch_stmt \<Rightarrow> bool) \<times> ch_op \<Rightarrow> ch_db \<Rightarrow> ch_db" where
  "ch_exec (flt, OCreateChannel now req) db = snd (CreateChannel flt now req db)"
| "ch_exec (flt, OJoinChannel now c a) db = snd (JoinChannel flt now c a db)"
| "ch_exec (flt, OLeaveChannel c a) db = snd (LeaveChannel flt c a db)"
| "ch_exec (flt, ODeleteChannel refs c) db = snd (DeleteChannel flt (\<lambda>i. i \<in> set refs) c db)"
| "ch_exec (flt, OInvite now c a by) db = snd (InviteToChannel flt now c a by db)"
| "ch_exec (flt, OKick c a k) db = snd (KickFromChannel flt c a k db)"
| "ch_exec (flt, OUpdateChannel now c req a) db = snd (UpdateChannel flt now c req a db)"
| "ch_exec (flt, OUpdateSettings now c st) db = snd (UpdateChannelSettings flt now c st db)"
| "ch_exec (flt, OEnsureMyAgents now u h) db = snd (EnsureMyAgentsChannel flt now u h db)"
| "ch_exec (flt, OJoinMyAgents now u a) db = snd (JoinMyAgentsChannel flt now u a db)"
| "ch_exec (flt, OListChannels a) db = snd (ListChannels flt a db)"
| "ch_exec (flt, OListPage a l off) db = snd (ListChannelsPaginated flt a l off db)"

lemma ListChannels_inv [simp]: "ch_inv (snd (ListChannels flt a db)) = ch_inv db"
  by (simp add: ListChannels_def split: sum.splits)

lemma ListChannelsPaginated_inv [simp]: "ch_inv (snd (ListChannelsPaginated flt a l off db)) = ch_inv db"
  by (simp add: ListChannelsPaginated_def split: sum.splits option.splits)

lemmas ch_op_invs = CreateChannel_inv JoinChannel_inv LeaveChannel_inv DeleteChannel_inv InviteToChannel_inv
  KickFromChannel_inv UpdateChannel_inv UpdateChannelSettings_inv EnsureMyAgentsChannel_inv
  JoinMyAgentsChannel_inv

lemma ch_exec_inv: "ch_inv db \<Longrightarrow> ch_inv (ch_exec op db)"
  by (cases "(op, db)" rule: ch_exec.cases) (simp_all add: ch_op_invs)

interpretation chs: invariant_system ch_exec ch_inv
  by unfold_locales (rule ch_exec_inv)

subsection \<open>Owners\<close>

definition owned :: "ch_db \<Rightarrow> bool" where
  "owned db \<longleftrightarrow> (\<forall>c \<in> set (cd_channels db). \<exists>m \<in> set (cd_members db).
     mb_ChannelID m = chn_ID c \<and> mb_Role m = RoleOwner)"

lemma owned_trace [simp]: "owned (record_trace a t db) = owned db"
  by (simp add: owned_def)

text \<open>An operation that keeps the ids of the channels and the owner rows keeps the owners.\<close>

lemma owned_mono:
  assumes "owned db" and "chn_ID ` set (cd_channels db') \<subseteq> chn_ID ` set (cd_channels db)"
    and "\<And>m. m \<in> set (cd_members db) \<Longrightarrow> mb_Role m = RoleOwner \<Longrightarrow> m \<in> set (cd_members db') \<or>
      mb_ChannelID m \<notin> chn_ID ` set (cd_channels db')"
  shows "owned db'"
  unfolding owned_def
proof
  fix c assume c: "c \<in> set (cd_channels db')"
  with assms(2) obtain c0 where "c0 \<in> set (cd_channels db)" "chn_ID c0 = chn_ID c" by (auto simp: image_iff)
  with assms(1) obtain m where "m \<in> set (cd_members db)" "mb_ChannelID m = chn_ID c" "mb_Role m = RoleOwner"
    by (auto simp: owned_def)
  with assms(3) [of m] c show "\<exists>m \<in> set (cd_members db'). mb_ChannelID m = chn_ID c \<and> mb_Role m = RoleOwner"
    by auto
qed

lemma AddMember_owned: "owned db \<Longrightarrow> owned (snd (AddMember f now c a role db))"
  by (rule owned_mono) (auto simp: AddMember_def Let_def)

lemma join_as_member_owned: "owned db \<Longrightarrow> owned (snd (join_as_member flt now c a db))"
  using AddMember_owned [of db "flt QAddMember" now c a RoleMember]
  by (auto simp: join_as_member_def split: prod.splits sum.splits)

lemma JoinChannel_owned: "owned db \<Longrightarrow> owned (snd (JoinChannel flt now c a db))"
proof -
  assume o: "owned db"
  have acc: "AcceptInvite f c a db = (r, db') \<Longrightarrow> owned db'" for f r db'
    using o by (auto simp: AcceptInvite_def Let_def owned_def split: if_splits)
  then show ?thesis
    using o join_as_member_owned by (auto simp: JoinChannel_def split: sum.splits bool.splits prod.splits)
qed

lemma RemoveMember_owned:
  assumes "owned db" and "\<And>m. m \<in> set (cd_members db) \<Longrightarrow> member_row c a m \<Longrightarrow> mb_Role m \<noteq> RoleOwner"
  shows "owned (snd (RemoveMember f c a db))"
  by (rule owned_mono [OF assms(1)]) (use assms(2) in \<open>auto simp: RemoveMember_def Let_def\<close>)

lemma LeaveChannel_owned:
  assumes inv: "ch_inv db" and o: "owned db"
  shows "owned (snd (LeaveChannel flt c a db))"
proof -
  have "owned db'" if m: "GetMember (flt QGetMember) c a db = Inr m" "mb_Role m \<noteq> RoleOwner"
    and r: "RemoveMember (flt QRemoveMember) c a db = (r, db')" for m r db'
  proof -
    have "mb_Role x \<noteq> RoleOwner" if "x \<in> set (cd_members db)" "member_row c a x" for x
      using GetMember_Inr [OF m(1)] m(2) member_unique [OF inv that(1) _ that(2), of m] by auto
    with RemoveMember_owned [OF o, of c a "flt QRemoveMember"] r show ?thesis by simp
  qed
  with o show ?thesis by (auto simp: LeaveChannel_def split: sum.splits prod.splits)
qed

lemma require_owner_Inr:
  "require_owner flt c a db = Inr ch \<Longrightarrow> ch \<in> set (cd_channels db) \<and> chn_ID ch = c \<and>
     (\<exists>m \<in> set (cd_members db). member_row c a m \<and> mb_Role m = RoleOwner)"
  by (auto simp: require_owner_def split: sum.splits if_splits dest!: GetChannel_Inr GetMember_Inr)

lemma KickFromChannel_owned:
  assumes o: "owned db"
  shows "owned (snd (KickFromChannel flt c a k db))"
proof -
  have "owned db'" if ro: "require_owner flt c k db = Inr ch" "a \<noteq> k"
    and r: "RemoveMember (flt QRemoveMember) c a db = (r, db')" for ch r db'
  proof -
    from require_owner_Inr [OF ro(1)] obtain k' where
      k: "k' \<in> set (cd_members db)" "member_row c k k'" "mb_Role k' = RoleOwner" by auto
    have "x \<in> set (cd_members db')" if "x \<in> set (cd_members db)" "\<not> member_row c a x" for x
      using r that by (auto simp: RemoveMember_def Let_def split: if_splits)
    moreover have "cd_channels db' = cd_channels db"
      using r by (auto simp: RemoveMember_def Let_def split: if_splits)
    moreover have "\<not> member_row c a k'" using k(2) ro(2) by (simp add: member_row_def)
    moreover have "\<not> member_row c a x" if "mb_ChannelID x \<noteq> c" for x using that by (simp add: member_row_def)
    ultimately show ?thesis
      using o k unfolding owned_def member_row_def by metis
  qed
  with o show ?thesis by (auto simp: KickFromChannel_def split: sum.splits prod.splits)
qed

lemma CreateChannel_owned:
  assumes inv: "ch_inv db" and o: "owned db" and nf: "\<not> flt QAddMember"
  shows "owned (snd (CreateChannel flt now req db))"
proof (cases "fst (CreateChannel flt now req db)")
  case (Inl e)
  then have "snd (CreateChannel flt now req db) = db"
    using inv nf by (auto simp: CreateChannel_def store_CreateChannel_def AddMember_def Let_def
        split: option.splits prod.splits sum.splits if_splits)
  with o show ?thesis by simp
next
  case (Inr ch)
  have fresh: "\<not> member_row (cd_ch_seq db + 1) a m" if "m \<in> set (cd_members db)" for a m
    using that inv by (fastforce simp: ch_inv_defs member_row_def dest: ids_ok_fresh)
  from Inr nf obtain row mrow where
    "cd_channels (snd (CreateChannel flt now req db)) = cd_channels db @ [row]" "chn_ID row = cd_ch_seq db + 1"
    "cd_members (snd (CreateChannel flt now req db)) = cd_members db @ [mrow]"
    "mb_ChannelID mrow = cd_ch_seq db + 1" "mb_Role mrow = RoleOwner"
    by (auto simp: CreateChannel_def store_CreateChannel_def AddMember_def Let_def fresh
        split: option.splits prod.splits sum.splits if_splits)
  with o show ?thesis by (auto simp: owned_def)
qed

lemma store_DeleteChannel_owned: "owned db \<Longrightarrow> owned (snd (store_DeleteChannel f ref c db))"
  by (rule owned_mono) (auto simp: store_DeleteChannel_def Let_def)

lemma update_channels_owned:
  "owned db \<Longrightarrow> (\<And>c. chn_ID (f c) = chn_ID c) \<Longrightarrow> owned (db\<lparr>cd_channels := update_where P f (cd_channels db)\<rparr>)"
  by (auto simp: owned_def in_update_where)

lemma store_updates_owned:
  "owned db \<Longrightarrow> owned (snd (store_UpdateChannel f now ch db))"
  "owned db \<Longrightarrow> owned (snd (store_UpdateChannelSettings f now c st db))"
  by (auto simp: store_UpdateChannel_def store_UpdateChannelSettings_def Let_def intro: update_channels_owned)

lemma UpdateChannel_owned: "owned db \<Longrightarrow> owned (snd (UpdateChannel flt now c req a db))"
proof -
  assume o: "owned db"
  have "store_UpdateChannel f now ch db = (r, db') \<Longrightarrow> owned db'" for f ch r db'
    using store_updates_owned(1) [OF o, of f now ch] by simp
  with o show ?thesis by (auto simp: UpdateChannel_def Let_def split: sum.splits prod.splits)
qed

lemma UpdateChannelSettings_owned: "owned db \<Longrightarrow> owned (snd (UpdateChannelSettings flt now c st db))"
  using store_updates_owned(2) [of db "flt QUpdateSettings" now c st]
  by (auto simp: UpdateChannelSettings_def split: sum.splits prod.splits)

lemma InviteToChannel_owned: "owned db \<Longrightarrow> owned (snd (InviteToChannel flt now c a by db))"
  by (rule owned_mono)
    (auto simp: InviteToChannel_def CreateInvite_def Let_def split: sum.splits bool.splits prod.splits if_splits)

lemma EnsureMyAgentsChannel_owned:
  assumes inv: "ch_inv db" and o: "owned db" and nf: "\<not> flt (InCreate QAddMember)"
  shows "owned (snd (EnsureMyAgentsChannel flt now u h db))"
  using o CreateChannel_owned [OF inv o, of "\<lambda>st. flt (InCreate st)", OF nf, of now "my_agents_request u h"]
  by (auto simp: EnsureMyAgentsChannel_def AddMember_owned split: sum.splits bool.splits prod.splits)

lemma JoinMyAgentsChannel_owned: "owned db \<Longrightarrow> owned (snd (JoinMyAgentsChannel flt now u a db))"
  by (auto simp: JoinMyAgentsChannel_def AddMember_owned split: sum.splits bool.splits)

lemma ch_exec_owned:
  assumes "ch_inv db" "owned db" "\<not> flt QAddMember" "\<not> flt (InCreate QAddMember)"
  shows "owned (ch_exec (flt, op) db)"
  using assms
  by (cases op)
    (simp_all add: CreateChannel_owned JoinChannel_owned LeaveChannel_owned store_DeleteChannel_owned
      InviteToChannel_owned KickFromChannel_owned UpdateChannel_owned UpdateChannelSettings_owned
      EnsureMyAgentsChannel_owned JoinMyAgentsChannel_owned DeleteChannel_def ListChannels_def
      ListChannelsPaginated_def split: sum.splits option.splits)

text \<open>Operations whose insertion of the creator's membership does not fail.\<close>

definition ch_exec_ok :: "(ch_stmt \<Rightarrow> bool) \<times> ch_op \<Rightarrow> ch_db \<Rightarrow> ch_db" where
  "ch_exec_ok fo db =
     (if fst fo QAddMember \<or> fst fo (InCreate QAddMember) then db else ch_exec fo db)"

interpretation cho: invariant_system ch_exec_ok "\<lambda>db. ch_inv db \<and> owned db"
  by unfold_locales (auto simp: ch_exec_ok_def ch_exec_inv ch_exec_owned)

subsection \<open>Who comes in\<close>

definition is_member :: "ch_db \<Rightarrow> id64 \<Rightarrow> string \<Rightarrow> bool" where
  "is_member db c a \<longleftrightarrow> (\<exists>m \<in> set (cd_members db). member_row c a m)"

definition has_pending :: "ch_db \<Rightarrow> id64 \<Rightarrow> string \<Rightarrow> bool" where
  "has_pending db c a \<longleftrightarrow> (\<exists>v \<in> set (cd_invites db). pending_row c a v)"

definition is_owner :: "ch_db \<Rightarrow> id64 \<Rightarrow> string \<Rightarrow> bool" where
  "is_owner db c a \<longleftrightarrow> (\<exists>m \<in> set (cd_members db). member_row c a m \<and> mb_Role m = RoleOwner)"

lemma trace_access [simp]:
  "is_member (record_trace x t db) = is_member db" "has_pending (record_trace x t db) = has_pending db"
  by (simp_all add: is_member_def has_pending_def fun_eq_iff)

text \<open>
  \<open>gate adds invites db db'\<close>: the new members are among \<open>adds\<close> and the new pending invites
  among \<open>invites\<close>.
\<close>

definition gate :: "(id64 \<times> string) set \<Rightarrow> (id64 \<times> string) set \<Rightarrow> ch_db \<Rightarrow> ch_db \<Rightarrow> bool" where
  "gate adds invites db db' \<longleftrightarrow>
     (\<forall>c a. is_member db' c a \<longrightarrow> is_member db c a \<or> (c, a) \<in> adds) \<and>
     (\<forall>c a. has_pending db' c a \<longrightarrow> has_pending db c a \<or> (c, a) \<in> invites)"

lemma gate_refl [simp]: "gate A I db db"
  by (simp add: gate_def)

lemma gate_trace [simp]: "gate A I db (record_trace x t db') = gate A I db db'"
  by (simp add: gate_def)

lemma gate_trans: "gate A I db db' \<Longrightarrow> gate A I db' db'' \<Longrightarrow> gate A I db db''"
  unfolding gate_def by blast

lemma gate_same:
  "set (cd_members db') \<subseteq> set (cd_members db) \<Longrightarrow> set (cd_invites db') \<subseteq> set (cd_invites db) \<Longrightarrow> gate A I db db'"
  by (auto simp: gate_def is_member_def has_pending_def)

lemma AddMember_gate: "AddMember f now c a role db = (r, db') \<Longrightarrow> gate {(c, a)} {} db db'"
  by (auto simp: AddMember_def Let_def gate_def is_member_def has_pending_def member_row_def split: if_splits)

lemma AddMember_members:
  "AddMember f now c a role db = (r, db') \<Longrightarrow> is_member db' x y \<Longrightarrow> is_member db x y \<or> (x, y) = (c, a)"
  using AddMember_gate [of f now c a role db r db'] unfolding gate_def by blast

lemma store_CreateChannel_gate: "store_CreateChannel f now ch db = (r, db') \<Longrightarrow> gate {} {} db db'"
  by (rule gate_same) (auto simp: store_CreateChannel_def Let_def split: if_splits)

lemma CreateChannel_gate:
  "gate {(cd_ch_seq db + 1, cr_CreatedBy req)} {} db (snd (CreateChannel flt now req db))"
proof (cases "ValidateChannelName (cr_Name req)")
  case None
  obtain r db1 where r: "store_CreateChannel (flt QCreateChannel) now (new_channel req) db = (r, db1)"
    by (cases "store_CreateChannel (flt QCreateChannel) now (new_channel req) db")
  have g1: "gate {(cd_ch_seq db + 1, cr_CreatedBy req)} {} db db1"
    using store_CreateChannel_gate [OF r] by (auto simp: gate_def)
  have "chn_ID ch = cd_ch_seq db + 1" if "r = Inr ch" for ch
    using r that by (auto simp: store_CreateChannel_def Let_def split: if_splits)
  with None r g1 show ?thesis
    by (auto simp: CreateChannel_def split: sum.splits prod.splits
        dest!: AddMember_gate intro: gate_trans [OF g1])
qed (simp add: CreateChannel_def)

lemma JoinChannel_cases:
  "snd (JoinChannel flt now c a db) \<in>
     {db, snd (join_as_member flt now c a db), snd (AcceptInvite (flt QAcceptInvite) c a db),
      snd (join_as_member flt now c a (snd (AcceptInvite (flt QAcceptInvite) c a db)))}"
  by (auto simp: JoinChannel_def split: sum.splits bool.splits prod.splits)

lemma JoinChannel_gate:
  assumes inv: "ch_inv db" and ch: "ch \<in> set (cd_channels db)" "chn_IsPrivate ch"
    and m: "is_member (snd (JoinChannel flt now c a db)) (chn_ID ch) b" "\<not> is_member db (chn_ID ch) b"
  shows "c = chn_ID ch \<and> a = b \<and> has_pending db c a"
proof -
  let ?acc = "snd (AcceptInvite (flt QAcceptInvite) c a db)"
  have acc: "is_member ?acc = is_member db"
    by (simp add: AcceptInvite_def Let_def is_member_def fun_eq_iff)
  have join: "is_member (snd (join_as_member flt now c a db0)) x y \<Longrightarrow> is_member db0 x y \<or> (x, y) = (c, a)"
    for db0 x y
    by (auto simp: join_as_member_def split: prod.splits sum.splits dest: AddMember_members)
  have any: "is_member (snd (JoinChannel flt now c a db)) x y \<Longrightarrow> is_member db x y \<or> (x, y) = (c, a)" for x y
    using JoinChannel_cases [of flt now c a db] join [of db x y] join [of ?acc x y] acc by auto
  from any [OF m(1)] m(2) have eq: "c = chn_ID ch" "a = b" by auto
  moreover have "has_pending db c a"
  proof (rule ccontr)
    assume np: "\<not> has_pending db c a"
    have "chn_IsPrivate c'" if "GetChannel (flt QGetChannel) c db = Inr c'" for c'
      using GetChannel_Inr [OF that] channel_unique [OF inv ch(1), of c'] ch(2) eq(1) by metis
    then have "snd (JoinChannel flt now c a db) = db"
      using np HasPendingInvite_Inr [of "flt QHasPendingInvite" c a db]
      by (auto simp: JoinChannel_def has_pending_def split: sum.splits bool.splits prod.splits)
    with m show False by simp
  qed
  ultimately show ?thesis by simp
qed

lemma pending_CreateInvite:
  "CreateInvite f now c a by db = (r, db') \<Longrightarrow> gate {} {(c, a)} db db'"
  by (auto simp: CreateInvite_def Let_def gate_def is_member_def has_pending_def pending_row_def
      invite_row_def in_update_where split: if_splits)

lemma JoinChannel_pending: "has_pending (snd (JoinChannel flt now c a db)) x y \<Longrightarrow> has_pending db x y"
proof -
  let ?acc = "snd (AcceptInvite (flt QAcceptInvite) c a db)"
  have acc: "has_pending ?acc x y \<Longrightarrow> has_pending db x y"
    by (auto simp: AcceptInvite_def Let_def has_pending_def pending_row_def in_update_where split: if_splits)
  have join: "has_pending (snd (join_as_member flt now c a db0)) x y \<Longrightarrow> has_pending db0 x y" for db0
    by (auto simp: join_as_member_def AddMember_def Let_def has_pending_def split: if_splits)
  assume "has_pending (snd (JoinChannel flt now c a db)) x y"
  then show ?thesis
    using JoinChannel_cases [of flt now c a db] acc join [of db] join [of ?acc] by auto
qed

lemma RemoveMember_gate: "RemoveMember f c a db = (r, db') \<Longrightarrow> gate A I db db'"
  by (rule gate_same) (auto simp: RemoveMember_def Let_def split: if_splits)

lemma quiet_gates:
  "gate A I db (snd (LeaveChannel flt c a db))" "gate A I db (snd (KickFromChannel flt c a k db))"
  "gate A I db (snd (DeleteChannel flt ref c db))" "gate A I db (snd (ListChannels flt a db))"
  "gate A I db (snd (ListChannelsPaginated flt a l off db))"
  by (auto simp: LeaveChannel_def KickFromChannel_def DeleteChannel_def store_DeleteChannel_def Let_def
      ListChannels_def ListChannelsPaginated_def split: sum.splits prod.splits option.splits
      intro: RemoveMember_gate gate_same)

lemma update_gates:
  "gate A I db (snd (UpdateChannel flt now c req a db))"
  "gate A I db (snd (UpdateChannelSettings flt now c st db))"
proof -
  have "store_UpdateChannel f now ch db = (r, db') \<Longrightarrow> gate A I db db'" for f ch r db'
    by (rule gate_same) (auto simp: store_UpdateChannel_def Let_def split: if_splits)
  then show "gate A I db (snd (UpdateChannel flt now c req a db))"
    by (auto simp: UpdateChannel_def Let_def split: sum.splits prod.splits)
  show "gate A I db (snd (UpdateChannelSettings flt now c st db))"
    by (rule gate_same)
      (auto simp: UpdateChannelSettings_def store_UpdateChannelSettings_def Let_def split: if_splits)
qed

lemma InviteToChannel_gate:
  assumes "has_pending (snd (InviteToChannel flt now c a by db)) x y" and "\<not> has_pending db x y"
  shows "x = c \<and> y = a \<and> is_owner db c by"
proof (cases "require_owner flt c by db")
  case (Inl e)
  with assms show ?thesis by (simp add: InviteToChannel_def)
next
  case (Inr ch)
  with require_owner_Inr [OF Inr] have "is_owner db c by" by (auto simp: is_owner_def)
  moreover have "gate {} {(c, a)} db (snd (InviteToChannel flt now c a by db))"
    using Inr by (auto simp: InviteToChannel_def split: sum.splits bool.splits prod.splits dest: pending_CreateInvite)
  ultimately show ?thesis using assms unfolding gate_def by blast
qed

lemma InviteToChannel_members: "is_member (snd (InviteToChannel flt now c a by db)) = is_member db"
  by (auto simp: InviteToChannel_def CreateInvite_def Let_def is_member_def fun_eq_iff
      split: sum.splits bool.splits prod.splits if_splits)

text \<open>The two operations on the channels of a user's agents.\<close>

lemma my_agents_gate:
  assumes inv: "ch_inv db" and ch: "ch \<in> set (cd_channels db)"
    and op: "db' = snd (EnsureMyAgentsChannel flt now u h db) \<or> db' = snd (JoinMyAgentsChannel flt now u h db)"
    and m: "is_member db' (chn_ID ch) b" "\<not> is_member db (chn_ID ch) b"
  shows "my_agents_name (chn_Name ch)"
proof (cases "store_GetChannelByName (flt QGetChannelByName) (MyAgentsChannelName u) db")
  case (Inr c)
  note c = GetChannelByName_Inr [OF inv Inr my_agents_lower]
  have "\<exists>role. db' = db \<or> db' = snd (AddMember (flt QAddMember) now (chn_ID c) h role db)"
    using op Inr by (auto simp: EnsureMyAgentsChannel_def JoinMyAgentsChannel_def split: sum.splits bool.splits)
  with m have "chn_ID ch = chn_ID c" by (metis AddMember_members prod.collapse prod.inject)
  with c channel_unique [OF inv ch, of c] have "chn_Name ch = MyAgentsChannelName u" by auto
  then show ?thesis by (simp add: my_agents_name_ok)
next
  case (Inl e)
  let ?cr = "CreateChannel (\<lambda>st. flt (InCreate st)) now (my_agents_request u h) db"
  have "db' = db \<or> db' = snd ?cr"
    using op Inl by (auto simp: EnsureMyAgentsChannel_def JoinMyAgentsChannel_def split: sum.splits prod.splits if_splits)
  with m CreateChannel_gate [of db "my_agents_request u h" "\<lambda>st. flt (InCreate st)" now]
  have "chn_ID ch = cd_ch_seq db + 1" unfolding gate_def by blast
  with ch inv show ?thesis by (auto simp: ch_inv_defs dest: ids_ok_fresh)
qed

lemma my_agents_pending:
  "has_pending (snd (EnsureMyAgentsChannel flt now u h db)) x y \<Longrightarrow> has_pending db x y"
  "has_pending (snd (JoinMyAgentsChannel flt now u h db)) x y \<Longrightarrow> has_pending db x y"
proof -
  have add: "gate {(c, a)} {} db (snd (AddMember f now c a role db))" for c a f role
    by (cases "AddMember f now c a role db") (simp add: AddMember_gate)
  show "has_pending (snd (JoinMyAgentsChannel flt now u h db)) x y \<Longrightarrow> has_pending db x y"
    using add by (auto simp: JoinMyAgentsChannel_def gate_def split: sum.splits bool.splits if_splits)
  show "has_pending (snd (EnsureMyAgentsChannel flt now u h db)) x y \<Longrightarrow> has_pending db x y"
    using add CreateChannel_gate [of db "my_agents_request u h" "\<lambda>st. flt (InCreate st)" now]
    by (auto simp: EnsureMyAgentsChannel_def gate_def split: sum.splits bool.splits prod.splits if_splits)
qed

section \<open>Sending to several recipients\<close>

text \<open>
  What the broadcast relies on: sending keeps the invariant of the message store, a success
  appends one row that is the message for that recipient, an error appends none.
\<close>

locale message_sink =
  fixes send :: "string \<Rightarrow> 's \<Rightarrow> ('e + 'm) \<times> 'f list \<times> 's"
    and inv :: "'s \<Rightarrow> bool"
    and sent :: "'s \<Rightarrow> 'r list"
    and delivered :: "string \<Rightarrow> 'r \<Rightarrow> bool"
  assumes send_inv: "inv s \<Longrightarrow> inv (snd (snd (send a s)))"
    and send_ok: "send a s = (Inr m, eff, s') \<Longrightarrow> \<exists>r. sent s' = sent s @ [r] \<and> delivered a r"
    and send_err: "send a s = (Inl e, eff, s') \<Longrightarrow> sent s' = sent s"
begin

lemma notify_inv: "inv s \<Longrightarrow> inv (snd (notify_each send as s))"
proof (induction "as" arbitrary: s)
  case (Cons a "as")
  then show ?case
    using send_inv [OF Cons.prems, of a] by (auto split: prod.splits) (metis snd_conv)
qed simp

end

text \<open>A sink that is known to reach some of the recipients, whatever was sent before.\<close>

locale reliable_sink = message_sink send inv sent delivered
  for send :: "string \<Rightarrow> 's \<Rightarrow> ('e + 'm) \<times> 'f list \<times> 's"
    and inv :: "'s \<Rightarrow> bool" and sent :: "'s \<Rightarrow> 'r list" and delivered :: "string \<Rightarrow> 'r \<Rightarrow> bool" +
  fixes reliable :: "string \<Rightarrow> bool" and reaches :: "string \<Rightarrow> bool"
  assumes reach: "inv s \<Longrightarrow> reliable a \<Longrightarrow> isl (fst (send a s)) \<longleftrightarrow> \<not> reaches a"
begin

lemma notify_sent:
  "inv s \<Longrightarrow> (\<forall>a \<in> set as. reliable a) \<Longrightarrow>
   \<exists>rs. sent (snd (notify_each send as s)) = sent s @ rs \<and> list_all2 delivered (filter reaches as) rs"
proof (induction "as" arbitrary: s)
  case (Cons a "as")
  obtain r eff s1 where r: "send a s = (r, eff, s1)" by (cases "send a s")
  have "inv s1" using send_inv [OF Cons.prems(1), of a] r by simp
  with Cons obtain rs where rs: "sent (snd (notify_each send as s1)) = sent s1 @ rs"
    "list_all2 delivered (filter reaches as) rs" by fastforce
  have eq: "snd (notify_each send (a # as) s) = snd (notify_each send as s1)"
    using r by (simp split: prod.splits)
  show ?case
  proof (cases r)
    case (Inl e)
    with r reach [OF Cons.prems(1), of a] Cons.prems(2) have "\<not> reaches a" by simp
    with rs eq send_err [of a s e eff s1] r Inl show ?thesis by simp
  next
    case (Inr m)
    with r reach [OF Cons.prems(1), of a] Cons.prems(2) have "reaches a" by simp
    with rs eq send_ok [of a s m eff s1] r Inr show ?thesis by fastforce
  qed
qed simp

end

subsection \<open>The messaging service as a sink\<close>

lemma SendMessage_stored:
  assumes "SendMessage svc env now from to body opts db = (Inr m, eff, db')"
  shows "\<exists>meta conv. effective_metadata (so_Metadata opts) = Some meta \<and>
    m = (new_message from to body opts meta conv)\<lparr>msg_ID := md_msg_seq db + 1\<rparr> \<and>
    md_msgs db' = md_msgs db @ [m\<lparr>msg_CreatedAt := now, msg_UpdatedAt := now\<rparr>]"
proof -
  from assms obtain db1 i meta where res: "resolve_conversation env now from to opts db = (Inr i, db1)"
    and meta: "effective_metadata (so_Metadata opts) = Some meta"
    and ins: "InsertMessage env now (new_message from to body opts meta i) db1 = (Inr m, db')"
    by (auto elim: SendMessage_Inr)
  from InsertMessage_Inr [OF ins] resolve_conversation_step [OF res] meta show ?thesis
    by (intro exI [of _ meta] exI [of _ i]) (simp add: conv_step_def new_message_def)
qed

lemma send_direct_ok:
  assumes inv: "msg_inv db" and nf: "no_faults env" and v: "validate_send env to body opts = None"
    and opts: "so_ConversationID opts = None" "so_Subject opts \<noteq> ''''" "so_ChannelID opts = None" "so_ReplyTo opts = None"
  shows "\<not> isl (fst (SendMessage svc env now from to body opts db))"
proof -
  from v opts have to: "to \<noteq> ''''" and pri: "1 \<le> effective_priority (so_Priority opts)"
    "effective_priority (so_Priority opts) \<le> 10" by (auto simp: validate_send_def split: if_splits)
  have "\<exists>i db1. resolve_conversation env now from to opts db = (Inr i, db1)"
    using nf opts to
    by (auto simp: resolve_conversation_def InsertConversation_def no_faults_def Let_def split: option.splits)
  then obtain i db1 where res: "resolve_conversation env now from to opts db = (Inr i, db1)" by blast
  from resolve_by_subject [OF inv opts(1-3) to res] have "i \<in> set (map cv_ID (md_convs db1))" by auto
  then have "message_fks_ok env db1 (new_message from to body opts meta i)" for meta
    using opts by (simp add: message_fks_ok_def new_message_def)
  with pri nf v res show ?thesis
    by (simp add: SendMessage_def InsertMessage_def no_faults_def new_message_def Let_def)
qed

definition mention_row :: "Channel \<Rightarrow> string \<Rightarrow> string \<Rightarrow> id64 \<Rightarrow> string \<Rightarrow> Message \<Rightarrow> bool" where
  "mention_row ch from body i a m \<longleftrightarrow> msg_ToAgent m = Some a \<and> msg_FromAgent m = from \<and> msg_Body m = body \<and>
     msg_ChannelID m = None \<and> msg_Status m = MPending \<and>
     RValid (msg_Metadata m) = inbox_meta (chn_ID ch) (chn_Name ch) i"

lemma validate_direct:
  "validate_send (env_of agents cdb f) to body \<lparr>so_Subject = s, so_Priority = p, so_Metadata = RValid j,
     so_ChannelID = None, so_ConversationID = cv, so_ReplyTo = rt, so_Attachments = att\<rparr> = None \<longleftrightarrow>
   trim_space body \<noteq> '''' \<and> 1 \<le> effective_priority p \<and> effective_priority p \<le> 10 \<and> to \<noteq> '''' \<and>
   \<not> f SAgentExists \<and> to \<in> set agents"
  by (auto simp: validate_send_def env_of_def effective_metadata_def)

interpretation bc: reliable_sink
  "send_mention svc agents mflt now cdb ch from body priority i" msg_inv md_msgs "mention_row ch from body i"
  "\<lambda>a. \<forall>st. \<not> mflt a st"
  "\<lambda>a. trim_space body \<noteq> '''' \<and> 1 \<le> effective_priority priority \<and> effective_priority priority \<le> 10 \<and>
     a \<noteq> '''' \<and> a \<in> set agents"
  for svc agents mflt now cdb ch "from" body priority i
proof
  fix s a
  assume "msg_inv s"
  then show "msg_inv (snd (snd (send_mention svc agents mflt now cdb ch from body priority i a s)))"
    by (simp add: send_mention_def SendMessage_inv)
next
  fix a s m eff s'
  assume s: "send_mention svc agents mflt now cdb ch from body priority i a s = (Inr m, eff, s')"
  then have "a \<noteq> ''''"
    by (auto simp: send_mention_def SendMessage_def validate_send_def split: option.splits if_splits)
  with SendMessage_stored [OF s [unfolded send_mention_def]]
  show "\<exists>r. md_msgs s' = md_msgs s @ [r] \<and> mention_row ch from body i a r"
    by (auto simp: mention_row_def new_message_def inbox_meta_def effective_metadata_def)
next
  fix a s e eff s'
  assume "send_mention svc agents mflt now cdb ch from body priority i a s = (Inl e, eff, s')"
  from SendMessage_Inl [OF this [unfolded send_mention_def]]
  show "md_msgs s' = md_msgs s" by (simp add: conv_step_def)
next
  fix s a
  assume inv: "msg_inv s" and nf: "\<forall>st. \<not> mflt a st"
  let ?env = "env_of agents cdb (mflt a)"
  let ?o = "\<lparr>so_Subject = ''channel:'' @ chn_Name ch, so_Priority = priority,
        so_Metadata = inbox_meta (chn_ID ch) (chn_Name ch) i, so_ChannelID = None,
        so_ConversationID = None, so_ReplyTo = None, so_Attachments = []\<rparr>"
  have nf': "no_faults ?env" using nf by (simp add: no_faults_def env_of_def)
  have "isl (fst (SendMessage svc ?env now from a body ?o s)) \<longleftrightarrow> validate_send ?env a body ?o \<noteq> None"
    using send_direct_ok [OF inv nf', of a body ?o svc now "from"]
    by (cases "validate_send ?env a body ?o") (auto simp: SendMessage_def)
  moreover have "validate_send ?env a body ?o = None \<longleftrightarrow> trim_space body \<noteq> '''' \<and>
      1 \<le> effective_priority priority \<and> effective_priority priority \<le> 10 \<and> a \<noteq> '''' \<and> a \<in> set agents"
    using nf unfolding inbox_meta_def validate_direct by auto
  ultimately show "isl (fst (send_mention svc agents mflt now cdb ch from body priority i a s)) \<longleftrightarrow>
      \<not> (trim_space body \<noteq> '''' \<and> 1 \<le> effective_priority priority \<and> effective_priority priority \<le> 10 \<and>
        a \<noteq> '''' \<and> a \<in> set agents)"
    unfolding send_mention_def by (simp only:)
qed

subsection \<open>Broadcast\<close>

lemma AddMember_Inr: "AddMember f now c a role db = (Inr u, db') \<Longrightarrow> is_member db' c a"
  by (auto simp: AddMember_def Let_def is_member_def member_row_def split: if_splits)

lemma JoinChannel_Inr:
  assumes "JoinChannel flt now c a db = (Inr u, db')"
  shows "is_member db' c a"
proof -
  have "join_as_member flt now c a db0 = (Inr u, db') \<Longrightarrow> is_member db' c a" for db0
    by (auto simp: join_as_member_def split: prod.splits sum.splits dest: AddMember_Inr)
  with assms show ?thesis
    by (auto simp: JoinChannel_def is_member_def split: sum.splits bool.splits prod.splits if_splits
        dest: IsMember_Inr)
qed

lemma ensure_sender_inv: "ch_inv db \<Longrightarrow> ch_inv (snd (ensure_sender flt now ch from db))"
  by (auto simp: ensure_sender_def JoinChannel_inv split: sum.splits bool.splits)

lemma ensure_sender_Inr:
  assumes "ensure_sender flt now ch from db = (Inr u, db')"
  shows "is_member db' (chn_ID ch) from \<and> (chn_IsPrivate ch \<longrightarrow> is_member db (chn_ID ch) from)"
  using assms
  by (auto simp: ensure_sender_def is_member_def split: sum.splits bool.splits if_splits
      dest: IsMember_Inr JoinChannel_Inr [unfolded is_member_def])

lemma GetMembers_set:
  "GetMembers f c db = Inr ms \<Longrightarrow> set (map mb_AgentName ms) = {a. is_member db c a}"
  by (auto simp: GetMembers_def is_member_def member_row_def split: if_splits)

lemma GetMembers_distinct:
  assumes "ch_inv db" "GetMembers f c db = Inr ms"
  shows "distinct (map mb_AgentName ms)"
proof -
  let ?F = "filter (\<lambda>m. mb_ChannelID m = c) (cd_members db)"
  have ms: "ms = sort_key mb_JoinedAt ?F" using assms(2) by (simp add: GetMembers_def split: if_splits)
  have "inj_on mb_AgentName (set ?F)"
    using assms(1) by (auto simp: ch_inv_defs distinct_map pair_of_def inj_on_def)
  moreover have "distinct ?F" using assms(1) by (auto simp: ch_inv_defs distinct_map)
  ultimately have "distinct (map mb_AgentName ?F)" by (simp add: distinct_map)
  moreover have "mset (map mb_AgentName ms) = mset (map mb_AgentName ?F)" unfolding ms by simp
  ultimately show ?thesis using mset_eq_imp_distinct_iff by metis
qed

lemma ParseMentions_not_Nil: "a \<in> set (ParseMentions body) \<Longrightarrow> a \<noteq> ''''"
proof
  assume "a \<in> set (ParseMentions body)" "a = ''''"
  then have "'''' \<in> set (scan_mentions True body)" by (auto simp: ParseMentions_def to_lower_def)
  from scan_mentions_sound [OF this] show False using mention_name_not_Nil by force
qed

lemma BroadcastMessage_Inr:
  assumes "BroadcastMessage flt mflt svc agents now c from body priority metadata replyTo attachments cdb mdb =
    (Inr out, eff, cdb', mdb')"
  obtains ch cdb1 members m eff1 mdb1 eff2 where
    "GetChannel (flt QGetChannel) c cdb = Inr ch" "ensure_sender flt now ch from cdb = (Inr (), cdb1)"
    "GetMembers (flt QGetMembers) c cdb1 = Inr members"
    "SendMessage svc (env_of agents cdb1 (mflt '''')) now from '''' body
       (channel_post_opts ch priority metadata replyTo attachments (mentioned_members from body members)) mdb =
       (Inr m, eff1, mdb1)"
    "notify_each (send_mention svc agents mflt now cdb1 ch from body priority (msg_ID m))
       (filter (\<lambda>a. a \<noteq> from \<and> a \<in> set (mentioned_members from body members)) (map mb_AgentName members)) mdb1 =
       (eff2, mdb')"
    "out = [m]" "eff = eff1 @ eff2" "cdb' = record_trace from ''channel.broadcast'' cdb1"
  using assms unfolding BroadcastMessage_def Let_def
  by (auto split: sum.splits prod.splits)

lemma BroadcastMessage_inv:
  assumes inv: "ch_inv cdb" "msg_inv mdb"
    and b: "BroadcastMessage flt mflt svc agents now c from body priority metadata replyTo attachments cdb mdb =
      (r, eff, cdb', mdb')"
  shows "ch_inv cdb' \<and> msg_inv mdb'"
proof -
  have es: "ensure_sender flt now ch from cdb = (r, x) \<Longrightarrow> ch_inv x" for ch r x
    using ensure_sender_inv [OF inv(1), of flt now ch "from"] by simp
  have sm: "SendMessage svc env now from to body opts mdb = (r, e, x) \<Longrightarrow> msg_inv x" for env to opts r e x
    using SendMessage_inv [OF inv(2), of svc env now "from" to body opts] by simp
  have ne: "notify_each (send_mention svc agents mflt now cdb1 ch from body priority i) as mdb1 = (e, x) \<Longrightarrow>
      msg_inv mdb1 \<Longrightarrow> msg_inv x" for cdb1 ch i "as" mdb1 e x
    using bc.notify_inv [of mdb1 svc agents mflt now cdb1 ch "from" body priority i "as"] by simp
  show ?thesis
    using b inv unfolding BroadcastMessage_def Let_def
    by (auto split: sum.splits prod.splits dest: es sm ne)
qed

subsection \<open>The gate of a private channel\<close>

lemma quiet_access:
  assumes "gate {} {} db db'"
  shows "is_member db' c a \<Longrightarrow> is_member db c a" "has_pending db' c a \<Longrightarrow> has_pending db c a"
  using assms unfolding gate_def by blast+

lemmas quiet_ops = quiet_gates [THEN quiet_access(1)] update_gates [THEN quiet_access(1)]
  quiet_gates [THEN quiet_access(2)] update_gates [THEN quiet_access(2)]

lemma create_access:
  assumes "ch_inv db" and "ch \<in> set (cd_channels db)"
  shows "is_member (snd (CreateChannel flt now req db)) (chn_ID ch) a \<Longrightarrow> is_member db (chn_ID ch) a"
    "has_pending (snd (CreateChannel flt now req db)) (chn_ID ch) a \<Longrightarrow> has_pending db (chn_ID ch) a"
proof -
  have "chn_ID ch \<noteq> cd_ch_seq db + 1" using assms by (auto simp: ch_inv_defs dest: ids_ok_fresh)
  with CreateChannel_gate [of db req flt now]
  show "is_member (snd (CreateChannel flt now req db)) (chn_ID ch) a \<Longrightarrow> is_member db (chn_ID ch) a"
    "has_pending (snd (CreateChannel flt now req db)) (chn_ID ch) a \<Longrightarrow> has_pending db (chn_ID ch) a"
    unfolding gate_def by blast+
qed

lemma new_member_gate:
  assumes "ch_inv db" and "ch \<in> set (cd_channels db)" and "chn_IsPrivate ch"
    and "is_member (ch_exec (flt, op) db) (chn_ID ch) a" "\<not> is_member db (chn_ID ch) a"
  shows "((\<exists>now. op = OJoinChannel now (chn_ID ch) a) \<and> has_pending db (chn_ID ch) a) \<or>
      my_agents_name (chn_Name ch)"
proof -
  note my = my_agents_gate [OF assms(1,2) disjI1 [OF refl]] my_agents_gate [OF assms(1,2) disjI2 [OF refl]]
  show ?thesis
    using assms(4,5)
    by (cases op) (auto simp: InviteToChannel_members intro: my
        dest: create_access [OF assms(1,2)] JoinChannel_gate [OF assms(1-3)] quiet_ops)
qed

lemma new_invite_gate:
  assumes "ch_inv db" and "ch \<in> set (cd_channels db)"
    and "has_pending (ch_exec (flt, op) db) (chn_ID ch) a" "\<not> has_pending db (chn_ID ch) a"
  shows "\<exists>now inviter. op = OInvite now (chn_ID ch) a inviter \<and> is_owner db (chn_ID ch) inviter"
  using assms(3,4)
  by (cases op) (auto dest: create_access [OF assms(1,2)] JoinChannel_pending InviteToChannel_gate
      my_agents_pending quiet_ops)

section \<open>Properties\<close>

definition fine :: "ch_stmt \<Rightarrow> bool" where
  "fine st = False"

definition room_request :: "string \<Rightarrow> string \<Rightarrow> bool \<Rightarrow> CreateChannelRequest" where
  "room_request name by private = \<lparr>cr_Name = name, cr_Description = '''', cr_Topic = '''', cr_Type = '''',
     cr_IsPrivate = private, cr_IsSystem = False, cr_CreatedBy = by\<rparr>"

definition private_room :: ch_db where
  "private_room = fold ch_exec
     [(fine, OCreateChannel 1 (room_request ''Ops'' ''alice'' True)), (fine, OInvite 2 1 ''bob'' ''alice'')]
     (ch_empty False)"

lemma private_room_inv: "ch_inv private_room"
  unfolding private_room_def by (intro chs.run_inv ch_empty_inv)

text \<open>
  The invariant of the channel tables, after any sequence of operations, whichever of
  their statements fail: ids and lower-case names are unique and the names valid, an agent is
  at most once a member of a channel and at most once invited, members and invites belong to
  existing channels, and every member of a private channel is its creator, or was invited, or
  the channel is named as the channel of a user's agents.
\<close>

theorem channel_invariant:
  "ch_inv (fold ch_exec ops (ch_empty tracer))"
  by (intro chs.run_inv ch_empty_inv)

text \<open>
  C15. The gate of a private channel, for any single operation on a state of the invariant:
  an agent becomes a member of an existing private channel only by joining it with a pending
  invite, unless the channel is named as the channel of a user's agents, and an invite becomes
  pending only when an owner of the channel invites.
\<close>

theorem private_channel_gate:
  assumes "ch_inv db" and "ch \<in> set (cd_channels db)" and "chn_IsPrivate ch"
  shows "(is_member (ch_exec (flt, op) db) (chn_ID ch) a \<and> \<not> is_member db (chn_ID ch) a \<longrightarrow>
      ((\<exists>now. op = OJoinChannel now (chn_ID ch) a) \<and> has_pending db (chn_ID ch) a) \<or>
      my_agents_name (chn_Name ch)) \<and>
    (has_pending (ch_exec (flt, op) db) (chn_ID ch) a \<and> \<not> has_pending db (chn_ID ch) a \<longrightarrow>
      (\<exists>now inviter. op = OInvite now (chn_ID ch) a inviter \<and> is_owner db (chn_ID ch) inviter))"
  using new_member_gate [OF assms, of flt op a] new_invite_gate [OF assms(1,2), of flt op a] by blast

theorem private_channel_gate_witness:
  "\<exists>ch \<in> set (cd_channels private_room). chn_IsPrivate ch \<and> chn_ID ch = 1 \<and>
     is_member (ch_exec (fine, OJoinChannel 3 1 ''bob'') private_room) 1 ''bob'' \<and>
     has_pending private_room 1 ''bob''"
proof -
  let ?ch = "hd (cd_channels private_room)"
  have ch: "?ch \<in> set (cd_channels private_room)" "chn_IsPrivate ?ch" "chn_ID ?ch = 1"
    "chn_Name ?ch = ''ops''" by code_simp+
  have j: "is_member (ch_exec (fine, OJoinChannel 3 1 ''bob'') private_room) 1 ''bob''"
    "\<not> is_member private_room 1 ''bob''" by code_simp+
  have "\<not> my_agents_name ''ops''" by (simp add: my_agents_name_def)
  with private_channel_gate [OF private_room_inv ch(1,2), of fine "OJoinChannel 3 1 ''bob''" "''bob''"] ch j
  have "has_pending private_room 1 ''bob''" by simp
  with ch j show ?thesis by blast
qed

text \<open>
  As long as the insertion of a creator's membership does not fail, every channel always
  has an owner: an owner can neither leave nor kick the last owner, and nothing else takes the
  role away.
\<close>

theorem channel_owner_remains:
  "owned (fold ch_exec_ok ops (ch_empty tracer))"
proof -
  have "ch_inv (ch_empty tracer) \<and> owned (ch_empty tracer)"
    by (simp add: ch_empty_inv) (simp add: owned_def ch_empty_def)
  from cho.run_inv [OF this, of ops] show ?thesis by simp
qed

text \<open>
  The channel and the membership of its creator are inserted by two statements outside a
  transaction: when the second fails, the channel stays without members.
\<close>

lemma ownerless_channel:
  "let db = snd (CreateChannel (\<lambda>st. st = QAddMember) 1 (room_request ''ops'' ''alice'' True) (ch_empty False))
   in map chn_Name (cd_channels db) = [''ops''] \<and> cd_members db = [] \<and> \<not> owned db"
  by code_simp

text \<open>Likewise an invite is used up when the membership of the invited agent cannot be inserted.\<close>

lemma invite_lost:
  "let db = snd (JoinChannel (\<lambda>st. st = QAddMember) 3 1 ''bob'' private_room)
   in \<not> is_member db 1 ''bob'' \<and> \<not> has_pending db 1 ''bob'' \<and>
      fst (JoinChannel fine 4 1 ''bob'' db) = Inl ErrNotInvited"
  by code_simp

definition counted :: "ch_db \<Rightarrow> Channel \<Rightarrow> ChannelWithCount" where
  "counted db c = \<lparr>cwc_Channel = c,
     cwc_MemberCount = length (filter (\<lambda>m. mb_ChannelID m = chn_ID c) (cd_members db))\<rparr>"

lemma count_all_eq: "\<not> flt QCountMembers \<Longrightarrow> count_all flt db cs = Inr (map (counted db) cs)"
  by (induction cs) (simp_all add: CountMembers_def counted_def)

lemma member_count:
  assumes "ch_inv db"
  shows "length (filter (\<lambda>m. mb_ChannelID m = i) (cd_members db)) = card {a. is_member db i a}"
proof -
  let ?ms = "sort_key mb_JoinedAt (filter (\<lambda>m. mb_ChannelID m = i) (cd_members db))"
  have ms: "GetMembers False i db = Inr ?ms" by (simp add: GetMembers_def)
  from distinct_card [OF GetMembers_distinct [OF assms ms]]
  have "card {a. is_member db i a} = length (map mb_AgentName ?ms)" unfolding GetMembers_set [OF ms] .
  then show ?thesis by simp
qed

lemma page_slice_eq:
  assumes "0 < l" "0 \<le> off" "int (length xs) + l < 2 ^ 63"
  shows "page_slice l off xs = Some (limit_offset l off xs)"
proof -
  define start where "start = min off (int (length xs))"
  have "signed_take_bit 63 (start + l) = start + l"
    using assms by (intro signed_take_bit_int_eq_self) (auto simp: start_def)
  moreover have "(if int (length xs) < off then int (length xs) else off) = start" by (simp add: start_def)
  moreover have "0 \<le> start" "start \<le> int (length xs)" using assms by (simp_all add: start_def)
  moreover have "take (nat (min (start + l) (int (length xs)) - start)) (drop (nat start) xs) =
      take (nat l) (drop (nat off) xs)"
  proof (cases "off \<le> int (length xs)")
    case True
    then have st: "start = off" by (simp add: start_def)
    have "take (nat (min (off + l) (int (length xs)) - off)) ys = take (nat l) ys"
      if "length ys = length xs - nat off" for ys :: "'a list"
      using that assms True by (cases "off + l \<le> int (length xs)") (auto simp: nat_diff_distrib)
    from this [of "drop (nat off) xs"] show ?thesis by (simp add: st)
  qed (use assms in \<open>simp add: start_def\<close>)
  ultimately show ?thesis
    using assms by (simp add: page_slice_def limit_offset_def Let_def min_def split: if_splits)
qed

text \<open>
  Listing channels: without faults an agent is shown exactly the public channels and the
  private ones it is a member of or has a pending invite to, in the order of their names, each
  once and with the number of its members; the count agrees with the listing, and a page with
  a positive limit is the corresponding part of it (as long as the sum of the limit and the
  number of channels fits into 64 bits).
\<close>

theorem list_channels_exact:
  assumes "ch_inv db" and "\<not> flt QListChannels" and "\<not> flt QCountMembers"
  shows "\<exists>cs. fst (ListChannels flt agent db) = Inr cs \<and>
    set (map cwc_Channel cs) = {c \<in> set (cd_channels db). visible_to db agent c} \<and>
    sorted (map (chn_Name \<circ> cwc_Channel) cs) \<and> distinct (map (chn_ID \<circ> cwc_Channel) cs) \<and>
    (\<forall>c \<in> set cs. cwc_MemberCount c = card {a. is_member db (chn_ID (cwc_Channel c)) a}) \<and>
    CountChannels False agent db = Inr (length cs) \<and>
    (0 < l \<and> 0 \<le> off \<and> int (length cs) + l < 2 ^ 63 \<longrightarrow>
       fst (ListChannelsPaginated flt agent l off db) =
         Inr \<lparr>pc_Channels = limit_offset l off cs, pc_Total = length cs, pc_Offset = off, pc_Limit = l\<rparr>)"
proof -
  let ?vis = "filter (visible_to db agent) (cd_channels db)"
  let ?list = "sort_key chn_Name ?vis"
  define cs where "cs = map (counted db) ?list"
  have chan: "map cwc_Channel cs = ?list" by (simp add: cs_def counted_def comp_def)
  have ids: "distinct (map chn_ID ?vis)" using assms(1) by (simp add: ch_inv_defs ids_ok_def distinct_map_filter)
  moreover have "mset (map chn_ID ?list) = mset (map chn_ID ?vis)" by simp
  ultimately have d: "distinct (map chn_ID ?list)" using mset_eq_imp_distinct_iff by metis
  have "length (dedup (map chn_ID ?vis)) = length ?vis"
    using ids by (metis distinct_card distinct_dedup length_map set_dedup)
  then have n: "CountChannels False agent db = Inr (length cs)" by (simp add: CountChannels_def cs_def)
  note members = member_count [OF assms(1)]
  have ls: "fst (ListChannels flt agent db) = Inr cs"
    using assms by (simp add: ListChannels_def store_ListChannels_def count_all_eq cs_def)
  have page: "fst (ListChannelsPaginated flt agent l off db) =
         Inr \<lparr>pc_Channels = limit_offset l off cs, pc_Total = length cs, pc_Offset = off, pc_Limit = l\<rparr>"
    if "0 < l \<and> 0 \<le> off \<and> int (length cs) + l < 2 ^ 63"
  proof -
    have "map (counted db) (limit_offset l off ?list) = limit_offset l off cs"
      by (simp add: limit_offset_def Let_def cs_def drop_map take_map)
    moreover have "length ?list = length cs" by (simp add: cs_def)
    moreover have "page_slice l off ?list = Some (limit_offset l off ?list)"
      using that by (intro page_slice_eq) (simp_all add: cs_def)
    moreover have "page_limit l = l" "page_offset off = off" using that by (simp_all add: page_limit_def page_offset_def)
    ultimately show ?thesis
      using assms by (simp add: ListChannelsPaginated_def store_ListChannels_def count_all_eq)
  qed
  have "set (map cwc_Channel cs) = {c \<in> set (cd_channels db). visible_to db agent c}" unfolding chan by auto
  moreover have "sorted (map (chn_Name \<circ> cwc_Channel) cs)" "distinct (map (chn_ID \<circ> cwc_Channel) cs)"
    using d by (simp_all add: chan flip: map_map)
  moreover have "\<forall>c \<in> set cs. cwc_MemberCount c = card {a. is_member db (chn_ID (cwc_Channel c)) a}"
    by (simp add: cs_def counted_def members)
  ultimately show ?thesis using ls n page by blast
qed

theorem list_channels_exact_witness:
  "\<exists>cs. fst (ListChannels fine ''carol'' private_room) = Inr cs \<and>
     set (map cwc_Channel cs) = {c \<in> set (cd_channels private_room). visible_to private_room ''carol'' c}"
  using list_channels_exact [OF private_room_inv, of fine "''carol''" 1 0] by (auto simp: fine_def)

text \<open>The agents a broadcast notifies.\<close>

definition notified :: "ch_db \<Rightarrow> string list \<Rightarrow> id64 \<Rightarrow> string \<Rightarrow> string \<Rightarrow> string set" where
  "notified cdb agents c from body =
     {a \<in> set (ParseMentions body). is_member cdb c a \<and> a \<noteq> from \<and> a \<in> set agents}"

lemma mentioned_members_set:
  assumes "GetMembers f c cdb = Inr members"
  shows "set (mentioned_members from body members) = {a \<in> set (ParseMentions body). is_member cdb c a \<and> a \<noteq> from}"
  using GetMembers_set [OF assms] by (auto simp: mentioned_members_def)

lemma list_all2_to: "list_all2 (mention_row ch from body i) as ns \<Longrightarrow> map msg_ToAgent ns = map Some as"
  by (induction rule: list_all2_induct) (simp_all add: mention_row_def)

lemma broadcast_notes:
  assumes inv: "ch_inv cdb" "msg_inv mdb" and ms: "GetMembers f c cdb = Inr members"
    and nf: "\<And>a st. a \<noteq> '''' \<Longrightarrow> \<not> mflt a st"
    and ok: "trim_space body \<noteq> ''''" "1 \<le> effective_priority priority" "effective_priority priority \<le> 10"
    and ne: "notify_each (send_mention svc agents mflt now cdb ch from body priority i)
       (filter (\<lambda>a. a \<noteq> from \<and> a \<in> set (mentioned_members from body members)) (map mb_AgentName members)) mdb = (eff, mdb')"
  shows "\<exists>ns. md_msgs mdb' = md_msgs mdb @ ns \<and> distinct (map msg_ToAgent ns) \<and>
    set (map msg_ToAgent ns) = Some ` notified cdb agents c from body \<and>
    (\<forall>n \<in> set ns. \<exists>a. mention_row ch from body i a n)"
proof -
  let ?as = "filter (\<lambda>a. a \<noteq> from \<and> a \<in> set (mentioned_members from body members)) (map mb_AgentName members)"
  let ?reach = "\<lambda>a. trim_space body \<noteq> '''' \<and> 1 \<le> effective_priority priority \<and>
     effective_priority priority \<le> 10 \<and> a \<noteq> '''' \<and> a \<in> set agents"
  have nn: "a \<noteq> ''''" if "a \<in> set ?as" for a
    using that mentioned_members_set [OF ms] by (intro ParseMentions_not_Nil [of a body]) auto
  then have "\<forall>a \<in> set ?as. \<forall>st. \<not> mflt a st" using nf by blast
  from bc.notify_sent [OF inv(2) this, of svc agents now cdb ch "from" body priority i] ne
  obtain ns where ns: "md_msgs mdb' = md_msgs mdb @ ns"
    "list_all2 (mention_row ch from body i) (filter ?reach ?as) ns" by auto
  have "set (filter ?reach ?as) = notified cdb agents c from body"
    using nn mentioned_members_set [OF ms] GetMembers_set [OF ms] ok ParseMentions_not_Nil
    by (auto simp: notified_def)
  moreover have "distinct (filter ?reach ?as)" using GetMembers_distinct [OF inv(1) ms] by simp
  moreover note list_all2_to [OF ns(2)]
  moreover have "\<exists>a. mention_row ch from body i a n" if "n \<in> set ns" for n
    using ns(2) that by (auto simp: list_all2_conv_all_nth in_set_conv_nth)
  ultimately show ?thesis
    using ns(1) by (intro exI [of _ ns]) (auto simp: distinct_map simp del: set_filter filter_filter)
qed


definition open_room :: ch_db where
  "open_room = fold ch_exec
     [(fine, OCreateChannel 1 (room_request ''ops'' ''alice'' False)), (fine, OJoinChannel 2 1 ''bob'')] (ch_empty False)"


end
