(* ===== verification/Auction.thy ===== *)
theory Auction
  imports Channels
begin

text \<open>
  Task auctions: \<open>internal/channels/task_types.go\<close>, \<open>task_store.go\<close> and
  \<open>swarm_service.go\<close>.

  The tables \<open>tasks\<close> and \<open>task_bids\<close> are the record \<open>au_db\<close>; membership is read from the
  channel tables of \<open>Channels\<close>. Instants given by callers and by the clock are counts of
  nanoseconds; the store keeps a deadline as text with a resolution of seconds, that is the
  second it falls into, and compares such texts, which for the years 0 to 9999 is the
  comparison of those seconds.

  The service calls several statements without a transaction. \<open>flt\<close> says which statements
  fail. The loop of \<open>ExpireTasks\<close> cancels batches until a batch is not full; which rows a
  batch takes first is left to SQLite, so the loop is parametrised by a sort key, and it
  terminates because every full batch leaves fewer expired tasks.
\<close>

section \<open>Data\<close>

datatype auction_status = AOpen | AAssigned | ACompleted | ACancelled

datatype bid_status = BPending | BAccepted | BRejected

fun auction_status_text :: "auction_status \<Rightarrow> string" where
  "auction_status_text AOpen = ''open''"
| "auction_status_text AAssigned = ''assigned''"
| "auction_status_text ACompleted = ''completed''"
| "auction_status_text ACancelled = ''cancelled''"

record AuctionTask =
  at_ID :: id64
  at_ChannelID :: id64
  at_PostedBy :: string
  at_Title :: string
  at_Description :: string
  at_Requirements :: string
  at_Deadline :: "timestamp option"
  at_Status :: auction_status
  at_AssignedTo :: string
  at_CreatedAt :: timestamp
  at_UpdatedAt :: timestamp

record Bid =
  bd_ID :: id64
  bd_TaskID :: id64
  bd_AgentName :: string
  bd_Capabilities :: string
  bd_TimeEstimate :: string
  bd_Message :: string
  bd_Status :: bid_status
  bd_CreatedAt :: timestamp

record PaginatedTasks =
  pt_Tasks :: "AuctionTask list"
  pt_Total :: nat
  pt_Offset :: int
  pt_Limit :: int

datatype au_error =
    AuChannelError ch_error
  | NotAuctionChannel string
  | DeadlinePassed
  | TaskNotFound id64
  | BidNotFound id64
  | TaskNotOpen auction_status
  | OwnTask
  | AlreadyBid string id64
  | NotPoster
  | BidOfOtherTask id64 id64
  | TaskNotAssigned auction_status
  | NotAssignee
  | ContextDone
  | AuPanic
  | AuStatementFailed

datatype au_stmt =
    ACreateTask | AGetTask | AListTasks | ACountTasks | AUpdateTask | ACreateBid | AGetBids | AGetBid
  | AAcceptBid | ARejectBid id64 | AExpireCheck | AExpireContext nat | AExpireBatch nat | ACancelChannel
  | AChannel ch_stmt

record au_db =
  ad_tasks :: "AuctionTask list"
  ad_task_seq :: id64
  ad_bids :: "Bid list"
  ad_bid_seq :: id64
  ad_tracer :: bool
  ad_traces :: "(string \<times> string) list"

definition seconds :: "int \<Rightarrow> timestamp" where
  "seconds ns = ns div 1000000000"

section \<open>Store\<close>

text \<open>The channel of a new task must exist (\<open>chans\<close> are the ids of the channel table).\<close>

definition store_CreateTask ::
  "bool \<Rightarrow> id64 list \<Rightarrow> timestamp \<Rightarrow> AuctionTask \<Rightarrow> au_db \<Rightarrow> (au_error + AuctionTask) \<times> au_db" where
  "store_CreateTask failed chans now t db =
     (if failed \<or> at_ChannelID t \<notin> set chans then (Inl AuStatementFailed, db)
      else let i = ad_task_seq db + 1;
               row = t\<lparr>at_ID := i, at_Requirements := (if at_Requirements t = '''' then ''{}'' else at_Requirements t),
                 at_Deadline := map_option seconds (at_Deadline t), at_CreatedAt := now, at_UpdatedAt := now\<rparr>
        in (Inr (t\<lparr>at_ID := i\<rparr>), db\<lparr>ad_tasks := ad_tasks db @ [row], ad_task_seq := i\<rparr>))"

definition get_task :: "bool \<Rightarrow> id64 \<Rightarrow> au_db \<Rightarrow> au_error + AuctionTask" where
  "get_task failed i db =
     (if failed then Inl AuStatementFailed
      else case find_row (\<lambda>t. at_ID t = i) (ad_tasks db) of
             None \<Rightarrow> Inl (TaskNotFound i) | Some t \<Rightarrow> Inr t)"

definition listed_task :: "id64 \<Rightarrow> string \<Rightarrow> AuctionTask \<Rightarrow> bool" where
  "listed_task c status t \<longleftrightarrow> at_ChannelID t = c \<and> (status \<noteq> '''' \<longrightarrow> auction_status_text (at_Status t) = status)"

definition list_tasks :: "bool \<Rightarrow> id64 \<Rightarrow> string \<Rightarrow> au_db \<Rightarrow> au_error + AuctionTask list" where
  "list_tasks failed c status db =
     (if failed then Inl AuStatementFailed
      else Inr (sort_key (\<lambda>t. - at_CreatedAt t) (filter (listed_task c status) (ad_tasks db))))"

definition CountTasks :: "bool \<Rightarrow> id64 \<Rightarrow> string \<Rightarrow> au_db \<Rightarrow> au_error + nat" where
  "CountTasks failed c status db =
     (if failed then Inl AuStatementFailed
      else Inr (length (filter (listed_task c status) (ad_tasks db))))"

definition set_status :: "timestamp \<Rightarrow> auction_status \<Rightarrow> string \<Rightarrow> AuctionTask \<Rightarrow> AuctionTask" where
  "set_status now status assignedTo t =
     (if assignedTo \<noteq> '''' then t\<lparr>at_Status := status, at_AssignedTo := assignedTo, at_UpdatedAt := now\<rparr>
      else t\<lparr>at_Status := status, at_UpdatedAt := now\<rparr>)"

definition UpdateTaskStatus ::
  "bool \<Rightarrow> timestamp \<Rightarrow> id64 \<Rightarrow> auction_status \<Rightarrow> string \<Rightarrow> au_db \<Rightarrow> (au_error + unit) \<times> au_db" where
  "UpdateTaskStatus failed now i status assignedTo db =
     (if failed then (Inl AuStatementFailed, db)
      else let db' = db\<lparr>ad_tasks := update_where (\<lambda>t. at_ID t = i)
             (set_status now status assignedTo) (ad_tasks db)\<rparr>
        in if rows_affected (\<lambda>t. at_ID t = i) (ad_tasks db) = 0 then (Inl (TaskNotFound i), db')
           else (Inr (), db'))"

definition CreateBid :: "bool \<Rightarrow> timestamp \<Rightarrow> Bid \<Rightarrow> au_db \<Rightarrow> (au_error + Bid) \<times> au_db" where
  "CreateBid failed now b db =
     (if failed then (Inl AuStatementFailed, db)
      else if \<exists>x \<in> set (ad_bids db). bd_TaskID x = bd_TaskID b \<and> bd_AgentName x = bd_AgentName b
      then (Inl (AlreadyBid (bd_AgentName b) (bd_TaskID b)), db)
      else if bd_TaskID b \<notin> set (map at_ID (ad_tasks db)) then (Inl AuStatementFailed, db)
      else let i = ad_bid_seq db + 1;
               row = b\<lparr>bd_ID := i, bd_Capabilities := (if bd_Capabilities b = '''' then ''{}'' else bd_Capabilities b),
                 bd_Status := BPending, bd_CreatedAt := now\<rparr>
        in (Inr (b\<lparr>bd_ID := i, bd_Status := BPending\<rparr>), db\<lparr>ad_bids := ad_bids db @ [row], ad_bid_seq := i\<rparr>))"

definition GetBids :: "bool \<Rightarrow> id64 \<Rightarrow> au_db \<Rightarrow> au_error + Bid list" where
  "GetBids failed i db =
     (if failed then Inl AuStatementFailed
      else Inr (sort_key bd_CreatedAt (filter (\<lambda>b. bd_TaskID b = i) (ad_bids db))))"

definition GetBid :: "bool \<Rightarrow> id64 \<Rightarrow> au_db \<Rightarrow> au_error + Bid" where
  "GetBid failed i db =
     (if failed then Inl AuStatementFailed
      else case find_row (\<lambda>b. bd_ID b = i) (ad_bids db) of
             None \<Rightarrow> Inl (BidNotFound i) | Some b \<Rightarrow> Inr b)"

definition UpdateBidStatus :: "bool \<Rightarrow> id64 \<Rightarrow> bid_status \<Rightarrow> au_db \<Rightarrow> (au_error + unit) \<times> au_db" where
  "UpdateBidStatus failed i status db =
     (if failed then (Inl AuStatementFailed, db)
      else let db' = db\<lparr>ad_bids := update_where (\<lambda>b. bd_ID b = i) (\<lambda>b. b\<lparr>bd_Status := status\<rparr>) (ad_bids db)\<rparr>
        in if rows_affected (\<lambda>b. bd_ID b = i) (ad_bids db) = 0 then (Inl (BidNotFound i), db')
           else (Inr (), db'))"

definition expireTasksBatchSize :: nat where
  "expireTasksBatchSize = 500"

definition expirable :: "timestamp \<Rightarrow> AuctionTask \<Rightarrow> bool" where
  "expirable nowsec t \<longleftrightarrow> at_Status t = AOpen \<and> (case at_Deadline t of None \<Rightarrow> False | Some d \<Rightarrow> d < nowsec)"

definition cancel_row :: "timestamp \<Rightarrow> AuctionTask \<Rightarrow> AuctionTask" where
  "cancel_row now t = t\<lparr>at_Status := ACancelled, at_UpdatedAt := now\<rparr>"

definition batch_ids :: "(AuctionTask \<Rightarrow> int) \<Rightarrow> timestamp \<Rightarrow> AuctionTask list \<Rightarrow> id64 list" where
  "batch_ids key nowsec ts = map at_ID (take expireTasksBatchSize (sort_key key (filter (expirable nowsec) ts)))"

definition in_batch :: "(AuctionTask \<Rightarrow> int) \<Rightarrow> timestamp \<Rightarrow> AuctionTask list \<Rightarrow> AuctionTask \<Rightarrow> bool" where
  "in_batch key nowsec ts t \<longleftrightarrow> at_ID t \<in> set (batch_ids key nowsec ts)"

definition expire_batch :: "(AuctionTask \<Rightarrow> int) \<Rightarrow> timestamp \<Rightarrow> timestamp \<Rightarrow> AuctionTask list \<Rightarrow> nat \<times> AuctionTask list" where
  "expire_batch key now nowsec ts =
     (rows_affected (in_batch key nowsec ts) ts, update_where (in_batch key nowsec ts) (cancel_row now) ts)"

lemma expirable_cancelled [simp]: "\<not> expirable s (cancel_row now t)"
  by (simp add: expirable_def cancel_row_def)

lemma at_ID_cancel_row [simp]: "at_ID (cancel_row now t) = at_ID t"
  by (simp add: cancel_row_def)

lemma batch_source: "in_batch key s ts t \<Longrightarrow> \<exists>x \<in> set ts. expirable s x \<and> at_ID x = at_ID t"
  by (auto simp: in_batch_def batch_ids_def dest!: in_set_takeD)

lemma batch_left:
  "filter (expirable s) (update_where P (cancel_row now) ts) = filter (\<lambda>t. expirable s t \<and> \<not> P t) ts"
  by (induction ts) auto

lemma batch_decreases:
  assumes "expire_batch key now s ts = (n, ts')" and "0 < n"
  shows "length (filter (expirable s) ts') < length (filter (expirable s) ts)"
proof -
  from assms obtain r where "in_batch key s ts r" by (auto simp: expire_batch_def rows_affected_pos)
  then obtain x where x: "x \<in> set ts" "expirable s x" "in_batch key s ts x"
    using batch_source by (fastforce simp: in_batch_def)
  let ?F = "filter (expirable s) ts"
  have "filter (expirable s) ts' = filter (\<lambda>t. \<not> in_batch key s ts t) ?F"
    using assms(1) by (auto simp: expire_batch_def batch_left conj_commute)
  moreover have "length (filter (\<lambda>t. \<not> in_batch key s ts t) ?F) < length ?F"
    using x by (intro length_filter_less [of x]) auto
  ultimately show ?thesis by simp
qed

function expire_loop ::
  "(nat \<Rightarrow> bool) \<Rightarrow> (nat \<Rightarrow> bool) \<Rightarrow> (AuctionTask \<Rightarrow> int) \<Rightarrow> timestamp \<Rightarrow> timestamp \<Rightarrow> nat \<Rightarrow> nat \<Rightarrow>
   AuctionTask list \<Rightarrow> nat \<times> au_error option \<times> AuctionTask list" where
  "expire_loop done failed key now nowsec k acc ts =
     (if done k then (acc, Some ContextDone, ts)
      else if failed k then (acc, Some AuStatementFailed, ts)
      else let (n, ts') = expire_batch key now nowsec ts in
        if n < expireTasksBatchSize then (acc + n, None, ts')
        else expire_loop done failed key now nowsec (k + 1) (acc + n) ts')"
  by pat_completeness auto
termination
proof (relation "measure (\<lambda>(done, failed, key, now, s, k, acc, ts). length (filter (expirable s) ts))")
  fix "done" failed :: "nat \<Rightarrow> bool" and key :: "AuctionTask \<Rightarrow> int" and now s :: timestamp and k acc n :: nat
    and ts ts' :: "AuctionTask list" and x
  assume x: "x = expire_batch key now s ts" "(n, ts') = x" and n: "\<not> n < expireTasksBatchSize"
  have "0 < n" using n by (simp add: expireTasksBatchSize_def)
  with batch_decreases [of key now s ts n ts'] x
  show "((done, failed, key, now, s, k + 1, acc + n, ts'), done, failed, key, now, s, k, acc, ts)
      \<in> measure (\<lambda>(done, failed, key, now, s, k, acc, ts). length (filter (expirable s) ts))"
    by simp
qed simp

declare expire_loop.simps [simp del]

text \<open>The result and the error are both returned, as Go does.\<close>

definition store_ExpireTasks ::
  "(au_stmt \<Rightarrow> bool) \<Rightarrow> (AuctionTask \<Rightarrow> int) \<Rightarrow> int \<Rightarrow> au_db \<Rightarrow> nat \<times> au_error option \<times> au_db" where
  "store_ExpireTasks flt key nowns db =
     (let nowsec = seconds nowns in
      if flt AExpireCheck then (0, Some AuStatementFailed, db)
      else if \<not> (\<exists>t \<in> set (ad_tasks db). expirable nowsec t) then (0, None, db)
      else case expire_loop (\<lambda>k. flt (AExpireContext k)) (\<lambda>k. flt (AExpireBatch k)) key nowsec nowsec 0 0
                  (ad_tasks db) of
             (n, e, ts) \<Rightarrow> (n, e, db\<lparr>ad_tasks := ts\<rparr>))"

definition CancelTasksByChannel :: "bool \<Rightarrow> timestamp \<Rightarrow> id64 \<Rightarrow> au_db \<Rightarrow> (au_error + nat) \<times> au_db" where
  "CancelTasksByChannel failed now c db =
     (let hit = (\<lambda>t. at_ChannelID t = c \<and> at_Status t = AOpen) in
      if failed then (Inl AuStatementFailed, db)
      else (Inr (rows_affected hit (ad_tasks db)), db\<lparr>ad_tasks := update_where hit (cancel_row now) (ad_tasks db)\<rparr>))"

section \<open>Service\<close>

definition au_trace :: "string \<Rightarrow> string \<Rightarrow> au_db \<Rightarrow> au_db" where
  "au_trace agent action db =
     (if ad_tracer db then db\<lparr>ad_traces := ad_traces db @ [(agent, action)]\<rparr> else db)"

definition default_json :: "string \<Rightarrow> string" where
  "default_json s = (if s = '''' then ''{}'' else s)"

definition PostTask ::
  "(au_stmt \<Rightarrow> bool) \<Rightarrow> int \<Rightarrow> ch_db \<Rightarrow> id64 \<Rightarrow> string \<Rightarrow> string \<Rightarrow> string \<Rightarrow> string \<Rightarrow> int option \<Rightarrow> au_db \<Rightarrow>
   (au_error + AuctionTask) \<times> au_db" where
  "PostTask flt nowns cdb c agent title description requirements deadline db =
     (case GetChannel (flt (AChannel QGetChannel)) c cdb of
        Inl e \<Rightarrow> (Inl (AuChannelError e), db)
      | Inr ch \<Rightarrow>
          if chn_Type ch \<noteq> ''auction'' then (Inl (NotAuctionChannel (chn_Type ch)), db)
          else (case IsMember (flt (AChannel QIsMember)) c agent cdb of
                  Inl e \<Rightarrow> (Inl (AuChannelError e), db)
                | Inr False \<Rightarrow> (Inl (AuChannelError ErrNotChannelMember), db)
                | Inr True \<Rightarrow>
                    if (case deadline of None \<Rightarrow> False | Some d \<Rightarrow> d < nowns) then (Inl DeadlinePassed, db)
                    else (case store_CreateTask (flt ACreateTask) (map chn_ID (cd_channels cdb)) (seconds nowns)
                                 \<lparr>at_ID = 0, at_ChannelID = c, at_PostedBy = agent, at_Title = title,
                                  at_Description = description, at_Requirements = default_json requirements,
                                  at_Deadline = deadline, at_Status = AOpen, at_AssignedTo = '''',
                                  at_CreatedAt = 0, at_UpdatedAt = 0\<rparr> db of
                            (Inl e, db') \<Rightarrow> (Inl e, db')
                          | (Inr t, db') \<Rightarrow> (Inr t, au_trace agent ''swarm.task_posted'' db'))))"

definition BidOnTask ::
  "(au_stmt \<Rightarrow> bool) \<Rightarrow> timestamp \<Rightarrow> ch_db \<Rightarrow> id64 \<Rightarrow> string \<Rightarrow> string \<Rightarrow> string \<Rightarrow> string \<Rightarrow> au_db \<Rightarrow>
   (au_error + Bid) \<times> au_db" where
  "BidOnTask flt now cdb i agent capabilities timeEstimate message db =
     (case get_task (flt AGetTask) i db of
        Inl e \<Rightarrow> (Inl e, db)
      | Inr t \<Rightarrow>
          if at_Status t \<noteq> AOpen then (Inl (TaskNotOpen (at_Status t)), db)
          else if at_PostedBy t = agent then (Inl OwnTask, db)
          else (case IsMember (flt (AChannel QIsMember)) (at_ChannelID t) agent cdb of
                  Inl e \<Rightarrow> (Inl (AuChannelError e), db)
                | Inr False \<Rightarrow> (Inl (AuChannelError ErrNotChannelMember), db)
                | Inr True \<Rightarrow>
                    (case CreateBid (flt ACreateBid) now
                            \<lparr>bd_ID = 0, bd_TaskID = i, bd_AgentName = agent,
                             bd_Capabilities = default_json capabilities, bd_TimeEstimate = timeEstimate,
                             bd_Message = message, bd_Status = BPending, bd_CreatedAt = 0\<rparr> db of
                       (Inl e, db') \<Rightarrow> (Inl e, db')
                     | (Inr b, db') \<Rightarrow> (Inr b, au_trace agent ''swarm.bid_submitted'' db'))))"

text \<open>The loop that rejects the other pending bids; a failed update is logged and skipped.\<close>

fun reject_bids :: "(id64 \<Rightarrow> bool) \<Rightarrow> id64 \<Rightarrow> Bid list \<Rightarrow> au_db \<Rightarrow> au_db" where
  "reject_bids failed winner [] db = db"
| "reject_bids failed winner (b # bs) db =
     reject_bids failed winner bs
       (if bd_ID b \<noteq> winner \<and> bd_Status b = BPending
        then snd (UpdateBidStatus (failed (bd_ID b)) (bd_ID b) BRejected db) else db)"

definition AcceptBid ::
  "(au_stmt \<Rightarrow> bool) \<Rightarrow> timestamp \<Rightarrow> id64 \<Rightarrow> id64 \<Rightarrow> string \<Rightarrow> au_db \<Rightarrow> (au_error + unit) \<times> au_db" where
  "AcceptBid flt now i bid agent db =
     (case get_task (flt AGetTask) i db of
        Inl e \<Rightarrow> (Inl e, db)
      | Inr t \<Rightarrow>
          if at_PostedBy t \<noteq> agent then (Inl NotPoster, db)
          else if at_Status t \<noteq> AOpen then (Inl (TaskNotOpen (at_Status t)), db)
          else (case GetBid (flt AGetBid) bid db of
                  Inl e \<Rightarrow> (Inl e, db)
                | Inr b \<Rightarrow>
                    if bd_TaskID b \<noteq> i then (Inl (BidOfOtherTask bid i), db)
                    else (case UpdateTaskStatus (flt AUpdateTask) now i AAssigned (bd_AgentName b) db of
                            (Inl e, db1) \<Rightarrow> (Inl e, db1)
                          | (Inr _, db1) \<Rightarrow>
                              (case UpdateBidStatus (flt AAcceptBid) bid BAccepted db1 of
                                 (Inl e, db2) \<Rightarrow> (Inl e, db2)
                               | (Inr _, db2) \<Rightarrow>
                                   (case GetBids (flt AGetBids) i db2 of
                                      Inl e \<Rightarrow> (Inl e, db2)
                                    | Inr bs \<Rightarrow>
                                        (Inr (), au_trace agent ''swarm.bid_accepted''
                                           (reject_bids (\<lambda>j. flt (ARejectBid j)) bid bs db2)))))))"

definition CompleteTask ::
  "(au_stmt \<Rightarrow> bool) \<Rightarrow> timestamp \<Rightarrow> id64 \<Rightarrow> string \<Rightarrow> au_db \<Rightarrow> (au_error + unit) \<times> au_db" where
  "CompleteTask flt now i agent db =
     (case get_task (flt AGetTask) i db of
        Inl e \<Rightarrow> (Inl e, db)
      | Inr t \<Rightarrow>
          if at_Status t = ACompleted \<and> at_AssignedTo t = agent then (Inr (), db)
          else if at_Status t \<noteq> AAssigned then (Inl (TaskNotAssigned (at_Status t)), db)
          else if at_AssignedTo t \<noteq> agent then (Inl NotAssignee, db)
          else (case UpdateTaskStatus (flt AUpdateTask) now i ACompleted '''' db of
                  (Inl e, db') \<Rightarrow> (Inl e, db')
                | (Inr _, db') \<Rightarrow> (Inr (), au_trace agent ''swarm.task_completed'' db')))"

definition ListTasksPaginated ::
  "bool \<Rightarrow> id64 \<Rightarrow> string \<Rightarrow> int \<Rightarrow> int \<Rightarrow> au_db \<Rightarrow> au_error + PaginatedTasks" where
  "ListTasksPaginated failed c status limit off db =
     (case list_tasks failed c status db of
        Inl e \<Rightarrow> Inl e
      | Inr ts \<Rightarrow>
          (case page_slice (page_limit limit) (page_offset off) ts of
             None \<Rightarrow> Inl AuPanic
           | Some page \<Rightarrow> Inr \<lparr>pt_Tasks = page, pt_Total = length ts, pt_Offset = page_offset off,
                                 pt_Limit = page_limit limit\<rparr>))"

definition GetTaskWithBids :: "(au_stmt \<Rightarrow> bool) \<Rightarrow> id64 \<Rightarrow> au_db \<Rightarrow> au_error + AuctionTask \<times> Bid list" where
  "GetTaskWithBids flt i db =
     (case get_task (flt AGetTask) i db of
        Inl e \<Rightarrow> Inl e
      | Inr t \<Rightarrow> (case GetBids (flt AGetBids) i db of Inl e \<Rightarrow> Inl e | Inr bs \<Rightarrow> Inr (t, bs)))"

definition ExpireTasks ::
  "(au_stmt \<Rightarrow> bool) \<Rightarrow> (AuctionTask \<Rightarrow> int) \<Rightarrow> int \<Rightarrow> au_db \<Rightarrow> (au_error + nat) \<times> au_db" where
  "ExpireTasks flt key nowns db =
     (case store_ExpireTasks flt key nowns db of
        (n, Some e, db') \<Rightarrow> (Inl e, db')
      | (n, None, db') \<Rightarrow> (Inr n, if 0 < n then au_trace ''system'' ''swarm.tasks_expired'' db' else db'))"

section \<open>Invariant\<close>

definition bid_pair :: "Bid \<Rightarrow> id64 \<times> string" where
  "bid_pair b = (bd_TaskID b, bd_AgentName b)"

definition given :: "auction_status \<Rightarrow> bool" where
  "given st \<longleftrightarrow> st = AAssigned \<or> st = ACompleted"

text \<open>A bid of another agent than the poster; an accepted one is the bid of the assignee.\<close>

definition bid_ok :: "AuctionTask \<Rightarrow> Bid \<Rightarrow> bool" where
  "bid_ok t b \<longleftrightarrow> at_PostedBy t \<noteq> bd_AgentName b \<and>
     (bd_Status b = BAccepted \<longrightarrow> given (at_Status t) \<and> at_AssignedTo t = bd_AgentName b)"

definition task_ok :: "Bid list \<Rightarrow> AuctionTask \<Rightarrow> bool" where
  "task_ok bs t \<longleftrightarrow> (if given (at_Status t) then (at_ID t, at_AssignedTo t) \<in> set (map bid_pair bs)
                      else at_AssignedTo t = '''')"

definition au_inv :: "au_db \<Rightarrow> bool" where
  "au_inv db \<longleftrightarrow> ids_ok at_ID (ad_task_seq db) (ad_tasks db) \<and> ids_ok bd_ID (ad_bid_seq db) (ad_bids db) \<and>
     distinct (map bid_pair (ad_bids db)) \<and>
     (\<forall>b \<in> set (ad_bids db). \<exists>t \<in> set (ad_tasks db). at_ID t = bd_TaskID b \<and> bid_ok t b) \<and>
     (\<forall>t \<in> set (ad_tasks db). task_ok (ad_bids db) t)"

definition au_empty :: "bool \<Rightarrow> au_db" where
  "au_empty tracer = \<lparr>ad_tasks = [], ad_task_seq = 0, ad_bids = [], ad_bid_seq = 0, ad_tracer = tracer, ad_traces = []\<rparr>"

lemma au_empty_inv: "au_inv (au_empty tracer)"
  by (simp add: au_inv_def au_empty_def)

lemma au_trace_simps [simp]:
  "ad_tasks (au_trace a t db) = ad_tasks db" "ad_task_seq (au_trace a t db) = ad_task_seq db"
  "ad_bids (au_trace a t db) = ad_bids db" "ad_bid_seq (au_trace a t db) = ad_bid_seq db"
  by (simp_all add: au_trace_def)

lemma au_trace_inv [simp]: "au_inv (au_trace a t db) = au_inv db"
  by (simp add: au_inv_def)

lemma au_task_unique:
  "au_inv db \<Longrightarrow> t \<in> set (ad_tasks db) \<Longrightarrow> t' \<in> set (ad_tasks db) \<Longrightarrow> at_ID t = at_ID t' \<Longrightarrow> t = t'"
  by (auto simp: au_inv_def dest: ids_ok_unique)

lemma au_bid_of:
  "au_inv db \<Longrightarrow> b \<in> set (ad_bids db) \<Longrightarrow> t \<in> set (ad_tasks db) \<Longrightarrow> at_ID t = bd_TaskID b \<Longrightarrow> bid_ok t b"
  using au_task_unique by (metis au_inv_def)

lemma update_tasks_inv:
  assumes inv: "au_inv db"
    and f: "\<And>t. at_ID (f t) = at_ID t" "\<And>t. at_PostedBy (f t) = at_PostedBy t"
    and ok: "\<And>t. t \<in> set (ad_tasks db) \<Longrightarrow> P t \<Longrightarrow> task_ok (ad_bids db) (f t)"
    and bids: "\<And>t b. t \<in> set (ad_tasks db) \<Longrightarrow> P t \<Longrightarrow> b \<in> set (ad_bids db) \<Longrightarrow> at_ID t = bd_TaskID b \<Longrightarrow>
      bd_Status b = BAccepted \<Longrightarrow> given (at_Status (f t)) \<and> at_AssignedTo (f t) = bd_AgentName b"
  shows "au_inv (db\<lparr>ad_tasks := update_where P f (ad_tasks db)\<rparr>)"
proof -
  have "\<exists>t \<in> set (update_where P f (ad_tasks db)). at_ID t = bd_TaskID b \<and> bid_ok t b"
    if b: "b \<in> set (ad_bids db)" for b
  proof -
    from inv b obtain t where t: "t \<in> set (ad_tasks db)" "at_ID t = bd_TaskID b" "bid_ok t b"
      by (auto simp: au_inv_def)
    with bids [OF t(1) _ b t(2)] f have "bid_ok (if P t then f t else t) b" by (auto simp: bid_ok_def)
    with updated_row [OF t(1), of P f] t(2) f(1) show ?thesis
      by (intro bexI [of _ "if P t then f t else t"]) auto
  qed
  moreover have "\<forall>t \<in> set (update_where P f (ad_tasks db)). task_ok (ad_bids db) t"
    using inv ok by (auto simp: in_update_where au_inv_def)
  moreover have "ids_ok at_ID (ad_task_seq db) (update_where P f (ad_tasks db))"
    using inv f(1) by (simp add: au_inv_def ids_ok_update_where)
  ultimately show ?thesis using inv by (simp add: au_inv_def)
qed

lemma update_bids_inv:
  assumes inv: "au_inv db"
    and f: "\<And>b. bd_ID (f b) = bd_ID b" "\<And>b. bid_pair (f b) = bid_pair b"
    and acc: "\<And>t b. b \<in> set (ad_bids db) \<Longrightarrow> P b \<Longrightarrow> t \<in> set (ad_tasks db) \<Longrightarrow> at_ID t = bd_TaskID b \<Longrightarrow>
      bd_Status (f b) = BAccepted \<Longrightarrow> given (at_Status t) \<and> at_AssignedTo t = bd_AgentName b"
  shows "au_inv (db\<lparr>ad_bids := update_where P f (ad_bids db)\<rparr>)"
proof -
  have f': "bd_TaskID (f b) = bd_TaskID b" "bd_AgentName (f b) = bd_AgentName b" for b
    using f(2) [of b] by (simp_all add: bid_pair_def)
  have mp: "map bid_pair (update_where P f (ad_bids db)) = map bid_pair (ad_bids db)"
    by (simp add: map_update_where f)
  have "\<exists>t \<in> set (ad_tasks db). at_ID t = bd_TaskID b \<and> bid_ok t b"
    if bb: "b \<in> set (update_where P f (ad_bids db))" for b
  proof -
    from bb obtain b0 where b0: "b0 \<in> set (ad_bids db)" "b = (if P b0 then f b0 else b0)"
      by (auto simp: in_update_where)
    from inv b0(1) obtain t where t: "t \<in> set (ad_tasks db)" "at_ID t = bd_TaskID b0" "bid_ok t b0"
      by (auto simp: au_inv_def)
    with acc [OF b0(1) _ t(1,2)] b0(2) f' have "at_ID t = bd_TaskID b \<and> bid_ok t b"
      by (auto simp: bid_ok_def)
    with t(1) show ?thesis by blast
  qed
  moreover have "task_ok (update_where P f (ad_bids db)) t = task_ok (ad_bids db) t" for t
    unfolding task_ok_def mp ..
  moreover have "ids_ok bd_ID (ad_bid_seq db) (update_where P f (ad_bids db))"
    using inv f(1) by (simp add: au_inv_def ids_ok_update_where)
  ultimately show ?thesis using inv mp by (simp add: au_inv_def)
qed

lemma cancel_inv:
  assumes inv: "au_inv db" and opn: "\<And>t. t \<in> set (ad_tasks db) \<Longrightarrow> P t \<Longrightarrow> at_Status t = AOpen"
  shows "au_inv (db\<lparr>ad_tasks := update_where P (cancel_row now) (ad_tasks db)\<rparr>)"
proof (rule update_tasks_inv [OF inv])
  fix t assume t: "t \<in> set (ad_tasks db)" "P t"
  from inv t(1) have "task_ok (ad_bids db) t" by (simp add: au_inv_def)
  with opn [OF t] show "task_ok (ad_bids db) (cancel_row now t)"
    by (simp add: task_ok_def given_def cancel_row_def)
  fix b assume b: "b \<in> set (ad_bids db)" "at_ID t = bd_TaskID b" "bd_Status b = BAccepted"
  from au_bid_of [OF inv b(1) t(1) b(2)] b(3) opn [OF t]
  show "given (at_Status (cancel_row now t)) \<and> at_AssignedTo (cancel_row now t) = bd_AgentName b"
    by (simp add: bid_ok_def given_def)
qed (simp_all add: cancel_row_def)

text \<open>The two ways a round of the loop ends.\<close>

definition stops :: "(nat \<Rightarrow> bool) \<Rightarrow> (nat \<Rightarrow> bool) \<Rightarrow> (AuctionTask \<Rightarrow> int) \<Rightarrow> timestamp \<Rightarrow> timestamp \<Rightarrow> nat \<Rightarrow>
  AuctionTask list \<Rightarrow> bool" where
  "stops dn failed key now s k ts \<longleftrightarrow>
     dn k \<or> failed k \<or> fst (expire_batch key now s ts) < expireTasksBatchSize"

lemma expire_loop_stop:
  "stops dn failed key now s k ts \<Longrightarrow> expire_loop dn failed key now s k n ts =
     (if dn k then (n, Some ContextDone, ts) else if failed k then (n, Some AuStatementFailed, ts)
      else (n + fst (expire_batch key now s ts), None, snd (expire_batch key now s ts)))"
  by (subst expire_loop.simps) (auto simp: stops_def split: prod.splits)

lemma expire_loop_step:
  "\<not> stops dn failed key now s k ts \<Longrightarrow> expire_loop dn failed key now s k n ts =
     expire_loop dn failed key now s (k + 1) (n + fst (expire_batch key now s ts)) (snd (expire_batch key now s ts))"
  by (subst expire_loop.simps) (auto simp: stops_def split: prod.splits)


lemma expire_loop_inv:
  "au_inv (db\<lparr>ad_tasks := ts\<rparr>) \<Longrightarrow> expire_loop dn failed key now s k n ts = (n', e, ts') \<Longrightarrow>
   au_inv (db\<lparr>ad_tasks := ts'\<rparr>)"
proof (induction dn failed key now s k n ts rule: expire_loop.induct)
  case (1 dn failed key now s k n ts)
  let ?ts = "snd (expire_batch key now s ts)"
  have step: "au_inv (db\<lparr>ad_tasks := ?ts\<rparr>)"
  proof -
    have "at_Status t = AOpen" if "t \<in> set ts" "in_batch key s ts t" for t
      using batch_source [OF that(2)] au_task_unique [OF "1.prems"(1)] that(1) by (fastforce simp: expirable_def)
    then show ?thesis
      using cancel_inv [OF "1.prems"(1), of "in_batch key s ts" now] by (simp add: expire_batch_def)
  qed
  show ?case
  proof (cases "stops dn failed key now s k ts")
    case True
    then have "ts' = ts \<or> ts' = ?ts" using "1.prems"(2) by (auto simp: expire_loop_stop split: if_splits)
    with "1.prems"(1) step show ?thesis by auto
  next
    case False
    with "1.prems"(2) have
      "expire_loop dn failed key now s (k + 1) (n + fst (expire_batch key now s ts)) ?ts = (n', e, ts')"
      by (simp add: expire_loop_step)
    with "1.IH" False step show ?thesis by (cases "expire_batch key now s ts") (auto simp: stops_def)
  qed
qed

lemma set_status_simps [simp]:
  "at_ID (set_status now st a t) = at_ID t" "at_Status (set_status now st a t) = st"
  "at_PostedBy (set_status now st a t) = at_PostedBy t" "at_ChannelID (set_status now st a t) = at_ChannelID t"
  by (simp_all add: set_status_def)

lemma set_status_assigned: "at_AssignedTo (set_status now st a t) = (if a \<noteq> '''' then a else at_AssignedTo t)"
  by (simp add: set_status_def)

lemma UpdateTaskStatus_Inr:
  "UpdateTaskStatus f now i st a db = (Inr u, db') \<Longrightarrow>
     db' = db\<lparr>ad_tasks := update_where (\<lambda>t. at_ID t = i) (set_status now st a) (ad_tasks db)\<rparr>"
  by (simp add: UpdateTaskStatus_def Let_def split: if_splits)

lemma UpdateTaskStatus_Inl:
  assumes "UpdateTaskStatus f now i st a db = (Inl e, db')" and "t \<in> set (ad_tasks db)" "at_ID t = i"
  shows "db' = db"
proof -
  from assms(2,3) have "rows_affected (\<lambda>t. at_ID t = i) (ad_tasks db) \<noteq> 0"
    unfolding rows_affected_0 by blast
  with assms(1) show ?thesis by (simp add: UpdateTaskStatus_def Let_def split: if_splits)
qed

lemma store_CreateTask_inv:
  assumes inv: "au_inv db" and t: "at_Status t = AOpen" "at_AssignedTo t = ''''"
  shows "au_inv (snd (store_CreateTask failed chans now t db))"
proof -
  have "task_ok bs (t\<lparr>at_ID := i, at_Requirements := r, at_Deadline := d, at_CreatedAt := now, at_UpdatedAt := now\<rparr>)"
    for bs i r d using t by (simp add: task_ok_def given_def)
  then show ?thesis using inv by (auto simp: store_CreateTask_def Let_def au_inv_def ids_ok_append)
qed

lemma CreateBid_inv:
  assumes inv: "au_inv db" and t: "t \<in> set (ad_tasks db)" "at_ID t = bd_TaskID b" "at_PostedBy t \<noteq> bd_AgentName b"
  shows "au_inv (snd (CreateBid failed now b db))"
proof (cases "failed \<or> (\<exists>x \<in> set (ad_bids db). bd_TaskID x = bd_TaskID b \<and> bd_AgentName x = bd_AgentName b)")
  case True
  with inv show ?thesis by (auto simp: CreateBid_def)
next
  case False
  then have "bid_pair b \<notin> bid_pair ` set (ad_bids db)" by (auto simp: bid_pair_def)
  moreover have "task_ok (ad_bids db @ bs) u" if "task_ok (ad_bids db) u" for bs u
    using that by (auto simp: task_ok_def split: if_splits)
  moreover have "bid_ok t x" if "bd_Status x = BPending" "bd_AgentName x = bd_AgentName b" for x
    using t that by (simp add: bid_ok_def)
  ultimately show ?thesis
    using inv t False
    by (auto simp: CreateBid_def Let_def au_inv_def ids_ok_append bid_pair_def intro!: bexI [of _ t])
qed

lemma get_task_Inr: "get_task f i db = Inr t \<Longrightarrow> t \<in> set (ad_tasks db) \<and> at_ID t = i"
  by (auto simp: get_task_def split: if_splits option.splits dest: find_row_Some)

lemma GetBid_Inr: "GetBid f i db = Inr b \<Longrightarrow> b \<in> set (ad_bids db) \<and> bd_ID b = i"
  by (auto simp: GetBid_def split: if_splits option.splits dest: find_row_Some)

lemma PostTask_inv: "au_inv db \<Longrightarrow> au_inv (snd (PostTask flt now cdb c a title desc req dl db))"
proof -
  assume inv: "au_inv db"
  have st: "store_CreateTask f cs n t db = (r, db') \<Longrightarrow> at_Status t = AOpen \<Longrightarrow> at_AssignedTo t = '''' \<Longrightarrow> au_inv db'"
    for f cs n t r db' using store_CreateTask_inv [OF inv, of t f cs n] by simp
  show ?thesis
    using inv by (auto simp: PostTask_def split: sum.splits bool.splits prod.splits dest!: st)
qed

lemma BidOnTask_inv:
  assumes inv: "au_inv db"
  shows "au_inv (snd (BidOnTask flt now cdb i a cap te msg db))"
proof (cases "get_task (flt AGetTask) i db")
  case (Inr t)
  have "CreateBid f now b db = (r, db') \<Longrightarrow> at_PostedBy t \<noteq> bd_AgentName b \<Longrightarrow> bd_TaskID b = i \<Longrightarrow> au_inv db'"
    for f b r db' using CreateBid_inv [OF inv, of t b f now] get_task_Inr [OF Inr] by simp
  then have cb: "CreateBid f now b db = (r, db') \<Longrightarrow> at_PostedBy t \<noteq> bd_AgentName b \<Longrightarrow> bd_TaskID b = i \<Longrightarrow> au_inv db'"
    for f b r db' .
  with Inr inv show ?thesis
    by (auto simp: BidOnTask_def split: sum.splits bool.splits prod.splits dest!: cb)
qed (use inv in \<open>simp add: BidOnTask_def\<close>)

lemma UpdateBidStatus_inv:
  assumes inv: "au_inv db"
    and acc: "\<And>t b. status = BAccepted \<Longrightarrow> b \<in> set (ad_bids db) \<Longrightarrow> bd_ID b = i \<Longrightarrow> t \<in> set (ad_tasks db) \<Longrightarrow>
      at_ID t = bd_TaskID b \<Longrightarrow> given (at_Status t) \<and> at_AssignedTo t = bd_AgentName b"
  shows "au_inv (snd (UpdateBidStatus f i status db))"
proof -
  have "au_inv (db\<lparr>ad_bids := update_where (\<lambda>b. bd_ID b = i) (\<lambda>b. b\<lparr>bd_Status := status\<rparr>) (ad_bids db)\<rparr>)"
    using acc by (intro update_bids_inv [OF inv]) (auto simp: bid_pair_def)
  with inv show ?thesis by (simp add: UpdateBidStatus_def Let_def)
qed

lemma reject_bids_inv: "au_inv db \<Longrightarrow> au_inv (reject_bids f w bs db)"
proof (induction bs arbitrary: db)
  case (Cons b bs)
  with UpdateBidStatus_inv [OF Cons.prems, of BRejected "bd_ID b" "f (bd_ID b)"] show ?case by simp
qed simp

text \<open>Assigning an open task to one of its bidders.\<close>

lemma assign_inv:
  assumes inv: "au_inv db" and t: "t \<in> set (ad_tasks db)" "at_ID t = i" "at_Status t = AOpen"
    and b: "b \<in> set (ad_bids db)" "bd_TaskID b = i"
  shows "au_inv (snd (UpdateTaskStatus f now i AAssigned (bd_AgentName b) db))"
proof -
  let ?f = "set_status now AAssigned (bd_AgentName b)"
  have only: "u = t" if "u \<in> set (ad_tasks db)" "at_ID u = i" for u
    using au_task_unique [OF inv that(1) t(1)] that t(2) by simp
  have "at_AssignedTo t = ''''" using inv t by (auto simp: au_inv_def task_ok_def given_def)
  then have at: "at_AssignedTo (?f t) = bd_AgentName b" "at_Status (?f t) = AAssigned" "at_ID (?f t) = i"
    using t(2) by (simp_all add: set_status_assigned)
  have "au_inv (db\<lparr>ad_tasks := update_where (\<lambda>t. at_ID t = i) ?f (ad_tasks db)\<rparr>)"
  proof (rule update_tasks_inv [OF inv])
    fix u assume u: "u \<in> set (ad_tasks db)" "at_ID u = i"
    have "(i, bd_AgentName b) \<in> bid_pair ` set (ad_bids db)"
      using b by (intro rev_image_eqI [of b]) (simp_all add: bid_pair_def)
    then show "task_ok (ad_bids db) (?f u)"
      using at unfolding only [OF u] task_ok_def by (simp only: given_def set_map if_True simp_thms)
    fix x assume x: "x \<in> set (ad_bids db)" "at_ID u = bd_TaskID x" "bd_Status x = BAccepted"
    from au_bid_of [OF inv x(1) u(1) x(2)] x(3) t(3) only [OF u]
    show "given (at_Status (?f u)) \<and> at_AssignedTo (?f u) = bd_AgentName x"
      by (simp add: bid_ok_def given_def)
  qed simp_all
  with inv show ?thesis by (simp add: UpdateTaskStatus_def Let_def)
qed

lemma assigned_to_bidder:
  assumes inv: "au_inv db" and g: "get_task f i db = Inr t" "at_Status t = AOpen"
    and u: "UpdateTaskStatus f' now i AAssigned a db = (Inr (), db1)"
    and x: "x \<in> set (ad_tasks db1)" "at_ID x = i"
  shows "at_Status x = AAssigned \<and> at_AssignedTo x = a"
proof -
  note t = get_task_Inr [OF g(1)]
  have a: "at_AssignedTo t = ''''" using inv t g(2) by (auto simp: au_inv_def task_ok_def given_def)
  from x UpdateTaskStatus_Inr [OF u] obtain y where
    y: "y \<in> set (ad_tasks db)" "x = (if at_ID y = i then set_status now AAssigned a y else y)"
    by (auto simp: in_update_where)
  then have yi: "at_ID y = i" using x(2) by (simp split: if_splits)
  with t au_task_unique [OF inv y(1), of t] have "y = t" by simp
  with y(2) yi a show ?thesis by (simp add: set_status_assigned)
qed

lemma AcceptBid_cases:
  obtains (same) "snd (AcceptBid flt now i bid a db) = db"
  | (assigned) t b db1 where "get_task (flt AGetTask) i db = Inr t" "at_PostedBy t = a" "at_Status t = AOpen"
      "GetBid (flt AGetBid) bid db = Inr b" "bd_TaskID b = i"
      "UpdateTaskStatus (flt AUpdateTask) now i AAssigned (bd_AgentName b) db = (Inr (), db1)"
      "AcceptBid flt now i bid a db =
        (case UpdateBidStatus (flt AAcceptBid) bid BAccepted db1 of
           (Inl e, db2) \<Rightarrow> (Inl e, db2)
         | (Inr _, db2) \<Rightarrow>
             (case GetBids (flt AGetBids) i db2 of
                Inl e \<Rightarrow> (Inl e, db2)
              | Inr bs \<Rightarrow> (Inr (), au_trace a ''swarm.bid_accepted'' (reject_bids (\<lambda>j. flt (ARejectBid j)) bid bs db2))))"
proof (cases "get_task (flt AGetTask) i db")
  case (Inl e)
  then show ?thesis by (intro same) (simp add: AcceptBid_def)
next
  case t: (Inr t)
  show ?thesis
  proof (cases "GetBid (flt AGetBid) bid db")
    case (Inl e)
    with t show ?thesis by (intro same) (simp add: AcceptBid_def)
  next
    case b: (Inr b)
    obtain r db1 where u: "UpdateTaskStatus (flt AUpdateTask) now i AAssigned (bd_AgentName b) db = (r, db1)"
      by (cases "UpdateTaskStatus (flt AUpdateTask) now i AAssigned (bd_AgentName b) db")
    show ?thesis
    proof (cases "at_PostedBy t = a \<and> at_Status t = AOpen \<and> bd_TaskID b = i \<and> r = Inr ()")
      case True
      then show ?thesis by (intro assigned [OF t _ _ b]) (use t b u in \<open>simp_all add: AcceptBid_def\<close>)
    next
      case False
      have "db1 = db" if "r = Inl e" for e
        using UpdateTaskStatus_Inl [of "flt AUpdateTask" now i AAssigned "bd_AgentName b" db e db1 t]
          u that get_task_Inr [OF t] by simp
      with False t b u have "snd (AcceptBid flt now i bid a db) = db"
        by (cases r) (auto simp: AcceptBid_def)
      then show ?thesis by (rule same)
    qed
  qed
qed

lemma AcceptBid_inv:
  assumes inv: "au_inv db"
  shows "au_inv (snd (AcceptBid flt now i bid a db))"
proof (cases rule: AcceptBid_cases [of flt now i bid a db])
  case same
  with inv show ?thesis by simp
next
  case (assigned t b db1)
  note bb = GetBid_Inr [OF assigned(4)]
  have inv1: "au_inv db1"
    using assign_inv [OF inv _ _ assigned(3), of i b "flt AUpdateTask" now] get_task_Inr [OF assigned(1)] bb assigned(5,6)
    by simp
  have bids: "ad_bids db1 = ad_bids db" using UpdateTaskStatus_Inr [OF assigned(6)] by simp
  have ids: "ids_ok bd_ID (ad_bid_seq db) (ad_bids db)" using inv by (simp add: au_inv_def)
  have acc: "given (at_Status x) \<and> at_AssignedTo x = bd_AgentName y"
    if y: "y \<in> set (ad_bids db1)" "bd_ID y = bid" and x: "x \<in> set (ad_tasks db1)" "at_ID x = bd_TaskID y" for x y
  proof -
    have "y = b" by (rule ids_ok_unique [OF ids]) (use y bids bb in simp_all)
    with assigned_to_bidder [OF inv assigned(1,3,6) x(1)] x(2) assigned(5) show ?thesis by (simp add: given_def)
  qed
  have inv2: "au_inv (snd (UpdateBidStatus (flt AAcceptBid) bid BAccepted db1))"
    by (rule UpdateBidStatus_inv [OF inv1]) (rule acc)
  then show ?thesis
    unfolding assigned(7) by (auto split: sum.splits prod.splits intro: reject_bids_inv)
qed

lemma CompleteTask_inv:
  assumes inv: "au_inv db"
  shows "au_inv (snd (CompleteTask flt now i a db))"
proof -
  have upd: "au_inv db'"
    if t: "get_task f i db = Inr t" "at_Status t = AAssigned" and u: "UpdateTaskStatus g now i ACompleted '''' db = (r, db')"
    for f t g r db'
  proof -
    let ?f = "set_status now ACompleted ''''"
    have only: "x = t" if "x \<in> set (ad_tasks db)" "at_ID x = i" for x
      using get_task_Inr [OF t(1)] au_task_unique [OF inv that(1), of t] that(2) by simp
    have "au_inv (db\<lparr>ad_tasks := update_where (\<lambda>t. at_ID t = i) ?f (ad_tasks db)\<rparr>)"
    proof (rule update_tasks_inv [OF inv])
      fix x assume x: "x \<in> set (ad_tasks db)" "at_ID x = i"
      with inv only [OF x] t(2) show "task_ok (ad_bids db) (?f x)"
        by (auto simp: au_inv_def task_ok_def given_def set_status_assigned)
      fix b assume "b \<in> set (ad_bids db)" "at_ID x = bd_TaskID b" "bd_Status b = BAccepted"
      with au_bid_of [OF inv _ x(1), of b]
      show "given (at_Status (?f x)) \<and> at_AssignedTo (?f x) = bd_AgentName b"
        by (simp add: bid_ok_def given_def set_status_assigned)
    qed simp_all
    with u inv show ?thesis by (auto simp: UpdateTaskStatus_def Let_def split: if_splits)
  qed
  show ?thesis using inv by (auto simp: CompleteTask_def split: sum.splits prod.splits dest: upd)
qed

lemma ExpireTasks_inv: "au_inv db \<Longrightarrow> au_inv (snd (ExpireTasks flt key now db))"
proof -
  assume inv: "au_inv db"
  have "expire_loop dn failed key n s 0 0 (ad_tasks db) = (m, e, ts) \<Longrightarrow> au_inv (db\<lparr>ad_tasks := ts\<rparr>)" for dn failed n s m e ts
    using expire_loop_inv [where db = db and ts = "ad_tasks db"] inv by simp
  with inv show ?thesis
    by (auto simp: ExpireTasks_def store_ExpireTasks_def Let_def split: prod.splits option.splits)
qed

lemma CancelTasksByChannel_inv: "au_inv db \<Longrightarrow> au_inv (snd (CancelTasksByChannel f now c db))"
  by (auto simp: CancelTasksByChannel_def Let_def intro: cancel_inv)

section \<open>The component as a system\<close>

datatype au_op =
    OPostTask int ch_db id64 string string string string "int option"
  | OBidOnTask timestamp ch_db id64 string string string string
  | OAcceptBid timestamp id64 id64 string
  | OCompleteTask timestamp id64 string
  | OExpireTasks "AuctionTask \<Rightarrow> int" int
  | OCancelChannel timestamp id64

fun au_exec :: "(au_stmt \<Rightarrow> bool) \<times> au_op \<Rightarrow> au_db \<Rightarrow> au_db" where
  "au_exec (flt, OPostTask now cdb c a title desc req dl) db = snd (PostTask flt now cdb c a title desc req dl db)"
| "au_exec (flt, OBidOnTask now cdb i a cap te msg) db = snd (BidOnTask flt now cdb i a cap te msg db)"
| "au_exec (flt, OAcceptBid now i bid a) db = snd (AcceptBid flt now i bid a db)"
| "au_exec (flt, OCompleteTask now i a) db = snd (CompleteTask flt now i a db)"
| "au_exec (flt, OExpireTasks key now) db = snd (ExpireTasks flt key now db)"
| "au_exec (flt, OCancelChannel now c) db = snd (CancelTasksByChannel (flt ACancelChannel) now c db)"

lemmas au_op_invs = PostTask_inv BidOnTask_inv AcceptBid_inv CompleteTask_inv ExpireTasks_inv CancelTasksByChannel_inv

lemma au_exec_inv: "au_inv db \<Longrightarrow> au_inv (au_exec op db)"
  by (cases "(op, db)" rule: au_exec.cases) (simp_all add: au_op_invs)

subsection \<open>The life of a task\<close>

fun au_legal :: "auction_status \<Rightarrow> auction_status \<Rightarrow> bool" where
  "au_legal AOpen AAssigned = True"
| "au_legal AOpen ACancelled = True"
| "au_legal AAssigned ACompleted = True"
| "au_legal _ _ = False"

fun au_rank :: "auction_status \<Rightarrow> nat" where
  "au_rank AOpen = 0"
| "au_rank AAssigned = 1"
| "au_rank ACompleted = 2"
| "au_rank ACancelled = 2"

fun_cases au_legalE: "au_legal a b"

interpretation aus: status_machine au_legal au_rank
  by unfold_locales (auto elim!: au_legalE)

definition fixed_part :: "AuctionTask \<Rightarrow> id64 \<times> id64 \<times> string \<times> string \<times> string \<times> string \<times> timestamp option \<times> timestamp" where
  "fixed_part t = (at_ID t, at_ChannelID t, at_PostedBy t, at_Title t, at_Description t, at_Requirements t,
     at_Deadline t, at_CreatedAt t)"

definition auction_later :: "AuctionTask \<Rightarrow> AuctionTask \<Rightarrow> bool" where
  "auction_later t t' \<longleftrightarrow> fixed_part t' = fixed_part t \<and> au_legal\<^sup>*\<^sup>* (at_Status t) (at_Status t') \<and>
     (given (at_Status t) \<longrightarrow> at_AssignedTo t' = at_AssignedTo t)"

definition au_later :: "au_db \<Rightarrow> au_db \<Rightarrow> bool" where
  "au_later db db' \<longleftrightarrow> (\<forall>t \<in> set (ad_tasks db). \<exists>t' \<in> set (ad_tasks db'). auction_later t t')"

lemma given_stays: "au_legal\<^sup>*\<^sup>* a b \<Longrightarrow> given a \<Longrightarrow> given b"
  by (induction rule: rtranclp_induct) (auto simp: given_def elim!: au_legalE)

lemma auction_later_refl [simp]: "auction_later t t"
  by (simp add: auction_later_def)

lemma auction_later_trans: "auction_later t u \<Longrightarrow> auction_later u v \<Longrightarrow> auction_later t v"
  unfolding auction_later_def using given_stays by (metis rtranclp_trans)

lemma au_later_refl [simp]: "au_later db db"
  by (auto simp: au_later_def intro: auction_later_refl)

lemma au_later_trans: "au_later db db' \<Longrightarrow> au_later db' db'' \<Longrightarrow> au_later db db''"
  unfolding au_later_def by (meson auction_later_trans)

lemma au_later_tasks: "ad_tasks db' = ad_tasks db @ xs \<Longrightarrow> au_later db db'"
  by (auto simp: au_later_def intro: auction_later_refl)

lemma au_later_update:
  assumes "\<And>t. t \<in> set ts \<Longrightarrow> P t \<Longrightarrow> auction_later t (f t)"
  shows "au_later (db\<lparr>ad_tasks := ts\<rparr>) (db\<lparr>ad_tasks := update_where P f ts\<rparr>)"
  unfolding au_later_def
proof
  fix t assume "t \<in> set (ad_tasks (db\<lparr>ad_tasks := ts\<rparr>))"
  then have t: "t \<in> set ts" by simp
  have "auction_later t (if P t then f t else t)" using assms [OF t] by simp
  with updated_row [OF t, of P f]
  show "\<exists>t' \<in> set (ad_tasks (db\<lparr>ad_tasks := update_where P f ts\<rparr>)). auction_later t t'" by force
qed

lemma later_cancel_row: "at_Status t = AOpen \<Longrightarrow> auction_later t (cancel_row now t)"
  by (auto simp: auction_later_def cancel_row_def fixed_part_def given_def intro: r_into_rtranclp)

lemma later_set_status:
  "au_legal (at_Status t) st \<Longrightarrow> given (at_Status t) \<Longrightarrow> auction_later t (set_status now st '''' t)"
  "at_Status t = AOpen \<Longrightarrow> auction_later t (set_status now AAssigned a t)"
  by (auto simp: auction_later_def set_status_def fixed_part_def given_def intro: r_into_rtranclp)

lemma expire_loop_later:
  "au_inv (db\<lparr>ad_tasks := ts\<rparr>) \<Longrightarrow> expire_loop dn failed key now s k n ts = (n', e, ts') \<Longrightarrow>
   au_later (db\<lparr>ad_tasks := ts\<rparr>) (db\<lparr>ad_tasks := ts'\<rparr>)"
proof (induction dn failed key now s k n ts rule: expire_loop.induct)
  case (1 dn failed key now s k n ts)
  let ?ts = "snd (expire_batch key now s ts)"
  have opn: "at_Status t = AOpen" if "t \<in> set ts" "in_batch key s ts t" for t
    using batch_source [OF that(2)] au_task_unique [OF "1.prems"(1)] that(1) by (fastforce simp: expirable_def)
  then have step: "au_later (db\<lparr>ad_tasks := ts\<rparr>) (db\<lparr>ad_tasks := ?ts\<rparr>)"
    by (auto simp: expire_batch_def intro!: au_later_update later_cancel_row)
  have inv: "au_inv (db\<lparr>ad_tasks := ?ts\<rparr>)"
    using cancel_inv [OF "1.prems"(1), of "in_batch key s ts" now] opn by (simp add: expire_batch_def)
  show ?case
  proof (cases "stops dn failed key now s k ts")
    case True
    then have "ts' = ts \<or> ts' = ?ts" using "1.prems"(2) by (auto simp: expire_loop_stop split: if_splits)
    with step show ?thesis by auto
  next
    case False
    with "1.prems"(2) have
      "expire_loop dn failed key now s (k + 1) (n + fst (expire_batch key now s ts)) ?ts = (n', e, ts')"
      by (simp add: expire_loop_step)
    with "1.IH" False inv have "au_later (db\<lparr>ad_tasks := ?ts\<rparr>) (db\<lparr>ad_tasks := ts'\<rparr>)"
      by (cases "expire_batch key now s ts") (auto simp: stops_def)
    with step show ?thesis by (rule au_later_trans)
  qed
qed

lemma UpdateBidStatus_tasks [simp]: "ad_tasks (snd (UpdateBidStatus f i st db)) = ad_tasks db"
  by (simp add: UpdateBidStatus_def Let_def)

lemma reject_bids_tasks [simp]: "ad_tasks (reject_bids f w bs db) = ad_tasks db"
  by (induction bs arbitrary: db) simp_all

lemma au_later_cong: "ad_tasks db'' = ad_tasks db' \<Longrightarrow> au_later db db' \<Longrightarrow> au_later db db''"
  by (simp add: au_later_def)

lemma au_later_trace [simp]: "au_later db (au_trace a t db') = au_later db db'"
  by (simp add: au_later_def)

lemma UpdateTaskStatus_later:
  assumes "UpdateTaskStatus f now i st a db = (r, db')"
    and "\<And>t. t \<in> set (ad_tasks db) \<Longrightarrow> at_ID t = i \<Longrightarrow> auction_later t (set_status now st a t)"
  shows "au_later db db'"
proof -
  have "au_later db (db\<lparr>ad_tasks := update_where (\<lambda>t. at_ID t = i) (set_status now st a) (ad_tasks db)\<rparr>)"
    using au_later_update [of "ad_tasks db" "\<lambda>t. at_ID t = i" "set_status now st a" db] assms(2) by simp
  with assms(1) show ?thesis by (auto simp: UpdateTaskStatus_def Let_def split: if_splits)
qed

lemma AcceptBid_later:
  assumes inv: "au_inv db"
  shows "au_later db (snd (AcceptBid flt now i bid a db))"
proof (cases rule: AcceptBid_cases [of flt now i bid a db])
  case (assigned t b db1)
  have only: "x = t" if "x \<in> set (ad_tasks db)" "at_ID x = i" for x
    using get_task_Inr [OF assigned(1)] au_task_unique [OF inv that(1), of t] that(2) by simp
  have "au_later db db1"
    by (rule UpdateTaskStatus_later [OF assigned(6)]) (use only later_set_status(2) assigned(3) in blast)
  moreover have "ad_tasks (snd (AcceptBid flt now i bid a db)) = ad_tasks db1"
  proof -
    obtain r db2 where u: "UpdateBidStatus (flt AAcceptBid) bid BAccepted db1 = (r, db2)"
      by (cases "UpdateBidStatus (flt AAcceptBid) bid BAccepted db1")
    then have "ad_tasks db2 = ad_tasks db1" using UpdateBidStatus_tasks [of "flt AAcceptBid" bid BAccepted db1] by simp
    with u show ?thesis unfolding assigned(7) by (cases r; cases "GetBids (flt AGetBids) i db2") simp_all
  qed
  ultimately show ?thesis using au_later_cong by blast
qed simp

lemma CompleteTask_later:
  assumes inv: "au_inv db"
  shows "au_later db (snd (CompleteTask flt now i a db))"
proof -
  have upd: "au_later db db'"
    if t: "get_task f i db = Inr t" "at_Status t = AAssigned" and u: "UpdateTaskStatus g now i ACompleted '''' db = (r, db')"
    for f t g r db'
  proof (rule UpdateTaskStatus_later [OF u])
    fix x assume "x \<in> set (ad_tasks db)" "at_ID x = i"
    then have "x = t" using get_task_Inr [OF t(1)] au_task_unique [OF inv, of x t] by simp
    with t(2) show "auction_later x (set_status now ACompleted '''' x)"
      by (simp add: later_set_status(1) given_def)
  qed
  show ?thesis
    by (auto simp: CompleteTask_def split: sum.splits prod.splits intro: upd)
qed

lemma ExpireTasks_later: "au_inv db \<Longrightarrow> au_later db (snd (ExpireTasks flt key now db))"
proof -
  assume inv: "au_inv db"
  have "expire_loop dn failed key n s 0 0 (ad_tasks db) = (m, e, ts) \<Longrightarrow> au_later db (db\<lparr>ad_tasks := ts\<rparr>)" for dn failed n s m e ts
    using expire_loop_later [where db = db and ts = "ad_tasks db"] inv by simp
  then show ?thesis
    by (auto simp: ExpireTasks_def store_ExpireTasks_def Let_def
        split: prod.splits option.splits)
qed

lemma au_exec_later: "au_inv db \<Longrightarrow> au_later db (au_exec op db)"
proof (cases "(op, db)" rule: au_exec.cases)
  case (1 flt now cdb c a title desc req dl db')
  then show ?thesis
    by (auto simp: PostTask_def store_CreateTask_def Let_def split: sum.splits bool.splits intro!: au_later_tasks)
next
  case (2 flt now cdb i a cap te msg db')
  then show ?thesis
    by (auto simp: BidOnTask_def CreateBid_def Let_def split: sum.splits bool.splits intro!: au_later_tasks [of _ _ "[]"])
next
  case (6 flt now c db')
  assume "au_inv db"
  with 6 au_later_update [of "ad_tasks db'" "\<lambda>t. at_ChannelID t = c \<and> at_Status t = AOpen" "cancel_row now" db']
  show ?thesis by (simp add: CancelTasksByChannel_def Let_def later_cancel_row)
qed (simp_all add: AcceptBid_later CompleteTask_later ExpireTasks_later)

interpretation auh: history_system au_exec au_inv au_later
  by unfold_locales (auto intro: au_exec_inv au_exec_later au_later_trans)

subsection \<open>Expiry\<close>

lemma length_filter_ids:
  assumes "distinct (map g xs)" and "S \<subseteq> g ` set xs"
  shows "length (filter (\<lambda>x. g x \<in> S) xs) = card S"
proof -
  have "card (set (map g (filter (\<lambda>x. g x \<in> S) xs))) = length (map g (filter (\<lambda>x. g x \<in> S) xs))"
    using assms(1) by (intro distinct_card distinct_map_filter)
  moreover have "set (map g (filter (\<lambda>x. g x \<in> S) xs)) = S" using assms(2) by auto
  ultimately show ?thesis by simp
qed

lemma batch_expirable:
  "distinct (map at_ID ts) \<Longrightarrow> t \<in> set ts \<Longrightarrow> in_batch key s ts t \<Longrightarrow> expirable s t"
  using batch_source [of key s ts t] by (auto simp: distinct_map inj_on_def)

lemma batch_size:
  assumes d: "distinct (map at_ID ts)"
  shows "fst (expire_batch key now s ts) = min expireTasksBatchSize (length (filter (expirable s) ts))"
proof -
  let ?E = "filter (expirable s) ts" and ?B = "take expireTasksBatchSize (sort_key key (filter (expirable s) ts))"
  have "distinct (map at_ID ?E)" using d by (rule distinct_map_filter)
  moreover have "mset (map at_ID (sort_key key ?E)) = mset (map at_ID ?E)" by simp
  ultimately have "distinct (map at_ID (sort_key key ?E))" using mset_eq_imp_distinct_iff by metis
  then have "distinct (batch_ids key s ts)" unfolding batch_ids_def take_map [symmetric] by (rule distinct_take)
  then have "card (set (batch_ids key s ts)) = min expireTasksBatchSize (length ?E)"
    by (subst distinct_card) (simp_all add: batch_ids_def)
  moreover have "set (batch_ids key s ts) \<subseteq> at_ID ` set ts"
    by (auto simp: batch_ids_def dest!: in_set_takeD)
  ultimately show ?thesis
    using length_filter_ids [OF d, of "set (batch_ids key s ts)"]
    by (simp add: expire_batch_def rows_affected_def in_batch_def [abs_def])
qed

lemma last_batch:
  assumes d: "distinct (map at_ID ts)" and n: "fst (expire_batch key now s ts) < expireTasksBatchSize"
  shows "expire_batch key now s ts =
    (length (filter (expirable s) ts), update_where (expirable s) (cancel_row now) ts)"
proof -
  let ?E = "filter (expirable s) ts"
  have le: "length ?E < expireTasksBatchSize" using n batch_size [OF d, of key now s] by simp
  then have "take expireTasksBatchSize (sort_key key ?E) = sort_key key ?E" by simp
  then have "in_batch key s ts t" if "t \<in> set ts" "expirable s t" for t
    using that by (auto simp: in_batch_def batch_ids_def)
  then have "update_where (in_batch key s ts) (cancel_row now) ts = update_where (expirable s) (cancel_row now) ts"
    using batch_expirable [OF d] by (intro update_where_cong) blast
  moreover have "fst (expire_batch key now s ts) = length ?E" using batch_size [OF d, of key now s] le by simp
  ultimately show ?thesis by (simp add: expire_batch_def)
qed

lemma cancel_again:
  "(\<And>t. t \<in> set ts \<Longrightarrow> P t \<Longrightarrow> expirable s t) \<Longrightarrow>
   update_where (expirable s) (cancel_row now) (update_where P (cancel_row now) ts) =
     update_where (expirable s) (cancel_row now) ts"
  by (induction ts) auto

lemma filter_split:
  "(\<And>t. t \<in> set ts \<Longrightarrow> P t \<Longrightarrow> Q t) \<Longrightarrow>
   length (filter P ts) + length (filter (\<lambda>t. Q t \<and> \<not> P t) ts) = length (filter Q ts)"
  by (induction ts) auto

text \<open>Without faults the loop cancels all expired tasks, whatever the order of the batches.\<close>

lemma expire_loop_exact:
  "distinct (map at_ID ts) \<Longrightarrow> dn = (\<lambda>_. False) \<Longrightarrow> failed = (\<lambda>_. False) \<Longrightarrow>
   expire_loop dn failed key now s k n ts =
     (n + length (filter (expirable s) ts), None, update_where (expirable s) (cancel_row now) ts)"
proof (induction dn failed key now s k n ts rule: expire_loop.induct)
  case (1 dn failed key now s k n ts)
  show ?case
  proof (cases "stops dn failed key now s k ts")
    case True
    then have "fst (expire_batch key now s ts) < expireTasksBatchSize" using "1.prems" by (simp add: stops_def)
    from last_batch [OF "1.prems"(1) this] "1.prems" show ?thesis unfolding expire_loop_stop [OF True] by simp
  next
    case False
    let ?P = "in_batch key s ts" and ?ts = "snd (expire_batch key now s ts)"
    have ts: "?ts = update_where ?P (cancel_row now) ts" by (simp add: expire_batch_def)
    have d: "distinct (map at_ID ?ts)" unfolding ts using "1.prems"(1) by (simp add: map_update_where)
    have "expire_loop dn failed key now s (k + 1) (n + fst (expire_batch key now s ts)) ?ts =
        (n + fst (expire_batch key now s ts) + length (filter (expirable s) ?ts), None,
         update_where (expirable s) (cancel_row now) ?ts)"
      using "1.IH" False d 1 by (cases "expire_batch key now s ts") (auto simp: stops_def)
    moreover have "update_where (expirable s) (cancel_row now) ?ts = update_where (expirable s) (cancel_row now) ts"
      unfolding ts using batch_expirable [OF "1.prems"(1)] by (rule cancel_again)
    moreover have "fst (expire_batch key now s ts) + length (filter (expirable s) ?ts) = length (filter (expirable s) ts)"
      unfolding ts batch_left using filter_split [of ts ?P "expirable s"] batch_expirable [OF "1.prems"(1)]
      by (simp add: expire_batch_def rows_affected_def)
    ultimately show ?thesis using False by (simp add: expire_loop_step)
  qed
qed

subsection \<open>Accepting a bid\<close>

definition with_status :: "bid_status \<Rightarrow> Bid \<Rightarrow> Bid" where
  "with_status st b = b\<lparr>bd_Status := st\<rparr>"

lemma with_status_simps [simp]:
  "bd_ID (with_status st b) = bd_ID b" "bd_TaskID (with_status st b) = bd_TaskID b"
  "bd_Status (with_status st b) = st" "with_status st (with_status st' b) = with_status st b"
  by (simp_all add: with_status_def)

lemma UpdateBidStatus_ok: "snd (UpdateBidStatus False i st db) =
    db\<lparr>ad_bids := update_where (\<lambda>b. bd_ID b = i) (with_status st) (ad_bids db)\<rparr>"
  by (simp add: UpdateBidStatus_def Let_def with_status_def [abs_def])

lemma update_where_twice:
  assumes "\<And>r. f (f r) = f r" and "\<And>r. P (f r) = P r"
  shows "update_where P f (update_where Q f rs) = update_where (\<lambda>r. P r \<or> Q r) f rs"
  using assms by (induction rs) auto

lemma reject_bids_eq:
  "reject_bids (\<lambda>_. False) w bs db = db\<lparr>ad_bids := update_where
     (\<lambda>b. \<exists>x \<in> set bs. bd_ID x = bd_ID b \<and> bd_ID x \<noteq> w \<and> bd_Status x = BPending) (with_status BRejected) (ad_bids db)\<rparr>"
proof (induction bs arbitrary: db)
  case Nil
  then show ?case by (simp add: update_where_none)
next
  case (Cons b bs)
  have "update_where (\<lambda>x. (\<exists>y \<in> set bs. bd_ID y = bd_ID x \<and> bd_ID y \<noteq> w \<and> bd_Status y = BPending) \<or> bd_ID x = bd_ID b)
      (with_status BRejected) (ad_bids db) =
    update_where (\<lambda>x. \<exists>y \<in> set (b # bs). bd_ID y = bd_ID x \<and> bd_ID y \<noteq> w \<and> bd_Status y = BPending)
      (with_status BRejected) (ad_bids db)" if "bd_ID b \<noteq> w" "bd_Status b = BPending"
    using that by (intro update_where_cong) auto
  moreover have "update_where (\<lambda>x. \<exists>y \<in> set bs. bd_ID y = bd_ID x \<and> bd_ID y \<noteq> w \<and> bd_Status y = BPending)
      (with_status BRejected) (ad_bids db) =
    update_where (\<lambda>x. \<exists>y \<in> set (b # bs). bd_ID y = bd_ID x \<and> bd_ID y \<noteq> w \<and> bd_Status y = BPending)
      (with_status BRejected) (ad_bids db)" if "\<not> (bd_ID b \<noteq> w \<and> bd_Status b = BPending)"
    using that by (intro update_where_cong) auto
  ultimately show ?case
    unfolding reject_bids.simps Cons.IH by (cases "bd_ID b \<noteq> w \<and> bd_Status b = BPending")
      (simp_all add: UpdateBidStatus_ok update_where_twice del: bex_simps)
qed

text \<open>What accepting does to one bid.\<close>

definition settle :: "id64 \<Rightarrow> id64 \<Rightarrow> Bid \<Rightarrow> Bid" where
  "settle i bid b =
     (if bd_ID b = bid then with_status BAccepted b
      else if bd_TaskID b = i \<and> bd_Status b = BPending then with_status BRejected b else b)"

lemma settle_bids:
  assumes "distinct (map bd_ID bs)"
  shows "update_where (\<lambda>b. \<exists>x \<in> set (sort_key bd_CreatedAt (filter (\<lambda>b. bd_TaskID b = i)
        (update_where (\<lambda>b. bd_ID b = bid) (with_status BAccepted) bs))). bd_ID x = bd_ID b \<and> bd_ID x \<noteq> bid \<and>
          bd_Status x = BPending)
      (with_status BRejected) (update_where (\<lambda>b. bd_ID b = bid) (with_status BAccepted) bs) = map (settle i bid) bs"
proof -
  let ?u = "update_where (\<lambda>b. bd_ID b = bid) (with_status BAccepted) bs"
  have d: "distinct (map bd_ID ?u)" using assms by (simp add: map_update_where)
  have "(\<exists>x \<in> set (sort_key bd_CreatedAt (filter (\<lambda>b. bd_TaskID b = i) ?u)). bd_ID x = bd_ID b \<and> bd_ID x \<noteq> bid \<and>
      bd_Status x = BPending) = (bd_TaskID b = i \<and> bd_ID b \<noteq> bid \<and> bd_Status b = BPending)" if "b \<in> set ?u" for b
    using that d by (auto simp: distinct_map inj_on_def)
  then have "update_where (\<lambda>b. \<exists>x \<in> set (sort_key bd_CreatedAt (filter (\<lambda>b. bd_TaskID b = i) ?u)).
        bd_ID x = bd_ID b \<and> bd_ID x \<noteq> bid \<and> bd_Status x = BPending) (with_status BRejected) ?u =
      update_where (\<lambda>b. bd_TaskID b = i \<and> bd_ID b \<noteq> bid \<and> bd_Status b = BPending) (with_status BRejected) ?u"
    by (rule update_where_cong)
  also have "\<dots> = map (settle i bid) bs" by (induction bs) (auto simp: settle_def)
  finally show ?thesis .
qed

lemma AcceptBid_ok:
  assumes inv: "au_inv db" and t: "t \<in> set (ad_tasks db)" "at_ID t = i" "at_PostedBy t = a" "at_Status t = AOpen"
    and b: "b \<in> set (ad_bids db)" "bd_ID b = bid" "bd_TaskID b = i"
  shows "AcceptBid (\<lambda>_. False) now i bid a db = (Inr (), au_trace a ''swarm.bid_accepted''
    (db\<lparr>ad_tasks := update_where (\<lambda>t. at_ID t = i) (set_status now AAssigned (bd_AgentName b)) (ad_tasks db),
       ad_bids := map (settle i bid) (ad_bids db)\<rparr>))"
proof -
  have ids: "ids_ok at_ID (ad_task_seq db) (ad_tasks db)" "ids_ok bd_ID (ad_bid_seq db) (ad_bids db)"
    using inv by (simp_all add: au_inv_def)
  have gt: "get_task False i db = Inr t" using find_row_id [OF ids(1) t(1)] t(2) by (simp add: get_task_def)
  have gb: "GetBid False bid db = Inr b" using find_row_id [OF ids(2) b(1)] b(2) by (simp add: GetBid_def)
  have "rows_affected (\<lambda>t. at_ID t = i) (ad_tasks db) \<noteq> 0" unfolding rows_affected_0 using t by blast
  then have ut: "UpdateTaskStatus False now i AAssigned (bd_AgentName b) db =
      (Inr (), db\<lparr>ad_tasks := update_where (\<lambda>t. at_ID t = i) (set_status now AAssigned (bd_AgentName b)) (ad_tasks db)\<rparr>)"
    by (simp add: UpdateTaskStatus_def Let_def)
  have "rows_affected (\<lambda>b. bd_ID b = bid) (ad_bids db) \<noteq> 0" unfolding rows_affected_0 using b by blast
  then have ub: "UpdateBidStatus False bid BAccepted db' =
      (Inr (), db'\<lparr>ad_bids := update_where (\<lambda>b. bd_ID b = bid) (with_status BAccepted) (ad_bids db')\<rparr>)"
    if "ad_bids db' = ad_bids db" for db'
    using that by (simp add: UpdateBidStatus_def Let_def with_status_def [abs_def])
  have "distinct (map bd_ID (ad_bids db))" using ids(2) by (simp add: ids_ok_def)
  from settle_bids [OF this, of i bid] show ?thesis
    using t b by (simp add: AcceptBid_def gt gb ut ub GetBids_def reject_bids_eq)
qed

section \<open>Properties\<close>

definition sound :: "au_stmt \<Rightarrow> bool" where
  "sound st = False"

definition market :: ch_db where
  "market = fold ch_exec
     [(fine, OCreateChannel 1 ((room_request ''jobs'' ''alice'' False)\<lparr>cr_Type := ''auction''\<rparr>)),
      (fine, OJoinChannel 2 1 ''bob''), (fine, OJoinChannel 3 1 ''carol'')] (ch_empty False)"

definition two_bids :: au_db where
  "two_bids = fold au_exec
     [(sound, OPostTask 5000000000 market 1 ''alice'' ''job'' '''' '''' (Some 9000000000)),
      (sound, OBidOnTask 6 market 1 ''bob'' '''' '''' ''''),
      (sound, OBidOnTask 7 market 1 ''carol'' '''' '''' '''')] (au_empty False)"

lemma two_bids_inv: "au_inv two_bids"
  unfolding two_bids_def by (intro auh.run_inv au_empty_inv)

lemma task_bidder:
  assumes "task_ok bs t"
  shows "if at_Status t \<in> {AAssigned, ACompleted}
    then \<exists>b \<in> set bs. bd_TaskID b = at_ID t \<and> bd_AgentName b = at_AssignedTo t else at_AssignedTo t = ''''"
proof (cases "given (at_Status t)")
  case True
  with assms obtain b where "b \<in> set bs" "(at_ID t, at_AssignedTo t) = bid_pair b" by (auto simp: task_ok_def)
  with True show ?thesis by (auto simp: given_def bid_pair_def)
qed (use assms in \<open>auto simp: task_ok_def given_def\<close>)

lemma accepted_unique:
  assumes "au_inv db" "b \<in> set (ad_bids db)" "b' \<in> set (ad_bids db)" "bd_TaskID b = bd_TaskID b'"
    "bd_Status b = BAccepted" "bd_Status b' = BAccepted"
  shows "b = b'"
proof -
  from assms(1,2) obtain t where t: "t \<in> set (ad_tasks db)" "at_ID t = bd_TaskID b" by (auto simp: au_inv_def)
  have "bid_pair b = bid_pair b'"
    using au_bid_of [OF assms(1,2) t] au_bid_of [OF assms(1,3) t(1)] t assms by (simp add: bid_ok_def bid_pair_def)
  with assms(1-3) show ?thesis by (auto simp: au_inv_def distinct_map inj_on_def)
qed

text \<open>
  The auction invariant, after any sequence of operations and whichever of their
  statements fail: nobody bids on their own task or twice on a task, a task has at most one
  accepted bid, an accepted bid is that of the assigned agent of an assigned or completed
  task, and every assigned or completed task has a bid of its assignee, while open and
  cancelled tasks have no assignee.
\<close>

theorem auction_invariant:
  "let db = fold au_exec ops (au_empty tracer) in
     distinct (map bid_pair (ad_bids db)) \<and>
     (\<forall>b \<in> set (ad_bids db). \<exists>t \<in> set (ad_tasks db). at_ID t = bd_TaskID b \<and> bd_AgentName b \<noteq> at_PostedBy t \<and>
        (bd_Status b = BAccepted \<longrightarrow> at_AssignedTo t = bd_AgentName b \<and> at_Status t \<in> {AAssigned, ACompleted})) \<and>
     (\<forall>b \<in> set (ad_bids db). \<forall>b' \<in> set (ad_bids db).
        bd_TaskID b = bd_TaskID b' \<and> bd_Status b = BAccepted \<and> bd_Status b' = BAccepted \<longrightarrow> b = b') \<and>
     (\<forall>t \<in> set (ad_tasks db). if at_Status t \<in> {AAssigned, ACompleted}
        then \<exists>b \<in> set (ad_bids db). bd_TaskID b = at_ID t \<and> bd_AgentName b = at_AssignedTo t
        else at_AssignedTo t = '''')"
proof -
  let ?db = "fold au_exec ops (au_empty tracer)"
  have inv: "au_inv ?db" by (intro auh.run_inv au_empty_inv)
  have tasks: "\<forall>t \<in> set (ad_tasks ?db). if at_Status t \<in> {AAssigned, ACompleted}
        then \<exists>b \<in> set (ad_bids ?db). bd_TaskID b = at_ID t \<and> bd_AgentName b = at_AssignedTo t
        else at_AssignedTo t = ''''"
    using inv task_bidder unfolding au_inv_def by blast
  have "\<forall>b \<in> set (ad_bids ?db). \<exists>t \<in> set (ad_tasks ?db). at_ID t = bd_TaskID b \<and> bd_AgentName b \<noteq> at_PostedBy t \<and>
        (bd_Status b = BAccepted \<longrightarrow> at_AssignedTo t = bd_AgentName b \<and> at_Status t \<in> {AAssigned, ACompleted})"
    using inv unfolding au_inv_def bid_ok_def given_def by fastforce
  with inv tasks accepted_unique [OF inv] show ?thesis unfolding Let_def au_inv_def by blast
qed

theorem auction_invariant_witness:
  "let db = fold au_exec [(sound, OAcceptBid 8 1 2 ''alice'')] two_bids in
     map bd_Status (ad_bids db) = [BRejected, BAccepted] \<and>
     (\<forall>b \<in> set (ad_bids db). \<forall>b' \<in> set (ad_bids db).
        bd_TaskID b = bd_TaskID b' \<and> bd_Status b = BAccepted \<and> bd_Status b' = BAccepted \<longrightarrow> b = b')"
proof -
  have "map bd_Status (ad_bids (fold au_exec [(sound, OAcceptBid 8 1 2 ''alice'')] two_bids)) = [BRejected, BAccepted]"
    by code_simp
  moreover have "fold au_exec [(sound, OAcceptBid 8 1 2 ''alice'')] two_bids =
     fold au_exec ([(sound, OPostTask 5000000000 market 1 ''alice'' ''job'' '''' '''' (Some 9000000000)),
      (sound, OBidOnTask 6 market 1 ''bob'' '''' '''' ''''),
      (sound, OBidOnTask 7 market 1 ''carol'' '''' '''' '''')] @ [(sound, OAcceptBid 8 1 2 ''alice'')]) (au_empty False)"
    unfolding two_bids_def fold_append comp_def ..
  ultimately show ?thesis
    using auction_invariant [of "[(sound, OPostTask 5000000000 market 1 ''alice'' ''job'' '''' '''' (Some 9000000000)),
      (sound, OBidOnTask 6 market 1 ''bob'' '''' '''' ''''),
      (sound, OBidOnTask 7 market 1 ''carol'' '''' '''' '''')] @ [(sound, OAcceptBid 8 1 2 ''alice'')]" False]
    unfolding Let_def by metis
qed

text \<open>
  The life of a task: whatever operations run later, a task stays stored with its poster,
  channel, text and deadline, its status only moves from open to assigned to completed or from
  open to cancelled, and once it is assigned its assignee never changes.
\<close>

theorem auction_task_history:
  assumes "t \<in> set (ad_tasks (fold au_exec ops (au_empty tracer)))"
  shows "\<exists>t' \<in> set (ad_tasks (fold au_exec (ops @ later) (au_empty tracer))).
    fixed_part t' = fixed_part t \<and> au_legal\<^sup>*\<^sup>* (at_Status t) (at_Status t') \<and>
    (at_Status t \<in> {AAssigned, ACompleted} \<longrightarrow> at_AssignedTo t' = at_AssignedTo t)"
proof -
  let ?db = "fold au_exec ops (au_empty tracer)"
  have "au_inv ?db" by (intro auh.run_inv au_empty_inv)
  then have "au_later ?db (fold au_exec later ?db)" by (rule auh.run_later)
  with assms show ?thesis by (auto simp: au_later_def auction_later_def given_def)
qed

theorem auction_task_history_witness:
  "let t = hd (ad_tasks two_bids) in at_Status t = AOpen \<and>
     (\<exists>t'. fixed_part t' = fixed_part t \<and> au_legal\<^sup>*\<^sup>* AOpen (at_Status t'))"
proof -
  let ?t = "hd (ad_tasks two_bids)"
  have t: "?t \<in> set (ad_tasks two_bids)" "at_Status ?t = AOpen" by code_simp+
  from auction_task_history [OF t(1) [unfolded two_bids_def], of "[(sound, OAcceptBid 8 1 2 ''alice'')]"] t(2)
  show ?thesis unfolding Let_def two_bids_def by auto
qed

text \<open>
  C30. Accepting a bid, when no statement fails: it succeeds exactly when the caller posted the
  task, the task is open and the bid is a bid on it. Then the task is assigned to the bidder,
  the bid is accepted, every other pending bid on the task is rejected, and all other tasks
  and bids stay as they are. Otherwise nothing changes.
\<close>

theorem accept_bid_outcome:
  assumes "au_inv db"
  shows "case AcceptBid sound now i bid a db of (r, db') \<Rightarrow>
    (isl r \<longrightarrow> db' = db) \<and>
    (\<not> isl r \<longleftrightarrow> (\<exists>t \<in> set (ad_tasks db). at_ID t = i \<and> at_PostedBy t = a \<and> at_Status t = AOpen) \<and>
       (\<exists>b \<in> set (ad_bids db). bd_ID b = bid \<and> bd_TaskID b = i)) \<and>
    (\<not> isl r \<longrightarrow> (\<exists>b \<in> set (ad_bids db). bd_ID b = bid \<and>
       ad_tasks db' = update_where (\<lambda>t. at_ID t = i) (set_status now AAssigned (bd_AgentName b)) (ad_tasks db)) \<and>
       ad_bids db' = map (settle i bid) (ad_bids db))"
proof -
  have snd: "sound = (\<lambda>_. False)" by (simp add: sound_def fun_eq_iff)
  show ?thesis
  proof (cases "(\<exists>t \<in> set (ad_tasks db). at_ID t = i \<and> at_PostedBy t = a \<and> at_Status t = AOpen) \<and>
       (\<exists>b \<in> set (ad_bids db). bd_ID b = bid \<and> bd_TaskID b = i)")
    case True
    then obtain t b where t: "t \<in> set (ad_tasks db)" "at_ID t = i" "at_PostedBy t = a" "at_Status t = AOpen"
      and b: "b \<in> set (ad_bids db)" "bd_ID b = bid" "bd_TaskID b = i" by blast
    from AcceptBid_ok [OF assms t b, of now] b(1,2) True show ?thesis unfolding snd by auto
  next
    case False
    show ?thesis
    proof (cases rule: AcceptBid_cases [of sound now i bid a db])
      case (assigned t b db1)
      with False get_task_Inr [OF assigned(1)] GetBid_Inr [OF assigned(4)] show ?thesis by blast
    next
      case same
      have "isl (fst (AcceptBid sound now i bid a db))"
        using False by (auto simp: AcceptBid_def UpdateTaskStatus_def Let_def split: sum.splits
            dest!: get_task_Inr GetBid_Inr)
      with same False show ?thesis by (cases "AcceptBid sound now i bid a db") auto
    qed
  qed
qed

theorem accept_bid_outcome_witness:
  "\<not> isl (fst (AcceptBid sound 8 1 2 ''alice'' two_bids)) \<and>
   ad_bids (snd (AcceptBid sound 8 1 2 ''alice'' two_bids)) = map (settle 1 2) (ad_bids two_bids)"
proof -
  have "\<not> isl (fst (AcceptBid sound 8 1 2 ''alice'' two_bids))" by code_simp
  with accept_bid_outcome [OF two_bids_inv, where now = 8 and i = 1 and bid = 2 and a = "''alice''"] show ?thesis by (auto split: prod.splits)
qed

text \<open>
  C31. Expiry terminates and is exact: when no statement fails and the context is not done,
  \<open>ExpireTasks\<close> cancels exactly the open tasks whose deadline lies before the current second,
  reports how many they are, and leaves everything else, in whatever order the batches of at
  most 500 rows are taken; and no task is cancelled whose deadline has not passed.
\<close>

theorem expire_tasks_exact:
  assumes "au_inv db"
  shows "case ExpireTasks sound key nowns db of (r, db') \<Rightarrow>
    r = Inr (length (filter (expirable (seconds nowns)) (ad_tasks db))) \<and>
    ad_tasks db' = update_where (expirable (seconds nowns)) (cancel_row (seconds nowns)) (ad_tasks db) \<and>
    ad_bids db' = ad_bids db \<and>
    (\<forall>t d. expirable (seconds nowns) t \<and> at_Deadline t = Some (seconds d) \<longrightarrow> d < nowns)"
proof -
  let ?s = "seconds nowns"
  have d: "distinct (map at_ID (ad_tasks db))" using assms by (simp add: au_inv_def ids_ok_def)
  have snd: "sound = (\<lambda>_. False)" by (simp add: sound_def fun_eq_iff)
  have passed: "x < nowns" if "expirable ?s t" "at_Deadline t = Some (seconds x)" for t x
    using that by (simp add: expirable_def seconds_def) linarith
  note loop = expire_loop_exact [OF d refl refl, of key ?s ?s 0 0]
  show ?thesis
  proof (cases "\<exists>t \<in> set (ad_tasks db). expirable ?s t")
    case True
    then have "filter (expirable ?s) (ad_tasks db) \<noteq> []" by (auto simp: filter_empty_conv)
    with True passed show ?thesis
      unfolding snd by (auto simp: ExpireTasks_def store_ExpireTasks_def Let_def loop)
  next
    case False
    then have "filter (expirable ?s) (ad_tasks db) = []" by (simp add: filter_empty_conv)
    moreover have "update_where (expirable ?s) (cancel_row ?s) (ad_tasks db) = ad_tasks db"
      using False by (intro update_where_none) auto
    ultimately show ?thesis
      using False passed unfolding snd by (auto simp: ExpireTasks_def store_ExpireTasks_def Let_def)
  qed
qed

theorem expire_tasks_exact_witness:
  "fst (ExpireTasks sound at_ID 10000000000 two_bids) =
     Inr (length (filter (expirable (seconds 10000000000)) (ad_tasks two_bids))) \<and>
   filter (expirable (seconds 10000000000)) (ad_tasks two_bids) \<noteq> []"
proof -
  have "filter (expirable (seconds 10000000000)) (ad_tasks two_bids) \<noteq> []" by code_simp
  with expire_tasks_exact [OF two_bids_inv, where key = at_ID and nowns = 10000000000] show ?thesis by (auto split: prod.splits)
qed

text \<open>
  The assignment and the acceptance of the bid are two statements: when the second fails, the
  task is assigned while its bid stays pending, and the poster cannot accept it again.
\<close>

lemma half_accepted:
  "let db = snd (AcceptBid (\<lambda>st. st = AAcceptBid) 8 1 2 ''alice'' two_bids) in
     map at_Status (ad_tasks db) = [AAssigned] \<and> map bd_Status (ad_bids db) = [BPending, BPending] \<and>
     fst (AcceptBid sound 9 1 2 ''alice'' db) = Inl (TaskNotOpen AAssigned)"
  by code_simp

end
