(* ===== verification/Webhooks.thy ===== *)
theory Webhooks
  imports Mentions "HOL-Library.Word"
begin

text \<open>
  Webhooks: \<open>internal/webhooks/security.go\<close>, \<open>store.go\<close>, \<open>service.go\<close> and
  \<open>delivery.go\<close>.

  \<^item> Addresses: an IP address is its 16-byte form, a \<open>128 word\<close>; \<open>to4\<close> is Go's
    \<open>IP.To4\<close>. A URL and the answers of the resolver are given up to their parse
    (\<open>parsed_url\<close>, \<open>lookup\<close>), as \<open>url.Parse\<close>, \<open>net.ParseIP\<close> and DNS are not part of the
    program.
  \<^item> The tables \<open>webhooks\<close> and \<open>webhook_deliveries\<close> are the record \<open>wh_db\<close>. SHA-256 is
    an argument, the payload is kept as the event it encodes and its time stamp.
  \<^item> The engine is a step relation on the tables, the queue of \<open>deliveryWork\<close> values, the
    deliveries with which workers wait for the rate limiter and those whose request is out. A queue element holds copies of the rows as they were
    when it was queued: the attempt counter a worker increments is that of the copy. HTTP is
    the outcome of a step.
\<close>

section \<open>Addresses\<close>

type_synonym ip = "128 word"

definition v4 :: "32 word \<Rightarrow> ip" where
  "v4 w = 0xFFFF00000000 + ucast w"

definition to4 :: "ip \<Rightarrow> 32 word option" where
  "to4 a = (if drop_bit 32 a = 0xFFFF then Some (ucast a) else None)"

datatype ipnet = Net4 "32 word" nat | Net6 "128 word" nat

fun net_contains :: "ipnet \<Rightarrow> ip \<Rightarrow> bool" where
  "net_contains (Net4 base len) a =
     (case to4 a of None \<Rightarrow> False | Some w \<Rightarrow> drop_bit (32 - len) w = drop_bit (32 - len) base)"
| "net_contains (Net6 base len) a =
     (case to4 a of Some w \<Rightarrow> False | None \<Rightarrow> drop_bit (128 - len) a = drop_bit (128 - len) base)"

definition privateRanges :: "ipnet list" where
  "privateRanges =
     [Net4 0x0A000000 8, Net4 0xAC100000 12, Net4 0xC0A80000 16, Net4 0x7F000000 8, Net4 0xA9FE0000 16,
      Net6 1 128, Net6 0xFC000000000000000000000000000000 7, Net6 0xFE800000000000000000000000000000 10]"

definition IsPrivateIP :: "ip \<Rightarrow> bool" where
  "IsPrivateIP a = list_ex (\<lambda>n. net_contains n a) privateRanges"

text \<open>
  A URL after \<open>url.Parse\<close>: scheme, host name and, if the host is an address literal, that
  address. The resolver answers with texts, \<open>None\<close> being one \<open>net.ParseIP\<close> does not accept,
  or fails.
\<close>

record parsed_url =
  pu_Scheme :: string
  pu_Hostname :: string
  pu_Literal :: "ip option"

type_synonym lookup = "string \<Rightarrow> ip option list option"

datatype wh_error =
    InvalidURL
  | NeedsHTTPS
  | BadScheme string
  | NoHostname
  | PrivateAddress
  | InvalidEvent string
  | NoEvents
  | TooManyWebhooks nat
  | WebhookNotFound
  | DeliveryNotFound
  | BadAddress
  | ResolutionFailed
  | WhStatementFailed

definition blocked :: "ip option \<Rightarrow> bool" where
  "blocked a = (case a of None \<Rightarrow> False | Some i \<Rightarrow> IsPrivateIP i)"

definition ValidateWebhookURL :: "lookup \<Rightarrow> parsed_url option \<Rightarrow> bool \<Rightarrow> bool \<Rightarrow> wh_error option" where
  "ValidateWebhookURL resolve url allowHTTP allowPrivate =
     (case url of
        None \<Rightarrow> Some InvalidURL
      | Some u \<Rightarrow>
          if pu_Scheme u \<noteq> ''https'' \<and> pu_Scheme u \<noteq> ''http'' then Some (BadScheme (pu_Scheme u))
          else if pu_Scheme u = ''http'' \<and> \<not> allowHTTP then Some NeedsHTTPS
          else if pu_Hostname u = '''' then Some NoHostname
          else if allowPrivate then None
          else case pu_Literal u of
                 Some a \<Rightarrow> if IsPrivateIP a then Some PrivateAddress else None
               | None \<Rightarrow>
                   (case resolve (pu_Hostname u) of
                      None \<Rightarrow> None
                    | Some ips \<Rightarrow> if list_ex blocked ips then Some PrivateAddress else None))"

text \<open>
  The dial function of \<open>NewSSRFSafeTransport\<close>: where the connection goes. \<open>addr\<close> is the
  address after \<open>SplitHostPort\<close>, \<open>DialHost\<close> a host that is left to the dialer.
\<close>

datatype dial_target = DialIP "ip option" string | DialHost string string

definition DialContext :: "lookup \<Rightarrow> bool \<Rightarrow> (string \<times> string) option \<Rightarrow> string \<times> string \<Rightarrow> wh_error + dial_target" where
  "DialContext resolve allowPrivate split addr =
     (if allowPrivate then Inr (DialHost (fst addr) (snd addr))
      else case split of
             None \<Rightarrow> Inl BadAddress
           | Some (host, port) \<Rightarrow>
               (case resolve host of
                  None \<Rightarrow> Inl ResolutionFailed
                | Some ips \<Rightarrow>
                    if list_ex blocked ips then Inl PrivateAddress
                    else case ips of [] \<Rightarrow> Inr (DialHost (fst addr) (snd addr)) | a # _ \<Rightarrow> Inr (DialIP a port)))"

definition ValidEvents :: "string list" where
  "ValidEvents = [''message.received'', ''message.mentioned'', ''channel.message'']"

definition IsValidEvent :: "string \<Rightarrow> bool" where
  "IsValidEvent e = list_ex (\<lambda>v. v = e) ValidEvents"

section \<open>Data\<close>

datatype webhook_status = WActive | WDisabled

datatype delivery_status = DPending | DDelivered | DRetrying | DDeadLettered

record Webhook =
  wh_ID :: id64
  wh_AgentName :: string
  wh_URL :: string
  wh_Events :: "string list"
  wh_SecretHash :: string
  wh_Status :: webhook_status
  wh_ConsecutiveFailures :: int
  wh_CreatedAt :: timestamp
  wh_UpdatedAt :: timestamp

record DeliveryPayload =
  dp_Event :: string
  dp_MessageID :: id64
  dp_FromAgent :: string
  dp_ToAgent :: string
  dp_Channel :: string
  dp_Body :: string
  dp_Priority :: int
  dp_Metadata :: json
  dp_Timestamp :: timestamp

record WebhookDelivery =
  dv_ID :: id64
  dv_WebhookID :: id64
  dv_AgentName :: string
  dv_Event :: string
  dv_MessageID :: id64
  dv_Payload :: DeliveryPayload
  dv_Status :: delivery_status
  dv_HTTPStatus :: int
  dv_Attempts :: int
  dv_MaxAttempts :: int
  dv_LastError :: string
  dv_NextRetryAt :: "timestamp option"
  dv_Depth :: int
  dv_CreatedAt :: timestamp
  dv_DeliveredAt :: "timestamp option"

record wh_db =
  wd_hooks :: "Webhook list"
  wd_hook_seq :: id64
  wd_dels :: "WebhookDelivery list"
  wd_del_seq :: id64

section \<open>Store\<close>

definition InsertWebhook :: "bool \<Rightarrow> string list \<Rightarrow> timestamp \<Rightarrow> Webhook \<Rightarrow> wh_db \<Rightarrow> (wh_error + Webhook) \<times> wh_db" where
  "InsertWebhook failed agents now w db =
     (if failed \<or> wh_AgentName w \<notin> set agents \<or>
         (\<exists>x \<in> set (wd_hooks db). wh_AgentName x = wh_AgentName w \<and> wh_URL x = wh_URL w)
      then (Inl WhStatementFailed, db)
      else let i = wd_hook_seq db + 1;
               row = w\<lparr>wh_ID := i, wh_ConsecutiveFailures := 0, wh_CreatedAt := now, wh_UpdatedAt := now\<rparr>
        in (Inr (w\<lparr>wh_ID := i\<rparr>), db\<lparr>wd_hooks := wd_hooks db @ [row], wd_hook_seq := i\<rparr>))"

definition GetWebhookByID :: "bool \<Rightarrow> id64 \<Rightarrow> wh_db \<Rightarrow> wh_error + Webhook" where
  "GetWebhookByID failed i db =
     (if failed then Inl WhStatementFailed
      else case find_row (\<lambda>w. wh_ID w = i) (wd_hooks db) of None \<Rightarrow> Inl WebhookNotFound | Some w \<Rightarrow> Inr w)"

definition GetWebhooksByAgent :: "string \<Rightarrow> wh_db \<Rightarrow> Webhook list" where
  "GetWebhooksByAgent agent db = sort_key wh_CreatedAt (filter (\<lambda>w. wh_AgentName w = agent) (wd_hooks db))"

definition GetActiveWebhooksByEvent :: "bool \<Rightarrow> string \<Rightarrow> string \<Rightarrow> wh_db \<Rightarrow> wh_error + Webhook list" where
  "GetActiveWebhooksByEvent failed agent event db =
     (if failed then Inl WhStatementFailed
      else Inr (filter (\<lambda>w. list_ex (\<lambda>e. e = event) (wh_Events w))
        (sort_key wh_CreatedAt (filter (\<lambda>w. wh_AgentName w = agent \<and> wh_Status w = WActive) (wd_hooks db)))))"

definition UpdateWebhookStatus :: "bool \<Rightarrow> timestamp \<Rightarrow> id64 \<Rightarrow> webhook_status \<Rightarrow> wh_db \<Rightarrow> (wh_error + unit) \<times> wh_db" where
  "UpdateWebhookStatus failed now i st db =
     (if failed then (Inl WhStatementFailed, db)
      else let db' = db\<lparr>wd_hooks := update_where (\<lambda>w. wh_ID w = i)
             (\<lambda>w. w\<lparr>wh_Status := st, wh_UpdatedAt := now\<rparr>) (wd_hooks db)\<rparr>
        in if rows_affected (\<lambda>w. wh_ID w = i) (wd_hooks db) = 0 then (Inl WebhookNotFound, db') else (Inr (), db'))"

text \<open>The update and the query of the new value are two statements.\<close>

definition IncrementConsecutiveFailures ::
  "bool \<Rightarrow> bool \<Rightarrow> timestamp \<Rightarrow> id64 \<Rightarrow> wh_db \<Rightarrow> (wh_error + int) \<times> wh_db" where
  "IncrementConsecutiveFailures failed failed_read now i db =
     (if failed then (Inl WhStatementFailed, db)
      else let db' = db\<lparr>wd_hooks := update_where (\<lambda>w. wh_ID w = i)
             (\<lambda>w. w\<lparr>wh_ConsecutiveFailures := wh_ConsecutiveFailures w + 1, wh_UpdatedAt := now\<rparr>) (wd_hooks db)\<rparr>
        in if failed_read then (Inl WhStatementFailed, db')
           else case find_row (\<lambda>w. wh_ID w = i) (wd_hooks db') of
                  None \<Rightarrow> (Inl WebhookNotFound, db')
                | Some w \<Rightarrow> (Inr (wh_ConsecutiveFailures w), db'))"

definition ResetConsecutiveFailures :: "bool \<Rightarrow> timestamp \<Rightarrow> id64 \<Rightarrow> wh_db \<Rightarrow> (wh_error + unit) \<times> wh_db" where
  "ResetConsecutiveFailures failed now i db =
     (if failed then (Inl WhStatementFailed, db)
      else (Inr (), db\<lparr>wd_hooks := update_where (\<lambda>w. wh_ID w = i)
             (\<lambda>w. w\<lparr>wh_ConsecutiveFailures := 0, wh_UpdatedAt := now\<rparr>) (wd_hooks db)\<rparr>))"

text \<open>Deliveries of a deleted webhook go with it.\<close>

definition store_DeleteWebhook :: "bool \<Rightarrow> id64 \<Rightarrow> string \<Rightarrow> wh_db \<Rightarrow> (wh_error + unit) \<times> wh_db" where
  "store_DeleteWebhook failed i agent db =
     (let hit = (\<lambda>w. wh_ID w = i \<and> wh_AgentName w = agent) in
      if failed then (Inl WhStatementFailed, db)
      else if rows_affected hit (wd_hooks db) = 0 then (Inl WebhookNotFound, db)
      else (Inr (), db\<lparr>wd_hooks := delete_where hit (wd_hooks db),
               wd_dels := delete_where (\<lambda>d. dv_WebhookID d = i) (wd_dels db)\<rparr>))"

definition CountWebhooksByAgent :: "bool \<Rightarrow> string \<Rightarrow> wh_db \<Rightarrow> wh_error + nat" where
  "CountWebhooksByAgent failed agent db =
     (if failed then Inl WhStatementFailed
      else Inr (length (filter (\<lambda>w. wh_AgentName w = agent) (wd_hooks db))))"

definition InsertDelivery :: "bool \<Rightarrow> timestamp \<Rightarrow> WebhookDelivery \<Rightarrow> wh_db \<Rightarrow> (wh_error + WebhookDelivery) \<times> wh_db" where
  "InsertDelivery failed now d db =
     (if failed \<or> dv_WebhookID d \<notin> set (map wh_ID (wd_hooks db)) then (Inl WhStatementFailed, db)
      else let i = wd_del_seq db + 1 in
        (Inr (d\<lparr>dv_ID := i\<rparr>),
         db\<lparr>wd_dels := wd_dels db @ [d\<lparr>dv_ID := i, dv_CreatedAt := now\<rparr>], wd_del_seq := i\<rparr>))"

definition UpdateDeliveryStatus ::
  "bool \<Rightarrow> id64 \<Rightarrow> delivery_status \<Rightarrow> int \<Rightarrow> string \<Rightarrow> timestamp option \<Rightarrow> timestamp option \<Rightarrow> wh_db \<Rightarrow>
   (wh_error + unit) \<times> wh_db" where
  "UpdateDeliveryStatus failed i st http err nextRetry delivered db =
     (if failed then (Inl WhStatementFailed, db)
      else let db' = db\<lparr>wd_dels := update_where (\<lambda>d. dv_ID d = i)
             (\<lambda>d. d\<lparr>dv_Status := st, dv_HTTPStatus := http, dv_LastError := err, dv_NextRetryAt := nextRetry,
                    dv_DeliveredAt := delivered\<rparr>) (wd_dels db)\<rparr>
        in if rows_affected (\<lambda>d. dv_ID d = i) (wd_dels db) = 0 then (Inl DeliveryNotFound, db') else (Inr (), db'))"

definition UpdateDeliveryAttempts :: "bool \<Rightarrow> id64 \<Rightarrow> int \<Rightarrow> wh_db \<Rightarrow> (wh_error + unit) \<times> wh_db" where
  "UpdateDeliveryAttempts failed i n db =
     (if failed then (Inl WhStatementFailed, db)
      else let db' = db\<lparr>wd_dels := update_where (\<lambda>d. dv_ID d = i) (\<lambda>d. d\<lparr>dv_Attempts := n\<rparr>) (wd_dels db)\<rparr>
        in if rows_affected (\<lambda>d. dv_ID d = i) (wd_dels db) = 0 then (Inl DeliveryNotFound, db') else (Inr (), db'))"

definition fifty :: "int \<Rightarrow> int" where
  "fifty limit = (if limit \<le> 0 then 50 else limit)"

definition GetPendingDeliveries :: "bool \<Rightarrow> int \<Rightarrow> wh_db \<Rightarrow> wh_error + WebhookDelivery list" where
  "GetPendingDeliveries failed limit db =
     (if failed then Inl WhStatementFailed
      else Inr (limit_offset (fifty limit) 0
        (sort_key dv_CreatedAt (filter (\<lambda>d. dv_Status d = DPending) (wd_dels db)))))"

definition due :: "timestamp \<Rightarrow> WebhookDelivery \<Rightarrow> bool" where
  "due now d \<longleftrightarrow> dv_Status d = DRetrying \<and> (case dv_NextRetryAt d of None \<Rightarrow> False | Some t \<Rightarrow> t \<le> now)"

definition GetRetryableDeliveries :: "bool \<Rightarrow> timestamp \<Rightarrow> int \<Rightarrow> wh_db \<Rightarrow> wh_error + WebhookDelivery list" where
  "GetRetryableDeliveries failed now limit db =
     (if failed then Inl WhStatementFailed
      else Inr (limit_offset (fifty limit) 0
        (sort_key (\<lambda>d. the (dv_NextRetryAt d)) (filter (due now) (wd_dels db)))))"

definition delivery_status_text :: "delivery_status \<Rightarrow> string" where
  "delivery_status_text st =
     (case st of DPending \<Rightarrow> ''pending'' | DDelivered \<Rightarrow> ''delivered'' | DRetrying \<Rightarrow> ''retrying''
      | DDeadLettered \<Rightarrow> ''dead_lettered'')"

definition GetDeliveriesByAgent :: "string \<Rightarrow> string \<Rightarrow> int \<Rightarrow> wh_db \<Rightarrow> WebhookDelivery list" where
  "GetDeliveriesByAgent agent status limit db =
     limit_offset (fifty limit) 0 (sort_key (\<lambda>d. - dv_CreatedAt d)
       (filter (\<lambda>d. dv_AgentName d = agent \<and> (status \<noteq> '''' \<longrightarrow> delivery_status_text (dv_Status d) = status))
         (wd_dels db)))"

definition GetDeliveryByID :: "id64 \<Rightarrow> wh_db \<Rightarrow> wh_error + WebhookDelivery" where
  "GetDeliveryByID i db =
     (case find_row (\<lambda>d. dv_ID d = i) (wd_dels db) of None \<Rightarrow> Inl DeliveryNotFound | Some d \<Rightarrow> Inr d)"

definition PurgeOldDeadLetters :: "bool \<Rightarrow> timestamp \<Rightarrow> wh_db \<Rightarrow> (wh_error + nat) \<times> wh_db" where
  "PurgeOldDeadLetters failed olderThan db =
     (let hit = (\<lambda>d. dv_Status d = DDeadLettered \<and> dv_CreatedAt d < olderThan) in
      if failed then (Inl WhStatementFailed, db)
      else (Inr (rows_affected hit (wd_dels db)), db\<lparr>wd_dels := delete_where hit (wd_dels db)\<rparr>))"

section \<open>Service\<close>

definition MaxWebhooksPerAgent :: nat where
  "MaxWebhooksPerAgent = 3"

definition MaxDepth :: int where
  "MaxDepth = 5"

definition AutoDisableThreshold :: int where
  "AutoDisableThreshold = 50"

datatype wh_stmt =
    WCount | WInsert | WDelete | WActiveQuery | WIncrement | WReadFailures | WDisable | WReset
  | WInsertDelivery id64 | WAttempts | WStatus | WPendingQuery | WRetryQuery | WGetHook id64 | WPurge

text \<open>\<open>rawURL\<close> is the text that is stored, \<open>url\<close> its parse; \<open>sha\<close> is the hexadecimal SHA-256.\<close>

definition RegisterWebhook ::
  "(wh_stmt \<Rightarrow> bool) \<Rightarrow> (string \<Rightarrow> string) \<Rightarrow> lookup \<Rightarrow> bool \<Rightarrow> bool \<Rightarrow> string list \<Rightarrow> timestamp \<Rightarrow>
   string \<Rightarrow> string \<Rightarrow> parsed_url option \<Rightarrow> string list \<Rightarrow> string \<Rightarrow> wh_db \<Rightarrow> (wh_error + Webhook) \<times> wh_db" where
  "RegisterWebhook flt sha resolve allowHTTP allowPrivate agents now agent rawURL url events secret db =
     (case find (\<lambda>e. \<not> IsValidEvent e) events of
        Some e \<Rightarrow> (Inl (InvalidEvent e), db)
      | None \<Rightarrow>
          if events = [] then (Inl NoEvents, db)
          else (case ValidateWebhookURL resolve url allowHTTP allowPrivate of
                  Some e \<Rightarrow> (Inl e, db)
                | None \<Rightarrow>
                    (case CountWebhooksByAgent (flt WCount) agent db of
                       Inl e \<Rightarrow> (Inl e, db)
                     | Inr n \<Rightarrow>
                         if MaxWebhooksPerAgent \<le> n then (Inl (TooManyWebhooks n), db)
                         else InsertWebhook (flt WInsert) agents now
                                \<lparr>wh_ID = 0, wh_AgentName = agent, wh_URL = rawURL, wh_Events = events,
                                 wh_SecretHash = sha secret, wh_Status = WActive, wh_ConsecutiveFailures = 0,
                                 wh_CreatedAt = 0, wh_UpdatedAt = 0\<rparr> db)))"

definition DeleteWebhook :: "(wh_stmt \<Rightarrow> bool) \<Rightarrow> string \<Rightarrow> id64 \<Rightarrow> wh_db \<Rightarrow> (wh_error + unit) \<times> wh_db" where
  "DeleteWebhook flt agent i db = store_DeleteWebhook (flt WDelete) i agent db"

definition RecordFailure :: "(wh_stmt \<Rightarrow> bool) \<Rightarrow> timestamp \<Rightarrow> id64 \<Rightarrow> wh_db \<Rightarrow> (wh_error + unit) \<times> wh_db" where
  "RecordFailure flt now i db =
     (case IncrementConsecutiveFailures (flt WIncrement) (flt WReadFailures) now i db of
        (Inl e, db') \<Rightarrow> (Inl e, db')
      | (Inr n, db') \<Rightarrow>
          if AutoDisableThreshold \<le> n then UpdateWebhookStatus (flt WDisable) now i WDisabled db'
          else (Inr (), db'))"

section \<open>Delivery engine\<close>

definition maxAttempts :: int where
  "maxAttempts = 3"

definition defaultWorkers :: nat where
  "defaultWorkers = 8"

definition queueSize :: nat where
  "queueSize = 1000"

definition retryIntervals :: "int list" where
  "retryIntervals = [1, 5, 30]"

type_synonym work = "WebhookDelivery \<times> Webhook"

record engine =
  eg_db :: wh_db
  eg_queue :: "work list"
  eg_waiting :: "work list"
  eg_busy :: "work list"

text \<open>The send on the queue channel with a \<open>default\<close> case: dropped when the queue is full.\<close>

definition enqueue :: "work \<Rightarrow> work list \<Rightarrow> work list" where
  "enqueue w q = (if length q < queueSize then q @ [w] else q)"

definition payload_of :: "timestamp \<Rightarrow> MessageEvent \<Rightarrow> DeliveryPayload" where
  "payload_of now ev =
     \<lparr>dp_Event = ev_EventType ev, dp_MessageID = ev_MessageID ev, dp_FromAgent = ev_FromAgent ev,
      dp_ToAgent = ev_ToAgent ev, dp_Channel = ev_Channel ev, dp_Body = ev_Body ev, dp_Priority = ev_Priority ev,
      dp_Metadata = ev_Metadata ev, dp_Timestamp = now\<rparr>"

definition new_delivery :: "timestamp \<Rightarrow> MessageEvent \<Rightarrow> Webhook \<Rightarrow> WebhookDelivery" where
  "new_delivery now ev w =
     \<lparr>dv_ID = 0, dv_WebhookID = wh_ID w, dv_AgentName = wh_AgentName w, dv_Event = ev_EventType ev,
      dv_MessageID = ev_MessageID ev, dv_Payload = payload_of now ev, dv_Status = DPending, dv_HTTPStatus = 0,
      dv_Attempts = 0, dv_MaxAttempts = maxAttempts, dv_LastError = '''', dv_NextRetryAt = None,
      dv_Depth = ev_Depth ev, dv_CreatedAt = 0, dv_DeliveredAt = None\<rparr>"

fun dispatch_each ::
  "(wh_stmt \<Rightarrow> bool) \<Rightarrow> timestamp \<Rightarrow> MessageEvent \<Rightarrow> Webhook list \<Rightarrow> engine \<Rightarrow> engine" where
  "dispatch_each flt now ev [] s = s"
| "dispatch_each flt now ev (w # ws) s =
     dispatch_each flt now ev ws
       (case InsertDelivery (flt (WInsertDelivery (wh_ID w))) now (new_delivery now ev w) (eg_db s) of
          (Inl e, db) \<Rightarrow> s\<lparr>eg_db := db\<rparr>
        | (Inr d, db) \<Rightarrow> s\<lparr>eg_db := db, eg_queue := enqueue (d, w) (eg_queue s)\<rparr>)"

definition Dispatch :: "(wh_stmt \<Rightarrow> bool) \<Rightarrow> timestamp \<Rightarrow> MessageEvent \<Rightarrow> engine \<Rightarrow> (wh_error + unit) \<times> engine" where
  "Dispatch flt now ev s =
     (if MaxDepth \<le> ev_Depth ev then (Inr (), s)
      else if ev_ToAgent ev = '''' \<and> ev_Channel ev \<noteq> '''' then (Inr (), s)
      else case GetActiveWebhooksByEvent (flt WActiveQuery) (ev_ToAgent ev) (ev_EventType ev) (eg_db s) of
             Inl e \<Rightarrow> (Inl e, s)
           | Inr ws \<Rightarrow> if ws = [] then (Inr (), s) else (Inr (), dispatch_each flt now ev ws s))"

definition mention_event :: "MessageEvent \<Rightarrow> string \<Rightarrow> MessageEvent" where
  "mention_event ev a =
     ev\<lparr>ev_EventType := ''message.mentioned'', ev_ToAgent := a, ev_MentionedAgents := []\<rparr>"

definition DispatchMentions ::
  "(string \<Rightarrow> wh_stmt \<Rightarrow> bool) \<Rightarrow> timestamp \<Rightarrow> MessageEvent \<Rightarrow> engine \<Rightarrow> engine" where
  "DispatchMentions flt now ev s =
     fold (\<lambda>a s. snd (Dispatch (flt a) now (mention_event ev a) s)) (ev_MentionedAgents ev) s"

text \<open>
  A worker takes the first element and waits for the rate limiter of the agent, the workers
  independently of each other: any of the waiting ones may go on next.
\<close>

definition take_work :: "engine \<Rightarrow> engine" where
  "take_work s =
     (case eg_queue s of [] \<Rightarrow> s | x # q \<Rightarrow> s\<lparr>eg_queue := q, eg_waiting := eg_waiting s @ [x]\<rparr>)"

text \<open>
  The \<open>k\<close>-th of the waiting ones goes on. An error of the limiter drops its delivery; otherwise
  the attempt is counted, in the copy and in the table, and the request goes out.
\<close>

definition start_delivery :: "(wh_stmt \<Rightarrow> bool) \<Rightarrow> bool \<Rightarrow> nat \<Rightarrow> engine \<Rightarrow> engine" where
  "start_delivery flt limiter_error k s =
     (case eg_waiting s ! k of (d, w) \<Rightarrow>
        if limiter_error then s\<lparr>eg_waiting := remove_nth k (eg_waiting s)\<rparr>
        else let d' = d\<lparr>dv_Attempts := dv_Attempts d + 1\<rparr> in
          s\<lparr>eg_db := snd (UpdateDeliveryAttempts (flt WAttempts) (dv_ID d) (dv_Attempts d') (eg_db s)),
            eg_waiting := remove_nth k (eg_waiting s), eg_busy := eg_busy s @ [(d', w)]\<rparr>)"

text \<open>\<open>retryIntervals[retryIdx]\<close> panics for a negative index.\<close>

definition retry_interval :: "int \<Rightarrow> int option" where
  "retry_interval attempts =
     (let i = attempts - 1;
          j = (if int (length retryIntervals) \<le> i then int (length retryIntervals) - 1 else i)
      in if j < 0 then None else Some (retryIntervals ! nat j))"

definition recordFailure ::
  "(wh_stmt \<Rightarrow> bool) \<Rightarrow> timestamp \<Rightarrow> WebhookDelivery \<Rightarrow> Webhook \<Rightarrow> int \<Rightarrow> string \<Rightarrow> wh_db \<Rightarrow> wh_db" where
  "recordFailure flt now d w http err db =
     (if dv_Attempts d < dv_MaxAttempts d then
        (case retry_interval (dv_Attempts d) of
           None \<Rightarrow> db
         | Some t \<Rightarrow> snd (UpdateDeliveryStatus (flt WStatus) (dv_ID d) DRetrying http err (Some (now + t)) None db))
      else snd (RecordFailure flt now (wh_ID w)
             (snd (UpdateDeliveryStatus (flt WStatus) (dv_ID d) DDeadLettered http err None None db))))"

text \<open>What came back: a request that could not be built or sent, or an HTTP status.\<close>

datatype outcome = RequestError string | Response int

definition finish_delivery :: "(wh_stmt \<Rightarrow> bool) \<Rightarrow> timestamp \<Rightarrow> outcome \<Rightarrow> work \<Rightarrow> wh_db \<Rightarrow> wh_db" where
  "finish_delivery flt now res dw db =
     (case dw of (d, w) \<Rightarrow>
      (case res of
         RequestError e \<Rightarrow> recordFailure flt now d w 0 e db
       | Response code \<Rightarrow>
           if 200 \<le> code \<and> code < 300 then
             snd (ResetConsecutiveFailures (flt WReset) now (wh_ID w)
               (snd (UpdateDeliveryStatus (flt WStatus) (dv_ID d) DDelivered code '''' None (Some now) db)))
           else recordFailure flt now d w code (''HTTP '' @ show_int code) db))"

fun requeue_each :: "(wh_stmt \<Rightarrow> bool) \<Rightarrow> wh_db \<Rightarrow> WebhookDelivery list \<Rightarrow> work list \<Rightarrow> work list" where
  "requeue_each flt db [] q = q"
| "requeue_each flt db (d # ds) q =
     requeue_each flt db ds
       (case GetWebhookByID (flt (WGetHook (dv_ID d))) (dv_WebhookID d) db of
          Inl e \<Rightarrow> q
        | Inr w \<Rightarrow> enqueue (d, w) q)"

definition requeuePending :: "(wh_stmt \<Rightarrow> bool) \<Rightarrow> engine \<Rightarrow> engine" where
  "requeuePending flt s =
     (case GetPendingDeliveries (flt WPendingQuery) 100 (eg_db s) of
        Inl e \<Rightarrow> s
      | Inr ds \<Rightarrow> s\<lparr>eg_queue := requeue_each flt (eg_db s) ds (eg_queue s)\<rparr>)"

definition processRetries :: "(wh_stmt \<Rightarrow> bool) \<Rightarrow> timestamp \<Rightarrow> engine \<Rightarrow> engine" where
  "processRetries flt now s =
     (case GetRetryableDeliveries (flt WRetryQuery) now 50 (eg_db s) of
        Inl e \<Rightarrow> s
      | Inr ds \<Rightarrow> s\<lparr>eg_queue := requeue_each flt (eg_db s) ds (eg_queue s)\<rparr>)"

definition purge_dead_letters :: "(wh_stmt \<Rightarrow> bool) \<Rightarrow> timestamp \<Rightarrow> engine \<Rightarrow> engine" where
  "purge_dead_letters flt now s =
     s\<lparr>eg_db := snd (PurgeOldDeadLetters (flt WPurge) (now - 30 * 24 * 60 * 60) (eg_db s))\<rparr>"

text \<open>A new process: the queue and the workers start empty, the pending deliveries are queued.\<close>

definition engine_start :: "(wh_stmt \<Rightarrow> bool) \<Rightarrow> engine \<Rightarrow> engine" where
  "engine_start flt s = requeuePending flt (s\<lparr>eg_queue := [], eg_waiting := [], eg_busy := []\<rparr>)"

inductive engine_step :: "engine \<Rightarrow> engine \<Rightarrow> bool" where
  register: "engine_step s (s\<lparr>eg_db := snd (RegisterWebhook flt sha resolve ah ap agents now a raw url evs sec (eg_db s))\<rparr>)"
| delete: "engine_step s (s\<lparr>eg_db := snd (DeleteWebhook flt a i (eg_db s))\<rparr>)"
| dispatch: "engine_step s (snd (Dispatch flt now ev s))"
| take: "length (eg_waiting s) + length (eg_busy s) < defaultWorkers \<Longrightarrow> engine_step s (take_work s)"
| start: "k < length (eg_waiting s) \<Longrightarrow> engine_step s (start_delivery flt err k s)"
| finish: "k < length (eg_busy s) \<Longrightarrow>
    engine_step s (s\<lparr>eg_db := finish_delivery flt now res (eg_busy s ! k) (eg_db s), eg_busy := remove_nth k (eg_busy s)\<rparr>)"
| poll: "engine_step s (processRetries flt now s)"
| purge: "engine_step s (purge_dead_letters flt now s)"
| restart: "engine_step s (engine_start flt s)"

section \<open>Private addresses\<close>

lemma uint_drop_bit: "uint (drop_bit n w) = uint w div 2 ^ n" for w :: "'a::len word"
  by (simp only: unsigned_drop_bit_eq) (simp add: drop_bit_eq_div take_bit_int_eq_self)

lemma drop_bit_range:
  "drop_bit n w = drop_bit n b \<longleftrightarrow> uint w div 2 ^ n = uint b div 2 ^ n" for w b :: "'a::len word"
  unfolding word_uint_eq_iff uint_drop_bit ..

lemma div_range: "0 < (m :: int) \<Longrightarrow> x div m = k \<longleftrightarrow> k * m \<le> x \<and> x < k * m + m"
proof -
  assume m: "0 < m"
  show ?thesis
  proof
    assume "x div m = k"
    with m show "k * m \<le> x \<and> x < k * m + m"
      by (metis add.commute mult.commute mult_div_mod_eq pos_mod_bound pos_mod_sign le_add_same_cancel1 add_less_cancel_left)
  next
    assume "k * m \<le> x \<and> x < k * m + m"
    then have "x = k * m + (x - k * m)" "0 \<le> x - k * m" "x - k * m < m" by simp_all
    with m show "x div m = k" by (metis div_mult_self3 div_pos_pos_trivial add.right_neutral less_irrefl)
  qed
qed

lemma uint_v4: "uint (v4 w) = 0xFFFF00000000 + uint w"
proof -
  have w: "0 \<le> uint w" "uint w < 2 ^ 32" using uint_lt2p [of w] by simp_all
  have u: "uint (ucast w :: ip) = uint w" using w by (simp add: unsigned_ucast_eq take_bit_int_eq_self)
  show ?thesis
    unfolding v4_def uint_word_ariths(1) u using w by (simp add: take_bit_int_eq_self)
qed

lemma to4_v4: "to4 (v4 w) = Some w"
proof -
  have w: "0 \<le> uint w" "uint w < 4294967296" using uint_lt2p [of w] by simp_all
  have "uint (drop_bit 32 (v4 w)) = uint (0xFFFF :: ip)"
    unfolding uint_drop_bit uint_v4 using w div_range [of "2 ^ 32" "0xFFFF00000000 + uint w" "0xFFFF"] by simp
  then have "drop_bit 32 (v4 w) = 0xFFFF" by (simp only: word_uint_eq_iff)
  moreover have "uint (ucast (v4 w) :: 32 word) = uint w"
    using w mod_mult_self3 [of 65535 4294967296 "uint w"]
    by (simp add: unsigned_ucast_eq uint_v4 take_bit_eq_mod)
  then have "(ucast (v4 w) :: 32 word) = w" by (simp only: word_uint_eq_iff)
  ultimately show ?thesis by (simp add: to4_def)
qed

text \<open>The private IPv4 addresses: 10/8, 172.16/12, 192.168/16, 127/8 and 169.254/16.\<close>

definition private4 :: "int set" where
  "private4 = {0x0A000000 .. 0x0AFFFFFF} \<union> {0xAC100000 .. 0xAC1FFFFF} \<union> {0xC0A80000 .. 0xC0A8FFFF} \<union>
     {0x7F000000 .. 0x7FFFFFFF} \<union> {0xA9FE0000 .. 0xA9FEFFFF}"

text \<open>The private IPv6 addresses: \<open>::1\<close>, \<open>fc00::/7\<close> and \<open>fe80::/10\<close>.\<close>

definition private6 :: "int set" where
  "private6 = {1} \<union> {0xFC000000000000000000000000000000 .. 0xFDFFFFFFFFFFFFFFFFFFFFFFFFFFFFFF} \<union>
     {0xFE800000000000000000000000000000 .. 0xFEBFFFFFFFFFFFFFFFFFFFFFFFFFFFFF}"

lemma net4_contains:
  "net_contains (Net4 b l) (v4 w) \<longleftrightarrow> uint b div 2 ^ (32 - l) * 2 ^ (32 - l) \<le> uint w \<and>
     uint w < uint b div 2 ^ (32 - l) * 2 ^ (32 - l) + 2 ^ (32 - l)"
  unfolding net_contains.simps to4_v4 option.case drop_bit_range by (rule div_range) simp

lemma net6_contains:
  "to4 a = None \<Longrightarrow> net_contains (Net6 b l) a \<longleftrightarrow> uint b div 2 ^ (128 - l) * 2 ^ (128 - l) \<le> uint a \<and>
     uint a < uint b div 2 ^ (128 - l) * 2 ^ (128 - l) + 2 ^ (128 - l)"
  unfolding net_contains.simps by (simp only: option.case drop_bit_range) (rule div_range, simp)

lemma other_family:
  "\<not> net_contains (Net6 b l) (v4 w)" "to4 a = None \<Longrightarrow> \<not> net_contains (Net4 b' l) a"
  by (simp_all add: to4_v4)

lemma private_v4: "IsPrivateIP (v4 w) \<longleftrightarrow> uint w \<in> private4"
  unfolding IsPrivateIP_def privateRanges_def private4_def list_ex_iff set_simps bex_simps net4_contains
  by (simp add: other_family(1) del: net_contains.simps) arith

lemma private_v6:
  assumes a: "to4 a = None"
  shows "IsPrivateIP a \<longleftrightarrow> uint a \<in> private6"
proof -
  have "IsPrivateIP a \<longleftrightarrow> net_contains (Net6 1 128) a \<or> net_contains (Net6 0xFC000000000000000000000000000000 7) a \<or>
      net_contains (Net6 0xFE800000000000000000000000000000 10) a"
    unfolding IsPrivateIP_def privateRanges_def list_ex_iff set_simps bex_simps using other_family(2) [OF a] by blast
  also have "\<dots> \<longleftrightarrow> uint a \<in> private6"
    unfolding net6_contains [OF a] private6_def by simp arith
  finally show ?thesis .
qed

lemma to4_Some: "to4 a = Some w \<Longrightarrow> a = v4 w"
proof -
  assume a: "to4 a = Some w"
  then have "uint (drop_bit 32 a) = uint (0xFFFF :: ip)" "w = ucast a" by (simp_all add: to4_def split: if_splits)
  then have d: "uint a div 4294967296 = 65535" and w: "uint w = uint a mod 4294967296"
    by (simp_all add: uint_drop_bit unsigned_ucast_eq take_bit_eq_mod)
  have "uint a = 65535 * 4294967296 + uint w" using d w by (metis div_mult_mod_eq)
  then have "uint a = uint (v4 w)" by (simp add: uint_v4)
  then show ?thesis by (simp only: word_uint_eq_iff)
qed

section \<open>Invariant of the engine\<close>

definition hook_core :: "Webhook \<Rightarrow> id64 \<times> string \<times> string \<times> string list" where
  "hook_core w = (wh_ID w, wh_AgentName w, wh_URL w, wh_Events w)"

definition del_core :: "WebhookDelivery \<Rightarrow> id64 \<times> id64 \<times> string \<times> string \<times> id64 \<times> DeliveryPayload \<times> int \<times> int" where
  "del_core d = (dv_ID d, dv_WebhookID d, dv_AgentName d, dv_Event d, dv_MessageID d, dv_Payload d, dv_Depth d, dv_MaxAttempts d)"

text \<open>A delivery that the webhook may receive: an event it is registered for, of its owner.\<close>

definition work_ok :: "WebhookDelivery \<Rightarrow> Webhook \<Rightarrow> bool" where
  "work_ok d w \<longleftrightarrow> dv_WebhookID d = wh_ID w \<and> dv_Event d \<in> set (wh_Events w) \<and> dv_AgentName d = wh_AgentName w \<and>
     dp_ToAgent (dv_Payload d) = wh_AgentName w \<and> dp_Event (dv_Payload d) = dv_Event d \<and>
     dp_MessageID (dv_Payload d) = dv_MessageID d \<and> dv_Depth d < MaxDepth \<and> dv_MaxAttempts d = maxAttempts"

definition hooks_inv :: "id64 \<Rightarrow> Webhook list \<Rightarrow> bool" where
  "hooks_inv sq ws \<longleftrightarrow> ids_ok wh_ID sq ws \<and> distinct (map (\<lambda>w. (wh_AgentName w, wh_URL w)) ws) \<and>
     (\<forall>a. length (filter (\<lambda>w. wh_AgentName w = a) ws) \<le> MaxWebhooksPerAgent) \<and>
     (\<forall>w \<in> set ws. wh_Events w \<noteq> [] \<and> list_all IsValidEvent (wh_Events w))"

definition wh_inv :: "wh_db \<Rightarrow> bool" where
  "wh_inv db \<longleftrightarrow> hooks_inv (wd_hook_seq db) (wd_hooks db) \<and> ids_ok dv_ID (wd_del_seq db) (wd_dels db) \<and>
     (\<forall>d \<in> set (wd_dels db). \<exists>w \<in> set (wd_hooks db). work_ok d w)"

definition engine_inv :: "engine \<Rightarrow> bool" where
  "engine_inv s \<longleftrightarrow> wh_inv (eg_db s) \<and>
     (\<forall>(d, w) \<in> set (eg_queue s) \<union> set (eg_waiting s) \<union> set (eg_busy s). work_ok d w) \<and>
     length (eg_queue s) \<le> queueSize \<and> length (eg_waiting s) + length (eg_busy s) \<le> defaultWorkers"

definition wh_empty :: wh_db where
  "wh_empty = \<lparr>wd_hooks = [], wd_hook_seq = 0, wd_dels = [], wd_del_seq = 0\<rparr>"

definition engine_empty :: engine where
  "engine_empty = \<lparr>eg_db = wh_empty, eg_queue = [], eg_waiting = [], eg_busy = []\<rparr>"

lemma engine_empty_inv: "engine_inv engine_empty"
  by (simp add: engine_inv_def engine_empty_def wh_inv_def wh_empty_def hooks_inv_def)

lemma work_ok_core:
  "del_core d' = del_core d \<Longrightarrow> hook_core w' = hook_core w \<Longrightarrow> work_ok d' w' = work_ok d w"
  by (simp add: work_ok_def del_core_def hook_core_def)

lemma map_filter_core:
  "(\<And>w. hook_core (f w) = hook_core w) \<Longrightarrow>
   length (filter (\<lambda>w. wh_AgentName w = a) (update_where P f ws)) = length (filter (\<lambda>w. wh_AgentName w = a) ws)"
  by (induction ws) (auto simp: hook_core_def)

lemma hooks_inv_update:
  assumes inv: "hooks_inv sq ws" and f: "\<And>w. hook_core (f w) = hook_core w"
  shows "hooks_inv sq (update_where P f ws)"
proof -
  have f': "wh_ID (f w) = wh_ID w" "(wh_AgentName (f w), wh_URL (f w)) = (wh_AgentName w, wh_URL w)"
    "wh_Events (f w) = wh_Events w" for w using f [of w] by (auto simp: hook_core_def)
  have "map (\<lambda>w. (wh_AgentName w, wh_URL w)) (update_where P f ws) = map (\<lambda>w. (wh_AgentName w, wh_URL w)) ws"
    using f'(2) by (intro map_update_where) simp
  moreover have "wh_Events w \<noteq> [] \<and> list_all IsValidEvent (wh_Events w)" if "w \<in> set (update_where P f ws)" for w
  proof -
    from that obtain x where x: "x \<in> set ws" "w = (if P x then f x else x)" by (auto simp: in_update_where)
    then have "wh_Events w = wh_Events x" using f'(3) by simp
    with x(1) inv show ?thesis by (auto simp: hooks_inv_def)
  qed
  ultimately show ?thesis using inv f'(1)
    by (simp add: hooks_inv_def ids_ok_update_where map_filter_core [OF f])
qed

lemma wh_inv_hooks:
  assumes inv: "wh_inv db" and f: "\<And>w. hook_core (f w) = hook_core w"
  shows "wh_inv (db\<lparr>wd_hooks := update_where P f (wd_hooks db)\<rparr>)"
proof -
  have "\<exists>w \<in> set (update_where P f (wd_hooks db)). work_ok d w" if "d \<in> set (wd_dels db)" for d
  proof -
    from that inv obtain w where w: "w \<in> set (wd_hooks db)" "work_ok d w" by (auto simp: wh_inv_def)
    then have "work_ok d (if P w then f w else w)" using work_ok_core [OF refl f] by auto
    with updated_row [OF w(1), of P f] show ?thesis by blast
  qed
  with inv hooks_inv_update [OF _ f] show ?thesis by (simp add: wh_inv_def)
qed

lemma wh_inv_dels:
  assumes inv: "wh_inv db" and f: "\<And>d. del_core (f d) = del_core d"
  shows "wh_inv (db\<lparr>wd_dels := update_where P f (wd_dels db)\<rparr>)"
proof -
  have f': "dv_ID (f d) = dv_ID d" for d using f [of d] by (simp add: del_core_def)
  have "\<exists>w \<in> set (wd_hooks db). work_ok d w" if d: "d \<in> set (update_where P f (wd_dels db))" for d
  proof -
    from d obtain x where "x \<in> set (wd_dels db)" "d = (if P x then f x else x)" by (auto simp: in_update_where)
    with inv work_ok_core [OF f refl] show ?thesis by (auto simp: wh_inv_def)
  qed
  with inv f' show ?thesis by (simp add: wh_inv_def ids_ok_update_where)
qed

lemma wh_inv_delete_dels: "wh_inv db \<Longrightarrow> wh_inv (db\<lparr>wd_dels := delete_where P (wd_dels db)\<rparr>)"
  by (simp add: wh_inv_def ids_ok_delete_where)

lemmas hook_updates = UpdateWebhookStatus_def IncrementConsecutiveFailures_def ResetConsecutiveFailures_def
lemmas del_updates = UpdateDeliveryStatus_def UpdateDeliveryAttempts_def

lemma hook_updates_inv:
  assumes "wh_inv db"
  shows "wh_inv (snd (UpdateWebhookStatus f now i st db))" "wh_inv (snd (IncrementConsecutiveFailures f g now i db))"
    "wh_inv (snd (ResetConsecutiveFailures f now i db))"
  using assms by (auto simp: hook_updates Let_def hook_core_def intro!: wh_inv_hooks split: option.splits)

lemma del_updates_inv:
  assumes "wh_inv db"
  shows "wh_inv (snd (UpdateDeliveryStatus f i st h e nr dl db))" "wh_inv (snd (UpdateDeliveryAttempts f i n db))"
  using assms by (auto simp: del_updates Let_def del_core_def intro!: wh_inv_dels)

lemma RecordFailure_inv: "wh_inv db \<Longrightarrow> wh_inv (snd (RecordFailure flt now i db))"
  using hook_updates_inv(2) [of db "flt WIncrement" "flt WReadFailures" now i]
  by (auto simp: RecordFailure_def split: prod.splits sum.splits intro: hook_updates_inv(1))

lemma recordFailure_inv: "wh_inv db \<Longrightarrow> wh_inv (recordFailure flt now d w h e db)"
  by (auto simp: recordFailure_def split: option.splits intro: del_updates_inv RecordFailure_inv)

lemma finish_delivery_inv: "wh_inv db \<Longrightarrow> wh_inv (finish_delivery flt now res dw db)"
  by (auto simp: finish_delivery_def split: prod.splits outcome.splits
      intro: recordFailure_inv hook_updates_inv(3) del_updates_inv(1))

lemma InsertWebhook_inv:
  assumes inv: "wh_inv db" and w: "wh_Events w \<noteq> []" "list_all IsValidEvent (wh_Events w)"
    and n: "length (filter (\<lambda>x. wh_AgentName x = wh_AgentName w) (wd_hooks db)) < MaxWebhooksPerAgent"
  shows "wh_inv (snd (InsertWebhook f agents now w db))"
proof (cases "fst (InsertWebhook f agents now w db)")
  case (Inl e)
  then have "snd (InsertWebhook f agents now w db) = db"
    by (auto simp: InsertWebhook_def Let_def split: if_splits)
  with inv show ?thesis by simp
next
  case (Inr x)
  have "\<exists>x \<in> set (wd_hooks db @ [row]). work_ok d x" if "d \<in> set (wd_dels db)" for d row
    using that inv by (auto simp: wh_inv_def)
  with inv w n Inr show ?thesis
    by (auto simp: InsertWebhook_def Let_def wh_inv_def hooks_inv_def ids_ok_append split: if_splits)
qed

lemma RegisterWebhook_inv:
  assumes inv: "wh_inv db"
  shows "wh_inv (snd (RegisterWebhook flt sha rs ah ap agents now a raw url evs sec db))"
proof -
  have "list_all IsValidEvent evs" if "find (\<lambda>e. \<not> IsValidEvent e) evs = None"
    using that by (auto simp: find_None_iff list_all_iff)
  then show ?thesis
    using inv
    by (auto simp: RegisterWebhook_def CountWebhooksByAgent_def split: option.splits sum.splits
        intro!: InsertWebhook_inv)
qed

lemma store_DeleteWebhook_inv:
  assumes inv: "wh_inv db"
  shows "wh_inv (snd (store_DeleteWebhook f i a db))"
proof (cases "fst (store_DeleteWebhook f i a db)")
  case (Inl e)
  then have "snd (store_DeleteWebhook f i a db) = db"
    by (auto simp: store_DeleteWebhook_def Let_def split: if_splits)
  with inv show ?thesis by simp
next
  case (Inr u)
  let ?hit = "\<lambda>w. wh_ID w = i \<and> wh_AgentName w = a"
  have "hooks_inv (wd_hook_seq db) (delete_where ?hit (wd_hooks db))"
  proof -
    have "length (filter (\<lambda>w. wh_AgentName w = b) (delete_where ?hit (wd_hooks db))) \<le> MaxWebhooksPerAgent" for b
    proof -
      have "length (filter (\<lambda>w. wh_AgentName w = b) (delete_where ?hit ws)) \<le> length (filter (\<lambda>w. wh_AgentName w = b) ws)"
        for ws by (induction ws) (auto simp: delete_where_def)
      moreover have "length (filter (\<lambda>w. wh_AgentName w = b) (wd_hooks db)) \<le> MaxWebhooksPerAgent"
        using inv by (simp add: wh_inv_def hooks_inv_def)
      ultimately show ?thesis by (rule order_trans)
    qed
    moreover have "distinct (map (\<lambda>w. (wh_AgentName w, wh_URL w)) (delete_where ?hit (wd_hooks db)))"
      unfolding delete_where_def using inv by (simp add: wh_inv_def hooks_inv_def distinct_map_filter)
    ultimately show ?thesis using inv by (auto simp: wh_inv_def hooks_inv_def ids_ok_delete_where)
  qed
  moreover have "\<exists>w \<in> set (delete_where ?hit (wd_hooks db)). work_ok d w"
    if "d \<in> set (wd_dels db)" "dv_WebhookID d \<noteq> i" for d
    using that inv by (force simp: wh_inv_def work_ok_def)
  moreover have "snd (store_DeleteWebhook f i a db) = db\<lparr>wd_hooks := delete_where ?hit (wd_hooks db),
      wd_dels := delete_where (\<lambda>d. dv_WebhookID d = i) (wd_dels db)\<rparr>"
    using Inr by (auto simp: store_DeleteWebhook_def Let_def split: if_splits)
  ultimately show ?thesis using inv by (simp add: wh_inv_def ids_ok_delete_where)
qed

lemma InsertDelivery_result:
  "InsertDelivery f now d db = (Inr r, db') \<Longrightarrow>
   r = d\<lparr>dv_ID := wd_del_seq db + 1\<rparr> \<and> dv_WebhookID d \<in> wh_ID ` set (wd_hooks db) \<and>
   db' = db\<lparr>wd_dels := wd_dels db @ [d\<lparr>dv_ID := wd_del_seq db + 1, dv_CreatedAt := now\<rparr>], wd_del_seq := wd_del_seq db + 1\<rparr>"
  "InsertDelivery f now d db = (Inl e, db') \<Longrightarrow> db' = db"
  by (auto simp: InsertDelivery_def Let_def split: if_splits)

lemma work_ok_new:
  "wh_AgentName w = ev_ToAgent ev \<Longrightarrow> ev_EventType ev \<in> set (wh_Events w) \<Longrightarrow> ev_Depth ev < MaxDepth \<Longrightarrow>
   work_ok (new_delivery now ev w) w"
  by (simp add: work_ok_def new_delivery_def payload_of_def)

lemma work_ok_id [simp]:
  "work_ok (d\<lparr>dv_ID := i\<rparr>) w = work_ok d w" "work_ok (d\<lparr>dv_CreatedAt := t\<rparr>) w = work_ok d w"
  "work_ok (d\<lparr>dv_Attempts := n\<rparr>) w = work_ok d w"
  by (simp_all add: work_ok_def)

text \<open>The queue channel holds what it is sent until it is full.\<close>

lemma enqueue_inv:
  "length q \<le> queueSize \<Longrightarrow> length (enqueue x q) \<le> queueSize"
  "set (enqueue x q) \<subseteq> insert x (set q)"
  by (auto simp: enqueue_def)

lemma engine_inv_insert:
  assumes inv: "engine_inv s" and w: "w \<in> set (wd_hooks (eg_db s))" and ok: "work_ok d w"
    and ins: "InsertDelivery f now d (eg_db s) = (Inr r, db)"
  shows "engine_inv (s\<lparr>eg_db := db, eg_queue := enqueue (r, w) (eg_queue s)\<rparr>)"
proof -
  let ?row = "d\<lparr>dv_ID := wd_del_seq (eg_db s) + 1, dv_CreatedAt := now\<rparr>"
  from InsertDelivery_result(1) [OF ins] have r: "r = d\<lparr>dv_ID := wd_del_seq (eg_db s) + 1\<rparr>"
    and db: "db = (eg_db s)\<lparr>wd_dels := wd_dels (eg_db s) @ [?row], wd_del_seq := wd_del_seq (eg_db s) + 1\<rparr>" by auto
  have "wh_inv db"
    using inv w ok by (auto simp: db engine_inv_def wh_inv_def ids_ok_append)
  moreover have "work_ok r w" using ok by (simp add: r)
  ultimately show ?thesis
    using inv enqueue_inv(1) [of "eg_queue s" "(r, w)"] enqueue_inv(2) [of "(r, w)" "eg_queue s"]
    by (auto simp: engine_inv_def)
qed

lemma dispatch_each_inv:
  "engine_inv s \<Longrightarrow> set ws \<subseteq> set (wd_hooks (eg_db s)) \<Longrightarrow>
   (\<And>w. w \<in> set ws \<Longrightarrow> wh_AgentName w = ev_ToAgent ev \<and> ev_EventType ev \<in> set (wh_Events w)) \<Longrightarrow>
   ev_Depth ev < MaxDepth \<Longrightarrow> engine_inv (dispatch_each flt now ev ws s)"
proof (induction ws arbitrary: s)
  case (Cons w ws)
  obtain r db where ins: "InsertDelivery (flt (WInsertDelivery (wh_ID w))) now (new_delivery now ev w) (eg_db s) = (r, db)"
    by (cases "InsertDelivery (flt (WInsertDelivery (wh_ID w))) now (new_delivery now ev w) (eg_db s)") simp
  show ?case
  proof (cases r)
    case (Inl e)
    with Cons InsertDelivery_result(2) ins show ?thesis by fastforce
  next
    case (Inr d)
    note i = ins [unfolded Inr]
    have "work_ok (new_delivery now ev w) w" using Cons.prems by (intro work_ok_new) auto
    then have "engine_inv (s\<lparr>eg_db := db, eg_queue := enqueue (d, w) (eg_queue s)\<rparr>)"
      using Cons.prems by (intro engine_inv_insert [OF _ _ _ i]) auto
    moreover have "wd_hooks db = wd_hooks (eg_db s)" using InsertDelivery_result(1) [OF i] by simp
    ultimately show ?thesis using Cons.IH Cons.prems by (simp add: i)
  qed
qed simp

lemma Dispatch_inv: "engine_inv s \<Longrightarrow> engine_inv (snd (Dispatch flt now ev s))"
  by (auto simp: Dispatch_def GetActiveWebhooksByEvent_def list_ex_iff split: sum.splits if_splits
      intro!: dispatch_each_inv)

lemma DispatchMentions_inv: "engine_inv s \<Longrightarrow> engine_inv (DispatchMentions flt now ev s)"
proof -
  have "engine_inv s \<Longrightarrow> engine_inv (fold (\<lambda>a s. snd (Dispatch (flt a) now (mention_event ev a) s)) as s)" for as
    by (induction as arbitrary: s) (auto intro: Dispatch_inv)
  then show "engine_inv s \<Longrightarrow> engine_inv (DispatchMentions flt now ev s)" by (simp add: DispatchMentions_def)
qed

lemma engine_inv_db: "engine_inv s \<Longrightarrow> wh_inv db \<Longrightarrow> engine_inv (s\<lparr>eg_db := db\<rparr>)"
  by (simp add: engine_inv_def)

lemma engine_inv_dbD [simp]: "engine_inv s \<Longrightarrow> wh_inv (eg_db s)"
  by (simp add: engine_inv_def)

lemma take_work_inv:
  "engine_inv s \<Longrightarrow> length (eg_waiting s) + length (eg_busy s) < defaultWorkers \<Longrightarrow> engine_inv (take_work s)"
  by (auto simp: take_work_def engine_inv_def split: list.split)

lemma start_delivery_inv:
  assumes inv: "engine_inv s" and k: "k < length (eg_waiting s)"
  shows "engine_inv (start_delivery flt err k s)"
proof -
  obtain d w where dw: "eg_waiting s ! k = (d, w)" by (cases "eg_waiting s ! k")
  let ?db = "snd (UpdateDeliveryAttempts (flt WAttempts) (dv_ID d) (dv_Attempts d + 1) (eg_db s))"
  have "(d, w) \<in> set (eg_waiting s)" using k dw by (metis nth_mem)
  then have "work_ok d w" "wh_inv ?db" using inv del_updates_inv(2) unfolding engine_inv_def by fast+
  with inv k set_remove_nth [of k "eg_waiting s"] show ?thesis
    by (auto simp: start_delivery_def dw engine_inv_def)
qed

lemma finish_inv:
  "engine_inv s \<Longrightarrow> k < length (eg_busy s) \<Longrightarrow>
   engine_inv (s\<lparr>eg_db := finish_delivery flt now res (eg_busy s ! k) (eg_db s), eg_busy := remove_nth k (eg_busy s)\<rparr>)"
  using set_remove_nth [of k "eg_busy s"] by (auto simp: engine_inv_def intro: finish_delivery_inv)

text \<open>A stored delivery and the webhook its foreign key names belong together.\<close>

lemma stored_work:
  assumes inv: "wh_inv db" and d: "d \<in> set (wd_dels db)" and w: "GetWebhookByID f (dv_WebhookID d) db = Inr w"
  shows "work_ok d w"
proof -
  from inv d obtain x where x: "x \<in> set (wd_hooks db)" "work_ok d x" by (auto simp: wh_inv_def)
  from w have "w \<in> set (wd_hooks db)" "wh_ID w = dv_WebhookID d"
    by (auto simp: GetWebhookByID_def dest: find_row_Some split: if_splits option.splits)
  with x inv have "w = x"
    by (auto simp: wh_inv_def hooks_inv_def work_ok_def dest: ids_ok_unique)
  with x show ?thesis by simp
qed

lemma requeue_each_inv:
  assumes "\<And>d w f. d \<in> set ds \<Longrightarrow> GetWebhookByID f (dv_WebhookID d) db = Inr w \<Longrightarrow> work_ok d w"
  shows "\<forall>(d, w) \<in> set q. work_ok d w \<Longrightarrow> length q \<le> queueSize \<Longrightarrow>
    (\<forall>(d, w) \<in> set (requeue_each flt db ds q). work_ok d w) \<and> length (requeue_each flt db ds q) \<le> queueSize"
  using assms
proof (induction ds arbitrary: q)
  case (Cons d ds)
  show ?case
  proof (cases "GetWebhookByID (flt (WGetHook (dv_ID d))) (dv_WebhookID d) db")
    case (Inl e)
    with Cons show ?thesis by simp
  next
    case (Inr w)
    then have "work_ok d w" using Cons.prems(3) by simp
    then have "\<forall>(d, w) \<in> set (enqueue (d, w) q). work_ok d w" using enqueue_inv(2) [of "(d, w)" q] Cons.prems(1) by auto
    with Cons Inr enqueue_inv(1) show ?thesis by simp
  qed
qed simp

lemma requeued_inv:
  assumes inv: "engine_inv s" and ds: "set ds \<subseteq> set (wd_dels (eg_db s))"
  shows "engine_inv (s\<lparr>eg_queue := requeue_each flt (eg_db s) ds (eg_queue s)\<rparr>)"
proof -
  have "work_ok d w" if "d \<in> set ds" "GetWebhookByID f (dv_WebhookID d) (eg_db s) = Inr w" for d w f
    using that ds inv by (intro stored_work) auto
  then have "(\<forall>(d, w) \<in> set (requeue_each flt (eg_db s) ds (eg_queue s)). work_ok d w) \<and>
      length (requeue_each flt (eg_db s) ds (eg_queue s)) \<le> queueSize"
    using inv by (intro requeue_each_inv) (auto simp: engine_inv_def)
  with inv show ?thesis by (auto simp: engine_inv_def)
qed

lemma requeuePending_inv: "engine_inv s \<Longrightarrow> engine_inv (requeuePending flt s)"
  by (auto simp: requeuePending_def GetPendingDeliveries_def dest: set_limit_offset [THEN subsetD]
      split: sum.splits if_splits intro!: requeued_inv)

lemma processRetries_inv: "engine_inv s \<Longrightarrow> engine_inv (processRetries flt now s)"
  by (auto simp: processRetries_def GetRetryableDeliveries_def dest: set_limit_offset [THEN subsetD]
      split: sum.splits if_splits intro!: requeued_inv)

lemma engine_start_inv: "engine_inv s \<Longrightarrow> engine_inv (engine_start flt s)"
  unfolding engine_start_def by (rule requeuePending_inv) (simp add: engine_inv_def)

lemma purge_inv: "engine_inv s \<Longrightarrow> engine_inv (purge_dead_letters flt now s)"
  by (auto simp: purge_dead_letters_def PurgeOldDeadLetters_def Let_def intro!: engine_inv_db wh_inv_delete_dels)

lemma engine_step_inv: "engine_step s t \<Longrightarrow> engine_inv s \<Longrightarrow> engine_inv t"
  by (cases rule: engine_step.cases, assumption)
    (auto intro!: engine_inv_db RegisterWebhook_inv store_DeleteWebhook_inv finish_inv simp: DeleteWebhook_def
      intro: Dispatch_inv take_work_inv start_delivery_inv processRetries_inv purge_inv engine_start_inv)

interpretation eng: transition_system engine_step engine_inv
  by unfold_locales (rule engine_step_inv)

section \<open>Theorems on addresses and subscriptions\<close>



text \<open>
  Along every run of the delivery engine, whatever statements fail and however its workers
  interleave, with restarts included: no agent has more than three webhooks, each of them registered
  for valid events only and under its own URL; what is queued, in flight or stored goes to a webhook of the
  agent the event is for, which is registered for that event, and is less than five levels deep; at most 1000
  deliveries are queued and at most eight are in the hands of workers.
\<close>

theorem webhook_engine_invariant: "engine_step\<^sup>*\<^sup>* engine_empty s \<Longrightarrow> engine_inv s"
  by (rule eng.reachable_inv [OF _ engine_empty_inv])

section \<open>Attempts of a delivery\<close>

text \<open>
  Calm runs: no statement fails, the limiter is not cancelled, the process is not restarted, and
  the retry poller looks at the table only when no delivery that is due is queued or in flight.
\<close>

definition wid :: "work \<Rightarrow> id64" where
  "wid x = dv_ID (fst x)"

definition held :: "engine \<Rightarrow> work set" where
  "held s = set (eg_queue s) \<union> set (eg_waiting s) \<union> set (eg_busy s)"

definition quiet :: "timestamp \<Rightarrow> engine \<Rightarrow> bool" where
  "quiet now s \<longleftrightarrow> (\<forall>d \<in> set (wd_dels (eg_db s)). due now d \<longrightarrow> dv_ID d \<notin> wid ` held s)"

abbreviation calm :: "wh_stmt \<Rightarrow> bool" where
  "calm \<equiv> \<lambda>_. False"

inductive calm_step :: "engine \<Rightarrow> engine \<Rightarrow> bool" where
  calm_register: "calm_step s (s\<lparr>eg_db := snd (RegisterWebhook calm sha resolve ah ap agents now a raw url evs sec (eg_db s))\<rparr>)"
| calm_delete: "calm_step s (s\<lparr>eg_db := snd (DeleteWebhook calm a i (eg_db s))\<rparr>)"
| calm_dispatch: "calm_step s (snd (Dispatch calm now ev s))"
| calm_take: "length (eg_waiting s) + length (eg_busy s) < defaultWorkers \<Longrightarrow> calm_step s (take_work s)"
| calm_start: "k < length (eg_waiting s) \<Longrightarrow> calm_step s (start_delivery calm False k s)"
| calm_finish: "k < length (eg_busy s) \<Longrightarrow>
    calm_step s (s\<lparr>eg_db := finish_delivery calm now res (eg_busy s ! k) (eg_db s), eg_busy := remove_nth k (eg_busy s)\<rparr>)"
| calm_poll: "quiet now s \<Longrightarrow> calm_step s (processRetries calm now s)"
| calm_purge: "calm_step s (purge_dead_letters calm now s)"

lemma calm_step_engine: "calm_step s t \<Longrightarrow> engine_step s t"
  by (induction rule: calm_step.induct) (auto intro: engine_step.intros)

definition final :: "WebhookDelivery \<Rightarrow> bool" where
  "final d \<longleftrightarrow> dv_Status d = DDelivered \<or> dv_Status d = DDeadLettered"

text \<open>The stored row of a copy is not finished and has the attempts the copy has.\<close>

definition in_step :: "wh_db \<Rightarrow> WebhookDelivery \<Rightarrow> bool" where
  "in_step db d \<longleftrightarrow> dv_ID d \<le> wd_del_seq db \<and>
     (\<forall>r \<in> set (wd_dels db). dv_ID r = dv_ID d \<longrightarrow> \<not> final r \<and> dv_Attempts r = dv_Attempts d)"

definition row_ok :: "id64 set \<Rightarrow> WebhookDelivery \<Rightarrow> bool" where
  "row_ok flying r \<longleftrightarrow> 0 \<le> dv_Attempts r \<and> dv_Attempts r \<le> maxAttempts \<and>
     (dv_Status r = DRetrying \<longrightarrow> 1 \<le> dv_Attempts r \<and> (dv_Attempts r < maxAttempts \<or> dv_ID r \<in> flying)) \<and>
     (dv_Status r = DDeadLettered \<longrightarrow> dv_Attempts r = maxAttempts) \<and>
     (dv_Status r = DDelivered \<longrightarrow> 1 \<le> dv_Attempts r)"

definition calm_inv :: "engine \<Rightarrow> bool" where
  "calm_inv s \<longleftrightarrow> engine_inv s \<and> distinct (map wid (eg_queue s @ eg_waiting s @ eg_busy s)) \<and>
     (\<forall>x \<in> held s. in_step (eg_db s) (fst x)) \<and>
     (\<forall>x \<in> set (eg_queue s) \<union> set (eg_waiting s). 0 \<le> dv_Attempts (fst x) \<and> dv_Attempts (fst x) < maxAttempts) \<and>
     (\<forall>x \<in> set (eg_busy s). 1 \<le> dv_Attempts (fst x) \<and> dv_Attempts (fst x) \<le> maxAttempts) \<and>
     (\<forall>r \<in> set (wd_dels (eg_db s)). row_ok (wid ` set (eg_busy s)) r)"

text \<open>The deliveries of \<open>t\<close> that \<open>s\<close> knew: their attempts do not go down, and what was final is untouched.\<close>

definition del_later :: "engine \<Rightarrow> engine \<Rightarrow> bool" where
  "del_later s t \<longleftrightarrow> wd_del_seq (eg_db s) \<le> wd_del_seq (eg_db t) \<and>
     (\<forall>r \<in> set (wd_dels (eg_db t)). dv_ID r \<le> wd_del_seq (eg_db s) \<longrightarrow>
        (\<exists>q \<in> set (wd_dels (eg_db s)). dv_ID q = dv_ID r \<and> dv_Attempts q \<le> dv_Attempts r \<and> (final q \<longrightarrow> r = q)))"

lemma del_later_refl: "del_later s s"
  by (auto simp: del_later_def)

lemma del_later_trans:
  assumes "del_later s t" "del_later t u"
  shows "del_later s u"
proof -
  have "\<exists>q \<in> set (wd_dels (eg_db s)). dv_ID q = dv_ID r \<and> dv_Attempts q \<le> dv_Attempts r \<and> (final q \<longrightarrow> r = q)"
    if r: "r \<in> set (wd_dels (eg_db u))" "dv_ID r \<le> wd_del_seq (eg_db s)" for r
  proof -
    from r assms obtain p where p: "p \<in> set (wd_dels (eg_db t))" "dv_ID p = dv_ID r" "dv_Attempts p \<le> dv_Attempts r"
      "final p \<longrightarrow> r = p" by (auto simp: del_later_def dest!: bspec)
    with r assms(1) obtain q where "q \<in> set (wd_dels (eg_db s))" "dv_ID q = dv_ID p" "dv_Attempts q \<le> dv_Attempts p"
      "final q \<longrightarrow> p = q" by (auto simp: del_later_def dest!: bspec)
    with p show ?thesis by (metis order_trans)
  qed
  with assms show ?thesis by (auto simp: del_later_def)
qed

lemma calm_invD:
  assumes "calm_inv s"
  shows "engine_inv s" "distinct (map wid (eg_queue s @ eg_waiting s @ eg_busy s))" "\<And>x. x \<in> held s \<Longrightarrow> in_step (eg_db s) (fst x)"
    "\<And>r. r \<in> set (wd_dels (eg_db s)) \<Longrightarrow> row_ok (wid ` set (eg_busy s)) r"
    "\<And>x. x \<in> set (eg_queue s) \<union> set (eg_waiting s) \<Longrightarrow> 0 \<le> dv_Attempts (fst x) \<and> dv_Attempts (fst x) < maxAttempts"
    "\<And>x. x \<in> set (eg_busy s) \<Longrightarrow> 1 \<le> dv_Attempts (fst x) \<and> dv_Attempts (fst x) \<le> maxAttempts"
  using assms by (simp_all add: calm_inv_def)

lemma calm_shrink:
  assumes inv: "calm_inv s" and e: "engine_inv (s\<lparr>eg_db := db\<rparr>)" and sq: "wd_del_seq db = wd_del_seq (eg_db s)"
    and sub: "set (wd_dels db) \<subseteq> set (wd_dels (eg_db s))"
  shows "calm_inv (s\<lparr>eg_db := db\<rparr>) \<and> del_later s (s\<lparr>eg_db := db\<rparr>)"
proof -
  have "in_step db (fst x)" if "x \<in> held s" for x
    using calm_invD(3) [OF inv that] sub by (auto simp: in_step_def sq)
  with inv e sub have "calm_inv (s\<lparr>eg_db := db\<rparr>)" by (auto simp: calm_inv_def held_def)
  with sub sq show ?thesis by (auto simp: del_later_def)
qed

lemma insert_del_rows:
  assumes "InsertDelivery f now d db = (Inr r, db')"
  shows "wd_del_seq db' = wd_del_seq db + 1"
    "set (wd_dels db') = insert (r\<lparr>dv_CreatedAt := now\<rparr>) (set (wd_dels db))" "dv_ID r = wd_del_seq db + 1"
    "dv_Status r = dv_Status d" "dv_Attempts r = dv_Attempts d" "wd_hooks db' = wd_hooks db"
  using InsertDelivery_result(1) [OF assms] by auto

lemma calm_insert:
  assumes inv: "calm_inv s" and e: "engine_inv (s\<lparr>eg_db := db, eg_queue := enqueue (r, w) (eg_queue s)\<rparr>)"
    and ins: "InsertDelivery f now d (eg_db s) = (Inr r, db)" and d: "dv_Status d = DPending" "dv_Attempts d = 0"
  shows "calm_inv (s\<lparr>eg_db := db, eg_queue := enqueue (r, w) (eg_queue s)\<rparr>) \<and>
    del_later s (s\<lparr>eg_db := db, eg_queue := enqueue (r, w) (eg_queue s)\<rparr>)"
proof -
  note rows = insert_del_rows [OF ins]
  have fresh: "wid x \<noteq> wid (r, w)" "dv_ID (fst x) \<le> wd_del_seq (eg_db s)" if "x \<in> held s" for x
    using calm_invD(3) [OF inv that] rows(3) by (auto simp: in_step_def wid_def)
  then have "distinct (map wid (enqueue (r, w) (eg_queue s) @ eg_waiting s @ eg_busy s))"
    using calm_invD(2) [OF inv] by (force simp: enqueue_def held_def)
  moreover have "in_step db (fst x)" if "x \<in> held s" for x
    using calm_invD(3) [OF inv that] fresh [OF that] rows by (auto simp: in_step_def wid_def)
  moreover have "in_step db r"
    using calm_invD(1) [OF inv] d
    by (auto simp: in_step_def rows final_def engine_inv_def wh_inv_def ids_ok_def dest!: bspec)
  moreover have "row_ok (wid ` set (eg_busy s)) q" if "q \<in> set (wd_dels db)" for q
    using that calm_invD(4) [OF inv] d by (auto simp: rows row_ok_def maxAttempts_def)
  moreover have "0 \<le> dv_Attempts r \<and> dv_Attempts r < maxAttempts" using d by (simp add: rows maxAttempts_def)
  ultimately have "calm_inv (s\<lparr>eg_db := db, eg_queue := enqueue (r, w) (eg_queue s)\<rparr>)"
    using e calm_invD(5,6) [OF inv] unfolding calm_inv_def by (auto simp: enqueue_def held_def)
  moreover have "del_later s (s\<lparr>eg_db := db, eg_queue := enqueue (r, w) (eg_queue s)\<rparr>)"
    by (auto simp: del_later_def rows)
  ultimately show ?thesis ..
qed

lemma calm_dispatch_each:
  "calm_inv s \<Longrightarrow> set ws \<subseteq> set (wd_hooks (eg_db s)) \<Longrightarrow>
   (\<And>w. w \<in> set ws \<Longrightarrow> wh_AgentName w = ev_ToAgent ev \<and> ev_EventType ev \<in> set (wh_Events w)) \<Longrightarrow>
   ev_Depth ev < MaxDepth \<Longrightarrow>
   calm_inv (dispatch_each flt now ev ws s) \<and> del_later s (dispatch_each flt now ev ws s)"
proof (induction ws arbitrary: s)
  case Nil
  then show ?case by (simp add: del_later_refl)
next
  case (Cons w ws)
  obtain r db where ins: "InsertDelivery (flt (WInsertDelivery (wh_ID w))) now (new_delivery now ev w) (eg_db s) = (r, db)"
    by (cases "InsertDelivery (flt (WInsertDelivery (wh_ID w))) now (new_delivery now ev w) (eg_db s)") simp
  show ?case
  proof (cases r)
    case (Inl e)
    with Cons InsertDelivery_result(2) ins show ?thesis by fastforce
  next
    case (Inr d)
    note i = ins [unfolded Inr]
    let ?t = "s\<lparr>eg_db := db, eg_queue := enqueue (d, w) (eg_queue s)\<rparr>"
    have "work_ok (new_delivery now ev w) w" using Cons.prems by (intro work_ok_new) auto
    then have "engine_inv ?t"
      using Cons.prems calm_invD(1) by (intro engine_inv_insert [OF _ _ _ i]) auto
    then have t: "calm_inv ?t \<and> del_later s ?t"
      by (rule calm_insert [OF Cons.prems(1) _ i]) (simp_all add: new_delivery_def)
    moreover have "calm_inv (dispatch_each flt now ev ws ?t) \<and> del_later ?t (dispatch_each flt now ev ws ?t)"
      using t Cons.prems insert_del_rows(6) [OF i] by (intro Cons.IH) auto
    ultimately show ?thesis using del_later_trans by (auto simp: i)
  qed
qed

lemma calm_Dispatch:
  assumes "calm_inv s"
  shows "calm_inv (snd (Dispatch flt now ev s)) \<and> del_later s (snd (Dispatch flt now ev s))"
proof -
  have "calm_inv s \<and> del_later s s" using assms by (simp add: del_later_refl)
  then show ?thesis
    by (auto simp: Dispatch_def GetActiveWebhooksByEvent_def list_ex_iff split: sum.splits if_splits
        intro!: calm_dispatch_each [THEN conjunct1] calm_dispatch_each [THEN conjunct2])
qed

text \<open>A change of the row of one copy that is held: the other copies stay in step with their rows.\<close>

definition row_change :: "engine \<Rightarrow> work \<Rightarrow> (WebhookDelivery \<Rightarrow> WebhookDelivery) \<Rightarrow> wh_db \<Rightarrow> bool" where
  "row_change s x f db \<longleftrightarrow> calm_inv s \<and> x \<in> held s \<and> (\<forall>r. dv_ID (f r) = dv_ID r) \<and>
     (\<forall>r. dv_Attempts r = dv_Attempts (fst x) \<longrightarrow> dv_Attempts r \<le> dv_Attempts (f r)) \<and>
     wd_del_seq db = wd_del_seq (eg_db s) \<and>
     wd_dels db = update_where (\<lambda>r. dv_ID r = wid x) f (wd_dels (eg_db s))"

lemma row_change_cases:
  assumes "row_change s x f db" "r \<in> set (wd_dels db)"
  obtains (other) "r \<in> set (wd_dels (eg_db s))" "dv_ID r \<noteq> wid x"
  | (changed) q where "q \<in> set (wd_dels (eg_db s))" "dv_ID q = wid x" "r = f q" "\<not> final q"
      "dv_Attempts q = dv_Attempts (fst x)"
  using assms calm_invD(3) [of s x]
  by (auto simp: row_change_def in_update_where in_step_def wid_def split: if_splits)

lemma row_change_in_step:
  assumes rc: "row_change s x f db" and y: "y \<in> held s" "wid y \<noteq> wid x"
  shows "in_step db (fst y)"
proof -
  have "in_step (eg_db s) (fst y)" using rc y(1) calm_invD(3) by (auto simp: row_change_def)
  moreover have "dv_ID (f r) = dv_ID r" "wd_del_seq db = wd_del_seq (eg_db s)" for r using rc by (auto simp: row_change_def)
  ultimately show ?thesis using y(2) by (auto simp: in_step_def wid_def elim!: row_change_cases [OF rc])
qed

lemma row_change_later:
  assumes rc: "row_change s x f db" and t: "eg_db t = db"
  shows "del_later s t"
proof -
  have "\<exists>q \<in> set (wd_dels (eg_db s)). dv_ID q = dv_ID r \<and> dv_Attempts q \<le> dv_Attempts r \<and> (final q \<longrightarrow> r = q)"
    if "r \<in> set (wd_dels db)" for r using rc that
  proof (cases rule: row_change_cases)
    case (changed q)
    then show ?thesis using rc by (intro bexI [of _ q]) (auto simp: row_change_def)
  qed auto
  then show ?thesis using rc t by (simp add: del_later_def row_change_def)
qed

lemma calm_take_work:
  assumes inv: "calm_inv s" and free: "length (eg_waiting s) + length (eg_busy s) < defaultWorkers"
  shows "calm_inv (take_work s) \<and> del_later s (take_work s)"
proof -
  have "engine_inv (take_work s)" using take_work_inv calm_invD(1) [OF inv] free .
  with inv show ?thesis by (auto simp: take_work_def calm_inv_def held_def del_later_def split: list.splits)
qed

lemma start_change:
  assumes inv: "calm_inv s" and k: "k < length (eg_waiting s)" and dw: "eg_waiting s ! k = (d, w)"
  shows "row_change s (d, w) (\<lambda>r. r\<lparr>dv_Attempts := dv_Attempts d + 1\<rparr>) (eg_db (start_delivery calm False k s))"
proof -
  have "(d, w) \<in> held s" using k dw by (metis held_def Un_iff nth_mem)
  with inv show ?thesis by (auto simp: row_change_def start_delivery_def dw UpdateDeliveryAttempts_def Let_def wid_def)
qed

lemma calm_start_delivery:
  assumes inv: "calm_inv s" and k: "k < length (eg_waiting s)"
  shows "calm_inv (start_delivery calm False k s) \<and> del_later s (start_delivery calm False k s)"
proof -
  obtain d w where dw: "eg_waiting s ! k = (d, w)" by (cases "eg_waiting s ! k")
  have x: "(d, w) \<in> set (eg_waiting s)" using k dw by (metis nth_mem)
  let ?d = "d\<lparr>dv_Attempts := dv_Attempts d + 1\<rparr>"
  let ?t = "start_delivery calm False k s"
  have t: "eg_queue ?t = eg_queue s" "eg_waiting ?t = remove_nth k (eg_waiting s)" "eg_busy ?t = eg_busy s @ [(?d, w)]"
    by (simp_all add: start_delivery_def dw)
  note rc = start_change [OF inv k dw]
  have att: "0 \<le> dv_Attempts d" "dv_Attempts d < maxAttempts" using calm_invD(5) [OF inv, of "(d, w)"] x by auto
  have dist: "distinct (map wid (eg_queue ?t @ eg_waiting ?t @ eg_busy ?t))"
    and out: "wid (d, w) \<notin> wid ` (set (eg_queue ?t) \<union> set (eg_waiting ?t) \<union> set (eg_busy s))"
    and sub: "set (eg_waiting s) = insert (d, w) (set (eg_waiting ?t))"
    using calm_invD(2) [OF inv] remove_nth_distinct [of wid "eg_waiting s" k] k dw
    by (auto simp: t wid_def [of "(?d, w)"] wid_def [of "(d, w)"])
  have "dv_ID d \<le> wd_del_seq (eg_db ?t)"
    using calm_invD(3) [OF inv, of "(d, w)"] rc x by (auto simp: in_step_def held_def row_change_def)
  then have new: "in_step (eg_db ?t) ?d"
    by (auto simp: in_step_def wid_def final_def elim!: row_change_cases [OF rc])
  have "in_step (eg_db ?t) (fst y)" if "y \<in> set (eg_queue ?t) \<union> set (eg_waiting ?t) \<union> set (eg_busy s)" for y
  proof (rule row_change_in_step [OF rc])
    show "y \<in> held s" using that sub by (auto simp: held_def t)
    show "wid y \<noteq> wid (d, w)" using out that by (metis imageI)
  qed
  with new have "in_step (eg_db ?t) (fst y)" if "y \<in> held ?t" for y
    using that unfolding held_def t by (metis Un_iff empty_iff fst_conv insert_iff list.set set_append)
  moreover have "row_ok (wid ` set (eg_busy ?t)) r" if "r \<in> set (wd_dels (eg_db ?t))" for r
    using that att by (auto simp: t row_ok_def wid_def final_def elim!: row_change_cases [OF rc] dest!: calm_invD(4) [OF inv])
  moreover have "engine_inv ?t" by (rule start_delivery_inv [OF calm_invD(1) [OF inv] k])
  ultimately have "calm_inv ?t"
    using dist calm_invD(5,6) [OF inv] sub att unfolding calm_inv_def by (auto simp: t)
  with row_change_later [OF rc refl] show ?thesis by simp
qed

text \<open>What the end of an attempt writes: one status, by the answer and by the attempts the copy has counted.\<close>

definition set_outcome ::
  "delivery_status \<Rightarrow> int \<Rightarrow> string \<Rightarrow> timestamp option \<Rightarrow> timestamp option \<Rightarrow> WebhookDelivery \<Rightarrow> WebhookDelivery" where
  "set_outcome st http err nextRetry delivered d =
     d\<lparr>dv_Status := st, dv_HTTPStatus := http, dv_LastError := err, dv_NextRetryAt := nextRetry, dv_DeliveredAt := delivered\<rparr>"

lemma set_outcome_simps [simp]:
  "dv_ID (set_outcome st h e n l d) = dv_ID d" "dv_Attempts (set_outcome st h e n l d) = dv_Attempts d"
  "dv_Status (set_outcome st h e n l d) = st"
  by (simp_all add: set_outcome_def)

definition end_status :: "outcome \<Rightarrow> int \<Rightarrow> delivery_status" where
  "end_status res n =
     (case res of
        Response code \<Rightarrow> if 200 \<le> code \<and> code < 300 then DDelivered else if n < maxAttempts then DRetrying else DDeadLettered
      | RequestError e \<Rightarrow> if n < maxAttempts then DRetrying else DDeadLettered)"

lemma hook_updates_dels:
  "wd_dels (snd (UpdateWebhookStatus f now i st db)) = wd_dels db"
  "wd_dels (snd (IncrementConsecutiveFailures f g now i db)) = wd_dels db"
  "wd_dels (snd (ResetConsecutiveFailures f now i db)) = wd_dels db"
  "wd_del_seq (snd (UpdateWebhookStatus f now i st db)) = wd_del_seq db"
  "wd_del_seq (snd (IncrementConsecutiveFailures f g now i db)) = wd_del_seq db"
  "wd_del_seq (snd (ResetConsecutiveFailures f now i db)) = wd_del_seq db"
  by (simp_all add: hook_updates Let_def split: option.splits)

lemma RecordFailure_dels:
  "wd_dels (snd (RecordFailure flt now i db)) = wd_dels db"
  "wd_del_seq (snd (RecordFailure flt now i db)) = wd_del_seq db"
proof -
  obtain r db' where r: "IncrementConsecutiveFailures (flt WIncrement) (flt WReadFailures) now i db = (r, db')"
    by (cases "IncrementConsecutiveFailures (flt WIncrement) (flt WReadFailures) now i db") simp
  have "wd_dels db' = wd_dels db" "wd_del_seq db' = wd_del_seq db"
    using hook_updates_dels(2,5) [of "flt WIncrement" "flt WReadFailures" now i db] by (simp_all add: r)
  then show "wd_dels (snd (RecordFailure flt now i db)) = wd_dels db"
    "wd_del_seq (snd (RecordFailure flt now i db)) = wd_del_seq db"
    by (simp_all add: RecordFailure_def r hook_updates_dels split: sum.split)
qed

lemma UpdateDeliveryStatus_dels:
  "wd_dels (snd (UpdateDeliveryStatus False i st h e n l db)) =
     update_where (\<lambda>d. dv_ID d = i) (set_outcome st h e n l) (wd_dels db)"
  "wd_del_seq (snd (UpdateDeliveryStatus False i st h e n l db)) = wd_del_seq db"
  by (simp_all add: UpdateDeliveryStatus_def Let_def set_outcome_def [abs_def])

lemma recordFailure_dels:
  assumes "1 \<le> dv_Attempts d" "dv_MaxAttempts d = maxAttempts"
  shows "\<exists>n l. wd_dels (recordFailure calm now d w h e db) = update_where (\<lambda>r. dv_ID r = dv_ID d)
      (set_outcome (if dv_Attempts d < maxAttempts then DRetrying else DDeadLettered) h e n l) (wd_dels db)"
    "wd_del_seq (recordFailure calm now d w h e db) = wd_del_seq db"
proof -
  have "\<exists>t. retry_interval (dv_Attempts d) = Some t"
    using assms(1) by (auto simp: retry_interval_def Let_def retryIntervals_def)
  then obtain t where t: "retry_interval (dv_Attempts d) = Some t" ..
  show "\<exists>n l. wd_dels (recordFailure calm now d w h e db) = update_where (\<lambda>r. dv_ID r = dv_ID d)
      (set_outcome (if dv_Attempts d < maxAttempts then DRetrying else DDeadLettered) h e n l) (wd_dels db)"
    by (auto simp: recordFailure_def t assms(2) RecordFailure_dels UpdateDeliveryStatus_dels)
  show "wd_del_seq (recordFailure calm now d w h e db) = wd_del_seq db"
    by (simp add: recordFailure_def t RecordFailure_dels UpdateDeliveryStatus_dels)
qed

lemma finish_dels:
  assumes d: "1 \<le> dv_Attempts d" "dv_MaxAttempts d = maxAttempts"
  shows "\<exists>h e n l. wd_dels (finish_delivery calm now res (d, w) db) = update_where (\<lambda>r. dv_ID r = dv_ID d)
      (set_outcome (end_status res (dv_Attempts d)) h e n l) (wd_dels db)"
    "wd_del_seq (finish_delivery calm now res (d, w) db) = wd_del_seq db"
proof -
  show "\<exists>h e n l. wd_dels (finish_delivery calm now res (d, w) db) = update_where (\<lambda>r. dv_ID r = dv_ID d)
      (set_outcome (end_status res (dv_Attempts d)) h e n l) (wd_dels db)"
  proof (cases "\<exists>code. res = Response code \<and> 200 \<le> code \<and> code < 300")
    case True
    then obtain code where c: "res = Response code" "200 \<le> code" "code < 300" by auto
    then have "wd_dels (finish_delivery calm now res (d, w) db) =
        update_where (\<lambda>r. dv_ID r = dv_ID d) (set_outcome DDelivered code '''' None (Some now)) (wd_dels db)"
      "end_status res (dv_Attempts d) = DDelivered"
      by (simp_all add: finish_delivery_def hook_updates_dels UpdateDeliveryStatus_dels end_status_def)
    then show ?thesis by metis
  next
    case False
    then obtain h e where "finish_delivery calm now res (d, w) db = recordFailure calm now d w h e db"
      by (cases res) (auto simp: finish_delivery_def)
    moreover have "end_status res (dv_Attempts d) = (if dv_Attempts d < maxAttempts then DRetrying else DDeadLettered)"
      using False by (cases res) (auto simp: end_status_def)
    moreover obtain n l where "wd_dels (recordFailure calm now d w h e db) = update_where (\<lambda>r. dv_ID r = dv_ID d)
        (set_outcome (if dv_Attempts d < maxAttempts then DRetrying else DDeadLettered) h e n l) (wd_dels db)"
      using recordFailure_dels(1) [OF d] by blast
    ultimately show ?thesis by (intro exI) (simp only:)
  qed
  show "wd_del_seq (finish_delivery calm now res (d, w) db) = wd_del_seq db"
    using recordFailure_dels(2) [OF d]
    by (simp add: finish_delivery_def hook_updates_dels UpdateDeliveryStatus_dels split: outcome.split)
qed

lemma finish_change:
  assumes inv: "calm_inv s" and x: "(d, w) \<in> set (eg_busy s)"
  obtains h e n l where "row_change s (d, w) (set_outcome (end_status res (dv_Attempts d)) h e n l)
    (finish_delivery calm now res (d, w) (eg_db s))"
proof -
  have d: "1 \<le> dv_Attempts d" "dv_MaxAttempts d = maxAttempts"
    using calm_invD(6) [OF inv x] calm_invD(1) [OF inv] x by (auto simp: engine_inv_def work_ok_def)
  obtain h e n l where "wd_dels (finish_delivery calm now res (d, w) (eg_db s)) = update_where (\<lambda>r. dv_ID r = dv_ID d)
      (set_outcome (end_status res (dv_Attempts d)) h e n l) (wd_dels (eg_db s))"
    using finish_dels(1) [OF d, of now res w "eg_db s"] by auto
  with inv x finish_dels(2) [OF d, of now res w "eg_db s"]
  have "row_change s (d, w) (set_outcome (end_status res (dv_Attempts d)) h e n l) (finish_delivery calm now res (d, w) (eg_db s))"
    by (simp add: row_change_def held_def wid_def)
  then show thesis by (rule that)
qed

lemma calm_finish_delivery:
  assumes inv: "calm_inv s" and k: "k < length (eg_busy s)"
    and t_def: "t = s\<lparr>eg_db := finish_delivery calm now res (eg_busy s ! k) (eg_db s), eg_busy := remove_nth k (eg_busy s)\<rparr>"
  shows "calm_inv t \<and> del_later s t"
proof -
  obtain d w where dw: "eg_busy s ! k = (d, w)" by (cases "eg_busy s ! k")
  have x: "(d, w) \<in> set (eg_busy s)" using k dw by (metis nth_mem)
  have d: "1 \<le> dv_Attempts d" "dv_Attempts d \<le> maxAttempts" using calm_invD(6) [OF inv x] by auto
  obtain h e n l where rc: "row_change s (d, w) (set_outcome (end_status res (dv_Attempts d)) h e n l) (eg_db t)"
    by (rule finish_change [OF inv x, of res now]) (auto simp: t_def dw)
  have dist: "distinct (map wid (eg_queue s @ eg_waiting s @ eg_busy t))" and out: "wid (d, w) \<notin> wid ` (held t)"
    and sub: "set (eg_busy s) = insert (d, w) (set (eg_busy t))"
    using calm_invD(2) [OF inv] remove_nth_distinct [of wid "eg_busy s" k] k dw by (auto simp: t_def held_def)
  have "in_step (eg_db t) (fst y)" if "y \<in> held t" for y
  proof (rule row_change_in_step [OF rc])
    show "y \<in> held s" using that sub by (auto simp: held_def t_def)
    show "wid y \<noteq> wid (d, w)" using out that by (metis imageI)
  qed
  moreover have "row_ok (wid ` set (eg_busy t)) r" if "r \<in> set (wd_dels (eg_db t))" for r
    using rc that
  proof (cases rule: row_change_cases)
    case other
    then show ?thesis using calm_invD(4) [OF inv] by (auto simp: row_ok_def sub)
  next
    case (changed q)
    then show ?thesis using d by (auto simp: row_ok_def end_status_def split: outcome.splits)
  qed
  moreover have "engine_inv t" unfolding t_def by (rule finish_inv [OF calm_invD(1) [OF inv] k])
  ultimately have "calm_inv t"
    using dist calm_invD(5,6) [OF inv] sub unfolding calm_inv_def by (auto simp: t_def)
  with row_change_later [OF rc refl] show ?thesis by simp
qed

lemma set_requeue_each: "set (requeue_each flt db ds q) \<subseteq> set q \<union> {(d, w) | d w. d \<in> set ds}"
proof (induction ds arbitrary: q)
  case (Cons d ds)
  show ?case
  proof (cases "GetWebhookByID (flt (WGetHook (dv_ID d))) (dv_WebhookID d) db")
    case (Inl e)
    with Cons.IH [of q] show ?thesis by auto
  next
    case (Inr w)
    with Cons.IH [of "enqueue (d, w) q"] enqueue_inv(2) [of "(d, w)" q] show ?thesis by auto
  qed
qed simp

lemma distinct_requeue_each:
  "distinct (map wid q) \<Longrightarrow> distinct (map dv_ID ds) \<Longrightarrow> dv_ID ` set ds \<inter> wid ` set q = {} \<Longrightarrow>
   distinct (map wid (requeue_each flt db ds q))"
proof (induction ds arbitrary: q)
  case (Cons d ds)
  show ?case
  proof (cases "GetWebhookByID (flt (WGetHook (dv_ID d))) (dv_WebhookID d) db")
    case (Inl e)
    with Cons show ?thesis by auto
  next
    case (Inr w)
    have "distinct (map wid (enqueue (d, w) q))" "dv_ID ` set ds \<inter> wid ` set (enqueue (d, w) q) = {}"
      using Cons.prems by (auto simp: enqueue_def wid_def [abs_def])
    with Cons Inr show ?thesis by simp
  qed
qed simp

lemma distinct_due:
  assumes "wh_inv db"
  shows "distinct (map dv_ID (limit_offset n 0 (sort_key f (filter P (wd_dels db)))))"
proof -
  have "distinct (map dv_ID (sort_key f (filter P (wd_dels db))))"
    using assms by (simp add: wh_inv_def ids_ok_def distinct_map inj_on_def)
  then show ?thesis by (simp add: limit_offset_def Let_def drop_map [symmetric] take_map [symmetric])
qed

lemma calm_requeued:
  assumes inv: "calm_inv s" and e: "engine_inv (s\<lparr>eg_queue := q\<rparr>)"
    and dist: "distinct (map wid (q @ eg_waiting s @ eg_busy s))"
    and q: "\<And>x. x \<in> set q \<Longrightarrow> in_step (eg_db s) (fst x) \<and> 0 \<le> dv_Attempts (fst x) \<and> dv_Attempts (fst x) < maxAttempts"
  shows "calm_inv (s\<lparr>eg_queue := q\<rparr>)"
  using inv e dist q by (auto simp: calm_inv_def held_def)

lemma calm_poll_retries:
  assumes inv: "calm_inv s" and quiet: "quiet now s"
  shows "calm_inv (processRetries calm now s) \<and> del_later s (processRetries calm now s)"
proof -
  let ?ds = "limit_offset 50 0 (sort_key (\<lambda>d. the (dv_NextRetryAt d)) (filter (due now) (wd_dels (eg_db s))))"
  let ?q = "requeue_each calm (eg_db s) ?ds (eg_queue s)"
  have t: "processRetries calm now s = s\<lparr>eg_queue := ?q\<rparr>"
    by (simp add: processRetries_def GetRetryableDeliveries_def fifty_def)
  have ds: "d \<in> set (wd_dels (eg_db s)) \<and> due now d" if "d \<in> set ?ds" for d
    using subsetD [OF set_limit_offset that] by simp
  have out: "dv_ID d \<notin> wid ` held s" if "d \<in> set ?ds" for d using ds [OF that] quiet by (simp add: quiet_def)
  have dist: "distinct (map wid ?q)"
    using calm_invD(1,2) [OF inv] out by (intro distinct_requeue_each distinct_due) (auto simp: held_def)
  have q: "x \<in> set (eg_queue s) \<or> fst x \<in> set ?ds" if "x \<in> set ?q" for x
    using subsetD [OF set_requeue_each that] by auto
  have disj: "wid ` set ?q \<inter> wid ` (set (eg_waiting s) \<union> set (eg_busy s)) = {}"
  proof -
    have "wid x \<notin> wid ` (set (eg_waiting s) \<union> set (eg_busy s))" if "x \<in> set ?q" for x
      using q [OF that]
    proof
      assume "x \<in> set (eg_queue s)"
      then show ?thesis using calm_invD(2) [OF inv] by auto
    next
      assume "fst x \<in> set ?ds"
      then show ?thesis using out [of "fst x"] by (auto simp: held_def wid_def)
    qed
    then show ?thesis by auto
  qed
  have "in_step (eg_db s) d \<and> 0 \<le> dv_Attempts d \<and> dv_Attempts d < maxAttempts" if d: "d \<in> set ?ds" for d
  proof -
    have wh: "ids_ok dv_ID (wd_del_seq (eg_db s)) (wd_dels (eg_db s))"
      using calm_invD(1) [OF inv] by (simp add: engine_inv_def wh_inv_def)
    have "in_step (eg_db s) d" using wh ds [OF d]
      by (auto simp: in_step_def due_def final_def ids_ok_def dest: ids_ok_unique [OF wh])
    moreover have "row_ok (wid ` set (eg_busy s)) d" using calm_invD(4) [OF inv] ds [OF d] by simp
    ultimately show ?thesis using out [OF d] ds [OF d] by (auto simp: row_ok_def due_def held_def)
  qed
  note out' = this
  have "calm_inv (s\<lparr>eg_queue := ?q\<rparr>)"
  proof -
    have "in_step (eg_db s) (fst x) \<and> 0 \<le> dv_Attempts (fst x) \<and> dv_Attempts (fst x) < maxAttempts" if "x \<in> set ?q" for x
      using q [OF that] out' [of "fst x"] calm_invD(3,5) [OF inv, of x] by (auto simp: held_def)
    moreover have "distinct (map wid (?q @ eg_waiting s @ eg_busy s))" using dist disj calm_invD(2) [OF inv] by (simp add: image_Un)
    moreover have "engine_inv (s\<lparr>eg_queue := ?q\<rparr>)"
      using processRetries_inv [OF calm_invD(1) [OF inv], of calm now] by (simp only: t)
    ultimately show ?thesis by (intro calm_requeued [OF inv])
  qed
  moreover have "del_later s (s\<lparr>eg_queue := ?q\<rparr>)" by (auto simp: del_later_def)
  ultimately show ?thesis by (simp add: t)
qed

lemma calm_other_rows:
  "wd_dels (snd (RegisterWebhook flt sha rs ah ap agents now a raw url evs sec db)) = wd_dels db"
  "wd_del_seq (snd (RegisterWebhook flt sha rs ah ap agents now a raw url evs sec db)) = wd_del_seq db"
  "set (wd_dels (snd (DeleteWebhook flt a i db))) \<subseteq> set (wd_dels db)"
  "wd_del_seq (snd (DeleteWebhook flt a i db)) = wd_del_seq db"
  "set (wd_dels (snd (PurgeOldDeadLetters f t db))) \<subseteq> set (wd_dels db)"
  "wd_del_seq (snd (PurgeOldDeadLetters f t db)) = wd_del_seq db"
  by (auto simp: RegisterWebhook_def InsertWebhook_def DeleteWebhook_def store_DeleteWebhook_def PurgeOldDeadLetters_def
      Let_def split: option.splits sum.splits)

lemma calm_step_ok: "calm_step s t \<Longrightarrow> calm_inv s \<Longrightarrow> calm_inv t \<and> del_later s t"
proof (induction rule: calm_step.induct)
  case (calm_register s sha resolve ah ap agents now a raw url evs sec)
  then show ?case
    by (intro calm_shrink engine_inv_db RegisterWebhook_inv) (auto simp: calm_other_rows dest: calm_invD(1))
next
  case (calm_delete s a i)
  then have "wh_inv (snd (DeleteWebhook calm a i (eg_db s)))"
    by (auto simp: DeleteWebhook_def dest: calm_invD(1) intro!: store_DeleteWebhook_inv)
  with calm_delete show ?case
    by (intro calm_shrink engine_inv_db)
      (auto simp: calm_other_rows(4) dest: calm_invD(1) calm_other_rows(3) [THEN subsetD])
next
  case (calm_purge s now)
  then have "engine_inv (purge_dead_letters calm now s)" by (intro purge_inv calm_invD(1))
  with calm_purge show ?case
    unfolding purge_dead_letters_def
    by (intro calm_shrink) (auto simp: calm_other_rows(6) dest: calm_other_rows(5) [THEN subsetD])
qed (simp_all add: calm_Dispatch calm_take_work calm_start_delivery calm_poll_retries calm_finish_delivery [OF _ _ refl])

lemma calm_empty: "calm_inv engine_empty"
  using engine_empty_inv by (simp add: calm_inv_def engine_empty_def held_def wh_empty_def)

interpretation calm: transition_system calm_step calm_inv
  by unfold_locales (auto dest: calm_step_ok)

lemma calm_later: "calm_step\<^sup>*\<^sup>* s t \<Longrightarrow> calm_inv s \<Longrightarrow> del_later s t"
  using calm_step_ok by (intro calm.reachable_law [of s t del_later] del_later_refl) (auto intro: del_later_trans)

text \<open>
  As long as no statement fails, the process is not restarted and the retry poller only runs when
  nothing that is due is queued or in flight: a delivery is attempted at most three times; it is
  dead-lettered after exactly three attempts, never earlier; one that was delivered or dead-lettered at some
  time is, as long as it is stored, the same row at every later time; and the attempts of a row never go down.
\<close>

theorem webhook_retry_limit:
  assumes "calm_step\<^sup>*\<^sup>* engine_empty s" "calm_step\<^sup>*\<^sup>* s t"
  shows "(\<forall>r \<in> set (wd_dels (eg_db t)). 0 \<le> dv_Attempts r \<and> dv_Attempts r \<le> 3 \<and>
      (dv_Status r = DDeadLettered \<longrightarrow> dv_Attempts r = 3) \<and> (dv_Status r = DDelivered \<longrightarrow> 1 \<le> dv_Attempts r)) \<and>
    (\<forall>q \<in> set (wd_dels (eg_db s)). \<forall>r \<in> set (wd_dels (eg_db t)). dv_ID r = dv_ID q \<longrightarrow>
      dv_Attempts q \<le> dv_Attempts r \<and> (dv_Status q = DDelivered \<or> dv_Status q = DDeadLettered \<longrightarrow> r = q))"
proof -
  have s: "calm_inv s" using calm.reachable_inv [OF assms(1) calm_empty] .
  have t: "calm_inv t" using calm.reachable_inv [OF assms(2) s] .
  have ids: "ids_ok dv_ID (wd_del_seq (eg_db s)) (wd_dels (eg_db s))"
    using calm_invD(1) [OF s] by (simp add: engine_inv_def wh_inv_def)
  have "dv_Attempts q \<le> dv_Attempts r \<and> (final q \<longrightarrow> r = q)"
    if q: "q \<in> set (wd_dels (eg_db s))" and r: "r \<in> set (wd_dels (eg_db t))" "dv_ID r = dv_ID q" for q r
  proof -
    have "dv_ID r \<le> wd_del_seq (eg_db s)" using ids q r(2) by (auto simp: ids_ok_def)
    with calm_later [OF assms(2) s] r(1) obtain p where p: "p \<in> set (wd_dels (eg_db s))" "dv_ID p = dv_ID r"
      "dv_Attempts p \<le> dv_Attempts r" "final p \<longrightarrow> r = p" by (auto simp: del_later_def dest!: bspec)
    with ids_ok_unique [OF ids p(1) q] r(2) show ?thesis by simp
  qed
  moreover have "0 \<le> dv_Attempts r \<and> dv_Attempts r \<le> 3 \<and> (dv_Status r = DDeadLettered \<longrightarrow> dv_Attempts r = 3) \<and>
      (dv_Status r = DDelivered \<longrightarrow> 1 \<le> dv_Attempts r)" if "r \<in> set (wd_dels (eg_db t))" for r
    using calm_invD(4) [OF t that] by (simp add: row_ok_def maxAttempts_def)
  ultimately show ?thesis by (simp add: final_def)
qed

text \<open>A sample run: one webhook, one event for its owner, the first attempt made at time 10.\<close>

definition sample_hooked :: engine where
  "sample_hooked = engine_empty\<lparr>eg_db := snd (RegisterWebhook calm (\<lambda>x. x) (\<lambda>_. None) False False [''ann''] 0 ''ann''
     ''https://h/'' (Some \<lparr>pu_Scheme = ''https'', pu_Hostname = ''h'', pu_Literal = None\<rparr>) [''message.received''] ''k'' (eg_db engine_empty))\<rparr>"

definition sample_event :: MessageEvent where
  "sample_event = \<lparr>ev_EventType = ''message.received'', ev_MessageID = 7, ev_FromAgent = ''bob'', ev_ToAgent = ''ann'',
     ev_Channel = '''', ev_Body = ''hi'', ev_Priority = 5, ev_Metadata = JNull, ev_Depth = 0, ev_MentionedAgents = []\<rparr>"

definition sample_sent :: engine where
  "sample_sent = start_delivery calm False 0 (take_work (snd (Dispatch calm 0 sample_event sample_hooked)))"

definition sample_end :: "timestamp \<Rightarrow> int \<Rightarrow> engine \<Rightarrow> engine" where
  "sample_end now code s =
     s\<lparr>eg_db := finish_delivery calm now (Response code) (eg_busy s ! 0) (eg_db s), eg_busy := remove_nth 0 (eg_busy s)\<rparr>"

lemma sample_sent_reachable: "calm_step\<^sup>*\<^sup>* engine_empty sample_sent"
proof -
  have "calm_step engine_empty sample_hooked" unfolding sample_hooked_def by (rule calm_register)
  moreover have "calm_step sample_hooked (snd (Dispatch calm 0 sample_event sample_hooked))" by (rule calm_dispatch)
  moreover have "calm_step (snd (Dispatch calm 0 sample_event sample_hooked)) (take_work (snd (Dispatch calm 0 sample_event sample_hooked)))"
    by (rule calm_take) code_simp
  moreover have "calm_step (take_work (snd (Dispatch calm 0 sample_event sample_hooked))) sample_sent"
    unfolding sample_sent_def by (rule calm_start) code_simp
  ultimately show ?thesis
    by (rule rtranclp_trans [OF rtranclp_trans [OF r_into_rtranclp r_into_rtranclp] rtranclp_trans [OF r_into_rtranclp r_into_rtranclp]])
qed

lemma sample_end_step: "0 < length (eg_busy s) \<Longrightarrow> calm_step s (sample_end now code s)"
  unfolding sample_end_def by (rule calm_finish)

lemma calm_run_engine: "calm_step\<^sup>*\<^sup>* s t \<Longrightarrow> engine_step\<^sup>*\<^sup>* s t"
  by (induction rule: rtranclp_induct) (auto dest: calm_step_engine)

theorem webhook_engine_invariant_witness:
  "engine_step\<^sup>*\<^sup>* engine_empty sample_sent \<and> length (eg_busy sample_sent) = 1 \<and> engine_inv sample_sent"
proof -
  have "engine_step\<^sup>*\<^sup>* engine_empty sample_sent" using sample_sent_reachable by (rule calm_run_engine)
  moreover have "length (eg_busy sample_sent) = 1" by code_simp
  moreover note webhook_engine_invariant
  ultimately show ?thesis by blast
qed

theorem webhook_retry_limit_witness:
  "\<exists>s t. calm_step\<^sup>*\<^sup>* engine_empty s \<and> calm_step\<^sup>*\<^sup>* s t \<and> map dv_Status (wd_dels (eg_db t)) = [DDelivered] \<and>
     (\<forall>r \<in> set (wd_dels (eg_db t)). 0 \<le> dv_Attempts r \<and> dv_Attempts r \<le> 3)"
proof -
  have "0 < length (eg_busy sample_sent)" by code_simp
  then have t: "calm_step\<^sup>*\<^sup>* sample_sent (sample_end 10 200 sample_sent)"
    by (intro r_into_rtranclp sample_end_step)
  moreover have "map dv_Status (wd_dels (eg_db (sample_end 10 200 sample_sent))) = [DDelivered]" by code_simp
  moreover note sample_sent_reachable webhook_retry_limit [OF sample_sent_reachable t]
  ultimately show ?thesis by (intro exI [of _ sample_sent] exI [of _ "sample_end 10 200 sample_sent"]) simp
qed

text \<open>
  The condition on the poller is needed. A poll that comes while a retry is still queued or in flight queues
  the same delivery a second time: the webhook receives the message twice, and a delivery that one worker has marked
  as delivered goes back to retrying when the request of the other worker fails.
\<close>

theorem webhook_double_poll:
  "\<exists>s t. engine_step\<^sup>*\<^sup>* engine_empty s \<and> engine_step\<^sup>*\<^sup>* s t \<and>
     (\<exists>q \<in> set (wd_dels (eg_db s)). \<exists>r \<in> set (wd_dels (eg_db t)).
        dv_ID r = dv_ID q \<and> dv_Status q = DDelivered \<and> dv_Status r = DRetrying)"
proof -
  define a where "a = processRetries calm 25 (processRetries calm 20 (sample_end 10 500 sample_sent))"
  define b where "b = start_delivery calm False 0 (start_delivery calm False 0 (take_work (take_work a)))"
  have steps: "engine_step\<^sup>*\<^sup>* engine_empty (sample_end 10 500 sample_sent)"
  proof -
    have "calm_step sample_sent (sample_end 10 500 sample_sent)" by (rule sample_end_step) code_simp
    with sample_sent_reachable have "calm_step\<^sup>*\<^sup>* engine_empty (sample_end 10 500 sample_sent)" by simp
    then show ?thesis by (rule calm_run_engine)
  qed
  have "engine_step\<^sup>*\<^sup>* engine_empty a"
    unfolding a_def using steps by (meson engine_step.poll rtranclp.rtrancl_into_rtrancl)
  moreover have "engine_step a (take_work a)" "engine_step (take_work a) (take_work (take_work a))"
    unfolding a_def b_def by (rule engine_step.take, code_simp)+
  moreover have "engine_step (take_work (take_work a)) (start_delivery calm False 0 (take_work (take_work a)))"
    "engine_step (start_delivery calm False 0 (take_work (take_work a))) b"
    unfolding a_def b_def by (rule engine_step.start, code_simp)+
  ultimately have "engine_step\<^sup>*\<^sup>* engine_empty b" by simp
  moreover have "engine_step b (sample_end 30 200 b)"
    unfolding a_def b_def sample_end_def by (rule engine_step.finish) code_simp
  ultimately have s: "engine_step\<^sup>*\<^sup>* engine_empty (sample_end 30 200 b)" by simp
  have t: "engine_step (sample_end 30 200 b) (sample_end 31 500 (sample_end 30 200 b))"
    unfolding sample_end_def [of 31] by (rule engine_step.finish) (unfold a_def b_def, code_simp)
  have "map (\<lambda>d. (dv_ID d, dv_Status d)) (wd_dels (eg_db (sample_end 30 200 b))) = [(1, DDelivered)]"
    "map (\<lambda>d. (dv_ID d, dv_Status d)) (wd_dels (eg_db (sample_end 31 500 (sample_end 30 200 b)))) = [(1, DRetrying)]"
    unfolding a_def b_def by code_simp+
  with s t show ?thesis
    by (intro exI [of _ "sample_end 30 200 b"] exI [of _ "sample_end 31 500 (sample_end 30 200 b)"]) auto
qed

section \<open>Deliveries the queue has dropped\<close>

text \<open>A full queue: the delivery is stored as pending, and no copy of it is held.\<close>

lemma full_queue_drops:
  assumes inv: "calm_inv s" and full: "length (eg_queue s) = queueSize" and w: "w \<in> set (wd_hooks (eg_db s))"
  defines "i \<equiv> wd_del_seq (eg_db s) + 1"
  shows "\<exists>r \<in> set (wd_dels (eg_db (dispatch_each calm now ev [w] s))).
      dv_ID r = i \<and> dv_Status r = DPending \<and> i \<notin> wid ` held (dispatch_each calm now ev [w] s)"
proof -
  have "i \<notin> wid ` held s" using calm_invD(3) [OF inv] by (force simp: in_step_def wid_def i_def)
  then show ?thesis using w full
    by (auto simp: InsertDelivery_def Let_def enqueue_def new_delivery_def held_def i_def)
qed

definition stranded :: "WebhookDelivery \<Rightarrow> engine \<Rightarrow> bool" where
  "stranded r s \<longleftrightarrow> calm_inv s \<and> dv_Status r = DPending \<and> dv_ID r \<le> wd_del_seq (eg_db s) \<and> dv_ID r \<notin> wid ` held s \<and>
     (\<forall>q \<in> set (wd_dels (eg_db s)). dv_ID q = dv_ID r \<longrightarrow> q = r)"

lemma stranded_change:
  assumes st: "stranded r s" and rc: "row_change s x f db" and t: "eg_db t = db" "calm_inv t" "wid ` held t \<subseteq> wid ` held s"
  shows "stranded r t"
proof -
  have "dv_ID r \<noteq> wid x" using st rc by (auto simp: stranded_def row_change_def)
  moreover have "dv_ID (f q) = dv_ID q" for q using rc by (simp add: row_change_def)
  ultimately have "q = r" if "q \<in> set (wd_dels db)" "dv_ID q = dv_ID r" for q
    using st that by (auto simp: stranded_def elim!: row_change_cases [OF rc])
  with st t rc show ?thesis by (auto simp: stranded_def row_change_def)
qed

lemma stranded_dispatch_each:
  "stranded r s \<Longrightarrow> calm_inv (dispatch_each flt now ev ws s) \<Longrightarrow> stranded r (dispatch_each flt now ev ws s)"
proof -
  have "wd_del_seq (eg_db s) \<le> wd_del_seq (eg_db t) \<and> (\<forall>i \<le> wd_del_seq (eg_db s). i \<in> wid ` held t \<longrightarrow> i \<in> wid ` held s) \<and>
      (\<forall>q \<in> set (wd_dels (eg_db t)). dv_ID q \<le> wd_del_seq (eg_db s) \<longrightarrow> q \<in> set (wd_dels (eg_db s)))"
    if "t = dispatch_each flt now ev ws s" for t s using that
  proof (induction ws arbitrary: s)
    case (Cons w ws)
    obtain y db where ins: "InsertDelivery (flt (WInsertDelivery (wh_ID w))) now (new_delivery now ev w) (eg_db s) = (y, db)"
      by (cases "InsertDelivery (flt (WInsertDelivery (wh_ID w))) now (new_delivery now ev w) (eg_db s)") simp
    show ?case
    proof (cases y)
      case (Inl e)
      with Cons ins InsertDelivery_result(2) [OF ins [unfolded Inl]] show ?thesis by simp
    next
      case (Inr d)
      note rows = insert_del_rows [OF ins [unfolded Inr]]
      let ?m = "s\<lparr>eg_db := db, eg_queue := enqueue (d, w) (eg_queue s)\<rparr>"
      have "t = dispatch_each flt now ev ws ?m" using Cons.prems ins Inr by simp
      from Cons.IH [OF this] rows have "wd_del_seq (eg_db s) \<le> wd_del_seq (eg_db t)"
        "\<forall>i \<le> wd_del_seq (eg_db s). i \<in> wid ` held t \<longrightarrow> i \<in> wid ` held ?m"
        "\<forall>q \<in> set (wd_dels (eg_db t)). dv_ID q \<le> wd_del_seq (eg_db s) \<longrightarrow> q \<in> set (wd_dels (eg_db ?m))" by auto
      moreover have "i \<in> wid ` held s" if "i \<le> wd_del_seq (eg_db s)" "i \<in> wid ` held ?m" for i
        using that rows(3) by (auto simp: held_def wid_def enqueue_def split: if_splits)
      moreover have "q \<in> set (wd_dels (eg_db s))" if "q \<in> set (wd_dels (eg_db ?m))" "dv_ID q \<le> wd_del_seq (eg_db s)" for q
        using that rows by auto
      ultimately show ?thesis by blast
    qed
  qed auto
  from this [OF refl] show "stranded r s \<Longrightarrow> calm_inv (dispatch_each flt now ev ws s) \<Longrightarrow> stranded r (dispatch_each flt now ev ws s)"
    unfolding stranded_def by (metis order_trans)
qed

lemma stranded_step: "calm_step s t \<Longrightarrow> stranded r s \<Longrightarrow> stranded r t"
proof (induction rule: calm_step.induct)
  case (calm_dispatch s now ev)
  have "calm_inv (snd (Dispatch calm now ev s))" using calm_Dispatch calm_dispatch by (simp add: stranded_def)
  with calm_dispatch show ?case
    by (auto simp: Dispatch_def split: sum.splits if_splits intro: stranded_dispatch_each)
next
  case (calm_take s)
  moreover have "calm_inv (take_work s)" using calm_take calm_take_work by (simp add: stranded_def)
  moreover have "held (take_work s) = held s" "eg_db (take_work s) = eg_db s"
    by (auto simp: held_def take_work_def split: list.splits)
  ultimately show ?case by (simp add: stranded_def)
next
  case (calm_start k s)
  have inv: "calm_inv s" using calm_start by (simp add: stranded_def)
  obtain d w where dw: "eg_waiting s ! k = (d, w)" by (cases "eg_waiting s ! k")
  have x: "(d, w) \<in> set (eg_waiting s)" using calm_start(1) dw by (metis nth_mem)
  have "wid (d, w) \<in> wid ` held s" using x by (auto simp: held_def)
  then have "wid ` held (start_delivery calm False k s) \<subseteq> wid ` held s"
    using set_remove_nth [of k "eg_waiting s"] by (auto simp: held_def start_delivery_def dw wid_def)
  then show ?case
    using stranded_change [OF calm_start(2) start_change [OF inv calm_start(1) dw] refl] calm_start_delivery [OF inv calm_start(1)]
    by simp
next
  case (calm_finish k s now res)
  let ?t = "s\<lparr>eg_db := finish_delivery calm now res (eg_busy s ! k) (eg_db s), eg_busy := remove_nth k (eg_busy s)\<rparr>"
  have inv: "calm_inv s" using calm_finish by (simp add: stranded_def)
  obtain d w where dw: "eg_busy s ! k = (d, w)" by (cases "eg_busy s ! k")
  have "(d, w) \<in> set (eg_busy s)" using calm_finish(1) dw by (metis nth_mem)
  then obtain h e n l where rc: "row_change s (d, w) (set_outcome (end_status res (dv_Attempts d)) h e n l) (eg_db ?t)"
    by (rule finish_change [OF inv, of d w res now]) (auto simp: dw)
  show ?case
    using calm_finish_delivery [OF inv calm_finish(1) refl, of now res] set_remove_nth [of k "eg_busy s"]
    by (intro stranded_change [OF calm_finish(2) rc refl]) (auto simp: held_def)
next
  case (calm_poll now s)
  let ?ds = "limit_offset 50 0 (sort_key (\<lambda>d. the (dv_NextRetryAt d)) (filter (due now) (wd_dels (eg_db s))))"
  let ?q = "requeue_each calm (eg_db s) ?ds (eg_queue s)"
  have t: "processRetries calm now s = s\<lparr>eg_queue := ?q\<rparr>"
    by (simp add: processRetries_def GetRetryableDeliveries_def fifty_def)
  have "dv_ID d \<noteq> dv_ID r" if "d \<in> set ?ds" for d
    using subsetD [OF set_limit_offset that] calm_poll by (auto simp: stranded_def due_def)
  then have "wid x \<noteq> dv_ID r" if "x \<in> set ?q" for x
  proof (cases "x \<in> set (eg_queue s)")
    case True
    then have "wid x \<in> wid ` held s" by (simp add: held_def)
    then show ?thesis using calm_poll(2) by (auto simp: stranded_def)
  next
    case False
    then show ?thesis using subsetD [OF set_requeue_each that] \<open>\<And>d. d \<in> set ?ds \<Longrightarrow> dv_ID d \<noteq> dv_ID r\<close>
      by (auto simp: wid_def)
  qed
  then have "dv_ID r \<notin> wid ` set ?q" unfolding image_iff bex_simps eq_commute [of "dv_ID r"] by blast
  moreover have "calm_inv (s\<lparr>eg_queue := ?q\<rparr>)" using calm_poll_retries [of s now] calm_poll by (simp add: stranded_def t)
  ultimately show ?case using calm_poll(2) unfolding stranded_def held_def t by (simp add: image_Un)
qed (auto simp: stranded_def held_def calm_other_rows purge_dead_letters_def dest: calm_step_ok [OF calm_step.calm_register]
     calm_step_ok [OF calm_step.calm_delete] calm_step_ok [OF calm_step.calm_purge] calm_other_rows(3,5) [THEN subsetD])

text \<open>
  A pending delivery of which no copy is queued or in flight, which is what a full queue leaves behind,
  is never attempted while the process runs: no poll of the retries picks it up, since the poll reads
  retrying deliveries only. At every later time its row is the same pending row or has been deleted.
\<close>

theorem webhook_stranded:
  assumes s: "calm_inv s" and run: "calm_step\<^sup>*\<^sup>* s t"
    and r: "r \<in> set (wd_dels (eg_db s))" "dv_Status r = DPending"
      "\<forall>(d, w) \<in> set (eg_queue s) \<union> set (eg_waiting s) \<union> set (eg_busy s). dv_ID d \<noteq> dv_ID r"
  shows "\<forall>q \<in> set (wd_dels (eg_db t)). dv_ID q = dv_ID r \<longrightarrow> q = r"
proof -
  have ids: "ids_ok dv_ID (wd_del_seq (eg_db s)) (wd_dels (eg_db s))"
    using calm_invD(1) [OF s] by (simp add: engine_inv_def wh_inv_def)
  have "dv_ID r \<notin> wid ` held s" using r(3) by (fastforce simp: held_def wid_def)
  moreover have "dv_ID r \<le> wd_del_seq (eg_db s)" using ids r(1) by (auto simp: ids_ok_def)
  moreover have "\<forall>q \<in> set (wd_dels (eg_db s)). dv_ID q = dv_ID r \<longrightarrow> q = r" using ids_ok_unique [OF ids _ r(1)] by blast
  ultimately have "stranded r s" using s r(2) by (simp add: stranded_def)
  with run have "stranded r t"
    by (induction rule: rtranclp_induct) (auto intro: stranded_step)
  then show ?thesis by (simp add: stranded_def)
qed

lemma sample_lost:
  assumes "s = (snd (Dispatch calm 0 sample_event sample_hooked))\<lparr>eg_queue := []\<rparr>"
  shows "calm_inv s \<and> map dv_ID (wd_dels (eg_db s)) = [1] \<and> map dv_Status (wd_dels (eg_db s)) = [DPending]"
proof -
  have "calm_step engine_empty sample_hooked" unfolding sample_hooked_def by (rule calm_register)
  with calm_step_ok calm_empty calm_Dispatch have "calm_inv (snd (Dispatch calm 0 sample_event sample_hooked))" by blast
  moreover have "eg_waiting (snd (Dispatch calm 0 sample_event sample_hooked)) = []"
    "eg_busy (snd (Dispatch calm 0 sample_event sample_hooked)) = []" by code_simp+
  ultimately have "calm_inv s" by (simp add: assms calm_inv_def engine_inv_def held_def)
  moreover have "map dv_ID (wd_dels (eg_db s)) = [1]" "map dv_Status (wd_dels (eg_db s)) = [DPending]"
    unfolding assms by code_simp+
  ultimately show ?thesis by simp
qed

theorem webhook_stranded_witness:
  "\<exists>s t r. calm_step\<^sup>*\<^sup>* s t \<and> r \<in> set (wd_dels (eg_db s)) \<and> dv_Status r = DPending \<and>
     t = processRetries calm 100 s \<and> (\<forall>q \<in> set (wd_dels (eg_db t)). dv_ID q = dv_ID r \<longrightarrow> q = r)"
proof -
  let ?s = "(snd (Dispatch calm 0 sample_event sample_hooked))\<lparr>eg_queue := []\<rparr>"
  have s: "calm_inv ?s" and "map dv_Status (wd_dels (eg_db ?s)) = [DPending]" using sample_lost [OF refl] by auto
  then obtain r where r: "r \<in> set (wd_dels (eg_db ?s))" "dv_Status r = DPending" by (auto simp: map_eq_Cons_conv)
  have none: "set (eg_queue ?s) \<union> set (eg_waiting ?s) \<union> set (eg_busy ?s) = {}" by code_simp
  have "quiet 100 ?s" using none by (simp add: quiet_def held_def)
  then have "calm_step\<^sup>*\<^sup>* ?s (processRetries calm 100 ?s)" by (intro r_into_rtranclp calm_poll)
  moreover have "\<forall>q \<in> set (wd_dels (eg_db (processRetries calm 100 ?s))). dv_ID q = dv_ID r \<longrightarrow> q = r"
    using none by (intro webhook_stranded [OF s calculation r]) simp
  ultimately show ?thesis using r by (intro exI [of _ ?s] exI [of _ "processRetries calm 100 ?s"] exI [of _ r]) simp
qed

end
