(* ===== verification/Reactor.thy ===== *)
theory Reactor
  imports Stalemate
begin

text \<open>
  The reactor: \<open>internal/reactor/reactor.go\<close>, \<open>store.go\<close>, \<open>poller.go\<close>, \<open>notifier.go\<close> and
  \<open>Resolve\<close> of \<open>internal/harness/registry.go\<close>.

  \<^item> The state \<open>reactor\<close> holds the table \<open>reactive_runs\<close>, the agents, the goroutines that wait
    for a harness (\<open>rct_flying\<close>) and the calls made to the outside so far (\<open>rct_out\<close>): jobs and
    executions started, reactions set, owners notified.
  \<^item> The record \<open>rct_env\<close> is the surroundings of one call: the time in nanoseconds, the statements
    that fail, what the Kubernetes runner answers, the harnesses that are registered, the optional
    collaborators, and the results of JSON parsing and of SQLite's date arithmetic in floating point.
    A handler reads the clock once.
  \<^item> Time stamps are stored in the RFC 3339 format, that is in whole seconds.
\<close>

section \<open>Data\<close>

text \<open>The fields of \<open>agents.Agent\<close> that the reactor reads or writes; \<open>ag_Active\<close> is \<open>status = 'active'\<close>.\<close>

record Agent =
  ag_ID :: id64
  ag_Name :: string
  ag_Type :: string
  ag_OwnerID :: id64
  ag_Active :: bool
  ag_TriggerMode :: string
  ag_CooldownSeconds :: int
  ag_DailyTriggerBudget :: int
  ag_MaxTriggerDepth :: int
  ag_K8sImage :: string
  ag_K8sEnvJSON :: string
  ag_K8sResourcePreset :: string
  ag_PendingWork :: bool
  ag_HarnessName :: string
  ag_LocalCommand :: string
  ag_HarnessConfigJSON :: string
  ag_QuarantinedAt :: "timestamp option"
  ag_QuarantineReason :: string

datatype run_status =
    StatusQueued
  | StatusRunning
  | StatusSucceeded
  | StatusFailed
  | StatusCooldownSkipped
  | StatusBudgetExhausted
  | StatusDepthExceeded

record ReactiveRun =
  rr_ID :: id64
  rr_AgentName :: string
  rr_TriggerMessageID :: "id64 option"
  rr_TriggerEvent :: string
  rr_TriggerDepth :: int
  rr_TriggerFrom :: string
  rr_Status :: run_status
  rr_K8sJobName :: string
  rr_K8sNamespace :: string
  rr_StartedAt :: "timestamp option"
  rr_CompletedAt :: "timestamp option"
  rr_DurationMs :: "int option"
  rr_ErrorLog :: string
  rr_CreatedAt :: timestamp

record K8sHandler =
  kh_AgentName :: string
  kh_Image :: string
  kh_Events :: "string list"
  kh_Namespace :: string
  kh_ResourcesMemory :: string
  kh_ResourcesCPU :: string
  kh_Env :: "string \<rightharpoonup> string"
  kh_TimeoutSeconds :: int
  kh_Status :: string
  kh_Args :: "string list"
  kh_VolumeMounts :: "(string \<times> string \<times> bool) list"
  kh_Volumes :: "(string \<times> string \<times> bool) list"

record JobMessage =
  jm_MessageID :: id64
  jm_FromAgent :: string
  jm_Body :: string
  jm_Event :: string
  jm_Channel :: string
  jm_Timestamp :: timestamp

record ExecRequest =
  er_AgentName :: string
  er_ReactiveRunID :: id64
  er_MessageID :: id64
  er_FromAgent :: string
  er_ToAgent :: string
  er_Body :: string
  er_Env :: "string \<rightharpoonup> string"

datatype rct_effect =
    CreateJob K8sHandler JobMessage
  | Execute ExecRequest
  | AddReaction id64 string string
  | SendFailure string string

text \<open>A goroutine in \<open>runHarness\<close>: the run, its agent, the event and the time it began.\<close>

type_synonym flight = "id64 \<times> Agent \<times> MessageEvent \<times> timestamp"

record reactor =
  rct_runs :: "ReactiveRun list"
  rct_seq :: id64
  rct_agents :: "Agent list"
  rct_flying :: "flight list"
  rct_out :: "rct_effect list"

datatype rct_stmt =
    RxAgent | RxCount | RxLast | RxRunning | RxSkip | RxInsert | RxSetPending | RxClearPending
  | RxComplete | RxOwner | RxActive | RxGetRun | RxList

text \<open>A value of \<open>k8s_env_json\<close>: one that decodes to a string, or the text of another JSON value.\<close>

datatype env_value = EnvText string | EnvRaw string

record rct_env =
  re_now :: timestamp
  re_fault :: "rct_stmt \<Rightarrow> bool"
  re_available :: bool
  re_job :: "string + string"
  re_namespace :: string
  re_registry :: "string list option"
  re_notifier :: bool
  re_reactions :: bool
  re_secrets :: "(string \<rightharpoonup> string) option"
  re_env_json :: "string \<Rightarrow> (string \<times> env_value) list option"
  re_julian_ms :: "timestamp \<Rightarrow> timestamp \<Rightarrow> int"

datatype rct_error =
    RxStatementFailed
  | NoBackend string
  | CreateJobFailed string
  | RunNotFound
  | OnlyFailedRuns run_status
  | AgentNotFound
  | NewRunNotFound

section \<open>Store\<close>

definition nanos :: int where
  "nanos = 1000000000"

text \<open>RFC 3339 drops the fraction of a second.\<close>

definition rfc3339 :: "timestamp \<Rightarrow> timestamp" where
  "rfc3339 t = t - t mod nanos"

definition start_of_day :: "timestamp \<Rightarrow> timestamp" where
  "start_of_day t = t - t mod (86400 * nanos)"

definition InsertRun :: "bool \<Rightarrow> timestamp \<Rightarrow> ReactiveRun \<Rightarrow> reactor \<Rightarrow> (rct_error + id64) \<times> reactor" where
  "InsertRun failed now run s =
     (if failed \<or> rr_AgentName run \<notin> set (map ag_Name (rct_agents s)) then (Inl RxStatementFailed, s)
      else let i = rct_seq s + 1 in
        (Inr i, s\<lparr>rct_seq := i, rct_runs := rct_runs s @
           [run\<lparr>rr_ID := i, rr_StartedAt := map_option rfc3339 (rr_StartedAt run), rr_CompletedAt := None,
                rr_DurationMs := None, rr_CreatedAt := rfc3339 now\<rparr>]\<rparr>))"

definition CompleteRun ::
  "bool \<Rightarrow> (timestamp \<Rightarrow> timestamp \<Rightarrow> int) \<Rightarrow> id64 \<Rightarrow> run_status \<Rightarrow> string \<Rightarrow> timestamp \<Rightarrow> reactor \<Rightarrow> reactor" where
  "CompleteRun failed julian i st errorLog completed s =
     (if failed then s
      else s\<lparr>rct_runs := update_where (\<lambda>r. rr_ID r = i)
        (\<lambda>r. r\<lparr>rr_Status := st, rr_ErrorLog := errorLog, rr_CompletedAt := Some (rfc3339 completed),
               rr_DurationMs := map_option (\<lambda>t. julian (rfc3339 completed) t) (rr_StartedAt r)\<rparr>) (rct_runs s)\<rparr>)"

definition GetRunByID :: "bool \<Rightarrow> id64 \<Rightarrow> reactor \<Rightarrow> ReactiveRun option" where
  "GetRunByID failed i s = (if failed then None else find_row (\<lambda>r. rr_ID r = i) (rct_runs s))"

definition ListRuns ::
  "bool \<Rightarrow> string \<Rightarrow> run_status option \<Rightarrow> int \<Rightarrow> int \<Rightarrow> reactor \<Rightarrow> rct_error + ReactiveRun list \<times> nat" where
  "ListRuns failed agent st limit offset s =
     (if failed then Inl RxStatementFailed
      else let hits = filter (\<lambda>r. (agent \<noteq> '''' \<longrightarrow> rr_AgentName r = agent) \<and>
                 (case st of None \<Rightarrow> True | Some x \<Rightarrow> rr_Status r = x)) (rct_runs s)
        in Inr (limit_offset limit offset (sort_key (\<lambda>r. - rr_CreatedAt r) hits), length hits))"

definition GetActiveRuns :: "bool \<Rightarrow> reactor \<Rightarrow> rct_error + ReactiveRun list" where
  "GetActiveRuns failed s =
     (if failed then Inl RxStatementFailed else Inr (filter (\<lambda>r. rr_Status r = StatusRunning) (rct_runs s)))"

text \<open>The runs that count against the limits of an agent.\<close>

definition countable :: "string \<Rightarrow> ReactiveRun \<Rightarrow> bool" where
  "countable a r \<longleftrightarrow> rr_AgentName r = a \<and>
     (rr_Status r = StatusRunning \<or> rr_Status r = StatusSucceeded \<or> rr_Status r = StatusFailed)"

definition CountTodayRuns :: "bool \<Rightarrow> timestamp \<Rightarrow> string \<Rightarrow> reactor \<Rightarrow> rct_error + int" where
  "CountTodayRuns failed now a s =
     (if failed then Inl RxStatementFailed
      else Inr (int (length (filter (\<lambda>r. countable a r \<and> start_of_day now \<le> rr_CreatedAt r) (rct_runs s)))))"

definition GetLastRunTime :: "bool \<Rightarrow> string \<Rightarrow> reactor \<Rightarrow> rct_error + timestamp option" where
  "GetLastRunTime failed a s =
     (if failed then Inl RxStatementFailed
      else Inr (case filter (countable a) (rct_runs s) of
                  [] \<Rightarrow> None
                | r # rs \<Rightarrow> Some (foldl max (rr_CreatedAt r) (map rr_CreatedAt rs))))"

definition IsAgentRunning :: "bool \<Rightarrow> string \<Rightarrow> reactor \<Rightarrow> rct_error + bool" where
  "IsAgentRunning failed a s =
     (if failed then Inl RxStatementFailed
      else Inr (list_ex (\<lambda>r. rr_AgentName r = a \<and> rr_Status r = StatusRunning) (rct_runs s)))"

text \<open>The calls on the agent store.\<close>

definition GetAgentByName :: "bool \<Rightarrow> string \<Rightarrow> reactor \<Rightarrow> Agent option" where
  "GetAgentByName failed a s =
     (if failed then None else find_row (\<lambda>x. ag_Name x = a \<and> ag_Active x) (rct_agents s))"

definition GetHumanAgentByOwner :: "bool \<Rightarrow> id64 \<Rightarrow> reactor \<Rightarrow> Agent option" where
  "GetHumanAgentByOwner failed owner s =
     (if failed then None
      else find_row (\<lambda>x. ag_OwnerID x = owner \<and> ag_Type x = ''human'' \<and> ag_Active x) (rct_agents s))"

definition SetPendingWork :: "bool \<Rightarrow> string \<Rightarrow> bool \<Rightarrow> reactor \<Rightarrow> reactor" where
  "SetPendingWork failed a pending s =
     (if failed then s
      else s\<lparr>rct_agents := update_where (\<lambda>x. ag_Name x = a \<and> ag_Active x)
             (\<lambda>x. x\<lparr>ag_PendingWork := pending\<rparr>) (rct_agents s)\<rparr>)"

section \<open>Backends\<close>

datatype backend = BackendK8s | BackendSubprocess | BackendDocker | BackendWebhook | BackendNone

definition str_contains :: "string \<Rightarrow> string \<Rightarrow> bool" where
  "str_contains t s = list_ex (\<lambda>i. take (length t) (drop i s) = t) [0 ..< Suc (length s)]"

definition harness_backend :: "string \<Rightarrow> backend option" where
  "harness_backend h =
     (if h = ''k8sjob'' then Some BackendK8s
      else if h = ''subprocess'' then Some BackendSubprocess
      else if h = ''docker'' then Some BackendDocker
      else if h = ''webhook'' then Some BackendWebhook
      else None)"

definition docker_key :: string where
  "docker_key = CHR 0x22 # ''docker'' @ [CHR 0x22]"

definition url_key :: string where
  "url_key = CHR 0x22 # ''url'' @ [CHR 0x22]"

definition agentBackendKind :: "Agent \<Rightarrow> backend" where
  "agentBackendKind a =
     (case harness_backend (ag_HarnessName a) of
        Some b \<Rightarrow> b
      | None \<Rightarrow>
          if ag_K8sImage a \<noteq> '''' then BackendK8s
          else if ag_HarnessConfigJSON a \<noteq> '''' \<and> str_contains docker_key (ag_HarnessConfigJSON a) then BackendDocker
          else if ag_LocalCommand a \<noteq> '''' then BackendSubprocess
          else if ag_HarnessConfigJSON a \<noteq> '''' \<and> str_contains url_key (ag_HarnessConfigJSON a) then BackendWebhook
          else BackendNone)"

text \<open>\<open>Registry.Resolve\<close> without a custom policy, over the names that are registered.\<close>

definition Resolve :: "string list \<Rightarrow> Agent \<Rightarrow> rct_error + string" where
  "Resolve names a =
     (if ag_HarnessName a \<noteq> '''' \<and> ag_HarnessName a \<in> set names then Inr (ag_HarnessName a)
      else if ag_K8sImage a \<noteq> '''' \<and> ''k8sjob'' \<in> set names then Inr ''k8sjob''
      else if ag_HarnessConfigJSON a \<noteq> '''' \<and> str_contains docker_key (ag_HarnessConfigJSON a) \<and> ''docker'' \<in> set names
        then Inr ''docker''
      else if ag_LocalCommand a \<noteq> '''' \<and> ''subprocess'' \<in> set names then Inr ''subprocess''
      else if ag_HarnessConfigJSON a \<noteq> '''' \<and> str_contains url_key (ag_HarnessConfigJSON a) \<and> ''webhook'' \<in> set names
        then Inr ''webhook''
      else case find (\<lambda>n. n \<in> set names) [''k8sjob'', ''subprocess'', ''webhook''] of
             Some n \<Rightarrow> Inr n
           | None \<Rightarrow> Inl (NoBackend (ag_Name a)))"

text \<open>Steps 3 and 4 of the decision chain: why no backend can take the run.\<close>

definition backend_refusal :: "rct_env \<Rightarrow> Agent \<Rightarrow> string option" where
  "backend_refusal env a =
     (case agentBackendKind a of
        BackendNone \<Rightarrow> Some ''no backend configured (set k8s_image, local_command, or harness_config_json.url)''
      | BackendK8s \<Rightarrow> if re_available env then None else Some ''K8s runner not available''
      | _ \<Rightarrow>
          (case re_registry env of
             None \<Rightarrow> Some ''harness registry not wired''
           | Some names \<Rightarrow>
               (case Resolve names a of
                  Inr h \<Rightarrow> None
                | Inl e \<Rightarrow> Some (''harness resolve: harness: no backend available for agent: agent='' @
                    CHR 0x22 # ag_Name a @ [CHR 0x22]))))"

section \<open>Notifications\<close>

definition react :: "rct_env \<Rightarrow> id64 \<Rightarrow> string \<Rightarrow> string \<Rightarrow> reactor \<Rightarrow> reactor" where
  "react env i a kind s =
     (if \<not> re_reactions env \<or> i \<le> 0 then s else s\<lparr>rct_out := rct_out s @ [AddReaction i a kind]\<rparr>)"

definition truncateError :: "string \<Rightarrow> nat \<Rightarrow> string" where
  "truncateError t n = (if length t \<le> n then t else take n t @ ''...'')"

definition duration_text :: "int \<Rightarrow> string" where
  "duration_text ms =
     (if 0 < ms then
        let secs = ms div 1000 in
        if 60 \<le> secs then show_int (secs div 60) @ ''m'' @ show_int (secs mod 60) @ ''s'' else show_int secs @ ''s''
      else ''< 1s'')"

definition newline :: string where
  "newline = [CHR 0x0A]"

text \<open>The text of the direct message to the owner; it begins with a warning sign in UTF-8.\<close>

definition failure_body :: "string \<Rightarrow> string \<Rightarrow> string \<Rightarrow> int \<Rightarrow> string \<Rightarrow> string" where
  "failure_body agent from event ms summary =
     [CHR 0xE2, CHR 0x9A, CHR 0xA0, CHR 0xEF, CHR 0xB8, CHR 0x8F] @ '' **Reactive run failed** for **'' @ agent @ ''**'' @
     newline @ newline @ ''**Trigger**: '' @ event @ '' from '' @ from @ newline @
     ''**Duration**: '' @ duration_text ms @ newline @
     ''**Error**: '' @ truncateError summary 500 @ newline @ newline @ ''View details in Agent Runs page.''"

definition notifyFailure :: "rct_env \<Rightarrow> Agent \<Rightarrow> string \<Rightarrow> string \<Rightarrow> int \<Rightarrow> string \<Rightarrow> reactor \<Rightarrow> reactor" where
  "notifyFailure env a from event ms summary s =
     (if \<not> re_notifier env then s
      else case GetHumanAgentByOwner (re_fault env RxOwner) (ag_OwnerID a) s of
             None \<Rightarrow> s
           | Some owner \<Rightarrow>
               s\<lparr>rct_out := rct_out s @ [SendFailure (ag_Name owner) (failure_body (ag_Name a) from event ms summary)]\<rparr>)"

section \<open>Trigger evaluation\<close>

definition message_ref :: "id64 \<Rightarrow> id64 option" where
  "message_ref i = (if 0 < i then Some i else None)"

definition skipped_run :: "string \<Rightarrow> MessageEvent \<Rightarrow> run_status \<Rightarrow> string \<Rightarrow> ReactiveRun" where
  "skipped_run a ev st errorLog =
     \<lparr>rr_ID = 0, rr_AgentName = a, rr_TriggerMessageID = message_ref (ev_MessageID ev), rr_TriggerEvent = ev_EventType ev,
      rr_TriggerDepth = ev_Depth ev, rr_TriggerFrom = ev_FromAgent ev, rr_Status = st, rr_K8sJobName = '''',
      rr_K8sNamespace = '''', rr_StartedAt = None, rr_CompletedAt = None, rr_DurationMs = None, rr_ErrorLog = errorLog,
      rr_CreatedAt = 0\<rparr>"

definition recordSkippedRun :: "rct_env \<Rightarrow> string \<Rightarrow> MessageEvent \<Rightarrow> run_status \<Rightarrow> string \<Rightarrow> reactor \<Rightarrow> reactor" where
  "recordSkippedRun env a ev st errorLog s =
     snd (InsertRun (re_fault env RxSkip) (re_now env) (skipped_run a ev st errorLog) s)"

fun trim_quotes_left :: "string \<Rightarrow> string" where
  "trim_quotes_left [] = []"
| "trim_quotes_left (c # t) = (if c = CHR 0x22 then trim_quotes_left t else c # t)"

definition env_text :: "env_value \<Rightarrow> string" where
  "env_text v = (case v of EnvText t \<Rightarrow> t | EnvRaw t \<Rightarrow> rev (trim_quotes_left (rev (trim_quotes_left t))))"

definition buildHandler :: "rct_env \<Rightarrow> Agent \<Rightarrow> K8sHandler" where
  "buildHandler env a =
     \<lparr>kh_AgentName = ag_Name a, kh_Image = ag_K8sImage a, kh_Events = [''message.received'', ''message.mentioned''],
      kh_Namespace = '''',
      kh_ResourcesMemory = (if ag_K8sResourcePreset a = ''small'' then ''512Mi'' else ''2Gi''),
      kh_ResourcesCPU = (if ag_K8sResourcePreset a = ''small'' then ''100m'' else ''500m''),
      kh_Env = (if ag_K8sEnvJSON a = '''' then Map.empty
                else case re_env_json env (ag_K8sEnvJSON a) of
                       None \<Rightarrow> Map.empty
                     | Some kvs \<Rightarrow> map_of (map (\<lambda>(k, v). (k, env_text v)) kvs)),
      kh_TimeoutSeconds = 3600, kh_Status = ''active'',
      kh_Args = (if ag_Name a = ''social-commenter'' then [''--max-turns'', ''80'', ''--model'', ''claude-opus-4-6'']
                 else [''--max-turns'', ''50'', ''--model'', ''claude-sonnet-4-6'']),
      kh_VolumeMounts = [(''claude-config'', ''/app/.claude'', False), (''workspace'', ''/app/workspace'', False)],
      kh_Volumes = [(''claude-config'', ''/home/user/.claude'', False), (''workspace'', '''', True)]\<rparr>"

definition job_body :: "string \<Rightarrow> string" where
  "job_body t = (if 4096 < length t then take 4096 t @ '' [truncated]'' else t)"

definition running_run :: "string \<Rightarrow> id64 option \<Rightarrow> MessageEvent \<Rightarrow> int \<Rightarrow> string \<Rightarrow> string \<Rightarrow> timestamp \<Rightarrow> ReactiveRun" where
  "running_run a mid ev depth job ns now =
     \<lparr>rr_ID = 0, rr_AgentName = a, rr_TriggerMessageID = mid, rr_TriggerEvent = ev_EventType ev, rr_TriggerDepth = depth,
      rr_TriggerFrom = ev_FromAgent ev, rr_Status = StatusRunning, rr_K8sJobName = job, rr_K8sNamespace = ns,
      rr_StartedAt = Some now, rr_CompletedAt = None, rr_DurationMs = None, rr_ErrorLog = '''', rr_CreatedAt = 0\<rparr>"

definition job_error :: "string \<Rightarrow> string" where
  "job_error e = ''K8s Job creation failed: '' @ e"

text \<open>
  The job is created first; a failure to record it is only logged. The namespace of the handler
  is always empty, so the one of the runner is stored.
\<close>

definition createJob :: "rct_env \<Rightarrow> Agent \<Rightarrow> MessageEvent \<Rightarrow> int \<Rightarrow> reactor \<Rightarrow> (rct_error + unit) \<times> reactor" where
  "createJob env a ev depth s =
     (let h = buildHandler env a;
          handler = h\<lparr>kh_Env := (kh_Env h)(''SYNAPBUS_TRIGGER_DEPTH'' \<mapsto> show_int depth)\<rparr>;
          msg = \<lparr>jm_MessageID = ev_MessageID ev, jm_FromAgent = ev_FromAgent ev, jm_Body = job_body (ev_Body ev),
                 jm_Event = ev_EventType ev, jm_Channel = ev_Channel ev, jm_Timestamp = rfc3339 (re_now env)\<rparr>
      in case re_job env of
           Inl e \<Rightarrow>
             let errMsg = job_error e in
             (Inl (CreateJobFailed e),
              notifyFailure env a (ev_FromAgent ev) (ev_EventType ev) 0 errMsg
                (recordSkippedRun env (ag_Name a) ev StatusFailed errMsg s))
         | Inr jobName \<Rightarrow>
             let ns = (if kh_Namespace handler = '''' then re_namespace env else kh_Namespace handler);
                 s1 = s\<lparr>rct_out := rct_out s @ [CreateJob handler msg]\<rparr>;
                 s2 = snd (InsertRun (re_fault env RxInsert) (re_now env)
                        (running_run (ag_Name a) (Some (ev_MessageID ev)) ev depth jobName ns (re_now env)) s1)
             in (Inr (), SetPendingWork (re_fault env RxClearPending) (ag_Name a) False s2))"

definition exec_env :: "rct_env \<Rightarrow> MessageEvent \<Rightarrow> int \<Rightarrow> string \<rightharpoonup> string" where
  "exec_env env ev depth =
     [''SYNAPBUS_TRIGGER_DEPTH'' \<mapsto> show_int depth, ''SYNAPBUS_EVENT'' \<mapsto> ev_EventType ev,
      ''SYNAPBUS_FROM_AGENT'' \<mapsto> ev_FromAgent ev] ++
     (case re_secrets env of None \<Rightarrow> Map.empty | Some m \<Rightarrow> m)"

definition dispatchHarness :: "rct_env \<Rightarrow> Agent \<Rightarrow> MessageEvent \<Rightarrow> int \<Rightarrow> reactor \<Rightarrow> (rct_error + unit) \<times> reactor" where
  "dispatchHarness env a ev depth s =
     (case InsertRun (re_fault env RxInsert) (re_now env)
             (running_run (ag_Name a) (message_ref (ev_MessageID ev)) ev depth '''' '''' (re_now env)) s of
        (Inl e, s1) \<Rightarrow> (Inl e, s1)
      | (Inr i, s1) \<Rightarrow>
          let s2 = SetPendingWork (re_fault env RxClearPending) (ag_Name a) False s1;
              s3 = react env (ev_MessageID ev) (ag_Name a) ''in_progress'' s2;
              req = \<lparr>er_AgentName = ag_Name a, er_ReactiveRunID = i, er_MessageID = ev_MessageID ev,
                     er_FromAgent = ev_FromAgent ev, er_ToAgent = ev_ToAgent ev, er_Body = ev_Body ev,
                     er_Env = exec_env env ev depth\<rparr>
          in (Inr (), s3\<lparr>rct_flying := rct_flying s3 @ [(i, a, ev, re_now env)], rct_out := rct_out s3 @ [Execute req]\<rparr>))"

text \<open>The product of the cooldown and a second is one of 64-bit durations.\<close>

definition on_cooldown :: "timestamp \<Rightarrow> Agent \<Rightarrow> timestamp option \<Rightarrow> bool" where
  "on_cooldown now a lastRun =
     (case lastRun of
        None \<Rightarrow> False
      | Some t \<Rightarrow> now - t < sint (of_int (ag_CooldownSeconds a) * of_int nanos :: duration))"

definition evaluateTrigger :: "rct_env \<Rightarrow> string \<Rightarrow> MessageEvent \<Rightarrow> reactor \<Rightarrow> (rct_error + unit) \<times> reactor" where
  "evaluateTrigger env name ev s =
     (if ev_FromAgent ev = ''system'' then (Inr (), s)
      else case GetAgentByName (re_fault env RxAgent) name s of
        None \<Rightarrow> (Inr (), s)
      | Some a \<Rightarrow>
        if ag_TriggerMode a \<noteq> ''reactive'' then (Inr (), s)
        else if ag_QuarantinedAt a \<noteq> None then
          (Inr (), recordSkippedRun env name ev StatusFailed (''agent quarantined: '' @ ag_QuarantineReason a) s)
        else case backend_refusal env a of
          Some reason \<Rightarrow> (Inr (), recordSkippedRun env name ev StatusFailed reason s)
        | None \<Rightarrow>
          if ag_MaxTriggerDepth a \<le> ev_Depth ev then (Inr (), recordSkippedRun env name ev StatusDepthExceeded '''' s)
          else case CountTodayRuns (re_fault env RxCount) (re_now env) name s of
            Inl e \<Rightarrow> (Inl e, s)
          | Inr n \<Rightarrow>
            if ag_DailyTriggerBudget a \<le> n then (Inr (), recordSkippedRun env name ev StatusBudgetExhausted '''' s)
            else case GetLastRunTime (re_fault env RxLast) name s of
              Inl e \<Rightarrow> (Inl e, s)
            | Inr lastRun \<Rightarrow>
              if on_cooldown (re_now env) a lastRun then
                (Inr (), recordSkippedRun env name ev StatusCooldownSkipped '''' (SetPendingWork (re_fault env RxSetPending) name True s))
              else case IsAgentRunning (re_fault env RxRunning) name s of
                Inl e \<Rightarrow> (Inl e, s)
              | Inr running \<Rightarrow>
                if running then
                  (Inr (), recordSkippedRun env name ev StatusQueued '''' (SetPendingWork (re_fault env RxSetPending) name True s))
                else if agentBackendKind a = BackendK8s then createJob env a ev (ev_Depth ev) s
                else dispatchHarness env a ev (ev_Depth ev) s)"

text \<open>\<open>envs\<close> are the surroundings of the evaluation for each agent; its error is only logged for mentions.\<close>

definition reactor_Dispatch :: "(string \<Rightarrow> rct_env) \<Rightarrow> MessageEvent \<Rightarrow> reactor \<Rightarrow> (rct_error + unit) \<times> reactor" where
  "reactor_Dispatch envs ev s =
     (if ev_EventType ev = ''message.received'' then evaluateTrigger (envs (ev_ToAgent ev)) (ev_ToAgent ev) ev s
      else if ev_EventType ev = ''message.mentioned'' then
        (Inr (), fold (\<lambda>m s. if m = ev_FromAgent ev then s else snd (evaluateTrigger (envs m) m ev s)) (ev_MentionedAgents ev) s)
      else (Inr (), s))"

section \<open>Completion\<close>

definition coalesced_event :: "string \<Rightarrow> MessageEvent" where
  "coalesced_event name =
     \<lparr>ev_EventType = ''message.received'', ev_MessageID = 0, ev_FromAgent = ''__coalesced__'', ev_ToAgent = name, ev_Channel = '''',
      ev_Body = ''Coalesced trigger: process all pending messages.'', ev_Priority = 0, ev_Metadata = JNull, ev_Depth = 0,
      ev_MentionedAgents = []\<rparr>"

text \<open>The check reads the agent once, the trigger it starts reads it again (\<open>env'\<close>).\<close>

definition checkPendingWork :: "rct_env \<Rightarrow> rct_env \<Rightarrow> string \<Rightarrow> reactor \<Rightarrow> reactor" where
  "checkPendingWork env env' name s =
     (case GetAgentByName (re_fault env RxAgent) name s of
        None \<Rightarrow> s
      | Some a \<Rightarrow>
          if \<not> ag_PendingWork a then s
          else snd (evaluateTrigger env' name (coalesced_event name)
                 (SetPendingWork (re_fault env RxClearPending) name False s)))"

text \<open>What \<open>Registry.Execute\<close> returns: an error, no result, or an exit code with logs.\<close>

datatype exec_outcome = ExecError string | ExecNil | ExecResult int string

definition logsCap :: nat where
  "logsCap = 8 * 1024"

definition harness_verdict :: "exec_outcome \<Rightarrow> run_status \<times> string" where
  "harness_verdict res =
     (case res of
        ExecError e \<Rightarrow> (StatusFailed, e)
      | ExecNil \<Rightarrow> (StatusSucceeded, '''')
      | ExecResult code logs \<Rightarrow>
          if code \<noteq> 0 then (StatusFailed, drop (length logs - logsCap) logs) else (StatusSucceeded, ''''))"

text \<open>The \<open>k\<close>-th goroutine comes back from the harness.\<close>

definition runHarness :: "rct_env \<Rightarrow> rct_env \<Rightarrow> exec_outcome \<Rightarrow> nat \<Rightarrow> reactor \<Rightarrow> reactor" where
  "runHarness env env' res k s =
     (case rct_flying s ! k of (i, a, ev, began) \<Rightarrow>
      case harness_verdict res of (st, errorLog) \<Rightarrow>
        let s1 = CompleteRun (re_fault env RxComplete) (re_julian_ms env) i st errorLog (re_now env)
                   (s\<lparr>rct_flying := remove_nth k (rct_flying s)\<rparr>);
            s2 = (if st = StatusFailed
                  then notifyFailure env a (ev_FromAgent ev) (ev_EventType ev) ((re_now env - began) div 1000000) errorLog
                         (react env (ev_MessageID ev) (ag_Name a) ''reject'' s1)
                  else react env (ev_MessageID ev) (ag_Name a) ''done'' s1)
        in checkPendingWork env env' (ag_Name a) s2)"

section \<open>Poller\<close>

datatype job_condition_type = JobComplete | JobFailed | JobOther

record job_condition =
  jc_Type :: job_condition_type
  jc_Status :: string
  jc_Reason :: string
  jc_Message :: string

record job_info =
  ji_Conditions :: "job_condition list"
  ji_Failed :: int

fun conditions_verdict :: "job_condition list \<Rightarrow> (bool \<times> string) option" where
  "conditions_verdict [] = None"
| "conditions_verdict (c # cs) =
     (if jc_Type c = JobComplete \<and> jc_Status c = ''True'' then Some (True, '''')
      else if jc_Type c = JobFailed \<and> jc_Status c = ''True'' then
        Some (False, if jc_Message c = '''' then jc_Reason c else jc_Reason c @ '': '' @ jc_Message c)
      else conditions_verdict cs)"

definition job_verdict :: "job_info \<Rightarrow> (bool \<times> string) option" where
  "job_verdict j =
     (case conditions_verdict (ji_Conditions j) of
        Some v \<Rightarrow> Some v
      | None \<Rightarrow> if 0 < ji_Failed j then Some (False, ''job failed (pod failure)'') else None)"

fun str_lines :: "string \<Rightarrow> string list" where
  "str_lines [] = [[]]"
| "str_lines (c # t) =
     (if c = CHR 0x0A then [] # str_lines t
      else case str_lines t of [] \<Rightarrow> [[c]] | l # ls \<Rightarrow> (c # l) # ls)"

fun join_lines :: "string list \<Rightarrow> string" where
  "join_lines [] = []"
| "join_lines [l] = l"
| "join_lines (l # ls) = l @ CHR 0x0A # join_lines ls"

definition last_lines :: "string \<Rightarrow> string" where
  "last_lines t = (let ls = str_lines t in join_lines (drop (length ls - 100) ls))"

text \<open>\<open>logs\<close> is \<open>None\<close> if the logs of the job cannot be read.\<close>

definition handleJobComplete ::
  "rct_env \<Rightarrow> rct_env \<Rightarrow> string option \<Rightarrow> ReactiveRun \<Rightarrow> bool \<Rightarrow> string \<Rightarrow> reactor \<Rightarrow> reactor" where
  "handleJobComplete env env' logs run success reason s =
     checkPendingWork env env' (rr_AgentName run)
       (if success then CompleteRun (re_fault env RxComplete) (re_julian_ms env) (rr_ID run) StatusSucceeded '''' (re_now env) s
        else
          let errorLog = (case logs of None \<Rightarrow> reason | Some t \<Rightarrow> if t = '''' then reason else last_lines t);
              s1 = CompleteRun (re_fault env RxComplete) (re_julian_ms env) (rr_ID run) StatusFailed errorLog (re_now env) s;
              ms = (case rr_StartedAt run of None \<Rightarrow> 0 | Some t \<Rightarrow> (re_now env - t) div 1000000)
          in case GetAgentByName (re_fault env RxAgent) (rr_AgentName run) s1 of
               None \<Rightarrow> s1
             | Some a \<Rightarrow> notifyFailure env a (rr_TriggerFrom run) (rr_TriggerEvent run) ms
                          (''Job '' @ rr_K8sJobName run @ '' failed: '' @ reason) s1)"

text \<open>What the cluster says of a job and its logs; \<open>None\<close> if the request fails.\<close>

record cluster =
  cl_job :: "string \<Rightarrow> string \<Rightarrow> job_info option"
  cl_logs :: "string \<Rightarrow> string \<Rightarrow> string option"

definition checkJob :: "rct_env \<Rightarrow> rct_env \<Rightarrow> cluster \<Rightarrow> ReactiveRun \<Rightarrow> reactor \<Rightarrow> reactor" where
  "checkJob env env' c run s =
     (case cl_job c (rr_K8sNamespace run) (rr_K8sJobName run) of
        None \<Rightarrow> s
      | Some j \<Rightarrow>
          (case job_verdict j of
             None \<Rightarrow> s
           | Some (success, reason) \<Rightarrow>
               handleJobComplete env env' (cl_logs c (rr_K8sNamespace run) (rr_K8sJobName run)) run success reason s))"

definition polled :: "ReactiveRun \<Rightarrow> bool" where
  "polled r \<longleftrightarrow> rr_K8sJobName r \<noteq> '''' \<and> rr_K8sNamespace r \<noteq> ''''"

definition pollActiveRuns :: "bool \<Rightarrow> (id64 \<Rightarrow> rct_env \<times> rct_env) \<Rightarrow> cluster \<Rightarrow> reactor \<Rightarrow> reactor" where
  "pollActiveRuns failed envs c s =
     (case GetActiveRuns failed s of
        Inl e \<Rightarrow> s
      | Inr runs \<Rightarrow>
          fold (\<lambda>r s. if polled r then checkJob (fst (envs (rr_ID r))) (snd (envs (rr_ID r))) c r s else s) runs s)"

section \<open>Retry and restart\<close>

definition retry_event :: "ReactiveRun \<Rightarrow> MessageEvent" where
  "retry_event r =
     \<lparr>ev_EventType = rr_TriggerEvent r,
      ev_MessageID = (case rr_TriggerMessageID r of None \<Rightarrow> 0 | Some i \<Rightarrow> i),
      ev_FromAgent = rr_TriggerFrom r, ev_ToAgent = rr_AgentName r, ev_Channel = '''', ev_Body = '''', ev_Priority = 0,
      ev_Metadata = JNull, ev_Depth = rr_TriggerDepth r, ev_MentionedAgents = []\<rparr>"

definition RetryRun :: "rct_env \<Rightarrow> id64 \<Rightarrow> reactor \<Rightarrow> (rct_error + ReactiveRun) \<times> reactor" where
  "RetryRun env i s =
     (case GetRunByID (re_fault env RxGetRun) i s of
        None \<Rightarrow> (Inl RunNotFound, s)
      | Some run \<Rightarrow>
          if rr_Status run \<noteq> StatusFailed then (Inl (OnlyFailedRuns (rr_Status run)), s)
          else case GetAgentByName (re_fault env RxAgent) (rr_AgentName run) s of
            None \<Rightarrow> (Inl AgentNotFound, s)
          | Some a \<Rightarrow>
              (case createJob env a (retry_event run) (rr_TriggerDepth run) s of
                 (Inl e, s1) \<Rightarrow> (Inl e, s1)
               | (Inr u, s1) \<Rightarrow>
                   (case ListRuns (re_fault env RxList) (rr_AgentName run) (Some StatusRunning) 1 0 s1 of
                      Inr (r # rs, n) \<Rightarrow> (Inr r, s1)
                    | _ \<Rightarrow> (Inl NewRunNotFound, s1))))"

text \<open>A new process: the goroutines are gone, nothing is done about their rows.\<close>

definition reactor_restart :: "reactor \<Rightarrow> reactor" where
  "reactor_restart s = s\<lparr>rct_flying := []\<rparr>"

section \<open>What a trigger does to the table of runs\<close>

lemma side_effects [simp]:
  "rct_runs (SetPendingWork f a b s) = rct_runs s" "rct_seq (SetPendingWork f a b s) = rct_seq s"
  "rct_flying (SetPendingWork f a b s) = rct_flying s" "rct_out (SetPendingWork f a b s) = rct_out s"
  "rct_runs (react env i a k s) = rct_runs s" "rct_seq (react env i a k s) = rct_seq s"
  "rct_flying (react env i a k s) = rct_flying s" "rct_agents (react env i a k s) = rct_agents s"
  "rct_runs (notifyFailure env x fr ev ms e s) = rct_runs s" "rct_seq (notifyFailure env x fr ev ms e s) = rct_seq s"
  "rct_flying (notifyFailure env x fr ev ms e s) = rct_flying s" "rct_agents (notifyFailure env x fr ev ms e s) = rct_agents s"
  by (simp_all add: SetPendingWork_def react_def notifyFailure_def split: option.split)

lemma InsertRun_cases:
  obtains (refused) "InsertRun f now run s = (Inl RxStatementFailed, s)"
  | (stored) "InsertRun f now run s = (Inr (rct_seq s + 1), s\<lparr>rct_seq := rct_seq s + 1, rct_runs := rct_runs s @
      [run\<lparr>rr_ID := rct_seq s + 1, rr_StartedAt := map_option rfc3339 (rr_StartedAt run), rr_CompletedAt := None,
           rr_DurationMs := None, rr_CreatedAt := rfc3339 now\<rparr>]\<rparr>)" "rr_AgentName run \<in> ag_Name ` set (rct_agents s)"
proof (cases "f \<or> rr_AgentName run \<notin> ag_Name ` set (rct_agents s)")
  case True
  then show thesis by (intro refused) (simp add: InsertRun_def)
next
  case False
  then show thesis by (intro stored) (auto simp: InsertRun_def Let_def)
qed

text \<open>
  The three things an evaluation can do to the table: nothing, one row for a trigger that was
  skipped, or one running row.
\<close>

definition runs_kept :: "reactor \<Rightarrow> reactor \<Rightarrow> bool" where
  "runs_kept s t \<longleftrightarrow> rct_runs t = rct_runs s \<and> rct_seq t = rct_seq s \<and> rct_flying t = rct_flying s"

definition skip_recorded :: "string \<Rightarrow> reactor \<Rightarrow> reactor \<Rightarrow> bool" where
  "skip_recorded name s t \<longleftrightarrow> (\<exists>row. rct_runs t = rct_runs s @ [row] \<and> rct_seq t = rct_seq s + 1 \<and> rct_flying t = rct_flying s \<and>
     rr_ID row = rct_seq s + 1 \<and> rr_AgentName row = name \<and> rr_Status row \<noteq> StatusRunning \<and> rr_Status row \<noteq> StatusSucceeded \<and>
     rr_StartedAt row = None)"

definition run_launched :: "rct_env \<Rightarrow> string \<Rightarrow> Agent \<Rightarrow> reactor \<Rightarrow> reactor \<Rightarrow> bool" where
  "run_launched env name a s t \<longleftrightarrow> (\<exists>row. rct_runs t = rct_runs s @ [row] \<and> rct_seq t = rct_seq s + 1 \<and>
     rr_ID row = rct_seq s + 1 \<and> rr_AgentName row = name \<and> rr_Status row = StatusRunning \<and>
     rr_StartedAt row = Some (rfc3339 (re_now env)) \<and> rr_CreatedAt row = rfc3339 (re_now env) \<and>
     (rct_flying t = rct_flying s \<or> rr_K8sJobName row = '''' \<and> (\<exists>ev. rct_flying t = rct_flying s @ [(rct_seq s + 1, a, ev, re_now env)])))"

lemma recordSkippedRun_cases:
  "st \<noteq> StatusRunning \<Longrightarrow> st \<noteq> StatusSucceeded \<Longrightarrow>
   runs_kept s (recordSkippedRun env a ev st e s) \<or> skip_recorded a s (recordSkippedRun env a ev st e s)"
  unfolding recordSkippedRun_def runs_kept_def skip_recorded_def
  by (rule InsertRun_cases [of "re_fault env RxSkip" "re_now env" "skipped_run a ev st e" s]) (simp_all add: skipped_run_def)

lemma recordSkippedRun_pending_cases:
  "st \<noteq> StatusRunning \<Longrightarrow> st \<noteq> StatusSucceeded \<Longrightarrow>
   runs_kept s (recordSkippedRun env a ev st e (SetPendingWork f b p s)) \<or>
   skip_recorded a s (recordSkippedRun env a ev st e (SetPendingWork f b p s))"
  using recordSkippedRun_cases [of st "SetPendingWork f b p s" env a ev e] by (simp add: runs_kept_def skip_recorded_def)

lemma createJob_cases:
  "runs_kept s (snd (createJob env a ev d s)) \<or> skip_recorded (ag_Name a) s (snd (createJob env a ev d s)) \<or>
   run_launched env (ag_Name a) a s (snd (createJob env a ev d s))"
proof (cases "re_job env")
  case (Inl e)
  let ?msg = "job_error e"
  have "snd (createJob env a ev d s) = notifyFailure env a (ev_FromAgent ev) (ev_EventType ev) 0 ?msg
      (recordSkippedRun env (ag_Name a) ev StatusFailed ?msg s)" by (simp add: createJob_def Inl Let_def)
  then show ?thesis
    using recordSkippedRun_cases [of StatusFailed s env "ag_Name a" ev ?msg]
    unfolding runs_kept_def skip_recorded_def by (simp only: side_effects) blast
next
  case (Inr j)
  have "\<exists>m h ns. snd (createJob env a ev d s) = SetPendingWork (re_fault env RxClearPending) (ag_Name a) False
      (snd (InsertRun (re_fault env RxInsert) (re_now env) (running_run (ag_Name a) (Some m) ev d j ns (re_now env))
        (s\<lparr>rct_out := rct_out s @ [h]\<rparr>)))"
    by (simp add: createJob_def Inr Let_def) blast
  then obtain m h ns where eq: "snd (createJob env a ev d s) = SetPendingWork (re_fault env RxClearPending) (ag_Name a) False
      (snd (InsertRun (re_fault env RxInsert) (re_now env) (running_run (ag_Name a) (Some m) ev d j ns (re_now env))
        (s\<lparr>rct_out := rct_out s @ [h]\<rparr>)))" by blast
  show ?thesis
    unfolding eq
    by (rule InsertRun_cases [of "re_fault env RxInsert" "re_now env" "running_run (ag_Name a) (Some m) ev d j ns (re_now env)"
          "s\<lparr>rct_out := rct_out s @ [h]\<rparr>"])
      (simp_all add: runs_kept_def run_launched_def running_run_def)
qed

lemma dispatchHarness_cases:
  "runs_kept s (snd (dispatchHarness env a ev d s)) \<or> run_launched env (ag_Name a) a s (snd (dispatchHarness env a ev d s))"
  unfolding dispatchHarness_def
  by (rule InsertRun_cases [of "re_fault env RxInsert" "re_now env"
        "running_run (ag_Name a) (message_ref (ev_MessageID ev)) ev d '''' '''' (re_now env)" s])
    (auto simp: runs_kept_def run_launched_def running_run_def Let_def)

text \<open>The three conditions on the runs of an agent.\<close>

definition runs_today :: "timestamp \<Rightarrow> string \<Rightarrow> reactor \<Rightarrow> int" where
  "runs_today now name s =
     int (length (filter (\<lambda>r. countable name r \<and> start_of_day now \<le> rr_CreatedAt r) (rct_runs s)))"

definition cooling :: "timestamp \<Rightarrow> Agent \<Rightarrow> string \<Rightarrow> reactor \<Rightarrow> bool" where
  "cooling now a name s \<longleftrightarrow> (\<exists>r \<in> set (rct_runs s). countable name r \<and>
     now - rr_CreatedAt r < sint (of_int (ag_CooldownSeconds a) * of_int nanos :: duration))"

definition busy :: "string \<Rightarrow> reactor \<Rightarrow> bool" where
  "busy name s \<longleftrightarrow> (\<exists>r \<in> set (rct_runs s). rr_AgentName r = name \<and> rr_Status r = StatusRunning)"

text \<open>The conditions under which a run may start.\<close>

definition may_launch :: "rct_env \<Rightarrow> string \<Rightarrow> MessageEvent \<Rightarrow> Agent \<Rightarrow> reactor \<Rightarrow> bool" where
  "may_launch env name ev a s \<longleftrightarrow> ev_FromAgent ev \<noteq> ''system'' \<and> a \<in> set (rct_agents s) \<and> ag_Name a = name \<and> ag_Active a \<and>
     ag_TriggerMode a = ''reactive'' \<and> ag_QuarantinedAt a = None \<and> backend_refusal env a = None \<and>
     ev_Depth ev < ag_MaxTriggerDepth a \<and>
     runs_today (re_now env) name s < ag_DailyTriggerBudget a \<and>
     \<not> cooling (re_now env) a name s \<and> \<not> busy name s"

lemma foldl_max_le: "foldl max x xs \<le> b \<longleftrightarrow> x \<le> b \<and> (\<forall>y \<in> set xs. y \<le> b)" for x :: int
  by (induction xs arbitrary: x) auto

lemma on_cooldown_last:
  assumes "GetLastRunTime f name s = Inr t"
  shows "\<not> on_cooldown now a t \<longleftrightarrow> (\<forall>r \<in> set (rct_runs s). countable name r \<longrightarrow>
    sint (of_int (ag_CooldownSeconds a) * of_int nanos :: duration) \<le> now - rr_CreatedAt r)"
proof (cases "filter (countable name) (rct_runs s)")
  case Nil
  then have "\<forall>r \<in> set (rct_runs s). \<not> countable name r" by (simp add: filter_empty_conv)
  with assms Nil show ?thesis by (auto simp: GetLastRunTime_def on_cooldown_def split: if_splits)
next
  case (Cons r rs)
  let ?c = "sint (of_int (ag_CooldownSeconds a) * of_int nanos :: duration)"
  have t: "t = Some (foldl max (rr_CreatedAt r) (map rr_CreatedAt rs))"
    using assms Cons by (auto simp: GetLastRunTime_def split: if_splits)
  have "\<not> on_cooldown now a t \<longleftrightarrow> foldl max (rr_CreatedAt r) (map rr_CreatedAt rs) \<le> now - ?c"
    by (auto simp: t on_cooldown_def)
  also have "\<dots> \<longleftrightarrow> (\<forall>x \<in> set (r # rs). rr_CreatedAt x \<le> now - ?c)" by (simp add: foldl_max_le)
  also have "\<dots> \<longleftrightarrow> (\<forall>x \<in> set (rct_runs s). countable name x \<longrightarrow> ?c \<le> now - rr_CreatedAt x)"
    unfolding Cons [symmetric] by auto
  finally show ?thesis .
qed

text \<open>The decision of an evaluation, apart from what is then done about it.\<close>

datatype verdict = Ignored | Faulted | Skip run_status string bool | Launch Agent

definition trigger_verdict :: "rct_env \<Rightarrow> string \<Rightarrow> MessageEvent \<Rightarrow> reactor \<Rightarrow> verdict" where
  "trigger_verdict env name ev s =
     (case (if ev_FromAgent ev = ''system'' then None else GetAgentByName (re_fault env RxAgent) name s) of
        None \<Rightarrow> Ignored
      | Some a \<Rightarrow>
          if ag_TriggerMode a \<noteq> ''reactive'' then Ignored
          else if ag_QuarantinedAt a \<noteq> None then Skip StatusFailed (''agent quarantined: '' @ ag_QuarantineReason a) False
          else (case backend_refusal env a of
                  Some reason \<Rightarrow> Skip StatusFailed reason False
                | None \<Rightarrow>
                    if ag_MaxTriggerDepth a \<le> ev_Depth ev then Skip StatusDepthExceeded '''' False
                    else if re_fault env RxCount then Faulted
                    else if ag_DailyTriggerBudget a \<le>
                        runs_today (re_now env) name s
                      then Skip StatusBudgetExhausted '''' False
                    else if re_fault env RxLast then Faulted
                    else if cooling (re_now env) a name s
                      then Skip StatusCooldownSkipped '''' True
                    else if re_fault env RxRunning then Faulted
                    else if busy name s
                      then Skip StatusQueued '''' True
                    else Launch a))"

definition perform :: "rct_env \<Rightarrow> string \<Rightarrow> MessageEvent \<Rightarrow> verdict \<Rightarrow> reactor \<Rightarrow> (rct_error + unit) \<times> reactor" where
  "perform env name ev v s =
     (case v of
        Ignored \<Rightarrow> (Inr (), s)
      | Faulted \<Rightarrow> (Inl RxStatementFailed, s)
      | Skip st e pending \<Rightarrow>
          (Inr (), recordSkippedRun env name ev st e (if pending then SetPendingWork (re_fault env RxSetPending) name True s else s))
      | Launch a \<Rightarrow>
          if agentBackendKind a = BackendK8s then createJob env a ev (ev_Depth ev) s else dispatchHarness env a ev (ev_Depth ev) s)"

lemma on_cooldown_iff:
  "GetLastRunTime f name s = Inr t \<Longrightarrow> on_cooldown now a t \<longleftrightarrow> cooling now a name s"
  using on_cooldown_last [of f name s t now a] by (auto simp: cooling_def not_le)

text \<open>The last three steps of the chain, as the code queries them.\<close>

lemma late_checks:
  "(case GetLastRunTime (re_fault env RxLast) name s of
      Inl e \<Rightarrow> x e
    | Inr t \<Rightarrow> if on_cooldown (re_now env) a t then y else z) =
   (if re_fault env RxLast then x RxStatementFailed
    else if cooling (re_now env) a name s then y else z)"
proof (cases "re_fault env RxLast")
  case False
  then obtain t where t: "GetLastRunTime False name s = Inr t" by (auto simp: GetLastRunTime_def)
  with on_cooldown_iff [OF t] False show ?thesis by simp
qed (simp add: GetLastRunTime_def)

lemma early_checks:
  "(case CountTodayRuns f now name s of Inl e \<Rightarrow> x e | Inr n \<Rightarrow> if b \<le> n then y else z) =
   (if f then x RxStatementFailed
    else if b \<le> runs_today now name s then y else z)"
  "(case IsAgentRunning f name s of Inl e \<Rightarrow> x e | Inr u \<Rightarrow> if u then y else z) =
   (if f then x RxStatementFailed
    else if busy name s then y else z)"
  by (simp_all add: CountTodayRuns_def IsAgentRunning_def list_ex_iff runs_today_def busy_def)

lemma evaluateTrigger_perform: "evaluateTrigger env name ev s = perform env name ev (trigger_verdict env name ev s) s"
  unfolding evaluateTrigger_def trigger_verdict_def late_checks early_checks
  by (simp add: perform_def split: option.split)

lemma launch_conditions: "trigger_verdict env name ev s = Launch a \<Longrightarrow> may_launch env name ev a s"
  by (auto simp: trigger_verdict_def may_launch_def GetAgentByName_def not_less dest: find_row_Some
      split: option.splits if_splits)

lemma skip_status:
  "trigger_verdict env name ev s = Skip st e p \<Longrightarrow> st \<noteq> StatusRunning \<and> st \<noteq> StatusSucceeded"
  by (auto simp: trigger_verdict_def split: option.splits if_splits)

text \<open>An evaluation launches a run only under \<open>may_launch\<close>.\<close>

lemma evaluateTrigger_cases:
  obtains (kept) "runs_kept s (snd (evaluateTrigger env name ev s))"
  | (skipped) "skip_recorded name s (snd (evaluateTrigger env name ev s))"
  | (launched) a where "run_launched env name a s (snd (evaluateTrigger env name ev s))" "may_launch env name ev a s"
proof (cases "trigger_verdict env name ev s")
  case (Skip st e p)
  have st: "st \<noteq> StatusRunning" "st \<noteq> StatusSucceeded" using skip_status [OF Skip] by auto
  show thesis
    using kept skipped recordSkippedRun_cases [OF st, of s env name ev e]
      recordSkippedRun_pending_cases [OF st, of s env name ev e "re_fault env RxSetPending" name True]
    by (cases p) (auto simp: evaluateTrigger_perform perform_def Skip)
next
  case (Launch a)
  then have m: "may_launch env name ev a s" by (rule launch_conditions)
  then have "ag_Name a = name" by (simp add: may_launch_def)
  with Launch m show thesis
    using createJob_cases [of s env a ev "ev_Depth ev"] dispatchHarness_cases [of s env a ev "ev_Depth ev"] kept skipped launched
    by (cases "agentBackendKind a = BackendK8s") (auto simp: evaluateTrigger_perform perform_def)
qed (auto intro!: kept simp: evaluateTrigger_perform perform_def runs_kept_def)

section \<open>Runs of the reactor\<close>

text \<open>
  What happens to the reactor: events, harnesses that come back, polls of the cluster, restarts of the
  process and changes of the agents, which other components make. A retry is not among them.
\<close>

datatype rct_op =
    OpEvent "string \<Rightarrow> rct_env" MessageEvent
  | OpHarness rct_env rct_env exec_outcome nat
  | OpPoll bool "id64 \<Rightarrow> rct_env \<times> rct_env" cluster
  | OpRestart
  | OpAgents "Agent list"

fun rct_exec :: "rct_op \<Rightarrow> reactor \<Rightarrow> reactor" where
  "rct_exec (OpEvent envs ev) s = snd (reactor_Dispatch envs ev s)"
| "rct_exec (OpHarness env env' res k) s = (if k < length (rct_flying s) then runHarness env env' res k s else s)"
| "rct_exec (OpPoll f envs c) s = pollActiveRuns f envs c s"
| "rct_exec OpRestart s = reactor_restart s"
| "rct_exec (OpAgents as) s = s\<lparr>rct_agents := as\<rparr>"

text \<open>A run that was started, as opposed to a trigger that was skipped.\<close>

definition launched :: "ReactiveRun \<Rightarrow> bool" where
  "launched r \<longleftrightarrow> rr_StartedAt r \<noteq> None"

definition rct_inv :: "reactor \<Rightarrow> bool" where
  "rct_inv s \<longleftrightarrow> ids_ok rr_ID (rct_seq s) (rct_runs s) \<and>
     (\<forall>r \<in> set (rct_runs s). \<forall>q \<in> set (rct_runs s). rr_Status r = StatusRunning \<longrightarrow> rr_Status q = StatusRunning \<longrightarrow>
        rr_AgentName r = rr_AgentName q \<longrightarrow> r = q) \<and>
     (\<forall>r \<in> set (rct_runs s). (rr_Status r = StatusRunning \<or> rr_Status r = StatusSucceeded \<longrightarrow> launched r) \<and>
        (launched r \<longrightarrow> rr_StartedAt r = Some (rr_CreatedAt r) \<and> countable (rr_AgentName r) r)) \<and>
     distinct (map fst (rct_flying s)) \<and>
     (\<forall>(i, a, ev, t) \<in> set (rct_flying s). \<exists>r \<in> set (rct_runs s). rr_ID r = i \<and> rr_AgentName r = ag_Name a \<and>
        rr_Status r = StatusRunning \<and> \<not> polled r)"

definition rct_empty :: "Agent list \<Rightarrow> reactor" where
  "rct_empty as = \<lparr>rct_runs = [], rct_seq = 0, rct_agents = as, rct_flying = [], rct_out = []\<rparr>"

lemma rct_empty_inv: "rct_inv (rct_empty as)"
  by (simp add: rct_inv_def rct_empty_def)

lemma rct_invD:
  assumes "rct_inv s"
  shows "ids_ok rr_ID (rct_seq s) (rct_runs s)"
    "\<And>r q. r \<in> set (rct_runs s) \<Longrightarrow> q \<in> set (rct_runs s) \<Longrightarrow> rr_Status r = StatusRunning \<Longrightarrow> rr_Status q = StatusRunning \<Longrightarrow>
      rr_AgentName r = rr_AgentName q \<Longrightarrow> r = q"
    "\<And>r. r \<in> set (rct_runs s) \<Longrightarrow> rr_Status r = StatusRunning \<or> rr_Status r = StatusSucceeded \<Longrightarrow> launched r"
    "\<And>r. r \<in> set (rct_runs s) \<Longrightarrow> launched r \<Longrightarrow> rr_StartedAt r = Some (rr_CreatedAt r) \<and> countable (rr_AgentName r) r"
    "distinct (map fst (rct_flying s))"
    "\<And>i a ev t. (i, a, ev, t) \<in> set (rct_flying s) \<Longrightarrow> \<exists>r \<in> set (rct_runs s). rr_ID r = i \<and> rr_AgentName r = ag_Name a \<and>
      rr_Status r = StatusRunning \<and> \<not> polled r"
  using assms unfolding rct_inv_def by blast+

text \<open>The rows of \<open>s\<close> are still there in \<open>t\<close>, and only a running one has changed, to a final status.\<close>

definition run_later :: "ReactiveRun \<Rightarrow> ReactiveRun \<Rightarrow> bool" where
  "run_later r q \<longleftrightarrow> r = q \<or> rr_Status r = StatusRunning \<and> (rr_Status q = StatusSucceeded \<or> rr_Status q = StatusFailed) \<and>
     rr_ID q = rr_ID r \<and> rr_AgentName q = rr_AgentName r \<and> rr_TriggerMessageID q = rr_TriggerMessageID r \<and>
     rr_TriggerEvent q = rr_TriggerEvent r \<and> rr_TriggerFrom q = rr_TriggerFrom r \<and> rr_TriggerDepth q = rr_TriggerDepth r \<and>
     rr_StartedAt q = rr_StartedAt r \<and> rr_CreatedAt q = rr_CreatedAt r"

definition rct_later :: "reactor \<Rightarrow> reactor \<Rightarrow> bool" where
  "rct_later s t \<longleftrightarrow> (\<forall>r \<in> set (rct_runs s). \<exists>q \<in> set (rct_runs t). run_later r q)"

lemma run_later_trans: "run_later r q \<Longrightarrow> run_later q p \<Longrightarrow> run_later r p"
  by (auto simp: run_later_def)

lemma rct_later_refl: "rct_later s s"
  by (auto simp: rct_later_def run_later_def)

lemma rct_later_trans: "rct_later s t \<Longrightarrow> rct_later t u \<Longrightarrow> rct_later s u"
  unfolding rct_later_def by (meson run_later_trans)

lemma appended_row_inv:
  assumes inv: "rct_inv s" and runs: "rct_runs t = rct_runs s @ [row]" and sq: "rct_seq t = rct_seq s + 1" "rr_ID row = rct_seq s + 1"
    and fl: "distinct (map fst (rct_flying t))" "\<And>i a ev u. (i, a, ev, u) \<in> set (rct_flying t) \<Longrightarrow> (i, a, ev, u) \<in> set (rct_flying s) \<or>
      i = rr_ID row \<and> rr_AgentName row = ag_Name a \<and> rr_Status row = StatusRunning \<and> \<not> polled row"
    and run: "rr_Status row = StatusRunning \<Longrightarrow> \<not> busy (rr_AgentName row) s \<and> rr_StartedAt row = Some (rr_CreatedAt row)"
    and fin: "rr_Status row \<noteq> StatusRunning \<Longrightarrow> rr_StartedAt row = None \<and> rr_Status row \<noteq> StatusSucceeded"
  shows "rct_inv t \<and> rct_later s t"
proof -
  have "ids_ok rr_ID (rct_seq t) (rct_runs t)" using ids_ok_append [OF rct_invD(1) [OF inv] sq(2)] by (simp add: runs sq)
  moreover have "r = q" if "r \<in> set (rct_runs t)" "q \<in> set (rct_runs t)" "rr_Status r = StatusRunning" "rr_Status q = StatusRunning"
    "rr_AgentName r = rr_AgentName q" for r q
    using that run rct_invD(2) [OF inv, of r q] by (auto simp: runs busy_def)
  moreover have "(rr_Status r = StatusRunning \<or> rr_Status r = StatusSucceeded \<longrightarrow> launched r) \<and>
      (launched r \<longrightarrow> rr_StartedAt r = Some (rr_CreatedAt r) \<and> countable (rr_AgentName r) r)" if "r \<in> set (rct_runs t)" for r
  proof (cases "r \<in> set (rct_runs s)")
    case True
    then show ?thesis using rct_invD(3,4) [OF inv True] by blast
  next
    case False
    then have "r = row" using that by (simp add: runs)
    then show ?thesis
      using run fin by (cases "rr_Status row = StatusRunning") (simp_all add: launched_def countable_def)
  qed
  moreover have "\<exists>r \<in> set (rct_runs t). rr_ID r = i \<and> rr_AgentName r = ag_Name a \<and> rr_Status r = StatusRunning \<and> \<not> polled r"
    if "(i, a, ev, u) \<in> set (rct_flying t)" for i a ev u
    using fl(2) [OF that] rct_invD(6) [OF inv, of i a ev u] by (auto simp: runs)
  ultimately have "rct_inv t" unfolding rct_inv_def using fl(1) by blast
  moreover have "rct_later s t" by (auto simp: rct_later_def runs run_later_def)
  ultimately show ?thesis ..
qed

lemma skip_ok:
  assumes inv: "rct_inv s" and skip: "skip_recorded name s t"
  shows "rct_inv t \<and> rct_later s t"
proof -
  from skip obtain row where row: "rct_runs t = rct_runs s @ [row]" "rct_seq t = rct_seq s + 1" "rr_ID row = rct_seq s + 1"
    "rct_flying t = rct_flying s" "rr_Status row \<noteq> StatusRunning" "rr_StartedAt row = None" "rr_Status row \<noteq> StatusSucceeded"
    by (auto simp: skip_recorded_def)
  show ?thesis using row(4-) rct_invD(5) [OF inv] by (intro appended_row_inv [OF inv row(1,2,3)]) auto
qed

lemma launch_ok:
  assumes inv: "rct_inv s" and run: "run_launched env name a s t" and free: "\<not> busy name s" and a: "ag_Name a = name"
  shows "rct_inv t \<and> rct_later s t"
proof -
  from run obtain row where row: "rct_runs t = rct_runs s @ [row]" "rct_seq t = rct_seq s + 1" "rr_ID row = rct_seq s + 1"
    "rr_AgentName row = name" "rr_Status row = StatusRunning" "rr_StartedAt row = Some (rr_CreatedAt row)"
    and fl: "rct_flying t = rct_flying s \<or> rr_K8sJobName row = '''' \<and> (\<exists>ev. rct_flying t = rct_flying s @ [(rct_seq s + 1, a, ev, re_now env)])"
    by (auto simp: run_launched_def)
  have "i \<noteq> rct_seq s + 1" if "(i, b, ev, u) \<in> set (rct_flying s)" for i b ev u
    using rct_invD(6) [OF inv that] ids_ok_fresh [OF rct_invD(1) [OF inv]] by blast
  then have "rct_seq s + 1 \<notin> fst ` set (rct_flying s)" by force
  then have "distinct (map fst (rct_flying t))" using fl rct_invD(5) [OF inv] by auto
  then show ?thesis using fl row(3-) free a by (intro appended_row_inv [OF inv row(1,2,3)]) (auto simp: polled_def)
qed

lemma evaluateTrigger_ok:
  assumes inv: "rct_inv s"
  shows "rct_inv (snd (evaluateTrigger env name ev s)) \<and> rct_later s (snd (evaluateTrigger env name ev s))"
proof (cases rule: evaluateTrigger_cases [of s env name ev])
  case kept
  then show ?thesis using inv by (auto simp: runs_kept_def rct_inv_def rct_later_def run_later_def)
next
  case skipped
  with inv show ?thesis by (rule skip_ok)
next
  case (launched a)
  then show ?thesis by (intro launch_ok [OF inv launched(1)]) (simp_all add: may_launch_def)
qed

definition finished_row ::
  "(timestamp \<Rightarrow> timestamp \<Rightarrow> int) \<Rightarrow> run_status \<Rightarrow> string \<Rightarrow> timestamp \<Rightarrow> ReactiveRun \<Rightarrow> ReactiveRun" where
  "finished_row julian st e completed r =
     r\<lparr>rr_Status := st, rr_ErrorLog := e, rr_CompletedAt := Some (rfc3339 completed),
       rr_DurationMs := map_option (\<lambda>t. julian (rfc3339 completed) t) (rr_StartedAt r)\<rparr>"

lemma finished_row_simps [simp]:
  "rr_ID (finished_row j st e c r) = rr_ID r" "rr_Status (finished_row j st e c r) = st"
  "rr_AgentName (finished_row j st e c r) = rr_AgentName r" "rr_StartedAt (finished_row j st e c r) = rr_StartedAt r"
  "rr_CreatedAt (finished_row j st e c r) = rr_CreatedAt r" "polled (finished_row j st e c r) = polled r"
  "launched (finished_row j st e c r) = launched r"
  by (simp_all add: finished_row_def polled_def launched_def)

lemma CompleteRun_runs:
  "rct_runs (CompleteRun f j i st e c s) =
     (if f then rct_runs s else update_where (\<lambda>r. rr_ID r = i) (finished_row j st e c) (rct_runs s))"
  "rct_seq (CompleteRun f j i st e c s) = rct_seq s" "rct_flying (CompleteRun f j i st e c s) = rct_flying s"
  "rct_agents (CompleteRun f j i st e c s) = rct_agents s"
  by (simp_all add: CompleteRun_def finished_row_def [abs_def])

lemma rct_inv_flying:
  "rct_inv s \<Longrightarrow> distinct (map fst fl) \<Longrightarrow> set fl \<subseteq> set (rct_flying s) \<Longrightarrow> rct_inv (s\<lparr>rct_flying := fl\<rparr>)"
  unfolding rct_inv_def by auto

lemma CompleteRun_ok:
  assumes inv: "rct_inv s" and st: "st = StatusSucceeded \<or> st = StatusFailed" and out: "i \<notin> fst ` set (rct_flying s)"
    and run: "\<And>r. r \<in> set (rct_runs s) \<Longrightarrow> rr_ID r = i \<Longrightarrow> rr_Status r = StatusRunning"
  shows "rct_inv (CompleteRun f j i st e c s) \<and> rct_later s (CompleteRun f j i st e c s)"
proof (cases f)
  case True
  then show ?thesis using inv by (simp add: CompleteRun_def rct_later_refl)
next
  case False
  let ?t = "CompleteRun f j i st e c s"
  have row: "(x \<in> set (rct_runs s) \<and> rr_ID x \<noteq> i) \<or> (\<exists>r \<in> set (rct_runs s). rr_ID r = i \<and> x = finished_row j st e c r)"
    if "x \<in> set (rct_runs ?t)" for x
    using that False by (auto simp: CompleteRun_runs in_update_where split: if_splits)
  have fin: "x \<in> set (rct_runs s)" if "x \<in> set (rct_runs ?t)" "rr_Status x = StatusRunning" for x
    using row [OF that(1)] that(2) st by auto
  have "ids_ok rr_ID (rct_seq ?t) (rct_runs ?t)" using rct_invD(1) [OF inv] by (simp add: CompleteRun_runs ids_ok_update_where)
  moreover have "r = q" if "r \<in> set (rct_runs ?t)" "q \<in> set (rct_runs ?t)" "rr_Status r = StatusRunning" "rr_Status q = StatusRunning"
    "rr_AgentName r = rr_AgentName q" for r q
    using rct_invD(2) [OF inv] fin that by blast
  moreover have "(rr_Status x = StatusRunning \<or> rr_Status x = StatusSucceeded \<longrightarrow> launched x) \<and>
      (launched x \<longrightarrow> rr_StartedAt x = Some (rr_CreatedAt x) \<and> countable (rr_AgentName x) x)" if "x \<in> set (rct_runs ?t)" for x
    using row [OF that]
  proof
    assume "\<exists>r \<in> set (rct_runs s). rr_ID r = i \<and> x = finished_row j st e c r"
    then obtain r where r: "r \<in> set (rct_runs s)" "rr_ID r = i" "x = finished_row j st e c r" by blast
    have "launched r" using rct_invD(3) [OF inv r(1)] run [OF r(1,2)] by simp
    then show ?thesis using rct_invD(4) [OF inv r(1)] st by (auto simp: r(3) countable_def)
  qed (use rct_invD(3,4) [OF inv] in blast)
  moreover have "\<exists>r \<in> set (rct_runs ?t). rr_ID r = n \<and> rr_AgentName r = ag_Name a \<and> rr_Status r = StatusRunning \<and> \<not> polled r"
    if fl: "(n, a, ev, u) \<in> set (rct_flying ?t)" for n a ev u
  proof -
    have "(n, a, ev, u) \<in> set (rct_flying s)" using fl by (simp add: CompleteRun_runs)
    moreover from this out have "n \<noteq> i" by force
    moreover from rct_invD(6) [OF inv calculation(1)] obtain r where r: "r \<in> set (rct_runs s)" "rr_ID r = n"
      "rr_AgentName r = ag_Name a" "rr_Status r = StatusRunning" "\<not> polled r" by blast
    ultimately have "r \<in> set (rct_runs ?t)"
      using updated_row [OF r(1), of "\<lambda>r. rr_ID r = i" "finished_row j st e c"] False by (simp add: CompleteRun_runs)
    with r show ?thesis by blast
  qed
  ultimately have "rct_inv ?t" unfolding rct_inv_def using rct_invD(5) [OF inv] by (simp add: CompleteRun_runs(3)) blast
  moreover have "run_later r (if rr_ID r = i then finished_row j st e c r else r)" if "r \<in> set (rct_runs s)" for r
    using run [OF that] st by (auto simp: run_later_def finished_row_def)
  then have "rct_later s ?t"
    unfolding rct_later_def using updated_row [of _ "rct_runs s" "\<lambda>r. rr_ID r = i" "finished_row j st e c"] False
    by (auto simp: CompleteRun_runs)
  ultimately show ?thesis ..
qed

lemma checkPendingWork_ok:
  assumes inv: "rct_inv s"
  shows "rct_inv (checkPendingWork env env' name s) \<and> rct_later s (checkPendingWork env env' name s)"
proof -
  have "rct_inv (SetPendingWork f a b s)" "rct_later s (SetPendingWork f a b s)" for f a b
    using inv rct_later_refl [of s] by (simp_all add: rct_inv_def rct_later_def)
  with inv rct_later_refl evaluateTrigger_ok rct_later_trans show ?thesis
    unfolding checkPendingWork_def by (auto split: option.split) blast
qed

lemma rct_ok_same:
  "rct_inv s \<Longrightarrow> rct_runs t = rct_runs s \<Longrightarrow> rct_seq t = rct_seq s \<Longrightarrow> rct_flying t = rct_flying s \<Longrightarrow> rct_inv t \<and> rct_later s t"
  using rct_later_refl [of s] by (simp add: rct_inv_def rct_later_def)

lemma runHarness_eq:
  assumes fl: "rct_flying s ! k = (i, a, ev, t)" and v: "harness_verdict res = (st, e)"
  obtains s2 where "runHarness env env' res k s = checkPendingWork env env' (ag_Name a) s2"
    "rct_runs s2 = rct_runs (CompleteRun (re_fault env RxComplete) (re_julian_ms env) i st e (re_now env) s)"
    "rct_seq s2 = rct_seq s" "rct_flying s2 = remove_nth k (rct_flying s)" "rct_agents s2 = rct_agents s"
proof -
  let ?s1 = "CompleteRun (re_fault env RxComplete) (re_julian_ms env) i st e (re_now env) (s\<lparr>rct_flying := remove_nth k (rct_flying s)\<rparr>)"
  show thesis
    by (rule that [of "if st = StatusFailed
        then notifyFailure env a (ev_FromAgent ev) (ev_EventType ev) ((re_now env - t) div 1000000) e
               (react env (ev_MessageID ev) (ag_Name a) ''reject'' ?s1)
        else react env (ev_MessageID ev) (ag_Name a) ''done'' ?s1"])
      (simp_all add: runHarness_def fl v Let_def CompleteRun_runs)
qed

lemma harness_final: "harness_verdict res = (st, e) \<Longrightarrow> st = StatusSucceeded \<or> st = StatusFailed"
  by (auto simp: harness_verdict_def split: exec_outcome.splits if_splits)

text \<open>A run comes to its end, and then pending work of its agent is looked at.\<close>

definition completed :: "ReactiveRun \<Rightarrow> reactor \<Rightarrow> reactor \<Rightarrow> bool" where
  "completed r s t \<longleftrightarrow> r \<in> set (rct_runs s) \<and> rr_Status r = StatusRunning \<and> (polled r \<or> rr_ID r \<in> fst ` set (rct_flying s)) \<and>
     (\<exists>f j st e c. (st = StatusSucceeded \<or> st = StatusFailed) \<and> rct_runs t = rct_runs (CompleteRun f j (rr_ID r) st e c s)) \<and>
     rct_seq t = rct_seq s \<and> set (rct_flying t) \<subseteq> set (rct_flying s) \<and> distinct (map fst (rct_flying t)) \<and>
     rr_ID r \<notin> fst ` set (rct_flying t)"

definition completes :: "ReactiveRun \<Rightarrow> reactor \<Rightarrow> reactor \<Rightarrow> bool" where
  "completes r s t \<longleftrightarrow> (\<exists>s1 env env'. completed r s s1 \<and> t = checkPendingWork env env' (rr_AgentName r) s1)"

lemma completesI:
  "r \<in> set (rct_runs s) \<Longrightarrow> rr_Status r = StatusRunning \<Longrightarrow> polled r \<or> rr_ID r \<in> fst ` set (rct_flying s) \<Longrightarrow>
   t = checkPendingWork env env' (rr_AgentName r) s1 \<Longrightarrow> st = StatusSucceeded \<or> st = StatusFailed \<Longrightarrow>
   rct_runs s1 = rct_runs (CompleteRun f j (rr_ID r) st e c s) \<Longrightarrow> rct_seq s1 = rct_seq s \<Longrightarrow>
   set (rct_flying s1) \<subseteq> set (rct_flying s) \<Longrightarrow> distinct (map fst (rct_flying s1)) \<Longrightarrow> rr_ID r \<notin> fst ` set (rct_flying s1) \<Longrightarrow>
   completes r s t"
  unfolding completes_def completed_def by blast

lemma completed_ok:
  assumes inv: "rct_inv s" and c: "completed r s t"
  shows "rct_inv t \<and> rct_later s t"
proof -
  from c obtain f j st e now where r: "r \<in> set (rct_runs s)" "rr_Status r = StatusRunning"
    and t: "st = StatusSucceeded \<or> st = StatusFailed" "rct_runs t = rct_runs (CompleteRun f j (rr_ID r) st e now s)" "rct_seq t = rct_seq s"
    and fl: "set (rct_flying t) \<subseteq> set (rct_flying s)" "distinct (map fst (rct_flying t))" "rr_ID r \<notin> fst ` set (rct_flying t)"
    unfolding completed_def by blast
  let ?s0 = "s\<lparr>rct_flying := rct_flying t\<rparr>"
  have s0: "rct_inv ?s0" using inv fl(2,1) by (rule rct_inv_flying)
  have "rr_Status x = StatusRunning" if "x \<in> set (rct_runs ?s0)" "rr_ID x = rr_ID r" for x
    using ids_ok_unique [OF rct_invD(1) [OF inv] _ r(1)] that r(2) by auto
  then have "rct_inv (CompleteRun f j (rr_ID r) st e now ?s0) \<and> rct_later ?s0 (CompleteRun f j (rr_ID r) st e now ?s0)"
    using fl(3) by (intro CompleteRun_ok [OF s0 t(1)]) auto
  moreover have "rct_runs t = rct_runs (CompleteRun f j (rr_ID r) st e now ?s0)" by (simp add: t(2) CompleteRun_runs)
  ultimately show ?thesis
    using rct_ok_same [of "CompleteRun f j (rr_ID r) st e now ?s0" t] by (simp add: t(3) CompleteRun_runs rct_later_def)
qed

lemma completes_ok: "rct_inv s \<Longrightarrow> completes r s t \<Longrightarrow> rct_inv t \<and> rct_later s t"
  unfolding completes_def using completed_ok checkPendingWork_ok rct_later_trans by blast

lemma runHarness_completes:
  assumes inv: "rct_inv s" and k: "k < length (rct_flying s)"
  shows "\<exists>r. completes r s (runHarness env env' res k s)"
proof -
  obtain i a ev t where fl: "rct_flying s ! k = (i, a, ev, t)" by (cases "rct_flying s ! k")
  obtain st e where v: "harness_verdict res = (st, e)" by (cases "harness_verdict res")
  obtain s2 where s2: "runHarness env env' res k s = checkPendingWork env env' (ag_Name a) s2"
    "rct_runs s2 = rct_runs (CompleteRun (re_fault env RxComplete) (re_julian_ms env) i st e (re_now env) s)"
    "rct_seq s2 = rct_seq s" "rct_flying s2 = remove_nth k (rct_flying s)" using fl v by (rule runHarness_eq)
  have m: "(i, a, ev, t) \<in> set (rct_flying s)" using k fl by (metis nth_mem)
  then obtain r where r: "r \<in> set (rct_runs s)" "rr_ID r = i" "rr_AgentName r = ag_Name a" "rr_Status r = StatusRunning"
    using rct_invD(6) [OF inv] by blast
  have "distinct (map fst (rct_flying s2))" "rr_ID r \<notin> fst ` set (rct_flying s2)" "set (rct_flying s2) \<subseteq> set (rct_flying s)"
    using remove_nth_distinct [OF rct_invD(5) [OF inv] k] set_remove_nth [of k "rct_flying s"] by (simp_all add: fl s2(4) r(2))
  moreover have "rr_ID r \<in> fst ` set (rct_flying s)" using m r(2) by force
  ultimately have "completes r s (runHarness env env' res k s)"
    using s2 r harness_final [OF v] by (intro completesI [of r s _ env env' s2 st "re_fault env RxComplete" "re_julian_ms env" e "re_now env"]) simp_all
  then show ?thesis ..
qed

lemma runHarness_ok:
  assumes inv: "rct_inv s" and k: "k < length (rct_flying s)"
  shows "rct_inv (runHarness env env' res k s) \<and> rct_later s (runHarness env env' res k s)"
  using runHarness_completes [OF assms] completes_ok [OF inv] by blast

text \<open>Handling one job leaves the rows of all other runs in place.\<close>

lemma evaluateTrigger_keeps: "x \<in> set (rct_runs s) \<Longrightarrow> x \<in> set (rct_runs (snd (evaluateTrigger env name ev s)))"
  by (cases rule: evaluateTrigger_cases [of s env name ev])
    (auto simp: runs_kept_def skip_recorded_def run_launched_def)

lemma checkPendingWork_keeps: "x \<in> set (rct_runs s) \<Longrightarrow> x \<in> set (rct_runs (checkPendingWork env env' name s))"
  using evaluateTrigger_keeps [of x "SetPendingWork (re_fault env RxClearPending) name False s" env' name "coalesced_event name"]
  by (auto simp: checkPendingWork_def split: option.split)

text \<open>The state in which a job that came to its end leaves the table, before pending work is looked at.\<close>

definition job_completed :: "rct_env \<Rightarrow> string option \<Rightarrow> ReactiveRun \<Rightarrow> bool \<Rightarrow> string \<Rightarrow> reactor \<Rightarrow> reactor" where
  "job_completed env logs run success reason s =
     CompleteRun (re_fault env RxComplete) (re_julian_ms env) (rr_ID run) (if success then StatusSucceeded else StatusFailed)
       (if success then '''' else case logs of None \<Rightarrow> reason | Some t \<Rightarrow> if t = '''' then reason else last_lines t) (re_now env) s"

lemma handleJobComplete_eq:
  obtains s1 where "handleJobComplete env env' logs run success reason s = checkPendingWork env env' (rr_AgentName run) s1"
    "rct_runs s1 = rct_runs (job_completed env logs run success reason s)" "rct_seq s1 = rct_seq s" "rct_flying s1 = rct_flying s"
    "rct_agents s1 = rct_agents s"
proof (cases success)
  case True
  then show thesis
    by (intro that [of "job_completed env logs run success reason s"])
      (auto simp: handleJobComplete_def job_completed_def CompleteRun_runs)
next
  case False
  let ?s1 = "job_completed env logs run success reason s"
  let ?ms = "case rr_StartedAt run of None \<Rightarrow> 0 | Some t \<Rightarrow> (re_now env - t) div 1000000"
  let ?n = "\<lambda>a. notifyFailure env a (rr_TriggerFrom run) (rr_TriggerEvent run) ?ms (''Job '' @ rr_K8sJobName run @ '' failed: '' @ reason) ?s1"
  have "handleJobComplete env env' logs run success reason s = checkPendingWork env env' (rr_AgentName run)
      (case GetAgentByName (re_fault env RxAgent) (rr_AgentName run) ?s1 of None \<Rightarrow> ?s1 | Some a \<Rightarrow> ?n a)"
    by (simp only: handleJobComplete_def job_completed_def Let_def if_not_P [OF False])
  then show thesis
    by (rule that) (simp_all add: job_completed_def CompleteRun_runs split: option.split)
qed

lemma completed_keeps:
  "completed r s t \<Longrightarrow> x \<in> set (rct_runs s) \<Longrightarrow> rr_ID x \<noteq> rr_ID r \<Longrightarrow> x \<in> set (rct_runs t)"
  using updated_row [of x "rct_runs s" "\<lambda>q. rr_ID q = rr_ID r"] by (auto simp: completed_def CompleteRun_runs split: if_splits)

lemma completes_keeps:
  "completes r s t \<Longrightarrow> x \<in> set (rct_runs s) \<Longrightarrow> rr_ID x \<noteq> rr_ID r \<Longrightarrow> x \<in> set (rct_runs t)"
  unfolding completes_def using completed_keeps checkPendingWork_keeps by blast

lemma not_flying_polled:
  assumes inv: "rct_inv s" and r: "r \<in> set (rct_runs s)" "polled r"
  shows "rr_ID r \<notin> fst ` set (rct_flying s)"
proof
  assume "rr_ID r \<in> fst ` set (rct_flying s)"
  then obtain a ev t where "(rr_ID r, a, ev, t) \<in> set (rct_flying s)" by auto
  then obtain q where "q \<in> set (rct_runs s)" "rr_ID q = rr_ID r" "\<not> polled q" using rct_invD(6) [OF inv] by blast
  with ids_ok_unique [OF rct_invD(1) [OF inv] _ r(1)] r(2) show False by blast
qed

lemma checkJob_completes:
  assumes inv: "rct_inv s" and r: "r \<in> set (rct_runs s)" "rr_Status r = StatusRunning" "polled r"
  shows "checkJob env env' c r s = s \<or> completes r s (checkJob env env' c r s)"
proof -
  have "completes r s (handleJobComplete env env' logs r success reason s)" for logs success reason
  proof -
    let ?t = "job_completed env logs r success reason s"
    obtain s1 where s1: "handleJobComplete env env' logs r success reason s = checkPendingWork env env' (rr_AgentName r) s1"
      "rct_runs s1 = rct_runs ?t" "rct_seq s1 = rct_seq s" "rct_flying s1 = rct_flying s" by (rule handleJobComplete_eq)
    show ?thesis
      by (rule completesI [OF r(1,2) _ s1(1) _ s1(2) [unfolded job_completed_def] s1(3)])
        (use r(3) s1(4) not_flying_polled [OF inv r(1,3)] rct_invD(5) [OF inv] in simp_all)
  qed
  then show ?thesis by (simp add: checkJob_def split: option.split)
qed

lemma checkJob_ok:
  assumes inv: "rct_inv s" and r: "r \<in> set (rct_runs s)" "rr_Status r = StatusRunning" "polled r"
  shows "rct_inv (checkJob env env' c r s) \<and> rct_later s (checkJob env env' c r s) \<and>
    (\<forall>x \<in> set (rct_runs s). rr_ID x \<noteq> rr_ID r \<longrightarrow> x \<in> set (rct_runs (checkJob env env' c r s)))"
  using checkJob_completes [OF assms] completes_ok [OF inv] completes_keeps [of r s "checkJob env env' c r s"] inv rct_later_refl
  by (metis (no_types))

lemma poll_fold_ok:
  "rct_inv s \<Longrightarrow> distinct (map rr_ID rs) \<Longrightarrow> (\<And>r. r \<in> set rs \<Longrightarrow> r \<in> set (rct_runs s) \<and> rr_Status r = StatusRunning) \<Longrightarrow>
   rct_inv (fold (\<lambda>r s. if polled r then checkJob (f r) (g r) c r s else s) rs s) \<and>
   rct_later s (fold (\<lambda>r s. if polled r then checkJob (f r) (g r) c r s else s) rs s)"
proof (induction rs arbitrary: s)
  case Nil
  then show ?case by (simp add: rct_later_refl)
next
  case (Cons r rs)
  let ?t = "if polled r then checkJob (f r) (g r) c r s else s"
  have r: "r \<in> set (rct_runs s)" "rr_Status r = StatusRunning" using Cons.prems(3) [of r] by auto
  have t: "rct_inv ?t \<and> rct_later s ?t \<and> (\<forall>x \<in> set (rct_runs s). rr_ID x \<noteq> rr_ID r \<longrightarrow> x \<in> set (rct_runs ?t))"
    using checkJob_ok [OF Cons.prems(1) r] Cons.prems(1) by (simp add: rct_later_refl)
  have "x \<in> set (rct_runs ?t) \<and> rr_Status x = StatusRunning" if x: "x \<in> set rs" for x
  proof -
    have "rr_ID x \<noteq> rr_ID r" using Cons.prems(2) x by (metis distinct.simps(2) imageI list.simps(9) set_map)
    then show ?thesis using t Cons.prems(3) [of x] x by simp
  qed
  then have "rct_inv (fold (\<lambda>r s. if polled r then checkJob (f r) (g r) c r s else s) rs ?t) \<and>
      rct_later ?t (fold (\<lambda>r s. if polled r then checkJob (f r) (g r) c r s else s) rs ?t)"
    using t Cons.prems(2) by (intro Cons.IH) simp_all
  with t rct_later_trans show ?case unfolding fold_simps(2) by blast
qed

lemma pollActiveRuns_ok:
  assumes inv: "rct_inv s"
  shows "rct_inv (pollActiveRuns fl envs c s) \<and> rct_later s (pollActiveRuns fl envs c s)"
proof -
  have "distinct (map rr_ID (filter (\<lambda>r. rr_Status r = StatusRunning) (rct_runs s)))"
    using rct_invD(1) [OF inv] by (simp add: ids_ok_def distinct_map_filter)
  then have "rct_inv (pollActiveRuns False envs c s) \<and> rct_later s (pollActiveRuns False envs c s)"
    unfolding pollActiveRuns_def GetActiveRuns_def if_False sum.case
    by (rule poll_fold_ok [OF inv, where f = "\<lambda>r. fst (envs (rr_ID r))" and g = "\<lambda>r. snd (envs (rr_ID r))"]) simp
  moreover have "pollActiveRuns True envs c s = s" by (simp add: pollActiveRuns_def GetActiveRuns_def)
  ultimately show ?thesis using inv by (cases fl) (simp_all add: rct_later_refl)
qed

lemma reactor_Dispatch_ok:
  assumes inv: "rct_inv s"
  shows "rct_inv (snd (reactor_Dispatch envs ev s)) \<and> rct_later s (snd (reactor_Dispatch envs ev s))"
proof -
  have "rct_inv s \<Longrightarrow> rct_inv (fold (\<lambda>m s. if m = ev_FromAgent ev then s else snd (evaluateTrigger (envs m) m ev s)) ms s) \<and>
      rct_later s (fold (\<lambda>m s. if m = ev_FromAgent ev then s else snd (evaluateTrigger (envs m) m ev s)) ms s)" for ms
  proof (induction ms arbitrary: s)
    case (Cons m ms)
    let ?t = "if m = ev_FromAgent ev then s else snd (evaluateTrigger (envs m) m ev s)"
    have "rct_inv ?t \<and> rct_later s ?t" using evaluateTrigger_ok [OF Cons.prems] Cons.prems by (simp add: rct_later_refl)
    with Cons.IH [of ?t] rct_later_trans show ?case unfolding fold_simps(2) by blast
  qed (simp add: rct_later_refl)
  with inv evaluateTrigger_ok [OF inv] show ?thesis by (simp add: reactor_Dispatch_def rct_later_refl)
qed

lemma rct_exec_ok: "rct_inv s \<Longrightarrow> rct_inv (rct_exec op s) \<and> rct_later s (rct_exec op s)"
proof (cases op)
  case OpRestart
  assume "rct_inv s"
  then show ?thesis using rct_later_refl [of s] rct_inv_flying [of s "[]"] by (simp add: OpRestart reactor_restart_def rct_later_def)
next
  case (OpAgents as)
  assume "rct_inv s"
  then show ?thesis using rct_ok_same [of s "s\<lparr>rct_agents := as\<rparr>"] by (simp add: OpAgents)
qed (auto simp: rct_later_refl dest: reactor_Dispatch_ok runHarness_ok pollActiveRuns_ok)

lemma length_at_most_one:
  assumes "distinct xs" "\<And>x y. x \<in> set xs \<Longrightarrow> y \<in> set xs \<Longrightarrow> x = y"
  shows "length xs \<le> 1"
proof (cases xs)
  case (Cons x ys)
  then have "ys = []" using assms(1) assms(2) [of x] by (cases ys) fastforce+
  then show ?thesis by (simp add: Cons)
qed simp

lemma one_running:
  assumes "rct_inv s"
  shows "length (filter (\<lambda>r. rr_Status r = StatusRunning \<and> rr_AgentName r = name) (rct_runs s)) \<le> 1"
proof -
  let ?rs = "filter (\<lambda>r. rr_Status r = StatusRunning \<and> rr_AgentName r = name) (rct_runs s)"
  have "distinct (map rr_ID (rct_runs s))" using rct_invD(1) [OF assms] by (simp add: ids_ok_def)
  then have "distinct ?rs" by (simp add: distinct_map)
  moreover have "r = q" if "r \<in> set ?rs" "q \<in> set ?rs" for r q using that rct_invD(2) [OF assms, of r q] by simp
  ultimately show ?thesis by (rule length_at_most_one)
qed

interpretation rxs: history_system rct_exec rct_inv rct_later
  by unfold_locales (auto dest: rct_exec_ok intro: rct_later_refl rct_later_trans)

section \<open>Theorems\<close>

text \<open>
  Whatever sequence of events, returning harnesses, polls, restarts and changes of the agents the reactor sees, and
  whichever of its statements fail: an agent never has two runs in progress in the table; every run that is recorded is
  later still recorded, with the trigger, agent and start it had; only a run in progress changes, and it changes to
  succeeded or failed, which are final, as is a trigger that was skipped.
\<close>

theorem reactor_run_history:
  "length (filter (\<lambda>r. rr_Status r = StatusRunning \<and> rr_AgentName r = name) (rct_runs (fold rct_exec ops (rct_empty as)))) \<le> 1 \<and>
   rct_later (fold rct_exec ops (rct_empty as)) (fold rct_exec (ops @ more_ops) (rct_empty as))"
proof -
  have inv: "rct_inv (fold rct_exec ops (rct_empty as))" using rct_empty_inv by (rule rxs.run_inv)
  then have "rct_later (fold rct_exec ops (rct_empty as)) (fold rct_exec more_ops (fold rct_exec ops (rct_empty as)))"
    by (rule rxs.run_later)
  then show ?thesis using one_running [OF inv] by simp
qed

text \<open>The row that a trigger adds when no statement fails.\<close>

definition adds_row :: "rct_env \<Rightarrow> string \<Rightarrow> MessageEvent \<Rightarrow> run_status \<Rightarrow> reactor \<Rightarrow> reactor \<Rightarrow> bool" where
  "adds_row env name ev st s t \<longleftrightarrow> (\<exists>row. rct_runs t = rct_runs s @ [row] \<and> rr_AgentName row = name \<and>
     rr_TriggerDepth row = ev_Depth ev \<and> rr_TriggerFrom row = ev_FromAgent ev \<and> rr_CreatedAt row = rfc3339 (re_now env) \<and>
     rr_Status row = st)"

text \<open>Nothing is started: no goroutine, no job, no execution.\<close>

definition starts_nothing :: "reactor \<Rightarrow> reactor \<Rightarrow> bool" where
  "starts_nothing s t \<longleftrightarrow> rct_flying t = rct_flying s \<and>
     (\<exists>es. rct_out t = rct_out s @ es \<and> (\<forall>e \<in> set es. \<exists>to body. e = SendFailure to body))"

lemma recordSkippedRun_adds:
  assumes "\<And>st. \<not> re_fault env st" "name \<in> ag_Name ` set (rct_agents s)"
  shows "adds_row env name ev st s (recordSkippedRun env name ev st e s) \<and> starts_nothing s (recordSkippedRun env name ev st e s)"
  using assms by (auto simp: recordSkippedRun_def InsertRun_def skipped_run_def adds_row_def starts_nothing_def Let_def)

lemma pending_names: "ag_Name ` set (rct_agents (SetPendingWork f a p s)) = ag_Name ` set (rct_agents s)"
proof -
  have "map ag_Name (rct_agents (SetPendingWork f a p s)) = map ag_Name (rct_agents s)"
    by (simp add: SetPendingWork_def map_update_where)
  then show ?thesis by (metis set_map)
qed

lemma perform_skip_adds:
  assumes c: "\<And>st. \<not> re_fault env st" and n: "name \<in> ag_Name ` set (rct_agents s)"
  shows "adds_row env name ev st s (snd (perform env name ev (Skip st e p) s)) \<and>
    starts_nothing s (snd (perform env name ev (Skip st e p) s))"
proof -
  let ?s = "SetPendingWork (re_fault env RxSetPending) name True s"
  have "adds_row env name ev st ?s (recordSkippedRun env name ev st e ?s) \<and> starts_nothing ?s (recordSkippedRun env name ev st e ?s)"
    by (rule recordSkippedRun_adds [OF c]) (simp add: pending_names n)
  then show ?thesis
    using recordSkippedRun_adds [OF c n, where ev = ev and st = st and e = e]
    by (cases p) (simp_all add: perform_def adds_row_def starts_nothing_def)
qed

lemma createJob_adds:
  assumes c: "\<And>st. \<not> re_fault env st" and n: "ag_Name a \<in> ag_Name ` set (rct_agents s)"
  shows "adds_row env (ag_Name a) ev (if isl (re_job env) then StatusFailed else StatusRunning) s (snd (createJob env a ev (ev_Depth ev) s)) \<and>
    (isl (re_job env) \<longrightarrow> starts_nothing s (snd (createJob env a ev (ev_Depth ev) s)))"
proof (cases "re_job env")
  case (Inl e)
  let ?t = "recordSkippedRun env (ag_Name a) ev StatusFailed (job_error e) s"
  have eq: "snd (createJob env a ev (ev_Depth ev) s) = notifyFailure env a (ev_FromAgent ev) (ev_EventType ev) 0 (job_error e) ?t"
    by (simp add: createJob_def Inl Let_def)
  have t: "adds_row env (ag_Name a) ev StatusFailed s ?t \<and> starts_nothing s ?t" using c n by (rule recordSkippedRun_adds)
  have "starts_nothing s (notifyFailure env a fr tr ms m ?t)" for fr tr ms m
    using t by (auto simp: notifyFailure_def starts_nothing_def split: option.split)
  moreover have "adds_row env (ag_Name a) ev StatusFailed s (notifyFailure env a fr tr ms m ?t)" for fr tr ms m
    using t by (simp add: adds_row_def)
  ultimately show ?thesis by (simp add: eq Inl)
next
  case (Inr j)
  then show ?thesis
    using c n by (auto simp: createJob_def Let_def adds_row_def InsertRun_def running_run_def)
qed

lemma dispatchHarness_adds:
  "(\<And>st. \<not> re_fault env st) \<Longrightarrow> ag_Name a \<in> ag_Name ` set (rct_agents s) \<Longrightarrow>
   adds_row env (ag_Name a) ev StatusRunning s (snd (dispatchHarness env a ev (ev_Depth ev) s))"
  by (auto simp: dispatchHarness_def Let_def adds_row_def InsertRun_def running_run_def)

lemma trigger_outcome:
  assumes calm: "\<And>st. \<not> re_fault env st" and sender: "ev_FromAgent ev \<noteq> ''system''"
    and agent: "find_row (\<lambda>x. ag_Name x = name \<and> ag_Active x) (rct_agents s) = Some a" "ag_TriggerMode a = ''reactive''"
  shows "\<exists>st. st = (if ag_QuarantinedAt a \<noteq> None \<or> backend_refusal env a \<noteq> None then StatusFailed
        else if ag_MaxTriggerDepth a \<le> ev_Depth ev then StatusDepthExceeded
        else if ag_DailyTriggerBudget a \<le> runs_today (re_now env) name s then StatusBudgetExhausted
        else if cooling (re_now env) a name s then StatusCooldownSkipped
        else if busy name s then StatusQueued
        else if agentBackendKind a = BackendK8s \<and> isl (re_job env) then StatusFailed else StatusRunning) \<and>
    adds_row env name ev st s (snd (evaluateTrigger env name ev s)) \<and>
    (st \<noteq> StatusRunning \<longrightarrow> starts_nothing s (snd (evaluateTrigger env name ev s)))"
proof -
  have n: "name \<in> ag_Name ` set (rct_agents s)" and name: "name = ag_Name a" using find_row_Some [OF agent(1)] by auto
  have get: "(if ev_FromAgent ev = ''system'' then None else GetAgentByName (re_fault env RxAgent) name s) = Some a"
    using sender agent(1) calm by (simp add: GetAgentByName_def)
  note skip = perform_skip_adds [OF calm n]
  have "adds_row env name ev (if agentBackendKind a = BackendK8s \<and> isl (re_job env) then StatusFailed else StatusRunning) s
      (snd (perform env name ev (Launch a) s)) \<and>
    (agentBackendKind a = BackendK8s \<and> isl (re_job env) \<longrightarrow> starts_nothing s (snd (perform env name ev (Launch a) s)))"
    using createJob_adds [OF calm n [unfolded name], of ev] dispatchHarness_adds [OF calm n [unfolded name], of ev]
    by (cases "agentBackendKind a = BackendK8s"; cases "isl (re_job env)") (simp_all add: perform_def name)
  then show ?thesis
    unfolding evaluateTrigger_perform trigger_verdict_def get option.case using agent(2) calm skip
    by (simp split: option.split)
qed

text \<open>
  The decision chain. For an event that is not from the system and a reactive agent, and if no statement fails, exactly one
  row is added. It is a run in progress exactly if the agent is not quarantined, its backend can take the run, the depth is
  below the agent's maximum, the runs counted today are below its budget, its last counted run is at least the cooldown
  ago and no run of it is in progress (and, for a Kubernetes agent, the job was created). Otherwise the row records the first of
  these checks that failed and nothing is started.
\<close>

theorem reactor_decision:
  assumes calm: "\<And>st. \<not> re_fault env st" and sender: "ev_FromAgent ev \<noteq> ''system''"
    and agent: "find_row (\<lambda>x. ag_Name x = name \<and> ag_Active x) (rct_agents s) = Some a" "ag_TriggerMode a = ''reactive''"
  shows "\<exists>st. st = (if ag_QuarantinedAt a \<noteq> None \<or> backend_refusal env a \<noteq> None then StatusFailed
        else if ag_MaxTriggerDepth a \<le> ev_Depth ev then StatusDepthExceeded
        else if ag_DailyTriggerBudget a \<le> runs_today (re_now env) name s then StatusBudgetExhausted
        else if cooling (re_now env) a name s then StatusCooldownSkipped
        else if busy name s then StatusQueued
        else if agentBackendKind a = BackendK8s \<and> isl (re_job env) then StatusFailed else StatusRunning) \<and>
    adds_row env name ev st s (snd (evaluateTrigger env name ev s)) \<and>
    (st \<noteq> StatusRunning \<longrightarrow> starts_nothing s (snd (evaluateTrigger env name ev s)))"
  using assms by (rule trigger_outcome)

end
