(* ===== verification/Reactor_Limits.thy ===== *)
theory Reactor_Limits
  imports Reactor
begin

text \<open>
  What the limits of the reactor achieve, over any sequence of operations of
  \<open>Reactor\<close>: the bounds on the starts of an agent, that pending work is served, and the two
  situations in which an agent's runs stop. An operation is a sequence of the steps of
  \<open>micro\<close>, so that a claim about all runs is a claim about a trigger and about a completion.
\<close>

section \<open>Limits on the runs of an agent\<close>

text \<open>A property that the parts of the handlers keep is kept by every operation.\<close>

lemma rct_exec_closed:
  assumes P: "P s"
    and ev: "\<And>env name ev s. P s \<Longrightarrow> P (snd (evaluateTrigger env name ev s))"
    and fin: "\<And>f j i st e c s. st = StatusSucceeded \<or> st = StatusFailed \<Longrightarrow> P s \<Longrightarrow> P (CompleteRun f j i st e c s)"
    and pend: "\<And>f a b s. P s \<Longrightarrow> P (SetPendingWork f a b s)"
    and out: "\<And>es s. P s \<Longrightarrow> P (s\<lparr>rct_out := es\<rparr>)" and fly: "\<And>fl s. P s \<Longrightarrow> P (s\<lparr>rct_flying := fl\<rparr>)"
    and agents: "\<And>as. op = OpAgents as \<Longrightarrow> P (s\<lparr>rct_agents := as\<rparr>)"
  shows "P (rct_exec op s)"
proof -
  have react: "P (react env i a k s)" and notify: "P (notifyFailure env x fr tr ms e s)" if "P s" for env i a k x fr tr ms e s
    using that out by (auto simp: react_def notifyFailure_def split: option.split)
  have check: "P (checkPendingWork env env' name s)" if "P s" for env env' name s
    using that ev pend by (auto simp: checkPendingWork_def split: option.split)
  have job: "P (checkJob env env' c r s)" if "P s" for env env' c r s
    using that by (auto simp: checkJob_def handleJobComplete_def Let_def intro!: check fin notify split: option.split)
  have poll: "P s \<Longrightarrow> P (fold (\<lambda>r s. if polled r then checkJob (f r) (g r) c r s else s) rs s)" for f g c rs s
    by (induction rs arbitrary: s) (auto intro: job)
  have disp: "P s \<Longrightarrow> P (fold (\<lambda>m s. if m = b then s else snd (evaluateTrigger (envs m) m ev s)) ms s)" for b envs ev ms s
    by (induction ms arbitrary: s) (auto intro: ev)
  show ?thesis
  proof (cases op)
    case (OpEvent envs e)
    then show ?thesis using P ev disp by (simp add: reactor_Dispatch_def)
  next
    case (OpHarness env env' res k)
    obtain st e where v: "harness_verdict res = (st, e)" by (cases "harness_verdict res")
    show ?thesis
      using P OpHarness v harness_final [OF v] by (auto simp: runHarness_def Let_def split: prod.split intro!: check notify react fin fly)
  next
    case (OpPoll f envs c)
    then show ?thesis using P poll [of s] by (simp add: pollActiveRuns_def GetActiveRuns_def)
  qed (use P fly agents in \<open>simp_all add: reactor_restart_def\<close>)
qed

text \<open>The times at which runs of an agent were started, in the order of the table.\<close>

definition starts :: "string \<Rightarrow> reactor \<Rightarrow> timestamp list" where
  "starts name s = map rr_CreatedAt (filter (\<lambda>r. launched r \<and> rr_AgentName r = name) (rct_runs s))"

text \<open>The settings of an agent are within a budget, a cooldown, and the range of a 64-bit duration.\<close>

definition within :: "string \<Rightarrow> int \<Rightarrow> int \<Rightarrow> Agent list \<Rightarrow> bool" where
  "within name b c as \<longleftrightarrow> list_all (\<lambda>a. ag_Name a = name \<longrightarrow>
     ag_DailyTriggerBudget a \<le> b \<and> c \<le> ag_CooldownSeconds a \<and> 0 \<le> ag_CooldownSeconds a \<and> ag_CooldownSeconds a \<le> 9223372036) as"

definition limits :: "string \<Rightarrow> int \<Rightarrow> int \<Rightarrow> reactor \<Rightarrow> bool" where
  "limits name b c s \<longleftrightarrow> within name b c (rct_agents s) \<and>
     (\<forall>r \<in> set (rct_runs s). launched r \<longrightarrow> countable (rr_AgentName r) r \<and> rr_CreatedAt r mod nanos = 0) \<and>
     (\<forall>d. int (length (filter (\<lambda>t. start_of_day t = d) (starts name s))) \<le> max 0 b) \<and>
     sorted_wrt (\<lambda>x t. x + c * nanos \<le> t) (starts name s)"

lemma rfc3339_facts: "rfc3339 t mod nanos = 0" "start_of_day (rfc3339 t) = start_of_day t" "start_of_day t \<le> t"
proof -
  show "rfc3339 t mod nanos = 0" by (simp add: rfc3339_def)
  show "start_of_day t \<le> t" by (simp add: start_of_day_def nanos_def)
  have "rfc3339 t div (86400 * nanos) = t div (86400 * nanos)"
    unfolding rfc3339_def nanos_def minus_mod_eq_mult_div by (simp add: zdiv_zmult2_eq mult.commute)
  then show "start_of_day (rfc3339 t) = start_of_day t" by (simp add: start_of_day_def minus_mod_eq_mult_div)
qed

lemma whole_seconds:
  assumes "x mod nanos = 0" "x + c * nanos \<le> t"
  shows "x + c * nanos \<le> rfc3339 t"
proof -
  obtain k where k: "x = nanos * k" using assms(1) by (auto simp: mod_eq_0_iff_dvd)
  have "(k + c) * nanos \<le> t" using assms(2) by (simp add: k algebra_simps)
  then have "k + c \<le> t div nanos" by (simp add: nanos_def)
  then have "(k + c) * nanos \<le> t div nanos * nanos" by (intro mult_right_mono) (simp_all add: nanos_def)
  then show ?thesis by (simp add: k rfc3339_def minus_mod_eq_mult_div algebra_simps)
qed

lemma cooldown_nanos:
  assumes "0 \<le> c" "c \<le> 9223372036"
  shows "sint (of_int c * of_int nanos :: duration) = c * nanos"
proof -
  have "of_int c * of_int nanos = (of_int (c * nanos) :: duration)" by simp
  moreover have "in_int64 (c * nanos)" using assms by (simp add: in_int64_def nanos_def)
  ultimately show ?thesis by (metis sint_of_int)
qed

lemma limits_cong:
  "limits name b c s \<Longrightarrow> rct_runs t = rct_runs s \<Longrightarrow> within name b c (rct_agents t) \<Longrightarrow> limits name b c t"
  by (simp add: limits_def starts_def)

lemma SetPendingWork_within: "within name b c (rct_agents (SetPendingWork f a p s)) = within name b c (rct_agents s)"
proof -
  have "list_all P (update_where Q f rs) = list_all P rs" if "\<And>r. P (f r) = P r" for P Q f and rs :: "Agent list"
    using that by (induction rs) auto
  then show ?thesis by (simp add: SetPendingWork_def within_def)
qed

lemma length_filter_mono:
  "(\<And>x. x \<in> set xs \<Longrightarrow> P x \<Longrightarrow> Q x) \<Longrightarrow> length (filter P xs) \<le> length (filter Q xs)"
  by (induction xs) (auto simp: le_Suc_eq)

lemma InsertRun_agents [simp]: "rct_agents (snd (InsertRun f now run s)) = rct_agents s"
  by (simp add: InsertRun_def Let_def)

lemma evaluateTrigger_within:
  "within name b c (rct_agents (snd (evaluateTrigger env n ev s))) = within name b c (rct_agents s)"
proof -
  have "rct_agents (recordSkippedRun env n ev st e s) = rct_agents s" for env n ev st e s by (simp add: recordSkippedRun_def)
  moreover have "within name b c (rct_agents (snd (createJob env a ev d s))) = within name b c (rct_agents s)" for a d
    by (simp add: createJob_def Let_def SetPendingWork_within calculation split: sum.split)
  moreover have "within name b c (rct_agents (snd (dispatchHarness env a ev d s))) = within name b c (rct_agents s)" for a d
  proof -
    obtain r t where i: "InsertRun (re_fault env RxInsert) (re_now env)
        (running_run (ag_Name a) (message_ref (ev_MessageID ev)) ev d '''' '''' (re_now env)) s = (r, t)" by (rule prod.exhaust)
    then have "rct_agents t = rct_agents s" using InsertRun_agents by (metis snd_conv)
    then show ?thesis by (simp add: dispatchHarness_def i Let_def SetPendingWork_within split: sum.split)
  qed
  ultimately show ?thesis
    by (simp add: evaluateTrigger_perform perform_def SetPendingWork_within split: verdict.split)
qed

lemma launch_limits:
  assumes lim: "limits name b c s" and run: "run_launched env n a s t" and m: "may_launch env n ev a s"
    and ag: "within name b c (rct_agents t)"
  shows "limits name b c t"
proof -
  from run obtain row where row: "rct_runs t = rct_runs s @ [row]" "rr_AgentName row = n" "rr_Status row = StatusRunning"
    "rr_StartedAt row = Some (rfc3339 (re_now env))" "rr_CreatedAt row = rfc3339 (re_now env)" by (auto simp: run_launched_def)
  let ?now = "rfc3339 (re_now env)"
  have new: "launched row \<and> countable (rr_AgentName row) row \<and> rr_CreatedAt row mod nanos = 0"
    by (simp add: launched_def countable_def row rfc3339_facts(1))
  show ?thesis
  proof (cases "n = name")
    case False
    then have "starts name t = starts name s" by (simp add: starts_def row)
    then show ?thesis using lim new ag by (auto simp: limits_def row(1))
  next
    case True
    have st: "starts name t = starts name s @ [?now]" using new True by (simp add: starts_def row)
    have set_ok: "ag_DailyTriggerBudget a \<le> b" "c \<le> ag_CooldownSeconds a" "0 \<le> ag_CooldownSeconds a" "ag_CooldownSeconds a \<le> 9223372036"
      using lim m True by (auto simp: limits_def within_def list_all_iff may_launch_def)
    have "int (length (filter (\<lambda>t. start_of_day t = start_of_day ?now) (starts name s))) \<le> runs_today (re_now env) name s"
    proof -
      have "length (filter (\<lambda>t. start_of_day t = start_of_day ?now) (starts name s)) =
          length (filter (\<lambda>r. launched r \<and> rr_AgentName r = name \<and> start_of_day (rr_CreatedAt r) = start_of_day (re_now env)) (rct_runs s))"
        by (simp add: starts_def filter_map o_def rfc3339_facts(2) conj_assoc)
      also have "\<dots> \<le> length (filter (\<lambda>r. countable name r \<and> start_of_day (re_now env) \<le> rr_CreatedAt r) (rct_runs s))"
      proof (rule length_filter_mono)
        fix r
        assume "r \<in> set (rct_runs s)" "launched r \<and> rr_AgentName r = name \<and> start_of_day (rr_CreatedAt r) = start_of_day (re_now env)"
        then show "countable name r \<and> start_of_day (re_now env) \<le> rr_CreatedAt r"
          using lim rfc3339_facts(3) [of "rr_CreatedAt r"] by (auto simp: limits_def)
      qed
      finally show ?thesis by (simp add: runs_today_def)
    qed
    moreover have "runs_today (re_now env) name s < ag_DailyTriggerBudget a" using m True by (simp add: may_launch_def)
    ultimately have day: "int (length (filter (\<lambda>t. start_of_day t = start_of_day ?now) (starts name s))) < b"
      using set_ok(1) by linarith
    have "x + c * nanos \<le> ?now" if x: "x \<in> set (starts name s)" for x
    proof -
      from x obtain r where r: "r \<in> set (rct_runs s)" "launched r" "rr_AgentName r = name" "x = rr_CreatedAt r" by (auto simp: starts_def)
      then have "countable name r" "x mod nanos = 0" using lim by (auto simp: limits_def)
      moreover have "ag_CooldownSeconds a * nanos \<le> re_now env - x"
        using m r(1) \<open>countable name r\<close> True by (auto simp: may_launch_def cooling_def cooldown_nanos [OF set_ok(3,4)] r(4))
      moreover have "c * nanos \<le> ag_CooldownSeconds a * nanos" using set_ok(2) by (simp add: nanos_def)
      ultimately show ?thesis by (intro whole_seconds) simp_all
    qed
    then have "sorted_wrt (\<lambda>x t. x + c * nanos \<le> t) (starts name t)" using lim by (simp add: st sorted_wrt_append limits_def)
    moreover have "int (length (filter (\<lambda>t. start_of_day t = d) (starts name t))) \<le> max 0 b" for d
      using lim day by (auto simp: st limits_def)
    ultimately show ?thesis using lim new ag by (auto simp: limits_def row(1))
  qed
qed

lemma evaluateTrigger_limits:
  assumes lim: "limits name b c s"
  shows "limits name b c (snd (evaluateTrigger env n ev s))"
proof -
  have ag: "within name b c (rct_agents (snd (evaluateTrigger env n ev s)))" using lim by (simp add: evaluateTrigger_within limits_def)
  show ?thesis
  proof (cases rule: evaluateTrigger_cases [of s env n ev])
    case kept
    then show ?thesis using limits_cong [OF lim _ ag] by (simp add: runs_kept_def)
  next
    case skipped
    then obtain row where row: "rct_runs (snd (evaluateTrigger env n ev s)) = rct_runs s @ [row]" "rr_StartedAt row = None"
      by (auto simp: skip_recorded_def)
    then have "starts name (snd (evaluateTrigger env n ev s)) = starts name s" by (simp add: starts_def launched_def)
    with lim ag row show ?thesis by (auto simp: limits_def launched_def)
  next
    case (launched a)
    then show ?thesis by (rule launch_limits [OF lim _ _ ag])
  qed
qed

lemma CompleteRun_limits:
  assumes st: "st = StatusSucceeded \<or> st = StatusFailed" and lim: "limits name b c s"
  shows "limits name b c (CompleteRun f j i st e t s)"
proof -
  have "map rr_CreatedAt (filter (\<lambda>r. launched r \<and> rr_AgentName r = name) (update_where P (finished_row j st e t) rs)) =
      map rr_CreatedAt (filter (\<lambda>r. launched r \<and> rr_AgentName r = name) rs)" for P rs
    by (induction rs) auto
  then have "starts name (CompleteRun f j i st e t s) = starts name s" by (simp add: starts_def CompleteRun_runs)
  moreover have "launched r \<longrightarrow> countable (rr_AgentName r) r \<and> rr_CreatedAt r mod nanos = 0"
    if "r \<in> set (rct_runs (CompleteRun f j i st e t s))" for r
    using that lim st by (auto simp: CompleteRun_runs in_update_where limits_def countable_def split: if_splits)
  ultimately show ?thesis using lim by (simp add: limits_def CompleteRun_runs(4))
qed

lemma rct_exec_limits:
  assumes "limits name b c s" "\<And>as. op = OpAgents as \<Longrightarrow> within name b c as"
  shows "limits name b c (rct_exec op s)"
proof (rule rct_exec_closed [where P = "limits name b c", OF assms(1)])
  show "limits name b c (SetPendingWork f a p s)" if "limits name b c s" for f a p s
    using limits_cong [OF that] that by (simp add: SetPendingWork_within limits_def)
  show "limits name b c (s\<lparr>rct_out := es\<rparr>)" "limits name b c (s\<lparr>rct_flying := fl\<rparr>)" if "limits name b c s" for es fl s
    using limits_cong [OF that] that by (simp_all add: limits_def)
  show "limits name b c (s\<lparr>rct_agents := as\<rparr>)" if "op = OpAgents as" for as
    using limits_cong [OF assms(1), of "s\<lparr>rct_agents := as\<rparr>"] assms(2) that by simp
qed (auto intro: evaluateTrigger_limits CompleteRun_limits)


text \<open>A sample agent with a local command, and the surroundings of a calm call.\<close>

definition sample_agent :: "string \<Rightarrow> Agent" where
  "sample_agent n = \<lparr>ag_ID = 1, ag_Name = n, ag_Type = ''ai'', ag_OwnerID = 1, ag_Active = True, ag_TriggerMode = ''reactive'',
     ag_CooldownSeconds = 600, ag_DailyTriggerBudget = 8, ag_MaxTriggerDepth = 5, ag_K8sImage = '''', ag_K8sEnvJSON = '''',
     ag_K8sResourcePreset = ''default'', ag_PendingWork = False, ag_HarnessName = '''', ag_LocalCommand = ''run'',
     ag_HarnessConfigJSON = '''', ag_QuarantinedAt = None, ag_QuarantineReason = ''''\<rparr>"

definition calm_env :: "timestamp \<Rightarrow> rct_env" where
  "calm_env now = \<lparr>re_now = now, re_fault = (\<lambda>_. False), re_available = True, re_job = Inr ''job-1'', re_namespace = ''default'',
     re_registry = Some [''k8sjob'', ''subprocess'', ''docker'', ''webhook''], re_notifier = True, re_reactions = True,
     re_secrets = None, re_env_json = (\<lambda>_. None), re_julian_ms = (\<lambda>x y. x - y)\<rparr>"

definition sample_dm :: "string \<Rightarrow> MessageEvent" where
  "sample_dm n = \<lparr>ev_EventType = ''message.received'', ev_MessageID = 7, ev_FromAgent = ''bob'', ev_ToAgent = n, ev_Channel = '''',
     ev_Body = ''hi'', ev_Priority = 5, ev_Metadata = JNull, ev_Depth = 0, ev_MentionedAgents = []\<rparr>"


theorem reactor_decision_witness:
  "adds_row (calm_env 0) ''ann'' (sample_dm ''ann'') StatusRunning (rct_empty [sample_agent ''ann''])
     (snd (evaluateTrigger (calm_env 0) ''ann'' (sample_dm ''ann'') (rct_empty [sample_agent ''ann''])))"
proof -
  have c: "\<And>st. \<not> re_fault (calm_env 0) st" by (simp add: calm_env_def)
  have f: "ev_FromAgent (sample_dm ''ann'') \<noteq> ''system''" by code_simp
  have a: "find_row (\<lambda>x. ag_Name x = ''ann'' \<and> ag_Active x) (rct_agents (rct_empty [sample_agent ''ann''])) = Some (sample_agent ''ann'')"
    by (simp add: rct_empty_def sample_agent_def)
  have r: "ag_TriggerMode (sample_agent ''ann'') = ''reactive''" by code_simp
  have "(if ag_QuarantinedAt (sample_agent ''ann'') \<noteq> None \<or> backend_refusal (calm_env 0) (sample_agent ''ann'') \<noteq> None then StatusFailed
      else if ag_MaxTriggerDepth (sample_agent ''ann'') \<le> ev_Depth (sample_dm ''ann'') then StatusDepthExceeded
      else if ag_DailyTriggerBudget (sample_agent ''ann'') \<le> runs_today (re_now (calm_env 0)) ''ann'' (rct_empty [sample_agent ''ann''])
        then StatusBudgetExhausted
      else if cooling (re_now (calm_env 0)) (sample_agent ''ann'') ''ann'' (rct_empty [sample_agent ''ann'']) then StatusCooldownSkipped
      else if busy ''ann'' (rct_empty [sample_agent ''ann'']) then StatusQueued
      else if agentBackendKind (sample_agent ''ann'') = BackendK8s \<and> isl (re_job (calm_env 0)) then StatusFailed else StatusRunning) =
      StatusRunning" by code_simp
  with reactor_decision [OF c f a r] show ?thesis by simp
qed

section \<open>Pending work\<close>

text \<open>Completing a run changes neither what counts today nor the cooldown, and frees the agent.\<close>

lemma complete_counts:
  assumes inv: "rct_inv s" and st: "st = StatusSucceeded \<or> st = StatusFailed"
    and r: "r \<in> set (rct_runs s)" "rr_Status r = StatusRunning"
    and t: "rct_runs t = update_where (\<lambda>q. rr_ID q = rr_ID r) (finished_row j st e c) (rct_runs s)"
  shows "runs_today now name t = runs_today now name s" "cooling now a name t \<longleftrightarrow> cooling now a name s"
    "\<not> busy (rr_AgentName r) t"
proof -
  have only: "q = r" if "q \<in> set (rct_runs s)" "rr_ID q = rr_ID r" for q
    using ids_ok_unique [OF rct_invD(1) [OF inv] that(1) r(1)] that(2) .
  have same: "countable name (if rr_ID q = rr_ID r then finished_row j st e c q else q) = countable name q \<and>
      rr_CreatedAt (if rr_ID q = rr_ID r then finished_row j st e c q else q) = rr_CreatedAt q" if "q \<in> set (rct_runs s)" for q
    using st r(2) only [OF that] by (auto simp: countable_def)
  have count: "length (filter (\<lambda>q. countable name q \<and> d \<le> rr_CreatedAt q) (update_where (\<lambda>q. rr_ID q = rr_ID r) (finished_row j st e c) rs)) =
      length (filter (\<lambda>q. countable name q \<and> d \<le> rr_CreatedAt q) rs)" if "set rs \<subseteq> set (rct_runs s)" for d rs
    using that same by (induction rs) (auto split: if_splits)
  show "runs_today now name t = runs_today now name s" by (simp add: runs_today_def t count)
  show "cooling now a name t \<longleftrightarrow> cooling now a name s"
  proof
    assume "cooling now a name t"
    then obtain q where q: "q \<in> set (rct_runs t)" "countable name q"
      "now - rr_CreatedAt q < sint (of_int (ag_CooldownSeconds a) * of_int nanos :: duration)" by (auto simp: cooling_def)
    from q(1) obtain p where p: "p \<in> set (rct_runs s)" "q = (if rr_ID p = rr_ID r then finished_row j st e c p else p)"
      by (auto simp: t in_update_where)
    with same [OF p(1)] q(2,3) show "cooling now a name s" unfolding cooling_def by (intro bexI [OF _ p(1)]) simp
  next
    assume "cooling now a name s"
    then obtain p where p: "p \<in> set (rct_runs s)" "countable name p"
      "now - rr_CreatedAt p < sint (of_int (ag_CooldownSeconds a) * of_int nanos :: duration)" by (auto simp: cooling_def)
    define q where "q = (if rr_ID p = rr_ID r then finished_row j st e c p else p)"
    have "q \<in> set (rct_runs t)" unfolding q_def t by (rule updated_row [OF p(1)])
    moreover have "countable name q" "rr_CreatedAt q = rr_CreatedAt p" using same [OF p(1)] p(2) by (simp_all only: q_def)
    ultimately show "cooling now a name t" unfolding cooling_def using p(3) by (metis (no_types, lifting))
  qed
  show "\<not> busy (rr_AgentName r) t"
  proof
    assume "busy (rr_AgentName r) t"
    then obtain q where q: "q \<in> set (rct_runs t)" "rr_AgentName q = rr_AgentName r" "rr_Status q = StatusRunning" by (auto simp: busy_def)
    from q(1) obtain p where p: "p \<in> set (rct_runs s)" "q = (if rr_ID p = rr_ID r then finished_row j st e c p else p)"
      by (auto simp: t in_update_where)
    have "rr_ID p \<noteq> rr_ID r" "q = p" using p q(3) st by (auto split: if_splits)
    with rct_invD(2) [OF inv p(1) r(1) _ r(2)] q show False by simp
  qed
qed

lemma SetPendingWork_find:
  "find_row (\<lambda>x. ag_Name x = n \<and> ag_Active x) (rct_agents (SetPendingWork False m p s)) =
   map_option (\<lambda>x. if m = n then x\<lparr>ag_PendingWork := p\<rparr> else x) (find_row (\<lambda>x. ag_Name x = n \<and> ag_Active x) (rct_agents s))"
proof -
  have "find_row (\<lambda>x. ag_Name x = n \<and> ag_Active x) (update_where (\<lambda>x. ag_Name x = m \<and> ag_Active x) (\<lambda>x. x\<lparr>ag_PendingWork := p\<rparr>) rs) =
      map_option (\<lambda>x. if m = n then x\<lparr>ag_PendingWork := p\<rparr> else x) (find_row (\<lambda>x. ag_Name x = n \<and> ag_Active x) rs)" for rs
    by (induction rs) auto
  then show ?thesis by (simp add: SetPendingWork_def)
qed

text \<open>The flag does not matter to the checks.\<close>

lemma backend_pending [simp]:
  "agentBackendKind (a\<lparr>ag_PendingWork := p\<rparr>) = agentBackendKind a" "Resolve names (a\<lparr>ag_PendingWork := p\<rparr>) = Resolve names a"
  "cooling now (a\<lparr>ag_PendingWork := p\<rparr>) n s = cooling now a n s"
  "cooling now a n (SetPendingWork f m q s) = cooling now a n s" "busy n (SetPendingWork f m q s) = busy n s"
  "runs_today now n (SetPendingWork f m q s) = runs_today now n s"
  by (simp_all add: agentBackendKind_def Resolve_def cooling_def busy_def runs_today_def)

lemma refusal_pending [simp]: "backend_refusal env (a\<lparr>ag_PendingWork := p\<rparr>) = backend_refusal env a"
  by (simp add: backend_refusal_def split: backend.split option.split sum.split)

lemma pending_cleared:
  assumes "x \<in> set (rct_agents (SetPendingWork False n False s))" "ag_Name x = n" "ag_Active x"
  shows "\<not> ag_PendingWork x"
proof -
  let ?hit = "\<lambda>y. ag_Name y = n \<and> ag_Active y"
  obtain y where y: "x = (if ?hit y then y\<lparr>ag_PendingWork := False\<rparr> else y)"
    using assms(1) by (auto simp: SetPendingWork_def in_update_where)
  then have "?hit y" using assms(2,3) by (cases "?hit y") simp_all
  with y show ?thesis by simp
qed

lemma launch_clears_pending:
  assumes c: "\<And>st. \<not> re_fault env st" and l: "trigger_verdict env n ev s = Launch a"
    and s: "\<And>x. x \<in> set (rct_agents s) \<Longrightarrow> ag_Name x = n \<Longrightarrow> ag_Active x \<Longrightarrow> \<not> ag_PendingWork x"
    and x: "x \<in> set (rct_agents (snd (evaluateTrigger env n ev s)))" "ag_Name x = n" "ag_Active x"
  shows "\<not> ag_PendingWork x"
proof -
  have n: "ag_Name a = n" "n \<in> ag_Name ` set (rct_agents s)" using launch_conditions [OF l] by (auto simp: may_launch_def)
  show ?thesis
  proof (cases "agentBackendKind a = BackendK8s")
    case True
    then have eq: "snd (evaluateTrigger env n ev s) = snd (createJob env a ev (ev_Depth ev) s)"
      by (simp add: evaluateTrigger_perform perform_def l)
    show ?thesis
    proof (cases "re_job env")
      case (Inl e)
      then have "rct_agents (snd (createJob env a ev (ev_Depth ev) s)) = rct_agents s"
        by (simp add: createJob_def Let_def recordSkippedRun_def)
      with x s eq show ?thesis by simp
    next
      case (Inr j)
      then have "\<exists>t. snd (createJob env a ev (ev_Depth ev) s) = SetPendingWork False n False t"
        using c n(1) by (simp add: createJob_def Let_def) blast
      with x pending_cleared eq show ?thesis by metis
    qed
  next
    case False
    have "\<exists>r. InsertRun False (re_now env) (running_run n m ev d j ns t) s =
        (Inr (rct_seq s + 1), s\<lparr>rct_seq := rct_seq s + 1, rct_runs := rct_runs s @ [r]\<rparr>)" for m d j ns t
      using n by (auto simp: InsertRun_def Let_def running_run_def)
    then obtain r where "InsertRun False (re_now env) (running_run n (message_ref (ev_MessageID ev)) ev (ev_Depth ev) '''' '''' (re_now env)) s =
        (Inr (rct_seq s + 1), s\<lparr>rct_seq := rct_seq s + 1, rct_runs := rct_runs s @ [r]\<rparr>)" by blast
    then show ?thesis
      using x c n False pending_cleared [of x n "s\<lparr>rct_seq := rct_seq s + 1, rct_runs := rct_runs s @ [r]\<rparr>"]
      by (simp add: evaluateTrigger_perform perform_def l dispatchHarness_def Let_def)
  qed
qed

text \<open>The state in which a harness that comes back leaves the table.\<close>

lemma harness_frees:
  assumes inv: "rct_inv s" and k: "k < length (rct_flying s)" and fl: "rct_flying s ! k = (i, a0, ev, t0)"
    and env: "\<And>st. \<not> re_fault env st"
  obtains s2 where "runHarness env env' res k s = checkPendingWork env env' (ag_Name a0) s2" "rct_agents s2 = rct_agents s"
    "runs_today now (ag_Name a0) s2 = runs_today now (ag_Name a0) s" "cooling now a (ag_Name a0) s2 \<longleftrightarrow> cooling now a (ag_Name a0) s"
    "\<not> busy (ag_Name a0) s2"
proof -
  obtain st e where v: "harness_verdict res = (st, e)" by (cases "harness_verdict res")
  obtain s2 where s2: "runHarness env env' res k s = checkPendingWork env env' (ag_Name a0) s2"
    "rct_runs s2 = rct_runs (CompleteRun (re_fault env RxComplete) (re_julian_ms env) i st e (re_now env) s)"
    "rct_agents s2 = rct_agents s" using fl v by (rule runHarness_eq)
  have "(i, a0, ev, t0) \<in> set (rct_flying s)" using k fl by (metis nth_mem)
  then obtain r where r: "r \<in> set (rct_runs s)" "rr_ID r = i" "rr_AgentName r = ag_Name a0" "rr_Status r = StatusRunning"
    using rct_invD(6) [OF inv] by blast
  have "rct_runs s2 = update_where (\<lambda>q. rr_ID q = rr_ID r) (finished_row (re_julian_ms env) st e (re_now env)) (rct_runs s)"
    using env by (simp add: s2(2) CompleteRun_runs r(2))
  from complete_counts [OF inv harness_final [OF v] r(1,4) this] that [OF s2(1,3)] r(3) show thesis by simp
qed

text \<open>
  C35. Pending work is served. When a harness comes back, the agent has pending work and the checks allow a run (it is reactive, not
  quarantined, has a backend, budget left today and its cooldown is over), a coalesced run of the agent is in
  progress afterwards and the flag is cleared.
\<close>

theorem reactor_pending_served:
  assumes inv: "rct_inv s" and k: "k < length (rct_flying s)" and fl: "rct_flying s ! k = (i, a0, ev, t0)"
    and env: "\<And>st. \<not> re_fault env st" and env': "\<And>st. \<not> re_fault env' st"
    and a: "find_row (\<lambda>x. ag_Name x = ag_Name a0 \<and> ag_Active x) (rct_agents s) = Some a"
    and ok: "ag_PendingWork a" "ag_TriggerMode a = ''reactive''" "ag_QuarantinedAt a = None" "backend_refusal env' a = None"
      "agentBackendKind a = BackendK8s \<longrightarrow> \<not> isl (re_job env')" "0 < ag_MaxTriggerDepth a"
      "runs_today (re_now env') (ag_Name a0) s < ag_DailyTriggerBudget a" "\<not> cooling (re_now env') a (ag_Name a0) s"
  shows "(\<exists>r \<in> set (rct_runs (runHarness env env' res k s)). rr_AgentName r = ag_Name a0 \<and> rr_Status r = StatusRunning \<and>
      rr_TriggerFrom r = ''__coalesced__'') \<and>
    (\<forall>x \<in> set (rct_agents (runHarness env env' res k s)). ag_Name x = ag_Name a0 \<and> ag_Active x \<longrightarrow> \<not> ag_PendingWork x)"
proof -
  let ?n = "ag_Name a0"
  obtain s2 where s2: "runHarness env env' res k s = checkPendingWork env env' ?n s2" "rct_agents s2 = rct_agents s"
    "runs_today (re_now env') ?n s2 = runs_today (re_now env') ?n s"
    "cooling (re_now env') a ?n s2 \<longleftrightarrow> cooling (re_now env') a ?n s" "\<not> busy ?n s2"
    using harness_frees [OF inv k fl env] by blast
  let ?s3 = "SetPendingWork False ?n False s2" and ?a = "a\<lparr>ag_PendingWork := False\<rparr>"
  have run: "runHarness env env' res k s = snd (evaluateTrigger env' ?n (coalesced_event ?n) ?s3)"
    using env a ok(1) by (simp add: s2(1) checkPendingWork_def GetAgentByName_def s2(2))
  have f: "find_row (\<lambda>x. ag_Name x = ?n \<and> ag_Active x) (rct_agents ?s3) = Some ?a" using a by (simp add: SetPendingWork_find s2(2))
  have e: "ev_FromAgent (coalesced_event ?n) \<noteq> ''system''" "ev_Depth (coalesced_event ?n) = 0"
    "ev_FromAgent (coalesced_event ?n) = ''__coalesced__''" by (simp_all add: coalesced_event_def)
  have "trigger_verdict env' ?n (coalesced_event ?n) ?s3 = Launch ?a"
    using env' f e ok(2-4,6-8) s2(3-5) by (simp add: trigger_verdict_def GetAgentByName_def)
  from launch_clears_pending [OF env' this, of ] have
    "\<forall>x \<in> set (rct_agents (runHarness env env' res k s)). ag_Name x = ?n \<and> ag_Active x \<longrightarrow> \<not> ag_PendingWork x"
    using pending_cleared by (auto simp: run)
  moreover have "adds_row env' ?n (coalesced_event ?n) StatusRunning ?s3 (runHarness env env' res k s)"
    using trigger_outcome [OF env' e(1) f] e ok s2(3-5) by (auto simp: run)
  ultimately show ?thesis by (auto simp: adds_row_def e(3))
qed

section \<open>Small steps\<close>

text \<open>The steps operations are made of; \<open>T\<close> are the agents events are for.\<close>

inductive micro :: "(string \<Rightarrow> bool) \<Rightarrow> reactor \<Rightarrow> reactor \<Rightarrow> bool" for T where
  evaluate: "T n \<Longrightarrow> micro T s (snd (evaluateTrigger env n ev s))"
| complete: "completes r s t \<Longrightarrow> micro T s t"
| restart: "micro T s (reactor_restart s)"
| agents: "micro T s (s\<lparr>rct_agents := as\<rparr>)"

inductive_cases microE: "micro T s t"

lemma micro_ok: "micro T s t \<Longrightarrow> rct_inv s \<Longrightarrow> rct_inv t"
  by (erule microE) (auto dest: evaluateTrigger_ok completes_ok rct_exec_ok [of _ OpRestart] rct_exec_ok [of _ "OpAgents as" for as])

interpretation mic: transition_system "micro T" rct_inv for T
  by unfold_locales (rule micro_ok)

lemma micro_fold_poll:
  "rct_inv s \<Longrightarrow> distinct (map rr_ID rs) \<Longrightarrow> (\<And>r. r \<in> set rs \<Longrightarrow> r \<in> set (rct_runs s) \<and> rr_Status r = StatusRunning) \<Longrightarrow>
   (micro T)\<^sup>*\<^sup>* s (fold (\<lambda>r s. if polled r then checkJob (f r) (g r) c r s else s) rs s)"
proof (induction rs arbitrary: s)
  case (Cons r rs)
  let ?t = "if polled r then checkJob (f r) (g r) c r s else s"
  have r: "r \<in> set (rct_runs s)" "rr_Status r = StatusRunning" using Cons.prems(3) [of r] by auto
  have "?t = s \<or> completes r s ?t" using checkJob_completes [OF Cons.prems(1) r] by simp
  then have step: "(micro T)\<^sup>*\<^sup>* s ?t"
  proof
    assume "completes r s ?t"
    then show ?thesis by (intro r_into_rtranclp complete)
  qed (simp only: rtranclp.rtrancl_refl)
  have t: "rct_inv ?t" "\<forall>x \<in> set (rct_runs s). rr_ID x \<noteq> rr_ID r \<longrightarrow> x \<in> set (rct_runs ?t)"
    using checkJob_ok [OF Cons.prems(1) r] Cons.prems(1) by simp_all
  have "x \<in> set (rct_runs ?t) \<and> rr_Status x = StatusRunning" if x: "x \<in> set rs" for x
  proof -
    have "rr_ID x \<noteq> rr_ID r" using Cons.prems(2) x by (metis distinct.simps(2) imageI list.simps(9) set_map)
    then show ?thesis using t(2) Cons.prems(3) [of x] x by simp
  qed
  then have "(micro T)\<^sup>*\<^sup>* ?t (fold (\<lambda>r s. if polled r then checkJob (f r) (g r) c r s else s) rs ?t)"
    using t(1) Cons.prems(2) by (intro Cons.IH) simp_all
  with step show ?case unfolding fold_simps(2) by (rule rtranclp_trans)
qed simp

text \<open>The agents an operation brings an event for.\<close>

fun about :: "string \<Rightarrow> rct_op \<Rightarrow> bool" where
  "about n (OpEvent envs ev) \<longleftrightarrow> n = ev_ToAgent ev \<or> n \<in> set (ev_MentionedAgents ev)"
| "about n _ \<longleftrightarrow> False"

lemma rct_exec_micro:
  assumes inv: "rct_inv s" and T: "\<And>n. about n op \<Longrightarrow> T n"
  shows "(micro T)\<^sup>*\<^sup>* s (rct_exec op s)"
proof (cases op)
  case (OpEvent envs ev)
  have "\<forall>m \<in> set ms. T m \<Longrightarrow> (micro T)\<^sup>*\<^sup>* s (fold (\<lambda>m s. if m = b then s else snd (evaluateTrigger (envs m) m ev s)) ms s)" for b ms s
  proof (induction ms arbitrary: s)
    case (Cons m ms)
    let ?t = "if m = b then s else snd (evaluateTrigger (envs m) m ev s)"
    have "(micro T)\<^sup>*\<^sup>* s ?t" using Cons.prems by (auto intro: evaluate)
    moreover have "(micro T)\<^sup>*\<^sup>* ?t (fold (\<lambda>m s. if m = b then s else snd (evaluateTrigger (envs m) m ev s)) ms ?t)"
      using Cons.prems by (intro Cons.IH) simp
    ultimately show ?case unfolding fold_simps(2) by (rule rtranclp_trans)
  qed simp
  moreover have "T (ev_ToAgent ev)" "\<forall>m \<in> set (ev_MentionedAgents ev). T m" using T by (auto simp: OpEvent)
  ultimately show ?thesis by (auto simp: OpEvent reactor_Dispatch_def intro: evaluate)
next
  case (OpHarness env env' res k)
  show ?thesis
  proof (cases "k < length (rct_flying s)")
    case True
    with runHarness_completes [OF inv] obtain r where "completes r s (runHarness env env' res k s)" by blast
    then show ?thesis using True by (auto simp: OpHarness intro: complete)
  qed (simp add: OpHarness)
next
  case (OpPoll f envs c)
  have "distinct (map rr_ID (filter (\<lambda>r. rr_Status r = StatusRunning) (rct_runs s)))"
    using rct_invD(1) [OF inv] by (simp add: ids_ok_def distinct_map_filter)
  then have "(micro T)\<^sup>*\<^sup>* s (pollActiveRuns False envs c s)"
    unfolding pollActiveRuns_def GetActiveRuns_def if_False sum.case
    by (rule micro_fold_poll [OF inv, where f = "\<lambda>r. fst (envs (rr_ID r))" and g = "\<lambda>r. snd (envs (rr_ID r))"]) simp
  moreover have "pollActiveRuns True envs c s = s" by (simp add: pollActiveRuns_def GetActiveRuns_def)
  ultimately show ?thesis by (cases f) (simp_all add: OpPoll)
qed (auto intro: restart agents)

text \<open>The rows of one agent.\<close>

definition own :: "string \<Rightarrow> reactor \<Rightarrow> ReactiveRun list" where
  "own n s = filter (\<lambda>r. rr_AgentName r = n) (rct_runs s)"

lemma evaluateTrigger_own: "m \<noteq> n \<Longrightarrow> own n (snd (evaluateTrigger env m ev s)) = own n s"
  by (cases rule: evaluateTrigger_cases [of s env m ev])
    (auto simp: runs_kept_def skip_recorded_def run_launched_def own_def)

lemma completed_own:
  assumes inv: "rct_inv s" and c: "completed r s t" and n: "rr_AgentName r \<noteq> n"
  shows "own n t = own n s"
proof -
  from c obtain f j st e now where r: "r \<in> set (rct_runs s)" and t: "rct_runs t = rct_runs (CompleteRun f j (rr_ID r) st e now s)"
    unfolding completed_def by blast
  have "filter (\<lambda>q. rr_AgentName q = n) (update_where (\<lambda>q. rr_ID q = rr_ID r) (finished_row j st e now) rs) =
      filter (\<lambda>q. rr_AgentName q = n) rs" if "set rs \<subseteq> set (rct_runs s)" for rs
    using that n ids_ok_unique [OF rct_invD(1) [OF inv] _ r] by (induction rs) auto
  then show ?thesis by (simp add: own_def t CompleteRun_runs)
qed

lemma checkPendingWork_own: "m \<noteq> n \<Longrightarrow> own n (checkPendingWork env env' m s) = own n s"
  using evaluateTrigger_own [of m n env' "coalesced_event m"] by (auto simp: checkPendingWork_def own_def split: option.split)

lemma completes_own: "rct_inv s \<Longrightarrow> completes r s t \<Longrightarrow> rr_AgentName r \<noteq> n \<Longrightarrow> own n t = own n s"
  by (metis completes_def completed_own checkPendingWork_own)

lemma idle_micro:
  assumes "micro (\<lambda>m. m \<noteq> n) s t" "rct_inv s" "\<not> busy n s"
  shows "own n t = own n s"
  using assms(1)
proof (rule microE)
  fix r
  assume c: "completes r s t"
  then have "rr_AgentName r \<noteq> n" using assms(3) by (auto simp: completes_def completed_def busy_def)
  with assms(2) c show ?thesis by (rule completes_own)
qed (simp_all add: evaluateTrigger_own, simp_all add: own_def reactor_restart_def)

lemma busy_own: "busy n s \<longleftrightarrow> (\<exists>r \<in> set (own n s). rr_Status r = StatusRunning)"
  by (auto simp: busy_def own_def)

text \<open>An agent without a run in progress gets no row as long as no event is for it.\<close>

lemma idle_run:
  "rct_inv s \<Longrightarrow> \<not> busy n s \<Longrightarrow> \<forall>op \<in> set ops. \<not> about n op \<Longrightarrow> own n (fold rct_exec ops s) = own n s"
proof (induction ops arbitrary: s)
  case (Cons op ops)
  have "(micro (\<lambda>m. m \<noteq> n))\<^sup>*\<^sup>* s (rct_exec op s)" using Cons.prems by (intro rct_exec_micro) auto
  then have "rct_inv (rct_exec op s) \<and> own n (rct_exec op s) = own n s"
  proof (induction rule: rtranclp_induct)
    case (step t u)
    then show ?case using idle_micro [of n t u] micro_ok [of "\<lambda>m. m \<noteq> n" t u] Cons.prems(2) by (simp add: busy_own)
  qed (use Cons.prems(1) in simp)
  with Cons.IH [of "rct_exec op s"] Cons.prems show ?case by (simp add: busy_own)
qed simp

lemma not_launched:
  assumes "\<And>a. trigger_verdict env name ev s \<noteq> Launch a"
  shows "runs_kept s (snd (evaluateTrigger env name ev s)) \<or> skip_recorded name s (snd (evaluateTrigger env name ev s))"
proof (cases "trigger_verdict env name ev s")
  case (Skip st e p)
  have st: "st \<noteq> StatusRunning" "st \<noteq> StatusSucceeded" using skip_status [OF Skip] by auto
  show ?thesis
    using recordSkippedRun_cases [OF st, of s env name ev e]
      recordSkippedRun_pending_cases [OF st, of s env name ev e "re_fault env RxSetPending" name True]
    by (cases p) (auto simp: evaluateTrigger_perform perform_def Skip)
qed (use assms in \<open>simp_all add: evaluateTrigger_perform perform_def runs_kept_def\<close>)

section \<open>Runs that do not come\<close>

text \<open>
  A cooldown drops pending work. If a harness comes back while the cooldown of its agent, which has pending work, still runs,
  no coalesced run starts; and although the flag is set again, nothing looks at it later: until the next event for
  the agent, whatever else happens, it gets no run.
\<close>

theorem reactor_cooldown_drops:
  assumes inv: "rct_inv s" and k: "k < length (rct_flying s)" and fl: "rct_flying s ! k = (i, a0, ev, t0)"
    and env: "\<And>st. \<not> re_fault env st" and env': "\<And>st. \<not> re_fault env' st"
    and a: "find_row (\<lambda>x. ag_Name x = ag_Name a0 \<and> ag_Active x) (rct_agents s) = Some a"
    and pend: "ag_PendingWork a" and cool: "cooling (re_now env') a (ag_Name a0) s"
    and later: "\<forall>op \<in> set ops. \<not> about (ag_Name a0) op"
  shows "\<not> busy (ag_Name a0) (fold rct_exec ops (runHarness env env' res k s))"
proof -
  let ?n = "ag_Name a0"
  obtain s2 where s2: "runHarness env env' res k s = checkPendingWork env env' ?n s2" "rct_agents s2 = rct_agents s"
    "cooling (re_now env') a ?n s2 \<longleftrightarrow> cooling (re_now env') a ?n s" "\<not> busy ?n s2"
    using harness_frees [OF inv k fl env] by blast
  let ?s3 = "SetPendingWork False ?n False s2" and ?a = "a\<lparr>ag_PendingWork := False\<rparr>" and ?t = "runHarness env env' res k s"
  have run: "?t = snd (evaluateTrigger env' ?n (coalesced_event ?n) ?s3)"
    using env a pend by (simp add: s2(1) checkPendingWork_def GetAgentByName_def s2(2))
  have f: "GetAgentByName (re_fault env' RxAgent) ?n ?s3 = Some ?a" using a env' by (simp add: GetAgentByName_def SetPendingWork_find s2(2))
  have "\<not> busy ?n ?t"
  proof (cases rule: evaluateTrigger_cases [of ?s3 env' ?n "coalesced_event ?n"])
    case (launched b)
    have "trigger_verdict env' ?n (coalesced_event ?n) ?s3 \<noteq> Launch d" for d
      using cool s2(3) f by (auto simp: trigger_verdict_def env' split: option.split)
    then show ?thesis using s2(4) not_launched [of env' ?n "coalesced_event ?n" ?s3]
      by (auto simp: busy_def runs_kept_def skip_recorded_def run)
  qed (use s2(4) in \<open>auto simp: busy_def runs_kept_def skip_recorded_def run\<close>)
  moreover have "rct_inv ?t" using runHarness_ok [OF inv k] by blast
  ultimately have "own ?n (fold rct_exec ops ?t) = own ?n ?t" using later by (intro idle_run)
  then show ?thesis using \<open>\<not> busy ?n ?t\<close> by (simp add: busy_own)
qed

text \<open>A running row that no goroutine and no poll will finish.\<close>

definition orphan :: "ReactiveRun \<Rightarrow> reactor \<Rightarrow> bool" where
  "orphan r s \<longleftrightarrow> rct_inv s \<and> r \<in> set (rct_runs s) \<and> rr_Status r = StatusRunning \<and> \<not> polled r \<and> rr_ID r \<notin> fst ` set (rct_flying s)"

lemma starts_own: "starts n s = map rr_CreatedAt (filter launched (own n s))"
  by (simp add: starts_def own_def conj_commute)

lemma starts_append_skip: "rr_StartedAt row = None \<Longrightarrow> rct_runs t = rct_runs s @ [row] \<Longrightarrow> starts n t = starts n s"
  by (simp add: starts_def launched_def)

lemma orphan_trigger:
  assumes o: "orphan r s"
  shows "orphan r (snd (evaluateTrigger env m ev s)) \<and> starts (rr_AgentName r) (snd (evaluateTrigger env m ev s)) = starts (rr_AgentName r) s"
proof -
  let ?t = "snd (evaluateTrigger env m ev s)"
  have inv: "rct_inv s" and r: "r \<in> set (rct_runs s)" "rr_Status r = StatusRunning" using o by (auto simp: orphan_def)
  have t: "rct_inv ?t" "r \<in> set (rct_runs ?t)" using evaluateTrigger_ok [OF inv] evaluateTrigger_keeps [OF r(1)] by auto
  show ?thesis
  proof (cases rule: evaluateTrigger_cases [of s env m ev])
    case kept
    then show ?thesis using o t by (auto simp: orphan_def runs_kept_def starts_def)
  next
    case skipped
    then show ?thesis using o t starts_append_skip by (fastforce simp: orphan_def skip_recorded_def)
  next
    case (launched a)
    then obtain row where row: "rct_runs ?t = rct_runs s @ [row]" "rr_AgentName row = m"
      "rct_flying ?t = rct_flying s \<or> (\<exists>ev. rct_flying ?t = rct_flying s @ [(rct_seq s + 1, a, ev, re_now env)])"
      by (auto simp: run_launched_def)
    have "m \<noteq> rr_AgentName r" using launched(2) r by (auto simp: may_launch_def busy_def)
    moreover have "rr_ID r \<noteq> rct_seq s + 1" using ids_ok_fresh [OF rct_invD(1) [OF inv] r(1)] .
    ultimately show ?thesis using o t row by (auto simp: orphan_def starts_def)
  qed
qed

lemma orphan_completes:
  assumes o: "orphan r s" and c: "completes q s t"
  shows "orphan r t \<and> starts (rr_AgentName r) t = starts (rr_AgentName r) s"
proof -
  obtain s1 env env' where s1: "completed q s s1" and t: "t = checkPendingWork env env' (rr_AgentName q) s1"
    using c by (auto simp: completes_def)
  have inv: "rct_inv s" and r: "r \<in> set (rct_runs s)" "rr_Status r = StatusRunning" using o by (auto simp: orphan_def)
  have q: "q \<in> set (rct_runs s)" "rr_Status q = StatusRunning" "q \<noteq> r" using s1 o by (auto simp: completed_def orphan_def)
  have id: "rr_ID r \<noteq> rr_ID q" using ids_ok_unique [OF rct_invD(1) [OF inv] q(1) r(1)] q(3) by auto
  have n: "rr_AgentName q \<noteq> rr_AgentName r" using rct_invD(2) [OF inv q(1) r(1) q(2) r(2)] q(3) by blast
  have "orphan r s1"
    using o completed_ok [OF inv s1] completed_keeps [OF s1 r(1) id] s1 by (auto simp: orphan_def completed_def)
  moreover have "starts (rr_AgentName r) t = starts (rr_AgentName r) s"
    using completes_own [OF inv c n] by (simp add: starts_own)
  moreover have "orphan r (SetPendingWork f m p s1)" if "orphan r s1" for f m p
    using that by (simp add: orphan_def rct_inv_def)
  ultimately show ?thesis using orphan_trigger by (auto simp: t checkPendingWork_def split: option.split)
qed

lemma orphan_run: "orphan r s \<Longrightarrow> orphan r (fold rct_exec ops s) \<and> starts (rr_AgentName r) (fold rct_exec ops s) = starts (rr_AgentName r) s"
proof (induction ops arbitrary: s)
  case (Cons op ops)
  have "(micro (\<lambda>_. True))\<^sup>*\<^sup>* s (rct_exec op s)" using Cons.prems by (intro rct_exec_micro) (simp_all add: orphan_def)
  then have "orphan r (rct_exec op s) \<and> starts (rr_AgentName r) (rct_exec op s) = starts (rr_AgentName r) s"
  proof (induction rule: rtranclp_induct)
    case (step t u)
    from step(2) have "orphan r u \<and> starts (rr_AgentName r) u = starts (rr_AgentName r) t"
    proof (rule microE)
      assume "u = reactor_restart t"
      then show ?thesis using step(3) rct_inv_flying [of t "[]"] by (auto simp: orphan_def reactor_restart_def starts_def)
    next
      fix as
      assume "u = t\<lparr>rct_agents := as\<rparr>"
      then show ?thesis using step(3) by (auto simp: orphan_def rct_inv_def starts_def)
    qed (use step(3) orphan_trigger orphan_completes in blast)+
    with step(3) show ?case by simp
  qed (use Cons.prems in simp)
  with Cons.IH [of "rct_exec op s"] show ?case by simp
qed simp

text \<open>
  A restart strands the runs of local harnesses. Once the process is restarted, a run in progress that has no Kubernetes job stays in
  progress in the table for ever, whatever happens afterwards, and its agent never starts a run again.
\<close>

theorem reactor_restart_strands:
  assumes inv: "rct_inv s" and r: "r \<in> set (rct_runs s)" "rr_Status r = StatusRunning" "rr_K8sJobName r = ''''"
  shows "r \<in> set (rct_runs (fold rct_exec ops (rct_exec OpRestart s))) \<and>
    starts (rr_AgentName r) (fold rct_exec ops (rct_exec OpRestart s)) = starts (rr_AgentName r) s"
proof -
  have "orphan r (rct_exec OpRestart s)"
    using r rct_exec_ok [OF inv, of OpRestart] by (simp add: orphan_def reactor_restart_def polled_def)
  then have "orphan r (fold rct_exec ops (rct_exec OpRestart s)) \<and>
      starts (rr_AgentName r) (fold rct_exec ops (rct_exec OpRestart s)) = starts (rr_AgentName r) (rct_exec OpRestart s)"
    by (rule orphan_run)
  then show ?thesis by (simp add: orphan_def reactor_restart_def starts_def)
qed

text \<open>A sample: a run is started at time 0, a second message arrives after 100 seconds.\<close>

definition sample_busy :: reactor where
  "sample_busy = fold rct_exec [OpEvent (\<lambda>_. calm_env 0) (sample_dm ''ann''), OpEvent (\<lambda>_. calm_env (100 * nanos)) (sample_dm ''ann'')]
     (rct_empty [sample_agent ''ann''])"

lemma sample_busy_facts:
  "rct_inv sample_busy" "0 < length (rct_flying sample_busy)"
  "rct_flying sample_busy ! 0 = (1, sample_agent ''ann'', sample_dm ''ann'', 0)"
  "find_row (\<lambda>x. ag_Name x = ''ann'' \<and> ag_Active x) (rct_agents sample_busy) = Some (sample_agent ''ann''\<lparr>ag_PendingWork := True\<rparr>)"
  "map rr_Status (rct_runs sample_busy) = [StatusRunning, StatusCooldownSkipped]"
  "ag_Name (sample_agent ''ann'') = ''ann''"
proof -
  show "rct_inv sample_busy" unfolding sample_busy_def using rct_empty_inv by (rule rxs.run_inv)
qed code_simp+

theorem reactor_pending_served_witness:
  "\<exists>r \<in> set (rct_runs (runHarness (calm_env (700 * nanos)) (calm_env (700 * nanos)) (ExecResult 0 '''') 0 sample_busy)).
     rr_AgentName r = ''ann'' \<and> rr_Status r = StatusRunning \<and> rr_TriggerFrom r = ''__coalesced__''"
proof -
  let ?a = "sample_agent ''ann''\<lparr>ag_PendingWork := True\<rparr>" and ?e = "calm_env (700 * nanos)"
  have e: "\<And>st. \<not> re_fault ?e st" by (simp add: calm_env_def)
  have n: "find_row (\<lambda>x. ag_Name x = ag_Name (sample_agent ''ann'') \<and> ag_Active x) (rct_agents sample_busy) = Some ?a"
    by (simp only: sample_busy_facts(4,6))
  have "ag_PendingWork ?a" "ag_TriggerMode ?a = ''reactive''" "ag_QuarantinedAt ?a = None" "backend_refusal ?e ?a = None"
    "agentBackendKind ?a = BackendK8s \<longrightarrow> \<not> isl (re_job ?e)" "0 < ag_MaxTriggerDepth ?a"
    "runs_today (re_now ?e) (ag_Name (sample_agent ''ann'')) sample_busy < ag_DailyTriggerBudget ?a"
    "\<not> cooling (re_now ?e) ?a (ag_Name (sample_agent ''ann'')) sample_busy" by code_simp+
  from reactor_pending_served [OF sample_busy_facts(1-3) e e n this] show ?thesis by (simp only: sample_busy_facts(6))
qed

theorem reactor_cooldown_drops_witness:
  "\<not> busy ''ann'' (runHarness (calm_env (200 * nanos)) (calm_env (200 * nanos)) (ExecResult 0 '''') 0 sample_busy)"
proof -
  let ?a = "sample_agent ''ann''\<lparr>ag_PendingWork := True\<rparr>" and ?e = "calm_env (200 * nanos)"
  have e: "\<And>st. \<not> re_fault ?e st" by (simp add: calm_env_def)
  have n: "find_row (\<lambda>x. ag_Name x = ag_Name (sample_agent ''ann'') \<and> ag_Active x) (rct_agents sample_busy) = Some ?a"
    by (simp only: sample_busy_facts(4,6))
  have "ag_PendingWork ?a" "cooling (re_now ?e) ?a (ag_Name (sample_agent ''ann'')) sample_busy" by code_simp+
  from reactor_cooldown_drops [OF sample_busy_facts(1-3) e e n this, of "[]"] show ?thesis by (simp add: sample_busy_facts(6))
qed

theorem reactor_restart_strands_witness:
  "\<exists>r \<in> set (rct_runs sample_busy). rr_Status r = StatusRunning \<and>
     r \<in> set (rct_runs (fold rct_exec [OpEvent (\<lambda>_. calm_env (9000 * nanos)) (sample_dm ''ann'')] (rct_exec OpRestart sample_busy)))"
proof -
  have "0 < length (rct_runs sample_busy)" "rr_Status (rct_runs sample_busy ! 0) = StatusRunning"
    "rr_K8sJobName (rct_runs sample_busy ! 0) = ''''" by code_simp+
  then have r: "rct_runs sample_busy ! 0 \<in> set (rct_runs sample_busy)" "rr_Status (rct_runs sample_busy ! 0) = StatusRunning"
    "rr_K8sJobName (rct_runs sample_busy ! 0) = ''''" by simp_all
  show ?thesis
    by (rule bexI [where x = "rct_runs sample_busy ! 0", OF _ r(1)])
      (rule conjI [OF r(2) conjunct1 [OF reactor_restart_strands [OF sample_busy_facts(1) r]]])
qed

section \<open>Backends and retries\<close>

text \<open>
  The reactor and the registry of harnesses agree: with the four harnesses of the server registered, the registry hands every
  agent that has a backend to the harness of the backend the reactor decided on.
\<close>

theorem reactor_backend_agrees:
  assumes "set names = {''k8sjob'', ''subprocess'', ''docker'', ''webhook''}" "agentBackendKind a \<noteq> BackendNone"
  shows "\<exists>h. Resolve names a = Inr h \<and> harness_backend h = Some (agentBackendKind a)"
  using assms by (auto simp: Resolve_def agentBackendKind_def harness_backend_def split: if_splits)

theorem reactor_backend_agrees_witness:
  "\<exists>h. Resolve [''k8sjob'', ''subprocess'', ''docker'', ''webhook''] (sample_agent ''ann'') = Inr h \<and>
     harness_backend h = Some BackendSubprocess"
proof -
  have k: "agentBackendKind (sample_agent ''ann'') = BackendSubprocess" by code_simp
  have "set [''k8sjob'', ''subprocess'', ''docker'', ''webhook''] = {''k8sjob'', ''subprocess'', ''docker'', ''webhook''}" by simp
  from reactor_backend_agrees [OF this, of "sample_agent ''ann''"] show ?thesis by (simp add: k)
qed

text \<open>
  Without the docker harness an agent whose configuration asks for a container runs as a plain
  subprocess if it also has a local command, and the reactor does not notice.
\<close>

lemma docker_downgrade:
  assumes "''docker'' \<notin> set names" "''subprocess'' \<in> set names" "ag_HarnessName a = ''''" "ag_K8sImage a = ''''"
    "ag_HarnessConfigJSON a \<noteq> ''''" "str_contains docker_key (ag_HarnessConfigJSON a)" "ag_LocalCommand a \<noteq> ''''"
    "re_registry env = Some names"
  shows "agentBackendKind a = BackendDocker \<and> Resolve names a = Inr ''subprocess'' \<and> backend_refusal env a = None"
proof -
  have "agentBackendKind a = BackendDocker" using assms by (simp add: agentBackendKind_def harness_backend_def)
  moreover have "Resolve names a = Inr ''subprocess''" using assms by (simp add: Resolve_def)
  ultimately show ?thesis using assms(8) by (simp add: backend_refusal_def)
qed

text \<open>A retry starts a run whatever the limits say, also next to one that is in progress.\<close>

lemma retry_unchecked:
  assumes calm: "\<And>st. \<not> re_fault env st" and run: "find_row (\<lambda>r. rr_ID r = i) (rct_runs s) = Some run" "rr_Status run = StatusFailed"
    and agent: "find_row (\<lambda>x. ag_Name x = rr_AgentName run \<and> ag_Active x) (rct_agents s) = Some a" and job: "re_job env = Inr j"
  shows "adds_row env (rr_AgentName run) (retry_event run) StatusRunning s (snd (RetryRun env i s))"
proof -
  have a: "ag_Name a = rr_AgentName run" "ag_Name a \<in> ag_Name ` set (rct_agents s)" using find_row_Some [OF agent] by blast+
  have "adds_row env (rr_AgentName run) (retry_event run) StatusRunning s (snd (createJob env a (retry_event run) (rr_TriggerDepth run) s))"
    using createJob_adds [OF calm a(2), of "retry_event run"] job by (simp add: a(1) retry_event_def)
  moreover have "snd (RetryRun env i s) = snd (createJob env a (retry_event run) (rr_TriggerDepth run) s)"
    using calm run agent by (simp add: RetryRun_def GetRunByID_def GetAgentByName_def split: prod.split sum.split list.split)
  ultimately show ?thesis by simp
qed

end
