(* ===== verification/Hub.thy ===== *)
theory Hub
  imports Message_Lifecycle Auction
begin

text \<open>
  The hub: channels, messages and task auctions over one database, as \<open>cmd/synapbus/main.go\<close>
  wires them. The message service reads the channel tables, broadcasting writes both, auctions
  read the channels, and SQLite refuses to delete a channel that a conversation, a message or a
  task refers to. The operations are those of the components, each run on the tables as they
  are; this theory shows what the three components keep together.
\<close>

section \<open>The composed system\<close>

record hub =
  hb_ch :: ch_db
  hb_msg :: msg_db
  hb_au :: au_db

definition msg_refs :: "msg_db \<Rightarrow> id64 set" where
  "msg_refs db = {i. Some i \<in> msg_ChannelID ` set (md_msgs db)} \<union> {i. Some i \<in> cv_ChannelID ` set (md_convs db)}"

definition au_refs :: "au_db \<Rightarrow> id64 set" where
  "au_refs db = at_ChannelID ` set (ad_tasks db)"

definition hub_refs :: "hub \<Rightarrow> id64 set" where
  "hub_refs s = msg_refs (hb_msg s) \<union> au_refs (hb_au s)"

definition channel_ids :: "ch_db \<Rightarrow> id64 set" where
  "channel_ids db = chn_ID ` set (cd_channels db)"

text \<open>The environment a handler of the message service has in this system.\<close>

definition here :: "ch_db \<Rightarrow> msg_env \<Rightarrow> msg_env" where
  "here cdb env = env_of (en_agents env) cdb (en_flt env)"

fun msg_here :: "ch_db \<Rightarrow> msg_op \<Rightarrow> msg_op" where
  "msg_here cdb (OpSend svc env now a b body opts) = OpSend svc (here cdb env) now a b body opts"
| "msg_here cdb (OpRead env now order a opts) = OpRead (here cdb env) now order a opts"
| "msg_here cdb (OpSetRead env now a c i) = OpSetRead (here cdb env) now a c i"
| "msg_here cdb (OpClaimMessages env now a l) = OpClaimMessages (here cdb env) now a l"
| "msg_here cdb (OpMarkDone env now i a) = OpMarkDone (here cdb env) now i a"
| "msg_here cdb (OpMarkFailed env now i a reason) = OpMarkFailed (here cdb env) now i a reason"
| "msg_here cdb (OpStalemate flt qf cfg now) = OpStalemate flt qf cfg now"

fun au_here :: "ch_db \<Rightarrow> au_op \<Rightarrow> au_op" where
  "au_here cdb (OPostTask now _ c a title desc req dl) = OPostTask now cdb c a title desc req dl"
| "au_here cdb (OBidOnTask now _ i a cap te m) = OBidOnTask now cdb i a cap te m"
| "au_here cdb op = op"

fun ch_here :: "id64 set \<Rightarrow> (ch_stmt \<Rightarrow> bool) \<times> ch_op \<Rightarrow> ch_db \<Rightarrow> ch_db" where
  "ch_here refs (flt, ODeleteChannel _ c) db = snd (DeleteChannel flt (\<lambda>i. i \<in> refs) c db)"
| "ch_here refs op db = ch_exec op db"

datatype hub_op =
    HChannel "(ch_stmt \<Rightarrow> bool) \<times> ch_op"
  | HMessage msg_op
  | HAuction "(au_stmt \<Rightarrow> bool) \<times> au_op"
  | HBroadcast "ch_stmt \<Rightarrow> bool" "string \<Rightarrow> msg_stmt \<Rightarrow> bool" msg_service "string list" timestamp id64 string string
      int raw_json "id64 option" "string list"

fun hub_exec :: "hub_op \<Rightarrow> hub \<Rightarrow> hub" where
  "hub_exec (HChannel op) s = s\<lparr>hb_ch := ch_here (hub_refs s) op (hb_ch s)\<rparr>"
| "hub_exec (HMessage op) s = s\<lparr>hb_msg := msg_exec (msg_here (hb_ch s) op) (hb_msg s)\<rparr>"
| "hub_exec (HAuction (flt, op)) s = s\<lparr>hb_au := au_exec (flt, au_here (hb_ch s) op) (hb_au s)\<rparr>"
| "hub_exec (HBroadcast flt mflt svc agents now c a body priority metadata replyTo attachments) s =
     (case BroadcastMessage flt mflt svc agents now c a body priority metadata replyTo attachments (hb_ch s) (hb_msg s) of
        (_, _, cdb, mdb) \<Rightarrow> s\<lparr>hb_ch := cdb, hb_msg := mdb\<rparr>)"

definition hub_empty :: "bool \<Rightarrow> hub" where
  "hub_empty tracer = \<lparr>hb_ch = ch_empty tracer, hb_msg = msg_empty, hb_au = au_empty tracer\<rparr>"

definition hub_inv :: "hub \<Rightarrow> bool" where
  "hub_inv s \<longleftrightarrow> ch_inv (hb_ch s) \<and> msg_inv (hb_msg s) \<and> au_inv (hb_au s) \<and> hub_refs s \<subseteq> channel_ids (hb_ch s)"

text \<open>A channel that was referred to is still referred to later.\<close>

definition hub_later :: "hub \<Rightarrow> hub \<Rightarrow> bool" where
  "hub_later s t \<longleftrightarrow> hub_refs s \<subseteq> hub_refs t"

section \<open>References\<close>

text \<open>What an operation does to the references: it keeps them, and new ones are to the given channels.\<close>

definition refs_step :: "id64 set \<Rightarrow> id64 set \<Rightarrow> id64 set \<Rightarrow> bool" where
  "refs_step chans old new \<longleftrightarrow> old \<subseteq> new \<and> new \<subseteq> old \<union> chans"

lemma refs_step_refl [simp]: "refs_step cs r r"
  by (simp add: refs_step_def)

lemma refs_step_trans: "refs_step cs a b \<Longrightarrow> refs_step cs b c \<Longrightarrow> refs_step cs a c"
  by (auto simp: refs_step_def)

subsection \<open>Messages\<close>

lemma here_channels [simp]: "set (map fst (en_channels (here cdb env))) = channel_ids cdb"
  by (force simp: here_def env_of_def channel_ids_def)

lemma env_of_channels [simp]: "fst ` set (en_channels (env_of as cdb f)) = channel_ids cdb"
  by (force simp: env_of_def channel_ids_def)

lemma msg_refs_update:
  "(\<And>m. msg_ChannelID (f m) = msg_ChannelID m) \<Longrightarrow> msg_refs (db\<lparr>md_msgs := update_where P f (md_msgs db)\<rparr>) = msg_refs db"
proof -
  assume "\<And>m. msg_ChannelID (f m) = msg_ChannelID m"
  then have "map msg_ChannelID (update_where P f (md_msgs db)) = map msg_ChannelID (md_msgs db)" by (simp add: map_update_where)
  then have "msg_ChannelID ` set (update_where P f (md_msgs db)) = msg_ChannelID ` set (md_msgs db)" by (metis set_map)
  then show ?thesis by (simp add: msg_refs_def)
qed

lemma msg_refs_same: "md_msgs db' = md_msgs db \<Longrightarrow> md_convs db' = md_convs db \<Longrightarrow> msg_refs db' = msg_refs db"
  by (simp add: msg_refs_def)

lemma msg_refs_append:
  "msg_refs (db\<lparr>md_convs := md_convs db @ [c], md_conv_seq := i\<rparr>) = msg_refs db \<union> set_option (cv_ChannelID c)"
  "msg_refs (db\<lparr>md_msgs := md_msgs db @ [m], md_msg_seq := i\<rparr>) = msg_refs db \<union> set_option (msg_ChannelID m)"
  by (cases "cv_ChannelID c"; auto simp: msg_refs_def) (cases "msg_ChannelID m"; auto simp: msg_refs_def)

lemma refs_step_insert: "a \<in> cs \<Longrightarrow> refs_step cs r (insert a r)"
  by (auto simp: refs_step_def)

lemma InsertConversation_refs:
  "InsertConversation env now c db = (r, db') \<Longrightarrow> refs_step (fst ` set (en_channels env)) (msg_refs db) (msg_refs db')"
  by (cases "cv_ChannelID c")
    (auto simp: InsertConversation_def Let_def msg_refs_append simp del: set_map simp flip: set_map split: if_splits intro!: refs_step_insert)

lemma resolve_conversation_refs:
  "resolve_conversation env now a b opts db = (r, db') \<Longrightarrow> refs_step (fst ` set (en_channels env)) (msg_refs db) (msg_refs db')"
  by (auto simp: resolve_conversation_def Let_def split: option.splits if_splits prod.splits sum.splits dest: InsertConversation_refs)

lemma InsertMessage_refs:
  "InsertMessage env now m db = (r, db') \<Longrightarrow> refs_step (fst ` set (en_channels env)) (msg_refs db) (msg_refs db')"
  by (cases "msg_ChannelID m")
    (auto simp: InsertMessage_def message_fks_ok_def Let_def msg_refs_append simp del: set_map simp flip: set_map split: if_splits intro!: refs_step_insert)

lemma SendMessage_refs:
  "SendMessage svc env now a b body opts db = (r, eff, db') \<Longrightarrow> refs_step (fst ` set (en_channels env)) (msg_refs db) (msg_refs db')"
  by (auto simp: SendMessage_def split: option.splits sum.splits prod.splits
      dest!: resolve_conversation_refs InsertMessage_refs intro: refs_step_trans)

lemma UpdateInboxState_refs: "msg_refs (snd (UpdateInboxState env now a c i db)) = msg_refs db"
  by (simp add: UpdateInboxState_def Let_def msg_refs_def)

lemma mark_read_refs: "msg_refs (mark_read env now a order msgs db) = msg_refs db"
proof -
  have "msg_refs (fold (\<lambda>conv db. case conversationMaxID msgs conv of None \<Rightarrow> db
      | Some i \<Rightarrow> snd (UpdateInboxState env now a conv i db)) cs db) = msg_refs db" for cs db
    by (induction cs arbitrary: db) (auto simp: UpdateInboxState_refs split: option.splits)
  then show ?thesis by (simp add: mark_read_def)
qed

lemma UpdateMessageStatus_refs: "msg_refs (snd (UpdateMessageStatus env now i st a j db)) = msg_refs db"
  by (simp add: UpdateMessageStatus_def Let_def msg_refs_update)

lemma stale_updates_refs: "msg_refs (snd (stale_updates flt now cutoff is cnt db)) = msg_refs db"
proof (induction "is" arbitrary: cnt db)
  case (Cons i "is")
  have "msg_refs (snd (stale_update now cutoff i db)) = msg_refs db"
    by (simp add: stale_update_def Let_def fail_row_def msg_refs_update)
  then show ?case by (cases "stale_update now cutoff i db") (simp add: Cons.IH)
qed simp

lemma msg_exec_refs: "refs_step (channel_ids cdb) (msg_refs db) (msg_refs (msg_exec (msg_here cdb op) db))"
proof (cases op)
  case (OpSend svc env now a b body opts)
  then show ?thesis
    using SendMessage_refs [of svc "here cdb env" now a b body opts db] here_channels [of cdb env]
    by (cases "SendMessage svc (here cdb env) now a b body opts db") simp
next
  case (OpRead env now order a opts)
  then show ?thesis by (simp add: ReadInbox_def Let_def mark_read_refs)
next
  case (OpSetRead env now a c i)
  then show ?thesis by (simp add: UpdateInboxState_refs)
next
  case (OpClaimMessages env now a l)
  then show ?thesis
    by (simp add: ClaimMessages_def store_ClaimMessages_def Let_def claim_update_def msg_refs_update split: prod.split)
next
  case (OpMarkDone env now i a)
  then show ?thesis by (simp add: MarkDone_def UpdateMessageStatus_refs split: sum.split)
next
  case (OpMarkFailed env now i a r)
  then show ?thesis by (simp add: MarkFailed_def UpdateMessageStatus_refs split: sum.split option.split)
next
  case (OpStalemate flt qf cfg now)
  then show ?thesis by (simp add: failTimedOutProcessing_def Let_def stale_updates_refs)
qed

lemma msg_exec_here_inv: "msg_inv db \<Longrightarrow> msg_inv (msg_exec op db)"
  by (rule ml.exec_inv)

subsection \<open>Auctions\<close>

lemma au_refs_update:
  "(\<And>t. at_ChannelID (f t) = at_ChannelID t) \<Longrightarrow> at_ChannelID ` set (update_where P f ts) = at_ChannelID ` set ts"
  by (metis map_update_where set_map)

lemma au_refs_updated:
  "(\<And>t. at_ChannelID (f t) = at_ChannelID t) \<Longrightarrow> au_refs (db\<lparr>ad_tasks := update_where P f (ad_tasks db)\<rparr>) = au_refs db"
  by (simp add: au_refs_def au_refs_update)

lemma set_status_channel [simp]: "at_ChannelID (set_status now st a t) = at_ChannelID t"
  by (simp add: set_status_def)

lemma cancel_row_channel [simp]: "at_ChannelID (cancel_row now t) = at_ChannelID t"
  by (simp add: cancel_row_def)

lemma au_trace_refs [simp]: "au_refs (au_trace a t db) = au_refs db"
  by (simp add: au_trace_def au_refs_def)

lemma UpdateTaskStatus_refs: "UpdateTaskStatus f now i st a db = (r, db') \<Longrightarrow> au_refs db' = au_refs db"
  by (auto simp: UpdateTaskStatus_def Let_def au_refs_updated split: if_splits)

lemma UpdateBidStatus_refs: "UpdateBidStatus f i st db = (r, db') \<Longrightarrow> au_refs db' = au_refs db"
  by (auto simp: UpdateBidStatus_def Let_def au_refs_def split: if_splits)

lemma reject_bids_refs: "au_refs (reject_bids f w bs db) = au_refs db"
proof (induction bs arbitrary: db)
  case (Cons b bs)
  have "au_refs (snd (UpdateBidStatus (f (bd_ID b)) (bd_ID b) BRejected db)) = au_refs db"
    by (simp add: UpdateBidStatus_def Let_def au_refs_def)
  then show ?case by (simp add: Cons.IH)
qed simp

lemma expire_loop_refs: "expire_loop d f key now s k acc ts = (n, e, ts') \<Longrightarrow> at_ChannelID ` set ts' = at_ChannelID ` set ts"
proof (induction d f key now s k acc ts arbitrary: n e ts' rule: expire_loop.induct)
  case (1 d f key now s k acc ts)
  have "at_ChannelID ` set (snd (expire_batch key now s ts)) = at_ChannelID ` set ts"
    by (simp add: expire_batch_def au_refs_update)
  with 1 show ?case
    by (auto simp: expire_loop.simps [of d f key now s k acc ts] Let_def split: if_splits prod.splits)
qed

lemma store_ExpireTasks_refs: "store_ExpireTasks flt key now db = (n, e, db') \<Longrightarrow> au_refs db' = au_refs db"
  by (auto simp: store_ExpireTasks_def Let_def au_refs_def split: if_splits prod.splits dest!: expire_loop_refs)

lemma au_exec_refs: "refs_step (channel_ids cdb) (au_refs db) (au_refs (au_exec (flt, au_here cdb op) db))"
proof (cases op)
  case (OPostTask now x c a title desc req dl)
  have "c \<in> channel_ids cdb" if "GetChannel f c cdb = Inr ch" for f ch
    using GetChannel_Inr [OF that] by (auto simp: channel_ids_def)
  then show ?thesis
    by (auto simp: OPostTask PostTask_def store_CreateTask_def Let_def au_refs_def refs_step_def split: sum.splits bool.splits prod.splits)
next
  case (OBidOnTask now x i a cap te m)
  then show ?thesis
    by (auto simp: BidOnTask_def CreateBid_def Let_def au_refs_def split: sum.splits bool.splits prod.splits)
next
  case (OAcceptBid now i bid a)
  then show ?thesis
    by (auto simp: AcceptBid_def reject_bids_refs split: sum.splits prod.splits dest!: UpdateTaskStatus_refs UpdateBidStatus_refs)
next
  case (OCompleteTask now i a)
  then show ?thesis
    by (auto simp: CompleteTask_def split: sum.splits prod.splits dest: UpdateTaskStatus_refs)
next
  case (OExpireTasks key now)
  then show ?thesis
    by (auto simp: ExpireTasks_def split: prod.splits option.splits dest: store_ExpireTasks_refs)
next
  case (OCancelChannel now c)
  then show ?thesis by (simp add: CancelTasksByChannel_def Let_def au_refs_def au_refs_update)
qed

subsection \<open>Channels\<close>

lemma channel_ids_trace [simp]: "channel_ids (record_trace a t db) = channel_ids db"
  by (simp add: record_trace_def channel_ids_def)

lemma channel_ids_same: "cd_channels db' = cd_channels db \<Longrightarrow> channel_ids db' = channel_ids db"
  by (simp add: channel_ids_def)

lemma channel_ids_update:
  "(\<And>c. chn_ID (f c) = chn_ID c) \<Longrightarrow> channel_ids (db\<lparr>cd_channels := update_where P f (cd_channels db)\<rparr>) = channel_ids db"
  by (simp add: channel_ids_def) (metis map_update_where set_map)

lemma store_CreateChannel_ids: "store_CreateChannel f now ch db = (r, db') \<Longrightarrow> channel_ids db \<subseteq> channel_ids db'"
  by (auto simp: store_CreateChannel_def Let_def channel_ids_def split: if_splits)

lemma AddMember_ids: "AddMember f now c a role db = (r, db') \<Longrightarrow> channel_ids db' = channel_ids db"
  by (auto simp: AddMember_def Let_def channel_ids_def split: if_splits)

lemma RemoveMember_ids: "RemoveMember f c a db = (r, db') \<Longrightarrow> channel_ids db' = channel_ids db"
  by (auto simp: RemoveMember_def Let_def channel_ids_def split: if_splits)

lemma AcceptInvite_ids: "AcceptInvite f c a db = (r, db') \<Longrightarrow> channel_ids db' = channel_ids db"
  by (auto simp: AcceptInvite_def Let_def channel_ids_def split: if_splits)

lemma CreateInvite_ids: "CreateInvite f now c a b db = (r, db') \<Longrightarrow> channel_ids db' = channel_ids db"
  by (auto simp: CreateInvite_def Let_def channel_ids_def split: if_splits)

lemma store_UpdateChannel_ids: "store_UpdateChannel f now ch db = (r, db') \<Longrightarrow> channel_ids db' = channel_ids db"
  by (auto simp: store_UpdateChannel_def Let_def channel_ids_update split: if_splits)

lemma store_UpdateChannelSettings_ids:
  "store_UpdateChannelSettings f now c st db = (r, db') \<Longrightarrow> channel_ids db' = channel_ids db"
  by (auto simp: store_UpdateChannelSettings_def Let_def channel_ids_update split: if_splits)

lemmas ids_kept = AddMember_ids RemoveMember_ids AcceptInvite_ids CreateInvite_ids store_UpdateChannel_ids
  store_UpdateChannelSettings_ids

lemma CreateChannel_ids: "CreateChannel flt now req db = (r, db') \<Longrightarrow> channel_ids db \<subseteq> channel_ids db'"
  by (auto simp: CreateChannel_def split: option.splits sum.splits prod.splits
      dest!: store_CreateChannel_ids ids_kept)

lemma join_as_member_ids: "join_as_member flt now c a db = (r, db') \<Longrightarrow> channel_ids db' = channel_ids db"
  by (auto simp: join_as_member_def split: sum.splits prod.splits dest: ids_kept)

lemma JoinChannel_ids: "JoinChannel flt now c a db = (r, db') \<Longrightarrow> channel_ids db' = channel_ids db"
  by (auto simp: JoinChannel_def split: sum.splits bool.splits prod.splits if_splits dest: ids_kept join_as_member_ids)

lemma InviteToChannel_ids: "InviteToChannel flt now c a b db = (r, db') \<Longrightarrow> channel_ids db' = channel_ids db"
  by (auto simp: InviteToChannel_def split: sum.splits bool.splits prod.splits if_splits dest: ids_kept)

lemma KickFromChannel_ids: "KickFromChannel flt c a k db = (r, db') \<Longrightarrow> channel_ids db' = channel_ids db"
  by (auto simp: KickFromChannel_def split: sum.splits bool.splits prod.splits if_splits dest: ids_kept)

lemma LeaveChannel_ids: "LeaveChannel flt c a db = (r, db') \<Longrightarrow> channel_ids db' = channel_ids db"
  by (auto simp: LeaveChannel_def split: sum.splits bool.splits prod.splits if_splits dest: ids_kept)

lemma UpdateChannel_ids: "UpdateChannel flt now c req a db = (r, db') \<Longrightarrow> channel_ids db' = channel_ids db"
  by (auto simp: UpdateChannel_def Let_def split: sum.splits prod.splits dest: ids_kept)

lemma UpdateChannelSettings_ids: "UpdateChannelSettings flt now c st db = (r, db') \<Longrightarrow> channel_ids db' = channel_ids db"
  by (auto simp: UpdateChannelSettings_def split: sum.splits prod.splits dest: ids_kept)

lemma EnsureMyAgentsChannel_ids: "EnsureMyAgentsChannel flt now u h db = (r, db') \<Longrightarrow> channel_ids db \<subseteq> channel_ids db'"
  by (auto simp: EnsureMyAgentsChannel_def split: sum.splits bool.splits prod.splits if_splits dest: CreateChannel_ids dest!: ids_kept)

lemma JoinMyAgentsChannel_ids: "JoinMyAgentsChannel flt now u a db = (r, db') \<Longrightarrow> channel_ids db' = channel_ids db"
  by (auto simp: JoinMyAgentsChannel_def split: sum.splits bool.splits if_splits dest: ids_kept)

lemma DeleteChannel_ids:
  "DeleteChannel flt (\<lambda>i. i \<in> refs) c db = (r, db') \<Longrightarrow> refs \<subseteq> channel_ids db \<Longrightarrow> refs \<subseteq> channel_ids db'"
  by (fastforce simp: DeleteChannel_def store_DeleteChannel_def Let_def channel_ids_def in_delete_where rows_affected_pos
      split: sum.splits if_splits)

lemma ListChannels_same: "snd (ListChannels flt a db) = db \<or> (\<exists>x y. snd (ListChannels flt a db) = record_trace x y db)"
  by (auto simp: ListChannels_def split: sum.split)

lemma ListChannelsPaginated_same:
  "snd (ListChannelsPaginated flt a l off db) = db \<or> (\<exists>x y. snd (ListChannelsPaginated flt a l off db) = record_trace x y db)"
  by (auto simp: ListChannelsPaginated_def split: sum.split option.split)

lemma ch_here_ids: "refs \<subseteq> channel_ids db \<Longrightarrow> refs \<subseteq> channel_ids (ch_here refs op db)"
proof (cases "(refs, op, db)" rule: ch_here.cases)
  case (1 rs flt xs c db')
  assume "refs \<subseteq> channel_ids db"
  with 1 show ?thesis by (cases "DeleteChannel flt (\<lambda>i. i \<in> refs) c db") (simp add: DeleteChannel_ids)
qed (metis channel_ids_trace eq_refl order_trans prod.collapse ch_here.simps ch_exec.simps CreateChannel_ids JoinChannel_ids
  LeaveChannel_ids InviteToChannel_ids KickFromChannel_ids UpdateChannel_ids UpdateChannelSettings_ids
  EnsureMyAgentsChannel_ids JoinMyAgentsChannel_ids ListChannels_same ListChannelsPaginated_same prod.inject)+

lemma ch_here_inv: "ch_inv db \<Longrightarrow> ch_inv (ch_here refs op db)"
  by (cases "(refs, op, db)" rule: ch_here.cases) (simp_all add: DeleteChannel_inv ch_exec_inv del: ch_exec.simps)

subsection \<open>Broadcasting\<close>

lemma notify_each_refs:
  "notify_each (send_mention svc agents mflt now cdb ch a body p i) as mdb = (eff, mdb') \<Longrightarrow>
     refs_step (channel_ids cdb) (msg_refs mdb) (msg_refs mdb')"
proof (induction "as" arbitrary: mdb eff)
  case (Cons x xs)
  then show ?case
    by (auto simp: send_mention_def split: prod.splits dest!: SendMessage_refs intro: refs_step_trans)
qed simp

lemma ensure_sender_ids: "ensure_sender flt now ch a db = (r, db') \<Longrightarrow> channel_ids db' = channel_ids db"
  by (auto simp: ensure_sender_def split: sum.splits bool.splits if_splits dest!: JoinChannel_ids)

lemma BroadcastMessage_refs:
  assumes "BroadcastMessage flt mflt svc agents now c a body priority metadata replyTo attachments cdb mdb = (r, eff, cdb', mdb')"
  shows "channel_ids cdb' = channel_ids cdb \<and> refs_step (channel_ids cdb) (msg_refs mdb) (msg_refs mdb')"
proof (cases "GetChannel (flt QGetChannel) c cdb")
  case (Inl e)
  with assms show ?thesis by (simp add: BroadcastMessage_def)
next
  case ch: (Inr ch)
  obtain q cdb1 where es: "ensure_sender flt now ch a cdb = (q, cdb1)" by fastforce
  note ids = ensure_sender_ids [OF es]
  have send: "SendMessage svc (env_of agents cdb1 f) now a b body opts mdb = (x, e, m) \<Longrightarrow> refs_step (channel_ids cdb) (msg_refs mdb) (msg_refs m)"
    for f b opts x e m using SendMessage_refs [of svc "env_of agents cdb1 f" now a b body opts mdb] by (simp add: ids)
  have note_all: "notify_each (send_mention svc agents mflt now cdb1 ch a body priority i) as m = (e, m') \<Longrightarrow>
      refs_step (channel_ids cdb) (msg_refs m) (msg_refs m')" for i "as" m e m'
    using notify_each_refs [of svc agents mflt now cdb1] by (simp add: ids)
  show ?thesis
  proof (cases q)
    case (Inl e)
    with assms ch es ids show ?thesis by (simp add: BroadcastMessage_def)
  next
    case u: (Inr u)
    show ?thesis
    proof (cases "GetMembers (flt QGetMembers) c cdb1")
      case (Inl e)
      with assms ch es u ids show ?thesis by (simp add: BroadcastMessage_def)
    next
      case ms: (Inr ms)
      obtain x e m where s: "SendMessage svc (env_of agents cdb1 (mflt '''')) now a '''' body
          (channel_post_opts ch priority metadata replyTo attachments (mentioned_members a body ms)) mdb = (x, e, m)"
        by (rule prod_cases3)
      show ?thesis
      proof (cases x)
        case (Inl er)
        with assms ch es u ms s ids send [OF s] show ?thesis by (simp add: BroadcastMessage_def Let_def)
      next
        case (Inr msg)
        obtain e' m' where n: "notify_each (send_mention svc agents mflt now cdb1 ch a body priority (msg_ID msg))
          (filter (\<lambda>x. x \<noteq> a \<and> x \<in> set (mentioned_members a body ms)) (map mb_AgentName ms)) m = (e', m')" by fastforce
        with assms ch es u ms s Inr have "cdb' = record_trace a ''channel.broadcast'' cdb1" "mdb' = m'"
          by (simp_all add: BroadcastMessage_def Let_def)
        then show ?thesis using ids refs_step_trans [OF send [OF s] note_all [OF n]] by simp
      qed
    qed
  qed
qed

section \<open>The hub as a system\<close>

lemma hub_exec_ok:
  assumes inv: "hub_inv s"
  shows "hub_inv (hub_exec op s) \<and> hub_later s (hub_exec op s)"
proof (cases "(op, s)" rule: hub_exec.cases)
  case (1 o' s')
  then show ?thesis
    using inv ch_here_ids [of "hub_refs s" "hb_ch s" o'] by (auto simp: hub_inv_def hub_later_def hub_refs_def ch_here_inv)
next
  case (2 o' s')
  then show ?thesis
    using inv msg_exec_refs [of "hb_ch s" "hb_msg s" o']
    by (auto simp: hub_inv_def hub_later_def hub_refs_def refs_step_def msg_exec_here_inv simp del: msg_exec.simps)
next
  case (3 flt o' s')
  then show ?thesis
    using inv au_exec_refs [of "hb_ch s" "hb_au s" flt o']
    by (auto simp: hub_inv_def hub_later_def hub_refs_def refs_step_def au_exec_inv simp del: au_exec.simps)
next
  case (4 flt mflt svc agents now c a body priority metadata replyTo attachments s')
  obtain r eff cdb mdb where b: "BroadcastMessage flt mflt svc agents now c a body priority metadata replyTo attachments (hb_ch s) (hb_msg s)
      = (r, eff, cdb, mdb)" by (metis prod_cases4)
  have "ch_inv cdb" "msg_inv mdb" using BroadcastMessage_inv [OF _ _ b] inv by (auto simp: hub_inv_def)
  then show ?thesis
    using inv 4 b BroadcastMessage_refs [OF b] by (auto simp: hub_inv_def hub_later_def hub_refs_def refs_step_def)
qed

lemma hub_empty_inv: "hub_inv (hub_empty tracer)"
  by (simp add: hub_inv_def hub_empty_def ch_empty_inv msg_empty_inv au_empty_inv)
    (simp add: hub_refs_def msg_refs_def au_refs_def msg_empty_def au_empty_def)

interpretation hub: history_system hub_exec hub_inv hub_later
  using hub_exec_ok by unfold_locales (auto simp: hub_later_def)

end
