(* ===== verification/Accounts.thy ===== *)
theory Accounts
  imports Prelude
begin

text \<open>
  Human accounts and browser sessions: \<open>internal/auth/types.go\<close>, \<open>config.go\<close>,
  \<open>user_store.go\<close>, \<open>session_store.go\<close>, the login handlers and the login rate
  limiter of \<open>handlers.go\<close>, and the session middleware of \<open>middleware.go\<close> and
  \<open>internal/api/session_middleware.go\<close>.

  The tables \<open>users\<close> and \<open>sessions\<close> and the limiter's map are the record \<open>ac_db\<close>.
  Times are counts of nanoseconds; the rows keep whole instants, which the driver compares in
  one zone. bcrypt is a parameter: \<open>gen\<close> is what \<open>GenerateFromPassword\<close> returns for a cost and a password in
  this call (it is salted, and may fail), \<open>cmp\<close> is \<open>CompareHashAndPassword\<close>. The random
  session id is a parameter as well. \<open>GetSession\<close> starts goroutines; they are kept in
  \<open>ac_bg\<close> until they run. \<open>flt\<close> says which statements fail.
\<close>

section \<open>Data\<close>

record User =
  us_ID :: id64
  us_Username :: string
  us_PasswordHash :: string
  us_DisplayName :: string
  us_Role :: string
  us_Email :: "string option"
  us_CreatedAt :: timestamp
  us_UpdatedAt :: timestamp

record WebSession =
  ws_SessionID :: string
  ws_UserID :: id64
  ws_CreatedAt :: timestamp
  ws_ExpiresAt :: timestamp
  ws_LastActiveAt :: timestamp

record loginAttempt =
  la_failures :: nat
  la_blockedAt :: timestamp

record AuthConfig =
  cf_BcryptCost :: int
  cf_AccessTokenTTL :: int
  cf_RefreshTokenLifetime :: int
  cf_SessionLifetime :: int
  cf_IssuerURL :: string
  cf_DevMode :: bool
  cf_Secret :: string

datatype ac_error =
    ErrUserNotFound
  | ErrDuplicateUsername
  | ErrInvalidUsername
  | ErrPasswordTooShort
  | ErrPasswordTooLong
  | ErrInvalidPassword
  | ErrSessionNotFound
  | ErrSessionExpired
  | ErrBcryptCostTooLow
  | ErrBcryptCostTooHigh
  | ErrSecretTooShort
  | EmptyDisplayName
  | AcStatementFailed

datatype ac_stmt =
    UGetByID | UGetByName | UGetByEmail | UCount | UInsert | UPassword | UDisplayName | UEmail | UList
  | SRand | SInsert | SGet | SDelete | SDeleteUser | SDeleteExcept | SCleanup | SBump

text \<open>The two goroutines of \<open>GetSession\<close>: removing an expired session, noting activity.\<close>

datatype ac_bg = BgDelete string | BgBump string

record ac_db =
  ac_users :: "User list"
  ac_user_seq :: id64
  ac_sessions :: "WebSession list"
  ac_attempts :: "string \<Rightarrow> loginAttempt option"
  ac_bg :: "ac_bg list"

definition nanosec :: int where
  "nanosec = 1000000000"

definition sql_now :: "timestamp \<Rightarrow> timestamp" where
  "sql_now now = now div nanosec * nanosec"

definition DefaultConfig :: AuthConfig where
  "DefaultConfig = \<lparr>cf_BcryptCost = 12, cf_AccessTokenTTL = 3600 * nanosec, cf_RefreshTokenLifetime = 30 * 24 * 3600 * nanosec,
     cf_SessionLifetime = 24 * 3600 * nanosec, cf_IssuerURL = '''', cf_DevMode = True, cf_Secret = ''''\<rparr>"

definition validate_config :: "AuthConfig \<Rightarrow> ac_error option" where
  "validate_config c =
     (if cf_BcryptCost c < 10 then Some ErrBcryptCostTooLow
      else if 31 < cf_BcryptCost c then Some ErrBcryptCostTooHigh
      else if length (cf_Secret c) < 32 then Some ErrSecretTooShort
      else None)"

section \<open>Users\<close>

definition username_ok :: "string \<Rightarrow> bool" where
  "username_ok u \<longleftrightarrow> 3 \<le> length u \<and> length u \<le> 64 \<and> list_all (\<lambda>c. is_alnum c \<or> c = CHR ''_'') u"

text \<open>The cost a store runs with.\<close>

definition store_cost :: "int \<Rightarrow> int" where
  "store_cost bcryptCost = (if bcryptCost < 10 then 12 else bcryptCost)"

definition CountUsers :: "bool \<Rightarrow> ac_db \<Rightarrow> ac_error + nat" where
  "CountUsers failed db = (if failed then Inl AcStatementFailed else Inr (length (ac_users db)))"

definition password_error :: "string \<Rightarrow> ac_error option" where
  "password_error p = (if length p < 8 then Some ErrPasswordTooShort else if 72 < length p then Some ErrPasswordTooLong else None)"

definition CreateUser ::
  "(ac_stmt \<Rightarrow> bool) \<Rightarrow> (int \<Rightarrow> string \<Rightarrow> string option) \<Rightarrow> int \<Rightarrow> timestamp \<Rightarrow> string \<Rightarrow> string \<Rightarrow> string \<Rightarrow> ac_db \<Rightarrow>
   (ac_error + User) \<times> ac_db" where
  "CreateUser flt gen cost now username password displayName db =
     (if \<not> username_ok username then (Inl ErrInvalidUsername, db)
      else case password_error password of Some e \<Rightarrow> (Inl e, db) | None \<Rightarrow>
        (case gen (store_cost cost) password of
           None \<Rightarrow> (Inl AcStatementFailed, db)
         | Some hash \<Rightarrow>
             (case CountUsers (flt UCount) db of
                Inl e \<Rightarrow> (Inl e, db)
              | Inr n \<Rightarrow>
                  (let i = ac_user_seq db + 1;
                       row = \<lparr>us_ID = i, us_Username = username, us_PasswordHash = hash,
                              us_DisplayName = (if displayName = '''' then username else displayName),
                              us_Role = (if n = 0 then ''admin'' else ''user''), us_Email = None,
                              us_CreatedAt = sql_now now, us_UpdatedAt = sql_now now\<rparr>
                   in if flt UInsert then (Inl AcStatementFailed, db)
                      else if \<exists>u \<in> set (ac_users db). us_Username u = username then (Inl ErrDuplicateUsername, db)
                      else (Inr (row\<lparr>us_PasswordHash := '''', us_CreatedAt := now, us_UpdatedAt := now\<rparr>),
                            db\<lparr>ac_users := ac_users db @ [row], ac_user_seq := i\<rparr>)))))"

definition get_user :: "bool \<Rightarrow> (User \<Rightarrow> bool) \<Rightarrow> ac_db \<Rightarrow> ac_error + User" where
  "get_user failed P db =
     (if failed then Inl AcStatementFailed
      else case find_row P (ac_users db) of None \<Rightarrow> Inl ErrUserNotFound | Some u \<Rightarrow> Inr u)"

definition GetUserByID :: "(ac_stmt \<Rightarrow> bool) \<Rightarrow> id64 \<Rightarrow> ac_db \<Rightarrow> ac_error + User" where
  "GetUserByID flt i db = get_user (flt UGetByID) (\<lambda>u. us_ID u = i) db"

definition GetUserByUsername :: "(ac_stmt \<Rightarrow> bool) \<Rightarrow> string \<Rightarrow> ac_db \<Rightarrow> ac_error + User" where
  "GetUserByUsername flt name db = get_user (flt UGetByName) (\<lambda>u. us_Username u = name) db"

definition GetUserByEmail :: "(ac_stmt \<Rightarrow> bool) \<Rightarrow> string \<Rightarrow> ac_db \<Rightarrow> ac_error + User" where
  "GetUserByEmail flt email db =
     (if email = '''' then Inl ErrUserNotFound else get_user (flt UGetByEmail) (\<lambda>u. us_Email u = Some email) db)"

definition SetEmail :: "bool \<Rightarrow> timestamp \<Rightarrow> id64 \<Rightarrow> string \<Rightarrow> ac_db \<Rightarrow> (ac_error + unit) \<times> ac_db" where
  "SetEmail failed now i email db =
     (if failed then (Inl AcStatementFailed, db)
      else (Inr (), db\<lparr>ac_users := update_where (\<lambda>u. us_ID u = i)
              (\<lambda>u. u\<lparr>us_Email := Some email, us_UpdatedAt := sql_now now\<rparr>) (ac_users db)\<rparr>))"

text \<open>An update of one user, which must exist.\<close>

definition update_user :: "bool \<Rightarrow> id64 \<Rightarrow> (User \<Rightarrow> User) \<Rightarrow> ac_db \<Rightarrow> (ac_error + unit) \<times> ac_db" where
  "update_user failed i f db =
     (if failed then (Inl AcStatementFailed, db)
      else let db' = db\<lparr>ac_users := update_where (\<lambda>u. us_ID u = i) f (ac_users db)\<rparr>
        in if rows_affected (\<lambda>u. us_ID u = i) (ac_users db) = 0 then (Inl ErrUserNotFound, db') else (Inr (), db'))"

definition UpdatePassword ::
  "(ac_stmt \<Rightarrow> bool) \<Rightarrow> (int \<Rightarrow> string \<Rightarrow> string option) \<Rightarrow> int \<Rightarrow> timestamp \<Rightarrow> id64 \<Rightarrow> string \<Rightarrow> ac_db \<Rightarrow> (ac_error + unit) \<times> ac_db" where
  "UpdatePassword flt gen cost now i newPassword db =
     (case password_error newPassword of Some e \<Rightarrow> (Inl e, db) | None \<Rightarrow>
        (case gen (store_cost cost) newPassword of
           None \<Rightarrow> (Inl AcStatementFailed, db)
         | Some hash \<Rightarrow> update_user (flt UPassword) i (\<lambda>u. u\<lparr>us_PasswordHash := hash, us_UpdatedAt := sql_now now\<rparr>) db))"

definition ListUsers :: "bool \<Rightarrow> ac_db \<Rightarrow> ac_error + User list" where
  "ListUsers failed db = (if failed then Inl AcStatementFailed else Inr (sort_key us_ID (ac_users db)))"

definition VerifyPassword ::
  "(ac_stmt \<Rightarrow> bool) \<Rightarrow> (string \<Rightarrow> string \<Rightarrow> bool) \<Rightarrow> string \<Rightarrow> string \<Rightarrow> ac_db \<Rightarrow> ac_error + User" where
  "VerifyPassword flt cmp username password db =
     (case GetUserByUsername flt username db of
        Inl e \<Rightarrow> Inl ErrInvalidPassword
      | Inr u \<Rightarrow> if cmp (us_PasswordHash u) password then Inr u else Inl ErrInvalidPassword)"

definition UpdateDisplayName :: "bool \<Rightarrow> timestamp \<Rightarrow> id64 \<Rightarrow> string \<Rightarrow> ac_db \<Rightarrow> (ac_error + unit) \<times> ac_db" where
  "UpdateDisplayName failed now i displayName db =
     (if trim_space displayName = '''' then (Inl EmptyDisplayName, db)
      else update_user failed i (\<lambda>u. u\<lparr>us_DisplayName := trim_space displayName, us_UpdatedAt := sql_now now\<rparr>) db)"

section \<open>Sessions\<close>

text \<open>The owner must exist and the id be new (primary key); \<open>sid\<close> is the random id.\<close>

definition CreateSession ::
  "(ac_stmt \<Rightarrow> bool) \<Rightarrow> timestamp \<Rightarrow> string \<Rightarrow> id64 \<Rightarrow> int \<Rightarrow> ac_db \<Rightarrow> (ac_error + WebSession) \<times> ac_db" where
  "CreateSession flt now sid userID lifetime db =
     (let s = \<lparr>ws_SessionID = sid, ws_UserID = userID, ws_CreatedAt = now, ws_ExpiresAt = now + lifetime, ws_LastActiveAt = now\<rparr>
      in if flt SRand then (Inl AcStatementFailed, db)
         else if flt SInsert \<or> userID \<notin> set (map us_ID (ac_users db)) \<or> sid \<in> set (map ws_SessionID (ac_sessions db))
         then (Inl AcStatementFailed, db)
         else (Inr s, db\<lparr>ac_sessions := ac_sessions db @ [s]\<rparr>))"

definition GetSession :: "(ac_stmt \<Rightarrow> bool) \<Rightarrow> timestamp \<Rightarrow> string \<Rightarrow> ac_db \<Rightarrow> (ac_error + WebSession) \<times> ac_db" where
  "GetSession flt now sid db =
     (if flt SGet then (Inl AcStatementFailed, db)
      else case find_row (\<lambda>s. ws_SessionID s = sid) (ac_sessions db) of
             None \<Rightarrow> (Inl ErrSessionNotFound, db)
           | Some s \<Rightarrow>
               if ws_ExpiresAt s < now then (Inl ErrSessionExpired, db\<lparr>ac_bg := ac_bg db @ [BgDelete sid]\<rparr>)
               else (Inr s, db\<lparr>ac_bg := ac_bg db @ [BgBump sid]\<rparr>))"

definition delete_sessions :: "bool \<Rightarrow> (WebSession \<Rightarrow> bool) \<Rightarrow> ac_db \<Rightarrow> (ac_error + nat) \<times> ac_db" where
  "delete_sessions failed P db =
     (if failed then (Inl AcStatementFailed, db)
      else (Inr (rows_affected P (ac_sessions db)), db\<lparr>ac_sessions := delete_where P (ac_sessions db)\<rparr>))"

definition DeleteSession :: "(ac_stmt \<Rightarrow> bool) \<Rightarrow> string \<Rightarrow> ac_db \<Rightarrow> (ac_error + nat) \<times> ac_db" where
  "DeleteSession flt sid db = delete_sessions (flt SDelete) (\<lambda>s. ws_SessionID s = sid) db"

definition DeleteSessionsByUser :: "(ac_stmt \<Rightarrow> bool) \<Rightarrow> id64 \<Rightarrow> ac_db \<Rightarrow> (ac_error + nat) \<times> ac_db" where
  "DeleteSessionsByUser flt i db = delete_sessions (flt SDeleteUser) (\<lambda>s. ws_UserID s = i) db"

definition DeleteSessionsByUserExcept :: "(ac_stmt \<Rightarrow> bool) \<Rightarrow> id64 \<Rightarrow> string \<Rightarrow> ac_db \<Rightarrow> (ac_error + nat) \<times> ac_db" where
  "DeleteSessionsByUserExcept flt i sid db =
     delete_sessions (flt SDeleteExcept) (\<lambda>s. ws_UserID s = i \<and> ws_SessionID s \<noteq> sid) db"

definition CleanupExpired :: "(ac_stmt \<Rightarrow> bool) \<Rightarrow> timestamp \<Rightarrow> ac_db \<Rightarrow> (ac_error + nat) \<times> ac_db" where
  "CleanupExpired flt now db = delete_sessions (flt SCleanup) (\<lambda>s. ws_ExpiresAt s < now) db"

text \<open>A goroutine started by \<open>GetSession\<close>.\<close>

definition run_bg :: "(ac_stmt \<Rightarrow> bool) \<Rightarrow> timestamp \<Rightarrow> ac_bg \<Rightarrow> ac_db \<Rightarrow> ac_db" where
  "run_bg flt now b db =
     (case b of
        BgDelete sid \<Rightarrow> snd (DeleteSession flt sid db)
      | BgBump sid \<Rightarrow>
          if flt SBump then db
          else db\<lparr>ac_sessions := update_where (\<lambda>s. ws_SessionID s = sid) (\<lambda>s. s\<lparr>ws_LastActiveAt := sql_now now\<rparr>) (ac_sessions db)\<rparr>)"

section \<open>The login rate limiter\<close>

definition maxLoginFailures :: nat where
  "maxLoginFailures = 3"

definition loginBlockTime :: int where
  "loginBlockTime = 60 * nanosec"

definition isBlocked :: "timestamp \<Rightarrow> string \<Rightarrow> ac_db \<Rightarrow> int option \<times> ac_db" where
  "isBlocked now ip db =
     (case ac_attempts db ip of
        None \<Rightarrow> (None, db)
      | Some a \<Rightarrow>
          if maxLoginFailures \<le> la_failures a \<and> now - la_blockedAt a < loginBlockTime
          then (Some (loginBlockTime - (now - la_blockedAt a)), db)
          else if loginBlockTime \<le> now - la_blockedAt a then (None, db\<lparr>ac_attempts := (ac_attempts db)(ip := None)\<rparr>)
          else (None, db))"

definition login_failure :: "timestamp \<Rightarrow> string \<Rightarrow> ac_db \<Rightarrow> ac_db" where
  "login_failure now ip db =
     (let n = (case ac_attempts db ip of None \<Rightarrow> 0 | Some a \<Rightarrow> la_failures a)
      in db\<lparr>ac_attempts := (ac_attempts db)(ip \<mapsto> \<lparr>la_failures = n + 1, la_blockedAt = now\<rparr>)\<rparr>)"

definition clearFailures :: "string \<Rightarrow> ac_db \<Rightarrow> ac_db" where
  "clearFailures ip db = db\<lparr>ac_attempts := (ac_attempts db)(ip := None)\<rparr>"

definition remoteIP :: "string \<Rightarrow> string \<Rightarrow> string" where
  "remoteIP forwarded addr = (if forwarded \<noteq> '''' then forwarded else addr)"

section \<open>Middleware\<close>

text \<open>\<open>RequireSession\<close>: the user and session id put into the context, or the answer 401.\<close>

definition RequireSession ::
  "(ac_stmt \<Rightarrow> bool) \<Rightarrow> timestamp \<Rightarrow> string option \<Rightarrow> ac_db \<Rightarrow> (int + User \<times> string) \<times> ac_db" where
  "RequireSession flt now cookie db =
     (case cookie of
        None \<Rightarrow> (Inl 401, db)
      | Some c \<Rightarrow>
          if c = '''' then (Inl 401, db)
          else (case GetSession flt now c db of
                  (Inl e, db') \<Rightarrow> (Inl 401, db')
                | (Inr s, db') \<Rightarrow>
                    (case GetUserByID flt (ws_UserID s) db' of
                       Inl e \<Rightarrow> (Inl 401, db')
                     | Inr u \<Rightarrow> (Inr (u, ws_SessionID s), db'))))"

text \<open>\<open>trySessionAuth\<close> of the authorize page does the same without an answer.\<close>

definition trySessionAuth :: "(ac_stmt \<Rightarrow> bool) \<Rightarrow> timestamp \<Rightarrow> string option \<Rightarrow> ac_db \<Rightarrow> User option \<times> ac_db" where
  "trySessionAuth flt now cookie db =
     (case cookie of
        None \<Rightarrow> (None, db)
      | Some c \<Rightarrow>
          if c = '''' then (None, db)
          else (case GetSession flt now c db of
                  (Inl e, db') \<Rightarrow> (None, db')
                | (Inr s, db') \<Rightarrow>
                    (case GetUserByID flt (ws_UserID s) db' of Inl e \<Rightarrow> (None, db') | Inr u \<Rightarrow> (Some u, db'))))"

definition RequireAdmin :: "User option \<Rightarrow> int option" where
  "RequireAdmin user = (case user of None \<Rightarrow> Some 401 | Some u \<Rightarrow> if us_Role u \<noteq> ''admin'' then Some 403 else None)"

text \<open>The owner id the API handlers work with.\<close>

definition SessionToOwner ::
  "(ac_stmt \<Rightarrow> bool) \<Rightarrow> timestamp \<Rightarrow> string option \<Rightarrow> ac_db \<Rightarrow> (int + id64) \<times> ac_db" where
  "SessionToOwner flt now cookie db =
     (case RequireSession flt now cookie db of
        (Inl st, db') \<Rightarrow> (Inl st, db') | (Inr (u, _), db') \<Rightarrow> (Inr (us_ID u), db'))"

section \<open>Handlers\<close>

text \<open>What a handler answers: the status, the error code or user, and the session cookie it sets.\<close>

datatype cookie_set = CookieNone | CookieSet string int | CookieCleared

record http_reply =
  hp_Status :: int
  hp_Code :: string
  hp_User :: "User option"
  hp_Cookie :: cookie_set

definition answer :: "int \<Rightarrow> string \<Rightarrow> http_reply" where
  "answer st code = \<lparr>hp_Status = st, hp_Code = code, hp_User = None, hp_Cookie = CookieNone\<rparr>"

definition HandleRegister ::
  "(ac_stmt \<Rightarrow> bool) \<Rightarrow> (int \<Rightarrow> string \<Rightarrow> string option) \<Rightarrow> AuthConfig \<Rightarrow> timestamp \<Rightarrow> (string \<times> string \<times> string) option \<Rightarrow> ac_db \<Rightarrow>
   http_reply \<times> ac_db" where
  "HandleRegister flt gen cfg now body db =
     (case body of
        None \<Rightarrow> (answer 400 ''invalid_request'', db)
      | Some (username, password, displayName) \<Rightarrow>
          (case CreateUser flt gen (cf_BcryptCost cfg) now username password displayName db of
             (Inl e, db') \<Rightarrow>
               (if e = ErrDuplicateUsername then answer 409 ''duplicate_username''
                else if e = ErrInvalidUsername then answer 400 ''invalid_username''
                else if e = ErrPasswordTooShort \<or> e = ErrPasswordTooLong then answer 400 ''invalid_password''
                else answer 500 ''server_error'', db')
           | (Inr u, db') \<Rightarrow> ((answer 201 '''')\<lparr>hp_User := Some u\<rparr>, db')))"

text \<open>A session for a user whose password was checked, and its cookie.\<close>

definition HandleLogin ::
  "(ac_stmt \<Rightarrow> bool) \<Rightarrow> (string \<Rightarrow> string \<Rightarrow> bool) \<Rightarrow> AuthConfig \<Rightarrow> timestamp \<Rightarrow> string \<Rightarrow> (string \<times> string) option \<Rightarrow> string \<Rightarrow> ac_db \<Rightarrow>
   http_reply \<times> ac_db" where
  "HandleLogin flt cmp cfg now ip body sid db =
     (case isBlocked now ip db of
        (Some r, db1) \<Rightarrow> (answer 429 ''rate_limited'', db1)
      | (None, db1) \<Rightarrow>
          (case body of
             None \<Rightarrow> (answer 400 ''invalid_request'', db1)
           | Some (username, password) \<Rightarrow>
               (case VerifyPassword flt cmp username password db1 of
                  Inl e \<Rightarrow> (answer 401 ''invalid_credentials'', login_failure now ip db1)
                | Inr u \<Rightarrow>
                    (case CreateSession flt now sid (us_ID u) (cf_SessionLifetime cfg) (clearFailures ip db1) of
                       (Inl e, db2) \<Rightarrow> (answer 500 ''server_error'', db2)
                     | (Inr s, db2) \<Rightarrow>
                         (\<lparr>hp_Status = 200, hp_Code = '''', hp_User = Some u,
                           hp_Cookie = CookieSet (ws_SessionID s) (cf_SessionLifetime cfg div nanosec)\<rparr>, db2)))))"

definition HandleLogout :: "(ac_stmt \<Rightarrow> bool) \<Rightarrow> string option \<Rightarrow> ac_db \<Rightarrow> http_reply \<times> ac_db" where
  "HandleLogout flt cookie db =
     ((answer 200 ''logged_out'')\<lparr>hp_Cookie := CookieCleared\<rparr>,
      (case cookie of None \<Rightarrow> db | Some c \<Rightarrow> if c \<noteq> '''' then snd (DeleteSession flt c db) else db))"

definition HandleMe :: "User option \<Rightarrow> http_reply" where
  "HandleMe user = (case user of None \<Rightarrow> answer 401 ''unauthorized'' | Some u \<Rightarrow> (answer 200 '''')\<lparr>hp_User := Some u\<rparr>)"

definition HandleUpdateProfile ::
  "(ac_stmt \<Rightarrow> bool) \<Rightarrow> timestamp \<Rightarrow> User option \<Rightarrow> string option \<Rightarrow> ac_db \<Rightarrow> http_reply \<times> ac_db" where
  "HandleUpdateProfile flt now user body db =
     (case user of
        None \<Rightarrow> (answer 401 ''unauthorized'', db)
      | Some u \<Rightarrow>
          (case body of
             None \<Rightarrow> (answer 400 ''invalid_request'', db)
           | Some name \<Rightarrow>
               if trim_space name = '''' then (answer 400 ''invalid_request'', db)
               else (case UpdateDisplayName (flt UDisplayName) now (us_ID u) name db of
                       (Inl e, db') \<Rightarrow> (answer 500 ''server_error'', db')
                     | (Inr _, db') \<Rightarrow>
                         (case GetUserByID flt (us_ID u) db' of
                            Inl e \<Rightarrow> (answer 500 ''server_error'', db')
                          | Inr u' \<Rightarrow> ((answer 200 '''')\<lparr>hp_User := Some u'\<rparr>, db')))))"

text \<open>The errors of removing the other sessions are dropped.\<close>

definition HandleChangePassword ::
  "(ac_stmt \<Rightarrow> bool) \<Rightarrow> (int \<Rightarrow> string \<Rightarrow> string option) \<Rightarrow> (string \<Rightarrow> string \<Rightarrow> bool) \<Rightarrow> AuthConfig \<Rightarrow> timestamp \<Rightarrow>
   User option \<Rightarrow> string option \<Rightarrow> (string \<times> string) option \<Rightarrow> ac_db \<Rightarrow> http_reply \<times> ac_db" where
  "HandleChangePassword flt gen cmp cfg now user sid body db =
     (case user of
        None \<Rightarrow> (answer 401 ''unauthorized'', db)
      | Some u \<Rightarrow>
          (case body of
             None \<Rightarrow> (answer 400 ''invalid_request'', db)
           | Some (current, new) \<Rightarrow>
               (case VerifyPassword flt cmp (us_Username u) current db of
                  Inl e \<Rightarrow> (answer 403 ''invalid_password'', db)
                | Inr _ \<Rightarrow>
                    (case UpdatePassword flt gen (cf_BcryptCost cfg) now (us_ID u) new db of
                       (Inl e, db') \<Rightarrow>
                         (if e = ErrPasswordTooShort \<or> e = ErrPasswordTooLong then answer 400 ''invalid_password''
                          else answer 500 ''server_error'', db')
                     | (Inr _, db') \<Rightarrow>
                         (answer 200 ''password_changed'',
                          (case sid of None \<Rightarrow> db' | Some s \<Rightarrow> snd (DeleteSessionsByUserExcept flt (us_ID u) s db')))))))"

text \<open>The login form of the authorize page: no rate limit here.\<close>

definition handleAuthorizeLogin ::
  "(ac_stmt \<Rightarrow> bool) \<Rightarrow> (string \<Rightarrow> string \<Rightarrow> bool) \<Rightarrow> AuthConfig \<Rightarrow> timestamp \<Rightarrow> string \<Rightarrow> string \<Rightarrow> string \<Rightarrow> ac_db \<Rightarrow>
   http_reply \<times> ac_db" where
  "handleAuthorizeLogin flt cmp cfg now username password sid db =
     (case VerifyPassword flt cmp username password db of
        Inl e \<Rightarrow> (answer 200 ''Invalid username or password'', db)
      | Inr u \<Rightarrow>
          (case CreateSession flt now sid (us_ID u) (cf_SessionLifetime cfg) db of
             (Inl e, db') \<Rightarrow> (answer 200 ''Server error, please try again'', db')
           | (Inr s, db') \<Rightarrow>
               (\<lparr>hp_Status = 200, hp_Code = '''', hp_User = Some u,
                 hp_Cookie = CookieSet (ws_SessionID s) (cf_SessionLifetime cfg div nanosec)\<rparr>, db')))"

end
