(* ===== verification/Identity_Providers.thy ===== *)
theory Identity_Providers
  imports Accounts
begin

text \<open>
  Signing in through an external identity provider: \<open>internal/auth/idp\<close> (\<open>store.go\<close>,
  \<open>handlers.go\<close>, the claims part of \<open>oidc.go\<close>).

  What the provider answers to a code is a parameter (\<open>exchange\<close>), as are the random texts.
  User names are UTF-8 byte lists, which \<open>sanitizeUsername\<close> walks rune by rune.
\<close>

section \<open>User names\<close>

definition byte :: "char \<Rightarrow> nat" where
  "byte c = of_char c"

definition cont :: "char \<Rightarrow> bool" where
  "cont c \<longleftrightarrow> 128 \<le> byte c \<and> byte c \<le> 191"

text \<open>The bytes of the first rune, as Go's \<open>range\<close> over a string decodes it; an invalid byte counts alone.\<close>

fun rune_width :: "string \<Rightarrow> nat" where
  "rune_width (a # b # c # d # s) =
     (if 194 \<le> byte a \<and> byte a \<le> 223 \<and> cont b then 2
      else if byte a = 224 \<and> 160 \<le> byte b \<and> cont b \<and> cont c then 3
      else if byte a = 237 \<and> byte b \<le> 159 \<and> cont b \<and> cont c then 3
      else if 225 \<le> byte a \<and> byte a \<le> 239 \<and> byte a \<noteq> 237 \<and> cont b \<and> cont c then 3
      else if byte a = 240 \<and> 144 \<le> byte b \<and> cont b \<and> cont c \<and> cont d then 4
      else if byte a = 244 \<and> byte b \<le> 143 \<and> cont b \<and> cont c \<and> cont d then 4
      else if 241 \<le> byte a \<and> byte a \<le> 243 \<and> cont b \<and> cont c \<and> cont d then 4
      else 1)"
| "rune_width [a, b, c] =
     (if 194 \<le> byte a \<and> byte a \<le> 223 \<and> cont b then 2
      else if byte a = 224 \<and> 160 \<le> byte b \<and> cont b \<and> cont c then 3
      else if byte a = 237 \<and> byte b \<le> 159 \<and> cont b \<and> cont c then 3
      else if 225 \<le> byte a \<and> byte a \<le> 239 \<and> byte a \<noteq> 237 \<and> cont b \<and> cont c then 3
      else 1)"
| "rune_width [a, b] = (if 194 \<le> byte a \<and> byte a \<le> 223 \<and> cont b then 2 else 1)"
| "rune_width s = 1"

lemma rune_width_pos [simp]: "0 < rune_width s"
  by (cases s rule: rune_width.cases) (simp_all add: Let_def)

definition name_char :: "char \<Rightarrow> bool" where
  "name_char c \<longleftrightarrow> is_alnum c \<or> c = CHR ''_''"

text \<open>The loop over the runes: what is not a letter, digit or underscore becomes an underscore.\<close>

function name_runes :: "string \<Rightarrow> string" where
  "name_runes [] = []"
| "name_runes (c # s) =
     (if name_char c then c # name_runes s else CHR ''_'' # name_runes (drop (rune_width (c # s)) (c # s)))"
  by pat_completeness auto
termination
proof (relation "measure length")
  fix c s
  show "(drop (rune_width (c # s)) (c # s), c # s) \<in> measure length" using rune_width_pos [of "c # s"] by simp
qed simp_all

definition trim_underscores :: "string \<Rightarrow> string" where
  "trim_underscores s = rev (dropWhile (\<lambda>c. c = CHR ''_'') (rev (dropWhile (\<lambda>c. c = CHR ''_'') s)))"

definition sanitizeUsername :: "string \<Rightarrow> string \<Rightarrow> string \<Rightarrow> string" where
  "sanitizeUsername username provider externalID =
     (let u0 = (if username = '''' then provider @ ''_'' @ externalID else username);
          u1 = trim_underscores (name_runes u0);
          u2 = (if length u1 < 3 then u1 @ ''_user'' else u1)
      in take 64 u2)"

lemma name_runes_chars: "list_all name_char (name_runes s)"
  by (induction s rule: name_runes.induct) (simp_all add: name_char_def)

lemma set_trim_underscores: "set (trim_underscores s) \<subseteq> set s"
proof
  fix x
  assume "x \<in> set (trim_underscores s)"
  then have "x \<in> set (rev (dropWhile (\<lambda>c. c = CHR ''_'') s))"
    unfolding trim_underscores_def by (metis set_rev set_dropWhileD)
  then show "x \<in> set s" by (metis set_rev set_dropWhileD)
qed

lemma username_ok_take:
  assumes "list_all name_char u" "3 \<le> length u"
  shows "username_ok (take 64 u)"
proof -
  have "list_all name_char (take 64 u)" using assms(1) by (auto simp: list_all_iff dest: in_set_takeD)
  then show ?thesis using assms(2) by (simp add: username_ok_def list_all_iff name_char_def)
qed

text \<open>
  C40. Whatever an identity provider reports (any bytes at all), the user name derived from it is one that the user
  store accepts.
\<close>

theorem sanitize_username_valid: "username_ok (sanitizeUsername username provider externalID)"
proof -
  let ?u0 = "if username = '''' then provider @ ''_'' @ externalID else username"
  let ?u1 = "trim_underscores (name_runes ?u0)"
  let ?u2 = "if length ?u1 < 3 then ?u1 @ ''_user'' else ?u1"
  have "set ?u1 \<subseteq> set (name_runes ?u0)" by (rule set_trim_underscores)
  then have "list_all name_char ?u1" using name_runes_chars [of ?u0] by (auto simp: list_all_iff)
  moreover have "list_all name_char ''_user''" by code_simp
  ultimately have "list_all name_char ?u2" by simp
  moreover have "3 \<le> length ?u2" by simp
  ultimately show ?thesis unfolding sanitizeUsername_def Let_def by (rule username_ok_take)
qed

section \<open>Identities\<close>

record UserIdentity =
  ui_ID :: id64
  ui_UserID :: id64
  ui_Provider :: string
  ui_ExternalID :: string
  ui_Email :: string
  ui_DisplayName :: string
  ui_RawClaims :: string
  ui_CreatedAt :: timestamp

record ExternalUser =
  ex_ProviderID :: string
  ex_ExternalID :: string
  ex_Email :: string
  ex_Name :: string
  ex_Username :: string
  ex_RawClaims :: string

record idp_db =
  ip_acc :: ac_db
  ip_ids :: "UserIdentity list"
  ip_seq :: id64

datatype idp_stmt = IFind | ICreate | IPassword | IAcc ac_stmt | IRetry ac_stmt

definition FindByProvider :: "bool \<Rightarrow> string \<Rightarrow> string \<Rightarrow> idp_db \<Rightarrow> ac_error + id64 option" where
  "FindByProvider failed provider ext db =
     (if failed then Inl AcStatementFailed
      else Inr (map_option ui_UserID (find_row (\<lambda>i. ui_Provider i = provider \<and> ui_ExternalID i = ext) (ip_ids db))))"

text \<open>The pair of provider and external id is unique, the user must exist.\<close>

definition identity_Create ::
  "bool \<Rightarrow> timestamp \<Rightarrow> id64 \<Rightarrow> ExternalUser \<Rightarrow> idp_db \<Rightarrow> (ac_error + unit) \<times> idp_db" where
  "identity_Create failed now userID ext db =
     (if failed \<or> userID \<notin> set (map us_ID (ac_users (ip_acc db))) \<or>
         (\<exists>i \<in> set (ip_ids db). ui_Provider i = ex_ProviderID ext \<and> ui_ExternalID i = ex_ExternalID ext)
      then (Inl AcStatementFailed, db)
      else (Inr (), db\<lparr>ip_ids := ip_ids db @
             [\<lparr>ui_ID = ip_seq db + 1, ui_UserID = userID, ui_Provider = ex_ProviderID ext, ui_ExternalID = ex_ExternalID ext,
               ui_Email = ex_Email ext, ui_DisplayName = ex_Name ext, ui_RawClaims = ex_RawClaims ext,
               ui_CreatedAt = sql_now now\<rparr>], ip_seq := ip_seq db + 1\<rparr>))"

definition ListByUser :: "bool \<Rightarrow> id64 \<Rightarrow> idp_db \<Rightarrow> ac_error + UserIdentity list" where
  "ListByUser failed userID db =
     (if failed then Inl AcStatementFailed
      else Inr (sort_key ui_CreatedAt (filter (\<lambda>i. ui_UserID i = userID) (ip_ids db))))"

text \<open>The second attempt takes the name with the random suffix (empty when there is no randomness).\<close>

definition create_named ::
  "(idp_stmt \<Rightarrow> bool) \<Rightarrow> (int \<Rightarrow> string \<Rightarrow> string option) \<Rightarrow> int \<Rightarrow> timestamp \<Rightarrow> string \<Rightarrow> string \<Rightarrow> string \<Rightarrow> string \<Rightarrow> ac_db \<Rightarrow>
   (ac_error + User) \<times> ac_db" where
  "create_named flt gen cost now username suffix pw displayName acc =
     (case CreateUser (\<lambda>st. flt (IAcc st)) gen cost now username pw displayName acc of
        (Inl e, acc') \<Rightarrow>
          if e = ErrDuplicateUsername
          then CreateUser (\<lambda>st. flt (IRetry st)) gen cost now (username @ ''_'' @ suffix) pw displayName acc'
          else (Inl e, acc')
      | (Inr u, acc') \<Rightarrow> (Inr u, acc'))"

definition findOrCreateUser ::
  "(idp_stmt \<Rightarrow> bool) \<Rightarrow> (int \<Rightarrow> string \<Rightarrow> string option) \<Rightarrow> int \<Rightarrow> timestamp \<Rightarrow> string \<Rightarrow> string \<Rightarrow> ExternalUser \<Rightarrow> idp_db \<Rightarrow>
   (ac_error + User) \<times> idp_db" where
  "findOrCreateUser flt gen cost now randomPW suffix ext db =
     (case FindByProvider (flt IFind) (ex_ProviderID ext) (ex_ExternalID ext) db of
        Inl e \<Rightarrow> (Inl e, db)
      | Inr (Some i) \<Rightarrow> (GetUserByID (\<lambda>st. flt (IAcc st)) i (ip_acc db), db)
      | Inr None \<Rightarrow>
          (let by_email = GetUserByEmail (\<lambda>st. flt (IAcc st)) (ex_Email ext) (ip_acc db);
               username = sanitizeUsername (ex_Username ext) (ex_ProviderID ext) (ex_ExternalID ext);
               create =
                 (if flt IPassword then (Inl AcStatementFailed, db)
                  else case create_named flt gen cost now username suffix randomPW
                              (if ex_Name ext = '''' then username else ex_Name ext) (ip_acc db) of
                         (Inl e, acc) \<Rightarrow> (Inl e, db\<lparr>ip_acc := acc\<rparr>)
                       | (Inr u, acc) \<Rightarrow>
                           let acc' = (if ex_Email ext \<noteq> '''' then snd (SetEmail (flt (IAcc UEmail)) now (us_ID u) (ex_Email ext) acc) else acc)
                           in (Inr u, snd (identity_Create (flt ICreate) now (us_ID u) ext (db\<lparr>ip_acc := acc'\<rparr>))))
           in if ex_Email ext = '''' then create
              else case by_email of
                     Inr u \<Rightarrow> (Inr u, snd (identity_Create (flt ICreate) now (us_ID u) ext db))
                   | Inl e \<Rightarrow> if e \<noteq> ErrUserNotFound then (Inl e, db) else create))"

text \<open>
  The callback: \<open>known\<close> says that the provider is configured; a session of 24 hours on success.
\<close>

definition HandleCallback ::
  "(idp_stmt \<Rightarrow> bool) \<Rightarrow> (int \<Rightarrow> string \<Rightarrow> string option) \<Rightarrow> int \<Rightarrow> timestamp \<Rightarrow> bool \<Rightarrow> string option \<Rightarrow> string \<Rightarrow> string \<Rightarrow> string \<Rightarrow>
   (string \<Rightarrow> ExternalUser option) \<Rightarrow> string \<Rightarrow> string \<Rightarrow> string \<Rightarrow> idp_db \<Rightarrow> http_reply \<times> idp_db" where
  "HandleCallback flt gen cost now known stateCookie state errParam code exchange randomPW suffix sid db =
     (if \<not> known then (answer 404 ''Unknown provider'', db)
      else if stateCookie = None \<or> stateCookie = Some '''' then (answer 400 ''Missing state cookie'', db)
      else if Some state \<noteq> stateCookie then (answer 400 ''State mismatch'', db)
      else if errParam \<noteq> '''' then (answer 307 (''/login?error='' @ errParam), db)
      else if code = '''' then (answer 400 ''Missing authorization code'', db)
      else case exchange code of
             None \<Rightarrow> (answer 307 ''/login?error=exchange_failed'', db)
           | Some ext \<Rightarrow>
               (case findOrCreateUser flt gen cost now randomPW suffix ext db of
                  (Inl e, db') \<Rightarrow> (answer 307 ''/login?error=provisioning_failed'', db')
                | (Inr u, db') \<Rightarrow>
                    (case CreateSession (\<lambda>st. flt (IAcc st)) now sid (us_ID u) (24 * 3600 * nanosec) (ip_acc db') of
                       (Inl e, acc) \<Rightarrow> (answer 500 ''Failed to create session'', db'\<lparr>ip_acc := acc\<rparr>)
                     | (Inr s, acc) \<Rightarrow>
                         (\<lparr>hp_Status = 307, hp_Code = ''/'', hp_User = Some u, hp_Cookie = CookieSet (ws_SessionID s) 86400\<rparr>,
                          db'\<lparr>ip_acc := acc\<rparr>))))"

text \<open>The domain check of an OIDC provider; \<open>strings.EqualFold\<close> on ASCII names.\<close>

fun after_at :: "string \<Rightarrow> string option" where
  "after_at [] = None"
| "after_at (c # s) = (if c = CHR ''@'' then Some s else after_at s)"

definition validateDomain :: "string list \<Rightarrow> string \<Rightarrow> string \<Rightarrow> bool" where
  "validateDomain allowed email hostedDomain =
     (let domain = (if hostedDomain = '''' then (case after_at email of None \<Rightarrow> '''' | Some d \<Rightarrow> d) else hostedDomain)
      in domain \<noteq> '''' \<and> list_ex (\<lambda>a. to_lower domain = to_lower a) allowed)"

text \<open>The user that an OIDC provider builds from verified claims.\<close>

record oidc_claims =
  oc_Sub :: string
  oc_Email :: string
  oc_Name :: string
  oc_Username :: string
  oc_HD :: string
  oc_Groups :: "string list"

fun before_at :: "string \<Rightarrow> string" where
  "before_at [] = []"
| "before_at (c # s) = (if c = CHR ''@'' then [] else c # before_at s)"

definition mapped_groups :: "(string \<times> string) list \<Rightarrow> string list \<Rightarrow> string list" where
  "mapped_groups mapping groups = (if mapping = [] then groups else List.map_filter (map_of mapping) groups)"

definition oidc_user :: "string \<Rightarrow> string list \<Rightarrow> string \<Rightarrow> oidc_claims \<Rightarrow> ExternalUser option" where
  "oidc_user providerID allowed rawClaims c =
     (if allowed \<noteq> [] \<and> \<not> validateDomain allowed (oc_Email c) (oc_HD c) then None
      else Some \<lparr>ex_ProviderID = providerID, ex_ExternalID = oc_Sub c, ex_Email = oc_Email c, ex_Name = oc_Name c,
                 ex_Username = (if oc_Username c = '''' \<and> oc_Email c \<noteq> '''' then before_at (oc_Email c) else oc_Username c),
                 ex_RawClaims = rawClaims\<rparr>)"

text \<open>The addresses that GitHub lists: the primary one if it is verified, else the first verified one.\<close>

record githubEmail =
  ge_Email :: string
  ge_Primary :: bool
  ge_Verified :: bool

definition fetchGitHubPrimaryEmail :: "githubEmail list \<Rightarrow> string option" where
  "fetchGitHubPrimaryEmail emails =
     (case find (\<lambda>e. ge_Primary e \<and> ge_Verified e) emails of
        Some e \<Rightarrow> Some (ge_Email e)
      | None \<Rightarrow> map_option ge_Email (find ge_Verified emails))"

text \<open>The answer of \<open>/user\<close> as its optional fields; the id is an integral number.\<close>

definition github_user ::
  "string \<Rightarrow> string option \<Rightarrow> string option \<Rightarrow> string option \<Rightarrow> string \<Rightarrow> githubEmail list option \<Rightarrow> ExternalUser" where
  "github_user externalID profileEmail login name rawClaims emails =
     (let email = (case Option.bind emails fetchGitHubPrimaryEmail of None \<Rightarrow> '''' | Some e \<Rightarrow> e)
      in \<lparr>ex_ProviderID = ''github'', ex_ExternalID = externalID,
          ex_Email = (if email = '''' then case_option '''' id profileEmail else email),
          ex_Name = case_option '''' id name, ex_Username = case_option '''' id login, ex_RawClaims = rawClaims\<rparr>)"

end
