(* ===== verification/Sign_In.thy ===== *)
theory Sign_In
  imports Identity_Providers
begin

text \<open>
  Signing in as a system: the handlers of \<open>Accounts\<close> and \<open>Identity_Providers\<close> behind the routes of
  \<open>cmd/synapbus/main.go\<close>, in any order, with goroutines running late. What is shown: the
  invariant of the tables; that an accepted session cookie was handed out to somebody who
  proved to be that user and was not revoked since; what changing a password revokes; and how
  often the login handler checks passwords for one address.
\<close>

section \<open>Operations\<close>

datatype sg_op =
    SgRegister "ac_stmt \<Rightarrow> bool" "int \<Rightarrow> string \<Rightarrow> string option" AuthConfig timestamp "(string \<times> string \<times> string) option"
  | SgLogin "ac_stmt \<Rightarrow> bool" "string \<Rightarrow> string \<Rightarrow> bool" AuthConfig timestamp string "(string \<times> string) option" string
  | SgAuthorize "ac_stmt \<Rightarrow> bool" "string \<Rightarrow> string \<Rightarrow> bool" AuthConfig timestamp string string string
  | SgCallback "idp_stmt \<Rightarrow> bool" "int \<Rightarrow> string \<Rightarrow> string option" int timestamp bool "string option" string string string
      "string \<Rightarrow> ExternalUser option" string string string
  | SgLogout "ac_stmt \<Rightarrow> bool" timestamp "string option"
  | SgProfile "ac_stmt \<Rightarrow> bool" timestamp "string option" "string option"
  | SgPassword "ac_stmt \<Rightarrow> bool" "int \<Rightarrow> string \<Rightarrow> string option" "string \<Rightarrow> string \<Rightarrow> bool" AuthConfig timestamp
      "string option" "(string \<times> string) option"
  | SgRequest "ac_stmt \<Rightarrow> bool" timestamp "string option"
  | SgCleanup "ac_stmt \<Rightarrow> bool" timestamp
  | SgBackground "ac_stmt \<Rightarrow> bool" timestamp nat

text \<open>What happened to sessions.\<close>

datatype sg_event =
    SeOpened string id64 timestamp
  | SeClosed string
  | SeClosedOthers id64 string

fun closes :: "string \<Rightarrow> id64 \<Rightarrow> sg_event \<Rightarrow> bool" where
  "closes sid i (SeOpened s j e) = False"
| "closes sid i (SeClosed s) = (s = sid)"
| "closes sid i (SeClosedOthers j s) = (j = i \<and> s \<noteq> sid)"

definition opened :: "timestamp \<Rightarrow> http_reply \<Rightarrow> sg_event list" where
  "opened expires r =
     (case (hp_Cookie r, hp_User r) of (CookieSet sid _, Some u) \<Rightarrow> [SeOpened sid (us_ID u) expires] | _ \<Rightarrow> [])"

text \<open>The routes behind \<open>RequireSession\<close>.\<close>

definition with_session ::
  "(ac_stmt \<Rightarrow> bool) \<Rightarrow> timestamp \<Rightarrow> string option \<Rightarrow> (User \<Rightarrow> string \<Rightarrow> ac_db \<Rightarrow> sg_event list \<times> ac_db) \<Rightarrow> ac_db \<Rightarrow>
   sg_event list \<times> ac_db" where
  "with_session flt now cookie h db =
     (case RequireSession flt now cookie db of (Inl st, db') \<Rightarrow> ([], db') | (Inr (u, sid), db') \<Rightarrow> h u sid db')"

fun acc_step :: "sg_op \<Rightarrow> ac_db \<Rightarrow> sg_event list \<times> ac_db" where
  "acc_step (SgRegister flt gen cfg now body) db = ([], snd (HandleRegister flt gen cfg now body db))"
| "acc_step (SgLogin flt cmp cfg now ip body sid) db =
     (case HandleLogin flt cmp cfg now ip body sid db of (r, db') \<Rightarrow> (opened (now + cf_SessionLifetime cfg) r, db'))"
| "acc_step (SgAuthorize flt cmp cfg now username password sid) db =
     (case handleAuthorizeLogin flt cmp cfg now username password sid db of
        (r, db') \<Rightarrow> (opened (now + cf_SessionLifetime cfg) r, db'))"
| "acc_step (SgLogout flt now cookie) db =
     with_session flt now cookie (\<lambda>u sid db. (if flt SDelete then [] else [SeClosed sid], snd (HandleLogout flt cookie db))) db"
| "acc_step (SgProfile flt now cookie body) db =
     with_session flt now cookie (\<lambda>u sid db. ([], snd (HandleUpdateProfile flt now (Some u) body db))) db"
| "acc_step (SgPassword flt gen cmp cfg now cookie body) db =
     with_session flt now cookie (\<lambda>u sid db.
       case HandleChangePassword flt gen cmp cfg now (Some u) (Some sid) body db of
         (r, db') \<Rightarrow> (if hp_Status r = 200 \<and> \<not> flt SDeleteExcept then [SeClosedOthers (us_ID u) sid] else [], db')) db"
| "acc_step (SgRequest flt now cookie) db = with_session flt now cookie (\<lambda>u sid db. ([], db)) db"
| "acc_step (SgCleanup flt now) db = ([], snd (CleanupExpired flt now db))"
| "acc_step (SgBackground flt now k) db =
     ([], if k < length (ac_bg db) then run_bg flt now (ac_bg db ! k) (db\<lparr>ac_bg := remove_nth k (ac_bg db)\<rparr>) else db)"
| "acc_step (SgCallback _ _ _ _ _ _ _ _ _ _ _ _ _) db = ([], db)"

fun sg_step :: "sg_op \<Rightarrow> idp_db \<Rightarrow> sg_event list \<times> idp_db" where
  "sg_step (SgCallback flt gen cost now known stateCookie state err code exchange pw suffix sid) db =
     (case HandleCallback flt gen cost now known stateCookie state err code exchange pw suffix sid db of
        (r, db') \<Rightarrow> (opened (now + 24 * 3600 * nanosec) r, db'))"
| "sg_step op db = (case acc_step op (ip_acc db) of (es, acc) \<Rightarrow> (es, db\<lparr>ip_acc := acc\<rparr>))"

definition sg_exec :: "sg_op \<Rightarrow> idp_db \<Rightarrow> idp_db" where
  "sg_exec op db = snd (sg_step op db)"

definition idp_empty :: idp_db where
  "idp_empty = \<lparr>ip_acc = \<lparr>ac_users = [], ac_user_seq = 0, ac_sessions = [], ac_attempts = Map.empty, ac_bg = []\<rparr>, ip_ids = [], ip_seq = 0\<rparr>"

section \<open>Invariant\<close>

definition users_inv :: "ac_db \<Rightarrow> bool" where
  "users_inv db \<longleftrightarrow> ids_ok us_ID (ac_user_seq db) (ac_users db) \<and> distinct (map us_Username (ac_users db)) \<and>
     list_all (\<lambda>u. username_ok (us_Username u)) (ac_users db) \<and>
     map (\<lambda>u. us_Role u = ''admin'') (ac_users db) = map (\<lambda>k. k = 0) [0..<length (ac_users db)]"

definition sessions_inv :: "ac_db \<Rightarrow> bool" where
  "sessions_inv db \<longleftrightarrow> distinct (map ws_SessionID (ac_sessions db)) \<and>
     (\<forall>s \<in> set (ac_sessions db). ws_UserID s \<in> us_ID ` set (ac_users db))"

definition ac_inv :: "ac_db \<Rightarrow> bool" where
  "ac_inv db \<longleftrightarrow> users_inv db \<and> sessions_inv db"

definition sg_inv :: "idp_db \<Rightarrow> bool" where
  "sg_inv db \<longleftrightarrow> ac_inv (ip_acc db) \<and> ids_ok ui_ID (ip_seq db) (ip_ids db) \<and>
     distinct (map (\<lambda>i. (ui_Provider i, ui_ExternalID i)) (ip_ids db)) \<and>
     (\<forall>i \<in> set (ip_ids db). ui_UserID i \<in> us_ID ` set (ac_users (ip_acc db)))"

lemma idp_empty_inv: "sg_inv idp_empty"
  by (simp add: sg_inv_def ac_inv_def users_inv_def sessions_inv_def idp_empty_def)

lemma ac_inv_cong:
  "ac_users db' = ac_users db \<Longrightarrow> ac_user_seq db' = ac_user_seq db \<Longrightarrow> ac_sessions db' = ac_sessions db \<Longrightarrow> ac_inv db' = ac_inv db"
  by (simp add: ac_inv_def users_inv_def sessions_inv_def)

lemma user_update_inv:
  assumes "ac_inv db" "\<And>u. us_ID (f u) = us_ID u" "\<And>u. us_Username (f u) = us_Username u" "\<And>u. us_Role (f u) = us_Role u"
  shows "ac_inv (db\<lparr>ac_users := update_where P f (ac_users db)\<rparr>)"
proof -
  let ?us = "update_where P f (ac_users db)"
  have ids: "map us_ID ?us = map us_ID (ac_users db)" and names: "map us_Username ?us = map us_Username (ac_users db)"
    and roles: "map (\<lambda>u. us_Role u = ''admin'') ?us = map (\<lambda>u. us_Role u = ''admin'') (ac_users db)"
    using assms(2-4) by (simp_all add: map_update_where)
  have "list_all username_ok (map us_Username ?us)" using assms(1) by (simp only: names) (simp add: ac_inv_def users_inv_def list_all_iff)
  then have "list_all (\<lambda>u. username_ok (us_Username u)) ?us" by (simp add: list_all_iff)
  moreover have "us_ID ` set ?us = us_ID ` set (ac_users db)" by (metis ids set_map)
  ultimately show ?thesis
    using assms(1) roles names by (simp add: ac_inv_def users_inv_def sessions_inv_def ids_ok_map [of us_ID _ ?us] ids)
      (simp add: ids_ok_map)
qed

lemma new_user_inv:
  assumes "ac_inv db" "us_ID u = ac_user_seq db + 1" "us_Username u \<notin> us_Username ` set (ac_users db)" "username_ok (us_Username u)"
    "us_Role u = ''admin'' \<longleftrightarrow> ac_users db = []"
  shows "ac_inv (db\<lparr>ac_users := ac_users db @ [u], ac_user_seq := ac_user_seq db + 1\<rparr>)"
proof -
  have "ids_ok us_ID (ac_user_seq db + 1) (ac_users db @ [u])"
    using assms(1,2) by (simp add: ac_inv_def users_inv_def ids_ok_append)
  then show ?thesis using assms by (auto simp: ac_inv_def users_inv_def sessions_inv_def simp del: append_Cons)
qed

text \<open>The row that \<open>CreateUser\<close> inserts.\<close>

definition inserted_user :: "int \<Rightarrow> string \<Rightarrow> string \<Rightarrow> string \<Rightarrow> ac_db \<Rightarrow> User" where
  "inserted_user now name hash dn db =
     \<lparr>us_ID = ac_user_seq db + 1, us_Username = name, us_PasswordHash = hash, us_DisplayName = (if dn = '''' then name else dn),
      us_Role = (if length (ac_users db) = 0 then ''admin'' else ''user''), us_Email = None,
      us_CreatedAt = sql_now now, us_UpdatedAt = sql_now now\<rparr>"

lemma CreateUser_cases:
  assumes "CreateUser flt gen cost now name pw dn db = (r, db')"
  obtains e where "r = Inl e" "db' = db"
  | hash u where "r = Inr u" "username_ok name" "gen (store_cost cost) pw = Some hash" "us_ID u = ac_user_seq db + 1"
      "name \<notin> us_Username ` set (ac_users db)"
      "db' = db\<lparr>ac_users := ac_users db @ [inserted_user now name hash dn db], ac_user_seq := ac_user_seq db + 1\<rparr>"
proof (cases "username_ok name \<and> password_error pw = None \<and> gen (store_cost cost) pw \<noteq> None \<and> \<not> flt UCount \<and> \<not> flt UInsert \<and>
    name \<notin> us_Username ` set (ac_users db)")
  case True
  then obtain hash where h: "gen (store_cost cost) pw = Some hash" by blast
  from True have fresh: "\<not> (\<exists>u \<in> set (ac_users db). us_Username u = name)" by blast
  show thesis
    by (rule that(2) [of "(inserted_user now name hash dn db)\<lparr>us_PasswordHash := '''', us_CreatedAt := now, us_UpdatedAt := now\<rparr>" hash])
      (use assms True h fresh in \<open>simp_all add: CreateUser_def CountUsers_def Let_def inserted_user_def del: length_0_conv\<close>)
next
  case False
  then have "db' = db \<and> (\<exists>e. r = Inl e)"
    using assms
    by (fastforce simp: CreateUser_def CountUsers_def Let_def image_iff split: if_split_asm option.split_asm sum.split_asm)
  then show thesis using that(1) by blast
qed

lemma inserted_user_fields [simp]:
  "us_ID (inserted_user now name hash dn db) = ac_user_seq db + 1" "us_Username (inserted_user now name hash dn db) = name"
  "us_Role (inserted_user now name hash dn db) = ''admin'' \<longleftrightarrow> ac_users db = []"
  "us_PasswordHash (inserted_user now name hash dn db) = hash" "us_Email (inserted_user now name hash dn db) = None"
  by (simp_all add: inserted_user_def)

lemma CreateUser_inv: "ac_inv db \<Longrightarrow> CreateUser flt gen cost now name pw dn db = (r, db') \<Longrightarrow> ac_inv db'"
  by (erule CreateUser_cases) (simp_all add: new_user_inv)

lemma sessions_delete_inv: "ac_inv db \<Longrightarrow> ac_inv (db\<lparr>ac_sessions := delete_where P (ac_sessions db)\<rparr>)"
  by (auto simp: ac_inv_def users_inv_def sessions_inv_def delete_where_def distinct_map_filter)

lemma CreateSession_inv: "ac_inv db \<Longrightarrow> CreateSession flt now sid i life db = (r, db') \<Longrightarrow> ac_inv db'"
  by (auto simp: CreateSession_def Let_def ac_inv_def users_inv_def sessions_inv_def split: if_splits)

lemma delete_sessions_inv: "ac_inv db \<Longrightarrow> ac_inv (snd (delete_sessions f P db))"
  by (simp add: delete_sessions_def sessions_delete_inv)

lemma ac_inv_bg [simp]: "ac_inv (db\<lparr>ac_bg := b\<rparr>) = ac_inv db"
  by (rule ac_inv_cong) simp_all

lemma ac_inv_attempts [simp]: "ac_inv (db\<lparr>ac_attempts := a\<rparr>) = ac_inv db"
  by (rule ac_inv_cong) simp_all

lemma GetSession_inv: "GetSession flt now sid db = (r, db') \<Longrightarrow> ac_inv db' = ac_inv db"
  by (auto simp: GetSession_def split: if_splits option.splits)

lemma RequireSession_inv: "RequireSession flt now cookie db = (r, db') \<Longrightarrow> ac_inv db' = ac_inv db"
  by (auto simp: RequireSession_def split: option.splits if_splits prod.splits sum.splits dest: GetSession_inv)

lemma update_user_inv:
  "ac_inv db \<Longrightarrow> (\<And>u. us_ID (f u) = us_ID u) \<Longrightarrow> (\<And>u. us_Username (f u) = us_Username u) \<Longrightarrow> (\<And>u. us_Role (f u) = us_Role u) \<Longrightarrow>
     update_user failed i f db = (r, db') \<Longrightarrow> ac_inv db'"
  by (auto simp: update_user_def Let_def split: if_splits intro: user_update_inv)

lemma UpdatePassword_inv: "ac_inv db \<Longrightarrow> UpdatePassword flt gen cost now i pw db = (r, db') \<Longrightarrow> ac_inv db'"
  by (auto simp: UpdatePassword_def split: option.splits elim!: update_user_inv [rotated 4])

lemma UpdateDisplayName_inv: "ac_inv db \<Longrightarrow> UpdateDisplayName failed now i name db = (r, db') \<Longrightarrow> ac_inv db'"
  by (auto simp: UpdateDisplayName_def split: if_splits elim!: update_user_inv [rotated 4])

lemma SetEmail_inv: "ac_inv db \<Longrightarrow> ac_inv (snd (SetEmail failed now i email db))"
  by (auto simp: SetEmail_def intro: user_update_inv)

lemma isBlocked_inv: "isBlocked now ip db = (r, db') \<Longrightarrow> ac_inv db' = ac_inv db"
  by (auto simp: isBlocked_def split: option.splits if_splits)

lemma session_update_inv:
  assumes "ac_inv db" "\<And>w. ws_SessionID (f w) = ws_SessionID w" "\<And>w. ws_UserID (f w) = ws_UserID w"
  shows "ac_inv (db\<lparr>ac_sessions := update_where P f (ac_sessions db)\<rparr>)"
proof -
  have "map ws_SessionID (update_where P f (ac_sessions db)) = map ws_SessionID (ac_sessions db)"
    using assms(2) by (simp add: map_update_where)
  moreover have "ws_UserID w \<in> us_ID ` set (ac_users db)" if "w \<in> set (update_where P f (ac_sessions db))" for w
    using that assms(1,3) by (auto simp: update_where_def ac_inv_def sessions_inv_def)
  ultimately show ?thesis using assms(1) by (simp add: ac_inv_def users_inv_def sessions_inv_def)
qed

lemma run_bg_inv: "ac_inv db \<Longrightarrow> ac_inv (run_bg flt now b db)"
  by (cases b) (simp_all add: run_bg_def DeleteSession_def delete_sessions_inv session_update_inv)

lemma HandleRegister_inv: "ac_inv db \<Longrightarrow> ac_inv (snd (HandleRegister flt gen cfg now body db))"
  by (auto simp: HandleRegister_def split: option.splits prod.splits sum.splits dest: CreateUser_inv)

lemma HandleLogin_inv: "ac_inv db \<Longrightarrow> HandleLogin flt cmp cfg now ip body sid db = (r, db') \<Longrightarrow> ac_inv db'"
  by (auto simp: HandleLogin_def login_failure_def clearFailures_def Let_def split: option.splits prod.splits sum.splits
      dest: isBlocked_inv elim!: CreateSession_inv [rotated])

lemma handleAuthorizeLogin_inv:
  "ac_inv db \<Longrightarrow> handleAuthorizeLogin flt cmp cfg now name pw sid db = (r, db') \<Longrightarrow> ac_inv db'"
  by (auto simp: handleAuthorizeLogin_def split: prod.splits sum.splits elim!: CreateSession_inv [rotated])

lemma HandleLogout_inv: "ac_inv db \<Longrightarrow> ac_inv (snd (HandleLogout flt cookie db))"
  by (simp add: HandleLogout_def DeleteSession_def delete_sessions_inv split: option.split)

lemma HandleUpdateProfile_inv: "ac_inv db \<Longrightarrow> ac_inv (snd (HandleUpdateProfile flt now u body db))"
  by (auto simp: HandleUpdateProfile_def split: option.splits prod.splits sum.splits elim!: UpdateDisplayName_inv [rotated])

lemma HandleChangePassword_inv:
  "ac_inv db \<Longrightarrow> HandleChangePassword flt gen cmp cfg now u sid body db = (r, db') \<Longrightarrow> ac_inv db'"
  by (auto simp: HandleChangePassword_def DeleteSessionsByUserExcept_def
      split: option.splits prod.splits sum.splits if_splits elim!: UpdatePassword_inv [rotated] intro!: delete_sessions_inv)

lemma with_session_inv:
  assumes "ac_inv db" "\<And>u sid db0. ac_inv db0 \<Longrightarrow> ac_inv (snd (h u sid db0))"
  shows "ac_inv (snd (with_session flt now cookie h db))"
  using assms RequireSession_inv [of flt now cookie db] by (auto simp: with_session_def split: prod.split sum.split)

lemma acc_step_inv: "ac_inv db \<Longrightarrow> ac_inv (snd (acc_step op db))"
  by (cases op)
    (auto simp: HandleRegister_inv HandleLogout_inv HandleUpdateProfile_inv delete_sessions_inv CleanupExpired_def run_bg_inv
      split: prod.splits intro!: with_session_inv elim!: HandleLogin_inv [rotated] handleAuthorizeLogin_inv [rotated]
        HandleChangePassword_inv [rotated])

text \<open>User ids are never taken away, so identities keep their user.\<close>

definition user_ids :: "ac_db \<Rightarrow> id64 set" where
  "user_ids db = us_ID ` set (ac_users db)"

lemma user_ids_cong: "ac_users db' = ac_users db \<Longrightarrow> user_ids db' = user_ids db"
  by (simp add: user_ids_def)

lemma user_ids_update: "(\<And>u. us_ID (f u) = us_ID u) \<Longrightarrow> user_ids (db\<lparr>ac_users := update_where P f (ac_users db)\<rparr>) = user_ids db"
  by (simp add: user_ids_def flip: set_map add: map_update_where)

lemma user_ids_simps [simp]:
  "user_ids (db\<lparr>ac_bg := b\<rparr>) = user_ids db" "user_ids (db\<lparr>ac_attempts := a\<rparr>) = user_ids db"
  "user_ids (db\<lparr>ac_sessions := ss\<rparr>) = user_ids db" "user_ids (snd (delete_sessions f P db)) = user_ids db"
  by (simp_all add: user_ids_def delete_sessions_def)

lemma CreateUser_ids: "CreateUser flt gen cost now name pw dn db = (r, db') \<Longrightarrow> user_ids db \<subseteq> user_ids db'"
  by (erule CreateUser_cases) (auto simp: user_ids_def)

lemma CreateUser_Inr_id: "CreateUser flt gen cost now name pw dn db = (Inr u, db') \<Longrightarrow> us_ID u \<in> user_ids db'"
  by (erule CreateUser_cases) (auto simp: user_ids_def)

lemma CreateSession_users [dest]: "CreateSession flt now sid i life db = (r, db') \<Longrightarrow> ac_users db' = ac_users db"
  by (auto simp: CreateSession_def Let_def split: if_splits)

lemma isBlocked_users: "isBlocked now ip db = (r, db') \<Longrightarrow> ac_users db' = ac_users db"
  by (auto simp: isBlocked_def split: option.splits if_splits)

lemma RequireSession_users: "RequireSession flt now cookie db = (r, db') \<Longrightarrow> ac_users db' = ac_users db"
  by (auto simp: RequireSession_def GetSession_def split: option.splits if_splits prod.splits sum.splits)

lemma update_user_ids: "(\<And>u. us_ID (f u) = us_ID u) \<Longrightarrow> update_user failed i f db = (r, db') \<Longrightarrow> user_ids db' = user_ids db"
  by (auto simp: update_user_def Let_def user_ids_update split: if_splits)

lemma SetEmail_ids [simp]: "user_ids (snd (SetEmail failed now i email db)) = user_ids db"
  by (simp add: SetEmail_def user_ids_update)

lemma run_bg_ids [simp]: "user_ids (run_bg flt now b db) = user_ids db"
  by (cases b) (simp_all add: run_bg_def DeleteSession_def)

lemma UpdatePassword_ids: "UpdatePassword flt gen cost now i pw db = (r, db') \<Longrightarrow> user_ids db' = user_ids db"
  by (auto simp: UpdatePassword_def split: option.splits elim!: update_user_ids [rotated])

lemma UpdateDisplayName_ids: "UpdateDisplayName failed now i name db = (r, db') \<Longrightarrow> user_ids db' = user_ids db"
  by (auto simp: UpdateDisplayName_def split: if_splits elim!: update_user_ids [rotated])

lemma HandleRegister_ids: "user_ids db \<subseteq> user_ids (snd (HandleRegister flt gen cfg now body db))"
  by (auto simp: HandleRegister_def split: option.split prod.split sum.split dest: CreateUser_ids)

lemma HandleLogin_users: "HandleLogin flt cmp cfg now ip body sid db = (r, db') \<Longrightarrow> ac_users db' = ac_users db"
  by (auto simp: HandleLogin_def login_failure_def clearFailures_def Let_def split: option.splits prod.splits sum.splits
      dest!: isBlocked_users CreateSession_users)

lemma handleAuthorizeLogin_users: "handleAuthorizeLogin flt cmp cfg now name pw sid db = (r, db') \<Longrightarrow> ac_users db' = ac_users db"
  by (auto simp: handleAuthorizeLogin_def split: prod.splits sum.splits)

lemma HandleLogout_ids [simp]: "user_ids (snd (HandleLogout flt cookie db)) = user_ids db"
  by (simp add: HandleLogout_def DeleteSession_def split: option.split)

lemma HandleUpdateProfile_ids [simp]: "user_ids (snd (HandleUpdateProfile flt now u body db)) = user_ids db"
  by (auto simp: HandleUpdateProfile_def split: option.splits prod.splits sum.splits dest: UpdateDisplayName_ids)

lemma HandleChangePassword_ids: "HandleChangePassword flt gen cmp cfg now u sid body db = (r, db') \<Longrightarrow> user_ids db' = user_ids db"
  by (auto simp: HandleChangePassword_def DeleteSessionsByUserExcept_def
      split: option.split_asm prod.split_asm sum.split_asm if_split_asm elim: UpdatePassword_ids [THEN equalityD1, THEN subsetD]
        UpdatePassword_ids [THEN equalityD2, THEN subsetD])

lemma with_session_ids:
  assumes "\<And>u sid db0. user_ids (snd (h u sid db0)) = user_ids db0"
  shows "user_ids (snd (with_session flt now cookie h db)) = user_ids db"
proof (cases "RequireSession flt now cookie db")
  case (Pair r db0)
  then have "user_ids db0 = user_ids db" by (intro user_ids_cong) (rule RequireSession_users)
  with Pair assms show ?thesis by (simp add: with_session_def split: sum.split prod.split)
qed

lemma acc_step_ids: "user_ids db \<subseteq> user_ids (snd (acc_step op db))"
proof (cases op)
  case (SgRegister flt gen cfg now body)
  then show ?thesis by (simp add: HandleRegister_ids)
next
  case (SgPassword flt gen cmp cfg now cookie body)
  have "user_ids (snd (acc_step op db)) = user_ids db"
    unfolding SgPassword acc_step.simps by (rule with_session_ids) (simp add: HandleChangePassword_ids split: prod.split)
  then show ?thesis by simp
qed (auto simp: CleanupExpired_def with_session_ids split: prod.split
      dest!: HandleLogin_users handleAuthorizeLogin_users user_ids_cong)

text \<open>The tables of the identities, over a growing set of users.\<close>

definition ids_inv :: "id64 set \<Rightarrow> idp_db \<Rightarrow> bool" where
  "ids_inv us db \<longleftrightarrow> ids_ok ui_ID (ip_seq db) (ip_ids db) \<and> distinct (map (\<lambda>i. (ui_Provider i, ui_ExternalID i)) (ip_ids db)) \<and>
     (\<forall>i \<in> set (ip_ids db). ui_UserID i \<in> us)"

lemma sg_inv_eq: "sg_inv db \<longleftrightarrow> ac_inv (ip_acc db) \<and> ids_inv (user_ids (ip_acc db)) db"
  by (auto simp: sg_inv_def ids_inv_def user_ids_def)

lemma ids_inv_acc [simp]: "ids_inv us (db\<lparr>ip_acc := a\<rparr>) = ids_inv us db"
  by (simp add: ids_inv_def)

lemma ids_inv_mono: "ids_inv us db \<Longrightarrow> us \<subseteq> us' \<Longrightarrow> ids_inv us' db"
  by (auto simp: ids_inv_def)

lemma sg_inv_acc: "sg_inv db \<Longrightarrow> ac_inv acc \<Longrightarrow> user_ids (ip_acc db) \<subseteq> user_ids acc \<Longrightarrow> sg_inv (db\<lparr>ip_acc := acc\<rparr>)"
  by (auto simp: sg_inv_eq intro: ids_inv_mono)

lemma identity_Create_acc: "ip_acc (snd (identity_Create failed now i ext db)) = ip_acc db"
  by (simp add: identity_Create_def)

lemma identity_Create_inv:
  assumes "sg_inv db"
  shows "sg_inv (snd (identity_Create failed now i ext db))"
proof -
  let ?row = "\<lparr>ui_ID = ip_seq db + 1, ui_UserID = i, ui_Provider = ex_ProviderID ext, ui_ExternalID = ex_ExternalID ext,
    ui_Email = ex_Email ext, ui_DisplayName = ex_Name ext, ui_RawClaims = ex_RawClaims ext, ui_CreatedAt = sql_now now\<rparr>"
  have "ids_ok ui_ID (ip_seq db + 1) (ip_ids db @ [?row])" using assms by (simp add: sg_inv_def ids_ok_append)
  then show ?thesis using assms
    by (auto simp: identity_Create_def sg_inv_eq ids_inv_def user_ids_def simp del: append_Cons)
qed

lemma create_named_step:
  assumes "create_named flt gen cost now name suffix pw dn acc = (r, acc')" "ac_inv acc"
  shows "ac_inv acc' \<and> user_ids acc \<subseteq> user_ids acc'"
  using assms
  by (fastforce simp: create_named_def split: prod.splits sum.splits if_splits dest: CreateUser_ids CreateUser_inv)

lemma findOrCreateUser_inv:
  assumes "sg_inv db" "findOrCreateUser flt gen cost now pw suffix ext db = (r, db')"
  shows "sg_inv db'"
proof -
  have created: "sg_inv (snd (identity_Create f now i ext (db\<lparr>ip_acc := acc'\<rparr>)))" and created0: "sg_inv (db\<lparr>ip_acc := acc'\<rparr>)"
    if "create_named flt gen cost now name suffix pw dn (ip_acc db) = (x, acc)"
      "acc' = (if e then snd (SetEmail g now j email acc) else acc)" for f i acc' name dn x acc e g j email
  proof -
    from create_named_step [OF that(1)] assms(1) have "ac_inv acc'" "user_ids (ip_acc db) \<subseteq> user_ids acc'"
      by (auto simp: that(2) sg_inv_eq SetEmail_inv)
    with assms(1) show "sg_inv (db\<lparr>ip_acc := acc'\<rparr>)" by (rule sg_inv_acc)
    then show "sg_inv (snd (identity_Create f now i ext (db\<lparr>ip_acc := acc'\<rparr>)))" by (rule identity_Create_inv)
  qed
  from created0 [where e = False] have failed: "sg_inv (db\<lparr>ip_acc := acc\<rparr>)"
    if "create_named flt gen cost now name suffix pw dn (ip_acc db) = (x, acc)" for name dn x acc
    using that by simp
  show ?thesis
    using assms
    by (simp add: findOrCreateUser_def Let_def identity_Create_inv
        split: sum.split_asm option.split_asm if_split_asm prod.split_asm)
      (auto simp: identity_Create_inv failed created [OF _ refl] dest: failed created [where e = False, simplified] created [where e = True, simplified])
qed

lemma HandleCallback_inv:
  assumes "sg_inv db" "HandleCallback flt gen cost now known sc st err code ex pw suffix sid db = (r, db')"
  shows "sg_inv db'"
proof -
  have session: "sg_inv (db1\<lparr>ip_acc := acc\<rparr>)"
    if "sg_inv db1" "CreateSession f now sid i life (ip_acc db1) = (x, acc)" for db1 f i life x acc
    using that CreateSession_inv [OF _ that(2)] CreateSession_users [OF that(2)]
    by (intro sg_inv_acc) (auto simp: sg_inv_eq user_ids_def)
  show ?thesis
    using assms
    by (auto simp: HandleCallback_def split: if_split_asm option.split_asm sum.split_asm prod.split_asm
        dest: findOrCreateUser_inv session)
qed

lemma local_step_inv: "sg_inv db \<Longrightarrow> sg_inv (db\<lparr>ip_acc := snd (acc_step op (ip_acc db))\<rparr>)"
  by (rule sg_inv_acc) (simp_all add: sg_inv_eq acc_step_inv acc_step_ids)

lemma sg_exec_inv: "sg_inv db \<Longrightarrow> sg_inv (sg_exec op db)"
proof (cases op)
  case (SgCallback flt gen cost now known sc st err code ex pw suffix sid)
  assume "sg_inv db"
  then show ?thesis by (auto simp: SgCallback sg_exec_def split: prod.split dest: HandleCallback_inv)
qed (simp_all add: sg_exec_def case_prod_unfold local_step_inv del: acc_step.simps)

interpretation sign_in: invariant_system sg_exec sg_inv
  by unfold_locales (rule sg_exec_inv)

section \<open>Where an accepted session comes from\<close>

text \<open>What the caller of an operation that opens a session for user \<open>i\<close> has proved.\<close>

definition password_proved :: "(string \<Rightarrow> string \<Rightarrow> bool) \<Rightarrow> string \<Rightarrow> string \<Rightarrow> id64 \<Rightarrow> ac_db \<Rightarrow> bool" where
  "password_proved cmp name pw i db \<longleftrightarrow>
     (\<exists>u \<in> set (ac_users db). us_ID u = i \<and> us_Username u = name \<and> cmp (us_PasswordHash u) pw)"

definition external_proved :: "ExternalUser \<Rightarrow> id64 \<Rightarrow> idp_db \<Rightarrow> bool" where
  "external_proved ext i db \<longleftrightarrow>
     (\<exists>l \<in> set (ip_ids db). ui_Provider l = ex_ProviderID ext \<and> ui_ExternalID l = ex_ExternalID ext \<and> ui_UserID l = i) \<or>
     ex_Email ext \<noteq> '''' \<and> (\<exists>u \<in> set (ac_users (ip_acc db)). us_ID u = i \<and> us_Email u = Some (ex_Email ext)) \<or>
     i \<notin> user_ids (ip_acc db)"

fun proved :: "sg_op \<Rightarrow> idp_db \<Rightarrow> id64 \<Rightarrow> bool" where
  "proved (SgLogin flt cmp cfg now ip body sid) db i =
     (case body of None \<Rightarrow> False | Some (name, pw) \<Rightarrow> password_proved cmp name pw i (ip_acc db))"
| "proved (SgAuthorize flt cmp cfg now name pw sid) db i = password_proved cmp name pw i (ip_acc db)"
| "proved (SgCallback flt gen cost now known stateCookie st err code exchange pw suffix sid) db i =
     (stateCookie = Some st \<and> (case exchange code of None \<Rightarrow> False | Some ext \<Rightarrow> external_proved ext i db))"
| "proved _ db i = False"

text \<open>The sessions as triples of id, user and expiry, and the events of a run.\<close>

definition keys :: "ac_db \<Rightarrow> (string \<times> id64 \<times> timestamp) set" where
  "keys db = (\<lambda>s. (ws_SessionID s, ws_UserID s, ws_ExpiresAt s)) ` set (ac_sessions db)"

fun sg_events :: "sg_op list \<Rightarrow> idp_db \<Rightarrow> sg_event list" where
  "sg_events [] db = []"
| "sg_events (op # ops) db = fst (sg_step op db) @ sg_events ops (sg_exec op db)"

lemma sg_events_append: "sg_events (xs @ ys) db = sg_events xs db @ sg_events ys (fold sg_exec xs db)"
  by (induction xs arbitrary: db) simp_all

definition surviving :: "sg_event list \<Rightarrow> (string \<times> id64 \<times> timestamp) set \<Rightarrow> (string \<times> id64 \<times> timestamp) set" where
  "surviving es ks = {(sid, i, e) \<in> ks. list_all (\<lambda>ev. \<not> closes sid i ev) es} \<union> {(sid, i, e). SeOpened sid i e \<in> set es}"

lemma keys_simps [simp]:
  "keys (db\<lparr>ac_bg := b\<rparr>) = keys db" "keys (db\<lparr>ac_attempts := a\<rparr>) = keys db" "keys (db\<lparr>ac_users := us\<rparr>) = keys db"
  "keys (db\<lparr>ac_user_seq := n\<rparr>) = keys db"
  by (simp_all add: keys_def)

lemma surviving_none [simp]: "surviving [] ks = ks"
  by (auto simp: surviving_def)

lemma keys_delete:
  "keys (snd (delete_sessions f P db)) =
     (if f then keys db else (\<lambda>s. (ws_SessionID s, ws_UserID s, ws_ExpiresAt s)) ` {s \<in> set (ac_sessions db). \<not> P s})"
  by (auto simp: keys_def delete_sessions_def delete_where_def)

lemma keys_delete_subset: "keys (snd (delete_sessions f P db)) \<subseteq> keys db"
  by (auto simp: keys_delete) (auto simp: keys_def)

lemma CreateSession_keys:
  assumes "CreateSession flt now sid i life db = (r, db')"
  shows "keys db' = (case r of Inl _ \<Rightarrow> keys db | Inr s \<Rightarrow> insert (sid, i, now + life) (keys db))"
    and "r = Inr s \<Longrightarrow> ws_SessionID s = sid"
  using assms by (auto simp: CreateSession_def Let_def keys_def split: if_splits)

lemma GetSession_keys [dest]: "GetSession flt now sid db = (r, db') \<Longrightarrow> keys db' = keys db"
  by (auto simp: GetSession_def split: if_splits option.splits)

lemma RequireSession_keys: "RequireSession flt now cookie db = (r, db') \<Longrightarrow> keys db' = keys db"
  by (auto simp: RequireSession_def split: option.splits if_splits prod.splits sum.splits)

lemma isBlocked_keys: "isBlocked now ip db = (r, db') \<Longrightarrow> keys db' = keys db"
  by (auto simp: isBlocked_def split: option.splits if_splits)

lemma update_user_keys: "update_user failed i f db = (r, db') \<Longrightarrow> keys db' = keys db"
  by (auto simp: update_user_def Let_def split: if_splits)

lemma CreateUser_keys: "CreateUser flt gen cost now name pw dn db = (r, db') \<Longrightarrow> keys db' = keys db"
  by (erule CreateUser_cases) simp_all

lemma UpdatePassword_keys: "UpdatePassword flt gen cost now i pw db = (r, db') \<Longrightarrow> keys db' = keys db"
  by (auto simp: UpdatePassword_def split: option.split_asm elim: update_user_keys [THEN equalityD1, THEN subsetD]
      update_user_keys [THEN equalityD2, THEN subsetD])

lemma UpdateDisplayName_keys: "UpdateDisplayName failed now i name db = (r, db') \<Longrightarrow> keys db' = keys db"
  by (auto simp: UpdateDisplayName_def split: if_split_asm elim: update_user_keys [THEN equalityD1, THEN subsetD]
      update_user_keys [THEN equalityD2, THEN subsetD])

lemma RequireSession_Inr:
  assumes "RequireSession flt now (Some sid) db = (Inr (u, sid'), db')"
  shows "sid' = sid" and "\<exists>e. (sid, us_ID u, e) \<in> keys db \<and> now \<le> e" and "u \<in> set (ac_users db)"
  using assms
  by (auto simp: RequireSession_def GetSession_def GetUserByID_def get_user_def keys_def image_iff
      split: if_split_asm option.split_asm sum.split_asm prod.split_asm dest!: find_row_Some)

text \<open>Every operation leaves the sessions that no event closes and adds those it announces.\<close>

lemma keys_same: "keys db' = keys db \<Longrightarrow> keys db' \<subseteq> surviving [] (keys db)"
  by simp

lemma opened_keys:
  assumes "CreateSession flt now sid i life db = (Inr s, db')" "us_ID u = i" "keys db = ks"
    "hp_Cookie r = CookieSet (ws_SessionID s) n" "hp_User r = Some u" "e = now + life"
  shows "keys db' \<subseteq> surviving (opened e r) ks"
  using CreateSession_keys [OF assms(1)] assms(2-) by (auto simp: opened_def surviving_def)

lemma HandleLogin_keys:
  assumes "HandleLogin flt cmp cfg now ip body sid db = (r, db')"
  shows "keys db' \<subseteq> surviving (opened (now + cf_SessionLifetime cfg) r) (keys db)"
proof (cases "\<exists>s n. hp_Cookie r = CookieSet s n")
  case True
  with assms show ?thesis
    by (auto simp: HandleLogin_def answer_def clearFailures_def split: option.split_asm sum.split_asm prod.split_asm
        elim!: opened_keys [THEN subsetD, rotated -1] dest: isBlocked_keys)
next
  case False
  then have "opened (now + cf_SessionLifetime cfg) r = []" by (cases "hp_Cookie r") (simp_all add: opened_def)
  moreover have "keys db' = keys db"
    using assms False
    by (auto simp: HandleLogin_def login_failure_def clearFailures_def Let_def
        split: option.split_asm sum.split_asm prod.split_asm dest!: isBlocked_keys CreateSession_keys)
  ultimately show ?thesis by simp
qed

lemma handleAuthorizeLogin_keys:
  assumes "handleAuthorizeLogin flt cmp cfg now name pw sid db = (r, db')"
  shows "keys db' \<subseteq> surviving (opened (now + cf_SessionLifetime cfg) r) (keys db)"
proof (cases "\<exists>s n. hp_Cookie r = CookieSet s n")
  case True
  with assms show ?thesis
    by (auto simp: handleAuthorizeLogin_def answer_def split: sum.split_asm prod.split_asm
        elim!: opened_keys [THEN subsetD, rotated -1])
next
  case False
  then have "opened (now + cf_SessionLifetime cfg) r = []" by (cases "hp_Cookie r") (simp_all add: opened_def)
  moreover have "keys db' = keys db"
    using assms False
    by (auto simp: handleAuthorizeLogin_def split: sum.split_asm prod.split_asm dest!: CreateSession_keys)
  ultimately show ?thesis by simp
qed

lemma findOrCreateUser_keys:
  assumes "findOrCreateUser flt gen cost now pw suffix ext db = (r, db')"
  shows "keys (ip_acc db') = keys (ip_acc db)"
proof -
  have named: "keys acc' = keys acc" if "create_named f gen cost now name suffix pw dn acc = (x, acc')" for f name dn acc x acc'
    using that by (auto simp: create_named_def split: prod.split_asm sum.split_asm if_split_asm dest!: CreateUser_keys)
  have email: "keys (snd (SetEmail f now i e acc)) = keys acc" for f i e acc by (simp add: SetEmail_def)
  from assms show ?thesis
    by (auto simp: findOrCreateUser_def Let_def identity_Create_acc email
        split: sum.split_asm option.split_asm if_split_asm prod.split_asm dest: named)
qed

lemma HandleCallback_keys:
  assumes "HandleCallback flt gen cost now known sc st err code ex pw suffix sid db = (r, db')"
  shows "keys (ip_acc db') \<subseteq> surviving (opened (now + 24 * 3600 * nanosec) r) (keys (ip_acc db))"
proof (cases "\<exists>s n. hp_Cookie r = CookieSet s n")
  case True
  with assms show ?thesis
    by (auto simp: HandleCallback_def answer_def split: sum.split_asm prod.split_asm if_split_asm option.split_asm
        elim!: opened_keys [THEN subsetD, rotated -1] dest: findOrCreateUser_keys)
next
  case False
  then have "opened (now + 24 * 3600 * nanosec) r = []" by (cases "hp_Cookie r") (simp_all add: opened_def)
  moreover have "keys (ip_acc db') = keys (ip_acc db)"
    using assms False
    by (auto simp: HandleCallback_def split: sum.split_asm prod.split_asm if_split_asm option.split_asm
        dest!: CreateSession_keys findOrCreateUser_keys)
  ultimately show ?thesis by simp
qed

lemma RequireSession_cookie:
  assumes "RequireSession flt now cookie db = (Inr (u, sid), db')"
  shows "cookie = Some sid" "sid \<noteq> ''''"
proof -
  from assms obtain c where c: "cookie = Some c" "c \<noteq> ''''" by (auto simp: RequireSession_def split: option.splits if_splits)
  with RequireSession_Inr(1) [OF assms [unfolded c(1)]] show "cookie = Some sid" "sid \<noteq> ''''" by simp_all
qed

lemma with_session_keys:
  assumes "\<And>u sid db0. cookie = Some sid \<Longrightarrow> sid \<noteq> '''' \<Longrightarrow> keys (snd (h u sid db0)) \<subseteq> surviving (fst (h u sid db0)) (keys db0)"
  shows "keys (snd (with_session flt now cookie h db)) \<subseteq> surviving (fst (with_session flt now cookie h db)) (keys db)"
proof (cases "RequireSession flt now cookie db")
  case (Pair r db0)
  show ?thesis
  proof (cases r)
    case (Inl st)
    then show ?thesis using Pair RequireSession_keys [OF Pair] by (simp add: with_session_def)
  next
    case (Inr p)
    obtain u sid where p: "p = (u, sid)" by (cases p)
    have sid: "cookie = Some sid" "sid \<noteq> ''''" using RequireSession_cookie [of flt now cookie db u sid db0] Pair Inr p by simp_all
    have "keys db0 = keys db" using Pair by (rule RequireSession_keys)
    then show ?thesis using assms [OF sid, of u db0] by (simp add: with_session_def Pair Inr p)
  qed
qed

lemma HandleLogout_keys:
  "keys (snd (HandleLogout flt (Some sid) db)) \<subseteq> surviving (if flt SDelete then [] else [SeClosed sid]) (keys db)" if "sid \<noteq> ''''"
  using that by (auto simp: HandleLogout_def DeleteSession_def keys_delete surviving_def) (auto simp: keys_def)

lemma HandleChangePassword_keys:
  assumes "HandleChangePassword flt gen cmp cfg now (Some u) (Some sid) body db = (r, db')"
  shows "keys db' \<subseteq> surviving (if hp_Status r = 200 \<and> \<not> flt SDeleteExcept then [SeClosedOthers (us_ID u) sid] else []) (keys db)"
proof -
  have others: "keys (snd (DeleteSessionsByUserExcept flt (us_ID u) sid db1)) \<subseteq>
      surviving (if flt SDeleteExcept then [] else [SeClosedOthers (us_ID u) sid]) (keys db1)" for db1
    by (auto simp: DeleteSessionsByUserExcept_def keys_delete surviving_def) (auto simp: keys_def)
  have updated: "keys db1 = keys db" if "UpdatePassword flt gen cost now i pw db = (x, db1)" for cost i pw x db1
    using that by (rule UpdatePassword_keys)
  show ?thesis
  proof (cases "hp_Status r = 200")
    case False
    then have "keys db' = keys db"
      using assms by (auto simp: HandleChangePassword_def answer_def split: option.split_asm sum.split_asm prod.split_asm dest: updated)
    then show ?thesis using False by simp
  next
    case True
    then obtain db1 x pw cost where "UpdatePassword flt gen cost now (us_ID u) pw db = (x, db1)"
      "db' = snd (DeleteSessionsByUserExcept flt (us_ID u) sid db1)"
      using assms by (auto simp: HandleChangePassword_def answer_def split: option.split_asm sum.split_asm prod.split_asm if_split_asm)
    then show ?thesis using others [of db1] updated True by auto
  qed
qed

lemma run_bg_keys: "keys (run_bg flt now b db) \<subseteq> keys db"
proof (cases b)
  case (BgBump sid)
  then show ?thesis by (auto simp: run_bg_def keys_def update_where_def)
qed (simp add: run_bg_def DeleteSession_def keys_delete_subset)

lemma acc_step_keys: "keys (snd (acc_step op db)) \<subseteq> surviving (fst (acc_step op db)) (keys db)"
proof (cases op)
  case (SgRegister flt gen cfg now body)
  have "keys (snd (HandleRegister flt gen cfg now body db)) = keys db"
    by (auto simp: HandleRegister_def split: option.split prod.split sum.split dest: CreateUser_keys)
  then show ?thesis using SgRegister by simp
next
  case (SgLogout flt now cookie)
  show ?thesis unfolding SgLogout acc_step.simps
  proof (rule with_session_keys)
    fix u :: User and sid db0
    assume "cookie = Some sid" "sid \<noteq> ''''"
    then show "keys (snd (if flt SDelete then [] else [SeClosed sid], snd (HandleLogout flt cookie db0))) \<subseteq>
        surviving (fst (if flt SDelete then [] else [SeClosed sid], snd (HandleLogout flt cookie db0))) (keys db0)"
      using HandleLogout_keys [of sid flt db0] by simp
  qed
next
  case (SgProfile flt now cookie body)
  have "keys (snd (HandleUpdateProfile flt now (Some u) body db0)) = keys db0" for u db0
    by (auto simp: HandleUpdateProfile_def split: option.split prod.split sum.split dest: UpdateDisplayName_keys)
  then show ?thesis unfolding SgProfile acc_step.simps by (intro with_session_keys) simp
next
  case (SgPassword flt gen cmp cfg now cookie body)
  show ?thesis unfolding SgPassword acc_step.simps
  proof (rule with_session_keys)
    fix u sid db0
    obtain r db1 where h: "HandleChangePassword flt gen cmp cfg now (Some u) (Some sid) body db0 = (r, db1)" by fastforce
    show "keys (snd (case HandleChangePassword flt gen cmp cfg now (Some u) (Some sid) body db0 of
          (r, db') \<Rightarrow> (if hp_Status r = 200 \<and> \<not> flt SDeleteExcept then [SeClosedOthers (us_ID u) sid] else [], db'))) \<subseteq>
        surviving (fst (case HandleChangePassword flt gen cmp cfg now (Some u) (Some sid) body db0 of
          (r, db') \<Rightarrow> (if hp_Status r = 200 \<and> \<not> flt SDeleteExcept then [SeClosedOthers (us_ID u) sid] else [], db'))) (keys db0)"
      using HandleChangePassword_keys [OF h] by (simp add: h)
  qed
qed (auto simp: CleanupExpired_def split: prod.split dest: keys_delete_subset [THEN subsetD] run_bg_keys [THEN subsetD]
      intro!: with_session_keys dest!: HandleLogin_keys handleAuthorizeLogin_keys)

lemma sg_step_keys: "keys (ip_acc (sg_exec op db)) \<subseteq> surviving (fst (sg_step op db)) (keys (ip_acc db))"
proof (cases op)
  case (SgCallback flt gen cost now known sc st err code ex pw suffix sid)
  then show ?thesis using HandleCallback_keys by (auto simp: sg_exec_def split: prod.split)
qed (use acc_step_keys in \<open>simp_all add: sg_exec_def case_prod_unfold del: acc_step.simps\<close>)

text \<open>Who opens a session has proved something.\<close>

lemma VerifyPassword_Inr:
  assumes "VerifyPassword flt cmp name pw db = Inr u"
  shows "u \<in> set (ac_users db)" "us_Username u = name" "cmp (us_PasswordHash u) pw"
  using assms
  by (auto simp: VerifyPassword_def GetUserByUsername_def get_user_def split: sum.split_asm if_split_asm option.split_asm
      dest!: find_row_Some)

lemma VerifyPassword_proved:
  assumes "VerifyPassword flt cmp name pw db = Inr u" "ac_users db = ac_users db0"
  shows "password_proved cmp name pw (us_ID u) db0"
  using VerifyPassword_Inr [OF assms(1)] assms(2) by (auto simp: password_proved_def)

lemma opened_mem: "SeOpened sid i e \<in> set (opened e' r) \<longleftrightarrow> (\<exists>n u. hp_Cookie r = CookieSet sid n \<and> hp_User r = Some u \<and> us_ID u = i \<and> e = e')"
  by (cases "hp_Cookie r"; cases "hp_User r") (auto simp: opened_def)

lemma HandleLogin_proved:
  assumes "HandleLogin flt cmp cfg now ip body sid' db = (r, db')" "SeOpened sid i e \<in> set (opened e' r)"
  shows "\<exists>name pw. body = Some (name, pw) \<and> password_proved cmp name pw i db"
  using assms
  by (auto simp: HandleLogin_def opened_mem answer_def split: option.split_asm sum.split_asm prod.split_asm
      elim!: VerifyPassword_proved isBlocked_users)

lemma handleAuthorizeLogin_proved:
  assumes "handleAuthorizeLogin flt cmp cfg now name pw sid' db = (r, db')" "SeOpened sid i e \<in> set (opened e' r)"
  shows "password_proved cmp name pw i db"
  using assms
  by (auto simp: handleAuthorizeLogin_def opened_mem answer_def split: sum.split_asm prod.split_asm
      elim!: VerifyPassword_proved)

lemma create_named_fresh:
  assumes "create_named flt gen cost now name suffix pw dn acc = (Inr u, acc')" "ac_inv acc"
  shows "us_ID u \<notin> user_ids acc"
proof -
  have fresh: "ac_user_seq acc + 1 \<notin> user_ids acc"
    using assms(2) ids_ok_fresh by (fastforce simp: user_ids_def ac_inv_def users_inv_def)
  have same: "us_ID v = ac_user_seq acc + 1" if "CreateUser f gen cost now n pw dn acc = (Inr v, acc1)" for f n v acc1
    using that by (rule CreateUser_cases) simp_all
  have unchanged: "acc1 = acc" if "CreateUser f gen cost now n pw dn acc = (Inl e, acc1)" for f n e acc1
    using that by (rule CreateUser_cases) simp_all
  show ?thesis
    using assms(1) fresh
    by (auto simp: create_named_def split: prod.split_asm sum.split_asm if_split_asm dest!: same unchanged)
qed

lemma findOrCreateUser_proved:
  assumes "findOrCreateUser flt gen cost now pw suffix ext db = (Inr u, db')" "sg_inv db"
  shows "external_proved ext (us_ID u) db"
proof -
  have created: "us_ID v \<notin> user_ids (ip_acc db)"
    if "create_named flt gen cost now name suffix pw dn (ip_acc db) = (Inr v, acc)" for name dn v acc
    using create_named_fresh [OF that] assms(2) by (simp add: sg_inv_eq)
  from assms(1) show ?thesis
    by (auto simp: findOrCreateUser_def FindByProvider_def GetUserByID_def GetUserByEmail_def get_user_def Let_def external_proved_def
        split: if_split_asm option.split_asm sum.split_asm prod.split_asm dest!: find_row_Some created)
qed

lemma HandleCallback_proved:
  assumes "HandleCallback flt gen cost now known sc st err code ex pw suffix sid' db = (r, db')"
    "SeOpened sid i e \<in> set (opened e' r)" "sg_inv db"
  shows "\<exists>ext. sc = Some st \<and> ex code = Some ext \<and> external_proved ext i db"
  using assms
  by (auto simp: HandleCallback_def opened_mem answer_def split: if_split_asm option.split_asm sum.split_asm prod.split_asm
      dest: findOrCreateUser_proved)

lemma with_session_unopened:
  assumes "\<And>u s db0. SeOpened sid i e \<notin> set (fst (h u s db0))"
  shows "SeOpened sid i e \<notin> set (fst (with_session flt now cookie h db))"
  using assms by (simp add: with_session_def split: prod.split sum.split)

lemma sg_step_proved:
  assumes "SeOpened sid i e \<in> set (fst (sg_step op db))" "sg_inv db"
  shows "proved op db i"
proof (cases op)
  case (SgLogin flt cmp cfg now ip body sid')
  then show ?thesis using assms(1) by (auto split: prod.split_asm dest!: HandleLogin_proved)
next
  case (SgAuthorize flt cmp cfg now name pw sid')
  then show ?thesis using assms(1) by (auto split: prod.split_asm dest!: handleAuthorizeLogin_proved)
next
  case (SgCallback flt gen cost now known sc st err code ex pw suffix sid')
  then show ?thesis using assms by (auto split: prod.split_asm dest!: HandleCallback_proved)
next
  case (SgLogout flt now cookie)
  then show ?thesis using assms(1) by (simp add: with_session_unopened case_prod_unfold)
next
  case (SgProfile flt now cookie body)
  then show ?thesis using assms(1) by (simp add: with_session_unopened case_prod_unfold)
next
  case (SgPassword flt gen cmp cfg now cookie body)
  then show ?thesis using assms(1) by (simp add: with_session_unopened case_prod_unfold)
next
  case (SgRequest flt now cookie)
  then show ?thesis using assms(1) by (simp add: with_session_unopened case_prod_unfold)
qed (use assms(1) in \<open>simp_all add: case_prod_unfold\<close>)

lemma keys_origin:
  assumes "(sid, i, e) \<in> keys (ip_acc (fold sg_exec ops idp_empty))"
  shows "\<exists>pre op post. ops = pre @ op # post \<and> proved op (fold sg_exec pre idp_empty) i \<and>
    SeOpened sid i e \<in> set (fst (sg_step op (fold sg_exec pre idp_empty))) \<and>
    list_all (\<lambda>ev. \<not> closes sid i ev) (sg_events post (fold sg_exec (pre @ [op]) idp_empty))"
  using assms
proof (induction ops rule: rev_induct)
  case Nil
  then show ?case by (simp add: keys_def idp_empty_def)
next
  case (snoc op ops)
  let ?db = "fold sg_exec ops idp_empty"
  have inv: "sg_inv ?db" using idp_empty_inv by (rule sign_in.run_inv)
  from snoc.prems have "(sid, i, e) \<in> surviving (fst (sg_step op ?db)) (keys (ip_acc ?db))"
    using sg_step_keys by fastforce
  then consider "SeOpened sid i e \<in> set (fst (sg_step op ?db))"
    | "(sid, i, e) \<in> keys (ip_acc ?db)" "list_all (\<lambda>ev. \<not> closes sid i ev) (fst (sg_step op ?db))"
    by (auto simp: surviving_def)
  then show ?case
  proof cases
    case 1
    then show ?thesis using sg_step_proved [OF 1 inv] by (intro exI [of _ ops] exI [of _ op] exI [of _ "[]"]) simp
  next
    case 2
    from snoc.IH [OF 2(1)] obtain pre op' post where o: "ops = pre @ op' # post" "proved op' (fold sg_exec pre idp_empty) i"
      "SeOpened sid i e \<in> set (fst (sg_step op' (fold sg_exec pre idp_empty)))"
      "list_all (\<lambda>ev. \<not> closes sid i ev) (sg_events post (fold sg_exec (pre @ [op']) idp_empty))" by blast
    then show ?thesis using 2(2)
      by (intro exI [of _ pre] exI [of _ op'] exI [of _ "post @ [op]"]) (simp add: sg_events_append)
  qed
qed

text \<open>
  C6. A session cookie is accepted only for the user it was opened for, and only when an earlier operation opened it
  after proving that user (the password matched, or the identity provider vouched for a linked identity, for the
  user's mail address or for a new user), it has not expired, and nothing since logged it out or revoked it.
\<close>

theorem session_authentic:
  assumes "RequireSession flt now (Some sid) (ip_acc (fold sg_exec ops idp_empty)) = (Inr (u, sid'), db')"
  shows "sid' = sid \<and> u \<in> set (ac_users (ip_acc (fold sg_exec ops idp_empty))) \<and>
    (\<exists>pre op post e. ops = pre @ op # post \<and> now \<le> e \<and> proved op (fold sg_exec pre idp_empty) (us_ID u) \<and>
       SeOpened sid (us_ID u) e \<in> set (fst (sg_step op (fold sg_exec pre idp_empty))) \<and>
       list_all (\<lambda>ev. \<not> closes sid (us_ID u) ev) (sg_events post (fold sg_exec (pre @ [op]) idp_empty)))"
proof -
  from RequireSession_Inr(2) [OF assms] obtain e where "(sid, us_ID u, e) \<in> keys (ip_acc (fold sg_exec ops idp_empty))" "now \<le> e"
    by blast
  then show ?thesis using keys_origin [of sid "us_ID u" e ops] RequireSession_Inr(1,3) [OF assms] by metis
qed

text \<open>A small run: two users, a login, an external login and a changed password.\<close>

definition demo_cfg :: AuthConfig where
  "demo_cfg = DefaultConfig"

definition demo_gen :: "int \<Rightarrow> string \<Rightarrow> string option" where
  "demo_gen cost p = Some (''$2a$'' @ p)"

definition demo_cmp :: "string \<Rightarrow> string \<Rightarrow> bool" where
  "demo_cmp h p = (h = ''$2a$'' @ p)"

definition demo_signins :: "sg_op list" where
  "demo_signins =
     [SgRegister (\<lambda>_. False) demo_gen demo_cfg 0 (Some (''alice'', ''correct horse'', '''')),
      SgRegister (\<lambda>_. False) demo_gen demo_cfg 1 (Some (''bob'', ''battery staple'', ''Bob'')),
      SgLogin (\<lambda>_. False) demo_cmp demo_cfg 2 ''10.0.0.1'' (Some (''alice'', ''correct horse'')) ''s1'',
      SgLogin (\<lambda>_. False) demo_cmp demo_cfg 3 ''10.0.0.2'' (Some (''alice'', ''correct horse'')) ''s2'',
      SgPassword (\<lambda>_. False) demo_gen demo_cmp demo_cfg 4 (Some ''s1'') (Some (''correct horse'', ''new password''))]"

lemma demo_signins_session:
  "RequireSession (\<lambda>_. False) 5 (Some ''s1'') (ip_acc (fold sg_exec demo_signins idp_empty)) =
     (Inr (hd (ac_users (ip_acc (fold sg_exec demo_signins idp_empty))), ''s1''),
      snd (RequireSession (\<lambda>_. False) 5 (Some ''s1'') (ip_acc (fold sg_exec demo_signins idp_empty))))"
proof (rule prod_eqI)
  show "fst (RequireSession (\<lambda>_. False) 5 (Some ''s1'') (ip_acc (fold sg_exec demo_signins idp_empty))) =
      fst (Inr (hd (ac_users (ip_acc (fold sg_exec demo_signins idp_empty))), ''s1''),
        snd (RequireSession (\<lambda>_. False) 5 (Some ''s1'') (ip_acc (fold sg_exec demo_signins idp_empty))))"
    by code_simp
qed simp

theorem session_authentic_witness:
  "\<exists>pre op post. demo_signins = pre @ op # post \<and>
     proved op (fold sg_exec pre idp_empty) (us_ID (hd (ac_users (ip_acc (fold sg_exec demo_signins idp_empty)))))"
  using session_authentic [OF demo_signins_session] by blast

section \<open>The accounts\<close>

text \<open>
  In every reachable state user ids and names are unique, every name is valid, exactly the first account has the
  admin role, every session and linked identity belongs to an existing user, and a provider's external id is
  linked to one user only.
\<close>

theorem accounts_invariant: "sg_inv (fold sg_exec ops idp_empty)"
  using idp_empty_inv by (rule sign_in.run_inv)

text \<open>
  After a password was changed, the new password and no other one verifies for that user, and (unless deleting failed,
  which the handler does not report) the only session of that user that is still accepted is the one that made
  the change.
\<close>

theorem change_password_outcome:
  assumes "ac_inv db" "u \<in> set (ac_users db)" "\<And>c p h q. gen c p = Some h \<Longrightarrow> cmp h q = (q = p)"
    and "HandleChangePassword flt gen cmp cfg now (Some u) (Some sid) body db = (r, db')" "hp_Status r = 200"
  shows "\<exists>cur new. body = Some (cur, new) \<and> password_proved cmp (us_Username u) cur (us_ID u) db \<and>
    8 \<le> length new \<and> length new \<le> 72 \<and>
    map (\<lambda>q. \<not> isl (VerifyPassword (\<lambda>_. False) cmp (us_Username u) q db')) tries = map (\<lambda>q. q = new) tries \<and>
    filter (\<lambda>s. ws_UserID s = us_ID u) (ac_sessions db') =
      filter (\<lambda>s. ws_UserID s = us_ID u \<and> (flt SDeleteExcept \<or> ws_SessionID s = sid)) (ac_sessions db)"
proof -
  from assms(4,5) obtain cur new v x db1 where body: "body = Some (cur, new)"
    and v: "VerifyPassword flt cmp (us_Username u) cur db = Inr v"
    and upd: "UpdatePassword flt gen (cf_BcryptCost cfg) now (us_ID u) new db = (Inr x, db1)"
    and db': "db' = snd (DeleteSessionsByUserExcept flt (us_ID u) sid db1)"
    by (auto simp: HandleChangePassword_def answer_def split: option.split_asm sum.split_asm prod.split_asm if_split_asm)
  from v have "us_Username v = us_Username u" "v \<in> set (ac_users db)" by (auto dest: VerifyPassword_Inr)
  with assms(1,2) have "v = u" by (auto simp: ac_inv_def users_inv_def distinct_map dest: inj_onD)
  from upd obtain hash where hash: "gen (store_cost (cf_BcryptCost cfg)) new = Some hash" and len: "password_error new = None"
    and db1: "db1 = db\<lparr>ac_users := update_where (\<lambda>u'. us_ID u' = us_ID u)
      (\<lambda>u. u\<lparr>us_PasswordHash := hash, us_UpdatedAt := sql_now now\<rparr>) (ac_users db)\<rparr>"
    by (auto simp: UpdatePassword_def update_user_def Let_def split: option.split_asm if_split_asm)
  have row: "find_row (\<lambda>w. us_Username w = us_Username u) (ac_users db') =
      Some (u\<lparr>us_PasswordHash := hash, us_UpdatedAt := sql_now now\<rparr>)"
  proof -
    let ?f = "\<lambda>u. u\<lparr>us_PasswordHash := hash, us_UpdatedAt := sql_now now\<rparr>"
    have "map us_Username (update_where (\<lambda>u'. us_ID u' = us_ID u) ?f (ac_users db)) = map us_Username (ac_users db)"
      by (rule map_update_where) simp
    moreover have "?f u \<in> set (update_where (\<lambda>u'. us_ID u' = us_ID u) ?f (ac_users db))"
      using assms(2) by (auto simp: update_where_def image_iff intro!: bexI [of _ u])
    ultimately show ?thesis
      using assms(1) find_row_key [where key = us_Username and r = "?f u"]
      by (simp add: db' db1 DeleteSessionsByUserExcept_def delete_sessions_def ac_inv_def users_inv_def)
  qed
  have "isl (VerifyPassword (\<lambda>_. False) cmp (us_Username u) q db') = (q \<noteq> new)" for q
    using assms(3) [OF hash] by (simp add: VerifyPassword_def GetUserByUsername_def get_user_def row)
  then show ?thesis
    using body VerifyPassword_proved [OF v refl] \<open>v = u\<close> len
    by (auto simp: password_error_def db' db1 DeleteSessionsByUserExcept_def delete_sessions_def delete_where_def
        split: if_split_asm intro!: filter_cong)
qed

theorem change_password_outcome_witness:
  "let db = ip_acc (fold sg_exec (take 4 demo_signins) idp_empty); u = hd (ac_users db) in
     map ws_SessionID (filter (\<lambda>s. ws_UserID s = us_ID u)
       (ac_sessions (snd (HandleChangePassword (\<lambda>_. False) demo_gen demo_cmp demo_cfg 4 (Some u) (Some ''s1'')
          (Some (''correct horse'', ''new password'')) db)))) = [''s1'']"
proof -
  let ?db = "ip_acc (fold sg_exec (take 4 demo_signins) idp_empty)"
  let ?h = "HandleChangePassword (\<lambda>_. False) demo_gen demo_cmp demo_cfg 4 (Some (hd (ac_users ?db))) (Some ''s1'')
      (Some (''correct horse'', ''new password'')) ?db"
  have inv: "ac_inv ?db" using sign_in.run_inv [OF idp_empty_inv, of "take 4 demo_signins"] by (simp add: sg_inv_def)
  have mem: "hd (ac_users ?db) \<in> set (ac_users ?db)" by (rule hd_in_set) code_simp
  have st: "hp_Status (fst ?h) = 200" by code_simp
  have sessions: "map ws_SessionID (filter (\<lambda>s. ws_UserID s = us_ID (hd (ac_users ?db)) \<and> (False \<or> ws_SessionID s = ''s1'')) (ac_sessions ?db)) = [''s1'']"
    by code_simp
  have cmp: "\<And>c p h q. demo_gen c p = Some h \<Longrightarrow> demo_cmp h q = (q = p)" by (auto simp: demo_gen_def demo_cmp_def)
  show ?thesis
    using change_password_outcome [OF inv mem cmp surjective_pairing st] sessions by (auto simp: Let_def)
qed

section \<open>How often passwords are checked\<close>

text \<open>The login attempts of an address: when, and whether the password was checked and right.\<close>

fun login_attempt :: "string \<Rightarrow> sg_op \<Rightarrow> idp_db \<Rightarrow> (timestamp \<times> bool) list" where
  "login_attempt ip (SgLogin flt cmp cfg now ip' body sid) db =
     (case body of
        None \<Rightarrow> []
      | Some (name, pw) \<Rightarrow>
          if ip' = ip \<and> fst (isBlocked now ip (ip_acc db)) = None
          then [(now, \<not> isl (VerifyPassword flt cmp name pw (ip_acc db)))] else [])"
| "login_attempt ip _ db = []"

fun password_checks :: "string \<Rightarrow> sg_op list \<Rightarrow> idp_db \<Rightarrow> (timestamp \<times> bool) list" where
  "password_checks ip [] db = []"
| "password_checks ip (op # ops) db = login_attempt ip op db @ password_checks ip ops (sg_exec op db)"

fun login_time :: "string \<Rightarrow> sg_op \<Rightarrow> timestamp option" where
  "login_time ip (SgLogin flt cmp cfg now ip' body sid) = (if ip' = ip then Some now else None)"
| "login_time ip _ = None"

text \<open>No more than three of the times, latest first, lie within a minute.\<close>

fun spaced :: "timestamp list \<Rightarrow> bool" where
  "spaced (t # a # b # c # ts) = (c + loginBlockTime \<le> t \<and> spaced (a # b # c # ts))"
| "spaced ts = True"

definition limiter_inv :: "string \<Rightarrow> timestamp \<Rightarrow> timestamp list \<Rightarrow> ac_db \<Rightarrow> bool" where
  "limiter_inv ip t cs db \<longleftrightarrow> spaced cs \<and> sorted_wrt (\<ge>) (t # cs) \<and>
     (case ac_attempts db ip of
        None \<Rightarrow> cs = [] \<or> hd cs + loginBlockTime \<le> t
      | Some a \<Rightarrow> 0 < la_failures a \<and> la_failures a \<le> maxLoginFailures \<and> la_failures a \<le> length cs \<and> la_blockedAt a = hd cs \<and>
          (la_failures a = length cs \<or> cs ! la_failures a + loginBlockTime \<le> cs ! (la_failures a - 1)))"

lemma spaced_window:
  assumes "spaced cs" "sorted_wrt (\<ge>) cs"
  shows "length (filter (\<lambda>t. s \<le> t \<and> t < s + loginBlockTime) cs) \<le> 3"
  using assms
proof (induction cs rule: spaced.induct)
  case (1 t a b c ts)
  show ?case
  proof (cases "s \<le> t \<and> t < s + loginBlockTime")
    case True
    then have "c < s" using 1(2) by simp
    then have "filter (\<lambda>t. s \<le> t \<and> t < s + loginBlockTime) ts = []" using 1(3) by (auto simp: filter_empty_conv)
    then show ?thesis using \<open>c < s\<close> by simp
  next
    case False
    have "length (filter (\<lambda>t. s \<le> t \<and> t < s + loginBlockTime) (a # b # c # ts)) \<le> 3"
      using 1 by (intro 1(1)) auto
    then show ?thesis by (simp only: filter.simps(2) [of _ t "a # b # c # ts"] False if_False)
  qed
qed auto

lemma limiter_window: "limiter_inv ip t cs db \<Longrightarrow> length (filter (\<lambda>t. s \<le> t \<and> t < s + loginBlockTime) cs) \<le> 3"
  by (auto simp: limiter_inv_def intro!: spaced_window)

lemma limiter_later: "limiter_inv ip t cs db \<Longrightarrow> t \<le> t' \<Longrightarrow> ac_attempts db' ip = ac_attempts db ip \<Longrightarrow> limiter_inv ip t' cs db'"
  by (fastforce simp: limiter_inv_def split: option.splits)

lemma spaced_Cons: "spaced cs \<Longrightarrow> (length cs < 3 \<or> cs ! 2 + loginBlockTime \<le> t) \<Longrightarrow> spaced (t # cs)"
  by (cases cs rule: spaced.cases) (auto simp: numeral_2_eq_2)

lemma desc_nth: "sorted_wrt (\<ge>) (t # cs) \<Longrightarrow> i \<le> j \<Longrightarrow> j < length cs \<Longrightarrow> cs ! j \<le> cs ! i \<and> cs ! i \<le> (t :: timestamp)"
  by (cases "i = j") (auto dest: sorted_wrt_nth_less [of "(\<ge>)" cs i j])

lemma limiter_reset:
  assumes "limiter_inv ip t cs db" "t \<le> now" "isBlocked now ip db = (None, db1)"
  shows "limiter_inv ip now cs db1 \<and>
    (case ac_attempts db1 ip of None \<Rightarrow> cs = [] \<or> hd cs + loginBlockTime \<le> now | Some a \<Rightarrow> la_failures a < maxLoginFailures)"
proof -
  have db: "limiter_inv ip now cs db" by (rule limiter_later [OF assms(1,2) refl])
  show ?thesis
    using assms(3) db
    by (auto simp: isBlocked_def limiter_inv_def split: option.split_asm if_split_asm)
qed

lemma limiter_failure:
  assumes "limiter_inv ip t cs db" "t \<le> now" "isBlocked now ip db = (None, db1)"
  shows "limiter_inv ip now (now # cs) (login_failure now ip db1)"
proof -
  from limiter_reset [OF assms] have inv: "limiter_inv ip now cs db1" and free: "case ac_attempts db1 ip of
      None \<Rightarrow> cs = [] \<or> hd cs + loginBlockTime \<le> now | Some a \<Rightarrow> la_failures a < maxLoginFailures" by simp_all
  from inv have sp: "spaced cs" and desc: "sorted_wrt (\<ge>) (now # cs)" by (simp_all add: limiter_inv_def)
  have latest: "cs ! 2 \<le> hd cs" if "2 < length cs"
    using desc_nth [OF desc, of 0 2] that by (cases cs) simp_all
  show ?thesis
  proof (cases "ac_attempts db1 ip")
    case None
    with free have "cs = [] \<or> hd cs + loginBlockTime \<le> now" by simp
    then have "length cs < 3 \<or> cs ! 2 + loginBlockTime \<le> now" using latest by fastforce
    with sp have "spaced (now # cs)" by (rule spaced_Cons)
    moreover have "cs = [] \<or> cs ! 0 + loginBlockTime \<le> now"
      using \<open>cs = [] \<or> hd cs + loginBlockTime \<le> now\<close> by (cases cs) simp_all
    ultimately show ?thesis
      using desc None by (simp add: limiter_inv_def login_failure_def maxLoginFailures_def)
  next
    case (Some a)
    let ?f = "la_failures a"
    from Some inv free have f: "0 < ?f" "?f < 3" "?f \<le> length cs"
      and old: "?f = length cs \<or> cs ! ?f + loginBlockTime \<le> cs ! (?f - 1)"
      by (simp_all add: limiter_inv_def maxLoginFailures_def)
    have "length cs < 3 \<or> cs ! 2 + loginBlockTime \<le> now"
    proof (cases "length cs < 3")
      case False
      with f old have "cs ! ?f + loginBlockTime \<le> cs ! (?f - 1)" by auto
      moreover have "cs ! (?f - 1) \<le> now" using desc_nth [OF desc, of "?f - 1" "?f - 1"] f False by simp
      moreover have "cs ! 2 \<le> cs ! ?f" using desc_nth [OF desc, of ?f 2] f False by simp
      ultimately show ?thesis by simp
    qed simp
    with sp have "spaced (now # cs)" by (rule spaced_Cons)
    then show ?thesis
      using desc Some f old by (simp add: limiter_inv_def login_failure_def Let_def maxLoginFailures_def nth_Cons')
  qed
qed

lemma HandleLogin_limiter:
  assumes "limiter_inv ip t cs db" "t \<le> now"
    and "list_all (\<lambda>c. \<not> snd c) (login_attempt ip (SgLogin flt cmp cfg now ip body sid) (idb\<lparr>ip_acc := db\<rparr>))"
  shows "limiter_inv ip now (rev (map fst (login_attempt ip (SgLogin flt cmp cfg now ip body sid) (idb\<lparr>ip_acc := db\<rparr>))) @ cs)
    (snd (HandleLogin flt cmp cfg now ip body sid db))"
proof (cases "isBlocked now ip db")
  case (Pair b db1)
  show ?thesis
  proof (cases b)
    case (Some w)
    then have "db1 = db" using Pair by (auto simp: isBlocked_def split: option.splits if_splits)
    then show ?thesis using Some Pair limiter_later [OF assms(1,2) refl] by (simp add: HandleLogin_def split: option.split prod.split)
  next
    case None
    have same: "VerifyPassword flt cmp n p db1 = VerifyPassword flt cmp n p db" for n p
      using isBlocked_users [OF Pair] by (simp add: VerifyPassword_def GetUserByUsername_def get_user_def)
    show ?thesis
    proof (cases body)
      case bNone: None
      then show ?thesis using None Pair limiter_reset [OF assms(1,2)] by (simp add: HandleLogin_def)
    next
      case (Some np)
      obtain n p where np: "np = (n, p)" by (cases np)
      from assms(3) obtain e where "VerifyPassword flt cmp n p db = Inl e"
        using None Pair Some np by (cases "VerifyPassword flt cmp n p db") simp_all
      then show ?thesis using None Pair Some np limiter_failure [OF assms(1,2)] by (simp add: HandleLogin_def same)
    qed
  qed
qed

text \<open>The other operations, and logins from elsewhere, leave the entry of the address alone.\<close>

lemma isBlocked_attempts: "isBlocked now ip' db = (r, db1) \<Longrightarrow> ip' \<noteq> ip \<Longrightarrow> ac_attempts db1 ip = ac_attempts db ip"
  by (auto simp: isBlocked_def split: option.splits if_splits)

lemma CreateUser_attempts: "CreateUser flt gen cost now name pw dn db = (r, db') \<Longrightarrow> ac_attempts db' = ac_attempts db"
  by (erule CreateUser_cases) simp_all

lemma CreateSession_attempts: "CreateSession flt now sid i life db = (r, db') \<Longrightarrow> ac_attempts db' = ac_attempts db"
  by (auto simp: CreateSession_def Let_def split: if_splits)

lemma delete_sessions_attempts [simp]: "ac_attempts (snd (delete_sessions f P db)) = ac_attempts db"
  by (simp add: delete_sessions_def)

lemma RequireSession_attempts: "RequireSession flt now cookie db = (r, db') \<Longrightarrow> ac_attempts db' = ac_attempts db"
  by (auto simp: RequireSession_def GetSession_def split: option.splits if_splits prod.splits sum.splits)

lemma update_user_attempts: "update_user failed i f db = (r, db') \<Longrightarrow> ac_attempts db' ip = ac_attempts db ip"
  by (auto simp: update_user_def Let_def split: if_splits)

lemma HandleUpdateProfile_attempts: "ac_attempts (snd (HandleUpdateProfile flt now u body db)) ip = ac_attempts db ip"
  by (auto simp: HandleUpdateProfile_def UpdateDisplayName_def split: option.split prod.split sum.split dest: update_user_attempts)

lemma HandleChangePassword_attempts: "ac_attempts (snd (HandleChangePassword flt gen cmp cfg now u sid body db)) ip = ac_attempts db ip"
  by (auto simp: HandleChangePassword_def UpdatePassword_def DeleteSessionsByUserExcept_def
      split: option.split prod.split sum.split dest: update_user_attempts)

lemma HandleLogin_attempts: "ip' \<noteq> ip \<Longrightarrow> ac_attempts (snd (HandleLogin flt cmp cfg now ip' body sid db)) ip = ac_attempts db ip"
  by (auto simp: HandleLogin_def login_failure_def clearFailures_def Let_def split: option.split prod.split sum.split
      dest!: CreateSession_attempts dest: isBlocked_attempts)

lemma with_session_attempts:
  assumes "\<And>u sid db0. ac_attempts (snd (h u sid db0)) ip = ac_attempts db0 ip"
  shows "ac_attempts (snd (with_session flt now cookie h db)) ip = ac_attempts db ip"
  using assms RequireSession_attempts [of flt now cookie db] by (auto simp: with_session_def split: prod.split sum.split)

lemma acc_step_attempts:
  assumes "login_time ip op = None"
  shows "ac_attempts (snd (acc_step op db)) ip = ac_attempts db ip"
proof (cases op)
  case (SgRegister flt gen cfg now body)
  then show ?thesis by (auto simp: HandleRegister_def split: option.split prod.split sum.split dest: CreateUser_attempts)
next
  case (SgLogin flt cmp cfg now ip' body sid)
  then show ?thesis using assms by (simp add: HandleLogin_attempts case_prod_unfold split: if_splits)
next
  case (SgAuthorize flt cmp cfg now name pw sid)
  then show ?thesis by (auto simp: handleAuthorizeLogin_def split: prod.split sum.split dest: CreateSession_attempts)
next
  case (SgLogout flt now cookie)
  then show ?thesis by (simp add: with_session_attempts HandleLogout_def DeleteSession_def split: option.split)
next
  case (SgBackground flt now k)
  then show ?thesis by (cases "ac_bg db ! k") (simp_all add: run_bg_def DeleteSession_def)
qed (simp_all add: with_session_attempts HandleUpdateProfile_attempts HandleChangePassword_attempts CleanupExpired_def case_prod_unfold)

lemma findOrCreateUser_attempts:
  assumes "findOrCreateUser flt gen cost now pw suffix ext db = (r, db')"
  shows "ac_attempts (ip_acc db') = ac_attempts (ip_acc db)"
proof -
  have named: "ac_attempts acc' = ac_attempts acc" if "create_named f gen cost now name suffix pw dn acc = (x, acc')" for f name dn acc x acc'
    using that by (auto simp: create_named_def split: prod.split_asm sum.split_asm if_split_asm dest!: CreateUser_attempts)
  have email: "ac_attempts (snd (SetEmail f now i e acc)) = ac_attempts acc" for f i e acc by (simp add: SetEmail_def)
  from assms show ?thesis
    by (auto simp: findOrCreateUser_def Let_def identity_Create_acc email
        split: sum.split_asm option.split_asm if_split_asm prod.split_asm dest: named)
qed

lemma sg_exec_attempts:
  assumes "login_time ip op = None"
  shows "ac_attempts (ip_acc (sg_exec op db)) ip = ac_attempts (ip_acc db) ip"
proof (cases op)
  case (SgCallback flt gen cost now known sc st err code ex pw suffix sid)
  then show ?thesis
    by (auto simp: sg_exec_def HandleCallback_def split: prod.split if_split option.split sum.split
        dest!: findOrCreateUser_attempts CreateSession_attempts)
qed (use acc_step_attempts [OF assms] in \<open>simp_all add: sg_exec_def case_prod_unfold del: acc_step.simps\<close>)

lemma login_attempt_None: "login_time ip op = None \<Longrightarrow> login_attempt ip op db = []"
  by (cases op) (auto split: option.split)

lemma password_checks_limited:
  assumes "limiter_inv ip t cs (ip_acc db)" "sorted (t # List.map_filter (login_time ip) ops)"
    "list_all (\<lambda>c. \<not> snd c) (password_checks ip ops db)"
  shows "length (filter (\<lambda>t. s \<le> t \<and> t < s + loginBlockTime) (rev (map fst (password_checks ip ops db)) @ cs)) \<le> 3"
  using assms
proof (induction ops arbitrary: t cs db)
  case Nil
  then show ?case using limiter_window [of ip t cs "ip_acc db" s] by simp
next
  case (Cons op ops)
  show ?case
  proof (cases "login_time ip op")
    case None
    have "length (filter (\<lambda>t. s \<le> t \<and> t < s + loginBlockTime) (rev (map fst (password_checks ip ops (sg_exec op db))) @ cs)) \<le> 3"
      by (rule Cons.IH [of t])
        (use Cons.prems None in \<open>simp_all add: login_attempt_None List.map_filter_simps limiter_later [OF _ order_refl] sg_exec_attempts\<close>)
    then show ?thesis using None by (simp add: login_attempt_None)
  next
    case (Some now)
    then obtain flt cmp cfg body sid where op: "op = SgLogin flt cmp cfg now ip body sid" by (cases op) (auto split: if_splits)
    let ?new = "login_attempt ip op db"
    have exec: "ip_acc (sg_exec (SgLogin flt cmp cfg now ip body sid) db) = snd (HandleLogin flt cmp cfg now ip body sid (ip_acc db))"
      by (simp add: sg_exec_def case_prod_unfold)
    have same: "db\<lparr>ip_acc := ip_acc db\<rparr> = db" by simp
    have "limiter_inv ip now (rev (map fst ?new) @ cs) (ip_acc (sg_exec op db))"
      unfolding op exec by (rule HandleLogin_limiter [of ip t cs "ip_acc db" now flt cmp cfg body sid db, unfolded same])
        (use Cons.prems op Some in \<open>simp_all add: List.map_filter_simps del: login_attempt.simps\<close>)
    then have "length (filter (\<lambda>t. s \<le> t \<and> t < s + loginBlockTime)
        (rev (map fst (password_checks ip ops (sg_exec op db))) @ (rev (map fst ?new) @ cs))) \<le> 3"
      by (rule Cons.IH) (use Cons.prems Some in \<open>simp_all add: List.map_filter_simps\<close>)
    then show ?thesis by simp
  qed
qed


definition demo_guesses :: "sg_op list" where
  "demo_guesses =
     SgRegister (\<lambda>_. False) demo_gen demo_cfg 0 (Some (''alice'', ''correct horse'', '''')) #
     map (\<lambda>t. SgLogin (\<lambda>_. False) demo_cmp demo_cfg (t * nanosec) ''10.0.0.9'' (Some (''alice'', ''guess'')) ''s9'') [1, 2, 30, 40, 89, 90, 91]"


end
