(* ===== verification/OAuth.thy ===== *)
theory OAuth
  imports Accounts
begin

text \<open>
  OAuth: the clients of \<open>internal/auth/client_store.go\<close>, the storage that \<open>fosite_store.go\<close> gives to
  the fosite library (authorization codes, tokens, rotation, replay), client registration and the approval page of
  \<open>handlers.go\<close>, and the bearer part of \<open>middleware.go\<close>.

  fosite itself is not modelled: it calls the storage in any order, and what it answers to a token is an
  argument of \<open>RequireBearer\<close>. Lists of URIs, grants and sessions are kept as values, not as their JSON text.
  Random client ids, secrets and hashes are arguments; so is URL parsing.
\<close>

section \<open>Data\<close>

datatype token_kind = AccessTokenKind | RefreshTokenKind | AuthorizeCodeKind

datatype token_type = TokenTypeAccess | TokenTypeRefresh

record OAuthClient =
  oa_ID :: string
  oa_SecretHash :: string
  oa_Name :: string
  oa_RedirectURIs :: "string list"
  oa_GrantTypes :: "string list"
  oa_Scopes :: "string list"
  oa_OwnerID :: "id64 option"

record fositeSession =
  fs_UserID :: id64
  fs_Username :: string
  fs_Subject :: string
  fs_AgentName :: string
  fs_ExpiresAtMap :: "(token_kind \<times> timestamp) list"

text \<open>What a request of fosite carries; \<open>Form.Get\<close> of an absent field is empty.\<close>

record oauth_request =
  rq_Client :: string
  rq_RequestedScope :: "string list"
  rq_GrantedScope :: "string list"
  rq_Session :: fositeSession
  rq_RedirectURI :: string
  rq_CodeChallenge :: string
  rq_CodeChallengeMethod :: string

record AuthorizationCode =
  az_Code :: string
  az_ClientID :: string
  az_UserID :: id64
  az_RedirectURI :: string
  az_Scopes :: string
  az_CodeChallenge :: string
  az_CodeChallengeMethod :: string
  az_Session :: fositeSession
  az_ExpiresAt :: timestamp
  az_Used :: bool

record OAuthToken =
  ot_ID :: id64
  ot_Signature :: string
  ot_ClientID :: string
  ot_UserID :: "id64 option"
  ot_Scope :: string
  ot_Type :: token_type
  ot_Session :: fositeSession
  ot_ExpiresAt :: timestamp
  ot_Consumed :: bool
  ot_ParentSignature :: string

datatype oauth_error =
    FositeNotFound
  | FositeServerError
  | FositeInvalidatedCode
  | FositeInactiveToken
  | OaStatementFailed
  | ErrClientNotFound
  | OaInvalidPassword

record oauth_db =
  od_clients :: "OAuthClient list"
  od_codes :: "AuthorizationCode list"
  od_tokens :: "OAuthToken list"
  od_token_seq :: id64

text \<open>The zero time of Go, the first instant of the year 1.\<close>

definition zero_time :: timestamp where
  "zero_time = -62135596800 * nanosec"

definition SetExpiresAt :: "token_kind \<Rightarrow> timestamp \<Rightarrow> fositeSession \<Rightarrow> fositeSession" where
  "SetExpiresAt k e s = s\<lparr>fs_ExpiresAtMap := (k, e) # filter (\<lambda>(k', e'). k' \<noteq> k) (fs_ExpiresAtMap s)\<rparr>"

definition GetExpiresAt :: "token_kind \<Rightarrow> fositeSession \<Rightarrow> timestamp" where
  "GetExpiresAt k s = (case map_of (fs_ExpiresAtMap s) k of None \<Rightarrow> zero_time | Some e \<Rightarrow> e)"

definition NewSessionWithAgent :: "User \<Rightarrow> string \<Rightarrow> fositeSession" where
  "NewSessionWithAgent u agentName =
     \<lparr>fs_UserID = us_ID u, fs_Username = us_Username u, fs_Subject = us_Username u, fs_AgentName = agentName, fs_ExpiresAtMap = []\<rparr>"

text \<open>\<open>strings.Join\<close> and \<open>strings.Split\<close> with a blank.\<close>

fun join_space :: "string list \<Rightarrow> string" where
  "join_space [] = []"
| "join_space [s] = s"
| "join_space (s # ss) = s @ CHR '' '' # join_space ss"

fun split_space :: "string \<Rightarrow> string list" where
  "split_space [] = [[]]"
| "split_space (c # s) =
     (if c = CHR '' '' then [] # split_space s
      else case split_space s of [] \<Rightarrow> [[c]] | w # ws \<Rightarrow> (c # w) # ws)"

definition splitScopes :: "string \<Rightarrow> string list" where
  "splitScopes scopes = (if scopes = '''' then [] else split_space scopes)"

section \<open>Clients\<close>

definition CreateClient ::
  "bool \<Rightarrow> string \<Rightarrow> string \<Rightarrow> string option \<Rightarrow> string \<Rightarrow> string list option \<Rightarrow> string list option \<Rightarrow> string list option \<Rightarrow>
   id64 \<Rightarrow> id64 list \<Rightarrow> oauth_db \<Rightarrow> (oauth_error + OAuthClient \<times> string) \<times> oauth_db" where
  "CreateClient failed clientID secret hash name redirectURIs grantTypes scopes ownerID userIDs db =
     (case hash of
        None \<Rightarrow> (Inl OaStatementFailed, db)
      | Some h \<Rightarrow>
          let c = \<lparr>oa_ID = clientID, oa_SecretHash = h, oa_Name = name, oa_RedirectURIs = case_option [] id redirectURIs,
                   oa_GrantTypes = case_option [''client_credentials''] id grantTypes, oa_Scopes = case_option [] id scopes,
                   oa_OwnerID = Some ownerID\<rparr>
          in if failed \<or> clientID \<in> set (map oa_ID (od_clients db)) \<or> ownerID \<notin> set userIDs then (Inl OaStatementFailed, db)
             else (Inr (c, secret), db\<lparr>od_clients := od_clients db @ [c]\<rparr>))"

definition CreatePublicClient ::
  "bool \<Rightarrow> string \<Rightarrow> string \<Rightarrow> string list option \<Rightarrow> string list option \<Rightarrow> string list option \<Rightarrow> oauth_db \<Rightarrow>
   (oauth_error + OAuthClient) \<times> oauth_db" where
  "CreatePublicClient failed clientID name redirectURIs grantTypes scopes db =
     (let c = \<lparr>oa_ID = clientID, oa_SecretHash = '''', oa_Name = name, oa_RedirectURIs = case_option [] id redirectURIs,
               oa_GrantTypes = case_option [''authorization_code'', ''refresh_token''] id grantTypes,
               oa_Scopes = case_option [''mcp''] id scopes, oa_OwnerID = None\<rparr>
      in if failed \<or> clientID \<in> set (map oa_ID (od_clients db)) then (Inl OaStatementFailed, db)
         else (Inr c, db\<lparr>od_clients := od_clients db @ [c]\<rparr>))"

definition client_GetClient :: "bool \<Rightarrow> string \<Rightarrow> oauth_db \<Rightarrow> oauth_error + OAuthClient" where
  "client_GetClient failed clientID db =
     (if failed then Inl OaStatementFailed
      else case find_row (\<lambda>c. oa_ID c = clientID) (od_clients db) of None \<Rightarrow> Inl ErrClientNotFound | Some c \<Rightarrow> Inr c)"

definition ListClientsByOwner :: "bool \<Rightarrow> id64 \<Rightarrow> oauth_db \<Rightarrow> oauth_error + OAuthClient list" where
  "ListClientsByOwner failed ownerID db =
     (if failed then Inl OaStatementFailed
      else Inr (sort_key oa_Name (filter (\<lambda>c. oa_OwnerID c = Some ownerID) (od_clients db))))"

definition VerifyClientSecret ::
  "bool \<Rightarrow> (string \<Rightarrow> string \<Rightarrow> bool) \<Rightarrow> string \<Rightarrow> string \<Rightarrow> oauth_db \<Rightarrow> oauth_error + OAuthClient" where
  "VerifyClientSecret failed cmp clientID secret db =
     (case client_GetClient failed clientID db of
        Inl e \<Rightarrow> Inl e
      | Inr c \<Rightarrow> if cmp (oa_SecretHash c) secret then Inr c else Inl OaInvalidPassword)"

definition HasGrantType :: "string \<Rightarrow> OAuthClient \<Rightarrow> bool" where
  "HasGrantType grantType c = list_ex (\<lambda>gt. to_lower gt = to_lower grantType) (oa_GrantTypes c)"

definition IsPublic :: "OAuthClient \<Rightarrow> bool" where
  "IsPublic c = (oa_SecretHash c = '''')"

text \<open>
  A parsed URL: host name, port and path; \<open>parse\<close> is \<open>url.Parse\<close>, and \<open>set_host uri h\<close> the text of \<open>uri\<close> with another
  host.
\<close>

record parsed_url =
  pu_Hostname :: string
  pu_Port :: string
  pu_Path :: string

definition register_uri :: "(string \<Rightarrow> parsed_url option) \<Rightarrow> string \<Rightarrow> string" where
  "register_uri parse uri =
     (case parse uri of
        None \<Rightarrow> uri
      | Some p \<Rightarrow> if pu_Hostname p = ''localhost'' \<or> pu_Hostname p = ''127.0.0.1'' then ''http://127.0.0.1'' @ pu_Path p else uri)"

text \<open>The body is the client's name and URIs; grants and scopes asked for are not looked at.\<close>

definition HandleDynamicRegistration ::
  "bool \<Rightarrow> (string \<Rightarrow> parsed_url option) \<Rightarrow> string \<Rightarrow> (string \<times> string list) option \<Rightarrow> oauth_db \<Rightarrow> (int \<times> OAuthClient option) \<times> oauth_db" where
  "HandleDynamicRegistration failed parse clientID body db =
     (case body of
        None \<Rightarrow> ((400, None), db)
      | Some (name, uris) \<Rightarrow>
          (case CreatePublicClient failed clientID (if name = '''' then ''dynamic-client'' else name)
                  (Some (map (register_uri parse) (if uris = [] then [''http://127.0.0.1''] else uris)))
                  (Some [''authorization_code'', ''refresh_token'']) (Some [''mcp'']) db of
             (Inl e, db') \<Rightarrow> ((500, None), db')
           | (Inr c, db') \<Rightarrow> ((201, Some c), db')))"

section \<open>The storage of fosite\<close>

definition GetClient :: "bool \<Rightarrow> string \<Rightarrow> oauth_db \<Rightarrow> oauth_error + OAuthClient" where
  "GetClient failed i db =
     (if failed then Inl FositeServerError
      else case find_row (\<lambda>c. oa_ID c = i) (od_clients db) of None \<Rightarrow> Inl FositeNotFound | Some c \<Rightarrow> Inr c)"

definition CreateAuthorizeCodeSession ::
  "bool \<Rightarrow> id64 list \<Rightarrow> string \<Rightarrow> oauth_request \<Rightarrow> oauth_db \<Rightarrow> (oauth_error + unit) \<times> oauth_db" where
  "CreateAuthorizeCodeSession failed userIDs code rq db =
     (if failed \<or> code \<in> set (map az_Code (od_codes db)) \<or> fs_UserID (rq_Session rq) \<notin> set userIDs then (Inl FositeServerError, db)
      else (Inr (), db\<lparr>od_codes := od_codes db @
        [\<lparr>az_Code = code, az_ClientID = rq_Client rq, az_UserID = fs_UserID (rq_Session rq), az_RedirectURI = rq_RedirectURI rq,
          az_Scopes = join_space (rq_RequestedScope rq), az_CodeChallenge = rq_CodeChallenge rq,
          az_CodeChallengeMethod = rq_CodeChallengeMethod rq, az_Session = rq_Session rq,
          az_ExpiresAt = GetExpiresAt AuthorizeCodeKind (rq_Session rq), az_Used = False\<rparr>]\<rparr>))"

text \<open>A used code comes with no request at all.\<close>

definition GetAuthorizeCodeSession :: "bool \<Rightarrow> bool \<Rightarrow> string \<Rightarrow> oauth_db \<Rightarrow> oauth_error + oauth_request" where
  "GetAuthorizeCodeSession failed client_failed code db =
     (if failed then Inl FositeServerError
      else case find_row (\<lambda>a. az_Code a = code) (od_codes db) of
             None \<Rightarrow> Inl FositeNotFound
           | Some a \<Rightarrow>
               if az_Used a then Inl FositeInvalidatedCode
               else case GetClient client_failed (az_ClientID a) db of
                      Inl e \<Rightarrow> Inl e
                    | Inr c \<Rightarrow>
                        Inr \<lparr>rq_Client = oa_ID c, rq_RequestedScope = splitScopes (az_Scopes a), rq_GrantedScope = splitScopes (az_Scopes a),
                             rq_Session = az_Session a, rq_RedirectURI = az_RedirectURI a, rq_CodeChallenge = az_CodeChallenge a,
                             rq_CodeChallengeMethod = az_CodeChallengeMethod a\<rparr>)"

definition InvalidateAuthorizeCodeSession :: "bool \<Rightarrow> string \<Rightarrow> oauth_db \<Rightarrow> (oauth_error + unit) \<times> oauth_db" where
  "InvalidateAuthorizeCodeSession failed code db =
     (if failed then (Inl FositeServerError, db)
      else (Inr (), db\<lparr>od_codes := update_where (\<lambda>a. az_Code a = code) (\<lambda>a. a\<lparr>az_Used := True\<rparr>) (od_codes db)\<rparr>))"

definition CreatePKCERequestSession :: "bool \<Rightarrow> string \<Rightarrow> oauth_request \<Rightarrow> oauth_db \<Rightarrow> (oauth_error + unit) \<times> oauth_db" where
  "CreatePKCERequestSession failed signature rq db =
     (if rq_CodeChallenge rq = '''' then (Inr (), db)
      else if failed then (Inl FositeServerError, db)
      else (Inr (), db\<lparr>od_codes := update_where (\<lambda>a. az_Code a = signature)
             (\<lambda>a. a\<lparr>az_CodeChallenge := rq_CodeChallenge rq, az_CodeChallengeMethod := rq_CodeChallengeMethod rq\<rparr>) (od_codes db)\<rparr>))"

text \<open>The hash of the signature is unique over all tokens; SHA-256 is taken to be injective.\<close>

definition insert_token ::
  "bool \<Rightarrow> id64 list \<Rightarrow> string \<Rightarrow> token_type \<Rightarrow> string \<Rightarrow> oauth_request \<Rightarrow> oauth_db \<Rightarrow> (oauth_error + unit) \<times> oauth_db" where
  "insert_token failed userIDs signature ty parent rq db =
     (let uid = fs_UserID (rq_Session rq); i = od_token_seq db + 1
      in if failed \<or> signature \<in> set (map ot_Signature (od_tokens db)) \<or> (0 < uid \<and> uid \<notin> set userIDs) then (Inl FositeServerError, db)
         else (Inr (), db\<lparr>od_tokens := od_tokens db @
                [\<lparr>ot_ID = i, ot_Signature = signature, ot_ClientID = rq_Client rq, ot_UserID = (if 0 < uid then Some uid else None),
                  ot_Scope = join_space (rq_GrantedScope rq), ot_Type = ty, ot_Session = rq_Session rq,
                  ot_ExpiresAt = GetExpiresAt (case ty of TokenTypeAccess \<Rightarrow> AccessTokenKind | TokenTypeRefresh \<Rightarrow> RefreshTokenKind) (rq_Session rq),
                  ot_Consumed = False, ot_ParentSignature = parent\<rparr>], od_token_seq := i\<rparr>))"

definition createTokenSession where
  "createTokenSession failed userIDs signature ty rq db = insert_token failed userIDs signature ty '''' rq db"

definition CreateAccessTokenSession where
  "CreateAccessTokenSession failed userIDs signature rq db = createTokenSession failed userIDs signature TokenTypeAccess rq db"

definition CreateRefreshTokenSession where
  "CreateRefreshTokenSession failed userIDs signature accessSignature rq db =
     insert_token failed userIDs signature TokenTypeRefresh accessSignature rq db"

text \<open>All tokens of the client are consumed, not only the chain of the token.\<close>

definition revokeTokenFamily :: "bool \<Rightarrow> string \<Rightarrow> oauth_db \<Rightarrow> oauth_db" where
  "revokeTokenFamily failed signature db =
     (if failed then db
      else let clients = map ot_ClientID (filter (\<lambda>t. ot_Signature t = signature) (od_tokens db))
           in db\<lparr>od_tokens := update_where (\<lambda>t. ot_ClientID t \<in> set clients) (\<lambda>t. t\<lparr>ot_Consumed := True\<rparr>) (od_tokens db)\<rparr>)"

definition getTokenSession ::
  "bool \<Rightarrow> bool \<Rightarrow> bool \<Rightarrow> string \<Rightarrow> token_type \<Rightarrow> oauth_db \<Rightarrow> (oauth_error + oauth_request) \<times> oauth_db" where
  "getTokenSession failed revoke_failed client_failed signature ty db =
     (if failed then (Inl FositeServerError, db)
      else case find_row (\<lambda>t. ot_Signature t = signature \<and> ot_Type t = ty) (od_tokens db) of
             None \<Rightarrow> (Inl FositeNotFound, db)
           | Some t \<Rightarrow>
               if ot_Consumed t then (Inl FositeInactiveToken, revokeTokenFamily revoke_failed signature db)
               else (case GetClient client_failed (ot_ClientID t) db of
                       Inl e \<Rightarrow> Inl e
                     | Inr c \<Rightarrow>
                         Inr \<lparr>rq_Client = oa_ID c, rq_RequestedScope = splitScopes (ot_Scope t), rq_GrantedScope = splitScopes (ot_Scope t),
                              rq_Session = ot_Session t, rq_RedirectURI = '''', rq_CodeChallenge = '''', rq_CodeChallengeMethod = ''''\<rparr>, db))"

definition deleteTokenSession :: "bool \<Rightarrow> string \<Rightarrow> oauth_db \<Rightarrow> (oauth_error + unit) \<times> oauth_db" where
  "deleteTokenSession failed signature db =
     (if failed then (Inl OaStatementFailed, db)
      else (Inr (), db\<lparr>od_tokens := delete_where (\<lambda>t. ot_Signature t = signature) (od_tokens db)\<rparr>))"

text \<open>Rotation and revocation; the latter compare the signature with the id of the request.\<close>

definition consume_refresh :: "oauth_error \<Rightarrow> bool \<Rightarrow> string \<Rightarrow> oauth_db \<Rightarrow> (oauth_error + unit) \<times> oauth_db" where
  "consume_refresh err failed signature db =
     (if failed then (Inl err, db)
      else (Inr (), db\<lparr>od_tokens := update_where (\<lambda>t. ot_Signature t = signature \<and> ot_Type t = TokenTypeRefresh)
             (\<lambda>t. t\<lparr>ot_Consumed := True\<rparr>) (od_tokens db)\<rparr>))"

definition RotateRefreshToken :: "bool \<Rightarrow> string \<Rightarrow> string \<Rightarrow> oauth_db \<Rightarrow> (oauth_error + unit) \<times> oauth_db" where
  "RotateRefreshToken failed requestID refreshTokenSignature db = consume_refresh FositeServerError failed refreshTokenSignature db"

definition RevokeRefreshToken :: "bool \<Rightarrow> string \<Rightarrow> oauth_db \<Rightarrow> (oauth_error + unit) \<times> oauth_db" where
  "RevokeRefreshToken failed requestID db = consume_refresh OaStatementFailed failed requestID db"

definition RevokeAccessToken :: "bool \<Rightarrow> string \<Rightarrow> oauth_db \<Rightarrow> (oauth_error + unit) \<times> oauth_db" where
  "RevokeAccessToken failed requestID db =
     (if failed then (Inl OaStatementFailed, db)
      else (Inr (), db\<lparr>od_tokens := delete_where (\<lambda>t. ot_Signature t = requestID \<and> ot_Type t = TokenTypeAccess) (od_tokens db)\<rparr>))"

section \<open>The authorize page\<close>

text \<open>What the page shows, or the session and redirect URI handed to fosite.\<close>

datatype approve_reply =
    LoginPage string
  | AgentPage string
  | AskFosite fositeSession string

definition loopback_uri :: "(string \<Rightarrow> parsed_url option) \<Rightarrow> (string \<Rightarrow> string \<Rightarrow> string) \<Rightarrow> string \<Rightarrow> string" where
  "loopback_uri parse set_host uri =
     (case parse uri of
        None \<Rightarrow> uri
      | Some p \<Rightarrow>
          if pu_Hostname p = ''localhost''
          then set_host uri (if pu_Port p = '''' then ''127.0.0.1'' else ''127.0.0.1:'' @ pu_Port p) else uri)"

definition handleAuthorizeApprove ::
  "(ac_stmt \<Rightarrow> bool) \<Rightarrow> timestamp \<Rightarrow> (string \<Rightarrow> parsed_url option) \<Rightarrow> (string \<Rightarrow> string \<Rightarrow> string) \<Rightarrow> string option \<Rightarrow> string \<Rightarrow> string \<Rightarrow>
   ac_db \<Rightarrow> approve_reply \<times> ac_db" where
  "handleAuthorizeApprove flt now parse set_host cookie agentName redirectURI db =
     (case trySessionAuth flt now cookie db of
        (None, db') \<Rightarrow> (LoginPage ''Session expired, please log in again'', db')
      | (Some u, db') \<Rightarrow>
          if agentName = '''' then (AgentPage ''Please select an agent'', db')
          else (AskFosite (NewSessionWithAgent u agentName) (loopback_uri parse set_host redirectURI), db'))"

section \<open>Bearer tokens\<close>

text \<open>\<open>strings.SplitN\<close> at the first blank.\<close>

fun cut_space :: "string \<Rightarrow> (string \<times> string) option" where
  "cut_space [] = None"
| "cut_space (c # s) = (if c = CHR '' '' then Some ([], s) else map_option (\<lambda>(a, b). (c # a, b)) (cut_space s))"

text \<open>The context that the handler behind the middleware sees.\<close>

record auth_context =
  cx_User :: "User option"
  cx_SessionID :: "string option"
  cx_Client :: "string option"
  cx_OAuthAgent :: "string option"

text \<open>\<open>introspect\<close> is fosite's answer to a token: the client and session of a valid access token.\<close>

definition RequireBearer ::
  "(ac_stmt \<Rightarrow> bool) \<Rightarrow> (string \<Rightarrow> (string \<times> fositeSession) option) \<Rightarrow> string \<Rightarrow> ac_db \<Rightarrow> int + auth_context" where
  "RequireBearer flt introspect header db =
     (if header = '''' then Inl 401
      else case cut_space header of
             None \<Rightarrow> Inl 401
           | Some (scheme, token) \<Rightarrow>
               if to_lower scheme \<noteq> ''bearer'' then Inl 401
               else case introspect token of
                      None \<Rightarrow> Inl 401
                    | Some (clientID, s) \<Rightarrow>
                        Inr \<lparr>cx_User = (if 0 < fs_UserID s
                                      then (case GetUserByID flt (fs_UserID s) db of Inl e \<Rightarrow> None | Inr u \<Rightarrow> Some u) else None),
                             cx_SessionID = None, cx_Client = Some clientID,
                             cx_OAuthAgent = (if fs_AgentName s \<noteq> '''' then Some (fs_AgentName s) else None)\<rparr>)"

definition RequireAuth ::
  "(ac_stmt \<Rightarrow> bool) \<Rightarrow> timestamp \<Rightarrow> (string \<Rightarrow> (string \<times> fositeSession) option) \<Rightarrow> string \<Rightarrow> string option \<Rightarrow> ac_db \<Rightarrow>
   (int + auth_context) \<times> ac_db" where
  "RequireAuth flt now introspect header cookie db =
     (if header \<noteq> '''' then (RequireBearer flt introspect header db, db)
      else case RequireSession flt now cookie db of
             (Inl st, db') \<Rightarrow> (Inl st, db')
           | (Inr (u, sid), db') \<Rightarrow>
               (Inr \<lparr>cx_User = Some u, cx_SessionID = Some sid, cx_Client = None, cx_OAuthAgent = None\<rparr>, db'))"

section \<open>The storage as a system\<close>

datatype oauth_op =
    OaClient bool string string "string option" string "string list option" "string list option" "string list option" id64 "id64 list"
  | OaRegister bool "string \<Rightarrow> parsed_url option" string "(string \<times> string list) option"
  | OaCreateCode bool "id64 list" string oauth_request
  | OaInvalidate bool string
  | OaPKCE bool string oauth_request
  | OaAccess bool "id64 list" string oauth_request
  | OaRefresh bool "id64 list" string string oauth_request
  | OaGet bool bool bool string token_type
  | OaDelete bool string
  | OaRotate bool string string
  | OaRevokeRefresh bool string
  | OaRevokeAccess bool string

fun oauth_exec :: "oauth_op \<Rightarrow> oauth_db \<Rightarrow> oauth_db" where
  "oauth_exec (OaClient f i secret h n u g s owner us) db = snd (CreateClient f i secret h n u g s owner us db)"
| "oauth_exec (OaRegister f parse i body) db = snd (HandleDynamicRegistration f parse i body db)"
| "oauth_exec (OaCreateCode f us code rq) db = snd (CreateAuthorizeCodeSession f us code rq db)"
| "oauth_exec (OaInvalidate f code) db = snd (InvalidateAuthorizeCodeSession f code db)"
| "oauth_exec (OaPKCE f code rq) db = snd (CreatePKCERequestSession f code rq db)"
| "oauth_exec (OaAccess f us sig rq) db = snd (CreateAccessTokenSession f us sig rq db)"
| "oauth_exec (OaRefresh f us sig acc rq) db = snd (CreateRefreshTokenSession f us sig acc rq db)"
| "oauth_exec (OaGet f rf cf sig ty) db = snd (getTokenSession f rf cf sig ty db)"
| "oauth_exec (OaDelete f sig) db = snd (deleteTokenSession f sig db)"
| "oauth_exec (OaRotate f rid sig) db = snd (RotateRefreshToken f rid sig db)"
| "oauth_exec (OaRevokeRefresh f rid) db = snd (RevokeRefreshToken f rid db)"
| "oauth_exec (OaRevokeAccess f rid) db = snd (RevokeAccessToken f rid db)"

definition oauth_empty :: oauth_db where
  "oauth_empty = \<lparr>od_clients = [], od_codes = [], od_tokens = [], od_token_seq = 0\<rparr>"

definition oauth_inv :: "oauth_db \<Rightarrow> bool" where
  "oauth_inv db \<longleftrightarrow> distinct (map oa_ID (od_clients db)) \<and> distinct (map az_Code (od_codes db)) \<and>
     distinct (map ot_Signature (od_tokens db)) \<and> ids_ok ot_ID (od_token_seq db) (od_tokens db)"

lemmas oauth_defs =
  CreateClient_def CreatePublicClient_def HandleDynamicRegistration_def CreateAuthorizeCodeSession_def
  InvalidateAuthorizeCodeSession_def CreatePKCERequestSession_def CreateAccessTokenSession_def createTokenSession_def
  CreateRefreshTokenSession_def insert_token_def getTokenSession_def revokeTokenFamily_def deleteTokenSession_def
  RotateRefreshToken_def RevokeRefreshToken_def consume_refresh_def RevokeAccessToken_def Let_def

lemma distinct_delete_where: "distinct (map f rs) \<Longrightarrow> distinct (map f (delete_where P rs))"
  by (simp add: delete_where_def distinct_map_filter)

lemma bex_update_where: "(\<exists>a \<in> set (update_where P f rs). Q a) \<longleftrightarrow> (\<exists>a \<in> set rs. Q (if P a then f a else a))"
  by (induction rs) auto

lemma oauth_exec_inv: "oauth_inv db \<Longrightarrow> oauth_inv (oauth_exec op db)"
  by (cases op)
    (auto simp: oauth_defs oauth_inv_def map_update_where ids_ok_update_where ids_ok_append ids_ok_delete_where
        distinct_delete_where simp del: append_Cons split: option.split sum.split prod.split)

interpretation oauth: invariant_system oauth_exec oauth_inv
  by unfold_locales (rule oauth_exec_inv)

lemma oauth_empty_inv: "oauth_inv oauth_empty"
  by (simp add: oauth_inv_def oauth_empty_def)

text \<open>Codes that are used, and signatures that no token answers to any more.\<close>

definition code_used :: "string \<Rightarrow> oauth_db \<Rightarrow> bool" where
  "code_used code db \<longleftrightarrow> (\<exists>a \<in> set (od_codes db). az_Code a = code \<and> az_Used a)"

definition token_dead :: "string \<Rightarrow> token_type \<Rightarrow> oauth_db \<Rightarrow> bool" where
  "token_dead sig ty db \<longleftrightarrow> (\<forall>t \<in> set (od_tokens db). ot_Signature t = sig \<longrightarrow> ot_Type t = ty \<longrightarrow> ot_Consumed t)"

fun creates_token :: "string \<Rightarrow> oauth_op \<Rightarrow> bool" where
  "creates_token sig (OaAccess f us s rq) = (s = sig)"
| "creates_token sig (OaRefresh f us s acc rq) = (s = sig)"
| "creates_token sig _ = False"

lemma code_used_step: "code_used code db \<Longrightarrow> code_used code (oauth_exec op db)"
  by (cases op)
    (auto simp: oauth_defs code_used_def bex_update_where intro: bexI [rotated] split: option.split sum.split prod.split)

lemma token_dead_step: "token_dead sig ty db \<Longrightarrow> \<not> creates_token sig op \<Longrightarrow> token_dead sig ty (oauth_exec op db)"
  by (cases op) (auto simp: oauth_defs token_dead_def update_where_def split: option.split sum.split prod.split)

lemma code_used_run: "code_used code db \<Longrightarrow> code_used code (fold oauth_exec ops db)"
  by (induction ops arbitrary: db) (auto intro: code_used_step)

lemma token_dead_run:
  "token_dead sig ty db \<Longrightarrow> list_all (\<lambda>op. \<not> creates_token sig op) ops \<Longrightarrow> token_dead sig ty (fold oauth_exec ops db)"
  by (induction ops arbitrary: db) (auto intro: token_dead_step)

lemma rotate_dead: "token_dead old TokenTypeRefresh (snd (RotateRefreshToken False rid old db))"
proof -
  let ?P = "\<lambda>t. ot_Signature t = old \<and> ot_Type t = TokenTypeRefresh"
  have "ot_Consumed t" if "t \<in> set (update_where ?P (\<lambda>t. t\<lparr>ot_Consumed := True\<rparr>) rs)" "?P t" for t rs
  proof -
    from that(1) obtain r where "t = (if ?P r then r\<lparr>ot_Consumed := True\<rparr> else r)" unfolding in_update_where by blast
    with that(2) show ?thesis by (cases "?P r") simp_all
  qed
  from this [of _ "od_tokens db"] show ?thesis
    by (simp add: token_dead_def RotateRefreshToken_def consume_refresh_def)
qed

lemma code_used_refused:
  assumes "code_used code db" "oauth_inv db"
  shows "\<exists>e. GetAuthorizeCodeSession f cf code db = Inl e"
proof -
  from assms(1) obtain a where a: "a \<in> set (od_codes db)" "az_Code a = code" "az_Used a" by (auto simp: code_used_def)
  have "find_row (\<lambda>x. az_Code x = code) (od_codes db) \<noteq> None" using a by auto
  then obtain b where b: "find_row (\<lambda>x. az_Code x = code) (od_codes db) = Some b" by blast
  then have "b \<in> set (od_codes db)" "az_Code b = code" by (auto dest: find_row_Some)
  with a assms(2) have "b = a" by (auto simp: oauth_inv_def distinct_map dest: inj_onD)
  with a b show ?thesis by (simp add: GetAuthorizeCodeSession_def)
qed

lemma token_dead_refused: "token_dead sig ty db \<Longrightarrow> isl (fst (getTokenSession f rf cf sig ty db))"
  by (auto simp: token_dead_def getTokenSession_def split: option.split dest: find_row_Some)

section \<open>Single use\<close>

text \<open>
  C12. An authorization code can be used once: after its invalidation has been stored no sequence of storage
  operations makes the store hand out its request again.
\<close>

theorem authorization_code_single_use:
  "fst (InvalidateAuthorizeCodeSession f code (fold oauth_exec ops oauth_empty)) = Inr () \<longrightarrow>
     code \<in> set (map az_Code (od_codes (fold oauth_exec ops oauth_empty))) \<longrightarrow>
     isl (GetAuthorizeCodeSession f' cf code (fold oauth_exec (ops @ OaInvalidate f code # more_ops) oauth_empty))"
proof (intro impI)
  let ?db = "fold oauth_exec ops oauth_empty"
  assume "fst (InvalidateAuthorizeCodeSession f code ?db) = Inr ()" "code \<in> set (map az_Code (od_codes ?db))"
  then have "code_used code (oauth_exec (OaInvalidate f code) ?db)"
    by (auto simp: InvalidateAuthorizeCodeSession_def code_used_def bex_update_where split: if_splits)
  then have "code_used code (fold oauth_exec (ops @ OaInvalidate f code # more_ops) oauth_empty)"
    by (simp add: code_used_run)
  moreover have "oauth_inv (fold oauth_exec (ops @ OaInvalidate f code # more_ops) oauth_empty)"
    using oauth_empty_inv by (rule oauth.run_inv)
  ultimately show "isl (GetAuthorizeCodeSession f' cf code (fold oauth_exec (ops @ OaInvalidate f code # more_ops) oauth_empty))"
    using code_used_refused by (metis sum.disc(1))
qed

definition demo_request :: "string \<Rightarrow> oauth_request" where
  "demo_request client =
     \<lparr>rq_Client = client, rq_RequestedScope = [''mcp''], rq_GrantedScope = [''mcp''],
      rq_Session = \<lparr>fs_UserID = 1, fs_Username = ''alice'', fs_Subject = ''alice'', fs_AgentName = ''bot'', fs_ExpiresAtMap = []\<rparr>,
      rq_RedirectURI = ''http://127.0.0.1/cb'', rq_CodeChallenge = ''x'', rq_CodeChallengeMethod = ''S256''\<rparr>"

definition demo_oauth :: "oauth_op list" where
  "demo_oauth =
     [OaRegister False (\<lambda>_. None) ''c1'' (Some (''cli'', [])),
      OaCreateCode False [1] ''code1'' (demo_request ''c1''),
      OaAccess False [1] ''a1'' (demo_request ''c1''),
      OaRefresh False [1] ''r1'' ''a1'' (demo_request ''c1''),
      OaRotate False ''q1'' ''r1'',
      OaAccess False [1] ''a2'' (demo_request ''c1''),
      OaRefresh False [1] ''r2'' ''a2'' (demo_request ''c1'')]"

theorem authorization_code_single_use_witness:
  "\<not> isl (GetAuthorizeCodeSession False False ''code1'' (fold oauth_exec demo_oauth oauth_empty)) \<and>
   isl (GetAuthorizeCodeSession False False ''code1''
     (fold oauth_exec (demo_oauth @ OaInvalidate False ''code1'' # demo_oauth) oauth_empty))"
proof (rule conjI)
  show "\<not> isl (GetAuthorizeCodeSession False False ''code1'' (fold oauth_exec demo_oauth oauth_empty))" by code_simp
  have "fst (InvalidateAuthorizeCodeSession False ''code1'' (fold oauth_exec demo_oauth oauth_empty)) = Inr ()" by code_simp
  moreover have "''code1'' \<in> set (map az_Code (od_codes (fold oauth_exec demo_oauth oauth_empty)))" by code_simp
  ultimately show "isl (GetAuthorizeCodeSession False False ''code1''
     (fold oauth_exec (demo_oauth @ OaInvalidate False ''code1'' # demo_oauth) oauth_empty))"
    by (rule authorization_code_single_use [rule_format])
qed



end
