(* ===== verification/Registry.thy ===== *)
theory Registry
  imports Reactor OAuth
begin

text \<open>
  The agent registry and its keys: \<open>internal/agents\<close> (\<open>store.go\<close>, \<open>service.go\<close>, \<open>middleware.go\<close>,
  \<open>owner.go\<close>), \<open>internal/apikeys\<close>, the dead letters of \<open>internal/messaging/deadletter_store.go\<close>, the
  handlers of \<open>internal/api/agents_handler.go\<close> and \<open>apikeys_handler.go\<close>, and \<open>internal/mcp/auth.go\<close>.

  A row of the table \<open>agents\<close> extends the fields that the reactor works with. bcrypt (\<open>gen\<close>, \<open>cmp\<close>), random
  keys, JSON validity and fosite's introspection are arguments. Users are a list of ids (foreign key).
\<close>

section \<open>Data\<close>

record reg_agent = Agent +
  ra_DisplayName :: string
  ra_Capabilities :: string
  ra_APIKeyHash :: string
  ra_CreatedAt :: timestamp
  ra_UpdatedAt :: timestamp

record Permissions =
  pe_Read :: bool
  pe_Write :: bool
  pe_Admin :: bool

text \<open>An expiry keeps the zone it was given in: the instant and the offset of its wall clock.\<close>

record APIKey =
  ky_ID :: id64
  ky_UserID :: id64
  ky_AgentID :: "id64 option"
  ky_Name :: string
  ky_KeyPrefix :: string
  ky_KeyHash :: string
  ky_Permissions :: Permissions
  ky_AllowedChannels :: "string list"
  ky_ReadOnly :: bool
  ky_ExpiresAt :: "(timestamp \<times> int) option"
  ky_LastUsedAt :: "timestamp option"
  ky_CreatedAt :: timestamp
  ky_RevokedAt :: "timestamp option"

record CreateKeyRequest =
  ck_UserID :: id64
  ck_AgentID :: "id64 option"
  ck_Name :: string
  ck_Permissions :: Permissions
  ck_AllowedChannels :: "string list option"
  ck_ReadOnly :: bool
  ck_ExpiresAt :: "(timestamp \<times> int) option"

record DeadLetter =
  dl_ID :: id64
  dl_OwnerID :: id64
  dl_OriginalMessageID :: id64
  dl_ToAgent :: string
  dl_FromAgent :: string
  dl_Body :: string
  dl_Subject :: string
  dl_Priority :: int
  dl_Metadata :: json
  dl_Acknowledged :: bool
  dl_CreatedAt :: timestamp

datatype reg_error =
    NameRequired
  | BadAgentType
  | BadCapabilities
  | AgentNotFound
  | NotOwner
  | InvalidAPIKey
  | InvalidKeyFormat
  | KeyNameRequired
  | KeyNotFound
  | LetterNotFound
  | ErrAgentUnowned
  | RegStatementFailed

datatype reg_stmt =
    AInsert | AGetName | AGetID | AUpdate | ADeactivate | AActive | AAllActive | AOwner | ASearch | AHuman | ATrigger | AImage
  | AHarness | AKeygen
  | KInsert | KList | KGet | KAuth | KRevoke | KUsed | KDelete
  | DQuery | DInsert | DList | DCount | DAck

text \<open>The key ids whose \<open>last_used_at\<close> a goroutine is still to note are kept in \<open>rg_bg\<close>.\<close>

record reg_db =
  rg_agents :: "reg_agent list"
  rg_agent_seq :: id64
  rg_keys :: "APIKey list"
  rg_key_seq :: id64
  rg_letters :: "DeadLetter list"
  rg_letter_seq :: id64
  rg_bg :: "id64 list"

section \<open>Agent store\<close>

definition new_agent :: "timestamp \<Rightarrow> id64 \<Rightarrow> string \<Rightarrow> string \<Rightarrow> string \<Rightarrow> string \<Rightarrow> id64 \<Rightarrow> string \<Rightarrow> reg_agent" where
  "new_agent now i name displayName ty caps ownerID hash =
     \<lparr>ag_ID = i, ag_Name = name, ag_Type = ty, ag_OwnerID = ownerID, ag_Active = True, ag_TriggerMode = ''passive'',
      ag_CooldownSeconds = 600, ag_DailyTriggerBudget = 8, ag_MaxTriggerDepth = 5, ag_K8sImage = '''', ag_K8sEnvJSON = '''',
      ag_K8sResourcePreset = ''default'', ag_PendingWork = False, ag_HarnessName = '''', ag_LocalCommand = '''',
      ag_HarnessConfigJSON = '''', ag_QuarantinedAt = None, ag_QuarantineReason = '''',
      ra_DisplayName = displayName, ra_Capabilities = (if caps = '''' then ''{}'' else caps), ra_APIKeyHash = hash,
      ra_CreatedAt = sql_now now, ra_UpdatedAt = sql_now now\<rparr>"

text \<open>Names are unique over all rows, active or not; the type is checked by the table.\<close>

definition CreateAgent ::
  "bool \<Rightarrow> timestamp \<Rightarrow> id64 list \<Rightarrow> string \<Rightarrow> string \<Rightarrow> string \<Rightarrow> string \<Rightarrow> id64 \<Rightarrow> string \<Rightarrow> reg_db \<Rightarrow> (reg_error + reg_agent) \<times> reg_db" where
  "CreateAgent failed now users name displayName ty caps ownerID hash db =
     (let a = new_agent now (rg_agent_seq db + 1) name displayName ty caps ownerID hash
      in if failed \<or> name \<in> set (map ag_Name (rg_agents db)) \<or> ty \<notin> {''ai'', ''human''} \<or> ownerID \<notin> set users
         then (Inl RegStatementFailed, db)
         else (Inr a, db\<lparr>rg_agents := rg_agents db @ [a], rg_agent_seq := rg_agent_seq db + 1\<rparr>))"

definition reg_GetAgentByName :: "bool \<Rightarrow> string \<Rightarrow> reg_db \<Rightarrow> reg_error + reg_agent" where
  "reg_GetAgentByName failed name db =
     (if failed then Inl RegStatementFailed
      else case find_row (\<lambda>a. ag_Name a = name \<and> ag_Active a) (rg_agents db) of None \<Rightarrow> Inl AgentNotFound | Some a \<Rightarrow> Inr a)"

definition reg_GetAgentByID :: "bool \<Rightarrow> id64 \<Rightarrow> reg_db \<Rightarrow> reg_error + reg_agent" where
  "reg_GetAgentByID failed i db =
     (if failed then Inl RegStatementFailed
      else case find_row (\<lambda>a. ag_ID a = i \<and> ag_Active a) (rg_agents db) of None \<Rightarrow> Inl AgentNotFound | Some a \<Rightarrow> Inr a)"

definition update_active :: "string \<Rightarrow> (reg_agent \<Rightarrow> reg_agent) \<Rightarrow> reg_db \<Rightarrow> reg_db" where
  "update_active name f db = db\<lparr>rg_agents := update_where (\<lambda>a. ag_Name a = name \<and> ag_Active a) f (rg_agents db)\<rparr>"

definition store_UpdateAgent :: "bool \<Rightarrow> timestamp \<Rightarrow> reg_agent \<Rightarrow> reg_db \<Rightarrow> (reg_error + unit) \<times> reg_db" where
  "store_UpdateAgent failed now agent db =
     (if failed then (Inl RegStatementFailed, db)
      else (Inr (), update_active (ag_Name agent)
             (\<lambda>a. a\<lparr>ra_DisplayName := ra_DisplayName agent,
                    ra_Capabilities := (if ra_Capabilities agent = '''' then ''{}'' else ra_Capabilities agent),
                    ra_APIKeyHash := ra_APIKeyHash agent, ra_UpdatedAt := sql_now now\<rparr>) db))"

definition DeactivateAgent :: "bool \<Rightarrow> timestamp \<Rightarrow> string \<Rightarrow> reg_db \<Rightarrow> (reg_error + unit) \<times> reg_db" where
  "DeactivateAgent failed now name db =
     (if failed then (Inl RegStatementFailed, db)
      else (if rows_affected (\<lambda>a. ag_Name a = name \<and> ag_Active a) (rg_agents db) = 0 then Inl AgentNotFound else Inr (),
            update_active name (\<lambda>a. a\<lparr>ag_Active := False, ra_UpdatedAt := sql_now now\<rparr>) db))"

definition active_agents :: "(reg_agent \<Rightarrow> bool) \<Rightarrow> reg_db \<Rightarrow> reg_agent list" where
  "active_agents P db = sort_key ag_Name (filter (\<lambda>a. ag_Active a \<and> P a) (rg_agents db))"

definition ListActiveAgents :: "bool \<Rightarrow> reg_db \<Rightarrow> reg_error + reg_agent list" where
  "ListActiveAgents failed db = (if failed then Inl RegStatementFailed else Inr (active_agents (\<lambda>a. True) db))"

definition ListAllActiveAgents :: "bool \<Rightarrow> reg_db \<Rightarrow> reg_error + reg_agent list" where
  "ListAllActiveAgents failed db = (if failed then Inl RegStatementFailed else Inr (active_agents (\<lambda>a. ag_Type a \<noteq> ''human'') db))"

definition ListAgentsByOwner :: "bool \<Rightarrow> id64 \<Rightarrow> reg_db \<Rightarrow> reg_error + reg_agent list" where
  "ListAgentsByOwner failed ownerID db = (if failed then Inl RegStatementFailed else Inr (active_agents (\<lambda>a. ag_OwnerID a = ownerID) db))"

definition ListReactiveAgents :: "bool \<Rightarrow> reg_db \<Rightarrow> reg_error + reg_agent list" where
  "ListReactiveAgents failed db = (if failed then Inl RegStatementFailed else Inr (active_agents (\<lambda>a. ag_TriggerMode a = ''reactive'') db))"

text \<open>SQLite's \<open>LIKE\<close>: \<open>%\<close> any text, \<open>_\<close> one character, ASCII letters without case.\<close>

fun sql_like :: "string \<Rightarrow> string \<Rightarrow> bool" where
  "sql_like [] s = (s = [])"
| "sql_like (p # ps) [] = (p = CHR ''%'' \<and> sql_like ps [])"
| "sql_like (p # ps) (c # s) =
     (if p = CHR ''%'' then sql_like ps (c # s) \<or> sql_like (p # ps) s
      else (p = CHR ''_'' \<or> to_lower_char p = to_lower_char c) \<and> sql_like ps s)"

definition SearchAgentsByCapability :: "bool \<Rightarrow> string \<Rightarrow> reg_db \<Rightarrow> reg_error + reg_agent list" where
  "SearchAgentsByCapability failed query db =
     (if failed then Inl RegStatementFailed
      else Inr (active_agents (\<lambda>a. sql_like (''%'' @ query @ ''%'') (ra_Capabilities a)) db))"

definition reg_GetHumanAgentByOwner :: "bool \<Rightarrow> id64 \<Rightarrow> reg_db \<Rightarrow> reg_error + reg_agent" where
  "reg_GetHumanAgentByOwner failed ownerID db =
     (if failed then Inl RegStatementFailed
      else case find_row (\<lambda>a. ag_OwnerID a = ownerID \<and> ag_Type a = ''human'' \<and> ag_Active a) (rg_agents db) of
             None \<Rightarrow> Inl AgentNotFound | Some a \<Rightarrow> Inr a)"

definition UpdateTriggerConfig :: "bool \<Rightarrow> timestamp \<Rightarrow> string \<Rightarrow> string \<Rightarrow> int \<Rightarrow> int \<Rightarrow> int \<Rightarrow> reg_db \<Rightarrow> (reg_error + unit) \<times> reg_db" where
  "UpdateTriggerConfig failed now name mode cooldown budget maxDepth db =
     (if failed then (Inl RegStatementFailed, db)
      else (Inr (), update_active name (\<lambda>a. a\<lparr>ag_TriggerMode := mode, ag_CooldownSeconds := cooldown, ag_DailyTriggerBudget := budget,
                                              ag_MaxTriggerDepth := maxDepth, ra_UpdatedAt := sql_now now\<rparr>) db))"

definition UpdateK8sImage :: "bool \<Rightarrow> timestamp \<Rightarrow> string \<Rightarrow> string \<Rightarrow> string \<Rightarrow> string \<Rightarrow> reg_db \<Rightarrow> (reg_error + unit) \<times> reg_db" where
  "UpdateK8sImage failed now name img envJSON preset db =
     (if failed then (Inl RegStatementFailed, db)
      else (Inr (), update_active name (\<lambda>a. a\<lparr>ag_K8sImage := img, ag_K8sEnvJSON := envJSON, ag_K8sResourcePreset := preset,
                                              ra_UpdatedAt := sql_now now\<rparr>) db))"

text \<open>An empty text leaves a field, a dash clears it; a cleared field reads as empty.\<close>

definition patch :: "string \<Rightarrow> string \<Rightarrow> string" where
  "patch new old = (if new = '''' then old else if new = ''-'' then '''' else new)"

definition UpdateHarnessConfig :: "bool \<Rightarrow> timestamp \<Rightarrow> string \<Rightarrow> string \<Rightarrow> string \<Rightarrow> string \<Rightarrow> reg_db \<Rightarrow> (reg_error + unit) \<times> reg_db" where
  "UpdateHarnessConfig failed now name harnessName localCommand harnessConfigJSON db =
     (if harnessName = '''' \<and> localCommand = '''' \<and> harnessConfigJSON = '''' then (Inr (), db)
      else if failed then (Inl RegStatementFailed, db)
      else (if rows_affected (\<lambda>a. ag_Name a = name \<and> ag_Active a) (rg_agents db) = 0 then Inl AgentNotFound else Inr (),
            update_active name (\<lambda>a. a\<lparr>ag_HarnessName := patch harnessName (ag_HarnessName a),
              ag_LocalCommand := patch localCommand (ag_LocalCommand a),
              ag_HarnessConfigJSON := patch harnessConfigJSON (ag_HarnessConfigJSON a), ra_UpdatedAt := sql_now now\<rparr>) db))"

definition OwnerFor :: "bool \<Rightarrow> string \<Rightarrow> reg_db \<Rightarrow> reg_error + string" where
  "OwnerFor failed agentName db =
     (if failed then Inl RegStatementFailed
      else case find_row (\<lambda>a. ag_Name a = agentName) (rg_agents db) of
             None \<Rightarrow> Inl AgentNotFound
           | Some a \<Rightarrow> if ag_OwnerID a = 0 then Inl ErrAgentUnowned else Inr (show_int (ag_OwnerID a)))"

section \<open>Dead letters\<close>

text \<open>Copies of what was still pending or being processed; the messages themselves stay as they are.\<close>

definition undelivered :: "string \<Rightarrow> Message \<Rightarrow> bool" where
  "undelivered agentName m \<longleftrightarrow> msg_ToAgent m = Some agentName \<and> msg_Status m \<in> {MPending, MProcessing}"

definition subject_of :: "Conversation list \<Rightarrow> Message \<Rightarrow> string" where
  "subject_of convs m = (case find_row (\<lambda>c. cv_ID c = msg_ConversationID m) convs of None \<Rightarrow> '''' | Some c \<Rightarrow> cv_Subject c)"

fun dead_letters :: "timestamp \<Rightarrow> id64 \<Rightarrow> string \<Rightarrow> Conversation list \<Rightarrow> id64 \<Rightarrow> Message list \<Rightarrow> DeadLetter list" where
  "dead_letters now ownerID agentName convs i [] = []"
| "dead_letters now ownerID agentName convs i (m # ms) =
     \<lparr>dl_ID = i + 1, dl_OwnerID = ownerID, dl_OriginalMessageID = msg_ID m, dl_ToAgent = agentName, dl_FromAgent = msg_FromAgent m,
      dl_Body = msg_Body m, dl_Subject = subject_of convs m, dl_Priority = msg_Priority m, dl_Metadata = msg_Metadata m,
      dl_Acknowledged = False, dl_CreatedAt = sql_now now\<rparr> # dead_letters now ownerID agentName convs (i + 1) ms"

text \<open>One transaction; the owner must be a user.\<close>

definition CaptureDeadLetters ::
  "(reg_stmt \<Rightarrow> bool) \<Rightarrow> timestamp \<Rightarrow> id64 list \<Rightarrow> msg_db \<Rightarrow> id64 \<Rightarrow> string \<Rightarrow> reg_db \<Rightarrow> (reg_error + nat) \<times> reg_db" where
  "CaptureDeadLetters flt now users md ownerID agentName db =
     (if flt DQuery then (Inl RegStatementFailed, db)
      else let ms = filter (undelivered agentName) (md_msgs md)
        in if ms = [] then (Inr 0, db)
           else if flt DInsert \<or> ownerID \<notin> set users then (Inl RegStatementFailed, db)
           else (Inr (length ms), db\<lparr>rg_letters := rg_letters db @ dead_letters now ownerID agentName (md_convs md) (rg_letter_seq db) ms,
                                     rg_letter_seq := rg_letter_seq db + int (length ms)\<rparr>))"

definition CountUnacknowledged :: "bool \<Rightarrow> id64 \<Rightarrow> reg_db \<Rightarrow> reg_error + nat" where
  "CountUnacknowledged failed ownerID db =
     (if failed then Inl RegStatementFailed
      else Inr (rows_affected (\<lambda>d. dl_OwnerID d = ownerID \<and> \<not> dl_Acknowledged d) (rg_letters db)))"

definition ListDeadLetters :: "(reg_stmt \<Rightarrow> bool) \<Rightarrow> id64 \<Rightarrow> bool \<Rightarrow> int \<Rightarrow> reg_db \<Rightarrow> reg_error + DeadLetter list \<times> nat" where
  "ListDeadLetters flt ownerID includeAcknowledged limit db =
     (if flt DList then Inl RegStatementFailed
      else let rows = limit_offset (if limit \<le> 0 then 50 else limit) 0
             (sort_key (\<lambda>d. - dl_CreatedAt d)
               (filter (\<lambda>d. dl_OwnerID d = ownerID \<and> (includeAcknowledged \<or> \<not> dl_Acknowledged d)) (rg_letters db)))
        in case CountUnacknowledged (flt DCount) ownerID db of Inl e \<Rightarrow> Inl e | Inr n \<Rightarrow> Inr (rows, n))"

definition AcknowledgeDeadLetter :: "bool \<Rightarrow> id64 \<Rightarrow> id64 \<Rightarrow> reg_db \<Rightarrow> (reg_error + unit) \<times> reg_db" where
  "AcknowledgeDeadLetter failed i ownerID db =
     (if failed then (Inl RegStatementFailed, db)
      else (if rows_affected (\<lambda>d. dl_ID d = i \<and> dl_OwnerID d = ownerID) (rg_letters db) = 0 then Inl LetterNotFound else Inr (),
            db\<lparr>rg_letters := update_where (\<lambda>d. dl_ID d = i \<and> dl_OwnerID d = ownerID) (\<lambda>d. d\<lparr>dl_Acknowledged := True\<rparr>) (rg_letters db)\<rparr>))"

section \<open>Agent service\<close>

text \<open>What is fixed outside: faults, clock, users, hashing and JSON validity.\<close>

record reg_env =
  rn_flt :: "reg_stmt \<Rightarrow> bool"
  rn_now :: timestamp
  rn_users :: "id64 list"
  rn_gen :: "string \<Rightarrow> string option"
  rn_cmp :: "string \<Rightarrow> string \<Rightarrow> bool"
  rn_json :: "string \<Rightarrow> bool"

text \<open>\<open>key\<close> is the random API key, if the generator works.\<close>

definition Register ::
  "reg_env \<Rightarrow> string option \<Rightarrow> string \<Rightarrow> string \<Rightarrow> string \<Rightarrow> string \<Rightarrow> id64 \<Rightarrow> reg_db \<Rightarrow> (reg_error + reg_agent \<times> string) \<times> reg_db" where
  "Register env key name displayName agentType capabilities ownerID db =
     (let ty = (if agentType = '''' then ''ai'' else agentType);
          caps = (if capabilities = '''' then ''{}'' else capabilities)
      in if name = '''' then (Inl NameRequired, db)
         else if ty \<noteq> ''ai'' \<and> ty \<noteq> ''human'' then (Inl BadAgentType, db)
         else if \<not> rn_json env caps then (Inl BadCapabilities, db)
         else case key of
                None \<Rightarrow> (Inl RegStatementFailed, db)
              | Some k \<Rightarrow>
                  (case rn_gen env k of
                     None \<Rightarrow> (Inl RegStatementFailed, db)
                   | Some hash \<Rightarrow>
                       (case CreateAgent (rn_flt env AInsert) (rn_now env) (rn_users env) name displayName ty caps ownerID hash db of
                          (Inl e, db') \<Rightarrow> (Inl e, db')
                        | (Inr a, db') \<Rightarrow> (Inr (a, k), db'))))"

definition Authenticate :: "reg_env \<Rightarrow> string \<Rightarrow> reg_db \<Rightarrow> reg_error + reg_agent" where
  "Authenticate env apiKey db =
     (case ListActiveAgents (rn_flt env AActive) db of
        Inl e \<Rightarrow> Inl e
      | Inr rows \<Rightarrow> (case find (\<lambda>a. rn_cmp env (ra_APIKeyHash a) apiKey) rows of None \<Rightarrow> Inl InvalidAPIKey | Some a \<Rightarrow> Inr a))"

definition UpdateAgent :: "reg_env \<Rightarrow> string \<Rightarrow> string \<Rightarrow> string \<Rightarrow> reg_db \<Rightarrow> (reg_error + reg_agent) \<times> reg_db" where
  "UpdateAgent env name displayName capabilities db =
     (case reg_GetAgentByName (rn_flt env AGetName) name db of
        Inl e \<Rightarrow> (Inl e, db)
      | Inr a \<Rightarrow>
          let a1 = (if displayName \<noteq> '''' then a\<lparr>ra_DisplayName := displayName\<rparr> else a)
          in if capabilities \<noteq> '''' \<and> \<not> rn_json env capabilities then (Inl BadCapabilities, db)
             else let a2 = (if capabilities \<noteq> '''' then a1\<lparr>ra_Capabilities := capabilities\<rparr> else a1)
               in case store_UpdateAgent (rn_flt env AUpdate) (rn_now env) a2 db of
                    (Inl e, db') \<Rightarrow> (Inl e, db') | (Inr _, db') \<Rightarrow> (Inr a2, db'))"

text \<open>Only the owner; a failure to capture the dead letters does not stop it. \<open>letters\<close>: a dead letter store is set.\<close>

definition Deregister ::
  "reg_env \<Rightarrow> bool \<Rightarrow> msg_db \<Rightarrow> string \<Rightarrow> id64 \<Rightarrow> reg_db \<Rightarrow> (reg_error + unit) \<times> reg_db" where
  "Deregister env letters md name ownerID db =
     (case reg_GetAgentByName (rn_flt env AGetName) name db of
        Inl e \<Rightarrow> (Inl e, db)
      | Inr a \<Rightarrow>
          if ag_OwnerID a \<noteq> ownerID then (Inl NotOwner, db)
          else let db1 = (if letters then snd (CaptureDeadLetters (rn_flt env) (rn_now env) (rn_users env) md (ag_OwnerID a) name db) else db)
            in DeactivateAgent (rn_flt env ADeactivate) (rn_now env) name db1)"

definition DiscoverAgents :: "reg_env \<Rightarrow> string \<Rightarrow> reg_db \<Rightarrow> reg_error + reg_agent list" where
  "DiscoverAgents env query db =
     (if query = '''' then ListActiveAgents (rn_flt env AActive) db else SearchAgentsByCapability (rn_flt env ASearch) query db)"

definition RevokeKey :: "reg_env \<Rightarrow> string option \<Rightarrow> string \<Rightarrow> id64 \<Rightarrow> reg_db \<Rightarrow> (reg_error + reg_agent \<times> string) \<times> reg_db" where
  "RevokeKey env key name ownerID db =
     (case reg_GetAgentByName (rn_flt env AGetName) name db of
        Inl e \<Rightarrow> (Inl e, db)
      | Inr a \<Rightarrow>
          if ag_OwnerID a \<noteq> ownerID then (Inl NotOwner, db)
          else case key of
                 None \<Rightarrow> (Inl RegStatementFailed, db)
               | Some k \<Rightarrow>
                   (case rn_gen env k of
                      None \<Rightarrow> (Inl RegStatementFailed, db)
                    | Some hash \<Rightarrow>
                        (case store_UpdateAgent (rn_flt env AUpdate) (rn_now env) (a\<lparr>ra_APIKeyHash := hash\<rparr>) db of
                           (Inl e, db') \<Rightarrow> (Inl e, db') | (Inr _, db') \<Rightarrow> (Inr (a\<lparr>ra_APIKeyHash := hash\<rparr>, k), db'))))"

definition GetHumanAgentForUser :: "reg_env \<Rightarrow> id64 \<Rightarrow> reg_db \<Rightarrow> reg_error + reg_agent option" where
  "GetHumanAgentForUser env ownerID db =
     (case reg_GetHumanAgentByOwner (rn_flt env AHuman) ownerID db of
        Inl e \<Rightarrow> if e = AgentNotFound then Inr None else Inl e | Inr a \<Rightarrow> Inr (Some a))"

text \<open>The user's human agent, made under the user's name or with a suffix; both attempts may fail.\<close>

definition EnsureHumanAgent ::
  "reg_env \<Rightarrow> string option \<Rightarrow> string option \<Rightarrow> string \<Rightarrow> string \<Rightarrow> id64 \<Rightarrow> reg_db \<Rightarrow> (reg_error + reg_agent option) \<times> reg_db" where
  "EnsureHumanAgent env key key2 username displayName ownerID db =
     (case ListAgentsByOwner (rn_flt env AOwner) ownerID db of
        Inl e \<Rightarrow> (Inl e, db)
      | Inr rows \<Rightarrow>
          (case find (\<lambda>a. ag_Type a = ''human'' \<and> ag_Active a) rows of
             Some a \<Rightarrow> (Inr (Some a), db)
           | None \<Rightarrow>
               let dn = (if displayName = '''' then username else displayName)
               in case Register env key username dn ''human'' '''' ownerID db of
                    (Inr (a, _), db') \<Rightarrow> (Inr (Some a), db')
                  | (Inl _, db') \<Rightarrow>
                      (case Register env key2 (username @ ''-human'') dn ''human'' '''' ownerID db' of
                         (Inr (a, _), db'') \<Rightarrow> (Inr (Some a), db'') | (Inl _, db'') \<Rightarrow> (Inr None, db''))))"

definition EnsureSystemAgent :: "reg_env \<Rightarrow> string option \<Rightarrow> id64 \<Rightarrow> reg_db \<Rightarrow> (reg_error + reg_agent) \<times> reg_db" where
  "EnsureSystemAgent env key ownerID db =
     (case reg_GetAgentByName (rn_flt env AGetName) ''system'' db of
        Inr a \<Rightarrow> (Inr a, db)
      | Inl _ \<Rightarrow>
          (case Register env key ''system'' ''System'' ''ai'' (CHR ''{'' # CHR 0x22 # ''role'' @ [CHR 0x22, CHR '':'', CHR 0x22] @
                   ''system-notifications'' @ [CHR 0x22, CHR ''}'']) ownerID db of
             (Inr (a, _), db') \<Rightarrow> (Inr a, db')
           | (Inl e, db') \<Rightarrow>
               (case reg_GetAgentByName (rn_flt env AGetName) ''system'' db' of Inr a \<Rightarrow> (Inr a, db') | Inl _ \<Rightarrow> (Inl e, db'))))"

section \<open>Managed keys\<close>

definition has_prefix :: "string \<Rightarrow> string \<Rightarrow> bool" where
  "has_prefix p s = (take (length p) s = p)"

text \<open>
  \<open>raw\<close> is the key with 48 random hex digits. The column \<open>expires_at\<close> holds the wall clock of the given zone, which SQL compares
  as text with the clock in UTC: what counts is the second shown.
\<close>

definition key_row :: "timestamp \<Rightarrow> id64 \<Rightarrow> string \<Rightarrow> string \<Rightarrow> CreateKeyRequest \<Rightarrow> APIKey" where
  "key_row now i h hash req =
     \<lparr>ky_ID = i, ky_UserID = ck_UserID req, ky_AgentID = ck_AgentID req, ky_Name = ck_Name req, ky_KeyPrefix = ''sb_'' @ take 8 h,
      ky_KeyHash = hash, ky_Permissions = ck_Permissions req, ky_AllowedChannels = case_option [] id (ck_AllowedChannels req),
      ky_ReadOnly = ck_ReadOnly req, ky_ExpiresAt = ck_ExpiresAt req, ky_LastUsedAt = None, ky_CreatedAt = sql_now now, ky_RevokedAt = None\<rparr>"

definition store_CreateKey ::
  "(reg_stmt \<Rightarrow> bool) \<Rightarrow> (string \<Rightarrow> string option) \<Rightarrow> timestamp \<Rightarrow> id64 list \<Rightarrow> string option \<Rightarrow> CreateKeyRequest \<Rightarrow> reg_db \<Rightarrow>
   (reg_error + APIKey \<times> string) \<times> reg_db" where
  "store_CreateKey flt gen now users hex req db =
     (case hex of
        None \<Rightarrow> (Inl RegStatementFailed, db)
      | Some h \<Rightarrow>
          (case gen (''sb_'' @ h) of
             None \<Rightarrow> (Inl RegStatementFailed, db)
           | Some hash \<Rightarrow>
               let k = key_row now (rg_key_seq db + 1) h hash req
               in if flt KInsert \<or> ck_UserID req \<notin> set users \<or>
                     (case ck_AgentID req of None \<Rightarrow> False | Some i \<Rightarrow> i \<notin> set (map ag_ID (rg_agents db)))
                  then (Inl RegStatementFailed, db)
                  else (Inr (k\<lparr>ky_KeyHash := '''', ky_CreatedAt := now\<rparr>, ''sb_'' @ h),
                        db\<lparr>rg_keys := rg_keys db @ [k], rg_key_seq := rg_key_seq db + 1\<rparr>)))"

definition ListKeys :: "bool \<Rightarrow> id64 \<Rightarrow> reg_db \<Rightarrow> reg_error + APIKey list" where
  "ListKeys failed userID db =
     (if failed then Inl RegStatementFailed
      else Inr (sort_key (\<lambda>k. - ky_CreatedAt k) (filter (\<lambda>k. ky_UserID k = userID \<and> ky_RevokedAt k = None) (rg_keys db))))"

definition key_GetByID :: "bool \<Rightarrow> id64 \<Rightarrow> reg_db \<Rightarrow> reg_error + APIKey" where
  "key_GetByID failed i db =
     (if failed then Inl RegStatementFailed
      else case find_row (\<lambda>k. ky_ID k = i) (rg_keys db) of None \<Rightarrow> Inl KeyNotFound | Some k \<Rightarrow> Inr k)"

definition unexpired :: "timestamp \<Rightarrow> APIKey \<Rightarrow> bool" where
  "unexpired now k = (case ky_ExpiresAt k of None \<Rightarrow> True | Some (t, off) \<Rightarrow> now div nanosec \<le> (t + off) div nanosec)"

definition store_key_Authenticate :: "bool \<Rightarrow> (string \<Rightarrow> string \<Rightarrow> bool) \<Rightarrow> timestamp \<Rightarrow> string \<Rightarrow> reg_db \<Rightarrow> reg_error + APIKey" where
  "store_key_Authenticate failed cmp now raw db =
     (if length raw < 11 then Inl InvalidKeyFormat
      else if failed then Inl RegStatementFailed
      else case find (\<lambda>k. cmp (ky_KeyHash k) raw)
                  (filter (\<lambda>k. ky_KeyPrefix k = take 11 raw \<and> ky_RevokedAt k = None \<and> unexpired now k) (rg_keys db)) of
             None \<Rightarrow> Inl InvalidAPIKey | Some k \<Rightarrow> Inr k)"

definition store_key_Revoke :: "bool \<Rightarrow> timestamp \<Rightarrow> id64 \<Rightarrow> reg_db \<Rightarrow> (reg_error + unit) \<times> reg_db" where
  "store_key_Revoke failed now i db =
     (if failed then (Inl RegStatementFailed, db)
      else (if rows_affected (\<lambda>k. ky_ID k = i \<and> ky_RevokedAt k = None) (rg_keys db) = 0 then Inl KeyNotFound else Inr (),
            db\<lparr>rg_keys := update_where (\<lambda>k. ky_ID k = i \<and> ky_RevokedAt k = None) (\<lambda>k. k\<lparr>ky_RevokedAt := Some (sql_now now)\<rparr>) (rg_keys db)\<rparr>))"

definition UpdateLastUsed :: "bool \<Rightarrow> timestamp \<Rightarrow> id64 \<Rightarrow> reg_db \<Rightarrow> reg_db" where
  "UpdateLastUsed failed now i db =
     (if failed then db
      else db\<lparr>rg_keys := update_where (\<lambda>k. ky_ID k = i) (\<lambda>k. k\<lparr>ky_LastUsedAt := Some (sql_now now)\<rparr>) (rg_keys db)\<rparr>)"

definition store_key_Delete :: "bool \<Rightarrow> id64 \<Rightarrow> reg_db \<Rightarrow> (reg_error + unit) \<times> reg_db" where
  "store_key_Delete failed i db =
     (if failed then (Inl RegStatementFailed, db)
      else (if rows_affected (\<lambda>k. ky_ID k = i) (rg_keys db) = 0 then Inl KeyNotFound else Inr (),
            db\<lparr>rg_keys := delete_where (\<lambda>k. ky_ID k = i) (rg_keys db)\<rparr>))"

definition CreateKey ::
  "reg_env \<Rightarrow> string option \<Rightarrow> CreateKeyRequest \<Rightarrow> reg_db \<Rightarrow> (reg_error + APIKey \<times> string) \<times> reg_db" where
  "CreateKey env hex req db =
     (if trim_space (ck_Name req) = '''' then (Inl KeyNameRequired, db)
      else store_CreateKey (rn_flt env) (rn_gen env) (rn_now env) (rn_users env) hex req db)"

text \<open>A hit queues the note of its use.\<close>

definition key_Authenticate :: "reg_env \<Rightarrow> string \<Rightarrow> reg_db \<Rightarrow> (reg_error + APIKey) \<times> reg_db" where
  "key_Authenticate env raw db =
     (if \<not> has_prefix ''sb_'' raw then (Inl InvalidKeyFormat, db)
      else case store_key_Authenticate (rn_flt env KAuth) (rn_cmp env) (rn_now env) raw db of
             Inl e \<Rightarrow> (Inl e, db) | Inr k \<Rightarrow> (Inr k, db\<lparr>rg_bg := rg_bg db @ [ky_ID k]\<rparr>))"

section \<open>Who an MCP request comes from\<close>

record mcp_context =
  mx_Agent :: "reg_agent option"
  mx_APIKey :: "APIKey option"
  mx_OwnerID :: string

text \<open>The token of the header, if it has the bearer form.\<close>

definition bearer_token :: "string \<Rightarrow> string option" where
  "bearer_token header =
     (case cut_space header of None \<Rightarrow> None | Some (scheme, token) \<Rightarrow> if to_lower scheme = ''bearer'' then Some token else None)"

definition no_context :: mcp_context where
  "no_context = \<lparr>mx_Agent = None, mx_APIKey = None, mx_OwnerID = ''''\<rparr>"

text \<open>
  The first two steps of every middleware: agent keys, then managed keys. \<open>keys\<close> says that the service for managed keys is set; the
  agent of a managed key is looked up by its id and may be missing.
\<close>

definition key_identity :: "reg_env \<Rightarrow> bool \<Rightarrow> string \<Rightarrow> reg_db \<Rightarrow> mcp_context option \<times> reg_db" where
  "key_identity env keys token db =
     (case Authenticate env token db of
        Inr a \<Rightarrow> (Some (no_context\<lparr>mx_Agent := Some a, mx_OwnerID := show_int (ag_OwnerID a)\<rparr>), db)
      | Inl _ \<Rightarrow>
          if keys \<and> has_prefix ''sb_'' token
          then (case key_Authenticate env token db of
                  (Inl e, db') \<Rightarrow> (None, db')
                | (Inr k, db') \<Rightarrow>
                    (Some \<lparr>mx_Agent = (case ky_AgentID k of
                                         None \<Rightarrow> None
                                       | Some i \<Rightarrow> (case reg_GetAgentByID (rn_flt env AGetID) i db' of Inl e \<Rightarrow> None | Inr a \<Rightarrow> Some a)),
                           mx_APIKey = Some k, mx_OwnerID = show_int (ky_UserID k)\<rparr>, db'))
          else (None, db))"

definition OptionalAuthMiddlewareWithAPIKeys :: "reg_env \<Rightarrow> bool \<Rightarrow> string \<Rightarrow> reg_db \<Rightarrow> (int + mcp_context) \<times> reg_db" where
  "OptionalAuthMiddlewareWithAPIKeys env keys header db =
     (case bearer_token header of
        None \<Rightarrow> (Inr no_context, db)
      | Some token \<Rightarrow> (case key_identity env keys token db of (None, db') \<Rightarrow> (Inl 401, db') | (Some cx, db') \<Rightarrow> (Inr cx, db')))"

definition AuthMiddlewareWithAPIKeys :: "reg_env \<Rightarrow> bool \<Rightarrow> string \<Rightarrow> reg_db \<Rightarrow> (int + mcp_context) \<times> reg_db" where
  "AuthMiddlewareWithAPIKeys env keys header db =
     (case bearer_token header of
        None \<Rightarrow> (Inl 401, db)
      | Some token \<Rightarrow> (case key_identity env keys token db of (None, db') \<Rightarrow> (Inl 401, db') | (Some cx, db') \<Rightarrow> (Inr cx, db')))"

text \<open>An access token counts if its session names an agent.\<close>

definition resolveOAuthToken :: "(string \<Rightarrow> (string \<times> fositeSession) option) \<Rightarrow> string \<Rightarrow> (string \<times> string) option" where
  "resolveOAuthToken introspect token =
     (case introspect token of
        None \<Rightarrow> None
      | Some (client, s) \<Rightarrow>
          if fs_AgentName s = '''' then None
          else Some (fs_AgentName s, if 0 < fs_UserID s then show_int (fs_UserID s) else ''''))"

definition RequiredAuthMiddlewareWithOAuth ::
  "reg_env \<Rightarrow> bool \<Rightarrow> (string \<Rightarrow> (string \<times> fositeSession) option) option \<Rightarrow> string \<Rightarrow> reg_db \<Rightarrow> (int + mcp_context) \<times> reg_db" where
  "RequiredAuthMiddlewareWithOAuth env keys oauthProvider header db =
     (case oauthProvider of
        None \<Rightarrow> AuthMiddlewareWithAPIKeys env keys header db
      | Some introspect \<Rightarrow>
          (case bearer_token header of
             None \<Rightarrow> (Inl 401, db)
           | Some token \<Rightarrow>
               (case key_identity env keys token db of
                  (Some cx, db') \<Rightarrow> (Inr cx, db')
                | (None, db') \<Rightarrow>
                    (case resolveOAuthToken introspect token of
                       None \<Rightarrow> (Inl 401, db')
                     | Some (agentName, ownerID) \<Rightarrow>
                         (Inr \<lparr>mx_Agent = (case reg_GetAgentByName (rn_flt env AGetName) agentName db' of Inl e \<Rightarrow> None | Inr a \<Rightarrow> Some a),
                               mx_APIKey = None, mx_OwnerID = ownerID\<rparr>, db')))))"

text \<open>The name that MCP tools act under; \<open>name\<close> is one set by the MCP layer itself.\<close>

definition extractAgentName :: "string option \<Rightarrow> mcp_context \<Rightarrow> string option" where
  "extractAgentName name cx = (case name of Some n \<Rightarrow> Some n | None \<Rightarrow> map_option ag_Name (mx_Agent cx))"

section \<open>The API handlers\<close>

text \<open>What a signed-in owner can ask for; bodies are parsed JSON.\<close>

definition api_RegisterAgent ::
  "reg_env \<Rightarrow> string option \<Rightarrow> id64 \<Rightarrow> (string \<times> string \<times> string \<times> string) option \<Rightarrow> reg_db \<Rightarrow> int \<times> reg_db" where
  "api_RegisterAgent env key ownerID body db =
     (case body of
        None \<Rightarrow> (400, db)
      | Some (name, displayName, ty, caps) \<Rightarrow>
          if name = '''' then (400, db)
          else case Register env key name displayName ty caps ownerID db of (Inl e, db') \<Rightarrow> (400, db') | (Inr _, db') \<Rightarrow> (201, db'))"

definition api_UpdateAgent :: "reg_env \<Rightarrow> id64 \<Rightarrow> string \<Rightarrow> (string \<times> string) option \<Rightarrow> reg_db \<Rightarrow> int \<times> reg_db" where
  "api_UpdateAgent env ownerID name body db =
     (case reg_GetAgentByName (rn_flt env AGetName) name db of
        Inl e \<Rightarrow> (404, db)
      | Inr a \<Rightarrow>
          if ag_OwnerID a \<noteq> ownerID then (403, db)
          else case body of
                 None \<Rightarrow> (400, db)
               | Some (displayName, caps) \<Rightarrow>
                   (case UpdateAgent env name displayName caps db of (Inl e, db') \<Rightarrow> (400, db') | (Inr _, db') \<Rightarrow> (200, db')))"

definition api_DeleteAgent :: "reg_env \<Rightarrow> bool \<Rightarrow> msg_db \<Rightarrow> id64 \<Rightarrow> string \<Rightarrow> reg_db \<Rightarrow> int \<times> reg_db" where
  "api_DeleteAgent env letters md ownerID name db =
     (case Deregister env letters md name ownerID db of (Inl e, db') \<Rightarrow> (400, db') | (Inr _, db') \<Rightarrow> (200, db'))"

definition api_agent_RevokeKey :: "reg_env \<Rightarrow> string option \<Rightarrow> id64 \<Rightarrow> string \<Rightarrow> reg_db \<Rightarrow> int \<times> reg_db" where
  "api_agent_RevokeKey env key ownerID name db =
     (case RevokeKey env key name ownerID db of (Inl e, db') \<Rightarrow> (400, db') | (Inr _, db') \<Rightarrow> (200, db'))"

text \<open>The request carries the user of the session; its agent id is taken as it comes. \<open>expires\<close> is \<open>Some None\<close> when it does not parse.\<close>

definition api_CreateKey ::
  "reg_env \<Rightarrow> string option \<Rightarrow> id64 \<Rightarrow> (CreateKeyRequest \<times> (timestamp \<times> int) option option) option \<Rightarrow> reg_db \<Rightarrow> int \<times> reg_db" where
  "api_CreateKey env hex ownerID body db =
     (case body of
        None \<Rightarrow> (400, db)
      | Some (req, expires) \<Rightarrow>
          if ck_Name req = '''' \<or> expires = Some None then (400, db)
          else case CreateKey env hex (req\<lparr>ck_UserID := ownerID, ck_ExpiresAt := Option.bind expires id\<rparr>) db of
                 (Inl e, db') \<Rightarrow> (400, db') | (Inr _, db') \<Rightarrow> (201, db'))"

definition api_RevokeKey :: "reg_env \<Rightarrow> id64 \<Rightarrow> id64 option \<Rightarrow> reg_db \<Rightarrow> int \<times> reg_db" where
  "api_RevokeKey env ownerID keyID db =
     (case keyID of
        None \<Rightarrow> (400, db)
      | Some i \<Rightarrow>
          (case key_GetByID (rn_flt env KGet) i db of
             Inl e \<Rightarrow> (404, db)
           | Inr k \<Rightarrow>
               if ky_UserID k \<noteq> ownerID then (403, db)
               else case store_key_Revoke (rn_flt env KRevoke) (rn_now env) i db of (Inl e, db') \<Rightarrow> (400, db') | (Inr _, db') \<Rightarrow> (200, db')))"

datatype api_op =
    ApRegister "string option" "(string \<times> string \<times> string \<times> string) option"
  | ApUpdate string "(string \<times> string) option"
  | ApDelete bool msg_db string
  | ApRevokeAgentKey "string option" string
  | ApCreateKey "string option" "(CreateKeyRequest \<times> (timestamp \<times> int) option option) option"
  | ApRevokeKey "id64 option"
  | ApAcknowledge id64
  | ApSignIn "string option" "string option" string string

fun api_exec :: "reg_env \<Rightarrow> id64 \<Rightarrow> api_op \<Rightarrow> reg_db \<Rightarrow> reg_db" where
  "api_exec env me (ApRegister key body) db = snd (api_RegisterAgent env key me body db)"
| "api_exec env me (ApUpdate name body) db = snd (api_UpdateAgent env me name body db)"
| "api_exec env me (ApDelete letters md name) db = snd (api_DeleteAgent env letters md me name db)"
| "api_exec env me (ApRevokeAgentKey key name) db = snd (api_agent_RevokeKey env key me name db)"
| "api_exec env me (ApCreateKey hex body) db = snd (api_CreateKey env hex me body db)"
| "api_exec env me (ApRevokeKey i) db = snd (api_RevokeKey env me i db)"
| "api_exec env me (ApAcknowledge i) db = snd (AcknowledgeDeadLetter (rn_flt env DAck) i me db)"
| "api_exec env me (ApSignIn key key2 username displayName) db = snd (EnsureHumanAgent env key key2 username displayName me db)"

text \<open>Everything that changes the registry: owners, MCP requests, the admin socket, start-up and goroutines.\<close>

datatype reg_op =
    RoApi reg_env id64 api_op
  | RoRequest reg_env bool "(string \<Rightarrow> (string \<times> fositeSession) option) option" string
  | RoTrigger bool timestamp string string int int int
  | RoImage bool timestamp string string string string
  | RoHarness bool timestamp string string string string
  | RoSystem reg_env "string option" id64
  | RoUsed bool timestamp nat
  | RoDeleteKey bool id64

fun reg_exec :: "reg_op \<Rightarrow> reg_db \<Rightarrow> reg_db" where
  "reg_exec (RoApi env me op) db = api_exec env me op db"
| "reg_exec (RoRequest env keys prov header) db = snd (RequiredAuthMiddlewareWithOAuth env keys prov header db)"
| "reg_exec (RoTrigger f now name mode cd budget depth) db = snd (UpdateTriggerConfig f now name mode cd budget depth db)"
| "reg_exec (RoImage f now name img envj preset) db = snd (UpdateK8sImage f now name img envj preset db)"
| "reg_exec (RoHarness f now name h l c) db = snd (UpdateHarnessConfig f now name h l c db)"
| "reg_exec (RoSystem env key owner) db = snd (EnsureSystemAgent env key owner db)"
| "reg_exec (RoUsed f now k) db =
     (if k < length (rg_bg db) then UpdateLastUsed f now (rg_bg db ! k) (db\<lparr>rg_bg := remove_nth k (rg_bg db)\<rparr>) else db)"
| "reg_exec (RoDeleteKey f i) db = snd (store_key_Delete f i db)"

definition reg_empty :: reg_db where
  "reg_empty = \<lparr>rg_agents = [], rg_agent_seq = 0, rg_keys = [], rg_key_seq = 0, rg_letters = [], rg_letter_seq = 0, rg_bg = []\<rparr>"

section \<open>Invariant\<close>

definition reg_inv :: "reg_db \<Rightarrow> bool" where
  "reg_inv db \<longleftrightarrow> ids_ok ag_ID (rg_agent_seq db) (rg_agents db) \<and> distinct (map ag_Name (rg_agents db)) \<and>
     ids_ok ky_ID (rg_key_seq db) (rg_keys db)"

text \<open>
  What happens to the agents: active rows change in place and keep id, name and owner, or a row with a new name is
  appended. With \<open>Some me\<close> only rows of that owner are concerned.
\<close>

definition concerns :: "id64 option \<Rightarrow> id64 \<Rightarrow> bool" where
  "concerns me owner \<longleftrightarrow> me = None \<or> me = Some owner"

lemma concerns_simps [simp]: "concerns None owner" "concerns (Some me) owner \<longleftrightarrow> owner = me"
  by (auto simp: concerns_def)

inductive agent_change :: "id64 option \<Rightarrow> reg_agent list \<Rightarrow> reg_agent list \<Rightarrow> bool" where
  unchanged: "agent_change me as as"
| changed: "(\<And>a. a \<in> set as \<Longrightarrow> P a \<Longrightarrow> ag_Active a \<and> concerns me (ag_OwnerID a)) \<Longrightarrow>
     (\<And>a. ag_ID (f a) = ag_ID a \<and> ag_Name (f a) = ag_Name a \<and> ag_OwnerID (f a) = ag_OwnerID a) \<Longrightarrow>
     agent_change me as (update_where P f as)"
| appended: "ag_Name a \<notin> ag_Name ` set as \<Longrightarrow> concerns me (ag_OwnerID a) \<Longrightarrow> agent_change me as (as @ [a])"

lemma agent_change_any: "agent_change (Some me) as as' \<Longrightarrow> agent_change None as as'"
proof (induction "Some me" as as' rule: agent_change.induct)
  case (changed as P f)
  show ?case by (rule agent_change.changed) (use changed in auto)
qed (auto intro: agent_change.unchanged agent_change.appended)

lemma filter_update_where:
  "(\<And>r. r \<in> set rs \<Longrightarrow> P r \<Longrightarrow> \<not> Q r \<and> \<not> Q (f r)) \<Longrightarrow> filter Q (update_where P f rs) = filter Q rs"
  by (induction rs) auto

lemma agent_change_others:
  assumes "agent_change (Some me) as as'"
  shows "filter (\<lambda>a. ag_OwnerID a \<noteq> me) as' = filter (\<lambda>a. ag_OwnerID a \<noteq> me) as"
  using assms
proof (induction "Some me" as as' rule: agent_change.induct)
  case (changed as P f)
  then show ?case by (induction as) auto
qed auto

text \<open>A name whose row is inactive.\<close>

definition name_retired :: "string \<Rightarrow> reg_agent list \<Rightarrow> bool" where
  "name_retired name as \<longleftrightarrow> name \<in> ag_Name ` set as \<and> (\<forall>a \<in> set as. ag_Name a = name \<longrightarrow> \<not> ag_Active a)"

lemma agent_change_retired: "agent_change me as as' \<Longrightarrow> name_retired name as \<Longrightarrow> name_retired name as'"
proof (induction rule: agent_change.induct)
  case (changed as P me f)
  have kept: "ag_Name ` set (update_where P f as) = ag_Name ` set as"
    using changed(2) by (metis map_update_where set_map)
  have "\<not> ag_Active a" if "a \<in> set (update_where P f as)" "ag_Name a = name" for a
  proof -
    from that(1) obtain r where r: "r \<in> set as" "a = (if P r then f r else r)" unfolding in_update_where by blast
    then have "ag_Name r = name" using that(2) changed(2) by (simp split: if_splits)
    then have "\<not> P r" using r changed(1,3) by (auto simp: name_retired_def)
    then show ?thesis using r \<open>ag_Name r = name\<close> changed(3) by (auto simp: name_retired_def)
  qed
  then show ?case using changed(3) kept by (simp add: name_retired_def)
qed (auto simp: name_retired_def)

lemma reg_empty_inv: "reg_inv reg_empty"
  by (simp add: reg_inv_def reg_empty_def)

lemma reg_GetAgentByName_Inr:
  "reg_GetAgentByName f name db = Inr a \<Longrightarrow> a \<in> set (rg_agents db) \<and> ag_Name a = name \<and> ag_Active a"
  by (auto simp: reg_GetAgentByName_def split: if_splits option.splits dest: find_row_Some)

definition failed_create :: "bool \<Rightarrow> id64 list \<Rightarrow> string \<Rightarrow> string \<Rightarrow> id64 \<Rightarrow> reg_db \<Rightarrow> bool" where
  "failed_create failed users name ty ownerID db \<longleftrightarrow>
     failed \<or> name \<in> set (map ag_Name (rg_agents db)) \<or> ty \<notin> {''ai'', ''human''} \<or> ownerID \<notin> set users"

lemma CreateAgent_eq:
  "CreateAgent f now users name dn ty caps owner hash db =
     (if failed_create f users name ty owner db then (Inl RegStatementFailed, db)
      else (Inr (new_agent now (rg_agent_seq db + 1) name dn ty caps owner hash),
            db\<lparr>rg_agents := rg_agents db @ [new_agent now (rg_agent_seq db + 1) name dn ty caps owner hash], rg_agent_seq := rg_agent_seq db + 1\<rparr>))"
  unfolding CreateAgent_def Let_def failed_create_def by (rule refl)

lemma CreateAgent_cases:
  assumes "CreateAgent f now users name dn ty caps owner hash db = (r, db')"
  obtains e where "r = Inl e" "db' = db"
  | "r = Inr (new_agent now (rg_agent_seq db + 1) name dn ty caps owner hash)" "name \<notin> ag_Name ` set (rg_agents db)"
      "db' = db\<lparr>rg_agents := rg_agents db @ [new_agent now (rg_agent_seq db + 1) name dn ty caps owner hash], rg_agent_seq := rg_agent_seq db + 1\<rparr>"
proof (cases "failed_create f users name ty owner db")
  case True
  then show thesis using assms that(1) by (auto simp: CreateAgent_eq)
next
  case False
  then have "name \<notin> ag_Name ` set (rg_agents db)" by (simp add: failed_create_def)
  then show thesis using assms False that(2) by (auto simp: CreateAgent_eq)
qed

lemma Register_cases:
  assumes "Register env key name dn ty caps owner db = (r, db')"
  obtains e where "r = Inl e" "db' = db"
  | ty2 caps2 hash k where "r = Inr (new_agent (rn_now env) (rg_agent_seq db + 1) name dn ty2 caps2 owner hash, k)"
      "name \<notin> ag_Name ` set (rg_agents db)"
      "db' = db\<lparr>rg_agents := rg_agents db @ [new_agent (rn_now env) (rg_agent_seq db + 1) name dn ty2 caps2 owner hash],
                rg_agent_seq := rg_agent_seq db + 1\<rparr>"
proof -
  let ?ty = "if ty = '''' then ''ai'' else ty" and ?caps = "if caps = '''' then ''{}'' else caps"
  show thesis
  proof (cases "name = '''' \<or> ?ty \<noteq> ''ai'' \<and> ?ty \<noteq> ''human'' \<or> \<not> rn_json env ?caps \<or> key = None \<or> rn_gen env (the key) = None")
    case True
    then have "\<exists>e. Register env key name dn ty caps owner db = (Inl e, db)" unfolding Register_def Let_def by (auto split: option.split)
    then show thesis using that(1) assms by auto
  next
    case False
    then obtain k hash where k: "key = Some k" "rn_gen env k = Some hash" by auto
    let ?c = "CreateAgent (rn_flt env AInsert) (rn_now env) (rn_users env) name dn ?ty ?caps owner hash db"
    have reg: "Register env key name dn ty caps owner db = (case ?c of (Inl e, db') \<Rightarrow> (Inl e, db') | (Inr a, db') \<Rightarrow> (Inr (a, k), db'))"
      unfolding Register_def Let_def using False k by (simp only: if_False option.case de_Morgan_disj not_True_eq_False simp_thms)
    obtain c db1 where c: "?c = (c, db1)" by (cases ?c)
    then show thesis by (rule CreateAgent_cases) (use reg c assms that in auto)
  qed
qed

lemma new_agent_fields [simp]:
  "ag_ID (new_agent now i name dn ty caps owner hash) = i" "ag_Name (new_agent now i name dn ty caps owner hash) = name"
  "ag_OwnerID (new_agent now i name dn ty caps owner hash) = owner" "ag_Active (new_agent now i name dn ty caps owner hash)"
  by (simp_all add: new_agent_def)

subsection \<open>Every operation changes agents that way\<close>

lemma update_active_change:
  assumes "\<And>a. ag_ID (f a) = ag_ID a \<and> ag_Name (f a) = ag_Name a \<and> ag_OwnerID (f a) = ag_OwnerID a"
    and "\<And>a. a \<in> set (rg_agents db) \<Longrightarrow> ag_Name a = name \<Longrightarrow> ag_Active a \<Longrightarrow> concerns me (ag_OwnerID a)"
  shows "agent_change me (rg_agents db) (rg_agents (update_active name f db))"
  unfolding update_active_def using assms by (auto intro!: agent_change.changed)

text \<open>The row that a name lookup returns is the only active one of that name.\<close>

lemma found_owner:
  assumes "reg_inv db" "reg_GetAgentByName f name db = Inr a" "x \<in> set (rg_agents db)" "ag_Name x = name"
  shows "x = a"
  using assms reg_GetAgentByName_Inr [OF assms(2)] by (auto simp: reg_inv_def distinct_map dest: inj_onD)

lemma Register_change:
  assumes "Register env key name dn ty caps owner db = (r, db')" "concerns me owner"
  shows "agent_change me (rg_agents db) (rg_agents db')"
  using assms(1) by (rule Register_cases) (use assms(2) in \<open>auto intro: agent_change.intros\<close>)

lemma store_UpdateAgent_change:
  assumes "store_UpdateAgent f now x db = (r, db')" "\<And>a. a \<in> set (rg_agents db) \<Longrightarrow> ag_Name a = ag_Name x \<Longrightarrow> concerns me (ag_OwnerID a)"
  shows "agent_change me (rg_agents db) (rg_agents db')"
  using assms by (auto simp: store_UpdateAgent_def split: if_splits intro: agent_change.unchanged intro!: update_active_change)

lemma UpdateAgent_store:
  assumes "UpdateAgent env name dn caps db = (r, db')"
  shows "db' = db \<or> (\<exists>x. ag_Name x = name \<and> db' = snd (store_UpdateAgent (rn_flt env AUpdate) (rn_now env) x db))"
proof (cases "reg_GetAgentByName (rn_flt env AGetName) name db")
  case (Inl e)
  then show ?thesis using assms(1) by (simp add: UpdateAgent_def)
next
  case (Inr a)
  let ?a1 = "if dn \<noteq> '''' then a\<lparr>ra_DisplayName := dn\<rparr> else a"
  let ?a2 = "if caps \<noteq> '''' then ?a1\<lparr>ra_Capabilities := caps\<rparr> else ?a1"
  have name: "ag_Name ?a2 = name" using reg_GetAgentByName_Inr [OF Inr] by simp
  obtain u db1 where up: "store_UpdateAgent (rn_flt env AUpdate) (rn_now env) ?a2 db = (u, db1)" by fastforce
  have "db' = db \<or> db' = db1"
    using assms(1) up unfolding UpdateAgent_def Inr Let_def sum.case by (auto split: if_split_asm sum.split_asm)
  then show ?thesis using name up by (metis snd_conv)
qed

lemma UpdateAgent_change:
  assumes "UpdateAgent env name dn caps db = (r, db')" "\<And>a. a \<in> set (rg_agents db) \<Longrightarrow> ag_Name a = name \<Longrightarrow> concerns me (ag_OwnerID a)"
  shows "agent_change me (rg_agents db) (rg_agents db')"
proof (cases "db' = db")
  case False
  with UpdateAgent_store [OF assms(1)] obtain x
    where x: "ag_Name x = name" "db' = snd (store_UpdateAgent (rn_flt env AUpdate) (rn_now env) x db)" by blast
  show ?thesis
    unfolding x(2) by (rule store_UpdateAgent_change [OF prod.collapse [symmetric]]) (use assms(2) x(1) in auto)
qed (simp add: agent_change.unchanged)

lemma RevokeKey_change:
  assumes "reg_inv db" "RevokeKey env key name owner db = (r, db')"
  shows "agent_change (Some owner) (rg_agents db) (rg_agents db')"
proof (cases "db' = db")
  case False
  with assms(2) obtain a hash r' where a: "reg_GetAgentByName (rn_flt env AGetName) name db = Inr a" "ag_OwnerID a = owner"
    and up: "store_UpdateAgent (rn_flt env AUpdate) (rn_now env) (a\<lparr>ra_APIKeyHash := hash\<rparr>) db = (r', db')"
    by (auto simp: RevokeKey_def split: sum.split_asm prod.split_asm if_split_asm option.split_asm)
  show ?thesis
    by (rule store_UpdateAgent_change [OF up]) (use a reg_GetAgentByName_Inr [OF a(1)] found_owner [OF assms(1) a(1)] in auto)
qed (simp add: agent_change.unchanged)

lemma CaptureDeadLetters_agents: "rg_agents (snd (CaptureDeadLetters flt now users md owner name db)) = rg_agents db"
  by (simp add: CaptureDeadLetters_def Let_def)

lemma Deregister_change:
  assumes "reg_inv db" "Deregister env letters md name owner db = (r, db')"
  shows "agent_change (Some owner) (rg_agents db) (rg_agents db')"
proof (cases "reg_GetAgentByName (rn_flt env AGetName) name db")
  case (Inr a)
  define db1 where "db1 = (if letters then snd (CaptureDeadLetters (rn_flt env) (rn_now env) (rn_users env) md (ag_OwnerID a) name db) else db)"
  have same: "rg_agents db1 = rg_agents db" by (simp add: db1_def CaptureDeadLetters_agents)
  show ?thesis
  proof (cases "ag_OwnerID a = owner")
    case True
    with assms(2) Inr have db': "db' = db1 \<or> db' = update_active name (\<lambda>a. a\<lparr>ag_Active := False, ra_UpdatedAt := sql_now (rn_now env)\<rparr>) db1"
      by (auto simp: Deregister_def DeactivateAgent_def Let_def db1_def split: if_splits)
    have "agent_change (Some owner) (rg_agents db1) (rg_agents (update_active name (\<lambda>a. a\<lparr>ag_Active := False, ra_UpdatedAt := sql_now (rn_now env)\<rparr>) db1))"
      by (rule update_active_change) (use found_owner [OF assms(1) Inr] True same in auto)
    with db' show ?thesis by (auto simp: same intro: agent_change.unchanged)
  next
    case False
    then show ?thesis using assms(2) Inr by (simp add: Deregister_def agent_change.unchanged)
  qed
qed (use assms(2) in \<open>simp add: Deregister_def agent_change.unchanged\<close>)

lemma EnsureHumanAgent_change:
  assumes "EnsureHumanAgent env key key2 username dn owner db = (r, db')"
  shows "agent_change (Some owner) (rg_agents db) (rg_agents db')"
proof -
  have failed: "db1 = db" if "Register env k name d ty caps owner db = (Inl e, db1)" for k name d ty caps e db1
    using that by (rule Register_cases) auto
  show ?thesis
    using assms
    by (auto simp: EnsureHumanAgent_def Let_def split: sum.split_asm option.split_asm prod.split_asm
        intro: agent_change.unchanged dest!: failed elim!: Register_change)
qed

lemma api_exec_change:
  assumes "reg_inv db"
  shows "agent_change (Some me) (rg_agents db) (rg_agents (api_exec env me op db))"
proof (cases op)
  case (ApRegister key body)
  then show ?thesis
    by (auto simp: api_RegisterAgent_def split: option.split prod.split sum.split intro: agent_change.unchanged elim: Register_change)
next
  case (ApUpdate name body)
  show ?thesis
  proof (cases "reg_GetAgentByName (rn_flt env AGetName) name db")
    case (Inr a)
    have "agent_change (Some me) (rg_agents db) (rg_agents db')"
      if "ag_OwnerID a = me" "UpdateAgent env name dn caps db = (r, db')" for dn caps r db'
      using that(2) by (rule UpdateAgent_change) (use that(1) found_owner [OF assms Inr] in auto)
    then show ?thesis
      by (auto simp: ApUpdate api_UpdateAgent_def Inr split: option.split prod.split sum.split intro: agent_change.unchanged)
  qed (simp add: ApUpdate api_UpdateAgent_def agent_change.unchanged)
next
  case (ApDelete letters md name)
  then show ?thesis by (auto simp: api_DeleteAgent_def split: prod.split sum.split elim: Deregister_change [OF assms])
next
  case (ApRevokeAgentKey key name)
  then show ?thesis by (auto simp: api_agent_RevokeKey_def split: prod.split sum.split elim: RevokeKey_change [OF assms])
next
  case (ApCreateKey hex body)
  have "rg_agents (snd (api_CreateKey env hex me body db)) = rg_agents db"
    by (simp add: api_CreateKey_def CreateKey_def store_CreateKey_def Let_def case_prod_unfold split: option.split sum.split)
  then show ?thesis by (simp add: ApCreateKey agent_change.unchanged)
next
  case (ApRevokeKey i)
  have "rg_agents (snd (api_RevokeKey env me i db)) = rg_agents db"
    by (simp add: api_RevokeKey_def store_key_Revoke_def case_prod_unfold split: option.split sum.split)
  then show ?thesis by (simp add: ApRevokeKey agent_change.unchanged)
next
  case (ApAcknowledge i)
  then show ?thesis by (simp add: AcknowledgeDeadLetter_def agent_change.unchanged)
next
  case (ApSignIn key key2 username dn)
  show ?thesis unfolding ApSignIn api_exec.simps by (rule EnsureHumanAgent_change [OF prod.collapse [symmetric]])
qed

lemma key_identity_agents: "key_identity env keys token db = (r, db') \<Longrightarrow> rg_agents db' = rg_agents db \<and> rg_keys db' = rg_keys db \<and>
    rg_agent_seq db' = rg_agent_seq db \<and> rg_key_seq db' = rg_key_seq db"
  by (auto simp: key_identity_def key_Authenticate_def split: sum.split_asm if_split_asm prod.split_asm option.split_asm)

lemma Required_agents:
  assumes "RequiredAuthMiddlewareWithOAuth env keys prov header db = (r, db')"
  shows "rg_agents db' = rg_agents db \<and> rg_keys db' = rg_keys db \<and> rg_agent_seq db' = rg_agent_seq db \<and> rg_key_seq db' = rg_key_seq db"
  using assms
  by (auto simp: RequiredAuthMiddlewareWithOAuth_def AuthMiddlewareWithAPIKeys_def
      split: option.split_asm prod.split_asm dest!: key_identity_agents)

lemma reg_exec_change:
  assumes "reg_inv db"
  shows "agent_change None (rg_agents db) (rg_agents (reg_exec op db))"
proof (cases op)
  case (RoApi env me aop)
  show ?thesis unfolding RoApi reg_exec.simps by (rule agent_change_any [OF api_exec_change [OF assms]])
next
  case (RoRequest env keys prov header)
  then show ?thesis using Required_agents [of env keys prov header db] by (simp add: agent_change.unchanged prod_eq_iff)
next
  case (RoTrigger f now name mode cd budget depth)
  then show ?thesis by (auto simp: UpdateTriggerConfig_def intro: agent_change.unchanged update_active_change)
next
  case (RoImage f now name img envj preset)
  then show ?thesis by (auto simp: UpdateK8sImage_def intro: agent_change.unchanged update_active_change)
next
  case (RoHarness f now name h l c)
  then show ?thesis by (auto simp: UpdateHarnessConfig_def intro: agent_change.unchanged update_active_change)
next
  case (RoSystem env key owner)
  have "agent_change None (rg_agents db) (rg_agents db')" if "EnsureSystemAgent env key owner db = (r, db')" for r db'
    using that by (auto simp: EnsureSystemAgent_def split: sum.split_asm prod.split_asm intro: agent_change.unchanged elim: Register_change)
  then show ?thesis unfolding RoSystem reg_exec.simps by (metis prod.collapse)
next
  case (RoUsed f now k)
  then show ?thesis by (simp add: UpdateLastUsed_def agent_change.unchanged)
next
  case (RoDeleteKey f i)
  then show ?thesis by (simp add: store_key_Delete_def agent_change.unchanged)
qed

subsection \<open>Ids and names stay unique\<close>

definition agents_ok :: "reg_db \<Rightarrow> bool" where
  "agents_ok db \<longleftrightarrow> ids_ok ag_ID (rg_agent_seq db) (rg_agents db) \<and> distinct (map ag_Name (rg_agents db))"

definition keys_ok :: "reg_db \<Rightarrow> bool" where
  "keys_ok db \<longleftrightarrow> ids_ok ky_ID (rg_key_seq db) (rg_keys db)"

lemma reg_inv_eq: "reg_inv db \<longleftrightarrow> agents_ok db \<and> keys_ok db"
  by (simp add: reg_inv_def agents_ok_def keys_ok_def)

lemma agents_ok_cong: "rg_agents db' = rg_agents db \<Longrightarrow> rg_agent_seq db' = rg_agent_seq db \<Longrightarrow> agents_ok db' = agents_ok db"
  by (simp add: agents_ok_def)

lemma keys_ok_cong: "rg_keys db' = rg_keys db \<Longrightarrow> rg_key_seq db' = rg_key_seq db \<Longrightarrow> keys_ok db' = keys_ok db"
  by (simp add: keys_ok_def)

text \<open>Operations change agents or keys, and only these counters.\<close>

lemma update_active_ok:
  "(\<And>a. ag_ID (f a) = ag_ID a \<and> ag_Name (f a) = ag_Name a) \<Longrightarrow> agents_ok (update_active name f db) = agents_ok db"
  by (simp add: agents_ok_def update_active_def ids_ok_update_where map_update_where)

lemma Register_ok:
  assumes "Register env key name dn ty caps owner db = (r, db')"
  shows "agents_ok db \<longrightarrow> agents_ok db'" and "keys_ok db' = keys_ok db"
  using assms by (rule Register_cases, auto simp: agents_ok_def keys_ok_def intro!: ids_ok_append)+

lemma update_active_inv:
  "(\<And>a. ag_ID (f a) = ag_ID a \<and> ag_Name (f a) = ag_Name a) \<Longrightarrow> reg_inv (update_active name f db) = reg_inv db"
  by (simp add: reg_inv_def update_active_def ids_ok_update_where map_update_where)

lemma store_UpdateAgent_ok [simp]: "reg_inv (snd (store_UpdateAgent f now a db)) = reg_inv db"
  by (simp add: store_UpdateAgent_def update_active_inv)

lemma Register_inv: "reg_inv db \<Longrightarrow> Register env key name dn ty caps owner db = (r, db') \<Longrightarrow> reg_inv db'"
  using Register_ok by (simp add: reg_inv_eq)

lemma UpdateAgent_inv: "UpdateAgent env name dn caps db = (r, db') \<Longrightarrow> reg_inv db' = reg_inv db"
  using UpdateAgent_store by fastforce

lemma RevokeKey_inv: "RevokeKey env key name owner db = (r, db') \<Longrightarrow> reg_inv db' = reg_inv db"
proof (cases "db' = db")
  case False
  assume "RevokeKey env key name owner db = (r, db')"
  with False obtain x r' where "store_UpdateAgent (rn_flt env AUpdate) (rn_now env) x db = (r', db')"
    by (auto simp: RevokeKey_def split: sum.split_asm prod.split_asm if_split_asm option.split_asm)
  then show ?thesis by (metis snd_conv store_UpdateAgent_ok)
qed simp

lemma Deregister_inv: "Deregister env letters md name owner db = (r, db') \<Longrightarrow> reg_inv db' = reg_inv db"
proof -
  have capture: "reg_inv (snd (CaptureDeadLetters flt now users md o2 n db)) = reg_inv db" for flt now users o2 n
    by (simp add: CaptureDeadLetters_def Let_def reg_inv_def)
  have deactivate: "reg_inv (snd (DeactivateAgent f now n db1)) = reg_inv db1" for f now n db1
    by (simp add: DeactivateAgent_def update_active_inv)
  assume "Deregister env letters md name owner db = (r, db')"
  then show ?thesis using capture deactivate
    by (auto simp: Deregister_def Let_def split: sum.split_asm if_split_asm) (metis snd_conv)+
qed

lemma EnsureHumanAgent_inv: "reg_inv db \<Longrightarrow> EnsureHumanAgent env key key2 username dn owner db = (r, db') \<Longrightarrow> reg_inv db'"
  by (auto simp: EnsureHumanAgent_def Let_def split: sum.split_asm option.split_asm prod.split_asm intro: Register_inv)

lemma api_CreateKey_cases:
  obtains "snd (api_CreateKey env hex me body db) = db"
  | k where "ky_UserID k = me" "ky_ID k = rg_key_seq db + 1"
      "snd (api_CreateKey env hex me body db) = db\<lparr>rg_keys := rg_keys db @ [k], rg_key_seq := rg_key_seq db + 1\<rparr>"
proof -
  have "snd (CreateKey env hex req db) = db \<or> (\<exists>k. ky_UserID k = ck_UserID req \<and> ky_ID k = rg_key_seq db + 1 \<and>
      snd (CreateKey env hex req db) = db\<lparr>rg_keys := rg_keys db @ [k], rg_key_seq := rg_key_seq db + 1\<rparr>)" for req
  proof (cases "snd (CreateKey env hex req db) = db")
    case False
    then obtain h hash where "snd (CreateKey env hex req db) =
        db\<lparr>rg_keys := rg_keys db @ [key_row (rn_now env) (rg_key_seq db + 1) h hash req], rg_key_seq := rg_key_seq db + 1\<rparr>"
      unfolding CreateKey_def store_CreateKey_def Let_def by (auto split: option.split_asm if_split_asm)
    then show ?thesis
      by (intro disjI2 exI [of _ "key_row (rn_now env) (rg_key_seq db + 1) h hash req"]) (simp add: key_row_def)
  qed simp
  moreover obtain req where "ck_UserID req = me"
      "snd (api_CreateKey env hex me body db) = db \<or> snd (api_CreateKey env hex me body db) = snd (CreateKey env hex req db)"
  proof (cases body)
    case None
    then show thesis using that [of "undefined\<lparr>ck_UserID := me\<rparr>"] by (simp add: api_CreateKey_def)
  next
    case (Some p)
    obtain req expires where "p = (req, expires)" by (cases p)
    then show thesis using Some that [of "req\<lparr>ck_UserID := me, ck_ExpiresAt := Option.bind expires id\<rparr>"]
      by (auto simp: api_CreateKey_def split: sum.split prod.split)
  qed
  ultimately show thesis using that by metis
qed

lemma reg_inv_letters [simp]: "reg_inv (db\<lparr>rg_letters := ls\<rparr>) = reg_inv db"
  by (simp add: reg_inv_def)

lemma api_exec_inv: "reg_inv db \<Longrightarrow> reg_inv (api_exec env me op db)"
proof (cases op)
  case (ApCreateKey hex body)
  assume "reg_inv db"
  then show ?thesis
    unfolding ApCreateKey api_exec.simps
    by (cases rule: api_CreateKey_cases [of env hex me body db]) (auto simp: reg_inv_def intro!: ids_ok_append)
next
  case (ApRevokeKey i)
  assume "reg_inv db"
  then show ?thesis
    by (auto simp: ApRevokeKey api_RevokeKey_def store_key_Revoke_def reg_inv_def ids_ok_update_where split: option.split sum.split)
qed (auto simp: api_RegisterAgent_def api_UpdateAgent_def api_DeleteAgent_def api_agent_RevokeKey_def
      split: option.split sum.split prod.split intro: Register_inv EnsureHumanAgent_inv [OF _ prod.collapse [symmetric]]
      simp: UpdateAgent_inv Deregister_inv RevokeKey_inv AcknowledgeDeadLetter_def)

lemma reg_exec_inv: "reg_inv db \<Longrightarrow> reg_inv (reg_exec op db)"
proof (cases op)
  case (RoRequest env keys prov header)
  assume "reg_inv db"
  then show ?thesis
    using Required_agents [OF prod.collapse [symmetric], of env keys prov header db] by (simp add: RoRequest reg_inv_def)
next
  case (RoSystem env key owner)
  assume "reg_inv db"
  then have "reg_inv db'" if "EnsureSystemAgent env key owner db = (r, db')" for r db'
    using that by (auto simp: EnsureSystemAgent_def split: sum.split_asm prod.split_asm intro: Register_inv)
  then show ?thesis unfolding RoSystem reg_exec.simps by (metis prod.collapse)
next
  case (RoUsed f now k)
  assume "reg_inv db"
  then show ?thesis by (simp add: RoUsed UpdateLastUsed_def reg_inv_def ids_ok_update_where)
next
  case (RoDeleteKey f i)
  assume "reg_inv db"
  then show ?thesis by (simp add: RoDeleteKey store_key_Delete_def reg_inv_def ids_ok_delete_where)
qed (simp_all add: api_exec_inv UpdateTriggerConfig_def UpdateK8sImage_def UpdateHarnessConfig_def update_active_inv)

interpretation registry: invariant_system reg_exec reg_inv
  by unfold_locales (rule reg_exec_inv)

section \<open>Who may change what\<close>

text \<open>The keys and letters of other users.\<close>

lemma api_exec_keys:
  assumes "reg_inv db"
  shows "filter (\<lambda>k. ky_UserID k \<noteq> me) (rg_keys (api_exec env me op db)) = filter (\<lambda>k. ky_UserID k \<noteq> me) (rg_keys db)"
proof (cases op)
  case (ApCreateKey hex body)
  then show ?thesis
    by (cases rule: api_CreateKey_cases [of env hex me body db]) simp_all
next
  case (ApRevokeKey i)
  have "filter (\<lambda>k. ky_UserID k \<noteq> me) (rg_keys (snd (store_key_Revoke f now j db))) = filter (\<lambda>k. ky_UserID k \<noteq> me) (rg_keys db)"
    if "key_GetByID g j db = Inr k" "ky_UserID k = me" for f now g j k
  proof -
    from that(1) have "find_row (\<lambda>k. ky_ID k = j) (rg_keys db) = Some k" by (simp add: key_GetByID_def split: if_splits option.splits)
    then have "k \<in> set (rg_keys db)" "ky_ID k = j" by (auto dest: find_row_Some)
    then have "ky_UserID k' = me" if "k' \<in> set (rg_keys db)" "ky_ID k' = j" for k'
      using that assms \<open>ky_UserID k = me\<close> by (auto simp: reg_inv_def dest: ids_ok_unique)
    then show ?thesis by (auto simp: store_key_Revoke_def intro!: filter_update_where)
  qed
  then show ?thesis
    by (simp add: ApRevokeKey api_RevokeKey_def case_prod_unfold split: option.split sum.split)
next
  case (ApUpdate name body)
  have "rg_keys db' = rg_keys db" if "UpdateAgent env name dn caps db = (r, db')" for dn caps r db'
    using UpdateAgent_store [OF that] by (auto simp: store_UpdateAgent_def update_active_def)
  then show ?thesis by (auto simp: ApUpdate api_UpdateAgent_def split: option.split sum.split prod.split)
next
  case (ApDelete letters md name)
  have "rg_keys (snd (CaptureDeadLetters flt now users md o2 n db)) = rg_keys db" for flt now users o2 n
    by (simp add: CaptureDeadLetters_def Let_def)
  then have "rg_keys (snd (Deregister env letters md name me db)) = rg_keys db"
    by (simp add: Deregister_def DeactivateAgent_def update_active_def Let_def split: sum.split)
  then show ?thesis by (simp add: ApDelete api_DeleteAgent_def case_prod_unfold split: sum.split)
next
  case (ApRevokeAgentKey key name)
  have "rg_keys (snd (RevokeKey env key name me db)) = rg_keys db"
    by (simp add: RevokeKey_def store_UpdateAgent_def update_active_def split: sum.split option.split)
  then show ?thesis by (simp add: ApRevokeAgentKey api_agent_RevokeKey_def case_prod_unfold split: sum.split)
next
  case (ApRegister key body)
  have "rg_keys db' = rg_keys db" if "Register env key n dn ty caps o2 db = (r, db')" for n dn ty caps o2 r db'
    using that by (rule Register_cases) simp_all
  then show ?thesis by (auto simp: ApRegister api_RegisterAgent_def split: option.split sum.split prod.split)
next
  case (ApSignIn key key2 username dn)
  have "rg_keys db' = rg_keys db1" if "Register env k n d ty caps o2 db1 = (r, db')" for k n d ty caps o2 r db1 db'
    using that by (rule Register_cases) simp_all
  then have "rg_keys (snd (EnsureHumanAgent env key key2 username dn me db)) = rg_keys db"
    by (auto simp: EnsureHumanAgent_def Let_def split: option.split sum.split prod.split)
  then show ?thesis by (simp add: ApSignIn)
qed (simp add: AcknowledgeDeadLetter_def)

lemma api_exec_letters:
  "filter (\<lambda>d. dl_OwnerID d \<noteq> me) (rg_letters (api_exec env me op db)) = filter (\<lambda>d. dl_OwnerID d \<noteq> me) (rg_letters db)"
proof (cases op)
  case (ApUpdate name body)
  have "rg_letters db' = rg_letters db" if "UpdateAgent env name dn caps db = (r, db')" for dn caps r db'
    using UpdateAgent_store [OF that] by (auto simp: store_UpdateAgent_def update_active_def)
  then show ?thesis by (auto simp: ApUpdate api_UpdateAgent_def split: option.split sum.split prod.split)
next
  case (ApDelete letters md name)
  have own: "list_all (\<lambda>d. dl_OwnerID d = o2) (dead_letters now o2 n convs i ms)" for now o2 n convs i ms
    by (induction ms arbitrary: i) simp_all
  have "filter (\<lambda>d. dl_OwnerID d \<noteq> o2) (rg_letters (snd (CaptureDeadLetters flt now users md o2 n db))) =
      filter (\<lambda>d. dl_OwnerID d \<noteq> o2) (rg_letters db)" for flt now users o2 n
    using own [of o2] by (auto simp: CaptureDeadLetters_def Let_def filter_empty_conv list_all_iff)
  then have "filter (\<lambda>d. dl_OwnerID d \<noteq> me) (rg_letters (snd (Deregister env letters md name me db))) = filter (\<lambda>d. dl_OwnerID d \<noteq> me) (rg_letters db)"
    by (simp add: Deregister_def DeactivateAgent_def update_active_def Let_def split: sum.split)
  then show ?thesis by (simp add: ApDelete api_DeleteAgent_def case_prod_unfold split: sum.split)
next
  case (ApRevokeAgentKey key name)
  have "rg_letters (snd (RevokeKey env key name me db)) = rg_letters db"
    by (simp add: RevokeKey_def store_UpdateAgent_def update_active_def split: sum.split option.split)
  then show ?thesis by (simp add: ApRevokeAgentKey api_agent_RevokeKey_def case_prod_unfold split: sum.split)
next
  case (ApRegister key body)
  have "rg_letters db' = rg_letters db" if "Register env key n dn ty caps o2 db = (r, db')" for n dn ty caps o2 r db'
    using that by (rule Register_cases) simp_all
  then show ?thesis by (auto simp: ApRegister api_RegisterAgent_def split: option.split sum.split prod.split)
next
  case (ApSignIn key key2 username dn)
  have "rg_letters db' = rg_letters db1" if "Register env k n d ty caps o2 db1 = (r, db')" for k n d ty caps o2 r db1 db'
    using that by (rule Register_cases) simp_all
  then have "rg_letters (snd (EnsureHumanAgent env key key2 username dn me db)) = rg_letters db"
    by (auto simp: EnsureHumanAgent_def Let_def split: option.split sum.split prod.split)
  then show ?thesis by (simp add: ApSignIn)
next
  case (ApAcknowledge i)
  then show ?thesis by (auto simp: AcknowledgeDeadLetter_def intro!: filter_update_where)
next
  case (ApCreateKey hex body)
  then show ?thesis
    by (cases rule: api_CreateKey_cases [of env hex me body db]) simp_all
qed (simp add: api_RevokeKey_def store_key_Revoke_def case_prod_unfold split: option.split sum.split)

text \<open>
  C9. An owner's requests touch only what the owner owns: registering, updating, deleting agents, replacing their keys, creating
  and revoking managed keys, acknowledging dead letters and signing in leave the agents, keys and dead letters of everybody
  else exactly as they were, in every reachable state.
\<close>

theorem owner_isolation:
  "filter (\<lambda>a. ag_OwnerID a \<noteq> me) (rg_agents (api_exec env me op (fold reg_exec ops reg_empty))) =
     filter (\<lambda>a. ag_OwnerID a \<noteq> me) (rg_agents (fold reg_exec ops reg_empty)) \<and>
   filter (\<lambda>k. ky_UserID k \<noteq> me) (rg_keys (api_exec env me op (fold reg_exec ops reg_empty))) =
     filter (\<lambda>k. ky_UserID k \<noteq> me) (rg_keys (fold reg_exec ops reg_empty)) \<and>
   filter (\<lambda>d. dl_OwnerID d \<noteq> me) (rg_letters (api_exec env me op (fold reg_exec ops reg_empty))) =
     filter (\<lambda>d. dl_OwnerID d \<noteq> me) (rg_letters (fold reg_exec ops reg_empty))"
proof -
  have "reg_inv (fold reg_exec ops reg_empty)" using reg_empty_inv by (rule registry.run_inv)
  then show ?thesis using agent_change_others [OF api_exec_change] api_exec_keys api_exec_letters by blast
qed

section \<open>Identity\<close>

lemma Authenticate_Inr:
  assumes "Authenticate env token db = Inr a"
  shows "a \<in> set (rg_agents db) \<and> ag_Active a \<and> rn_cmp env (ra_APIKeyHash a) token"
  using assms
  by (auto simp: Authenticate_def ListActiveAgents_def active_agents_def find_Some_iff split: sum.split_asm option.split_asm if_split_asm
      dest!: nth_mem)

lemma key_Authenticate_Inr:
  assumes "key_Authenticate env token db = (Inr k, db')"
  shows "k \<in> set (rg_keys db) \<and> rn_cmp env (ky_KeyHash k) token \<and> ky_RevokedAt k = None \<and> unexpired (rn_now env) k \<and> rg_agents db' = rg_agents db"
  using assms
  by (auto simp: key_Authenticate_def store_key_Authenticate_def find_Some_iff split: sum.split_asm option.split_asm if_split_asm
      dest!: nth_mem)

lemma reg_GetAgentByID_Inr: "reg_GetAgentByID f i db = Inr a \<Longrightarrow> a \<in> set (rg_agents db) \<and> ag_ID a = i \<and> ag_Active a"
  by (auto simp: reg_GetAgentByID_def split: if_splits option.splits dest: find_row_Some)

text \<open>Why a token stands for an agent.\<close>

definition token_shows :: "reg_env \<Rightarrow> (string \<Rightarrow> (string \<times> fositeSession) option) option \<Rightarrow> string \<Rightarrow> reg_agent \<Rightarrow> reg_db \<Rightarrow> bool" where
  "token_shows env prov token a db \<longleftrightarrow>
     rn_cmp env (ra_APIKeyHash a) token \<or>
     (\<exists>k \<in> set (rg_keys db). rn_cmp env (ky_KeyHash k) token \<and> ky_RevokedAt k = None \<and> unexpired (rn_now env) k \<and> ky_AgentID k = Some (ag_ID a)) \<or>
     (case prov of None \<Rightarrow> False | Some introspect \<Rightarrow>
        (case introspect token of None \<Rightarrow> False | Some (client, s) \<Rightarrow> fs_AgentName s = ag_Name a))"

lemma key_identity_agent:
  assumes "key_identity env keys token db = (Some cx, db')" "mx_Agent cx = Some a"
  shows "a \<in> set (rg_agents db) \<and> ag_Active a \<and> token_shows env prov token a db"
  using assms
  by (auto simp: key_identity_def token_shows_def no_context_def split: sum.split_asm if_split_asm prod.split_asm option.split_asm
      dest!: Authenticate_Inr key_Authenticate_Inr reg_GetAgentByID_Inr)

lemma identity_shown:
  assumes "RequiredAuthMiddlewareWithOAuth env keys prov header db = (Inr cx, db')" "extractAgentName None cx = Some name"
  shows "\<exists>token a. bearer_token header = Some token \<and> a \<in> set (rg_agents db) \<and> ag_Active a \<and> ag_Name a = name \<and>
    token_shows env prov token a db"
proof -
  from assms(2) obtain a where a: "mx_Agent cx = Some a" "ag_Name a = name" by (auto simp: extractAgentName_def)
  from assms(1) obtain token where token: "bearer_token header = Some token"
    by (auto simp: RequiredAuthMiddlewareWithOAuth_def AuthMiddlewareWithAPIKeys_def split: option.split_asm)
  show ?thesis
  proof (cases "fst (key_identity env keys token db)")
    case (Some cx')
    with assms(1) token have "key_identity env keys token db = (Some cx, snd (key_identity env keys token db))"
      by (auto simp: RequiredAuthMiddlewareWithOAuth_def AuthMiddlewareWithAPIKeys_def split: option.split_asm prod.split_asm)
    from key_identity_agent [OF this a(1)] token a(2) show ?thesis by blast
  next
    case None
    with assms(1) token obtain introspect n owner where o: "prov = Some introspect" "resolveOAuthToken introspect token = Some (n, owner)"
      and found': "reg_GetAgentByName (rn_flt env AGetName) n (snd (key_identity env keys token db)) = Inr a"
      using a
      by (auto simp: RequiredAuthMiddlewareWithOAuth_def AuthMiddlewareWithAPIKeys_def split: option.split_asm prod.split_asm sum.split_asm)
    from reg_GetAgentByName_Inr [OF found'] a(2) have n: "n = name" by simp
    note found = found' [unfolded n]
    from key_identity_agents [OF prod.collapse [symmetric]] reg_GetAgentByName_Inr [OF found]
    have "a \<in> set (rg_agents db)" "ag_Active a" by auto
    moreover from o n a(2) have "token_shows env prov token a db"
      by (auto simp: token_shows_def resolveOAuthToken_def split: option.split_asm prod.split_asm if_split_asm)
    ultimately show ?thesis using token a(2) by blast
  qed
qed

lemma Deregister_retired:
  assumes "fst (Deregister env letters md name owner db) = Inr ()"
  shows "name_retired name (rg_agents (snd (Deregister env letters md name owner db)))"
proof -
  let ?f = "\<lambda>a. a\<lparr>ag_Active := False, ra_UpdatedAt := sql_now (rn_now env)\<rparr>"
  from assms obtain a where a: "reg_GetAgentByName (rn_flt env AGetName) name db = Inr a"
    and res: "rg_agents (snd (Deregister env letters md name owner db)) = update_where (\<lambda>a. ag_Name a = name \<and> ag_Active a) ?f (rg_agents db)"
    by (auto simp: Deregister_def DeactivateAgent_def update_active_def CaptureDeadLetters_agents Let_def split: sum.split_asm if_split_asm)
  have "ag_Name ` set (update_where (\<lambda>a. ag_Name a = name \<and> ag_Active a) ?f (rg_agents db)) = ag_Name ` set (rg_agents db)"
    by (simp flip: set_map add: map_update_where)
  then have "name \<in> ag_Name ` set (update_where (\<lambda>a. ag_Name a = name \<and> ag_Active a) ?f (rg_agents db))"
    using reg_GetAgentByName_Inr [OF a] by auto
  moreover have "\<not> ag_Active x"
    if "x \<in> set (update_where (\<lambda>a. ag_Name a = name \<and> ag_Active a) ?f (rg_agents db))" "ag_Name x = name" for x
  proof -
    from that(1) obtain r where "x = (if ag_Name r = name \<and> ag_Active r then ?f r else r)" unfolding in_update_where by blast
    with that(2) show ?thesis by (simp split: if_splits)
  qed
  ultimately show ?thesis unfolding name_retired_def res by blast
qed

text \<open>
  C8. An MCP request acts as an agent only if the bearer token shows it: the agent is registered and active, and the token is the
  agent's own key, a managed key for the agent that is neither revoked nor expired, or an access token whose session
  names the agent.
\<close>

theorem mcp_identity:
  assumes "RequiredAuthMiddlewareWithOAuth env keys prov header db = (Inr cx, db')" "extractAgentName None cx = Some name"
  shows "\<exists>token a. bearer_token header = Some token \<and> a \<in> set (rg_agents db) \<and> ag_Active a \<and> ag_Name a = name \<and>
    token_shows env prov token a db"
  using assms by (rule identity_shown)

text \<open>
  A deregistered agent is gone for good: whatever happens afterwards, no token of any kind makes a request act under its name,
  and nobody can register the name again.
\<close>

theorem deregistered_agent_gone:
  assumes "fst (Deregister env letters md name owner (fold reg_exec ops reg_empty)) = Inr ()"
    and "db = fold reg_exec later (snd (Deregister env letters md name owner (fold reg_exec ops reg_empty)))"
  shows "(case fst (RequiredAuthMiddlewareWithOAuth env2 keys prov header db) of
            Inl st \<Rightarrow> st = 401 | Inr cx \<Rightarrow> extractAgentName None cx \<noteq> Some name) \<and>
    isl (fst (Register env3 key name displayName ty caps owner2 db))"
proof -
  let ?db0 = "fold reg_exec ops reg_empty"
  let ?db1 = "snd (Deregister env letters md name owner ?db0)"
  have inv0: "reg_inv ?db0" using reg_empty_inv by (rule registry.run_inv)
  have inv1: "reg_inv ?db1" using Deregister_inv [OF prod.collapse [symmetric]] inv0 by blast
  have retired: "name_retired name (rg_agents ?db1)" using assms(1) by (rule Deregister_retired)
  have run: "reg_inv s \<Longrightarrow> name_retired name (rg_agents s) \<Longrightarrow> name_retired name (rg_agents (fold reg_exec l s))" for l s
    by (induction l arbitrary: s) (auto intro: reg_exec_inv agent_change_retired [OF reg_exec_change])
  from run [OF inv1 retired] have gone: "name_retired name (rg_agents db)" by (simp add: assms(2))
  have "st = 401" if "fst (RequiredAuthMiddlewareWithOAuth env2 keys prov header db) = Inl st" for st
    using that by (auto simp: RequiredAuthMiddlewareWithOAuth_def AuthMiddlewareWithAPIKeys_def split: option.split_asm prod.split_asm)
  moreover have "extractAgentName None cx \<noteq> Some name"
    if "fst (RequiredAuthMiddlewareWithOAuth env2 keys prov header db) = Inr cx" for cx
  proof
    assume n: "extractAgentName None cx = Some name"
    from that have "RequiredAuthMiddlewareWithOAuth env2 keys prov header db =
        (Inr cx, snd (RequiredAuthMiddlewareWithOAuth env2 keys prov header db))" by (metis prod.collapse)
    from identity_shown [OF this n] gone show False by (auto simp: name_retired_def)
  qed
  moreover have "isl (fst (Register env3 key name displayName ty caps owner2 db))"
  proof -
    obtain r d where reg: "Register env3 key name displayName ty caps owner2 db = (r, d)" by fastforce
    then have "isl r" by (rule Register_cases) (use gone in \<open>auto simp: name_retired_def\<close>)
    then show ?thesis by (simp add: reg)
  qed
  ultimately show ?thesis by (simp split: sum.split)
qed

section \<open>A small registry\<close>

definition demo_env :: reg_env where
  "demo_env = \<lparr>rn_flt = \<lambda>_. False, rn_now = 0, rn_users = [1, 2], rn_gen = \<lambda>k. Some (''h:'' @ k), rn_cmp = \<lambda>h k. h = ''h:'' @ k, rn_json = \<lambda>_. True\<rparr>"

definition demo_registry :: "reg_op list" where
  "demo_registry =
     [RoApi demo_env 1 (ApRegister (Some ''key-a'') (Some (''alpha'', '''', '''', ''''))),
      RoApi demo_env 2 (ApRegister (Some ''key-b'') (Some (''beta'', '''', '''', ''''))),
      RoApi demo_env 1 (ApCreateKey (Some ''0123456789abcdef'')
        (Some (\<lparr>ck_UserID = 0, ck_AgentID = Some 1, ck_Name = ''ci'', ck_Permissions = \<lparr>pe_Read = True, pe_Write = True, pe_Admin = False\<rparr>,
                ck_AllowedChannels = None, ck_ReadOnly = False, ck_ExpiresAt = None\<rparr>, None)))]"

lemma demo_managed_key:
  "RequiredAuthMiddlewareWithOAuth demo_env True None ''Bearer sb_0123456789abcdef'' (fold reg_exec demo_registry reg_empty) =
     (Inr \<lparr>mx_Agent = Some (hd (rg_agents (fold reg_exec demo_registry reg_empty))),
           mx_APIKey = Some (hd (rg_keys (fold reg_exec demo_registry reg_empty))), mx_OwnerID = ''1''\<rparr>,
      (fold reg_exec demo_registry reg_empty)\<lparr>rg_bg := [1]\<rparr>)"
  by code_simp

theorem mcp_identity_witness:
  "\<exists>a \<in> set (rg_agents (fold reg_exec demo_registry reg_empty)). ag_Name a = ''alpha'' \<and>
     token_shows demo_env None ''sb_0123456789abcdef'' a (fold reg_exec demo_registry reg_empty)"
proof -
  have token: "bearer_token ''Bearer sb_0123456789abcdef'' = Some ''sb_0123456789abcdef''" by code_simp
  have "extractAgentName None \<lparr>mx_Agent = Some (hd (rg_agents (fold reg_exec demo_registry reg_empty))),
      mx_APIKey = Some (hd (rg_keys (fold reg_exec demo_registry reg_empty))), mx_OwnerID = ''1''\<rparr> = Some ''alpha''" by code_simp
  from mcp_identity [OF demo_managed_key this] show ?thesis unfolding token by auto
qed

theorem deregistered_agent_gone_witness:
  "let md = \<lparr>md_convs = [], md_conv_seq = 0, md_msgs = [], md_msg_seq = 0, md_inbox = \<lambda>_. None\<rparr>;
       db = snd (Deregister demo_env True md ''alpha'' 1 (fold reg_exec demo_registry reg_empty))
   in isl (fst (Register demo_env (Some ''key-c'') ''alpha'' '''' '''' '''' 1 db)) \<and> length (rg_agents db) = 2"
proof -
  let ?md = "\<lparr>md_convs = [], md_conv_seq = 0, md_msgs = [], md_msg_seq = 0, md_inbox = \<lambda>_. None\<rparr> :: msg_db"
  have 1: "fst (Deregister demo_env True ?md ''alpha'' 1 (fold reg_exec demo_registry reg_empty)) = Inr ()" by code_simp
  have 2: "snd (Deregister demo_env True ?md ''alpha'' 1 (fold reg_exec demo_registry reg_empty)) =
      fold reg_exec [] (snd (Deregister demo_env True ?md ''alpha'' 1 (fold reg_exec demo_registry reg_empty)))" by simp
  have 3: "length (rg_agents (snd (Deregister demo_env True ?md ''alpha'' 1 (fold reg_exec demo_registry reg_empty)))) = 2" by code_simp
  show ?thesis
    unfolding Let_def
    using deregistered_agent_gone [OF 1 2, of demo_env True None "''''" demo_env "Some ''key-c''" "''''" "''''" "''''" 1] 3 by blast
qed

end
