(* ===== verification/Memory_Store.thy ===== *)
theory Memory_Store
  imports Registry Stalemate
begin

text \<open>
  The tables of the memory pool (\<open>internal/messaging\<close>): dispatch tokens
  (\<open>dispatch_tokens.go\<close>), consolidation jobs (\<open>consolidation_jobs.go\<close>), typed links
  (\<open>memory_links.go\<close>), pins (\<open>memory_pins.go\<close>), core memories (\<open>memory_core.go\<close>), the
  channels of the pool (\<open>memory_channels.go\<close>), the view \<open>memory_status\<close>
  (\<open>memory_status.go\<close>) and the links a new message brings with it (\<open>auto_links.go\<close>).
  Instants are nanosecond counts; messages keep theirs in seconds.
\<close>

section \<open>Data\<close>

record dispatch_token =
  mk_Token :: string
  mk_OwnerID :: string
  mk_JobID :: id64
  mk_IssuedAt :: timestamp
  mk_ExpiresAt :: timestamp
  mk_UsedAt :: "timestamp option"
  mk_RevokedAt :: "timestamp option"

datatype job_status = JPending | JDispatched | JRunning | JSucceeded | JPartial | JFailed | JExpired | JCircuitBroken

record mem_action =
  ma_Tool :: string
  ma_Target :: id64
  ma_Args :: "(string \<times> json) list"
  ma_At :: timestamp

text \<open>The column \<open>actions\<close> holds the JSON text of a list that only \<open>AppendAction\<close> writes.\<close>

record Job =
  jb_ID :: id64
  jb_OwnerID :: string
  jb_JobType :: string
  jb_Slot :: int
  jb_Status :: job_status
  jb_TriggerReason :: string
  jb_DispatchToken :: "string option"
  jb_HarnessRunID :: "string option"
  jb_Actions :: "mem_action list"
  jb_Summary :: "string option"
  jb_Error :: "string option"
  jb_LeaseUntil :: "timestamp option"
  jb_StartedAt :: "timestamp option"
  jb_FinishedAt :: "timestamp option"
  jb_CreatedAt :: timestamp

record Link =
  lk_ID :: id64
  lk_SrcMessageID :: id64
  lk_DstMessageID :: id64
  lk_RelationType :: string
  lk_OwnerID :: string
  lk_CreatedBy :: string
  lk_Metadata :: json
  lk_CreatedAt :: timestamp

record Pin =
  pn_OwnerID :: string
  pn_MessageID :: id64
  pn_PinnedBy :: string
  pn_Note :: string
  pn_PinnedAt :: timestamp

record CoreMemoryRecord =
  co_OwnerID :: string
  co_AgentName :: string
  co_Blob :: string
  co_UpdatedAt :: timestamp
  co_UpdatedBy :: string

record mem_db =
  me_tokens :: "dispatch_token list"
  me_jobs :: "Job list"
  me_job_seq :: id64
  me_links :: "Link list"
  me_link_seq :: id64
  me_pins :: "Pin list"
  me_core :: "CoreMemoryRecord list"

definition mem_empty :: mem_db where
  "mem_empty = \<lparr>me_tokens = [], me_jobs = [], me_job_seq = 0, me_links = [], me_link_seq = 0, me_pins = [], me_core = []\<rparr>"

datatype mem_error =
    OwnerRequired
  | JobRequired
  | JobTypeRequired
  | NegativeSlot
  | ErrJobAlreadyInFlight
  | NotPending id64
  | NotDispatchedOrPending id64
  | InvalidCompletion
  | NoSuchJob
  | IdsRequired
  | FieldsRequired
  | ErrLinkTypeReserved
  | NotConsolidationType
  | ErrCoreMemoryTooLarge
  | EmptyAgentName
  | EmptyUpdatedBy
  | MemStatementFailed

definition DispatchTokenTTL :: int where
  "DispatchTokenTTL = 15 * 60 * nanosec"

section \<open>Dispatch tokens\<close>

text \<open>
  \<open>token\<close> is the text of 32 random bytes. A token is the table's key and its job must exist.
\<close>

definition Issue ::
  "bool \<Rightarrow> timestamp \<Rightarrow> string \<Rightarrow> string \<Rightarrow> id64 \<Rightarrow> mem_db \<Rightarrow> (mem_error + string \<times> timestamp) \<times> mem_db" where
  "Issue failed now token ownerID jobID db =
     (let expiresAt = now + DispatchTokenTTL;
          row = \<lparr>mk_Token = token, mk_OwnerID = ownerID, mk_JobID = jobID, mk_IssuedAt = now, mk_ExpiresAt = expiresAt,
                 mk_UsedAt = None, mk_RevokedAt = None\<rparr>
      in if ownerID = '''' then (Inl OwnerRequired, db)
         else if jobID = 0 then (Inl JobRequired, db)
         else if failed \<or> token \<in> set (map mk_Token (me_tokens db)) \<or> jobID \<notin> set (map jb_ID (me_jobs db))
         then (Inl MemStatementFailed, db)
         else (Inr (token, expiresAt), db\<lparr>me_tokens := me_tokens db @ [row]\<rparr>))"

definition get_token :: "string \<Rightarrow> mem_db \<Rightarrow> dispatch_token option" where
  "get_token token db = find_row (\<lambda>t. mk_Token t = token) (me_tokens db)"

definition token_good :: "timestamp \<Rightarrow> string \<Rightarrow> id64 \<Rightarrow> dispatch_token \<Rightarrow> bool" where
  "token_good now ownerID jobID t \<longleftrightarrow>
     mk_RevokedAt t = None \<and> now < mk_ExpiresAt t \<and> mk_OwnerID t = ownerID \<and> mk_JobID t = jobID"

definition Validate ::
  "bool \<Rightarrow> bool \<Rightarrow> timestamp \<Rightarrow> string \<Rightarrow> string \<Rightarrow> id64 \<Rightarrow> mem_db \<Rightarrow> (mem_error + bool) \<times> mem_db" where
  "Validate query_fails stamp_fails now token ownerID jobID db =
     (if token = '''' then (Inr False, db)
      else if query_fails then (Inl MemStatementFailed, db)
      else case get_token token db of
             None \<Rightarrow> (Inr False, db)
           | Some t \<Rightarrow>
               if \<not> token_good now ownerID jobID t then (Inr False, db)
               else if mk_UsedAt t \<noteq> None then (Inr True, db)
               else if stamp_fails then (Inl MemStatementFailed, db)
               else (Inr True, db\<lparr>me_tokens := update_where (\<lambda>t. mk_Token t = token \<and> mk_UsedAt t = None)
                                   (\<lambda>t. t\<lparr>mk_UsedAt := Some now\<rparr>) (me_tokens db)\<rparr>))"

definition Revoke :: "bool \<Rightarrow> timestamp \<Rightarrow> string \<Rightarrow> mem_db \<Rightarrow> (mem_error + unit) \<times> mem_db" where
  "Revoke failed now token db =
     (if token = '''' then (Inr (), db)
      else if failed then (Inl MemStatementFailed, db)
      else (Inr (), db\<lparr>me_tokens := update_where (\<lambda>t. mk_Token t = token \<and> mk_RevokedAt t = None)
                         (\<lambda>t. t\<lparr>mk_RevokedAt := Some now\<rparr>) (me_tokens db)\<rparr>))"

section \<open>Consolidation jobs\<close>

definition job_types :: "string list" where
  "job_types = [''reflection'', ''core_rewrite'', ''dedup_contradiction'', ''link_gen'']"

definition in_flight :: "Job \<Rightarrow> bool" where
  "in_flight j \<longleftrightarrow> jb_Status j \<in> {JPending, JDispatched, JRunning}"

definition job_key :: "Job \<Rightarrow> string \<times> string \<times> int" where
  "job_key j = (jb_OwnerID j, jb_JobType j, jb_Slot j)"

definition new_job :: "timestamp \<Rightarrow> id64 \<Rightarrow> string \<Rightarrow> string \<Rightarrow> string \<Rightarrow> int \<Rightarrow> Job" where
  "new_job now i ownerID jobType triggerReason slot =
     \<lparr>jb_ID = i, jb_OwnerID = ownerID, jb_JobType = jobType, jb_Slot = slot, jb_Status = JPending,
      jb_TriggerReason = triggerReason, jb_DispatchToken = None, jb_HarnessRunID = None, jb_Actions = [],
      jb_Summary = None, jb_Error = None, jb_LeaseUntil = None, jb_StartedAt = None, jb_FinishedAt = None,
      jb_CreatedAt = sql_now now\<rparr>"

text \<open>The partial unique index covers the jobs in flight.\<close>

definition CreateOnSlot ::
  "bool \<Rightarrow> timestamp \<Rightarrow> string \<Rightarrow> string \<Rightarrow> string \<Rightarrow> int \<Rightarrow> mem_db \<Rightarrow> (mem_error + id64) \<times> mem_db" where
  "CreateOnSlot failed now ownerID jobType triggerReason slot db =
     (let i = me_job_seq db + 1
      in if ownerID = '''' then (Inl OwnerRequired, db)
         else if jobType = '''' then (Inl JobTypeRequired, db)
         else if slot < 0 then (Inl NegativeSlot, db)
         else if failed \<or> jobType \<notin> set job_types then (Inl MemStatementFailed, db)
         else if (ownerID, jobType, slot) \<in> set (map job_key (filter in_flight (me_jobs db)))
         then (Inl ErrJobAlreadyInFlight, db)
         else (Inr i, db\<lparr>me_jobs := me_jobs db @ [new_job now i ownerID jobType triggerReason slot], me_job_seq := i\<rparr>))"

definition Create ::
  "bool \<Rightarrow> timestamp \<Rightarrow> string \<Rightarrow> string \<Rightarrow> string \<Rightarrow> mem_db \<Rightarrow> (mem_error + id64) \<times> mem_db" where
  "Create failed now ownerID jobType triggerReason db = CreateOnSlot failed now ownerID jobType triggerReason 0 db"

fun try_slots ::
  "(int \<Rightarrow> bool) \<Rightarrow> timestamp \<Rightarrow> string \<Rightarrow> string \<Rightarrow> string \<Rightarrow> int list \<Rightarrow> mem_db \<Rightarrow> (mem_error + id64 \<times> int) \<times> mem_db" where
  "try_slots flt now ownerID jobType triggerReason [] db = (Inl ErrJobAlreadyInFlight, db)"
| "try_slots flt now ownerID jobType triggerReason (slot # slots) db =
     (case CreateOnSlot (flt slot) now ownerID jobType triggerReason slot db of
        (Inr i, db') \<Rightarrow> (Inr (i, slot), db')
      | (Inl e, db') \<Rightarrow> if e = ErrJobAlreadyInFlight then try_slots flt now ownerID jobType triggerReason slots db' else (Inl e, db'))"

definition CreateNextAvailableSlot ::
  "(int \<Rightarrow> bool) \<Rightarrow> timestamp \<Rightarrow> string \<Rightarrow> string \<Rightarrow> string \<Rightarrow> int \<Rightarrow> mem_db \<Rightarrow> (mem_error + id64 \<times> int) \<times> mem_db" where
  "CreateNextAvailableSlot flt now ownerID jobType triggerReason maxSlots db =
     try_slots flt now ownerID jobType triggerReason [0..(if maxSlots \<le> 0 then 1 else maxSlots) - 1] db"

definition update_jobs :: "(Job \<Rightarrow> bool) \<Rightarrow> (Job \<Rightarrow> Job) \<Rightarrow> mem_db \<Rightarrow> mem_db" where
  "update_jobs P f db = db\<lparr>me_jobs := update_where P f (me_jobs db)\<rparr>"

definition jobs_Dispatch :: "bool \<Rightarrow> id64 \<Rightarrow> string \<Rightarrow> string \<Rightarrow> mem_db \<Rightarrow> (mem_error + unit) \<times> mem_db" where
  "jobs_Dispatch failed jobID harnessRunID token db =
     (let P = (\<lambda>j. jb_ID j = jobID \<and> jb_Status j = JPending)
      in if failed then (Inl MemStatementFailed, db)
         else if rows_affected P (me_jobs db) = 0 then (Inl (NotPending jobID), db)
         else (Inr (), update_jobs P (\<lambda>j. j\<lparr>jb_Status := JDispatched, jb_HarnessRunID := Some harnessRunID,
                                            jb_DispatchToken := Some token\<rparr>) db))"

definition Lease :: "bool \<Rightarrow> timestamp \<Rightarrow> id64 \<Rightarrow> timestamp \<Rightarrow> mem_db \<Rightarrow> (mem_error + unit) \<times> mem_db" where
  "Lease failed now jobID until db =
     (let P = (\<lambda>j. jb_ID j = jobID \<and> jb_Status j \<in> {JDispatched, JPending})
      in if failed then (Inl MemStatementFailed, db)
         else if rows_affected P (me_jobs db) = 0 then (Inl (NotDispatchedOrPending jobID), db)
         else (Inr (), update_jobs P (\<lambda>j. j\<lparr>jb_Status := JRunning, jb_LeaseUntil := Some until,
                                            jb_StartedAt := Some (sql_now now)\<rparr>) db))"

text \<open>One transaction: read, append, write.\<close>

definition AppendAction :: "bool \<Rightarrow> id64 \<Rightarrow> mem_action \<Rightarrow> mem_db \<Rightarrow> (mem_error + unit) \<times> mem_db" where
  "AppendAction failed jobID action db =
     (if failed then (Inl MemStatementFailed, db)
      else case find_row (\<lambda>j. jb_ID j = jobID) (me_jobs db) of
             None \<Rightarrow> (Inl NoSuchJob, db)
           | Some j \<Rightarrow> (Inr (), update_jobs (\<lambda>k. jb_ID k = jobID) (\<lambda>k. k\<lparr>jb_Actions := jb_Actions j @ [action]\<rparr>) db))"

definition coalesce :: "string \<Rightarrow> string option \<Rightarrow> string option" where
  "coalesce new old = (if new = '''' then old else Some new)"

definition finish_job :: "timestamp \<Rightarrow> job_status \<Rightarrow> string \<Rightarrow> string \<Rightarrow> Job \<Rightarrow> Job" where
  "finish_job now status summary errMsg j =
     j\<lparr>jb_Status := status, jb_Summary := coalesce summary (jb_Summary j), jb_Error := coalesce errMsg (jb_Error j),
       jb_FinishedAt := (case jb_FinishedAt j of None \<Rightarrow> Some (sql_now now) | Some t \<Rightarrow> Some t), jb_LeaseUntil := None\<rparr>"

text \<open>The table's check on \<open>status\<close> does not know \<open>circuit_broken\<close>: a row set to it fails the statement.\<close>

definition Complete ::
  "bool \<Rightarrow> timestamp \<Rightarrow> id64 \<Rightarrow> job_status \<Rightarrow> string \<Rightarrow> string \<Rightarrow> mem_db \<Rightarrow> (mem_error + unit) \<times> mem_db" where
  "Complete failed now jobID status summary errMsg db =
     (if status \<notin> {JSucceeded, JPartial, JFailed, JExpired, JCircuitBroken} then (Inl InvalidCompletion, db)
      else if failed \<or> status = JCircuitBroken \<and> rows_affected (\<lambda>j. jb_ID j = jobID) (me_jobs db) \<noteq> 0
      then (Inl MemStatementFailed, db)
      else (Inr (), update_jobs (\<lambda>j. jb_ID j = jobID) (finish_job now status summary errMsg) db))"

definition jobs_Get :: "bool \<Rightarrow> id64 \<Rightarrow> mem_db \<Rightarrow> mem_error + Job" where
  "jobs_Get failed jobID db =
     (if failed then Inl MemStatementFailed
      else case find_row (\<lambda>j. jb_ID j = jobID) (me_jobs db) of None \<Rightarrow> Inl NoSuchJob | Some j \<Rightarrow> Inr j)"

definition jobs_ListRecent :: "bool \<Rightarrow> string \<Rightarrow> int \<Rightarrow> mem_db \<Rightarrow> mem_error + Job list" where
  "jobs_ListRecent failed ownerID limit db =
     (if failed then Inl MemStatementFailed
      else Inr (limit_offset (if limit \<le> 0 then 50 else limit) 0
        (sort_key (\<lambda>j. (- jb_CreatedAt j, - jb_ID j)) (filter (\<lambda>j. jb_OwnerID j = ownerID) (me_jobs db)))))"

definition ActiveJob :: "bool \<Rightarrow> string \<Rightarrow> string \<Rightarrow> mem_db \<Rightarrow> mem_error + Job option" where
  "ActiveJob failed ownerID jobType db =
     (if failed then Inl MemStatementFailed
      else Inr (find_row (\<lambda>_. True) (sort_key (\<lambda>j. - jb_ID j)
        (filter (\<lambda>j. jb_OwnerID j = ownerID \<and> jb_JobType j = jobType \<and> in_flight j) (me_jobs db)))))"

section \<open>Links\<close>

definition autoLinkTypes :: "string list" where
  "autoLinkTypes = [''mention'', ''reply_to'', ''channel_cooccurrence'']"

definition consolidationLinkTypes :: "string list" where
  "consolidationLinkTypes = [''duplicate_of'', ''superseded_by'']"

definition semanticLinkTypes :: "string list" where
  "semanticLinkTypes = [''refines'', ''contradicts'', ''examples'', ''related'']"

definition IsAutoLinkType :: "string \<Rightarrow> bool" where
  "IsAutoLinkType relType \<longleftrightarrow> relType \<in> set autoLinkTypes"

definition link_key :: "Link \<Rightarrow> id64 \<times> id64 \<times> string" where
  "link_key l = (lk_SrcMessageID l, lk_DstMessageID l, lk_RelationType l)"

text \<open>The statement both ways of adding a link share: the type is checked, the triple unique.\<close>

definition insert_link ::
  "bool \<Rightarrow> timestamp \<Rightarrow> id64 \<Rightarrow> id64 \<Rightarrow> string \<Rightarrow> string \<Rightarrow> string \<Rightarrow> json \<Rightarrow> mem_db \<Rightarrow> (mem_error + id64) \<times> mem_db" where
  "insert_link failed now src dst relType ownerID createdBy metadata db =
     (let i = me_link_seq db + 1;
          row = \<lparr>lk_ID = i, lk_SrcMessageID = src, lk_DstMessageID = dst, lk_RelationType = relType, lk_OwnerID = ownerID,
                 lk_CreatedBy = createdBy, lk_Metadata = metadata, lk_CreatedAt = sql_now now\<rparr>
      in if failed \<or> relType \<notin> set (semanticLinkTypes @ consolidationLinkTypes @ autoLinkTypes) \<or>
            (src, dst, relType) \<in> set (map link_key (me_links db))
         then (Inl MemStatementFailed, db)
         else (Inr i, db\<lparr>me_links := me_links db @ [row], me_link_seq := i\<rparr>))"

definition link_reserved :: "string \<Rightarrow> string \<Rightarrow> bool" where
  "link_reserved relType createdBy \<longleftrightarrow>
     (if has_prefix ''agent:'' createdBy then relType \<in> set autoLinkTypes \<or> relType \<in> set consolidationLinkTypes
      else has_prefix ''auto:'' createdBy \<and> relType \<notin> set autoLinkTypes)"

definition link_Add ::
  "bool \<Rightarrow> timestamp \<Rightarrow> id64 \<Rightarrow> id64 \<Rightarrow> string \<Rightarrow> string \<Rightarrow> string \<Rightarrow> json \<Rightarrow> mem_db \<Rightarrow> (mem_error + id64) \<times> mem_db" where
  "link_Add failed now src dst relType ownerID createdBy metadata db =
     (if src = 0 \<or> dst = 0 then (Inl IdsRequired, db)
      else if relType = '''' \<or> ownerID = '''' \<or> createdBy = '''' then (Inl FieldsRequired, db)
      else if link_reserved relType createdBy then (Inl ErrLinkTypeReserved, db)
      else insert_link failed now src dst relType ownerID createdBy metadata db)"

definition AddConsolidationLink ::
  "bool \<Rightarrow> timestamp \<Rightarrow> id64 \<Rightarrow> id64 \<Rightarrow> string \<Rightarrow> string \<Rightarrow> string \<Rightarrow> json \<Rightarrow> mem_db \<Rightarrow> (mem_error + id64) \<times> mem_db" where
  "AddConsolidationLink failed now src dst relType ownerID createdBy metadata db =
     (if relType \<noteq> ''duplicate_of'' \<and> relType \<noteq> ''superseded_by'' then (Inl NotConsolidationType, db)
      else insert_link failed now src dst relType ownerID createdBy metadata db)"

definition ListByMessage :: "bool \<Rightarrow> id64 \<Rightarrow> mem_db \<Rightarrow> mem_error + Link list" where
  "ListByMessage failed msgID db =
     (if failed then Inl MemStatementFailed
      else Inr (sort_key lk_ID (filter (\<lambda>l. lk_SrcMessageID l = msgID \<or> lk_DstMessageID l = msgID) (me_links db))))"

definition link_ListByOwner :: "bool \<Rightarrow> string \<Rightarrow> string list \<Rightarrow> int \<Rightarrow> mem_db \<Rightarrow> mem_error + Link list" where
  "link_ListByOwner failed ownerID types limit db =
     (if failed then Inl MemStatementFailed
      else Inr (limit_offset (if limit \<le> 0 then 100 else limit) 0 (sort_key (\<lambda>l. - lk_ID l)
        (filter (\<lambda>l. lk_OwnerID l = ownerID \<and> (types = [] \<or> lk_RelationType l \<in> set types)) (me_links db)))))"

section \<open>Pins\<close>

definition pin_key :: "Pin \<Rightarrow> string \<times> id64" where
  "pin_key p = (pn_OwnerID p, pn_MessageID p)"

definition PinMessage ::
  "bool \<Rightarrow> timestamp \<Rightarrow> string \<Rightarrow> id64 \<Rightarrow> string \<Rightarrow> string \<Rightarrow> mem_db \<Rightarrow> (mem_error + unit) \<times> mem_db" where
  "PinMessage failed now ownerID msgID pinnedBy note db =
     (let by = (if pinnedBy = '''' then ''human:'' @ ownerID else pinnedBy);
          P = (\<lambda>p. pin_key p = (ownerID, msgID))
      in if ownerID = '''' then (Inl OwnerRequired, db)
         else if msgID = 0 then (Inl IdsRequired, db)
         else if failed then (Inl MemStatementFailed, db)
         else (Inr (), db\<lparr>me_pins :=
                (if rows_affected P (me_pins db) = 0
                 then me_pins db @ [\<lparr>pn_OwnerID = ownerID, pn_MessageID = msgID, pn_PinnedBy = by, pn_Note = note, pn_PinnedAt = sql_now now\<rparr>]
                 else update_where P (\<lambda>p. p\<lparr>pn_PinnedBy := by, pn_Note := note, pn_PinnedAt := sql_now now\<rparr>) (me_pins db))\<rparr>))"

definition Unpin :: "bool \<Rightarrow> string \<Rightarrow> id64 \<Rightarrow> mem_db \<Rightarrow> (mem_error + unit) \<times> mem_db" where
  "Unpin failed ownerID msgID db =
     (if failed then (Inl MemStatementFailed, db)
      else (Inr (), db\<lparr>me_pins := delete_where (\<lambda>p. pin_key p = (ownerID, msgID)) (me_pins db)\<rparr>))"

definition ListPinsForOwner :: "bool \<Rightarrow> string \<Rightarrow> mem_db \<Rightarrow> mem_error + Pin list" where
  "ListPinsForOwner failed ownerID db =
     (if failed then Inl MemStatementFailed
      else Inr (sort_key (\<lambda>p. - pn_PinnedAt p) (filter (\<lambda>p. pn_OwnerID p = ownerID) (me_pins db))))"

definition pins_ListForOwner :: "bool \<Rightarrow> string \<Rightarrow> mem_db \<Rightarrow> mem_error + id64 list" where
  "pins_ListForOwner failed ownerID db =
     (if failed then Inl MemStatementFailed
      else Inr (map pn_MessageID (sort_key (\<lambda>p. - pn_PinnedAt p) (filter (\<lambda>p. pn_OwnerID p = ownerID) (me_pins db)))))"

section \<open>Core memories\<close>

text \<open>The size limit of a store, 2048 bytes unless configured.\<close>

definition core_cap :: "int \<Rightarrow> int" where
  "core_cap maxBytes = (if maxBytes \<le> 0 then 2048 else maxBytes)"

definition core_is :: "string \<Rightarrow> string \<Rightarrow> CoreMemoryRecord \<Rightarrow> bool" where
  "core_is ownerID agentName c \<longleftrightarrow> co_OwnerID c = ownerID \<and> co_AgentName c = agentName"

definition core_Get :: "bool \<Rightarrow> string \<Rightarrow> string \<Rightarrow> mem_db \<Rightarrow> mem_error + (string \<times> timestamp) option" where
  "core_Get failed ownerID agentName db =
     (if failed then Inl MemStatementFailed
      else Inr (map_option (\<lambda>c. (co_Blob c, co_UpdatedAt c)) (find_row (core_is ownerID agentName) (me_core db))))"

definition core_Set ::
  "bool \<Rightarrow> timestamp \<Rightarrow> int \<Rightarrow> string \<Rightarrow> string \<Rightarrow> string \<Rightarrow> string \<Rightarrow> mem_db \<Rightarrow> (mem_error + unit) \<times> mem_db" where
  "core_Set failed now maxBytes ownerID agentName blob updatedBy db =
     (if core_cap maxBytes < int (length blob) then (Inl ErrCoreMemoryTooLarge, db)
      else if ownerID = '''' then (Inl OwnerRequired, db)
      else if agentName = '''' then (Inl EmptyAgentName, db)
      else if updatedBy = '''' then (Inl EmptyUpdatedBy, db)
      else if failed then (Inl MemStatementFailed, db)
      else (Inr (), db\<lparr>me_core :=
              (if rows_affected (core_is ownerID agentName) (me_core db) = 0
               then me_core db @ [\<lparr>co_OwnerID = ownerID, co_AgentName = agentName, co_Blob = blob,
                                   co_UpdatedAt = sql_now now, co_UpdatedBy = updatedBy\<rparr>]
               else update_where (core_is ownerID agentName)
                      (\<lambda>c. c\<lparr>co_Blob := blob, co_UpdatedAt := sql_now now, co_UpdatedBy := updatedBy\<rparr>) (me_core db))\<rparr>))"

definition core_Delete :: "bool \<Rightarrow> string \<Rightarrow> string \<Rightarrow> mem_db \<Rightarrow> (mem_error + unit) \<times> mem_db" where
  "core_Delete failed ownerID agentName db =
     (if failed then (Inl MemStatementFailed, db)
      else (Inr (), db\<lparr>me_core := delete_where (core_is ownerID agentName) (me_core db)\<rparr>))"

definition core_List :: "bool \<Rightarrow> string \<Rightarrow> mem_db \<Rightarrow> mem_error + CoreMemoryRecord list" where
  "core_List failed ownerID db =
     (if failed then Inl MemStatementFailed
      else Inr (sort_key co_AgentName (filter (\<lambda>c. co_OwnerID c = ownerID) (me_core db))))"

definition GetForInjection :: "bool \<Rightarrow> string \<Rightarrow> string \<Rightarrow> mem_db \<Rightarrow> mem_error + string" where
  "GetForInjection failed ownerID agentName db =
     (case core_Get failed ownerID agentName db of
        Inl e \<Rightarrow> Inl e | Inr None \<Rightarrow> Inr '''' | Inr (Some (blob, _)) \<Rightarrow> Inr blob)"

section \<open>The channels of the pool\<close>

definition MemoryChannelNames :: "string list" where
  "MemoryChannelNames = [''open-brain'']"

definition MemoryChannelPrefixes :: "string list" where
  "MemoryChannelPrefixes = [''reflections-'']"

definition matchesMemoryChannelName :: "string \<Rightarrow> bool" where
  "matchesMemoryChannelName name \<longleftrightarrow>
     name \<in> set MemoryChannelNames \<or> (\<exists>p \<in> set MemoryChannelPrefixes. has_prefix p name)"

text \<open>The metadata up to its parse; a text that is no object has no \<open>is_memory\<close>.\<close>

definition isMemoryChannelMetadata :: "raw_json \<Rightarrow> bool" where
  "isMemoryChannelMetadata metadata \<longleftrightarrow>
     (case metadata of RValid (JObj kvs) \<Rightarrow> map_of kvs ''is_memory'' = Some (JBool True) | _ \<Rightarrow> False)"

definition IsMemoryChannel :: "(string \<times> raw_json) option \<Rightarrow> bool" where
  "IsMemoryChannel ch =
     (case ch of None \<Rightarrow> False | Some (name, metadata) \<Rightarrow> matchesMemoryChannelName name \<or> isMemoryChannelMetadata metadata)"

definition memory_channel_clause :: "string \<Rightarrow> bool" where
  "memory_channel_clause name \<longleftrightarrow>
     name \<in> set MemoryChannelNames \<or> (\<exists>p \<in> set MemoryChannelPrefixes. sql_like (p @ ''%'') name)"

definition MemoryChannelIDs :: "bool \<Rightarrow> (id64 \<times> string) list \<Rightarrow> mem_error + id64 list" where
  "MemoryChannelIDs failed channels =
     (if failed then Inl MemStatementFailed else Inr (map fst (filter (\<lambda>c. memory_channel_clause (snd c)) channels)))"

section \<open>The status of a memory\<close>

datatype memory_status = MActive | MSoftDeleted | MSuperseded

record MemoryStatus =
  mt_MessageID :: id64
  mt_OwnerID :: string
  mt_Status :: memory_status
  mt_SupersededBy :: "int option"
  mt_SoftDeletedAt :: "timestamp option"
  mt_Reason :: string

text \<open>The view takes the actions of the jobs that came to an end with their work done.\<close>

definition view_actions :: "mem_db \<Rightarrow> (string \<times> timestamp option \<times> mem_action) list" where
  "view_actions db = concat (map (\<lambda>j. map (\<lambda>a. (jb_OwnerID j, jb_FinishedAt j, a)) (jb_Actions j))
     (filter (\<lambda>j. jb_Status j \<in> {JSucceeded, JPartial}) (me_jobs db)))"

definition arg_int :: "string \<Rightarrow> mem_action \<Rightarrow> int option" where
  "arg_int k a = (case map_of (ma_Args a) k of Some (JNum n) \<Rightarrow> Some n | _ \<Rightarrow> None)"

definition arg_text :: "string \<Rightarrow> mem_action \<Rightarrow> string option" where
  "arg_text k a = (case map_of (ma_Args a) k of Some (JStr s) \<Rightarrow> Some s | _ \<Rightarrow> None)"

text \<open>SQL's \<open>MAX\<close> skips NULL.\<close>

definition sql_max :: "('a :: linorder) option list \<Rightarrow> 'a option" where
  "sql_max xs = (case concat (map (\<lambda>x. case x of None \<Rightarrow> [] | Some y \<Rightarrow> [y]) xs) of [] \<Rightarrow> None | y # ys \<Rightarrow> Some (foldl max y ys))"

definition supersedes :: "mem_action \<Rightarrow> bool" where
  "supersedes a \<longleftrightarrow> ma_Tool a = ''memory_supersede''"

definition soft_deletes :: "mem_action \<Rightarrow> bool" where
  "soft_deletes a \<longleftrightarrow> ma_Tool a = ''memory_mark_duplicate'' \<and>
     (case arg_int ''keep_id'' a of None \<Rightarrow> False | Some k \<Rightarrow> k \<noteq> ma_Target a)"

definition status_row :: "id64 \<Rightarrow> string \<Rightarrow> (timestamp option \<times> mem_action) list \<Rightarrow> MemoryStatus" where
  "status_row msgID ownerID as =
     \<lparr>mt_MessageID = msgID, mt_OwnerID = ownerID,
      mt_Status = (if sql_max (map (\<lambda>(at, a). if supersedes a then at else None) as) \<noteq> None then MSuperseded
                   else if sql_max (map (\<lambda>(at, a). if soft_deletes a then at else None) as) \<noteq> None then MSoftDeleted
                   else MActive),
      mt_SupersededBy = sql_max (map (\<lambda>(at, a). if supersedes a then arg_int ''b_id'' a else None) as),
      mt_SoftDeletedAt = sql_max (map (\<lambda>(at, a). if soft_deletes a then at else None) as),
      mt_Reason = (case sql_max (map (\<lambda>(at, a). arg_text ''reason'' a) as) of None \<Rightarrow> '''' | Some r \<Rightarrow> r)\<rparr>"

definition view_group :: "mem_db \<Rightarrow> id64 \<Rightarrow> string \<Rightarrow> (timestamp option \<times> mem_action) list" where
  "view_group db msgID ownerID = map snd (filter (\<lambda>(o1, at, a). o1 = ownerID \<and> ma_Target a = msgID) (view_actions db))"

definition memory_status_view :: "mem_db \<Rightarrow> MemoryStatus list" where
  "memory_status_view db = map (\<lambda>(m, ow). status_row m ow (view_group db m ow))
     (sort (remdups (map (\<lambda>(ow, at, a). (ma_Target a, ow)) (view_actions db))))"

text \<open>
  The rows of the wanted messages as a map; \<open>scan\<close> is what the driver makes of the computed
  column \<open>soft_deleted_at\<close> when it reads it into a time, nothing when it refuses.
\<close>

definition MemoryStatuses ::
  "bool \<Rightarrow> (timestamp \<Rightarrow> timestamp option) \<Rightarrow> id64 list \<Rightarrow> mem_db \<Rightarrow> mem_error + (id64 \<Rightarrow> MemoryStatus option)" where
  "MemoryStatuses failed scan msgIDs db =
     (let rows = filter (\<lambda>s. mt_MessageID s \<in> set msgIDs) (memory_status_view db)
      in if msgIDs = [] then Inr Map.empty
         else if failed \<or> (\<exists>s \<in> set rows. \<exists>t. mt_SoftDeletedAt s = Some t \<and> scan t = None) then Inl MemStatementFailed
         else Inr (foldl (\<lambda>m s. m(mt_MessageID s \<mapsto> s\<lparr>mt_SoftDeletedAt := Option.bind (mt_SoftDeletedAt s) scan\<rparr>)) Map.empty rows))"

definition StatusByID ::
  "bool \<Rightarrow> (timestamp \<Rightarrow> timestamp option) \<Rightarrow> id64 list \<Rightarrow> mem_db \<Rightarrow> mem_error + (id64 \<Rightarrow> memory_status option)" where
  "StatusByID failed scan msgIDs db =
     (case MemoryStatuses failed scan msgIDs db of Inl e \<Rightarrow> Inl e | Inr m \<Rightarrow> Inr (map_option mt_Status \<circ> m))"

section \<open>The links of a new message\<close>

text \<open>
  The matches of \<open>@([A-Za-z][A-Za-z0-9_\-]{1,63})\<close> from left to right, each as long as it can
  be, the next sought behind the last.
\<close>

definition is_letter :: "char \<Rightarrow> bool" where
  "is_letter c = (let n = of_char c :: nat in (65 \<le> n \<and> n \<le> 90) \<or> (97 \<le> n \<and> n \<le> 122))"

definition mention_char :: "char \<Rightarrow> bool" where
  "mention_char c \<longleftrightarrow> is_alnum c \<or> c = CHR ''_'' \<or> c = CHR ''-''"

definition mention_tail :: "string \<Rightarrow> string" where
  "mention_tail t = takeWhile mention_char (take 63 t)"

function auto_mentions :: "string \<Rightarrow> string list" where
  "auto_mentions [] = []"
| "auto_mentions [c] = []"
| "auto_mentions (c # d # t) =
     (if c = CHR ''@'' \<and> is_letter d \<and> mention_tail t \<noteq> []
      then (d # mention_tail t) # auto_mentions (drop (length (mention_tail t)) t)
      else auto_mentions (d # t))"
  by pat_completeness auto
termination
  by (relation "measure length") auto

text \<open>
  \<open>itoaInt64\<close> fills a buffer of 20 bytes from its end; an index out of the buffer is \<open>None\<close>, a panic.
\<close>

definition buf_put :: "nat \<times> string \<Rightarrow> char \<Rightarrow> (nat \<times> string) option" where
  "buf_put st c = (case st of (i, buf) \<Rightarrow> if i = 0 \<or> length buf < i then None else Some (i - 1, buf[i - 1 := c]))"

function itoa_digits :: "64 word \<Rightarrow> nat \<times> string \<Rightarrow> (nat \<times> string) option" where
  "itoa_digits v st =
     (if 0 <s v
      then case buf_put st (char_of (48 + unat (v mod 10))) of None \<Rightarrow> None | Some st' \<Rightarrow> itoa_digits (v div 10) st'
      else Some st)"
  by pat_completeness auto
termination
proof (relation "measure (\<lambda>(v, st). unat v)", goal_cases)
  case (2 v st x2)
  then have "v \<noteq> 0" by auto
  then have "0 < unat v" by (simp add: unat_gt_0)
  then show ?case by (simp add: unat_div)
qed simp

declare itoa_digits.simps [simp del]

definition itoaInt64 :: "64 word \<Rightarrow> string option" where
  "itoaInt64 v =
     (if v = 0 then Some ''0''
      else let neg = v <s 0
        in case itoa_digits (if neg then - v else v) (20, replicate 20 (CHR 0x00)) of
             None \<Rightarrow> None
           | Some st \<Rightarrow>
               map_option (\<lambda>(i, buf). drop i buf) (if neg then buf_put st (CHR ''-'') else Some st))"

definition channelNameByID :: "bool \<Rightarrow> (id64 \<times> string) list \<Rightarrow> id64 \<Rightarrow> string option" where
  "channelNameByID failed channels i = (if failed then None else map_option snd (find_row (\<lambda>c. fst c = i) channels))"

definition resolveOwnerString :: "bool \<Rightarrow> reg_db \<Rightarrow> string \<Rightarrow> string option" where
  "resolveOwnerString failed reg fromAgent =
     (if failed then Some ''''
      else case find_row (\<lambda>a. ag_Name a = fromAgent) (rg_agents reg) of
             None \<Rightarrow> Some ''''
           | Some a \<Rightarrow> if ag_OwnerID a = 0 then Some '''' else itoaInt64 (word_of_int (ag_OwnerID a)))"

definition extractReplyToFromMetadata :: "json \<Rightarrow> id64" where
  "extractReplyToFromMetadata meta =
     (case meta of
        JObj kvs \<Rightarrow> (case map_of kvs ''reply_to_message_id'' of Some (JNum n) \<Rightarrow> n | _ \<Rightarrow> 0)
      | _ \<Rightarrow> 0)"

definition newest_id :: "bool \<Rightarrow> (Message \<Rightarrow> bool) \<Rightarrow> msg_db \<Rightarrow> id64" where
  "newest_id failed P md =
     (if failed then 0
      else case sort_key (\<lambda>m. - msg_ID m) (filter P (md_msgs md)) of [] \<Rightarrow> 0 | m # _ \<Rightarrow> msg_ID m)"

definition mostRecentMessageFromAgentInChannel :: "bool \<Rightarrow> msg_db \<Rightarrow> id64 \<Rightarrow> string \<Rightarrow> id64 \<Rightarrow> id64" where
  "mostRecentMessageFromAgentInChannel failed md channelID agent excludeID =
     newest_id failed (\<lambda>m. msg_ChannelID m = Some channelID \<and> msg_FromAgent m = agent \<and> msg_ID m \<noteq> excludeID) md"

definition mostRecentMessageInChannel :: "bool \<Rightarrow> msg_db \<Rightarrow> id64 \<Rightarrow> id64 \<Rightarrow> id64" where
  "mostRecentMessageInChannel failed md channelID excludeID =
     newest_id failed (\<lambda>m. msg_ChannelID m = Some channelID \<and> msg_ID m < excludeID) md"

datatype auto_stmt = AuChannel | AuOwner | AuMention string | AuPrevious | AuLink string id64

definition auto_link ::
  "(auto_stmt \<Rightarrow> bool) \<Rightarrow> timestamp \<Rightarrow> Message \<Rightarrow> string \<Rightarrow> string \<Rightarrow> id64 \<Rightarrow> mem_db \<Rightarrow> mem_db" where
  "auto_link flt now msg ownerID relType dst db =
     snd (link_Add (flt (AuLink relType dst)) now (msg_ID msg) dst relType ownerID (''auto:'' @ relType) (JObj []) db)"

definition auto_reply :: "(auto_stmt \<Rightarrow> bool) \<Rightarrow> timestamp \<Rightarrow> Message \<Rightarrow> string \<Rightarrow> mem_db \<Rightarrow> mem_db" where
  "auto_reply flt now msg ownerID db =
     (case msg_ReplyTo msg of
        Some r \<Rightarrow> if r \<noteq> 0 then auto_link flt now msg ownerID ''reply_to'' r db
          else let m = extractReplyToFromMetadata (msg_Metadata msg) in
            if m \<noteq> 0 then auto_link flt now msg ownerID ''reply_to'' m db else db
      | None \<Rightarrow> let m = extractReplyToFromMetadata (msg_Metadata msg) in
          if m \<noteq> 0 then auto_link flt now msg ownerID ''reply_to'' m db else db)"

fun auto_mention_links ::
  "(auto_stmt \<Rightarrow> bool) \<Rightarrow> timestamp \<Rightarrow> msg_db \<Rightarrow> Message \<Rightarrow> id64 \<Rightarrow> string \<Rightarrow> string list \<Rightarrow> mem_db \<Rightarrow> mem_db" where
  "auto_mention_links flt now md msg c ownerID [] db = db"
| "auto_mention_links flt now md msg c ownerID (t # ts) db =
     (let dst = mostRecentMessageFromAgentInChannel (flt (AuMention t)) md c t (msg_ID msg)
      in auto_mention_links flt now md msg c ownerID ts
           (if t = msg_FromAgent msg \<or> dst = 0 then db else auto_link flt now msg ownerID ''mention'' dst db))"

definition OnMessageSent_links ::
  "(auto_stmt \<Rightarrow> bool) \<Rightarrow> timestamp \<Rightarrow> (id64 \<times> string) list \<Rightarrow> reg_db \<Rightarrow> msg_db \<Rightarrow> Message \<Rightarrow> mem_db \<Rightarrow> mem_db option" where
  "OnMessageSent_links flt now channels reg md msg db =
     (if msg_ID msg = 0 then Some db
      else case msg_ChannelID msg of
             None \<Rightarrow> Some db
           | Some c \<Rightarrow>
               (case channelNameByID (flt AuChannel) channels c of
                  None \<Rightarrow> Some db
                | Some name \<Rightarrow>
                    if \<not> matchesMemoryChannelName name then Some db
                    else case resolveOwnerString (flt AuOwner) reg (msg_FromAgent msg) of
                           None \<Rightarrow> None
                         | Some ownerID \<Rightarrow>
                             if ownerID = '''' then Some db
                             else let db1 = auto_reply flt now msg ownerID db;
                                      db2 = auto_mention_links flt now md msg c ownerID (auto_mentions (msg_Body msg)) db1;
                                      prev = mostRecentMessageInChannel (flt AuPrevious) md c (msg_ID msg)
                               in Some (if prev \<noteq> 0 then auto_link flt now msg ownerID ''channel_cooccurrence'' prev db2 else db2)))"

subsection \<open>Printing an owner id\<close>

definition digits :: "nat \<Rightarrow> string" where
  "digits n = (if n = 0 then '''' else show_nat n)"

lemma digits_step: "0 < n \<Longrightarrow> digits n = digits (n div 10) @ [char_of (48 + n mod 10)]"
  by (subst digits_def, subst show_nat.simps) (auto simp: digits_def)

lemma length_digits: "n < 10 ^ k \<Longrightarrow> length (digits n) \<le> k"
proof (induction k arbitrary: n)
  case (Suc k)
  show ?case
  proof (cases "n = 0")
    case False
    have "n div 10 < 10 ^ k" using Suc.prems by (simp add: less_mult_imp_div_less mult.commute)
    from Suc.IH [OF this] False show ?thesis by (simp add: digits_step)
  qed (simp add: digits_def)
qed (simp add: digits_def)

lemma buf_put_ok:
  "0 < i \<Longrightarrow> i \<le> length buf \<Longrightarrow>
   \<exists>buf'. buf_put (i, buf) c = Some (i - 1, buf') \<and> length buf' = length buf \<and> drop (i - 1) buf' = c # drop i buf"
  by (intro exI [of _ "buf[i - 1 := c]"]) (auto simp: buf_put_def drop_update_swap Cons_nth_drop_Suc [symmetric])

lemma sint_uint_cases: "sint (v :: 64 word) = (if uint v < 2 ^ 63 then uint v else uint v - 2 ^ 64)"
proof -
  have s: "sint v = (uint v + 2 ^ 63) mod 2 ^ 64 - 2 ^ 63"
    by (simp add: sint_uint signed_take_bit_eq_take_bit_shift take_bit_eq_mod)
  have range: "0 \<le> uint v" "uint v < 2 ^ 64" using uint_lt2p [of v] by auto
  show ?thesis
  proof (cases "uint v < 2 ^ 63")
    case True
    with range have "(uint v + 2 ^ 63) mod 2 ^ 64 = uint v + 2 ^ 63" by (intro mod_pos_pos_trivial) auto
    with s True show ?thesis by simp
  next
    case False
    have "(uint v + 2 ^ 63) mod 2 ^ 64 = (uint v + 2 ^ 63 - 2 ^ 64) mod 2 ^ 64"
      by (metis minus_mod_self2)
    also have "\<dots> = uint v + 2 ^ 63 - 2 ^ 64" using False range by (intro mod_pos_pos_trivial) auto
    finally show ?thesis using s False by simp
  qed
qed

lemma uint_small: "unat (v :: 64 word) < 2 ^ 63 \<longleftrightarrow> uint v < 2 ^ 63"
proof -
  have "int (unat v) < int (2 ^ 63) \<longleftrightarrow> unat v < 2 ^ 63" by (rule of_nat_less_iff)
  moreover have "int (unat v) = uint v" by simp
  ultimately show ?thesis by simp
qed

lemma uint_pos: "0 < uint (v :: 64 word) \<longleftrightarrow> 0 < unat v"
proof -
  have "int (unat v) = uint v" by simp
  then show ?thesis by linarith
qed

lemma word_pos: "unat (v :: 64 word) < 2 ^ 63 \<Longrightarrow> (0 <s v) = (0 < unat v)"
  using uint_small [of v] uint_pos [of v] by (auto simp: word_sless_alt sint_uint_cases)

lemma unat_pos: "0 < sint (v :: 64 word) \<Longrightarrow> unat v < 2 ^ 63 \<and> nat (sint v) = unat v"
  using uint_lt2p [of v] uint_small [of v] by (auto simp: sint_uint_cases split: if_splits)


lemma uint_neg: "sint (v :: 64 word) < 0 \<Longrightarrow> uint (- v) = - sint v"
proof -
  assume neg: "sint v < 0"
  then have big: "2 ^ 63 \<le> uint v" "sint v = uint v - 2 ^ 64" by (auto simp: sint_uint_cases split: if_splits)
  have "uint (- v) = (- uint v) mod 2 ^ 64" by (simp add: uint_word_ariths)
  also have "\<dots> = (2 ^ 64 - uint v) mod 2 ^ 64" by (metis add.commute minus_mod_self2 mod_add_self2 uminus_add_conv_diff diff_conv_add_uminus)
  also have "\<dots> = 2 ^ 64 - uint v" using big uint_lt2p [of v] by (intro mod_pos_pos_trivial) auto
  finally show ?thesis using big by simp
qed

lemma char48: "show_nat 0 = ''0''" by code_simp

lemma itoa_digits_ok:
  fixes v :: "64 word"
  assumes "unat v < 2 ^ 63" "i \<le> length buf" "length (digits (unat v)) \<le> i"
  shows "\<exists>buf'. itoa_digits v (i, buf) = Some (i - length (digits (unat v)), buf') \<and> length buf' = length buf \<and>
      drop (i - length (digits (unat v))) buf' = digits (unat v) @ drop i buf"
  using assms
proof (induction "unat v" arbitrary: v i buf rule: less_induct)
  case less
  show ?case
  proof (cases "unat v = 0")
    case True
    then show ?thesis using less.prems by (simp add: itoa_digits.simps [of v] word_pos digits_def)
  next
    case False
    let ?w = "v div 10" and ?c = "char_of (48 + unat (v mod 10)) :: char"
    have w: "unat ?w = unat v div 10" and m: "unat (v mod 10) = unat v mod 10"
      by (simp_all add: unat_div unat_mod)
    have d: "digits (unat v) = digits (unat ?w) @ [?c]" using False w m by (simp add: digits_step)
    with less.prems have i: "0 < i" "length (digits (unat ?w)) \<le> i - 1" by auto
    from buf_put_ok [OF i(1) less.prems(2), of ?c] obtain b where
      b: "buf_put (i, buf) ?c = Some (i - 1, b)" "length b = length buf" "drop (i - 1) b = ?c # drop i buf" by blast
    from False w have "unat ?w < unat v" by simp
    moreover from this less.prems(1) have "unat ?w < 2 ^ 63" by linarith
    moreover have "i - 1 \<le> length b" using b(2) less.prems(2) by simp
    ultimately obtain b' where
      b': "itoa_digits ?w (i - 1, b) = Some (i - 1 - length (digits (unat ?w)), b')" "length b' = length b"
        "drop (i - 1 - length (digits (unat ?w))) b' = digits (unat ?w) @ drop (i - 1) b"
      using less.hyps [of ?w "i - 1" b] i(2) by blast
    have "itoa_digits v (i, buf) = itoa_digits ?w (i - 1, b)"
      using less.prems False b by (simp add: itoa_digits.simps [of v] word_pos)
    with b b' d show ?thesis by simp
  qed
qed

lemma show_int_pos: "0 < i \<Longrightarrow> show_int i = digits (nat i)"
  by (simp add: show_int_def digits_def)

lemma show_int_neg: "i < 0 \<Longrightarrow> show_int i = CHR ''-'' # digits (nat (- i))"
  by (simp add: show_int_def digits_def)

lemma itoa_digits_buffer:
  fixes w :: "64 word"
  assumes "unat w < 2 ^ 63"
  obtains b where "itoa_digits w (20, replicate 20 (CHR 0x00)) = Some (20 - length (digits (unat w)), b)"
    "length b = 20" "drop (20 - length (digits (unat w))) b = digits (unat w)" "length (digits (unat w)) \<le> 19"
proof -
  have "length (digits (unat w)) \<le> 19" using assms by (intro length_digits) simp
  with itoa_digits_ok [OF assms, of 20 "replicate 20 (CHR 0x00)"] that show thesis by auto
qed

text \<open>
  The buffer is always long enough, and the text is that of \<open>strconv.FormatInt\<close> but at the least
  integer, which has no negation.
\<close>

lemma itoaInt64_exact: "itoaInt64 v = Some (if sint v = - (2 ^ 63) then ''-'' else show_int (sint v))"
proof -
  have less: "v <s 0 \<longleftrightarrow> sint v < 0" by (simp add: word_sless_alt)
  consider "v = 0" | "0 < sint v" | "sint v < 0" "sint v \<noteq> - (2 ^ 63)" | "sint v = - (2 ^ 63)"
    by (metis linorder_neqE_linordered_idom signed_eq_0_iff)
  then show ?thesis
  proof cases
    case 1
    then show ?thesis by (simp add: itoaInt64_def show_int_def char48)
  next
    case 2
    obtain b where "itoa_digits v (20, replicate 20 (CHR 0x00)) = Some (20 - length (digits (unat v)), b)"
      "drop (20 - length (digits (unat v))) b = digits (unat v)"
      by (rule itoa_digits_buffer [of v]) (use unat_pos [OF 2] in simp_all)
    moreover have "v \<noteq> 0" using 2 by auto
    ultimately show ?thesis using 2 unat_pos [OF 2] by (simp add: itoaInt64_def less show_int_pos)
  next
    case 3
    have u: "nat (- sint v) = unat (- v)" "unat (- v) < 2 ^ 63"
      using uint_neg [OF 3(1)] 3 sint_ge [of v] uint_small [of "- v"] by (auto simp flip: nat_uint_eq)
    obtain b where b: "itoa_digits (- v) (20, replicate 20 (CHR 0x00)) = Some (20 - length (digits (unat (- v))), b)"
      "length b = 20" "drop (20 - length (digits (unat (- v)))) b = digits (unat (- v))" "length (digits (unat (- v))) \<le> 19"
      by (rule itoa_digits_buffer [OF u(2)])
    from buf_put_ok [of "20 - length (digits (unat (- v)))" b "CHR ''-''"] b
    obtain b' where "buf_put (20 - length (digits (unat (- v))), b) (CHR ''-'') = Some (20 - length (digits (unat (- v))) - 1, b')"
      "drop (20 - length (digits (unat (- v))) - 1) b' = CHR ''-'' # digits (unat (- v))" by auto
    moreover have "v \<noteq> 0" using 3 by auto
    ultimately show ?thesis using 3 b u by (simp add: itoaInt64_def less show_int_neg)
  next
    case 4
    have "uint (- v) = 2 ^ 63" using uint_neg [of v] 4 by simp
    then have "sint (- v) < 0" by (simp add: sint_uint_cases)
    then have "\<not> 0 <s - v" by (simp add: word_sless_alt)
    moreover have "v \<noteq> 0" using 4 by auto
    moreover obtain b where "buf_put (20, replicate 20 (CHR 0x00)) (CHR ''-'') = Some (19, b)" "drop 19 b = ''-''"
      using buf_put_ok [of 20 "replicate 20 (CHR 0x00)" "CHR ''-''"] by auto
    ultimately show ?thesis using 4 by (simp add: itoaInt64_def less itoa_digits.simps [of "- v"])
  qed
qed

text \<open>Both ways of naming an owner agree, so a link's owner is the one the memory tools look for.\<close>

lemma resolveOwnerString_OwnerFor:
  assumes "\<And>a. a \<in> set (rg_agents reg) \<Longrightarrow> - (2 ^ 63) < ag_OwnerID a \<and> ag_OwnerID a < 2 ^ 63"
  shows "resolveOwnerString f reg name = Some (case OwnerFor f name reg of Inl e \<Rightarrow> '''' | Inr s \<Rightarrow> s)"
proof (cases "find_row (\<lambda>a. ag_Name a = name) (rg_agents reg)")
  case (Some a)
  with assms [of a] have "sint (word_of_int (ag_OwnerID a) :: 64 word) = ag_OwnerID a"
    by (auto dest!: find_row_Some simp: sint_sbintrunc' signed_take_bit_int_eq_self)
  with Some assms [of a] show ?thesis
    by (auto simp: resolveOwnerString_def OwnerFor_def itoaInt64_exact dest: find_row_Some)
next
  case None
  then show ?thesis unfolding resolveOwnerString_def OwnerFor_def None by simp
qed

definition mem_reg_of :: "reg_agent list \<Rightarrow> reg_db" where
  "mem_reg_of as = \<lparr>rg_agents = as, rg_agent_seq = int (length as), rg_keys = [], rg_key_seq = 0, rg_letters = [], rg_letter_seq = 0, rg_bg = []\<rparr>"

section \<open>What the view says\<close>

lemma sql_max_None: "sql_max xs = None \<longleftrightarrow> (\<forall>x \<in> set xs. x = None)"
proof -
  have "concat (map (\<lambda>x. case x of None \<Rightarrow> [] | Some y \<Rightarrow> [y]) xs) = [] \<longleftrightarrow> (\<forall>x \<in> set xs. x = None)"
    by (induction xs) (auto split: option.splits)
  moreover have "sql_max xs = None \<longleftrightarrow> concat (map (\<lambda>x. case x of None \<Rightarrow> [] | Some y \<Rightarrow> [y]) xs) = []"
    unfolding sql_max_def by (simp add: list.case_eq_if del: concat_eq_Nil_conv)
  ultimately show ?thesis by simp
qed

text \<open>The status of a message for an owner; a message the view does not know is active.\<close>

definition status_in_view :: "mem_db \<Rightarrow> id64 \<Rightarrow> string \<Rightarrow> memory_status" where
  "status_in_view db msgID ownerID =
     (case find_row (\<lambda>s. mt_MessageID s = msgID \<and> mt_OwnerID s = ownerID) (memory_status_view db) of
        None \<Rightarrow> MActive | Some s \<Rightarrow> mt_Status s)"

text \<open>An owner's job that ended with its work done took an action on the message.\<close>

definition acted :: "(mem_action \<Rightarrow> bool) \<Rightarrow> mem_db \<Rightarrow> id64 \<Rightarrow> string \<Rightarrow> bool" where
  "acted P db msgID ownerID \<longleftrightarrow>
     (\<exists>j \<in> set (me_jobs db). jb_OwnerID j = ownerID \<and> jb_Status j \<in> {JSucceeded, JPartial} \<and> jb_FinishedAt j \<noteq> None \<and>
        (\<exists>a \<in> set (jb_Actions j). P a \<and> ma_Target a = msgID))"

lemma find_view_row:
  "find_row (\<lambda>s. mt_MessageID s = m \<and> mt_OwnerID s = ow) (map (\<lambda>(m, ow). status_row m ow (g m ow)) ks) =
   (if (m, ow) \<in> set ks then Some (status_row m ow (g m ow)) else None)"
  by (induction ks) (auto simp: status_row_def)

lemma in_view_group:
  "(at, a) \<in> set (view_group db m ow) \<longleftrightarrow>
   (\<exists>j \<in> set (me_jobs db). jb_OwnerID j = ow \<and> jb_Status j \<in> {JSucceeded, JPartial} \<and> jb_FinishedAt j = at \<and>
      a \<in> set (jb_Actions j) \<and> ma_Target a = m)"
  by (force simp: view_group_def view_actions_def)

lemma group_acted: "sql_max (map (\<lambda>(at, a). if P a then at else None) (view_group db m ow)) \<noteq> None \<longleftrightarrow> acted P db m ow"
proof -
  have "sql_max (map (\<lambda>(at, a). if P a then at else None) (view_group db m ow)) \<noteq> None \<longleftrightarrow>
      (\<exists>at a. (at, a) \<in> set (view_group db m ow) \<and> P a \<and> at \<noteq> None)"
    unfolding sql_max_None by (force split: if_splits)
  also have "\<dots> \<longleftrightarrow> acted P db m ow" unfolding in_view_group acted_def by blast
  finally show ?thesis .
qed

text \<open>
  The derived view tells exactly which memories are gone: a message is superseded for an owner
  if one of the owner's jobs that succeeded, wholly or in part, recorded a supersession of it,
  otherwise soft-deleted if such a job marked it the duplicate of another message, and active in
  every other case. Actions of jobs that failed or still run hide nothing, and neither do actions
  of other owners' jobs.
\<close>

theorem memory_status_exact:
  "status_in_view db msgID ownerID =
    (if acted supersedes db msgID ownerID then MSuperseded
     else if acted soft_deletes db msgID ownerID then MSoftDeleted else MActive)"
proof -
  let ?ks = "sort (remdups (map (\<lambda>(ow, at, a). (ma_Target a, ow)) (view_actions db)))"
  have row: "mt_Status (status_row msgID ownerID (view_group db msgID ownerID)) =
      (if acted supersedes db msgID ownerID then MSuperseded else if acted soft_deletes db msgID ownerID then MSoftDeleted else MActive)"
    by (simp only: status_row_def MemoryStatus.simps group_acted)
  have known: "(msgID, ownerID) \<in> set ?ks" if "acted P db msgID ownerID" for P
    using that unfolding acted_def view_actions_def by (force simp: image_iff)
  show ?thesis
  proof (cases "(msgID, ownerID) \<in> set ?ks")
    case True
    then show ?thesis unfolding status_in_view_def memory_status_view_def find_view_row using row by simp
  next
    case False
    then have "\<not> acted P db msgID ownerID" for P using known by blast
    with False show ?thesis unfolding status_in_view_def memory_status_view_def find_view_row by simp
  qed
qed

text \<open>
  The owner a link is stored under is the owner the memory tools look for: the hand-written
  printing of \<open>auto_links.go\<close> never leaves its buffer and gives, for every agent whose owner id
  is a 64-bit integer but the least, the text \<open>agents.OwnerFor\<close> gives, and no owner where that
  finds none.
\<close>

theorem owner_strings_agree:
  assumes "\<forall>a \<in> set (rg_agents reg). - (2 ^ 63) < ag_OwnerID a \<and> ag_OwnerID a < 2 ^ 63"
  shows "resolveOwnerString failed reg name = Some (case OwnerFor failed name reg of Inl e \<Rightarrow> '''' | Inr s \<Rightarrow> s)"
  using assms by (intro resolveOwnerString_OwnerFor) simp

theorem owner_strings_agree_witness:
  "resolveOwnerString False (mem_reg_of [new_agent 0 1 ''ann'' ''Ann'' ''ai'' '''' 42 ''h'']) ''ann'' =
    Some ''42''"
proof -
  let ?reg = "mem_reg_of [new_agent 0 1 ''ann'' ''Ann'' ''ai'' '''' 42 ''h'']"
  have own: "OwnerFor False ''ann'' ?reg = Inr ''42''" by code_simp
  have "resolveOwnerString False ?reg ''ann'' = Some (case OwnerFor False ''ann'' ?reg of Inl e \<Rightarrow> '''' | Inr s \<Rightarrow> s)"
    by (rule owner_strings_agree) (simp add: mem_reg_of_def new_agent_def)
  with own show ?thesis by simp
qed

end
