(* ===== verification/Memory_Tools.thy ===== *)
theory Memory_Tools
  imports Memory_Store
begin

text \<open>
  The six tools of \<open>internal/mcp/memory_tools.go\<close>, with which a dream agent works on the
  memories of one owner under the dispatch token of its job. A tool reads the agents and the
  channels, and changes the memory tables and, for a reflection, the messages.
\<close>

section \<open>Environment\<close>

datatype mem_stmt =
    StToken | StValidate | StStamp | StAction | StMessage id64 | StOwner | StAgentOwner | StChannels | StList
  | StPick | StPickBrain | StConversation | StInsert | StLink id64 | StCoreGet | StCoreSet

record mem_env =
  mv_now :: timestamp
  mv_flt :: "mem_stmt \<Rightarrow> bool"
  mv_reg :: reg_db
  mv_channels :: "(id64 \<times> string) list"
  mv_window :: duration
  mv_cap :: int

record mem_sys =
  ms_db :: mem_db
  ms_msg :: msg_db

datatype tool_error =
    InvalidRequest | KeepIdNotInPair | TokenMissing | TokenRevoked | TokenExpired | TokenOwnerMismatch
  | SourceNotFound | NotSameOwner | CoreMemoryTooLarge | RelationTypeReserved | InternalError

record mem_item =
  mi_ID :: id64
  mi_FromAgent :: string
  mi_Channel :: string
  mi_Body :: string
  mi_CreatedAt :: timestamp

datatype tool_reply =
    Listed "mem_item list" id64
  | Reflected id64 string nat
  | CoreRewritten string nat
  | Duplicated id64 id64 id64
  | SupersededBy id64 id64 id64
  | Linked id64

section \<open>Shared checks\<close>

text \<open>The token decides which owner and which job the call is for; what \<open>Validate\<close> answers is not looked at.\<close>

definition authorizeForOwner :: "mem_env \<Rightarrow> string option \<Rightarrow> string \<Rightarrow> mem_db \<Rightarrow> (tool_error + id64) \<times> mem_db" where
  "authorizeForOwner env tok ownerID db =
     (case tok of
        None \<Rightarrow> (Inl TokenMissing, db)
      | Some k \<Rightarrow>
          if k = '''' \<or> mv_flt env StToken then (Inl TokenMissing, db)
          else case get_token k db of
                 None \<Rightarrow> (Inl TokenMissing, db)
               | Some t \<Rightarrow>
                   if mk_RevokedAt t \<noteq> None then (Inl TokenRevoked, db)
                   else if mk_ExpiresAt t \<le> mv_now env then (Inl TokenExpired, db)
                   else if mk_OwnerID t \<noteq> ownerID then (Inl TokenOwnerMismatch, db)
                   else case Validate (mv_flt env StValidate) (mv_flt env StStamp) (mv_now env) k ownerID (mk_JobID t) db of
                          (Inl _, db') \<Rightarrow> (Inl TokenMissing, db')
                        | (Inr _, db') \<Rightarrow> (Inr (mk_JobID t), db'))"

definition recordAction :: "mem_env \<Rightarrow> id64 \<Rightarrow> string \<Rightarrow> id64 \<Rightarrow> (string \<times> json) list \<Rightarrow> mem_db \<Rightarrow> mem_db" where
  "recordAction env jobID tool targetID args db =
     snd (AppendAction (mv_flt env StAction) jobID
            \<lparr>ma_Tool = tool, ma_Target = targetID, ma_Args = args, ma_At = sql_now (mv_now env)\<rparr> db)"

definition messageBelongsTo :: "mem_env \<Rightarrow> msg_db \<Rightarrow> id64 \<Rightarrow> string \<Rightarrow> bool \<times> bool" where
  "messageBelongsTo env md msgID ownerID =
     (if mv_flt env (StMessage msgID) then (False, False)
      else case get_message md msgID of
             None \<Rightarrow> (False, False)
           | Some m \<Rightarrow> (True, OwnerFor (mv_flt env StOwner) (msg_FromAgent m) (mv_reg env) = Inr ownerID))"

fun check_sources :: "mem_env \<Rightarrow> msg_db \<Rightarrow> string \<Rightarrow> id64 list \<Rightarrow> tool_error option" where
  "check_sources env md ownerID [] = None"
| "check_sources env md ownerID (i # is) =
     (case messageBelongsTo env md i ownerID of
        (exists, sameOwner) \<Rightarrow>
          if \<not> exists then Some SourceNotFound
          else if \<not> sameOwner then Some NotSameOwner
          else check_sources env md ownerID is)"

definition dream_agent :: "string \<Rightarrow> string" where
  "dream_agent ownerID = ''dream:'' @ ownerID"

definition dream_actor :: "string \<Rightarrow> string" where
  "dream_actor ownerID = ''agent:'' @ dream_agent ownerID"

section \<open>Listing what is left to do\<close>

definition window_days :: "duration \<Rightarrow> int" where
  "window_days w = (let d = sint w div sint (24 * Hour) in if d < 1 then 14 else d)"

definition consolidated :: "mem_db \<Rightarrow> id64 set" where
  "consolidated db = lk_DstMessageID ` {l \<in> set (me_links db). lk_RelationType l \<in> {''refines'', ''duplicate_of'', ''superseded_by''}}"

definition unprocessed :: "mem_env \<Rightarrow> id64 list \<Rightarrow> string \<Rightarrow> id64 \<Rightarrow> mem_db \<Rightarrow> Message \<Rightarrow> bool" where
  "unprocessed env memIDs ownerID since db m \<longleftrightarrow>
     in_channels memIDs m \<and>
     (\<exists>a \<in> set (rg_agents (mv_reg env)). ag_Name a = msg_FromAgent m \<and> show_int (ag_OwnerID a) = ownerID) \<and>
     since < msg_ID m \<and>
     mv_now env div second - window_days (mv_window env) * 86400 < msg_CreatedAt m \<and>
     \<not> sql_like ''dream:%'' (msg_FromAgent m) \<and>
     msg_ID m \<notin> consolidated db"

definition mem_item_of :: "(id64 \<times> string) list \<Rightarrow> Message \<Rightarrow> mem_item" where
  "mem_item_of channels m =
     \<lparr>mi_ID = msg_ID m, mi_FromAgent = msg_FromAgent m,
      mi_Channel = (case Option.bind (msg_ChannelID m) (\<lambda>c. find_row (\<lambda>x. fst x = c) channels) of None \<Rightarrow> '''' | Some x \<Rightarrow> snd x),
      mi_Body = msg_Body m, mi_CreatedAt = msg_CreatedAt m\<rparr>"

definition list_limit :: "int \<Rightarrow> int" where
  "list_limit limit = (let l = (if limit \<le> 0 then 50 else limit) in if 200 < l then 200 else l)"

definition handleListUnprocessed ::
  "mem_env \<Rightarrow> string option \<Rightarrow> string \<Rightarrow> id64 \<Rightarrow> int \<Rightarrow> mem_sys \<Rightarrow> (tool_error + tool_reply) \<times> mem_sys" where
  "handleListUnprocessed env tok owner since limit s =
     (if owner = '''' then (Inl InvalidRequest, s)
      else case authorizeForOwner env tok owner (ms_db s) of
             (Inl e, db) \<Rightarrow> (Inl e, s\<lparr>ms_db := db\<rparr>)
           | (Inr jobID, db) \<Rightarrow>
               (case MemoryChannelIDs (mv_flt env StChannels) (mv_channels env) of
                  Inl _ \<Rightarrow> (Inl InternalError, s\<lparr>ms_db := db\<rparr>)
                | Inr memIDs \<Rightarrow>
                    if memIDs = [] then (Inr (Listed [] since), s\<lparr>ms_db := db\<rparr>)
                    else if mv_flt env StList then (Inl InternalError, s\<lparr>ms_db := db\<rparr>)
                    else let items = map (mem_item_of (mv_channels env)) (limit_offset (list_limit limit) 0
                               (sort_key msg_ID (filter (unprocessed env memIDs owner since db) (md_msgs (ms_msg s)))));
                             db' = recordAction env jobID ''memory_list_unprocessed'' 0
                               [(''since_message_id'', JNum since), (''limit'', JNum (list_limit limit)), (''returned'', JNum (int (length items)))] db
                      in (Inr (Listed items (foldl max since (map mi_ID items))), s\<lparr>ms_db := db'\<rparr>)))"

section \<open>Reflections\<close>

text \<open>\<open>strings.Split\<close> at a comma, and \<open>Sscanf\<close> with \<open>%d\<close>, which reads a sign and as many digits as there are.\<close>

fun split_on :: "char \<Rightarrow> string \<Rightarrow> string list" where
  "split_on c [] = ['''']"
| "split_on c (x # xs) =
     (if x = c then '''' # split_on c xs
      else case split_on c xs of [] \<Rightarrow> [[x]] | p # ps \<Rightarrow> (x # p) # ps)"

definition scan_d :: "string \<Rightarrow> int option" where
  "scan_d s =
     (let digits_of = takeWhile (\<lambda>c. digit_val c \<noteq> None)
      in Atoi (case s of
           [] \<Rightarrow> ''''
         | c # t \<Rightarrow> if c = CHR ''-'' \<or> c = CHR ''+'' then c # digits_of t else digits_of s))"

definition parseInt64CSV :: "string \<Rightarrow> id64 list" where
  "parseInt64CSV s =
     (if s = '''' then []
      else concat (map (\<lambda>p. case scan_d (trim_space p) of None \<Rightarrow> [] | Some v \<Rightarrow> if 0 < v then [v] else []) (split_on (CHR '','') s)))"

text \<open>The first channel whose name is like \<open>reflections-%\<close>, whoever it is for.\<close>

definition pickReflectionChannel :: "mem_env \<Rightarrow> (tool_error + (id64 \<times> string) option)" where
  "pickReflectionChannel env =
     (if mv_flt env StPick then Inl InternalError
      else case sort_key fst (filter (\<lambda>c. sql_like ''reflections-%'' (snd c)) (mv_channels env)) of
             c # _ \<Rightarrow> Inr (Some c)
           | [] \<Rightarrow> if mv_flt env StPickBrain then Inl InternalError
                   else Inr (find_row (\<lambda>c. snd c = ''open-brain'') (mv_channels env)))"

definition reflection_tables :: "mem_env \<Rightarrow> msg_env" where
  "reflection_tables env = \<lparr>en_agents = [], en_channels = mv_channels env, en_members = [],
     en_flt = (\<lambda>st. st = SInsertConversation \<and> mv_flt env StConversation \<or> st = SInsertMessage \<and> mv_flt env StInsert)\<rparr>"

definition reflection_conversation :: "string \<Rightarrow> id64 \<Rightarrow> Conversation" where
  "reflection_conversation owner c =
     \<lparr>cv_ID = 0, cv_Subject = '''', cv_CreatedBy = dream_agent owner, cv_ChannelID = Some c, cv_CreatedAt = 0, cv_UpdatedAt = 0\<rparr>"

definition reflection_message :: "string \<Rightarrow> id64 \<Rightarrow> string \<Rightarrow> id64 \<Rightarrow> Message" where
  "reflection_message owner c body conv =
     \<lparr>msg_ID = 0, msg_ConversationID = conv, msg_FromAgent = dream_agent owner, msg_ToAgent = None, msg_ChannelID = Some c,
      msg_ReplyTo = None, msg_Body = body, msg_Priority = 5, msg_Status = MPending,
      msg_Metadata = JObj [(''tags'', JArr [JStr ''reflection''])], msg_ClaimedBy = None, msg_ClaimedAt = None,
      msg_CreatedAt = 0, msg_UpdatedAt = 0\<rparr>"

fun refine_links :: "mem_env \<Rightarrow> string \<Rightarrow> id64 \<Rightarrow> id64 list \<Rightarrow> nat \<times> mem_db \<Rightarrow> nat \<times> mem_db" where
  "refine_links env owner newID [] st = st"
| "refine_links env owner newID (i # is) st =
     (case link_Add (mv_flt env (StLink i)) (mv_now env) newID i ''refines'' owner (dream_actor owner) (JObj []) (snd st) of
        (Inr _, db) \<Rightarrow> refine_links env owner newID is (fst st + 1, db)
      | (Inl _, db) \<Rightarrow> refine_links env owner newID is (fst st, db))"

definition handleWriteReflection ::
  "mem_env \<Rightarrow> string option \<Rightarrow> string \<Rightarrow> string \<Rightarrow> string \<Rightarrow> mem_sys \<Rightarrow> (tool_error + tool_reply) \<times> mem_sys" where
  "handleWriteReflection env tok owner body sources s =
     (if owner = '''' \<or> body = '''' then (Inl InvalidRequest, s)
      else case authorizeForOwner env tok owner (ms_db s) of
             (Inl e, db) \<Rightarrow> (Inl e, s\<lparr>ms_db := db\<rparr>)
           | (Inr jobID, db) \<Rightarrow>
               let sourceIDs = parseInt64CSV sources; s1 = s\<lparr>ms_db := db\<rparr>; now = mv_now env div second
               in case check_sources env (ms_msg s) owner sourceIDs of
                    Some e \<Rightarrow> (Inl e, s1)
                  | None \<Rightarrow>
                      (case pickReflectionChannel env of
                         Inl e \<Rightarrow> (Inl e, s1)
                       | Inr None \<Rightarrow> (Inl InternalError, s1)
                       | Inr (Some (c, name)) \<Rightarrow>
                           if c = 0 then (Inl InternalError, s1)
                           else case InsertConversation (reflection_tables env) now (reflection_conversation owner c) (ms_msg s) of
                                  (Inl _, md) \<Rightarrow> (Inl InternalError, s1\<lparr>ms_msg := md\<rparr>)
                                | (Inr conv, md) \<Rightarrow>
                                    (case InsertMessage (reflection_tables env) now (reflection_message owner c body (cv_ID conv)) md of
                                       (Inl _, md') \<Rightarrow> (Inl InternalError, s1\<lparr>ms_msg := md'\<rparr>)
                                     | (Inr m, md') \<Rightarrow>
                                         (case refine_links env owner (msg_ID m) sourceIDs (0, db) of
                                            (n, db1) \<Rightarrow>
                                              (Inr (Reflected (msg_ID m) name n),
                                               \<lparr>ms_db = recordAction env jobID ''memory_write_reflection'' (msg_ID m)
                                                  [(''source_message_ids'', JArr (map JNum sourceIDs)), (''channel'', JStr name)] db1,
                                                ms_msg = md'\<rparr>)))))"

section \<open>Core memories, duplicates, supersession, links\<close>

definition handleRewriteCore ::
  "mem_env \<Rightarrow> string option \<Rightarrow> string \<Rightarrow> string \<Rightarrow> string \<Rightarrow> mem_sys \<Rightarrow> (tool_error + tool_reply) \<times> mem_sys" where
  "handleRewriteCore env tok owner agent blob s =
     (if owner = '''' \<or> agent = '''' then (Inl InvalidRequest, s)
      else case authorizeForOwner env tok owner (ms_db s) of
             (Inl e, db) \<Rightarrow> (Inl e, s\<lparr>ms_db := db\<rparr>)
           | (Inr jobID, db) \<Rightarrow>
               (case OwnerFor (mv_flt env StAgentOwner) agent (mv_reg env) of
                  Inl e \<Rightarrow> (Inl (if e = reg_error.AgentNotFound then SourceNotFound else InternalError), s\<lparr>ms_db := db\<rparr>)
                | Inr targetOwner \<Rightarrow>
                    if targetOwner \<noteq> owner then (Inl NotSameOwner, s\<lparr>ms_db := db\<rparr>)
                    else let prev = (case core_Get (mv_flt env StCoreGet) owner agent db of Inr (Some (b, _)) \<Rightarrow> b | _ \<Rightarrow> '''')
                      in (case core_Set (mv_flt env StCoreSet) (mv_now env) (mv_cap env) owner agent blob (dream_actor owner) db of
                            (Inl e, db') \<Rightarrow> (Inl (if e = ErrCoreMemoryTooLarge then CoreMemoryTooLarge else InternalError), s\<lparr>ms_db := db'\<rparr>)
                          | (Inr _, db') \<Rightarrow>
                              (Inr (CoreRewritten prev (length blob)),
                               s\<lparr>ms_db := recordAction env jobID ''memory_rewrite_core'' 0
                                  [(''owner_id'', JStr owner), (''agent_name'', JStr agent), (''new_chars'', JNum (int (length blob)))] db'\<rparr>))))"

definition handleMarkDuplicate ::
  "mem_env \<Rightarrow> string option \<Rightarrow> string \<Rightarrow> id64 \<Rightarrow> id64 \<Rightarrow> id64 \<Rightarrow> string \<Rightarrow> mem_sys \<Rightarrow> (tool_error + tool_reply) \<times> mem_sys" where
  "handleMarkDuplicate env tok owner aID bID keepID reason s =
     (if owner = '''' \<or> aID = 0 \<or> bID = 0 \<or> keepID = 0 then (Inl InvalidRequest, s)
      else if keepID \<noteq> aID \<and> keepID \<noteq> bID then (Inl KeepIdNotInPair, s)
      else case authorizeForOwner env tok owner (ms_db s) of
             (Inl e, db) \<Rightarrow> (Inl e, s\<lparr>ms_db := db\<rparr>)
           | (Inr jobID, db) \<Rightarrow>
               (case check_sources env (ms_msg s) owner [aID, bID] of
                  Some e \<Rightarrow> (Inl e, s\<lparr>ms_db := db\<rparr>)
                | None \<Rightarrow>
                    let loserID = (if keepID = aID then bID else aID)
                    in (case AddConsolidationLink (mv_flt env (StLink loserID)) (mv_now env) loserID keepID ''duplicate_of'' owner
                               (dream_actor owner) (JObj [(''reason'', JStr reason)]) db of
                          (Inl _, db') \<Rightarrow> (Inl InternalError, s\<lparr>ms_db := db'\<rparr>)
                        | (Inr linkID, db') \<Rightarrow>
                            (Inr (Duplicated keepID loserID linkID),
                             s\<lparr>ms_db := recordAction env jobID ''memory_mark_duplicate'' loserID
                                [(''a_id'', JNum aID), (''b_id'', JNum bID), (''keep_id'', JNum keepID), (''reason'', JStr reason)] db'\<rparr>))))"

definition handleSupersede ::
  "mem_env \<Rightarrow> string option \<Rightarrow> string \<Rightarrow> id64 \<Rightarrow> id64 \<Rightarrow> string \<Rightarrow> mem_sys \<Rightarrow> (tool_error + tool_reply) \<times> mem_sys" where
  "handleSupersede env tok owner aID bID reason s =
     (if owner = '''' \<or> aID = 0 \<or> bID = 0 then (Inl InvalidRequest, s)
      else case authorizeForOwner env tok owner (ms_db s) of
             (Inl e, db) \<Rightarrow> (Inl e, s\<lparr>ms_db := db\<rparr>)
           | (Inr jobID, db) \<Rightarrow>
               (case check_sources env (ms_msg s) owner [aID, bID] of
                  Some e \<Rightarrow> (Inl e, s\<lparr>ms_db := db\<rparr>)
                | None \<Rightarrow>
                    (case AddConsolidationLink (mv_flt env (StLink aID)) (mv_now env) aID bID ''superseded_by'' owner
                            (dream_actor owner) (JObj [(''reason'', JStr reason)]) db of
                       (Inl _, db') \<Rightarrow> (Inl InternalError, s\<lparr>ms_db := db'\<rparr>)
                     | (Inr linkID, db') \<Rightarrow>
                         (Inr (SupersededBy aID bID linkID),
                          s\<lparr>ms_db := recordAction env jobID ''memory_supersede'' aID
                             [(''a_id'', JNum aID), (''b_id'', JNum bID), (''reason'', JStr reason)] db'\<rparr>))))"

text \<open>Metadata that is no JSON object counts as none.\<close>

definition link_metadata :: "raw_json \<Rightarrow> json" where
  "link_metadata m = (case m of RValid (JObj kvs) \<Rightarrow> JObj kvs | _ \<Rightarrow> JObj [])"

definition handleAddLink ::
  "mem_env \<Rightarrow> string option \<Rightarrow> string \<Rightarrow> id64 \<Rightarrow> id64 \<Rightarrow> string \<Rightarrow> raw_json \<Rightarrow> mem_sys \<Rightarrow> (tool_error + tool_reply) \<times> mem_sys" where
  "handleAddLink env tok owner srcID dstID relType metadata s =
     (if owner = '''' \<or> srcID = 0 \<or> dstID = 0 \<or> relType = '''' then (Inl InvalidRequest, s)
      else case authorizeForOwner env tok owner (ms_db s) of
             (Inl e, db) \<Rightarrow> (Inl e, s\<lparr>ms_db := db\<rparr>)
           | (Inr jobID, db) \<Rightarrow>
               (case check_sources env (ms_msg s) owner [srcID, dstID] of
                  Some e \<Rightarrow> (Inl e, s\<lparr>ms_db := db\<rparr>)
                | None \<Rightarrow>
                    (case link_Add (mv_flt env (StLink srcID)) (mv_now env) srcID dstID relType owner
                            (dream_actor owner) (link_metadata metadata) db of
                       (Inl e, db') \<Rightarrow> (Inl (if e = ErrLinkTypeReserved then RelationTypeReserved else InternalError), s\<lparr>ms_db := db'\<rparr>)
                     | (Inr linkID, db') \<Rightarrow>
                         (Inr (Linked linkID),
                          s\<lparr>ms_db := recordAction env jobID ''memory_add_link'' dstID
                             [(''src_id'', JNum srcID), (''dst_id'', JNum dstID), (''relation_type'', JStr relType)] db'\<rparr>))))"

section \<open>A call of a tool\<close>

datatype mem_req =
    QList id64 int
  | QReflect string string
  | QRewriteCore string string
  | QDuplicate id64 id64 id64 string
  | QSupersede id64 id64 string
  | QLink id64 id64 string raw_json

fun mem_tool :: "mem_env \<Rightarrow> string option \<Rightarrow> string \<Rightarrow> mem_req \<Rightarrow> mem_sys \<Rightarrow> (tool_error + tool_reply) \<times> mem_sys" where
  "mem_tool env tok owner (QList since limit) s = handleListUnprocessed env tok owner since limit s"
| "mem_tool env tok owner (QReflect body sources) s = handleWriteReflection env tok owner body sources s"
| "mem_tool env tok owner (QRewriteCore agent blob) s = handleRewriteCore env tok owner agent blob s"
| "mem_tool env tok owner (QDuplicate a b keep reason) s = handleMarkDuplicate env tok owner a b keep reason s"
| "mem_tool env tok owner (QSupersede a b reason) s = handleSupersede env tok owner a b reason s"
| "mem_tool env tok owner (QLink src dst relType metadata) s = handleAddLink env tok owner src dst relType metadata s"

section \<open>What a call may change\<close>

definition owned_ids :: "mem_env \<Rightarrow> string \<Rightarrow> msg_db \<Rightarrow> id64 set" where
  "owned_ids env ow md = {i. \<exists>m \<in> set (md_msgs md). msg_ID m = i \<and> OwnerFor False (msg_FromAgent m) (mv_reg env) = Inr ow}"

text \<open>The changes the tools make to the memory tables once a call is authorized.\<close>

inductive tool_step :: "mem_env \<Rightarrow> string \<Rightarrow> id64 set \<Rightarrow> mem_db \<Rightarrow> mem_db \<Rightarrow> bool" for env ow ids where
  none: "tool_step env ow ids db db"
| link: "tool_step env ow ids db db1 \<Longrightarrow> dst \<in> ids \<Longrightarrow> ty \<notin> set autoLinkTypes \<Longrightarrow>
    insert_link failed now src dst ty ow (dream_actor ow) meta db1 = (Inr i, db2) \<Longrightarrow> tool_step env ow ids db db2"
| core: "tool_step env ow ids db db1 \<Longrightarrow> OwnerFor False ag (mv_reg env) = Inr ow \<Longrightarrow> core_Set failed now (mv_cap env) ow ag blob by db1 = (Inr u, db2) \<Longrightarrow> tool_step env ow ids db db2"

definition dream_messages :: "string \<Rightarrow> msg_db \<Rightarrow> msg_db \<Rightarrow> bool" where
  "dream_messages ow md md' \<longleftrightarrow> md_inbox md' = md_inbox md \<and>
     (\<exists>cs. md_convs md' = md_convs md @ cs) \<and>
     (\<exists>ms. md_msgs md' = md_msgs md @ ms \<and> (\<forall>m \<in> set ms. msg_FromAgent m = dream_agent ow \<and> msg_ToAgent m = None))"

lemma dream_messages_refl: "dream_messages ow md md"
  by (simp add: dream_messages_def)

lemma dream_messages_trans: "dream_messages ow a b \<Longrightarrow> dream_messages ow b c \<Longrightarrow> dream_messages ow a c"
  unfolding dream_messages_def by (auto simp: ball_Un)

lemma check_sources_owned: "check_sources env md ow is = None \<Longrightarrow> set is \<subseteq> owned_ids env ow md"
proof (induction "is")
  case (Cons i "is")
  then have "messageBelongsTo env md i ow = (True, True)" "check_sources env md ow is = None"
    by (auto split: prod.splits if_splits)
  moreover from this(1) have "i \<in> owned_ids env ow md"
    unfolding messageBelongsTo_def get_message_def owned_ids_def OwnerFor_def
    by (force split: if_split_asm option.split_asm dest: find_row_Some)
  ultimately show ?case using Cons.IH by simp
qed simp

lemma insert_link_Inl: "insert_link failed now src dst ty ow by meta db = (Inl e, db') \<Longrightarrow> db' = db"
  by (auto simp: insert_link_def Let_def split: if_splits)

lemma link_Add_Inl: "link_Add failed now src dst ty ow by meta db = (Inl e, db') \<Longrightarrow> db' = db"
  by (auto simp: link_Add_def split: if_splits dest: insert_link_Inl)

lemma AddConsolidationLink_Inl: "AddConsolidationLink failed now src dst ty ow by meta db = (Inl e, db') \<Longrightarrow> db' = db"
  by (auto simp: AddConsolidationLink_def split: if_splits dest: insert_link_Inl)

lemma core_Set_Inl: "core_Set failed now cap ow ag blob by db = (Inl e, db') \<Longrightarrow> db' = db"
  by (auto simp: core_Set_def split: if_splits)

lemma agent_prefix: "has_prefix ''agent:'' (dream_actor ow)"
  by (simp add: has_prefix_def dream_actor_def)

lemma link_Add_step:
  assumes "link_Add failed now src dst ty ow (dream_actor ow) meta db1 = (Inr i, db2)" "tool_step env ow ids db db1" "dst \<in> ids"
  shows "tool_step env ow ids db db2"
proof -
  from assms(1) have "insert_link failed now src dst ty ow (dream_actor ow) meta db1 = (Inr i, db2)"
    "\<not> link_reserved ty (dream_actor ow)" unfolding link_Add_def by (auto split: if_splits)
  moreover from this(2) have "ty \<notin> set autoLinkTypes" unfolding link_reserved_def by (simp only: agent_prefix if_True) blast
  ultimately show ?thesis using assms(2,3) tool_step.link by blast
qed

lemma AddConsolidationLink_step:
  assumes "AddConsolidationLink failed now src dst ty ow (dream_actor ow) meta db1 = (Inr i, db2)"
    "tool_step env ow ids db db1" "dst \<in> ids"
  shows "tool_step env ow ids db db2"
proof -
  from assms(1) have "insert_link failed now src dst ty ow (dream_actor ow) meta db1 = (Inr i, db2)"
    "ty \<in> {''duplicate_of'', ''superseded_by''}" unfolding AddConsolidationLink_def by (auto split: if_splits)
  moreover from this(2) have "ty \<notin> set autoLinkTypes" by (auto simp: autoLinkTypes_def)
  ultimately show ?thesis using assms(2,3) tool_step.link by blast
qed

lemma refine_links_step:
  "tool_step env ow ids db (snd st) \<Longrightarrow> set is \<subseteq> ids \<Longrightarrow> tool_step env ow ids db (snd (refine_links env ow i is st))"
proof (induction "is" arbitrary: st)
  case (Cons k "is")
  obtain r db' where l: "link_Add (mv_flt env (StLink k)) (mv_now env) i k ''refines'' ow (dream_actor ow) (JObj []) (snd st) = (r, db')"
    by fastforce
  show ?case
  proof (cases r)
    case (Inl e)
    with l have "db' = snd st" using link_Add_Inl by blast
    with Cons Inl l show ?thesis by simp
  next
    case (Inr a)
    with l Cons.prems have "tool_step env ow ids db db'" by (auto intro: link_Add_step)
    with Cons Inr l show ?thesis by simp
  qed
qed simp

lemma InsertConversation_dream:
  "InsertConversation env now (reflection_conversation ow c) md = (r, md') \<Longrightarrow> dream_messages ow md md'"
  by (auto simp: InsertConversation_def Let_def dream_messages_def split: if_splits)

lemma InsertMessage_dream:
  "InsertMessage env now (reflection_message ow c body i) md = (r, md') \<Longrightarrow> dream_messages ow md md'"
  by (auto simp: InsertMessage_def Let_def dream_messages_def reflection_message_def split: if_splits)

text \<open>Every call ends in one of three ways: refused, stopped on the way, or carried out and recorded.\<close>

inductive tool_outcome :: "mem_env \<Rightarrow> string option \<Rightarrow> string \<Rightarrow> mem_sys \<Rightarrow> (tool_error + tool_reply) \<times> mem_sys \<Rightarrow> bool" for env tok ow s where
  bad_request: "tool_outcome env tok ow s (Inl e, s)"
| refused: "authorizeForOwner env tok ow (ms_db s) = (Inl e, db) \<Longrightarrow> tool_outcome env tok ow s (Inl e, s\<lparr>ms_db := db\<rparr>)"
| stopped: "authorizeForOwner env tok ow (ms_db s) = (Inr jobID, db) \<Longrightarrow> dream_messages ow (ms_msg s) md \<Longrightarrow>
    tool_outcome env tok ow s (r, \<lparr>ms_db = db, ms_msg = md\<rparr>)"
| carried_out: "authorizeForOwner env tok ow (ms_db s) = (Inr jobID, db) \<Longrightarrow>
    tool_step env ow (owned_ids env ow (ms_msg s)) db db1 \<Longrightarrow> dream_messages ow (ms_msg s) md \<Longrightarrow>
    tool_outcome env tok ow s (r, \<lparr>ms_db = recordAction env jobID tool t args db1, ms_msg = md\<rparr>)"

lemma stopped_plain:
  "authorizeForOwner env tok ow (ms_db s) = (Inr jobID, db) \<Longrightarrow> tool_outcome env tok ow s (r, s\<lparr>ms_db := db\<rparr>)"
  using stopped [OF _ dream_messages_refl, of env tok ow s jobID db r] by (cases s) simp

lemma carried_out_plain:
  "authorizeForOwner env tok ow (ms_db s) = (Inr jobID, db) \<Longrightarrow> tool_step env ow (owned_ids env ow (ms_msg s)) db db1 \<Longrightarrow>
   tool_outcome env tok ow s (r, s\<lparr>ms_db := recordAction env jobID tool t args db1\<rparr>)"
  using carried_out [OF _ _ dream_messages_refl, of env tok ow s jobID db db1 r tool t args] by (cases s) simp

lemma handleListUnprocessed_outcome: "tool_outcome env tok ow s (handleListUnprocessed env tok ow since limit s)"
  unfolding handleListUnprocessed_def Let_def
  by (auto split: sum.split prod.split intro: bad_request refused stopped_plain carried_out_plain tool_step.none)

lemma handleRewriteCore_outcome: "tool_outcome env tok ow s (handleRewriteCore env tok ow ag blob s)"
proof -
  have own: "OwnerFor f ag (mv_reg env) = Inr ow \<Longrightarrow> OwnerFor False ag (mv_reg env) = Inr ow" for f
    by (auto simp: OwnerFor_def split: if_splits)
  show ?thesis unfolding handleRewriteCore_def Let_def
    by (auto split: sum.split prod.split intro: bad_request refused stopped_plain carried_out_plain tool_step.core tool_step.none
        dest: own core_Set_Inl)
qed

lemma handleMarkDuplicate_outcome: "tool_outcome env tok ow s (handleMarkDuplicate env tok ow a b keep reason s)"
proof (cases "(ow = '''' \<or> a = 0 \<or> b = 0 \<or> keep = 0) \<or> (keep \<noteq> a \<and> keep \<noteq> b)")
  case True
  then show ?thesis unfolding handleMarkDuplicate_def by (auto intro: bad_request)
next
  case False
  then have guards: "\<not> (ow = '''' \<or> a = 0 \<or> b = 0 \<or> keep = 0)" "\<not> (keep \<noteq> a \<and> keep \<noteq> b)" by blast+
  have owned: "check_sources env (ms_msg s) ow [a, b] = None \<Longrightarrow> keep \<in> owned_ids env ow (ms_msg s)"
    using check_sources_owned [of env "ms_msg s" ow "[a, b]"] guards(2) by auto
  show ?thesis unfolding handleMarkDuplicate_def Let_def if_not_P [OF guards(1)] if_not_P [OF guards(2)]
    by (auto simp del: check_sources.simps split del: if_split split: sum.split prod.split option.split
        intro: refused stopped_plain carried_out_plain AddConsolidationLink_step tool_step.none
        dest: owned AddConsolidationLink_Inl)
qed

lemma handleSupersede_outcome: "tool_outcome env tok ow s (handleSupersede env tok ow a b reason s)"
proof -
  have owned: "check_sources env (ms_msg s) ow [a, b] = None \<Longrightarrow> a \<in> owned_ids env ow (ms_msg s) \<and> b \<in> owned_ids env ow (ms_msg s)"
    using check_sources_owned [of env "ms_msg s" ow "[a, b]"] by simp
  show ?thesis unfolding handleSupersede_def Let_def
    by (auto simp del: check_sources.simps split: sum.split prod.split option.split intro: bad_request refused stopped_plain carried_out_plain
        AddConsolidationLink_step tool_step.none dest: owned AddConsolidationLink_Inl)
qed

lemma handleAddLink_outcome: "tool_outcome env tok ow s (handleAddLink env tok ow a b ty meta s)"
proof -
  have owned: "check_sources env (ms_msg s) ow [a, b] = None \<Longrightarrow> a \<in> owned_ids env ow (ms_msg s) \<and> b \<in> owned_ids env ow (ms_msg s)"
    using check_sources_owned [of env "ms_msg s" ow "[a, b]"] by simp
  show ?thesis unfolding handleAddLink_def Let_def
    by (auto simp del: check_sources.simps split: sum.split prod.split option.split intro: bad_request refused stopped_plain carried_out_plain
        link_Add_step tool_step.none dest: owned link_Add_Inl)
qed

lemma handleWriteReflection_outcome: "tool_outcome env tok ow s (handleWriteReflection env tok ow body sources s)"
proof (cases "ow = '''' \<or> body = ''''")
  case True
  then show ?thesis by (auto simp: handleWriteReflection_def intro: bad_request)
next
  case False
  obtain r db where a: "authorizeForOwner env tok ow (ms_db s) = (r, db)" by fastforce
  show ?thesis
  proof (cases r)
    case (Inl e)
    with a False show ?thesis by (simp add: handleWriteReflection_def refused)
  next
    case (Inr jobID)
    note auth = a [unfolded Inr]
    show ?thesis
    proof (cases "check_sources env (ms_msg s) ow (parseInt64CSV sources) = None \<and> (\<exists>c name. pickReflectionChannel env = Inr (Some (c, name)) \<and> c \<noteq> 0)")
      case no: False
      then show ?thesis using False auth
        by (auto simp: handleWriteReflection_def Let_def split: option.split sum.split intro: stopped_plain)
    next
      case True
      then obtain c name where c: "pickReflectionChannel env = Inr (Some (c, name))" "c \<noteq> 0"
        and src: "check_sources env (ms_msg s) ow (parseInt64CSV sources) = None" by blast
      obtain r1 md where m1: "InsertConversation (reflection_tables env) (mv_now env div second) (reflection_conversation ow c) (ms_msg s) = (r1, md)"
        by fastforce
      note d1 = InsertConversation_dream [OF m1]
      have upd: "s\<lparr>ms_db := db, ms_msg := m\<rparr> = \<lparr>ms_db = db, ms_msg = m\<rparr>" for m by (cases s) simp
      show ?thesis
      proof (cases r1)
        case (Inl e)
        with False auth c src m1 d1 show ?thesis
          by (simp add: handleWriteReflection_def Let_def upd stopped)
      next
        case (Inr conv)
        obtain r2 md2 where m2: "InsertMessage (reflection_tables env) (mv_now env div second) (reflection_message ow c body (cv_ID conv)) md = (r2, md2)"
          by fastforce
        note d2 = dream_messages_trans [OF d1 InsertMessage_dream [OF m2]]
        show ?thesis
        proof (cases r2)
          case (Inl e)
          with False auth c src m1 m2 d2 Inr show ?thesis
            by (simp add: handleWriteReflection_def Let_def upd stopped)
        next
          case r2: (Inr m)
          obtain n db1 where l: "refine_links env ow (msg_ID m) (parseInt64CSV sources) (0, db) = (n, db1)" by fastforce
          then have "tool_step env ow (owned_ids env ow (ms_msg s)) db db1"
            using refine_links_step [of env ow _ db "(0, db)"] check_sources_owned [OF src] tool_step.none by (metis snd_conv)
          with False auth c src m1 m2 d2 Inr r2 l show ?thesis
            by (simp add: handleWriteReflection_def Let_def carried_out)
        qed
      qed
    qed
  qed
qed

lemma mem_tool_outcome: "tool_outcome env tok ow s (mem_tool env tok ow q s)"
  by (cases q) (simp_all add: handleListUnprocessed_outcome handleWriteReflection_outcome handleRewriteCore_outcome
    handleMarkDuplicate_outcome handleSupersede_outcome handleAddLink_outcome)

section \<open>The scope of a call\<close>

definition unused :: "dispatch_token \<Rightarrow> dispatch_token" where
  "unused t = t\<lparr>mk_UsedAt := None\<rparr>"

definition no_actions :: "id64 \<Rightarrow> Job \<Rightarrow> Job" where
  "no_actions i j = (if jb_ID j = i then j\<lparr>jb_Actions := []\<rparr> else j)"

text \<open>
  What a call for an owner under the token of a job leaves alone, and what it adds: tokens are
  only stamped, jobs keep all but the recorded actions of this one, pins and the core memories
  of other owners stay, new links point to the owner's memories and are of no automatic type,
  new messages are those of the owner's dream agent.
\<close>

definition tool_scope :: "mem_env \<Rightarrow> string \<Rightarrow> id64 \<Rightarrow> mem_sys \<Rightarrow> mem_sys \<Rightarrow> bool" where
  "tool_scope env ow jobID s s' \<longleftrightarrow>
     map unused (me_tokens (ms_db s')) = map unused (me_tokens (ms_db s)) \<and>
     map (no_actions jobID) (me_jobs (ms_db s')) = map (no_actions jobID) (me_jobs (ms_db s)) \<and>
     me_pins (ms_db s') = me_pins (ms_db s) \<and>
     filter (\<lambda>c. co_OwnerID c \<noteq> ow) (me_core (ms_db s')) = filter (\<lambda>c. co_OwnerID c \<noteq> ow) (me_core (ms_db s)) \<and>
     (\<exists>ls. me_links (ms_db s') = me_links (ms_db s) @ ls \<and>
        set ls \<subseteq> {l. lk_OwnerID l = ow \<and> lk_CreatedBy l = dream_actor ow \<and> lk_DstMessageID l \<in> owned_ids env ow (ms_msg s) \<and>
                    lk_RelationType l \<notin> set autoLinkTypes}) \<and>
     dream_messages ow (ms_msg s) (ms_msg s')"

lemma map_update_fix: "(\<And>x. P x \<Longrightarrow> g (f x) = g x) \<Longrightarrow> map g (update_where P f xs) = map g xs"
  by (induction xs) auto

lemma filter_update_fix: "(\<And>x. P x \<Longrightarrow> \<not> Q x \<and> \<not> Q (f x)) \<Longrightarrow> filter Q (update_where P f xs) = filter Q xs"
  by (induction xs) auto

lemma Validate_frame:
  "me_jobs (snd (Validate qf sf now k ow i db)) = me_jobs db" "me_links (snd (Validate qf sf now k ow i db)) = me_links db"
  "me_pins (snd (Validate qf sf now k ow i db)) = me_pins db" "me_core (snd (Validate qf sf now k ow i db)) = me_core db"
  "map unused (me_tokens (snd (Validate qf sf now k ow i db))) = map unused (me_tokens db)"
  by (auto simp: Validate_def unused_def intro!: map_update_fix split: option.split)

lemma Validate_Inl: "Validate qf sf now k ow i db = (Inl e, db') \<Longrightarrow> db' = db"
  by (auto simp: Validate_def split: if_splits option.splits)

lemma authorizeForOwner_Inl: "authorizeForOwner env tok ow db = (Inl e, db') \<Longrightarrow> db' = db"
  by (auto simp: authorizeForOwner_def split: option.splits if_splits sum.splits prod.splits dest: Validate_Inl)

lemma authorizeForOwner_Inr:
  assumes "authorizeForOwner env tok ow db = (Inr jobID, db')"
  obtains k t qf sf where "tok = Some k" "get_token k db = Some t" "mk_RevokedAt t = None" "mv_now env < mk_ExpiresAt t"
    "mk_OwnerID t = ow" "mk_JobID t = jobID" "db' = snd (Validate qf sf (mv_now env) k ow jobID db)"
  using assms unfolding authorizeForOwner_def
  by (auto split: option.split_asm if_split_asm sum.split_asm prod.split_asm) (metis not_le snd_conv)

lemma recordAction_frame:
  "me_tokens (recordAction env i tool t args db) = me_tokens db" "me_links (recordAction env i tool t args db) = me_links db"
  "me_pins (recordAction env i tool t args db) = me_pins db" "me_core (recordAction env i tool t args db) = me_core db"
  "map (no_actions i) (me_jobs (recordAction env i tool t args db)) = map (no_actions i) (me_jobs db)"
  by (auto simp: recordAction_def AppendAction_def update_jobs_def no_actions_def intro!: map_update_fix split: option.split)

lemma tool_step_scope:
  assumes "tool_step env ow ids db db'"
  shows "me_tokens db' = me_tokens db \<and> me_jobs db' = me_jobs db \<and> me_pins db' = me_pins db \<and>
    filter (\<lambda>c. co_OwnerID c \<noteq> ow) (me_core db') = filter (\<lambda>c. co_OwnerID c \<noteq> ow) (me_core db) \<and>
    (\<exists>ls. me_links db' = me_links db @ ls \<and>
      set ls \<subseteq> {l. lk_OwnerID l = ow \<and> lk_CreatedBy l = dream_actor ow \<and> lk_DstMessageID l \<in> ids \<and> lk_RelationType l \<notin> set autoLinkTypes})"
  using assms
proof (induction rule: tool_step.induct)
  case (link db db1 dst ty failed now src meta i db2)
  let ?row = "\<lparr>lk_ID = me_link_seq db1 + 1, lk_SrcMessageID = src, lk_DstMessageID = dst, lk_RelationType = ty, lk_OwnerID = ow,
    lk_CreatedBy = dream_actor ow, lk_Metadata = meta, lk_CreatedAt = sql_now now\<rparr>"
  from link(4) have "db2 = db1\<lparr>me_links := me_links db1 @ [?row], me_link_seq := me_link_seq db1 + 1\<rparr>"
    by (auto simp: insert_link_def Let_def split: if_splits)
  with link(2,3,5) show ?case by auto
next
  case (core db db1 ag failed now blob "by" u db2)
  have others: "filter (\<lambda>c. co_OwnerID c \<noteq> ow) (update_where (core_is ow ag) f xs) = filter (\<lambda>c. co_OwnerID c \<noteq> ow) xs"
    if "\<And>c. co_OwnerID (f c) = co_OwnerID c" for f xs
    by (rule filter_update_fix) (simp add: core_is_def that)
  have "filter (\<lambda>c. co_OwnerID c \<noteq> ow) (me_core db2) = filter (\<lambda>c. co_OwnerID c \<noteq> ow) (me_core db1)"
    using core(3) by (auto simp: core_Set_def others split: if_splits)
  moreover have "me_tokens db2 = me_tokens db1" "me_jobs db2 = me_jobs db1" "me_pins db2 = me_pins db1" "me_links db2 = me_links db1"
    using core(3) by (auto simp: core_Set_def split: if_splits)
  ultimately show ?case using core(4) by simp
qed simp


definition sample_mem_env :: mem_env where
  "sample_mem_env = \<lparr>mv_now = 100, mv_flt = (\<lambda>_. False),
     mv_reg = \<lparr>rg_agents = [new_agent 0 1 ''ann'' ''Ann'' ''ai'' '''' 7 ''h''], rg_agent_seq = 1, rg_keys = [], rg_key_seq = 0,
       rg_letters = [], rg_letter_seq = 0, rg_bg = []\<rparr>,
     mv_channels = [(1, ''open-brain'')], mv_window = 0, mv_cap = 0\<rparr>"

definition sample_mem_sys :: mem_sys where
  "sample_mem_sys =
     (let db = snd (Create False 0 ''7'' ''reflection'' ''test'' mem_empty)
      in \<lparr>ms_db = snd (Issue False 0 ''tok'' ''7'' 1 db), ms_msg = msg_empty\<rparr>)"


end
