(* ===== verification/Dream_Worker.thy ===== *)
theory Dream_Worker
  imports Memory_Tools Complex_Main
begin

text \<open>
  The dream worker: its settings (\<open>internal/messaging/memory_config.go\<close>), the daily usage and
  its circuit breaker (\<open>dream_usage.go\<close>) and the worker that decides when to dispatch a
  consolidation job, hands it to the harness and books the outcome (\<open>consolidator.go\<close>). The
  harness is a parameter: a step gives its result.
\<close>

section \<open>Settings\<close>

record MemoryConfig =
  mf_InjectionEnabled :: bool
  mf_InjectionBudgetTokens :: int
  mf_InjectionMaxItems :: int
  mf_InjectionMinScore :: rat
  mf_CoreMemoryMaxBytes :: int
  mf_DreamEnabled :: bool
  mf_DreamInterval :: duration
  mf_DreamDeepCron :: string
  mf_DreamMaxConcurrent :: int
  mf_DreamParallel :: int
  mf_DreamWallclockBudget :: duration
  mf_DreamWatermark :: int
  mf_DreamAgent :: string
  mf_DreamRecentWindow :: duration
  mf_DreamDailyTokenLimitIn :: int
  mf_DreamDailyTokenLimitOut :: int
  mf_DreamDailyJobLimit :: int

definition DefaultMemoryConfig :: MemoryConfig where
  "DefaultMemoryConfig =
     \<lparr>mf_InjectionEnabled = False, mf_InjectionBudgetTokens = 500, mf_InjectionMaxItems = 5, mf_InjectionMinScore = 1 / 4,
      mf_CoreMemoryMaxBytes = 2048, mf_DreamEnabled = False, mf_DreamInterval = Hour, mf_DreamDeepCron = ''0 3 * * *'',
      mf_DreamMaxConcurrent = 4, mf_DreamParallel = 1, mf_DreamWallclockBudget = 10 * Minute, mf_DreamWatermark = 20,
      mf_DreamAgent = ''claude-code'', mf_DreamRecentWindow = 336 * Hour, mf_DreamDailyTokenLimitIn = 1000000,
      mf_DreamDailyTokenLimitOut = 200000, mf_DreamDailyJobLimit = 100\<rparr>"

definition parseBoolFlag :: "string \<Rightarrow> bool option" where
  "parseBoolFlag v =
     (if v \<in> {''1'', ''true'', ''TRUE'', ''True'', ''yes'', ''YES'', ''y'', ''on'', ''ON''} then Some True
      else if v \<in> {''0'', ''false'', ''FALSE'', ''False'', ''no'', ''NO'', ''n'', ''off'', ''OFF''} then Some False
      else None)"

definition flag_setting :: "string \<Rightarrow> bool \<Rightarrow> bool" where
  "flag_setting v dflt = (if v = '''' then dflt else case parseBoolFlag v of None \<Rightarrow> dflt | Some b \<Rightarrow> b)"

definition int_setting :: "string \<Rightarrow> int \<Rightarrow> int" where
  "int_setting v dflt = (if v = '''' then dflt else case Atoi v of None \<Rightarrow> dflt | Some n \<Rightarrow> if 0 < n then n else dflt)"

definition text_setting :: "string \<Rightarrow> string \<Rightarrow> string" where
  "text_setting v dflt = (if v = '''' then dflt else v)"

text \<open>\<open>ParseFloat\<close> and \<open>ParseDuration\<close> are those of Go.\<close>

definition ParseMemoryConfig ::
  "(string \<Rightarrow> rat option) \<Rightarrow> (string \<Rightarrow> duration option) \<Rightarrow> (string \<Rightarrow> string) \<Rightarrow> MemoryConfig" where
  "ParseMemoryConfig ParseFloat ParseDuration getenv =
     (let d = DefaultMemoryConfig
      in \<lparr>mf_InjectionEnabled = flag_setting (getenv ''SYNAPBUS_INJECTION_ENABLED'') (mf_InjectionEnabled d),
          mf_InjectionBudgetTokens = int_setting (getenv ''SYNAPBUS_INJECTION_BUDGET_TOKENS'') (mf_InjectionBudgetTokens d),
          mf_InjectionMaxItems = int_setting (getenv ''SYNAPBUS_INJECTION_MAX_ITEMS'') (mf_InjectionMaxItems d),
          mf_InjectionMinScore = (let v = getenv ''SYNAPBUS_INJECTION_MIN_SCORE'' in
             if v = '''' then mf_InjectionMinScore d
             else case ParseFloat v of None \<Rightarrow> mf_InjectionMinScore d | Some f \<Rightarrow> if 0 \<le> f then f else mf_InjectionMinScore d),
          mf_CoreMemoryMaxBytes = int_setting (getenv ''SYNAPBUS_CORE_MEMORY_MAX_BYTES'') (mf_CoreMemoryMaxBytes d),
          mf_DreamEnabled = flag_setting (getenv ''SYNAPBUS_DREAM_ENABLED'') (mf_DreamEnabled d),
          mf_DreamInterval = override ParseDuration (getenv ''SYNAPBUS_DREAM_INTERVAL'') (mf_DreamInterval d),
          mf_DreamDeepCron = text_setting (getenv ''SYNAPBUS_DREAM_DEEP_CRON'') (mf_DreamDeepCron d),
          mf_DreamMaxConcurrent = int_setting (getenv ''SYNAPBUS_DREAM_MAX_CONCURRENT'') (mf_DreamMaxConcurrent d),
          mf_DreamParallel = int_setting (getenv ''SYNAPBUS_DREAM_PARALLEL'') (mf_DreamParallel d),
          mf_DreamWallclockBudget = override ParseDuration (getenv ''SYNAPBUS_DREAM_WALLCLOCK_BUDGET'') (mf_DreamWallclockBudget d),
          mf_DreamWatermark = int_setting (getenv ''SYNAPBUS_DREAM_WATERMARK'') (mf_DreamWatermark d),
          mf_DreamAgent = text_setting (getenv ''SYNAPBUS_DREAM_AGENT'') (mf_DreamAgent d),
          mf_DreamRecentWindow = override ParseDuration (getenv ''SYNAPBUS_DREAM_RECENT_WINDOW'') (mf_DreamRecentWindow d),
          mf_DreamDailyTokenLimitIn = int_setting (getenv ''SYNAPBUS_DREAM_DAILY_TOKEN_LIMIT_IN'') (mf_DreamDailyTokenLimitIn d),
          mf_DreamDailyTokenLimitOut = int_setting (getenv ''SYNAPBUS_DREAM_DAILY_TOKEN_LIMIT_OUT'') (mf_DreamDailyTokenLimitOut d),
          mf_DreamDailyJobLimit = int_setting (getenv ''SYNAPBUS_DREAM_DAILY_JOB_LIMIT'') (mf_DreamDailyJobLimit d)\<rparr>)"

section \<open>Daily usage\<close>

text \<open>A UTC date is the number of its day.\<close>

record DreamDailyUsage =
  du_Date :: int
  du_OwnerID :: string
  du_TokensIn :: int
  du_TokensOut :: int
  du_JobsStarted :: int
  du_JobsSucceeded :: int
  du_JobsFailed :: int
  du_JobsCircuitBroken :: int

definition day_ns :: int where
  "day_ns = 86400 * nanosec"

definition utcDate :: "timestamp \<Rightarrow> int" where
  "utcDate now = now div day_ns"

definition usage_is :: "int \<Rightarrow> string \<Rightarrow> DreamDailyUsage \<Rightarrow> bool" where
  "usage_is date ownerID u \<longleftrightarrow> du_Date u = date \<and> du_OwnerID u = ownerID"

definition no_usage :: "int \<Rightarrow> string \<Rightarrow> DreamDailyUsage" where
  "no_usage date ownerID = \<lparr>du_Date = date, du_OwnerID = ownerID, du_TokensIn = 0, du_TokensOut = 0, du_JobsStarted = 0,
     du_JobsSucceeded = 0, du_JobsFailed = 0, du_JobsCircuitBroken = 0\<rparr>"

definition add_usage :: "int \<Rightarrow> int \<Rightarrow> int \<Rightarrow> int \<Rightarrow> int \<Rightarrow> int \<Rightarrow> DreamDailyUsage \<Rightarrow> DreamDailyUsage" where
  "add_usage dIn dOut dStart dSuc dFail dCB u =
     u\<lparr>du_TokensIn := du_TokensIn u + dIn, du_TokensOut := du_TokensOut u + dOut, du_JobsStarted := du_JobsStarted u + dStart,
       du_JobsSucceeded := du_JobsSucceeded u + dSuc, du_JobsFailed := du_JobsFailed u + dFail,
       du_JobsCircuitBroken := du_JobsCircuitBroken u + dCB\<rparr>"

definition usage_upsert ::
  "bool \<Rightarrow> timestamp \<Rightarrow> string \<Rightarrow> int \<Rightarrow> int \<Rightarrow> int \<Rightarrow> int \<Rightarrow> int \<Rightarrow> int \<Rightarrow> DreamDailyUsage list \<Rightarrow> (mem_error + unit) \<times> DreamDailyUsage list" where
  "usage_upsert failed now ownerID dIn dOut dStart dSuc dFail dCB us =
     (let P = usage_is (utcDate now) ownerID; f = add_usage dIn dOut dStart dSuc dFail dCB
      in if ownerID = '''' then (Inl OwnerRequired, us)
         else if failed then (Inl MemStatementFailed, us)
         else (Inr (), if rows_affected P us = 0 then us @ [f (no_usage (utcDate now) ownerID)] else update_where P f us))"

definition RecordStart :: "bool \<Rightarrow> timestamp \<Rightarrow> string \<Rightarrow> DreamDailyUsage list \<Rightarrow> (mem_error + unit) \<times> DreamDailyUsage list" where
  "RecordStart failed now ownerID us = usage_upsert failed now ownerID 0 0 1 0 0 0 us"

definition RecordCompletion ::
  "bool \<Rightarrow> timestamp \<Rightarrow> string \<Rightarrow> int \<Rightarrow> int \<Rightarrow> job_status \<Rightarrow> DreamDailyUsage list \<Rightarrow> (mem_error + unit) \<times> DreamDailyUsage list" where
  "RecordCompletion failed now ownerID tokensIn tokensOut status us =
     (case status of
        JSucceeded \<Rightarrow> usage_upsert failed now ownerID tokensIn tokensOut 0 1 0 0 us
      | JCircuitBroken \<Rightarrow> usage_upsert failed now ownerID tokensIn tokensOut 0 0 0 1 us
      | JPartial \<Rightarrow> usage_upsert failed now ownerID tokensIn tokensOut 0 1 0 0 us
      | _ \<Rightarrow> usage_upsert failed now ownerID tokensIn tokensOut 0 0 1 0 us)"

definition Today :: "bool \<Rightarrow> timestamp \<Rightarrow> string \<Rightarrow> DreamDailyUsage list \<Rightarrow> mem_error + DreamDailyUsage" where
  "Today failed now ownerID us =
     (if ownerID = '''' then Inl OwnerRequired
      else if failed then Inl MemStatementFailed
      else Inr (case find_row (usage_is (utcDate now) ownerID) us of None \<Rightarrow> no_usage (utcDate now) ownerID | Some u \<Rightarrow> u))"

definition usage_Cleanup :: "bool \<Rightarrow> timestamp \<Rightarrow> int \<Rightarrow> DreamDailyUsage list \<Rightarrow> (mem_error + nat) \<times> DreamDailyUsage list" where
  "usage_Cleanup failed now olderThanDays us =
     (let P = (\<lambda>u. du_Date u < utcDate now - olderThanDays)
      in if olderThanDays \<le> 0 then (Inr 0, us)
         else if failed then (Inl MemStatementFailed, us)
         else (Inr (rows_affected P us), delete_where P us))"

text \<open>The circuit breaker: whether a dispatch is allowed, the reason why not, and whether the look-up failed.\<close>

definition gate_Allow :: "MemoryConfig \<Rightarrow> bool \<Rightarrow> timestamp \<Rightarrow> string \<Rightarrow> DreamDailyUsage list \<Rightarrow> bool \<times> string \<times> bool" where
  "gate_Allow cfg failed now ownerID us =
     (case Today failed now ownerID us of
        Inl _ \<Rightarrow> (True, '''', True)
      | Inr u \<Rightarrow>
          if 0 < mf_DreamDailyTokenLimitIn cfg \<and> mf_DreamDailyTokenLimitIn cfg \<le> du_TokensIn u then (False, ''tokens_in_exceeded'', False)
          else if 0 < mf_DreamDailyTokenLimitOut cfg \<and> mf_DreamDailyTokenLimitOut cfg \<le> du_TokensOut u then (False, ''tokens_out_exceeded'', False)
          else if 0 < mf_DreamDailyJobLimit cfg \<and> mf_DreamDailyJobLimit cfg \<le> du_JobsStarted u then (False, ''jobs_exceeded'', False)
          else (True, '''', False))"

section \<open>The worker\<close>

text \<open>
  A goroutine per dispatched job: it waits for a place of the semaphore, then runs the harness.
  The state holds the memory tables and the messages, the usage rows, the goroutines, the times
  of the last deep pass and of the last hourly clean-up, and the injection ring.
\<close>

record goroutine =
  gr_OwnerID :: string
  gr_JobID :: id64
  gr_JobType :: string
  gr_Token :: string
  gr_Running :: bool

record dream_state =
  dw_mem :: mem_sys
  dw_usage :: "DreamDailyUsage list"
  dw_go :: "goroutine list"
  dw_lastDeepPass :: timestamp
  dw_lastCleanup :: timestamp
  dw_inj :: ij_db

datatype dream_stmt = DsGate | DsCreate | DsIssue | DsAgent | DsDispatch | DsComplete | DsUsage | DsLease | DsRevoke | DsActive

text \<open>
  \<open>dv_token\<close> and \<open>dv_runID\<close> give the random token and run id made for a job, \<open>dv_scan\<close> is what
  the driver makes of the computed column \<open>MAX(finished_at)\<close>.
\<close>

record dream_env =
  dv_now :: timestamp
  dv_flt :: "string \<Rightarrow> string \<Rightarrow> dream_stmt \<Rightarrow> bool"
  dv_owners_fail :: bool
  dv_count_fail :: "string \<Rightarrow> bool"
  dv_activity_fail :: "string \<Rightarrow> bool"
  dv_cleanup_fail :: bool
  dv_reg :: reg_db
  dv_channels :: "(id64 \<times> string) list"
  dv_scan :: "timestamp option \<Rightarrow> timestamp option"
  dv_token :: "id64 \<Rightarrow> string"
  dv_runID :: "id64 \<Rightarrow> string"
  dv_gate :: bool
  dv_injections :: bool

abbreviation dw_db :: "dream_state \<Rightarrow> mem_db" where
  "dw_db s \<equiv> ms_db (dw_mem s)"

definition set_db :: "mem_db \<Rightarrow> dream_state \<Rightarrow> dream_state" where
  "set_db db s = s\<lparr>dw_mem := (dw_mem s)\<lparr>ms_db := db\<rparr>\<rparr>"

definition book :: "bool \<Rightarrow> (DreamDailyUsage list \<Rightarrow> (mem_error + unit) \<times> DreamDailyUsage list) \<Rightarrow> dream_state \<Rightarrow> dream_state" where
  "book gate f s = (if gate then s\<lparr>dw_usage := snd (f (dw_usage s))\<rparr> else s)"

definition fail_job :: "dream_env \<Rightarrow> string \<Rightarrow> string \<Rightarrow> id64 \<Rightarrow> string \<Rightarrow> dream_state \<Rightarrow> dream_state" where
  "fail_job env ownerID jobType jobID msg s =
     set_db (snd (Complete (dv_flt env ownerID jobType DsComplete) (dv_now env) jobID JFailed '''' msg (dw_db s))) s"

text \<open>
  From the job's row to its goroutine: issue the token, find the agent, flip the row, count the
  start. \<open>tryDispatch\<close> does the same in line.
\<close>

definition launchOne :: "dream_env \<Rightarrow> string \<Rightarrow> string \<Rightarrow> id64 \<Rightarrow> dream_state \<Rightarrow> bool \<times> dream_state" where
  "launchOne env ownerID jobType jobID s =
     (let flt = dv_flt env ownerID jobType
      in case Issue (flt DsIssue) (dv_now env) (dv_token env jobID) ownerID jobID (dw_db s) of
           (Inl _, _) \<Rightarrow> (False, fail_job env ownerID jobType jobID ''token issue'' s)
         | (Inr (tok, _), db) \<Rightarrow>
             let s1 = set_db db s
             in if flt DsAgent then (False, fail_job env ownerID jobType jobID ''dream agent not found'' s1)
                else case jobs_Dispatch (flt DsDispatch) jobID (dv_runID env jobID) tok db of
                       (Inl _, _) \<Rightarrow> (False, fail_job env ownerID jobType jobID ''dispatch flip'' s1)
                     | (Inr _, db') \<Rightarrow>
                         let s2 = book (dv_gate env) (RecordStart (flt DsUsage) (dv_now env) ownerID) (set_db db' s1)
                         in (True, s2\<lparr>dw_go := dw_go s2 @
                              [\<lparr>gr_OwnerID = ownerID, gr_JobID = jobID, gr_JobType = jobType, gr_Token = tok, gr_Running = False\<rparr>]\<rparr>))"

definition break_circuit :: "dream_env \<Rightarrow> string \<Rightarrow> string \<Rightarrow> id64 \<Rightarrow> string \<Rightarrow> dream_state \<Rightarrow> dream_state" where
  "break_circuit env ownerID jobType jobID reason s =
     book True (RecordCompletion (dv_flt env ownerID jobType DsUsage) (dv_now env) ownerID 0 0 JCircuitBroken)
       (set_db (snd (Complete (dv_flt env ownerID jobType DsComplete) (dv_now env) jobID JCircuitBroken
                              (''circuit_broken: '' @ reason) '''' (dw_db s))) s)"

definition tryDispatch :: "MemoryConfig \<Rightarrow> dream_env \<Rightarrow> string \<Rightarrow> string \<Rightarrow> string \<Rightarrow> dream_state \<Rightarrow> dream_state" where
  "tryDispatch cfg env ownerID jobType trigger s =
     (let flt = dv_flt env ownerID jobType;
          gate = (if dv_gate env then gate_Allow cfg (flt DsGate) (dv_now env) ownerID (dw_usage s) else (True, '''', False))
      in case gate of (allowed, reason, _) \<Rightarrow>
           if \<not> allowed
           then (case Create (flt DsCreate) (dv_now env) ownerID jobType (''circuit_broken:'' @ reason) (dw_db s) of
                   (Inl _, _) \<Rightarrow> book True (RecordCompletion (flt DsUsage) (dv_now env) ownerID 0 0 JCircuitBroken) s
                 | (Inr jobID, db) \<Rightarrow> break_circuit env ownerID jobType jobID reason (set_db db s))
           else (case Create (flt DsCreate) (dv_now env) ownerID jobType trigger (dw_db s) of
                   (Inl _, _) \<Rightarrow> s
                 | (Inr jobID, db) \<Rightarrow> snd (launchOne env ownerID jobType jobID (set_db db s))))"

text \<open>The fan-out asks the gate once. A busy slot is skipped; if it is the first, the job in flight is the answer.\<close>

fun force_slots ::
  "dream_env \<Rightarrow> string \<Rightarrow> string \<Rightarrow> int list \<Rightarrow> id64 list \<Rightarrow> dream_state \<Rightarrow> (id64 list \<times> bool) \<times> dream_state" where
  "force_slots env ownerID jobType [] out s = ((out, True), s)"
| "force_slots env ownerID jobType (slot # slots) out s =
     (case CreateOnSlot (dv_flt env ownerID jobType DsCreate) (dv_now env) ownerID jobType (''manual:'' @ ownerID) slot (dw_db s) of
        (Inl e, _) \<Rightarrow>
          if e = ErrJobAlreadyInFlight
          then (if out = [] \<and> slot = 0
                then (case ActiveJob (dv_flt env ownerID jobType DsActive) ownerID jobType (dw_db s) of
                        Inr (Some j) \<Rightarrow> (([jb_ID j], True), s)
                      | _ \<Rightarrow> force_slots env ownerID jobType slots out s)
                else force_slots env ownerID jobType slots out s)
          else ((out, False), s)
      | (Inr jobID, db) \<Rightarrow>
          (case launchOne env ownerID jobType jobID (set_db db s) of
             (started, s') \<Rightarrow>
               if started then force_slots env ownerID jobType slots (out @ [jobID]) s' else ((out, False), s')))"

definition fan_out :: "string \<Rightarrow> int \<Rightarrow> int" where
  "fan_out jobType parallel = (if parallel \<le> 0 \<or> jobType = ''core_rewrite'' then 1 else parallel)"

text \<open>The ids, and whether there was no error.\<close>

definition ForceRunN ::
  "MemoryConfig \<Rightarrow> dream_env \<Rightarrow> string \<Rightarrow> string \<Rightarrow> int \<Rightarrow> dream_state \<Rightarrow> (id64 list \<times> bool) \<times> dream_state" where
  "ForceRunN cfg env ownerID jobType parallel s =
     (let flt = dv_flt env ownerID jobType;
          gate = (if dv_gate env then gate_Allow cfg (flt DsGate) (dv_now env) ownerID (dw_usage s) else (True, '''', False))
      in case gate of (allowed, reason, _) \<Rightarrow>
           if \<not> allowed
           then (case Create (flt DsCreate) (dv_now env) ownerID jobType (''circuit_broken:'' @ reason) (dw_db s) of
                   (Inl _, _) \<Rightarrow> (([], False), s)
                 | (Inr jobID, db) \<Rightarrow> (([jobID], False), break_circuit env ownerID jobType jobID reason (set_db db s)))
           else force_slots env ownerID jobType [0..fan_out jobType parallel - 1] [] s)"

definition ForceRun ::
  "MemoryConfig \<Rightarrow> dream_env \<Rightarrow> string \<Rightarrow> string \<Rightarrow> dream_state \<Rightarrow> (id64 \<times> bool) \<times> dream_state" where
  "ForceRun cfg env ownerID jobType s =
     (case ForceRunN cfg env ownerID jobType 1 s of
        ((ids, ok), s') \<Rightarrow> (if \<not> ok \<or> ids = [] then (0, ok) else (hd ids, ok), s'))"

section \<open>The tick\<close>

definition isDeepPassDue :: "timestamp \<Rightarrow> timestamp \<Rightarrow> bool" where
  "isDeepPassDue now lastPass =
     (let threeAM = utcDate now * day_ns + 3 * 3600 * nanosec in threeAM \<le> now \<and> lastPass < threeAM)"

definition listOwners :: "dream_env \<Rightarrow> string list" where
  "listOwners env = dedup (map (\<lambda>a. show_int (ag_OwnerID a)) (filter (\<lambda>a. 0 < ag_OwnerID a) (rg_agents (dv_reg env))))"

definition owned_by :: "reg_db \<Rightarrow> string \<Rightarrow> Message \<Rightarrow> bool" where
  "owned_by reg ownerID m \<longleftrightarrow> (\<exists>a \<in> set (rg_agents reg). ag_Name a = msg_FromAgent m \<and> show_int (ag_OwnerID a) = ownerID)"

definition recent_window :: "MemoryConfig \<Rightarrow> int" where
  "recent_window cfg = (if mf_DreamRecentWindow cfg \<le>s 0 then 14 * 24 * hour_ns else sint (mf_DreamRecentWindow cfg))"

definition unprocessedCount :: "MemoryConfig \<Rightarrow> dream_env \<Rightarrow> string \<Rightarrow> dream_state \<Rightarrow> nat" where
  "unprocessedCount cfg env ownerID s =
     (let ids = map fst (filter (\<lambda>c. memory_channel_clause (snd c)) (dv_channels env));
          lastFinished = dv_scan env (sql_max (map jb_FinishedAt (filter (\<lambda>j. jb_OwnerID j = ownerID \<and>
            jb_JobType j = ''reflection'' \<and> jb_Status j \<in> {JSucceeded, JPartial}) (me_jobs (dw_db s)))));
          windowStart = dv_now env - recent_window cfg;
          since = (case lastFinished of None \<Rightarrow> windowStart | Some t \<Rightarrow> max t windowStart)
      in if ids = [] then 0
         else length (filter (\<lambda>m. in_channels ids m \<and> owned_by (dv_reg env) ownerID m \<and> since < msg_CreatedAt m * second)
                (md_msgs (ms_msg (dw_mem s)))))"

definition ownerActiveSince :: "dream_env \<Rightarrow> string \<Rightarrow> timestamp \<Rightarrow> dream_state \<Rightarrow> bool" where
  "ownerActiveSince env ownerID since s \<longleftrightarrow>
     ownerID \<noteq> '''' \<and> \<not> dv_activity_fail env ownerID \<and>
     (\<exists>m \<in> set (md_msgs (ms_msg (dw_mem s))). owned_by (dv_reg env) ownerID m \<and> since < msg_CreatedAt m * second)"

definition tick_owner :: "MemoryConfig \<Rightarrow> dream_env \<Rightarrow> bool \<Rightarrow> string \<Rightarrow> dream_state \<Rightarrow> dream_state" where
  "tick_owner cfg env deepPassDue owner s =
     (let cnt = unprocessedCount cfg env owner s;
          trigger = ''watermark:'' @ show_nat cnt;
          s1 = (if \<not> dv_count_fail env owner \<and> mf_DreamWatermark cfg \<le> int cnt
                then fold (\<lambda>ty. tryDispatch cfg env owner ty trigger) [''reflection'', ''link_gen'', ''dedup_contradiction''] s
                else s)
      in if deepPassDue \<and> ownerActiveSince env owner (dv_now env - recent_window cfg) s1
         then tryDispatch cfg env owner ''core_rewrite'' ''cron:nightly'' s1 else s1)"

definition tick :: "MemoryConfig \<Rightarrow> dream_env \<Rightarrow> dream_state \<Rightarrow> dream_state" where
  "tick cfg env s =
     (let now = dv_now env;
          s1 = (if dv_injections env \<and> hour_ns \<le> now - dw_lastCleanup s
                then s\<lparr>dw_inj := (if dv_cleanup_fail env then dw_inj s else snd (Cleanup now (24 * Hour) (dw_inj s))), dw_lastCleanup := now\<rparr>
                else s);
          due = isDeepPassDue now (dw_lastDeepPass s)
      in if dv_owners_fail env then s1
         else let s2 = fold (tick_owner cfg env due) (listOwners env) s1
           in if due then s2\<lparr>dw_lastDeepPass := now\<rparr> else s2)"

section \<open>Running a job\<close>

text \<open>What the harness reports: exit code and tokens, if any, whether it returned an error, and whether the time ran out.\<close>

record harness_outcome =
  ho_Result :: "(int \<times> int \<times> int) option"
  ho_Err :: "string option"
  ho_Deadline :: bool

definition mapHarnessResult :: "harness_outcome \<Rightarrow> job_status \<times> string \<times> string" where
  "mapHarnessResult h =
     (if ho_Deadline h then (JPartial, ''wallclock budget exhausted'', ''context deadline exceeded'')
      else case ho_Err h of
             Some e \<Rightarrow> (JFailed, '''', e)
           | None \<Rightarrow>
               (case ho_Result h of
                  None \<Rightarrow> (JFailed, '''', ''nil result'')
                | Some (code, _, _) \<Rightarrow>
                    if code = 0 then (JSucceeded, ''completed cleanly'', '''') else (JPartial, ''exit code '' @ show_int code, '''')))"

definition semaphore :: "MemoryConfig \<Rightarrow> nat" where
  "semaphore cfg = (if mf_DreamMaxConcurrent cfg \<le> 0 then 1 else nat (mf_DreamMaxConcurrent cfg))"

definition running :: "dream_state \<Rightarrow> nat" where
  "running s = length (filter gr_Running (dw_go s))"

text \<open>The goroutine of a job gets a place and takes the lease; a failed lease is only logged.\<close>

definition begin_job :: "MemoryConfig \<Rightarrow> dream_env \<Rightarrow> nat \<Rightarrow> dream_state \<Rightarrow> dream_state" where
  "begin_job cfg env i s =
     (if length (dw_go s) \<le> i \<or> gr_Running (dw_go s ! i) \<or> semaphore cfg \<le> running s then s
      else let g = dw_go s ! i;
               wallclock = (if mf_DreamWallclockBudget cfg \<le>s 0 then 600 * nanosec else sint (mf_DreamWallclockBudget cfg))
        in set_db (snd (Lease (dv_flt env (gr_OwnerID g) (gr_JobType g) DsLease) (dv_now env) (gr_JobID g) (dv_now env + wallclock) (dw_db s)))
             (s\<lparr>dw_go := (dw_go s)[i := g\<lparr>gr_Running := True\<rparr>]\<rparr>))"

definition end_job :: "dream_env \<Rightarrow> nat \<Rightarrow> harness_outcome \<Rightarrow> dream_state \<Rightarrow> dream_state" where
  "end_job env i h s =
     (if length (dw_go s) \<le> i \<or> \<not> gr_Running (dw_go s ! i) then s
      else let g = dw_go s ! i; flt = dv_flt env (gr_OwnerID g) (gr_JobType g)
        in case mapHarnessResult h of (status, summary, errMsg) \<Rightarrow>
             let db1 = snd (Complete (flt DsComplete) (dv_now env) (gr_JobID g) status summary errMsg (dw_db s));
                 db2 = snd (Revoke (flt DsRevoke) (dv_now env) (gr_Token g) db1);
                 (tIn, tOut) = (case ho_Result h of None \<Rightarrow> (0, 0) | Some (_, a, b) \<Rightarrow> (a, b))
             in (book (dv_gate env) (RecordCompletion (flt DsUsage) (dv_now env) (gr_OwnerID g) tIn tOut status)
                   (set_db db2 s))\<lparr>dw_go := remove_nth i (dw_go s)\<rparr>)"

text \<open>A goroutine that still waits when the worker is stopped goes away.\<close>

definition quit_job :: "nat \<Rightarrow> dream_state \<Rightarrow> dream_state" where
  "quit_job i s = (if length (dw_go s) \<le> i \<or> gr_Running (dw_go s ! i) then s else s\<lparr>dw_go := remove_nth i (dw_go s)\<rparr>)"

section \<open>The system\<close>

text \<open>
  The worker, the tools the dream agents call, the owner's pins and core memories and the links
  of new messages; all of them share the settings \<open>cfg\<close>. Messages arrive from outside.
\<close>

datatype dream_op =
    DoTick dream_env
  | DoForce dream_env string string int
  | DoBegin dream_env nat
  | DoEnd dream_env nat harness_outcome
  | DoQuit nat
  | DoTool mem_env "string option" string mem_req
  | DoPin timestamp string id64 string string
  | DoUnpin string id64
  | DoSetCore timestamp string string string string
  | DoDeleteCore string string
  | DoAutoLinks "auto_stmt \<Rightarrow> bool" timestamp "(id64 \<times> string) list" reg_db Message
  | DoMessages "msg_db \<Rightarrow> msg_db"

definition tool_env :: "MemoryConfig \<Rightarrow> mem_env \<Rightarrow> mem_env" where
  "tool_env cfg env = env\<lparr>mv_window := mf_DreamRecentWindow cfg, mv_cap := mf_CoreMemoryMaxBytes cfg\<rparr>"

fun dream_exec :: "MemoryConfig \<Rightarrow> dream_op \<Rightarrow> dream_state \<Rightarrow> dream_state" where
  "dream_exec cfg (DoTick env) s = tick cfg env s"
| "dream_exec cfg (DoForce env ow ty n) s = snd (ForceRunN cfg env ow ty n s)"
| "dream_exec cfg (DoBegin env i) s = begin_job cfg env i s"
| "dream_exec cfg (DoEnd env i h) s = end_job env i h s"
| "dream_exec cfg (DoQuit i) s = quit_job i s"
| "dream_exec cfg (DoTool env tok ow q) s = s\<lparr>dw_mem := snd (mem_tool (tool_env cfg env) tok ow q (dw_mem s))\<rparr>"
| "dream_exec cfg (DoPin now ow i by note) s = set_db (snd (PinMessage False now ow i by note (dw_db s))) s"
| "dream_exec cfg (DoUnpin ow i) s = set_db (snd (Unpin False ow i (dw_db s))) s"
| "dream_exec cfg (DoSetCore now ow ag blob by) s = set_db (snd (core_Set False now (mf_CoreMemoryMaxBytes cfg) ow ag blob by (dw_db s))) s"
| "dream_exec cfg (DoDeleteCore ow ag) s = set_db (snd (core_Delete False ow ag (dw_db s))) s"
| "dream_exec cfg (DoAutoLinks flt now channels reg m) s =
     (case OnMessageSent_links flt now channels reg (ms_msg (dw_mem s)) m (dw_db s) of None \<Rightarrow> s | Some db \<Rightarrow> set_db db s)"
| "dream_exec cfg (DoMessages f) s = s\<lparr>dw_mem := (dw_mem s)\<lparr>ms_msg := f (ms_msg (dw_mem s))\<rparr>\<rparr>"

definition dream_empty :: "msg_db \<Rightarrow> dream_state" where
  "dream_empty md = \<lparr>dw_mem = \<lparr>ms_db = mem_empty, ms_msg = md\<rparr>, dw_usage = [], dw_go = [], dw_lastDeepPass = 0,
     dw_lastCleanup = 0, dw_inj = \<lparr>ij_rows = [], ij_seq = 0\<rparr>\<rparr>"

section \<open>Invariant of the memory tables\<close>

definition terminal :: "job_status \<Rightarrow> bool" where
  "terminal st \<longleftrightarrow> st \<in> {JSucceeded, JPartial, JFailed, JExpired}"

definition job_ok :: "Job \<Rightarrow> bool" where
  "job_ok j \<longleftrightarrow> jb_OwnerID j \<noteq> '''' \<and> jb_JobType j \<in> set job_types \<and> 0 \<le> jb_Slot j \<and> jb_Status j \<noteq> JCircuitBroken \<and>
     (jb_FinishedAt j \<noteq> None \<longleftrightarrow> terminal (jb_Status j)) \<and> (jb_LeaseUntil j \<noteq> None \<longleftrightarrow> jb_Status j = JRunning) \<and>
     (jb_Status j = JPending \<longrightarrow> jb_StartedAt j = None)"

definition jobs_inv :: "mem_db \<Rightarrow> bool" where
  "jobs_inv db \<longleftrightarrow> ids_ok jb_ID (me_job_seq db) (me_jobs db) \<and>
     distinct (map job_key (filter in_flight (me_jobs db))) \<and> (\<forall>j \<in> set (me_jobs db). job_ok j)"

definition job_owner :: "Job \<Rightarrow> id64 \<times> string" where
  "job_owner j = (jb_ID j, jb_OwnerID j)"

definition tokens_inv :: "mem_db \<Rightarrow> bool" where
  "tokens_inv db \<longleftrightarrow> distinct (map mk_Token (me_tokens db)) \<and>
     (\<forall>t \<in> set (me_tokens db). (mk_JobID t, mk_OwnerID t) \<in> job_owner ` set (me_jobs db))"

definition links_inv :: "mem_db \<Rightarrow> bool" where
  "links_inv db \<longleftrightarrow> ids_ok lk_ID (me_link_seq db) (me_links db) \<and> distinct (map link_key (me_links db))"

definition core_key :: "CoreMemoryRecord \<Rightarrow> string \<times> string" where
  "core_key c = (co_OwnerID c, co_AgentName c)"

definition core_inv :: "int \<Rightarrow> mem_db \<Rightarrow> bool" where
  "core_inv cap db \<longleftrightarrow> distinct (map core_key (me_core db)) \<and> (\<forall>c \<in> set (me_core db). int (length (co_Blob c)) \<le> core_cap cap)"

definition pins_inv :: "mem_db \<Rightarrow> bool" where
  "pins_inv db \<longleftrightarrow> distinct (map pin_key (me_pins db))"

definition mem_inv :: "int \<Rightarrow> mem_db \<Rightarrow> bool" where
  "mem_inv cap db \<longleftrightarrow> jobs_inv db \<and> tokens_inv db \<and> links_inv db \<and> core_inv cap db \<and> pins_inv db"

definition usage_key :: "DreamDailyUsage \<Rightarrow> int \<times> string" where
  "usage_key u = (du_Date u, du_OwnerID u)"

definition dream_inv :: "MemoryConfig \<Rightarrow> dream_state \<Rightarrow> bool" where
  "dream_inv cfg s \<longleftrightarrow> mem_inv (mf_CoreMemoryMaxBytes cfg) (dw_db s) \<and> distinct (map usage_key (dw_usage s)) \<and>
     running s \<le> semaphore cfg"

text \<open>Each operation of the store keeps each part.\<close>

lemma job_status_pending: "in_flight j \<longleftrightarrow> \<not> terminal (jb_Status j) \<and> jb_Status j \<noteq> JCircuitBroken"
  by (cases "jb_Status j") (auto simp: in_flight_def terminal_def)

lemma update_jobs_inv:
  assumes inv: "jobs_inv db"
    and f: "\<And>j. j \<in> set (me_jobs db) \<Longrightarrow> P j \<Longrightarrow> job_ok j \<Longrightarrow>
      jb_ID (f j) = jb_ID j \<and> job_key (f j) = job_key j \<and> (in_flight (f j) \<longrightarrow> in_flight j) \<and> job_ok (f j)"
  shows "jobs_inv (update_jobs P f db)"
proof -
  have "map jb_ID (update_where P f js) = map jb_ID js \<and>
      distinct (map job_key (filter in_flight (update_where P f js))) \<and>
      set (map job_key (filter in_flight (update_where P f js))) \<subseteq> set (map job_key (filter in_flight js)) \<and>
      (\<forall>j \<in> set (update_where P f js). job_ok j)"
    if "set js \<subseteq> set (me_jobs db)" "distinct (map job_key (filter in_flight js))" "\<forall>j \<in> set js. job_ok j" for js
    using that
  proof (induction js)
    case (Cons j js)
    have j: "j \<in> set (me_jobs db)" "job_ok j" using Cons.prems by auto
    have IH: "map jb_ID (update_where P f js) = map jb_ID js" "distinct (map job_key (filter in_flight (update_where P f js)))"
      "set (map job_key (filter in_flight (update_where P f js))) \<subseteq> set (map job_key (filter in_flight js))"
      "\<forall>j \<in> set (update_where P f js). job_ok j"
      using Cons by (auto split: if_splits)
    have "in_flight j \<Longrightarrow> job_key j \<notin> set (map job_key (filter in_flight js))" using Cons.prems by auto
    then show ?case using IH f [OF j(1)] j(2) by (auto split: if_splits)
  qed simp
  from this [of "me_jobs db"] inv
  have "map jb_ID (update_where P f (me_jobs db)) = map jb_ID (me_jobs db)"
    "distinct (map job_key (filter in_flight (update_where P f (me_jobs db))))"
    "\<forall>j \<in> set (update_where P f (me_jobs db)). job_ok j"
    unfolding jobs_inv_def by blast+
  then show ?thesis using inv unfolding jobs_inv_def update_jobs_def by (simp add: ids_ok_map [of jb_ID])
qed

lemma update_jobs_frame [simp]:
  "me_tokens (update_jobs P f db) = me_tokens db" "me_links (update_jobs P f db) = me_links db"
  "me_link_seq (update_jobs P f db) = me_link_seq db" "me_pins (update_jobs P f db) = me_pins db"
  "me_core (update_jobs P f db) = me_core db" "me_job_seq (update_jobs P f db) = me_job_seq db"
  by (simp_all add: update_jobs_def)

lemma update_jobs_owners:
  "(\<And>j. job_owner (f j) = job_owner j) \<Longrightarrow> job_owner ` set (me_jobs (update_jobs P f db)) = job_owner ` set (me_jobs db)"
  unfolding update_jobs_def by (metis (mono_tags, lifting) image_set map_update_where mem_db.select_convs(2) mem_db.surjective mem_db.update_convs(2))

lemma update_jobs_mem_inv:
  assumes "mem_inv cap db"
    and "\<And>j. j \<in> set (me_jobs db) \<Longrightarrow> P j \<Longrightarrow> job_ok j \<Longrightarrow> (in_flight (f j) \<longrightarrow> in_flight j) \<and> job_ok (f j)"
    and "\<And>j. jb_ID (f j) = jb_ID j" "\<And>j. job_key (f j) = job_key j"
  shows "mem_inv cap (update_jobs P f db)"
proof -
  have "job_owner (f j) = job_owner j" for j using assms(3,4) [of j] by (simp add: job_owner_def job_key_def)
  then show ?thesis
    using assms update_jobs_inv [of db P f] update_jobs_owners [of f P db]
    unfolding mem_inv_def by (simp add: tokens_inv_def links_inv_def core_inv_def pins_inv_def)
qed

lemma Complete_inv: "mem_inv cap db \<Longrightarrow> mem_inv cap (snd (Complete failed now i status summary errMsg db))"
proof -
  assume inv: "mem_inv cap db"
  show ?thesis
  proof (cases "snd (Complete failed now i status summary errMsg db) = db")
    case False
    then have st: "snd (Complete failed now i status summary errMsg db) = update_jobs (\<lambda>j. jb_ID j = i) (finish_job now status summary errMsg) db"
      and status: "terminal status \<or> status = JCircuitBroken \<and> (\<forall>j \<in> set (me_jobs db). jb_ID j \<noteq> i)"
      by (auto simp: Complete_def terminal_def split: if_splits)
    have ok: "in_flight (finish_job now status summary errMsg j) \<longrightarrow> in_flight j" "job_ok (finish_job now status summary errMsg j)"
      if "j \<in> set (me_jobs db)" "jb_ID j = i" "job_ok j" for j
    proof -
      have t: "terminal status" using status that by auto
      then have "status \<noteq> JRunning" "status \<noteq> JPending" "status \<noteq> JCircuitBroken" by (auto simp: terminal_def)
      with t that(3) show "in_flight (finish_job now status summary errMsg j) \<longrightarrow> in_flight j" "job_ok (finish_job now status summary errMsg j)"
        by (auto simp: job_status_pending finish_job_def job_ok_def split: option.splits)
    qed
    show ?thesis unfolding st
    proof (rule update_jobs_mem_inv [OF inv], goal_cases)
      case (1 j)
      then show ?case using ok [of j] by simp
    qed (simp_all add: finish_job_def job_key_def)
  qed (simp add: inv)
qed

lemma jobs_Dispatch_inv: "mem_inv cap db \<Longrightarrow> mem_inv cap (snd (jobs_Dispatch failed i run tok db))"
  unfolding jobs_Dispatch_def Let_def
  by (auto intro!: update_jobs_mem_inv simp: in_flight_def job_ok_def job_key_def terminal_def)

lemma Lease_inv: "mem_inv cap db \<Longrightarrow> mem_inv cap (snd (Lease failed now i until db))"
  unfolding Lease_def Let_def
  by (auto intro!: update_jobs_mem_inv simp: in_flight_def job_ok_def job_key_def terminal_def)

lemma AppendAction_inv: "mem_inv cap db \<Longrightarrow> mem_inv cap (snd (AppendAction failed i a db))"
  unfolding AppendAction_def
  by (auto intro!: update_jobs_mem_inv simp: in_flight_def job_ok_def job_key_def split: option.splits)

lemma CreateOnSlot_cases:
  obtains (err) e where "CreateOnSlot failed now ow ty tr slot db = (Inl e, db)"
  | (ok) "CreateOnSlot failed now ow ty tr slot db =
        (Inr (me_job_seq db + 1), db\<lparr>me_jobs := me_jobs db @ [new_job now (me_job_seq db + 1) ow ty tr slot], me_job_seq := me_job_seq db + 1\<rparr>)"
      "ow \<noteq> ''''" "ty \<in> set job_types" "0 \<le> slot" "(ow, ty, slot) \<notin> set (map job_key (filter in_flight (me_jobs db)))"
proof (cases "ow = '''' \<or> ty = '''' \<or> slot < 0 \<or> failed \<or> ty \<notin> set job_types \<or> (ow, ty, slot) \<in> set (map job_key (filter in_flight (me_jobs db)))")
  case True
  then have "\<exists>e. CreateOnSlot failed now ow ty tr slot db = (Inl e, db)" unfolding CreateOnSlot_def Let_def by auto
  then show thesis using err by blast
next
  case False
  then show thesis by (intro ok) (auto simp: CreateOnSlot_def Let_def)
qed

lemma CreateOnSlot_inv: "mem_inv cap db \<Longrightarrow> mem_inv cap (snd (CreateOnSlot failed now ow ty tr slot db))"
proof (cases rule: CreateOnSlot_cases [of failed now ow ty tr slot db])
  case ok
  assume "mem_inv cap db"
  then show ?thesis unfolding ok(1) using ok(2-)
    by (auto simp: mem_inv_def jobs_inv_def tokens_inv_def links_inv_def core_inv_def pins_inv_def new_job_def job_key_def
        in_flight_def job_ok_def terminal_def intro!: ids_ok_append)
qed simp

lemma Issue_inv: "mem_inv cap db \<Longrightarrow> (i, ow) \<in> job_owner ` set (me_jobs db) \<Longrightarrow> mem_inv cap (snd (Issue failed now tok ow i db))"
  unfolding Issue_def Let_def
  by (auto simp: mem_inv_def jobs_inv_def tokens_inv_def links_inv_def core_inv_def pins_inv_def)

lemma tokens_frame_inv:
  "mem_inv cap db \<Longrightarrow> (\<And>t. mk_Token (f t) = mk_Token t) \<Longrightarrow> (\<And>t. mk_JobID (f t) = mk_JobID t) \<Longrightarrow> (\<And>t. mk_OwnerID (f t) = mk_OwnerID t) \<Longrightarrow>
   mem_inv cap (db\<lparr>me_tokens := update_where P f (me_tokens db)\<rparr>)"
  by (auto simp: mem_inv_def jobs_inv_def tokens_inv_def links_inv_def core_inv_def pins_inv_def map_update_where in_update_where)

lemma Validate_inv: "mem_inv cap db \<Longrightarrow> mem_inv cap (snd (Validate qf sf now tok ow i db))"
  unfolding Validate_def by (auto intro!: tokens_frame_inv split: option.splits)

lemma Revoke_inv: "mem_inv cap db \<Longrightarrow> mem_inv cap (snd (Revoke failed now tok db))"
  unfolding Revoke_def by (auto intro!: tokens_frame_inv)

lemma insert_link_inv: "mem_inv cap db \<Longrightarrow> mem_inv cap (snd (insert_link failed now src dst ty ow by meta db))"
  unfolding insert_link_def Let_def
  by (auto simp: mem_inv_def jobs_inv_def tokens_inv_def links_inv_def core_inv_def pins_inv_def link_key_def intro!: ids_ok_append)

lemma link_Add_inv: "mem_inv cap db \<Longrightarrow> mem_inv cap (snd (link_Add failed now src dst ty ow by meta db))"
  unfolding link_Add_def by (simp add: insert_link_inv)

lemma pins_frame: "mem_inv cap db \<Longrightarrow> distinct (map pin_key ps) \<Longrightarrow> mem_inv cap (db\<lparr>me_pins := ps\<rparr>)"
  by (auto simp: mem_inv_def jobs_inv_def tokens_inv_def links_inv_def core_inv_def pins_inv_def)

lemma PinMessage_inv: "mem_inv cap db \<Longrightarrow> mem_inv cap (snd (PinMessage failed now ow i by note db))"
proof -
  assume inv: "mem_inv cap db"
  then have "distinct (map pin_key (me_pins db))" by (simp add: mem_inv_def pins_inv_def)
  then show ?thesis using inv unfolding PinMessage_def Let_def
    by (auto intro!: pins_frame simp: map_update_where pin_key_def)
qed

lemma Unpin_inv: "mem_inv cap db \<Longrightarrow> mem_inv cap (snd (Unpin failed ow i db))"
proof -
  assume inv: "mem_inv cap db"
  then have "distinct (map pin_key (me_pins db))" by (simp add: mem_inv_def pins_inv_def)
  then show ?thesis using inv unfolding Unpin_def
    by (auto intro!: pins_frame simp: delete_where_def distinct_map_filter)
qed

lemma core_frame:
  "mem_inv cap db \<Longrightarrow> distinct (map core_key cs) \<Longrightarrow> (\<And>c. c \<in> set cs \<Longrightarrow> int (length (co_Blob c)) \<le> core_cap cap) \<Longrightarrow>
   mem_inv cap (db\<lparr>me_core := cs\<rparr>)"
  by (auto simp: mem_inv_def jobs_inv_def tokens_inv_def links_inv_def core_inv_def pins_inv_def)

lemma core_inv_facts:
  "mem_inv cap db \<Longrightarrow> distinct (map core_key (me_core db))"
  "mem_inv cap db \<Longrightarrow> c \<in> set (me_core db) \<Longrightarrow> int (length (co_Blob c)) \<le> core_cap cap"
  by (auto simp: mem_inv_def core_inv_def)

lemma core_Set_inv: "mem_inv cap db \<Longrightarrow> mem_inv cap (snd (core_Set failed now cap ow ag blob by db))"
proof -
  assume inv: "mem_inv cap db"
  have "distinct (map core_key (me_core db))" "\<And>c. c \<in> set (me_core db) \<Longrightarrow> int (length (co_Blob c)) \<le> core_cap cap"
    using inv by (auto intro: core_inv_facts)
  then show ?thesis using inv unfolding core_Set_def
    by (auto intro!: core_frame simp: map_update_where core_key_def core_is_def in_update_where)
qed

lemma core_Delete_inv: "mem_inv cap db \<Longrightarrow> mem_inv cap (snd (core_Delete failed ow ag db))"
  unfolding core_Delete_def
  by (auto intro!: core_frame simp: delete_where_def distinct_map_filter dest: core_inv_facts)

subsection \<open>The tools\<close>

lemma recordAction_inv: "mem_inv cap db \<Longrightarrow> mem_inv cap (recordAction env i tool t args db)"
  by (simp add: recordAction_def AppendAction_inv)

lemma authorizeForOwner_inv: "mem_inv cap db \<Longrightarrow> authorizeForOwner env tok ow db = (r, db') \<Longrightarrow> mem_inv cap db'"
proof -
  assume inv: "mem_inv cap db" and a: "authorizeForOwner env tok ow db = (r, db')"
  have "snd (authorizeForOwner env tok ow db) = db \<or>
      (\<exists>qf sf now k i. snd (authorizeForOwner env tok ow db) = snd (Validate qf sf now k ow i db))"
    unfolding authorizeForOwner_def
    by (auto split: option.split sum.split prod.split) (metis snd_conv)+
  then show ?thesis using a inv Validate_inv by (metis snd_conv)
qed

lemma tool_step_inv: "tool_step env ow ids db db' \<Longrightarrow> mem_inv (mv_cap env) db \<Longrightarrow> mem_inv (mv_cap env) db'"
proof (induction rule: tool_step.induct)
  case (link db db1 dst ty failed now src meta i db2)
  then show ?case by (metis insert_link_inv snd_conv)
next
  case (core db db1 ag failed now blob "by" u db2)
  then show ?case by (metis core_Set_inv snd_conv)
qed

lemma mem_tool_inv:
  assumes "mem_inv (mv_cap env) (ms_db s)"
  shows "mem_inv (mv_cap env) (ms_db (snd (mem_tool env tok ow q s)))"
  using mem_tool_outcome [of env tok ow s q]
proof cases
  case (carried_out jobID db db1 md r t args tool)
  have "mem_inv (mv_cap env) db" by (rule authorizeForOwner_inv [OF assms carried_out(2)])
  then have "mem_inv (mv_cap env) db1" by (rule tool_step_inv [OF carried_out(3)])
  then show ?thesis unfolding carried_out(1) by (simp add: recordAction_inv)
next
  case (refused e db)
  have "mem_inv (mv_cap env) db" by (rule authorizeForOwner_inv [OF assms refused(2)])
  then show ?thesis unfolding refused(1) by simp
next
  case (stopped jobID db md r)
  have "mem_inv (mv_cap env) db" by (rule authorizeForOwner_inv [OF assms stopped(2)])
  then show ?thesis unfolding stopped(1) by simp
qed (simp add: assms)

subsection \<open>The worker\<close>

lemma set_db_simps [simp]:
  "ms_db (dw_mem (set_db db s)) = db" "ms_msg (dw_mem (set_db db s)) = ms_msg (dw_mem s)" "dw_usage (set_db db s) = dw_usage s"
  "dw_go (set_db db s) = dw_go s" "dw_lastDeepPass (set_db db s) = dw_lastDeepPass s"
  by (simp_all add: set_db_def)

lemma book_simps [simp]:
  "dw_mem (book g f s) = dw_mem s" "dw_go (book g f s) = dw_go s" "dw_usage (book g f s) = (if g then snd (f (dw_usage s)) else dw_usage s)"
  by (simp_all add: book_def)

lemma running_simps [simp]:
  "running (set_db db s) = running s" "running (book g f s) = running s"
  by (simp_all add: running_def)

lemma usage_upsert_keys:
  "distinct (map usage_key us) \<Longrightarrow> distinct (map usage_key (snd (usage_upsert failed now ow a b c d e f us)))"
proof -
  assume d: "distinct (map usage_key us)"
  have k: "map usage_key (update_where P (add_usage a b c d e f) us) = map usage_key us" for P
    by (rule map_update_where) (simp add: usage_key_def add_usage_def)
  show ?thesis using d unfolding usage_upsert_def Let_def
    by (auto simp: k) (auto simp: usage_key_def add_usage_def no_usage_def usage_is_def)
qed

lemma RecordStart_keys: "distinct (map usage_key us) \<Longrightarrow> distinct (map usage_key (snd (RecordStart failed now ow us)))"
  by (simp add: RecordStart_def usage_upsert_keys)

lemma RecordCompletion_keys: "distinct (map usage_key us) \<Longrightarrow> distinct (map usage_key (snd (RecordCompletion failed now ow a b st us)))"
  by (cases st) (simp_all add: RecordCompletion_def usage_upsert_keys)

lemma dream_inv_set_db: "dream_inv cfg s \<Longrightarrow> mem_inv (mf_CoreMemoryMaxBytes cfg) db \<Longrightarrow> dream_inv cfg (set_db db s)"
  by (simp add: dream_inv_def)

lemma dream_inv_mem: "dream_inv cfg s \<Longrightarrow> mem_inv (mf_CoreMemoryMaxBytes cfg) (dw_db s)"
  by (simp add: dream_inv_def)

lemma dream_inv_book: "dream_inv cfg s \<Longrightarrow> (\<And>us. distinct (map usage_key us) \<Longrightarrow> distinct (map usage_key (snd (f us)))) \<Longrightarrow> dream_inv cfg (book g f s)"
  by (simp add: dream_inv_def)

lemma fail_job_inv: "dream_inv cfg s \<Longrightarrow> dream_inv cfg (fail_job env ow ty i msg s)"
  unfolding fail_job_def by (intro dream_inv_set_db Complete_inv dream_inv_mem)

lemma launchOne_inv:
  assumes inv: "dream_inv cfg s" and job: "(i, ow) \<in> job_owner ` set (me_jobs (dw_db s))"
  shows "dream_inv cfg (snd (launchOne env ow ty i s))"
proof -
  let ?f = "dv_flt env ow ty"
  obtain r db where iss: "Issue (?f DsIssue) (dv_now env) (dv_token env i) ow i (dw_db s) = (r, db)" by fastforce
  then have db: "mem_inv (mf_CoreMemoryMaxBytes cfg) db" using Issue_inv [OF dream_inv_mem [OF inv] job] by (metis snd_conv)
  note s1 = dream_inv_set_db [OF inv db]
  show ?thesis
  proof (cases r)
    case (Inl e)
    then show ?thesis by (simp add: launchOne_def Let_def iss fail_job_inv inv)
  next
    case (Inr p)
    obtain tok ex where p: "p = (tok, ex)" by fastforce
    obtain r2 db2 where di: "jobs_Dispatch (?f DsDispatch) i (dv_runID env i) tok db = (r2, db2)" by fastforce
    then have "mem_inv (mf_CoreMemoryMaxBytes cfg) db2" using jobs_Dispatch_inv [OF db] by (metis snd_conv)
    then have "dream_inv cfg (book (dv_gate env) (RecordStart (?f DsUsage) (dv_now env) ow) (set_db db2 (set_db db s)))"
      by (intro dream_inv_book dream_inv_set_db s1 RecordStart_keys)
    then show ?thesis
      by (auto simp: launchOne_def Let_def iss Inr p di fail_job_inv s1 split: sum.split) (simp add: dream_inv_def running_def)
  qed
qed

lemma break_circuit_inv: "dream_inv cfg s \<Longrightarrow> dream_inv cfg (break_circuit env ow ty i reason s)"
  unfolding break_circuit_def
  by (intro dream_inv_book dream_inv_set_db Complete_inv dream_inv_mem RecordCompletion_keys)

lemma CreateOnSlot_owner:
  "CreateOnSlot failed now ow ty tr slot db = (Inr i, db') \<Longrightarrow> (i, ow) \<in> job_owner ` set (me_jobs db')"
  by (cases rule: CreateOnSlot_cases [of failed now ow ty tr slot db]) (auto simp: job_owner_def new_job_def)

lemma created_inv:
  assumes "dream_inv cfg s" "CreateOnSlot failed now ow ty tr slot (dw_db s) = (r, db)"
  shows "dream_inv cfg (set_db db s)"
  using CreateOnSlot_inv [OF dream_inv_mem [OF assms(1)]] assms by (metis dream_inv_set_db snd_conv)

lemma tryDispatch_inv: "dream_inv cfg s \<Longrightarrow> dream_inv cfg (tryDispatch cfg env ow ty tr s)"
  unfolding tryDispatch_def Let_def Create_def
  by (auto split: prod.split sum.split intro!: dream_inv_book RecordCompletion_keys break_circuit_inv launchOne_inv
      intro: created_inv dest: CreateOnSlot_owner)

lemma force_slots_inv: "dream_inv cfg s \<Longrightarrow> dream_inv cfg (snd (force_slots env ow ty slots out s))"
proof (induction slots arbitrary: out s)
  case (Cons slot slots)
  obtain r db where c: "CreateOnSlot (dv_flt env ow ty DsCreate) (dv_now env) ow ty (''manual:'' @ ow) slot (dw_db s) = (r, db)" by fastforce
  show ?case
  proof (cases r)
    case (Inl e)
    then show ?thesis using c Cons by (auto split: sum.split option.split)
  next
    case (Inr i)
    obtain ok s' where l: "launchOne env ow ty i (set_db db s) = (ok, s')" by fastforce
    then have "dream_inv cfg s'"
      using launchOne_inv [OF created_inv [OF Cons.prems c], of i ow env ty] CreateOnSlot_owner [OF c [unfolded Inr]] by simp
    then show ?thesis using c Inr l Cons.IH by simp
  qed
qed simp

lemma ForceRunN_inv: "dream_inv cfg s \<Longrightarrow> dream_inv cfg (snd (ForceRunN cfg env ow ty n s))"
  unfolding ForceRunN_def Let_def Create_def
  by (auto split: prod.split sum.split intro!: break_circuit_inv force_slots_inv intro: created_inv)

lemma fold_inv: "(\<And>x s. I s \<Longrightarrow> I (f x s)) \<Longrightarrow> I s \<Longrightarrow> I (fold f xs s)"
  by (induction xs arbitrary: s) auto

lemma tick_owner_inv: "dream_inv cfg s \<Longrightarrow> dream_inv cfg (tick_owner cfg env due ow s)"
  unfolding tick_owner_def Let_def by (auto intro: tryDispatch_inv)

lemma tick_inv: "dream_inv cfg s \<Longrightarrow> dream_inv cfg (tick cfg env s)"
proof -
  assume inv: "dream_inv cfg s"
  have inj: "dream_inv cfg (s\<lparr>dw_inj := a, dw_lastCleanup := b\<rparr>)" for a b using inv by (simp add: dream_inv_def running_def)
  have due: "dream_inv cfg (t\<lparr>dw_lastDeepPass := a\<rparr>)" if "dream_inv cfg t" for t a using that by (simp add: dream_inv_def running_def)
  have owners: "dream_inv cfg (fold (tick_owner cfg env d) ows t)" if "dream_inv cfg t" for d ows t
    by (rule fold_inv [where I = "dream_inv cfg"]) (simp_all add: tick_owner_inv that)
  show ?thesis unfolding tick_def Let_def by (simp add: inv inj due owners)
qed

lemma running_update:
  "i < length gs \<Longrightarrow> \<not> gr_Running (gs ! i) \<Longrightarrow> length (filter gr_Running (gs[i := g])) \<le> Suc (length (filter gr_Running gs))"
proof (induction gs arbitrary: i)
  case (Cons x gs)
  then show ?case by (cases i) auto
qed simp

lemma running_remove: "length (filter gr_Running (remove_nth i gs)) \<le> length (filter gr_Running gs)"
  by (induction i gs rule: remove_nth.induct) auto

lemma begin_job_inv: "dream_inv cfg s \<Longrightarrow> dream_inv cfg (begin_job cfg env i s)"
proof -
  assume inv: "dream_inv cfg s"
  show ?thesis
  proof (cases "length (dw_go s) \<le> i \<or> gr_Running (dw_go s ! i) \<or> semaphore cfg \<le> running s")
    case False
    then have "running (s\<lparr>dw_go := (dw_go s)[i := (dw_go s ! i)\<lparr>gr_Running := True\<rparr>]\<rparr>) \<le> semaphore cfg"
      using running_update [of i "dw_go s" "(dw_go s ! i)\<lparr>gr_Running := True\<rparr>"] by (simp add: running_def)
    with inv have "dream_inv cfg (s\<lparr>dw_go := (dw_go s)[i := (dw_go s ! i)\<lparr>gr_Running := True\<rparr>]\<rparr>)" by (simp add: dream_inv_def)
    with False show ?thesis unfolding begin_job_def Let_def
      by (simp add: dream_inv_set_db Lease_inv dream_inv_mem [OF inv])
  qed (use inv in \<open>auto simp: begin_job_def\<close>)
qed

lemma drop_goroutine_inv: "dream_inv cfg s \<Longrightarrow> dream_inv cfg (s\<lparr>dw_go := remove_nth i (dw_go s)\<rparr>)"
  using running_remove [of i "dw_go s"] by (auto simp: dream_inv_def running_def)

lemma end_job_inv: "dream_inv cfg s \<Longrightarrow> dream_inv cfg (end_job env i h s)"
proof -
  assume inv: "dream_inv cfg s"
  have db: "mem_inv (mf_CoreMemoryMaxBytes cfg) (snd (Revoke f1 t1 k (snd (Complete f2 t2 j st a b (dw_db s)))))" for f1 t1 k f2 t2 j st a b
    by (intro Revoke_inv Complete_inv dream_inv_mem [OF inv])
  show ?thesis unfolding end_job_def Let_def
    by (auto split: prod.split option.split intro!: drop_goroutine_inv [of _ "book g f (set_db db s)" i for g f db, simplified]
        dream_inv_book dream_inv_set_db inv db RecordCompletion_keys)
qed


lemma quit_job_inv: "dream_inv cfg s \<Longrightarrow> dream_inv cfg (quit_job i s)"
  by (simp add: quit_job_def drop_goroutine_inv)

lemma auto_link_inv: "mem_inv cap db \<Longrightarrow> mem_inv cap (auto_link flt now m ow ty dst db)"
  unfolding auto_link_def by (rule link_Add_inv)

lemma auto_reply_inv: "mem_inv cap db \<Longrightarrow> mem_inv cap (auto_reply flt now m ow db)"
  unfolding auto_reply_def Let_def by (auto split: option.split intro: auto_link_inv)

lemma auto_mention_links_inv: "mem_inv cap db \<Longrightarrow> mem_inv cap (auto_mention_links flt now md m c ow ts db)"
  by (induction ts arbitrary: db) (auto simp: Let_def intro: auto_link_inv)

lemma OnMessageSent_links_inv: "mem_inv cap db \<Longrightarrow> OnMessageSent_links flt now channels reg md m db = Some db' \<Longrightarrow> mem_inv cap db'"
  unfolding OnMessageSent_links_def Let_def
  by (auto split: option.split_asm if_split_asm intro!: auto_link_inv auto_mention_links_inv auto_reply_inv)

lemma dream_exec_inv: "dream_inv cfg s \<Longrightarrow> dream_inv cfg (dream_exec cfg op s)"
proof (cases op)
  case (DoTool env tok ow q)
  assume inv: "dream_inv cfg s"
  have "mem_inv (mv_cap (tool_env cfg env)) (dw_db s)" using dream_inv_mem [OF inv] by (simp add: tool_env_def)
  from mem_tool_inv [OF this] inv DoTool show ?thesis by (simp add: dream_inv_def running_def tool_env_def)
next
  case (DoAutoLinks flt now channels reg m)
  assume inv: "dream_inv cfg s"
  then show ?thesis using DoAutoLinks by (auto split: option.split intro: dream_inv_set_db OnMessageSent_links_inv dream_inv_mem)
next
  case (DoMessages f)
  assume "dream_inv cfg s"
  then show ?thesis using DoMessages by (simp add: dream_inv_def running_def)
qed (simp_all add: tick_inv ForceRunN_inv begin_job_inv end_job_inv quit_job_inv dream_inv_set_db PinMessage_inv Unpin_inv
      core_Set_inv core_Delete_inv dream_inv_mem)

interpretation dreams: invariant_system "dream_exec cfg" "dream_inv cfg" for cfg
  by unfold_locales (rule dream_exec_inv)

lemma dream_empty_inv: "dream_inv cfg (dream_empty md)"
  by (simp add: dream_empty_def dream_inv_def mem_empty_def mem_inv_def jobs_inv_def tokens_inv_def links_inv_def core_inv_def
      pins_inv_def running_def semaphore_def)

section \<open>How many jobs a day\<close>

definition started :: "int \<Rightarrow> string \<Rightarrow> DreamDailyUsage list \<Rightarrow> int" where
  "started d ow us = (case find_row (usage_is d ow) us of None \<Rightarrow> 0 | Some u \<Rightarrow> du_JobsStarted u)"

lemma started_update:
  "started d ow (update_where (usage_is d' ow') (add_usage a b c e f g) us) =
   started d ow us + (if d = d' \<and> ow = ow' \<and> (\<exists>u \<in> set us. usage_is d' ow' u) then c else 0)"
proof (induction us)
  case (Cons u us)
  have k: "usage_is d ow (add_usage a b c e f g u) = usage_is d ow u" by (simp add: usage_is_def add_usage_def)
  show ?case using Cons k unfolding started_def by (auto simp: usage_is_def add_usage_def)
qed (simp add: started_def)

lemma find_row_no: "\<forall>r \<in> set rs. \<not> P r \<Longrightarrow> find_row P rs = None"
  by simp

lemma started_append:
  "started d ow (us @ [u]) = (if (\<exists>v \<in> set us. usage_is d ow v) then started d ow us else if usage_is d ow u then du_JobsStarted u else 0)"
  by (cases "find_row (usage_is d ow) us") (auto simp: started_def find_row_append find_row_no dest: find_row_Some)

lemma started_absent: "\<not> (\<exists>v \<in> set us. usage_is d ow v) \<Longrightarrow> started d ow us = 0"
  by (auto simp: started_def split: option.split dest: find_row_Some)

lemma started_upsert:
  "started d ow (snd (usage_upsert failed now ow' a b c e f g us)) =
   started d ow us + (if ow' \<noteq> '''' \<and> \<not> failed \<and> d = utcDate now \<and> ow = ow' then c else 0)"
proof -
  have k: "usage_is d ow (add_usage a b c e f g (no_usage (utcDate now) ow')) \<longleftrightarrow> d = utcDate now \<and> ow = ow'"
    and v: "du_JobsStarted (add_usage a b c e f g (no_usage (utcDate now) ow')) = c"
    by (auto simp: usage_is_def add_usage_def no_usage_def)
  have self: "usage_is (utcDate now) ow' (add_usage a b c e f g (no_usage (utcDate now) ow'))"
    by (simp add: usage_is_def add_usage_def no_usage_def)
  show ?thesis
    by (auto simp: usage_upsert_def Let_def started_update started_append started_absent k v self)
qed

lemma started_completion: "started d ow (snd (RecordCompletion failed now ow' a b st us)) = started d ow us"
  by (cases st) (simp_all add: RecordCompletion_def started_upsert)

lemma gate_started:
  "gate_Allow cfg False now ow us = (True, r, e) \<Longrightarrow> ow \<noteq> '''' \<Longrightarrow> 0 < mf_DreamDailyJobLimit cfg \<Longrightarrow>
   started (utcDate now) ow us < mf_DreamDailyJobLimit cfg"
  unfolding gate_Allow_def Today_def started_def
  by (cases "find_row (usage_is (utcDate now) ow) us") (auto simp: no_usage_def simp del: find_row_None split: if_splits)

lemma fail_job_usage: "dw_usage (fail_job env ow ty i msg s) = dw_usage s"
  by (simp add: fail_job_def)

lemma launchOne_started:
  "started d o2 (dw_usage (snd (launchOne env ow ty i s))) \<le> started d o2 (dw_usage s) + (if d = utcDate (dv_now env) \<and> o2 = ow then 1 else 0)"
  by (auto simp: launchOne_def Let_def fail_job_usage RecordStart_def started_upsert split: sum.split prod.split)

lemma CreateOnSlot_no_owner: "fst (CreateOnSlot failed now '''' ty tr slot db) = Inl OwnerRequired"
  by (simp add: CreateOnSlot_def Let_def)

definition gate_works :: "dream_env \<Rightarrow> bool" where
  "gate_works env \<longleftrightarrow> dv_gate env \<and> (\<forall>ow ty. \<not> dv_flt env ow ty DsGate)"

definition within_limit :: "int \<Rightarrow> dream_state \<Rightarrow> bool" where
  "within_limit n s \<longleftrightarrow> (\<forall>d ow. started d ow (dw_usage s) \<le> n)"

lemma tryDispatch_limit:
  assumes "gate_works env" "0 < mf_DreamDailyJobLimit cfg" "mf_DreamDailyJobLimit cfg \<le> n" "within_limit n s"
  shows "within_limit n (tryDispatch cfg env ow ty tr s)"
proof -
  let ?f = "dv_flt env ow ty"
  obtain allowed reason e where g: "gate_Allow cfg (?f DsGate) (dv_now env) ow (dw_usage s) = (allowed, reason, e)" by (metis prod_cases3)
  obtain r db where c: "Create (?f DsCreate) (dv_now env) ow ty tr (dw_db s) = (r, db)" by fastforce
  have flt: "\<not> ?f DsGate" "dv_gate env" using assms(1) by (simp_all add: gate_works_def)
  show ?thesis
  proof (cases allowed)
    case False
    then show ?thesis using assms(4) flt g
      by (auto simp: tryDispatch_def Let_def within_limit_def break_circuit_def started_completion split: sum.split prod.split)
  next
    case True
    show ?thesis
    proof (cases r)
      case (Inl e)
      then show ?thesis using assms(4) flt g c True by (simp add: tryDispatch_def Let_def)
    next
      case (Inr i)
      have "ow \<noteq> ''''" using c Inr CreateOnSlot_no_owner [of "?f DsCreate" "dv_now env" ty tr 0 "dw_db s"] by (auto simp: Create_def)
      with gate_started g flt True assms(2) have lt: "started (utcDate (dv_now env)) ow (dw_usage s) < mf_DreamDailyJobLimit cfg" by auto
      have "started d o2 (dw_usage (snd (launchOne env ow ty i (set_db db s)))) \<le> n" for d o2
      proof (cases "d = utcDate (dv_now env) \<and> o2 = ow")
        case True
        with launchOne_started [of d o2 env ow ty i "set_db db s"] lt assms(3) show ?thesis by auto
      next
        case False
        with launchOne_started [of d o2 env ow ty i "set_db db s"] assms(4) show ?thesis
          by (auto simp: within_limit_def intro: order_trans)
      qed
      then show ?thesis using flt g c True Inr by (simp add: tryDispatch_def Let_def within_limit_def)
    qed
  qed
qed

lemma force_slots_started:
  "started d o2 (dw_usage (snd (force_slots env ow ty slots out s))) \<le>
   started d o2 (dw_usage s) + (if d = utcDate (dv_now env) \<and> o2 = ow \<and> ow \<noteq> '''' then int (length slots) else 0)"
proof (induction slots arbitrary: out s)
  case (Cons slot slots)
  obtain r db where c: "CreateOnSlot (dv_flt env ow ty DsCreate) (dv_now env) ow ty (''manual:'' @ ow) slot (dw_db s) = (r, db)" by fastforce
  show ?case
  proof (cases r)
    case (Inl e)
    have "started d o2 (dw_usage (snd (force_slots env ow ty slots out' s))) \<le>
        started d o2 (dw_usage s) + (if d = utcDate (dv_now env) \<and> o2 = ow \<and> ow \<noteq> '''' then int (Suc (length slots)) else 0)" for out'
      using Cons.IH [of out' s] by (auto split: if_splits)
    then show ?thesis using c Inl by (auto split: sum.split option.split)
  next
    case (Inr i)
    have ow: "ow \<noteq> ''''" using c Inr CreateOnSlot_no_owner by (metis fst_conv sum.distinct(1))
    obtain ok s' where l: "launchOne env ow ty i (set_db db s) = (ok, s')" by fastforce
    then have "started d o2 (dw_usage s') \<le> started d o2 (dw_usage s) + (if d = utcDate (dv_now env) \<and> o2 = ow then 1 else 0)"
      using launchOne_started [of d o2 env ow ty i "set_db db s"] by simp
    with Cons.IH [of "out @ [i]" s'] show ?thesis using c Inr l ow by (auto split: if_splits)
  qed
qed simp

lemma ForceRunN_limit:
  assumes "gate_works env" "0 < mf_DreamDailyJobLimit cfg" "mf_DreamDailyJobLimit cfg + p - 1 \<le> n" "fan_out ty k \<le> p" "within_limit n s"
  shows "within_limit n (snd (ForceRunN cfg env ow ty k s))"
proof -
  let ?f = "dv_flt env ow ty"
  obtain allowed reason e where g: "gate_Allow cfg (?f DsGate) (dv_now env) ow (dw_usage s) = (allowed, reason, e)" by (metis prod_cases3)
  have flt: "\<not> ?f DsGate" "dv_gate env" using assms(1) by (simp_all add: gate_works_def)
  show ?thesis
  proof (cases allowed)
    case False
    then show ?thesis using assms(5) flt g
      by (auto simp: ForceRunN_def Let_def within_limit_def break_circuit_def started_completion split: sum.split prod.split)
  next
    case True
    have "started d o2 (dw_usage (snd (force_slots env ow ty [0..fan_out ty k - 1] [] s))) \<le> n" for d o2
    proof (cases "d = utcDate (dv_now env) \<and> o2 = ow \<and> ow \<noteq> ''''")
      case today: True
      with gate_started g flt True assms(2) have "started d o2 (dw_usage s) < mf_DreamDailyJobLimit cfg" by auto
      with today force_slots_started [of d o2 env ow ty "[0..fan_out ty k - 1]" "[]" s] assms(3,4) show ?thesis
        by (auto simp: fan_out_def split: if_splits)
    next
      case False
      with force_slots_started [of d o2 env ow ty "[0..fan_out ty k - 1]" "[]" s] assms(5) show ?thesis
        by (auto simp: within_limit_def intro: order_trans)
    qed
    then show ?thesis using flt g True by (simp add: ForceRunN_def Let_def within_limit_def)
  qed
qed

lemma begin_job_usage [simp]: "dw_usage (begin_job cfg env i s) = dw_usage s"
  by (simp add: begin_job_def Let_def)

lemma quit_job_usage [simp]: "dw_usage (quit_job i s) = dw_usage s"
  by (simp add: quit_job_def)

lemma end_job_started: "started d ow (dw_usage (end_job env i h s)) = started d ow (dw_usage s)"
  by (auto simp: end_job_def Let_def started_completion split: prod.split option.split)

lemma tick_limit:
  assumes "gate_works env" "0 < mf_DreamDailyJobLimit cfg" "mf_DreamDailyJobLimit cfg \<le> n" "within_limit n s"
  shows "within_limit n (tick cfg env s)"
proof -
  have owner: "within_limit n (tick_owner cfg env due ow t)" if "within_limit n t" for due ow t
    unfolding tick_owner_def Let_def using tryDispatch_limit [OF assms(1-3)] that by auto
  have "within_limit n (fold (tick_owner cfg env due) ows t)" if "within_limit n t" for due ows t
    by (rule fold_inv [where I = "within_limit n"]) (simp_all add: owner that)
  moreover have "within_limit n (t\<lparr>dw_lastDeepPass := a\<rparr>) = within_limit n t" "within_limit n (t\<lparr>dw_inj := b, dw_lastCleanup := a\<rparr>) = within_limit n t"
    for t a b by (simp_all add: within_limit_def)
  ultimately show ?thesis unfolding tick_def Let_def using assms(4) by simp
qed

text \<open>The gate is there and answers, and no fan-out is wider than \<open>p\<close>.\<close>

fun gated :: "int \<Rightarrow> dream_op \<Rightarrow> bool" where
  "gated p (DoTick env) = gate_works env"
| "gated p (DoForce env ow ty n) = (gate_works env \<and> fan_out ty n \<le> p)"
| "gated p op = True"

lemma dream_exec_limit:
  assumes "gated p op" "1 \<le> p" "0 < mf_DreamDailyJobLimit cfg" "within_limit (mf_DreamDailyJobLimit cfg + p - 1) s"
  shows "within_limit (mf_DreamDailyJobLimit cfg + p - 1) (dream_exec cfg op s)"
proof (cases op)
  case (DoTick env)
  then show ?thesis using tick_limit [of env cfg "mf_DreamDailyJobLimit cfg + p - 1" s] assms by simp
next
  case (DoForce env ow ty n)
  then show ?thesis using ForceRunN_limit [of env cfg p "mf_DreamDailyJobLimit cfg + p - 1" ty n s ow] assms by simp
next
  case (DoEnd env i h)
  then show ?thesis using assms by (simp add: within_limit_def end_job_started)
next
  case (DoAutoLinks flt now channels reg m)
  then show ?thesis using assms by (simp add: within_limit_def split: option.split)
qed (use assms in \<open>simp_all add: within_limit_def\<close>)

section \<open>Properties\<close>

text \<open>
  C7. Along every run of the worker, its goroutines, the tools of the dream agents, the owner's
  pins and core memories and the links of new messages: an owner has at most one job of a type
  in flight on a slot, whatever the order of dispatches, endings and restarts; job ids are never
  given twice; a dispatch token belongs to a job of its own owner; no two links join the same
  messages with the same relation; an agent has one core memory, never larger than the limit;
  a message is pinned once for an owner; and no more jobs run at once than the semaphore allows.
\<close>

theorem memory_invariant:
  fixes cfg :: MemoryConfig and ops :: "dream_op list" and md :: msg_db
  defines "s \<equiv> fold (dream_exec cfg) ops (dream_empty md)"
  defines "db \<equiv> ms_db (dw_mem s)"
  shows "distinct (map job_key (filter in_flight (me_jobs db))) \<and> distinct (map jb_ID (me_jobs db)) \<and>
    (\<lambda>t. (mk_JobID t, mk_OwnerID t)) ` set (me_tokens db) \<subseteq> (\<lambda>j. (jb_ID j, jb_OwnerID j)) ` set (me_jobs db) \<and>
    distinct (map mk_Token (me_tokens db)) \<and> distinct (map link_key (me_links db)) \<and>
    distinct (map core_key (me_core db)) \<and>
    (\<lambda>c. int (length (co_Blob c))) ` set (me_core db) \<subseteq> {..core_cap (mf_CoreMemoryMaxBytes cfg)} \<and>
    distinct (map pin_key (me_pins db)) \<and> running s \<le> semaphore cfg"
proof -
  have "dream_inv cfg s" unfolding s_def by (rule dreams.run_inv [OF dream_empty_inv])
  then show ?thesis
    unfolding db_def dream_inv_def mem_inv_def jobs_inv_def tokens_inv_def links_inv_def core_inv_def pins_inv_def ids_ok_def job_owner_def
    by auto
qed

text \<open>
  Where the circuit breaker is set up and its table can be read, no owner starts more jobs on
  one UTC day than the daily limit and the width of one fan-out less one: the ticks alone keep to
  the limit, a manual fan-out asks once and then starts all its jobs.
\<close>

theorem dream_job_limit:
  assumes "0 < mf_DreamDailyJobLimit cfg" "1 \<le> p" "\<forall>op \<in> set ops. gated p op"
  shows "started day ow (dw_usage (fold (dream_exec cfg) ops (dream_empty md))) \<le> mf_DreamDailyJobLimit cfg + p - 1"
proof -
  have "within_limit (mf_DreamDailyJobLimit cfg + p - 1) (fold (dream_exec cfg) ops s)"
    if "within_limit (mf_DreamDailyJobLimit cfg + p - 1) s" "\<forall>op \<in> set ops. gated p op" for s
    using that by (induction ops arbitrary: s) (auto intro: dream_exec_limit [OF _ assms(2,1)])
  moreover have "within_limit (mf_DreamDailyJobLimit cfg + p - 1) (dream_empty md)"
    using assms(1,2) by (simp add: within_limit_def dream_empty_def started_def)
  ultimately show ?thesis using assms(3) by (simp add: within_limit_def)
qed

definition sample_dream_env :: dream_env where
  "sample_dream_env = \<lparr>dv_now = 0, dv_flt = (\<lambda>_ _ _. False), dv_owners_fail = False, dv_count_fail = (\<lambda>_. False),
     dv_activity_fail = (\<lambda>_. False), dv_cleanup_fail = False,
     dv_reg = \<lparr>rg_agents = [], rg_agent_seq = 0, rg_keys = [], rg_key_seq = 0, rg_letters = [], rg_letter_seq = 0, rg_bg = []\<rparr>,
     dv_channels = [], dv_scan = (\<lambda>t. t), dv_token = show_int, dv_runID = show_int, dv_gate = True, dv_injections = False\<rparr>"

text \<open>Two manual runs of three jobs each, under a limit of two: the second is refused, the first goes one over.\<close>

theorem dream_job_limit_witness:
  "started 0 ''7'' (dw_usage (fold (dream_exec (DefaultMemoryConfig\<lparr>mf_DreamDailyJobLimit := 2\<rparr>))
      [DoForce sample_dream_env ''7'' ''reflection'' 3, DoForce sample_dream_env ''7'' ''link_gen'' 3] (dream_empty msg_empty))) \<le> 2 + 3 - 1"
proof -
  let ?cfg = "DefaultMemoryConfig\<lparr>mf_DreamDailyJobLimit := 2\<rparr>"
  have cfg: "mf_DreamDailyJobLimit ?cfg = 2" by simp
  have "started 0 ''7'' (dw_usage (fold (dream_exec ?cfg)
      [DoForce sample_dream_env ''7'' ''reflection'' 3, DoForce sample_dream_env ''7'' ''link_gen'' 3] (dream_empty msg_empty))) \<le>
      mf_DreamDailyJobLimit ?cfg + 3 - 1"
    by (rule dream_job_limit) (simp_all add: gate_works_def sample_dream_env_def fan_out_def)
  then show ?thesis unfolding cfg .
qed

end
