(* ===== verification/Attachments.thy ===== *)
theory Attachments
  imports Memory_Store
begin

text \<open>
  Attachments (\<open>internal/attachments\<close>): the content-addressed files of \<open>cas.go\<close>, the
  metadata rows of \<open>sqlite_store.go\<close>, the service over both (\<open>service.go\<close>) and the detection
  of content types (\<open>mime.go\<close>). The hash and \<open>http.DetectContentType\<close> are parameters. A file is
  found under its path below the attachment directory; files that other programs remove or
  change are not considered.
\<close>

section \<open>Data\<close>

definition MaxFileSize :: nat where
  "MaxFileSize = 50 * 1024 * 1024"

record Attachment =
  fa_ID :: id64
  fa_Hash :: string
  fa_OriginalFilename :: string
  fa_Size :: nat
  fa_MIMEType :: string
  fa_MessageID :: "id64 option"
  fa_UploadedBy :: string
  fa_CreatedAt :: timestamp

record UploadRequest =
  ur_Content :: string
  ur_Filename :: string
  ur_MIMEType :: string
  ur_MessageID :: "id64 option"
  ur_UploadedBy :: string

datatype att_error = ErrNotFound | ErrFileTooLarge | ErrEmptyFile | ErrFileMissing | AttReadFailed | AttFileFailed | AttStatementFailed | AttPanic

type_synonym files = "string list \<Rightarrow> string option"

record att_db =
  fd_rows :: "Attachment list"
  fd_seq :: id64
  fd_files :: files

section \<open>Content types\<close>

definition extensionMIMETypes :: "(string \<times> string) list" where
  "extensionMIMETypes =
     [(''.css'', ''text/css''), (''.csv'', ''text/csv''), (''.doc'', ''application/msword''),
      (''.docx'', ''application/vnd.openxmlformats-officedocument.wordprocessingml.document''), (''.gif'', ''image/gif''),
      (''.html'', ''text/html''), (''.jpeg'', ''image/jpeg''), (''.jpg'', ''image/jpeg''), (''.js'', ''application/javascript''),
      (''.json'', ''application/json''), (''.md'', ''text/markdown''), (''.mp3'', ''audio/mpeg''), (''.mp4'', ''video/mp4''),
      (''.pdf'', ''application/pdf''), (''.png'', ''image/png''),
      (''.pptx'', ''application/vnd.openxmlformats-officedocument.presentationml.presentation''), (''.svg'', ''image/svg+xml''),
      (''.tar'', ''application/x-tar''), (''.txt'', ''text/plain''), (''.wav'', ''audio/wav''), (''.webp'', ''image/webp''),
      (''.xlsx'', ''application/vnd.openxmlformats-officedocument.spreadsheetml.sheet''), (''.xml'', ''application/xml''),
      (''.yaml'', ''text/yaml''), (''.yml'', ''text/yaml''), (''.zip'', ''application/zip'')]"

definition imageTypes :: "string list" where
  "imageTypes = [''image/jpeg'', ''image/png'', ''image/gif'', ''image/webp'', ''image/svg+xml'']"

definition isGenericMIME :: "string \<Rightarrow> bool" where
  "isGenericMIME mimeType =
     (let base = (if CHR '';'' \<in> set mimeType then trim_space (takeWhile (\<lambda>c. c \<noteq> CHR '';'') mimeType) else mimeType)
      in base = ''application/octet-stream'' \<or> base = ''text/plain'')"

text \<open>\<open>filepath.Ext\<close>: from the last dot of the last element of the path on.\<close>

definition file_ext :: "string \<Rightarrow> string" where
  "file_ext name =
     (let base = rev (takeWhile (\<lambda>c. c \<noteq> CHR ''/'') (rev name))
      in if CHR ''.'' \<in> set base then CHR ''.'' # rev (takeWhile (\<lambda>c. c \<noteq> CHR ''.'') (rev base)) else '''')"

definition DetectMIMEType :: "(string \<Rightarrow> string) \<Rightarrow> string \<Rightarrow> string \<Rightarrow> string" where
  "DetectMIMEType sniff bytes filename =
     (let detected = (if bytes = '''' then '''' else sniff bytes);
          fallback = (if detected \<noteq> '''' then detected else ''application/octet-stream'')
      in if detected \<noteq> '''' \<and> \<not> isGenericMIME detected then detected
         else if filename = '''' then fallback
         else case map_of extensionMIMETypes (to_lower (file_ext filename)) of Some m \<Rightarrow> m | None \<Rightarrow> fallback)"

definition DefaultFilename :: "string \<Rightarrow> string" where
  "DefaultFilename m =
     (if has_prefix ''image/png'' m then ''untitled.png''
      else if has_prefix ''image/jpeg'' m then ''untitled.jpg''
      else if has_prefix ''image/gif'' m then ''untitled.gif''
      else if has_prefix ''image/webp'' m then ''untitled.webp''
      else if has_prefix ''image/svg'' m then ''untitled.svg''
      else if m = ''application/pdf'' then ''untitled.pdf''
      else if has_prefix ''text/'' m then ''untitled.txt''
      else ''untitled.bin'')"

definition IsImageType :: "string \<Rightarrow> bool" where
  "IsImageType m \<longleftrightarrow> m \<in> set imageTypes"

definition IsAllowedType :: "string \<Rightarrow> bool" where
  "IsAllowedType m = True"

section \<open>Files under their hash\<close>

text \<open>A hash of fewer than four characters makes the slice expressions panic.\<close>

definition shardPath :: "string \<Rightarrow> string list option" where
  "shardPath hash = (if length hash < 4 then None else Some [take 2 hash, take 2 (drop 2 hash), hash])"

datatype cas_stmt = CsTemp | CsCopy | CsClose | CsStat | CsMkdir | CsRename | CsOpen | CsRemove

text \<open>
  A file that is there is not written again. Where \<open>Stat\<close> fails for another reason the
  rename replaces it.
\<close>

definition cas_Write :: "(string \<Rightarrow> string) \<Rightarrow> (cas_stmt \<Rightarrow> bool) \<Rightarrow> string \<Rightarrow> files \<Rightarrow> (att_error + string \<times> nat) \<times> files" where
  "cas_Write sha flt bytes fs =
     (if flt CsTemp \<or> flt CsCopy then (Inl AttFileFailed, fs)
      else if bytes = '''' then (Inl ErrEmptyFile, fs)
      else if flt CsClose then (Inl AttFileFailed, fs)
      else case shardPath (sha bytes) of
             None \<Rightarrow> (Inl AttPanic, fs)
           | Some path \<Rightarrow>
               if fs path \<noteq> None \<and> \<not> flt CsStat then (Inr (sha bytes, length bytes), fs)
               else if flt CsMkdir \<or> flt CsRename then (Inl AttFileFailed, fs)
               else (Inr (sha bytes, length bytes), fs(path \<mapsto> bytes)))"

definition cas_Read :: "(cas_stmt \<Rightarrow> bool) \<Rightarrow> string \<Rightarrow> files \<Rightarrow> att_error + string" where
  "cas_Read flt hash fs =
     (case shardPath hash of
        None \<Rightarrow> Inl AttPanic
      | Some path \<Rightarrow> if flt CsOpen then Inl AttFileFailed else case fs path of None \<Rightarrow> Inl ErrNotFound | Some c \<Rightarrow> Inr c)"

definition cas_Exists :: "(cas_stmt \<Rightarrow> bool) \<Rightarrow> string \<Rightarrow> files \<Rightarrow> bool option" where
  "cas_Exists flt hash fs = map_option (\<lambda>path. \<not> flt CsStat \<and> fs path \<noteq> None) (shardPath hash)"

definition cas_Delete :: "(cas_stmt \<Rightarrow> bool) \<Rightarrow> string \<Rightarrow> files \<Rightarrow> (att_error + nat) \<times> files" where
  "cas_Delete flt hash fs =
     (case shardPath hash of
        None \<Rightarrow> (Inl AttPanic, fs)
      | Some path \<Rightarrow>
          if flt CsStat then (Inl AttFileFailed, fs)
          else case fs path of
                 None \<Rightarrow> (Inr 0, fs)
               | Some c \<Rightarrow> if flt CsRemove then (Inl AttFileFailed, fs) else (Inr (length c), fs(path := None)))"

section \<open>Metadata\<close>

definition InsertMetadata :: "bool \<Rightarrow> timestamp \<Rightarrow> id64 list \<Rightarrow> Attachment \<Rightarrow> att_db \<Rightarrow> (att_error + Attachment) \<times> att_db" where
  "InsertMetadata failed now msgIDs a db =
     (let i = fd_seq db + 1; row = a\<lparr>fa_ID := i, fa_CreatedAt := now\<rparr>
      in if failed \<or> (case fa_MessageID a of None \<Rightarrow> False | Some m \<Rightarrow> m \<notin> set msgIDs) then (Inl AttStatementFailed, db)
         else (Inr row, db\<lparr>fd_rows := fd_rows db @ [row], fd_seq := i\<rparr>))"

definition GetByHash :: "bool \<Rightarrow> string \<Rightarrow> att_db \<Rightarrow> att_error + Attachment list" where
  "GetByHash failed hash db =
     (if failed then Inl AttStatementFailed
      else Inr (sort_key (\<lambda>a. - fa_CreatedAt a) (filter (\<lambda>a. fa_Hash a = hash) (fd_rows db))))"

definition att_GetByMessageID :: "bool \<Rightarrow> id64 \<Rightarrow> att_db \<Rightarrow> att_error + Attachment list" where
  "att_GetByMessageID failed messageID db =
     (if failed then Inl AttStatementFailed
      else Inr (sort_key fa_CreatedAt (filter (\<lambda>a. fa_MessageID a = Some messageID) (fd_rows db))))"

definition DeleteByHash :: "bool \<Rightarrow> string \<Rightarrow> att_db \<Rightarrow> (att_error + unit) \<times> att_db" where
  "DeleteByHash failed hash db =
     (if failed then (Inl AttStatementFailed, db)
      else (Inr (), db\<lparr>fd_rows := delete_where (\<lambda>a. fa_Hash a = hash) (fd_rows db)\<rparr>))"

definition linked :: "id64 list \<Rightarrow> Attachment \<Rightarrow> bool" where
  "linked msgIDs a \<longleftrightarrow> (case fa_MessageID a of None \<Rightarrow> False | Some m \<Rightarrow> m \<in> set msgIDs)"

text \<open>
  The query: the rows its \<open>WHERE\<close> lets through, grouped by hash, and of each group the linked
  rows counted.
\<close>

definition FindOrphanHashes :: "bool \<Rightarrow> id64 list \<Rightarrow> att_db \<Rightarrow> att_error + string list" where
  "FindOrphanHashes failed msgIDs db =
     (let rows = filter (\<lambda>a. \<not> linked msgIDs a) (fd_rows db)
      in if failed then Inl AttStatementFailed
         else Inr (filter (\<lambda>h. length (filter (\<lambda>a. fa_Hash a = h \<and> linked msgIDs a) rows) = 0) (dedup (map fa_Hash rows))))"

definition CountReferences :: "bool \<Rightarrow> string \<Rightarrow> att_db \<Rightarrow> att_error + nat" where
  "CountReferences failed hash db =
     (if failed then Inl AttStatementFailed else Inr (rows_affected (\<lambda>a. fa_Hash a = hash) (fd_rows db)))"

section \<open>Service\<close>

datatype att_stmt = AsRead | AsCas cas_stmt | AsInsert | AsGet | AsOrphans | AsDelete string | AsGCFile string cas_stmt

text \<open>\<open>sha\<close> gives the hex digest; what is read is at most one byte more than allowed.\<close>

definition Upload ::
  "(string \<Rightarrow> string) \<Rightarrow> (string \<Rightarrow> string) \<Rightarrow> (att_stmt \<Rightarrow> bool) \<Rightarrow> timestamp \<Rightarrow> id64 list \<Rightarrow> UploadRequest \<Rightarrow> att_db \<Rightarrow>
   (att_error + string \<times> nat \<times> string \<times> string) \<times> att_db" where
  "Upload sha sniff flt now msgIDs req db =
     (let bytes = take (MaxFileSize + 1) (ur_Content req);
          mimeType = (if ur_MIMEType req = '''' then DetectMIMEType sniff (take 512 bytes) (ur_Filename req) else ur_MIMEType req);
          filename = (if ur_Filename req = '''' then DefaultFilename mimeType else ur_Filename req)
      in if flt AsRead then (Inl AttReadFailed, db)
         else if bytes = '''' then (Inl ErrEmptyFile, db)
         else if MaxFileSize < length bytes then (Inl ErrFileTooLarge, db)
         else case cas_Write sha (\<lambda>st. flt (AsCas st)) bytes (fd_files db) of
                (Inl e, fs) \<Rightarrow> (Inl e, db\<lparr>fd_files := fs\<rparr>)
              | (Inr (hash, len), fs) \<Rightarrow>
                  (case InsertMetadata (flt AsInsert) now msgIDs
                          \<lparr>fa_ID = 0, fa_Hash = hash, fa_OriginalFilename = filename, fa_Size = len, fa_MIMEType = mimeType,
                           fa_MessageID = ur_MessageID req, fa_UploadedBy = ur_UploadedBy req, fa_CreatedAt = 0\<rparr>
                          (db\<lparr>fd_files := fs\<rparr>) of
                     (Inl e, db') \<Rightarrow> (Inl e, db')
                   | (Inr _, db') \<Rightarrow> (Inr (hash, len, mimeType, filename), db')))"

definition Download :: "(att_stmt \<Rightarrow> bool) \<Rightarrow> string \<Rightarrow> att_db \<Rightarrow> att_error + string \<times> Attachment" where
  "Download flt hash db =
     (case GetByHash (flt AsGet) hash db of
        Inl e \<Rightarrow> Inl e
      | Inr [] \<Rightarrow> Inl ErrNotFound
      | Inr (meta # _) \<Rightarrow>
          (case cas_Read (\<lambda>st. flt (AsCas st)) hash (fd_files db) of
             Inl e \<Rightarrow> Inl (if e = ErrNotFound then ErrFileMissing else e)
           | Inr c \<Rightarrow> Inr (c, meta)))"

text \<open>Linking inserts a copy of the newest row; the row without a message stays.\<close>

definition AttachToMessage_file ::
  "(att_stmt \<Rightarrow> bool) \<Rightarrow> timestamp \<Rightarrow> id64 list \<Rightarrow> string \<Rightarrow> id64 \<Rightarrow> att_db \<Rightarrow> (att_error + unit) \<times> att_db" where
  "AttachToMessage_file flt now msgIDs hash messageID db =
     (case GetByHash (flt AsGet) hash db of
        Inl e \<Rightarrow> (Inl e, db)
      | Inr [] \<Rightarrow> (Inl ErrNotFound, db)
      | Inr (meta # _) \<Rightarrow>
          (case InsertMetadata (flt AsInsert) now msgIDs (meta\<lparr>fa_MessageID := Some messageID\<rparr>) db of
             (Inl e, db') \<Rightarrow> (Inl e, db') | (Inr _, db') \<Rightarrow> (Inr (), db')))"

fun collect :: "(att_stmt \<Rightarrow> bool) \<Rightarrow> string list \<Rightarrow> (nat \<times> nat) \<times> att_db \<Rightarrow> (nat \<times> nat) \<times> att_db" where
  "collect flt [] st = st"
| "collect flt (h # hs) ((n, b), db) =
     (case cas_Delete (\<lambda>st. flt (AsGCFile h st)) h (fd_files db) of
        (Inl _, fs) \<Rightarrow> collect flt hs ((n, b), db\<lparr>fd_files := fs\<rparr>)
      | (Inr len, fs) \<Rightarrow>
          (case DeleteByHash (flt (AsDelete h)) h (db\<lparr>fd_files := fs\<rparr>) of
             (Inl _, db') \<Rightarrow> collect flt hs ((n, b), db')
           | (Inr _, db') \<Rightarrow> collect flt hs ((n + 1, b + len), db')))"

definition GarbageCollect :: "(att_stmt \<Rightarrow> bool) \<Rightarrow> id64 list \<Rightarrow> att_db \<Rightarrow> (att_error + nat \<times> nat) \<times> att_db" where
  "GarbageCollect flt msgIDs db =
     (case FindOrphanHashes (flt AsOrphans) msgIDs db of
        Inl e \<Rightarrow> (Inl e, db)
      | Inr hs \<Rightarrow> (case collect flt hs ((0, 0), db) of (r, db') \<Rightarrow> (Inr r, db')))"

section \<open>The files behind the rows\<close>

datatype att_op =
    FUpload "att_stmt \<Rightarrow> bool" timestamp "id64 list" UploadRequest
  | FAttach "att_stmt \<Rightarrow> bool" timestamp "id64 list" string id64
  | FCollect "att_stmt \<Rightarrow> bool" "id64 list"
  | FForget "id64 set"

text \<open>\<open>FForget\<close> is what retention does to the rows of the messages it deletes.\<close>

fun att_exec :: "(string \<Rightarrow> string) \<Rightarrow> (string \<Rightarrow> string) \<Rightarrow> att_op \<Rightarrow> att_db \<Rightarrow> att_db" where
  "att_exec sha sniff (FUpload flt now ids req) db = snd (Upload sha sniff flt now ids req db)"
| "att_exec sha sniff (FAttach flt now ids hash m) db = snd (AttachToMessage_file flt now ids hash m db)"
| "att_exec sha sniff (FCollect flt ids) db = snd (GarbageCollect flt ids db)"
| "att_exec sha sniff (FForget ids) db =
     db\<lparr>fd_rows := delete_where (\<lambda>a. case fa_MessageID a of None \<Rightarrow> False | Some m \<Rightarrow> m \<in> ids) (fd_rows db)\<rparr>"

definition att_empty :: att_db where
  "att_empty = \<lparr>fd_rows = [], fd_seq = 0, fd_files = Map.empty\<rparr>"

definition stored :: "files \<Rightarrow> string \<Rightarrow> string option" where
  "stored fs hash = Option.bind (shardPath hash) fs"

definition files_ok :: "(string \<Rightarrow> string) \<Rightarrow> files \<Rightarrow> bool" where
  "files_ok sha fs \<longleftrightarrow> (\<forall>hash c. stored fs hash = Some c \<longrightarrow> sha c = hash)"

definition att_inv :: "(string \<Rightarrow> string) \<Rightarrow> att_db \<Rightarrow> bool" where
  "att_inv sha db \<longleftrightarrow> ids_ok fa_ID (fd_seq db) (fd_rows db) \<and> files_ok sha (fd_files db) \<and>
     (\<forall>a \<in> set (fd_rows db). stored (fd_files db) (fa_Hash a) \<noteq> None)"

lemma shardPath_inj: "shardPath h = Some p \<Longrightarrow> shardPath h' = Some p \<Longrightarrow> h = h'"
  by (auto simp: shardPath_def split: if_splits)

lemma stored_update: "shardPath h = Some p \<Longrightarrow> stored (fs(p := v)) h' = (if h' = h then v else stored fs h')"
  using shardPath_inj [of h p h'] by (cases "shardPath h'") (auto simp: stored_def)

lemma cas_Write_ok:
  assumes "cas_Write sha flt c fs = (r, fs')" "files_ok sha fs"
  shows "files_ok sha fs' \<and> (\<forall>h. stored fs h \<noteq> None \<longrightarrow> stored fs' h \<noteq> None) \<and>
    (case r of Inl e \<Rightarrow> True | Inr (h, n) \<Rightarrow> h = sha c \<and> n = length c \<and> stored fs' h \<noteq> None)"
proof (cases "shardPath (sha c)")
  case None
  with assms show ?thesis by (auto simp: cas_Write_def split: if_splits)
next
  case (Some p)
  have p: "stored fs (sha c) = fs p" by (simp add: stored_def Some)
  consider (err) e where "r = Inl e" "fs' = fs" | (dedup) "r = Inr (sha c, length c)" "fs' = fs" "fs p \<noteq> None"
    | (new) "r = Inr (sha c, length c)" "fs' = fs(p \<mapsto> c)"
    using assms(1) Some unfolding cas_Write_def by (auto split: if_split_asm)
  then show ?thesis
  proof cases
    case new
    with assms(2) Some show ?thesis by (auto simp: files_ok_def stored_update split: if_splits)
  qed (use assms(2) p in auto)
qed

lemma InsertMetadata_inv:
  assumes "InsertMetadata failed now ids a db = (r, db')" "att_inv sha db" "stored (fd_files db) (fa_Hash a) \<noteq> None"
  shows "att_inv sha db'"
  using assms by (auto simp: InsertMetadata_def Let_def att_inv_def split: if_splits intro!: ids_ok_append)

lemma Upload_inv: "att_inv sha db \<Longrightarrow> att_inv sha (snd (Upload sha sniff flt now ids req db))"
proof -
  assume inv: "att_inv sha db"
  define c where "c = take (MaxFileSize + 1) (ur_Content req)"
  define m where "m = (if ur_MIMEType req = '''' then DetectMIMEType sniff (take 512 c) (ur_Filename req) else ur_MIMEType req)"
  define f where "f = (if ur_Filename req = '''' then DefaultFilename m else ur_Filename req)"
  obtain r fs where w: "cas_Write sha (\<lambda>st. flt (AsCas st)) c (fd_files db) = (r, fs)" by fastforce
  have fs: "att_inv sha (db\<lparr>fd_files := fs\<rparr>)" using cas_Write_ok [OF w] inv by (auto simp: att_inv_def)
  show ?thesis
  proof (cases r)
    case (Inl e)
    with w fs inv show ?thesis unfolding Upload_def Let_def c_def [symmetric] by simp
  next
    case (Inr p)
    obtain h n where p: "p = (h, n)" by fastforce
    let ?a = "\<lparr>fa_ID = 0, fa_Hash = h, fa_OriginalFilename = f, fa_Size = n, fa_MIMEType = m,
      fa_MessageID = ur_MessageID req, fa_UploadedBy = ur_UploadedBy req, fa_CreatedAt = 0\<rparr>"
    obtain r2 db2 where i: "InsertMetadata (flt AsInsert) now ids ?a (db\<lparr>fd_files := fs\<rparr>) = (r2, db2)" by fastforce
    have "files_ok sha (fd_files db)" using inv by (simp add: att_inv_def)
    from cas_Write_ok [OF w this] Inr p have "stored fs h \<noteq> None" by auto
    with InsertMetadata_inv [OF i fs] have "att_inv sha db2" by simp
    then show ?thesis using w inv Inr p i
      unfolding Upload_def Let_def c_def [symmetric] m_def [symmetric] f_def [symmetric]
      by (simp split: sum.split)
  qed
qed

lemma AttachToMessage_file_inv: "att_inv sha db \<Longrightarrow> att_inv sha (snd (AttachToMessage_file flt now ids h m db))"
proof -
  assume inv: "att_inv sha db"
  show ?thesis
  proof (cases "GetByHash (flt AsGet) h db")
    case (Inr as)
    show ?thesis
    proof (cases as)
      case (Cons meta rest)
      have "set as \<subseteq> set (fd_rows db)" using Inr by (auto simp: GetByHash_def split: if_splits)
      with Cons have "meta \<in> set (fd_rows db)" by simp
      with inv have "stored (fd_files db) (fa_Hash meta) \<noteq> None" by (simp add: att_inv_def)
      moreover obtain r db2 where i: "InsertMetadata (flt AsInsert) now ids (meta\<lparr>fa_MessageID := Some m\<rparr>) db = (r, db2)" by fastforce
      ultimately have "att_inv sha db2" using InsertMetadata_inv [OF i inv] by simp
      with Inr Cons i show ?thesis by (simp add: AttachToMessage_file_def split: sum.split)
    qed (use Inr inv in \<open>simp add: AttachToMessage_file_def\<close>)
  qed (use inv in \<open>simp add: AttachToMessage_file_def\<close>)
qed

lemma delete_rows_inv: "att_inv sha db \<Longrightarrow> att_inv sha (db\<lparr>fd_rows := delete_where P (fd_rows db)\<rparr>)"
  by (auto simp: att_inv_def intro: ids_ok_delete_where)

lemma collect_inv: "att_inv sha db \<Longrightarrow> (\<And>h. \<not> flt (AsDelete h)) \<Longrightarrow> att_inv sha (snd (collect flt hs ((n, b), db)))"
proof (induction hs arbitrary: n b db)
  case (Cons h hs)
  obtain r fs where d: "cas_Delete (\<lambda>st. flt (AsGCFile h st)) h (fd_files db) = (r, fs)" by fastforce
  show ?case
  proof (cases r)
    case (Inl e)
    with d have "fs = fd_files db" by (auto simp: cas_Delete_def split: option.splits if_splits)
    with Cons Inl d show ?thesis by simp
  next
    case (Inr k)
    let ?db = "db\<lparr>fd_files := fs, fd_rows := delete_where (\<lambda>a. fa_Hash a = h) (fd_rows db)\<rparr>"
    have other: "stored fs h' = stored (fd_files db) h'" if "h' \<noteq> h" for h'
      using d that by (auto simp: cas_Delete_def stored_update split: option.splits if_splits)
    have "files_ok sha fs"
      using d Cons.prems(1) by (auto simp: cas_Delete_def att_inv_def files_ok_def stored_update split: option.splits if_splits)
    then have "att_inv sha ?db" using Cons.prems(1) other by (auto simp: att_inv_def intro: ids_ok_delete_where)
    from Cons.IH [OF this] Cons.prems(2) d Inr show ?thesis by (simp add: DeleteByHash_def)
  qed
qed simp

text \<open>The clean-up keeps rows and files together as long as it can delete rows.\<close>

fun rows_deletable :: "att_op \<Rightarrow> bool" where
  "rows_deletable (FCollect flt ids) = (\<forall>h. \<not> flt (AsDelete h))"
| "rows_deletable op = True"

definition att_exec_ok :: "(string \<Rightarrow> string) \<Rightarrow> (string \<Rightarrow> string) \<Rightarrow> att_op \<Rightarrow> att_db \<Rightarrow> att_db" where
  "att_exec_ok sha sniff op db = (if rows_deletable op then att_exec sha sniff op db else db)"

lemma att_exec_inv: "att_inv sha db \<Longrightarrow> rows_deletable op \<Longrightarrow> att_inv sha (att_exec sha sniff op db)"
proof (cases op)
  case (FCollect flt ids)
  assume inv: "att_inv sha db" and "rows_deletable op"
  with FCollect have "att_inv sha (snd (collect flt hs ((0, 0), db)))" for hs by (auto intro: collect_inv)
  then show ?thesis using inv FCollect by (auto simp: GarbageCollect_def split: sum.split prod.split) (metis snd_conv)
qed (simp_all add: Upload_inv AttachToMessage_file_inv delete_rows_inv)

interpretation att: invariant_system "att_exec_ok sha sniff" "att_inv sha" for sha sniff
  by unfold_locales (auto simp: att_exec_ok_def att_exec_inv)

lemma att_empty_inv: "att_inv sha att_empty"
  by (auto simp: att_inv_def att_empty_def files_ok_def stored_def split: bind_splits)

lemma att_exec_ok_run: "\<forall>op \<in> set ops. rows_deletable op \<Longrightarrow> fold (att_exec_ok sha sniff) ops db = fold (att_exec sha sniff) ops db"
  by (induction ops arbitrary: db) (auto simp: att_exec_ok_def)

lemma GetByHash_rows: "GetByHash False hash db = Inr as \<Longrightarrow> set as = {a \<in> set (fd_rows db). fa_Hash a = hash}"
  by (auto simp: GetByHash_def)

lemma Download_found:
  assumes "stored (fd_files db) h = Some c" "a \<in> set (fd_rows db)" "fa_Hash a = h"
  shows "\<exists>meta \<in> set (fd_rows db). fa_Hash meta = h \<and> Download (\<lambda>_. False) h db = Inr (c, meta)"
proof -
  obtain as where g: "GetByHash False h db = Inr as" by (simp add: GetByHash_def)
  with GetByHash_rows [OF g] assms(2,3) obtain meta rest where as: "as = meta # rest" by (cases as) auto
  with GetByHash_rows [OF g] have meta: "meta \<in> set (fd_rows db)" "fa_Hash meta = h" by auto
  from assms(1) have "cas_Read (\<lambda>_. False) h (fd_files db) = Inr c" by (auto simp: cas_Read_def stored_def split: bind_splits)
  with g as meta show ?thesis by (auto simp: Download_def)
qed

lemma Download_stored:
  assumes "att_inv sha db" "a \<in> set (fd_rows db)"
  obtains c meta where "Download (\<lambda>_. False) (fa_Hash a) db = Inr (c, meta)" "stored (fd_files db) (fa_Hash a) = Some c"
    "sha c = fa_Hash a" "meta \<in> set (fd_rows db)" "fa_Hash meta = fa_Hash a"
proof -
  from assms obtain c where c: "stored (fd_files db) (fa_Hash a) = Some c" by (auto simp: att_inv_def)
  with assms(1) have sha: "sha c = fa_Hash a" by (simp add: att_inv_def files_ok_def)
  from Download_found [OF c assms(2) refl] that [OF _ c sha] show thesis by metis
qed

lemma stored_grows:
  assumes "files_ok sha (fd_files db)" "Upload sha sniff flt now ids req db = (r, db')"
  shows "files_ok sha (fd_files db') \<and> (\<forall>h. stored (fd_files db) h \<noteq> None \<longrightarrow> stored (fd_files db') h \<noteq> None)"
proof -
  obtain w fs where w: "cas_Write sha (\<lambda>st. flt (AsCas st)) (take (MaxFileSize + 1) (ur_Content req)) (fd_files db) = (w, fs)"
    by fastforce
  have "fd_files db' = fd_files db \<or> fd_files db' = fs"
    using assms(2) w by (auto simp: Upload_def Let_def InsertMetadata_def split: sum.splits prod.splits if_splits)
  with cas_Write_ok [OF w assms(1)] assms(1) show ?thesis by auto
qed

text \<open>The operations that never take a file away.\<close>

fun keeps_files :: "att_op \<Rightarrow> bool" where
  "keeps_files (FUpload flt now ids req) = True"
| "keeps_files (FAttach flt now ids h m) = True"
| "keeps_files op = False"

lemma keeps_files_step:
  assumes "files_ok sha (fd_files db)" "keeps_files op"
  shows "files_ok sha (fd_files (att_exec sha sniff op db))"
    "stored (fd_files db) h \<noteq> None \<Longrightarrow> stored (fd_files (att_exec sha sniff op db)) h \<noteq> None"
    "set (fd_rows db) \<subseteq> set (fd_rows (att_exec sha sniff op db))"
proof -
  have up: "files_ok sha (fd_files (snd (Upload sha sniff flt now ids req db))) \<and>
      (\<forall>h. stored (fd_files db) h \<noteq> None \<longrightarrow> stored (fd_files (snd (Upload sha sniff flt now ids req db))) h \<noteq> None)"
    for flt now ids req using stored_grows [OF assms(1) surjective_pairing] .
  have at: "fd_files (snd (AttachToMessage_file flt now ids hash m db)) = fd_files db" for flt now ids hash m
    by (auto simp: AttachToMessage_file_def InsertMetadata_def Let_def split: sum.splits list.splits)
  show "files_ok sha (fd_files (att_exec sha sniff op db))"
    using assms up at by (cases op) auto
  show "stored (fd_files db) h \<noteq> None \<Longrightarrow> stored (fd_files (att_exec sha sniff op db)) h \<noteq> None"
    using assms up at by (cases op) auto
  show "set (fd_rows db) \<subseteq> set (fd_rows (att_exec sha sniff op db))"
    using assms(2) by (cases op)
      (auto simp: AttachToMessage_file_def Upload_def InsertMetadata_def Let_def split: sum.splits list.splits prod.splits)
qed

lemma keeps_files_run:
  assumes "files_ok sha (fd_files db)" "\<forall>op \<in> set ops. keeps_files op"
  shows "files_ok sha (fd_files (fold (att_exec sha sniff) ops db)) \<and>
    (stored (fd_files db) h \<noteq> None \<longrightarrow> stored (fd_files (fold (att_exec sha sniff) ops db)) h \<noteq> None) \<and>
    set (fd_rows db) \<subseteq> set (fd_rows (fold (att_exec sha sniff) ops db))"
  using assms
proof (induction ops arbitrary: db)
  case (Cons op ops)
  have ok: "keeps_files op" using Cons.prems by simp
  note k = keeps_files_step [OF Cons.prems(1) ok]
  from Cons.IH [OF k(1)] Cons.prems(2) k(2,3) show ?case by fastforce
qed simp

lemma Upload_result:
  assumes "Upload sha sniff flt now ids req db = (Inr (h, n, m, f), db')" "files_ok sha (fd_files db)"
  shows "h = sha (ur_Content req) \<and> n = length (ur_Content req) \<and> 0 < n \<and> n \<le> MaxFileSize \<and> stored (fd_files db') h \<noteq> None \<and>
    (\<exists>a \<in> set (fd_rows db'). fa_Hash a = h \<and> fa_Size a = n \<and> fa_MIMEType a = m \<and> fa_OriginalFilename a = f)"
proof -
  define c where "c = take (MaxFileSize + 1) (ur_Content req)"
  obtain w fs where w: "cas_Write sha (\<lambda>st. flt (AsCas st)) c (fd_files db) = (w, fs)" by fastforce
  have c: "c \<noteq> ''''" "length c \<le> MaxFileSize"
    using assms(1) unfolding Upload_def Let_def c_def [symmetric] by (auto split: if_split_asm)
  then have same: "c = ur_Content req" by (auto simp: c_def)
  obtain h' n' where wr: "w = Inr (h', n')"
    using assms(1) w c unfolding Upload_def Let_def c_def [symmetric]
    by (cases w) (auto split: if_split_asm)
  from cas_Write_ok [OF w assms(2)] wr have wok: "h' = sha c" "n' = length c" "stored fs h' \<noteq> None" by auto
  have "h = h'" "n = n'" "fd_files db' = fs"
    "\<exists>a \<in> set (fd_rows db'). fa_Hash a = h' \<and> fa_Size a = n' \<and> fa_MIMEType a = m \<and> fa_OriginalFilename a = f"
    using assms(1) w wr c unfolding Upload_def Let_def c_def [symmetric]
    by (auto simp: InsertMetadata_def Let_def split: if_split_asm)
  with wok c same show ?thesis by auto
qed

lemma FindOrphanHashes_unlinked:
  "FindOrphanHashes False ids db = Inr (dedup (map fa_Hash (filter (\<lambda>a. \<not> linked ids a) (fd_rows db))))"
proof -
  have none: "length (filter (\<lambda>a. fa_Hash a = h \<and> linked ids a) (filter (\<lambda>a. \<not> linked ids a) (fd_rows db))) = 0" for h
    by (auto simp: filter_empty_conv)
  show ?thesis by (simp add: FindOrphanHashes_def Let_def none del: filter_filter)
qed

lemma collect_exact:
  assumes "\<forall>h \<in> set hs. 4 \<le> length h"
  shows "\<exists>r. collect (\<lambda>_. False) hs ((n, b), db) = (r, db\<lparr>fd_rows := filter (\<lambda>a. fa_Hash a \<notin> set hs) (fd_rows db),
      fd_files := fd_files (snd (collect (\<lambda>_. False) hs ((n, b), db)))\<rparr>) \<and>
    (\<forall>h. stored (fd_files (snd (collect (\<lambda>_. False) hs ((n, b), db)))) h = (if h \<in> set hs then None else stored (fd_files db) h))"
  using assms
proof (induction hs arbitrary: n b db)
  case (Cons h hs)
  then obtain p where p: "shardPath h = Some p" by (simp add: shardPath_def)
  define fs where "fs = (fd_files db)(p := None)"
  have off: "stored fs h' = (if h' = h then None else stored (fd_files db) h')" for h'
    by (simp add: fs_def stored_update [OF p])
  obtain k where d: "cas_Delete (\<lambda>_. False) h (fd_files db) = (Inr k, fs)"
    by (cases "fd_files db p") (auto simp: cas_Delete_def p fs_def fun_upd_idem)
  define db1 where "db1 = db\<lparr>fd_files := fs, fd_rows := delete_where (\<lambda>a. fa_Hash a = h) (fd_rows db)\<rparr>"
  have step: "collect (\<lambda>_. False) (h # hs) ((n, b), db) = collect (\<lambda>_. False) hs ((n + 1, b + k), db1)"
    using d by (simp add: DeleteByHash_def db1_def)
  have rows: "filter (\<lambda>a. fa_Hash a \<notin> set hs) (fd_rows db1) = filter (\<lambda>a. fa_Hash a \<notin> set (h # hs)) (fd_rows db)"
    by (simp add: db1_def delete_where_def conj_commute)
  have "\<forall>h \<in> set hs. 4 \<le> length h" using Cons.prems by simp
  from Cons.IH [OF this, of "n + 1" "b + k" db1] show ?case
    unfolding step rows by (auto simp: db1_def off)
qed (auto simp: filter_True)

section \<open>Properties\<close>

text \<open>
  C38. After any uploads, links, clean-ups that can delete their rows, and retention, whatever else
  fails, every row of the table has its file: a fault-free download of its hash succeeds, and
  returns bytes that have this hash with the metadata of a row of this hash.
\<close>

theorem attachment_integrity:
  assumes "\<forall>op \<in> set ops. rows_deletable op" and "a \<in> set (fd_rows (fold (att_exec sha sniff) ops att_empty))"
  shows "\<exists>c meta. Download (\<lambda>_. False) (fa_Hash a) (fold (att_exec sha sniff) ops att_empty) = Inr (c, meta) \<and>
    sha c = fa_Hash a \<and> fa_Hash meta = fa_Hash a \<and> meta \<in> set (fd_rows (fold (att_exec sha sniff) ops att_empty))"
proof -
  have "att_inv sha (fold (att_exec_ok sha sniff) ops att_empty)" by (rule att.run_inv) (rule att_empty_inv)
  then have "att_inv sha (fold (att_exec sha sniff) ops att_empty)" using assms(1) by (simp add: att_exec_ok_run)
  from Download_stored [OF this assms(2)] show ?thesis by metis
qed

definition toy_sha :: "string \<Rightarrow> string" where
  "toy_sha c = ''abcd'' @ c"

definition toy_upload :: att_op where
  "toy_upload = FUpload (\<lambda>_. False) 5 [1] \<lparr>ur_Content = ''hello'', ur_Filename = ''a.md'', ur_MIMEType = '''', ur_MessageID = None, ur_UploadedBy = ''bob''\<rparr>"

definition toy_row :: Attachment where
  "toy_row = \<lparr>fa_ID = 1, fa_Hash = ''abcdhello'', fa_OriginalFilename = ''a.md'', fa_Size = 5, fa_MIMEType = ''text/markdown'',
     fa_MessageID = None, fa_UploadedBy = ''bob'', fa_CreatedAt = 5\<rparr>"

lemma toy_mime: "DetectMIMEType (\<lambda>_. ''text/plain'') ''hello'' ''a.md'' = ''text/markdown''"
  "DetectMIMEType (\<lambda>_. ''text/plain'') ''hello'' '''' = ''text/plain''" "DefaultFilename ''text/plain'' = ''untitled.txt''"
  by code_simp+

lemma take_all_bytes: "length c \<le> n \<Longrightarrow> take (n + 1) c = c"
  by simp

lemma toy_upload_rows: "fd_rows (att_exec toy_sha (\<lambda>_. ''text/plain'') toy_upload att_empty) = [toy_row]"
proof -
  have "take (MaxFileSize + 1) ''hello'' = ''hello''" by (rule take_all_bytes) (simp add: MaxFileSize_def)
  moreover have "\<not> MaxFileSize < 5" by (simp add: MaxFileSize_def)
  ultimately show ?thesis
    by (simp add: toy_upload_def Upload_def Let_def toy_mime cas_Write_def shardPath_def toy_sha_def att_empty_def InsertMetadata_def toy_row_def)
qed

theorem attachment_integrity_witness:
  "\<exists>c meta. Download (\<lambda>_. False) (fa_Hash toy_row) (fold (att_exec toy_sha (\<lambda>_. ''text/plain'')) [toy_upload] att_empty) = Inr (c, meta) \<and>
    toy_sha c = fa_Hash toy_row \<and> fa_Hash meta = fa_Hash toy_row \<and>
    meta \<in> set (fd_rows (fold (att_exec toy_sha (\<lambda>_. ''text/plain'')) [toy_upload] att_empty))"
  by (rule attachment_integrity) (auto simp: toy_upload_rows, simp add: toy_upload_def)

text \<open>
  What was uploaded is what is downloaded: after a successful upload into any reachable table,
  and any further uploads and links, the hash that was returned gives back exactly the bytes that
  were sent, provided no other content has the same hash; files that are empty or too large are
  never accepted.
\<close>

theorem upload_download:
  assumes "\<forall>op \<in> set ops. rows_deletable op" and "\<forall>op \<in> set later. keeps_files op"
    and "Upload sha sniff flt now ids req (fold (att_exec sha sniff) ops att_empty) = (Inr (h, n, m, f), db)"
    and "\<forall>c. sha c = sha (ur_Content req) \<longrightarrow> c = ur_Content req"
  shows "\<exists>meta. Download (\<lambda>_. False) h (fold (att_exec sha sniff) later db) = Inr (ur_Content req, meta) \<and>
    fa_Hash meta = h \<and> 0 < n \<and> n = length (ur_Content req) \<and> n \<le> MaxFileSize"
proof -
  let ?db = "fold (att_exec sha sniff) later db"
  have inv: "att_inv sha (fold (att_exec sha sniff) ops att_empty)"
    using att.run_inv [OF att_empty_inv] att_exec_ok_run [OF assms(1)] by metis
  from Upload_inv [OF this, of sniff flt now ids req] assms(3) have "att_inv sha db" by simp
  then have fs: "files_ok sha (fd_files db)" by (simp add: att_inv_def)
  have "files_ok sha (fd_files (fold (att_exec sha sniff) ops att_empty))" using inv by (simp add: att_inv_def)
  from Upload_result [OF assms(3) this] obtain a where h: "h = sha (ur_Content req)" "stored (fd_files db) h \<noteq> None"
    and n: "n = length (ur_Content req)" "0 < n" "n \<le> MaxFileSize" and a: "a \<in> set (fd_rows db)" "fa_Hash a = h" by auto
  from keeps_files_run [OF fs assms(2)] h(2) a(1)
  have k: "files_ok sha (fd_files ?db)" "stored (fd_files ?db) h \<noteq> None" "a \<in> set (fd_rows ?db)" by blast+
  from k(2) obtain c where c: "stored (fd_files ?db) h = Some c" by auto
  with k(1) h(1) assms(4) have "c = ur_Content req" by (simp add: files_ok_def)
  with Download_found [OF c k(3) a(2)] n show ?thesis by auto
qed

theorem upload_download_witness:
  "\<exists>db meta. Upload toy_sha (\<lambda>_. ''text/plain'') (\<lambda>_. False) 5 [1] \<lparr>ur_Content = ''hello'', ur_Filename = '''', ur_MIMEType = '''',
      ur_MessageID = Some 1, ur_UploadedBy = ''bob''\<rparr> att_empty = (Inr (''abcdhello'', 5, ''text/plain'', ''untitled.txt''), db) \<and>
    Download (\<lambda>_. False) ''abcdhello'' (fold (att_exec toy_sha (\<lambda>_. ''text/plain'')) [toy_upload] db) = Inr (''hello'', meta)"
proof -
  define req where "req = \<lparr>ur_Content = ''hello'', ur_Filename = '''', ur_MIMEType = '''', ur_MessageID = Some 1, ur_UploadedBy = ''bob''\<rparr>"
  have "take (MaxFileSize + 1) ''hello'' = ''hello''" by (rule take_all_bytes) (simp add: MaxFileSize_def)
  moreover have "\<not> MaxFileSize < 5" by (simp add: MaxFileSize_def)
  ultimately have "fst (Upload toy_sha (\<lambda>_. ''text/plain'') (\<lambda>_. False) 5 [1] req att_empty) = Inr (''abcdhello'', 5, ''text/plain'', ''untitled.txt'')"
    by (simp add: req_def Upload_def Let_def toy_mime cas_Write_def shardPath_def toy_sha_def att_empty_def InsertMetadata_def)
  then obtain db where up: "Upload toy_sha (\<lambda>_. ''text/plain'') (\<lambda>_. False) 5 [1] req (fold (att_exec toy_sha (\<lambda>_. ''text/plain'')) [] att_empty)
      = (Inr (''abcdhello'', 5, ''text/plain'', ''untitled.txt''), db)"
    by (metis fold_simps(1) prod.collapse)
  have "\<forall>c. toy_sha c = toy_sha (ur_Content req) \<longrightarrow> c = ur_Content req" by (simp add: toy_sha_def)
  from upload_download [OF _ _ up this, of "[toy_upload]"] up show ?thesis
    unfolding req_def by (auto simp: toy_upload_def)
qed

text \<open>
  A clean-up without failures removes exactly the hashes that some row without a message has:
  all rows of such a hash go, those of messages included, and its file with them; every other row
  and every other file stays.
\<close>

theorem gc_exact:
  assumes "\<forall>a \<in> set (fd_rows db). 4 \<le> length (fa_Hash a)"
  shows "fd_rows (snd (GarbageCollect (\<lambda>_. False) ids db)) =
      filter (\<lambda>a. \<not> (\<exists>b \<in> set (fd_rows db). fa_Hash b = fa_Hash a \<and> \<not> linked ids b)) (fd_rows db) \<and>
    stored (fd_files (snd (GarbageCollect (\<lambda>_. False) ids db))) h =
      (if \<exists>b \<in> set (fd_rows db). fa_Hash b = h \<and> \<not> linked ids b then None else stored (fd_files db) h)"
proof -
  define hs where "hs = dedup (map fa_Hash (filter (\<lambda>a. \<not> linked ids a) (fd_rows db)))"
  have set: "h \<in> set hs \<longleftrightarrow> (\<exists>b \<in> set (fd_rows db). fa_Hash b = h \<and> \<not> linked ids b)" for h
    by (auto simp: hs_def)
  have len: "\<forall>h \<in> set hs. 4 \<le> length h" using assms set by auto
  from collect_exact [OF len, of 0 0 db] obtain r fs where
    c: "collect (\<lambda>_. False) hs ((0, 0), db) = (r, db\<lparr>fd_rows := filter (\<lambda>a. fa_Hash a \<notin> set hs) (fd_rows db), fd_files := fs\<rparr>)"
    and fs: "stored fs h = (if h \<in> set hs then None else stored (fd_files db) h)" for h
    by fastforce
  have "GarbageCollect (\<lambda>_. False) ids db = (Inr r, db\<lparr>fd_rows := filter (\<lambda>a. fa_Hash a \<notin> set hs) (fd_rows db), fd_files := fs\<rparr>)"
    using c by (simp add: GarbageCollect_def FindOrphanHashes_unlinked hs_def)
  with fs set show ?thesis by simp
qed

text \<open>
  An upload without a message that is then linked: both rows have the hash, and the next clean-up
  takes the linked attachment away.
\<close>

theorem gc_exact_witness:
  "fd_rows (snd (GarbageCollect (\<lambda>_. False) [1] (att_empty\<lparr>fd_rows := [toy_row, toy_row\<lparr>fa_ID := 2, fa_MessageID := Some 1\<rparr>]\<rparr>))) = []"
  using gc_exact [of "att_empty\<lparr>fd_rows := [toy_row, toy_row\<lparr>fa_ID := 2, fa_MessageID := Some 1\<rparr>]\<rparr>" "[1]"]
  by (simp add: toy_row_def linked_def)

end
