(* ===== verification/Embeddings.thy ===== *)
theory Embeddings
  imports Complex_Main Stalemate
begin

text \<open>
  The embedding queue and its workers (\<open>internal/search/store.go\<close>, \<open>pipeline.go\<close>, \<open>config.go\<close>) and
  the guarded vector index (\<open>index.go\<close>).

  \<^item> \<open>emb_db\<close> holds the tables \<open>embeddings\<close> and \<open>embedding_queue\<close>, the vector index and what each
    worker has taken from the queue and not stored yet: other sessions run between the two.
  \<^item> The index (\<open>github.com/TFMV/hnsw\<close>) and the provider of the vectors are parameters.
  \<^item> Both tables refer to \<open>messages\<close>; \<open>INSERT OR IGNORE\<close> passes over a duplicate, not over a
    missing message.
\<close>

section \<open>Data\<close>

record EmbeddingRecord =
  er_MessageID :: id64
  er_Provider :: string
  er_Model :: string
  er_Dimensions :: int
  er_EmbeddedAt :: timestamp

datatype queue_status = QPending | QProcessing | QCompleted | QFailed

record QueueItem =
  qi_ID :: id64
  qi_MessageID :: id64
  qi_Status :: queue_status
  qi_Attempts :: int
  qi_LastError :: string
  qi_CreatedAt :: timestamp
  qi_CompletedAt :: "timestamp option"

record EmbConfig =
  ec_Provider :: string
  ec_APIKey :: string
  ec_OllamaURL :: string
  ec_BatchSize :: int
  ec_WorkerCount :: int
  ec_PollInterval :: duration
  ec_RetryMaxAttempts :: int
  ec_RetryBaseDelay :: duration

text \<open>The vector index: \<open>'v\<close> is a vector, \<open>'g\<close> the graph.\<close>

record ('g, 'v) hnsw =
  hn_New :: 'g
  hn_Add :: "id64 \<Rightarrow> 'v \<Rightarrow> 'g \<Rightarrow> string + 'g"
  hn_Search :: "'g \<Rightarrow> 'v \<Rightarrow> int \<Rightarrow> string + (id64 \<times> 'v) list"
  hn_Delete :: "id64 \<Rightarrow> 'g \<Rightarrow> bool \<times> 'g"
  hn_Len :: "'g \<Rightarrow> nat"
  hn_Distance :: "'v \<Rightarrow> 'v \<Rightarrow> rat"

record 'g emb_db =
  eb_rows :: "EmbeddingRecord list"
  eb_queue :: "QueueItem list"
  eb_seq :: id64
  eb_index :: 'g
  eb_work :: "nat \<Rightarrow> (QueueItem \<times> string) list"

datatype emb_stmt =
    EsSave id64 | EsEnqueue id64 | EsEnqueueAll | EsBegin | EsPending | EsMark id64 | EsCommit | EsBody id64
  | EsComplete id64 | EsFail id64 | EsRequeue | EsStale | EsDelete | EsDeleteAll | EsClear | EsProvider | EsCounts

datatype 'v embed_result = EmbedFailed string | Vectors "'v option list"

section \<open>Configuration\<close>

definition positive_env :: "(string \<Rightarrow> string) \<Rightarrow> string \<Rightarrow> int \<Rightarrow> int" where
  "positive_env getenv key dflt =
     (if getenv key = '''' then dflt
      else case Atoi (getenv key) of None \<Rightarrow> dflt | Some n \<Rightarrow> if 0 < n then n else dflt)"

definition getAPIKey :: "(string \<Rightarrow> string) \<Rightarrow> string" where
  "getAPIKey getenv =
     (if getenv ''OPENAI_API_KEY'' \<noteq> '''' then getenv ''OPENAI_API_KEY'' else getenv ''SYNAPBUS_EMBEDDING_API_KEY'')"

definition Second :: duration where
  "Second = 1000000000"

definition LoadConfigFromEnv :: "(string \<Rightarrow> string) \<Rightarrow> EmbConfig" where
  "LoadConfigFromEnv getenv =
     \<lparr>ec_Provider = getenv ''SYNAPBUS_EMBEDDING_PROVIDER'', ec_APIKey = getAPIKey getenv,
      ec_OllamaURL = (if getenv ''SYNAPBUS_OLLAMA_URL'' = '''' then ''http://localhost:11434'' else getenv ''SYNAPBUS_OLLAMA_URL''),
      ec_BatchSize = positive_env getenv ''SYNAPBUS_EMBEDDING_BATCH_SIZE'' 10,
      ec_WorkerCount = positive_env getenv ''SYNAPBUS_EMBEDDING_WORKERS'' 1,
      ec_PollInterval = 2 * Second, ec_RetryMaxAttempts = 3, ec_RetryBaseDelay = Second\<rparr>"

definition emb_IsEnabled :: "EmbConfig \<Rightarrow> bool" where
  "emb_IsEnabled cfg \<longleftrightarrow> ec_Provider cfg \<noteq> ''''"

definition worker_count :: "EmbConfig \<Rightarrow> int" where
  "worker_count cfg = (if ec_WorkerCount cfg \<le> 0 then 1 else ec_WorkerCount cfg)"

definition poll_interval :: "EmbConfig \<Rightarrow> duration" where
  "poll_interval cfg = (if ec_PollInterval cfg \<le>s 0 then 2 * Second else ec_PollInterval cfg)"

definition batch_size :: "EmbConfig \<Rightarrow> int" where
  "batch_size cfg = (if ec_BatchSize cfg \<le> 0 then 10 else ec_BatchSize cfg)"

section \<open>The tables\<close>

definition message_ids :: "msg_db \<Rightarrow> id64 set" where
  "message_ids mdb = msg_ID ` set (md_msgs mdb)"

definition SaveEmbedding ::
  "bool \<Rightarrow> timestamp \<Rightarrow> msg_db \<Rightarrow> id64 \<Rightarrow> string \<Rightarrow> string \<Rightarrow> int \<Rightarrow> 'g emb_db \<Rightarrow> bool \<times> 'g emb_db" where
  "SaveEmbedding failed now mdb i provider model dims db =
     (if failed \<or> i \<notin> message_ids mdb then (False, db)
      else (True, db\<lparr>eb_rows := delete_where (\<lambda>e. er_MessageID e = i) (eb_rows db) @
             [\<lparr>er_MessageID = i, er_Provider = provider, er_Model = model, er_Dimensions = dims, er_EmbeddedAt = now\<rparr>]\<rparr>))"

definition DeleteEmbedding :: "bool \<Rightarrow> id64 \<Rightarrow> 'g emb_db \<Rightarrow> bool \<times> 'g emb_db" where
  "DeleteEmbedding failed i db =
     (if failed then (False, db) else (True, db\<lparr>eb_rows := delete_where (\<lambda>e. er_MessageID e = i) (eb_rows db)\<rparr>))"

definition DeleteAllEmbeddings :: "bool \<Rightarrow> 'g emb_db \<Rightarrow> bool \<times> 'g emb_db" where
  "DeleteAllEmbeddings failed db = (if failed then (False, db) else (True, db\<lparr>eb_rows := []\<rparr>))"

definition newest_embedding :: "'g emb_db \<Rightarrow> EmbeddingRecord option" where
  "newest_embedding db = find_row (\<lambda>_. True) (sort_key (\<lambda>e. - er_EmbeddedAt e) (eb_rows db))"

definition GetEmbeddingProvider :: "bool \<Rightarrow> 'g emb_db \<Rightarrow> string option" where
  "GetEmbeddingProvider failed db =
     (if failed then None else case newest_embedding db of None \<Rightarrow> Some '''' | Some e \<Rightarrow> Some (er_Provider e))"

definition queue_row :: "timestamp \<Rightarrow> id64 \<Rightarrow> id64 \<Rightarrow> QueueItem" where
  "queue_row now i mid = \<lparr>qi_ID = i, qi_MessageID = mid, qi_Status = QPending, qi_Attempts = 0, qi_LastError = '''',
     qi_CreatedAt = now, qi_CompletedAt = None\<rparr>"

definition queued :: "id64 \<Rightarrow> 'g emb_db \<Rightarrow> bool" where
  "queued mid db \<longleftrightarrow> mid \<in> qi_MessageID ` set (eb_queue db)"

definition enqueue_row :: "timestamp \<Rightarrow> id64 \<Rightarrow> 'g emb_db \<Rightarrow> 'g emb_db" where
  "enqueue_row now mid db =
     (if queued mid db then db
      else db\<lparr>eb_queue := eb_queue db @ [queue_row now (eb_seq db + 1) mid], eb_seq := eb_seq db + 1\<rparr>)"

definition Enqueue :: "bool \<Rightarrow> timestamp \<Rightarrow> msg_db \<Rightarrow> id64 \<Rightarrow> 'g emb_db \<Rightarrow> bool \<times> 'g emb_db" where
  "Enqueue failed now mdb mid db =
     (if failed \<or> (\<not> queued mid db \<and> mid \<notin> message_ids mdb) then (False, db) else (True, enqueue_row now mid db))"

fun mark_processing :: "(emb_stmt \<Rightarrow> bool) \<Rightarrow> id64 list \<Rightarrow> 'g emb_db \<Rightarrow> 'g emb_db option" where
  "mark_processing flt [] db = Some db"
| "mark_processing flt (i # is) db =
     (if flt (EsMark i) then None
      else mark_processing flt is (db\<lparr>eb_queue := update_where (\<lambda>q. qi_ID q = i)
             (\<lambda>q. q\<lparr>qi_Status := QProcessing, qi_Attempts := qi_Attempts q + 1\<rparr>) (eb_queue db)\<rparr>))"

text \<open>The transaction takes nothing when a statement of it fails.\<close>

definition Dequeue :: "(emb_stmt \<Rightarrow> bool) \<Rightarrow> int \<Rightarrow> 'g emb_db \<Rightarrow> QueueItem list option \<times> 'g emb_db" where
  "Dequeue flt n db =
     (let items = limit_offset n 0 (sort_key qi_CreatedAt (filter (\<lambda>q. qi_Status q = QPending) (eb_queue db)))
      in if flt EsBegin \<or> flt EsPending then (None, db)
         else if items = [] then (Some [], db)
         else case mark_processing flt (map qi_ID items) db of
                None \<Rightarrow> (None, db)
              | Some db' \<Rightarrow> if flt EsCommit then (None, db)
                            else (Some (map (\<lambda>q. q\<lparr>qi_Status := QProcessing\<rparr>) items), db'))"

definition MarkCompleted :: "bool \<Rightarrow> timestamp \<Rightarrow> id64 \<Rightarrow> 'g emb_db \<Rightarrow> 'g emb_db" where
  "MarkCompleted failed now mid db =
     (if failed then db
      else db\<lparr>eb_queue := update_where (\<lambda>q. qi_MessageID q = mid)
             (\<lambda>q. q\<lparr>qi_Status := QCompleted, qi_CompletedAt := Some now\<rparr>) (eb_queue db)\<rparr>)"

definition emb_MarkFailed :: "bool \<Rightarrow> string \<Rightarrow> id64 \<Rightarrow> 'g emb_db \<Rightarrow> 'g emb_db" where
  "emb_MarkFailed failed msg mid db =
     (if failed then db
      else db\<lparr>eb_queue := update_where (\<lambda>q. qi_MessageID q = mid) (\<lambda>q. q\<lparr>qi_Status := QFailed, qi_LastError := msg\<rparr>) (eb_queue db)\<rparr>)"

definition RequeueFailed :: "bool \<Rightarrow> int \<Rightarrow> 'g emb_db \<Rightarrow> nat option \<times> 'g emb_db" where
  "RequeueFailed failed maxAttempts db =
     (let P = (\<lambda>q. qi_Status q = QFailed \<and> qi_Attempts q < maxAttempts)
      in if failed then (None, db)
         else (Some (rows_affected P (eb_queue db)), db\<lparr>eb_queue := update_where P (\<lambda>q. q\<lparr>qi_Status := QPending\<rparr>) (eb_queue db)\<rparr>))"

text \<open>\<open>now_ns\<close> is in nanoseconds, the times of the table in seconds.\<close>

definition ResetStale :: "bool \<Rightarrow> int \<Rightarrow> duration \<Rightarrow> 'g emb_db \<Rightarrow> nat option \<times> 'g emb_db" where
  "ResetStale failed now_ns olderThan db =
     (let P = (\<lambda>q. qi_Status q = QProcessing \<and> qi_CreatedAt q * second < now_ns + sint (- olderThan))
      in if failed then (None, db)
         else (Some (rows_affected P (eb_queue db)), db\<lparr>eb_queue := update_where P (\<lambda>q. q\<lparr>qi_Status := QPending\<rparr>) (eb_queue db)\<rparr>))"

definition emb_PendingCount :: "'g emb_db \<Rightarrow> nat" where
  "emb_PendingCount db = rows_affected (\<lambda>q. qi_Status q = QPending \<or> qi_Status q = QProcessing) (eb_queue db)"

definition FailedCount :: "'g emb_db \<Rightarrow> nat" where
  "FailedCount db = rows_affected (\<lambda>q. qi_Status q = QFailed) (eb_queue db)"

text \<open>SQLite's \<open>TRIM\<close> takes blanks only.\<close>

definition to_enqueue :: "msg_db \<Rightarrow> 'g emb_db \<Rightarrow> id64 list" where
  "to_enqueue mdb db = map msg_ID (filter (\<lambda>m. msg_ID m \<notin> er_MessageID ` set (eb_rows db) \<and> \<not> queued (msg_ID m) db \<and>
     (\<exists>c \<in> set (msg_Body m). c \<noteq> CHR '' '')) (md_msgs mdb))"

definition EnqueueAllMessages :: "bool \<Rightarrow> timestamp \<Rightarrow> msg_db \<Rightarrow> 'g emb_db \<Rightarrow> nat option \<times> 'g emb_db" where
  "EnqueueAllMessages failed now mdb db =
     (if failed then (None, db)
      else (Some (length (to_enqueue mdb db)), fold (enqueue_row now) (to_enqueue mdb db) db))"

definition GetMessageBody :: "bool \<Rightarrow> msg_db \<Rightarrow> id64 \<Rightarrow> string option" where
  "GetMessageBody failed mdb i = (if failed then None else map_option msg_Body (get_message mdb i))"

definition ClearQueue :: "bool \<Rightarrow> 'g emb_db \<Rightarrow> bool \<times> 'g emb_db" where
  "ClearQueue failed db = (if failed then (False, db) else (True, db\<lparr>eb_queue := []\<rparr>))"

record EmbeddingStats =
  et_Provider :: string
  et_TotalEmbedded :: nat
  et_PendingCount :: nat
  et_FailedCount :: nat
  et_Dimensions :: int

definition emb_Stats :: "(emb_stmt \<Rightarrow> bool) \<Rightarrow> 'g emb_db \<Rightarrow> EmbeddingStats option" where
  "emb_Stats flt db =
     (if flt EsProvider then None
      else Some \<lparr>et_Provider = (case newest_embedding db of None \<Rightarrow> '''' | Some e \<Rightarrow> er_Provider e),
        et_TotalEmbedded = (if flt EsCounts then 0 else length (eb_rows db)),
        et_PendingCount = (if flt EsCounts then 0 else emb_PendingCount db),
        et_FailedCount = (if flt EsCounts then 0 else FailedCount db),
        et_Dimensions = (case newest_embedding db of None \<Rightarrow> 0 | Some e \<Rightarrow> er_Dimensions e)\<rparr>)"

section \<open>The index\<close>

definition AddVector :: "('g, 'v) hnsw \<Rightarrow> id64 \<Rightarrow> 'v \<Rightarrow> 'g emb_db \<Rightarrow> string option \<times> 'g emb_db" where
  "AddVector hn i v db =
     (case hn_Add hn i v (eb_index db) of
        Inl e \<Rightarrow> (Some (''add vector '' @ show_int i @ '': '' @ e), db)
      | Inr g \<Rightarrow> (None, db\<lparr>eb_index := g\<rparr>))"

definition index_Search :: "('g, 'v) hnsw \<Rightarrow> 'g \<Rightarrow> 'v \<Rightarrow> int \<Rightarrow> string + (id64 \<times> rat) list" where
  "index_Search hn g query k =
     (if hn_Len hn g = 0 then Inr []
      else case hn_Search hn g query k of
             Inl e \<Rightarrow> Inl (''search: '' @ e)
           | Inr nodes \<Rightarrow> Inr (map (\<lambda>(i, v). (i, hn_Distance hn query v)) nodes))"

definition index_Delete :: "('g, 'v) hnsw \<Rightarrow> id64 \<Rightarrow> 'g emb_db \<Rightarrow> bool \<times> 'g emb_db" where
  "index_Delete hn i db = (case hn_Delete hn i (eb_index db) of (b, g) \<Rightarrow> (b, db\<lparr>eb_index := g\<rparr>))"

text \<open>Every caller of \<open>Rebuild\<close> gives no vectors.\<close>

definition Rebuild :: "('g, 'v) hnsw \<Rightarrow> 'g emb_db \<Rightarrow> 'g emb_db" where
  "Rebuild hn db = db\<lparr>eb_index := hn_New hn\<rparr>"

section \<open>The pipeline\<close>

definition OnMessageCreated_emb :: "bool \<Rightarrow> timestamp \<Rightarrow> msg_db \<Rightarrow> id64 \<Rightarrow> string \<Rightarrow> 'g emb_db \<Rightarrow> 'g emb_db" where
  "OnMessageCreated_emb failed now mdb mid body db =
     (if trim_space body = '''' then db else snd (Enqueue failed now mdb mid db))"

definition OnMessageDeleted :: "('g, 'v) hnsw \<Rightarrow> bool \<Rightarrow> id64 \<Rightarrow> 'g emb_db \<Rightarrow> 'g emb_db" where
  "OnMessageDeleted hn failed mid db = snd (index_Delete hn mid (snd (DeleteEmbedding failed mid db)))"

text \<open>The bodies of a batch; messages that are gone or blank count as completed.\<close>

fun gather ::
  "(emb_stmt \<Rightarrow> bool) \<Rightarrow> timestamp \<Rightarrow> msg_db \<Rightarrow> QueueItem list \<Rightarrow> 'g emb_db \<Rightarrow> (QueueItem \<times> string) list \<times> 'g emb_db" where
  "gather flt now mdb [] db = ([], db)"
| "gather flt now mdb (q # qs) db =
     (let mid = qi_MessageID q; drop_it = gather flt now mdb qs (MarkCompleted (flt (EsComplete mid)) now mid db)
      in case GetMessageBody (flt (EsBody mid)) mdb mid of
           None \<Rightarrow> drop_it
         | Some body \<Rightarrow>
             if trim_space body = '''' then drop_it
             else (case gather flt now mdb qs db of (batch, db') \<Rightarrow> ((q, body) # batch, db')))"

text \<open>The first half of \<open>processBatch\<close>: a worker without a batch takes one.\<close>

definition take_batch :: "(emb_stmt \<Rightarrow> bool) \<Rightarrow> EmbConfig \<Rightarrow> timestamp \<Rightarrow> msg_db \<Rightarrow> nat \<Rightarrow> 'g emb_db \<Rightarrow> 'g emb_db" where
  "take_batch flt cfg now mdb k db =
     (if eb_work db k \<noteq> [] then db
      else case Dequeue flt (batch_size cfg) db of
             (None, db1) \<Rightarrow> db1
           | (Some items, db1) \<Rightarrow>
               (case gather flt now mdb items db1 of (batch, db2) \<Rightarrow> db2\<lparr>eb_work := (eb_work db2)(k := batch)\<rparr>))"

definition fail_batch :: "(emb_stmt \<Rightarrow> bool) \<Rightarrow> string \<Rightarrow> (QueueItem \<times> string) list \<Rightarrow> 'g emb_db \<Rightarrow> 'g emb_db" where
  "fail_batch flt msg batch db =
     fold (\<lambda>(q, _). emb_MarkFailed (flt (EsFail (qi_MessageID q))) msg (qi_MessageID q)) batch db"

definition store_vector ::
  "('g, 'v) hnsw \<Rightarrow> (emb_stmt \<Rightarrow> bool) \<Rightarrow> (id64 \<Rightarrow> string) \<Rightarrow> timestamp \<Rightarrow> msg_db \<Rightarrow> string \<Rightarrow> int \<Rightarrow>
   QueueItem \<Rightarrow> 'v option \<Rightarrow> 'g emb_db \<Rightarrow> 'g emb_db" where
  "store_vector hn flt db_error now mdb name dims q vec db =
     (let mid = qi_MessageID q; failed = (\<lambda>msg. emb_MarkFailed (flt (EsFail mid)) msg mid)
      in case vec of
           None \<Rightarrow> failed ''empty embedding returned'' db
         | Some v \<Rightarrow>
             (case AddVector hn mid v db of
                (Some e, db1) \<Rightarrow> failed e db1
              | (None, db1) \<Rightarrow>
                  (case SaveEmbedding (flt (EsSave mid)) now mdb mid name name dims db1 of
                     (False, db2) \<Rightarrow> failed (''save embedding: '' @ db_error mid) db2
                   | (True, db2) \<Rightarrow> MarkCompleted (flt (EsComplete mid)) now mid db2)))"

fun store_vectors ::
  "('g, 'v) hnsw \<Rightarrow> (emb_stmt \<Rightarrow> bool) \<Rightarrow> (id64 \<Rightarrow> string) \<Rightarrow> timestamp \<Rightarrow> msg_db \<Rightarrow> string \<Rightarrow> int \<Rightarrow>
   (QueueItem \<times> string) list \<Rightarrow> 'v option list \<Rightarrow> 'g emb_db \<Rightarrow> 'g emb_db" where
  "store_vectors hn flt db_error now mdb name dims [] vecs db = db"
| "store_vectors hn flt db_error now mdb name dims ((q, _) # batch) vecs db =
     store_vectors hn flt db_error now mdb name dims batch (tl vecs)
       (store_vector hn flt db_error now mdb name dims q (case vecs of [] \<Rightarrow> None | v # _ \<Rightarrow> v) db)"

text \<open>The second half: the provider's answer for the batch of a worker.\<close>

definition end_batch ::
  "('g, 'v) hnsw \<Rightarrow> (emb_stmt \<Rightarrow> bool) \<Rightarrow> (id64 \<Rightarrow> string) \<Rightarrow> EmbConfig \<Rightarrow> timestamp \<Rightarrow> msg_db \<Rightarrow> string \<Rightarrow> int \<Rightarrow>
   (string list \<Rightarrow> 'v embed_result) \<Rightarrow> nat \<Rightarrow> 'g emb_db \<Rightarrow> 'g emb_db" where
  "end_batch hn flt db_error cfg now mdb name dims EmbedBatch k db =
     (let batch = eb_work db k; db0 = db\<lparr>eb_work := (eb_work db)(k := [])\<rparr>
      in if batch = [] then db
         else case EmbedBatch (map snd batch) of
                EmbedFailed e \<Rightarrow> snd (RequeueFailed (flt EsRequeue) (ec_RetryMaxAttempts cfg) (fail_batch flt e batch db0))
              | Vectors vecs \<Rightarrow> store_vectors hn flt db_error now mdb name dims batch vecs db0)"

text \<open>What \<open>main.go\<close> does with the tables when it starts the pipeline.\<close>

definition start_embeddings :: "('g, 'v) hnsw \<Rightarrow> (emb_stmt \<Rightarrow> bool) \<Rightarrow> timestamp \<Rightarrow> msg_db \<Rightarrow> string \<Rightarrow> 'g emb_db \<Rightarrow> 'g emb_db" where
  "start_embeddings hn flt now mdb name db =
     (let existing = (case GetEmbeddingProvider (flt EsProvider) db of None \<Rightarrow> '''' | Some p \<Rightarrow> p);
          db1 = (if existing \<noteq> '''' \<and> existing \<noteq> name
                 then Rebuild hn (snd (ClearQueue (flt EsClear) (snd (DeleteAllEmbeddings (flt EsDeleteAll) db)))) else db)
      in snd (EnqueueAllMessages (flt EsEnqueueAll) now mdb db1))"

definition handleEmbeddingsClear :: "('g, 'v) hnsw option \<Rightarrow> (emb_stmt \<Rightarrow> bool) \<Rightarrow> 'g emb_db \<Rightarrow> bool \<times> 'g emb_db" where
  "handleEmbeddingsClear index flt db =
     (case DeleteAllEmbeddings (flt EsDeleteAll) db of
        (False, db1) \<Rightarrow> (False, db1)
      | (True, db1) \<Rightarrow>
          (case ClearQueue (flt EsClear) db1 of
             (False, db2) \<Rightarrow> (False, db2)
           | (True, db2) \<Rightarrow> (True, case index of None \<Rightarrow> db2 | Some hn \<Rightarrow> Rebuild hn db2)))"

definition handleEmbeddingsReindex ::
  "('g, 'v) hnsw option \<Rightarrow> (emb_stmt \<Rightarrow> bool) \<Rightarrow> timestamp \<Rightarrow> msg_db \<Rightarrow> 'g emb_db \<Rightarrow> nat option \<times> 'g emb_db" where
  "handleEmbeddingsReindex index flt now mdb db =
     (case handleEmbeddingsClear index flt db of
        (False, db1) \<Rightarrow> (None, db1)
      | (True, db1) \<Rightarrow> EnqueueAllMessages (flt EsEnqueueAll) now mdb db1)"

section \<open>Rows and workers\<close>

datatype 'v emb_op =
    EmCreated bool timestamp msg_db id64 string
  | EmAll bool timestamp msg_db
  | EmTake "emb_stmt \<Rightarrow> bool" timestamp msg_db nat
  | EmEnd "emb_stmt \<Rightarrow> bool" "id64 \<Rightarrow> string" timestamp msg_db string int "string list \<Rightarrow> 'v embed_result" nat
  | EmForget "id64 set"

text \<open>
  What a deletion of messages does to the two tables (\<open>ON DELETE CASCADE\<close>); the index and the
  workers keep what they have.
\<close>

definition forget_embeddings :: "id64 set \<Rightarrow> 'g emb_db \<Rightarrow> 'g emb_db" where
  "forget_embeddings ids db = db\<lparr>eb_rows := delete_where (\<lambda>e. er_MessageID e \<in> ids) (eb_rows db),
     eb_queue := delete_where (\<lambda>q. qi_MessageID q \<in> ids) (eb_queue db)\<rparr>"

text \<open>
  The system with the messages deleted so far: an operation that sees a deleted message again
  does not happen, since \<open>AUTOINCREMENT\<close> never gives an id twice.
\<close>

fun emb_exec :: "('g, 'v) hnsw \<Rightarrow> EmbConfig \<Rightarrow> 'v emb_op \<Rightarrow> id64 set \<times> 'g emb_db \<Rightarrow> id64 set \<times> 'g emb_db" where
  "emb_exec hn cfg (EmCreated failed now mdb mid body) (gone, db) =
     (gone, if message_ids mdb \<inter> gone = {} then OnMessageCreated_emb failed now mdb mid body db else db)"
| "emb_exec hn cfg (EmAll failed now mdb) (gone, db) =
     (gone, if message_ids mdb \<inter> gone = {} then snd (EnqueueAllMessages failed now mdb db) else db)"
| "emb_exec hn cfg (EmTake flt now mdb k) (gone, db) = (gone, take_batch flt cfg now mdb k db)"
| "emb_exec hn cfg (EmEnd flt db_error now mdb name dims EmbedBatch k) (gone, db) =
     (gone, end_batch hn flt db_error cfg now mdb name dims EmbedBatch k db)"
| "emb_exec hn cfg (EmForget ids) (gone, db) = (gone \<union> ids, forget_embeddings ids db)"

definition held :: "'g emb_db \<Rightarrow> nat \<Rightarrow> id64 list" where
  "held db k = map (qi_MessageID \<circ> fst) (eb_work db k)"

definition processing :: "'g emb_db \<Rightarrow> id64 \<Rightarrow> bool" where
  "processing db mid \<longleftrightarrow> (\<exists>q \<in> set (eb_queue db). qi_MessageID q = mid \<and> qi_Status q = QProcessing)"

definition attempts_ok :: "int \<Rightarrow> QueueItem \<Rightarrow> bool" where
  "attempts_ok n q \<longleftrightarrow> 0 \<le> qi_Attempts q \<and> qi_Attempts q \<le> n \<and> (qi_Status q = QPending \<longrightarrow> qi_Attempts q < n)"

definition queue_ok :: "int \<Rightarrow> id64 set \<Rightarrow> 'g emb_db \<Rightarrow> bool" where
  "queue_ok n gone db \<longleftrightarrow> ids_ok qi_ID (eb_seq db) (eb_queue db) \<and> distinct (map qi_MessageID (eb_queue db)) \<and>
     (\<forall>q \<in> set (eb_queue db). attempts_ok n q \<and> qi_MessageID q \<notin> gone)"

definition work_ok :: "id64 set \<Rightarrow> 'g emb_db \<Rightarrow> bool" where
  "work_ok gone db \<longleftrightarrow> (\<forall>k. distinct (held db k) \<and> (\<forall>mid \<in> set (held db k). processing db mid \<or> mid \<in> gone)) \<and>
     (\<forall>k l. k \<noteq> l \<longrightarrow> set (held db k) \<inter> set (held db l) = {})"

definition max_attempts :: "EmbConfig \<Rightarrow> int" where
  "max_attempts cfg = max 1 (ec_RetryMaxAttempts cfg)"

definition emb_inv :: "EmbConfig \<Rightarrow> id64 set \<times> 'g emb_db \<Rightarrow> bool" where
  "emb_inv cfg s \<longleftrightarrow> queue_ok (max_attempts cfg) (fst s) (snd s) \<and> work_ok (fst s) (snd s)"

definition emb_empty :: "'g \<Rightarrow> 'g emb_db" where
  "emb_empty g = \<lparr>eb_rows = [], eb_queue = [], eb_seq = 0, eb_index = g, eb_work = (\<lambda>_. [])\<rparr>"

lemma max_attempts_pos [simp]: "0 < max_attempts cfg"
  by (simp add: max_attempts_def)

lemma work_ok_same:
  "work_ok gone db \<Longrightarrow> eb_work db' = eb_work db \<Longrightarrow>
     (\<And>mid. processing db mid \<Longrightarrow> (\<exists>k. mid \<in> set (held db k)) \<Longrightarrow> processing db' mid \<or> mid \<in> gone) \<Longrightarrow> work_ok gone db'"
  by (auto simp: work_ok_def held_def)

lemma queue_ok_update:
  assumes "queue_ok n gone db"
    and "\<And>q. qi_ID (f q) = qi_ID q" "\<And>q. qi_MessageID (f q) = qi_MessageID q"
    and "\<And>q. q \<in> set (eb_queue db) \<Longrightarrow> P q \<Longrightarrow> attempts_ok n (f q)"
  shows "queue_ok n gone (db\<lparr>eb_queue := update_where P f (eb_queue db)\<rparr>)"
proof -
  have "attempts_ok n q' \<and> qi_MessageID q' \<notin> gone" if q': "q' \<in> set (update_where P f (eb_queue db))" for q'
  proof -
    from q' obtain q where q: "q \<in> set (eb_queue db)" "q' = (if P q then f q else q)" by (auto simp: in_update_where)
    with assms(1) have "attempts_ok n q" "qi_MessageID q \<notin> gone" by (auto simp: queue_ok_def)
    with q assms(3,4) show ?thesis by (cases "P q") simp_all
  qed
  then show ?thesis using assms(1-3) by (simp add: queue_ok_def ids_ok_update_where map_update_where)
qed

lemma processing_update:
  assumes "processing db mid" "\<And>q. qi_MessageID (f q) = qi_MessageID q"
    "\<And>q. q \<in> set (eb_queue db) \<Longrightarrow> P q \<Longrightarrow> qi_MessageID q = mid \<Longrightarrow> qi_Status q = QProcessing \<Longrightarrow> qi_Status (f q) = QProcessing"
  shows "processing (db\<lparr>eb_queue := update_where P f (eb_queue db)\<rparr>) mid"
proof -
  from assms(1) obtain q where q: "q \<in> set (eb_queue db)" "qi_MessageID q = mid" "qi_Status q = QProcessing"
    by (auto simp: processing_def)
  have "(if P q then f q else q) \<in> set (update_where P f (eb_queue db))" by (rule updated_row [OF q(1)])
  moreover have "qi_MessageID (if P q then f q else q) = mid \<and> qi_Status (if P q then f q else q) = QProcessing"
    using assms(2,3) q by auto
  ultimately show ?thesis by (auto simp: processing_def)
qed

subsection \<open>Queueing\<close>

lemma enqueue_row_ok:
  assumes "queue_ok n gone db" "work_ok gone db" "0 < n" "mid \<notin> gone"
  shows "queue_ok n gone (enqueue_row now mid db) \<and> work_ok gone (enqueue_row now mid db)"
proof (cases "queued mid db")
  case False
  have "ids_ok qi_ID (eb_seq db + 1) (eb_queue db @ [queue_row now (eb_seq db + 1) mid])"
    using assms(1) by (intro ids_ok_append) (auto simp: queue_ok_def queue_row_def)
  then have "queue_ok n gone (enqueue_row now mid db)"
    using assms False by (auto simp: queue_ok_def enqueue_row_def queued_def queue_row_def attempts_ok_def)
  moreover have "work_ok gone (enqueue_row now mid db)"
    using assms(2) by (rule work_ok_same) (auto simp: enqueue_row_def processing_def)
  ultimately show ?thesis ..
qed (use assms in \<open>simp add: enqueue_row_def\<close>)

lemma enqueue_rows_ok:
  "queue_ok n gone db \<Longrightarrow> work_ok gone db \<Longrightarrow> 0 < n \<Longrightarrow> set ms \<inter> gone = {} \<Longrightarrow>
     queue_ok n gone (fold (enqueue_row now) ms db) \<and> work_ok gone (fold (enqueue_row now) ms db)"
  by (induction ms arbitrary: db) (simp_all add: enqueue_row_ok)

subsection \<open>Marking\<close>

lemma mark_queue_ok:
  assumes "queue_ok n gone db"
  shows "queue_ok n gone (MarkCompleted f now mid db)" "queue_ok n gone (emb_MarkFailed f msg mid db)"
    "queue_ok (max_attempts cfg) gone db \<Longrightarrow> queue_ok (max_attempts cfg) gone (snd (RequeueFailed f (ec_RetryMaxAttempts cfg) db))"
proof -
  have "attempts_ok n q" if "q \<in> set (eb_queue db)" for q using assms that by (simp add: queue_ok_def)
  then show "queue_ok n gone (MarkCompleted f now mid db)" "queue_ok n gone (emb_MarkFailed f msg mid db)"
    using assms by (auto simp: MarkCompleted_def emb_MarkFailed_def attempts_ok_def intro!: queue_ok_update)
  show "queue_ok (max_attempts cfg) gone (snd (RequeueFailed f (ec_RetryMaxAttempts cfg) db))"
    if "queue_ok (max_attempts cfg) gone db"
    using that by (auto simp: RequeueFailed_def Let_def intro!: queue_ok_update) (auto simp: queue_ok_def attempts_ok_def max_attempts_def)
qed

lemma mark_work [simp]:
  "eb_work (MarkCompleted f now mid db) = eb_work db" "eb_work (emb_MarkFailed f msg mid db) = eb_work db"
  "eb_work (snd (RequeueFailed f n db)) = eb_work db"
  by (simp_all add: MarkCompleted_def emb_MarkFailed_def RequeueFailed_def Let_def)

lemma mark_processing_other:
  "processing db mid \<Longrightarrow> mid \<noteq> mid' \<Longrightarrow> processing (MarkCompleted f now mid' db) mid"
  "processing db mid \<Longrightarrow> mid \<noteq> mid' \<Longrightarrow> processing (emb_MarkFailed f msg mid' db) mid"
  "processing db mid \<Longrightarrow> processing (snd (RequeueFailed f n db)) mid"
  by (auto simp: MarkCompleted_def emb_MarkFailed_def RequeueFailed_def Let_def intro!: processing_update)

lemma mark_processing_eq:
  "mark_processing flt is db = Some db' \<Longrightarrow> distinct is \<Longrightarrow>
     db' = db\<lparr>eb_queue := update_where (\<lambda>q. qi_ID q \<in> set is)
       (\<lambda>q. q\<lparr>qi_Status := QProcessing, qi_Attempts := qi_Attempts q + 1\<rparr>) (eb_queue db)\<rparr>"
proof (induction "is" arbitrary: db)
  case Nil
  then show ?case by (simp add: update_where_none)
next
  case (Cons i "is")
  let ?f = "\<lambda>q. q\<lparr>qi_Status := QProcessing, qi_Attempts := qi_Attempts q + 1\<rparr>"
  have "update_where (\<lambda>q. qi_ID q \<in> set is) ?f (update_where (\<lambda>q. qi_ID q = i) ?f qs) = update_where (\<lambda>q. qi_ID q \<in> set (i # is)) ?f qs" for qs :: "QueueItem list"
    using Cons.prems(2) by (induction qs) auto
  note eq = this
  have "mark_processing flt is (db\<lparr>eb_queue := update_where (\<lambda>q. qi_ID q = i) ?f (eb_queue db)\<rparr>) = Some db'" "distinct is"
    using Cons.prems by (auto split: if_splits)
  from Cons.IH [OF this] eq [of "eb_queue db"] show ?case by simp
qed

lemma Dequeue_items:
  assumes "Dequeue flt n db = (Some items, db')" "queue_ok m gone db"
  shows "eb_work db' = eb_work db \<and> queue_ok m gone db' \<and> distinct (map qi_MessageID items) \<and>
    (\<forall>mid. processing db mid \<longrightarrow> processing db' mid \<and> mid \<notin> qi_MessageID ` set items) \<and>
    (\<forall>mid \<in> qi_MessageID ` set items. processing db' mid)"
proof -
  define pend where "pend = limit_offset n 0 (sort_key qi_CreatedAt (filter (\<lambda>q. qi_Status q = QPending) (eb_queue db)))"
  let ?f = "\<lambda>q. q\<lparr>qi_Status := QProcessing, qi_Attempts := qi_Attempts q + 1\<rparr>"
  have sub: "set pend \<subseteq> {q \<in> set (eb_queue db). qi_Status q = QPending}"
    using set_limit_offset [of n 0 "sort_key qi_CreatedAt (filter (\<lambda>q. qi_Status q = QPending) (eb_queue db))"] by (auto simp: pend_def)
  have dist: "distinct (map g pend)" if "distinct (map g (eb_queue db))" for g :: "QueueItem \<Rightarrow> id64"
  proof -
    have "distinct (map g (sort_key qi_CreatedAt (filter (\<lambda>q. qi_Status q = QPending) (eb_queue db))))"
      using that by (simp add: distinct_map inj_on_def)
    then show ?thesis by (simp add: pend_def limit_offset_def Let_def take_map [symmetric] drop_map [symmetric])
  qed
  have ids: "distinct (map qi_ID (eb_queue db))" "distinct (map qi_MessageID (eb_queue db))"
    using assms(2) by (simp_all add: queue_ok_def ids_ok_def)
  show ?thesis
  proof (cases "pend = []")
    case True
    with assms show ?thesis by (auto simp: Dequeue_def Let_def pend_def [symmetric] split: if_splits)
  next
    case False
    with assms(1) obtain db1 where mk: "mark_processing flt (map qi_ID pend) db = Some db1" "db' = db1"
      "items = map (\<lambda>q. q\<lparr>qi_Status := QProcessing\<rparr>) pend"
      by (auto simp: Dequeue_def Let_def pend_def [symmetric] split: if_splits option.splits)
    let ?P = "\<lambda>q. qi_ID q \<in> set (map qi_ID pend)"
    from mark_processing_eq [OF mk(1) dist [OF ids(1)]] mk(2)
    have db': "db' = db\<lparr>eb_queue := update_where ?P ?f (eb_queue db)\<rparr>" by simp
    have mid: "qi_MessageID ` set items = qi_MessageID ` set pend" "map qi_MessageID items = map qi_MessageID pend"
      by (auto simp: mk(3) image_image)
    have in_pend: "q \<in> set pend" if "q \<in> set (eb_queue db)" "?P q" for q
      using that ids(1) sub by (auto simp: distinct_map inj_on_def subset_iff)
    have "attempts_ok m (?f q)" if "q \<in> set (eb_queue db)" "?P q" for q
      using in_pend [OF that] sub assms(2) that(1) by (auto simp: queue_ok_def attempts_ok_def)
    then have "queue_ok m gone db'" unfolding db' by (intro queue_ok_update [OF assms(2)]) auto
    moreover have "processing db' x \<and> x \<notin> qi_MessageID ` set pend" if p: "processing db x" for x
    proof
      show "processing db' x" unfolding db' by (rule processing_update [OF p]) auto
      from p obtain q where q: "q \<in> set (eb_queue db)" "qi_MessageID q = x" "qi_Status q = QProcessing" by (auto simp: processing_def)
      show "x \<notin> qi_MessageID ` set pend"
      proof
        assume "x \<in> qi_MessageID ` set pend"
        then obtain r where r: "r \<in> set pend" "qi_MessageID r = x" by auto
        with sub q ids(2) have "r = q" by (auto simp: distinct_map inj_on_def subset_iff)
        with r sub q show False by auto
      qed
    qed
    moreover have "processing db' x" if "x \<in> qi_MessageID ` set pend" for x
    proof -
      from that obtain r where r: "r \<in> set pend" "qi_MessageID r = x" by auto
      with sub have "?f r \<in> set (update_where ?P ?f (eb_queue db))" by (intro updated_row_hit) auto
      then show ?thesis unfolding db' processing_def using r(2) by (intro bexI [of _ "?f r"]) simp_all
    qed
    ultimately show ?thesis using dist [OF ids(2)] mid by (simp add: db')
  qed
qed

lemma Dequeue_None: "Dequeue flt n db = (None, db') \<Longrightarrow> db' = db"
  by (auto simp: Dequeue_def Let_def split: if_splits option.splits)

lemma gather_ok:
  assumes "gather flt now mdb qs db = (batch, db')" "queue_ok n gone db" "distinct (map qi_MessageID qs)"
  shows "queue_ok n gone db' \<and> eb_work db' = eb_work db \<and> distinct (map (qi_MessageID \<circ> fst) batch) \<and>
    set (map (qi_MessageID \<circ> fst) batch) \<subseteq> qi_MessageID ` set qs \<and>
    (\<forall>mid. processing db mid \<longrightarrow> mid \<notin> qi_MessageID ` set qs \<or> mid \<in> set (map (qi_MessageID \<circ> fst) batch) \<longrightarrow> processing db' mid)"
  using assms
proof (induction qs arbitrary: db batch)
  case (Cons q qs)
  let ?db = "MarkCompleted (flt (EsComplete (qi_MessageID q))) now (qi_MessageID q) db"
  consider (dropped) "gather flt now mdb qs ?db = (batch, db')"
    | (kept) body rest where "gather flt now mdb qs db = (rest, db')" "batch = (q, body) # rest"
    using Cons.prems(1) by (auto simp: Let_def split: option.splits if_splits prod.splits)
  then show ?case
  proof cases
    case dropped
    have d: "distinct (map qi_MessageID qs)" "qi_MessageID q \<notin> qi_MessageID ` set qs" using Cons.prems(3) by auto
    note ih = Cons.IH [OF dropped mark_queue_ok(1) [OF Cons.prems(2)] d(1)]
    have "processing db' mid" if "processing db mid" "mid \<notin> qi_MessageID ` set (q # qs) \<or> mid \<in> set (map (qi_MessageID \<circ> fst) batch)" for mid
    proof -
      from that(2) ih d(2) have "mid \<noteq> qi_MessageID q" "mid \<notin> qi_MessageID ` set qs \<or> mid \<in> set (map (qi_MessageID \<circ> fst) batch)" by auto
      with ih mark_processing_other(1) [OF that(1)] show ?thesis by blast
    qed
    with ih show ?thesis by auto
  next
    case kept
    have d: "distinct (map qi_MessageID qs)" "qi_MessageID q \<notin> qi_MessageID ` set qs" using Cons.prems(3) by auto
    note ih = Cons.IH [OF kept(1) Cons.prems(2) d(1)]
    have "processing db' mid" if "processing db mid" "mid \<notin> qi_MessageID ` set (q # qs) \<or> mid \<in> set (map (qi_MessageID \<circ> fst) batch)" for mid
    proof -
      have "mid \<notin> qi_MessageID ` set qs \<or> mid \<in> set (map (qi_MessageID \<circ> fst) rest)"
        using that(2) d(2) kept(2) by (cases "mid = qi_MessageID q") auto
      with ih that(1) show ?thesis by blast
    qed
    with ih kept(2) d(2) show ?thesis by auto
  qed
qed simp

lemma take_batch_ok:
  assumes "queue_ok n gone db" "work_ok gone db"
  shows "queue_ok n gone (take_batch flt cfg now mdb k db) \<and> work_ok gone (take_batch flt cfg now mdb k db)"
proof (cases "eb_work db k = []")
  case idle: True
  obtain r db1 where d: "Dequeue flt (batch_size cfg) db = (r, db1)" by fastforce
  show ?thesis
  proof (cases r)
    case None
    with d Dequeue_None assms idle show ?thesis by (fastforce simp: take_batch_def)
  next
    case (Some items)
    obtain batch db2 where g: "gather flt now mdb items db1 = (batch, db2)" by fastforce
    define db3 where "db3 = db2\<lparr>eb_work := (eb_work db2)(k := batch)\<rparr>"
    have take: "take_batch flt cfg now mdb k db = db3" using idle d Some g by (simp add: take_batch_def db3_def)
    note dq = Dequeue_items [OF d [unfolded Some] assms(1)]
    from dq gather_ok [OF g, of n gone]
    have ga: "queue_ok n gone db2" "eb_work db2 = eb_work db" "distinct (map (qi_MessageID \<circ> fst) batch)"
      "set (map (qi_MessageID \<circ> fst) batch) \<subseteq> qi_MessageID ` set items"
      "\<And>mid. processing db1 mid \<Longrightarrow> mid \<notin> qi_MessageID ` set items \<or> mid \<in> set (map (qi_MessageID \<circ> fst) batch) \<Longrightarrow> processing db2 mid"
      by auto
    have "queue_ok n gone db3" using ga(1) by (simp add: queue_ok_def db3_def)
    moreover have "work_ok gone db3"
    proof -
      have h: "held db3 j = (if j = k then map (qi_MessageID \<circ> fst) batch else held db j)" for j
        by (simp add: held_def db3_def ga(2))
      have p: "processing db3 mid = processing db2 mid" for mid by (simp add: processing_def db3_def)
      have old: "processing db2 mid \<or> mid \<in> gone" "mid \<in> gone \<or> mid \<notin> qi_MessageID ` set items" if "mid \<in> set (held db j)" for mid j
      proof -
        from that assms(2) have "processing db mid \<or> mid \<in> gone" by (simp add: work_ok_def)
        with dq ga(5) show "processing db2 mid \<or> mid \<in> gone" "mid \<in> gone \<or> mid \<notin> qi_MessageID ` set items" by blast+
      qed
      have gone: "mid \<notin> gone" if "mid \<in> qi_MessageID ` set items" for mid
      proof -
        from that dq have "processing db1 mid" "queue_ok n gone db1" by blast+
        then show ?thesis by (auto simp: processing_def queue_ok_def)
      qed
      have new: "processing db2 mid" if "mid \<in> set (map (qi_MessageID \<circ> fst) batch)" for mid
      proof -
        from that ga(4) have "mid \<in> qi_MessageID ` set items" by (rule rev_subsetD)
        with dq have "processing db1 mid" by blast
        with that ga(5) show ?thesis by blast
      qed
      have cross: "set (map (qi_MessageID \<circ> fst) batch) \<inter> set (held db j) = {}" for j
        using ga(4) old(2) gone by blast
      have one: "distinct (held db3 j) \<and> (\<forall>mid \<in> set (held db3 j). processing db3 mid \<or> mid \<in> gone)" for j
        using assms(2) ga(3) new old(1) [of _ j] unfolding p h by (cases "j = k") (simp_all add: work_ok_def del: set_map)
      have two: "set (held db3 i) \<inter> set (held db3 j) = {}" if "i \<noteq> j" for i j
      proof (cases "i = k \<or> j = k")
        case True
        with that cross [of i] cross [of j] show ?thesis unfolding h by (auto simp del: set_map)
      next
        case False
        with that assms(2) show ?thesis unfolding h by (simp add: work_ok_def)
      qed
      from one two show ?thesis by (simp add: work_ok_def)
    qed
    ultimately show ?thesis by (simp add: take)
  qed
qed (use assms in \<open>simp add: take_batch_def\<close>)

subsection \<open>Storing\<close>

text \<open>A step that touches the rows of some messages only.\<close>

definition spares :: "id64 set \<Rightarrow> 'g emb_db \<Rightarrow> 'g emb_db \<Rightarrow> bool" where
  "spares mids db db' \<longleftrightarrow> eb_work db' = eb_work db \<and> (\<forall>n gone. queue_ok n gone db \<longrightarrow> queue_ok n gone db') \<and>
     (\<forall>mid. mid \<notin> mids \<longrightarrow> processing db mid \<longrightarrow> processing db' mid)"

lemma spares_refl [simp]: "spares M db db"
  by (simp add: spares_def)

lemma spares_trans: "spares M db db' \<Longrightarrow> spares N db' db'' \<Longrightarrow> M \<union> N \<subseteq> K \<Longrightarrow> spares K db db''"
  by (simp add: spares_def) blast

lemma spares_mark:
  "spares {mid} db (MarkCompleted f now mid db)" "spares {mid} db (emb_MarkFailed f msg mid db)"
  by (auto simp: spares_def mark_queue_ok mark_processing_other)

lemma spares_queue: "eb_queue db' = eb_queue db \<Longrightarrow> eb_seq db' = eb_seq db \<Longrightarrow> eb_work db' = eb_work db \<Longrightarrow> spares M db db'"
  by (simp add: spares_def queue_ok_def processing_def)

lemma spares_store: "AddVector hn i v db = (r, db') \<Longrightarrow> spares M db db'" "SaveEmbedding f now mdb i p m d db = (b, db') \<Longrightarrow> spares M db db'"
  by (auto simp: AddVector_def SaveEmbedding_def split: sum.splits if_splits intro!: spares_queue)

lemma store_vector_spares: "spares {qi_MessageID q} db (store_vector hn flt de now mdb name dims q vec db)"
proof (cases vec)
  case (Some v)
  obtain e db1 where a: "AddVector hn (qi_MessageID q) v db = (e, db1)" by fastforce
  obtain b db2 where s: "SaveEmbedding (flt (EsSave (qi_MessageID q))) now mdb (qi_MessageID q) name name dims db1 = (b, db2)" by fastforce
  note 1 = spares_store(1) [OF a] and 2 = spares_store(2) [OF s]
  have 3: "spares {} db db2" by (rule spares_trans [OF 1 2]) simp
  have f1: "spares {qi_MessageID q} db (emb_MarkFailed f m (qi_MessageID q) db1)" for f m
    by (rule spares_trans [OF 1 [of "{}"] spares_mark(2)]) simp
  have f2: "spares {qi_MessageID q} db (emb_MarkFailed f m (qi_MessageID q) db2)" for f m
    by (rule spares_trans [OF 3 spares_mark(2)]) simp
  have c: "spares {qi_MessageID q} db (MarkCompleted f now (qi_MessageID q) db2)" for f
    by (rule spares_trans [OF 3 spares_mark(1)]) simp
  show ?thesis
  proof (cases e)
    case None
    with a s Some f2 c show ?thesis by (cases b) (simp_all add: store_vector_def Let_def)
  qed (use a Some f1 in \<open>simp add: store_vector_def Let_def\<close>)
qed (simp add: store_vector_def Let_def spares_mark)

lemma store_vectors_spares: "spares (qi_MessageID ` fst ` set batch) db (store_vectors hn flt de now mdb name dims batch vecs db)"
proof (induction batch arbitrary: vecs db)
  case (Cons b batch)
  obtain q body where b: "b = (q, body)" by fastforce
  show ?case unfolding b store_vectors.simps
    by (rule spares_trans [OF store_vector_spares Cons.IH]) auto
qed simp

lemma fail_batch_spares: "spares (qi_MessageID ` fst ` set batch) db (fail_batch flt msg batch db)"
proof (induction batch arbitrary: db)
  case (Cons b batch)
  obtain q body where b: "b = (q, body)" by fastforce
  have "spares (qi_MessageID ` fst ` set (b # batch)) db (fail_batch flt msg batch (emb_MarkFailed (flt (EsFail (qi_MessageID q))) msg (qi_MessageID q) db))"
    by (rule spares_trans [OF spares_mark(2) Cons.IH]) (auto simp: b)
  then show ?case by (simp add: fail_batch_def b)
qed (simp add: fail_batch_def)

lemma spares_inv:
  assumes "emb_inv cfg (gone, db)" "spares (set (held db k)) (db\<lparr>eb_work := (eb_work db)(k := [])\<rparr>) db'"
  shows "emb_inv cfg (gone, db')"
proof -
  let ?db0 = "db\<lparr>eb_work := (eb_work db)(k := [])\<rparr>"
  have q0: "queue_ok (max_attempts cfg) gone ?db0" and w: "work_ok gone db" using assms(1) by (simp_all add: emb_inv_def queue_ok_def)
  have h: "held db' j = (if j = k then [] else held db j)" for j using assms(2) by (simp add: spares_def held_def)
  have p: "processing db' mid" if "processing db mid" "mid \<notin> set (held db k)" for mid
    using assms(2) that by (simp add: spares_def processing_def)
  have "queue_ok (max_attempts cfg) gone db'" using assms(2) q0 by (simp add: spares_def)
  moreover have "distinct (held db' j) \<and> (\<forall>mid \<in> set (held db' j). processing db' mid \<or> mid \<in> gone)" for j
  proof (cases "j = k")
    case False
    with w have "distinct (held db j)" "set (held db j) \<inter> set (held db k) = {}" "\<forall>mid \<in> set (held db j). processing db mid \<or> mid \<in> gone"
      by (simp_all add: work_ok_def)
    with p have "\<forall>mid \<in> set (held db j). processing db' mid \<or> mid \<in> gone" by blast
    with \<open>distinct (held db j)\<close> False show ?thesis by (simp add: h)
  qed (simp add: h)
  moreover have "set (held db' i) \<inter> set (held db' j) = {}" if "i \<noteq> j" for i j
    using that w by (simp add: h work_ok_def)
  ultimately show ?thesis by (simp add: emb_inv_def work_ok_def)
qed

lemma end_batch_inv:
  assumes "emb_inv cfg (gone, db)"
  shows "emb_inv cfg (gone, end_batch hn flt de cfg now mdb name dims EmbedBatch k db)"
proof (cases "eb_work db k = []")
  case False
  let ?db0 = "db\<lparr>eb_work := (eb_work db)(k := [])\<rparr>"
  have h: "qi_MessageID ` fst ` set (eb_work db k) = set (held db k)" by (auto simp: held_def)
  show ?thesis
  proof (cases "EmbedBatch (map snd (eb_work db k))")
    case (EmbedFailed e)
    have "emb_inv cfg (gone, fail_batch flt e (eb_work db k) ?db0)"
      by (rule spares_inv [OF assms, where k = k]) (metis fail_batch_spares h)
    then have "queue_ok (max_attempts cfg) gone (fail_batch flt e (eb_work db k) ?db0)" "work_ok gone (fail_batch flt e (eb_work db k) ?db0)"
      by (simp_all add: emb_inv_def)
    then have "queue_ok (max_attempts cfg) gone (snd (RequeueFailed f (ec_RetryMaxAttempts cfg) (fail_batch flt e (eb_work db k) ?db0)))"
      "work_ok gone (snd (RequeueFailed f (ec_RetryMaxAttempts cfg) (fail_batch flt e (eb_work db k) ?db0)))" for f
      by (auto simp: mark_queue_ok(3) mark_processing_other(3) intro: work_ok_same)
    then show ?thesis using False EmbedFailed by (simp add: end_batch_def Let_def emb_inv_def)
  next
    case (Vectors vecs)
    have "emb_inv cfg (gone, store_vectors hn flt de now mdb name dims (eb_work db k) vecs ?db0)"
      by (rule spares_inv [OF assms, where k = k]) (metis store_vectors_spares h)
    then show ?thesis using False Vectors by (simp add: end_batch_def Let_def)
  qed
qed (use assms in \<open>simp add: end_batch_def\<close>)

lemma forget_inv: "emb_inv cfg (gone, db) \<Longrightarrow> emb_inv cfg (gone \<union> ids, forget_embeddings ids db)"
proof -
  assume inv: "emb_inv cfg (gone, db)"
  have "distinct (map qi_MessageID (delete_where (\<lambda>q. qi_MessageID q \<in> ids) (eb_queue db)))"
    using inv by (simp add: emb_inv_def queue_ok_def delete_where_def distinct_map_filter)
  then have "queue_ok (max_attempts cfg) (gone \<union> ids) (forget_embeddings ids db)"
    using inv by (auto simp: emb_inv_def queue_ok_def forget_embeddings_def ids_ok_delete_where)
  moreover have "processing (forget_embeddings ids db) mid \<or> mid \<in> gone \<union> ids" if "processing db mid \<or> mid \<in> gone" for mid
    using that by (auto simp: processing_def forget_embeddings_def)
  moreover have "held (forget_embeddings ids db) = held db" by (auto simp: held_def forget_embeddings_def)
  ultimately show ?thesis using inv by (auto simp: emb_inv_def work_ok_def)
qed

lemma emb_exec_inv: "emb_inv cfg s \<Longrightarrow> emb_inv cfg (emb_exec hn cfg op s)"
proof (cases "(hn, cfg, op, s)" rule: emb_exec.cases)
  case (1 hn' cfg' failed now mdb mid body gone db)
  assume inv: "emb_inv cfg s"
  show ?thesis
  proof (cases "queued mid db \<or> mid \<in> gone \<or> trim_space body = '''' \<or> failed")
    case True
    then show ?thesis using 1 inv by (auto simp: OnMessageCreated_emb_def Enqueue_def enqueue_row_def)
  next
    case False
    then show ?thesis using 1 inv enqueue_row_ok [of "max_attempts cfg" gone db mid now]
      by (simp add: OnMessageCreated_emb_def Enqueue_def emb_inv_def)
  qed
next
  case (2 hn' cfg' failed now mdb gone db)
  moreover assume "emb_inv cfg s"
  moreover have "set (to_enqueue mdb db) \<subseteq> message_ids mdb" by (auto simp: to_enqueue_def message_ids_def)
  ultimately show ?thesis
    using enqueue_rows_ok [of "max_attempts cfg" gone db "to_enqueue mdb db" now] by (auto simp: EnqueueAllMessages_def emb_inv_def)
next
  case (3 hn' cfg' flt now mdb k gone db)
  moreover assume "emb_inv cfg s"
  ultimately show ?thesis using take_batch_ok [of "max_attempts cfg" gone db] by (simp add: emb_inv_def)
qed (simp_all add: end_batch_inv forget_inv)

interpretation emb: invariant_system "emb_exec hn cfg" "emb_inv cfg" for hn cfg
  by unfold_locales (rule emb_exec_inv)

lemma emb_empty_inv: "emb_inv cfg ({}, emb_empty g)"
  by (simp add: emb_inv_def emb_empty_def queue_ok_def work_ok_def held_def)

section \<open>Properties\<close>

text \<open>
  However the workers, new messages and deletions of messages interleave and whatever fails,
  a message is in the queue at most once, no two workers ever work on the same message, and no
  message is tried more often than the retry limit allows.
\<close>

theorem embedding_queue_exclusive:
  assumes "fold (emb_exec hn cfg) ops ({}, emb_empty g) = (gone, db)"
  shows "distinct (map qi_MessageID (eb_queue db)) \<and>
    (\<forall>k l. k \<noteq> l \<longrightarrow> qi_MessageID ` fst ` set (eb_work db k) \<inter> qi_MessageID ` fst ` set (eb_work db l) = {}) \<and>
    (\<forall>q \<in> set (eb_queue db). qi_Attempts q \<le> max 1 (ec_RetryMaxAttempts cfg))"
proof -
  have "emb_inv cfg (gone, db)" using emb.run_inv [OF emb_empty_inv] assms by metis
  moreover have "qi_MessageID ` fst ` set (eb_work db k) = set (held db k)" for k by (simp add: held_def image_image)
  ultimately show ?thesis by (auto simp: emb_inv_def queue_ok_def work_ok_def attempts_ok_def max_attempts_def)
qed

definition toy_index :: "((id64 \<times> rat) list, rat) hnsw" where
  "toy_index = \<lparr>hn_New = [], hn_Add = (\<lambda>i v g. Inr ((i, v) # g)), hn_Search = (\<lambda>g v k. Inr (take (nat k) g)),
     hn_Delete = (\<lambda>i g. (True, filter (\<lambda>p. fst p \<noteq> i) g)), hn_Len = length, hn_Distance = (\<lambda>v w. abs (v - w))\<rparr>"

definition toy_config :: EmbConfig where
  "toy_config = \<lparr>ec_Provider = ''mock'', ec_APIKey = '''', ec_OllamaURL = '''', ec_BatchSize = 10, ec_WorkerCount = 1,
     ec_PollInterval = 0, ec_RetryMaxAttempts = 3, ec_RetryBaseDelay = 0\<rparr>"

definition toy_messages :: msg_db where
  "toy_messages = msg_empty\<lparr>md_msgs := [\<lparr>msg_ID = 1, msg_ConversationID = 1, msg_FromAgent = ''bob'', msg_ToAgent = None,
     msg_ChannelID = Some 1, msg_ReplyTo = None, msg_Body = ''hi'', msg_Priority = 5, msg_Status = MPending, msg_Metadata = JNull,
     msg_ClaimedBy = None, msg_ClaimedAt = None, msg_CreatedAt = 0, msg_UpdatedAt = 0\<rparr>], md_msg_seq := 1\<rparr>"

definition toy_ops :: "rat emb_op list" where
  "toy_ops = [EmCreated False 1 toy_messages 1 ''hi'', EmTake (\<lambda>_. False) 2 toy_messages 0,
     EmEnd (\<lambda>_. False) (\<lambda>_. '''') 3 toy_messages ''mock'' 1 (\<lambda>ts. EmbedFailed ''down'') 0, EmTake (\<lambda>_. False) 4 toy_messages 7]"

theorem embedding_queue_exclusive_witness:
  "\<exists>gone db. fold (emb_exec toy_index toy_config) toy_ops ({}, emb_empty []) = (gone, db) \<and>
     map qi_Attempts (eb_queue db) = [2] \<and> map (qi_MessageID \<circ> fst) (eb_work db 7) = [1] \<and>
     qi_MessageID ` fst ` set (eb_work db 7) \<inter> qi_MessageID ` fst ` set (eb_work db 0) = {}"
proof -
  obtain gone db where r: "fold (emb_exec toy_index toy_config) toy_ops ({}, emb_empty []) = (gone, db)" by fastforce
  have "map qi_Attempts (eb_queue (snd (fold (emb_exec toy_index toy_config) toy_ops ({}, emb_empty [])))) = [2] \<and>
    map (qi_MessageID \<circ> fst) (eb_work (snd (fold (emb_exec toy_index toy_config) toy_ops ({}, emb_empty []))) 7) = [1]"
    by code_simp
  moreover have "qi_MessageID ` fst ` set (eb_work db 7) \<inter> qi_MessageID ` fst ` set (eb_work db 0) = {}"
    using embedding_queue_exclusive [OF r] by simp
  ultimately show ?thesis using r by (intro exI [of _ gone] exI [of _ db]) simp
qed

end
