(* ===== verification/Search.thy ===== *)
theory Search
  imports Embeddings
begin

text \<open>
  The search service (\<open>internal/search/service.go\<close>): semantic search through the vector index,
  full-text search through the message service, and both merged by reciprocal rank. Scores are
  rationals where the code has floating-point numbers; the iteration order of a map is a
  parameter. An error is its text, \<open>err_text\<close> giving that of the message service.
\<close>

section \<open>Data\<close>

definition ModeAuto :: string where "ModeAuto = ''auto''"
definition ModeSemantic :: string where "ModeSemantic = ''semantic''"
definition ModeFulltext :: string where "ModeFulltext = ''fulltext''"

definition DefaultMinSimilarity :: rat where
  "DefaultMinSimilarity = 1 / 4"

definition rrfK :: rat where
  "rrfK = 60"

record SearchRequest =
  sq_Query :: string
  sq_Mode :: string
  sq_Limit :: int
  sq_ChannelID :: "id64 option"
  sq_FromAgent :: string
  sq_MinPriority :: int
  sq_After :: "timestamp option"
  sq_Before :: "timestamp option"
  sq_MinSimilarity :: rat

record SearchResult =
  sr_Message :: Message
  sr_SimilarityScore :: rat
  sr_RelevanceScore :: rat
  sr_MatchType :: string

record SearchResponse =
  sp_Results :: "SearchResult list"
  sp_SearchMode :: string
  sp_TotalResults :: nat
  sp_Warning :: string

text \<open>The service at one call: its provider and index, if any, and what it reads.\<close>

record ('g, 'v) search_svc =
  ss_embed :: "(string \<Rightarrow> string + 'v) option"
  ss_name :: string
  ss_index :: "(('g, 'v) hnsw \<times> 'g) option"
  ss_fts :: "string \<Rightarrow> id64 list option"
  ss_env :: msg_env
  ss_mdb :: msg_db
  ss_err_text :: "msg_error \<Rightarrow> string"
  ss_get_fails :: "id64 \<Rightarrow> bool"
  ss_member_fails :: "id64 \<Rightarrow> bool"
  ss_order :: "(id64 \<times> SearchResult \<times> rat) list \<Rightarrow> (id64 \<times> SearchResult \<times> rat) list"

section \<open>Full text\<close>

definition fulltext_opts :: "SearchRequest \<Rightarrow> int \<Rightarrow> SearchOptions" where
  "fulltext_opts opts limit =
     \<lparr>se_FromAgent = sq_FromAgent opts, se_ToAgent = '''', se_ChannelID = sq_ChannelID opts, se_MinPriority = sq_MinPriority opts,
      se_Status = '''', se_Limit = limit, se_Offset = 0, se_After = None, se_Before = None, se_Channel = '''', se_Channels = [],
      se_ExcludeChannels = [], se_Agents = [], se_ExcludeAgents = []\<rparr>"

definition fulltext_result :: "nat \<Rightarrow> Message \<Rightarrow> SearchResult" where
  "fulltext_result i m =
     \<lparr>sr_Message = m, sr_SimilarityScore = 0, sr_RelevanceScore = 1 - of_nat i * (1 / 20), sr_MatchType = ModeFulltext\<rparr>"

definition fulltextSearch :: "('g, 'v) search_svc \<Rightarrow> string \<Rightarrow> SearchRequest \<Rightarrow> int \<Rightarrow> string + SearchResponse" where
  "fulltextSearch svc agentName opts limit =
     (case SearchMessages (ss_fts svc) (ss_env svc) (ss_mdb svc) agentName (sq_Query opts) (fulltext_opts opts limit) of
        Inl e \<Rightarrow> Inl (''fulltext search: '' @ ss_err_text svc e)
      | Inr page \<Rightarrow>
          (let results = map (\<lambda>(i, m). fulltext_result i m) (enumerate 0 (pm_Messages page))
           in Inr \<lparr>sp_Results = results, sp_SearchMode = ModeFulltext, sp_TotalResults = length results, sp_Warning = ''''\<rparr>))"

section \<open>Vectors\<close>

text \<open>The columns read do not include \<open>reply_to\<close>.\<close>

definition getMessageByID :: "('g, 'v) search_svc \<Rightarrow> id64 \<Rightarrow> Message option" where
  "getMessageByID svc i =
     (if ss_get_fails svc i then None else map_option (\<lambda>m. m\<lparr>msg_ReplyTo := None\<rparr>) (get_message (ss_mdb svc) i))"

definition canAgentAccessMessage :: "('g, 'v) search_svc \<Rightarrow> string \<Rightarrow> Message \<Rightarrow> bool" where
  "canAgentAccessMessage svc agentName m =
     (let toAgent = (case msg_ToAgent m of None \<Rightarrow> '''' | Some t \<Rightarrow> t)
      in if toAgent \<noteq> '''' then msg_FromAgent m = agentName \<or> toAgent = agentName
         else case msg_ChannelID m of
                Some c \<Rightarrow> \<not> ss_member_fails svc c \<and> (c, agentName) \<in> set (en_members (ss_env svc))
              | None \<Rightarrow> msg_FromAgent m = agentName)"

definition matchesFilters :: "SearchRequest \<Rightarrow> Message \<Rightarrow> bool" where
  "matchesFilters opts m \<longleftrightarrow>
     (case sq_ChannelID opts of None \<Rightarrow> True | Some c \<Rightarrow> msg_ChannelID m = Some c) \<and>
     (sq_FromAgent opts = '''' \<or> msg_FromAgent m = sq_FromAgent opts) \<and>
     \<not> (0 < sq_MinPriority opts \<and> msg_Priority m < sq_MinPriority opts) \<and>
     (case sq_After opts of None \<Rightarrow> True | Some t \<Rightarrow> \<not> msg_CreatedAt m < t) \<and>
     (case sq_Before opts of None \<Rightarrow> True | Some t \<Rightarrow> \<not> t < msg_CreatedAt m)"

definition similarity :: "rat \<Rightarrow> rat" where
  "similarity d = max 0 (1 - d)"

definition min_similarity :: "SearchRequest \<Rightarrow> rat" where
  "min_similarity opts = (if sq_MinSimilarity opts \<le> 0 then DefaultMinSimilarity else sq_MinSimilarity opts)"

definition overfetch :: "int \<Rightarrow> int" where
  "overfetch limit = (if limit * 5 < 50 then 50 else limit * 5)"

definition semantic_result :: "('g, 'v) search_svc \<Rightarrow> string \<Rightarrow> SearchRequest \<Rightarrow> id64 \<times> rat \<Rightarrow> SearchResult option" where
  "semantic_result svc agentName opts hit =
     (case getMessageByID svc (fst hit) of
        None \<Rightarrow> None
      | Some m \<Rightarrow>
          if \<not> canAgentAccessMessage svc agentName m \<or> \<not> matchesFilters opts m \<or> similarity (snd hit) < min_similarity opts then None
          else Some \<lparr>sr_Message = m, sr_SimilarityScore = similarity (snd hit), sr_RelevanceScore = 0, sr_MatchType = ModeSemantic\<rparr>)"

text \<open>The loop stops as soon as the limit is reached.\<close>

fun semantic_results :: "('g, 'v) search_svc \<Rightarrow> string \<Rightarrow> SearchRequest \<Rightarrow> int \<Rightarrow> (id64 \<times> rat) list \<Rightarrow> SearchResult list \<Rightarrow> SearchResult list" where
  "semantic_results svc agentName opts limit [] acc = acc"
| "semantic_results svc agentName opts limit (hit # hits) acc =
     (case semantic_result svc agentName opts hit of
        None \<Rightarrow> semantic_results svc agentName opts limit hits acc
      | Some r \<Rightarrow> if limit \<le> int (length (acc @ [r])) then acc @ [r] else semantic_results svc agentName opts limit hits (acc @ [r]))"

definition semanticSearch :: "('g, 'v) search_svc \<Rightarrow> string \<Rightarrow> SearchRequest \<Rightarrow> int \<Rightarrow> string + SearchResponse" where
  "semanticSearch svc agentName opts limit =
     (if sq_Query opts = '''' then fulltextSearch svc agentName opts limit
      else case (ss_embed svc, ss_index svc) of
        (Some Embed, Some (hn, g)) \<Rightarrow>
          (case Embed (sq_Query opts) of
             Inl e \<Rightarrow> Inl (''embed query: '' @ e)
           | Inr v \<Rightarrow>
               (case index_Search hn g v (overfetch limit) of
                  Inl e \<Rightarrow> Inl (''vector search: '' @ e)
                | Inr [] \<Rightarrow>
                    map_sum id (\<lambda>resp. resp\<lparr>sp_Warning := ''no vectors in index, using fulltext''\<rparr>)
                      (fulltextSearch svc agentName opts limit)
                | Inr hits \<Rightarrow>
                    (let results = semantic_results svc agentName opts limit hits []
                     in Inr \<lparr>sp_Results = results, sp_SearchMode = ModeSemantic, sp_TotalResults = length results, sp_Warning = ''''\<rparr>)))
      | _ \<Rightarrow> Inl ''nil pointer'')"

section \<open>Both\<close>

type_synonym scored = "id64 \<times> SearchResult \<times> rat"

definition rank_score :: "nat \<Rightarrow> rat" where
  "rank_score rank = 1 / (rrfK + of_nat (rank + 1))"

fun add_score :: "(SearchResult \<Rightarrow> SearchResult) \<Rightarrow> nat \<Rightarrow> SearchResult \<Rightarrow> scored list \<Rightarrow> scored list" where
  "add_score seen rank r [] = [(msg_ID (sr_Message r), r, rank_score rank)]"
| "add_score seen rank r ((i, x, s) # xs) =
     (if i = msg_ID (sr_Message r) then (i, seen x, s + rank_score rank) # xs else (i, x, s) # add_score seen rank r xs)"

definition by_id :: "SearchResult list \<Rightarrow> SearchResult list \<Rightarrow> scored list" where
  "by_id semantic fulltext =
     fold (\<lambda>(rank, r). add_score (\<lambda>x. x\<lparr>sr_MatchType := ''hybrid''\<rparr>) rank r) (enumerate 0 fulltext)
       (fold (\<lambda>(rank, r). add_score id rank r) (enumerate 0 semantic) [])"

text \<open>One round of the insertion sort, on the sorted part in reverse: \<open>x\<close> moves past lower scores.\<close>

fun slide :: "scored \<Rightarrow> scored list \<Rightarrow> scored list" where
  "slide x [] = [x]"
| "slide x (y # ys) = (if snd (snd y) < snd (snd x) then y # slide x ys else x # y # ys)"

definition insertion_sort :: "scored list \<Rightarrow> scored list" where
  "insertion_sort xs = rev (fold slide xs [])"

definition mergeRRF :: "(scored list \<Rightarrow> scored list) \<Rightarrow> SearchResult list \<Rightarrow> SearchResult list \<Rightarrow> int \<Rightarrow> SearchResult list" where
  "mergeRRF order semantic fulltext limit =
     map (fst \<circ> snd) (take (nat limit) (insertion_sort (order (by_id semantic fulltext))))"

definition hybridSearch :: "('g, 'v) search_svc \<Rightarrow> string \<Rightarrow> SearchRequest \<Rightarrow> int \<Rightarrow> string + SearchResponse" where
  "hybridSearch svc agentName opts limit =
     (let sem = semanticSearch svc agentName opts limit;
          ft = fulltextSearch svc agentName opts limit;
          results = (\<lambda>r. case r of Inl _ \<Rightarrow> [] | Inr resp \<Rightarrow> sp_Results resp);
          none = \<lparr>sp_Results = [], sp_SearchMode = ModeAuto, sp_TotalResults = 0, sp_Warning = ''''\<rparr>
      in case (sem, ft) of
           (Inl e, Inl e') \<Rightarrow> Inl (''hybrid search: semantic: '' @ e @ ''; fulltext: '' @ e')
         | _ \<Rightarrow>
             if results sem = [] then (case ft of Inr resp \<Rightarrow> Inr (resp\<lparr>sp_SearchMode := ModeFulltext\<rparr>) | Inl _ \<Rightarrow> Inr none)
             else if results ft = [] then (case sem of Inr resp \<Rightarrow> Inr (resp\<lparr>sp_SearchMode := ModeAuto\<rparr>) | Inl _ \<Rightarrow> Inr none)
             else (let merged = mergeRRF (ss_order svc) (results sem) (results ft) limit
                   in Inr \<lparr>sp_Results = merged, sp_SearchMode = ModeAuto, sp_TotalResults = length merged, sp_Warning = ''''\<rparr>))"

definition clamp_limit :: "int \<Rightarrow> int" where
  "clamp_limit l = (let l = (if l \<le> 0 then 10 else l) in if 100 < l then 100 else l)"

definition index_len :: "('g, 'v) search_svc \<Rightarrow> nat" where
  "index_len svc = (case ss_index svc of None \<Rightarrow> 0 | Some (hn, g) \<Rightarrow> hn_Len hn g)"

definition Search :: "('g, 'v) search_svc \<Rightarrow> string \<Rightarrow> SearchRequest \<Rightarrow> string + SearchResponse" where
  "Search svc agentName opts =
     (let limit = clamp_limit (sq_Limit opts); mode = (if sq_Mode opts = '''' then ModeAuto else sq_Mode opts);
          full = fulltextSearch svc agentName opts limit
      in if mode = ModeAuto then
           (if ss_embed svc \<noteq> None \<and> ss_index svc \<noteq> None \<and> 0 < index_len svc \<and> sq_Query opts \<noteq> ''''
            then hybridSearch svc agentName opts limit else full)
         else if mode = ModeSemantic then
           (if ss_embed svc = None \<or> ss_index svc = None then Inl ''semantic search unavailable: no embedding provider configured''
            else case semanticSearch svc agentName opts limit of
                   Inr resp \<Rightarrow> Inr resp
                 | Inl e \<Rightarrow>
                     (case full of
                        Inl e' \<Rightarrow> Inl (''semantic search failed: '' @ e @ ''; fulltext fallback also failed: '' @ e')
                      | Inr resp \<Rightarrow> Inr (resp\<lparr>sp_Warning := ''semantic search failed: '' @ e @ '', using fulltext fallback''\<rparr>)))
         else if mode = ModeFulltext then full
         else Inl (''unknown search mode: '' @ [CHR 0x22] @ mode @ [CHR 0x22]))"

definition HasSemanticSearch :: "('g, 'v) search_svc \<Rightarrow> bool" where
  "HasSemanticSearch svc \<longleftrightarrow> ss_embed svc \<noteq> None \<and> ss_index svc \<noteq> None"

definition ProviderName :: "('g, 'v) search_svc \<Rightarrow> string" where
  "ProviderName svc = (if ss_embed svc = None then '''' else ss_name svc)"

definition SearchMessagesCompat :: "('g, 'v) search_svc \<Rightarrow> string \<Rightarrow> string \<Rightarrow> SearchOptions \<Rightarrow> string + Message list \<times> string" where
  "SearchMessagesCompat svc agentName query opts =
     (case Search svc agentName \<lparr>sq_Query = query, sq_Mode = ModeAuto, sq_Limit = se_Limit opts, sq_ChannelID = se_ChannelID opts,
             sq_FromAgent = se_FromAgent opts, sq_MinPriority = se_MinPriority opts, sq_After = None, sq_Before = None, sq_MinSimilarity = 0\<rparr> of
        Inl e \<Rightarrow> Inl e
      | Inr resp \<Rightarrow> Inr (map sr_Message (sp_Results resp), if trim_space query = '''' then ModeFulltext else sp_SearchMode resp))"

section \<open>What a search may show\<close>

definition may_see :: "msg_env \<Rightarrow> string \<Rightarrow> Message \<Rightarrow> bool" where
  "may_see env a m \<longleftrightarrow> msg_FromAgent m = a \<or> msg_ToAgent m = Some a \<or>
     (\<exists>c. msg_ChannelID m = Some c \<and> (c, a) \<in> set (en_members env))"

definition asked_for :: "SearchRequest \<Rightarrow> Message \<Rightarrow> bool" where
  "asked_for opts m \<longleftrightarrow> (sq_FromAgent opts = '''' \<or> msg_FromAgent m = sq_FromAgent opts) \<and>
     (0 < sq_MinPriority opts \<longrightarrow> sq_MinPriority opts \<le> msg_Priority m) \<and>
     (\<forall>c. sq_ChannelID opts = Some c \<longrightarrow> msg_ChannelID m = Some c)"

text \<open>A result shows a stored message, up to the reply reference.\<close>

definition shown :: "('g, 'v) search_svc \<Rightarrow> string \<Rightarrow> SearchRequest \<Rightarrow> SearchResult \<Rightarrow> bool" where
  "shown svc a opts r \<longleftrightarrow> (\<exists>m \<in> set (md_msgs (ss_mdb svc)).
     (sr_Message r = m \<or> sr_Message r = m\<lparr>msg_ReplyTo := None\<rparr>) \<and> may_see (ss_env svc) a m \<and> asked_for opts m)"

lemma enumerate_in: "(i, x) \<in> set (enumerate n xs) \<Longrightarrow> x \<in> set xs"
  by (metis enumerate_eq_zip set_zip_rightD)

lemma SearchMessages_page:
  assumes "SearchMessages fts env db a query opts = Inr page" "msg_inv db" "m \<in> set (pm_Messages page)"
  shows "m \<in> set (md_msgs db)" "msg_ToAgent m = Some a \<or> msg_FromAgent m = a" "buildSearchConditions env a opts m"
proof -
  obtain ms where ms: "search_rows fts env db a query opts = Some ms"
    "pm_Messages page = limit_offset (default_limit 20 (se_Limit opts)) (max 0 (se_Offset opts)) ms"
    using assms(1) by (auto simp: SearchMessages_def store_SearchMessages_def CountSearchMessages_def split: if_splits option.splits)
  with assms(3) set_limit_offset have "m \<in> set ms" by fastforce
  from search_rows_accessible [OF ms(1) this] show m: "m \<in> set (md_msgs db)" "buildSearchConditions env a opts m" by auto
  then have "accessible env a m" by (simp add: buildSearchConditions_def)
  with m(1) assms(2) show "msg_ToAgent m = Some a \<or> msg_FromAgent m = a"
    by (auto simp: accessible_def msg_inv_def content_ok_def one_destination_def)
qed

lemma SearchMessages_length:
  assumes "SearchMessages fts env db a query opts = Inr page" "0 < se_Limit opts"
  shows "int (length (pm_Messages page)) \<le> se_Limit opts"
proof -
  obtain ms where "pm_Messages page = limit_offset (se_Limit opts) (max 0 (se_Offset opts)) ms"
    using assms by (auto simp: SearchMessages_def store_SearchMessages_def default_limit_def split: if_splits option.splits)
  with length_limit_offset [of "se_Limit opts" "max 0 (se_Offset opts)" ms] assms(2) show ?thesis by simp
qed

lemma fulltext_shown:
  assumes "fulltextSearch svc a opts limit = Inr resp" "msg_inv (ss_mdb svc)" "0 < limit"
  shows "\<forall>r \<in> set (sp_Results resp). shown svc a opts r" "int (length (sp_Results resp)) \<le> limit"
proof -
  obtain page where p: "SearchMessages (ss_fts svc) (ss_env svc) (ss_mdb svc) a (sq_Query opts) (fulltext_opts opts limit) = Inr page"
    "sp_Results resp = map (\<lambda>(i, m). fulltext_result i m) (enumerate 0 (pm_Messages page))"
    using assms(1) by (auto simp: fulltextSearch_def Let_def split: sum.splits)
  show "\<forall>r \<in> set (sp_Results resp). shown svc a opts r"
  proof
    fix r assume "r \<in> set (sp_Results resp)"
    then obtain i m where m: "m \<in> set (pm_Messages page)" "r = fulltext_result i m"
      using p(2) by (auto dest!: enumerate_in)
    note s = SearchMessages_page [OF p(1) assms(2) m(1)]
    have "asked_for opts m" using s(3) by (simp add: buildSearchConditions_def fulltext_opts_def asked_for_def split: option.splits)
    then show "shown svc a opts r" using s(1,2) m(2) by (auto simp: shown_def may_see_def fulltext_result_def)
  qed
  have "0 < se_Limit (fulltext_opts opts limit)" using assms(3) by (simp add: fulltext_opts_def)
  from SearchMessages_length [OF p(1) this] p(2) show "int (length (sp_Results resp)) \<le> limit" by (simp add: fulltext_opts_def)
qed

lemma semantic_result_shown:
  assumes "semantic_result svc a opts hit = Some r" shows "shown svc a opts r"
proof -
  obtain m where g: "getMessageByID svc (fst hit) = Some m" "canAgentAccessMessage svc a m" "matchesFilters opts m" "sr_Message r = m"
    using assms by (auto simp: semantic_result_def split: option.splits if_splits)
  from g(1) obtain m' where m': "m' \<in> set (md_msgs (ss_mdb svc))" "m = m'\<lparr>msg_ReplyTo := None\<rparr>"
    by (auto simp: getMessageByID_def get_message_def dest!: find_row_Some split: if_splits)
  have "may_see (ss_env svc) a m'"
    using g(2) m'(2) by (auto simp: canAgentAccessMessage_def may_see_def Let_def split: option.splits if_splits)
  moreover have "asked_for opts m'"
    using g(3) m'(2) by (auto simp: matchesFilters_def asked_for_def not_less)
  ultimately show ?thesis using m' g(4) by (auto simp: shown_def)
qed

lemma semantic_results_shown:
  "\<forall>r \<in> set acc. shown svc a opts r \<Longrightarrow> r \<in> set (semantic_results svc a opts limit hits acc) \<Longrightarrow> shown svc a opts r"
  by (induction svc a opts limit hits acc rule: semantic_results.induct)
    (auto split: option.splits if_splits dest: semantic_result_shown)

lemma semantic_results_length:
  "int (length acc) < limit \<Longrightarrow> int (length (semantic_results svc a opts limit hits acc)) \<le> limit"
  by (induction svc a opts limit hits acc rule: semantic_results.induct) (auto split: option.splits)

lemma semantic_shown:
  assumes "semanticSearch svc a opts limit = Inr resp" "msg_inv (ss_mdb svc)" "0 < limit"
  shows "\<forall>r \<in> set (sp_Results resp). shown svc a opts r" "int (length (sp_Results resp)) \<le> limit"
proof -
  consider (full) resp' where "fulltextSearch svc a opts limit = Inr resp'" "sp_Results resp = sp_Results resp'"
    | (sem) hits where "sp_Results resp = semantic_results svc a opts limit hits []"
  proof (cases "fulltextSearch svc a opts limit")
    case (Inl e)
    with assms(1) that(2) show thesis
      by (auto simp: semanticSearch_def Let_def simp del: semantic_results.simps split: if_splits option.splits prod.splits sum.splits list.splits)
  next
    case (Inr resp')
    with assms(1) that show thesis
      by (auto simp: semanticSearch_def Let_def simp del: semantic_results.simps split: if_splits option.splits prod.splits sum.splits list.splits)
  qed
  then show "\<forall>r \<in> set (sp_Results resp). shown svc a opts r" "int (length (sp_Results resp)) \<le> limit"
    using fulltext_shown [OF _ assms(2,3)] assms(3)
    by (cases; auto intro: semantic_results_shown [of "[]"] semantic_results_length [of "[]", simplified])+
qed

section \<open>Merging by rank\<close>

definition res_id :: "SearchResult \<Rightarrow> id64" where
  "res_id r = msg_ID (sr_Message r)"

text \<open>The score of a message in one list, as the method defines it: the sum over its ranks.\<close>

definition rrf :: "id64 \<Rightarrow> SearchResult list \<Rightarrow> rat" where
  "rrf i rs = (\<Sum>(rank, r) \<leftarrow> enumerate 0 rs. if res_id r = i then rank_score rank else 0)"

definition score_of :: "id64 \<Rightarrow> scored list \<Rightarrow> rat" where
  "score_of i xs = (case map_of (map (\<lambda>(j, _, s). (j, s)) xs) i of None \<Rightarrow> 0 | Some s \<Rightarrow> s)"

definition scored_ok :: "scored list \<Rightarrow> bool" where
  "scored_ok xs \<longleftrightarrow> distinct (map fst xs) \<and> (\<forall>(i, r, s) \<in> set xs. res_id r = i)"

lemma add_score_score: "score_of i (add_score f rank r xs) = score_of i xs + (if res_id r = i then rank_score rank else 0)"
  by (induction f rank r xs rule: add_score.induct) (auto simp: score_of_def res_id_def split: option.splits)

lemma add_score_ids: "fst ` set (add_score f rank r xs) = insert (res_id r) (fst ` set xs)"
  by (induction f rank r xs rule: add_score.induct) (auto simp: res_id_def)

lemma add_score_ok:
  assumes "scored_ok xs" "\<And>x. sr_Message (f x) = sr_Message x"
  shows "scored_ok (add_score f rank r xs)"
  using assms
proof (induction f rank r xs rule: add_score.induct)
  case (2 f rank r i x s xs)
  then have xs: "scored_ok xs" "res_id x = i" "i \<notin> fst ` set xs" by (auto simp: scored_ok_def)
  show ?case
  proof (cases "i = msg_ID (sr_Message r)")
    case True
    with xs 2(3) show ?thesis by (simp add: scored_ok_def res_id_def)
  next
    case False
    with xs(3) have "i \<notin> fst ` set (add_score f rank r xs)" by (simp add: add_score_ids res_id_def)
    with False 2(1) [OF False xs(1) 2(3)] xs(2) show ?thesis by (simp add: scored_ok_def)
  qed
qed (simp add: scored_ok_def res_id_def)

lemma add_scores:
  assumes "scored_ok xs" "\<And>x. sr_Message (f x) = sr_Message x"
  shows "scored_ok (fold (\<lambda>(rank, r). add_score f rank r) rs xs) \<and>
    fst ` set (fold (\<lambda>(rank, r). add_score f rank r) rs xs) = fst ` set xs \<union> res_id ` snd ` set rs \<and>
    score_of i (fold (\<lambda>(rank, r). add_score f rank r) rs xs) =
      score_of i xs + (\<Sum>(rank, r) \<leftarrow> rs. if res_id r = i then rank_score rank else 0)"
  using assms(1)
proof (induction rs arbitrary: xs)
  case (Cons p rs)
  obtain rank r where p: "p = (rank, r)" by fastforce
  from Cons.IH [OF add_score_ok [OF Cons.prems assms(2)], of rank r] show ?case
    by (auto simp: p add_score_ids add_score_score)
qed simp

lemma by_id_spec:
  "scored_ok (by_id sem ft) \<and> fst ` set (by_id sem ft) = res_id ` (set sem \<union> set ft) \<and>
     score_of i (by_id sem ft) = rrf i sem + rrf i ft"
proof -
  let ?f = "\<lambda>(rank, r). add_score id rank r"
  have e: "snd ` set (enumerate 0 rs) = set rs" for rs :: "SearchResult list"
    by (metis list.set_map map_snd_enumerate)
  have nil: "scored_ok []" by (simp add: scored_ok_def)
  note 1 = add_scores [OF nil, of id "enumerate 0 sem" i, simplified]
  have hy: "\<And>x. sr_Message (x\<lparr>sr_MatchType := ''hybrid''\<rparr>) = sr_Message x" by simp
  have "scored_ok (fold ?f (enumerate 0 sem) [])" using 1 by simp
  note 2 = add_scores [OF this, of "\<lambda>x. x\<lparr>sr_MatchType := ''hybrid''\<rparr>" "enumerate 0 ft" i, OF hy]
  from 1 2 show ?thesis unfolding by_id_def rrf_def
    by (auto simp: e image_Un score_of_def)
qed

lemma score_of_member: "scored_ok xs \<Longrightarrow> (i, r, s) \<in> set xs \<Longrightarrow> score_of i xs = s"
proof -
  assume ok: "scored_ok xs" and m: "(i, r, s) \<in> set xs"
  have "map fst (map (\<lambda>(j, _, s). (j, s)) ys) = map fst ys" for ys :: "scored list" by (induction ys) auto
  with ok have "distinct (map fst (map (\<lambda>(j, _, s). (j, s)) xs))" by (simp only: scored_ok_def)
  moreover have "(i, s) \<in> set (map (\<lambda>(j, _, s). (j, s)) xs)" using m by force
  ultimately show ?thesis by (simp add: score_of_def map_of_is_SomeI)
qed

abbreviation sc_le :: "scored \<Rightarrow> scored \<Rightarrow> bool" where
  "sc_le x y \<equiv> snd (snd x) \<le> snd (snd y)"

lemma mset_slide [simp]: "mset (slide x ys) = add_mset x (mset ys)"
  by (induction x ys rule: slide.induct) auto

lemma slide_sorted: "sorted_wrt sc_le ys \<Longrightarrow> sorted_wrt sc_le (slide x ys)"
proof (induction x ys rule: slide.induct)
  case (2 x y ys)
  have "set (slide x ys) = insert x (set ys)" by (metis mset_slide set_mset_add_mset_insert set_mset_mset)
  with 2 show ?case by auto
qed simp

lemma fold_slide: "sorted_wrt sc_le acc \<Longrightarrow> sorted_wrt sc_le (fold slide xs acc) \<and> mset (fold slide xs acc) = mset xs + mset acc"
  by (induction xs arbitrary: acc) (auto simp: slide_sorted)

lemma insertion_sort_spec:
  "mset (insertion_sort xs) = mset xs" "sorted_wrt (\<lambda>x y. sc_le y x) (insertion_sort xs)"
  using fold_slide [of "[]" xs] by (simp_all add: insertion_sort_def sorted_wrt_rev)

definition msg_of :: "scored \<Rightarrow> Message" where
  "msg_of x = sr_Message (fst (snd x))"

lemma add_score_messages:
  "(\<And>x. sr_Message (f x) = sr_Message x) \<Longrightarrow> msg_of ` set (add_score f rank r xs) \<subseteq> insert (sr_Message r) (msg_of ` set xs)"
proof (induction xs)
  case (Cons y ys)
  obtain i x s where y: "y = (i, x, s)" by (rule prod_cases3)
  show ?case
  proof (cases "i = msg_ID (sr_Message r)")
    case True
    then have "msg_of ` set (add_score f rank r (y # ys)) = insert (sr_Message (f x)) (msg_of ` set ys)" by (simp add: y msg_of_def)
    then show ?thesis using Cons.prems by (simp add: y msg_of_def) blast
  next
    case False
    then have "msg_of ` set (add_score f rank r (y # ys)) = insert (sr_Message x) (msg_of ` set (add_score f rank r ys))" by (simp add: y msg_of_def)
    then show ?thesis using Cons by (simp add: y msg_of_def) blast
  qed
qed (simp add: msg_of_def)

lemma add_scores_messages:
  assumes "\<And>x. sr_Message (f x) = sr_Message x"
  shows "msg_of ` set (fold (\<lambda>(rank, r). add_score f rank r) rs xs) \<subseteq> sr_Message ` snd ` set rs \<union> msg_of ` set xs"
proof (induction rs arbitrary: xs)
  case (Cons p rs)
  obtain rank r where p: "p = (rank, r)" by fastforce
  let ?ys = "add_score f rank r xs"
  have "msg_of ` set (fold (\<lambda>(rank, r). add_score f rank r) rs ?ys) \<subseteq> sr_Message ` snd ` set rs \<union> insert (sr_Message r) (msg_of ` set xs)"
    by (rule order_trans [OF Cons.IH Un_mono [OF order_refl add_score_messages [OF assms]]])
  then show ?case by (simp add: p)
qed simp

lemma by_id_messages:
  assumes "(i, r, s) \<in> set (by_id sem ft)"
  shows "\<exists>r' \<in> set sem \<union> set ft. sr_Message r = sr_Message r'"
proof -
  have e: "snd ` set (enumerate 0 rs) = set rs" for rs :: "SearchResult list"
    by (metis list.set_map map_snd_enumerate)
  have "msg_of ` set (by_id sem ft) \<subseteq> sr_Message ` set ft \<union> (sr_Message ` set sem \<union> {})"
    using add_scores_messages [of "\<lambda>x. x\<lparr>sr_MatchType := ''hybrid''\<rparr>" "enumerate 0 ft"] add_scores_messages [of "\<lambda>x. x" "enumerate 0 sem" "[]"]
    unfolding by_id_def e by (fastforce simp: id_def)
  moreover have "msg_of (i, r, s) \<in> msg_of ` set (by_id sem ft)" using assms by (rule imageI)
  ultimately show ?thesis by (auto simp: msg_of_def)
qed

lemma mergeRRF_shown:
  assumes "\<And>xs. mset (order xs) = mset xs" "\<forall>r \<in> set sem \<union> set ft. shown svc a opts r" "r \<in> set (mergeRRF order sem ft limit)"
  shows "shown svc a opts r"
proof -
  obtain i s where "(i, r, s) \<in> set (insertion_sort (order (by_id sem ft)))"
    using assms(3) by (auto simp: mergeRRF_def dest!: in_set_takeD)
  then have "(i, r, s) \<in> set (by_id sem ft)"
    using insertion_sort_spec(1) [of "order (by_id sem ft)"] assms(1) by (metis set_mset_mset)
  from by_id_messages [OF this] assms(2) show ?thesis by (auto simp: shown_def)
qed

lemma hybrid_shown:
  assumes "hybridSearch svc a opts limit = Inr resp" "msg_inv (ss_mdb svc)" "0 < limit" "\<And>xs. mset (ss_order svc xs) = mset xs"
  shows "(\<forall>r \<in> set (sp_Results resp). shown svc a opts r) \<and> int (length (sp_Results resp)) \<le> limit"
proof -
  define sem where "sem = semanticSearch svc a opts limit"
  define ft where "ft = fulltextSearch svc a opts limit"
  define res :: "string + SearchResponse \<Rightarrow> SearchResult list" where "res = (\<lambda>r. case r of Inl _ \<Rightarrow> [] | Inr resp \<Rightarrow> sp_Results resp)"
  have s: "\<forall>r \<in> set (res sem). shown svc a opts r" "int (length (res sem)) \<le> limit"
    using semantic_shown [OF _ assms(2,3), of a opts] assms(3) unfolding res_def sem_def by (auto split: sum.split dest: sym)
  have f: "\<forall>r \<in> set (res ft). shown svc a opts r" "int (length (res ft)) \<le> limit"
    using fulltext_shown [OF _ assms(2,3), of a opts] assms(3) unfolding res_def ft_def by (auto split: sum.split dest: sym)
  have "sp_Results resp \<in> {[], res sem, res ft, mergeRRF (ss_order svc) (res sem) (res ft) limit}"
    using assms(1) by (auto simp: hybridSearch_def Let_def sem_def [symmetric] ft_def [symmetric] res_def split: sum.splits if_splits)
  moreover have "int (length (mergeRRF (ss_order svc) (res sem) (res ft) limit)) \<le> limit"
    using assms(3) by (simp add: mergeRRF_def)
  moreover have "\<forall>r \<in> set (mergeRRF (ss_order svc) (res sem) (res ft) limit). shown svc a opts r"
    using mergeRRF_shown [OF assms(4), of "res sem" "res ft" svc a opts _ limit] s(1) f(1) by blast
  ultimately consider "sp_Results resp = []" | "sp_Results resp = res sem" | "sp_Results resp = res ft"
    | "sp_Results resp = mergeRRF (ss_order svc) (res sem) (res ft) limit" by blast
  then show ?thesis
    using s f \<open>int (length (mergeRRF (ss_order svc) (res sem) (res ft) limit)) \<le> limit\<close>
      \<open>\<forall>r \<in> set (mergeRRF (ss_order svc) (res sem) (res ft) limit). shown svc a opts r\<close> assms(3)
    by cases simp_all
qed

lemma search_shown:
  assumes "Search svc a opts = Inr resp" and "msg_inv (ss_mdb svc)" and "\<And>xs. mset (ss_order svc xs) = mset xs"
  shows "(\<forall>r \<in> set (sp_Results resp). shown svc a opts r) \<and> length (sp_Results resp) \<le> 100"
proof -
  define limit where "limit = clamp_limit (sq_Limit opts)"
  have l: "0 < limit" "limit \<le> 100" by (simp_all add: limit_def clamp_limit_def Let_def)
  have "(\<forall>r \<in> set (sp_Results resp). shown svc a opts r) \<and> int (length (sp_Results resp)) \<le> limit"
  proof -
    consider (full) resp' where "fulltextSearch svc a opts limit = Inr resp'" "sp_Results resp = sp_Results resp'"
      | (sem) "semanticSearch svc a opts limit = Inr resp" | (hybrid) "hybridSearch svc a opts limit = Inr resp"
      using assms(1) by (auto simp: Search_def Let_def limit_def [symmetric] split: if_splits sum.splits)
    then show ?thesis
      using fulltext_shown [OF _ assms(2) l(1)] semantic_shown [OF _ assms(2) l(1)] hybrid_shown [OF _ assms(2) l(1) assms(3)]
      by cases auto
  qed
  then show ?thesis using l(2) by fastforce
qed

section \<open>Properties\<close>


definition toy_hit :: Message where
  "toy_hit = hd (md_msgs toy_messages)"

definition toy_svc :: "((id64 \<times> rat) list, rat) search_svc" where
  "toy_svc = \<lparr>ss_embed = Some (\<lambda>s. Inr (of_nat (length s))), ss_name = ''mock'', ss_index = Some (toy_index, [(1, 3)]),
     ss_fts = (\<lambda>_. Some [1]), ss_env = \<lparr>en_agents = [''ann'', ''bob''], en_channels = [(1, ''general'')], en_members = [(1, ''ann'')],
     en_flt = (\<lambda>_. False)\<rparr>,
     ss_mdb = toy_messages\<lparr>md_convs := [\<lparr>cv_ID = 1, cv_Subject = '''', cv_CreatedBy = ''bob'', cv_ChannelID = Some 1, cv_CreatedAt = 0, cv_UpdatedAt = 0\<rparr>],
       md_conv_seq := 1\<rparr>,
     ss_err_text = (\<lambda>_. ''''), ss_get_fails = (\<lambda>_. False), ss_member_fails = (\<lambda>_. False), ss_order = (\<lambda>xs. xs)\<rparr>"

definition toy_request :: SearchRequest where
  "toy_request = \<lparr>sq_Query = ''hey'', sq_Mode = '''', sq_Limit = 0, sq_ChannelID = None, sq_FromAgent = '''', sq_MinPriority = 0,
     sq_After = None, sq_Before = None, sq_MinSimilarity = 0\<rparr>"

lemma toy_svc_inv: "msg_inv (ss_mdb toy_svc)"
proof -
  have "trim_space ''hi'' \<noteq> ''''" by code_simp
  then show ?thesis
    by (auto simp: toy_svc_def toy_messages_def msg_inv_def msg_empty_def ids_ok_def content_ok_def claim_ok_def one_destination_def)
qed


text \<open>
  The merged list is the best of both lists: no message twice, ordered by the sum of its
  reciprocal ranks, as long as the limit and the lists allow, and nothing that is left out has a
  better score than something that is in, in whatever order the map was walked.
\<close>

theorem merge_rrf_top:
  assumes "\<And>xs. mset (order xs) = mset xs"
  shows "distinct (map res_id (mergeRRF order sem ft limit)) \<and>
    length (mergeRRF order sem ft limit) = min (nat limit) (card (res_id ` (set sem \<union> set ft))) \<and>
    sorted_wrt (\<lambda>r r'. rrf (res_id r') sem + rrf (res_id r') ft \<le> rrf (res_id r) sem + rrf (res_id r) ft) (mergeRRF order sem ft limit) \<and>
    (\<forall>r \<in> set (mergeRRF order sem ft limit). \<forall>r' \<in> set sem \<union> set ft. res_id r' \<notin> res_id ` set (mergeRRF order sem ft limit) \<longrightarrow>
       rrf (res_id r') sem + rrf (res_id r') ft \<le> rrf (res_id r) sem + rrf (res_id r) ft)"
proof -
  define zs where "zs = insertion_sort (order (by_id sem ft))"
  define sc where "sc i = rrf i sem + rrf i ft" for i
  define n where "n = nat limit"
  note b = by_id_spec [of sem ft]
  have perm: "mset zs = mset (by_id sem ft)" unfolding zs_def insertion_sort_spec(1) by (rule assms)
  then have setz: "set zs = set (by_id sem ft)" by (metis set_mset_mset)
  have sorted: "sorted_wrt (\<lambda>x y. sc_le y x) zs" unfolding zs_def by (rule insertion_sort_spec(2))
  have entry: "s = sc i \<and> res_id r = i" if "(i, r, s) \<in> set zs" for i r s
  proof -
    from that have m: "(i, r, s) \<in> set (by_id sem ft)" by (simp add: setz)
    from b [of i] have ok: "scored_ok (by_id sem ft)" and sc: "score_of i (by_id sem ft) = sc i" by (simp_all add: sc_def)
    from score_of_member [OF ok m] sc ok m show ?thesis by (auto simp: scored_ok_def)
  qed
  have dist: "distinct (map fst zs)"
    using b [of 0] perm by (metis mset_eq_imp_distinct_iff mset_map scored_ok_def)
  have ids: "map res_id (map (fst \<circ> snd) ys) = map fst ys" if "set ys \<subseteq> set zs" for ys
    using that entry by (induction ys) auto
  have fst_of: "fst x = res_id (fst (snd x))" "snd (snd x) = sc (fst x)" if "x \<in> set zs" for x
    using entry [of "fst x" "fst (snd x)" "snd (snd x)"] that by auto
  let ?m = "mergeRRF order sem ft limit"
  have m: "?m = map (fst \<circ> snd) (take n zs)" by (simp add: mergeRRF_def zs_def n_def)
  have mids: "map res_id ?m = map fst (take n zs)" unfolding m by (rule ids) (rule set_take_subset)
  have zids: "fst ` set zs = res_id ` (set sem \<union> set ft)" using b [of 0] setz by simp
  have 1: "distinct (map res_id ?m)" unfolding mids using dist by (simp add: take_map [symmetric])
  have "card (fst ` set zs) = length zs" using dist by (metis distinct_card length_map list.set_map)
  then have 2: "length ?m = min n (card (res_id ` (set sem \<union> set ft)))" by (simp add: m zids min.commute)
  have "sorted_wrt (\<lambda>x y. sc_le y x) (take n zs)" using sorted by (rule sorted_wrt_take)
  then have "sorted_wrt (\<lambda>x y. sc (res_id (fst (snd y))) \<le> sc (res_id (fst (snd x)))) (take n zs)"
    by (rule sorted_wrt_mono_rel [rotated]) (metis fst_of in_set_takeD)
  then have 3: "sorted_wrt (\<lambda>r r'. sc (res_id r') \<le> sc (res_id r)) ?m" by (simp add: m sorted_wrt_map)
  have 4: "sc (res_id r') \<le> sc (res_id r)"
    if "r \<in> set ?m" "r' \<in> set sem \<union> set ft" "res_id r' \<notin> res_id ` set ?m" for r r'
  proof -
    from that(1) obtain x where x: "x \<in> set (take n zs)" "r = fst (snd x)" by (auto simp: m)
    from that(2) zids obtain y where y: "y \<in> set zs" "fst y = res_id r'" by (metis imageE image_eqI)
    have "y \<notin> set (take n zs)" using that(3) y(2) mids by (metis image_eqI list.set_map)
    with y(1) have "y \<in> set (drop n zs)" by (metis UnE append_take_drop_id set_append)
    moreover have "sorted_wrt (\<lambda>x y. sc_le y x) (take n zs @ drop n zs)" using sorted by simp
    ultimately have "sc_le y x" using x(1) unfolding sorted_wrt_append by blast
    then show ?thesis using fst_of [OF y(1)] fst_of [OF in_set_takeD [OF x(1)]] x(2) y(2) by simp
  qed
  from 1 2 3 4 show ?thesis by (simp add: sc_def n_def)
qed

theorem merge_rrf_top_witness:
  "distinct (map res_id (mergeRRF rev [fulltext_result 0 toy_hit] [fulltext_result 0 toy_hit] 5)) \<and>
     length (mergeRRF rev [fulltext_result 0 toy_hit] [fulltext_result 0 toy_hit] 5) = 1"
  using merge_rrf_top [of rev "[fulltext_result 0 toy_hit]" "[fulltext_result 0 toy_hit]" 5] by simp

end
