(* ===== verification/Injection.thy ===== *)
theory Injection
  imports Search Dream_Worker
begin

text \<open>
  Proactive memory: the packet of relevant memories that goes with the answer of a tool
  (\<open>internal/search/injection.go\<close>) and the wrapper of the MCP tools that adds it
  (\<open>internal/mcp/injection_wrap.go\<close>). The providers of core memories, pins, statuses and pinned
  messages are optional functions, as the interfaces they are in the code. JSON is what its text
  decodes to; \<open>decode\<close> gives the object of a text, if it is one.
\<close>

section \<open>Data\<close>

record MemoryItem =
  im_ID :: id64
  im_FromAgent :: string
  im_Channel :: string
  im_Body :: string
  im_CreatedAt :: timestamp
  im_Score :: rat
  im_MatchType :: string
  im_Pinned :: bool
  im_Truncated :: bool

record ContextPacket =
  pk_Memories :: "MemoryItem list"
  pk_CoreMemory :: string
  pk_PacketChars :: int
  pk_PacketTokenEstimate :: int
  pk_RetrievalQuery :: string
  pk_SearchMode :: string

datatype core_error = CoreNoRows | CoreFailed

record InjectionOpts =
  io_BudgetTokens :: int
  io_MaxItems :: int
  io_MinScore :: rat
  io_IncludeCore :: bool
  io_CoreProvider :: "(string \<Rightarrow> string \<Rightarrow> core_error + string) option"
  io_PinProvider :: "(string \<Rightarrow> id64 list option) option"
  io_StatusProvider :: "(id64 list \<Rightarrow> (id64 \<Rightarrow> string option) option) option"
  io_MessageLookup :: "(id64 list \<Rightarrow> MemoryItem list option) option"
  io_RecentWindowDays :: int

datatype inj_error = NilAgent | InjSearchFailed string | RecencyFailed | CoreMemoryFailed

text \<open>What retrieval reads: the search service, the agents, the clock and which lookups fail.\<close>

record ('g, 'v) inj_env =
  ie_svc :: "('g, 'v) search_svc option"
  ie_reg :: reg_db
  ie_now :: timestamp
  ie_owner_fails :: "string \<Rightarrow> bool"
  ie_channel_fails :: "id64 \<Rightarrow> bool"
  ie_recent_fails :: bool
  ie_walk :: "id64 set \<Rightarrow> id64 list"

section \<open>The packet\<close>

definition EstimateTokens :: "int \<Rightarrow> int" where
  "EstimateTokens chars = (if chars \<le> 0 then 0 else (chars + 3) div 4)"

definition itemChars :: "MemoryItem \<Rightarrow> int" where
  "itemChars it = int (length (im_Body it) + length (im_FromAgent it) + length (im_Channel it)) + 32"

definition packetChars :: "MemoryItem list \<Rightarrow> string \<Rightarrow> int" where
  "packetChars memories core = sum_list (map itemChars memories) + int (length core)"

definition truncate_item :: "int \<Rightarrow> MemoryItem \<Rightarrow> MemoryItem" where
  "truncate_item n it = it\<lparr>im_Body := take (nat n) (im_Body it), im_Truncated := True\<rparr>"

fun admit :: "int \<Rightarrow> int \<Rightarrow> int \<Rightarrow> int \<Rightarrow> MemoryItem list \<Rightarrow> MemoryItem list" where
  "admit maxItems budget i used [] = []"
| "admit maxItems budget i used (it # its) =
     (let cost = EstimateTokens (itemChars it); remaining = budget - used;
          overhead = itemChars it - int (length (im_Body it)); maxBodyChars = remaining * 4 - overhead
      in if maxItems \<le> i then []
         else if used + cost \<le> budget then it # admit maxItems budget (i + 1) (used + cost) its
         else if remaining \<le> 0 then []
         else if maxBodyChars \<le> 0 then []
         else if int (length (im_Body it)) \<le> maxBodyChars then it # admit maxItems budget (i + 1) (used + cost) its
         else [truncate_item maxBodyChars it])"

definition applyTokenBudget :: "MemoryItem list \<Rightarrow> int \<Rightarrow> int \<Rightarrow> MemoryItem list" where
  "applyTokenBudget items maxItems budgetTokens = (if items = [] \<or> budgetTokens \<le> 0 then [] else admit maxItems budgetTokens 0 0 items)"

definition inactive :: "string option \<Rightarrow> bool" where
  "inactive st = (case st of None \<Rightarrow> False | Some s \<Rightarrow> s \<noteq> '''' \<and> s \<noteq> ''active'')"

definition applyStatusFilter :: "MemoryItem list \<Rightarrow> id64 list \<Rightarrow> InjectionOpts \<Rightarrow> MemoryItem list" where
  "applyStatusFilter items spared opts =
     (case io_StatusProvider opts of
        None \<Rightarrow> items
      | Some Statuses \<Rightarrow>
          if items = [] then items
          else case Statuses (map im_ID items) of
                 None \<Rightarrow> items
               | Some st \<Rightarrow> filter (\<lambda>it. \<not> inactive (st (im_ID it)) \<or> im_ID it \<in> set spared) items)"

definition loadPinIDs :: "InjectionOpts \<Rightarrow> string \<Rightarrow> id64 list" where
  "loadPinIDs opts ownerID =
     (case io_PinProvider opts of
        None \<Rightarrow> []
      | Some ListForOwner \<Rightarrow> if ownerID = '''' then [] else case ListForOwner ownerID of None \<Rightarrow> [] | Some ids \<Rightarrow> ids)"

definition pin_item :: "MemoryItem \<Rightarrow> MemoryItem" where
  "pin_item it = it\<lparr>im_Pinned := True, im_Score := 1\<rparr>"

text \<open>\<open>walk\<close> is the order in which Go walks the set of the missing ids.\<close>

definition applyPinOverlay :: "(id64 set \<Rightarrow> id64 list) \<Rightarrow> MemoryItem list \<Rightarrow> id64 list \<Rightarrow> InjectionOpts \<Rightarrow> MemoryItem list" where
  "applyPinOverlay walk items pinIDs opts =
     (let marked = map (\<lambda>it. if im_ID it \<in> set pinIDs then pin_item it else it) items;
          missing = walk (set pinIDs - set (map im_ID items))
      in if pinIDs = [] then items
         else case (if missing = [] then None else Option.bind (io_MessageLookup opts) (\<lambda>Lookup. Lookup missing)) of
                None \<Rightarrow> marked
              | Some extra \<Rightarrow>
                  (let keep = (case io_StatusProvider opts of
                                 None \<Rightarrow> extra
                               | Some Statuses \<Rightarrow>
                                   (case Statuses missing of
                                      None \<Rightarrow> extra | Some st \<Rightarrow> filter (\<lambda>it. \<not> inactive (st (im_ID it))) extra))
                   in map (\<lambda>it. (pin_item it)\<lparr>im_MatchType := ''pinned''\<rparr>) keep @ marked))"

section \<open>Retrieval\<close>

definition result_score :: "SearchResult \<Rightarrow> rat" where
  "result_score r = (if sr_SimilarityScore r = 0 then sr_RelevanceScore r else sr_SimilarityScore r)"

definition channel_name :: "('g, 'v) inj_env \<Rightarrow> id64 option \<Rightarrow> string" where
  "channel_name env ch =
     (case (ie_svc env, ch) of
        (Some svc, Some c) \<Rightarrow>
          if ie_channel_fails env c then '''' else (case map_of (en_channels (ss_env svc)) c of None \<Rightarrow> '''' | Some n \<Rightarrow> n)
      | _ \<Rightarrow> '''')"

definition memory_of :: "('g, 'v) inj_env \<Rightarrow> SearchResult \<Rightarrow> MemoryItem" where
  "memory_of env r = \<lparr>im_ID = msg_ID (sr_Message r), im_FromAgent = msg_FromAgent (sr_Message r),
     im_Channel = channel_name env (msg_ChannelID (sr_Message r)), im_Body = msg_Body (sr_Message r),
     im_CreatedAt = msg_CreatedAt (sr_Message r), im_Score = result_score r, im_MatchType = sr_MatchType r,
     im_Pinned = False, im_Truncated = False\<rparr>"

definition author_owned :: "('g, 'v) inj_env \<Rightarrow> string \<Rightarrow> string \<Rightarrow> bool" where
  "author_owned env ownerID a \<longleftrightarrow> OwnerFor (ie_owner_fails env a) a (ie_reg env) = Inr ownerID"

definition filterAndScore :: "('g, 'v) inj_env \<Rightarrow> SearchResult list \<Rightarrow> string \<Rightarrow> InjectionOpts \<Rightarrow> MemoryItem list" where
  "filterAndScore env results ownerID opts =
     map (memory_of env) (filter (\<lambda>r. \<not> (0 < io_MinScore opts \<and> result_score r < io_MinScore opts) \<and>
       author_owned env ownerID (msg_FromAgent (sr_Message r))) results)"

text \<open>The rows of the recency query: agents joined by name, \<open>open-brain\<close> alone.\<close>

definition recent_row :: "('g, 'v) inj_env \<Rightarrow> msg_env \<Rightarrow> int \<Rightarrow> Message \<Rightarrow> bool" where
  "recent_row env menv windowDays m \<longleftrightarrow>
     (case msg_ChannelID m of None \<Rightarrow> False | Some c \<Rightarrow> map_of (en_channels menv) c = Some ''open-brain'') \<and> msg_Body m \<noteq> '''' \<and>
     ie_now env div second - windowDays * 86400 < msg_CreatedAt m"

definition recentMemoriesForOwner :: "('g, 'v) inj_env \<Rightarrow> string \<Rightarrow> int \<Rightarrow> int \<Rightarrow> MemoryItem list option" where
  "recentMemoriesForOwner env ownerID limit windowDays =
     (let days = (if windowDays \<le> 0 then 14 else windowDays)
      in case ie_svc env of
           None \<Rightarrow> Some []
         | Some svc \<Rightarrow>
             if ownerID = '''' \<or> limit \<le> 0 then Some []
             else if ie_recent_fails env then None
             else Some (map (\<lambda>m. \<lparr>im_ID = msg_ID m, im_FromAgent = msg_FromAgent m, im_Channel = ''open-brain'', im_Body = msg_Body m,
                    im_CreatedAt = msg_CreatedAt m, im_Score = 1, im_MatchType = ''recent'', im_Pinned = False, im_Truncated = False\<rparr>)
                  (limit_offset limit 0 (sort_key (\<lambda>m. - msg_ID m)
                    (concat (map (\<lambda>m. map (\<lambda>_. m) (filter (\<lambda>a. ag_Name a = msg_FromAgent m \<and> show_int (ag_OwnerID a) = ownerID) (rg_agents (ie_reg env))))
                       (filter (recent_row env (ss_env svc) days) (md_msgs (ss_mdb svc)))))))))"

definition callerOwner :: "reg_agent \<Rightarrow> string" where
  "callerOwner a = (if ag_OwnerID a = 0 then '''' else show_int (ag_OwnerID a))"

definition retrieve :: "('g, 'v) inj_env \<Rightarrow> reg_agent \<Rightarrow> string \<Rightarrow> int \<Rightarrow> InjectionOpts \<Rightarrow> inj_error + MemoryItem list \<times> string" where
  "retrieve env agent query wanted opts =
     (case ie_svc env of
        None \<Rightarrow> Inr ([], ModeAuto)
      | Some svc \<Rightarrow>
          if callerOwner agent = '''' then Inr ([], ModeAuto)
          else if query \<noteq> '''' then
            (case Search svc (ag_Name agent) \<lparr>sq_Query = query, sq_Mode = ModeAuto, sq_Limit = wanted, sq_ChannelID = None, sq_FromAgent = '''',
                    sq_MinPriority = 0, sq_After = None, sq_Before = None, sq_MinSimilarity = io_MinScore opts\<rparr> of
               Inl e \<Rightarrow> Inl (InjSearchFailed e)
             | Inr resp \<Rightarrow> Inr (filterAndScore env (sp_Results resp) (callerOwner agent) opts, sp_SearchMode resp))
          else (case recentMemoriesForOwner env (callerOwner agent) wanted (io_RecentWindowDays opts) of
                  None \<Rightarrow> Inl RecencyFailed
                | Some items \<Rightarrow> Inr (items, ''recent'')))"

definition max_items :: "InjectionOpts \<Rightarrow> int" where
  "max_items opts = (if io_MaxItems opts \<le> 0 then 5 else io_MaxItems opts)"

definition wanted_limit :: "InjectionOpts \<Rightarrow> int" where
  "wanted_limit opts = (if max_items opts * 3 < 15 then 15 else max_items opts * 3)"

text \<open>Statuses, then pins, then the budget.\<close>

definition select_memories :: "('g, 'v) inj_env \<Rightarrow> string \<Rightarrow> InjectionOpts \<Rightarrow> MemoryItem list \<Rightarrow> MemoryItem list" where
  "select_memories env ownerID opts items =
     (let active = applyStatusFilter items [] opts; pins = loadPinIDs opts ownerID;
          pinned = (if pins = [] then active else applyPinOverlay (ie_walk env) (applyStatusFilter active pins opts) pins opts)
      in applyTokenBudget pinned (max_items opts) (io_BudgetTokens opts))"

definition core_blob :: "reg_agent \<Rightarrow> InjectionOpts \<Rightarrow> inj_error + string" where
  "core_blob agent opts =
     (case io_CoreProvider opts of
        None \<Rightarrow> Inr ''''
      | Some Get \<Rightarrow>
          if \<not> io_IncludeCore opts \<or> callerOwner agent = '''' then Inr ''''
          else case Get (callerOwner agent) (ag_Name agent) of
                 Inr blob \<Rightarrow> Inr blob
               | Inl CoreNoRows \<Rightarrow> Inr ''''
               | Inl CoreFailed \<Rightarrow> Inl CoreMemoryFailed)"

definition BuildContextPacket ::
  "('g, 'v) inj_env \<Rightarrow> reg_agent option \<Rightarrow> string \<Rightarrow> InjectionOpts \<Rightarrow> inj_error + ContextPacket option" where
  "BuildContextPacket env agent query opts =
     (if io_BudgetTokens opts = 0 then Inr None
      else case agent of
        None \<Rightarrow> Inl NilAgent
      | Some a \<Rightarrow>
          (case retrieve env a query (wanted_limit opts) opts of
             Inl e \<Rightarrow> Inl e
           | Inr (items, mode) \<Rightarrow>
               (let memories = select_memories env (callerOwner a) opts items
                in case core_blob a opts of
                     Inl e \<Rightarrow> Inl e
                   | Inr core \<Rightarrow>
                       if memories = [] \<and> core = '''' then Inr None
                       else (let chars = packetChars memories core
                             in Inr (Some \<lparr>pk_Memories = memories, pk_CoreMemory = core, pk_PacketChars = chars,
                                  pk_PacketTokenEstimate = EstimateTokens chars, pk_RetrievalQuery = query, pk_SearchMode = mode\<rparr>)))))"

section \<open>The wrapper\<close>

datatype tool_content = TextContent string | MergedContent "(string \<times> json) list" ContextPacket | OtherContent

record tool_result =
  tr_IsError :: bool
  tr_Content :: "tool_content list"

datatype inj_metric = InjectionSkipped string string | InjectionPacket string int int

record ('g, 'v) wrap_config =
  wc_Cfg :: MemoryConfig
  wc_Env :: "('g, 'v) inj_env"
  wc_Injections :: bool
  wc_QuerySource :: "(string \<Rightarrow> json option \<Rightarrow> (string \<times> json) list \<Rightarrow> string) option"
  wc_IncludeCore :: bool
  wc_CoreProvider :: "(string \<Rightarrow> string \<Rightarrow> core_error + string) option"

definition json_object_text :: "string \<Rightarrow> bool" where
  "json_object_text s =
     (case dropWhile (\<lambda>c. c \<in> set [CHR '' '', CHR 0x09, CHR 0x0A, CHR 0x0D]) s of [] \<Rightarrow> False | c # _ \<Rightarrow> c = CHR ''{'')"

definition singleJSONText :: "tool_result \<Rightarrow> string option" where
  "singleJSONText res =
     (case tr_Content res of [TextContent s] \<Rightarrow> if json_object_text s then Some s else None | _ \<Rightarrow> None)"

text \<open>The same loop over the digits as in \<open>auto_links.go\<close>.\<close>

definition formatInt64 :: "64 word \<Rightarrow> string option" where
  "formatInt64 v = itoaInt64 v"

definition ownerIDString :: "id64 \<Rightarrow> string option" where
  "ownerIDString i = (if i = 0 then Some '''' else formatInt64 (word_of_int i))"

definition recordInjection :: "reg_agent \<Rightarrow> string \<Rightarrow> ContextPacket \<Rightarrow> InjectionRecord" where
  "recordInjection agent toolName pkt =
     \<lparr>ij_ID = 0, ij_OwnerID = (case ownerIDString (ag_OwnerID agent) of None \<Rightarrow> '''' | Some s \<Rightarrow> s), ij_AgentName = ag_Name agent,
      ij_ToolName = toolName, ij_PacketSizeChars = pk_PacketChars pkt, ij_PacketItemsCount = int (length (pk_Memories pkt)),
      ij_MessageIDs = map im_ID (pk_Memories pkt), ij_CoreBlobIncluded = (pk_CoreMemory pkt \<noteq> ''''), ij_CreatedAt = None\<rparr>"

definition wrap_window_days :: "MemoryConfig \<Rightarrow> int" where
  "wrap_window_days cfg = (let d = sint (mf_DreamRecentWindow cfg) div (24 * hour_ns) in if d < 1 then 14 else d)"

definition wrap_opts :: "('g, 'v) wrap_config \<Rightarrow> InjectionOpts" where
  "wrap_opts wc =
     \<lparr>io_BudgetTokens = mf_InjectionBudgetTokens (wc_Cfg wc), io_MaxItems = mf_InjectionMaxItems (wc_Cfg wc),
      io_MinScore = mf_InjectionMinScore (wc_Cfg wc), io_IncludeCore = wc_IncludeCore wc, io_CoreProvider = wc_CoreProvider wc,
      io_PinProvider = None, io_StatusProvider = None, io_MessageLookup = None, io_RecentWindowDays = wrap_window_days (wc_Cfg wc)\<rparr>"

text \<open>\<open>relevant_context\<close> takes the place of a field of that name.\<close>

definition merge_context :: "(string \<times> json) list \<Rightarrow> ContextPacket \<Rightarrow> tool_content" where
  "merge_context body pkt = MergedContent (filter (\<lambda>kv. fst kv \<noteq> ''relevant_context'') body) pkt"

definition WrapInjection ::
  "(string \<Rightarrow> (string \<times> json) list option) \<Rightarrow> bool \<Rightarrow> ('g, 'v) wrap_config \<Rightarrow> string \<Rightarrow> reg_agent option \<Rightarrow> json option \<Rightarrow>
   tool_result option \<times> bool \<Rightarrow> (tool_result option \<times> bool) \<times> inj_metric list \<times> InjectionRecord option" where
  "WrapInjection decode marshal_fails wc toolName agent args res =
     (case res of
        (Some r, False) \<Rightarrow>
          if \<not> mf_InjectionEnabled (wc_Cfg wc) \<or> tr_IsError r then (res, [], None)
          else (case Option.bind (singleJSONText r) decode of
                  None \<Rightarrow> (res, [], None)
                | Some body \<Rightarrow>
                    (case agent of
                       None \<Rightarrow> (res, [InjectionSkipped toolName ''no_owner''], None)
                     | Some a \<Rightarrow>
                         (let query = (case wc_QuerySource wc of None \<Rightarrow> '''' | Some Q \<Rightarrow> Q toolName args body)
                          in case BuildContextPacket (wc_Env wc) agent query (wrap_opts wc) of
                               Inl _ \<Rightarrow> (res, [], None)
                             | Inr None \<Rightarrow> (res, [InjectionSkipped toolName ''empty_pool''], None)
                             | Inr (Some pkt) \<Rightarrow>
                                 (let m = [InjectionPacket toolName (int (length (pk_Memories pkt))) (pk_PacketChars pkt)]
                                  in if marshal_fails then (res, m, None)
                                     else ((Some (r\<lparr>tr_Content := [merge_context body pkt]\<rparr>), False), m,
                                           if wc_Injections wc then Some (recordInjection a toolName pkt) else None)))))
      | _ \<Rightarrow> (res, [], None))"

section \<open>Budget and scope\<close>

lemma EstimateTokens_pos: "0 < itemChars it" "0 \<le> EstimateTokens n"
  by (simp_all add: itemChars_def EstimateTokens_def pos_imp_zdiv_nonneg_iff)

text \<open>The branch that takes an item unchanged although it does not fit is never reached.\<close>

lemma unchanged_fits:
  assumes "int (length (im_Body it)) \<le> (budget - used) * 4 - (itemChars it - int (length (im_Body it)))"
  shows "used + EstimateTokens (itemChars it) \<le> budget"
proof -
  have "c \<le> 4 * r \<Longrightarrow> 0 < c \<Longrightarrow> (c + 3) div 4 \<le> r" for c r :: int by presburger
  from this [of "itemChars it" "budget - used"] assms EstimateTokens_pos(1) [of it] show ?thesis by (simp add: EstimateTokens_def)
qed

lemma truncated_tokens:
  assumes "0 < n" "n < int (length (im_Body it))" "n = r * 4 - (itemChars it - int (length (im_Body it)))"
  shows "EstimateTokens (itemChars (truncate_item n it)) = r"
proof -
  have "itemChars (truncate_item n it) = itemChars it - int (length (im_Body it)) + n"
    using assms(1,2) by (simp add: itemChars_def truncate_item_def)
  with assms(3) have "itemChars (truncate_item n it) = r * 4" by simp
  with EstimateTokens_pos(1) [of "truncate_item n it"] show ?thesis by (simp add: EstimateTokens_def)
qed

definition tokens :: "MemoryItem list \<Rightarrow> int" where
  "tokens its = sum_list (map (EstimateTokens \<circ> itemChars) its)"

abbreviation item_room :: "int \<Rightarrow> int \<Rightarrow> MemoryItem \<Rightarrow> int" where
  "item_room budget used it \<equiv> (budget - used) * 4 - (itemChars it - int (length (im_Body it)))"

lemma admit_cases:
  obtains (stop) "admit maxItems budget i used (it # its) = []"
    | (fits) "used + EstimateTokens (itemChars it) \<le> budget" "\<not> maxItems \<le> i"
        "admit maxItems budget i used (it # its) = it # admit maxItems budget (i + 1) (used + EstimateTokens (itemChars it)) its"
    | (cut) "0 < item_room budget used it" "item_room budget used it < int (length (im_Body it))" "\<not> maxItems \<le> i"
        "admit maxItems budget i used (it # its) = [truncate_item (item_room budget used it) it]"
proof (cases "maxItems \<le> i \<or> used + EstimateTokens (itemChars it) \<le> budget")
  case True
  then show ?thesis using that(1,2) by (cases "maxItems \<le> i") (simp_all only: admit.simps Let_def if_True if_False simp_thms)
next
  case False
  then have f: "\<not> maxItems \<le> i" "\<not> used + EstimateTokens (itemChars it) \<le> budget" by simp_all
  with unchanged_fits [of it budget used] have small: "\<not> int (length (im_Body it)) \<le> item_room budget used it" by blast
  show ?thesis
  proof (cases "budget - used \<le> 0 \<or> item_room budget used it \<le> 0")
    case True
    then have "admit maxItems budget i used (it # its) = []" using f
      by (cases "budget - used \<le> 0") (simp_all only: admit.simps Let_def if_True if_False simp_thms)
    then show ?thesis by (rule that(1))
  next
    case False
    then have "admit maxItems budget i used (it # its) = [truncate_item (item_room budget used it) it]"
      using f small by (simp only: admit.simps Let_def if_False simp_thms de_Morgan_disj)
    with False small f show ?thesis by (intro that(3)) (simp_all only: not_le de_Morgan_disj simp_thms)
  qed
qed

lemma admit_budget: "used \<le> budget \<Longrightarrow> used + tokens (admit maxItems budget i used its) \<le> budget"
proof (induction its arbitrary: i used)
  case (Cons it its)
  show ?case
  proof (cases rule: admit_cases [of maxItems budget i used it its])
    case fits
    from Cons.IH [OF fits(1), of "i + 1"] fits(3) show ?thesis by (simp add: tokens_def)
  next
    case cut
    from truncated_tokens [OF cut(1,2) refl] show ?thesis unfolding cut(4) by (simp add: tokens_def)
  qed (use Cons.prems in \<open>simp add: tokens_def\<close>)
qed (simp add: tokens_def)

lemma admit_length: "int (length (admit maxItems budget i used its)) \<le> max 0 (maxItems - i)"
proof (induction its arbitrary: i used)
  case (Cons it its)
  show ?case
  proof (cases rule: admit_cases [of maxItems budget i used it its])
    case fits
    from Cons.IH [of "i + 1" "used + EstimateTokens (itemChars it)"] fits(2,3) show ?thesis by simp
  qed simp_all
qed simp

lemma admit_items: "it' \<in> set (admit maxItems budget i used its) \<Longrightarrow> \<exists>it \<in> set its. it' = it \<or> (\<exists>n. it' = truncate_item n it)"
proof (induction its arbitrary: i used)
  case (Cons it its)
  show ?case
  proof (cases rule: admit_cases [of maxItems budget i used it its])
    case fits
    from Cons.IH [of "i + 1" "used + EstimateTokens (itemChars it)"] Cons.prems fits(3) show ?thesis by auto
  qed (use Cons.prems in auto)
qed simp

lemma EstimateTokens_add: "0 \<le> a \<Longrightarrow> 0 \<le> b \<Longrightarrow> EstimateTokens (a + b) \<le> EstimateTokens a + EstimateTokens b"
proof -
  have "0 < a \<Longrightarrow> 0 < b \<Longrightarrow> (a + b + 3) div 4 \<le> (a + 3) div 4 + (b + 3) div 4" by presburger
  then show "0 \<le> a \<Longrightarrow> 0 \<le> b \<Longrightarrow> ?thesis" by (simp add: EstimateTokens_def)
qed

lemma packet_tokens: "EstimateTokens (packetChars its '''') \<le> tokens its"
proof (induction its)
  case (Cons it its)
  have "0 \<le> packetChars its ''''" by (induction its) (simp_all add: packetChars_def itemChars_def)
  with EstimateTokens_add [of "itemChars it" "packetChars its ''''"] EstimateTokens_pos(1) [of it] Cons
  show ?case by (simp add: tokens_def packetChars_def)
qed (simp add: packetChars_def tokens_def EstimateTokens_def)

lemma show_nat_inj: "show_nat m = show_nat n \<Longrightarrow> m = n"
  by (metis option.inject parse_nat_show)

lemma show_int_inj: "show_int i = show_int j \<longleftrightarrow> i = j"
proof
  have minus: "show_nat n \<noteq> CHR ''-'' # s" for n s
  proof
    assume "show_nat n = CHR ''-'' # s"
    with show_nat_digits [of "CHR ''-''" n] show False by (simp add: is_alnum_def)
  qed
  assume "show_int i = show_int j"
  then show "i = j" using minus minus [THEN not_sym] by (auto simp: show_int_def dest: show_nat_inj split: if_splits)
qed simp

lemma callerOwner_owner: "callerOwner a \<noteq> '''' \<Longrightarrow> ag_OwnerID a \<noteq> 0 \<and> callerOwner a = show_int (ag_OwnerID a)"
  by (simp add: callerOwner_def split: if_splits)

text \<open>What an item of the packet shows: the beginning of a stored message of an agent of the same owner.\<close>

definition same_owner :: "reg_db \<Rightarrow> msg_db \<Rightarrow> id64 \<Rightarrow> MemoryItem \<Rightarrow> bool" where
  "same_owner reg mdb owner it \<longleftrightarrow> owner \<noteq> 0 \<and>
     (\<exists>m \<in> set (md_msgs mdb). im_ID it = msg_ID m \<and> im_FromAgent it = msg_FromAgent m \<and>
        (\<exists>n. im_Body it = take n (msg_Body m)) \<and> (\<exists>b \<in> set (rg_agents reg). ag_Name b = msg_FromAgent m \<and> ag_OwnerID b = owner))"

lemma same_owner_truncate: "same_owner reg mdb owner it \<Longrightarrow> same_owner reg mdb owner (truncate_item n it)"
proof -
  assume "same_owner reg mdb owner it"
  then obtain m k where m: "owner \<noteq> 0" "m \<in> set (md_msgs mdb)" "im_ID it = msg_ID m" "im_FromAgent it = msg_FromAgent m"
    "im_Body it = take k (msg_Body m)" "\<exists>b \<in> set (rg_agents reg). ag_Name b = msg_FromAgent m \<and> ag_OwnerID b = owner"
    unfolding same_owner_def by blast
  have "take (nat n) (im_Body it) = take (min (nat n) k) (msg_Body m)" by (simp add: m(5))
  then have "\<exists>k. im_Body (truncate_item n it) = take k (msg_Body m)" by (auto simp: truncate_item_def)
  then show ?thesis unfolding same_owner_def using m by (intro conjI bexI [of _ m]) (simp_all add: truncate_item_def)
qed

lemma author_owned_agent:
  assumes "author_owned env (show_int owner) a"
  shows "owner \<noteq> 0 \<and> (\<exists>b \<in> set (rg_agents (ie_reg env)). ag_Name b = a \<and> ag_OwnerID b = owner)"
  using assms by (auto simp: author_owned_def OwnerFor_def show_int_inj dest!: find_row_Some split: if_splits option.splits)

lemma retrieve_scope:
  assumes "retrieve env a query wanted opts = Inr (items, mode)" "ie_svc env = Some svc" "msg_inv (ss_mdb svc)"
    "\<And>xs. mset (ss_order svc xs) = mset xs" "it \<in> set items"
  shows "same_owner (ie_reg env) (ss_mdb svc) (ag_OwnerID a) it"
proof -
  have co: "callerOwner a \<noteq> ''''" using assms(1,2,5) by (auto simp: retrieve_def split: if_splits)
  note own = callerOwner_owner [OF co]
  show ?thesis
  proof (cases "query = ''''")
    case False
    with assms(1,2) co obtain resp req where r: "Search svc (ag_Name a) req = Inr resp" "items = filterAndScore env (sp_Results resp) (callerOwner a) opts"
      by (auto simp: retrieve_def split: sum.splits)
    with assms(5) obtain x where x: "x \<in> set (sp_Results resp)" "it = memory_of env x" "author_owned env (callerOwner a) (msg_FromAgent (sr_Message x))"
      by (auto simp: filterAndScore_def)
    from search_shown [OF r(1) assms(3,4)] x(1) obtain m where m: "m \<in> set (md_msgs (ss_mdb svc))"
      "sr_Message x = m \<or> sr_Message x = m\<lparr>msg_ReplyTo := None\<rparr>" by (auto simp: shown_def)
    have eq: "msg_ID (sr_Message x) = msg_ID m" "msg_FromAgent (sr_Message x) = msg_FromAgent m" "msg_Body (sr_Message x) = msg_Body m"
      using m(2) by auto
    have "\<exists>n. msg_Body m = take n (msg_Body m)" by (metis take_all_iff order_refl)
    then show ?thesis
      using author_owned_agent [of env "ag_OwnerID a" "msg_FromAgent m"] x(2,3) own m(1)
      unfolding same_owner_def memory_of_def eq by (intro conjI bexI [of _ m]) (simp_all add: eq)
  next
    case True
    with assms(1,2) co obtain mode' where "recentMemoriesForOwner env (callerOwner a) wanted (io_RecentWindowDays opts) = Some items"
      by (auto simp: retrieve_def split: option.splits)
    with assms(2,5) co obtain m b where m: "m \<in> set (md_msgs (ss_mdb svc))" "im_ID it = msg_ID m" "im_FromAgent it = msg_FromAgent m"
      "im_Body it = msg_Body m" "b \<in> set (rg_agents (ie_reg env))" "ag_Name b = msg_FromAgent m" "show_int (ag_OwnerID b) = callerOwner a"
      by (auto simp: recentMemoriesForOwner_def Let_def split: if_splits dest!: subsetD [OF set_limit_offset])
    have "\<exists>n. msg_Body m = take n (msg_Body m)" by (metis take_all_iff order_refl)
    with m own show ?thesis by (auto simp: same_owner_def show_int_inj)
  qed
qed

lemma select_memories_items:
  assumes "it \<in> set (select_memories env owner opts items)" "io_PinProvider opts = None"
  shows "\<exists>it' \<in> set items. it = it' \<or> (\<exists>n. it = truncate_item n it')"
proof -
  have "set (applyStatusFilter items [] opts) \<subseteq> set items"
    by (auto simp: applyStatusFilter_def split: option.splits if_splits)
  moreover have "it \<in> set (applyTokenBudget (applyStatusFilter items [] opts) (max_items opts) (io_BudgetTokens opts))"
    using assms by (simp add: select_memories_def loadPinIDs_def)
  ultimately show ?thesis by (auto simp: applyTokenBudget_def dest!: admit_items split: if_splits)
qed

lemma BuildContextPacket_parts:
  assumes "BuildContextPacket env (Some a) query opts = Inr (Some pkt)"
  obtains items mode where "retrieve env a query (wanted_limit opts) opts = Inr (items, mode)"
    "pk_Memories pkt = select_memories env (callerOwner a) opts items" "core_blob a opts = Inr (pk_CoreMemory pkt)"
    "pk_PacketTokenEstimate pkt = EstimateTokens (packetChars (pk_Memories pkt) (pk_CoreMemory pkt))"
  using assms that by (auto simp: BuildContextPacket_def Let_def split: if_splits sum.splits)

lemma select_memories_budget:
  assumes "0 < io_BudgetTokens opts"
  shows "tokens (select_memories env owner opts items) \<le> io_BudgetTokens opts"
    "int (length (select_memories env owner opts items)) \<le> max_items opts"
proof -
  obtain xs where s: "select_memories env owner opts items = applyTokenBudget xs (max_items opts) (io_BudgetTokens opts)"
    by (simp add: select_memories_def Let_def)
  show "tokens (select_memories env owner opts items) \<le> io_BudgetTokens opts"
    using admit_budget [of 0 "io_BudgetTokens opts" "max_items opts" 0 xs] assms unfolding s by (auto simp: applyTokenBudget_def tokens_def)
  have "0 < max_items opts" by (simp add: max_items_def)
  then show "int (length (select_memories env owner opts items)) \<le> max_items opts"
    using admit_length [of "max_items opts" "io_BudgetTokens opts" 0 0 xs] unfolding s by (simp add: applyTokenBudget_def)
qed

section \<open>Properties\<close>

text \<open>
  C22. Memories stay with their owner: whatever the search finds, every memory a tool answer is
  given is the beginning of a stored message of an agent of the same owner as the caller, and an
  agent without an owner is given none; the rest of the answer is what the tool returned.
\<close>

theorem injection_scope:
  assumes "WrapInjection decode marshal_fails wc toolName (Some a) args (Some r, False) = ((Some r', e), ms, rec)"
    and "tr_Content r' = [MergedContent kvs pkt]" and "tr_Content r = [TextContent txt]"
    and "ie_svc (wc_Env wc) = Some svc" and "msg_inv (ss_mdb svc)" and "\<And>xs. mset (ss_order svc xs) = mset xs"
  shows "(\<forall>it \<in> set (pk_Memories pkt). same_owner (ie_reg (wc_Env wc)) (ss_mdb svc) (ag_OwnerID a) it) \<and>
    (\<exists>body. decode txt = Some body \<and> kvs = filter (\<lambda>kv. fst kv \<noteq> ''relevant_context'') body) \<and> \<not> e"
proof -
  obtain body query where b: "decode txt = Some body" "kvs = filter (\<lambda>kv. fst kv \<noteq> ''relevant_context'') body" "\<not> e"
    "BuildContextPacket (wc_Env wc) (Some a) query (wrap_opts wc) = Inr (Some pkt)"
    using assms(1,2,3) by (auto simp: WrapInjection_def singleJSONText_def merge_context_def Let_def split: if_splits option.splits sum.splits bind_splits)
  obtain items mode where p: "retrieve (wc_Env wc) a query (wanted_limit (wrap_opts wc)) (wrap_opts wc) = Inr (items, mode)"
    "pk_Memories pkt = select_memories (wc_Env wc) (callerOwner a) (wrap_opts wc) items"
    using b(4) by (rule BuildContextPacket_parts)
  have "same_owner (ie_reg (wc_Env wc)) (ss_mdb svc) (ag_OwnerID a) it" if "it \<in> set (pk_Memories pkt)" for it
  proof -
    have "io_PinProvider (wrap_opts wc) = None" by (simp add: wrap_opts_def)
    from select_memories_items [OF that [unfolded p(2)] this] obtain it' where it': "it' \<in> set items"
      "it = it' \<or> (\<exists>n. it = truncate_item n it')" by blast
    from retrieve_scope [OF p(1) assms(4-6) it'(1)] it'(2) same_owner_truncate show ?thesis by metis
  qed
  with b show ?thesis by blast
qed

text \<open>
  The memories of a packet never take more tokens than the budget nor more places than the
  configured number, whatever was retrieved or pinned; the estimate of a packet without a core
  memory is within the budget too. (A core memory is not charged to it.)
\<close>

theorem injection_budget:
  assumes "BuildContextPacket env (Some a) query opts = Inr (Some pkt)" and "0 < io_BudgetTokens opts"
  shows "sum_list (map (EstimateTokens \<circ> itemChars) (pk_Memories pkt)) \<le> io_BudgetTokens opts \<and>
    int (length (pk_Memories pkt)) \<le> max_items opts \<and>
    (pk_CoreMemory pkt = '''' \<longrightarrow> pk_PacketTokenEstimate pkt \<le> io_BudgetTokens opts)"
proof -
  obtain items mode where p: "pk_Memories pkt = select_memories env (callerOwner a) opts items"
    "pk_PacketTokenEstimate pkt = EstimateTokens (packetChars (pk_Memories pkt) (pk_CoreMemory pkt))"
    using assms(1) by (rule BuildContextPacket_parts)
  note s = select_memories_budget [OF assms(2), of env "callerOwner a" items, folded p(1)]
  have "pk_PacketTokenEstimate pkt \<le> io_BudgetTokens opts" if "pk_CoreMemory pkt = ''''"
    using packet_tokens [of "pk_Memories pkt"] s(1) that by (simp add: p(2))
  with s show ?thesis by (simp add: tokens_def)
qed

definition toy_agent :: reg_agent where
  "toy_agent = new_agent 0 1 ''ann'' ''Ann'' ''ai'' ''[]'' 7 ''''"

definition toy_agents :: reg_db where
  "toy_agents = \<lparr>rg_agents = [toy_agent, new_agent 0 2 ''bob'' ''Bob'' ''ai'' ''[]'' 7 ''''], rg_agent_seq = 2, rg_keys = [], rg_key_seq = 0,
     rg_letters = [], rg_letter_seq = 0, rg_bg = []\<rparr>"

definition toy_inj_env :: "((id64 \<times> rat) list, rat) inj_env" where
  "toy_inj_env = \<lparr>ie_svc = Some toy_svc, ie_reg = toy_agents, ie_now = 0, ie_owner_fails = (\<lambda>_. False), ie_channel_fails = (\<lambda>_. False),
     ie_recent_fails = False, ie_walk = (\<lambda>_. [])\<rparr>"

definition toy_wrap :: "((id64 \<times> rat) list, rat) wrap_config" where
  "toy_wrap = \<lparr>wc_Cfg = DefaultMemoryConfig\<lparr>mf_InjectionEnabled := True\<rparr>, wc_Env = toy_inj_env, wc_Injections = True,
     wc_QuerySource = Some (\<lambda>_ _ _. ''hey''), wc_IncludeCore = False, wc_CoreProvider = None\<rparr>"

definition toy_answer :: tool_result where
  "toy_answer = \<lparr>tr_IsError = False, tr_Content = [TextContent ''{}'']\<rparr>"

definition toy_memory :: MemoryItem where
  "toy_memory = \<lparr>im_ID = 1, im_FromAgent = ''bob'', im_Channel = ''general'', im_Body = ''hi'', im_CreatedAt = 0, im_Score = 1,
     im_MatchType = ModeSemantic, im_Pinned = False, im_Truncated = False\<rparr>"

lemma toy_packet:
  "BuildContextPacket toy_inj_env (Some toy_agent) ''hey'' (wrap_opts toy_wrap) =
     Inr (Some \<lparr>pk_Memories = [toy_memory], pk_CoreMemory = '''', pk_PacketChars = 44, pk_PacketTokenEstimate = 11,
       pk_RetrievalQuery = ''hey'', pk_SearchMode = ModeAuto\<rparr>)"
  by code_simp

theorem injection_budget_witness:
  "sum_list (map (EstimateTokens \<circ> itemChars) [toy_memory]) \<le> 500 \<and> EstimateTokens (itemChars toy_memory) = 11"
proof -
  have "io_BudgetTokens (wrap_opts toy_wrap) = 500" by (simp add: wrap_opts_def toy_wrap_def DefaultMemoryConfig_def)
  with injection_budget [OF toy_packet] have "sum_list (map (EstimateTokens \<circ> itemChars) [toy_memory]) \<le> 500" by simp
  moreover have "EstimateTokens (itemChars toy_memory) = 11" by code_simp
  ultimately show ?thesis by simp
qed

theorem injection_scope_witness:
  "\<exists>r' ms rcd kvs pkt. WrapInjection (\<lambda>_. Some []) False toy_wrap ''search'' (Some toy_agent) None (Some toy_answer, False) = ((Some r', False), ms, rcd) \<and>
     tr_Content r' = [MergedContent kvs pkt] \<and> pk_Memories pkt = [toy_memory] \<and> same_owner toy_agents (ss_mdb toy_svc) 7 toy_memory"
proof -
  obtain pkt where pkt: "BuildContextPacket toy_inj_env (Some toy_agent) ''hey'' (wrap_opts toy_wrap) = Inr (Some pkt)" "pk_Memories pkt = [toy_memory]"
    using toy_packet by simp
  have on: "mf_InjectionEnabled (wc_Cfg toy_wrap)" "wc_Env toy_wrap = toy_inj_env" "wc_QuerySource toy_wrap = Some (\<lambda>_ _ _. ''hey'')"
    by (simp_all add: toy_wrap_def)
  have single: "singleJSONText toy_answer = Some ''{}''" by code_simp
  have tr: "\<not> tr_IsError toy_answer" "tr_Content toy_answer = [TextContent ''{}'']" by (simp_all add: toy_answer_def)
  obtain r' ms rcd where w: "WrapInjection (\<lambda>_. Some []) False toy_wrap ''search'' (Some toy_agent) None (Some toy_answer, False) = ((Some r', False), ms, rcd)"
    "tr_Content r' = [MergedContent [] pkt]"
    by (simp add: WrapInjection_def on single tr pkt merge_context_def)
  have svc: "ie_svc (wc_Env toy_wrap) = Some toy_svc" "ie_reg (wc_Env toy_wrap) = toy_agents" by (simp_all add: on toy_inj_env_def)
  have "mset (ss_order toy_svc xs) = mset xs" for xs by (simp add: toy_svc_def)
  from injection_scope [OF w tr(2) svc(1) toy_svc_inv this] pkt(2) have "same_owner toy_agents (ss_mdb toy_svc) (ag_OwnerID toy_agent) toy_memory"
    by (simp add: svc)
  moreover have "ag_OwnerID toy_agent = 7" by (simp add: toy_agent_def new_agent_def)
  ultimately show ?thesis using w pkt(2) by auto
qed

end
