(* ===== verification/Retention.thy ===== *)
theory Retention
  imports Message_Lifecycle Registry Attachments Embeddings
begin

text \<open>
  Retention (\<open>internal/messaging/retention.go\<close>): the settings, the warnings, the deletion of
  expired messages in batches with what hangs on them, the purge of the administrator, and the
  age statistics. The state joins the messages, the attachments and the embeddings; foreign keys
  are checked as SQLite does: a message that a kept message replies to or that an attachment
  belongs to is not deleted, rows of the embedding tables go with it. (Reactions and other rows
  that SQLite deletes or clears along with a message are not part of this state.) Instants are
  nanoseconds where the worker computes them; a stored time of \<open>t\<close> seconds is \<open>t * second\<close>.
\<close>

section \<open>Settings\<close>

record RetentionConfig =
  rc_RetentionPeriod :: duration
  rc_WarningWindow :: duration
  rc_CleanupInterval :: duration
  rc_Enabled :: bool

definition DefaultRetentionConfig :: RetentionConfig where
  "DefaultRetentionConfig = \<lparr>rc_RetentionPeriod = 365 * 24 * Hour, rc_WarningWindow = 30 * 24 * Hour, rc_CleanupInterval = 24 * Hour,
     rc_Enabled = True\<rparr>"

definition suffix_count :: "string \<Rightarrow> string \<Rightarrow> int option" where
  "suffix_count s suffix =
     (if s \<noteq> '''' \<and> [last s] = suffix
      then (case Atoi (butlast s) of None \<Rightarrow> None | Some n \<Rightarrow> if 0 < n then Some n else None) else None)"

definition ParseRetentionPeriod :: "(string \<Rightarrow> duration option) \<Rightarrow> string \<Rightarrow> RetentionConfig" where
  "ParseRetentionPeriod ParseDuration str =
     (let cfg = DefaultRetentionConfig; off = cfg\<lparr>rc_Enabled := False, rc_RetentionPeriod := 0\<rparr>; s = trim_space str
      in if str = '''' \<or> str = ''0'' then off
         else case suffix_count s ''m'' of
                Some n \<Rightarrow> cfg\<lparr>rc_RetentionPeriod := of_int n * 30 * 24 * Hour\<rparr>
              | None \<Rightarrow>
                  (case suffix_count s ''d'' of
                     Some n \<Rightarrow> cfg\<lparr>rc_RetentionPeriod := of_int n * 24 * Hour\<rparr>
                   | None \<Rightarrow>
                       (case ParseDuration s of
                          Some d \<Rightarrow> if 0 <s d then cfg\<lparr>rc_RetentionPeriod := d\<rparr> else off
                        | None \<Rightarrow> off)))"

text \<open>Integer division that truncates, of the hours of a duration by 24.\<close>

definition duration_days :: "duration \<Rightarrow> int" where
  "duration_days d = (let n = sint d in if n < 0 then - ((- n) div (24 * hour_ns)) else n div (24 * hour_ns))"

definition months_text :: "int \<Rightarrow> string" where
  "months_text days = (if days = 30 then ''1 month'' else show_int (if days < 0 then - ((- days) div 30) else days div 30) @ '' months'')"

definition RetentionPeriodHuman :: "RetentionConfig \<Rightarrow> string" where
  "RetentionPeriodHuman c =
     (let days = duration_days (rc_RetentionPeriod c)
      in if \<not> rc_Enabled c then ''disabled''
         else if days mod 30 = 0 then months_text days
         else if days = 1 then ''1 day''
         else show_int days @ '' days'')"

text \<open>\<open>time.Duration.String\<close>, which the texts fall back to below a day.\<close>

definition frac_text :: "nat \<Rightarrow> nat \<Rightarrow> string" where
  "frac_text prec v =
     (let ds = show_nat (v mod 10 ^ prec); padded = replicate (prec - length ds) (CHR ''0'') @ ds;
          kept = rev (dropWhile (\<lambda>c. c = CHR ''0'') (rev padded))
      in if kept = '''' then '''' else CHR ''.'' # kept)"

definition Duration_String :: "duration \<Rightarrow> string" where
  "Duration_String d =
     (let u = nat \<bar>sint d\<bar>; secs = u div 10 ^ 9; mins = secs div 60; hours = mins div 60;
          s = show_nat (secs mod 60) @ frac_text 9 u @ ''s'';
          body = (if u < 1000 then show_nat u @ ''ns''
                  else if u < 10 ^ 6 then show_nat (u div 1000) @ frac_text 3 u @ [CHR 0xC2, CHR 0xB5] @ ''s''
                  else if u < 10 ^ 9 then show_nat (u div 10 ^ 6) @ frac_text 6 u @ ''ms''
                  else if mins = 0 then s
                  else if hours = 0 then show_nat mins @ ''m'' @ s
                  else show_nat hours @ ''h'' @ show_nat (mins mod 60) @ ''m'' @ s)
      in if u = 0 then ''0s'' else if sint d < 0 then CHR ''-'' # body else body)"

definition formatDuration :: "duration \<Rightarrow> string" where
  "formatDuration d =
     (let days = duration_days d
      in if days mod 30 = 0 \<and> 0 < days then months_text days
         else if days = 1 then ''1 day''
         else if 0 < days then show_int days @ '' days''
         else Duration_String d)"

section \<open>State\<close>

record 'g rt_db =
  rt_msg :: msg_db
  rt_att :: att_db
  rt_emb :: "'g emb_db"

datatype rt_stmt =
    RtWarnQuery | RtWarnConv string | RtWarnMsg string | RtExpired | RtBegin nat | RtQueue nat | RtEmb nat | RtHashes nat | RtAtt nat
  | RtMsgs nat | RtCommit nat | RtCount string | RtRemove string | RtConvs | RtBucket nat | RtCountEmb | RtCountAtt

section \<open>Warnings\<close>

definition in_window :: "int \<Rightarrow> int \<Rightarrow> Message \<Rightarrow> bool" where
  "in_window lo hi m \<longleftrightarrow> msg_CreatedAt m * second < hi \<and> lo \<le> msg_CreatedAt m * second"

definition already_warned :: "int \<Rightarrow> RetentionConfig \<Rightarrow> msg_db \<Rightarrow> Conversation \<Rightarrow> bool" where
  "already_warned now cfg db c \<longleftrightarrow>
     (\<exists>m \<in> set (md_msgs db). msg_ConversationID m = cv_ID c \<and> msg_FromAgent m = ''system'' \<and>
        sql_like ''%will be permanently deleted%'' (msg_Body m) \<and> now + sint (- rc_CleanupInterval cfg) < msg_CreatedAt m * second)"

text \<open>
  The query, in the order \<open>plan\<close> the engine picks; a row whose recipient is NULL is lost when it
  is scanned.
\<close>

definition warn_rows ::
  "(( id64 \<times> string \<times> string option \<times> string) list \<Rightarrow> (id64 \<times> string \<times> string option \<times> string) list) \<Rightarrow> int \<Rightarrow> RetentionConfig \<Rightarrow> msg_db \<Rightarrow>
   (id64 \<times> string \<times> string option \<times> string) list" where
  "warn_rows plan now cfg db =
     (let hi = now + sint (- (rc_RetentionPeriod cfg - rc_WarningWindow cfg)); lo = now + sint (- rc_RetentionPeriod cfg)
      in plan (dedup (concat (map (\<lambda>c. map (\<lambda>m. (cv_ID c, cv_Subject c, msg_ToAgent m, msg_FromAgent m))
            (filter (\<lambda>m. msg_ConversationID m = cv_ID c \<and> in_window lo hi m \<and> msg_FromAgent m \<noteq> ''system'') (md_msgs db)))
          (filter (\<lambda>c. \<not> already_warned now cfg db c) (md_convs db))))))"

definition warn_pairs :: "(id64 \<times> string \<times> string option \<times> string) list \<Rightarrow> (string \<times> string) list" where
  "warn_pairs rows = concat (map (\<lambda>(_, subject, toAgent, fromAgent).
     case toAgent of None \<Rightarrow> [] | Some t \<Rightarrow> [(subject, t), (subject, fromAgent)]) rows)"

definition warn_body :: "RetentionConfig \<Rightarrow> string \<Rightarrow> string" where
  "warn_body cfg subject = ''Conversation '' @ [CHR 0x27] @ (if subject = '''' then ''(no subject)'' else subject) @ [CHR 0x27] @
     '' has messages older than '' @ RetentionPeriodHuman cfg @ ''. These will be permanently deleted in approximately '' @
     formatDuration (rc_WarningWindow cfg) @ ''.''"

definition warn_conversation :: "timestamp \<Rightarrow> msg_db \<Rightarrow> msg_db" where
  "warn_conversation now db = db\<lparr>md_convs := md_convs db @ [\<lparr>cv_ID = md_conv_seq db + 1, cv_Subject = ''Retention Warning'',
     cv_CreatedBy = ''system'', cv_ChannelID = None, cv_CreatedAt = now, cv_UpdatedAt = now\<rparr>], md_conv_seq := md_conv_seq db + 1\<rparr>"

definition warn_message :: "timestamp \<Rightarrow> string \<Rightarrow> string \<Rightarrow> msg_db \<Rightarrow> msg_db" where
  "warn_message now agent body db = db\<lparr>md_msgs := md_msgs db @ [\<lparr>msg_ID = md_msg_seq db + 1, msg_ConversationID = md_conv_seq db,
     msg_FromAgent = ''system'', msg_ToAgent = Some agent, msg_ChannelID = None, msg_ReplyTo = None, msg_Body = body, msg_Priority = 5,
     msg_Status = MPending, msg_Metadata = JObj [], msg_ClaimedBy = None, msg_ClaimedAt = None, msg_CreatedAt = now, msg_UpdatedAt = now\<rparr>],
     md_msg_seq := md_msg_seq db + 1\<rparr>"

fun send_warnings :: "(rt_stmt \<Rightarrow> bool) \<Rightarrow> RetentionConfig \<Rightarrow> timestamp \<Rightarrow> (string \<times> string) list \<Rightarrow> string list \<Rightarrow> nat \<Rightarrow> msg_db \<Rightarrow> nat \<times> msg_db" where
  "send_warnings flt cfg now [] seen n db = (n, db)"
| "send_warnings flt cfg now ((subject, a) # ps) seen n db =
     (if a = '''' \<or> a = ''system'' \<or> a \<in> set seen then send_warnings flt cfg now ps seen n db
      else if flt (RtWarnConv a) then send_warnings flt cfg now ps (a # seen) n db
      else let db1 = warn_conversation now db
        in if flt (RtWarnMsg a) then send_warnings flt cfg now ps (a # seen) n db1
           else send_warnings flt cfg now ps (a # seen) (n + 1) (warn_message now a (warn_body cfg subject) db1))"

definition sendRetentionWarnings where
  "sendRetentionWarnings flt plan cfg now db =
     (if rc_WarningWindow cfg \<le>s 0 \<or> flt RtWarnQuery then (0, db)
      else send_warnings flt cfg (now div second) (warn_pairs (warn_rows plan now cfg db)) [] 0 db)"

section \<open>Deleting messages\<close>

definition belongs :: "id64 set \<Rightarrow> id64 option \<Rightarrow> bool" where
  "belongs ids r \<longleftrightarrow> (case r of None \<Rightarrow> False | Some i \<Rightarrow> i \<in> ids)"

text \<open>The foreign keys without an action: a reply that stays, an attachment.\<close>

definition delete_blocked :: "id64 set \<Rightarrow> 'g rt_db \<Rightarrow> bool" where
  "delete_blocked ids s \<longleftrightarrow>
     (\<exists>m \<in> set (md_msgs (rt_msg s)). msg_ID m \<notin> ids \<and> belongs (ids \<inter> message_ids (rt_msg s)) (msg_ReplyTo m)) \<or>
     (\<exists>a \<in> set (fd_rows (rt_att s)). belongs (ids \<inter> message_ids (rt_msg s)) (fa_MessageID a))"

definition delete_messages :: "bool \<Rightarrow> id64 set \<Rightarrow> 'g rt_db \<Rightarrow> (nat \<times> 'g rt_db) option" where
  "delete_messages failed ids s =
     (if failed \<or> delete_blocked ids s then None
      else Some (rows_affected (\<lambda>m. msg_ID m \<in> ids) (md_msgs (rt_msg s)),
             s\<lparr>rt_msg := (rt_msg s)\<lparr>md_msgs := delete_where (\<lambda>m. msg_ID m \<in> ids) (md_msgs (rt_msg s))\<rparr>,
               rt_emb := forget_embeddings (ids \<inter> message_ids (rt_msg s)) (rt_emb s)\<rparr>))"

definition hashes_of :: "id64 set \<Rightarrow> att_db \<Rightarrow> string list" where
  "hashes_of ids db = dedup (map fa_Hash (filter (\<lambda>a. belongs ids (fa_MessageID a)) (fd_rows db)))"

definition drop_queue :: "id64 set \<Rightarrow> 'g rt_db \<Rightarrow> 'g rt_db" where
  "drop_queue ids s = s\<lparr>rt_emb := (rt_emb s)\<lparr>eb_queue := delete_where (\<lambda>q. qi_MessageID q \<in> ids) (eb_queue (rt_emb s))\<rparr>\<rparr>"

definition drop_embeddings :: "id64 set \<Rightarrow> 'g rt_db \<Rightarrow> 'g rt_db" where
  "drop_embeddings ids s = s\<lparr>rt_emb := (rt_emb s)\<lparr>eb_rows := delete_where (\<lambda>e. er_MessageID e \<in> ids) (eb_rows (rt_emb s))\<rparr>\<rparr>"

definition drop_attachments :: "id64 set \<Rightarrow> 'g rt_db \<Rightarrow> 'g rt_db" where
  "drop_attachments ids s = s\<lparr>rt_att := (rt_att s)\<lparr>fd_rows := delete_where (\<lambda>a. belongs ids (fa_MessageID a)) (fd_rows (rt_att s))\<rparr>\<rparr>"

text \<open>The first statements of a batch; their failures are not looked at.\<close>

definition drop_dependents :: "(rt_stmt \<Rightarrow> bool) \<Rightarrow> nat \<Rightarrow> id64 set \<Rightarrow> 'g rt_db \<Rightarrow> 'g rt_db" where
  "drop_dependents flt n ids s =
     (let s1 = (if flt (RtQueue n) then s else drop_queue ids s); s2 = (if flt (RtEmb n) then s1 else drop_embeddings ids s1)
      in if flt (RtAtt n) then s2 else drop_attachments ids s2)"

text \<open>The hash of a row is a digest and has a prefix of two characters.\<close>

definition retention_path :: "string \<Rightarrow> string list" where
  "retention_path hash = [take 2 hash, hash]"

definition cleanup_file :: "(rt_stmt \<Rightarrow> bool) \<Rightarrow> string \<Rightarrow> att_db \<Rightarrow> att_db" where
  "cleanup_file flt hash db =
     (if flt (RtCount hash) \<or> 0 < rows_affected (\<lambda>a. fa_Hash a = hash) (fd_rows db) \<or> flt (RtRemove hash) then db
      else db\<lparr>fd_files := (fd_files db)(retention_path hash := None)\<rparr>)"

definition cleanupAttachmentFiles :: "(rt_stmt \<Rightarrow> bool) \<Rightarrow> string list \<Rightarrow> att_db \<Rightarrow> att_db" where
  "cleanupAttachmentFiles flt hashes db = fold (cleanup_file flt) hashes db"

definition deleteBatch :: "(rt_stmt \<Rightarrow> bool) \<Rightarrow> nat \<Rightarrow> id64 list \<Rightarrow> 'g rt_db \<Rightarrow> nat \<times> 'g rt_db" where
  "deleteBatch flt n ids s =
     (let hashes = (if flt (RtHashes n) then [] else hashes_of (set ids) (rt_att s))
      in if ids = [] \<or> flt (RtBegin n) then (0, s)
         else case delete_messages (flt (RtMsgs n)) (set ids) (drop_dependents flt n (set ids) s) of
                None \<Rightarrow> (0, s)
              | Some (k, s') \<Rightarrow>
                  if flt (RtCommit n) then (0, s)
                  else (k, s'\<lparr>rt_att := cleanupAttachmentFiles flt hashes (rt_att s')\<rparr>))"

definition expired :: "int \<Rightarrow> Message \<Rightarrow> bool" where
  "expired cutoff m \<longleftrightarrow> msg_CreatedAt m * second < cutoff \<and> msg_Status m \<noteq> MProcessing"

definition batchSize :: nat where
  "batchSize = 500"

function delete_batches :: "(rt_stmt \<Rightarrow> bool) \<Rightarrow> nat \<Rightarrow> id64 list \<Rightarrow> nat \<Rightarrow> 'g rt_db \<Rightarrow> nat \<times> 'g rt_db" where
  "delete_batches flt n ids k s =
     (if ids = [] then (k, s)
      else case deleteBatch flt n (take batchSize ids) s of
             (d, s') \<Rightarrow> delete_batches flt (n + 1) (drop batchSize ids) (k + d) s')"
  by pat_completeness auto

termination
  by (relation "measure (\<lambda>(_, _, ids, _, _). length ids)") (auto simp: batchSize_def)

declare delete_batches.simps [simp del]

text \<open>A conversation somebody has a read position in is still referred to, and the statement fails as a whole.\<close>

definition orphaned :: "msg_db \<Rightarrow> Conversation \<Rightarrow> bool" where
  "orphaned db c \<longleftrightarrow> cv_ID c \<notin> msg_ConversationID ` set (md_msgs db)"

definition clean_conversations :: "bool \<Rightarrow> (msg_db \<Rightarrow> Conversation \<Rightarrow> bool) \<Rightarrow> msg_db \<Rightarrow> nat \<times> msg_db" where
  "clean_conversations failed read_in db =
     (if failed \<or> (\<exists>c \<in> set (md_convs db). orphaned db c \<and> read_in db c) then (0, db)
      else (rows_affected (orphaned db) (md_convs db), db\<lparr>md_convs := delete_where (orphaned db) (md_convs db)\<rparr>))"

definition deleteExpiredMessages ::
  "(rt_stmt \<Rightarrow> bool) \<Rightarrow> (msg_db \<Rightarrow> Conversation \<Rightarrow> bool) \<Rightarrow> RetentionConfig \<Rightarrow> int \<Rightarrow> 'g rt_db \<Rightarrow> nat \<times> 'g rt_db" where
  "deleteExpiredMessages flt read_in cfg now s =
     (let ids = map msg_ID (filter (expired (now + sint (- rc_RetentionPeriod cfg))) (md_msgs (rt_msg s)))
      in if flt RtExpired \<or> ids = [] then (0, s)
         else case delete_batches flt 0 ids 0 s of
                (k, s') \<Rightarrow> (k, s'\<lparr>rt_msg := snd (clean_conversations (flt RtConvs) read_in (rt_msg s'))\<rparr>))"

section \<open>The worker\<close>

record RetentionWorker =
  rw_config :: RetentionConfig
  rw_running :: bool
  rw_lastCleanupAt :: "int option"
  rw_lastDeleteCount :: nat

definition NewRetentionWorker :: "RetentionConfig \<Rightarrow> RetentionWorker" where
  "NewRetentionWorker cfg = \<lparr>rw_config = cfg, rw_running = False, rw_lastCleanupAt = None, rw_lastDeleteCount = 0\<rparr>"

definition rt_Start :: "RetentionWorker \<Rightarrow> RetentionWorker" where
  "rt_Start w = (if rc_Enabled (rw_config w) then w\<lparr>rw_running := True\<rparr> else w)"

definition rt_Stop :: "RetentionWorker \<Rightarrow> RetentionWorker" where
  "rt_Stop w = w\<lparr>rw_running := False\<rparr>"

text \<open>The vacuum changes no rows and its failure is only logged.\<close>

definition runCleanup where
  "runCleanup flt plan read_in now w s =
     (case sendRetentionWarnings flt plan (rw_config w) now (rt_msg s) of
        (warned, mdb) \<Rightarrow>
          (case deleteExpiredMessages flt read_in (rw_config w) now (s\<lparr>rt_msg := mdb\<rparr>) of
             (k, s') \<Rightarrow> (w\<lparr>rw_lastCleanupAt := Some now, rw_lastDeleteCount := k\<rparr>, s')))"

text \<open>One firing of the timer of \<open>loop\<close>: 30 seconds after the start, then every interval.\<close>

definition loop_tick where
  "loop_tick flt plan read_in now w s = (if rw_running w then runCleanup flt plan read_in now w s else (w, s))"

section \<open>Statistics\<close>

definition age_boundaries :: "int \<Rightarrow> (string \<times> int) list" where
  "age_boundaries now = [(''< 1 month'', now - 30 * 24 * hour_ns), (''1-3 months'', now - 90 * 24 * hour_ns),
     (''3-6 months'', now - 180 * 24 * hour_ns), (''6-12 months'', now - 365 * 24 * hour_ns)]"

definition aged :: "int option \<Rightarrow> int option \<Rightarrow> Message \<Rightarrow> bool" where
  "aged lo hi m \<longleftrightarrow> (case lo of None \<Rightarrow> True | Some l \<Rightarrow> l \<le> msg_CreatedAt m * second) \<and>
     (case hi of None \<Rightarrow> True | Some h \<Rightarrow> msg_CreatedAt m * second < h)"

fun age_counts :: "(rt_stmt \<Rightarrow> bool) \<Rightarrow> nat \<Rightarrow> int option \<Rightarrow> (string \<times> int) list \<Rightarrow> Message list \<Rightarrow> (string \<times> nat) list" where
  "age_counts flt i hi [] ms = [(''> 12 months'', if flt (RtBucket i) then 0 else rows_affected (aged None hi) ms)]"
| "age_counts flt i hi ((label, cutoff) # bs) ms =
     (label, if flt (RtBucket i) then 0 else rows_affected (aged (Some cutoff) hi) ms) # age_counts flt (i + 1) (Some cutoff) bs ms"

definition messageAgeDistribution :: "(rt_stmt \<Rightarrow> bool) \<Rightarrow> int \<Rightarrow> msg_db \<Rightarrow> (string \<times> nat) list \<times> nat" where
  "messageAgeDistribution flt now db =
     (let counts = age_counts flt 0 None (age_boundaries now) (md_msgs db) in (counts, sum_list (map snd counts)))"

record RetentionStatus =
  rs_enabled :: bool
  rs_period :: string
  rs_period_human :: string
  rs_warning_window :: string
  rs_cleanup_interval :: string
  rs_last_cleanup_at :: "int option"
  rs_next_cleanup_at :: "int option"
  rs_distribution :: "(string \<times> nat) list"
  rs_messages :: nat

definition rt_Status :: "(rt_stmt \<Rightarrow> bool) \<Rightarrow> int \<Rightarrow> RetentionWorker \<Rightarrow> msg_db \<Rightarrow> RetentionStatus" where
  "rt_Status flt now w db =
     (let cfg = rw_config w; ages = messageAgeDistribution flt now db
      in \<lparr>rs_enabled = rc_Enabled cfg, rs_period = Duration_String (rc_RetentionPeriod cfg),
          rs_period_human = RetentionPeriodHuman cfg, rs_warning_window = Duration_String (rc_WarningWindow cfg),
          rs_cleanup_interval = Duration_String (rc_CleanupInterval cfg), rs_last_cleanup_at = rw_lastCleanupAt w,
          rs_next_cleanup_at = map_option (\<lambda>t. t + sint (rc_CleanupInterval cfg)) (rw_lastCleanupAt w),
          rs_distribution = fst ages, rs_messages = snd ages\<rparr>)"

section \<open>Purging by filter\<close>

datatype purge_error = NoFilter | PurgeQueryFailed | PurgeBeginFailed | PurgeCommitFailed

record purge_counts =
  pc_deleted_messages :: nat
  pc_deleted_embeddings :: nat
  pc_deleted_attachments :: nat
  pc_cleaned_conversations :: nat

definition purge_matches :: "int \<Rightarrow> (id64 \<times> string) list \<Rightarrow> duration \<Rightarrow> string \<Rightarrow> string \<Rightarrow> Message \<Rightarrow> bool" where
  "purge_matches now chans olderThan agent channel m \<longleftrightarrow>
     (0 <s olderThan \<longrightarrow> msg_CreatedAt m * second < now + sint (- olderThan)) \<and>
     (agent \<noteq> '''' \<longrightarrow> msg_FromAgent m = agent \<or> msg_ToAgent m = Some agent) \<and>
     (channel \<noteq> '''' \<longrightarrow> (\<exists>(i, name) \<in> set chans. name = channel \<and> msg_ChannelID m = Some i))"

text \<open>Here a count that cannot be read is 0, and the file goes.\<close>

definition purge_file :: "(rt_stmt \<Rightarrow> bool) \<Rightarrow> string \<Rightarrow> att_db \<Rightarrow> att_db" where
  "purge_file flt hash db =
     (if \<not> flt (RtCount hash) \<and> 0 < rows_affected (\<lambda>a. fa_Hash a = hash) (fd_rows db) \<or> flt (RtRemove hash) then db
      else db\<lparr>fd_files := (fd_files db)(retention_path hash := None)\<rparr>)"

definition purge_transaction where
  "purge_transaction flt read_in ids s =
     (let s1 = drop_dependents flt 0 ids s;
          s2 = (case delete_messages (flt (RtMsgs 0)) ids s1 of None \<Rightarrow> s1 | Some (_, s') \<Rightarrow> s')
      in case clean_conversations (flt RtConvs) read_in (rt_msg s2) of (n, mdb) \<Rightarrow> (n, s2\<lparr>rt_msg := mdb\<rparr>))"

text \<open>
  Without a condition (a negative age and no other filter) the query is not SQL. The answer counts
  the messages selected, not the ones deleted.
\<close>

definition PurgeMessages ::
  "(rt_stmt \<Rightarrow> bool) \<Rightarrow> (msg_db \<Rightarrow> Conversation \<Rightarrow> bool) \<Rightarrow> int \<Rightarrow> (id64 \<times> string) list \<Rightarrow> duration \<Rightarrow> string \<Rightarrow> string \<Rightarrow> 'g rt_db \<Rightarrow>
   (purge_error + purge_counts) \<times> 'g rt_db" where
  "PurgeMessages flt read_in now chans olderThan agent channel s =
     (let ids = map msg_ID (filter (purge_matches now chans olderThan agent channel) (md_msgs (rt_msg s)));
          embs = (if flt RtCountEmb then 0 else rows_affected (\<lambda>e. er_MessageID e \<in> set ids) (eb_rows (rt_emb s)));
          atts = (if flt RtCountAtt then 0 else rows_affected (\<lambda>a. belongs (set ids) (fa_MessageID a)) (fd_rows (rt_att s)));
          hashes = (if flt (RtHashes 0) then [] else hashes_of (set ids) (rt_att s))
      in if olderThan = 0 \<and> agent = '''' \<and> channel = '''' then (Inl NoFilter, s)
         else if flt RtExpired \<or> olderThan <s 0 \<and> agent = '''' \<and> channel = '''' then (Inl PurgeQueryFailed, s)
         else if ids = [] then (Inr \<lparr>pc_deleted_messages = 0, pc_deleted_embeddings = 0, pc_deleted_attachments = 0,
             pc_cleaned_conversations = 0\<rparr>, s)
         else if flt (RtBegin 0) then (Inl PurgeBeginFailed, s)
         else case purge_transaction flt read_in (set ids) s of
                (convs, s') \<Rightarrow>
                  if flt (RtCommit 0) then (Inl PurgeCommitFailed, s)
                  else (Inr \<lparr>pc_deleted_messages = length ids, pc_deleted_embeddings = embs, pc_deleted_attachments = atts,
                          pc_cleaned_conversations = convs\<rparr>,
                        s'\<lparr>rt_att := fold (purge_file flt) hashes (rt_att s')\<rparr>))"

section \<open>What a deletion leaves\<close>

definition without :: "id64 set \<Rightarrow> 'g rt_db \<Rightarrow> 'g rt_db" where
  "without gone s =
     \<lparr>rt_msg = (rt_msg s)\<lparr>md_msgs := delete_where (\<lambda>m. msg_ID m \<in> gone) (md_msgs (rt_msg s))\<rparr>,
      rt_att = (rt_att s)\<lparr>fd_rows := delete_where (\<lambda>a. belongs gone (fa_MessageID a)) (fd_rows (rt_att s))\<rparr>,
      rt_emb = forget_embeddings gone (rt_emb s)\<rparr>"

definition with_files :: "files \<Rightarrow> 'g rt_db \<Rightarrow> 'g rt_db" where
  "with_files fs s = s\<lparr>rt_att := (rt_att s)\<lparr>fd_files := fs\<rparr>\<rparr>"

definition unreplied :: "id64 set \<Rightarrow> Message list \<Rightarrow> bool" where
  "unreplied gone ms \<longleftrightarrow> (\<forall>m \<in> set ms. \<not> belongs gone (msg_ReplyTo m))"

text \<open>A deletion of \<open>gone\<close>, all of them or none; no file that \<open>shardPath\<close> finds changes.\<close>

definition removes :: "id64 set \<Rightarrow> 'g rt_db \<Rightarrow> 'g rt_db \<Rightarrow> bool" where
  "removes gone s s' \<longleftrightarrow> (\<exists>fs. stored fs = stored (fd_files (rt_att s)) \<and> s' = with_files fs (without gone s)) \<and>
     unreplied gone (md_msgs (rt_msg s'))"

lemma delete_where_twice: "delete_where P (delete_where Q xs) = delete_where (\<lambda>x. Q x \<or> P x) xs"
  by (simp add: delete_where_def conj_commute)

lemma delete_where_nothing: "(\<And>x. x \<in> set xs \<Longrightarrow> \<not> P x) \<Longrightarrow> delete_where P xs = xs"
  by (simp add: delete_where_def)

lemma delete_where_cong: "(\<And>x. x \<in> set xs \<Longrightarrow> P x = Q x) \<Longrightarrow> delete_where P xs = delete_where Q xs"
  unfolding delete_where_def by (rule filter_cong) auto

lemma belongs_Un: "belongs (a \<union> b) r \<longleftrightarrow> belongs a r \<or> belongs b r"
  by (cases r) (auto simp: belongs_def)

lemma belongs_empty [simp]: "\<not> belongs {} r"
  by (cases r) (auto simp: belongs_def)

lemma without_without: "without b (without a s) = without (a \<union> b) s"
  by (simp add: without_def delete_where_twice forget_embeddings_def belongs_Un)

lemma without_empty: "without {} s = s"
  by (simp add: without_def forget_embeddings_def delete_where_def)

lemma with_files_simps [simp]:
  "rt_msg (with_files fs s) = rt_msg s" "rt_emb (with_files fs s) = rt_emb s" "fd_files (rt_att (with_files fs s)) = fs"
  "fd_rows (rt_att (with_files fs s)) = fd_rows (rt_att s)" "with_files fs (with_files gs s) = with_files fs s"
  "without g (with_files fs s) = with_files fs (without g s)"
  by (simp_all add: with_files_def without_def)

lemma with_files_same: "with_files (fd_files (rt_att s)) s = s"
  by (simp add: with_files_def)

lemma without_files [simp]: "fd_files (rt_att (without g s)) = fd_files (rt_att s)"
  by (simp add: without_def)

lemma without_msgs: "md_msgs (rt_msg (without g s)) = delete_where (\<lambda>m. msg_ID m \<in> g) (md_msgs (rt_msg s))"
  by (simp add: without_def)

lemma removes_nothing: "removes {} s s"
  unfolding removes_def without_empty unreplied_def
  by (intro conjI exI [of _ "fd_files (rt_att s)"]) (simp_all add: with_files_same)

lemma removes_msgs: "removes g s s' \<Longrightarrow> md_msgs (rt_msg s') = delete_where (\<lambda>m. msg_ID m \<in> g) (md_msgs (rt_msg s))"
  unfolding removes_def by (auto simp: without_msgs)

lemma removes_trans:
  assumes "removes a s t" "removes b t u" shows "removes (a \<union> b) s u"
proof -
  obtain fs where fs: "stored fs = stored (fd_files (rt_att s))" "t = with_files fs (without a s)"
    using assms(1) by (auto simp: removes_def)
  obtain gs where gs: "stored gs = stored (fd_files (rt_att t))" "u = with_files gs (without b t)"
    using assms(2) by (auto simp: removes_def)
  have "u = with_files gs (without (a \<union> b) s)" using fs gs by (simp add: without_without)
  moreover have "stored gs = stored (fd_files (rt_att s))" using fs gs by simp
  moreover have "set (md_msgs (rt_msg u)) \<subseteq> set (md_msgs (rt_msg t))" using removes_msgs [OF assms(2)] by auto
  then have "unreplied (a \<union> b) (md_msgs (rt_msg u))" using assms by (auto simp: removes_def unreplied_def belongs_Un)
  ultimately show ?thesis unfolding removes_def by blast
qed

lemma stored_retention_path: "stored (fs(retention_path h := v)) = stored fs"
proof
  fix h' have "shardPath h' \<noteq> Some (retention_path h)" by (simp add: shardPath_def retention_path_def)
  then show "stored (fs(retention_path h := v)) h' = stored fs h'" by (cases "shardPath h'") (auto simp: stored_def)
qed

definition files_only :: "(string \<Rightarrow> att_db \<Rightarrow> att_db) \<Rightarrow> bool" where
  "files_only f \<longleftrightarrow> (\<forall>h db. \<exists>fs. f h db = db\<lparr>fd_files := fs\<rparr> \<and> stored fs = stored (fd_files db))"

lemma cleanup_file_files: "files_only (cleanup_file flt)"
  unfolding files_only_def
proof (intro allI)
  fix h db show "\<exists>fs. cleanup_file flt h db = db\<lparr>fd_files := fs\<rparr> \<and> stored fs = stored (fd_files db)"
    by (intro exI [of _ "fd_files (cleanup_file flt h db)"]) (simp add: cleanup_file_def stored_retention_path)
qed

lemma purge_file_files: "files_only (purge_file flt)"
  unfolding files_only_def
proof (intro allI)
  fix h db show "\<exists>fs. purge_file flt h db = db\<lparr>fd_files := fs\<rparr> \<and> stored fs = stored (fd_files db)"
    by (intro exI [of _ "fd_files (purge_file flt h db)"]) (simp add: purge_file_def stored_retention_path)
qed

lemma files_only_fold:
  "files_only f \<Longrightarrow> \<exists>fs. fold f hs db = db\<lparr>fd_files := fs\<rparr> \<and> stored fs = stored (fd_files db)"
proof (induction hs arbitrary: db)
  case Nil
  show ?case by (intro exI [of _ "fd_files db"]) simp
next
  case (Cons h hs)
  obtain fs where fs: "f h db = db\<lparr>fd_files := fs\<rparr>" "stored fs = stored (fd_files db)"
    using Cons.prems unfolding files_only_def by blast
  obtain gs where "fold f hs (f h db) = (f h db)\<lparr>fd_files := gs\<rparr>" "stored gs = stored (fd_files (f h db))"
    using Cons.IH [OF Cons.prems] by blast
  with fs show ?case by (intro exI [of _ gs]) simp
qed

lemma files_fold_state:
  assumes "files_only f"
  obtains fs where "s\<lparr>rt_att := fold f hs (rt_att s)\<rparr> = with_files fs s" "stored fs = stored (fd_files (rt_att s))"
  using files_only_fold [OF assms, of hs "rt_att s"] that unfolding with_files_def by metis

section \<open>One batch\<close>

lemma drop_simps [simp]:
  "rt_msg (drop_dependents flt n ids s) = rt_msg s"
  "fd_rows (rt_att (drop_dependents flt n ids s)) =
     (if flt (RtAtt n) then fd_rows (rt_att s) else delete_where (\<lambda>a. belongs ids (fa_MessageID a)) (fd_rows (rt_att s)))"
  by (simp_all add: drop_dependents_def drop_queue_def drop_embeddings_def drop_attachments_def Let_def)

lemma forget_dropped:
  "forget_embeddings ids (rt_emb (drop_dependents flt n ids s)) = forget_embeddings ids (rt_emb s)"
  by (simp add: drop_dependents_def drop_queue_def drop_embeddings_def drop_attachments_def Let_def forget_embeddings_def delete_where_twice)

text \<open>
  A deletion that succeeds has the attachments removed before, or there were none: however the
  first statements fare, what is left is the same.
\<close>

lemma delete_messages_without:
  assumes "delete_messages failed ids (drop_dependents flt n ids s) = Some (k, s')" "ids \<subseteq> message_ids (rt_msg s)"
  shows "s' = without ids s" "k = rows_affected (\<lambda>m. msg_ID m \<in> ids) (md_msgs (rt_msg s))" "\<not> failed"
    "unreplied ids (md_msgs (rt_msg s'))"
proof -
  let ?d = "drop_dependents flt n ids s"
  have ids: "ids \<inter> message_ids (rt_msg s) = ids" using assms(2) by auto
  have free: "\<not> failed" "\<not> delete_blocked ids ?d" using assms(1) by (auto simp: delete_messages_def split: if_splits)
  then have eq: "k = rows_affected (\<lambda>m. msg_ID m \<in> ids) (md_msgs (rt_msg s))"
    "s' = ?d\<lparr>rt_msg := (rt_msg s)\<lparr>md_msgs := delete_where (\<lambda>m. msg_ID m \<in> ids) (md_msgs (rt_msg s))\<rparr>, rt_emb := forget_embeddings ids (rt_emb s)\<rparr>"
    using assms(1) ids by (simp_all add: delete_messages_def forget_dropped)
  have "fd_rows (rt_att ?d) = delete_where (\<lambda>a. belongs ids (fa_MessageID a)) (fd_rows (rt_att s))"
  proof (cases "flt (RtAtt n)")
    case True
    then have "\<not> belongs ids (fa_MessageID a)" if "a \<in> set (fd_rows (rt_att s))" for a
      using free(2) ids that by (auto simp: delete_blocked_def)
    with True show ?thesis by (simp add: delete_where_nothing)
  qed simp
  moreover have "rt_att ?d = (rt_att s)\<lparr>fd_rows := fd_rows (rt_att ?d)\<rparr>"
    by (simp add: drop_dependents_def drop_queue_def drop_embeddings_def drop_attachments_def Let_def)
  ultimately have "rt_att ?d = (rt_att s)\<lparr>fd_rows := delete_where (\<lambda>a. belongs ids (fa_MessageID a)) (fd_rows (rt_att s))\<rparr>" by simp
  with eq(2) show "s' = without ids s" by (simp add: without_def)
  then show "unreplied ids (md_msgs (rt_msg s'))"
    using free(2) ids by (auto simp: unreplied_def without_msgs delete_blocked_def)
  show "k = rows_affected (\<lambda>m. msg_ID m \<in> ids) (md_msgs (rt_msg s))" "\<not> failed" using eq(1) free(1) by simp_all
qed

lemma deleteBatch_cases:
  assumes "deleteBatch flt n ids s = (k, s')" "set ids \<subseteq> message_ids (rt_msg s)"
  obtains (kept) "k = 0" "s' = s"
  | (gone) "removes (set ids) s s'" "k = rows_affected (\<lambda>m. msg_ID m \<in> set ids) (md_msgs (rt_msg s))"
proof (cases "ids = [] \<or> flt (RtBegin n) \<or> delete_messages (flt (RtMsgs n)) (set ids) (drop_dependents flt n (set ids) s) = None \<or> flt (RtCommit n)")
  case True
  then show thesis using assms(1) kept by (auto simp: deleteBatch_def Let_def split: if_splits option.splits)
next
  case False
  then obtain j t where t: "delete_messages (flt (RtMsgs n)) (set ids) (drop_dependents flt n (set ids) s) = Some (j, t)" by auto
  note t' = delete_messages_without [OF t assms(2)]
  obtain fs where fs: "t\<lparr>rt_att := cleanupAttachmentFiles flt (if flt (RtHashes n) then [] else hashes_of (set ids) (rt_att s)) (rt_att t)\<rparr> =
      with_files fs t" "stored fs = stored (fd_files (rt_att t))"
    unfolding cleanupAttachmentFiles_def by (rule files_fold_state [OF cleanup_file_files])
  have "k = j" "s' = with_files fs t" using assms(1) False t fs(1) by (auto simp: deleteBatch_def Let_def)
  then have "removes (set ids) s s'" unfolding removes_def using t' fs(2) by auto
  with \<open>k = j\<close> t' gone show thesis by simp
qed

lemma deleteBatch_done:
  assumes "\<And>st. \<not> flt st" "ids \<noteq> []" "unreplied (set ids) (md_msgs (rt_msg s))" "set ids \<subseteq> message_ids (rt_msg s)"
  shows "removes (set ids) s (snd (deleteBatch flt n ids s))"
proof -
  have "set ids \<inter> message_ids (rt_msg s) = set ids" using assms(4) by auto
  then have "\<not> delete_blocked (set ids) (drop_dependents flt n (set ids) s)"
    using assms(1,3) by (auto simp: delete_blocked_def unreplied_def)
  then obtain j t where t: "delete_messages (flt (RtMsgs n)) (set ids) (drop_dependents flt n (set ids) s) = Some (j, t)"
    using assms(1) by (simp add: delete_messages_def)
  obtain i where i: "i \<in> set ids" using assms(2) by (cases ids) auto
  then obtain m where m: "m \<in> set (md_msgs (rt_msg s))" "msg_ID m = i" using assms(4) by (auto simp: message_ids_def)
  obtain k s' where b: "deleteBatch flt n ids s = (k, s')" by fastforce
  have "k = j" using b t assms(1,2) by (auto simp: deleteBatch_def Let_def)
  moreover have "0 < j" using delete_messages_without(2) [OF t assms(4)] m i by (auto simp: rows_affected_pos)
  ultimately have "k \<noteq> 0" by simp
  then show ?thesis by (rule_tac deleteBatch_cases [OF b assms(4)]) (simp_all add: b)
qed

lemma rows_affected_split: "rows_affected (\<lambda>x. P x \<or> Q x) xs = rows_affected P xs + rows_affected Q (delete_where P xs)"
  by (induction xs) (auto simp: rows_affected_def delete_where_def)

lemma rest_left:
  assumes "removes g s s'" "g \<subseteq> set (take n ids)" "distinct ids" "set ids \<subseteq> message_ids (rt_msg s)"
  shows "set (drop n ids) \<subseteq> message_ids (rt_msg s')"
proof
  fix i assume i: "i \<in> set (drop n ids)"
  then have "i \<notin> g" using assms(2,3) set_take_disj_set_drop_if_distinct [OF assms(3), of n n] by auto
  moreover have "i \<in> message_ids (rt_msg s)" using i assms(4) by (auto dest: in_set_dropD)
  ultimately show "i \<in> message_ids (rt_msg s')" by (auto simp: message_ids_def removes_msgs [OF assms(1)])
qed

lemma deleteBatch_gone:
  assumes "deleteBatch flt n ids s = (d, s')" "set ids \<subseteq> message_ids (rt_msg s)"
  obtains g where "g \<subseteq> set ids" "removes g s s'" "d = rows_affected (\<lambda>m. msg_ID m \<in> g) (md_msgs (rt_msg s))"
  using that [of "{}"] that [of "set ids"] removes_nothing [of s] by (rule_tac deleteBatch_cases [OF assms]) simp_all

lemma unreplied_sub: "unreplied g ms \<Longrightarrow> h \<subseteq> g \<Longrightarrow> set ms' \<subseteq> set ms \<Longrightarrow> unreplied h ms'"
  by (auto simp: unreplied_def belongs_def split: option.splits)

lemma delete_batches_gone:
  "distinct ids \<Longrightarrow> set ids \<subseteq> message_ids (rt_msg s) \<Longrightarrow> delete_batches flt n ids k s = (k', s') \<Longrightarrow>
     \<exists>g \<subseteq> set ids. removes g s s' \<and> k' = k + rows_affected (\<lambda>m. msg_ID m \<in> g) (md_msgs (rt_msg s))"
proof (induction flt n ids k s rule: delete_batches.induct)
  case (1 flt n ids k s)
  show ?case
  proof (cases "ids = []")
    case True
    then have "k' = k" "s' = s" using "1.prems"(3) by (simp_all add: delete_batches.simps)
    then show ?thesis using removes_nothing [of s] by (intro exI [of _ "{}"]) simp
  next
    case False
    obtain d t where d: "deleteBatch flt n (take batchSize ids) s = (d, t)" by fastforce
    have "set (take batchSize ids) \<subseteq> message_ids (rt_msg s)" using "1.prems"(2) by (auto dest: in_set_takeD)
    then obtain g where g: "g \<subseteq> set (take batchSize ids)" "removes g s t" "d = rows_affected (\<lambda>m. msg_ID m \<in> g) (md_msgs (rt_msg s))"
      by (rule deleteBatch_gone [OF d])
    have "delete_batches flt (n + 1) (drop batchSize ids) (k + d) t = (k', s')"
      using "1.prems"(3) False d by (simp add: delete_batches.simps [of flt n ids])
    then obtain h where h: "h \<subseteq> set (drop batchSize ids)" "removes h t s'"
      "k' = k + d + rows_affected (\<lambda>m. msg_ID m \<in> h) (md_msgs (rt_msg t))"
      using "1.IH" [OF False d [symmetric]] rest_left [OF g(2,1) "1.prems"(1,2)] "1.prems"(1) by auto
    have "g \<union> h \<subseteq> set ids" using g(1) h(1) by (auto dest: in_set_takeD in_set_dropD)
    moreover have "k' = k + rows_affected (\<lambda>m. msg_ID m \<in> g \<union> h) (md_msgs (rt_msg s))"
      using h(3) g(3) by (simp add: removes_msgs [OF g(2)] rows_affected_split)
    ultimately show ?thesis using removes_trans [OF g(2) h(2)] by blast
  qed
qed

lemma delete_batches_done:
  "distinct ids \<Longrightarrow> set ids \<subseteq> message_ids (rt_msg s) \<Longrightarrow> (\<And>st. \<not> flt st) \<Longrightarrow> unreplied (set ids) (md_msgs (rt_msg s)) \<Longrightarrow>
     removes (set ids) s (snd (delete_batches flt n ids k s))"
proof (induction flt n ids k s rule: delete_batches.induct)
  case (1 flt n ids k s)
  show ?case
  proof (cases "ids = []")
    case True
    then show ?thesis using removes_nothing [of s] by (simp add: delete_batches.simps)
  next
    case False
    let ?b = "take batchSize ids"
    obtain d t where d: "deleteBatch flt n ?b s = (d, t)" by fastforce
    have "set ?b \<subseteq> message_ids (rt_msg s)" "unreplied (set ?b) (md_msgs (rt_msg s))" "?b \<noteq> []"
      using "1.prems"(2) unreplied_sub [OF "1.prems"(4) set_take_subset subset_refl] False
      by (auto simp: batchSize_def dest: in_set_takeD)
    then have g: "removes (set ?b) s t" using deleteBatch_done [of flt ?b s n] "1.prems"(3) d by simp
    have "unreplied (set (drop batchSize ids)) (md_msgs (rt_msg t))"
      using removes_msgs [OF g] by (intro unreplied_sub [OF "1.prems"(4) set_drop_subset]) auto
    then have "removes (set (drop batchSize ids)) t (snd (delete_batches flt (n + 1) (drop batchSize ids) (k + d) t))"
      by (intro "1.IH" [OF False d [symmetric]] rest_left [OF g subset_refl "1.prems"(1,2)] "1.prems"(3) distinct_drop "1.prems"(1))
    moreover have "set ?b \<union> set (drop batchSize ids) = set ids" using append_take_drop_id [of batchSize ids] by (metis set_append)
    ultimately have "removes (set ids) s (snd (delete_batches flt (n + 1) (drop batchSize ids) (k + d) t))"
      using removes_trans [OF g] by metis
    then show ?thesis using False d by (simp add: delete_batches.simps [of flt n ids])
  qed
qed

section \<open>The cleanup as a whole\<close>

definition expired_ids :: "int \<Rightarrow> msg_db \<Rightarrow> id64 list" where
  "expired_ids cutoff db = map msg_ID (filter (expired cutoff) (md_msgs db))"

lemma expired_ids_ok:
  assumes "msg_inv db"
  shows "distinct (expired_ids cutoff db)" "set (expired_ids cutoff db) \<subseteq> message_ids db"
    "m \<in> set (md_msgs db) \<Longrightarrow> msg_ID m \<in> set (expired_ids cutoff db) \<longleftrightarrow> expired cutoff m"
proof -
  have ids: "ids_ok msg_ID (md_msg_seq db) (md_msgs db)" using assms by (simp add: msg_inv_def)
  then show "distinct (expired_ids cutoff db)" by (simp add: expired_ids_def ids_ok_def distinct_map_filter)
  show "set (expired_ids cutoff db) \<subseteq> message_ids db" by (auto simp: expired_ids_def message_ids_def)
  show "msg_ID m \<in> set (expired_ids cutoff db) \<longleftrightarrow> expired cutoff m" if "m \<in> set (md_msgs db)"
    using that ids_ok_unique [OF ids that] by (auto simp: expired_ids_def)
qed

definition conv_left :: "msg_db \<Rightarrow> msg_db \<Rightarrow> bool" where
  "conv_left db db' \<longleftrightarrow> db' = db\<lparr>md_convs := md_convs db'\<rparr> \<and>
     (\<exists>P. md_convs db' = delete_where P (md_convs db) \<and> (\<forall>c \<in> set (md_convs db). P c \<longrightarrow> orphaned db c))"

lemma clean_conversations_left: "conv_left db (snd (clean_conversations failed read_in db))"
proof (cases "failed \<or> (\<exists>c \<in> set (md_convs db). orphaned db c \<and> read_in db c)")
  case True
  moreover have "md_convs db = delete_where (\<lambda>_. False) (md_convs db)" by (simp add: delete_where_def)
  ultimately show ?thesis unfolding conv_left_def by (auto simp: clean_conversations_def)
next
  case False
  then show ?thesis unfolding conv_left_def clean_conversations_def if_not_P [OF False] by auto
qed

lemma conv_left_refl: "conv_left db db"
  using clean_conversations_left [of db True "\<lambda>_ _. False"] by (simp add: clean_conversations_def)

lemma deleteExpired_gone:
  assumes "msg_inv (rt_msg s)" "deleteExpiredMessages flt read_in cfg now s = (k, s')"
  obtains g t mdb where "g \<subseteq> set (expired_ids (now + sint (- rc_RetentionPeriod cfg)) (rt_msg s))" "removes g s t"
    "s' = t\<lparr>rt_msg := mdb\<rparr>" "conv_left (rt_msg t) mdb" "k = rows_affected (\<lambda>m. msg_ID m \<in> g) (md_msgs (rt_msg s))"
proof -
  let ?ids = "expired_ids (now + sint (- rc_RetentionPeriod cfg)) (rt_msg s)"
  show thesis
  proof (cases "flt RtExpired \<or> ?ids = []")
    case True
    then have "k = 0" "s' = s" using assms(2) by (auto simp: deleteExpiredMessages_def expired_ids_def Let_def)
    then show thesis using that [of "{}" s "rt_msg s"] removes_nothing [of s] conv_left_refl by simp
  next
    case False
    obtain j t where b: "delete_batches flt 0 ?ids 0 s = (j, t)" by fastforce
    obtain g where "g \<subseteq> set ?ids" "removes g s t" "j = 0 + rows_affected (\<lambda>m. msg_ID m \<in> g) (md_msgs (rt_msg s))"
      using delete_batches_gone [OF expired_ids_ok(1,2) [OF assms(1)] b] by auto
    moreover have "k = j" "s' = t\<lparr>rt_msg := snd (clean_conversations (flt RtConvs) read_in (rt_msg t))\<rparr>"
      using assms(2) False b by (simp_all add: deleteExpiredMessages_def expired_ids_def Let_def)
    ultimately show thesis using that clean_conversations_left [of "rt_msg t" "flt RtConvs" read_in] by simp
  qed
qed

definition is_warning :: "int \<Rightarrow> Message \<Rightarrow> bool" where
  "is_warning now m \<longleftrightarrow> msg_FromAgent m = ''system'' \<and> msg_CreatedAt m = now div second \<and> msg_ReplyTo m = None \<and> msg_Status m = MPending"

definition warned :: "int \<Rightarrow> msg_db \<Rightarrow> msg_db \<Rightarrow> bool" where
  "warned now db db' \<longleftrightarrow> msg_inv db' \<and> (\<exists>ws. md_msgs db' = md_msgs db @ ws \<and> (\<forall>m \<in> set ws. is_warning now m)) \<and>
     (\<exists>cs. md_convs db' = md_convs db @ cs) \<and> md_inbox db' = md_inbox db"

lemma warned_trans: "warned now a b \<Longrightarrow> warned now b c \<Longrightarrow> warned now a c"
  unfolding warned_def by (auto 0 4)

lemma warn_conversation_warned: "msg_inv db \<Longrightarrow> warned now db (warn_conversation t db)"
  by (auto simp: warned_def warn_conversation_def msg_inv_def intro: ids_ok_append)

lemma trim_left_keeps:
  "(\<And>p. p \<in> set ps \<Longrightarrow> c \<notin> set p) \<Longrightarrow> c \<in> set s \<Longrightarrow> c \<in> set (trim_left_of ps s)"
proof (induction ps s rule: trim_left_of.induct)
  case (1 ps s)
  show ?case
  proof (cases "strip_any ps s")
    case None
    then show ?thesis using "1.prems"(2) by (simp add: trim_left_of.simps [of ps s])
  next
    case (Some t)
    then obtain p where "p \<in> set ps" "s = p @ t" using strip_any_Some by metis
    then have "c \<in> set t" using "1.prems" by auto
    then show ?thesis using Some "1.IH" [OF Some] "1.prems" by (auto simp: trim_left_of.simps [of ps s])
  qed
qed

lemma trim_keeps_C: "CHR ''C'' \<in> set s \<Longrightarrow> trim_space s \<noteq> ''''"
proof -
  assume "CHR ''C'' \<in> set s"
  then have "CHR ''C'' \<in> set (trim_left_of space_encodings s)" by (rule trim_left_keeps [rotated]) (auto simp: space_encodings_def)
  then have "CHR ''C'' \<in> set (trim_left_of (map rev space_encodings) (rev (trim_left_of space_encodings s)))"
    by (intro trim_left_keeps) (auto simp: space_encodings_def)
  then show ?thesis by (auto simp: trim_space_def)
qed

lemma warn_body_ok: "trim_space (warn_body cfg subject) \<noteq> ''''"
  by (rule trim_keeps_C) (simp add: warn_body_def)

lemma warn_message_warned:
  assumes "msg_inv db" "a \<noteq> ''''"
  shows "warned now (warn_conversation t db) (warn_message (now div second) a (warn_body cfg subject) (warn_conversation t db))"
proof -
  have inv: "msg_inv (warn_conversation t db)" using warn_conversation_warned [OF assms(1)] by (simp add: warned_def)
  let ?db = "warn_conversation t db"
  define m where "m = \<lparr>msg_ID = md_msg_seq ?db + 1, msg_ConversationID = md_conv_seq ?db, msg_FromAgent = ''system'', msg_ToAgent = Some a,
     msg_ChannelID = None, msg_ReplyTo = None, msg_Body = warn_body cfg subject, msg_Priority = 5, msg_Status = MPending,
     msg_Metadata = JObj [], msg_ClaimedBy = None, msg_ClaimedAt = None, msg_CreatedAt = now div second, msg_UpdatedAt = now div second\<rparr>"
  have w: "warn_message (now div second) a (warn_body cfg subject) ?db = ?db\<lparr>md_msgs := md_msgs ?db @ [m], md_msg_seq := md_msg_seq ?db + 1\<rparr>"
    by (simp add: warn_message_def m_def)
  have "content_ok m \<and> claim_ok m" using assms(2) warn_body_ok by (simp add: m_def content_ok_def claim_ok_def one_destination_def)
  moreover have "msg_ConversationID m \<in> cv_ID ` set (md_convs ?db)" by (simp add: m_def warn_conversation_def)
  moreover have "ids_ok msg_ID (md_msg_seq ?db + 1) (md_msgs ?db @ [m])"
    using inv by (intro ids_ok_append) (simp_all add: msg_inv_def m_def)
  ultimately have "msg_inv (?db\<lparr>md_msgs := md_msgs ?db @ [m], md_msg_seq := md_msg_seq ?db + 1\<rparr>)" using inv by (auto simp: msg_inv_def)
  moreover have "is_warning now m" by (simp add: m_def is_warning_def)
  ultimately show ?thesis unfolding w warned_def by simp
qed

lemma send_warnings_warned:
  "msg_inv db \<Longrightarrow> warned now db (snd (send_warnings flt cfg (now div second) ps seen n db))"
proof (induction flt cfg "now div second" ps seen n db rule: send_warnings.induct)
  case (1 flt cfg seen n db)
  then show ?case by (simp add: warned_def)
next
  case (2 flt cfg subject a ps seen n db)
  let ?db = "warn_conversation (now div second) db"
  have c: "warned now db ?db" using "2.prems" by (rule warn_conversation_warned)
  then have inv: "msg_inv ?db" by (simp add: warned_def)
  show ?case
  proof (cases "a = '''' \<or> a = ''system'' \<or> a \<in> set seen \<or> flt (RtWarnConv a)")
    case True
    then show ?thesis using 2 by auto
  next
    case False
    then have m: "warned now ?db (warn_message (now div second) a (warn_body cfg subject) ?db)"
      using warn_message_warned [OF "2.prems"] by simp
    then have inv': "msg_inv (warn_message (now div second) a (warn_body cfg subject) ?db)" by (simp add: warned_def)
    show ?thesis
      using False 2 warned_trans [OF c] warned_trans [OF warned_trans [OF c m]] inv inv' by (simp add: Let_def)
  qed
qed

lemma sendRetentionWarnings_warned:
  assumes "msg_inv db" shows "warned now db (snd (sendRetentionWarnings flt plan cfg now db))"
  using assms send_warnings_warned [OF assms] by (simp add: sendRetentionWarnings_def) (simp add: warned_def)

lemma runCleanup_gone:
  assumes "msg_inv (rt_msg s)" "runCleanup flt plan read_in now w s = (w', s')"
  obtains db g t mdb where "warned now (rt_msg s) db"
    "g \<subseteq> set (expired_ids (now + sint (- rc_RetentionPeriod (rw_config w))) db)" "removes g (s\<lparr>rt_msg := db\<rparr>) t"
    "s' = t\<lparr>rt_msg := mdb\<rparr>" "conv_left (rt_msg t) mdb" "rw_lastDeleteCount w' = rows_affected (\<lambda>m. msg_ID m \<in> g) (md_msgs db)"
proof -
  obtain n db where a: "sendRetentionWarnings flt plan (rw_config w) now (rt_msg s) = (n, db)" by fastforce
  have db: "warned now (rt_msg s) db" using sendRetentionWarnings_warned [OF assms(1), of now flt plan "rw_config w"] a by simp
  then have inv: "msg_inv (rt_msg (s\<lparr>rt_msg := db\<rparr>))" by (simp add: warned_def)
  obtain k u where b: "deleteExpiredMessages flt read_in (rw_config w) now (s\<lparr>rt_msg := db\<rparr>) = (k, u)" by fastforce
  have w: "w' = w\<lparr>rw_lastCleanupAt := Some now, rw_lastDeleteCount := k\<rparr>" "s' = u" using assms(2) a b by (simp_all add: runCleanup_def)
  show thesis by (rule deleteExpired_gone [OF inv b]) (rule that [OF db], use w in simp_all)
qed

lemma conv_left_gone: "conv_left db db' \<Longrightarrow> c \<in> set (md_convs db) \<Longrightarrow> c \<notin> set (md_convs db') \<Longrightarrow> orphaned db' c"
  unfolding conv_left_def orphaned_def by (metis (no_types, lifting) in_delete_where msg_db.simps(3) msg_db.surjective msg_db.update_convs(1))


text \<open>A message of June, answered by nobody, with an attachment, and one of August; the period is 30 days.\<close>

definition old_store :: "unit rt_db" where
  "old_store = \<lparr>rt_msg = \<lparr>md_convs = [\<lparr>cv_ID = 1, cv_Subject = ''a'', cv_CreatedBy = ''bob'', cv_ChannelID = None, cv_CreatedAt = 0, cv_UpdatedAt = 0\<rparr>],
       md_conv_seq = 1,
       md_msgs = [\<lparr>msg_ID = 1, msg_ConversationID = 1, msg_FromAgent = ''bob'', msg_ToAgent = Some ''ann'', msg_ChannelID = None,
          msg_ReplyTo = None, msg_Body = ''hi'', msg_Priority = 5, msg_Status = MPending, msg_Metadata = JNull, msg_ClaimedBy = None,
          msg_ClaimedAt = None, msg_CreatedAt = 0, msg_UpdatedAt = 0\<rparr>,
         \<lparr>msg_ID = 2, msg_ConversationID = 1, msg_FromAgent = ''bob'', msg_ToAgent = Some ''ann'', msg_ChannelID = None,
          msg_ReplyTo = None, msg_Body = ''ho'', msg_Priority = 5, msg_Status = MPending, msg_Metadata = JNull, msg_ClaimedBy = None,
          msg_ClaimedAt = None, msg_CreatedAt = 5000000, msg_UpdatedAt = 5000000\<rparr>], md_msg_seq = 2, md_inbox = Map.empty\<rparr>,
     rt_att = \<lparr>fd_rows = [\<lparr>fa_ID = 1, fa_Hash = ''abcd'', fa_OriginalFilename = ''f'', fa_Size = 1, fa_MIMEType = ''text/plain'',
          fa_MessageID = Some 1, fa_UploadedBy = ''bob'', fa_CreatedAt = 0\<rparr>], fd_seq = 1, fd_files = (\<lambda>_. None)([''ab'', ''cd'', ''abcd''] := Some ''x'')\<rparr>,
     rt_emb = \<lparr>eb_rows = [], eb_queue = [], eb_seq = 0, eb_index = (), eb_work = (\<lambda>_. [])\<rparr>\<rparr>"

definition month_worker :: RetentionWorker where
  "month_worker = NewRetentionWorker (DefaultRetentionConfig\<lparr>rc_RetentionPeriod := 30 * 24 * Hour, rc_WarningWindow := 0\<rparr>)"

definition month_cleanup where
  "month_cleanup = runCleanup (\<lambda>_. False) (\<lambda>rows. rows) (\<lambda>_ _. False) (5000001 * second) month_worker old_store"

lemma old_store_inv: "msg_inv (rt_msg old_store)"
proof -
  have "trim_space ''hi'' \<noteq> ''''" "trim_space ''ho'' \<noteq> ''''" by code_simp+
  then show ?thesis by (auto simp: old_store_def msg_inv_def ids_ok_def content_ok_def one_destination_def claim_ok_def)
qed

lemma month_cleanup_result:
  "map msg_ID (md_msgs (rt_msg (snd month_cleanup))) = [2] \<and> fd_rows (rt_att (snd month_cleanup)) = [] \<and>
   rw_lastDeleteCount (fst month_cleanup) = 1"
  by code_simp


lemma conv_left_msgs: "conv_left db db' \<Longrightarrow> md_msgs db' = md_msgs db"
  unfolding conv_left_def by (metis (no_types, lifting) msg_db.select_convs(3) msg_db.surjective msg_db.update_convs(1))

lemma deleteExpired_done:
  assumes "msg_inv (rt_msg s)" "\<And>st. \<not> flt st" "unreplied (set (expired_ids (now + sint (- rc_RetentionPeriod cfg)) (rt_msg s))) (md_msgs (rt_msg s))"
    "deleteExpiredMessages flt read_in cfg now s = (k, u)"
  obtains t where "removes (set (expired_ids (now + sint (- rc_RetentionPeriod cfg)) (rt_msg s))) s t"
    "md_msgs (rt_msg u) = md_msgs (rt_msg t)" "rt_att u = rt_att t" "rt_emb u = rt_emb t"
proof -
  let ?ids = "expired_ids (now + sint (- rc_RetentionPeriod cfg)) (rt_msg s)"
  obtain j t where b: "delete_batches flt 0 ?ids 0 s = (j, t)" by fastforce
  have t: "removes (set ?ids) s t"
    using delete_batches_done [OF expired_ids_ok(1,2) [OF assms(1)] _ assms(3), where flt = flt and n = 0 and k = 0] assms(2) b by simp
  show thesis
  proof (cases "?ids = []")
    case True
    then have "u = s" using assms(4) by (auto simp: deleteExpiredMessages_def expired_ids_def Let_def)
    then show thesis using that [of s] removes_nothing [of s] True by simp
  next
    case False
    then have "u = t\<lparr>rt_msg := snd (clean_conversations (flt RtConvs) read_in (rt_msg t))\<rparr>"
      using assms(2,4) b by (auto simp: deleteExpiredMessages_def expired_ids_def Let_def)
    then show thesis using that [OF t] conv_left_msgs [OF clean_conversations_left] by simp
  qed
qed

text \<open>
  A cleanup whose statements all succeed and that warns nobody, where no message replies to an expired one: exactly the expired messages
  go, the number of them is what the worker reports, and exactly their attachments and embeddings go with them.
\<close>

theorem retention_exact:
  assumes "msg_inv (rt_msg s)" "\<forall>st. \<not> flt st" "rc_WarningWindow (rw_config w) \<le>s 0"
    "runCleanup flt plan read_in now w s = (w', s')" "cutoff = now + sint (- rc_RetentionPeriod (rw_config w))"
    "\<forall>m \<in> set (md_msgs (rt_msg s)). \<forall>x \<in> set (md_msgs (rt_msg s)). expired cutoff x \<longrightarrow> msg_ReplyTo m \<noteq> Some (msg_ID x)"
  shows "md_msgs (rt_msg s') = filter (\<lambda>m. \<not> expired cutoff m) (md_msgs (rt_msg s)) \<and>
    rw_lastDeleteCount w' = length (filter (expired cutoff) (md_msgs (rt_msg s))) \<and>
    fd_rows (rt_att s') = filter (\<lambda>a. \<not> belongs {msg_ID m |m. m \<in> set (md_msgs (rt_msg s)) \<and> expired cutoff m} (fa_MessageID a)) (fd_rows (rt_att s)) \<and>
    eb_rows (rt_emb s') = filter (\<lambda>e. er_MessageID e \<notin> {msg_ID m |m. m \<in> set (md_msgs (rt_msg s)) \<and> expired cutoff m}) (eb_rows (rt_emb s))"
proof -
  let ?db = "rt_msg s" and ?ids = "expired_ids cutoff (rt_msg s)"
  have set: "{msg_ID m |m. m \<in> set (md_msgs ?db) \<and> expired cutoff m} = set ?ids" by (auto simp: expired_ids_def)
  have un: "unreplied (set ?ids) (md_msgs ?db)" using assms(6) by (auto simp: unreplied_def belongs_def expired_ids_def split: option.splits)
  obtain k u where d: "deleteExpiredMessages flt read_in (rw_config w) now s = (k, u)" by fastforce
  have w: "s' = u" "rw_lastDeleteCount w' = k" using assms(3,4) d by (auto simp: runCleanup_def sendRetentionWarnings_def)
  obtain t where t: "removes (set ?ids) s t" "md_msgs (rt_msg u) = md_msgs (rt_msg t)" "rt_att u = rt_att t" "rt_emb u = rt_emb t"
    using deleteExpired_done [OF assms(1) _ un [unfolded assms(5)] , of flt read_in] assms(2,5) d by auto
  have msgs: "md_msgs (rt_msg u) = filter (\<lambda>m. \<not> expired cutoff m) (md_msgs ?db)"
    unfolding t(2) removes_msgs [OF t(1)] delete_where_def using expired_ids_ok(3) [OF assms(1)] by (auto intro: filter_cong)
  have "k = length (filter (expired cutoff) (md_msgs ?db))"
  proof (rule deleteExpired_gone [OF assms(1) d])
    fix g t' mdb assume g: "removes g s t'" "u = t'\<lparr>rt_msg := mdb\<rparr>" "conv_left (rt_msg t') mdb"
      "k = rows_affected (\<lambda>m. msg_ID m \<in> g) (md_msgs ?db)"
    then have "md_msgs (rt_msg u) = filter (\<lambda>m. msg_ID m \<notin> g) (md_msgs ?db)"
      using removes_msgs [OF g(1)] by (simp add: delete_where_def conv_left_msgs)
    then have "k + length (md_msgs (rt_msg u)) = length (md_msgs ?db)"
      using sum_length_filter_compl [of "\<lambda>m. msg_ID m \<in> g" "md_msgs ?db"] by (simp add: g(4) rows_affected_def)
    then show ?thesis using msgs sum_length_filter_compl [of "expired cutoff" "md_msgs ?db"] by simp
  qed
  moreover have "fd_rows (rt_att u) = filter (\<lambda>a. \<not> belongs (set ?ids) (fa_MessageID a)) (fd_rows (rt_att s))"
    "eb_rows (rt_emb u) = filter (\<lambda>e. er_MessageID e \<notin> set ?ids) (eb_rows (rt_emb s))"
    using t by (auto simp: removes_def) (simp_all add: without_def delete_where_def forget_embeddings_def)
  ultimately show ?thesis unfolding set using w msgs by simp
qed

theorem retention_exact_witness:
  "md_msgs (rt_msg (snd month_cleanup)) = filter (\<lambda>m. \<not> expired (5000001 * second - 30 * 24 * hour_ns) m) (md_msgs (rt_msg old_store)) \<and>
   map msg_ID (md_msgs (rt_msg (snd month_cleanup))) = [2]"
proof -
  have r: "runCleanup (\<lambda>_. False) (\<lambda>rows. rows) (\<lambda>_ _. False) (5000001 * second) month_worker old_store = (fst month_cleanup, snd month_cleanup)"
    by (simp add: month_cleanup_def)
  have c: "5000001 * second - 30 * 24 * hour_ns = 5000001 * second + sint (- rc_RetentionPeriod (rw_config month_worker))"
    "rc_WarningWindow (rw_config month_worker) \<le>s 0" by code_simp+
  have "\<forall>m \<in> set (md_msgs (rt_msg old_store)). \<forall>x \<in> set (md_msgs (rt_msg old_store)).
    expired (5000001 * second - 30 * 24 * hour_ns) x \<longrightarrow> msg_ReplyTo m \<noteq> Some (msg_ID x)" by (simp add: old_store_def)
  then show ?thesis using retention_exact [OF old_store_inv _ c(2) r c(1)] month_cleanup_result by simp
qed

section \<open>What the code does not mean to do\<close>

text \<open>Four thousand months overflow to a negative period: the cutoff lies in the future and everything counts as expired.\<close>

lemma period_overflow:
  "rc_Enabled (ParseRetentionPeriod (\<lambda>_. None) ''4000m'') \<and> sint (rc_RetentionPeriod (ParseRetentionPeriod (\<lambda>_. None) ''4000m'')) < 0"
  by code_simp

text \<open>A purge of a message somebody replied to reports one deletion and deletes nothing but its attachment.\<close>

definition answered_store :: "unit rt_db" where
  "answered_store = old_store\<lparr>rt_msg := (rt_msg old_store)\<lparr>md_msgs := map (\<lambda>m. if msg_ID m = 2 then m\<lparr>msg_ReplyTo := Some 1\<rparr> else m)
     (md_msgs (rt_msg old_store))\<rparr>\<rparr>"

lemma purge_reports_undeleted:
  "(case PurgeMessages (\<lambda>_. False) (\<lambda>_ _. False) (5000001 * second) [] (30 * 24 * Hour) '''' '''' answered_store of
      (r, s') \<Rightarrow> map_sum (\<lambda>_. ()) pc_deleted_messages r = Inr 1 \<and> map msg_ID (md_msgs (rt_msg s')) = [1, 2] \<and> fd_rows (rt_att s') = [])"
  by code_simp

text \<open>One reply to one message of a batch keeps the whole batch.\<close>

lemma answered_batch_kept:
  "map msg_ID (md_msgs (rt_msg (snd (runCleanup (\<lambda>_. False) (\<lambda>rows. rows) (\<lambda>_ _. False) (5000001 * second) month_worker answered_store)))) = [1, 2]"
  by code_simp

end
