(* ===== verification/Storage.thy ===== *)
theory Storage
  imports Retention
begin

text \<open>
  Messages, attachments, embeddings and retention over one database: the effects of a message
  that is sent (\<open>service.go\<close> links its attachments and queues its text), the attachment service,
  the embedding workers, the cleanup and the purge, in any order and with any statements failing.
\<close>

section \<open>The system\<close>

fun send_effect :: "(string \<Rightarrow> att_stmt \<Rightarrow> bool) \<Rightarrow> bool \<Rightarrow> timestamp \<Rightarrow> msg_effect \<Rightarrow> 'g rt_db \<Rightarrow> 'g rt_db" where
  "send_effect aflt eflt now (AttachToMessage hash i) s =
     s\<lparr>rt_att := snd (AttachToMessage_file (aflt hash) now (map msg_ID (md_msgs (rt_msg s))) hash i (rt_att s))\<rparr>"
| "send_effect aflt eflt now (OnMessageCreated i body) s = s\<lparr>rt_emb := OnMessageCreated_emb eflt now (rt_msg s) i body (rt_emb s)\<rparr>"
| "send_effect aflt eflt now e s = s"

definition has_reader :: "msg_db \<Rightarrow> Conversation \<Rightarrow> bool" where
  "has_reader db c \<longleftrightarrow> (\<exists>a. md_inbox db (a, cv_ID c) \<noteq> None)"

datatype 'v st_op =
    StSend "string \<Rightarrow> att_stmt \<Rightarrow> bool" bool msg_service msg_env timestamp string string string SendOptions
  | StMessage msg_op
  | StUpload "att_stmt \<Rightarrow> bool" timestamp UploadRequest
  | StCollect "att_stmt \<Rightarrow> bool"
  | StEnqueueAll bool timestamp
  | StTake "emb_stmt \<Rightarrow> bool" timestamp nat
  | StEnd "emb_stmt \<Rightarrow> bool" "id64 \<Rightarrow> string" timestamp string int "string list \<Rightarrow> 'v embed_result" nat
  | StCleanup "rt_stmt \<Rightarrow> bool" "(id64 \<times> string \<times> string option \<times> string) list \<Rightarrow> (id64 \<times> string \<times> string option \<times> string) list" int RetentionWorker
  | StPurge "rt_stmt \<Rightarrow> bool" int "(id64 \<times> string) list" duration string string

text \<open>
  As for the attachments alone, a garbage collection whose row deletions fail after the file is
  gone is left out: it leaves a row without its file.
\<close>

fun st_exec :: "(string \<Rightarrow> string) \<Rightarrow> (string \<Rightarrow> string) \<Rightarrow> ('g, 'v) hnsw \<Rightarrow> EmbConfig \<Rightarrow> 'v st_op \<Rightarrow> 'g rt_db \<Rightarrow> 'g rt_db" where
  "st_exec sha sniff hn cfg (StSend aflt eflt svc env now from to body opts) s =
     (case SendMessage svc env now from to body opts (rt_msg s) of
        (_, effects, mdb) \<Rightarrow> fold (send_effect aflt eflt now) effects (s\<lparr>rt_msg := mdb\<rparr>))"
| "st_exec sha sniff hn cfg (StMessage op) s = s\<lparr>rt_msg := msg_exec op (rt_msg s)\<rparr>"
| "st_exec sha sniff hn cfg (StUpload flt now req) s =
     s\<lparr>rt_att := att_exec_ok sha sniff (FUpload flt now (map msg_ID (md_msgs (rt_msg s))) req) (rt_att s)\<rparr>"
| "st_exec sha sniff hn cfg (StCollect flt) s =
     s\<lparr>rt_att := att_exec_ok sha sniff (FCollect flt (map msg_ID (md_msgs (rt_msg s)))) (rt_att s)\<rparr>"
| "st_exec sha sniff hn cfg (StEnqueueAll failed now) s = s\<lparr>rt_emb := snd (EnqueueAllMessages failed now (rt_msg s) (rt_emb s))\<rparr>"
| "st_exec sha sniff hn cfg (StTake flt now k) s = s\<lparr>rt_emb := take_batch flt cfg now (rt_msg s) k (rt_emb s)\<rparr>"
| "st_exec sha sniff hn cfg (StEnd flt db_error now name dims EmbedBatch k) s =
     s\<lparr>rt_emb := end_batch hn flt db_error cfg now (rt_msg s) name dims EmbedBatch k (rt_emb s)\<rparr>"
| "st_exec sha sniff hn cfg (StCleanup flt plan now w) s = snd (runCleanup flt plan has_reader now w s)"
| "st_exec sha sniff hn cfg (StPurge flt now chans olderThan agent channel) s =
     snd (PurgeMessages flt has_reader now chans olderThan agent channel s)"

section \<open>References\<close>

definition att_refs :: "att_db \<Rightarrow> id64 set" where
  "att_refs db = {i. \<exists>a \<in> set (fd_rows db). fa_MessageID a = Some i}"

definition emb_refs :: "'g emb_db \<Rightarrow> id64 set" where
  "emb_refs db = er_MessageID ` set (eb_rows db) \<union> qi_MessageID ` set (eb_queue db)"

definition reply_refs :: "msg_db \<Rightarrow> id64 set" where
  "reply_refs db = {i. \<exists>m \<in> set (md_msgs db). msg_ReplyTo m = Some i}"

definition storage_inv :: "(string \<Rightarrow> string) \<Rightarrow> 'g rt_db \<Rightarrow> bool" where
  "storage_inv sha s \<longleftrightarrow> msg_inv (rt_msg s) \<and> att_inv sha (rt_att s) \<and>
     reply_refs (rt_msg s) \<union> att_refs (rt_att s) \<union> emb_refs (rt_emb s) \<subseteq> message_ids (rt_msg s)"

definition storage_empty :: "'g \<Rightarrow> 'g rt_db" where
  "storage_empty g = \<lparr>rt_msg = msg_empty, rt_att = att_empty, rt_emb = emb_empty g\<rparr>"

subsection \<open>Messages\<close>

text \<open>An operation of the messages loses no message, and a new reply refers to one that is there.\<close>

definition msg_grows :: "msg_db \<Rightarrow> msg_db \<Rightarrow> bool" where
  "msg_grows db db' \<longleftrightarrow> message_ids db \<subseteq> message_ids db' \<and> reply_refs db' \<subseteq> reply_refs db \<union> message_ids db"

lemma msg_grows_refl [simp]: "msg_grows db db"
  by (simp add: msg_grows_def)

lemma msg_grows_same: "md_msgs db' = md_msgs db \<Longrightarrow> msg_grows db db'"
  by (simp add: msg_grows_def message_ids_def reply_refs_def)

definition shape :: "msg_db \<Rightarrow> (id64 \<times> id64 option) list" where
  "shape db = map (\<lambda>m. (msg_ID m, msg_ReplyTo m)) (md_msgs db)"

lemma shape_refs: "message_ids db = fst ` set (shape db)" "reply_refs db = {i. Some i \<in> snd ` set (shape db)}"
  by (auto simp: shape_def message_ids_def reply_refs_def image_iff) metis

lemma shape_grows: "shape db' = shape db \<Longrightarrow> msg_grows db db'"
  by (auto simp: msg_grows_def shape_refs)

lemma shape_update:
  "(\<And>m. msg_ID (f m) = msg_ID m) \<Longrightarrow> (\<And>m. msg_ReplyTo (f m) = msg_ReplyTo m) \<Longrightarrow>
     shape (db\<lparr>md_msgs := update_where P f (md_msgs db)\<rparr>) = shape db"
  by (simp add: shape_def map_update_where)

lemma UpdateMessageStatus_shape: "shape (snd (UpdateMessageStatus env now i st a meta db)) = shape db"
  by (auto simp: UpdateMessageStatus_def Let_def intro!: shape_update)

lemma UpdateInboxState_shape: "shape (snd (UpdateInboxState env now a c i db)) = shape db"
  by (auto simp: shape_def UpdateInboxState_def Let_def split: option.splits)

lemma mark_read_shape: "shape (mark_read env now a order page db) = shape db"
proof -
  have "shape (fold (\<lambda>conv db. case conversationMaxID page conv of None \<Rightarrow> db
      | Some i \<Rightarrow> snd (UpdateInboxState env now a conv i db)) cs d) = shape d" for cs d
    by (induction cs arbitrary: d) (simp_all add: UpdateInboxState_shape split: option.split)
  then show ?thesis by (simp add: mark_read_def)
qed

lemma stale_updates_shape: "shape (snd (stale_updates flt now cutoff is cnt db)) = shape db"
proof (induction "is" arbitrary: cnt db)
  case (Cons i "is")
  have "shape (snd (stale_update now cutoff i db)) = shape db"
    by (auto simp: stale_update_def Let_def fail_row_def intro!: shape_update)
  then show ?case by (cases "stale_update now cutoff i db") (simp add: Cons.IH)
qed simp

lemma SendMessage_grows_refs: "msg_grows db (snd (snd (SendMessage svc env now from to body opts db)))"
proof -
  obtain r eff db' where s: "SendMessage svc env now from to body opts db = (r, eff, db')" by (metis prod_cases3)
  show ?thesis
  proof (cases r)
    case (Inl e)
    then have "md_msgs db' = md_msgs db" using SendMessage_Inl [of svc env now "from" to body opts db e eff db'] s by (simp add: conv_step_def)
    then show ?thesis by (simp add: s shape_grows shape_def)
  next
    case (Inr m)
    with s obtain db1 conv meta where c: "resolve_conversation env now from to opts db = (Inr conv, db1)"
      and i: "InsertMessage env now (new_message from to body opts meta conv) db1 = (Inr m, db')"
      by (auto elim: SendMessage_Inr)
    have db1: "md_msgs db1 = md_msgs db" using resolve_conversation_step [OF c] by (simp add: conv_step_def)
    let ?m = "new_message from to body opts meta conv"
    have "belongs (message_ids db) (msg_ReplyTo ?m) \<or> msg_ReplyTo ?m = None"
      using i db1 by (auto simp: InsertMessage_def message_fks_ok_def belongs_def message_ids_def split: if_splits option.splits)
    moreover have "md_msgs db' = md_msgs db @ [?m\<lparr>msg_ID := md_msg_seq db1 + 1,
        msg_ClaimedBy := None, msg_ClaimedAt := None, msg_CreatedAt := now, msg_UpdatedAt := now\<rparr>]"
      using InsertMessage_Inr [OF i] db1 by simp
    ultimately show ?thesis by (auto simp: s msg_grows_def message_ids_def reply_refs_def belongs_def)
  qed
qed

lemma msg_exec_grows: "msg_grows db (msg_exec op db)"
proof (cases op)
  case (OpSend svc env now a b body opts)
  then show ?thesis by (simp add: SendMessage_grows_refs)
next
  case (OpRead env now order a opts)
  then show ?thesis by (intro shape_grows) (simp add: ReadInbox_def Let_def mark_read_shape)
next
  case (OpSetRead env now a c i)
  then show ?thesis by (intro shape_grows) (simp add: UpdateInboxState_shape)
next
  case (OpClaimMessages env now a l)
  have "shape (claim_update now a ids db) = shape db" for ids by (auto simp: claim_update_def intro!: shape_update)
  then show ?thesis using OpClaimMessages
    by (intro shape_grows) (simp add: ClaimMessages_def store_ClaimMessages_def Let_def split: prod.split)
next
  case (OpMarkDone env now i a)
  then show ?thesis by (intro shape_grows) (simp add: MarkDone_def UpdateMessageStatus_shape split: sum.split)
next
  case (OpMarkFailed env now i a r)
  then show ?thesis by (intro shape_grows) (simp add: MarkFailed_def UpdateMessageStatus_shape split: sum.split option.split)
next
  case (OpStalemate flt qf cfg now)
  then show ?thesis by (intro shape_grows) (simp add: failTimedOutProcessing_def Let_def stale_updates_shape)
qed

subsection \<open>Attachments\<close>

lemma InsertMetadata_refs: "InsertMetadata failed now ids a db = (r, db') \<Longrightarrow> att_refs db' \<subseteq> att_refs db \<union> set ids"
  by (auto simp: InsertMetadata_def att_refs_def Let_def split: if_splits option.splits)

lemma snd_sum_case: "snd (case p of (Inl e, d) \<Rightarrow> (Inl e, d) | (Inr _, d) \<Rightarrow> (Inr x, d)) = snd p"
  by (auto split: prod.split sum.split)

lemma Upload_refs: "att_refs (snd (Upload sha sniff flt now ids req db)) \<subseteq> att_refs db \<union> set ids"
proof (cases "cas_Write sha (\<lambda>st. flt (AsCas st)) (take (MaxFileSize + 1) (ur_Content req)) (fd_files db)")
  case (Pair r fs)
  have files: "att_refs (db\<lparr>fd_files := fs\<rparr>) = att_refs db" by (simp add: att_refs_def)
  have "x \<in> att_refs db" if "x \<in> att_refs (snd (InsertMetadata f now ids a (db\<lparr>fd_files := fs\<rparr>)))" "x \<notin> set ids" for f a x
  proof -
    obtain r d where i: "InsertMetadata f now ids a (db\<lparr>fd_files := fs\<rparr>) = (r, d)" by fastforce
    show ?thesis using InsertMetadata_refs [OF i] that files i by auto
  qed
  then show ?thesis
    using files unfolding Upload_def Let_def Pair
    by (cases r) (auto simp: snd_sum_case)
qed

lemma AttachToMessage_file_refs: "att_refs (snd (AttachToMessage_file flt now ids h m db)) \<subseteq> att_refs db \<union> set ids"
proof (cases "GetByHash (flt AsGet) h db")
  case (Inr rows)
  show ?thesis
  proof (cases rows)
    case (Cons meta rest)
    obtain r d where i: "InsertMetadata (flt AsInsert) now ids (meta\<lparr>fa_MessageID := Some m\<rparr>) db = (r, d)" by fastforce
    show ?thesis using InsertMetadata_refs [OF i] by (cases r) (simp_all add: AttachToMessage_file_def Inr Cons i)
  qed (simp add: AttachToMessage_file_def Inr)
qed (simp add: AttachToMessage_file_def)

lemma att_refs_mono: "set (fd_rows db') \<subseteq> set (fd_rows db) \<Longrightarrow> att_refs db' \<subseteq> att_refs db"
  by (auto simp: att_refs_def)

lemma collect_rows: "set (fd_rows (snd (collect flt hs st))) \<subseteq> set (fd_rows (snd st))"
proof (induction flt hs st rule: collect.induct)
  case (2 flt h hs n b db)
  obtain r fs where d: "cas_Delete (\<lambda>st. flt (AsGCFile h st)) h (fd_files db) = (r, fs)" by fastforce
  obtain q db' where e: "DeleteByHash (flt (AsDelete h)) h (db\<lparr>fd_files := fs\<rparr>) = (q, db')" by fastforce
  have "set (fd_rows db') \<subseteq> set (fd_rows db)" using e by (auto simp: DeleteByHash_def split: if_splits)
  then show ?case using 2 d e by (cases r; cases q) (auto simp: subset_iff)
qed simp

lemma GarbageCollect_rows: "set (fd_rows (snd (GarbageCollect flt ids db))) \<subseteq> set (fd_rows db)"
  using collect_rows [of flt _ "((0, 0), db)"] by (auto simp: GarbageCollect_def split: sum.splits prod.splits) (metis snd_conv subsetD)

subsection \<open>Embeddings\<close>

lemma emb_refs_queue:
  "map qi_MessageID (eb_queue db') = map qi_MessageID (eb_queue db) \<Longrightarrow> eb_rows db' = eb_rows db \<Longrightarrow> emb_refs db' = emb_refs db"
  by (metis emb_refs_def set_map)

lemma enqueue_row_refs: "emb_refs (enqueue_row now i db) \<subseteq> emb_refs db \<union> {i}"
  by (auto simp: enqueue_row_def emb_refs_def queue_row_def)

lemma enqueue_rows_refs: "emb_refs (fold (enqueue_row now) is db) \<subseteq> emb_refs db \<union> set is"
proof (induction "is" arbitrary: db)
  case (Cons i "is")
  then show ?case using enqueue_row_refs [of now i db] by fastforce
qed simp

lemma mark_refs [simp]:
  "emb_refs (MarkCompleted f now mid db) = emb_refs db" "emb_refs (emb_MarkFailed f msg mid db) = emb_refs db"
  "emb_refs (snd (RequeueFailed f n db)) = emb_refs db" "emb_refs (db\<lparr>eb_work := w\<rparr>) = emb_refs db"
  by (rule emb_refs_queue; simp add: MarkCompleted_def emb_MarkFailed_def RequeueFailed_def Let_def map_update_where)+

lemma mark_processing_refs: "mark_processing flt is db = Some db' \<Longrightarrow> emb_refs db' = emb_refs db"
proof (induction "is" arbitrary: db)
  case (Cons i "is")
  let ?db = "db\<lparr>eb_queue := update_where (\<lambda>q. qi_ID q = i) (\<lambda>q. q\<lparr>qi_Status := QProcessing, qi_Attempts := qi_Attempts q + 1\<rparr>) (eb_queue db)\<rparr>"
  have "emb_refs ?db = emb_refs db" by (rule emb_refs_queue) (simp_all add: map_update_where)
  then show ?case using Cons by (simp split: if_splits)
qed simp

lemma Dequeue_refs: "Dequeue flt n db = (r, db') \<Longrightarrow> emb_refs db' = emb_refs db"
  by (auto simp: Dequeue_def Let_def split: if_splits option.splits dest: mark_processing_refs)

lemma gather_refs: "gather flt now mdb qs db = (batch, db') \<Longrightarrow> emb_refs db' = emb_refs db"
proof (induction qs arbitrary: db batch db')
  case (Cons q qs)
  then show ?case by (auto simp: Let_def split: option.splits if_splits prod.splits)
qed simp

lemma take_batch_refs: "emb_refs (take_batch flt cfg now mdb k db) = emb_refs db"
  by (auto simp: take_batch_def split: prod.split option.split dest: Dequeue_refs gather_refs)

lemma store_vector_refs: "emb_refs (store_vector hn flt de now mdb name dims q vec db) \<subseteq> emb_refs db \<union> message_ids mdb"
proof (cases vec)
  case (Some v)
  obtain e db1 where a: "AddVector hn (qi_MessageID q) v db = (e, db1)" by fastforce
  have 1: "emb_refs db1 = emb_refs db" using a by (auto simp: AddVector_def emb_refs_def split: sum.splits)
  obtain b db2 where s: "SaveEmbedding (flt (EsSave (qi_MessageID q))) now mdb (qi_MessageID q) name name dims db1 = (b, db2)" by fastforce
  have "emb_refs db2 \<subseteq> emb_refs db1 \<union> message_ids mdb" using s by (auto simp: SaveEmbedding_def emb_refs_def split: if_splits)
  then show ?thesis using 1 Some a s by (auto simp: store_vector_def Let_def split: option.split bool.split)
qed (simp add: store_vector_def Let_def)

lemma store_vectors_refs: "emb_refs (store_vectors hn flt de now mdb name dims batch vecs db) \<subseteq> emb_refs db \<union> message_ids mdb"
proof (induction batch arbitrary: vecs db)
  case (Cons b batch)
  obtain q body where b: "b = (q, body)" by fastforce
  show ?case unfolding b store_vectors.simps using store_vector_refs Cons.IH by (meson Un_least Un_upper2 order_trans)
qed simp

lemma fail_batch_refs: "emb_refs (fail_batch flt msg batch db) = emb_refs db"
  unfolding fail_batch_def by (induction batch arbitrary: db) (simp_all split: prod.split)

lemma end_batch_refs: "emb_refs (end_batch hn flt de cfg now mdb name dims E k db) \<subseteq> emb_refs db \<union> message_ids mdb"
  using store_vectors_refs [of hn flt de now mdb name dims "eb_work db k" _ "db\<lparr>eb_work := (eb_work db)(k := [])\<rparr>"]
  by (auto simp: end_batch_def Let_def fail_batch_refs split: embed_result.split)

subsection \<open>Retention\<close>

lemma msg_inv_without:
  assumes "msg_inv (rt_msg s)" shows "msg_inv (rt_msg (without g s))"
  using assms by (auto simp: msg_inv_def without_def intro: ids_ok_delete_where)

lemma msg_inv_conv_left:
  assumes "msg_inv db" "clean_conversations failed has_reader db = (n, db')" shows "msg_inv db'"
proof (cases "failed \<or> (\<exists>c \<in> set (md_convs db). orphaned db c \<and> has_reader db c)")
  case True
  then show ?thesis using assms by (auto simp: clean_conversations_def)
next
  case False
  have db': "db' = db\<lparr>md_convs := delete_where (orphaned db) (md_convs db)\<rparr>"
    using assms(2) unfolding clean_conversations_def if_not_P [OF False] by simp
  have "cv_ID c \<in> cv_ID ` set (delete_where (orphaned db) (md_convs db))" if "c \<in> set (md_convs db)" "\<not> orphaned db c" for c using that by auto
  moreover have "msg_ConversationID m \<in> cv_ID ` set (delete_where (orphaned db) (md_convs db))" if m: "m \<in> set (md_msgs db)" for m
  proof -
    obtain c where "c \<in> set (md_convs db)" "cv_ID c = msg_ConversationID m" using m assms(1) by (auto simp: msg_inv_def)
    then show ?thesis using m by (force simp: orphaned_def)
  qed
  moreover have "i \<in> cv_ID ` set (delete_where (orphaned db) (md_convs db))" if i: "md_inbox db (a, i) \<noteq> None" for a i
  proof -
    have "i \<in> cv_ID ` set (md_convs db)" using i assms(1) by (auto simp: msg_inv_def)
    then obtain c where c: "c \<in> set (md_convs db)" "cv_ID c = i" by auto
    then have "has_reader db c" using i by (auto simp: has_reader_def)
    with c show ?thesis using False by auto
  qed
  ultimately show ?thesis using assms(1) by (simp add: db' msg_inv_def ids_ok_delete_where)
qed

text \<open>What a successful deletion leaves refers to nothing that is gone.\<close>

lemma storage_without:
  assumes "storage_inv sha s" "unreplied g (md_msgs (rt_msg (without g s)))" shows "storage_inv sha (without g s)"
proof -
  have ids: "message_ids (rt_msg (without g s)) = message_ids (rt_msg s) - g" by (auto simp: message_ids_def without_def)
  have "reply_refs (rt_msg (without g s)) \<subseteq> reply_refs (rt_msg s) - g"
    using assms(2) by (auto simp: reply_refs_def unreplied_def without_def belongs_def)
  moreover have "att_refs (rt_att (without g s)) \<subseteq> att_refs (rt_att s) - g" by (auto simp: att_refs_def without_def belongs_def)
  moreover have "emb_refs (rt_emb (without g s)) \<subseteq> emb_refs (rt_emb s) - g" by (auto simp: emb_refs_def without_def forget_embeddings_def)
  moreover have "att_inv sha (rt_att (without g s))" using assms(1) by (simp add: without_def storage_inv_def delete_rows_inv)
  ultimately show ?thesis using assms(1) msg_inv_without ids by (auto simp: storage_inv_def)
qed

lemma storage_files:
  assumes "storage_inv sha s" "stored fs = stored (fd_files (rt_att s))" shows "storage_inv sha (with_files fs s)"
proof -
  have "att_refs (rt_att (with_files fs s)) = att_refs (rt_att s)" by (simp add: att_refs_def)
  moreover have "att_inv sha (rt_att (with_files fs s))"
    using assms by (simp add: storage_inv_def att_inv_def files_ok_def) (simp add: with_files_def)
  ultimately show ?thesis using assms(1) by (simp add: storage_inv_def)
qed

lemma storage_removes: "removes g s s' \<Longrightarrow> storage_inv sha s \<Longrightarrow> storage_inv sha s'"
  unfolding removes_def using storage_without [of sha s g] storage_files [of sha "without g s"] by auto

text \<open>Only the messages and conversations change, and the references are those of the messages.\<close>

lemma storage_msgs:
  assumes "storage_inv sha s" "msg_inv db" "msg_grows (rt_msg s) db"
  shows "storage_inv sha (s\<lparr>rt_msg := db\<rparr>)"
  using assms by (auto simp: storage_inv_def msg_grows_def)

lemma storage_clean:
  assumes "storage_inv sha s" shows "storage_inv sha (s\<lparr>rt_msg := snd (clean_conversations failed has_reader (rt_msg s))\<rparr>)"
proof -
  have "md_msgs (snd (clean_conversations failed has_reader (rt_msg s))) = md_msgs (rt_msg s)"
    using conv_left_msgs [OF clean_conversations_left] by blast
  then have "msg_grows (rt_msg s) (snd (clean_conversations failed has_reader (rt_msg s)))" by (intro shape_grows) (simp add: shape_def)
  moreover have "msg_inv (snd (clean_conversations failed has_reader (rt_msg s)))"
    using msg_inv_conv_left [of "rt_msg s" failed] assms by (metis prod.collapse storage_inv_def)
  ultimately show ?thesis using assms by (intro storage_msgs)
qed

lemma storage_warned:
  assumes "storage_inv sha s" "warned now (rt_msg s) db" shows "storage_inv sha (s\<lparr>rt_msg := db\<rparr>)"
proof (rule storage_msgs [OF assms(1)])
  obtain ws where "md_msgs db = md_msgs (rt_msg s) @ ws" "\<forall>m \<in> set ws. msg_ReplyTo m = None"
    using assms(2) by (auto simp: warned_def is_warning_def)
  then show "msg_grows (rt_msg s) db" by (auto simp: msg_grows_def message_ids_def reply_refs_def)
qed (use assms(2) in \<open>simp add: warned_def\<close>)

lemma deleteExpired_storage:
  assumes "storage_inv sha s" shows "storage_inv sha (snd (deleteExpiredMessages flt has_reader cfg now s))"
proof -
  let ?ids = "expired_ids (now + sint (- rc_RetentionPeriod cfg)) (rt_msg s)"
  have inv: "msg_inv (rt_msg s)" using assms by (simp add: storage_inv_def)
  obtain k t where b: "delete_batches flt 0 ?ids 0 s = (k, t)" by fastforce
  obtain g where "removes g s t" using delete_batches_gone [OF expired_ids_ok(1,2) [OF inv] b] by blast
  then have "storage_inv sha t" using assms by (rule storage_removes)
  then show ?thesis
    using assms storage_clean [of sha t "flt RtConvs"] b by (auto simp: deleteExpiredMessages_def expired_ids_def Let_def)
qed

lemma runCleanup_storage: "storage_inv sha s \<Longrightarrow> storage_inv sha (snd (runCleanup flt plan has_reader now w s))"
proof -
  assume inv: "storage_inv sha s"
  obtain n db where a: "sendRetentionWarnings flt plan (rw_config w) now (rt_msg s) = (n, db)" by fastforce
  have "warned now (rt_msg s) db"
    using sendRetentionWarnings_warned [of "rt_msg s" now flt plan "rw_config w"] inv a by (simp add: storage_inv_def)
  then have "storage_inv sha (s\<lparr>rt_msg := db\<rparr>)" using storage_warned [OF inv] by blast
  from deleteExpired_storage [OF this, of flt "rw_config w" now] show ?thesis by (simp add: runCleanup_def a case_prod_beta)
qed

lemma drop_dependents_storage:
  assumes "storage_inv sha s" shows "storage_inv sha (drop_dependents flt n ids s)"
proof -
  let ?d = "drop_dependents flt n ids s"
  have "att_inv sha (rt_att ?d)"
    using assms delete_rows_inv by (simp add: drop_dependents_def drop_queue_def drop_embeddings_def drop_attachments_def Let_def storage_inv_def)
  moreover have "att_refs (rt_att ?d) \<subseteq> att_refs (rt_att s)" by (rule att_refs_mono) auto
  moreover have "emb_refs (rt_emb ?d) \<subseteq> emb_refs (rt_emb s)"
    by (auto simp: drop_dependents_def drop_queue_def drop_embeddings_def drop_attachments_def Let_def emb_refs_def)
  ultimately show ?thesis using assms by (auto simp: storage_inv_def)
qed

lemma purge_storage:
  assumes "storage_inv sha s" shows "storage_inv sha (snd (PurgeMessages flt has_reader now chans olderThan agent channel s))"
proof -
  define ms where "ms = map msg_ID (filter (purge_matches now chans olderThan agent channel) (md_msgs (rt_msg s)))"
  let ?ids = "set ms"
  let ?d = "drop_dependents flt 0 ?ids s"
  have ids: "?ids \<subseteq> message_ids (rt_msg s)" by (auto simp: ms_def message_ids_def)
  define u where "u = (case delete_messages (flt (RtMsgs 0)) ?ids ?d of None \<Rightarrow> ?d | Some (_, s') \<Rightarrow> s')"
  have u: "storage_inv sha u"
  proof (cases "delete_messages (flt (RtMsgs 0)) ?ids ?d")
    case None
    then show ?thesis using drop_dependents_storage [OF assms] by (simp add: u_def)
  next
    case (Some p)
    then obtain k t where t: "delete_messages (flt (RtMsgs 0)) ?ids ?d = Some (k, t)" by (cases p) simp
    then show ?thesis using delete_messages_without(1,4) [OF t ids] storage_without [OF assms] by (simp add: u_def)
  qed
  obtain n v where v: "purge_transaction flt has_reader ?ids s = (n, v)" by fastforce
  have "v = u\<lparr>rt_msg := snd (clean_conversations (flt RtConvs) has_reader (rt_msg u))\<rparr>"
    using v by (simp add: purge_transaction_def Let_def u_def [symmetric] case_prod_beta)
  then have inv: "storage_inv sha v" using storage_clean [OF u] by simp
  have "storage_inv sha (v\<lparr>rt_att := fold (purge_file flt) hs (rt_att v)\<rparr>)" for hs
    by (rule files_fold_state [OF purge_file_files [of flt], where s = v and hs = hs]) (simp add: storage_files [OF inv])
  then show ?thesis using assms v by (simp add: PurgeMessages_def Let_def ms_def [symmetric])
qed

subsection \<open>Every operation\<close>

lemma storage_att:
  "storage_inv sha s \<Longrightarrow> att_inv sha a \<Longrightarrow> att_refs a \<subseteq> att_refs (rt_att s) \<union> message_ids (rt_msg s) \<Longrightarrow> storage_inv sha (s\<lparr>rt_att := a\<rparr>)"
  by (auto simp: storage_inv_def)

lemma storage_emb:
  "storage_inv sha s \<Longrightarrow> emb_refs e \<subseteq> emb_refs (rt_emb s) \<union> message_ids (rt_msg s) \<Longrightarrow> storage_inv sha (s\<lparr>rt_emb := e\<rparr>)"
  by (auto simp: storage_inv_def)

lemma send_effect_storage: "storage_inv sha s \<Longrightarrow> storage_inv sha (send_effect aflt eflt now e s)"
proof (cases e)
  case (AttachToMessage h i)
  moreover assume "storage_inv sha s"
  ultimately show ?thesis
    using AttachToMessage_file_refs [of "aflt h" now "map msg_ID (md_msgs (rt_msg s))" h i "rt_att s"] AttachToMessage_file_inv
    by (auto intro!: storage_att simp: storage_inv_def message_ids_def)
next
  case (OnMessageCreated i body)
  moreover assume "storage_inv sha s"
  moreover have "emb_refs (OnMessageCreated_emb eflt now (rt_msg s) i body (rt_emb s)) \<subseteq> emb_refs (rt_emb s) \<union> message_ids (rt_msg s)"
    using enqueue_row_refs [of now i "rt_emb s"] by (auto simp: OnMessageCreated_emb_def Enqueue_def) (auto simp: enqueue_row_def)
  ultimately show ?thesis using storage_emb by simp
qed auto

lemma send_effects_storage: "storage_inv sha s \<Longrightarrow> storage_inv sha (fold (send_effect aflt eflt now) effs s)"
  by (induction effs arbitrary: s) (simp_all add: send_effect_storage)

lemma GarbageCollect_ok:
  assumes "att_inv sha db" shows "att_inv sha (att_exec_ok sha sniff op db)"
  using assms by (rule att.exec_inv)

lemma st_exec_inv: "storage_inv sha s \<Longrightarrow> storage_inv sha (st_exec sha sniff hn cfg op s)"
proof (cases op)
  case (StSend aflt eflt svc env now a b body opts)
  assume inv: "storage_inv sha s"
  obtain r eff db where s: "SendMessage svc env now a b body opts (rt_msg s) = (r, eff, db)" by (metis prod_cases3)
  have "msg_inv db" "msg_grows (rt_msg s) db"
    using msg_exec_grows [of "rt_msg s" "OpSend svc env now a b body opts"] ml.exec_inv [of "rt_msg s" "OpSend svc env now a b body opts"] inv s
    by (simp_all add: storage_inv_def)
  then have "storage_inv sha (s\<lparr>rt_msg := db\<rparr>)" by (rule storage_msgs [OF inv])
  then show ?thesis using StSend s send_effects_storage by simp
next
  case (StMessage op)
  assume inv: "storage_inv sha s"
  then show ?thesis
    using StMessage storage_msgs [OF inv ml.exec_inv msg_exec_grows] by (simp add: storage_inv_def del: msg_exec.simps)
next
  case (StUpload flt now req)
  assume inv: "storage_inv sha s"
  have "att_refs (att_exec_ok sha sniff (FUpload flt now (map msg_ID (md_msgs (rt_msg s))) req) (rt_att s)) \<subseteq> att_refs (rt_att s) \<union> message_ids (rt_msg s)"
    using Upload_refs [of sha sniff flt now "map msg_ID (md_msgs (rt_msg s))" req "rt_att s"] by (simp add: att_exec_ok_def message_ids_def)
  then show ?thesis using StUpload storage_att [OF inv att.exec_inv] inv by (simp add: storage_inv_def)
next
  case (StCollect flt)
  assume inv: "storage_inv sha s"
  have "att_refs (att_exec_ok sha sniff (FCollect flt (map msg_ID (md_msgs (rt_msg s)))) (rt_att s)) \<subseteq> att_refs (rt_att s)"
    using att_refs_mono [OF GarbageCollect_rows] by (simp add: att_exec_ok_def)
  then show ?thesis using StCollect storage_att [OF inv att.exec_inv] inv by (simp add: storage_inv_def le_supI1)
next
  case (StEnqueueAll failed now)
  assume inv: "storage_inv sha s"
  have "set (to_enqueue (rt_msg s) (rt_emb s)) \<subseteq> message_ids (rt_msg s)" by (auto simp: to_enqueue_def message_ids_def)
  then have "emb_refs (snd (EnqueueAllMessages failed now (rt_msg s) (rt_emb s))) \<subseteq> emb_refs (rt_emb s) \<union> message_ids (rt_msg s)"
    using enqueue_rows_refs [of now "to_enqueue (rt_msg s) (rt_emb s)" "rt_emb s"] by (auto simp: EnqueueAllMessages_def)
  then show ?thesis using StEnqueueAll storage_emb [OF inv] by simp
next
  case (StTake flt now k)
  assume "storage_inv sha s"
  then show ?thesis using StTake storage_emb [of sha s] by (simp add: take_batch_refs)
next
  case (StEnd flt de now name dims E k)
  assume "storage_inv sha s"
  from storage_emb [OF this end_batch_refs] show ?thesis using StEnd by simp
qed (simp_all add: runCleanup_storage purge_storage)

interpretation st: invariant_system "st_exec sha sniff hn cfg" "storage_inv sha" for sha sniff hn cfg
  by unfold_locales (rule st_exec_inv)

lemma storage_empty_inv: "storage_inv sha (storage_empty g)"
  by (simp add: storage_inv_def storage_empty_def msg_empty_inv att_empty_inv)
    (simp add: reply_refs_def att_refs_def emb_refs_def msg_empty_def att_empty_def emb_empty_def)

section \<open>Properties\<close>


end
