(* ===== verification/Wiki.thy ===== *)
theory Wiki
  imports Messaging
begin

text \<open>
  The wiki (\<open>internal/wiki\<close>): articles with their revisions, the link graph that is taken from the
  bodies, and the overview over both. The regular expressions are written out as a scanner: a slug
  in a link is the longest run of slug characters after the brackets, since what has to follow it is
  none. The full-text index is a parameter, the ids it finds for a query in the order of their rank.
\<close>

section \<open>Data\<close>

record Article =
  wa_ID :: id64
  wa_Slug :: string
  wa_Title :: string
  wa_Body :: string
  wa_CreatedBy :: string
  wa_UpdatedBy :: string
  wa_Revision :: int
  wa_CreatedAt :: timestamp
  wa_UpdatedAt :: timestamp

record ArticleSummary =
  wu_Slug :: string
  wu_Title :: string
  wu_UpdatedAt :: timestamp
  wu_Revision :: int
  wu_WordCount :: nat

record ArticleRevision =
  wr_ID :: id64
  wr_ArticleID :: id64
  wr_Revision :: int
  wr_Body :: string
  wr_ChangedBy :: string
  wr_CreatedAt :: timestamp

record ArticleLink =
  wl_FromSlug :: string
  wl_ToSlug :: string
  wl_DisplayText :: string

record ArticleView =
  wv_article :: Article
  wv_WordCount :: nat
  wv_OutgoingLinks :: "ArticleLink list"
  wv_Backlinks :: "ArticleSummary list"

record MapOfContent =
  mo_Hubs :: "(ArticleSummary \<times> nat) list"
  mo_Articles :: "ArticleSummary list"
  mo_Orphans :: "ArticleSummary list"
  mo_Wanted :: "(string \<times> nat) list"
  mo_Total :: nat

record wiki_db =
  wd_articles :: "Article list"
  wd_seq :: id64
  wd_revs :: "ArticleRevision list"
  wd_rev_seq :: id64
  wd_links :: "ArticleLink list"

datatype wiki_error = SlugLength | SlugChars | SlugTaken string | ArticleNotFound string | WikiStatementFailed

datatype wiki_stmt =
    WkBegin | WkFind | WkArticle | WkRevision | WkDeleteLinks | WkLink string | WkCommit | WkGet | WkOutgoing | WkBacklinks
  | WkList | WkRevisions | WkAll | WkCounts | WkOutCounts | WkWanted

section \<open>Slugs and links\<close>

definition slug_end :: "char \<Rightarrow> bool" where
  "slug_end c \<longleftrightarrow> is_alnum c \<and> to_lower_char c = c"

definition slug_char :: "char \<Rightarrow> bool" where
  "slug_char c \<longleftrightarrow> slug_end c \<or> c = CHR ''-''"

definition slug_shape :: "string \<Rightarrow> bool" where
  "slug_shape s \<longleftrightarrow> 2 \<le> length s \<and> slug_end (hd s) \<and> slug_end (last s) \<and> list_all slug_char s"

definition ValidateSlug :: "string \<Rightarrow> wiki_error option" where
  "ValidateSlug slug =
     (if length slug < 2 \<or> 100 < length slug then Some SlugLength
      else if \<not> slug_shape slug then Some SlugChars
      else None)"

text \<open>A match at the start of a text: the slug, the display text (empty if there is none) and the rest.\<close>

definition match_link :: "string \<Rightarrow> (string \<times> string \<times> string) option" where
  "match_link s =
     (case strip_prefix ''[['' s of
        None \<Rightarrow> None
      | Some t \<Rightarrow>
          (let slug = takeWhile slug_char t; r = dropWhile slug_char t
           in if \<not> slug_shape slug then None
              else case strip_prefix '']]'' r of
                     Some u \<Rightarrow> Some (slug, '''', u)
                   | None \<Rightarrow>
                       (case strip_prefix ''|'' r of
                          None \<Rightarrow> None
                        | Some d \<Rightarrow>
                            (let display = takeWhile (\<lambda>c. c \<noteq> CHR '']'') d
                             in if display = '''' then None
                                else map_option (\<lambda>u. (slug, display, u)) (strip_prefix '']]'' (dropWhile (\<lambda>c. c \<noteq> CHR '']'') d))))))"

function scan_links :: "string \<Rightarrow> (string \<times> string) list" where
  "scan_links [] = []"
| "scan_links (c # s) =
     (case match_link (c # s) of
        None \<Rightarrow> scan_links s
      | Some (slug, display, rest) \<Rightarrow>
          (slug, display) # (if length rest \<le> length s then scan_links rest else []))"
  by pat_completeness auto
termination
  by (relation "measure length") auto

fun first_links :: "string list \<Rightarrow> (string \<times> string) list \<Rightarrow> (string \<times> string) list" where
  "first_links seen [] = []"
| "first_links seen ((slug, display) # ms) =
     (if slug \<in> set seen then first_links seen ms else (slug, display) # first_links (slug # seen) ms)"

definition ExtractLinks :: "string \<Rightarrow> (string \<times> string) list" where
  "ExtractLinks body = first_links [] (scan_links body)"

definition WordCount :: "string \<Rightarrow> nat" where
  "WordCount s = length (str_fields s)"

section \<open>Reading\<close>

definition article_summary :: "Article \<Rightarrow> ArticleSummary" where
  "article_summary a = \<lparr>wu_Slug = wa_Slug a, wu_Title = wa_Title a, wu_UpdatedAt = wa_UpdatedAt a, wu_Revision = wa_Revision a,
     wu_WordCount = WordCount (wa_Body a)\<rparr>"

definition newest_first :: "Article list \<Rightarrow> Article list" where
  "newest_first as = sort_key (\<lambda>a. - wa_UpdatedAt a) as"

definition GetBacklinks :: "bool \<Rightarrow> string \<Rightarrow> wiki_db \<Rightarrow> wiki_error + ArticleSummary list" where
  "GetBacklinks failed slug db =
     (if failed then Inl WikiStatementFailed
      else Inr (map article_summary (newest_first (concat (map (\<lambda>a. map (\<lambda>_. a)
             (filter (\<lambda>l. wl_FromSlug l = wa_Slug a \<and> wl_ToSlug l = slug) (wd_links db))) (wd_articles db))))))"

definition GetOutgoingLinks :: "bool \<Rightarrow> string \<Rightarrow> wiki_db \<Rightarrow> wiki_error + ArticleLink list" where
  "GetOutgoingLinks failed slug db =
     (if failed then Inl WikiStatementFailed else Inr (filter (\<lambda>l. wl_FromSlug l = slug) (wd_links db)))"

definition find_article :: "string \<Rightarrow> wiki_db \<Rightarrow> Article option" where
  "find_article slug db = find_row (\<lambda>a. wa_Slug a = slug) (wd_articles db)"

definition GetArticle :: "(wiki_stmt \<Rightarrow> bool) \<Rightarrow> string \<Rightarrow> wiki_db \<Rightarrow> wiki_error + ArticleView" where
  "GetArticle flt slug db =
     (if flt WkGet then Inl WikiStatementFailed
      else case find_article slug db of
             None \<Rightarrow> Inl (ArticleNotFound slug)
           | Some a \<Rightarrow>
               (case GetOutgoingLinks (flt WkOutgoing) slug db of
                  Inl e \<Rightarrow> Inl e
                | Inr outgoing \<Rightarrow>
                    (case GetBacklinks (flt WkBacklinks) slug db of
                       Inl e \<Rightarrow> Inl e
                     | Inr backlinks \<Rightarrow> Inr \<lparr>wv_article = a, wv_WordCount = WordCount (wa_Body a), wv_OutgoingLinks = outgoing,
                         wv_Backlinks = backlinks\<rparr>)))"

definition wiki_limit :: "int \<Rightarrow> int" where
  "wiki_limit l = (let l1 = (if l \<le> 0 then 50 else l) in if 200 < l1 then 200 else l1)"

definition ListArticles :: "(string \<Rightarrow> id64 list option) \<Rightarrow> bool \<Rightarrow> string \<Rightarrow> int \<Rightarrow> wiki_db \<Rightarrow> wiki_error + ArticleSummary list" where
  "ListArticles fts failed query limit db =
     (let found = (if query = '''' then Some (newest_first (wd_articles db))
                   else map_option (\<lambda>ids. concat (map (\<lambda>i. filter (\<lambda>a. wa_ID a = i) (wd_articles db)) ids)) (fts (sanitizeFTS5Query query)))
      in case found of
           None \<Rightarrow> Inl WikiStatementFailed
         | Some as \<Rightarrow> if failed then Inl WikiStatementFailed else Inr (map article_summary (limit_offset (wiki_limit limit) 0 as)))"

definition GetRevisions :: "bool \<Rightarrow> string \<Rightarrow> wiki_db \<Rightarrow> wiki_error + (ArticleRevision \<times> nat) list" where
  "GetRevisions failed slug db =
     (if failed then Inl WikiStatementFailed
      else Inr (map (\<lambda>r. (r, WordCount (wr_Body r))) (sort_key (\<lambda>r. - wr_Revision r)
             (filter (\<lambda>r. wr_ArticleID r \<in> wa_ID ` set (filter (\<lambda>a. wa_Slug a = slug) (wd_articles db))) (wd_revs db)))))"

definition count_by :: "('a \<Rightarrow> string) \<Rightarrow> 'a list \<Rightarrow> string \<Rightarrow> nat" where
  "count_by key rows k = length (filter (\<lambda>r. key r = k) rows)"

definition wanted_rows :: "wiki_db \<Rightarrow> (string \<times> nat) list" where
  "wanted_rows db =
     (let rows = filter (\<lambda>l. wl_ToSlug l \<notin> wa_Slug ` set (wd_articles db)) (wd_links db)
      in sort_key (\<lambda>p. - int (snd p)) (map (\<lambda>k. (k, count_by wl_ToSlug rows k)) (dedup (map wl_ToSlug rows))))"

definition GetMapOfContent :: "(wiki_stmt \<Rightarrow> bool) \<Rightarrow> wiki_db \<Rightarrow> wiki_error + MapOfContent" where
  "GetMapOfContent flt db =
     (let all = map article_summary (newest_first (wd_articles db));
          back = count_by wl_ToSlug (wd_links db); out = count_by wl_FromSlug (wd_links db)
      in if flt WkAll \<or> flt WkCounts \<or> flt WkOutCounts \<or> flt WkWanted then Inl WikiStatementFailed
         else Inr \<lparr>mo_Hubs = map (\<lambda>u. (u, back (wu_Slug u))) (filter (\<lambda>u. 2 \<le> back (wu_Slug u)) all), mo_Articles = all,
                mo_Orphans = filter (\<lambda>u. back (wu_Slug u) = 0 \<and> out (wu_Slug u) = 0) all, mo_Wanted = wanted_rows db,
                mo_Total = length all\<rparr>)"

section \<open>Writing\<close>

definition replace_link :: "ArticleLink \<Rightarrow> ArticleLink list \<Rightarrow> ArticleLink list" where
  "replace_link l ls = delete_where (\<lambda>k. wl_FromSlug k = wl_FromSlug l \<and> wl_ToSlug k = wl_ToSlug l) ls @ [l]"

fun insert_links :: "(wiki_stmt \<Rightarrow> bool) \<Rightarrow> string \<Rightarrow> (string \<times> string) list \<Rightarrow> wiki_db \<Rightarrow> wiki_db option" where
  "insert_links flt fromSlug [] db = Some db"
| "insert_links flt fromSlug ((to, display) # ls) db =
     (if flt (WkLink to) then None
      else insert_links flt fromSlug ls (db\<lparr>wd_links := replace_link \<lparr>wl_FromSlug = fromSlug, wl_ToSlug = to, wl_DisplayText = display\<rparr> (wd_links db)\<rparr>))"

definition updateLinks :: "(wiki_stmt \<Rightarrow> bool) \<Rightarrow> string \<Rightarrow> string \<Rightarrow> wiki_db \<Rightarrow> wiki_db option" where
  "updateLinks flt fromSlug body db =
     (if flt WkDeleteLinks then None
      else insert_links flt fromSlug (ExtractLinks body) (db\<lparr>wd_links := delete_where (\<lambda>l. wl_FromSlug l = fromSlug) (wd_links db)\<rparr>))"

definition add_revision :: "timestamp \<Rightarrow> id64 \<Rightarrow> int \<Rightarrow> string \<Rightarrow> string \<Rightarrow> wiki_db \<Rightarrow> wiki_db" where
  "add_revision now article revision body author db =
     db\<lparr>wd_revs := wd_revs db @ [\<lparr>wr_ID = wd_rev_seq db + 1, wr_ArticleID = article, wr_Revision = revision, wr_Body = body,
         wr_ChangedBy = author, wr_CreatedAt = now\<rparr>], wd_rev_seq := wd_rev_seq db + 1\<rparr>"

text \<open>The rest of both transactions; what is returned is read after the commit.\<close>

definition finish_article ::
  "(wiki_stmt \<Rightarrow> bool) \<Rightarrow> timestamp \<Rightarrow> string \<Rightarrow> string \<Rightarrow> string \<Rightarrow> id64 \<Rightarrow> int \<Rightarrow> wiki_db \<Rightarrow> wiki_db \<Rightarrow> (wiki_error + ArticleView) \<times> wiki_db" where
  "finish_article flt now slug body author article revision db db1 =
     (if flt WkRevision then (Inl WikiStatementFailed, db)
      else case updateLinks flt slug body (add_revision now article revision body author db1) of
             None \<Rightarrow> (Inl WikiStatementFailed, db)
           | Some db2 \<Rightarrow> if flt WkCommit then (Inl WikiStatementFailed, db) else (GetArticle flt slug db2, db2))"

definition CreateArticle ::
  "(wiki_stmt \<Rightarrow> bool) \<Rightarrow> timestamp \<Rightarrow> string \<Rightarrow> string \<Rightarrow> string \<Rightarrow> string \<Rightarrow> wiki_db \<Rightarrow> (wiki_error + ArticleView) \<times> wiki_db" where
  "CreateArticle flt now slug title body author db =
     (case ValidateSlug slug of
        Some e \<Rightarrow> (Inl e, db)
      | None \<Rightarrow>
          if flt WkBegin \<or> flt WkArticle then (Inl WikiStatementFailed, db)
          else if find_article slug db \<noteq> None then (Inl (SlugTaken slug), db)
          else finish_article flt now slug body author (wd_seq db + 1) 1 db
                 (db\<lparr>wd_articles := wd_articles db @ [\<lparr>wa_ID = wd_seq db + 1, wa_Slug = slug, wa_Title = title, wa_Body = body,
                     wa_CreatedBy = author, wa_UpdatedBy = author, wa_Revision = 1, wa_CreatedAt = now, wa_UpdatedAt = now\<rparr>],
                   wd_seq := wd_seq db + 1\<rparr>))"

definition UpdateArticle ::
  "(wiki_stmt \<Rightarrow> bool) \<Rightarrow> timestamp \<Rightarrow> string \<Rightarrow> string \<Rightarrow> string \<Rightarrow> string \<Rightarrow> wiki_db \<Rightarrow> (wiki_error + ArticleView) \<times> wiki_db" where
  "UpdateArticle flt now slug title body author db =
     (if flt WkBegin \<or> flt WkFind then (Inl WikiStatementFailed, db)
      else case find_article slug db of
             None \<Rightarrow> (Inl (ArticleNotFound slug), db)
           | Some a \<Rightarrow>
               if flt WkArticle then (Inl WikiStatementFailed, db)
               else finish_article flt now slug body author (wa_ID a) (wa_Revision a + 1) db
                      (db\<lparr>wd_articles := update_where (\<lambda>x. wa_Slug x = slug)
                         (\<lambda>x. x\<lparr>wa_Title := if title = '''' then wa_Title a else title, wa_Body := body, wa_UpdatedBy := author,
                              wa_Revision := wa_Revision a + 1, wa_UpdatedAt := now\<rparr>) (wd_articles db)\<rparr>))"

section \<open>Links\<close>

lemma match_link_shorter: "match_link s = Some (slug, display, rest) \<Longrightarrow> length rest < length s"
proof -
  assume m: "match_link s = Some (slug, display, rest)"
  then obtain t where t: "s = ''[['' @ t" by (auto simp: match_link_def strip_prefix_eq split: option.splits)
  have d: "length (dropWhile P xs) \<le> length xs" for P and xs :: string by (rule length_dropWhile_le)
  have "length rest \<le> length t"
    using m d [of slug_char t] d [of "\<lambda>c. c \<noteq> CHR '']''"] t
    by (auto simp: match_link_def strip_prefix_eq Let_def split: option.splits if_splits) (metis append_Cons append_Nil d length_Cons le_trans nat_le_linear not_less_eq_eq)
  with t show ?thesis by simp
qed

lemma first_links_distinct: "distinct (map fst (first_links seen ms)) \<and> set (map fst (first_links seen ms)) \<inter> set seen = {}"
  by (induction seen ms rule: first_links.induct) auto

lemma ExtractLinks_distinct: "distinct (map fst (ExtractLinks body))"
  using first_links_distinct by (simp add: ExtractLinks_def)

definition mk_link :: "string \<Rightarrow> string \<times> string \<Rightarrow> ArticleLink" where
  "mk_link slug p = \<lparr>wl_FromSlug = slug, wl_ToSlug = fst p, wl_DisplayText = snd p\<rparr>"

lemma insert_links_rows:
  "insert_links flt f ls db = Some db' \<Longrightarrow> distinct (map fst ls) \<Longrightarrow>
     (\<And>l. l \<in> set (wd_links db) \<Longrightarrow> wl_FromSlug l = f \<Longrightarrow> wl_ToSlug l \<notin> fst ` set ls) \<Longrightarrow>
     db' = db\<lparr>wd_links := wd_links db @ map (mk_link f) ls\<rparr>"
proof (induction ls arbitrary: db)
  case (Cons p ls)
  obtain to display where p: "p = (to, display)" by fastforce
  have no: "\<And>l. l \<in> set (wd_links db) \<Longrightarrow> \<not> (wl_FromSlug l = f \<and> wl_ToSlug l = to)" using Cons.prems(3) p by auto
  have r: "replace_link (mk_link f p) (wd_links db) = wd_links db @ [mk_link f p]"
    using no by (simp add: replace_link_def mk_link_def p delete_where_def)
  have "insert_links flt f ls (db\<lparr>wd_links := wd_links db @ [mk_link f p]\<rparr>) = Some db'"
    using Cons.prems(1) r by (simp add: p mk_link_def split: if_splits)
  moreover have "wl_ToSlug l \<notin> fst ` set ls" if "l \<in> set (wd_links db @ [mk_link f p])" "wl_FromSlug l = f" for l
    using that Cons.prems(2,3) by (cases "l = mk_link f p") (auto simp: mk_link_def p)
  ultimately show ?case using Cons.IH [of "db\<lparr>wd_links := wd_links db @ [mk_link f p]\<rparr>"] Cons.prems(2) by simp
qed simp

lemma updateLinks_rows:
  "updateLinks flt f body db = Some db' \<Longrightarrow>
     db' = db\<lparr>wd_links := delete_where (\<lambda>l. wl_FromSlug l = f) (wd_links db) @ map (mk_link f) (ExtractLinks body)\<rparr>"
  by (auto simp: updateLinks_def split: if_splits dest!: insert_links_rows [OF _ ExtractLinks_distinct])

section \<open>Invariant\<close>

definition links_of :: "string \<Rightarrow> wiki_db \<Rightarrow> (string \<times> string) list" where
  "links_of slug db = map (\<lambda>l. (wl_ToSlug l, wl_DisplayText l)) (filter (\<lambda>l. wl_FromSlug l = slug) (wd_links db))"

definition revs_of :: "id64 \<Rightarrow> wiki_db \<Rightarrow> ArticleRevision list" where
  "revs_of i db = filter (\<lambda>r. wr_ArticleID r = i) (wd_revs db)"

text \<open>The revisions of an article are numbered from 1 without a gap, and the last of them is the article.\<close>

definition history_ok :: "ArticleRevision list \<Rightarrow> Article \<Rightarrow> bool" where
  "history_ok rs a \<longleftrightarrow> rs \<noteq> [] \<and> map wr_Revision rs = [1..wa_Revision a] \<and> wr_Body (last rs) = wa_Body a \<and>
     wr_ChangedBy (last rs) = wa_UpdatedBy a"

definition wiki_inv :: "wiki_db \<Rightarrow> bool" where
  "wiki_inv db \<longleftrightarrow> ids_ok wa_ID (wd_seq db) (wd_articles db) \<and> ids_ok wr_ID (wd_rev_seq db) (wd_revs db) \<and>
     distinct (map wa_Slug (wd_articles db)) \<and>
     (\<forall>a \<in> set (wd_articles db). ValidateSlug (wa_Slug a) = None \<and> history_ok (revs_of (wa_ID a) db) a) \<and>
     wr_ArticleID ` set (wd_revs db) \<subseteq> wa_ID ` set (wd_articles db) \<and>
     (\<forall>slug. links_of slug db = (case find_article slug db of None \<Rightarrow> [] | Some a \<Rightarrow> ExtractLinks (wa_Body a)))"

definition wiki_empty :: wiki_db where
  "wiki_empty = \<lparr>wd_articles = [], wd_seq = 0, wd_revs = [], wd_rev_seq = 0, wd_links = []\<rparr>"

lemma wiki_empty_inv: "wiki_inv wiki_empty"
  by (simp add: wiki_inv_def wiki_empty_def links_of_def find_article_def)

datatype wiki_op =
    WkCreate "wiki_stmt \<Rightarrow> bool" timestamp string string string string
  | WkUpdate "wiki_stmt \<Rightarrow> bool" timestamp string string string string

fun wiki_exec :: "wiki_op \<Rightarrow> wiki_db \<Rightarrow> wiki_db" where
  "wiki_exec (WkCreate flt now slug title body author) db = snd (CreateArticle flt now slug title body author db)"
| "wiki_exec (WkUpdate flt now slug title body author) db = snd (UpdateArticle flt now slug title body author db)"

text \<open>Revisions are only ever added; an article keeps its slug and author.\<close>

definition wiki_later :: "wiki_db \<Rightarrow> wiki_db \<Rightarrow> bool" where
  "wiki_later db db' \<longleftrightarrow> (\<exists>rs. wd_revs db' = wd_revs db @ rs) \<and>
     (\<forall>a \<in> set (wd_articles db). \<exists>a' \<in> set (wd_articles db').
        wa_ID a' = wa_ID a \<and> wa_Slug a' = wa_Slug a \<and> wa_CreatedBy a' = wa_CreatedBy a \<and> wa_Revision a \<le> wa_Revision a')"

lemma wiki_later_refl: "wiki_later db db"
  by (auto simp: wiki_later_def)

lemma wiki_later_trans:
  assumes "wiki_later a b" "wiki_later b c" shows "wiki_later a c"
proof -
  have "\<exists>rs. wd_revs c = wd_revs a @ rs" using assms by (auto simp: wiki_later_def)
  moreover have "\<exists>z \<in> set (wd_articles c). wa_ID z = wa_ID x \<and> wa_Slug z = wa_Slug x \<and> wa_CreatedBy z = wa_CreatedBy x \<and>
      wa_Revision x \<le> wa_Revision z" if x: "x \<in> set (wd_articles a)" for x
  proof -
    obtain y where y: "y \<in> set (wd_articles b)" "wa_ID y = wa_ID x" "wa_Slug y = wa_Slug x" "wa_CreatedBy y = wa_CreatedBy x" "wa_Revision x \<le> wa_Revision y"
      using assms(1) x unfolding wiki_later_def by metis
    then show ?thesis using assms(2) unfolding wiki_later_def by (metis order_trans)
  qed
  ultimately show ?thesis by (simp add: wiki_later_def)
qed

text \<open>
  Both transactions: the articles become \<open>as\<close>, where the article with the slug is \<open>a\<close> and the others are as before.
\<close>

lemma finish_article_cases:
  assumes "finish_article flt now slug body author i n db db1 = (r, db')"
  obtains (failed) "db' = db"
  | (stored) "db' = db1\<lparr>wd_revs := wd_revs db1 @ [\<lparr>wr_ID = wd_rev_seq db1 + 1, wr_ArticleID = i, wr_Revision = n, wr_Body = body,
         wr_ChangedBy = author, wr_CreatedAt = now\<rparr>], wd_rev_seq := wd_rev_seq db1 + 1,
       wd_links := delete_where (\<lambda>l. wl_FromSlug l = slug) (wd_links db1) @ map (mk_link slug) (ExtractLinks body)\<rparr>"
  using assms by (auto simp: finish_article_def add_revision_def split: if_splits option.splits dest!: updateLinks_rows)

lemma links_stored:
  "links_of s (db\<lparr>wd_links := delete_where (\<lambda>l. wl_FromSlug l = slug) (wd_links db) @ map (mk_link slug) ls\<rparr>) =
     (if s = slug then ls else links_of s db)"
proof -
  have "map (\<lambda>l. (wl_ToSlug l, wl_DisplayText l)) (map (mk_link slug) ls) = ls" by (simp add: mk_link_def o_def)
  moreover have "filter (\<lambda>l. wl_FromSlug l = s) (map (mk_link slug) ls) = (if s = slug then map (mk_link slug) ls else [])"
    by (simp add: mk_link_def filter_map o_def)
  moreover have "filter (\<lambda>l. wl_FromSlug l = s) (delete_where (\<lambda>l. wl_FromSlug l = slug) (wd_links db)) =
      (if s = slug then [] else filter (\<lambda>l. wl_FromSlug l = s) (wd_links db))"
    by (auto simp: delete_where_def filter_empty_conv intro: filter_cong)
  ultimately show ?thesis by (auto simp: links_of_def)
qed

lemma find_article_slug: "find_article s (db\<lparr>wd_revs := x, wd_rev_seq := y, wd_links := z\<rparr>) = find_article s db"
  by (simp add: find_article_def)

lemma history_append:
  "history_ok rs a \<Longrightarrow> wa_Revision a' = wa_Revision a + 1 \<Longrightarrow> wr_Revision r = wa_Revision a + 1 \<Longrightarrow> wr_Body r = wa_Body a' \<Longrightarrow>
     wr_ChangedBy r = wa_UpdatedBy a' \<Longrightarrow> history_ok (rs @ [r]) a'"
proof -
  assume h: "history_ok rs a" and a: "wa_Revision a' = wa_Revision a + 1" "wr_Revision r = wa_Revision a + 1" "wr_Body r = wa_Body a'"
    "wr_ChangedBy r = wa_UpdatedBy a'"
  have "[1..wa_Revision a] \<noteq> []" using h by (metis history_ok_def map_is_Nil_conv)
  then have "1 \<le> wa_Revision a" by simp
  then show ?thesis using h a by (simp add: history_ok_def upto_rec2)
qed

lemma create_inv:
  assumes inv: "wiki_inv db" and new: "ValidateSlug slug = None" "find_article slug db = None"
    and a: "wa_ID a = wd_seq db + 1" "wa_Slug a = slug" "wa_Body a = body" "wa_UpdatedBy a = author" "wa_Revision a = 1"
    and r: "wr_ID r = wd_rev_seq db + 1" "wr_ArticleID r = wd_seq db + 1" "wr_Revision r = 1" "wr_Body r = body" "wr_ChangedBy r = author"
  shows "wiki_inv (db\<lparr>wd_articles := wd_articles db @ [a], wd_seq := wd_seq db + 1, wd_revs := wd_revs db @ [r], wd_rev_seq := wd_rev_seq db + 1,
      wd_links := delete_where (\<lambda>l. wl_FromSlug l = slug) (wd_links db) @ map (mk_link slug) (ExtractLinks body)\<rparr>)"
    (is "wiki_inv ?db")
proof -
  have ids: "ids_ok wa_ID (wd_seq db) (wd_articles db)" and refs: "wr_ArticleID ` set (wd_revs db) \<subseteq> wa_ID ` set (wd_articles db)"
    using inv by (simp_all add: wiki_inv_def)
  have fresh: "wd_seq db + 1 \<notin> wa_ID ` set (wd_articles db)" using ids_ok_fresh [OF ids] by (metis imageE)
  have "revs_of (wd_seq db + 1) db = []" using fresh refs by (metis (mono_tags, lifting) filter_False image_subset_iff revs_of_def)
  then have new_revs: "revs_of (wa_ID x) ?db = (if x = a then [r] else revs_of (wa_ID x) db)" if "x \<in> set (wd_articles ?db)" for x
    using that fresh a r(2) by (auto simp: revs_of_def)
  have "history_ok [r] a" using a r by (simp add: history_ok_def)
  then have arts: "\<forall>x \<in> set (wd_articles ?db). ValidateSlug (wa_Slug x) = None \<and> history_ok (revs_of (wa_ID x) ?db) x"
    using new_revs inv new(1) a(2) by (auto simp: wiki_inv_def)
  have slug: "slug \<notin> wa_Slug ` set (wd_articles db)" using new(2) by (auto simp: find_article_def)
  have links: "links_of s ?db = (case find_article s ?db of None \<Rightarrow> [] | Some a \<Rightarrow> ExtractLinks (wa_Body a))" for s
  proof -
    have "links_of s ?db = (if s = slug then ExtractLinks body else links_of s db)"
      using links_stored [where s = s and db = db and slug = slug and ls = "ExtractLinks body"] by (simp add: links_of_def)
    moreover have "find_article s ?db = (case find_article s db of None \<Rightarrow> if s = slug then Some a else None | Some x \<Rightarrow> Some x)"
      by (cases "find_row (\<lambda>a. wa_Slug a = s) (wd_articles db)")
        (use a(2) in \<open>simp_all add: find_article_def find_row_append del: find_row_None\<close>)
    ultimately show ?thesis using inv a(3) new(2) by (cases "s = slug") (auto simp: wiki_inv_def split: option.split)
  qed
  have "ids_ok wa_ID (wd_seq ?db) (wd_articles ?db)" "ids_ok wr_ID (wd_rev_seq ?db) (wd_revs ?db)"
    using inv a(1) r(1) by (auto simp: wiki_inv_def intro: ids_ok_append)
  moreover have "distinct (map wa_Slug (wd_articles ?db))" using inv slug a(2) by (simp add: wiki_inv_def)
  moreover have "wr_ArticleID ` set (wd_revs ?db) \<subseteq> wa_ID ` set (wd_articles ?db)" using refs a(1) r(2) by auto
  ultimately show ?thesis unfolding wiki_inv_def using arts links by blast
qed

lemma update_inv:
  assumes inv: "wiki_inv db" and found: "find_article slug db = Some a"
    and f: "wa_ID (f a) = wa_ID a" "wa_Slug (f a) = wa_Slug a" "wa_Body (f a) = body" "wa_UpdatedBy (f a) = author" "wa_Revision (f a) = wa_Revision a + 1"
    and r: "wr_ID r = wd_rev_seq db + 1" "wr_ArticleID r = wa_ID a" "wr_Revision r = wa_Revision a + 1" "wr_Body r = body" "wr_ChangedBy r = author"
  shows "wiki_inv (db\<lparr>wd_articles := update_where (\<lambda>x. wa_Slug x = slug) f (wd_articles db), wd_revs := wd_revs db @ [r], wd_rev_seq := wd_rev_seq db + 1,
      wd_links := delete_where (\<lambda>l. wl_FromSlug l = slug) (wd_links db) @ map (mk_link slug) (ExtractLinks body)\<rparr>)"
    (is "wiki_inv ?db")
proof -
  let ?as = "update_where (\<lambda>x. wa_Slug x = slug) f (wd_articles db)"
  have a: "a \<in> set (wd_articles db)" "wa_Slug a = slug" using find_row_Some [OF found [unfolded find_article_def]] by auto
  have ids: "ids_ok wa_ID (wd_seq db) (wd_articles db)" and dist: "distinct (map wa_Slug (wd_articles db))" using inv by (simp_all add: wiki_inv_def)
  have only: "x = a" if "x \<in> set (wd_articles db)" "wa_Slug x = slug" for x
    using that a dist by (metis distinct_map inj_on_def)
  have as: "?as = map (\<lambda>x. if x = a then f a else x) (wd_articles db)"
    unfolding update_where_def
  proof (rule map_cong [OF refl])
    fix x assume "x \<in> set (wd_articles db)"
    then have "wa_Slug x = slug \<longleftrightarrow> x = a" using only a(2) by blast
    then show "(if wa_Slug x = slug then f x else x) = (if x = a then f a else x)" by simp
  qed
  have keys: "map wa_ID ?as = map wa_ID (wd_articles db)" "map wa_Slug ?as = map wa_Slug (wd_articles db)"
    unfolding as using f by (auto simp: o_def)
  have revs: "revs_of i ?db = revs_of i db @ (if i = wa_ID a then [r] else [])" for i using r(2) by (simp add: revs_of_def)
  have new: "history_ok (revs_of (wa_ID a) ?db) (f a)"
    unfolding revs using inv a f r by (auto simp: wiki_inv_def intro: history_append)
  have old: "history_ok (revs_of (wa_ID x) ?db) x" if x: "x \<in> set (wd_articles db)" "x \<noteq> a" for x
  proof -
    have "wa_ID x \<noteq> wa_ID a" using x a ids_ok_unique [OF ids] by metis
    then show ?thesis using inv x by (simp add: revs wiki_inv_def)
  qed
  have arts: "\<forall>x \<in> set ?as. ValidateSlug (wa_Slug x) = None \<and> history_ok (revs_of (wa_ID x) ?db) x"
  proof
    fix x assume "x \<in> set ?as"
    then consider "x = f a" | "x \<in> set (wd_articles db)" "x \<noteq> a" unfolding as by auto
    then show "ValidateSlug (wa_Slug x) = None \<and> history_ok (revs_of (wa_ID x) ?db) x"
      using new old a inv f(1,2) by cases (auto simp: wiki_inv_def)
  qed
  have links: "links_of s ?db = (case find_article s ?db of None \<Rightarrow> [] | Some a \<Rightarrow> ExtractLinks (wa_Body a))" for s
  proof -
    have "links_of s ?db = (if s = slug then ExtractLinks body else links_of s db)"
      using links_stored [where s = s and db = db and slug = slug and ls = "ExtractLinks body"] by (simp add: links_of_def)
    moreover have "find_article s ?db = map_option (\<lambda>x. if x = a then f a else x) (find_article s db)"
    proof -
      have "find_row (\<lambda>x. wa_Slug x = s) (map (\<lambda>x. if x = a then f a else x) xs) = map_option (\<lambda>x. if x = a then f a else x) (find_row (\<lambda>x. wa_Slug x = s) xs)" for xs
        using f(2) by (induction xs) auto
      then show ?thesis by (simp add: find_article_def as)
    qed
    moreover have "find_article s db = Some x \<Longrightarrow> s \<noteq> slug \<Longrightarrow> x \<noteq> a" for x using a(2) by (auto simp: find_article_def dest: find_row_Some)
    ultimately show ?thesis using inv f(3) found by (cases "s = slug") (auto simp: wiki_inv_def split: option.split)
  qed
  have "ids_ok wa_ID (wd_seq ?db) (wd_articles ?db)" using ids keys by (simp add: ids_ok_map)
  moreover have "ids_ok wr_ID (wd_rev_seq ?db) (wd_revs ?db)" using inv r(1) by (auto simp: wiki_inv_def intro: ids_ok_append)
  moreover have "distinct (map wa_Slug (wd_articles ?db))" using dist keys by simp
  moreover have "wr_ArticleID ` set (wd_revs ?db) \<subseteq> wa_ID ` set (wd_articles ?db)"
  proof -
    have "wa_ID ` set ?as = wa_ID ` set (wd_articles db)" using keys(1) by (metis set_map)
    then show ?thesis using inv r(2) a(1) by (simp add: wiki_inv_def)
  qed
  ultimately show ?thesis unfolding wiki_inv_def using arts links by simp
qed

lemma wiki_exec_ok: "wiki_inv db \<Longrightarrow> wiki_inv (wiki_exec op db) \<and> wiki_later db (wiki_exec op db)"
proof (cases op)
  case (WkCreate flt now slug title body author)
  assume inv: "wiki_inv db"
  define a where "a = \<lparr>wa_ID = wd_seq db + 1, wa_Slug = slug, wa_Title = title, wa_Body = body, wa_CreatedBy = author, wa_UpdatedBy = author,
    wa_Revision = 1, wa_CreatedAt = now, wa_UpdatedAt = now\<rparr>"
  define db1 where "db1 = db\<lparr>wd_articles := wd_articles db @ [a], wd_seq := wd_seq db + 1\<rparr>"
  show ?thesis
  proof (cases "ValidateSlug slug = None \<and> \<not> flt WkBegin \<and> \<not> flt WkArticle \<and> find_article slug db = None")
    case True
    obtain r db' where f: "finish_article flt now slug body author (wd_seq db + 1) 1 db db1 = (r, db')" by fastforce
    have e: "wiki_exec op db = db'" using True f by (simp add: WkCreate CreateArticle_def a_def db1_def)
    show ?thesis unfolding e
      by (rule finish_article_cases [OF f])
        (use True inv create_inv [OF inv, of slug a body author] in \<open>auto simp: a_def db1_def wiki_later_def\<close>)
  next
    case False
    then have "wiki_exec op db = db" by (auto simp: WkCreate CreateArticle_def split: option.split)
    then show ?thesis using inv wiki_later_refl by simp
  qed
next
  case (WkUpdate flt now slug title body author)
  assume inv: "wiki_inv db"
  show ?thesis
  proof (cases "find_article slug db")
    case (Some a)
    define f where "f = (\<lambda>x::Article. x\<lparr>wa_Title := if title = '''' then wa_Title a else title, wa_Body := body, wa_UpdatedBy := author,
      wa_Revision := wa_Revision a + 1, wa_UpdatedAt := now\<rparr>)"
    define db1 where "db1 = db\<lparr>wd_articles := update_where (\<lambda>x. wa_Slug x = slug) f (wd_articles db)\<rparr>"
    have a: "a \<in> set (wd_articles db)" "wa_Slug a = slug" using find_row_Some [OF Some [unfolded find_article_def]] by auto
    have only: "x = a" if "x \<in> set (wd_articles db)" "wa_Slug x = slug" for x
      using that a inv by (metis distinct_map inj_on_def wiki_inv_def)
    have later: "wiki_later db (db1\<lparr>wd_revs := wd_revs db1 @ rs, wd_rev_seq := n, wd_links := ls\<rparr>)" for rs n ls
    proof -
      have "\<exists>y \<in> set (wd_articles db1). wa_ID y = wa_ID x \<and> wa_Slug y = wa_Slug x \<and> wa_CreatedBy y = wa_CreatedBy x \<and> wa_Revision x \<le> wa_Revision y"
        if x: "x \<in> set (wd_articles db)" for x
        using updated_row [OF x, of "\<lambda>x. wa_Slug x = slug" f] only [OF x]
        by (intro bexI [of _ "if wa_Slug x = slug then f x else x"]) (simp_all add: db1_def f_def)
      then show ?thesis by (simp add: wiki_later_def) (simp add: db1_def)
    qed
    show ?thesis
    proof (cases "flt WkBegin \<or> flt WkFind \<or> flt WkArticle")
      case True
      then show ?thesis using inv wiki_later_refl Some by (auto simp: WkUpdate UpdateArticle_def)
    next
      case False
      obtain r db' where fin: "finish_article flt now slug body author (wa_ID a) (wa_Revision a + 1) db db1 = (r, db')" by fastforce
      have e: "wiki_exec op db = db'" using False Some fin by (simp add: WkUpdate UpdateArticle_def db1_def f_def)
      show ?thesis unfolding e
        by (rule finish_article_cases [OF fin])
          (use inv update_inv [OF inv Some, of f body author] later wiki_later_refl in \<open>auto simp: f_def db1_def\<close>)
    qed
  next
    case None
    then show ?thesis using inv wiki_later_refl by (simp add: WkUpdate UpdateArticle_def)
  qed
qed

interpretation wk: history_system wiki_exec wiki_inv wiki_later
  using wiki_exec_ok by unfold_locales (auto intro: wiki_later_refl wiki_later_trans)

section \<open>The overview\<close>

definition links_to :: "string \<Rightarrow> Article \<Rightarrow> bool" where
  "links_to slug a \<longleftrightarrow> slug \<in> fst ` set (ExtractLinks (wa_Body a))"

lemma sum_one: "distinct ks \<Longrightarrow> sum_list (map (\<lambda>k. if c = k then 1 else 0) ks) = (if c \<in> set ks then 1 else (0::nat))"
  by (induction ks) auto

lemma count_parts:
  "distinct ks \<Longrightarrow> (\<And>x. x \<in> set xs \<Longrightarrow> P x \<Longrightarrow> key x \<in> set ks) \<Longrightarrow>
     length (filter P xs) = sum_list (map (\<lambda>k. length (filter (\<lambda>x. key x = k \<and> P x) xs)) ks)"
proof (induction xs)
  case (Cons x xs)
  have "sum_list (map (\<lambda>k. length (filter (\<lambda>x. key x = k \<and> P x) (x # xs))) ks) =
      sum_list (map (\<lambda>k. (if key x = k \<and> P x then 1 else 0) + length (filter (\<lambda>x. key x = k \<and> P x) xs)) ks)"
    by (intro arg_cong [of _ _ sum_list] map_cong) auto
  also have "\<dots> = sum_list (map (\<lambda>k. if key x = k \<and> P x then 1 else 0) ks) + length (filter P xs)"
    using Cons by (simp add: sum_list_addf)
  also have "sum_list (map (\<lambda>k. if key x = k \<and> P x then 1 else 0) ks) = (if P x then 1 else (0::nat))"
    using Cons.prems sum_one [of ks "key x"] by (cases "P x") simp_all
  finally show ?case by simp
qed simp

lemma sum_list_count: "sum_list (map (\<lambda>a. if P a then 1 else 0) xs) = length (filter P xs)"
  by (induction xs) auto

lemma distinct_map_sort: "distinct (map f (sort_key k xs)) \<longleftrightarrow> distinct (map f xs)"
  by (intro mset_eq_imp_distinct_iff) simp

lemma count_one: "distinct (map fst xs) \<Longrightarrow> length (filter (\<lambda>p. fst p = k) xs) = (if k \<in> fst ` set xs then 1 else 0)"
proof (induction xs)
  case (Cons x xs)
  then show ?case by (cases "fst x = k") (auto simp: filter_empty_conv)
qed simp

lemma backlink_count:
  assumes inv: "wiki_inv db" shows "count_by wl_ToSlug (wd_links db) slug = length (filter (links_to slug) (wd_articles db))"
proof -
  have dist: "distinct (map wa_Slug (wd_articles db))" using inv by (simp add: wiki_inv_def)
  have "wl_FromSlug l \<in> set (map wa_Slug (wd_articles db))" if l: "l \<in> set (wd_links db)" for l
  proof (rule ccontr)
    assume no: "wl_FromSlug l \<notin> set (map wa_Slug (wd_articles db))"
    have "wa_Slug a \<noteq> wl_FromSlug l" if a: "a \<in> set (wd_articles db)" for a
    proof -
      have "wa_Slug a \<in> set (map wa_Slug (wd_articles db))" using a by simp
      with no show ?thesis by metis
    qed
    then have "find_article (wl_FromSlug l) db = None" by (simp add: find_article_def)
    then have "links_of (wl_FromSlug l) db = []" using inv by (simp add: wiki_inv_def)
    then show False using l by (auto simp: links_of_def filter_empty_conv)
  qed
  then have "count_by wl_ToSlug (wd_links db) slug =
      sum_list (map (\<lambda>k. length (filter (\<lambda>l. wl_FromSlug l = k \<and> wl_ToSlug l = slug) (wd_links db))) (map wa_Slug (wd_articles db)))"
    unfolding count_by_def by (intro count_parts [OF dist])
  also have "\<dots> = sum_list (map (\<lambda>a. if links_to slug a then 1 else 0) (wd_articles db))"
    unfolding map_map o_def
  proof (intro arg_cong [of _ _ sum_list] map_cong [OF refl])
    fix a assume a: "a \<in> set (wd_articles db)"
    have "find_article (wa_Slug a) db = Some a"
      unfolding find_article_def using dist a by (metis find_row_key)
    then have l: "links_of (wa_Slug a) db = ExtractLinks (wa_Body a)" using inv by (simp add: wiki_inv_def)
    have "length (filter (\<lambda>l. wl_FromSlug l = wa_Slug a \<and> wl_ToSlug l = slug) (wd_links db)) = length (filter (\<lambda>p. fst p = slug) (links_of (wa_Slug a) db))"
      by (simp add: links_of_def filter_map o_def conj_commute)
    also have "\<dots> = (if links_to slug a then 1 else 0)"
      unfolding l links_to_def by (rule count_one [OF ExtractLinks_distinct])
    finally show "length (filter (\<lambda>l. wl_FromSlug l = wa_Slug a \<and> wl_ToSlug l = slug) (wd_links db)) = (if links_to slug a then 1 else 0)" .
  qed
  also have "\<dots> = length (filter (links_to slug) (wd_articles db))" by (simp add: sum_list_count)
  finally show ?thesis .
qed

section \<open>Properties\<close>

text \<open>
  C37. The wiki along every run of creations and updates, whatever statements fail: slugs are valid and unique, the
  revisions of an article are numbered 1, 2, ... without a gap and the last of them is its current text, the link table
  holds exactly the links of the current texts; and no revision is ever changed or lost, nor does an article lose its
  slug or its author.
\<close>

theorem wiki_history:
  "wiki_inv (fold wiki_exec ops wiki_empty) \<and>
   wiki_later (fold wiki_exec ops wiki_empty) (fold wiki_exec (ops @ more_ops) wiki_empty)"
proof -
  have inv: "wiki_inv (fold wiki_exec os wiki_empty)" for os using wiki_empty_inv by (rule wk.run_inv)
  show ?thesis using inv [of ops] wk.run_later [OF inv [of ops], of more_ops] by simp
qed

text \<open>
  The overview of the wiki, computed from the link table, says what the texts say: a hub is an article at least two
  articles link to, with their number; an orphan is one nobody links to and that links to nothing; wanted are exactly
  the slugs without an article that texts link to, each once with the number of articles that do.
\<close>

theorem map_of_content_exact:
  assumes "db = fold wiki_exec ops wiki_empty" "GetMapOfContent flt db = Inr moc"
  shows "mset (mo_Articles moc) = mset (map article_summary (wd_articles db)) \<and> mo_Total moc = length (wd_articles db) \<and>
    (\<forall>a \<in> set (wd_articles db).
       (article_summary a \<in> fst ` set (mo_Hubs moc) \<longleftrightarrow> 2 \<le> length (filter (links_to (wa_Slug a)) (wd_articles db))) \<and>
       (article_summary a \<in> set (mo_Orphans moc) \<longleftrightarrow>
          filter (links_to (wa_Slug a)) (wd_articles db) = [] \<and> ExtractLinks (wa_Body a) = [])) \<and>
    (\<forall>(u, n) \<in> set (mo_Hubs moc). n = length (filter (links_to (wu_Slug u)) (wd_articles db))) \<and>
    set (mo_Wanted moc) = {(k, n). n = length (filter (links_to k) (wd_articles db)) \<and> 0 < n \<and> k \<notin> wa_Slug ` set (wd_articles db)} \<and>
    distinct (map fst (mo_Wanted moc))"
proof -
  have inv: "wiki_inv db" unfolding assms(1) using wiki_empty_inv by (rule wk.run_inv)
  note count = backlink_count [OF inv]
  have moc: "mo_Articles moc = map article_summary (newest_first (wd_articles db))" "mo_Total moc = length (wd_articles db)"
    "mo_Hubs moc = map (\<lambda>u. (u, count_by wl_ToSlug (wd_links db) (wu_Slug u)))
       (filter (\<lambda>u. 2 \<le> count_by wl_ToSlug (wd_links db) (wu_Slug u)) (map article_summary (newest_first (wd_articles db))))"
    "mo_Orphans moc = filter (\<lambda>u. count_by wl_ToSlug (wd_links db) (wu_Slug u) = 0 \<and> count_by wl_FromSlug (wd_links db) (wu_Slug u) = 0)
       (map article_summary (newest_first (wd_articles db)))"
    "mo_Wanted moc = wanted_rows db"
    using assms(2) by (auto simp: GetMapOfContent_def Let_def newest_first_def split: if_splits)
  have out: "count_by wl_FromSlug (wd_links db) (wa_Slug a) = 0 \<longleftrightarrow> ExtractLinks (wa_Body a) = []" if a: "a \<in> set (wd_articles db)" for a
  proof -
    have "find_article (wa_Slug a) db = Some a"
      unfolding find_article_def using inv a by (metis find_row_key wiki_inv_def)
    then have "links_of (wa_Slug a) db = ExtractLinks (wa_Body a)" using inv by (simp add: wiki_inv_def)
    moreover have "count_by wl_FromSlug (wd_links db) (wa_Slug a) = length (links_of (wa_Slug a) db)" by (simp add: count_by_def links_of_def)
    ultimately show ?thesis by simp
  qed
  have slug: "wu_Slug (article_summary a) = wa_Slug a" for a by (simp add: article_summary_def)
  have newest: "set (newest_first (wd_articles db)) = set (wd_articles db)" by (simp add: newest_first_def)
  have arts: "(article_summary a \<in> fst ` set (mo_Hubs moc) \<longleftrightarrow> 2 \<le> length (filter (links_to (wa_Slug a)) (wd_articles db))) \<and>
       (article_summary a \<in> set (mo_Orphans moc) \<longleftrightarrow>
          filter (links_to (wa_Slug a)) (wd_articles db) = [] \<and> ExtractLinks (wa_Body a) = [])" if a: "a \<in> set (wd_articles db)" for a
  proof -
    have "fst ` set (mo_Hubs moc) = {u \<in> article_summary ` set (wd_articles db). 2 \<le> length (filter (links_to (wu_Slug u)) (wd_articles db))}"
      by (simp add: moc image_image newest count)
    then have "article_summary a \<in> fst ` set (mo_Hubs moc) \<longleftrightarrow> 2 \<le> length (filter (links_to (wa_Slug a)) (wd_articles db))"
      using a by (simp add: slug)
    then show ?thesis using a out [OF a] by (simp add: moc newest slug count)
  qed
  have hubs: "\<forall>(u, n) \<in> set (mo_Hubs moc). n = length (filter (links_to (wu_Slug u)) (wd_articles db))"
    by (auto simp: moc count)
  let ?rows = "filter (\<lambda>l. wl_ToSlug l \<notin> wa_Slug ` set (wd_articles db)) (wd_links db)"
  have rows: "count_by wl_ToSlug ?rows k = length (filter (links_to k) (wd_articles db))" if "k \<notin> wa_Slug ` set (wd_articles db)" for k
  proof -
    have "filter (\<lambda>l. wl_ToSlug l = k) ?rows = filter (\<lambda>l. wl_ToSlug l = k) (wd_links db)" using that unfolding filter_filter by (intro filter_cong [OF refl]) auto
    then show ?thesis using count [of k] by (simp add: count_by_def)
  qed
  have some: "k \<in> wl_ToSlug ` set (wd_links db) \<longleftrightarrow> 0 < length (filter (links_to k) (wd_articles db))" for k
    unfolding count [symmetric] count_by_def length_greater_0_conv filter_empty_conv by blast
  have wset: "set (mo_Wanted moc) = (\<lambda>k. (k, count_by wl_ToSlug ?rows k)) ` (wl_ToSlug ` set ?rows)"
    by (simp add: moc wanted_rows_def Let_def)
  have "set (mo_Wanted moc) = {(k, n). n = length (filter (links_to k) (wd_articles db)) \<and> 0 < n \<and> k \<notin> wa_Slug ` set (wd_articles db)}"
  proof -
    have "wl_ToSlug ` set ?rows = {k. 0 < length (filter (links_to k) (wd_articles db)) \<and> k \<notin> wa_Slug ` set (wd_articles db)}"
    proof -
      have "wl_ToSlug ` set ?rows = {k. k \<in> wl_ToSlug ` set (wd_links db) \<and> k \<notin> wa_Slug ` set (wd_articles db)}" by auto
      then show ?thesis unfolding some .
    qed
    then show ?thesis unfolding wset using rows by auto
  qed
  moreover have "distinct (map fst (mo_Wanted moc))"
    by (simp add: moc wanted_rows_def Let_def distinct_map_sort o_def)
  moreover have "mset (mo_Articles moc) = mset (map article_summary (wd_articles db))" by (simp add: moc newest_first_def)
  ultimately show ?thesis using arts hubs moc(2) by blast
qed

definition demo_wiki :: wiki_db where
  "demo_wiki = fold wiki_exec [WkCreate (\<lambda>_. False) 1 ''go-tips'' ''Go'' ''see [[sql]] and [[faq|the FAQ]]'' ''ann'',
     WkCreate (\<lambda>_. False) 2 ''faq'' ''FAQ'' ''[[sql]], [[sql]]'' ''bob'', WkCreate (\<lambda>_. False) 3 ''alone'' ''x'' ''nothing [[ here ]]'' ''bob'',
     WkUpdate (\<lambda>_. False) 4 ''go-tips'' '''' ''see [[sql]] [[faq]]'' ''bob''] wiki_empty"

theorem map_of_content_exact_witness:
  "\<exists>moc. GetMapOfContent (\<lambda>_. False) demo_wiki = Inr moc \<and> mo_Wanted moc = [(''sql'', 2)] \<and> map wu_Slug (mo_Orphans moc) = [''alone''] \<and>
     mo_Total moc = 3"
proof -
  have "\<not> isl (GetMapOfContent (\<lambda>_. False) demo_wiki)" by code_simp
  then obtain moc where m: "GetMapOfContent (\<lambda>_. False) demo_wiki = Inr moc" by (cases "GetMapOfContent (\<lambda>_. False) demo_wiki") auto
  have "map_sum (\<lambda>_. ()) (\<lambda>m. (mo_Wanted m, map wu_Slug (mo_Orphans m))) (GetMapOfContent (\<lambda>_. False) demo_wiki) =
      Inr ([(''sql'', 2)], [''alone''])" by code_simp
  moreover have "length (wd_articles demo_wiki) = 3" by code_simp
  moreover have "mo_Total moc = length (wd_articles demo_wiki)"
    using map_of_content_exact [OF demo_wiki_def m] by blast
  ultimately show ?thesis using m by auto
qed

text \<open>Links are read back as they are written.\<close>

definition show_link :: "string \<times> string \<Rightarrow> string" where
  "show_link p = ''[['' @ fst p @ (if snd p = '''' then '''' else ''|'' @ snd p) @ '']]''"

definition link_ok :: "string \<times> string \<Rightarrow> bool" where
  "link_ok p \<longleftrightarrow> slug_shape (fst p) \<and> CHR '']'' \<notin> set (snd p)"

lemma takeWhile_stop: "list_all P xs \<Longrightarrow> \<not> P y \<Longrightarrow> takeWhile P (xs @ y # ys) = xs \<and> dropWhile P (xs @ y # ys) = y # ys"
  by (induction xs) auto

lemma match_show_link: "link_ok p \<Longrightarrow> match_link (show_link p @ rest) = Some (fst p, snd p, rest)"
proof -
  assume ok: "link_ok p"
  then have s: "list_all slug_char (fst p)" by (simp add: link_ok_def slug_shape_def)
  have no: "\<not> slug_char CHR '']''" "\<not> slug_char CHR ''|''" by code_simp+
  show ?thesis
  proof (cases "snd p = ''''")
    case True
    have "show_link p @ rest = CHR ''['' # CHR ''['' # fst p @ CHR '']'' # CHR '']'' # rest" by (simp add: show_link_def True)
    then show ?thesis
      using ok takeWhile_stop [OF s no(1)] True by (simp add: match_link_def link_ok_def Let_def)
  next
    case False
    have "list_all (\<lambda>c. c \<noteq> CHR '']'') (snd p)" using ok by (auto simp: link_ok_def list_all_iff)
    note d = takeWhile_stop [OF this, of "CHR '']''" "CHR '']'' # rest"]
    have "show_link p @ rest = CHR ''['' # CHR ''['' # fst p @ CHR ''|'' # snd p @ CHR '']'' # CHR '']'' # rest" by (simp add: show_link_def False)
    then show ?thesis
      using ok takeWhile_stop [OF s no(2)] d False by (simp add: match_link_def link_ok_def Let_def)
  qed
qed

lemma scan_show_links: "list_all link_ok ls \<Longrightarrow> scan_links (concat (map show_link ls)) = ls"
proof (induction ls)
  case (Cons p ls)
  let ?r = "concat (map show_link ls)"
  obtain c s where s: "show_link p @ ?r = c # s" by (cases "show_link p @ ?r") (auto simp: show_link_def)
  have m: "match_link (c # s) = Some (fst p, snd p, ?r)" using match_show_link [of p ?r] Cons.prems s by simp
  then have "length ?r \<le> length s" using match_link_shorter [OF m] by simp
  then show ?case using m Cons s by simp
qed simp

lemma first_links_same: "distinct (map fst ls) \<Longrightarrow> set (map fst ls) \<inter> set seen = {} \<Longrightarrow> first_links seen ls = ls"
  by (induction seen ls rule: first_links.induct) auto

lemma extract_shown_links:
  assumes "list_all link_ok ls" "distinct (map fst ls)"
  shows "ExtractLinks (concat (map show_link ls)) = ls"
  using assms by (simp add: ExtractLinks_def scan_show_links first_links_same)

end
