(* ===== verification/Secrets.thy ===== *)
theory Secrets
  imports Prelude
begin

text \<open>
  Encrypted secrets (\<open>internal/secrets\<close>): the master key file, the table with its immutable
  history, listings without values, and the environment of a subprocess built from the scopes of a
  user, an agent and a task. The cipher (NaCl secretbox) is a parameter; random bytes are arguments,
  \<open>None\<close> when the source fails. Names are ASCII. Instants are seconds.
\<close>

section \<open>Data\<close>

datatype scope_type = ScopeAgent | ScopeTask | ScopeUser

text \<open>The order of the three words, by which the listing is sorted.\<close>

fun scope_rank :: "scope_type \<Rightarrow> nat" where
  "scope_rank ScopeAgent = 0"
| "scope_rank ScopeTask = 1"
| "scope_rank ScopeUser = 2"

instantiation scope_type :: linorder
begin

definition less_eq_scope_type :: "scope_type \<Rightarrow> scope_type \<Rightarrow> bool" where
  "less_eq_scope_type a b \<longleftrightarrow> scope_rank a \<le> scope_rank b"

definition less_scope_type :: "scope_type \<Rightarrow> scope_type \<Rightarrow> bool" where
  "less_scope_type a b \<longleftrightarrow> scope_rank a < scope_rank b"

instance
proof
  fix a b :: scope_type
  show "a \<le> b \<Longrightarrow> b \<le> a \<Longrightarrow> a = b" by (cases a; cases b) (simp_all add: less_eq_scope_type_def)
qed (auto simp: less_eq_scope_type_def less_scope_type_def)

end

record Secret =
  se_ID :: id64
  se_Name :: string
  se_ScopeType :: scope_type
  se_ScopeID :: id64
  se_Blob :: string
  se_CreatedBy :: id64
  se_CreatedAt :: timestamp
  se_RevokedAt :: "timestamp option"
  se_LastUsedAt :: "timestamp option"

record SecretInfo =
  sn_Name :: string
  sn_ScopeType :: scope_type
  sn_ScopeID :: id64
  sn_Available :: bool
  sn_LastUsedAt :: "timestamp option"

record sec_db =
  sb_rows :: "Secret list"
  sb_seq :: id64
  sb_users :: "id64 list"

datatype sec_error =
    SecNotFound | ErrAlreadyRevoked | ErrInvalidName | ErrMasterKeyMissing | InvalidScope string | EncryptFailed | DecryptFailed
  | SecStatementFailed

datatype sec_stmt = SxBegin | SxRevoke | SxInsert | SxCommit | SxReadBack | SxGet | SxList | SxLookup | SxUpdate | SxEnv | SxBump

text \<open>The cipher: \<open>seal\<close> and \<open>open\<close> take the nonce and the key.\<close>

record secretbox =
  bx_Seal :: "string \<Rightarrow> string \<Rightarrow> string \<Rightarrow> string"
  bx_Open :: "string \<Rightarrow> string \<Rightarrow> string \<Rightarrow> string option"

definition nonceSize :: nat where "nonceSize = 24"

definition keySize :: nat where "keySize = 32"

definition boxOverhead :: nat where "boxOverhead = 16"

text \<open>What the package documents: a box opens under its nonce and key, and is longer by the overhead.\<close>

definition box_ok :: "secretbox \<Rightarrow> bool" where
  "box_ok bx \<longleftrightarrow> (\<forall>nonce key plain. bx_Open bx nonce key (bx_Seal bx nonce key plain) = Some plain \<and>
     length (bx_Seal bx nonce key plain) = length plain + boxOverhead)"

section \<open>The master key\<close>

record key_file =
  kf_mkdir_fails :: bool
  kf_read_fails :: bool
  kf_write_fails :: bool
  kf_content :: "string option"

definition loadOrCreateMasterKey :: "string option \<Rightarrow> key_file \<Rightarrow> (sec_error + string) \<times> key_file" where
  "loadOrCreateMasterKey random f =
     (if kf_mkdir_fails f then (Inl ErrMasterKeyMissing, f)
      else if kf_read_fails f then (Inl ErrMasterKeyMissing, f)
      else case kf_content f of
             Some data \<Rightarrow> (if length data \<noteq> keySize then Inl ErrMasterKeyMissing else Inr data, f)
           | None \<Rightarrow>
               (case random of
                  None \<Rightarrow> (Inl ErrMasterKeyMissing, f)
                | Some buf \<Rightarrow> if kf_write_fails f then (Inl ErrMasterKeyMissing, f) else (Inr buf, f\<lparr>kf_content := Some buf\<rparr>)))"

section \<open>Names and values\<close>

definition upper_char :: "char \<Rightarrow> char" where
  "upper_char c = (let n = of_char c in if 97 \<le> n \<and> n \<le> (122::nat) then char_of (n - 32) else c)"

definition env_char :: "char \<Rightarrow> bool" where
  "env_char c \<longleftrightarrow> (let n = (of_char c :: nat) in 65 \<le> n \<and> n \<le> 90 \<or> 48 \<le> n \<and> n \<le> 57) \<or> c = CHR ''_''"

definition sanitizeName :: "string \<Rightarrow> sec_error + string" where
  "sanitizeName raw =
     (let upper = map upper_char raw in if raw = '''' \<or> \<not> list_all env_char upper then Inl ErrInvalidName else Inr upper)"

definition validScope :: "string \<Rightarrow> scope_type option" where
  "validScope t =
     (if t = ''user'' then Some ScopeUser else if t = ''agent'' then Some ScopeAgent else if t = ''task'' then Some ScopeTask else None)"

definition sec_encrypt :: "secretbox \<Rightarrow> string \<Rightarrow> string option \<Rightarrow> string \<Rightarrow> string option" where
  "sec_encrypt bx key nonce plain = map_option (\<lambda>n. n @ bx_Seal bx n key plain) nonce"

definition sec_decrypt :: "secretbox \<Rightarrow> string \<Rightarrow> string \<Rightarrow> string option" where
  "sec_decrypt bx key blob =
     (if length blob < nonceSize + boxOverhead then None else bx_Open bx (take nonceSize blob) key (drop nonceSize blob))"

section \<open>The table\<close>

definition active_secret :: "string \<Rightarrow> scope_type \<Rightarrow> id64 \<Rightarrow> Secret \<Rightarrow> bool" where
  "active_secret name st sid s \<longleftrightarrow> se_Name s = name \<and> se_ScopeType s = st \<and> se_ScopeID s = sid \<and> se_RevokedAt s = None"

definition secret_Set ::
  "(sec_stmt \<Rightarrow> bool) \<Rightarrow> secretbox \<Rightarrow> string \<Rightarrow> string option \<Rightarrow> timestamp \<Rightarrow> string \<Rightarrow> string \<Rightarrow> id64 \<Rightarrow> id64 \<Rightarrow> string \<Rightarrow> sec_db \<Rightarrow>
   (sec_error + Secret) \<times> sec_db" where
  "secret_Set flt bx key nonce now name scopeType scopeID createdBy value db =
     (case sanitizeName name of
        Inl e \<Rightarrow> (Inl e, db)
      | Inr clean \<Rightarrow>
          (case validScope scopeType of
             None \<Rightarrow> (Inl (InvalidScope scopeType), db)
           | Some st \<Rightarrow>
               (case sec_encrypt bx key nonce value of
                  None \<Rightarrow> (Inl EncryptFailed, db)
                | Some blob \<Rightarrow>
                    (let i = sb_seq db + 1;
                         row = \<lparr>se_ID = i, se_Name = clean, se_ScopeType = st, se_ScopeID = scopeID, se_Blob = blob,
                           se_CreatedBy = createdBy, se_CreatedAt = now, se_RevokedAt = None, se_LastUsedAt = None\<rparr>
                     in if flt SxBegin \<or> flt SxRevoke \<or> flt SxInsert \<or> createdBy \<notin> set (sb_users db) \<or> flt SxCommit
                        then (Inl SecStatementFailed, db)
                        else (if flt SxReadBack then Inl SecStatementFailed else Inr row,
                              db\<lparr>sb_rows := update_where (active_secret clean st scopeID) (\<lambda>s. s\<lparr>se_RevokedAt := Some now\<rparr>) (sb_rows db) @ [row],
                                 sb_seq := i\<rparr>)))))"

definition secret_Get :: "bool \<Rightarrow> secretbox \<Rightarrow> string \<Rightarrow> string \<Rightarrow> string \<Rightarrow> id64 \<Rightarrow> sec_db \<Rightarrow> sec_error + string" where
  "secret_Get failed bx key name scopeType scopeID db =
     (case sanitizeName name of
        Inl e \<Rightarrow> Inl e
      | Inr clean \<Rightarrow>
          (case validScope scopeType of
             None \<Rightarrow> Inl (InvalidScope scopeType)
           | Some st \<Rightarrow>
               if failed then Inl SecStatementFailed
               else (case find_row (active_secret clean st scopeID) (sb_rows db) of
                       None \<Rightarrow> Inl SecNotFound
                     | Some s \<Rightarrow> (case sec_decrypt bx key (se_Blob s) of None \<Rightarrow> Inl DecryptFailed | Some v \<Rightarrow> Inr v))))"

fun valid_scopes :: "(string \<times> id64) list \<Rightarrow> sec_error + (scope_type \<times> id64) list" where
  "valid_scopes [] = Inr []"
| "valid_scopes ((t, i) # scs) =
     (case validScope t of
        None \<Rightarrow> Inl (InvalidScope t)
      | Some st \<Rightarrow> (case valid_scopes scs of Inl e \<Rightarrow> Inl e | Inr ss \<Rightarrow> Inr ((st, i) # ss)))"

definition secret_List :: "bool \<Rightarrow> (string \<times> id64) list \<Rightarrow> sec_db \<Rightarrow> sec_error + SecretInfo list" where
  "secret_List failed scopes db =
     (if scopes = [] then Inr []
      else case valid_scopes scopes of
             Inl e \<Rightarrow> Inl e
           | Inr ss \<Rightarrow>
               if failed then Inl SecStatementFailed
               else Inr (map (\<lambda>s. \<lparr>sn_Name = se_Name s, sn_ScopeType = se_ScopeType s, sn_ScopeID = se_ScopeID s, sn_Available = True,
                        sn_LastUsedAt = se_LastUsedAt s\<rparr>)
                      (sort_key (\<lambda>s. (se_ScopeType s, se_ScopeID s, se_Name s))
                        (filter (\<lambda>s. se_RevokedAt s = None \<and> (se_ScopeType s, se_ScopeID s) \<in> set ss) (sb_rows db)))))"

definition secret_Revoke :: "(sec_stmt \<Rightarrow> bool) \<Rightarrow> timestamp \<Rightarrow> id64 \<Rightarrow> sec_db \<Rightarrow> (sec_error + unit) \<times> sec_db" where
  "secret_Revoke flt now i db =
     (if flt SxLookup then (Inl SecStatementFailed, db)
      else case find_row (\<lambda>s. se_ID s = i) (sb_rows db) of
             None \<Rightarrow> (Inl SecNotFound, db)
           | Some s \<Rightarrow>
               if se_RevokedAt s \<noteq> None then (Inl ErrAlreadyRevoked, db)
               else if flt SxUpdate then (Inl SecStatementFailed, db)
               else (Inr (), db\<lparr>sb_rows := update_where (\<lambda>s. se_ID s = i) (\<lambda>s. s\<lparr>se_RevokedAt := Some now\<rparr>) (sb_rows db)\<rparr>))"

section \<open>The environment of a subprocess\<close>

fun precedence :: "scope_type \<Rightarrow> nat" where
  "precedence ScopeUser = 1"
| "precedence ScopeAgent = 2"
| "precedence ScopeTask = 3"

definition env_scopes :: "id64 \<Rightarrow> id64 \<Rightarrow> id64 \<Rightarrow> (scope_type \<times> id64) list" where
  "env_scopes userID agentID taskID =
     (if 0 < userID then [(ScopeUser, userID)] else []) @ (if 0 < agentID then [(ScopeAgent, agentID)] else []) @
     (if 0 < taskID then [(ScopeTask, taskID)] else [])"

text \<open>The winner of a name so far: its id, its precedence and its value.\<close>

type_synonym winners = "(string \<times> id64 \<times> nat \<times> string) list"

definition put_winner :: "string \<Rightarrow> id64 \<times> nat \<times> string \<Rightarrow> winners \<Rightarrow> winners" where
  "put_winner name w ws = (name, w) # filter (\<lambda>p. fst p \<noteq> name) ws"

fun env_rows :: "secretbox \<Rightarrow> string \<Rightarrow> Secret list \<Rightarrow> winners \<Rightarrow> sec_error + winners" where
  "env_rows bx key [] ws = Inr ws"
| "env_rows bx key (s # rows) ws =
     (let prec = precedence (se_ScopeType s)
      in if (case map_of ws (se_Name s) of None \<Rightarrow> False | Some (_, p, _) \<Rightarrow> prec \<le> p) then env_rows bx key rows ws
         else case sec_decrypt bx key (se_Blob s) of
                None \<Rightarrow> Inl DecryptFailed
              | Some v \<Rightarrow> env_rows bx key rows (put_winner (se_Name s) (se_ID s, prec, v) ws))"

text \<open>\<open>plan\<close> is the order in which the rows come, which the query leaves to the engine.\<close>

definition BuildEnvMap ::
  "(sec_stmt \<Rightarrow> bool) \<Rightarrow> (Secret list \<Rightarrow> Secret list) \<Rightarrow> secretbox \<Rightarrow> string \<Rightarrow> timestamp \<Rightarrow> id64 \<Rightarrow> id64 \<Rightarrow> id64 \<Rightarrow> sec_db \<Rightarrow>
   (sec_error + (string \<times> string) list) \<times> sec_db" where
  "BuildEnvMap flt plan bx key now userID agentID taskID db =
     (let scopes = env_scopes userID agentID taskID
      in if scopes = [] then (Inr [], db)
         else if flt SxEnv then (Inl SecStatementFailed, db)
         else case env_rows bx key (plan (filter (\<lambda>s. se_RevokedAt s = None \<and> (se_ScopeType s, se_ScopeID s) \<in> set scopes) (sb_rows db))) [] of
                Inl e \<Rightarrow> (Inl e, db)
              | Inr ws \<Rightarrow>
                  (Inr (map (\<lambda>(name, _, _, v). (name, v)) ws),
                   if flt SxBump then db
                   else db\<lparr>sb_rows := update_where (\<lambda>s. se_ID s \<in> set (map (fst \<circ> snd) ws)) (\<lambda>s. s\<lparr>se_LastUsedAt := Some now\<rparr>) (sb_rows db)\<rparr>))"

section \<open>Invariant and history\<close>

datatype sec_op =
    SxSetOp "sec_stmt \<Rightarrow> bool" "string option" timestamp string string id64 id64 string
  | SxRevokeOp "sec_stmt \<Rightarrow> bool" timestamp id64
  | SxEnvOp "sec_stmt \<Rightarrow> bool" "Secret list \<Rightarrow> Secret list" timestamp id64 id64 id64

fun sec_exec :: "secretbox \<Rightarrow> string \<Rightarrow> sec_op \<Rightarrow> sec_db \<Rightarrow> sec_db" where
  "sec_exec bx key (SxSetOp flt nonce now name st sid createdBy value) db = snd (secret_Set flt bx key nonce now name st sid createdBy value db)"
| "sec_exec bx key (SxRevokeOp flt now i) db = snd (secret_Revoke flt now i db)"
| "sec_exec bx key (SxEnvOp flt plan now u a t) db = snd (BuildEnvMap flt plan bx key now u a t db)"

definition secret_key :: "Secret \<Rightarrow> string \<times> scope_type \<times> id64" where
  "secret_key s = (se_Name s, se_ScopeType s, se_ScopeID s)"

definition sec_inv :: "sec_db \<Rightarrow> bool" where
  "sec_inv db \<longleftrightarrow> ids_ok se_ID (sb_seq db) (sb_rows db) \<and>
     distinct (map secret_key (filter (\<lambda>s. se_RevokedAt s = None) (sb_rows db))) \<and>
     (\<forall>s \<in> set (sb_rows db). se_Name s \<noteq> '''' \<and> list_all env_char (se_Name s) \<and> se_CreatedBy s \<in> set (sb_users db))"

text \<open>A secret is never changed or deleted; it can be revoked, once, and its last use is noted.\<close>

definition secret_later :: "Secret \<Rightarrow> Secret \<Rightarrow> bool" where
  "secret_later s s' \<longleftrightarrow> s' = s\<lparr>se_RevokedAt := se_RevokedAt s', se_LastUsedAt := se_LastUsedAt s'\<rparr> \<and>
     (se_RevokedAt s \<noteq> None \<longrightarrow> se_RevokedAt s' = se_RevokedAt s)"

definition sec_later :: "sec_db \<Rightarrow> sec_db \<Rightarrow> bool" where
  "sec_later db db' \<longleftrightarrow> (\<exists>rs new. sb_rows db' = rs @ new \<and> list_all2 secret_later (sb_rows db) rs)"

lemma secret_later_refl: "secret_later s s"
  by (simp add: secret_later_def)

lemma secret_later_trans: "secret_later a b \<Longrightarrow> secret_later b c \<Longrightarrow> secret_later a c"
  unfolding secret_later_def by (cases a; cases b; cases c) auto

lemma sec_later_refl: "sec_later db db"
  unfolding sec_later_def by (intro exI [of _ "sb_rows db"] exI [of _ "[]"]) (simp add: list.rel_refl secret_later_refl)

lemma sec_later_trans:
  assumes "sec_later a b" "sec_later b c" shows "sec_later a c"
proof -
  obtain rs new where b: "sb_rows b = rs @ new" "list_all2 secret_later (sb_rows a) rs" using assms(1) by (auto simp: sec_later_def)
  obtain qs new' where c: "sb_rows c = qs @ new'" "list_all2 secret_later (rs @ new) qs" using assms(2) b(1) by (auto simp: sec_later_def)
  obtain q1 q2 where q: "qs = q1 @ q2" "list_all2 secret_later rs q1" using c(2) by (auto simp: list_all2_append1)
  have "list_all2 secret_later (sb_rows a) q1" using b(2) q(2) by (rule list_all2_trans [rotated]) (rule secret_later_trans)
  then show ?thesis unfolding sec_later_def using c(1) q(1) by (intro exI [of _ q1] exI [of _ "q2 @ new'"]) simp
qed

lemma sec_later_update:
  assumes "\<And>s. s \<in> set (sb_rows db) \<Longrightarrow> P s \<Longrightarrow> secret_later s (f s)"
  shows "sec_later db (db\<lparr>sb_rows := update_where P f (sb_rows db) @ new, sb_seq := n\<rparr>)"
  unfolding sec_later_def
  by (intro exI [of _ "update_where P f (sb_rows db)"] exI [of _ new])
    (simp add: update_where_def list_all2_map2 list.rel_refl_strong secret_later_refl assms)

lemma sanitizeName_ok: "sanitizeName raw = Inr clean \<Longrightarrow> clean \<noteq> '''' \<and> list_all env_char clean"
  by (auto simp: sanitizeName_def Let_def split: if_splits)

text \<open>The stored row of a successful \<open>Set\<close>.\<close>

lemma secret_Set_cases:
  assumes "secret_Set flt bx key nonce now name scopeType sid createdBy value db = (r, db')"
  obtains (kept) "db' = db" "isl r"
  | (put) clean st blob n row where "sanitizeName name = Inr clean" "validScope scopeType = Some st" "nonce = Some n" "blob = n @ bx_Seal bx n key value"
      "row = \<lparr>se_ID = sb_seq db + 1, se_Name = clean, se_ScopeType = st, se_ScopeID = sid, se_Blob = blob, se_CreatedBy = createdBy,
        se_CreatedAt = now, se_RevokedAt = None, se_LastUsedAt = None\<rparr>"
      "createdBy \<in> set (sb_users db)" "isl r \<or> r = Inr row"
      "db' = db\<lparr>sb_rows := update_where (active_secret clean st sid) (\<lambda>s. s\<lparr>se_RevokedAt := Some now\<rparr>) (sb_rows db) @ [row], sb_seq := sb_seq db + 1\<rparr>"
proof (cases "sanitizeName name")
  case (Inl e)
  then have "db' = db \<and> isl r" using assms by (auto simp: secret_Set_def)
  then show thesis using kept by blast
next
  case (Inr clean)
  show thesis
  proof (cases "validScope scopeType = None \<or> nonce = None \<or> flt SxBegin \<or> flt SxRevoke \<or> flt SxInsert \<or> createdBy \<notin> set (sb_users db) \<or> flt SxCommit")
    case True
    then have "db' = db \<and> isl r" using assms Inr by (auto simp: secret_Set_def sec_encrypt_def Let_def split: option.splits if_splits)
    then show thesis using kept by blast
  next
    case False
    then obtain st n where "validScope scopeType = Some st" "nonce = Some n" by auto
    then show thesis using assms False Inr by (intro put [OF Inr]) (auto simp: secret_Set_def sec_encrypt_def Let_def split: if_splits)
  qed
qed

lemma revoke_rows_inv:
  assumes "sec_inv db" "\<And>s. se_RevokedAt (f s) = Some now \<and> secret_key (f s) = secret_key s \<and> se_ID (f s) = se_ID s \<and> se_CreatedBy (f s) = se_CreatedBy s"
  shows "sec_inv (db\<lparr>sb_rows := update_where P f (sb_rows db)\<rparr>)"
proof -
  have "filter (\<lambda>s. se_RevokedAt s = None) (update_where P f rs) = filter (\<lambda>s. se_RevokedAt s = None \<and> \<not> P s) rs" for rs
    using assms(2) by (induction rs) auto
  moreover have "map secret_key (filter (\<lambda>s. se_RevokedAt s = None \<and> \<not> P s) rs) =
      map secret_key (filter (\<lambda>s. \<not> P s) (filter (\<lambda>s. se_RevokedAt s = None) rs))" for rs by (simp add: conj_commute)
  moreover have "\<forall>s \<in> set (update_where P f (sb_rows db)). se_Name s \<noteq> '''' \<and> list_all env_char (se_Name s) \<and> se_CreatedBy s \<in> set (sb_users db)"
  proof
    fix s assume "s \<in> set (update_where P f (sb_rows db))"
    then obtain x where x: "x \<in> set (sb_rows db)" "s = (if P x then f x else x)" by (auto simp: in_update_where)
    then have "se_Name s = se_Name x" "se_CreatedBy s = se_CreatedBy x" using assms(2) [of x] by (auto simp: secret_key_def)
    then show "se_Name s \<noteq> [] \<and> list_all env_char (se_Name s) \<and> se_CreatedBy s \<in> set (sb_users db)" using assms(1) x(1) by (simp add: sec_inv_def)
  qed
  ultimately show ?thesis using assms by (simp add: sec_inv_def ids_ok_update_where distinct_map_filter del: filter_filter)
qed

lemma secret_Set_ok:
  assumes "sec_inv db" "secret_Set flt bx key nonce now name scopeType sid createdBy value db = (r, db')"
  shows "sec_inv db' \<and> sec_later db db'"
  using assms(2)
proof (cases rule: secret_Set_cases)
  case kept
  then show ?thesis using assms(1) sec_later_refl by simp
next
  case (put clean st blob n row)
  let ?db = "db\<lparr>sb_rows := update_where (active_secret clean st sid) (\<lambda>s. s\<lparr>se_RevokedAt := Some now\<rparr>) (sb_rows db)\<rparr>"
  have inv: "sec_inv ?db" using assms(1) by (rule revoke_rows_inv) (simp add: secret_key_def)
  have "secret_key row \<notin> set (map secret_key (filter (\<lambda>s. se_RevokedAt s = None) (sb_rows ?db)))"
  proof
    assume "secret_key row \<in> set (map secret_key (filter (\<lambda>s. se_RevokedAt s = None) (sb_rows ?db)))"
    then obtain s where s: "s \<in> set (sb_rows ?db)" "se_RevokedAt s = None" "secret_key row = secret_key s" by auto
    from s(1) obtain x where "s = (if active_secret clean st sid x then x\<lparr>se_RevokedAt := Some now\<rparr> else x)" by (auto simp: in_update_where)
    with s(2,3) have x: "secret_key row = secret_key (if active_secret clean st sid x then x\<lparr>se_RevokedAt := Some now\<rparr> else x)"
      "se_RevokedAt (if active_secret clean st sid x then x\<lparr>se_RevokedAt := Some now\<rparr> else x) = None" by simp_all
    then have no: "\<not> active_secret clean st sid x" by (cases "active_secret clean st sid x") simp_all
    then have "secret_key row = secret_key x" "se_RevokedAt x = None" using x by simp_all
    with no show False by (simp add: put(5) secret_key_def active_secret_def)
  qed
  then have "sec_inv (?db\<lparr>sb_rows := sb_rows ?db @ [row], sb_seq := sb_seq db + 1\<rparr>)"
    using inv sanitizeName_ok [OF put(1)] put(6) by (auto simp: sec_inv_def put(5) intro: ids_ok_append)
  moreover have "sec_later db db'" unfolding put(8)
    by (rule sec_later_update) (auto simp: secret_later_def active_secret_def)
  ultimately show ?thesis by (simp add: put(8))
qed

lemma sec_exec_ok: "sec_inv db \<Longrightarrow> sec_inv (sec_exec bx key op db) \<and> sec_later db (sec_exec bx key op db)"
proof (cases op)
  case (SxSetOp flt nonce now name st sid createdBy v)
  moreover assume "sec_inv db"
  ultimately show ?thesis
    using secret_Set_ok by (cases "secret_Set flt bx key nonce now name st sid createdBy v db") simp
next
  case (SxRevokeOp flt now i)
  assume inv: "sec_inv db"
  let ?db = "db\<lparr>sb_rows := update_where (\<lambda>s. se_ID s = i) (\<lambda>s. s\<lparr>se_RevokedAt := Some now\<rparr>) (sb_rows db)\<rparr>"
  have "sec_inv ?db" using inv by (rule revoke_rows_inv) (simp add: secret_key_def)
  moreover have "sec_later db ?db" if s: "find_row (\<lambda>s. se_ID s = i) (sb_rows db) = Some s" "se_RevokedAt s = None" for s
  proof -
    have "x = s" if "x \<in> set (sb_rows db)" "se_ID x = i" for x
      using that find_row_Some [OF s(1)] inv ids_ok_unique [of se_ID "sb_seq db" "sb_rows db" x s] by (simp add: sec_inv_def)
    then have "secret_later x (x\<lparr>se_RevokedAt := Some now\<rparr>)" if "x \<in> set (sb_rows db)" "se_ID x = i" for x
      using that s(2) by (simp add: secret_later_def)
    from sec_later_update [of db "\<lambda>s. se_ID s = i" "\<lambda>s. s\<lparr>se_RevokedAt := Some now\<rparr>" "sb_seq db" "[]", OF this]
    show ?thesis by simp
  qed
  ultimately show ?thesis using SxRevokeOp inv sec_later_refl by (auto simp: secret_Revoke_def split: option.split)
next
  case (SxEnvOp flt plan now u a t)
  assume inv: "sec_inv db"
  have b: "sec_inv (db\<lparr>sb_rows := update_where P (\<lambda>s. s\<lparr>se_LastUsedAt := Some now\<rparr>) (sb_rows db)\<rparr>)" (is "sec_inv ?db") for P
  proof -
    have "map (\<lambda>s. (se_RevokedAt s, secret_key s)) (sb_rows ?db) = map (\<lambda>s. (se_RevokedAt s, secret_key s)) (sb_rows db)"
      by (simp add: map_update_where secret_key_def)
    then have "map snd (filter (\<lambda>p. fst p = None) (map (\<lambda>s. (se_RevokedAt s, secret_key s)) (sb_rows ?db))) =
        map snd (filter (\<lambda>p. fst p = None) (map (\<lambda>s. (se_RevokedAt s, secret_key s)) (sb_rows db)))" by simp
    then have "map secret_key (filter (\<lambda>s. se_RevokedAt s = None) (sb_rows ?db)) = map secret_key (filter (\<lambda>s. se_RevokedAt s = None) (sb_rows db))"
      by (simp only: filter_map o_def map_map fst_conv snd_conv)
    moreover have "\<forall>s \<in> set (sb_rows ?db). se_Name s \<noteq> [] \<and> list_all env_char (se_Name s) \<and> se_CreatedBy s \<in> set (sb_users db)"
    proof
      fix s assume "s \<in> set (sb_rows ?db)"
      then obtain x where "x \<in> set (sb_rows db)" "s = (if P x then x\<lparr>se_LastUsedAt := Some now\<rparr> else x)" by (auto simp: in_update_where)
      then show "se_Name s \<noteq> [] \<and> list_all env_char (se_Name s) \<and> se_CreatedBy s \<in> set (sb_users db)" using inv by (simp add: sec_inv_def)
    qed
    ultimately show ?thesis using inv by (simp add: sec_inv_def ids_ok_update_where)
  qed
  moreover have "sec_later db (db\<lparr>sb_rows := update_where P (\<lambda>s. s\<lparr>se_LastUsedAt := Some now\<rparr>) (sb_rows db)\<rparr>)" for P
    using sec_later_update [of db P "\<lambda>s. s\<lparr>se_LastUsedAt := Some now\<rparr>" "sb_seq db" "[]"] by (simp add: secret_later_def)
  ultimately show ?thesis using SxEnvOp inv sec_later_refl by (auto simp: BuildEnvMap_def Let_def split: sum.split)
qed

interpretation sx: history_system "sec_exec bx key" sec_inv sec_later for bx key
  using sec_exec_ok by unfold_locales (auto intro: sec_later_refl sec_later_trans)

definition sec_empty :: "id64 list \<Rightarrow> sec_db" where
  "sec_empty users = \<lparr>sb_rows = [], sb_seq = 0, sb_users = users\<rparr>"

lemma sec_empty_inv: "sec_inv (sec_empty users)"
  by (simp add: sec_inv_def sec_empty_def)

section \<open>Reading back\<close>

lemma active_unique:
  assumes "sec_inv db" "s \<in> set (sb_rows db)" "t \<in> set (sb_rows db)" "active_secret n st i s" "active_secret n st i t"
  shows "s = t"
proof -
  have "inj_on secret_key (set (filter (\<lambda>s. se_RevokedAt s = None) (sb_rows db)))"
    using assms(1) by (simp add: sec_inv_def distinct_map)
  moreover have "secret_key s = secret_key t" using assms(4,5) by (simp add: active_secret_def secret_key_def)
  ultimately show ?thesis using assms(2-5) by (auto simp: active_secret_def inj_on_def)
qed

lemma decrypt_encrypted:
  "box_ok bx \<Longrightarrow> length n = nonceSize \<Longrightarrow> sec_decrypt bx key (n @ bx_Seal bx n key v) = Some v"
  by (simp add: sec_decrypt_def box_ok_def)

text \<open>Operations that neither replace nor revoke a secret.\<close>

fun leaves :: "Secret \<Rightarrow> sec_op \<Rightarrow> bool" where
  "leaves s (SxSetOp flt nonce now name st sid createdBy v) \<longleftrightarrow>
     \<not> (sanitizeName name = Inr (se_Name s) \<and> validScope st = Some (se_ScopeType s) \<and> sid = se_ScopeID s)"
| "leaves s (SxRevokeOp flt now i) \<longleftrightarrow> i \<noteq> se_ID s"
| "leaves s (SxEnvOp flt plan now u a t) \<longleftrightarrow> True"

definition holds :: "Secret \<Rightarrow> sec_db \<Rightarrow> bool" where
  "holds s db \<longleftrightarrow> (\<exists>t \<in> set (sb_rows db). secret_key t = secret_key s \<and> se_ID t = se_ID s \<and> se_Blob t = se_Blob s \<and> se_RevokedAt t = None)"

lemma holds_update:
  assumes "holds s db" "\<And>t. t \<in> set (sb_rows db) \<Longrightarrow> secret_key t = secret_key s \<Longrightarrow> se_ID t = se_ID s \<Longrightarrow> se_RevokedAt t = None \<Longrightarrow> P t \<Longrightarrow>
     secret_key (f t) = secret_key t \<and> se_ID (f t) = se_ID t \<and> se_Blob (f t) = se_Blob t \<and> se_RevokedAt (f t) = None"
  shows "holds s (db\<lparr>sb_rows := update_where P f (sb_rows db) @ new, sb_seq := n\<rparr>)"
proof -
  obtain t where t: "t \<in> set (sb_rows db)" "secret_key t = secret_key s" "se_ID t = se_ID s" "se_Blob t = se_Blob s" "se_RevokedAt t = None"
    using assms(1) by (auto simp: holds_def)
  show ?thesis unfolding holds_def
    using updated_row [OF t(1), of P f] t assms(2) [OF t(1,2,3,5)] by (intro bexI [of _ "if P t then f t else t"]) auto
qed

lemma holds_exec:
  assumes "holds s db" "leaves s op" shows "holds s (sec_exec bx key op db)"
proof (cases op)
  case (SxSetOp flt nonce now name st sid createdBy v)
  obtain r db' where d: "secret_Set flt bx key nonce now name st sid createdBy v db = (r, db')" by fastforce
  show ?thesis using d
  proof (cases rule: secret_Set_cases)
    case kept
    then show ?thesis using assms(1) SxSetOp d by simp
  next
    case (put clean sct blob n row)
    have "holds s db'" unfolding put(8)
      by (rule holds_update [OF assms(1)]) (use assms(2) put(1,2) SxSetOp in \<open>auto simp: active_secret_def secret_key_def\<close>)
    then show ?thesis using SxSetOp d by simp
  qed
next
  case (SxRevokeOp flt now i)
  have "holds s (db\<lparr>sb_rows := update_where (\<lambda>s. se_ID s = i) (\<lambda>s. s\<lparr>se_RevokedAt := Some now\<rparr>) (sb_rows db) @ [], sb_seq := sb_seq db\<rparr>)"
    by (rule holds_update [OF assms(1)]) (use assms(2) SxRevokeOp in auto)
  then show ?thesis using SxRevokeOp assms(1) by (auto simp: secret_Revoke_def split: option.split)
next
  case (SxEnvOp flt plan now u a t)
  have "holds s (db\<lparr>sb_rows := update_where P (\<lambda>s. s\<lparr>se_LastUsedAt := Some now\<rparr>) (sb_rows db) @ [], sb_seq := sb_seq db\<rparr>)" for P
    by (rule holds_update [OF assms(1)]) (auto simp: secret_key_def)
  then show ?thesis using SxEnvOp assms(1) by (auto simp: BuildEnvMap_def Let_def split: sum.split)
qed

lemma holds_run: "holds s db \<Longrightarrow> list_all (leaves s) ops \<Longrightarrow> holds s (fold (sec_exec bx key) ops db)"
  by (induction ops arbitrary: db) (auto intro: holds_exec)

lemma Get_holds:
  assumes "sec_inv db" "holds s db" "sanitizeName name = Inr (se_Name s)" "validScope st = Some (se_ScopeType s)" "sid = se_ScopeID s"
    "sec_decrypt bx key (se_Blob s) = Some v"
  shows "secret_Get False bx key name st sid db = Inr v"
proof -
  obtain t where t: "t \<in> set (sb_rows db)" "active_secret (se_Name s) (se_ScopeType s) (se_ScopeID s) t" "se_Blob t = se_Blob s"
    using assms(2) by (auto simp: holds_def active_secret_def secret_key_def)
  then obtain u where u: "find_row (active_secret (se_Name s) (se_ScopeType s) (se_ScopeID s)) (sb_rows db) = Some u"
    by (metis find_row_None not_None_eq)
  then have "u = t" using active_unique [OF assms(1)] find_row_Some [OF u] t by blast
  then show ?thesis using u t(3) assms(3-6) by (simp add: secret_Get_def)
qed

section \<open>Precedence\<close>

text \<open>What the winners are, once the rows \<open>S\<close> have been looked at.\<close>

definition wins :: "secretbox \<Rightarrow> string \<Rightarrow> Secret set \<Rightarrow> winners \<Rightarrow> bool" where
  "wins bx key S ws \<longleftrightarrow> distinct (map fst ws) \<and>
     (\<forall>n. case map_of ws n of
        None \<Rightarrow> \<forall>s \<in> S. se_Name s \<noteq> n
      | Some (i, p, v) \<Rightarrow> \<exists>s \<in> S. se_Name s = n \<and> precedence (se_ScopeType s) = p \<and> sec_decrypt bx key (se_Blob s) = Some v \<and>
          (\<forall>t \<in> S. se_Name t = n \<longrightarrow> precedence (se_ScopeType t) \<le> p))"

lemma wins_None: "wins bx key S ws \<Longrightarrow> map_of ws n = None \<Longrightarrow> \<forall>s \<in> S. se_Name s \<noteq> n"
  unfolding wins_def by (drule conjunct2, drule spec [of _ n]) simp

lemma wins_Some:
  "wins bx key S ws \<Longrightarrow> map_of ws n = Some (i, p, v) \<Longrightarrow>
     \<exists>s \<in> S. se_Name s = n \<and> precedence (se_ScopeType s) = p \<and> sec_decrypt bx key (se_Blob s) = Some v \<and>
       (\<forall>t \<in> S. se_Name t = n \<longrightarrow> precedence (se_ScopeType t) \<le> p)"
  unfolding wins_def by (drule conjunct2, drule spec [of _ n]) simp

lemma map_of_put: "map_of (put_winner name w ws) n = (if n = name then Some w else map_of ws n)"
proof -
  have "n \<noteq> name \<Longrightarrow> map_of (filter (\<lambda>p. fst p \<noteq> name) ws) n = map_of ws n" by (induction ws) auto
  then show ?thesis by (simp add: put_winner_def)
qed

lemma put_distinct: "distinct (map fst ws) \<Longrightarrow> distinct (map fst (put_winner name w ws))"
  by (auto simp: put_winner_def distinct_map_filter)

lemma wins_skip:
  assumes "wins bx key S ws" "map_of ws (se_Name s) = Some (i, p, v)" "precedence (se_ScopeType s) \<le> p"
  shows "wins bx key (insert s S) ws"
  unfolding wins_def
proof (intro conjI allI)
  show "distinct (map fst ws)" using assms(1) by (simp add: wins_def)
  fix n
  have w: "case map_of ws n of None \<Rightarrow> \<forall>s \<in> S. se_Name s \<noteq> n
      | Some (i, p, v) \<Rightarrow> \<exists>s \<in> S. se_Name s = n \<and> precedence (se_ScopeType s) = p \<and> sec_decrypt bx key (se_Blob s) = Some v \<and>
          (\<forall>t \<in> S. se_Name t = n \<longrightarrow> precedence (se_ScopeType t) \<le> p)" using assms(1) by (simp add: wins_def)
  show "case map_of ws n of None \<Rightarrow> \<forall>x \<in> insert s S. se_Name x \<noteq> n
      | Some (i, p, v) \<Rightarrow> \<exists>x \<in> insert s S. se_Name x = n \<and> precedence (se_ScopeType x) = p \<and> sec_decrypt bx key (se_Blob x) = Some v \<and>
          (\<forall>t \<in> insert s S. se_Name t = n \<longrightarrow> precedence (se_ScopeType t) \<le> p)"
  proof (cases "n = se_Name s")
    case True
    then show ?thesis using w assms(2,3) by auto
  next
    case False
    then show ?thesis using w by (auto split: option.splits)
  qed
qed

lemma wins_put:
  assumes "wins bx key S ws" "sec_decrypt bx key (se_Blob s) = Some v"
    "case map_of ws (se_Name s) of None \<Rightarrow> True | Some (_, p, _) \<Rightarrow> p < precedence (se_ScopeType s)"
  shows "wins bx key (insert s S) (put_winner (se_Name s) (i, precedence (se_ScopeType s), v) ws)"
  unfolding wins_def
proof (intro conjI allI)
  show "distinct (map fst (put_winner (se_Name s) (i, precedence (se_ScopeType s), v) ws))" using assms(1) by (simp add: wins_def put_distinct)
  fix n
  have w: "case map_of ws n of None \<Rightarrow> \<forall>s \<in> S. se_Name s \<noteq> n
      | Some (i, p, v) \<Rightarrow> \<exists>s \<in> S. se_Name s = n \<and> precedence (se_ScopeType s) = p \<and> sec_decrypt bx key (se_Blob s) = Some v \<and>
          (\<forall>t \<in> S. se_Name t = n \<longrightarrow> precedence (se_ScopeType t) \<le> p)" using assms(1) by (simp add: wins_def)
  show "case map_of (put_winner (se_Name s) (i, precedence (se_ScopeType s), v) ws) n of None \<Rightarrow> \<forall>x \<in> insert s S. se_Name x \<noteq> n
      | Some (i, p, v) \<Rightarrow> \<exists>x \<in> insert s S. se_Name x = n \<and> precedence (se_ScopeType x) = p \<and> sec_decrypt bx key (se_Blob x) = Some v \<and>
          (\<forall>t \<in> insert s S. se_Name t = n \<longrightarrow> precedence (se_ScopeType t) \<le> p)"
  proof (cases "n = se_Name s")
    case True
    have "precedence (se_ScopeType t) \<le> precedence (se_ScopeType s)" if t: "t \<in> S" "se_Name t = n" for t
      using w assms(3) t True by (cases "map_of ws n") (auto simp: less_imp_le_nat intro: le_trans)
    then show ?thesis using True assms(2) by (auto simp: map_of_put)
  next
    case False
    then show ?thesis using w by (auto simp: map_of_put split: option.splits)
  qed
qed

lemma env_rows_wins:
  "env_rows bx key rows ws = Inr ws' \<Longrightarrow> wins bx key S ws \<Longrightarrow> wins bx key (S \<union> set rows) ws'"
proof (induction rows arbitrary: ws S)
  case (Cons s rows)
  let ?prec = "precedence (se_ScopeType s)"
  show ?case
  proof (cases "case map_of ws (se_Name s) of None \<Rightarrow> False | Some (_, p, _) \<Rightarrow> ?prec \<le> p")
    case True
    then obtain i p v where "map_of ws (se_Name s) = Some (i, p, v)" "?prec \<le> p" by (auto split: option.splits)
    then have "wins bx key (insert s S) ws" using Cons.prems(2) by (intro wins_skip)
    from Cons.IH [OF _ this] show ?thesis using Cons.prems(1) True by simp
  next
    case False
    then obtain v where v: "sec_decrypt bx key (se_Blob s) = Some v" using Cons.prems(1) by (auto simp: Let_def split: option.splits)
    have "wins bx key (insert s S) (put_winner (se_Name s) (se_ID s, ?prec, v) ws)"
      using Cons.prems(2) v False by (intro wins_put) (auto split: option.splits)
    from Cons.IH [OF _ this] show ?thesis using Cons.prems(1) False v by (simp add: Let_def)
  qed
qed simp

definition visible_secret :: "sec_db \<Rightarrow> string \<Rightarrow> scope_type \<Rightarrow> id64 \<Rightarrow> Secret option" where
  "visible_secret db n st i = (if 0 < i then find_row (active_secret n st i) (sb_rows db) else None)"

text \<open>The most specific active secret of a name: the task's, else the agent's, else the user's.\<close>

definition env_secret :: "sec_db \<Rightarrow> id64 \<Rightarrow> id64 \<Rightarrow> id64 \<Rightarrow> string \<Rightarrow> Secret option" where
  "env_secret db userID agentID taskID n =
     (case visible_secret db n ScopeTask taskID of
        Some s \<Rightarrow> Some s
      | None \<Rightarrow>
          (case visible_secret db n ScopeAgent agentID of
             Some s \<Rightarrow> Some s
           | None \<Rightarrow> visible_secret db n ScopeUser userID))"

lemma visible_Some:
  assumes "sec_inv db"
  shows "visible_secret db n st i = Some s \<longleftrightarrow> 0 < i \<and> s \<in> set (sb_rows db) \<and> active_secret n st i s"
proof
  show "visible_secret db n st i = Some s \<Longrightarrow> 0 < i \<and> s \<in> set (sb_rows db) \<and> active_secret n st i s"
    by (auto simp: visible_secret_def dest: find_row_Some split: if_splits)
  assume s: "0 < i \<and> s \<in> set (sb_rows db) \<and> active_secret n st i s"
  then obtain t where t: "find_row (active_secret n st i) (sb_rows db) = Some t" by (metis find_row_None not_None_eq)
  then have "t = s" using s active_unique [OF assms] find_row_Some [OF t] by blast
  then show "visible_secret db n st i = Some s" using s t by (simp add: visible_secret_def)
qed

definition in_scope :: "id64 \<Rightarrow> id64 \<Rightarrow> id64 \<Rightarrow> Secret \<Rightarrow> bool" where
  "in_scope u a t s \<longleftrightarrow> se_RevokedAt s = None \<and> (se_ScopeType s, se_ScopeID s) \<in> set (env_scopes u a t)"

lemma env_secret_in_scope:
  assumes "sec_inv db" "env_secret db u a t n = Some s"
  shows "s \<in> set (sb_rows db) \<and> in_scope u a t s \<and> se_Name s = n"
  using assms(2) by (auto simp: env_secret_def visible_Some [OF assms(1)] in_scope_def env_scopes_def active_secret_def split: option.splits)

lemma env_secret_best:
  assumes inv: "sec_inv db" and s: "s \<in> set (sb_rows db)" "in_scope u a t s" "se_Name s = n"
    and best: "\<And>x. x \<in> set (sb_rows db) \<Longrightarrow> in_scope u a t x \<Longrightarrow> se_Name x = n \<Longrightarrow> precedence (se_ScopeType x) \<le> precedence (se_ScopeType s)"
  shows "env_secret db u a t n = Some s"
proof -
  have none: "visible_secret db n st i = None" if "(st, i) \<in> set (env_scopes u a t)" "precedence (se_ScopeType s) < precedence st" for st i
  proof (rule ccontr)
    assume "visible_secret db n st i \<noteq> None"
    then obtain x where "visible_secret db n st i = Some x" by auto
    then have x: "x \<in> set (sb_rows db)" "active_secret n st i x" by (simp_all add: visible_Some [OF inv])
    then have "precedence st \<le> precedence (se_ScopeType s)" using best [of x] that(1) by (simp add: in_scope_def active_secret_def)
    with that(2) show False by simp
  qed
  have vis: "visible_secret db n (se_ScopeType s) (se_ScopeID s) = Some s"
    using s by (auto simp: visible_Some [OF inv] in_scope_def active_secret_def env_scopes_def split: if_splits)
  have skip: "visible_secret db n st i = None" if "\<not> 0 < i" for st i using that by (simp add: visible_secret_def)
  show ?thesis
  proof (cases "se_ScopeType s")
    case ScopeTask
    then show ?thesis using vis s(2) by (auto simp: env_secret_def in_scope_def env_scopes_def split: if_splits)
  next
    case ScopeAgent
    then have "visible_secret db n ScopeTask t = None" using none [of ScopeTask t] skip [of t] by (auto simp: env_scopes_def)
    then show ?thesis using ScopeAgent vis s(2) by (auto simp: env_secret_def in_scope_def env_scopes_def split: if_splits)
  next
    case ScopeUser
    then have "visible_secret db n ScopeTask t = None" "visible_secret db n ScopeAgent a = None"
      using none [of ScopeTask t] none [of ScopeAgent a] skip [of t] skip [of a] by (auto simp: env_scopes_def)
    then show ?thesis using ScopeUser vis s(2) by (auto simp: env_secret_def in_scope_def env_scopes_def split: if_splits)
  qed
qed

lemma BuildEnvMap_winners:
  assumes "BuildEnvMap flt plan bx key now u a t db = (Inr env, db')" "\<And>xs. set (plan xs) = set xs"
  obtains ws where "env = map (\<lambda>(name, _, _, v). (name, v)) ws" "wins bx key {s \<in> set (sb_rows db). in_scope u a t s} ws"
proof (cases "env_scopes u a t = []")
  case True
  then have "env = []" using assms(1) by (simp add: BuildEnvMap_def)
  moreover have "wins bx key {s \<in> set (sb_rows db). in_scope u a t s} []" using True by (simp add: wins_def in_scope_def)
  ultimately show thesis using that [of "[]"] by simp
next
  case False
  let ?rows = "filter (\<lambda>s. se_RevokedAt s = None \<and> (se_ScopeType s, se_ScopeID s) \<in> set (env_scopes u a t)) (sb_rows db)"
  obtain ws where ws: "env_rows bx key (plan ?rows) [] = Inr ws" "env = map (\<lambda>(name, _, _, v). (name, v)) ws"
    using assms(1) False by (auto simp: BuildEnvMap_def Let_def split: if_splits sum.splits)
  have "wins bx key ({} \<union> set (plan ?rows)) ws" using ws(1) by (rule env_rows_wins) (simp add: wins_def)
  moreover have "set (plan ?rows) = {s \<in> set (sb_rows db). in_scope u a t s}" by (auto simp: assms(2) in_scope_def)
  ultimately show thesis using that ws(2) by simp
qed

section \<open>Properties\<close>

text \<open>
  Secrets along every run: names are environment names, of each name at most one secret is active in a scope, and
  the history is immutable: no secret is ever changed or deleted, only revoked, once, and its last use noted.
\<close>

theorem secrets_history:
  "sec_inv (fold (sec_exec bx key) ops (sec_empty users)) \<and>
   sec_later (fold (sec_exec bx key) ops (sec_empty users)) (fold (sec_exec bx key) (ops @ more_ops) (sec_empty users))"
proof -
  have inv: "sec_inv (fold (sec_exec bx key) os (sec_empty users))" for os using sec_empty_inv by (rule sx.run_inv)
  show ?thesis using inv [of ops] sx.run_later [OF inv [of ops], of bx key more_ops] by simp
qed

text \<open>
  C23. What is set is what is read: after a secret was stored, and whatever is stored, revoked and injected afterwards
  except under its own name and scope, reading it gives the value that was set, in whichever case the name is written.
\<close>

theorem secret_roundtrip:
  assumes "box_ok bx" "length nonce = nonceSize" "sec_inv db"
    "secret_Set flt bx key (Some nonce) now name scopeType sid createdBy v db = (Inr row, db')" "list_all (leaves row) ops"
    "sanitizeName name' = sanitizeName name"
  shows "secret_Get False bx key name' scopeType sid (fold (sec_exec bx key) ops db') = Inr v"
  using assms(4)
proof (cases rule: secret_Set_cases)
  case (put clean st blob n r)
  have row: "row = r" "n = nonce" using put(3,7) by auto
  have inv: "sec_inv (fold (sec_exec bx key) ops db')" using secret_Set_ok [OF assms(3,4)] sx.run_inv by blast
  have "holds row db'" unfolding put(8) holds_def row by (intro bexI [of _ r]) (simp_all add: put(5))
  then have "holds row (fold (sec_exec bx key) ops db')" using assms(5) by (rule holds_run)
  then show ?thesis
    by (rule Get_holds [OF inv]) (use put(1,2,4,5) row assms(1,2,6) decrypt_encrypted [of bx nonce key v] in simp_all)
qed simp

text \<open>
  C24. The environment of a subprocess is exactly the active secrets of its task, agent and user, each name once, with
  the value of the most specific scope that has it, in whatever order the engine returns the rows; no secret of another
  scope is in it.
\<close>

theorem env_map_precedence:
  assumes "sec_inv db" "\<And>xs. set (plan xs) = set xs" "BuildEnvMap flt plan bx key now u a t db = (Inr env, db')"
  shows "distinct (map fst env) \<and> map_of env n = Option.bind (env_secret db u a t n) (\<lambda>s. sec_decrypt bx key (se_Blob s))"
proof -
  obtain ws where env: "env = map (\<lambda>(name, _, _, v). (name, v)) ws" and w: "wins bx key {s \<in> set (sb_rows db). in_scope u a t s} ws"
    using assms(3,2) by (rule BuildEnvMap_winners)
  have keys: "map fst env = map fst ws" by (simp add: env case_prod_beta o_def)
  have val: "map_of env n = map_option (\<lambda>(_, _, v). v) (map_of ws n)" unfolding env by (induction ws) auto
  show ?thesis
  proof (cases "map_of ws n")
    case None
    then have "\<forall>s \<in> {s \<in> set (sb_rows db). in_scope u a t s}. se_Name s \<noteq> n" by (rule wins_None [OF w])
    then have "env_secret db u a t n = None" using env_secret_in_scope [OF assms(1), of u a t n] by (cases "env_secret db u a t n") auto
    then show ?thesis using None w keys val by (simp add: wins_def)
  next
    case (Some x)
    obtain i p v where x: "x = (i, p, v)" by (metis prod_cases3)
    obtain s where s: "s \<in> {s \<in> set (sb_rows db). in_scope u a t s}" "se_Name s = n" "precedence (se_ScopeType s) = p"
      "sec_decrypt bx key (se_Blob s) = Some v"
      "\<forall>y \<in> {s \<in> set (sb_rows db). in_scope u a t s}. se_Name y = n \<longrightarrow> precedence (se_ScopeType y) \<le> p"
      using wins_Some [OF w Some [unfolded x]] by (elim bexE conjE) (rule that)
    have "env_secret db u a t n = Some s" by (rule env_secret_best [OF assms(1)]) (use s(1-3,5) in simp_all)
    then show ?thesis using Some x s(4) w keys val by (simp add: wins_def)
  qed
qed

definition toy_box :: secretbox where
  "toy_box = \<lparr>bx_Seal = (\<lambda>n k p. p @ replicate 16 (CHR ''0'')), bx_Open = (\<lambda>n k c. Some (take (length c - 16) c))\<rparr>"

lemma toy_box_ok: "box_ok toy_box"
  by (simp add: box_ok_def toy_box_def boxOverhead_def)

definition zeros :: string where
  "zeros = replicate 24 (CHR ''0'')"

definition demo_secrets :: sec_db where
  "demo_secrets = fold (sec_exec toy_box zeros)
     [SxSetOp (\<lambda>_. False) (Some zeros) 1 ''api_key'' ''user'' 1 1 ''u'', SxSetOp (\<lambda>_. False) (Some zeros) 2 ''API_KEY'' ''task'' 7 1 ''t'',
      SxSetOp (\<lambda>_. False) (Some zeros) 3 ''other'' ''agent'' 9 1 ''no''] (sec_empty [1])"

lemma demo_secrets_inv: "sec_inv demo_secrets"
  unfolding demo_secrets_def using sec_empty_inv by (rule sx.run_inv)

theorem secret_roundtrip_witness:
  "\<exists>row db'. secret_Set (\<lambda>_. False) toy_box zeros (Some zeros) 5 ''api_key'' ''agent'' 4 1 ''hush'' demo_secrets = (Inr row, db') \<and>
     secret_Get False toy_box zeros ''Api_Key'' ''agent'' 4 (fold (sec_exec toy_box zeros) [SxRevokeOp (\<lambda>_. False) 6 1] db') = Inr ''hush''"
proof -
  let ?r = "secret_Set (\<lambda>_. False) toy_box zeros (Some zeros) 5 ''api_key'' ''agent'' 4 1 ''hush'' demo_secrets"
  have "map_sum (\<lambda>_. ()) se_ID (fst ?r) = Inr 4" by code_simp
  then obtain row where row: "fst ?r = Inr row" "se_ID row = 4" by (cases "fst ?r") auto
  have r: "?r = (Inr row, snd ?r)" using row(1) by (metis prod.collapse)
  have "length zeros = nonceSize" "sanitizeName ''Api_Key'' = sanitizeName ''api_key''" by code_simp+
  moreover have "list_all (leaves row) [SxRevokeOp (\<lambda>_. False) 6 1]" using row(2) by simp
  ultimately show ?thesis using secret_roundtrip [OF toy_box_ok _ demo_secrets_inv r] r by blast
qed

theorem env_map_precedence_witness:
  "\<exists>env db'. BuildEnvMap (\<lambda>_. False) rev toy_box zeros 9 1 3 7 demo_secrets = (Inr env, db') \<and> map_of env ''API_KEY'' = Some ''t'' \<and>
     map_of env ''OTHER'' = None"
proof -
  let ?r = "BuildEnvMap (\<lambda>_. False) rev toy_box zeros 9 1 3 7 demo_secrets"
  have "\<not> isl (fst ?r)" by code_simp
  then obtain env where "fst ?r = Inr env" by (cases "fst ?r") auto
  then have r: "?r = (Inr env, snd ?r)" by (metis prod.collapse)
  have "Option.bind (env_secret demo_secrets 1 3 7 ''API_KEY'') (\<lambda>s. sec_decrypt toy_box zeros (se_Blob s)) = Some ''t''"
    "Option.bind (env_secret demo_secrets 1 3 7 ''OTHER'') (\<lambda>s. sec_decrypt toy_box zeros (se_Blob s)) = None" by code_simp+
  then have "map_of env ''API_KEY'' = Some ''t''" "map_of env ''OTHER'' = None"
    using env_map_precedence [OF demo_secrets_inv _ r] by simp_all
  then show ?thesis using r by blast
qed

end
