(* ===== verification/Goals.thy ===== *)
theory Goals
  imports Goal_Tasks Channels Registry Secrets
begin

text \<open>
  Goals (\<open>internal/goals\<close>) and the MCP tools that drive them (\<open>internal/mcp/goals_tools.go\<close>, the
  channel adapter \<open>cmd/synapbus/goals_adapter.go\<close>): a goal with its backing channel, its task
  tree, its resource requests and its completion. \<open>goal_world\<close> puts the table \<open>goals\<close> beside the
  components the tools call; \<open>tasks_view\<close> gives \<open>Goal_Tasks\<close> the ids its foreign keys refer to.

  \<^item> Every statement has its fault (\<open>flt\<close>); one clock reading per handler.
  \<^item> Titles and resource names are ASCII; a \<open>float64\<close> percentage is a rational.
  \<^item> A tree argument is given by what \<open>json.Unmarshal\<close> makes of its text.
\<close>

section \<open>Data\<close>

definition StatusDraft :: string where "StatusDraft = ''draft''"
definition StatusActive :: string where "StatusActive = ''active''"
definition StatusPaused :: string where "StatusPaused = ''paused''"
definition StatusCompleted :: string where "StatusCompleted = ''completed''"
definition StatusCancelled :: string where "StatusCancelled = ''cancelled''"
definition StatusStuck :: string where "StatusStuck = ''stuck''"

lemmas goal_status_defs =
  StatusDraft_def StatusActive_def StatusPaused_def StatusCompleted_def StatusCancelled_def StatusStuck_def

definition goal_statuses :: "string list" where
  "goal_statuses = [StatusDraft, StatusActive, StatusPaused, StatusCompleted, StatusCancelled, StatusStuck]"

record Goal =
  gl_ID :: id64
  gl_Slug :: string
  gl_Title :: string
  gl_Description :: string
  gl_OwnerUserID :: id64
  gl_ChannelID :: id64
  gl_CoordinatorAgentID :: "id64 option"
  gl_RootTaskID :: "id64 option"
  gl_Status :: string
  gl_BudgetTokens :: "int option"
  gl_BudgetDollarsCents :: "int option"
  gl_MaxSpawnDepth :: int
  gl_Alert80PctPosted :: bool
  gl_CreatedAt :: timestamp
  gl_UpdatedAt :: timestamp
  gl_CompletedAt :: "timestamp option"
  gl_CompletionSummary :: "string option"
  gl_CompletionMessageID :: "id64 option"

record CreateGoalInput =
  cg_Title :: string
  cg_Description :: string
  cg_OwnerUserID :: id64
  cg_OwnerUsername :: string
  cg_CoordinatorAgentID :: "id64 option"
  cg_BudgetTokens :: "int option"
  cg_BudgetDollarsCents :: "int option"
  cg_MaxSpawnDepth :: int

record ResourceRequest =
  gq_ID :: id64
  gq_RequesterAgentID :: id64
  gq_TaskID :: id64
  gq_ResourceName :: string
  gq_Reason :: string
  gq_Status :: string

record BudgetVerdict =
  bv_PercentBudget :: rat
  bv_TriggerSoftAlert :: bool
  bv_TriggerHardPause :: bool

record goal_world =
  gw_goals :: "Goal list"
  gw_seq :: id64
  gw_tasks :: gt_db
  gw_ch :: ch_db
  gw_reg :: reg_db
  gw_users :: "(id64 \<times> string) list"
  gw_messages :: "id64 list"
  gw_secrets :: sec_db
  gw_requests :: "ResourceRequest list"
  gw_req_seq :: id64

datatype goal_error =
    TitleRequired
  | GoalNotFound
  | IllegalGoalTransition string string
  | GoalChannelFailed ch_error
  | GoalStatementFailed
  | MissingArgument
  | BadTree
  | CallerUnknown
  | TaskFailed gt_error
  | InvalidGoalStatus string
  | OtherOwner
  | SecretsFailed sec_error

datatype goal_stmt =
    LAgent | LOwner | LSlug nat | LChannel ch_stmt | LInsert | LGet | LUpdate | LRoot | LGetAgain | LActivateGet | LActivate
  | LTask Task | LCommit | LClaim | LStart | LRequest | LSecrets

section \<open>Store\<close>

definition slugs :: "goal_world \<Rightarrow> string list" where
  "slugs w = map gl_Slug (gw_goals w)"

definition SlugExists :: "bool \<Rightarrow> string \<Rightarrow> goal_world \<Rightarrow> goal_error + bool" where
  "SlugExists failed slug w = (if failed then Inl GoalStatementFailed else Inr (slug \<in> set (slugs w)))"

text \<open>The constraints of migration 021 on a row, and the columns the INSERT leaves to their defaults.\<close>

definition goal_check :: "Goal \<Rightarrow> goal_world \<Rightarrow> bool" where
  "goal_check g w \<longleftrightarrow> gl_Slug g \<notin> set (slugs w) \<and> gl_OwnerUserID g \<in> set (map fst (gw_users w)) \<and>
     gl_ChannelID g \<in> set (map chn_ID (cd_channels (gw_ch w))) \<and>
     fk_ok (map ag_ID (rg_agents (gw_reg w))) (gl_CoordinatorAgentID g) \<and> gl_Status g \<in> set goal_statuses"

definition goal_row :: "timestamp \<Rightarrow> id64 \<Rightarrow> Goal \<Rightarrow> Goal" where
  "goal_row now i g =
     g\<lparr>gl_ID := i, gl_RootTaskID := None, gl_Alert80PctPosted := False, gl_CreatedAt := now, gl_UpdatedAt := now,
       gl_CompletedAt := None, gl_CompletionSummary := None, gl_CompletionMessageID := None\<rparr>"

definition goal_Insert :: "bool \<Rightarrow> timestamp \<Rightarrow> Goal \<Rightarrow> goal_world \<Rightarrow> (goal_error + id64) \<times> goal_world" where
  "goal_Insert failed now g w =
     (if failed \<or> \<not> goal_check g w then (Inl GoalStatementFailed, w)
      else let i = gw_seq w + 1 in (Inr i, w\<lparr>gw_goals := gw_goals w @ [goal_row now i g], gw_seq := i\<rparr>))"

definition goal_Get :: "bool \<Rightarrow> id64 \<Rightarrow> goal_world \<Rightarrow> goal_error + Goal" where
  "goal_Get failed i w =
     (if failed then Inl GoalStatementFailed
      else case find_row (\<lambda>g. gl_ID g = i) (gw_goals w) of None \<Rightarrow> Inl GoalNotFound | Some g \<Rightarrow> Inr g)"

definition goal_List :: "bool \<Rightarrow> id64 option \<Rightarrow> int \<Rightarrow> goal_world \<Rightarrow> goal_error + Goal list" where
  "goal_List failed owner limit w =
     (let n = (if limit \<le> 0 \<or> 500 < limit then 100 else limit)
      in if failed then Inl GoalStatementFailed
         else Inr (limit_offset n 0 (sort_key (\<lambda>g. - gl_ID g)
                (filter (\<lambda>g. case owner of None \<Rightarrow> True | Some u \<Rightarrow> gl_OwnerUserID g = u) (gw_goals w)))))"

definition update_goal :: "id64 \<Rightarrow> (Goal \<Rightarrow> Goal) \<Rightarrow> goal_world \<Rightarrow> goal_world" where
  "update_goal i f w = w\<lparr>gw_goals := update_where (\<lambda>g. gl_ID g = i) f (gw_goals w)\<rparr>"

definition has_goal :: "id64 \<Rightarrow> goal_world \<Rightarrow> bool" where
  "has_goal i w \<longleftrightarrow> i \<in> set (map gl_ID (gw_goals w))"

definition SetRootTask :: "bool \<Rightarrow> timestamp \<Rightarrow> id64 \<Rightarrow> id64 \<Rightarrow> goal_world \<Rightarrow> (goal_error + unit) \<times> goal_world" where
  "SetRootTask failed now i t w =
     (if failed then (Inl GoalStatementFailed, w)
      else (Inr (), update_goal i (\<lambda>g. g\<lparr>gl_RootTaskID := Some t, gl_UpdatedAt := now\<rparr>) w))"

definition SetStatus :: "bool \<Rightarrow> timestamp \<Rightarrow> id64 \<Rightarrow> string \<Rightarrow> goal_world \<Rightarrow> (goal_error + unit) \<times> goal_world" where
  "SetStatus failed now i st w =
     (if failed \<or> has_goal i w \<and> st \<notin> set goal_statuses then (Inl GoalStatementFailed, w)
      else (Inr (), update_goal i (\<lambda>g. g\<lparr>gl_Status := st, gl_UpdatedAt := now\<rparr>) w))"

definition closing_status :: "string \<Rightarrow> bool" where
  "closing_status st \<longleftrightarrow> st \<in> {StatusCompleted, StatusStuck, StatusCancelled}"

definition SetCompletion ::
  "bool \<Rightarrow> timestamp \<Rightarrow> id64 \<Rightarrow> string \<Rightarrow> string \<Rightarrow> id64 \<Rightarrow> goal_world \<Rightarrow> (goal_error + unit) \<times> goal_world" where
  "SetCompletion failed now i st summary messageID w =
     (if failed \<or> has_goal i w \<and> (st \<notin> set goal_statuses \<or> messageID \<notin> set (gw_messages w)) then (Inl GoalStatementFailed, w)
      else (Inr (), update_goal i (\<lambda>g. g\<lparr>gl_Status := st, gl_CompletionSummary := Some summary,
             gl_CompletionMessageID := Some messageID,
             gl_CompletedAt := (if closing_status st then Some now else gl_CompletedAt g), gl_UpdatedAt := now\<rparr>) w))"

definition goal_MarkSoftAlertPosted :: "bool \<Rightarrow> id64 \<Rightarrow> goal_world \<Rightarrow> (goal_error + unit) \<times> goal_world" where
  "goal_MarkSoftAlertPosted failed i w =
     (if failed then (Inl GoalStatementFailed, w) else (Inr (), update_goal i (\<lambda>g. g\<lparr>gl_Alert80PctPosted := True\<rparr>) w))"

text \<open>The loop of \<open>slugify\<close>: what is written so far and whether its last byte is a dash.\<close>

definition slug_kept :: "char \<Rightarrow> bool" where
  "slug_kept c \<longleftrightarrow> (let n = of_char c :: nat in 97 \<le> n \<and> n \<le> 122 \<or> 48 \<le> n \<and> n \<le> 57)"

definition slug_sep :: "char \<Rightarrow> bool" where
  "slug_sep c \<longleftrightarrow> c \<in> {CHR '' '', CHR ''-'', CHR ''_'', CHR ''/'', CHR ''.''}"

fun slug_runes :: "string \<Rightarrow> bool \<Rightarrow> string \<Rightarrow> string" where
  "slug_runes b prevDash [] = b"
| "slug_runes b prevDash (r # rs) =
     (if slug_kept r then slug_runes (b @ [r]) False rs
      else if slug_sep r then
        (if \<not> prevDash \<and> b \<noteq> '''' then slug_runes (b @ ''-'') True rs else slug_runes b prevDash rs)
      else slug_runes b prevDash rs)"

definition trim_dashes :: "string \<Rightarrow> string" where
  "trim_dashes s = rev (dropWhile (\<lambda>c. c = CHR ''-'') (rev (dropWhile (\<lambda>c. c = CHR ''-'') s)))"

definition slugify :: "string \<Rightarrow> string" where
  "slugify title =
     (let out = trim_dashes (slug_runes '''' False (to_lower (trim_space title)))
      in if out = '''' then ''goal'' else out)"

section \<open>Service\<close>

definition goal_legal :: "string \<Rightarrow> string \<Rightarrow> bool" where
  "goal_legal st st' =
     (if st = StatusDraft then st' \<in> {StatusActive, StatusCompleted, StatusStuck, StatusCancelled}
      else if st = StatusActive then st' \<in> {StatusPaused, StatusCompleted, StatusStuck, StatusCancelled}
      else if st = StatusPaused then st' \<in> {StatusActive, StatusCompleted, StatusStuck, StatusCancelled}
      else if st = StatusStuck then st' \<in> {StatusActive, StatusCompleted, StatusCancelled}
      else False)"

text \<open>The loop over the suffixes: \<open>n\<close> rounds are left, the next suffix is \<open>i\<close>.\<close>

fun slug_loop :: "(goal_stmt \<Rightarrow> bool) \<Rightarrow> goal_world \<Rightarrow> string \<Rightarrow> nat \<Rightarrow> nat \<Rightarrow> string \<Rightarrow> goal_error + string" where
  "slug_loop flt w base 0 i slug = Inr slug"
| "slug_loop flt w base (Suc n) i slug =
     (case SlugExists (flt (LSlug i)) slug w of
        Inl e \<Rightarrow> Inl e
      | Inr found \<Rightarrow>
          if \<not> found then Inr slug else slug_loop flt w base n (i + 1) (base @ ''-'' @ show_int (int i)))"

definition goal_channel_request :: "string \<Rightarrow> string \<Rightarrow> string \<Rightarrow> CreateChannelRequest" where
  "goal_channel_request slug title owner =
     \<lparr>cr_Name = ''goal-'' @ slug, cr_Description = ''Goal: '' @ title, cr_Topic = title, cr_Type = ''blackboard'',
      cr_IsPrivate = True, cr_IsSystem = True, cr_CreatedBy = owner\<rparr>"

definition CreateGoalChannel ::
  "(ch_stmt \<Rightarrow> bool) \<Rightarrow> timestamp \<Rightarrow> string \<Rightarrow> string \<Rightarrow> string \<Rightarrow> string \<Rightarrow> ch_db \<Rightarrow> (ch_error + id64) \<times> ch_db" where
  "CreateGoalChannel flt now slug title description owner db =
     (case CreateChannel flt now (goal_channel_request slug title owner) db of
        (Inl e, db') \<Rightarrow> (Inl e, db') | (Inr ch, db') \<Rightarrow> (Inr (chn_ID ch), db'))"

definition new_goal :: "CreateGoalInput \<Rightarrow> string \<Rightarrow> id64 \<Rightarrow> Goal" where
  "new_goal inp slug channelID =
     \<lparr>gl_ID = 0, gl_Slug = slug, gl_Title = cg_Title inp, gl_Description = cg_Description inp,
      gl_OwnerUserID = cg_OwnerUserID inp, gl_ChannelID = channelID, gl_CoordinatorAgentID = cg_CoordinatorAgentID inp,
      gl_RootTaskID = None, gl_Status = StatusDraft, gl_BudgetTokens = cg_BudgetTokens inp,
      gl_BudgetDollarsCents = cg_BudgetDollarsCents inp,
      gl_MaxSpawnDepth = (if cg_MaxSpawnDepth inp \<le> 0 then 3 else cg_MaxSpawnDepth inp),
      gl_Alert80PctPosted = False, gl_CreatedAt = 0, gl_UpdatedAt = 0, gl_CompletedAt = None,
      gl_CompletionSummary = None, gl_CompletionMessageID = None\<rparr>"

definition CreateGoal ::
  "(goal_stmt \<Rightarrow> bool) \<Rightarrow> timestamp \<Rightarrow> CreateGoalInput \<Rightarrow> goal_world \<Rightarrow> (goal_error + Goal) \<times> goal_world" where
  "CreateGoal flt now inp w =
     (if cg_Title inp = '''' \<or> cg_Description inp = '''' then (Inl TitleRequired, w)
      else let base = slugify (cg_Title inp)
        in case slug_loop flt w base 98 2 base of
             Inl e \<Rightarrow> (Inl e, w)
           | Inr slug \<Rightarrow>
               (case CreateGoalChannel (\<lambda>st. flt (LChannel st)) now slug (cg_Title inp) (cg_Description inp)
                       (cg_OwnerUsername inp) (gw_ch w) of
                  (Inl e, db) \<Rightarrow> (Inl (GoalChannelFailed e), w\<lparr>gw_ch := db\<rparr>)
                | (Inr c, db) \<Rightarrow>
                    (case goal_Insert (flt LInsert) now (new_goal inp slug c) (w\<lparr>gw_ch := db\<rparr>) of
                       (Inl e, w') \<Rightarrow> (Inl e, w')
                     | (Inr i, w') \<Rightarrow> (Inr ((new_goal inp slug c)\<lparr>gl_ID := i\<rparr>), w'))))"

definition goal_TransitionStatus ::
  "bool \<Rightarrow> bool \<Rightarrow> timestamp \<Rightarrow> id64 \<Rightarrow> string \<Rightarrow> goal_world \<Rightarrow> (goal_error + unit) \<times> goal_world" where
  "goal_TransitionStatus get_fails set_fails now i newStatus w =
     (case goal_Get get_fails i w of
        Inl e \<Rightarrow> (Inl e, w)
      | Inr g \<Rightarrow>
          if \<not> goal_legal (gl_Status g) newStatus then (Inl (IllegalGoalTransition (gl_Status g) newStatus), w)
          else SetStatus set_fails now i newStatus w)"

definition goal_Complete ::
  "bool \<Rightarrow> bool \<Rightarrow> timestamp \<Rightarrow> id64 \<Rightarrow> string \<Rightarrow> string \<Rightarrow> id64 \<Rightarrow> goal_world \<Rightarrow> (goal_error + unit) \<times> goal_world" where
  "goal_Complete get_fails set_fails now i newStatus summary messageID w =
     (case goal_Get get_fails i w of
        Inl e \<Rightarrow> (Inl e, w)
      | Inr g \<Rightarrow>
          if gl_Status g = newStatus then (Inr (), w)
          else if \<not> goal_legal (gl_Status g) newStatus then (Inl (IllegalGoalTransition (gl_Status g) newStatus), w)
          else SetCompletion set_fails now i newStatus summary messageID w)"

definition EvaluateBudget :: "bool \<Rightarrow> id64 \<Rightarrow> int \<Rightarrow> goal_world \<Rightarrow> goal_error + BudgetVerdict" where
  "EvaluateBudget failed i spentCents w =
     (case goal_Get failed i w of
        Inl e \<Rightarrow> Inl e
      | Inr g \<Rightarrow>
          (case gl_BudgetDollarsCents g of
             None \<Rightarrow> Inr \<lparr>bv_PercentBudget = 0, bv_TriggerSoftAlert = False, bv_TriggerHardPause = False\<rparr>
           | Some budget \<Rightarrow>
               if budget \<le> 0 then Inr \<lparr>bv_PercentBudget = 0, bv_TriggerSoftAlert = False, bv_TriggerHardPause = False\<rparr>
               else let p = of_int spentCents / of_int budget * 100
                 in Inr \<lparr>bv_PercentBudget = p, bv_TriggerSoftAlert = (80 \<le> p \<and> \<not> gl_Alert80PctPosted g),
                      bv_TriggerHardPause = (100 \<le> p \<and> gl_Status g = StatusActive)\<rparr>))"

section \<open>Tools\<close>

text \<open>A tool's answer is an error or what it reports.\<close>

definition caller :: "(goal_stmt \<Rightarrow> bool) \<Rightarrow> string \<Rightarrow> goal_world \<Rightarrow> reg_agent option" where
  "caller flt name w = (case reg_GetAgentByName (flt LAgent) name (gw_reg w) of Inl e \<Rightarrow> None | Inr a \<Rightarrow> Some a)"

definition owner_username :: "(goal_stmt \<Rightarrow> bool) \<Rightarrow> id64 \<Rightarrow> goal_world \<Rightarrow> string" where
  "owner_username flt u w =
     (if flt LOwner then '''' else case map_of (gw_users w) u of None \<Rightarrow> '''' | Some name \<Rightarrow> name)"

definition positive :: "int \<Rightarrow> int option" where
  "positive v = (if 0 < v then Some v else None)"

definition handleCreateGoal ::
  "(goal_stmt \<Rightarrow> bool) \<Rightarrow> timestamp \<Rightarrow> string \<Rightarrow> string \<Rightarrow> string \<Rightarrow> int \<Rightarrow> int \<Rightarrow> int \<Rightarrow> goal_world \<Rightarrow> (goal_error + Goal) \<times> goal_world" where
  "handleCreateGoal flt now agentName title description tokens cents maxDepth w =
     (if title = '''' \<or> description = '''' then (Inl MissingArgument, w)
      else case caller flt agentName w of
             None \<Rightarrow> (Inl CallerUnknown, w)
           | Some a \<Rightarrow>
               CreateGoal flt now
                 \<lparr>cg_Title = title, cg_Description = description, cg_OwnerUserID = ag_OwnerID a,
                  cg_OwnerUsername = owner_username flt (ag_OwnerID a) w, cg_CoordinatorAgentID = Some (ag_ID a),
                  cg_BudgetTokens = positive tokens, cg_BudgetDollarsCents = positive cents, cg_MaxSpawnDepth = maxDepth\<rparr> w)"

definition tasks_view :: "goal_world \<Rightarrow> gt_db" where
  "tasks_view w = (gw_tasks w)\<lparr>gt_goals := map gl_ID (gw_goals w), gt_agents := map ag_ID (rg_agents (gw_reg w)),
     gt_users := map fst (gw_users w), gt_messages := gw_messages w\<rparr>"

definition propose_input :: "id64 \<Rightarrow> id64 \<Rightarrow> TreeNode \<Rightarrow> CreateTreeInput" where
  "propose_input goalID agentID tree = \<lparr>ct_GoalID = goalID, ct_CreatedByAgent = Some agentID, ct_CreatedByUser = None,
     ct_Root = tree, ct_InitialStatus = Some GApproved, ct_DefaultBilling = ''mcp''\<rparr>"

definition handleProposeTaskTree ::
  "(goal_stmt \<Rightarrow> bool) \<Rightarrow> timestamp \<Rightarrow> string \<Rightarrow> id64 \<Rightarrow> string \<Rightarrow> TreeNode option \<Rightarrow> goal_world \<Rightarrow>
   (goal_error + id64 \<times> nat) \<times> goal_world" where
  "handleProposeTaskTree flt now agentName goalID treeJSON parsed w =
     (if goalID \<le> 0 \<or> treeJSON = '''' then (Inl MissingArgument, w)
      else case parsed of
             None \<Rightarrow> (Inl BadTree, w)
           | Some tree \<Rightarrow>
               (case caller flt agentName w of
                  None \<Rightarrow> (Inl CallerUnknown, w)
                | Some a \<Rightarrow>
                    (case CreateTree (\<lambda>t. flt (LTask t)) (flt LCommit) now (propose_input goalID (ag_ID a) tree) (tasks_view w) of
                       (Inl e, db) \<Rightarrow> (Inl (TaskFailed e), w\<lparr>gw_tasks := db\<rparr>)
                     | (Inr (rootID, allIDs), db) \<Rightarrow>
                         (let w1 = w\<lparr>gw_tasks := db\<rparr>;
                              w2 = (if flt LRoot then w1 else update_goal goalID (\<lambda>g. g\<lparr>gl_RootTaskID := Some rootID\<rparr>) w1)
                          in (Inr (rootID, length allIDs),
                              snd (goal_TransitionStatus (flt LActivateGet) (flt LActivate) now goalID StatusActive w2))))))"

definition handleClaimTask ::
  "(goal_stmt \<Rightarrow> bool) \<Rightarrow> timestamp \<Rightarrow> string \<Rightarrow> id64 \<Rightarrow> goal_world \<Rightarrow> (goal_error + unit) \<times> goal_world" where
  "handleClaimTask flt now agentName taskID w =
     (if taskID \<le> 0 then (Inl MissingArgument, w)
      else case caller flt agentName w of
             None \<Rightarrow> (Inl CallerUnknown, w)
           | Some a \<Rightarrow>
               if flt LClaim then (Inl (TaskFailed ErrStatement), w)
               else (case gt_Claim now taskID (ag_ID a) None (tasks_view w) of
                       (Inl e, db) \<Rightarrow> (Inl (TaskFailed e), w\<lparr>gw_tasks := db\<rparr>)
                     | (Inr _, db) \<Rightarrow>
                         (Inr (), w\<lparr>gw_tasks := (if flt LStart then db
                            else snd (gt_Transition now taskID GInProgress \<lparr>ex_FailureReason = '''', ex_CompletionMessageID = None\<rparr> db))\<rparr>)))"

definition handleRequestResource ::
  "(goal_stmt \<Rightarrow> bool) \<Rightarrow> string \<Rightarrow> string \<Rightarrow> string \<Rightarrow> id64 \<Rightarrow> goal_world \<Rightarrow> (goal_error + string) \<times> goal_world" where
  "handleRequestResource flt agentName resource reason taskID w =
     (let name = map upper_char (trim_space resource)
      in if name = '''' \<or> reason = '''' \<or> taskID \<le> 0 then (Inl MissingArgument, w)
         else case caller flt agentName w of
                None \<Rightarrow> (Inl CallerUnknown, w)
              | Some a \<Rightarrow>
                  if flt LRequest \<or> taskID \<notin> set (map gt_ID (gt_rows (gw_tasks w))) then (Inl GoalStatementFailed, w)
                  else let i = gw_req_seq w + 1
                    in (Inr name, w\<lparr>gw_requests := gw_requests w @ [\<lparr>gq_ID = i, gq_RequesterAgentID = ag_ID a,
                          gq_TaskID = taskID, gq_ResourceName = name, gq_Reason = reason, gq_Status = ''pending''\<rparr>],
                          gw_req_seq := i\<rparr>))"

definition handleListResources ::
  "(goal_stmt \<Rightarrow> bool) \<Rightarrow> string \<Rightarrow> goal_world \<Rightarrow> goal_error + string list" where
  "handleListResources flt agentName w =
     (case caller flt agentName w of
        None \<Rightarrow> Inl CallerUnknown
      | Some a \<Rightarrow>
          (case secret_List (flt LSecrets) [(''user'', ag_OwnerID a), (''agent'', ag_ID a)] (gw_secrets w) of
             Inl e \<Rightarrow> Inl (SecretsFailed e) | Inr infos \<Rightarrow> Inr (map sn_Name infos)))"

definition handleCompleteGoal ::
  "(goal_stmt \<Rightarrow> bool) \<Rightarrow> timestamp \<Rightarrow> string \<Rightarrow> id64 \<Rightarrow> string \<Rightarrow> string \<Rightarrow> id64 \<Rightarrow> goal_world \<Rightarrow> (goal_error + unit) \<times> goal_world" where
  "handleCompleteGoal flt now agentName goalID status summary messageID w =
     (if goalID \<le> 0 \<or> status = '''' \<or> summary = '''' then (Inl MissingArgument, w)
      else if \<not> closing_status status then (Inl (InvalidGoalStatus status), w)
      else case caller flt agentName w of
             None \<Rightarrow> (Inl CallerUnknown, w)
           | Some a \<Rightarrow>
               (case goal_Get (flt LGet) goalID w of
                  Inl e \<Rightarrow> (Inl e, w)
                | Inr g \<Rightarrow>
                    if ag_OwnerID a \<noteq> gl_OwnerUserID g then (Inl OtherOwner, w)
                    else goal_Complete (flt LGetAgain) (flt LUpdate) now goalID status summary messageID w))"

section \<open>Slugs\<close>

definition slug_ok :: "string \<Rightarrow> bool" where
  "slug_ok s \<longleftrightarrow> s \<noteq> '''' \<and> list_all (\<lambda>c. slug_kept c \<or> c = CHR ''-'') s \<and>
     hd s \<noteq> CHR ''-'' \<and> last s \<noteq> CHR ''-'' \<and> successively (\<lambda>x y. x \<noteq> CHR ''-'' \<or> y \<noteq> CHR ''-'') s"

definition slug_prefix :: "string \<Rightarrow> bool" where
  "slug_prefix b \<longleftrightarrow> list_all (\<lambda>c. slug_kept c \<or> c = CHR ''-'') b \<and> (b \<noteq> '''' \<longrightarrow> hd b \<noteq> CHR ''-'') \<and>
     successively (\<lambda>x y. x \<noteq> CHR ''-'' \<or> y \<noteq> CHR ''-'') b"

lemma kept_not_dash [simp]: "\<not> slug_kept CHR ''-''"
  by (simp add: slug_kept_def)

lemma slug_prefix_snoc:
  "slug_prefix (b @ [c]) \<longleftrightarrow> slug_prefix b \<and> (slug_kept c \<or> c = CHR ''-'' \<and> b \<noteq> '''' \<and> last b \<noteq> CHR ''-'')"
  by (cases "b = []") (auto simp: slug_prefix_def successively_append_iff)

lemma slug_runes_prefix:
  "slug_prefix b \<Longrightarrow> prevDash = (b \<noteq> '''' \<and> last b = CHR ''-'') \<Longrightarrow> slug_prefix (slug_runes b prevDash rs)"
proof (induction b prevDash rs rule: slug_runes.induct)
  case (2 b d r rs)
  have keep: "slug_prefix (slug_runes (b @ [r]) False rs)" if k: "slug_kept r"
  proof (rule "2.IH"(1) [OF k])
    show "slug_prefix (b @ [r])" using "2.prems"(1) k by (simp add: slug_prefix_snoc)
    show "False = (b @ [r] \<noteq> [] \<and> last (b @ [r]) = CHR ''-'')" using k by auto
  qed
  have dash: "slug_prefix (slug_runes (b @ ''-'') True rs)" if c: "\<not> slug_kept r" "slug_sep r" "\<not> d \<and> b \<noteq> []"
    by (rule "2.IH"(2) [OF c]) (use "2.prems" c in \<open>simp_all add: slug_prefix_snoc\<close>)
  have skip: "slug_prefix (slug_runes b d rs)" if "\<not> slug_kept r" "slug_sep r" "\<not> (\<not> d \<and> b \<noteq> [])"
    by (rule "2.IH"(3) [OF that "2.prems"])
  have drop: "slug_prefix (slug_runes b d rs)" if "\<not> slug_kept r" "\<not> slug_sep r"
    by (rule "2.IH"(4) [OF that "2.prems"])
  show ?case using keep dash skip drop by simp
qed simp

lemma trim_dashes_ok:
  assumes "slug_prefix b" shows "trim_dashes b = '''' \<or> slug_ok (trim_dashes b)"
proof (cases b rule: rev_cases)
  case Nil
  then show ?thesis by (simp add: trim_dashes_def)
next
  case (snoc c x)
  from assms snoc have hd: "hd b \<noteq> CHR ''-''" "b \<noteq> []" by (auto simp: slug_prefix_def)
  then have l: "dropWhile (\<lambda>c. c = CHR ''-'') b = b" by (cases b) auto
  show ?thesis
  proof (cases "x = CHR ''-''")
    case False
    moreover have "rev b = x # rev c" using snoc by simp
    ultimately have "trim_dashes b = b" unfolding trim_dashes_def l using snoc by simp
    then show ?thesis using assms snoc False hd by (auto simp: slug_ok_def slug_prefix_def)
  next
    case True
    then have p: "slug_prefix c" "c \<noteq> []" "last c \<noteq> CHR ''-''" using assms snoc by (auto simp: slug_prefix_snoc)
    then obtain c' y where c: "c = c' @ [y]" "y \<noteq> CHR ''-''" by (cases c rule: rev_cases) auto
    moreover have "rev b = x # rev c" using snoc by simp
    ultimately have "trim_dashes b = c" unfolding trim_dashes_def l using True by simp
    then show ?thesis using p by (simp add: slug_ok_def slug_prefix_def)
  qed
qed

lemma slugify_ok: "slug_ok (slugify title)"
proof -
  have "slug_prefix (slug_runes '''' False (to_lower (trim_space title)))"
    by (rule slug_runes_prefix) (simp_all add: slug_prefix_def)
  from trim_dashes_ok [OF this] show ?thesis
    by (auto simp: slugify_def Let_def slug_ok_def slug_kept_def)
qed

lemma slug_prefix_append: "slug_prefix (b @ c) \<Longrightarrow> slug_prefix b"
  unfolding slug_prefix_def successively_append_iff by (cases b) auto

lemma slug_runes_id:
  "slug_prefix (b @ rs) \<Longrightarrow> prevDash = (b \<noteq> '''' \<and> last b = CHR ''-'') \<Longrightarrow> slug_runes b prevDash rs = b @ rs"
proof (induction b prevDash rs rule: slug_runes.induct)
  case (2 b d r rs)
  have p: "slug_prefix (b @ [r])" using slug_prefix_append [of "b @ [r]" rs] "2.prems"(1) by simp
  show ?case
  proof (cases "slug_kept r")
    case True
    moreover have "r \<noteq> CHR ''-''" using True by auto
    ultimately show ?thesis using "2.IH"(1) "2.prems" by simp
  next
    case False
    then have r: "r = CHR ''-''" "b \<noteq> []" "last b \<noteq> CHR ''-''" using p by (auto simp: slug_prefix_snoc)
    then have "slug_sep r" "\<not> d \<and> b \<noteq> []" using "2.prems"(2) by (auto simp: slug_sep_def)
    then show ?thesis using False r "2.IH"(2) "2.prems" by simp
  qed
qed simp

lemma slug_lower: "list_all (\<lambda>c. slug_kept c \<or> c = CHR ''-'') s \<Longrightarrow> to_lower s = s"
  unfolding to_lower_def
  by (rule map_idI) (auto simp: list_all_iff slug_kept_def to_lower_char_def Let_def)

lemma trim_left_kept: "strip_any ps s = None \<Longrightarrow> trim_left_of ps s = s"
  by (simp add: trim_left_of.simps [of ps s])

lemma strip_any_None: "(\<forall>p \<in> set ps. \<forall>t. s \<noteq> p @ t) \<Longrightarrow> strip_any ps s = None"
  using strip_any_Some by (cases "strip_any ps s") blast+

lemma slug_char_no_space:
  "slug_kept c \<or> c = CHR ''-'' \<Longrightarrow> p \<in> set space_encodings \<or> p \<in> set (map rev space_encodings) \<Longrightarrow> p \<noteq> [] \<and> hd p \<noteq> c"
  by (auto simp: space_encodings_def slug_kept_def)

lemma slug_trim: "list_all (\<lambda>c. slug_kept c \<or> c = CHR ''-'') s \<Longrightarrow> trim_space s = s"
proof -
  have *: "trim_left_of ps u = u"
    if "list_all (\<lambda>c. slug_kept c \<or> c = CHR ''-'') u" "ps = space_encodings \<or> ps = map rev space_encodings" for ps u
  proof (rule trim_left_kept, rule strip_any_None, intro ballI allI)
    fix p t assume p: "p \<in> set ps"
    have "p \<noteq> [] \<and> hd p \<noteq> c" if "c \<in> set u" for c
      by (rule slug_char_no_space) (use p that \<open>list_all _ u\<close> \<open>ps = _ \<or> _\<close> in \<open>auto simp: list_all_iff\<close>)
    moreover have "p \<noteq> []" using p that(2) by (auto simp: space_encodings_def)
    ultimately show "u \<noteq> p @ t" by (cases u; cases p) auto
  qed
  assume "list_all (\<lambda>c. slug_kept c \<or> c = CHR ''-'') s"
  then show ?thesis by (simp add: trim_space_def *)
qed

lemma slugify_id:
  assumes "slug_ok s" shows "slugify s = s"
proof -
  have a: "list_all (\<lambda>c. slug_kept c \<or> c = CHR ''-'') s" "slug_prefix s" "s \<noteq> []" "last s \<noteq> CHR ''-''"
    using assms by (auto simp: slug_ok_def slug_prefix_def)
  have "slug_runes '''' False s = s" using slug_runes_id [of "''''" s False] a(2) by simp
  moreover have "trim_dashes s = s"
  proof -
    have "dropWhile (\<lambda>c. c = CHR ''-'') s = s" using assms by (cases s) (auto simp: slug_ok_def)
    moreover have "dropWhile (\<lambda>c. c = CHR ''-'') (rev s) = rev s" using a(3,4) by (cases s rule: rev_cases) auto
    ultimately show ?thesis by (simp add: trim_dashes_def)
  qed
  ultimately show ?thesis using a by (simp add: slugify_def Let_def slug_trim slug_lower)
qed

text \<open>The candidates for a slug, in the order they are tried.\<close>

definition slug_cand :: "string \<Rightarrow> nat \<Rightarrow> string" where
  "slug_cand base k = (if k \<le> 1 then base else base @ ''-'' @ show_int (int k))"

lemma slug_loop_cand:
  "slug_loop flt w base n (Suc k) (slug_cand base k) = Inr s \<Longrightarrow> 1 \<le> k \<Longrightarrow>
     \<exists>j \<ge> k. j \<le> k + n \<and> s = slug_cand base j \<and> (\<forall>i \<in> {k..<j}. slug_cand base i \<in> set (slugs w))"
proof (induction n arbitrary: k)
  case 0
  then show ?case by (auto intro: exI [of _ k])
next
  case (Suc n)
  show ?case
  proof (cases "slug_cand base k \<in> set (slugs w)")
    case True
    with Suc.prems have "slug_loop flt w base n (Suc (Suc k)) (slug_cand base (Suc k)) = Inr s"
      by (auto simp: SlugExists_def slug_cand_def split: if_splits)
    from Suc.IH [OF this] obtain j where "j \<ge> Suc k" "j \<le> k + Suc n" "s = slug_cand base j"
      "\<forall>i \<in> {Suc k..<j}. slug_cand base i \<in> set (slugs w)" by auto
    with True show ?thesis by (intro exI [of _ j]) (auto simp: Suc_le_eq le_less)
  next
    case False
    with Suc.prems show ?thesis by (auto simp: SlugExists_def split: if_splits intro!: exI [of _ k])
  qed
qed

section \<open>Invariant and history\<close>

definition backing_channel :: "Goal \<Rightarrow> Channel \<Rightarrow> bool" where
  "backing_channel g c \<longleftrightarrow> chn_ID c = gl_ChannelID g \<and> chn_Name c = ''goal-'' @ gl_Slug g \<and>
     chn_Type c = ''blackboard'' \<and> chn_IsPrivate c \<and> chn_IsSystem c"

definition root_of :: "Goal \<Rightarrow> Task \<Rightarrow> bool" where
  "root_of g t \<longleftrightarrow> gt_GoalID t = gl_ID g \<and> gt_ParentTaskID t = None"

definition goal_ok :: "goal_world \<Rightarrow> Goal \<Rightarrow> bool" where
  "goal_ok w g \<longleftrightarrow> gl_Status g \<in> set goal_statuses \<and> 0 < gl_MaxSpawnDepth g \<and> gl_Title g \<noteq> '''' \<and>
     gl_OwnerUserID g \<in> set (map fst (gw_users w)) \<and> (\<exists>c \<in> set (cd_channels (gw_ch w)). backing_channel g c) \<and>
     (\<forall>r. gl_RootTaskID g = Some r \<longrightarrow> (\<exists>t \<in> set (gt_rows (gw_tasks w)). gt_ID t = r \<and> root_of g t))"

definition goals_inv :: "goal_world \<Rightarrow> bool" where
  "goals_inv w \<longleftrightarrow> ids_ok gl_ID (gw_seq w) (gw_goals w) \<and> distinct (slugs w) \<and> (\<forall>g \<in> set (gw_goals w). goal_ok w g) \<and>
     gt_inv (gw_tasks w) \<and> (\<forall>t \<in> set (gt_rows (gw_tasks w)). has_goal (gt_GoalID t) w) \<and> ch_inv (gw_ch w) \<and>
     ids_ok gq_ID (gw_req_seq w) (gw_requests w) \<and>
     (\<forall>q \<in> set (gw_requests w). gq_ResourceName q \<noteq> '''' \<and> gq_TaskID q \<in> gt_ID ` set (gt_rows (gw_tasks w)))"

text \<open>What time does to a goal: its identity and its limits stay, its status moves legally, and it is closed for good.\<close>

definition goal_identity where
  "goal_identity g = (gl_ID g, gl_Slug g, gl_Title g, gl_Description g, gl_OwnerUserID g, gl_ChannelID g,
     gl_CoordinatorAgentID g, gl_BudgetTokens g, gl_BudgetDollarsCents g, gl_MaxSpawnDepth g, gl_CreatedAt g)"

definition goal_outcome where
  "goal_outcome g = (gl_Status g, gl_CompletedAt g, gl_CompletionSummary g, gl_CompletionMessageID g)"

definition gl_later :: "Goal \<Rightarrow> Goal \<Rightarrow> bool" where
  "gl_later g g' \<longleftrightarrow> goal_identity g' = goal_identity g \<and>
     goal_legal\<^sup>*\<^sup>* (gl_Status g) (gl_Status g') \<and> (gl_Alert80PctPosted g \<longrightarrow> gl_Alert80PctPosted g') \<and>
     (gl_Status g \<in> {StatusCompleted, StatusCancelled} \<longrightarrow> goal_outcome g' = goal_outcome g)"

definition goals_later :: "goal_world \<Rightarrow> goal_world \<Rightarrow> bool" where
  "goals_later w w' \<longleftrightarrow> (\<forall>g \<in> set (gw_goals w). \<exists>g' \<in> set (gw_goals w'). gl_later g g') \<and> gt_later (gw_tasks w) (gw_tasks w') \<and>
     (\<exists>new. gw_requests w' = gw_requests w @ new)"

text \<open>
  The operations: the tools, the flag of the budget alert, the other changes of tasks, and what the
  rest of the program does to agents, users, messages and secrets.
\<close>

datatype goal_op =
    GlCreate "goal_stmt \<Rightarrow> bool" timestamp string string string int int int
  | GlPropose "goal_stmt \<Rightarrow> bool" timestamp string id64 string "TreeNode option"
  | GlClaim "goal_stmt \<Rightarrow> bool" timestamp string id64
  | GlRequest "goal_stmt \<Rightarrow> bool" string string string id64
  | GlComplete "goal_stmt \<Rightarrow> bool" timestamp string id64 string string id64
  | GlAlert bool id64
  | GlTask gt_op
  | GlRest reg_db "(id64 \<times> string) list" "id64 list" sec_db

fun goal_exec :: "goal_op \<Rightarrow> goal_world \<Rightarrow> goal_world" where
  "goal_exec (GlCreate flt now a title desc tokens cents depth) w = snd (handleCreateGoal flt now a title desc tokens cents depth w)"
| "goal_exec (GlPropose flt now a i text tree) w = snd (handleProposeTaskTree flt now a i text tree w)"
| "goal_exec (GlClaim flt now a i) w = snd (handleClaimTask flt now a i w)"
| "goal_exec (GlRequest flt a res reason i) w = snd (handleRequestResource flt a res reason i w)"
| "goal_exec (GlComplete flt now a i st summary m) w = snd (handleCompleteGoal flt now a i st summary m w)"
| "goal_exec (GlAlert failed i) w = snd (goal_MarkSoftAlertPosted failed i w)"
| "goal_exec (GlTask op) w = w\<lparr>gw_tasks := gt_exec op (tasks_view w)\<rparr>"
| "goal_exec (GlRest reg users msgs secs) w =
     w\<lparr>gw_reg := reg, gw_users := gw_users w @ users, gw_messages := msgs, gw_secrets := secs\<rparr>"

lemma gl_later_refl [simp]: "gl_later g g"
  by (simp add: gl_later_def)

lemma gl_later_trans: "gl_later a b \<Longrightarrow> gl_later b c \<Longrightarrow> gl_later a c"
  by (auto simp: gl_later_def goal_outcome_def)

lemma goals_later_refl: "goals_later w w"
  by (auto simp: goals_later_def intro: gt_later_refl gl_later_refl)

lemma goals_later_trans: "goals_later a b \<Longrightarrow> goals_later b c \<Longrightarrow> goals_later a c"
  unfolding goals_later_def by (metis append.assoc gl_later_trans gt_later_trans)

section \<open>Tasks under goals\<close>

lemma tree_rows_goal:
  "t \<in> set (tree_rows now inp i p d a node) \<Longrightarrow> gt_GoalID t = ct_GoalID inp"
  "t \<in> set (forest_rows now inp i p d a nodes) \<Longrightarrow> gt_GoalID t = ct_GoalID inp"
  by (induction now inp i p d a node and now inp i p d a nodes rule: tree_rows_forest_rows.induct)
    (auto simp: new_row_def node_task_def Let_def)

lemma CreateTree_goal:
  assumes "CreateTree flt cf now inp db = (Inr r, db')" shows "ct_GoalID inp \<in> set (gt_goals db)"
proof (cases "ct_Root inp")
  case (TreeNode ti de ac bi bt bd vc hc children)
  then obtain x where "gt_Insert flt now (node_task inp (ct_Root inp) None 0 []) db = Inr x"
    using assms by (auto simp: CreateTree_def split: sum.splits if_splits)
  then show ?thesis by (auto simp: gt_Insert_def insert_check_def node_task_def split: sum.splits if_splits)
qed

lemma rows_update_goal:
  "(\<And>t. gt_GoalID (f t) = gt_GoalID t) \<Longrightarrow> gt_GoalID ` set (update_where P f rs) = gt_GoalID ` set rs"
  using map_update_where [of gt_GoalID f P rs] by (metis set_map)

lemma ClaimAtomic_goals: "gt_GoalID ` set (gt_rows (snd (ClaimAtomic now i a m db))) = gt_GoalID ` set (gt_rows db)"
  by (simp add: ClaimAtomic_def rows_update_goal)

lemma gt_Transition_goals: "gt_GoalID ` set (gt_rows (snd (gt_Transition now i st ex db))) = gt_GoalID ` set (gt_rows db)"
  by (simp add: gt_Transition_def TransitionStatus_def transition_row_def rows_update_goal split: sum.split)

lemma CreateTree_goals:
  "gt_GoalID ` set (gt_rows (snd (CreateTree flt cf now inp db))) \<subseteq> gt_GoalID ` set (gt_rows db) \<union> set (gt_goals db)"
proof (cases "CreateTree flt cf now inp db")
  case (Pair r db')
  show ?thesis
  proof (cases r)
    case (Inl e)
    with Pair have "db' = db" using CreateTree_Inl by blast
    with Pair show ?thesis by simp
  next
    case (Inr x)
    obtain root ids where "x = (root, ids)" by (cases x)
    with Pair Inr have c: "CreateTree flt cf now inp db = (Inr (root, ids), db')" by simp
    then show ?thesis using CreateTree_rows(2) [OF c] CreateTree_goal [OF c] by (auto dest: tree_rows_goal(1))
  qed
qed

lemma gt_exec_goals: "gt_GoalID ` set (gt_rows (gt_exec op db)) \<subseteq> gt_GoalID ` set (gt_rows db) \<union> set (gt_goals db)"
proof (cases op)
  case (OpAddSpend i a b)
  then show ?thesis by (simp add: gt_AddSpend_def rows_update_goal)
qed (simp_all add: CreateTree_goals ClaimAtomic_goals gt_Claim_def gt_Transition_goals)

lemma tasks_view_rows [simp]: "gt_rows (tasks_view w) = gt_rows (gw_tasks w)" "gt_goals (tasks_view w) = map gl_ID (gw_goals w)"
  by (simp_all add: tasks_view_def)

lemma tasks_view_inv: "gt_inv (gw_tasks w) \<Longrightarrow> gt_inv (tasks_view w)"
  by (simp add: gt_inv_def tasks_view_def)

lemma gt_later_root:
  assumes "gt_later db db'" "t \<in> set (gt_rows db)" "root_of g t"
  shows "\<exists>t' \<in> set (gt_rows db'). gt_ID t' = gt_ID t \<and> root_of g t'"
  using assms by (fastforce simp: gt_later_def task_later_def shape_def root_of_def)

lemma gt_later_ids:
  assumes "gt_later db db'" shows "gt_ID ` set (gt_rows db) \<subseteq> gt_ID ` set (gt_rows db')"
proof
  fix i assume "i \<in> gt_ID ` set (gt_rows db)"
  then obtain t where "t \<in> set (gt_rows db)" "i = gt_ID t" by auto
  with assms obtain t' where "t' \<in> set (gt_rows db')" "gt_ID t' = i" by (auto simp: gt_later_def task_later_def shape_def)
  then show "i \<in> gt_ID ` set (gt_rows db')" by auto
qed

section \<open>Steps\<close>

lemma goal_ok_world:
  assumes "goal_ok w g" and "set (gw_users w) \<subseteq> set (gw_users w')"
    and "set (cd_channels (gw_ch w)) \<subseteq> set (cd_channels (gw_ch w'))" and "gt_later (gw_tasks w) (gw_tasks w')"
  shows "goal_ok w' g"
proof -
  have "\<exists>t \<in> set (gt_rows (gw_tasks w')). gt_ID t = r \<and> root_of g t" if "gl_RootTaskID g = Some r" for r
  proof -
    from assms(1) that obtain t where t: "t \<in> set (gt_rows (gw_tasks w))" "gt_ID t = r" "root_of g t"
      by (auto simp: goal_ok_def)
    from gt_later_root [OF assms(4) t(1,3)] t(2) show ?thesis by simp
  qed
  with assms(1-3) show ?thesis by (auto simp: goal_ok_def)
qed

lemma goals_world:
  assumes inv: "goals_inv w" and same: "gw_goals w' = gw_goals w" "gw_seq w' = gw_seq w"
    "gw_requests w' = gw_requests w" "gw_req_seq w' = gw_req_seq w"
    and grows: "set (gw_users w) \<subseteq> set (gw_users w')" "set (cd_channels (gw_ch w)) \<subseteq> set (cd_channels (gw_ch w'))"
    "gt_later (gw_tasks w) (gw_tasks w')"
    and parts: "gt_inv (gw_tasks w')" "ch_inv (gw_ch w')"
    and here: "gt_GoalID ` set (gt_rows (gw_tasks w')) \<subseteq> gt_GoalID ` set (gt_rows (gw_tasks w)) \<union> set (map gl_ID (gw_goals w))"
  shows "goals_inv w' \<and> goals_later w w'"
proof -
  have "\<forall>g \<in> set (gw_goals w). goal_ok w' g"
    using inv grows by (auto simp: goals_inv_def intro: goal_ok_world)
  moreover have "has_goal (gt_GoalID t) w'" if "t \<in> set (gt_rows (gw_tasks w'))" for t
  proof -
    have "gt_GoalID t \<in> gt_GoalID ` set (gt_rows (gw_tasks w)) \<union> set (map gl_ID (gw_goals w))" using here that by auto
    then show ?thesis using inv same(1) by (auto simp: goals_inv_def has_goal_def)
  qed
  moreover have "gt_ID ` set (gt_rows (gw_tasks w)) \<subseteq> gt_ID ` set (gt_rows (gw_tasks w'))"
    using grows(3) by (rule gt_later_ids)
  ultimately have "goals_inv w'" using inv same parts by (auto simp: goals_inv_def slugs_def)
  moreover have "goals_later w w'" using same grows(3) by (auto simp: goals_later_def intro: gl_later_refl)
  ultimately show ?thesis ..
qed

text \<open>An update of one goal that keeps its identity.\<close>

lemma update_goal_step:
  assumes inv: "goals_inv w" and same: "\<And>g. goal_identity (f g) = goal_identity g"
    and step: "\<And>g. g \<in> set (gw_goals w) \<Longrightarrow> gl_ID g = i \<Longrightarrow> gl_later g (f g) \<and> goal_ok w (f g)"
  shows "goals_inv (update_goal i f w) \<and> goals_later w (update_goal i f w)"
proof -
  let ?w = "update_goal i f w"
  have k: "gl_ID (f g) = gl_ID g" "gl_Slug (f g) = gl_Slug g" for g using same [of g] by (simp_all add: goal_identity_def)
  have rest: "gw_tasks ?w = gw_tasks w" "gw_ch ?w = gw_ch w" "gw_users ?w = gw_users w" "gw_seq ?w = gw_seq w"
    "gw_requests ?w = gw_requests w" "gw_req_seq ?w = gw_req_seq w"
    "gw_goals ?w = update_where (\<lambda>g. gl_ID g = i) f (gw_goals w)" by (simp_all add: update_goal_def)
  have same_ids: "has_goal j ?w = has_goal j w" "slugs ?w = slugs w" for j
    using k by (simp_all add: has_goal_def slugs_def rest map_update_where del: set_map)
  have "goal_ok ?w g" if "g \<in> set (gw_goals ?w)" for g
  proof -
    from that obtain r where r: "r \<in> set (gw_goals w)" "g = (if gl_ID r = i then f r else r)"
      by (auto simp: rest in_update_where)
    then have "goal_ok w g" using step [of r] inv by (auto simp: goals_inv_def)
    then show ?thesis by (simp add: goal_ok_def rest)
  qed
  then have "goals_inv ?w" using inv k by (simp add: goals_inv_def rest same_ids ids_ok_update_where)
  moreover have "\<exists>g' \<in> set (gw_goals ?w). gl_later g g'" if g: "g \<in> set (gw_goals w)" for g
    using updated_row [OF g, of "\<lambda>g. gl_ID g = i" f] step [OF g]
    by (intro bexI [of _ "if gl_ID g = i then f g else g"]) (auto simp: rest)
  then have "goals_later w ?w" by (simp add: goals_later_def rest gt_later_refl)
  ultimately show ?thesis ..
qed

lemma goal_legal_statuses: "goal_legal st st' \<Longrightarrow> st' \<in> set goal_statuses"
  by (auto simp: goal_legal_def goal_statuses_def split: if_splits)

lemma goal_legal_final: "goal_legal st st' \<Longrightarrow> st \<noteq> StatusCompleted \<and> st \<noteq> StatusCancelled"
  by (auto simp: goal_legal_def goal_status_defs split: if_splits)

lemma goal_Get_Inr:
  assumes "goals_inv w" "goal_Get f i w = Inr g"
  shows "g \<in> set (gw_goals w)" "gl_ID g = i" "\<And>x. x \<in> set (gw_goals w) \<Longrightarrow> gl_ID x = i \<Longrightarrow> x = g"
proof -
  from assms(2) show g: "g \<in> set (gw_goals w)" "gl_ID g = i"
    by (auto simp: goal_Get_def dest: find_row_Some split: if_splits option.splits)
  show "x = g" if "x \<in> set (gw_goals w)" "gl_ID x = i" for x
    using assms(1) g that ids_ok_unique [of gl_ID "gw_seq w" "gw_goals w" x g] by (simp add: goals_inv_def)
qed

lemma goal_ok_fields:
  assumes "goal_ok w g" "goal_identity g' = goal_identity g" "gl_RootTaskID g' = gl_RootTaskID g" "gl_Status g' \<in> set goal_statuses"
  shows "goal_ok w g'"
  using assms by (auto simp: goal_ok_def goal_identity_def backing_channel_def root_of_def)

text \<open>A legal change of status, with or without the columns of a completion.\<close>

lemma goal_status_step:
  assumes inv: "goals_inv w" and get: "goal_Get x i w = Inr g" and legal: "goal_legal (gl_Status g) st"
    and f: "\<And>g. goal_identity (f g) = goal_identity g \<and> gl_RootTaskID (f g) = gl_RootTaskID g \<and>
      gl_Alert80PctPosted (f g) = gl_Alert80PctPosted g \<and> gl_Status (f g) = st"
  shows "goals_inv (update_goal i f w) \<and> goals_later w (update_goal i f w)"
proof (rule update_goal_step [OF inv])
  fix h assume "h \<in> set (gw_goals w)" "gl_ID h = i"
  then have h: "h = g" "goal_ok w g" using goal_Get_Inr(3) [OF inv get] inv by (auto simp: goals_inv_def)
  have "gl_later g (f g)" using f legal goal_legal_final [OF legal] by (simp add: gl_later_def r_into_rtranclp)
  moreover have "goal_ok w (f g)"
    by (rule goal_ok_fields [OF h(2)]) (use f goal_legal_statuses [OF legal] in simp_all)
  ultimately show "gl_later h (f h) \<and> goal_ok w (f h)" using h by simp
qed (use f in simp)

lemma goal_TransitionStatus_step:
  assumes inv: "goals_inv w"
  shows "goals_inv (snd (goal_TransitionStatus gf sf now i st w)) \<and> goals_later w (snd (goal_TransitionStatus gf sf now i st w))"
proof (cases "goal_Get gf i w")
  case (Inl e)
  with inv show ?thesis by (simp add: goal_TransitionStatus_def goals_later_refl)
next
  case (Inr g)
  have "goals_inv (update_goal i (\<lambda>g. g\<lparr>gl_Status := st, gl_UpdatedAt := now\<rparr>) w) \<and>
      goals_later w (update_goal i (\<lambda>g. g\<lparr>gl_Status := st, gl_UpdatedAt := now\<rparr>) w)" if "goal_legal (gl_Status g) st"
    by (rule goal_status_step [OF inv Inr that]) (simp add: goal_identity_def)
  with Inr inv show ?thesis by (simp add: goal_TransitionStatus_def SetStatus_def goals_later_refl)
qed

lemma goal_Complete_step:
  assumes inv: "goals_inv w"
  shows "goals_inv (snd (goal_Complete gf sf now i st summary m w)) \<and> goals_later w (snd (goal_Complete gf sf now i st summary m w))"
proof (cases "goal_Get gf i w")
  case (Inl e)
  with inv show ?thesis by (simp add: goal_Complete_def goals_later_refl)
next
  case (Inr g)
  define f :: "Goal \<Rightarrow> Goal" where "f = (\<lambda>g. g\<lparr>gl_Status := st, gl_CompletionSummary := Some summary, gl_CompletionMessageID := Some m,
      gl_CompletedAt := (if closing_status st then Some now else gl_CompletedAt g), gl_UpdatedAt := now\<rparr>)"
  have "goals_inv (update_goal i f w) \<and> goals_later w (update_goal i f w)" if "goal_legal (gl_Status g) st"
    by (rule goal_status_step [OF inv Inr that]) (simp add: f_def goal_identity_def)
  with Inr inv show ?thesis by (simp add: goal_Complete_def SetCompletion_def goals_later_refl f_def)
qed

abbreviation slug_chars :: "string \<Rightarrow> bool" where
  "slug_chars s \<equiv> list_all (\<lambda>c. slug_kept c \<or> c = CHR ''-'') s"

lemma show_nat_kept: "list_all slug_kept (show_nat n)"
proof (induction n rule: show_nat.induct)
  case (1 n)
  have d: "slug_kept (char_of (48 + m))" if "m < 10" for m :: nat
    using that by (simp add: slug_kept_def)
  show ?case
  proof (cases "n < 10")
    case True
    then show ?thesis using d [of n] by (simp add: show_nat.simps [of n])
  next
    case False
    then show ?thesis using "1.IH" d [of "n mod 10"] by (simp add: show_nat.simps [of n])
  qed
qed

lemma slug_cand_chars: "slug_chars base \<Longrightarrow> slug_chars (slug_cand base k)"
  using show_nat_kept [of k] by (auto simp: slug_cand_def show_int_def list_all_iff)

lemma slug_loop_end:
  assumes "slug_loop flt w base 98 2 base = Inr s"
  obtains j where "1 \<le> j" "j \<le> 99" "s = slug_cand base j" "\<forall>i \<in> {1..<j}. slug_cand base i \<in> set (slugs w)"
proof -
  have "Suc 1 = 2" "slug_cand base 1 = base" by (simp_all add: slug_cand_def)
  with assms have "slug_loop flt w base 98 (Suc 1) (slug_cand base 1) = Inr s" by metis
  from slug_loop_cand [OF this] show thesis using that by auto
qed

lemma slug_loop_chars: "slug_loop flt w (slugify title) 98 2 (slugify title) = Inr s \<Longrightarrow> slug_chars s"
  using slugify_ok [of title] by (elim slug_loop_end) (simp add: slug_ok_def slug_cand_chars)

text \<open>The backing channel: a row of the slug's name is added, or nothing.\<close>

lemma goal_channel_name: "slug_chars slug \<Longrightarrow> NormalizeChannelName (''goal-'' @ slug) = ''goal-'' @ slug"
proof -
  assume "slug_chars slug"
  then have "to_lower (''goal-'' @ slug) = ''goal-'' @ slug"
    by (intro slug_lower) (simp add: slug_kept_def)
  then show ?thesis by (simp add: NormalizeChannelName_def)
qed

lemma CreateGoalChannel_ok:
  assumes c: "CreateGoalChannel flt now slug title desc owner db = (r, db')" and slug: "slug_chars slug"
  shows "set (cd_channels db) \<subseteq> set (cd_channels db')"
    and "r = Inr i \<Longrightarrow> \<exists>ch \<in> set (cd_channels db'). chn_ID ch = i \<and> chn_Name ch = ''goal-'' @ slug \<and>
      chn_Type ch = ''blackboard'' \<and> chn_IsPrivate ch \<and> chn_IsSystem ch"
  using c goal_channel_name [OF slug]
  by (auto simp: CreateGoalChannel_def CreateChannel_def goal_channel_request_def new_channel_def store_CreateChannel_def
      AddMember_def Let_def split: option.splits prod.splits sum.splits if_splits)

lemma CreateGoalChannel_inv: "ch_inv db \<Longrightarrow> ch_inv (snd (CreateGoalChannel flt now slug title desc owner db))"
  using CreateChannel_inv [of db flt now "goal_channel_request slug title owner"]
  by (auto simp: CreateGoalChannel_def split: prod.splits sum.splits)

lemma CreateGoal_cases:
  assumes "CreateGoal flt now inp w = (r, w')"
  obtains (kept) "w' = w" "isl r"
  | (made) slug c db where "slug_loop flt w (slugify (cg_Title inp)) 98 2 (slugify (cg_Title inp)) = Inr slug"
      "CreateGoalChannel (\<lambda>st. flt (LChannel st)) now slug (cg_Title inp) (cg_Description inp) (cg_OwnerUsername inp) (gw_ch w) = (c, db)"
      "w' = w\<lparr>gw_ch := db\<rparr>" "isl r"
  | (new) slug c db where "slug_loop flt w (slugify (cg_Title inp)) 98 2 (slugify (cg_Title inp)) = Inr slug"
      "CreateGoalChannel (\<lambda>st. flt (LChannel st)) now slug (cg_Title inp) (cg_Description inp) (cg_OwnerUsername inp) (gw_ch w) = (Inr c, db)"
      "cg_Title inp \<noteq> ''''" "goal_check (new_goal inp slug c) (w\<lparr>gw_ch := db\<rparr>)"
      "r = Inr ((new_goal inp slug c)\<lparr>gl_ID := gw_seq w + 1\<rparr>)"
      "w' = w\<lparr>gw_ch := db, gw_goals := gw_goals w @ [goal_row now (gw_seq w + 1) (new_goal inp slug c)], gw_seq := gw_seq w + 1\<rparr>"
proof (cases "cg_Title inp = '''' \<or> cg_Description inp = ''''")
  case True
  then show thesis using assms kept by (auto simp: CreateGoal_def)
next
  case False
  show thesis
  proof (cases "slug_loop flt w (slugify (cg_Title inp)) 98 2 (slugify (cg_Title inp))")
    case (Inl e)
    then show thesis using False assms kept by (auto simp: CreateGoal_def Let_def)
  next
    case (Inr slug)
    obtain c db where c: "CreateGoalChannel (\<lambda>st. flt (LChannel st)) now slug (cg_Title inp) (cg_Description inp) (cg_OwnerUsername inp) (gw_ch w) = (c, db)"
      by (cases "CreateGoalChannel (\<lambda>st. flt (LChannel st)) now slug (cg_Title inp) (cg_Description inp) (cg_OwnerUsername inp) (gw_ch w)")
    show thesis
    proof (cases c)
      case (Inl e)
      then show thesis using False assms Inr c made [OF Inr c] by (auto simp: CreateGoal_def Let_def)
    next
      case (Inr i)
      note slug = \<open>slug_loop _ _ _ _ _ _ = Inr slug\<close>
      show thesis
      proof (cases "flt LInsert \<or> \<not> goal_check (new_goal inp slug i) (w\<lparr>gw_ch := db\<rparr>)")
        case True
        then show thesis using False assms Inr c slug made [OF slug c] by (auto simp: CreateGoal_def goal_Insert_def Let_def)
      next
        case ok: False
        then show thesis using False assms Inr c slug new [OF slug c [unfolded Inr]] by (auto simp: CreateGoal_def goal_Insert_def Let_def)
      qed
    qed
  qed
qed

lemma handleCreateGoal_Create:
  "handleCreateGoal flt now name title desc tokens cents depth w = (r, w') \<Longrightarrow>
     w' = w \<and> isl r \<or> (\<exists>a inp. caller flt name w = Some a \<and> CreateGoal flt now inp w = (r, w') \<and> cg_Title inp = title \<and>
       cg_Description inp = desc \<and> cg_OwnerUserID inp = ag_OwnerID a \<and> cg_CoordinatorAgentID inp = Some (ag_ID a))"
  by (auto simp: handleCreateGoal_def split: if_splits option.splits)

lemma CreateGoal_step:
  assumes inv: "goals_inv w" and c: "CreateGoal flt now inp w = (r, w')"
  shows "goals_inv w' \<and> goals_later w w'"
  using c
proof (cases rule: CreateGoal_cases)
  case kept
  with inv show ?thesis by (simp add: goals_later_refl)
next
  case (made slug c db)
  note ch = CreateGoalChannel_ok(1) [OF made(2) slug_loop_chars [OF made(1)]]
  have "ch_inv db" using CreateGoalChannel_inv [of "gw_ch w"] made(2) inv by (metis goals_inv_def snd_conv)
  then show ?thesis using inv ch made(3) by (intro goals_world) (auto simp: goals_inv_def gt_later_refl)
next
  case (new slug c db)
  note ch = CreateGoalChannel_ok [OF new(2) slug_loop_chars [OF new(1)]]
  define row where "row = goal_row now (gw_seq w + 1) (new_goal inp slug c)"
  have "ch_inv db" using CreateGoalChannel_inv [of "gw_ch w"] new(2) inv by (metis goals_inv_def snd_conv)
  then have w1: "goals_inv (w\<lparr>gw_ch := db\<rparr>) \<and> goals_later w (w\<lparr>gw_ch := db\<rparr>)"
    using inv ch(1) by (intro goals_world) (auto simp: goals_inv_def gt_later_refl)
  have row: "gl_ID row = gw_seq w + 1" "gl_Slug row = slug" by (simp_all add: row_def goal_row_def new_goal_def)
  have "goal_ok (w\<lparr>gw_ch := db\<rparr>) row"
    using ch(2) [OF refl] new(3,4)
    by (auto simp: goal_ok_def row_def goal_row_def new_goal_def goal_check_def backing_channel_def goal_statuses_def)
  moreover have "slug \<notin> set (slugs w)" using new(4) by (simp add: goal_check_def new_goal_def slugs_def)
  ultimately have "goals_inv w'" using w1 row unfolding new(6) row_def [symmetric]
    by (auto simp: goals_inv_def slugs_def has_goal_def goal_ok_def intro: ids_ok_append)
  moreover have "goals_later w w'" using w1 unfolding new(6) by (auto simp: goals_later_def)
  ultimately show ?thesis ..
qed

lemma walk_refs:
  "walk flt now inp node p d a db ids = Inr (i, db', ids') \<Longrightarrow> gt_goals db' = gt_goals db"
  "walk_children flt now inp nodes q d a db ids = Inr (db', ids') \<Longrightarrow> gt_goals db' = gt_goals db"
proof (induction flt now inp node p d a db ids and flt now inp nodes q d a db ids
    arbitrary: i db' ids' and db' ids' rule: walk_walk_children.induct)
  case (1 flt now inp ti de ac bi bt bd vc hc children p d a db ids)
  let ?n = "TreeNode ti de ac bi bt bd vc hc children"
  from "1.prems" obtain db1 where
    ins: "gt_Insert flt now (node_task inp ?n p d a) db = Inr (db1, i)" and
    ch: "walk_children flt now inp children i (d + 1)
      (a @ [\<lparr>an_ID = i, an_Title = ti, an_AcceptanceCriteria = ac\<rparr>]) db1 (ids @ [i]) = Inr (db', ids')"
    by (auto split: sum.splits prod.splits)
  from "1.IH" [OF ins refl ch] gt_Insert_Inr [OF ins] show ?case by simp
next
  case (3 flt now inp child rest q d a db ids)
  from "3.prems" obtain i db1 ids1 where
    w: "walk flt now inp child (Some q) d a db ids = Inr (i, db1, ids1)" and
    r: "walk_children flt now inp rest q d a db1 ids1 = Inr (db', ids')"
    by (auto split: sum.splits prod.splits)
  from "3.IH"(1) [OF w] "3.IH"(2) [OF w refl refl r] show ?case by simp
qed auto

lemma gt_exec_refs: "gt_goals (gt_exec op db) = gt_goals db"
proof (cases op)
  case (OpCreateTree flt cf now inp)
  then show ?thesis by (auto simp: CreateTree_def dest: walk_refs(1) split: sum.split prod.split)
qed (auto simp: gt_Claim_def ClaimAtomic_def gt_Transition_def TransitionStatus_def gt_AddSpend_def split: sum.split)

text \<open>What the task tools do to the tasks are runs of the task component.\<close>

lemma gt_exec_step:
  assumes inv: "goals_inv w" and db: "gt_inv db" "gt_later (gw_tasks w) db"
    and goals: "gt_GoalID ` set (gt_rows db) \<subseteq> gt_GoalID ` set (gt_rows (gw_tasks w)) \<union> set (map gl_ID (gw_goals w))"
  shows "goals_inv (w\<lparr>gw_tasks := db\<rparr>) \<and> goals_later w (w\<lparr>gw_tasks := db\<rparr>)"
  using assms by (intro goals_world) (auto simp: goals_inv_def)

lemma tasks_view_later: "gt_later (tasks_view w) db \<Longrightarrow> gt_later (gw_tasks w) db"
  by (simp add: gt_later_def)

lemma gt_run_step:
  assumes inv: "goals_inv w"
  shows "goals_inv (w\<lparr>gw_tasks := fold gt_exec ops (tasks_view w)\<rparr>) \<and> goals_later w (w\<lparr>gw_tasks := fold gt_exec ops (tasks_view w)\<rparr>)"
proof (rule gt_exec_step [OF inv])
  have v: "gt_inv (tasks_view w)" using inv by (auto simp: goals_inv_def intro: tasks_view_inv)
  from gt.run_inv [OF v] show "gt_inv (fold gt_exec ops (tasks_view w))" .
  from gt.run_later [OF v] show "gt_later (gw_tasks w) (fold gt_exec ops (tasks_view w))" by (rule tasks_view_later)
  have "gt_GoalID ` set (gt_rows (fold gt_exec os db)) \<subseteq> gt_GoalID ` set (gt_rows db) \<union> set (gt_goals db)" for os db
  proof (induction os arbitrary: db)
    case (Cons op os)
    have "gt_goals (gt_exec op db) = gt_goals db" by (rule gt_exec_refs)
    with Cons.IH [of "gt_exec op db"] gt_exec_goals [of op db] show ?case by auto
  qed simp
  from this [of ops "tasks_view w"]
  show "gt_GoalID ` set (gt_rows (fold gt_exec ops (tasks_view w))) \<subseteq>
      gt_GoalID ` set (gt_rows (gw_tasks w)) \<union> set (map gl_ID (gw_goals w))" by simp
qed

lemma CreateTree_root:
  assumes "CreateTree flt cf now inp db = (Inr (root_id, ids), db')"
  shows "\<exists>t \<in> set (gt_rows db'). gt_ID t = root_id \<and> gt_GoalID t = ct_GoalID inp \<and> gt_ParentTaskID t = None"
proof (cases "ct_Root inp")
  case (TreeNode ti de ac bi bt bd vc hc children)
  let ?t = "new_row now root_id (node_task inp (ct_Root inp) None 0 [])"
  have "?t \<in> set (gt_rows db')" using CreateTree_rows [OF assms] TreeNode by simp
  then show ?thesis by (intro bexI [of _ ?t]) (simp_all add: new_row_def node_task_def)
qed

lemma handleProposeTaskTree_step:
  assumes inv: "goals_inv w"
  shows "goals_inv (snd (handleProposeTaskTree flt now name i text parsed w)) \<and>
    goals_later w (snd (handleProposeTaskTree flt now name i text parsed w))"
proof (cases "i \<le> 0 \<or> text = '''' \<or> parsed = None \<or> caller flt name w = None")
  case True
  with inv show ?thesis by (auto simp: handleProposeTaskTree_def goals_later_refl split: option.splits)
next
  case False
  then obtain tree a where ta: "parsed = Some tree" "caller flt name w = Some a" by auto
  define op where "op = OpCreateTree (\<lambda>t. flt (LTask t)) (flt LCommit) now (propose_input i (ag_ID a) tree)"
  obtain r db where c: "CreateTree (\<lambda>t. flt (LTask t)) (flt LCommit) now (propose_input i (ag_ID a) tree) (tasks_view w) = (r, db)"
    by fastforce
  then have "gt_exec op (tasks_view w) = db" by (simp add: op_def)
  then have w1: "goals_inv (w\<lparr>gw_tasks := db\<rparr>)" "goals_later w (w\<lparr>gw_tasks := db\<rparr>)"
    using gt_run_step [OF inv, of "[op]"] by simp_all
  show ?thesis
  proof (cases r)
    case (Inl e)
    with c w1 ta False show ?thesis by (simp add: handleProposeTaskTree_def)
  next
    case (Inr x)
    obtain root_id ids where x: "x = (root_id, ids)" by (cases x)
    define f :: "Goal \<Rightarrow> Goal" where "f = (\<lambda>g. g\<lparr>gl_RootTaskID := Some root_id\<rparr>)"
    from CreateTree_root [OF c [unfolded Inr x]] obtain t where
      t: "t \<in> set (gt_rows db)" "gt_ID t = root_id" "gt_GoalID t = i" "gt_ParentTaskID t = None"
      by (auto simp: propose_input_def)
    have w2: "goals_inv (update_goal i f (w\<lparr>gw_tasks := db\<rparr>)) \<and> goals_later (w\<lparr>gw_tasks := db\<rparr>) (update_goal i f (w\<lparr>gw_tasks := db\<rparr>))"
    proof (rule update_goal_step [OF w1(1)])
      fix g assume "g \<in> set (gw_goals (w\<lparr>gw_tasks := db\<rparr>))" "gl_ID g = i"
      then have "goal_ok (w\<lparr>gw_tasks := db\<rparr>) g" "gl_ID g = i" using w1(1) by (simp_all add: goals_inv_def)
      then have "goal_ok (w\<lparr>gw_tasks := db\<rparr>) (f g)" using t by (auto simp: goal_ok_def f_def root_of_def backing_channel_def)
      then show "gl_later g (f g) \<and> goal_ok (w\<lparr>gw_tasks := db\<rparr>) (f g)"
        by (simp add: gl_later_def f_def goal_identity_def goal_outcome_def)
    qed (simp add: f_def goal_identity_def)
    define w2 where "w2 = (if flt LRoot then w\<lparr>gw_tasks := db\<rparr> else update_goal i f (w\<lparr>gw_tasks := db\<rparr>))"
    have "goals_inv w2" "goals_later w w2" using w1 w2 goals_later_trans by (auto simp: w2_def)
    then have "goals_inv (snd (goal_TransitionStatus (flt LActivateGet) (flt LActivate) now i StatusActive w2))"
      "goals_later w (snd (goal_TransitionStatus (flt LActivateGet) (flt LActivate) now i StatusActive w2))"
      using goal_TransitionStatus_step goals_later_trans by blast+
    note done_ = this [unfolded w2_def f_def]
    show ?thesis using done_ c Inr x ta False by (simp add: handleProposeTaskTree_def Let_def)
  qed
qed

lemma handleClaimTask_step:
  assumes inv: "goals_inv w"
  shows "goals_inv (snd (handleClaimTask flt now name i w)) \<and> goals_later w (snd (handleClaimTask flt now name i w))"
proof (cases "i \<le> 0 \<or> caller flt name w = None \<or> flt LClaim")
  case True
  with inv show ?thesis by (auto simp: handleClaimTask_def goals_later_refl split: option.splits)
next
  case False
  then obtain a where a: "caller flt name w = Some a" by auto
  let ?claim = "OpClaim now i (ag_ID a) None"
  let ?start = "OpTransition now i GInProgress \<lparr>ex_FailureReason = '''', ex_CompletionMessageID = None\<rparr>"
  obtain r db where c: "gt_Claim now i (ag_ID a) None (tasks_view w) = (r, db)" by fastforce
  have "snd (handleClaimTask flt now name i w) = w\<lparr>gw_tasks := fold gt_exec [?claim] (tasks_view w)\<rparr> \<or>
      snd (handleClaimTask flt now name i w) = w\<lparr>gw_tasks := fold gt_exec [?claim, ?start] (tasks_view w)\<rparr>"
    using False a c by (cases r) (simp_all add: handleClaimTask_def)
  then show ?thesis using gt_run_step [OF inv, of "[?claim]"] gt_run_step [OF inv, of "[?claim, ?start]"] by metis
qed

lemma trim_upper_nonempty: "map upper_char s = '''' \<longleftrightarrow> s = ''''"
  by simp

lemma handleRequestResource_step:
  assumes inv: "goals_inv w"
  shows "goals_inv (snd (handleRequestResource flt name res reason i w)) \<and>
    goals_later w (snd (handleRequestResource flt name res reason i w))"
proof (cases "map upper_char (trim_space res) = '''' \<or> reason = '''' \<or> i \<le> 0 \<or> caller flt name w = None \<or> flt LRequest \<or>
    i \<notin> set (map gt_ID (gt_rows (gw_tasks w)))")
  case True
  then have "snd (handleRequestResource flt name res reason i w) = w"
    unfolding handleRequestResource_def Let_def by (auto split: option.split)
  with inv show ?thesis by (simp add: goals_later_refl)
next
  case False
  then obtain a where a: "caller flt name w = Some a" by auto
  define q where "q = \<lparr>gq_ID = gw_req_seq w + 1, gq_RequesterAgentID = ag_ID a, gq_TaskID = i,
    gq_ResourceName = map upper_char (trim_space res), gq_Reason = reason, gq_Status = ''pending''\<rparr>"
  have w': "snd (handleRequestResource flt name res reason i w) =
      w\<lparr>gw_requests := gw_requests w @ [q], gw_req_seq := gw_req_seq w + 1\<rparr>" (is "_ = ?w")
    using False a by (simp add: handleRequestResource_def Let_def q_def)
  have "goal_ok ?w g = goal_ok w g" for g by (simp add: goal_ok_def)
  then have "goals_inv ?w" using inv False
    by (auto simp: goals_inv_def q_def slugs_def has_goal_def intro!: ids_ok_append)
  moreover have "goals_later w ?w" by (auto simp: goals_later_def gt_later_refl intro: gl_later_refl)
  ultimately show ?thesis using w' by simp
qed

lemma handleCompleteGoal_step:
  assumes inv: "goals_inv w"
  shows "goals_inv (snd (handleCompleteGoal flt now name i st summary m w)) \<and>
    goals_later w (snd (handleCompleteGoal flt now name i st summary m w))"
  using goal_Complete_step [OF inv] inv by (simp add: handleCompleteGoal_def goals_later_refl split: option.split sum.split)

lemma goal_exec_step: "goals_inv w \<Longrightarrow> goals_inv (goal_exec op w) \<and> goals_later w (goal_exec op w)"
proof (cases op)
  case (GlCreate flt now name title desc tokens cents depth)
  assume inv: "goals_inv w"
  obtain r w' where c: "handleCreateGoal flt now name title desc tokens cents depth w = (r, w')" by fastforce
  show ?thesis using handleCreateGoal_Create [OF c] CreateGoal_step [OF inv] inv GlCreate c by (auto simp: goals_later_refl)
next
  case (GlAlert failed i)
  assume inv: "goals_inv w"
  have "goals_inv (update_goal i (\<lambda>g. g\<lparr>gl_Alert80PctPosted := True\<rparr>) w) \<and>
      goals_later w (update_goal i (\<lambda>g. g\<lparr>gl_Alert80PctPosted := True\<rparr>) w)"
  proof (rule update_goal_step [OF inv])
    fix g assume "g \<in> set (gw_goals w)"
    then have "goal_ok w g" using inv by (simp add: goals_inv_def)
    moreover have "goal_ok w (g\<lparr>gl_Alert80PctPosted := True\<rparr>) = goal_ok w g" by (simp add: goal_ok_def backing_channel_def root_of_def)
    ultimately show "gl_later g (g\<lparr>gl_Alert80PctPosted := True\<rparr>) \<and> goal_ok w (g\<lparr>gl_Alert80PctPosted := True\<rparr>)"
      by (simp add: gl_later_def goal_identity_def goal_outcome_def)
  qed (simp add: goal_identity_def)
  with GlAlert inv show ?thesis by (simp add: goal_MarkSoftAlertPosted_def goals_later_refl)
next
  case (GlTask gop)
  assume "goals_inv w"
  then show ?thesis using gt_run_step [of w "[gop]"] GlTask by simp
next
  case (GlRest reg users msgs secs)
  assume inv: "goals_inv w"
  have "goals_inv (goal_exec op w) \<and> goals_later w (goal_exec op w)"
    by (rule goals_world [OF inv]) (use inv in \<open>auto simp: GlRest gt_later_refl goals_inv_def\<close>)
  then show ?thesis .
qed (simp_all add: handleProposeTaskTree_step handleClaimTask_step handleRequestResource_step handleCompleteGoal_step)

interpretation gls: history_system goal_exec goals_inv goals_later
  by unfold_locales (auto intro: goals_later_refl goals_later_trans simp: goal_exec_step)

definition goals_empty :: "reg_db \<Rightarrow> (id64 \<times> string) list \<Rightarrow> goal_world" where
  "goals_empty reg users = \<lparr>gw_goals = [], gw_seq = 0, gw_tasks = gt_empty [] [] [] [], gw_ch = ch_empty False, gw_reg = reg,
     gw_users = users, gw_messages = [], gw_secrets = \<lparr>sb_rows = [], sb_seq = 0, sb_users = []\<rparr>, gw_requests = [], gw_req_seq = 0\<rparr>"

lemma goals_empty_inv: "goals_inv (goals_empty reg users)"
  by (simp add: goals_inv_def goals_empty_def slugs_def ch_empty_inv gt_empty_inv) (simp add: gt_empty_def)

section \<open>Properties\<close>


definition close_goal :: "timestamp \<Rightarrow> string \<Rightarrow> string \<Rightarrow> id64 \<Rightarrow> Goal \<Rightarrow> Goal" where
  "close_goal now st summary m g = g\<lparr>gl_Status := st, gl_CompletionSummary := Some summary, gl_CompletionMessageID := Some m,
     gl_CompletedAt := Some now, gl_UpdatedAt := now\<rparr>"

lemma goal_Get_here:
  assumes "goals_inv w" "g \<in> set (gw_goals w)" shows "goal_Get False (gl_ID g) w = Inr g"
  using find_row_id [of gl_ID "gw_seq w" "gw_goals w" g] assms by (simp add: goal_Get_def goals_inv_def)

text \<open>The tool on a goal that is there, as a chain of its guards.\<close>

lemma handleCompleteGoal_here:
  assumes inv: "goals_inv w" and args: "0 < gl_ID g" "summary \<noteq> ''''" "st \<in> {StatusCompleted, StatusStuck, StatusCancelled}"
    and a: "caller flt name w = Some a" and g: "g \<in> set (gw_goals w)" and ok: "\<not> flt LGet" "\<not> flt LGetAgain"
  shows "handleCompleteGoal flt now name (gl_ID g) st summary m w =
    (if ag_OwnerID a \<noteq> gl_OwnerUserID g then (Inl OtherOwner, w)
     else if gl_Status g = st then (Inr (), w)
     else if \<not> goal_legal (gl_Status g) st then (Inl (IllegalGoalTransition (gl_Status g) st), w)
     else if flt LUpdate \<or> m \<notin> set (gw_messages w) then (Inl GoalStatementFailed, w)
     else (Inr (), update_goal (gl_ID g) (close_goal now st summary m) w))"
proof -
  have "st \<noteq> ''''" "closing_status st" "st \<in> set goal_statuses"
    using args(3) by (auto simp: goal_status_defs closing_status_def goal_statuses_def)
  moreover have "has_goal (gl_ID g) w" using g by (auto simp: has_goal_def)
  ultimately show ?thesis using goal_Get_here [OF inv g] args a ok
    by (simp add: handleCompleteGoal_def goal_Complete_def SetCompletion_def close_goal_def [abs_def])
qed

lemma handleCompleteGoal_not_here:
  assumes "caller flt name w = None \<or> flt LGet \<or> flt LGetAgain \<or> (\<forall>g \<in> set (gw_goals w). gl_ID g \<noteq> i)"
    and run: "handleCompleteGoal flt now name i st summary m w = (r, w')"
  shows "r \<noteq> Inr () \<and> w' = w"
  using assms by (auto simp: handleCompleteGoal_def goal_Complete_def goal_Get_def split: option.splits if_splits sum.splits dest: find_row_Some)


lemma CreateGoalChannel_member:
  assumes "CreateGoalChannel flt now slug title desc owner db = (Inr c, db')" shows "is_member db' c owner"
proof -
  have "is_member (record_trace x y d) = is_member d" for x y d by (simp add: is_member_def fun_eq_iff)
  with assms show ?thesis
    by (auto simp: CreateGoalChannel_def CreateChannel_def goal_channel_request_def dest!: AddMember_Inr
        split: option.splits prod.splits sum.splits)
qed
definition goals_demo :: goal_world where
  "goals_demo = goals_empty (reg_empty\<lparr>rg_agents := [new_agent 0 7 ''coord'' '''' ''ai'' '''' 1 ''''], rg_agent_seq := 7\<rparr>) [(1, ''alice'')]"

text \<open>The example runs: a goal is made, and closed with a message.\<close>

definition demo_run :: "goal_op list" where
  "demo_run = [GlCreate (\<lambda>_. False) 5 ''coord'' ''Tidy docs'' ''all of them'' 0 500 0, GlRest (gw_reg goals_demo) [] [3] (gw_secrets goals_demo)]"

lemma demo_inv: "goals_inv (fold goal_exec demo_run goals_demo)"
  using gls.run_inv [OF goals_empty_inv] by (simp add: goals_demo_def)




section \<open>What the tools refuse\<close>

text \<open>Without the id of a message a goal is never closed: the id is then 0, which no message has.\<close>

lemma complete_without_message:
  assumes "goals_inv w" "0 < i" "summary \<noteq> ''''" "st \<in> {StatusCompleted, StatusStuck, StatusCancelled}" "0 \<notin> set (gw_messages w)"
    and "\<forall>g \<in> set (gw_goals w). gl_ID g = i \<longrightarrow> gl_Status g \<noteq> st"
  shows "fst (handleCompleteGoal flt now name i st summary 0 w) \<noteq> Inr ()"
proof (cases "caller flt name w = None \<or> flt LGet \<or> flt LGetAgain \<or> (\<forall>g \<in> set (gw_goals w). gl_ID g \<noteq> i)")
  case True
  then show ?thesis using handleCompleteGoal_not_here [OF True] by (metis prod.collapse)
next
  case False
  then obtain a g where ag: "caller flt name w = Some a" "g \<in> set (gw_goals w)" "gl_ID g = i" by auto
  then show ?thesis using handleCompleteGoal_here [OF assms(1) _ assms(3,4) ag(1,2), where now = now and m = 0] False assms by auto
qed

text \<open>A title whose slug is longer than 59 bytes is refused: the channel's name would be longer than 64.\<close>

lemma long_title_refused:
  assumes "59 < length (slugify title)"
  shows "isl (fst (handleCreateGoal flt now name title desc tokens cents depth w))"
proof (rule ccontr)
  assume "\<not> isl (fst (handleCreateGoal flt now name title desc tokens cents depth w))"
  then obtain g w' where run: "handleCreateGoal flt now name title desc tokens cents depth w = (Inr g, w')"
    by (metis isl_def prod.collapse sum.exhaust_sel)
  from handleCreateGoal_Create [OF this] obtain inp where c: "CreateGoal flt now inp w = (Inr g, w')" "cg_Title inp = title" by auto
  from c(1) show False
  proof (cases rule: CreateGoal_cases)
    case (new slug i db)
    from slug_loop_end [OF new(1)] obtain j where "slug = slug_cand (slugify title) j" using c(2) by metis
    then have "59 < length slug" using assms by (simp add: slug_cand_def)
    then show False using new(2) by (simp add: CreateGoalChannel_def CreateChannel_def goal_channel_request_def ValidateChannelName_def)
  qed simp_all
qed

text \<open>
  The channel is made before the goal and not undone: after one failing INSERT the slug is free but the channel's name
  is taken, and the same title is refused from then on.
\<close>

fun insert_fails :: "goal_stmt \<Rightarrow> bool" where
  "insert_fails LInsert = True"
| "insert_fails _ = False"

definition orphaned :: goal_world where
  "orphaned = snd (handleCreateGoal insert_fails 5 ''coord'' ''Tidy docs'' ''all of them'' 0 0 3 goals_demo)"

lemma orphan_channel_blocks_title:
  "gw_goals orphaned = [] \<and>
   (case fst (handleCreateGoal (\<lambda>_. False) 6 ''coord'' ''Tidy docs'' ''all of them'' 0 0 3 orphaned) of
      Inl (GoalChannelFailed ErrChannelNameConflict) \<Rightarrow> True | _ \<Rightarrow> False)"
proof
  show "gw_goals orphaned = []" by code_simp
qed code_simp

end
