(* ===== verification/Marketplace.thy ===== *)
theory Marketplace
  imports Auction Wiki Memory_Tools
begin

text \<open>
  The agent marketplace (\<open>internal/marketplace\<close>) and its actions (\<open>internal/mcp/marketplace.go\<close>): auctions
  and bids with their metadata on top of \<open>Auction\<close>, the award as a direct message, the reputation ledger, and the
  capability manifests of the wiki. \<open>market\<close> puts the ledger beside the components it uses.

  \<^item> The metadata are stored as JSON; \<open>market_codec\<close> is what \<open>encoding/json\<close> writes and reads (\<open>None\<close> when a
    number cannot be written). What reading makes of a text no codec wrote is not assumed.
  \<^item> \<open>float64\<close> values are rationals; names and titles are ASCII; instants are seconds, deadlines and the clock of a
    posting nanoseconds as in \<open>Auction\<close>.
\<close>

section \<open>Data\<close>

record AuctionTaskMeta =
  am_AcceptanceCriteria :: string
  am_MaxBudgetTokens :: int
  am_Domains :: "string list"
  am_DifficultyWeight :: rat
  am_CurrentSpendTokens :: int

record BidMeta =
  bm_EstimatedTokens :: int
  bm_Confidence :: rat
  bm_Approach :: string
  bm_ManifestRevision :: int

record ReputationEntry =
  rp_ID :: id64
  rp_AgentName :: string
  rp_Domain :: string
  rp_TaskID :: id64
  rp_EstimatedTokens :: int
  rp_ActualTokens :: int
  rp_SuccessScore :: rat
  rp_DifficultyWeight :: rat
  rp_CompletedAt :: timestamp

record ReputationSummary =
  ru_AgentName :: string
  ru_Domain :: string
  ru_TasksCompleted :: nat
  ru_AvgSuccessScore :: rat
  ru_WeightedSuccessScore :: rat
  ru_AvgEstimatedTokens :: int
  ru_AvgActualTokens :: int

record market_codec =
  kc_TaskText :: "AuctionTaskMeta \<Rightarrow> string option"
  kc_TaskMeta :: "string \<Rightarrow> AuctionTaskMeta"
  kc_BidText :: "BidMeta \<Rightarrow> string option"
  kc_BidMeta :: "string \<Rightarrow> BidMeta"

record market =
  mw_au :: au_db
  mw_ch :: ch_db
  mw_wiki :: wiki_db
  mw_msg :: msg_db
  mw_agents :: "string list"
  mw_rep :: "ReputationEntry list"
  mw_rep_seq :: id64

datatype market_error =
    MetaNotWritten
  | SwarmFailed au_error
  | NoWinner id64
  | AgentRequired
  | DomainRequired
  | MarketStatementFailed
  | MarketArgument string
  | MarketChannel ch_error
  | MarketWiki wiki_error

datatype market_stmt =
    KSwarm au_stmt | KLoad au_stmt | KRecord nat | KSummary | KEntries | KChannel ch_stmt | KWiki wiki_stmt | KSend msg_stmt

section \<open>The ledger\<close>

text \<open>The weight of an entry is filled in in place, so the caller sees it too.\<close>

definition filled_entry :: "ReputationEntry \<Rightarrow> ReputationEntry" where
  "filled_entry e = (if rp_DifficultyWeight e = 0 then e\<lparr>rp_DifficultyWeight := 1\<rparr> else e)"

definition RecordEntry ::
  "bool \<Rightarrow> timestamp \<Rightarrow> ReputationEntry \<Rightarrow> market \<Rightarrow> (market_error + ReputationEntry) \<times> market" where
  "RecordEntry failed now e w =
     (if rp_AgentName e = '''' then (Inl AgentRequired, w)
      else if rp_Domain e = '''' then (Inl DomainRequired, w)
      else if failed then (Inl MarketStatementFailed, w)
      else let i = mw_rep_seq w + 1
        in (Inr ((filled_entry e)\<lparr>rp_ID := i\<rparr>),
            w\<lparr>mw_rep := mw_rep w @ [(filled_entry e)\<lparr>rp_ID := i, rp_CompletedAt := now,
                 rp_TaskID := (if 0 < rp_TaskID e then rp_TaskID e else 0)\<rparr>], mw_rep_seq := i\<rparr>))"

definition ListEntries :: "bool \<Rightarrow> string \<Rightarrow> string \<Rightarrow> int \<Rightarrow> market \<Rightarrow> market_error + ReputationEntry list" where
  "ListEntries failed agent domain limit w =
     (if agent = '''' then Inl AgentRequired
      else let n = (if limit \<le> 0 \<or> 500 < limit then 100 else limit)
        in if failed then Inl MarketStatementFailed
           else Inr (limit_offset n 0 (sort_key (\<lambda>e. - rp_CompletedAt e)
                  (filter (\<lambda>e. rp_AgentName e = agent \<and> (domain = '''' \<or> rp_Domain e = domain)) (mw_rep w)))))"

text \<open>Conversion of a quotient to an integer cuts towards zero.\<close>

definition trunc_div :: "int \<Rightarrow> nat \<Rightarrow> int" where
  "trunc_div s n = (if 0 \<le> s then s div int n else - (- s div int n))"

definition rep_sum :: "(ReputationEntry \<Rightarrow> rat) \<Rightarrow> ReputationEntry list \<Rightarrow> rat" where
  "rep_sum f es = sum_list (map f es)"

definition rep_Summary :: "bool \<Rightarrow> string \<Rightarrow> string \<Rightarrow> market \<Rightarrow> market_error + ReputationSummary" where
  "rep_Summary failed agent domain w =
     (if agent = '''' then Inl AgentRequired
      else if domain = '''' then Inl DomainRequired
      else if failed then Inl MarketStatementFailed
      else let es = filter (\<lambda>e. rp_AgentName e = agent \<and> rp_Domain e = domain) (mw_rep w);
               weights = rep_sum rp_DifficultyWeight es
        in Inr (if es = []
             then \<lparr>ru_AgentName = agent, ru_Domain = domain, ru_TasksCompleted = 0, ru_AvgSuccessScore = 0,
               ru_WeightedSuccessScore = 0, ru_AvgEstimatedTokens = 0, ru_AvgActualTokens = 0\<rparr>
             else \<lparr>ru_AgentName = agent, ru_Domain = domain, ru_TasksCompleted = length es,
               ru_AvgSuccessScore = rep_sum rp_SuccessScore es / of_nat (length es),
               ru_WeightedSuccessScore = (if 0 < weights then rep_sum (\<lambda>e. rp_SuccessScore e * rp_DifficultyWeight e) es / weights else 0),
               ru_AvgEstimatedTokens = trunc_div (sum_list (map rp_EstimatedTokens es)) (length es),
               ru_AvgActualTokens = trunc_div (sum_list (map rp_ActualTokens es)) (length es)\<rparr>))"

definition QueryReputation ::
  "(market_stmt \<Rightarrow> bool) \<Rightarrow> string \<Rightarrow> string \<Rightarrow> int \<Rightarrow> market \<Rightarrow> market_error + ReputationSummary \<times> ReputationEntry list" where
  "QueryReputation flt agent domain limit w =
     (case rep_Summary (flt KSummary) agent domain w of
        Inl e \<Rightarrow> Inl e
      | Inr s \<Rightarrow> (case ListEntries (flt KEntries) agent domain limit w of Inl e \<Rightarrow> Inl e | Inr es \<Rightarrow> Inr (s, es)))"

section \<open>Skill cards\<close>

definition SkillCardSlug :: "string \<Rightarrow> string" where
  "SkillCardSlug agentName =
     ''agent-'' @ map (\<lambda>c. if c = CHR ''_'' then CHR ''-'' else c) (to_lower (trim_space agentName))"

definition ReadSkillCard :: "(market_stmt \<Rightarrow> bool) \<Rightarrow> string \<Rightarrow> market \<Rightarrow> market_error + ArticleView option" where
  "ReadSkillCard flt agentName w =
     (case GetArticle (\<lambda>st. flt (KWiki st)) (SkillCardSlug agentName) (mw_wiki w) of
        Inr art \<Rightarrow> Inr (Some art)
      | Inl e \<Rightarrow> (case e of ArticleNotFound _ \<Rightarrow> Inr None | _ \<Rightarrow> Inl (MarketWiki e)))"

section \<open>Auctions\<close>

definition market_trace :: "string \<Rightarrow> string \<Rightarrow> market \<Rightarrow> market" where
  "market_trace agent action w = w\<lparr>mw_au := au_trace agent action (mw_au w)\<rparr>"

definition PostAuction ::
  "(market_stmt \<Rightarrow> bool) \<Rightarrow> market_codec \<Rightarrow> int \<Rightarrow> id64 \<Rightarrow> string \<Rightarrow> string \<Rightarrow> string \<Rightarrow> AuctionTaskMeta \<Rightarrow> int option \<Rightarrow> market \<Rightarrow>
   (market_error + AuctionTask) \<times> market" where
  "PostAuction flt kc nowns channelID agentName title description meta deadline w =
     (let meta' = (if am_DifficultyWeight meta = 0 then meta\<lparr>am_DifficultyWeight := 1\<rparr> else meta)
      in case kc_TaskText kc meta' of
           None \<Rightarrow> (Inl MetaNotWritten, w)
         | Some reqs \<Rightarrow>
             (case PostTask (\<lambda>st. flt (KSwarm st)) nowns (mw_ch w) channelID agentName title description reqs deadline (mw_au w) of
                (Inl e, db) \<Rightarrow> (Inl (SwarmFailed e), w\<lparr>mw_au := db\<rparr>)
              | (Inr t, db) \<Rightarrow> (Inr t, market_trace agentName ''marketplace.auction_posted'' (w\<lparr>mw_au := db\<rparr>))))"

definition market_Bid ::
  "(market_stmt \<Rightarrow> bool) \<Rightarrow> market_codec \<Rightarrow> timestamp \<Rightarrow> id64 \<Rightarrow> string \<Rightarrow> BidMeta \<Rightarrow> string \<Rightarrow> market \<Rightarrow>
   (market_error + Bid) \<times> market" where
  "market_Bid flt kc now taskID agentName meta timeEstimate w =
     (case kc_BidText kc meta of
        None \<Rightarrow> (Inl MetaNotWritten, w)
      | Some caps \<Rightarrow>
          (case BidOnTask (\<lambda>st. flt (KSwarm st)) now (mw_ch w) taskID agentName caps timeEstimate (bm_Approach meta) (mw_au w) of
             (Inl e, db) \<Rightarrow> (Inl (SwarmFailed e), w\<lparr>mw_au := db\<rparr>)
           | (Inr b, db) \<Rightarrow> (Inr b, market_trace agentName ''marketplace.bid_submitted'' (w\<lparr>mw_au := db\<rparr>))))"

text \<open>\<open>strconv.Quote\<close> of an ASCII text, which \<open>%q\<close> writes.\<close>

definition quote_char :: "char \<Rightarrow> string" where
  "quote_char c =
     (let n = of_char c :: nat
      in if n = 0x22 \<or> n = 0x5C then [CHR 0x5C, c]
         else if 0x20 \<le> n \<and> n < 0x7F then [c]
         else case map_of [(7, CHR ''a''), (8, CHR ''b''), (12, CHR ''f''), (10, CHR ''n''), (13, CHR ''r''), (9, CHR ''t''), (11, CHR ''v'')] n of
                Some x \<Rightarrow> [CHR 0x5C, x]
              | None \<Rightarrow> CHR 0x5C # CHR ''x'' # [hex_digit (n div 16), hex_digit (n mod 16)])"

definition go_quote :: "string \<Rightarrow> string" where
  "go_quote s = CHR 0x22 # concat (map quote_char s) @ [CHR 0x22]"

definition award_meta :: "id64 \<Rightarrow> id64 \<Rightarrow> id64 \<Rightarrow> string \<Rightarrow> raw_json" where
  "award_meta taskID bidID channelID awarder =
     RValid (JObj [(''awarded_by'', JStr awarder), (''bid_id'', JNum bidID), (''channel_id'', JNum channelID),
       (''marketplace'', JStr ''awarded''), (''task_id'', JNum taskID)])"

definition award_opts :: "AuctionTask \<Rightarrow> id64 \<Rightarrow> id64 \<Rightarrow> string \<Rightarrow> SendOptions" where
  "award_opts t taskID bidID awarder =
     \<lparr>so_Subject = ''Awarded: '' @ at_Title t, so_Priority = 8, so_Metadata = award_meta taskID bidID (at_ChannelID t) awarder,
      so_ChannelID = None, so_ConversationID = None, so_ReplyTo = None, so_Attachments = []\<rparr>"

definition award_body :: "AuctionTask \<Rightarrow> string" where
  "award_body t = ''Auction awarded: task '' @ show_int (at_ID t) @ '' '' @ [CHR 0xE2, CHR 0x80, CHR 0x94] @ '' '' @ go_quote (at_Title t) @
     ''. Use mark_task_done to complete.''"

definition award_winner :: "AuctionTask \<Rightarrow> Bid list \<Rightarrow> id64 \<Rightarrow> string" where
  "award_winner t bids bidID =
     (if at_AssignedTo t \<noteq> '''' then at_AssignedTo t
      else case find_row (\<lambda>b. bd_ID b = bidID) bids of None \<Rightarrow> '''' | Some b \<Rightarrow> bd_AgentName b)"

definition Award ::
  "(market_stmt \<Rightarrow> bool) \<Rightarrow> msg_service \<Rightarrow> timestamp \<Rightarrow> id64 \<Rightarrow> id64 \<Rightarrow> string \<Rightarrow> market \<Rightarrow>
   (market_error + string \<times> id64) \<times> msg_effect list \<times> market" where
  "Award flt svc now taskID bidID awarder w =
     (case AcceptBid (\<lambda>st. flt (KSwarm st)) now taskID bidID awarder (mw_au w) of
        (Inl e, db) \<Rightarrow> (Inl (SwarmFailed e), [], w\<lparr>mw_au := db\<rparr>)
      | (Inr _, db) \<Rightarrow>
          (case GetTaskWithBids (\<lambda>st. flt (KLoad st)) taskID db of
             Inl e \<Rightarrow> (Inl (SwarmFailed e), [], w\<lparr>mw_au := db\<rparr>)
           | Inr (t, bids) \<Rightarrow>
               (let winner = award_winner t bids bidID
                in if winner = '''' then (Inl (NoWinner taskID), [], w\<lparr>mw_au := db\<rparr>)
                   else case SendMessage svc (env_of (mw_agents w) (mw_ch w) (\<lambda>st. flt (KSend st))) now awarder winner (award_body t)
                               (award_opts t taskID bidID awarder) (mw_msg w) of
                          (r, eff, mdb) \<Rightarrow>
                            (Inr (winner, case r of Inl _ \<Rightarrow> 0 | Inr m \<Rightarrow> msg_ID m), eff,
                             market_trace awarder ''marketplace.auction_awarded'' (w\<lparr>mw_au := db, mw_msg := mdb\<rparr>)))))"

section \<open>Completion\<close>

definition clamp_score :: "rat \<Rightarrow> rat" where
  "clamp_score s = (let s1 = (if s < 0 then 0 else s) in if 1 < s1 then 1 else s1)"

definition zero_meta :: AuctionTaskMeta where
  "zero_meta = \<lparr>am_AcceptanceCriteria = '''', am_MaxBudgetTokens = 0, am_Domains = [], am_DifficultyWeight = 0, am_CurrentSpendTokens = 0\<rparr>"

definition task_meta :: "market_codec \<Rightarrow> AuctionTask \<Rightarrow> AuctionTaskMeta" where
  "task_meta kc t =
     (let meta = (if at_Requirements t = '''' then zero_meta else kc_TaskMeta kc (at_Requirements t))
      in if am_DifficultyWeight meta = 0 then meta\<lparr>am_DifficultyWeight := 1\<rparr> else meta)"

definition estimate_of :: "market_codec \<Rightarrow> Bid list \<Rightarrow> int" where
  "estimate_of kc bids =
     (case find_row (\<lambda>b. bd_Status b = BAccepted) bids of
        None \<Rightarrow> 0
      | Some b \<Rightarrow> if bd_Capabilities b = '''' then 0 else bm_EstimatedTokens (kc_BidMeta kc (bd_Capabilities b)))"

definition domains_of :: "market_codec \<Rightarrow> AuctionTask \<Rightarrow> string list" where
  "domains_of kc t = (let ds = am_Domains (task_meta kc t) in if ds = [] then [''general''] else ds)"

fun record_all ::
  "(nat \<Rightarrow> bool) \<Rightarrow> timestamp \<Rightarrow> (string \<Rightarrow> ReputationEntry) \<Rightarrow> nat \<Rightarrow> string list \<Rightarrow> market \<Rightarrow>
   (market_error + ReputationEntry list) \<times> market" where
  "record_all failed now entry k [] w = (Inr [], w)"
| "record_all failed now entry k (d # ds) w =
     (case RecordEntry (failed k) now (entry d) w of
        (Inl e, w1) \<Rightarrow> (Inl e, w1)
      | (Inr en, w1) \<Rightarrow>
          (case record_all failed now entry (k + 1) ds w1 of
             (Inl e, w2) \<Rightarrow> (Inl e, w2) | (Inr ens, w2) \<Rightarrow> (Inr (en # ens), w2)))"

definition done_entry :: "market_codec \<Rightarrow> AuctionTask \<Rightarrow> Bid list \<Rightarrow> id64 \<Rightarrow> string \<Rightarrow> int \<Rightarrow> rat \<Rightarrow> string \<Rightarrow> ReputationEntry" where
  "done_entry kc t bids taskID agentName actualTokens score d =
     \<lparr>rp_ID = 0, rp_AgentName = agentName, rp_Domain = d, rp_TaskID = taskID, rp_EstimatedTokens = estimate_of kc bids,
      rp_ActualTokens = actualTokens, rp_SuccessScore = score, rp_DifficultyWeight = am_DifficultyWeight (task_meta kc t),
      rp_CompletedAt = 0\<rparr>"

definition MarkTaskDone ::
  "(market_stmt \<Rightarrow> bool) \<Rightarrow> market_codec \<Rightarrow> timestamp \<Rightarrow> id64 \<Rightarrow> string \<Rightarrow> int \<Rightarrow> rat \<Rightarrow> market \<Rightarrow>
   (market_error + AuctionTask \<times> ReputationEntry list) \<times> market" where
  "MarkTaskDone flt kc now taskID agentName actualTokens successScore w =
     (case GetTaskWithBids (\<lambda>st. flt (KLoad st)) taskID (mw_au w) of
        Inl e \<Rightarrow> (Inl (SwarmFailed e), w)
      | Inr (t, bids) \<Rightarrow>
          (case CompleteTask (\<lambda>st. flt (KSwarm st)) now taskID agentName (mw_au w) of
             (Inl e, db) \<Rightarrow> (Inl (SwarmFailed e), w\<lparr>mw_au := db\<rparr>)
           | (Inr _, db) \<Rightarrow>
               (case record_all (\<lambda>k. flt (KRecord k)) now (done_entry kc t bids taskID agentName actualTokens (clamp_score successScore)) 0
                       (domains_of kc t) (w\<lparr>mw_au := db\<rparr>) of
                  (Inl e, w') \<Rightarrow> (Inl e, w')
                | (Inr entries, w') \<Rightarrow>
                    (Inr (t\<lparr>at_Status := ACompleted\<rparr>, entries), market_trace agentName ''marketplace.task_done'' w'))))"

section \<open>Actions\<close>

text \<open>An argument that is absent, a text, a list (\<open>None\<close> for an item that is no text) or anything else.\<close>

datatype list_arg = ArgAbsent | ArgText string | ArgList "string option list" | ArgOther

text \<open>\<open>unmarshal\<close> is what \<open>json.Unmarshal\<close> into a list of texts gives.\<close>

definition kept_texts :: "string list \<Rightarrow> string list" where
  "kept_texts xs = filter (\<lambda>x. x \<noteq> '''') (map trim_space xs)"

definition parseStringList :: "(string \<Rightarrow> string list option) \<Rightarrow> list_arg \<Rightarrow> string list" where
  "parseStringList unmarshal v =
     (case v of
        ArgAbsent \<Rightarrow> []
      | ArgOther \<Rightarrow> []
      | ArgList xs \<Rightarrow> kept_texts (map the (filter (\<lambda>x. x \<noteq> None) xs))
      | ArgText x \<Rightarrow>
          (let s = trim_space x
           in if s = '''' then []
              else case (if hd s = CHR ''['' then unmarshal s else None) of
                     Some arr \<Rightarrow> kept_texts arr
                   | None \<Rightarrow> kept_texts (split_on (CHR '','') s)))"

definition callPostAuction ::
  "(market_stmt \<Rightarrow> bool) \<Rightarrow> market_codec \<Rightarrow> (string \<Rightarrow> string list option) \<Rightarrow> (string \<Rightarrow> int option) \<Rightarrow> int \<Rightarrow> string \<Rightarrow>
   string \<Rightarrow> string \<Rightarrow> string \<Rightarrow> string \<Rightarrow> int \<Rightarrow> rat \<Rightarrow> list_arg \<Rightarrow> string \<Rightarrow> market \<Rightarrow> (market_error + AuctionTask) \<times> market" where
  "callPostAuction flt kc unmarshal parse_time nowns agentName channelName title description acceptance maxBudget difficulty domains deadline w =
     (if channelName = '''' then (Inl (MarketArgument ''channel_name''), w)
      else if title = '''' then (Inl (MarketArgument ''title''), w)
      else if deadline \<noteq> '''' \<and> parse_time deadline = None then (Inl (MarketArgument ''deadline''), w)
      else case GetChannelByName (\<lambda>st. flt (KChannel st)) channelName (mw_ch w) of
             Inl e \<Rightarrow> (Inl (MarketChannel e), w)
           | Inr ch \<Rightarrow>
               PostAuction flt kc nowns (chn_ID ch) agentName title description
                 \<lparr>am_AcceptanceCriteria = acceptance, am_MaxBudgetTokens = maxBudget, am_Domains = parseStringList unmarshal domains,
                  am_DifficultyWeight = difficulty, am_CurrentSpendTokens = 0\<rparr>
                 (if deadline = '''' then None else parse_time deadline) w)"

definition callBid ::
  "(market_stmt \<Rightarrow> bool) \<Rightarrow> market_codec \<Rightarrow> timestamp \<Rightarrow> string \<Rightarrow> id64 \<Rightarrow> BidMeta \<Rightarrow> string \<Rightarrow> market \<Rightarrow> (market_error + Bid) \<times> market" where
  "callBid flt kc now agentName taskID meta timeEstimate w =
     (if taskID = 0 then (Inl (MarketArgument ''task_id''), w) else market_Bid flt kc now taskID agentName meta timeEstimate w)"

definition callAward ::
  "(market_stmt \<Rightarrow> bool) \<Rightarrow> msg_service \<Rightarrow> timestamp \<Rightarrow> string \<Rightarrow> id64 \<Rightarrow> id64 \<Rightarrow> market \<Rightarrow>
   (market_error + string \<times> id64) \<times> msg_effect list \<times> market" where
  "callAward flt svc now agentName taskID bidID w =
     (if taskID = 0 then (Inl (MarketArgument ''task_id''), [], w)
      else if bidID = 0 then (Inl (MarketArgument ''bid_id''), [], w)
      else Award flt svc now taskID bidID agentName w)"

definition callMarkTaskDone ::
  "(market_stmt \<Rightarrow> bool) \<Rightarrow> market_codec \<Rightarrow> timestamp \<Rightarrow> string \<Rightarrow> id64 \<Rightarrow> int \<Rightarrow> rat \<Rightarrow> market \<Rightarrow>
   (market_error + AuctionTask \<times> ReputationEntry list) \<times> market" where
  "callMarkTaskDone flt kc now agentName taskID actualTokens successScore w =
     (if taskID = 0 then (Inl (MarketArgument ''task_id''), w)
      else MarkTaskDone flt kc now taskID agentName actualTokens successScore w)"

definition callReadSkillCard :: "(market_stmt \<Rightarrow> bool) \<Rightarrow> string \<Rightarrow> string \<Rightarrow> market \<Rightarrow> market_error + ArticleView option" where
  "callReadSkillCard flt self agentName w = ReadSkillCard flt (if agentName = '''' then self else agentName) w"

definition callQueryReputation ::
  "(market_stmt \<Rightarrow> bool) \<Rightarrow> string \<Rightarrow> string \<Rightarrow> string \<Rightarrow> int \<Rightarrow> market \<Rightarrow> market_error + ReputationSummary \<times> ReputationEntry list" where
  "callQueryReputation flt self agentName domain limit w =
     (if domain = '''' then Inl (MarketArgument ''domain'')
      else QueryReputation flt (if agentName = '''' then self else agentName) domain limit w)"

section \<open>Invariant and history\<close>

text \<open>Reputation is earned: the agent was given the task by a bid and completed it, and the task declares the domain.\<close>

definition earned :: "market_codec \<Rightarrow> au_db \<Rightarrow> ReputationEntry \<Rightarrow> bool" where
  "earned kc db e \<longleftrightarrow>
     (\<exists>t \<in> set (ad_tasks db). at_ID t = rp_TaskID e \<and> at_Status t = ACompleted \<and> at_AssignedTo t = rp_AgentName e \<and>
        rp_Domain e \<in> set (domains_of kc t) \<and> rp_DifficultyWeight e = am_DifficultyWeight (task_meta kc t)) \<and>
     rp_AgentName e \<noteq> '''' \<and> rp_Domain e \<noteq> '''' \<and> 0 \<le> rp_SuccessScore e \<and> rp_SuccessScore e \<le> 1"

definition market_inv :: "market_codec \<Rightarrow> market \<Rightarrow> bool" where
  "market_inv kc w \<longleftrightarrow> au_inv (mw_au w) \<and> msg_inv (mw_msg w) \<and> ids_ok rp_ID (mw_rep_seq w) (mw_rep w) \<and>
     (\<forall>e \<in> set (mw_rep w). earned kc (mw_au w) e)"

definition market_later :: "market \<Rightarrow> market \<Rightarrow> bool" where
  "market_later w w' \<longleftrightarrow> au_later (mw_au w) (mw_au w') \<and> (\<exists>new. mw_rep w' = mw_rep w @ new)"

datatype market_op =
    KtPost "market_stmt \<Rightarrow> bool" "string \<Rightarrow> string list option" "string \<Rightarrow> int option" int string string string string string int rat list_arg string
  | KtBid "market_stmt \<Rightarrow> bool" timestamp string id64 BidMeta string
  | KtAward "market_stmt \<Rightarrow> bool" msg_service timestamp string id64 id64
  | KtDone "market_stmt \<Rightarrow> bool" timestamp string id64 int rat
  | KtSwarm "(au_stmt \<Rightarrow> bool) \<times> au_op"
  | KtRest ch_db wiki_db "string list" msg_op

fun market_exec :: "market_codec \<Rightarrow> market_op \<Rightarrow> market \<Rightarrow> market" where
  "market_exec kc (KtPost flt um pt now a c ti de ac mb df ds dl) w = snd (callPostAuction flt kc um pt now a c ti de ac mb df ds dl w)"
| "market_exec kc (KtBid flt now a i meta te) w = snd (callBid flt kc now a i meta te w)"
| "market_exec kc (KtAward flt svc now a i b) w = snd (snd (callAward flt svc now a i b w))"
| "market_exec kc (KtDone flt now a i n s) w = snd (callMarkTaskDone flt kc now a i n s w)"
| "market_exec kc (KtSwarm op) w = w\<lparr>mw_au := au_exec op (mw_au w)\<rparr>"
| "market_exec kc (KtRest ch wiki agents op) w = w\<lparr>mw_ch := ch, mw_wiki := wiki, mw_agents := agents, mw_msg := msg_exec op (mw_msg w)\<rparr>"

lemma market_later_refl: "market_later w w"
  by (simp add: market_later_def)

lemma market_later_trans: "market_later a b \<Longrightarrow> market_later b c \<Longrightarrow> market_later a c"
  unfolding market_later_def using au_later_trans by (metis append.assoc)

lemma task_meta_same: "at_Requirements t' = at_Requirements t \<Longrightarrow> task_meta kc t' = task_meta kc t"
  by (simp add: task_meta_def)

text \<open>What was earned stays earned: a completed task keeps status, assignee and requirements.\<close>

lemma earned_later:
  assumes "earned kc db e" "au_later db db'" shows "earned kc db' e"
proof -
  from assms(1) obtain t where t: "t \<in> set (ad_tasks db)" "at_ID t = rp_TaskID e" "at_Status t = ACompleted" "at_AssignedTo t = rp_AgentName e"
    "rp_Domain e \<in> set (domains_of kc t)" "rp_DifficultyWeight e = am_DifficultyWeight (task_meta kc t)" by (auto simp: earned_def)
  from assms(2) t(1) obtain t' where t': "t' \<in> set (ad_tasks db')" "auction_later t t'" by (auto simp: au_later_def)
  have stays: "au_legal\<^sup>*\<^sup>* a b \<Longrightarrow> a = ACompleted \<Longrightarrow> b = ACompleted" for a b
  proof (induction rule: rtranclp_induct)
    case (step x y)
    then have "x = ACompleted" "au_legal x y" by simp_all
    then show ?case by (cases y) simp_all
  qed simp
  have f: "at_ID t' = at_ID t" "at_Status t' = ACompleted" "at_AssignedTo t' = at_AssignedTo t" "at_Requirements t' = at_Requirements t"
    using t'(2) t(3) stays [of "at_Status t" "at_Status t'"] by (simp_all add: auction_later_def fixed_part_def given_def)
  have m: "task_meta kc t' = task_meta kc t" using f(4) by (rule task_meta_same)
  then have "domains_of kc t' = domains_of kc t" by (simp add: domains_of_def)
  moreover note m
  ultimately show ?thesis using assms(1) t t'(1) f by (auto simp: earned_def intro!: bexI [of _ t'])
qed

lemma au_step:
  assumes "market_inv kc w" "au_inv db" "au_later (mw_au w) db"
  shows "market_inv kc (w\<lparr>mw_au := db\<rparr>) \<and> market_later w (w\<lparr>mw_au := db\<rparr>)"
  using assms by (auto simp: market_inv_def market_later_def intro: earned_later)

lemma au_exec_market:
  assumes "market_inv kc w"
  shows "market_inv kc (w\<lparr>mw_au := au_exec op (mw_au w)\<rparr>) \<and> market_later w (w\<lparr>mw_au := au_exec op (mw_au w)\<rparr>)"
  using assms by (intro au_step) (auto simp: market_inv_def intro: au_exec_inv au_exec_later)

lemma au_trace_tasks [simp]: "ad_tasks (au_trace a t db) = ad_tasks db" "ad_bids (au_trace a t db) = ad_bids db"
  by (simp_all add: au_trace_def)

lemma market_trace_ok:
  "market_inv kc w \<Longrightarrow> market_inv kc (market_trace a t w) \<and> market_later w (market_trace a t w)"
  unfolding market_trace_def by (rule au_step) (auto simp: market_inv_def au_trace_inv)

lemma market_trace_step:
  "market_inv kc w' \<and> market_later w w' \<Longrightarrow> market_inv kc (market_trace a t w') \<and> market_later w (market_trace a t w')"
  using market_trace_ok [of kc w'] market_later_trans by blast

lemma callPostAuction_step:
  assumes inv: "market_inv kc w"
  shows "market_inv kc (snd (callPostAuction flt kc um pt now a c ti de ac mb df ds dl w)) \<and>
    market_later w (snd (callPostAuction flt kc um pt now a c ti de ac mb df ds dl w))"
proof -
  have "market_inv kc (snd (PostAuction flt kc now i a ti de meta d w)) \<and> market_later w (snd (PostAuction flt kc now i a ti de meta d w))"
    for i meta d
  proof (cases "kc_TaskText kc (if am_DifficultyWeight meta = 0 then meta\<lparr>am_DifficultyWeight := 1\<rparr> else meta)")
    case None
    with inv show ?thesis by (simp add: PostAuction_def Let_def market_later_refl)
  next
    case (Some reqs)
    let ?post = "PostTask (\<lambda>st. flt (KSwarm st)) now (mw_ch w) i a ti de reqs d (mw_au w)"
    have "market_inv kc (w\<lparr>mw_au := snd ?post\<rparr>) \<and> market_later w (w\<lparr>mw_au := snd ?post\<rparr>)"
      using au_exec_market [OF inv, of "(\<lambda>st. flt (KSwarm st), OPostTask now (mw_ch w) i a ti de reqs d)"] by simp
    from this market_trace_step [OF this, of a "''marketplace.auction_posted''"] Some show ?thesis
      by (cases ?post; cases "fst ?post") (simp_all add: PostAuction_def Let_def)
  qed
  with inv show ?thesis by (auto simp: callPostAuction_def market_later_refl split: sum.split)
qed

lemma callBid_step:
  assumes inv: "market_inv kc w"
  shows "market_inv kc (snd (callBid flt kc now a i meta te w)) \<and> market_later w (snd (callBid flt kc now a i meta te w))"
proof (cases "kc_BidText kc meta")
  case None
  with inv show ?thesis by (simp add: callBid_def market_Bid_def market_later_refl)
next
  case (Some caps)
  let ?bid = "BidOnTask (\<lambda>st. flt (KSwarm st)) now (mw_ch w) i a caps te (bm_Approach meta) (mw_au w)"
  have "market_inv kc (w\<lparr>mw_au := snd ?bid\<rparr>) \<and> market_later w (w\<lparr>mw_au := snd ?bid\<rparr>)"
    using au_exec_market [OF inv, of "(\<lambda>st. flt (KSwarm st), OBidOnTask now (mw_ch w) i a caps te (bm_Approach meta))"] by simp
  from this market_trace_step [OF this, of a "''marketplace.bid_submitted''"] Some inv show ?thesis
    by (cases ?bid; cases "fst ?bid") (simp_all add: callBid_def market_Bid_def market_later_refl)
qed

text \<open>What completing a task says about it.\<close>

lemma CompleteTask_Inr:
  assumes inv: "au_inv db" and get: "get_task f i db = Inr t" and c: "CompleteTask flt now i a db = (Inr u, db')"
  shows "at_AssignedTo t = a \<and> given (at_Status t) \<and>
    (\<exists>t' \<in> set (ad_tasks db'). at_ID t' = i \<and> at_Status t' = ACompleted \<and> at_AssignedTo t' = a \<and> at_Requirements t' = at_Requirements t)"
proof -
  note t = get_task_Inr [OF get]
  have same: "get_task g i db = Inr t' \<Longrightarrow> t' = t" for g t'
    using get by (auto simp: get_task_def split: if_splits)
  obtain t1 where t1: "get_task (flt AGetTask) i db = Inr t1" using c by (auto simp: CompleteTask_def split: sum.splits)
  then have g: "get_task (flt AGetTask) i db = Inr t" using same by blast
  show ?thesis
  proof (cases "at_Status t = ACompleted \<and> at_AssignedTo t = a")
    case True
    with c g have "db' = db" by (simp add: CompleteTask_def)
    with True t show ?thesis by (auto simp: given_def)
  next
    case False
    with c g have s: "at_Status t = AAssigned" "at_AssignedTo t = a" "\<not> flt AUpdateTask"
      "ad_tasks db' = update_where (\<lambda>t. at_ID t = i) (set_status now ACompleted '''') (ad_tasks db)"
      by (auto simp: CompleteTask_def UpdateTaskStatus_def Let_def split: if_splits sum.splits prod.splits)
    have "set_status now ACompleted '''' t \<in> set (ad_tasks db')" using t s(4) updated_row_hit [of t "ad_tasks db" "\<lambda>t. at_ID t = i"] by simp
    then show ?thesis using s t by (intro conjI bexI [of _ "set_status now ACompleted '''' t"]) (simp_all add: set_status_def given_def)
  qed
qed

text \<open>The entries of one completion: one per domain, with ids in order.\<close>

lemma RecordEntry_Inr:
  "RecordEntry f now e w = (r, w') \<Longrightarrow> mw_au w' = mw_au w \<and> mw_msg w' = mw_msg w \<and>
     (r \<noteq> Inr en \<and> isl r \<and> w' = w \<or>
      \<not> isl r \<and> rp_AgentName e \<noteq> '''' \<and> rp_Domain e \<noteq> '''' \<and> mw_rep_seq w' = mw_rep_seq w + 1 \<and>
      mw_rep w' = mw_rep w @ [(filled_entry e)\<lparr>rp_ID := mw_rep_seq w + 1, rp_CompletedAt := now,
        rp_TaskID := (if 0 < rp_TaskID e then rp_TaskID e else 0)\<rparr>])"
  by (auto simp: RecordEntry_def Let_def split: if_splits)

lemma RecordEntry_step:
  assumes inv: "market_inv kc w" and ok: "\<And>i s. rp_AgentName e \<noteq> '''' \<Longrightarrow> rp_Domain e \<noteq> '''' \<Longrightarrow>
      earned kc (mw_au w) ((filled_entry e)\<lparr>rp_ID := i, rp_CompletedAt := s, rp_TaskID := (if 0 < rp_TaskID e then rp_TaskID e else 0)\<rparr>)"
    and r: "RecordEntry f now e w = (r, w')"
  shows "market_inv kc w' \<and> market_later w w'"
proof (cases "isl r")
  case True
  with RecordEntry_Inr [OF r] inv show ?thesis by (auto simp: market_later_refl)
next
  case False
  with RecordEntry_Inr [OF r, of e] ok have n: "mw_au w' = mw_au w" "mw_msg w' = mw_msg w" "mw_rep_seq w' = mw_rep_seq w + 1"
    "\<exists>x. mw_rep w' = mw_rep w @ [x] \<and> rp_ID x = mw_rep_seq w + 1 \<and> earned kc (mw_au w) x" by auto
  with inv show ?thesis by (auto simp: market_inv_def market_later_def intro: ids_ok_append)
qed

lemma callAward_step:
  assumes inv: "market_inv kc w"
  shows "market_inv kc (snd (snd (callAward flt svc now a i b w))) \<and> market_later w (snd (snd (callAward flt svc now a i b w)))"
proof -
  let ?acc = "AcceptBid (\<lambda>st. flt (KSwarm st)) now i b a (mw_au w)"
  have acc: "market_inv kc (w\<lparr>mw_au := snd ?acc\<rparr>) \<and> market_later w (w\<lparr>mw_au := snd ?acc\<rparr>)"
    using au_exec_market [OF inv, of "(\<lambda>st. flt (KSwarm st), OAcceptBid now i b a)"] by simp
  have send: "market_inv kc (w\<lparr>mw_au := snd ?acc, mw_msg := mdb\<rparr>) \<and> market_later w (w\<lparr>mw_au := snd ?acc, mw_msg := mdb\<rparr>)"
    if "msg_inv mdb" for mdb using acc that by (simp add: market_inv_def market_later_def)
  have msg: "msg_inv (mw_msg w)" using inv by (simp add: market_inv_def)
  have "market_inv kc (snd (snd (Award flt svc now i b a w))) \<and> market_later w (snd (snd (Award flt svc now i b a w)))"
  proof (cases ?acc)
    case (Pair r db)
    note send' = market_trace_step [OF send [unfolded Pair snd_conv]]
    have mdb: "msg_inv mdb" if "SendMessage svc env now f t body opts (mw_msg w) = (x, eff, mdb)" for env f t body opts x eff mdb
      using SendMessage_inv [OF msg, of svc env now f t body opts] that by simp
    from acc Pair show ?thesis
      by (cases r) (auto simp: Award_def Let_def split: sum.split prod.split dest!: mdb send' [where t = "''marketplace.auction_awarded''"])
  qed
  with inv show ?thesis by (simp add: callAward_def market_later_refl)
qed

lemma completed_bid:
  assumes "au_inv db" "t \<in> set (ad_tasks db)" "at_Status t = ACompleted"
  shows "\<exists>b \<in> set (ad_bids db). bd_TaskID b = at_ID t \<and> bd_AgentName b = at_AssignedTo t \<and> at_PostedBy t \<noteq> at_AssignedTo t"
proof -
  from assms have "(at_ID t, at_AssignedTo t) \<in> set (map bid_pair (ad_bids db))" by (auto simp: au_inv_def task_ok_def given_def)
  then obtain b where b: "b \<in> set (ad_bids db)" "bd_TaskID b = at_ID t" "bd_AgentName b = at_AssignedTo t" by (auto simp: bid_pair_def)
  with assms(1) obtain u where "u \<in> set (ad_tasks db)" "at_ID u = bd_TaskID b" "bid_ok u b" by (auto simp: au_inv_def)
  moreover then have "u = t" using au_task_unique [OF assms(1), of u t] assms(2) b(2) by simp
  ultimately show ?thesis using b by (auto simp: bid_ok_def)
qed

lemma record_all_step:
  assumes "market_inv kc w"
    and "\<And>d en. d \<in> set ds \<Longrightarrow> rp_AgentName (entry d) \<noteq> '''' \<Longrightarrow> rp_Domain (entry d) \<noteq> '''' \<Longrightarrow> en = filled_entry (entry d) \<Longrightarrow>
      (\<forall>i s. earned kc (mw_au w) (en\<lparr>rp_ID := i, rp_CompletedAt := s, rp_TaskID := (if 0 < rp_TaskID (entry d) then rp_TaskID (entry d) else 0)\<rparr>))"
    and "record_all failed now entry k ds w = (r, w')"
  shows "market_inv kc w' \<and> market_later w w' \<and> mw_au w' = mw_au w"
  using assms
proof (induction ds arbitrary: k w r w')
  case Nil
  then show ?case by (simp add: market_later_refl)
next
  case (Cons d ds)
  obtain r1 w1 where r1: "RecordEntry (failed k) now (entry d) w = (r1, w1)" by fastforce
  have s1: "market_inv kc w1 \<and> market_later w w1" by (rule RecordEntry_step [OF Cons.prems(1) _ r1]) (use Cons.prems(2) in simp)
  have au: "mw_au w1 = mw_au w" using RecordEntry_Inr [OF r1] by blast
  show ?case
  proof (cases r1)
    case (Inl e)
    with Cons.prems(3) r1 s1 au show ?thesis by simp
  next
    case (Inr en)
    obtain r2 w2 where r2: "record_all failed now entry (k + 1) ds w1 = (r2, w2)" by fastforce
    have "w' = w2" using Cons.prems(3) r1 r2 Inr by (simp split: sum.splits)
    moreover have "market_inv kc w2 \<and> market_later w1 w2 \<and> mw_au w2 = mw_au w1"
      by (rule Cons.IH [OF _ _ r2]) (use s1 Cons.prems(2) au in auto)
    ultimately show ?thesis using s1 au market_later_trans by auto
  qed
qed

lemma clamp_score_range: "0 \<le> clamp_score s \<and> clamp_score s \<le> 1"
  by (simp add: clamp_score_def Let_def)

lemma task_meta_weight: "am_DifficultyWeight (task_meta kc t) \<noteq> 0"
  by (simp add: task_meta_def Let_def)

lemma filled_done_entry [simp]: "filled_entry (done_entry kc t bids i a n s d) = done_entry kc t bids i a n s d"
  by (simp add: filled_entry_def done_entry_def task_meta_weight)

lemma callMarkTaskDone_step:
  assumes inv: "market_inv kc w"
  shows "market_inv kc (snd (callMarkTaskDone flt kc now a i n s w)) \<and> market_later w (snd (callMarkTaskDone flt kc now a i n s w))"
proof (cases "i = 0 \<or> isl (GetTaskWithBids (\<lambda>st. flt (KLoad st)) i (mw_au w))")
  case True
  with inv show ?thesis by (auto simp: callMarkTaskDone_def MarkTaskDone_def market_later_refl split: sum.splits)
next
  case False
  then obtain t bids where g: "GetTaskWithBids (\<lambda>st. flt (KLoad st)) i (mw_au w) = Inr (t, bids)"
    by (cases "GetTaskWithBids (\<lambda>st. flt (KLoad st)) i (mw_au w)") auto
  then have get: "get_task (flt (KLoad AGetTask)) i (mw_au w) = Inr t" by (auto simp: GetTaskWithBids_def split: sum.splits)
  obtain r db where c: "CompleteTask (\<lambda>st. flt (KSwarm st)) now i a (mw_au w) = (r, db)" by fastforce
  have w1: "market_inv kc (w\<lparr>mw_au := db\<rparr>) \<and> market_later w (w\<lparr>mw_au := db\<rparr>)"
    using au_exec_market [OF inv, of "(\<lambda>st. flt (KSwarm st), OCompleteTask now i a)"] c by simp
  show ?thesis
  proof (cases r)
    case (Inl e)
    with c g w1 False show ?thesis by (simp add: callMarkTaskDone_def MarkTaskDone_def)
  next
    case (Inr u)
    have auinv: "au_inv (mw_au w)" using inv by (simp add: market_inv_def)
    from CompleteTask_Inr [OF auinv get c [unfolded Inr]] obtain t' where
      t': "t' \<in> set (ad_tasks db)" "at_ID t' = i" "at_Status t' = ACompleted" "at_AssignedTo t' = a" "at_Requirements t' = at_Requirements t" by auto
    have m: "task_meta kc t' = task_meta kc t" using t'(5) by (rule task_meta_same)
    then have ds: "domains_of kc t' = domains_of kc t" by (simp add: domains_of_def)
    have pos: "0 < i" using t'(1,2) w1 by (auto simp: market_inv_def au_inv_def ids_ok_def)
    define entry where "entry = done_entry kc t bids i a n (clamp_score s)"
    obtain r2 w2 where rec: "record_all (\<lambda>k. flt (KRecord k)) now entry 0 (domains_of kc t) (w\<lparr>mw_au := db\<rparr>) = (r2, w2)" by fastforce
    have "market_inv kc w2 \<and> market_later (w\<lparr>mw_au := db\<rparr>) w2 \<and> mw_au w2 = mw_au (w\<lparr>mw_au := db\<rparr>)"
    proof (rule record_all_step [OF _ _ rec])
      fix d en assume d: "d \<in> set (domains_of kc t)" "rp_AgentName (entry d) \<noteq> ''''" "rp_Domain (entry d) \<noteq> ''''" "en = filled_entry (entry d)"
      then show "\<forall>j x. earned kc (mw_au (w\<lparr>mw_au := db\<rparr>)) (en\<lparr>rp_ID := j, rp_CompletedAt := x,
          rp_TaskID := (if 0 < rp_TaskID (entry d) then rp_TaskID (entry d) else 0)\<rparr>)"
        using t' m ds pos clamp_score_range [of s]
        by (auto simp: earned_def entry_def done_entry_def filled_entry_def task_meta_weight intro!: bexI [of _ t'])
    qed (use w1 in simp)
    then have "market_inv kc w2 \<and> market_later w w2" using w1 market_later_trans by blast
    from this market_trace_step [OF this, of a "''marketplace.task_done''"] show ?thesis
      using c g False Inr rec by (cases r2) (simp_all add: callMarkTaskDone_def MarkTaskDone_def entry_def [abs_def])
  qed
qed

lemma market_exec_step: "market_inv kc w \<Longrightarrow> market_inv kc (market_exec kc op w) \<and> market_later w (market_exec kc op w)"
proof (cases op)
  case (KtRest ch wiki agents mop)
  assume "market_inv kc w"
  with KtRest ml.exec_inv show ?thesis by (simp add: market_inv_def market_later_def)
qed (simp_all add: callPostAuction_step callBid_step callAward_step callMarkTaskDone_step au_exec_market)

interpretation mkt: history_system "market_exec kc" "market_inv kc" market_later for kc
  by unfold_locales (auto intro: market_later_refl market_later_trans simp: market_exec_step)

definition market_empty :: market where
  "market_empty = \<lparr>mw_au = au_empty True, mw_ch = ch_empty False, mw_wiki = wiki_empty, mw_msg = msg_empty, mw_agents = [],
     mw_rep = [], mw_rep_seq = 0\<rparr>"

lemma market_empty_inv: "market_inv kc market_empty"
  by (simp add: market_inv_def market_empty_def au_empty_inv msg_empty_inv)

section \<open>Properties\<close>

definition reputation_ok :: "market_codec \<Rightarrow> market \<Rightarrow> bool" where
  "reputation_ok kc w \<longleftrightarrow>
     (\<forall>e \<in> set (mw_rep w). \<exists>t \<in> set (ad_tasks (mw_au w)). at_ID t = rp_TaskID e \<and> at_Status t = ACompleted \<and>
        at_AssignedTo t = rp_AgentName e \<and> at_PostedBy t \<noteq> rp_AgentName e \<and>
        (\<exists>b \<in> set (ad_bids (mw_au w)). bd_TaskID b = at_ID t \<and> bd_AgentName b = rp_AgentName e) \<and>
        rp_Domain e \<in> set (domains_of kc t) \<and> rp_DifficultyWeight e = am_DifficultyWeight (task_meta kc t) \<and>
        0 \<le> rp_SuccessScore e \<and> rp_SuccessScore e \<le> 1)"

lemma market_inv_reputation:
  assumes inv: "market_inv kc w" shows "reputation_ok kc w"
  unfolding reputation_ok_def
proof
  fix e assume "e \<in> set (mw_rep w)"
  then have e: "earned kc (mw_au w) e" using inv by (simp add: market_inv_def)
  then obtain t where t: "t \<in> set (ad_tasks (mw_au w))" "at_ID t = rp_TaskID e" "at_Status t = ACompleted" "at_AssignedTo t = rp_AgentName e"
    "rp_Domain e \<in> set (domains_of kc t)" "rp_DifficultyWeight e = am_DifficultyWeight (task_meta kc t)" by (auto simp: earned_def)
  have au: "au_inv (mw_au w)" using inv by (simp add: market_inv_def)
  from completed_bid [OF au t(1,3)] obtain b where
    "b \<in> set (ad_bids (mw_au w))" "bd_TaskID b = at_ID t" "bd_AgentName b = at_AssignedTo t" "at_PostedBy t \<noteq> at_AssignedTo t" by auto
  with t e show "\<exists>t \<in> set (ad_tasks (mw_au w)). at_ID t = rp_TaskID e \<and> at_Status t = ACompleted \<and>
    at_AssignedTo t = rp_AgentName e \<and> at_PostedBy t \<noteq> rp_AgentName e \<and>
    (\<exists>b \<in> set (ad_bids (mw_au w)). bd_TaskID b = at_ID t \<and> bd_AgentName b = rp_AgentName e) \<and>
    rp_Domain e \<in> set (domains_of kc t) \<and> rp_DifficultyWeight e = am_DifficultyWeight (task_meta kc t) \<and>
    0 \<le> rp_SuccessScore e \<and> rp_SuccessScore e \<le> 1" by (intro bexI [of _ t]) (auto simp: earned_def)
qed

text \<open>
  C26. Reputation is earned and kept: along every run of the marketplace, the auctions and the messages, whatever
  statements fail and whatever channels and articles become, each entry of the ledger belongs to a completed task, was
  given to the agent whose bid won that task and who did not post it, for a domain and with the weight the task
  declares, with a score between 0 and 1; and entries are only ever appended.
\<close>

theorem reputation_earned:
  "reputation_ok kc (fold (market_exec kc) ops market_empty) \<and>
   (\<exists>new. mw_rep (fold (market_exec kc) (ops @ more_ops) market_empty) = mw_rep (fold (market_exec kc) ops market_empty) @ new)"
proof -
  have inv: "market_inv kc (fold (market_exec kc) ops market_empty)" using market_empty_inv by (rule mkt.run_inv)
  from market_inv_reputation [OF inv] mkt.run_later [OF inv, of more_ops] show ?thesis by (simp add: market_later_def)
qed

text \<open>The entries a completion writes, and the ids they get.\<close>

fun numbered :: "id64 \<Rightarrow> timestamp \<Rightarrow> ReputationEntry list \<Rightarrow> ReputationEntry list" where
  "numbered i now [] = []"
| "numbered i now (e # es) = e\<lparr>rp_ID := i, rp_CompletedAt := now\<rparr> # numbered (i + 1) now es"

lemma record_all_exact:
  assumes "\<And>d. d \<in> set ds \<Longrightarrow> filled_entry (entry d) = entry d \<and> 0 < rp_TaskID (entry d) \<and> rp_AgentName (entry d) \<noteq> '''' \<and> rp_Domain (entry d) \<noteq> ''''"
    and "record_all (\<lambda>_. False) now entry k ds w = (r, w')"
  shows "\<not> isl r \<and> mw_rep w' = mw_rep w @ numbered (mw_rep_seq w + 1) now (map entry ds)"
  using assms
proof (induction ds arbitrary: k w r w')
  case (Cons d ds)
  let ?e = "(entry d)\<lparr>rp_ID := mw_rep_seq w + 1, rp_CompletedAt := now\<rparr>"
  have same: "(entry d)\<lparr>rp_ID := i, rp_CompletedAt := now, rp_TaskID := rp_TaskID (entry d)\<rparr> = (entry d)\<lparr>rp_ID := i, rp_CompletedAt := now\<rparr>" for i
    by (cases "entry d") simp
  have d: "RecordEntry False now (entry d) w = (Inr ((entry d)\<lparr>rp_ID := mw_rep_seq w + 1\<rparr>),
      w\<lparr>mw_rep := mw_rep w @ [?e], mw_rep_seq := mw_rep_seq w + 1\<rparr>)" (is "_ = (_, ?w1)")
    using Cons.prems(1) [of d] same by (simp add: RecordEntry_def Let_def)
  obtain r2 w2 where r2: "record_all (\<lambda>_. False) now entry (k + 1) ds ?w1 = (r2, w2)" by fastforce
  with Cons.IH [OF _ r2] Cons.prems(1) have "\<not> isl r2" "mw_rep w2 = mw_rep ?w1 @ numbered (mw_rep_seq ?w1 + 1) now (map entry ds)" by auto
  then show ?case using Cons.prems(2) d r2 by (cases r2) auto
qed simp

lemma record_all_refused:
  "d \<in> set ds \<Longrightarrow> rp_Domain (entry d) = '''' \<Longrightarrow> isl (fst (record_all failed now entry k ds w))"
proof (induction ds arbitrary: k w)
  case (Cons x ds)
  obtain r1 w1 where r1: "RecordEntry (failed k) now (entry x) w = (r1, w1)" by fastforce
  show ?case
  proof (cases r1)
    case (Inr en)
    then have "x \<noteq> d" using r1 Cons.prems(2) by (auto simp: RecordEntry_def split: if_splits)
    then have "isl (fst (record_all failed now entry (k + 1) ds w1))" using Cons by auto
    then show ?thesis using r1 Inr by (auto simp: isl_def split: sum.splits prod.splits)
  qed (use r1 in simp)
qed simp

lemma get_task_here:
  "au_inv db \<Longrightarrow> t \<in> set (ad_tasks db) \<Longrightarrow> get_task False (at_ID t) db = Inr t"
  using find_row_id [of at_ID "ad_task_seq db" "ad_tasks db" t] by (simp add: get_task_def au_inv_def)

lemma CompleteTask_here:
  assumes inv: "au_inv db" and t: "t \<in> set (ad_tasks db)"
  shows "isl (fst (CompleteTask (\<lambda>_. False) now (at_ID t) a db)) \<longleftrightarrow> \<not> (given (at_Status t) \<and> at_AssignedTo t = a)"
proof -
  have "rows_affected (\<lambda>x. at_ID x = at_ID t) (ad_tasks db) \<noteq> 0" using t by (auto simp: rows_affected_0)
  then show ?thesis using get_task_here [OF inv t]
    by (cases "at_Status t") (auto simp: CompleteTask_def UpdateTaskStatus_def Let_def given_def)
qed


text \<open>An example: \<open>alice\<close> posts a task with two domains, \<open>bob\<close> bids, wins and reports it done.\<close>

definition demo_codec :: market_codec where
  "demo_codec = \<lparr>kc_TaskText = (\<lambda>_. Some ''m''), kc_TaskMeta = (\<lambda>s. if s = ''m'' then zero_meta\<lparr>am_Domains := [''go'', ''sql''],
     am_DifficultyWeight := 2\<rparr> else zero_meta), kc_BidText = (\<lambda>_. Some ''b''),
     kc_BidMeta = (\<lambda>_. \<lparr>bm_EstimatedTokens = 900, bm_Confidence = 1, bm_Approach = '''', bm_ManifestRevision = 0\<rparr>)\<rparr>"

definition demo_channels :: ch_db where
  "demo_channels = fold ch_exec
     [(\<lambda>_. False, OCreateChannel 1 \<lparr>cr_Name = ''jobs'', cr_Description = '''', cr_Topic = '''', cr_Type = ''auction'', cr_IsPrivate = False,
        cr_IsSystem = False, cr_CreatedBy = ''alice''\<rparr>), (\<lambda>_. False, OJoinChannel 2 1 ''bob'')] (ch_empty False)"

definition demo_market :: market where
  "demo_market = fold (market_exec demo_codec)
     [KtRest demo_channels wiki_empty [''alice'', ''bob''] (OpSetRead \<lparr>en_agents = [], en_channels = [], en_members = [], en_flt = (\<lambda>_. False)\<rparr> 1 ''bob'' 1 0),
      KtPost (\<lambda>_. False) (\<lambda>_. None) (\<lambda>_. None) 5 ''alice'' ''jobs'' ''Index'' '''' '''' 0 2 (ArgText ''go, sql'') '''',
      KtBid (\<lambda>_. False) 6 ''bob'' 1 \<lparr>bm_EstimatedTokens = 900, bm_Confidence = 1, bm_Approach = '''', bm_ManifestRevision = 0\<rparr> '''',
      KtSwarm (\<lambda>_. False, OAcceptBid 7 1 1 ''alice'')] market_empty"

lemma demo_market_inv: "market_inv demo_codec demo_market"
  unfolding demo_market_def using market_empty_inv by (rule mkt.run_inv)

definition demo_done :: "market \<Rightarrow> market" where
  "demo_done w = snd (callMarkTaskDone (\<lambda>_. False) demo_codec 9 ''bob'' 1 700 3 w)"


section \<open>What the ledger lets through\<close>

text \<open>Reporting the same task again credits its assignee again.\<close>

lemma done_again_credits_again: "length (mw_rep (demo_done demo_market)) = 2 \<and> length (mw_rep (demo_done (demo_done demo_market))) = 4"
  by code_simp

text \<open>A domain declared twice is credited twice in one report.\<close>

lemma domain_twice: "parseStringList (\<lambda>_. None) (ArgText ''go, go'') = [''go'', ''go'']"
  by code_simp

text \<open>Weights are not checked: with a negative one the weighted score leaves the interval from 0 to 1.\<close>

lemma weighted_score_exceeds_one:
  "let e = \<lparr>rp_ID = 1, rp_AgentName = ''bob'', rp_Domain = ''go'', rp_TaskID = 1, rp_EstimatedTokens = 0, rp_ActualTokens = 0,
         rp_SuccessScore = 1, rp_DifficultyWeight = 3, rp_CompletedAt = 0\<rparr>;
       w = market_empty\<lparr>mw_rep := [e, e\<lparr>rp_ID := 2, rp_TaskID := 2, rp_SuccessScore := 0, rp_DifficultyWeight := - 2\<rparr>]\<rparr>
   in map_sum id ru_WeightedSuccessScore (rep_Summary False ''bob'' ''go'' w) = Inr 3"
  by (simp add: Let_def rep_Summary_def rep_sum_def)

text \<open>Agents whose names differ in a dash and an underscore share one skill card.\<close>

lemma skill_cards_shared: "SkillCardSlug ''a_b'' = SkillCardSlug ''a-b''"
  by code_simp

text \<open>The score of an agent in a domain lies between 0 and 1.\<close>

lemma average_score_range:
  assumes "market_inv kc w" "rep_Summary failed a d w = Inr s"
  shows "0 \<le> ru_AvgSuccessScore s \<and> ru_AvgSuccessScore s \<le> 1"
proof -
  define es where "es = filter (\<lambda>e. rp_AgentName e = a \<and> rp_Domain e = d) (mw_rep w)"
  have r: "0 \<le> rp_SuccessScore e \<and> rp_SuccessScore e \<le> 1" if "e \<in> set es" for e
    using that assms(1) by (auto simp: es_def market_inv_def earned_def)
  then have "0 \<le> rep_sum rp_SuccessScore es \<and> rep_sum rp_SuccessScore es \<le> of_nat (length es)"
    unfolding rep_sum_def by (induction es) (auto simp: add_nonneg_nonneg intro: add_mono)
  with assms(2) show ?thesis
    by (auto simp: rep_Summary_def es_def [symmetric] Let_def split: if_splits)
qed

end
