(* ===== verification/Spec2Isabelle.thy ===== *)
theory Spec2Isabelle
  imports Goal_Tasks Message_Lifecycle Reactions Channels Auction Webhooks Reactor_Limits Hub Sign_In Registry Dream_Worker Attachments Injection Storage Wiki Goals Marketplace
begin

text \<open>
  SynapBus, verified: a model of the agent messaging server of \<open>src/\<close>.
\<close>

section \<open>Properties that span components\<close>


end
